(* ===== verification/Prelude.thy ===== *)
theory Prelude
  imports Main "HOL-Library.Word"
begin

text \<open>
  Shared vocabulary of the development: machine words, the fault values that stand for
  failed assertions and accesses outside an object, their sequencing, byte buffers with
  the effect of memcpy on them, and the little-endian layout of words in memory.
\<close>

unbundle bit_operations_syntax

named_theorems res_simps \<open>unfolding of fault sequencing\<close>
named_theorems buf_simps \<open>lengths and contents of byte buffers\<close>

type_synonym byte = "8 word"
type_synonym u16 = "16 word"
type_synonym u32 = "32 word"

section \<open>Faults\<close>

text \<open>
  \<open>Assert_failed\<close> is a failing xassert or configASSERT, \<open>Bad_access\<close> a read or a write
  outside the object a pointer belongs to, \<open>Bad_vararg\<close> a variable argument list whose
  arguments do not match the parameter descriptors, \<open>Int_overflow\<close> a C int that overflows (which is
  undefined), \<open>Never_returns\<close> a call that loops for ever, where a computation is given as a result and
  not as an option of one.
\<close>

datatype fault = Assert_failed | Bad_access | Bad_vararg | Int_overflow | Never_returns

type_synonym 'a res = "fault + 'a"

definition rbind :: "'a res \<Rightarrow> ('a \<Rightarrow> 'b res) \<Rightarrow> 'b res" where
  "rbind r f = (case r of Inl e \<Rightarrow> Inl e | Inr x \<Rightarrow> f x)"

definition xassert :: "bool \<Rightarrow> 'a res \<Rightarrow> 'a res" where
  "xassert b k = (if b then k else Inl Assert_failed)"

lemma rbind_Inl [simp, res_simps]: "rbind (Inl e) f = Inl e"
  by (simp add: rbind_def)

lemma rbind_Inr [simp, res_simps]: "rbind (Inr x) f = f x"
  by (simp add: rbind_def)

lemma rbind_eq_Inr [res_simps]:
  "rbind r f = Inr y \<longleftrightarrow> (\<exists>x. r = Inr x \<and> f x = Inr y)"
  by (cases r) auto

lemma rbind_assoc: "rbind (rbind r f) g = rbind r (\<lambda>x. rbind (f x) g)"
  by (cases r) auto

lemma rbind_cong [fundef_cong]:
  "r = r' \<Longrightarrow> (\<And>x. r' = Inr x \<Longrightarrow> f x = f' x) \<Longrightarrow> rbind r f = rbind r' f'"
  by (cases r') auto

lemma xassert_True [simp, res_simps]: "xassert True k = k"
  by (simp add: xassert_def)

lemma xassert_False [simp, res_simps]: "xassert False k = Inl Assert_failed"
  by (simp add: xassert_def)

lemma xassert_eq_Inr [res_simps]: "xassert b k = Inr y \<longleftrightarrow> b \<and> k = Inr y"
  by (simp add: xassert_def)

text \<open>
  A computation with a loop that may not end has type \<open>'a res option\<close>, with \<open>None\<close> for one that
  never returns.
\<close>

definition lbind :: "'a res option \<Rightarrow> ('a \<Rightarrow> 'b res option) \<Rightarrow> 'b res option" where
  "lbind r f = (case r of None \<Rightarrow> None | Some (Inl e) \<Rightarrow> Some (Inl e) | Some (Inr x) \<Rightarrow> f x)"

definition returned_res :: "'a res option \<Rightarrow> 'a res" where
  "returned_res r = (case r of None \<Rightarrow> Inl Never_returns | Some x \<Rightarrow> x)"

lemma returned_res_simps [simp]: "returned_res None = Inl Never_returns" "returned_res (Some x) = x"
  by (simp_all add: returned_res_def)

lemma lbind_simps [simp, res_simps]:
  "lbind None f = None" "lbind (Some (Inl e)) f = Some (Inl e)" "lbind (Some (Inr x)) f = f x"
  by (simp_all add: lbind_def)

lemma lbind_eq_Inr [res_simps]:
  "lbind r f = Some (Inr y) \<longleftrightarrow> (\<exists>x. r = Some (Inr x) \<and> f x = Some (Inr y))"
  by (auto simp: lbind_def split: option.splits sum.splits)

section \<open>Byte buffers\<close>

text \<open>
  An object in memory is the list of its bytes. \<open>read_mem m n\<close> is what memcpy copies out
  of the first \<open>n\<close> bytes at a pointer to \<open>m\<close>; \<open>write_mem m bs\<close> is the object after memcpy
  has copied \<open>bs\<close> to its start. \<open>put_at\<close> writes a run of elements at an index.
\<close>

definition read_mem :: "byte list \<Rightarrow> nat \<Rightarrow> byte list res" where
  "read_mem m n = (if n \<le> length m then Inr (take n m) else Inl Bad_access)"

definition write_mem :: "byte list \<Rightarrow> byte list \<Rightarrow> byte list res" where
  "write_mem m bs =
     (if length bs \<le> length m then Inr (bs @ drop (length bs) m) else Inl Bad_access)"

definition put_at :: "'a list \<Rightarrow> nat \<Rightarrow> 'a list \<Rightarrow> 'a list" where
  "put_at xs i ys = take i xs @ ys @ drop (i + length ys) xs"

lemma read_mem_ok [simp]: "n \<le> length m \<Longrightarrow> read_mem m n = Inr (take n m)"
  by (simp add: read_mem_def)

lemma write_mem_ok [simp]:
  "length bs \<le> length m \<Longrightarrow> write_mem m bs = Inr (bs @ drop (length bs) m)"
  by (simp add: write_mem_def)

lemma length_put_at [simp, buf_simps]:
  "i + length ys \<le> length xs \<Longrightarrow> length (put_at xs i ys) = length xs"
  by (simp add: put_at_def)

lemma put_at_Nil [simp, buf_simps]: "put_at xs i [] = xs"
  by (simp add: put_at_def)

lemma nth_put_at [buf_simps]:
  "i + length ys \<le> length xs \<Longrightarrow> j < length xs \<Longrightarrow>
     put_at xs i ys ! j = (if i \<le> j \<and> j < i + length ys then ys ! (j - i) else xs ! j)"
  by (auto simp: put_at_def nth_append min_def)

lemma take_drop_put_at [simp, buf_simps]:
  "i + length ys \<le> length xs \<Longrightarrow> take (length ys) (drop i (put_at xs i ys)) = ys"
  by (simp add: put_at_def)

lemma put_at_put_at:
  "i + length ys + length zs \<le> length xs \<Longrightarrow>
     put_at (put_at xs i ys) (i + length ys) zs = put_at xs i (ys @ zs)"
proof (cases "length xs \<le> i")
  case True
  moreover assume "i + length ys + length zs \<le> length xs"
  ultimately have "length ys = 0" "length zs = 0" by arith+
  then show ?thesis by simp
next
  case False
  moreover assume "i + length ys + length zs \<le> length xs"
  ultimately show ?thesis by (auto simp: put_at_def min_def ac_simps)
qed

lemma put_at_single: "i < length xs \<Longrightarrow> xs[i := y] = put_at xs i [y]"
  by (simp add: put_at_def upd_conv_take_nth_drop)

section \<open>Words in memory\<close>

text \<open>
  The XCORE is little endian. \<open>word_bytes n w\<close> is the \<open>n\<close>-byte representation of \<open>w\<close>
  (C's conversion to a narrower type keeps the low bytes), \<open>bytes_word\<close> reads it back.
\<close>

definition word_bytes :: "nat \<Rightarrow> 'a::len word \<Rightarrow> byte list" where
  "word_bytes n w = map (\<lambda>i. ucast (drop_bit (8 * i) w)) [0..<n]"

primrec bytes_word :: "byte list \<Rightarrow> 'a::len word" where
  "bytes_word [] = 0"
| "bytes_word (b # bs) = ucast b OR push_bit 8 (bytes_word bs)"

lemma length_word_bytes [simp, buf_simps]: "length (word_bytes n w) = n"
  by (simp add: word_bytes_def)

lemma word_bytes_eq_Nil [simp, buf_simps]: "word_bytes n w = [] \<longleftrightarrow> n = 0"
  by (simp add: word_bytes_def)

lemma bit_bytes_word:
  "bit (bytes_word bs :: 'a::len word) i \<longleftrightarrow>
     i < LENGTH('a) \<and> i div 8 < length bs \<and> bit (bs ! (i div 8)) (i mod 8)"
proof (induction bs arbitrary: i)
  case Nil
  then show ?case by simp
next
  case (Cons b bs)
  show ?case
  proof (cases "i < 8")
    case True
    then show ?thesis
      by (auto simp: bit_simps Cons.IH)
  next
    case False
    then have "i div 8 = Suc ((i - 8) div 8)" "(i - 8) mod 8 = i mod 8"
      by (simp_all add: le_div_geq le_mod_geq)
    with False show ?thesis
      by (auto simp: bit_simps Cons.IH dest: bit_imp_le_length)
  qed
qed

lemma bytes_word_bytes [simp]:
  fixes w :: "'a::len word"
  assumes "LENGTH('a) \<le> 8 * n"
  shows "bytes_word (word_bytes n w) = w"
proof (rule bit_word_eqI)
  fix i
  assume i: "i < LENGTH('a)"
  with assms have "i div 8 < n" by (simp add: less_mult_imp_div_less)
  moreover have "8 * (i div 8) + i mod 8 = i" by simp
  ultimately show "bit (bytes_word (word_bytes n w) :: 'a word) i = bit w i"
    using i by (simp add: bit_bytes_word word_bytes_def bit_simps)
qed

lemma bytes_word_ucast_bytes:
  fixes w :: "'a::len word"
  assumes "8 * n = LENGTH('b::len)" and "LENGTH('b) \<le> LENGTH('a)"
  shows "bytes_word (word_bytes n w) = (ucast w :: 'b word)"
proof (rule bit_word_eqI)
  fix i
  assume i: "i < LENGTH('b)"
  from i assms(1) have "i div 8 < n" by (simp add: less_mult_imp_div_less mult.commute)
  moreover have "8 * (i div 8) + i mod 8 = i" by simp
  ultimately show "bit (bytes_word (word_bytes n w) :: 'b word) i = bit (ucast w :: 'b word) i"
    using i assms(2) by (simp add: bit_bytes_word word_bytes_def bit_simps)
qed

lemma word_bytes_ucast:
  fixes w :: "'a::len word"
  assumes "8 * n \<le> LENGTH('b::len)" and "8 * n \<le> LENGTH('a)"
  shows "word_bytes n (ucast w :: 'b word) = word_bytes n w"
proof (rule nth_equalityI)
  fix i assume "i < length (word_bytes n (ucast w :: 'b word))"
  then have i: "i < n" by simp
  show "word_bytes n (ucast w :: 'b word) ! i = word_bytes n w ! i"
  proof (rule bit_word_eqI)
    fix k assume k: "k < LENGTH(8)"
    with i assms have "8 * i + k < LENGTH('b)" "8 * i + k < LENGTH('a)" by auto
    with i k show "bit (word_bytes n (ucast w :: 'b word) ! i) k = bit (word_bytes n w ! i) k"
      by (simp add: word_bytes_def bit_simps)
  qed
qed simp

lemma word_bytes_bytes [simp]:
  assumes "8 * length bs = LENGTH('a)"
  shows "word_bytes (length bs) (bytes_word bs :: 'a::len word) = bs"
proof (rule nth_equalityI)
  fix i assume "i < length (word_bytes (length bs) (bytes_word bs :: 'a word))"
  then have i: "i < length bs" by simp
  show "word_bytes (length bs) (bytes_word bs :: 'a word) ! i = bs ! i"
  proof (rule bit_word_eqI)
    fix k assume k: "k < LENGTH(8)"
    with i assms have "8 * i + k < LENGTH('a)" by auto
    moreover from k have "(8 * i + k) div 8 = i" "(8 * i + k) mod 8 = k" by auto
    ultimately show "bit (word_bytes (length bs) (bytes_word bs :: 'a word) ! i) k = bit (bs ! i) k"
      using i k by (simp add: word_bytes_def bit_simps bit_bytes_word)
  qed
qed simp

section \<open>State machines\<close>

text \<open>
  A step relation with a start and an invariant that the start has and every step keeps:
  whatever is reached has it.
\<close>

locale state_machine =
  fixes start :: 's and step :: "'s \<Rightarrow> 's \<Rightarrow> bool" and inv :: "'s \<Rightarrow> bool"
  assumes start: "inv start" and step: "step s s' \<Longrightarrow> inv s \<Longrightarrow> inv s'"
begin

lemma reachable: "step\<^sup>*\<^sup>* start s \<Longrightarrow> inv s"
  by (induction rule: rtranclp_induct) (auto intro: start step)

end

end
