(* ===== verification/Rtos_Rpc.thy ===== *)
theory Rtos_Rpc
  imports Prelude
begin

text \<open>
  The RPC library (modules/drivers/rpc): the parameter descriptors of rtos_rpc.h, and the
  marshalling of requests and responses of rtos_rpc.c, on the bytes that cross the
  intertile link. Arguments are the memory their pointers refer to; the two directions of
  the intertile transfer of a call are the parameter \<open>transact\<close>. The locale
  \<open>rpc_service\<close> is the contract between a client's call and a host's dispatch thread,
  proved once here and interpreted by each driver for its own functions.
\<close>

section \<open>Parameter descriptors\<close>

text \<open>
  \<open>rpc_param_desc_t\<close> is one 32-bit word of bit fields: 24 bits of length, then the flags
  ptr, input and output. The descriptor macros store the size they compute in the 24-bit
  field, so only its low 24 bits are kept.
\<close>

record rpc_param_desc =
  plength :: "24 word"
  is_ptr :: bool
  is_input :: bool
  is_output :: bool

abbreviation plen :: "rpc_param_desc \<Rightarrow> nat" where
  "plen d \<equiv> unat (plength d)"

definition RPC_PARAM_TYPE :: "nat \<Rightarrow> rpc_param_desc" where
  "RPC_PARAM_TYPE sz = \<lparr>plength = of_nat sz, is_ptr = False, is_input = True, is_output = False\<rparr>"

definition RPC_PARAM_RETURN :: "nat \<Rightarrow> rpc_param_desc" where
  "RPC_PARAM_RETURN sz = \<lparr>plength = of_nat sz, is_ptr = False, is_input = False, is_output = True\<rparr>"

definition RPC_PARAM_IN_BUFFER :: "nat \<Rightarrow> nat \<Rightarrow> rpc_param_desc" where
  "RPC_PARAM_IN_BUFFER sz len =
     \<lparr>plength = of_nat (sz * len), is_ptr = True, is_input = True, is_output = False\<rparr>"

definition RPC_PARAM_OUT_BUFFER :: "nat \<Rightarrow> nat \<Rightarrow> rpc_param_desc" where
  "RPC_PARAM_OUT_BUFFER sz len =
     \<lparr>plength = of_nat (sz * len), is_ptr = True, is_input = False, is_output = True\<rparr>"

definition RPC_PARAM_INOUT_BUFFER :: "nat \<Rightarrow> nat \<Rightarrow> rpc_param_desc" where
  "RPC_PARAM_INOUT_BUFFER sz len =
     \<lparr>plength = of_nat (sz * len), is_ptr = True, is_input = True, is_output = True\<rparr>"

definition RPC_PARAM_LIST_END :: rpc_param_desc where
  "RPC_PARAM_LIST_END = \<lparr>plength = 0, is_ptr = False, is_input = False, is_output = False\<rparr>"

lemmas rpc_param_defs =
  RPC_PARAM_TYPE_def RPC_PARAM_RETURN_def RPC_PARAM_IN_BUFFER_def
  RPC_PARAM_OUT_BUFFER_def RPC_PARAM_INOUT_BUFFER_def RPC_PARAM_LIST_END_def

definition word_of_desc :: "rpc_param_desc \<Rightarrow> u32" where
  "word_of_desc d =
     ucast (plength d) OR push_bit 24 (of_bool (is_ptr d))
       OR push_bit 25 (of_bool (is_input d)) OR push_bit 26 (of_bool (is_output d))"

definition desc_of_word :: "u32 \<Rightarrow> rpc_param_desc" where
  "desc_of_word w = \<lparr>plength = ucast w, is_ptr = bit w 24, is_input = bit w 25, is_output = bit w 26\<rparr>"

definition desc_bytes :: "rpc_param_desc \<Rightarrow> byte list" where
  "desc_bytes d = word_bytes 4 (word_of_desc d)"

lemma desc_of_word_of_desc [simp]: "desc_of_word (word_of_desc d) = d"
proof -
  have "ucast (word_of_desc d) = plength d"
    by (rule bit_word_eqI) (auto simp: word_of_desc_def bit_simps)
  moreover have "bit (word_of_desc d) 24 = is_ptr d" "bit (word_of_desc d) 25 = is_input d"
      "bit (word_of_desc d) 26 = is_output d"
    by (auto simp: word_of_desc_def bit_simps dest: bit_imp_le_length)
  ultimately show ?thesis by (simp add: desc_of_word_def)
qed

lemma length_desc_bytes [simp, buf_simps]: "length (desc_bytes d) = 4"
  by (simp add: desc_bytes_def)

lemma desc_of_desc_bytes [simp]: "desc_of_word (bytes_word (desc_bytes d)) = d"
  by (simp add: desc_bytes_def)

section \<open>Requests\<close>

text \<open>
  The first loop of \<open>rpc_request_marshall_va\<close> counts the descriptors up to the list end
  and adds up the lengths of the inputs; an array without a list end is read past its end.
\<close>

fun desc_scan :: "rpc_param_desc list \<Rightarrow> (nat \<times> nat) res" where
  "desc_scan [] = Inl Bad_access"
| "desc_scan (d # ds) =
     (if is_input d \<or> is_output d
      then rbind (desc_scan ds)
             (\<lambda>(count, total). Inr (Suc count, (if is_input d then plen d else 0) + total))
      else Inr (0, 0))"

text \<open>The totals are C ints.\<close>

definition c_int :: "nat \<Rightarrow> nat res" where
  "c_int n = (if n < 2 ^ 31 then Inr n else Inl Int_overflow)"

lemma c_int_ok [simp]: "n < 2 ^ 31 \<Longrightarrow> c_int n = Inr n"
  by (simp add: c_int_def)

text \<open>
  The message is written to a block from the allocator, of the size computed as a \<open>size_t\<close>; it has
  other contents before.
\<close>

definition write_msg :: "u32 \<Rightarrow> byte list \<Rightarrow> (nat \<times> byte list) res" where
  "write_msg msg_length bs =
     rbind (write_mem (replicate (unat msg_length) 0) bs) (\<lambda>msg. Inr (unat msg_length, msg))"

lemma write_msg_ok:
  assumes "length bs = n" "n < 2 ^ 31"
  shows "write_msg (of_nat n) bs = Inr (n, bs)"
proof -
  have "unat (of_nat n :: u32) = n" using assms(2) by (simp add: unat_of_nat take_bit_nat_eq_self)
  then show ?thesis using assms(1) by (simp add: write_msg_def)
qed

text \<open>The second loop copies each input from the memory its argument points to.\<close>

fun marshall_inputs :: "rpc_param_desc list \<Rightarrow> byte list list \<Rightarrow> byte list res" where
  "marshall_inputs [] args = Inr []"
| "marshall_inputs (d # ds) [] = Inl Bad_vararg"
| "marshall_inputs (d # ds) (a # as) =
     (if is_input d
      then rbind (read_mem a (plen d)) (\<lambda>b. rbind (marshall_inputs ds as) (\<lambda>bs. Inr (b @ bs)))
      else marshall_inputs ds as)"

definition rpc_request_marshall_va ::
  "u32 \<Rightarrow> rpc_param_desc list \<Rightarrow> byte list list \<Rightarrow> (nat \<times> byte list) res" where
  "rpc_request_marshall_va fcode param_desc ap =
     rbind (desc_scan param_desc) (\<lambda>(param_count, total).
     rbind (c_int total) (\<lambda>param_total_length.
       let msg_length = of_nat (4 + 4 + 4 * param_count + param_total_length) :: u32
       in rbind (marshall_inputs (take param_count param_desc) ap) (\<lambda>params.
            write_msg msg_length
              (word_bytes 4 fcode @ word_bytes 4 (of_nat param_count :: u32)
                 @ concat (map desc_bytes (take param_count param_desc)) @ params))))"

text \<open>
  \<open>rpc_msg_t\<close>: the descriptors and the parameters are pointers into the message, that is,
  the bytes from there on; the count is a C int.
\<close>

record rpc_msg =
  fcode :: u32
  param_count :: u32
  param_desc :: "byte list"
  params :: "byte list"

definition rpc_request_parse :: "byte list \<Rightarrow> rpc_msg res" where
  "rpc_request_parse msg_buf =
     rbind (read_mem msg_buf 4) (\<lambda>f.
     rbind (read_mem (drop 4 msg_buf) 4) (\<lambda>c.
       Inr \<lparr>fcode = bytes_word f, param_count = bytes_word c, param_desc = drop 8 msg_buf,
            params = drop (8 + 4 * unat (bytes_word c :: u32)) msg_buf\<rparr>))"

text \<open>The descriptors \<open>param_desc[0], \<dots>, param_desc[n - 1]\<close> read through the pointer.\<close>

fun desc_array :: "nat \<Rightarrow> byte list \<Rightarrow> rpc_param_desc list res" where
  "desc_array 0 bs = Inr []"
| "desc_array (Suc n) bs =
     rbind (read_mem bs 4) (\<lambda>b.
     rbind (desc_array n (drop 4 bs)) (\<lambda>ds. Inr (desc_of_word (bytes_word b) # ds)))"

definition msg_descs :: "rpc_msg \<Rightarrow> rpc_param_desc list res" where
  "msg_descs m = desc_array (nat (sint (param_count m))) (param_desc m)"

text \<open>
  What the host's argument variables hold after unmarshalling: a null pointer, a pointer to
  bytes of the message, the invalid pointer \<open>NULL + 1\<close> given for output buffers, the bytes
  of a value, or nothing (the variable is not written).
\<close>

datatype rpc_arg =
  Arg_null | Arg_ptr "byte list" | Arg_invalid | Arg_val "byte list" | Arg_unset

fun unmarshall_inputs :: "rpc_param_desc list \<Rightarrow> byte list \<Rightarrow> rpc_arg list res" where
  "unmarshall_inputs [] params_ptr = Inr []"
| "unmarshall_inputs (d # ds) params_ptr =
     (if is_ptr d
      then if is_input d
           then rbind (unmarshall_inputs ds (drop (plen d) params_ptr)) (\<lambda>as.
                  Inr ((if plength d > 0 then Arg_ptr (take (plen d) params_ptr) else Arg_null)
                       # as))
           else if is_output d
           then rbind (unmarshall_inputs ds params_ptr) (\<lambda>as.
                  Inr ((if plength d = 0 then Arg_null else Arg_invalid) # as))
           else rbind (unmarshall_inputs ds params_ptr) (\<lambda>as. Inr (Arg_unset # as))
      else if is_input d
           then rbind (read_mem params_ptr (plen d)) (\<lambda>v.
                rbind (unmarshall_inputs ds (drop (plen d) params_ptr)) (\<lambda>as.
                  Inr (Arg_val v # as)))
           else rbind (unmarshall_inputs ds params_ptr) (\<lambda>as. Inr (Arg_unset # as)))"

definition rpc_request_unmarshall_va :: "rpc_msg \<Rightarrow> rpc_arg list res" where
  "rpc_request_unmarshall_va m = rbind (msg_descs m) (\<lambda>ds. unmarshall_inputs ds (params m))"

section \<open>Responses\<close>

text \<open>
  The arguments of \<open>rpc_response_marshall_va\<close> are the values themselves: a pointer (the
  memory it points to) or an integer. Integers are taken at the size of the parameter,
  which has to be 1, 2, 4 or 8.
\<close>

datatype resp_arg = Resp_ptr "byte list" | Resp_val "64 word"

fun resp_source :: "rpc_param_desc \<Rightarrow> resp_arg \<Rightarrow> byte list res" where
  "resp_source d (Resp_ptr m) = (if is_ptr d then Inr m else Inl Bad_vararg)"
| "resp_source d (Resp_val v) =
     (if is_ptr d then Inl Bad_vararg
      else xassert (plen d \<in> {1, 2, 4, 8}) (Inr (word_bytes (plen d) v)))"

fun marshall_outputs :: "rpc_param_desc list \<Rightarrow> resp_arg list \<Rightarrow> byte list res" where
  "marshall_outputs [] args = Inr []"
| "marshall_outputs (d # ds) [] = Inl Bad_vararg"
| "marshall_outputs (d # ds) (a # as) =
     rbind (resp_source d a) (\<lambda>m.
       if is_output d
       then rbind (read_mem m (plen d)) (\<lambda>b. rbind (marshall_outputs ds as) (\<lambda>bs. Inr (b @ bs)))
       else marshall_outputs ds as)"

definition rpc_response_marshall_va ::
  "rpc_msg \<Rightarrow> resp_arg list \<Rightarrow> (nat \<times> byte list) res" where
  "rpc_response_marshall_va m ap =
     rbind (msg_descs m) (\<lambda>ds.
     rbind (c_int (sum_list (map (\<lambda>d. if is_output d then plen d else 0) ds))) (\<lambda>param_total_length.
       let msg_length = of_nat (4 + param_total_length) :: u32
       in rbind (marshall_outputs ds ap) (\<lambda>outs. write_msg msg_length (word_bytes 4 (fcode m) @ outs))))"

text \<open>Parsing a response leaves the count and the descriptors of the structure unset.\<close>

definition rpc_response_parse :: "byte list \<Rightarrow> rpc_msg res" where
  "rpc_response_parse msg_buf =
     rbind (read_mem msg_buf 4) (\<lambda>f.
       Inr \<lparr>fcode = bytes_word f, param_count = 0, param_desc = [], params = drop 4 msg_buf\<rparr>)"

fun unmarshall_outputs ::
  "rpc_param_desc list \<Rightarrow> byte list \<Rightarrow> byte list list \<Rightarrow> byte list list res" where
  "unmarshall_outputs [] params_ptr args = Inl Bad_access"
| "unmarshall_outputs (d # ds) params_ptr args =
     (if is_input d \<or> is_output d
      then case args of
             [] \<Rightarrow> Inl Bad_vararg
           | a # as \<Rightarrow>
               if is_output d
               then rbind (read_mem params_ptr (plen d)) (\<lambda>v.
                    rbind (write_mem a v) (\<lambda>a'.
                    rbind (unmarshall_outputs ds (drop (plen d) params_ptr) as) (\<lambda>as'.
                      Inr (a' # as'))))
               else rbind (unmarshall_outputs ds params_ptr as) (\<lambda>as'. Inr (a # as'))
      else Inr [])"

definition rpc_response_unmarshall_va ::
  "rpc_msg \<Rightarrow> rpc_param_desc list \<Rightarrow> byte list list \<Rightarrow> byte list list res" where
  "rpc_response_unmarshall_va m ds ap = unmarshall_outputs ds (params m) ap"

section \<open>Calls\<close>

text \<open>
  \<open>rpc_client_call_generic\<close>: \<open>transact\<close> sends a request message and waits for the response;
  it acts on the state of the host. The result is the memory of the arguments afterwards.
\<close>

definition rpc_client_call_generic ::
  "(byte list \<Rightarrow> 's \<Rightarrow> (byte list \<times> 's) res) \<Rightarrow> u32 \<Rightarrow> rpc_param_desc list \<Rightarrow> byte list list
     \<Rightarrow> 's \<Rightarrow> (byte list list \<times> 's) res" where
  "rpc_client_call_generic transact fc descs ap s =
     rbind (rpc_request_marshall_va fc descs ap) (\<lambda>(msg_length, req_msg).
     rbind (transact (take msg_length req_msg) s) (\<lambda>(resp_msg, s').
       xassert (length resp_msg \<noteq> 0)
        (rbind (rpc_response_parse resp_msg) (\<lambda>m.
           xassert (fcode m = fc)
            (rbind (rpc_response_unmarshall_va m descs ap) (\<lambda>ap'. Inr (ap', s')))))))"

text \<open>
  The shape every host function of the drivers has: unmarshall the arguments of a parsed
  request, call the local driver (the body), marshall the results. The body also changes the
  host's state.
\<close>

definition rpc_host ::
  "(rpc_arg list \<Rightarrow> 's \<Rightarrow> (resp_arg list \<times> 's) res) \<Rightarrow> rpc_msg \<Rightarrow> 's \<Rightarrow> (byte list \<times> 's) res" where
  "rpc_host body m s =
     rbind (rpc_request_unmarshall_va m) (\<lambda>args.
     rbind (body args s) (\<lambda>(rs, s').
     rbind (rpc_response_marshall_va m rs) (\<lambda>(msg_length, resp).
       Inr (take msg_length resp, s'))))"

text \<open>The memory an unmarshalled buffer argument gives access to.\<close>

fun arg_mem :: "rpc_arg \<Rightarrow> byte list" where
  "arg_mem (Arg_ptr m) = m"
| "arg_mem (Arg_val m) = m"
| "arg_mem _ = []"

text \<open>
  A driver instance of the host is found through the pointer to it that the request
  carries; a pointer to no instance faults.
\<close>

definition with_ctx ::
  "u32 \<Rightarrow> ('c \<Rightarrow> ('a \<times> 'c) res) \<Rightarrow> (u32 \<Rightarrow> 'c option) \<Rightarrow> ('a \<times> (u32 \<Rightarrow> 'c option)) res" where
  "with_ctx p f hosts =
     (case hosts p of
        None \<Rightarrow> Inl Bad_access
      | Some c \<Rightarrow> rbind (f c) (\<lambda>(r, c'). Inr (r, hosts(p \<mapsto> c'))))"

lemma with_ctx_Some [simp]:
  "hosts p = Some c \<Longrightarrow> f c = Inr (r, c') \<Longrightarrow> with_ctx p f hosts = Inr (r, hosts(p \<mapsto> c'))"
  by (simp add: with_ctx_def)

section \<open>Correctness of marshalling\<close>

text \<open>
  Well-formed use: every descriptor before the list end is an input or an output, the count and the
  lengths of the messages fit a C int, and each argument's memory has the length its descriptor states.
\<close>

definition inputs_length :: "rpc_param_desc list \<Rightarrow> nat" where
  "inputs_length ds = sum_list (map (\<lambda>d. if is_input d then plen d else 0) ds)"

definition outputs_length :: "rpc_param_desc list \<Rightarrow> nat" where
  "outputs_length ds = sum_list (map (\<lambda>d. if is_output d then plen d else 0) ds)"

definition descs_ok :: "rpc_param_desc list \<Rightarrow> bool" where
  "descs_ok ds \<longleftrightarrow> (\<forall>d\<in>set ds. is_input d \<or> is_output d) \<and> length ds < 2 ^ 31 \<and>
     4 + 4 + 4 * length ds + inputs_length ds < 2 ^ 31 \<and> 4 + outputs_length ds < 2 ^ 31"

lemma sum_lengths_le: "sum_list (map (\<lambda>d. if P d then plen d else 0) ds) \<le> length ds * 2 ^ 24"
proof (induction ds)
  case (Cons d ds)
  have "plen d < 2 ^ LENGTH(24)" by (rule unsigned_less)
  then have "plen d < 2 ^ 24" by simp
  with Cons show ?case by auto
qed simp

text \<open>Lists as short as those of the drivers are well formed.\<close>

lemma descs_okI:
  assumes "list_all (\<lambda>d. is_input d \<or> is_output d) ds" and "length ds \<le> 100"
  shows "descs_ok ds"
  using assms sum_lengths_le[of is_input ds] sum_lengths_le[of is_output ds]
  by (simp add: descs_ok_def inputs_length_def outputs_length_def list_all_iff)

definition args_fit :: "rpc_param_desc list \<Rightarrow> byte list list \<Rightarrow> bool" where
  "args_fit ds args \<longleftrightarrow> list_all2 (\<lambda>d a. plen d \<le> length a) ds args"

definition resp_mem :: "rpc_param_desc \<Rightarrow> resp_arg \<Rightarrow> byte list" where
  "resp_mem d a = (case a of Resp_ptr m \<Rightarrow> m | Resp_val v \<Rightarrow> word_bytes (plen d) v)"

fun resp_ok :: "rpc_param_desc \<Rightarrow> resp_arg \<Rightarrow> bool" where
  "resp_ok d (Resp_ptr m) \<longleftrightarrow> is_ptr d \<and> (is_output d \<longrightarrow> plen d \<le> length m)"
| "resp_ok d (Resp_val v) \<longleftrightarrow> \<not> is_ptr d \<and> plen d \<in> {1, 2, 4, 8}"

definition resp_fit :: "rpc_param_desc list \<Rightarrow> resp_arg list \<Rightarrow> bool" where
  "resp_fit ds rs \<longleftrightarrow> list_all2 resp_ok ds rs"

text \<open>The bytes on the wire, and what each side's variables hold after a transfer.\<close>

definition input_bytes :: "rpc_param_desc list \<Rightarrow> byte list list \<Rightarrow> byte list" where
  "input_bytes ds args =
     concat (map2 (\<lambda>d a. if is_input d then take (plen d) a else []) ds args)"

definition output_bytes :: "rpc_param_desc list \<Rightarrow> resp_arg list \<Rightarrow> byte list" where
  "output_bytes ds rs =
     concat (map2 (\<lambda>d a. if is_output d then take (plen d) (resp_mem d a) else []) ds rs)"

definition req_msg :: "u32 \<Rightarrow> rpc_param_desc list \<Rightarrow> byte list list \<Rightarrow> byte list" where
  "req_msg fc ds args =
     word_bytes 4 fc @ word_bytes 4 (of_nat (length ds) :: u32)
       @ concat (map desc_bytes ds) @ input_bytes ds args"

definition parsed_req :: "u32 \<Rightarrow> rpc_param_desc list \<Rightarrow> byte list list \<Rightarrow> rpc_msg" where
  "parsed_req fc ds args =
     \<lparr>fcode = fc, param_count = of_nat (length ds),
      param_desc = concat (map desc_bytes ds) @ input_bytes ds args,
      params = input_bytes ds args\<rparr>"

definition received :: "rpc_param_desc \<Rightarrow> byte list \<Rightarrow> rpc_arg" where
  "received d a =
     (if is_ptr d
      then if is_input d then (if plength d > 0 then Arg_ptr (take (plen d) a) else Arg_null)
           else if is_output d then (if plength d = 0 then Arg_null else Arg_invalid)
           else Arg_unset
      else if is_input d then Arg_val (take (plen d) a) else Arg_unset)"

definition returned :: "rpc_param_desc \<Rightarrow> byte list \<Rightarrow> resp_arg \<Rightarrow> byte list" where
  "returned d a r =
     (if is_output d then take (plen d) (resp_mem d r) @ drop (plen d) a else a)"

lemma args_fit_simps [simp]:
  "args_fit [] args \<longleftrightarrow> args = []"
  "args_fit (d # ds) (a # as) \<longleftrightarrow> plen d \<le> length a \<and> args_fit ds as"
  "args_fit (d # ds) [] \<longleftrightarrow> False"
  by (auto simp: args_fit_def)

lemma resp_fit_simps [simp]:
  "resp_fit [] rs \<longleftrightarrow> rs = []"
  "resp_fit (d # ds) (r # rs) \<longleftrightarrow> resp_ok d r \<and> resp_fit ds rs"
  "resp_fit (d # ds) [] \<longleftrightarrow> False"
  by (auto simp: resp_fit_def)

lemma input_bytes_simps [simp]:
  "input_bytes [] args = []"
  "input_bytes (d # ds) (a # as) =
     (if is_input d then take (plen d) a else []) @ input_bytes ds as"
  by (auto simp: input_bytes_def)

lemma output_bytes_simps [simp]:
  "output_bytes [] rs = []"
  "output_bytes (d # ds) (r # rs) =
     (if is_output d then take (plen d) (resp_mem d r) else []) @ output_bytes ds rs"
  by (auto simp: output_bytes_def)

lemma length_concat_desc_bytes [simp]: "length (concat (map desc_bytes ds)) = 4 * length ds"
  by (induction ds) auto

lemma desc_scan_list_end:
  assumes "\<forall>d\<in>set ds. is_input d \<or> is_output d"
  shows "desc_scan (ds @ [RPC_PARAM_LIST_END]) =
           Inr (length ds, sum_list (map (\<lambda>d. if is_input d then plen d else 0) ds))"
  using assms by (induction ds) (auto simp: RPC_PARAM_LIST_END_def)

lemma marshall_inputs_fit:
  "args_fit ds args \<Longrightarrow> marshall_inputs ds args = Inr (input_bytes ds args)"
proof (induction ds arbitrary: args)
  case (Cons d ds)
  then show ?case by (cases args) auto
qed simp

lemma length_input_bytes:
  "args_fit ds args \<Longrightarrow>
     length (input_bytes ds args) = sum_list (map (\<lambda>d. if is_input d then plen d else 0) ds)"
proof (induction ds arbitrary: args)
  case (Cons d ds)
  then show ?case by (cases args) auto
qed simp

lemma length_req_msg:
  "args_fit ds args \<Longrightarrow>
     length (req_msg fc ds args)
       = 4 + 4 + 4 * length ds + sum_list (map (\<lambda>d. if is_input d then plen d else 0) ds)"
  by (simp add: req_msg_def length_input_bytes)

lemma rpc_request_marshall_fit:
  assumes "descs_ok ds" and "args_fit ds args"
  shows "rpc_request_marshall_va fc (ds @ [RPC_PARAM_LIST_END]) args
           = Inr (length (req_msg fc ds args), req_msg fc ds args)"
proof -
  have "desc_scan (ds @ [RPC_PARAM_LIST_END]) =
          Inr (length ds, sum_list (map (\<lambda>d. if is_input d then plen d else 0) ds))"
    using assms(1) by (intro desc_scan_list_end) (simp add: descs_ok_def)
  moreover have "write_msg (of_nat (4 + 4 + 4 * length ds + inputs_length ds)) (req_msg fc ds args) =
      Inr (length (req_msg fc ds args), req_msg fc ds args)"
    using assms by (subst write_msg_ok) (simp_all add: length_req_msg descs_ok_def inputs_length_def)
  ultimately show ?thesis
    using assms
    by (simp add: rpc_request_marshall_va_def marshall_inputs_fit inputs_length_def[symmetric] descs_ok_def
        req_msg_def)
qed

lemma desc_array_bytes [simp]:
  "desc_array (length ds) (concat (map desc_bytes ds) @ rest) = Inr ds"
  by (induction ds) auto

lemma count_roundtrip:
  assumes "n < 2 ^ 31"
  shows "unat (of_nat n :: u32) = n" and "nat (sint (of_nat n :: u32)) = n"
proof -
  from assms have n: "n < 2 ^ 32" by simp
  then show u: "unat (of_nat n :: u32) = n"
    by (simp add: unat_of_nat take_bit_nat_eq_self)
  have "sint (of_nat n :: u32) = signed_take_bit 31 (int n)"
    by (simp add: signed_of_nat)
  also from assms have "\<dots> = int n"
    by (intro signed_take_bit_int_eq_self) auto
  finally show "nat (sint (of_nat n :: u32)) = n" by simp
qed

lemma rpc_request_parse_req_msg:
  assumes "length ds < 2 ^ 31"
  shows "rpc_request_parse (req_msg fc ds args) = Inr (parsed_req fc ds args)"
  using count_roundtrip(1) [OF assms]
  by (simp add: rpc_request_parse_def req_msg_def parsed_req_def)

lemma msg_descs_parsed [simp]:
  "length ds < 2 ^ 31 \<Longrightarrow> msg_descs (parsed_req fc ds args) = Inr ds"
  by (simp add: msg_descs_def parsed_req_def count_roundtrip)

lemma fcode_parsed [simp]: "fcode (parsed_req fc ds args) = fc"
  by (simp add: parsed_req_def)

lemma unmarshall_inputs_fit:
  "args_fit ds args \<Longrightarrow> unmarshall_inputs ds (input_bytes ds args) = Inr (map2 received ds args)"
proof (induction ds arbitrary: args)
  case (Cons d ds)
  then obtain a as where args: "args = a # as" and fit: "plen d \<le> length a" "args_fit ds as"
    by (cases args) auto
  show ?case
    using fit by (simp add: args Cons.IH received_def)
qed simp

lemma rpc_request_unmarshall_parsed:
  assumes "length ds < 2 ^ 31" and "args_fit ds args"
  shows "rpc_request_unmarshall_va (parsed_req fc ds args) = Inr (map2 received ds args)"
  using assms
  by (simp add: rpc_request_unmarshall_va_def) (simp add: parsed_req_def unmarshall_inputs_fit)

lemma marshall_outputs_fit:
  "resp_fit ds rs \<Longrightarrow> marshall_outputs ds rs = Inr (output_bytes ds rs)"
proof (induction ds arbitrary: rs)
  case (Cons d ds)
  then obtain r rs' where rs: "rs = r # rs'" and ok: "resp_ok d r" "resp_fit ds rs'"
    by (cases rs) auto
  show ?case
    using ok by (cases r) (auto simp: rs Cons.IH resp_mem_def)
qed simp

lemma length_output_bytes:
  "resp_fit ds rs \<Longrightarrow>
     length (output_bytes ds rs) = sum_list (map (\<lambda>d. if is_output d then plen d else 0) ds)"
proof (induction ds arbitrary: rs)
  case (Cons d ds)
  then obtain r rs' where rs: "rs = r # rs'" and ok: "resp_ok d r" "resp_fit ds rs'"
    by (cases rs) auto
  show ?case
    using ok by (cases r) (auto simp: rs Cons.IH resp_mem_def)
qed simp

definition resp_msg :: "u32 \<Rightarrow> rpc_param_desc list \<Rightarrow> resp_arg list \<Rightarrow> byte list" where
  "resp_msg fc ds rs = word_bytes 4 fc @ output_bytes ds rs"

lemma rpc_response_marshall_parsed:
  assumes "descs_ok ds" and "resp_fit ds rs"
  shows "rpc_response_marshall_va (parsed_req fc ds args) rs
           = Inr (length (resp_msg fc ds rs), resp_msg fc ds rs)"
proof -
  have "write_msg (of_nat (4 + outputs_length ds)) (resp_msg fc ds rs) =
      Inr (length (resp_msg fc ds rs), resp_msg fc ds rs)"
    using assms by (subst write_msg_ok) (simp_all add: resp_msg_def length_output_bytes descs_ok_def outputs_length_def)
  then show ?thesis
    using assms
    by (simp add: rpc_response_marshall_va_def marshall_outputs_fit outputs_length_def[symmetric] descs_ok_def
        resp_msg_def)
qed

lemma unmarshall_outputs_fit:
  assumes "\<forall>d\<in>set ds. is_input d \<or> is_output d" and "args_fit ds args" and "resp_fit ds rs"
  shows "unmarshall_outputs (ds @ [RPC_PARAM_LIST_END]) (output_bytes ds rs) args
           = Inr (map2 (\<lambda>(d, a) r. returned d a r) (zip ds args) rs)"
  using assms
proof (induction ds arbitrary: args rs)
  case Nil
  then show ?case by (simp add: RPC_PARAM_LIST_END_def)
next
  case (Cons d ds)
  from Cons.prems obtain a as r rs' where
    eqs: "args = a # as" "rs = r # rs'" and
    fit: "plen d \<le> length a" "args_fit ds as" "resp_ok d r" "resp_fit ds rs'"
    by (cases args; cases rs) auto
  from fit(3) have len: "is_output d \<Longrightarrow> plen d \<le> length (resp_mem d r)"
    by (cases r) (auto simp: resp_mem_def)
  show ?case
    using fit Cons.prems(1) len
    by (auto simp: eqs Cons.IH returned_def min_def)
qed

lemma rpc_host_parsed:
  assumes "descs_ok ds" and "args_fit ds args"
  shows "rpc_host body (parsed_req fc ds args) s =
           rbind (body (map2 received ds args) s) (\<lambda>(rs, s').
           rbind (rpc_response_marshall_va (parsed_req fc ds args) rs) (\<lambda>(msg_length, resp).
             Inr (take msg_length resp, s')))"
  using assms by (simp add: rpc_host_def rpc_request_unmarshall_parsed descs_ok_def)

section \<open>The contract of a remote function\<close>

text \<open>
  A service is one remote function: its code and descriptors, and the host's dispatch
  thread. The contract: on a request for the function, the thread unmarshalls the
  arguments, runs the body on them, and answers with the marshalled results. The lemmas
  say what a client then observes.
\<close>

locale rpc_service =
  fixes serve :: "byte list \<Rightarrow> 's \<Rightarrow> (byte list \<times> 's) res"
    and fc :: u32
    and ds :: "rpc_param_desc list"
    and body :: "rpc_arg list \<Rightarrow> 's \<Rightarrow> (resp_arg list \<times> 's) res"
  assumes ds_ok: "descs_ok ds"
    and serves: "args_fit ds args \<Longrightarrow>
      serve (req_msg fc ds args) s =
        rbind (body (map2 received ds args) s) (\<lambda>(rs, s').
        rbind (rpc_response_marshall_va (parsed_req fc ds args) rs) (\<lambda>(msg_length, resp).
          Inr (take msg_length resp, s')))"
begin

lemma serve_response:
  assumes "args_fit ds args" and "body (map2 received ds args) s = Inr (rs, s')"
    and "resp_fit ds rs"
  shows "serve (req_msg fc ds args) s = Inr (resp_msg fc ds rs, s')"
  using assms ds_ok by (simp add: serves rpc_response_marshall_parsed descs_ok_def)

lemma client_call:
  assumes fit: "args_fit ds args" and body: "body (map2 received ds args) s = Inr (rs, s')"
    and resp: "resp_fit ds rs"
  shows "rpc_client_call_generic serve fc (ds @ [RPC_PARAM_LIST_END]) args s
           = Inr (map2 (\<lambda>(d, a) r. returned d a r) (zip ds args) rs, s')"
proof -
  have parse: "rpc_response_parse (resp_msg fc ds rs)
      = Inr \<lparr>fcode = fc, param_count = 0, param_desc = [], params = output_bytes ds rs\<rparr>"
    by (simp add: rpc_response_parse_def resp_msg_def)
  have "resp_msg fc ds rs \<noteq> []"
    using length_word_bytes [of 4 fc] by (auto simp: resp_msg_def simp del: length_word_bytes)
  then show ?thesis
    using ds_ok fit resp
    by (simp add: rpc_client_call_generic_def rpc_request_marshall_fit parse
          serve_response [OF fit body resp] rpc_response_unmarshall_va_def
          unmarshall_outputs_fit descs_ok_def)
qed

lemma client_fault:
  assumes fit: "args_fit ds args" and body: "body (map2 received ds args) s = Inl e"
  shows "rpc_client_call_generic serve fc (ds @ [RPC_PARAM_LIST_END]) args s = Inl e"
  using ds_ok fit body
  by (simp add: rpc_client_call_generic_def rpc_request_marshall_fit serves)

end

section \<open>Round trips\<close>

text \<open>
  C6. The request a client marshalls is parsed by the host to the same function code, and
  unmarshalling it gives the host the input arguments the client passed, buffers for outputs
  being left to the host, for every list of parameter descriptors whose messages are shorter
  than 2 GiB and argument buffers as long as the descriptors say.
\<close>

theorem rpc_request_roundtrip:
  assumes "descs_ok ds" and "args_fit ds args"
  shows "\<exists>msg m. rpc_request_marshall_va fc (ds @ [RPC_PARAM_LIST_END]) args
        = Inr (length msg, msg)
      \<and> rpc_request_parse msg = Inr m \<and> fcode m = fc
      \<and> rpc_request_unmarshall_va m = Inr (map2 received ds args)"
  using assms rpc_request_marshall_fit [OF assms] rpc_request_parse_req_msg [of ds fc args]
    rpc_request_unmarshall_parsed [OF _ assms(2), of fc]
  by (intro exI [of _ "req_msg fc ds args"] exI [of _ "parsed_req fc ds args"])
    (simp add: descs_ok_def)

text \<open>
  C3. The response a host marshalls for a request it has parsed, when it is parsed and
  unmarshalled by the client that sent the request, writes exactly the output values into
  the client's arguments and leaves the other arguments alone, for every list of parameter
  descriptors whose messages are shorter than 2 GiB and argument buffers as long as the
  descriptors say, integers having 1, 2, 4 or 8 bytes.
\<close>

theorem rpc_response_roundtrip:
  assumes "descs_ok ds" and "args_fit ds args" and "resp_fit ds rs"
    and "rpc_request_marshall_va fc (ds @ [RPC_PARAM_LIST_END]) args = Inr (n, req)"
    and "rpc_request_parse req = Inr m"
  shows "\<exists>resp r. rpc_response_marshall_va m rs = Inr (length resp, resp)
      \<and> rpc_response_parse resp = Inr r
      \<and> rpc_response_unmarshall_va r (ds @ [RPC_PARAM_LIST_END]) args
          = Inr (map2 (\<lambda>(d, a) r. returned d a r) (zip ds args) rs)"
proof -
  have len: "length ds < 2 ^ 31" and io: "\<forall>d\<in>set ds. is_input d \<or> is_output d"
    using assms(1) by (simp_all add: descs_ok_def)
  have "req = req_msg fc ds args"
    using assms(4) rpc_request_marshall_fit [OF assms(1,2)] by simp
  then have m: "m = parsed_req fc ds args"
    using assms(5) rpc_request_parse_req_msg [OF len] by simp
  have "rpc_response_parse (resp_msg fc ds rs)
      = Inr \<lparr>fcode = fc, param_count = 0, param_desc = [], params = output_bytes ds rs\<rparr>"
    by (simp add: rpc_response_parse_def resp_msg_def)
  then show ?thesis
    using rpc_response_marshall_parsed [OF assms(1,3)] unmarshall_outputs_fit [OF io assms(2,3)]
    unfolding m by (simp add: rpc_response_unmarshall_va_def)
qed

text \<open>An integer argument and a result: the request and the response for one call.\<close>

definition demo_descs :: "rpc_param_desc list" where
  "demo_descs = [RPC_PARAM_TYPE 4, RPC_PARAM_RETURN 4]"

definition demo_args :: "byte list list" where
  "demo_args = [[1, 2, 3, 4], [0, 0, 0, 0]]"

lemma demo_fit:
  "descs_ok demo_descs" "args_fit demo_descs demo_args"
  "resp_fit demo_descs [Resp_val 0, Resp_val 5]"
  by (simp_all add: demo_descs_def demo_args_def descs_ok_def inputs_length_def outputs_length_def rpc_param_defs)

theorem rpc_request_roundtrip_witness:
  "\<exists>msg m. rpc_request_marshall_va 7 (demo_descs @ [RPC_PARAM_LIST_END]) demo_args
        = Inr (length msg, msg)
      \<and> rpc_request_parse msg = Inr m \<and> fcode m = 7
      \<and> rpc_request_unmarshall_va m = Inr (map2 received demo_descs demo_args)"
  by (rule rpc_request_roundtrip) (rule demo_fit)+

theorem rpc_response_roundtrip_witness:
  "\<exists>resp r. rpc_response_marshall_va (parsed_req 7 demo_descs demo_args)
        [Resp_val 0, Resp_val 5] = Inr (length resp, resp)
      \<and> rpc_response_parse resp = Inr r
      \<and> rpc_response_unmarshall_va r (demo_descs @ [RPC_PARAM_LIST_END]) demo_args
          = Inr (map2 (\<lambda>(d, a) r. returned d a r) (zip demo_descs demo_args)
              [Resp_val 0, Resp_val 5])"
  by (rule rpc_response_roundtrip [OF demo_fit rpc_request_marshall_fit [OF demo_fit(1,2)]
        rpc_request_parse_req_msg]) (simp add: demo_descs_def)

end
