(* ===== verification/Driver_Rpc.thy ===== *)
theory Driver_Rpc
  imports Rtos_Rpc
begin

text \<open>
  The RPC configuration every driver carries (modules/drivers/rpc/api/rtos_driver_rpc.h)
  and the operations on it that the drivers' *_rpc.c files share: initialisation as a client
  or as a host, configuration of the intertile port and the priority, and the start of the
  dispatch threads.
\<close>

record rpc_addr =
  intertile_ctx :: u32
  aport :: int

text \<open>
  \<open>host_address\<close> and \<open>host_ctx_ptr\<close> are in a union with the array \<open>client_address\<close>: they
  are its first element and the first field of its second one. \<open>rpc_host_start\<close> is whether
  the function pointer is set.
\<close>

record driver_rpc =
  client_address :: "rpc_addr list"
  remote_client_count :: nat
  host_task_priority :: int
  rpc_host_start :: bool

definition RTOS_DRIVER_RPC_MAX_CLIENT_TILES :: nat where
  "RTOS_DRIVER_RPC_MAX_CLIENT_TILES = 3"

definition host_address :: "driver_rpc \<Rightarrow> rpc_addr" where
  "host_address r = client_address r ! 0"

definition host_ctx_ptr :: "driver_rpc \<Rightarrow> u32" where
  "host_ctx_ptr r = intertile_ctx (client_address r ! 1)"

definition set_host_address :: "rpc_addr \<Rightarrow> driver_rpc \<Rightarrow> driver_rpc" where
  "set_host_address a r = r\<lparr>client_address := (client_address r)[0 := a]\<rparr>"

definition set_host_ctx_ptr :: "u32 \<Rightarrow> driver_rpc \<Rightarrow> driver_rpc" where
  "set_host_ctx_ptr p r =
     r\<lparr>client_address := (client_address r)[1 := (client_address r ! 1)\<lparr>intertile_ctx := p\<rparr>]\<rparr>"

definition rpc_wf :: "driver_rpc \<Rightarrow> bool" where
  "rpc_wf r \<longleftrightarrow> length (client_address r) = RTOS_DRIVER_RPC_MAX_CLIENT_TILES"

text \<open>The client half of initialisation; \<open>host_word\<close> is the context pointer the host sends.\<close>

definition rpc_client_init :: "u32 \<Rightarrow> u32 \<Rightarrow> driver_rpc \<Rightarrow> driver_rpc" where
  "rpc_client_init host_intertile host_word r =
     (let r1 = r\<lparr>rpc_host_start := False, remote_client_count := 0, host_task_priority := -1\<rparr>;
          r2 = set_host_address ((host_address r1)\<lparr>aport := -1\<rparr>) r1;
          r3 = set_host_address ((host_address r2)\<lparr>intertile_ctx := host_intertile\<rparr>) r2
      in set_host_ctx_ptr host_word r3)"

text \<open>
  The host half: one address per client tile, its port not configured yet; an address past
  the end of the array is a bad access. The words sent to the clients are returned, each
  with the link it is sent on.
\<close>

fun rpc_host_clients ::
  "u32 \<Rightarrow> u32 list \<Rightarrow> nat \<Rightarrow> driver_rpc \<Rightarrow> (driver_rpc \<times> (u32 \<times> u32) list) res" where
  "rpc_host_clients own [] i r = Inr (r, [])"
| "rpc_host_clients own (c # cs) i r =
     (if i < length (client_address r)
      then rbind (rpc_host_clients own cs (Suc i)
               (r\<lparr>client_address := (client_address r)[i := \<lparr>intertile_ctx = c, aport = -1\<rparr>]\<rparr>))
             (\<lambda>(r', out). Inr (r', (c, own) # out))
      else Inl Bad_access)"

definition rpc_host_init ::
  "u32 \<Rightarrow> u32 list \<Rightarrow> driver_rpc \<Rightarrow> (driver_rpc \<times> (u32 \<times> u32) list) res" where
  "rpc_host_init own client_intertile_ctx r =
     rpc_host_clients own client_intertile_ctx 0
       (r\<lparr>rpc_host_start := True, remote_client_count := length client_intertile_ctx,
          host_task_priority := -1\<rparr>)"

definition rpc_config :: "u32 \<Rightarrow> u32 \<Rightarrow> driver_rpc \<Rightarrow> driver_rpc" where
  "rpc_config intertile_port priority r =
     (if remote_client_count r = 0
      then set_host_address ((host_address r)\<lparr>aport := sint intertile_port\<rparr>) r
      else r\<lparr>client_address :=
               map (\<lambda>a. a\<lparr>aport := sint intertile_port\<rparr>)
                 (take (remote_client_count r) (client_address r))
               @ drop (remote_client_count r) (client_address r),
             host_task_priority := sint priority\<rparr>)"

text \<open>
  Starting the host: one dispatch thread per client, given as the addresses and the
  priority the threads are created with.
\<close>

fun rpc_start_clients :: "rpc_addr list \<Rightarrow> int \<Rightarrow> (rpc_addr \<times> int) list res" where
  "rpc_start_clients [] prio = Inr []"
| "rpc_start_clients (a # as) prio =
     xassert (aport a \<ge> 0)
       (rbind (rpc_start_clients as prio) (\<lambda>ts. Inr ((a, prio) # ts)))"

definition rpc_start :: "driver_rpc \<Rightarrow> (rpc_addr \<times> int) list res" where
  "rpc_start r =
     xassert (host_task_priority r \<ge> 0)
       (rpc_start_clients (take (remote_client_count r) (client_address r))
          (host_task_priority r))"

text \<open>
  A remote call starts with the assertion that the port is configured, and carries the
  host's context pointer.
\<close>

definition remote_call ::
  "driver_rpc \<Rightarrow> (byte list \<Rightarrow> 's \<Rightarrow> (byte list \<times> 's) res) \<Rightarrow> u32 \<Rightarrow> rpc_param_desc list
     \<Rightarrow> byte list list \<Rightarrow> 's \<Rightarrow> (byte list list \<times> 's) res" where
  "remote_call r transact fc descs ap s =
     xassert (aport (host_address r) \<ge> 0)
       (rpc_client_call_generic transact fc descs
          (word_bytes 4 (host_ctx_ptr r) # ap) s)"

lemma remote_call_configured [simp]:
  "aport (host_address r) \<ge> 0 \<Longrightarrow>
     remote_call r transact fc descs ap s
       = rpc_client_call_generic transact fc descs (word_bytes 4 (host_ctx_ptr r) # ap) s"
  by (simp add: remote_call_def)

lemma remote_call_unconfigured:
  "aport (host_address r) < 0 \<Longrightarrow> remote_call r transact fc descs ap s = Inl Assert_failed"
  by (simp add: remote_call_def)

section \<open>Initialisation, configuration and start\<close>

lemma rpc_start_clients_ok:
  "\<forall>a\<in>set as. aport a \<ge> 0 \<Longrightarrow> rpc_start_clients as prio = Inr (map (\<lambda>a. (a, prio)) as)"
  by (induction as) auto

lemma rpc_host_clients_ok:
  "i + length cs \<le> length (client_address r) \<Longrightarrow>
     rpc_host_clients own cs i r
       = Inr (r\<lparr>client_address := put_at (client_address r) i
                  (map (\<lambda>c. \<lparr>intertile_ctx = c, aport = -1\<rparr>) cs)\<rparr>,
              map (\<lambda>c. (c, own)) cs)"
proof (induction cs arbitrary: i r)
  case (Cons c cs)
  let ?a = "\<lambda>c. \<lparr>intertile_ctx = c, aport = -1\<rparr>"
  have upd: "put_at ((client_address r)[i := ?a c]) (Suc i) (map ?a cs)
      = put_at (client_address r) i (map ?a (c # cs))"
    using Cons.prems
    by (intro nth_equalityI) (auto simp: nth_put_at nth_list_update nth_Cons')
  with Cons.prems show ?case
    by (simp add: Cons.IH)
qed simp

lemma rpc_host_init_ok:
  assumes "rpc_wf r" and "length cs \<le> RTOS_DRIVER_RPC_MAX_CLIENT_TILES"
  shows "rpc_host_init own cs r
     = Inr (r\<lparr>rpc_host_start := True, remote_client_count := length cs,
              host_task_priority := -1,
              client_address := map (\<lambda>c. \<lparr>intertile_ctx = c, aport = -1\<rparr>) cs
                @ drop (length cs) (client_address r)\<rparr>,
            map (\<lambda>c. (c, own)) cs)"
  using assms by (simp add: rpc_host_init_def rpc_host_clients_ok rpc_wf_def put_at_def)

text \<open>
  Before \<open>rpc_config\<close> the host does not start; afterwards it starts one thread for each
  client, on the configured port and priority.
\<close>

lemma rpc_host_not_configured:
  assumes "rpc_host_init own cs r = Inr (r', out)"
  shows "rpc_start r' = Inl Assert_failed"
proof -
  have "host_task_priority r' = -1"
    if "rpc_host_clients own cs i q = Inr (r', out)" "host_task_priority q = -1" for i q
    using that
    by (induction own cs i q arbitrary: out rule: rpc_host_clients.induct)
      (auto simp: res_simps split: if_splits)
  with assms have "host_task_priority r' = -1"
    by (auto simp: rpc_host_init_def)
  then show ?thesis by (simp add: rpc_start_def)
qed

lemma rpc_host_configured:
  assumes wf: "rpc_wf r" and len: "length cs \<le> RTOS_DRIVER_RPC_MAX_CLIENT_TILES" "cs \<noteq> []"
    and init: "rpc_host_init own cs r = Inr (r', out)"
    and port: "sint port \<ge> 0" and prio: "sint prio \<ge> 0"
  shows "rpc_start (rpc_config port prio r')
           = Inr (map (\<lambda>c. (\<lparr>intertile_ctx = c, aport = sint port\<rparr>, sint prio)) cs)"
  using assms
  by (auto simp: rpc_host_init_ok rpc_config_def rpc_start_def rpc_start_clients_ok)

lemma rpc_client_configured:
  assumes "rpc_wf r"
  shows "aport (host_address (rpc_client_init it w r)) = -1"
    and "host_address (rpc_config port prio (rpc_client_init it w r))
           = \<lparr>intertile_ctx = it, aport = sint port\<rparr>"
    and "host_ctx_ptr (rpc_config port prio (rpc_client_init it w r)) = w"
proof -
  from assms obtain a b c where "client_address r = [a, b, c]"
    by (auto simp: rpc_wf_def RTOS_DRIVER_RPC_MAX_CLIENT_TILES_def numeral_3_eq_3 length_Suc_conv)
  then show "aport (host_address (rpc_client_init it w r)) = -1"
    and "host_address (rpc_config port prio (rpc_client_init it w r))
           = \<lparr>intertile_ctx = it, aport = sint port\<rparr>"
    and "host_ctx_ptr (rpc_config port prio (rpc_client_init it w r)) = w"
    by (simp_all add: rpc_client_init_def rpc_config_def host_address_def host_ctx_ptr_def
        set_host_address_def set_host_ctx_ptr_def)
qed

section \<open>Drivers\<close>

text \<open>
  The part of a driver's state these operations work on: its RPC configuration
  (\<open>rpc_config\<close>, or null), whether its function pointers are the remote ones, and whether its
  kernel objects exist. \<open>driver_rpc_init_client\<close>, \<open>driver_rpc_init_host\<close>,
  \<open>driver_rpc_config\<close> and \<open>driver_start\<close> are the drivers' *_rpc_client_init,
  *_rpc_host_init, *_rpc_config and *_start, which the drivers repeat word by word.
\<close>

record driver =
  drv_rpc :: "driver_rpc option"
  drv_remote :: bool
  drv_started :: bool

definition driver_init :: "driver \<Rightarrow> driver" where
  "driver_init d = d\<lparr>drv_rpc := None, drv_remote := False\<rparr>"

definition driver_rpc_init_client :: "u32 \<Rightarrow> u32 \<Rightarrow> driver_rpc \<Rightarrow> driver \<Rightarrow> driver" where
  "driver_rpc_init_client host_intertile host_word r d =
     d\<lparr>drv_rpc := Some (rpc_client_init host_intertile host_word r), drv_remote := True\<rparr>"

definition driver_rpc_init_host ::
  "u32 \<Rightarrow> u32 list \<Rightarrow> driver_rpc \<Rightarrow> driver \<Rightarrow> (driver \<times> (u32 \<times> u32) list) res" where
  "driver_rpc_init_host own client_intertile_ctx r d =
     rbind (rpc_host_init own client_intertile_ctx r) (\<lambda>(r', out).
       Inr (d\<lparr>drv_rpc := Some r'\<rparr>, out))"

definition driver_rpc_config :: "u32 \<Rightarrow> u32 \<Rightarrow> driver \<Rightarrow> driver res" where
  "driver_rpc_config intertile_port priority d =
     (case drv_rpc d of
        None \<Rightarrow> Inl Bad_access
      | Some r \<Rightarrow> Inr (d\<lparr>drv_rpc := Some (rpc_config intertile_port priority r)\<rparr>))"

definition driver_start :: "driver \<Rightarrow> (driver \<times> (rpc_addr \<times> int) list) res" where
  "driver_start d =
     (let d1 = d\<lparr>drv_started := True\<rparr>
      in case drv_rpc d1 of
           None \<Rightarrow> Inr (d1, [])
         | Some r \<Rightarrow>
             if rpc_host_start r then rbind (rpc_start r) (\<lambda>ts. Inr (d1, ts))
             else Inr (d1, []))"

text \<open>
  A driver initialised as RPC host for up to three tiles sends its context pointer to each
  of them; starting it before rpc_config fails the assertion on the priority, and after
  rpc_config starts exactly one dispatch thread for each client, on the configured port and
  priority.
\<close>

theorem driver_host_starts_clients:
  assumes "rpc_wf r" and "length cs \<le> RTOS_DRIVER_RPC_MAX_CLIENT_TILES" and "cs \<noteq> []"
    and "driver_rpc_init_host own cs r d = Inr (d1, out)"
    and "driver_rpc_config port prio d1 = Inr d2"
    and "sint port \<ge> 0" and "sint prio \<ge> 0"
  shows "out = map (\<lambda>c. (c, own)) cs \<and> driver_start d1 = Inl Assert_failed \<and>
    driver_start d2 = Inr (d2\<lparr>drv_started := True\<rparr>,
      map (\<lambda>c. (\<lparr>intertile_ctx = c, aport = sint port\<rparr>, sint prio)) cs)"
proof -
  obtain r1 where init: "rpc_host_init own cs r = Inr (r1, out)"
      and d1: "d1 = d\<lparr>drv_rpc := Some r1\<rparr>"
    using assms(4) by (auto simp: driver_rpc_init_host_def rbind_eq_Inr)
  with rpc_host_init_ok [OF assms(1,2)] have r1: "rpc_host_start r1" "remote_client_count r1 \<noteq> 0"
      "out = map (\<lambda>c. (c, own)) cs"
    using assms(3) by auto
  have d2: "d2 = d1\<lparr>drv_rpc := Some (rpc_config port prio r1)\<rparr>"
    using assms(5) d1 by (simp add: driver_rpc_config_def)
  have "rpc_host_start (rpc_config port prio r1)"
    using r1 by (simp add: rpc_config_def)
  then show ?thesis
    using r1 rpc_host_not_configured [OF init] rpc_host_configured [OF assms(1-3) init assms(6,7)]
    by (simp add: driver_start_def d2) (simp add: d1)
qed

text \<open>
  A driver initialised as RPC client starts no thread; before rpc_config its remote calls
  fail the assertion on the port, and after rpc_config they carry the context pointer the
  host sent.
\<close>

theorem driver_client_reaches_host:
  assumes "rpc_wf r" and "driver_rpc_config port prio (driver_rpc_init_client it w r d) = Inr d'"
    and "sint port \<ge> 0"
  shows "\<exists>r'. drv_rpc d' = Some r' \<and> drv_remote d' \<and> driver_start d' = Inr (d'\<lparr>drv_started := True\<rparr>, [])
    \<and> host_address r' = \<lparr>intertile_ctx = it, aport = sint port\<rparr>
    \<and> remote_call (rpc_client_init it w r) transact fc descs ap s = Inl Assert_failed
    \<and> remote_call r' transact fc descs ap s
        = rpc_client_call_generic transact fc descs (word_bytes 4 w # ap) s"
proof -
  let ?r = "rpc_config port prio (rpc_client_init it w r)"
  have d': "d' = (driver_rpc_init_client it w r d)\<lparr>drv_rpc := Some ?r\<rparr>"
    using assms(2) by (simp add: driver_rpc_config_def driver_rpc_init_client_def)
  have "\<not> rpc_host_start ?r"
    by (simp add: rpc_config_def rpc_client_init_def set_host_address_def set_host_ctx_ptr_def Let_def)
  then show ?thesis
    using rpc_client_configured(1) [OF assms(1), of it w]
      rpc_client_configured(2,3) [OF assms(1), of port prio it w] assms(3)
    by (simp add: d' driver_start_def driver_rpc_init_client_def remote_call_def)
qed

definition blank_rpc :: driver_rpc where
  "blank_rpc = \<lparr>client_address = replicate 3 \<lparr>intertile_ctx = 0, aport = 0\<rparr>,
     remote_client_count = 0, host_task_priority = 0, rpc_host_start = False\<rparr>"

definition blank_driver :: driver where
  "blank_driver = \<lparr>drv_rpc = None, drv_remote = False, drv_started = False\<rparr>"

lemma blank_rpc_wf: "rpc_wf blank_rpc"
  by (simp add: rpc_wf_def blank_rpc_def RTOS_DRIVER_RPC_MAX_CLIENT_TILES_def)

theorem driver_host_starts_clients_witness:
  "\<exists>d1 out d2. driver_rpc_init_host 5 [8, 9] blank_rpc blank_driver = Inr (d1, out) \<and>
     driver_rpc_config 7 3 d1 = Inr d2 \<and> driver_start d1 = Inl Assert_failed \<and>
     driver_start d2 = Inr (d2\<lparr>drv_started := True\<rparr>,
       [(\<lparr>intertile_ctx = 8, aport = 7\<rparr>, 3), (\<lparr>intertile_ctx = 9, aport = 7\<rparr>, 3)])"
proof -
  have len: "length [8, 9 :: u32] \<le> RTOS_DRIVER_RPC_MAX_CLIENT_TILES"
    by (simp add: RTOS_DRIVER_RPC_MAX_CLIENT_TILES_def)
  obtain d1 out where i: "driver_rpc_init_host 5 [8, 9] blank_rpc blank_driver = Inr (d1, out)"
    using rpc_host_init_ok [OF blank_rpc_wf len] by (simp add: driver_rpc_init_host_def)
  then obtain r1 where "drv_rpc d1 = Some r1"
    by (auto simp: driver_rpc_init_host_def rbind_eq_Inr)
  then obtain d2 where c: "driver_rpc_config 7 3 d1 = Inr d2"
    by (simp add: driver_rpc_config_def)
  from driver_host_starts_clients [OF blank_rpc_wf len _ i c] i c show ?thesis
    by auto
qed

theorem driver_client_reaches_host_witness:
  "\<exists>d' r'. driver_rpc_config 7 3 (driver_rpc_init_client 9 64 blank_rpc blank_driver) = Inr d' \<and>
     drv_rpc d' = Some r' \<and> host_address r' = \<lparr>intertile_ctx = 9, aport = 7\<rparr>"
proof -
  obtain d' where c: "driver_rpc_config 7 3 (driver_rpc_init_client 9 64 blank_rpc blank_driver)
      = Inr d'"
    by (simp add: driver_rpc_config_def driver_rpc_init_client_def)
  have "sint (7 :: u32) \<ge> 0" by simp
  from driver_client_reaches_host [OF blank_rpc_wf c this, of undefined undefined undefined
      undefined undefined] c
  show ?thesis
    by auto
qed

end
