(* ===== verification/Rpc_Args.thy ===== *)
theory Rpc_Args
  imports Driver_Rpc
begin

text \<open>
  What the remote halves of the drivers share: the arguments of a call on either side, the
  dispatch thread that serves a table of functions, and the call of a configured client.
  Pointers, size_t, int and the enumerations are 4 bytes on the XCORE.
\<close>

section \<open>Arguments\<close>

text \<open>The memory of a local variable that is only written is \<open>unset n\<close>.\<close>

definition unset :: "nat \<Rightarrow> byte list" where
  "unset n = replicate n 0"

text \<open>
  The typed variable of a value argument, the driver instance the first argument points to,
  and the promotion of an argument to \<open>rpc_response_marshall\<close>.
\<close>

definition arg_word :: "rpc_arg list \<Rightarrow> nat \<Rightarrow> 'a::len word" where
  "arg_word args i = bytes_word (arg_mem (args ! i))"

definition rv :: "'a::len word \<Rightarrow> resp_arg" where
  "rv w = Resp_val (ucast w)"

lemma plength_of_nat [simp]: "k < 2 ^ 24 \<Longrightarrow> unat (of_nat k :: 24 word) = k"
  by (simp add: unat_of_nat take_bit_nat_eq_self)

text \<open>Lengths of the descriptors, and the arguments on either side.\<close>

lemma plen_macros [simp]:
  "plen (RPC_PARAM_TYPE 4) = 4" "plen (RPC_PARAM_TYPE (Suc 0)) = Suc 0"
  "plen (RPC_PARAM_RETURN 4) = 4" "plen (RPC_PARAM_RETURN (Suc 0)) = Suc 0"
  "n < 2 ^ 24 \<Longrightarrow> plen (RPC_PARAM_IN_BUFFER (Suc 0) n) = n"
  "n < 2 ^ 24 \<Longrightarrow> plen (RPC_PARAM_OUT_BUFFER (Suc 0) n) = n"
  "4 * n < 2 ^ 24 \<Longrightarrow> plen (RPC_PARAM_IN_BUFFER 4 n) = 4 * n"
  "4 * n < 2 ^ 24 \<Longrightarrow> plen (RPC_PARAM_OUT_BUFFER 4 n) = 4 * n"
  by (simp_all add: rpc_param_defs plength_of_nat del: of_nat_mult)

lemma desc_flags [simp]:
  "\<not> is_ptr (RPC_PARAM_TYPE k)" "is_input (RPC_PARAM_TYPE k)" "\<not> is_output (RPC_PARAM_TYPE k)"
  "\<not> is_ptr (RPC_PARAM_RETURN k)" "\<not> is_input (RPC_PARAM_RETURN k)"
  "is_output (RPC_PARAM_RETURN k)"
  "is_ptr (RPC_PARAM_IN_BUFFER k n)" "is_input (RPC_PARAM_IN_BUFFER k n)"
  "\<not> is_output (RPC_PARAM_IN_BUFFER k n)"
  "is_ptr (RPC_PARAM_OUT_BUFFER k n)" "\<not> is_input (RPC_PARAM_OUT_BUFFER k n)"
  "is_output (RPC_PARAM_OUT_BUFFER k n)"
  by (simp_all add: rpc_param_defs)

lemma arg_mem_received [simp]:
  "arg_mem (received (RPC_PARAM_TYPE k) a) = take (plen (RPC_PARAM_TYPE k)) a"
  "arg_mem (received (RPC_PARAM_IN_BUFFER k n) a) = take (plen (RPC_PARAM_IN_BUFFER k n)) a"
  by (auto simp: received_def word_greater_zero_iff)

lemma returned_simps [simp]:
  "returned (RPC_PARAM_TYPE k) a r = a"
  "returned (RPC_PARAM_IN_BUFFER k n) a r = a"
  "returned (RPC_PARAM_RETURN k) a r
     = take (plen (RPC_PARAM_RETURN k)) (resp_mem (RPC_PARAM_RETURN k) r)
         @ drop (plen (RPC_PARAM_RETURN k)) a"
  "returned (RPC_PARAM_OUT_BUFFER k n) a (Resp_ptr m)
     = take (plen (RPC_PARAM_OUT_BUFFER k n)) m @ drop (plen (RPC_PARAM_OUT_BUFFER k n)) a"
  by (simp_all add: returned_def resp_mem_def)

lemma resp_rv [simp]:
  "resp_mem (RPC_PARAM_RETURN 4) (rv (w :: u32)) = word_bytes 4 w"
  "resp_mem (RPC_PARAM_RETURN (Suc 0)) (rv (b :: byte)) = word_bytes (Suc 0) b"
  "resp_ok (RPC_PARAM_RETURN 4) (rv w')" "resp_ok (RPC_PARAM_RETURN (Suc 0)) (rv w')"
  "resp_ok (RPC_PARAM_TYPE 4) (rv w')" "resp_ok (RPC_PARAM_TYPE (Suc 0)) (rv w')"
  by (simp_all add: resp_mem_def rv_def word_bytes_ucast)

lemma length_unset [simp]: "length (unset n) = n"
  by (simp add: unset_def)

lemma bytes_word_byte [simp]: "bytes_word [b] = (b :: byte)"
  by simp

lemma word_bytes_byte [simp]: "word_bytes (Suc 0) (b :: byte) = [b]"
  by (simp add: word_bytes_def)

section \<open>The dispatch thread\<close>

text \<open>
  One turn of a driver's dispatch thread: a request in, the function of its code called, the
  response out. \<open>e\<close> is what an unknown code does: in most drivers it leaves the response pointer
  unset, and the thread sends and frees it.
\<close>

type_synonym 's rpc_body = "rpc_arg list \<Rightarrow> 's \<Rightarrow> (resp_arg list \<times> 's) res"

definition rpc_dispatch_or ::
  "fault \<Rightarrow> (u32 \<times> 's rpc_body) list \<Rightarrow> byte list \<Rightarrow> 's \<Rightarrow> (byte list \<times> 's) res" where
  "rpc_dispatch_or e table req s =
     rbind (rpc_request_parse req) (\<lambda>m.
       case map_of table (fcode m) of
         None \<Rightarrow> Inl e
       | Some body \<Rightarrow> rpc_host body m s)"

abbreviation rpc_dispatch ::
  "(u32 \<times> 's rpc_body) list \<Rightarrow> byte list \<Rightarrow> 's \<Rightarrow> (byte list \<times> 's) res" where
  "rpc_dispatch \<equiv> rpc_dispatch_or Bad_access"

text \<open>
  The host's function for a call with \<open>n\<close> parameters, the first of which is the context.
\<close>

definition rpc_body :: "nat \<Rightarrow> (rpc_arg list \<Rightarrow> 'c \<Rightarrow> (resp_arg list \<times> 'c) res) \<Rightarrow> (u32 \<Rightarrow> 'c option) rpc_body"
  where
  "rpc_body n f args hosts =
     (if length args \<noteq> n then Inl Bad_vararg else with_ctx (arg_word args 0) (f args) hosts)"

lemma rpc_dispatch_service:
  assumes "map_of table fc = Some body"
    and "list_all (\<lambda>d. is_input d \<or> is_output d) ds" and "length ds \<le> 100"
  shows "rpc_service (rpc_dispatch_or e table) fc ds body"
proof
  show ds: "descs_ok ds" using assms(2,3) by (rule descs_okI)
  fix args s
  assume "args_fit ds args"
  with ds assms(1) show "rpc_dispatch_or e table (req_msg fc ds args) s =
      rbind (body (map2 received ds args) s) (\<lambda>(rs, s').
      rbind (rpc_response_marshall_va (parsed_req fc ds args) rs) (\<lambda>(msg_length, resp).
        Inr (take msg_length resp, s')))"
    by (simp add: rpc_dispatch_or_def rpc_request_parse_req_msg rpc_host_parsed descs_ok_def)
qed

section \<open>Calls of a configured client\<close>

context rpc_service
begin

text \<open>
  The arguments after a call are the outputs of the host's function, which gets the host's
  context pointer before them.
\<close>

lemma remote:
  assumes "aport (host_address rpc) \<ge> 0"
    and "args_fit ds (word_bytes 4 (host_ctx_ptr rpc) # ap)"
    and "body (map2 received ds (word_bytes 4 (host_ctx_ptr rpc) # ap)) s = Inr (rs, s')"
    and "resp_fit ds rs"
  shows "remote_call rpc serve fc (ds @ [RPC_PARAM_LIST_END]) ap s
    = Inr (map2 (\<lambda>(d, a) r. returned d a r)
        (zip ds (word_bytes 4 (host_ctx_ptr rpc) # ap)) rs, s')"
  using assms(1) client_call [OF assms(2-4)] by (simp add: remote_call_def)

lemma remote_fault:
  assumes "aport (host_address rpc) \<ge> 0"
    and "args_fit ds (word_bytes 4 (host_ctx_ptr rpc) # ap)"
    and "body (map2 received ds (word_bytes 4 (host_ctx_ptr rpc) # ap)) s = Inl e"
  shows "remote_call rpc serve fc (ds @ [RPC_PARAM_LIST_END]) ap s = Inl e"
  using assms(1) client_fault [OF assms(2,3)] by (simp add: remote_call_def)

lemma call_bind:
  assumes "args_fit ds args"
    and "\<And>rs s'. body (map2 received ds args) s = Inr (rs, s') \<Longrightarrow> resp_fit ds rs"
  shows "rpc_client_call_generic serve fc (ds @ [RPC_PARAM_LIST_END]) args s
    = rbind (body (map2 received ds args) s) (\<lambda>(rs, s').
        Inr (map2 (\<lambda>(d, a) r. returned d a r) (zip ds args) rs, s'))"
proof (cases "body (map2 received ds args) s")
  case (Inl e)
  then show ?thesis using client_fault [OF assms(1)] by simp
next
  case (Inr r)
  moreover obtain rs s' where "r = (rs, s')" by fastforce
  ultimately show ?thesis using client_call [OF assms(1) _ assms(2)] by simp
qed

lemma remote_bind:
  assumes "aport (host_address rpc) \<ge> 0"
    and "args_fit ds (word_bytes 4 (host_ctx_ptr rpc) # ap)"
    and "\<And>rs s'. body (map2 received ds (word_bytes 4 (host_ctx_ptr rpc) # ap)) s = Inr (rs, s')
      \<Longrightarrow> resp_fit ds rs"
  shows "remote_call rpc serve fc (ds @ [RPC_PARAM_LIST_END]) ap s
    = rbind (body (map2 received ds (word_bytes 4 (host_ctx_ptr rpc) # ap)) s) (\<lambda>(rs, s').
        Inr (map2 (\<lambda>(d, a) r. returned d a r)
          (zip ds (word_bytes 4 (host_ctx_ptr rpc) # ap)) rs, s'))"
  unfolding remote_call_configured [OF assms(1)] by (rule call_bind [OF assms(2,3)])

end

section \<open>A configured client\<close>

definition echo_rpc :: driver_rpc where
  "echo_rpc = rpc_config 7 3 (rpc_client_init 9 64
     \<lparr>client_address = replicate 3 \<lparr>intertile_ctx = 0, aport = 0\<rparr>, remote_client_count = 0,
      host_task_priority = 0, rpc_host_start = False\<rparr>)"

lemma echo_rpc [simp]: "aport (host_address echo_rpc) = 7" "host_ctx_ptr echo_rpc = 64"
proof -
  let ?r = "\<lparr>client_address = replicate 3 \<lparr>intertile_ctx = 0, aport = 0\<rparr>,
     remote_client_count = 0, host_task_priority = 0, rpc_host_start = False\<rparr>"
  have wf: "rpc_wf ?r"
    by (simp add: rpc_wf_def RTOS_DRIVER_RPC_MAX_CLIENT_TILES_def)
  show "aport (host_address echo_rpc) = 7" "host_ctx_ptr echo_rpc = 64"
    by (simp_all add: echo_rpc_def rpc_client_configured [OF wf])
qed

end
