(* ===== verification/I2c_Master.thy ===== *)
theory I2c_Master
  imports Rpc_Args
begin

text \<open>
  The I2C master driver (modules/drivers/i2c/src/rtos_i2c_master.c) and its remote half
  (rtos_i2c_master_rpc.c). The bit-level I2C library is not in the repository: its calls
  and its result codes are the fields of the record \<open>i2c_api\<close>, acting on a device of any
  type. The driver's recursive mutex is the recursion count of the task that holds it.
\<close>

section \<open>The local driver\<close>

text \<open>
  \<open>lib_write dev_addr buf n stop d\<close> returns the result, the number of bytes it stores through
  \<open>num_bytes_sent\<close>, and the device; \<open>lib_read\<close> the result and the buffer after the read.
\<close>

record 'd i2c_api =
  lib_write :: "byte \<Rightarrow> byte list \<Rightarrow> u32 \<Rightarrow> u32 \<Rightarrow> 'd \<Rightarrow> u32 \<times> u32 \<times> 'd"
  lib_read :: "byte \<Rightarrow> byte list \<Rightarrow> u32 \<Rightarrow> u32 \<Rightarrow> 'd \<Rightarrow> u32 \<times> byte list \<times> 'd"
  lib_stop_bit_send :: "'d \<Rightarrow> 'd"
  I2C_ACK :: u32
  I2C_REGOP_SUCCESS :: u32
  I2C_REGOP_DEVICE_NACK :: u32
  I2C_REGOP_INCOMPLETE :: u32

record 'd i2c_master =
  ctx :: 'd
  lock :: nat

definition lock_get :: "'d i2c_master \<Rightarrow> 'd i2c_master" where
  "lock_get c = c\<lparr>lock := lock c + 1\<rparr>"

definition lock_put :: "'d i2c_master \<Rightarrow> 'd i2c_master" where
  "lock_put c = c\<lparr>lock := lock c - 1\<rparr>"

definition i2c_master_local_write ::
  "'d i2c_api \<Rightarrow> byte \<Rightarrow> byte list \<Rightarrow> u32 \<Rightarrow> u32 \<Rightarrow> 'd i2c_master \<Rightarrow> u32 \<times> u32 \<times> 'd i2c_master"
  where
  "i2c_master_local_write api device_addr buf n send_stop_bit c =
     (let c1 = lock_get c;
          (res, num_bytes_sent, d) = lib_write api device_addr buf n send_stop_bit (ctx c1);
          c2 = lock_put (c1\<lparr>ctx := d\<rparr>)
      in (res, num_bytes_sent, c2))"

definition i2c_master_local_read ::
  "'d i2c_api \<Rightarrow> byte \<Rightarrow> byte list \<Rightarrow> u32 \<Rightarrow> u32 \<Rightarrow> 'd i2c_master
     \<Rightarrow> u32 \<times> byte list \<times> 'd i2c_master" where
  "i2c_master_local_read api device_addr buf n send_stop_bit c =
     (let c1 = lock_get c;
          (res, buf', d) = lib_read api device_addr buf n send_stop_bit (ctx c1);
          c2 = lock_put (c1\<lparr>ctx := d\<rparr>)
      in (res, buf', c2))"

definition i2c_master_local_stop_bit_send :: "'d i2c_api \<Rightarrow> 'd i2c_master \<Rightarrow> 'd i2c_master" where
  "i2c_master_local_stop_bit_send api c =
     (let c1 = lock_get c in lock_put (c1\<lparr>ctx := lib_stop_bit_send api (ctx c1)\<rparr>))"

definition i2c_master_local_reg_write ::
  "'d i2c_api \<Rightarrow> byte \<Rightarrow> byte \<Rightarrow> byte \<Rightarrow> 'd i2c_master \<Rightarrow> u32 \<times> 'd i2c_master" where
  "i2c_master_local_reg_write api device_addr reg_addr data c =
     (let (res, num_bytes_sent, c1) =
            i2c_master_local_write api device_addr [reg_addr, data] 2 1 c;
          reg_res =
            (if res = I2C_ACK api
             then if num_bytes_sent = 0 then I2C_REGOP_DEVICE_NACK api
                  else if num_bytes_sent < 2 then I2C_REGOP_INCOMPLETE api
                  else I2C_REGOP_SUCCESS api
             else I2C_REGOP_DEVICE_NACK api)
      in (reg_res, c1))"

text \<open>The result, the data byte afterwards, and the driver.\<close>

definition i2c_master_local_reg_read ::
  "'d i2c_api \<Rightarrow> byte \<Rightarrow> byte \<Rightarrow> byte \<Rightarrow> 'd i2c_master \<Rightarrow> u32 \<times> byte \<times> 'd i2c_master" where
  "i2c_master_local_reg_read api device_addr reg_addr data c =
     (let c1 = lock_get c;
          (res, num_bytes_sent, c2) = i2c_master_local_write api device_addr [reg_addr] 1 0 c1;
          reg_res =
            (if res = I2C_ACK api
             then if num_bytes_sent = 0 then I2C_REGOP_DEVICE_NACK api
                  else I2C_REGOP_SUCCESS api
             else I2C_REGOP_DEVICE_NACK api)
      in if reg_res = I2C_REGOP_SUCCESS api
         then let (res2, buf, c3) = i2c_master_local_read api device_addr [data] 1 1 c2;
                  reg_res2 =
                    (if res2 = I2C_ACK api then I2C_REGOP_SUCCESS api
                     else I2C_REGOP_DEVICE_NACK api)
              in (reg_res2, hd (buf @ [data]), lock_put c3)
         else (reg_res, data, lock_put c2))"

section \<open>The remote half: the client's functions\<close>

definition fcode_write :: u32 where "fcode_write = 0"
definition fcode_read :: u32 where "fcode_read = 1"
definition fcode_stop_bit_send :: u32 where "fcode_stop_bit_send = 2"
definition fcode_reg_write :: u32 where "fcode_reg_write = 3"
definition fcode_reg_read :: u32 where "fcode_reg_read = 4"

lemmas i2c_fcodes =
  fcode_write_def fcode_read_def fcode_stop_bit_send_def fcode_reg_write_def fcode_reg_read_def

text \<open>Pointers, size_t, int and the enumerations are 4 bytes on the XCORE.\<close>

definition write_descs :: "nat \<Rightarrow> rpc_param_desc list" where
  "write_descs n =
     [RPC_PARAM_TYPE 4, RPC_PARAM_TYPE 1, RPC_PARAM_IN_BUFFER 1 n, RPC_PARAM_TYPE 4,
      RPC_PARAM_RETURN 4, RPC_PARAM_TYPE 4, RPC_PARAM_RETURN 4]"

definition read_descs :: "nat \<Rightarrow> rpc_param_desc list" where
  "read_descs n =
     [RPC_PARAM_TYPE 4, RPC_PARAM_TYPE 1, RPC_PARAM_OUT_BUFFER 1 n, RPC_PARAM_TYPE 4,
      RPC_PARAM_TYPE 4, RPC_PARAM_RETURN 4]"

definition stop_bit_send_descs :: "rpc_param_desc list" where
  "stop_bit_send_descs = [RPC_PARAM_TYPE 4]"

definition reg_write_descs :: "rpc_param_desc list" where
  "reg_write_descs =
     [RPC_PARAM_TYPE 4, RPC_PARAM_TYPE 1, RPC_PARAM_TYPE 1, RPC_PARAM_TYPE 1,
      RPC_PARAM_RETURN 4]"

definition reg_read_descs :: "rpc_param_desc list" where
  "reg_read_descs =
     [RPC_PARAM_TYPE 4, RPC_PARAM_TYPE 1, RPC_PARAM_TYPE 1, RPC_PARAM_RETURN 1,
      RPC_PARAM_RETURN 4]"

lemmas i2c_descs =
  write_descs_def read_descs_def stop_bit_send_descs_def reg_write_descs_def reg_read_descs_def

text \<open>\<open>num_bytes_sent\<close> is the memory the caller's pointer refers to, or no pointer.\<close>

definition i2c_master_remote_write ::
  "driver_rpc \<Rightarrow> (byte list \<Rightarrow> 's \<Rightarrow> (byte list \<times> 's) res) \<Rightarrow> byte \<Rightarrow> byte list \<Rightarrow> u32
     \<Rightarrow> byte list option \<Rightarrow> u32 \<Rightarrow> 's \<Rightarrow> (u32 \<times> byte list option \<times> 's) res" where
  "i2c_master_remote_write rpc transact device_addr buf n num_bytes_sent send_stop_bit s =
     (let descs = write_descs (unat n) @ [RPC_PARAM_LIST_END]
      in case num_bytes_sent of
           Some sent \<Rightarrow>
             rbind (remote_call rpc transact fcode_write descs
                      [[device_addr], buf, word_bytes 4 n, sent, word_bytes 4 send_stop_bit,
                       unset 4] s)
               (\<lambda>(ap, s'). Inr (bytes_word (ap ! 6), Some (ap ! 4), s'))
         | None \<Rightarrow>
             rbind (remote_call rpc transact fcode_write descs
                      [[device_addr], buf, word_bytes 4 n, unset 4, word_bytes 4 send_stop_bit,
                       unset 4] s)
               (\<lambda>(ap, s'). Inr (bytes_word (ap ! 6), None, s')))"

definition i2c_master_remote_read ::
  "driver_rpc \<Rightarrow> (byte list \<Rightarrow> 's \<Rightarrow> (byte list \<times> 's) res) \<Rightarrow> byte \<Rightarrow> byte list \<Rightarrow> u32 \<Rightarrow> u32
     \<Rightarrow> 's \<Rightarrow> (u32 \<times> byte list \<times> 's) res" where
  "i2c_master_remote_read rpc transact device_addr buf n send_stop_bit s =
     rbind (remote_call rpc transact fcode_read (read_descs (unat n) @ [RPC_PARAM_LIST_END])
              [[device_addr], buf, word_bytes 4 n, word_bytes 4 send_stop_bit, unset 4] s)
       (\<lambda>(ap, s'). Inr (bytes_word (ap ! 5), ap ! 2, s'))"

definition i2c_master_remote_stop_bit_send ::
  "driver_rpc \<Rightarrow> (byte list \<Rightarrow> 's \<Rightarrow> (byte list \<times> 's) res) \<Rightarrow> 's \<Rightarrow> 's res" where
  "i2c_master_remote_stop_bit_send rpc transact s =
     rbind (remote_call rpc transact fcode_stop_bit_send
              (stop_bit_send_descs @ [RPC_PARAM_LIST_END]) [] s) (\<lambda>(ap, s'). Inr s')"

definition i2c_master_remote_reg_write ::
  "driver_rpc \<Rightarrow> (byte list \<Rightarrow> 's \<Rightarrow> (byte list \<times> 's) res) \<Rightarrow> byte \<Rightarrow> byte \<Rightarrow> byte
     \<Rightarrow> 's \<Rightarrow> (u32 \<times> 's) res" where
  "i2c_master_remote_reg_write rpc transact device_addr reg_addr data s =
     rbind (remote_call rpc transact fcode_reg_write (reg_write_descs @ [RPC_PARAM_LIST_END])
              [[device_addr], [reg_addr], [data], unset 4] s)
       (\<lambda>(ap, s'). Inr (bytes_word (ap ! 4), s'))"

definition i2c_master_remote_reg_read ::
  "driver_rpc \<Rightarrow> (byte list \<Rightarrow> 's \<Rightarrow> (byte list \<times> 's) res) \<Rightarrow> byte \<Rightarrow> byte \<Rightarrow> byte
     \<Rightarrow> 's \<Rightarrow> (u32 \<times> byte \<times> 's) res" where
  "i2c_master_remote_reg_read rpc transact device_addr reg_addr data s =
     rbind (remote_call rpc transact fcode_reg_read (reg_read_descs @ [RPC_PARAM_LIST_END])
              [[device_addr], [reg_addr], [data], unset 4] s)
       (\<lambda>(ap, s'). Inr (bytes_word (ap ! 4), bytes_word (ap ! 3), s'))"

section \<open>The remote half: the host's functions\<close>

type_synonym 'd i2c_hosts = "u32 \<Rightarrow> 'd i2c_master option"

definition i2c_write_body ::
  "'d i2c_api \<Rightarrow> rpc_arg list \<Rightarrow> 'd i2c_hosts \<Rightarrow> (resp_arg list \<times> 'd i2c_hosts) res" where
  "i2c_write_body api args =
     (if length args \<noteq> 7 then (\<lambda>_. Inl Bad_vararg)
      else with_ctx (arg_word args 0) (\<lambda>c.
        let device_addr = arg_word args 1 :: byte;
            buf = arg_mem (args ! 2);
            n = arg_word args 3 :: u32;
            send_stop_bit = arg_word args 5 :: u32;
            (ret, num_bytes_sent, c') =
              i2c_master_local_write api device_addr buf n send_stop_bit c
        in Inr ([rv (arg_word args 0 :: u32), rv device_addr, Resp_ptr buf, rv n,
                 rv num_bytes_sent, rv send_stop_bit, rv ret], c')))"

text \<open>The read buffer is allocated: \<open>heap n\<close> is the content of a fresh block of \<open>n\<close> bytes.\<close>

definition i2c_read_body ::
  "'d i2c_api \<Rightarrow> (nat \<Rightarrow> byte list) \<Rightarrow> rpc_arg list \<Rightarrow> 'd i2c_hosts
     \<Rightarrow> (resp_arg list \<times> 'd i2c_hosts) res" where
  "i2c_read_body api heap args =
     (if length args \<noteq> 6 then (\<lambda>_. Inl Bad_vararg)
      else with_ctx (arg_word args 0) (\<lambda>c.
        let device_addr = arg_word args 1 :: byte;
            n = arg_word args 3 :: u32;
            send_stop_bit = arg_word args 4 :: u32;
            buf = heap (unat n);
            (ret, buf', c') = i2c_master_local_read api device_addr buf n send_stop_bit c
        in Inr ([rv (arg_word args 0 :: u32), rv device_addr, Resp_ptr buf', rv n,
                 rv send_stop_bit, rv ret], c')))"

definition i2c_stop_bit_send_body ::
  "'d i2c_api \<Rightarrow> rpc_arg list \<Rightarrow> 'd i2c_hosts \<Rightarrow> (resp_arg list \<times> 'd i2c_hosts) res" where
  "i2c_stop_bit_send_body api args =
     (if length args \<noteq> 1 then (\<lambda>_. Inl Bad_vararg)
      else with_ctx (arg_word args 0) (\<lambda>c.
        Inr ([rv (arg_word args 0 :: u32)], i2c_master_local_stop_bit_send api c)))"

definition i2c_reg_write_body ::
  "'d i2c_api \<Rightarrow> rpc_arg list \<Rightarrow> 'd i2c_hosts \<Rightarrow> (resp_arg list \<times> 'd i2c_hosts) res" where
  "i2c_reg_write_body api args =
     (if length args \<noteq> 5 then (\<lambda>_. Inl Bad_vararg)
      else with_ctx (arg_word args 0) (\<lambda>c.
        let device_addr = arg_word args 1 :: byte;
            reg_addr = arg_word args 2 :: byte;
            data = arg_word args 3 :: byte;
            (ret, c') = i2c_master_local_reg_write api device_addr reg_addr data c
        in Inr ([rv (arg_word args 0 :: u32), rv device_addr, rv reg_addr, rv data, rv ret],
                c')))"

text \<open>The host's \<open>data\<close> variable is not initialised: it holds the parameter \<open>junk\<close>.\<close>

definition i2c_reg_read_body ::
  "'d i2c_api \<Rightarrow> byte \<Rightarrow> rpc_arg list \<Rightarrow> 'd i2c_hosts \<Rightarrow> (resp_arg list \<times> 'd i2c_hosts) res"
  where
  "i2c_reg_read_body api junk args =
     (if length args \<noteq> 5 then (\<lambda>_. Inl Bad_vararg)
      else with_ctx (arg_word args 0) (\<lambda>c.
        let device_addr = arg_word args 1 :: byte;
            reg_addr = arg_word args 2 :: byte;
            (ret, data, c') = i2c_master_local_reg_read api device_addr reg_addr junk c
        in Inr ([rv (arg_word args 0 :: u32), rv device_addr, rv reg_addr, rv data, rv ret],
                c')))"

lemmas i2c_bodies =
  i2c_write_body_def i2c_read_body_def i2c_stop_bit_send_body_def i2c_reg_write_body_def
  i2c_reg_read_body_def

definition i2c_master_write_rpc_host where
  "i2c_master_write_rpc_host api = rpc_host (i2c_write_body api)"

definition i2c_master_read_rpc_host where
  "i2c_master_read_rpc_host api heap = rpc_host (i2c_read_body api heap)"

definition i2c_master_stop_bit_send_rpc_host where
  "i2c_master_stop_bit_send_rpc_host api = rpc_host (i2c_stop_bit_send_body api)"

definition i2c_master_reg_write_rpc_host where
  "i2c_master_reg_write_rpc_host api = rpc_host (i2c_reg_write_body api)"

definition i2c_master_reg_read_rpc_host where
  "i2c_master_reg_read_rpc_host api junk = rpc_host (i2c_reg_read_body api junk)"

lemmas i2c_hosts_defs =
  i2c_master_write_rpc_host_def i2c_master_read_rpc_host_def
  i2c_master_stop_bit_send_rpc_host_def i2c_master_reg_write_rpc_host_def
  i2c_master_reg_read_rpc_host_def

text \<open>
  One turn of the dispatch thread: a request in, the response out. An unknown function code
  leaves the response pointer unset, and the thread sends and frees it.
\<close>

definition i2c_master_rpc_thread ::
  "'d i2c_api \<Rightarrow> (nat \<Rightarrow> byte list) \<Rightarrow> byte \<Rightarrow> byte list \<Rightarrow> 'd i2c_hosts
     \<Rightarrow> (byte list \<times> 'd i2c_hosts) res" where
  "i2c_master_rpc_thread api heap junk req s =
     rbind (rpc_request_parse req) (\<lambda>rpc_msg.
       if fcode rpc_msg = fcode_write then i2c_master_write_rpc_host api rpc_msg s
       else if fcode rpc_msg = fcode_read then i2c_master_read_rpc_host api heap rpc_msg s
       else if fcode rpc_msg = fcode_stop_bit_send
         then i2c_master_stop_bit_send_rpc_host api rpc_msg s
       else if fcode rpc_msg = fcode_reg_write
         then i2c_master_reg_write_rpc_host api rpc_msg s
       else if fcode rpc_msg = fcode_reg_read
         then i2c_master_reg_read_rpc_host api junk rpc_msg s
       else Inl Bad_access)"

section \<open>Initialisation\<close>

text \<open>The generic operations of \<open>Driver_Rpc\<close>, under the names of this driver.\<close>

definition rtos_i2c_master_init :: "nat \<Rightarrow> driver \<Rightarrow> driver res" where
  "rtos_i2c_master_init tmr d = xassert (tmr = 0) (Inr (driver_init d))"

definition rtos_i2c_master_start :: "driver \<Rightarrow> (driver \<times> (rpc_addr \<times> int) list) res" where
  "rtos_i2c_master_start = driver_start"

definition rtos_i2c_master_rpc_config :: "u32 \<Rightarrow> u32 \<Rightarrow> driver \<Rightarrow> driver res" where
  "rtos_i2c_master_rpc_config = driver_rpc_config"

definition rtos_i2c_master_rpc_client_init :: "u32 \<Rightarrow> u32 \<Rightarrow> driver_rpc \<Rightarrow> driver \<Rightarrow> driver" where
  "rtos_i2c_master_rpc_client_init = driver_rpc_init_client"

definition rtos_i2c_master_rpc_host_init ::
  "u32 \<Rightarrow> u32 list \<Rightarrow> driver_rpc \<Rightarrow> driver \<Rightarrow> (driver \<times> (u32 \<times> u32) list) res" where
  "rtos_i2c_master_rpc_host_init = driver_rpc_init_host"

section \<open>The five functions are services\<close>

lemma descs_ok_lists [simp]:
  "descs_ok (write_descs n)" "descs_ok (read_descs n)" "descs_ok stop_bit_send_descs"
  "descs_ok reg_write_descs" "descs_ok reg_read_descs"
  by (auto intro!: descs_okI simp: i2c_descs rpc_param_defs)

lemma i2c_thread_dispatch:
  assumes "descs_ok ds" and "args_fit ds args"
  shows "i2c_master_rpc_thread api heap junk (req_msg fcode_write ds args) s
           = rpc_host (i2c_write_body api) (parsed_req fcode_write ds args) s"
    and "i2c_master_rpc_thread api heap junk (req_msg fcode_read ds args) s
           = rpc_host (i2c_read_body api heap) (parsed_req fcode_read ds args) s"
    and "i2c_master_rpc_thread api heap junk (req_msg fcode_stop_bit_send ds args) s
           = rpc_host (i2c_stop_bit_send_body api) (parsed_req fcode_stop_bit_send ds args) s"
    and "i2c_master_rpc_thread api heap junk (req_msg fcode_reg_write ds args) s
           = rpc_host (i2c_reg_write_body api) (parsed_req fcode_reg_write ds args) s"
    and "i2c_master_rpc_thread api heap junk (req_msg fcode_reg_read ds args) s
           = rpc_host (i2c_reg_read_body api junk) (parsed_req fcode_reg_read ds args) s"
  using assms
  by (simp_all add: i2c_master_rpc_thread_def rpc_request_parse_req_msg descs_ok_def
      i2c_hosts_defs i2c_fcodes)

interpretation i2c_write: rpc_service "i2c_master_rpc_thread api heap junk" fcode_write
    "write_descs n" "i2c_write_body api" for api heap junk n
  by unfold_locales (simp_all add: i2c_thread_dispatch rpc_host_parsed)

interpretation i2c_read: rpc_service "i2c_master_rpc_thread api heap junk" fcode_read
    "read_descs n" "i2c_read_body api heap" for api heap junk n
  by unfold_locales (simp_all add: i2c_thread_dispatch rpc_host_parsed)

interpretation i2c_stop: rpc_service "i2c_master_rpc_thread api heap junk" fcode_stop_bit_send
    stop_bit_send_descs "i2c_stop_bit_send_body api" for api heap junk
  by unfold_locales (simp_all add: i2c_thread_dispatch rpc_host_parsed)

interpretation i2c_reg_write: rpc_service "i2c_master_rpc_thread api heap junk" fcode_reg_write
    reg_write_descs "i2c_reg_write_body api" for api heap junk
  by unfold_locales (simp_all add: i2c_thread_dispatch rpc_host_parsed)

interpretation i2c_reg_read: rpc_service "i2c_master_rpc_thread api heap junk" fcode_reg_read
    reg_read_descs "i2c_reg_read_body api junk" for api heap junk
  by unfold_locales (simp_all add: i2c_thread_dispatch rpc_host_parsed)

section \<open>A remote call is the local call\<close>

text \<open>
  C1. A write through the RPC client of the I2C master driver, when the client is configured
  and the host pointer it was given names a driver, returns the result and the byte count
  that the local write on the host returns, leaves the host in the state the local write
  leaves it in, and does not fail. The buffer is any of less than 2^24 bytes; the pointer
  for the byte count may be null.
\<close>

theorem i2c_remote_write_is_local:
  assumes "aport (host_address rpc) \<ge> 0"
    and "hosts (host_ctx_ptr rpc) = Some c"
    and "unat n < 2 ^ 24" and "length buf = unat n"
    and "\<forall>v. num_bytes_sent = Some v \<longrightarrow> length v = 4"
    and "i2c_master_local_write api device_addr buf n stop c = (res, sent, c')"
  shows "i2c_master_remote_write rpc (i2c_master_rpc_thread api heap junk) device_addr buf n
           num_bytes_sent stop hosts
         = Inr (res, map_option (\<lambda>_. word_bytes 4 sent) num_bytes_sent,
                hosts(host_ctx_ptr rpc \<mapsto> c'))"
proof -
  let ?p = "host_ctx_ptr rpc"
  let ?args = "\<lambda>v. [word_bytes 4 ?p, [device_addr], buf, word_bytes 4 n, v, word_bytes 4 stop,
                    unset 4]"
  have fit: "args_fit (write_descs (unat n)) (?args v)" if "length v = 4" for v
    using assms(3,4) that by (simp add: write_descs_def)
  have body: "i2c_write_body api (map2 received (write_descs (unat n)) (?args v)) hosts
      = Inr ([rv ?p, rv device_addr, Resp_ptr buf, rv n, rv sent, rv stop, rv res],
             hosts(?p \<mapsto> c'))" for v
    using assms(2,3,4,6)
    by (simp add: i2c_write_body_def write_descs_def arg_word_def with_ctx_def)
  have resp: "resp_fit (write_descs (unat n))
      [rv ?p, rv device_addr, Resp_ptr buf, rv n, rv sent, rv stop, rv res]"
    using assms(3,4) by (simp add: write_descs_def)
  note call = i2c_write.client_call [OF fit body resp]
  show ?thesis
  proof (cases num_bytes_sent)
    case None
    with assms(1) call [of "unset 4"] show ?thesis
      by (simp add: i2c_master_remote_write_def) (simp add: write_descs_def)
  next
    case (Some v)
    with assms(5) have "length v = 4" by simp
    with Some assms(1) call [of v] show ?thesis
      by (simp add: i2c_master_remote_write_def) (simp add: write_descs_def)
  qed
qed

text \<open>
  A read through the RPC client of the I2C master driver returns the result and the bytes of
  the local read on the host, which runs on a buffer of the requested length, and leaves the
  host in the state the local read leaves it in.
\<close>

theorem i2c_remote_read_is_local:
  assumes "aport (host_address rpc) \<ge> 0"
    and "hosts (host_ctx_ptr rpc) = Some c"
    and "unat n < 2 ^ 24" and "length buf = unat n"
    and "i2c_master_local_read api device_addr (heap (unat n)) n stop c = (res, buf', c')"
    and "length buf' = unat n"
  shows "i2c_master_remote_read rpc (i2c_master_rpc_thread api heap junk) device_addr buf n
           stop hosts
         = Inr (res, buf', hosts(host_ctx_ptr rpc \<mapsto> c'))"
proof -
  let ?p = "host_ctx_ptr rpc"
  let ?args = "[word_bytes 4 ?p, [device_addr], buf, word_bytes 4 n, word_bytes 4 stop, unset 4]"
  have fit: "args_fit (read_descs (unat n)) ?args"
    using assms(3,4) by (simp add: read_descs_def)
  have body: "i2c_read_body api heap (map2 received (read_descs (unat n)) ?args) hosts
      = Inr ([rv ?p, rv device_addr, Resp_ptr buf', rv n, rv stop, rv res], hosts(?p \<mapsto> c'))"
    using assms(2,5)
    by (simp add: i2c_read_body_def read_descs_def arg_word_def with_ctx_def)
  have resp: "resp_fit (read_descs (unat n))
      [rv ?p, rv device_addr, Resp_ptr buf', rv n, rv stop, rv res]"
    using assms(3,6) by (simp add: read_descs_def)
  show ?thesis
    using assms(1,3,4,6) i2c_read.client_call [OF fit body resp]
    by (simp add: i2c_master_remote_read_def) (simp add: read_descs_def)
qed

lemma i2c_remote_stop_bit_send_is_local:
  assumes "aport (host_address rpc) \<ge> 0" and "hosts (host_ctx_ptr rpc) = Some c"
  shows "i2c_master_remote_stop_bit_send rpc (i2c_master_rpc_thread api heap junk) hosts
         = Inr (hosts(host_ctx_ptr rpc \<mapsto> i2c_master_local_stop_bit_send api c))"
proof -
  let ?p = "host_ctx_ptr rpc"
  have fit: "args_fit stop_bit_send_descs [word_bytes 4 ?p]"
    by (simp add: stop_bit_send_descs_def)
  have body: "i2c_stop_bit_send_body api (map2 received stop_bit_send_descs [word_bytes 4 ?p])
      hosts = Inr ([rv ?p], hosts(?p \<mapsto> i2c_master_local_stop_bit_send api c))"
    using assms(2)
    by (simp add: i2c_stop_bit_send_body_def stop_bit_send_descs_def arg_word_def with_ctx_def)
  have resp: "resp_fit stop_bit_send_descs [rv ?p]"
    by (simp add: stop_bit_send_descs_def)
  show ?thesis
    using assms(1) i2c_stop.client_call [OF fit body resp]
    by (simp add: i2c_master_remote_stop_bit_send_def)
qed

lemma i2c_remote_reg_write_is_local:
  assumes "aport (host_address rpc) \<ge> 0" and "hosts (host_ctx_ptr rpc) = Some c"
    and "i2c_master_local_reg_write api device_addr reg_addr data c = (res, c')"
  shows "i2c_master_remote_reg_write rpc (i2c_master_rpc_thread api heap junk) device_addr
           reg_addr data hosts = Inr (res, hosts(host_ctx_ptr rpc \<mapsto> c'))"
proof -
  let ?p = "host_ctx_ptr rpc"
  let ?args = "[word_bytes 4 ?p, [device_addr], [reg_addr], [data], unset 4]"
  have fit: "args_fit reg_write_descs ?args"
    by (simp add: reg_write_descs_def)
  have body: "i2c_reg_write_body api (map2 received reg_write_descs ?args) hosts
      = Inr ([rv ?p, rv device_addr, rv reg_addr, rv data, rv res], hosts(?p \<mapsto> c'))"
    using assms(2,3)
    by (simp add: i2c_reg_write_body_def reg_write_descs_def arg_word_def with_ctx_def)
  have resp: "resp_fit reg_write_descs
      [rv ?p, rv device_addr, rv reg_addr, rv data, rv res]"
    by (simp add: reg_write_descs_def)
  show ?thesis
    using assms(1) i2c_reg_write.client_call [OF fit body resp]
    by (simp add: i2c_master_remote_reg_write_def) (simp add: reg_write_descs_def)
qed

text \<open>
  A register read through the RPC client returns the result and the data byte of the local
  register read on the host.
\<close>

theorem i2c_remote_reg_read_is_local:
  assumes "aport (host_address rpc) \<ge> 0" and "hosts (host_ctx_ptr rpc) = Some c"
    and "i2c_master_local_reg_read api device_addr reg_addr junk c = (res, data', c')"
  shows "i2c_master_remote_reg_read rpc (i2c_master_rpc_thread api heap junk) device_addr
           reg_addr data hosts = Inr (res, data', hosts(host_ctx_ptr rpc \<mapsto> c'))"
proof -
  let ?p = "host_ctx_ptr rpc"
  let ?args = "[word_bytes 4 ?p, [device_addr], [reg_addr], [data], unset 4]"
  have fit: "args_fit reg_read_descs ?args"
    by (simp add: reg_read_descs_def)
  have body: "i2c_reg_read_body api junk (map2 received reg_read_descs ?args) hosts
      = Inr ([rv ?p, rv device_addr, rv reg_addr, rv data', rv res], hosts(?p \<mapsto> c'))"
    using assms(2,3)
    by (simp add: i2c_reg_read_body_def reg_read_descs_def arg_word_def with_ctx_def)
  have resp: "resp_fit reg_read_descs
      [rv ?p, rv device_addr, rv reg_addr, rv data', rv res]"
    by (simp add: reg_read_descs_def)
  show ?thesis
    using assms(1) i2c_reg_read.client_call [OF fit body resp]
    by (simp add: i2c_master_remote_reg_read_def) (simp add: reg_read_descs_def)
qed

section \<open>The register operations\<close>

text \<open>Every operation gives the mutex back as often as it takes it.\<close>

lemma i2c_lock_balanced:
  "i2c_master_local_write api da buf n stop c = (r, k, c1) \<Longrightarrow> lock c1 = lock c"
  "i2c_master_local_read api da buf n stop c = (r, buf', c2) \<Longrightarrow> lock c2 = lock c"
  "lock (i2c_master_local_stop_bit_send api c) = lock c"
  by (auto simp: i2c_master_local_write_def i2c_master_local_read_def
      i2c_master_local_stop_bit_send_def lock_get_def lock_put_def Let_def split: prod.splits)

lemma i2c_reg_write_lock_balanced:
  "i2c_master_local_reg_write api da ra v c = (r, c') \<Longrightarrow> lock c' = lock c"
  by (auto simp: i2c_master_local_reg_write_def Let_def dest: i2c_lock_balanced(1)
      split: prod.splits)

lemma i2c_reg_read_lock_balanced:
  "i2c_master_local_reg_read api da ra v c = (r, v', c') \<Longrightarrow> lock c' = lock c"
  by (auto simp: i2c_master_local_reg_read_def lock_get_def lock_put_def Let_def
      dest!: i2c_lock_balanced(1,2) split: prod.splits if_splits)

text \<open>
  The read phase of a register read happens exactly when the register address was
  acknowledged; otherwise the data byte is left as it was and the device is told apart only
  by the failed write.
\<close>

lemma i2c_reg_read_nack:
  assumes "I2C_REGOP_DEVICE_NACK api \<noteq> I2C_REGOP_SUCCESS api"
    and "lib_write api da [ra] 1 0 (ctx c) = (res, sent, d)"
    and "res \<noteq> I2C_ACK api \<or> sent = 0"
  shows "i2c_master_local_reg_read api da ra v c
           = (I2C_REGOP_DEVICE_NACK api, v, c\<lparr>ctx := d\<rparr>)"
  using assms
  by (auto simp: i2c_master_local_reg_read_def i2c_master_local_write_def lock_get_def
      lock_put_def Let_def)

text \<open>
  A register read reports success exactly when the register address was acknowledged and
  sent and the one-byte read that follows was acknowledged, and then stores the byte read;
  the mutex is given back.
\<close>

theorem i2c_reg_read_success:
  assumes "I2C_REGOP_DEVICE_NACK api \<noteq> I2C_REGOP_SUCCESS api"
    and "i2c_master_local_reg_read api da ra v c = (r, v', c')"
  shows "r = I2C_REGOP_SUCCESS api \<longleftrightarrow>
    (\<exists>sent d buf d'. lib_write api da [ra] 1 0 (ctx c) = (I2C_ACK api, sent, d) \<and> sent \<noteq> 0 \<and>
       lib_read api da [v] 1 1 d = (I2C_ACK api, buf, d') \<and> v' = hd (buf @ [v]) \<and>
       c' = c\<lparr>ctx := d'\<rparr>)"
  using assms
  by (auto simp: i2c_master_local_reg_read_def i2c_master_local_write_def
      i2c_master_local_read_def lock_get_def lock_put_def Let_def split: prod.splits if_splits)

section \<open>A concrete device\<close>

text \<open>
  For the witnesses: a device that acknowledges everything, keeps the bytes last written and
  gives them back when read, then 0xFF.
\<close>

definition echo_api :: "byte list i2c_api" where
  "echo_api =
     \<lparr>lib_write = (\<lambda>da buf n stop d. (1, n, take (unat n) buf)),
      lib_read = (\<lambda>da buf n stop d. (1, take (unat n) (d @ replicate (unat n) 255), d)),
      lib_stop_bit_send = (\<lambda>d. d), I2C_ACK = 1, I2C_REGOP_SUCCESS = 0,
      I2C_REGOP_DEVICE_NACK = 1, I2C_REGOP_INCOMPLETE = 2\<rparr>"

definition echo_hosts :: "byte list i2c_hosts" where
  "echo_hosts = Map.empty(64 \<mapsto> \<lparr>ctx = [], lock = 0\<rparr>)"

lemmas echo_defs =
  echo_api_def echo_hosts_def i2c_master_local_write_def i2c_master_local_read_def
  i2c_master_local_reg_read_def lock_get_def lock_put_def

theorem i2c_remote_write_is_local_witness:
  "i2c_master_remote_write echo_rpc (i2c_master_rpc_thread echo_api (\<lambda>n. replicate n 0) 0) 80
     [1, 2] 2 (Some [9, 9, 9, 9]) 1 echo_hosts
   = Inr (1, Some (word_bytes 4 (2 :: u32)), echo_hosts(64 \<mapsto> \<lparr>ctx = [1, 2], lock = 0\<rparr>))"
  using i2c_remote_write_is_local [of echo_rpc echo_hosts "\<lparr>ctx = [], lock = 0\<rparr>" 2 "[1, 2]"
      "Some [9, 9, 9, 9]" echo_api 80 1 1 2 "\<lparr>ctx = [1, 2], lock = 0\<rparr>"]
  by (simp add: echo_defs)

theorem i2c_remote_read_is_local_witness:
  "i2c_master_remote_read echo_rpc (i2c_master_rpc_thread echo_api (\<lambda>n. replicate n 0) 0) 80
     [7] 1 1 echo_hosts
   = Inr (1, [255], echo_hosts)"
  using i2c_remote_read_is_local [of echo_rpc echo_hosts "\<lparr>ctx = [], lock = 0\<rparr>" 1 "[7]"
      echo_api 80 "\<lambda>n. replicate n 0" 1 1 "[255]" "\<lparr>ctx = [], lock = 0\<rparr>"]
  by (simp add: echo_defs fun_upd_idem)

theorem i2c_remote_reg_read_is_local_witness:
  "i2c_master_remote_reg_read echo_rpc (i2c_master_rpc_thread echo_api (\<lambda>n. replicate n 0) 0)
     80 5 0 echo_hosts
   = Inr (0, 5, echo_hosts(64 \<mapsto> \<lparr>ctx = [5], lock = 0\<rparr>))"
  using i2c_remote_reg_read_is_local [of echo_rpc echo_hosts "\<lparr>ctx = [], lock = 0\<rparr>" echo_api
      80 5 0 0 5 "\<lparr>ctx = [5], lock = 0\<rparr>"]
  by (simp add: echo_defs)

theorem i2c_reg_read_success_witness:
  "i2c_master_local_reg_read echo_api 80 5 0 \<lparr>ctx = [], lock = 0\<rparr>
     = (0, 5, \<lparr>ctx = [5], lock = 0\<rparr>)
   \<and> (\<exists>sent d buf d'. lib_write echo_api 80 [5] 1 0 [] = (1, sent, d) \<and> sent \<noteq> 0 \<and>
       lib_read echo_api 80 [0] 1 1 d = (1, buf, d') \<and> 5 = hd (buf @ [0]) \<and>
       \<lparr>ctx = [5], lock = 0\<rparr> = \<lparr>ctx = [], lock = 0\<rparr>\<lparr>ctx := d'\<rparr>)"
  using i2c_reg_read_success [of echo_api 80 5 0 "\<lparr>ctx = [], lock = 0\<rparr>" 0 5
      "\<lparr>ctx = [5], lock = 0\<rparr>"]
  by (simp add: echo_defs)

end
