(* ===== verification/Dhcp_Options.thy ===== *)
theory Dhcp_Options
  imports Prelude
begin

text \<open>
  The option field of a DHCP message (modules/sw_services/dhcpd/FreeRTOS/dhcpd.c):
  \<open>dhcp_option_add\<close> writes options, \<open>dhcp_option_get_next\<close> reads them one by one, and
  \<open>scan_options\<close> is the reading loop of the message handler. Pointers into the field are
  offsets, a null \<open>opt_ptr\<close> is \<open>None\<close>.
\<close>

definition DHCP_OPTIONS_LENGTH :: nat where
  "DHCP_OPTIONS_LENGTH = 308"

definition DHCP_OPTION_PAD :: byte where "DHCP_OPTION_PAD = 0"
definition DHCP_OPTION_SUBNET_MASK :: byte where "DHCP_OPTION_SUBNET_MASK = 1"
definition DHCP_OPTION_ROUTER :: byte where "DHCP_OPTION_ROUTER = 3"
definition DHCP_OPTION_DOMAIN_NAME_SERVER :: byte where "DHCP_OPTION_DOMAIN_NAME_SERVER = 6"
definition DHCP_OPTION_INTERFACE_MTU :: byte where "DHCP_OPTION_INTERFACE_MTU = 26"
definition DHCP_OPTION_BROADCAST_ADDRESS :: byte where "DHCP_OPTION_BROADCAST_ADDRESS = 28"
definition DHCP_OPTION_REQUESTED_IP_ADDRESS :: byte where
  "DHCP_OPTION_REQUESTED_IP_ADDRESS = 50"
definition DHCP_OPTION_IP_ADDRESS_LEASE_TIME :: byte where
  "DHCP_OPTION_IP_ADDRESS_LEASE_TIME = 51"
definition DHCP_OPTION_DHCP_MESSAGE_TYPE :: byte where "DHCP_OPTION_DHCP_MESSAGE_TYPE = 53"
definition DHCP_OPTION_SERVER_IDENTIFIER :: byte where "DHCP_OPTION_SERVER_IDENTIFIER = 54"
definition DHCP_OPTION_PARAMETER_REQ_LIST :: byte where "DHCP_OPTION_PARAMETER_REQ_LIST = 55"
definition DHCP_OPTION_RENEWAL_TIME_VALUE :: byte where "DHCP_OPTION_RENEWAL_TIME_VALUE = 58"
definition DHCP_OPTION_REBINDING_TIME_VALUE :: byte where
  "DHCP_OPTION_REBINDING_TIME_VALUE = 59"
definition DHCP_OPTION_END :: byte where "DHCP_OPTION_END = 255"

lemmas dhcp_option_codes =
  DHCP_OPTION_PAD_def DHCP_OPTION_SUBNET_MASK_def DHCP_OPTION_ROUTER_def
  DHCP_OPTION_DOMAIN_NAME_SERVER_def DHCP_OPTION_INTERFACE_MTU_def
  DHCP_OPTION_BROADCAST_ADDRESS_def DHCP_OPTION_REQUESTED_IP_ADDRESS_def
  DHCP_OPTION_IP_ADDRESS_LEASE_TIME_def DHCP_OPTION_DHCP_MESSAGE_TYPE_def
  DHCP_OPTION_SERVER_IDENTIFIER_def DHCP_OPTION_PARAMETER_REQ_LIST_def
  DHCP_OPTION_RENEWAL_TIME_VALUE_def DHCP_OPTION_REBINDING_TIME_VALUE_def
  DHCP_OPTION_END_def

section \<open>Writing options\<close>

text \<open>
  The result is the option field and the new option pointer. \<open>options_end\<close> is the offset
  of the last byte of the field.
\<close>

definition dhcp_option_add ::
  "byte list \<Rightarrow> nat option \<Rightarrow> byte \<Rightarrow> nat \<Rightarrow> nat \<Rightarrow> byte list \<Rightarrow> (byte list \<times> nat) res" where
  "dhcp_option_add options opt_ptr code nmemb sz data =
     (let option_len = nmemb * sz;
          options_end = length options - 1;
          opt_tmp = (case opt_ptr of None \<Rightarrow> 0 | Some p \<Rightarrow> p)
      in xassert (option_len \<le> 255)
          (xassert (opt_tmp \<le> options_end)
            (let options1 = options[opt_tmp := code];
                 opt_tmp1 = opt_tmp + 1
             in if option_len > 0
                then xassert (opt_tmp1 + option_len \<le> options_end)
                      (rbind (read_mem data option_len) (\<lambda>d.
                         Inr (put_at (options1[opt_tmp1 := of_nat option_len]) (opt_tmp1 + 1) d,
                              opt_tmp1 + 1 + option_len)))
                else Inr (options1, opt_tmp1))))"

text \<open>A run of additions, each of one element.\<close>

fun dhcp_options_add ::
  "byte list \<Rightarrow> nat option \<Rightarrow> (byte \<times> byte list) list \<Rightarrow> (byte list \<times> nat option) res" where
  "dhcp_options_add options opt_ptr [] = Inr (options, opt_ptr)"
| "dhcp_options_add options opt_ptr ((code, data) # kvs) =
     rbind (dhcp_option_add options opt_ptr code 1 (length data) data) (\<lambda>(options', p).
       dhcp_options_add options' (Some p) kvs)"

section \<open>Reading options\<close>

text \<open>
  \<open>dhcp_option_get_next\<close> returns the option code, the option pointer, and the length and
  the data of the option (\<open>None\<close> for the null pointer). The comparisons with the pointer to
  the last byte, at offset \<open>options_length - 1\<close>, are written as offsets below
  \<open>options_length\<close>.
\<close>

definition get_byte :: "byte list \<Rightarrow> nat \<Rightarrow> byte res" where
  "get_byte bs i = (if i < length bs then Inr (bs ! i) else Inl Bad_access)"

definition dhcp_option_get_next ::
  "byte list \<Rightarrow> nat option \<Rightarrow> nat \<Rightarrow> (byte \<times> nat option \<times> nat \<times> byte list option) res" where
  "dhcp_option_get_next options opt_ptr options_length0 =
     (let options_length =
            (if options_length0 > length options then length options else options_length0);
          opt_tmp = (case opt_ptr of None \<Rightarrow> 0 | Some p \<Rightarrow> p)
      in rbind (get_byte options opt_tmp) (\<lambda>opt.
         let opt_tmp1 = opt_tmp + 1
         in if opt = DHCP_OPTION_END then Inr (DHCP_OPTION_END, opt_ptr, 0, None)
            else if opt = DHCP_OPTION_PAD then
              if opt_tmp1 < options_length then Inr (DHCP_OPTION_PAD, Some opt_tmp1, 0, None)
              else Inr (DHCP_OPTION_END, opt_ptr, 0, None)
            else if \<not> opt_tmp1 < options_length then Inr (DHCP_OPTION_END, opt_ptr, 0, None)
            else rbind (get_byte options opt_tmp1) (\<lambda>lenb.
              let len = unat lenb; opt_tmp2 = opt_tmp1 + 1
              in if opt_tmp2 + len < options_length
                 then Inr (opt, Some (opt_tmp2 + len), len,
                           Some (take len (drop opt_tmp2 options)))
                 else Inr (DHCP_OPTION_END, opt_ptr, 0, None))))"

lemma dhcp_option_get_next_progress:
  assumes "dhcp_option_get_next options (Some p) n = Inr (opt, q, len, data)"
    and "opt \<noteq> DHCP_OPTION_END"
  shows "\<exists>p'. q = Some p' \<and> p < p' \<and> p' < length options \<and> p' < n"
  using assms
  by (auto simp: dhcp_option_get_next_def Let_def rbind_eq_Inr split: if_splits)

lemma dhcp_option_get_next_None:
  "dhcp_option_get_next options None n =
     rbind (dhcp_option_get_next options (Some 0) n) (\<lambda>(opt, q, len, data).
       Inr (opt, if opt = DHCP_OPTION_END then None else q, len, data))"
  by (auto simp: dhcp_option_get_next_def Let_def rbind_def get_byte_def split: sum.splits)

text \<open>
  The handler's loop: read the next option and act on it (\<open>step\<close>) until the end option.
  The offset grows in every turn, so the loop ends.
\<close>

function scan_options ::
  "('a \<Rightarrow> byte \<Rightarrow> nat \<Rightarrow> byte list option \<Rightarrow> 'a) \<Rightarrow> byte list \<Rightarrow> nat \<Rightarrow> nat option \<Rightarrow> 'a
     \<Rightarrow> 'a res" where
  "scan_options step options n opt_ptr acc =
     rbind (dhcp_option_get_next options opt_ptr n) (\<lambda>(opt, opt_ptr', len, data).
       if opt = DHCP_OPTION_END then Inr acc
       else scan_options step options n opt_ptr' (step acc opt len data))"
  by pat_completeness auto
termination
proof (relation "measure (\<lambda>(step, options, n, q, acc).
    case q of None \<Rightarrow> length options + 1 | Some p \<Rightarrow> length options - p)", goal_cases)
  case 1
  then show ?case by simp
next
  case (2 step options n opt_ptr acc x opt y opt_ptr' z len data)
  then have nxt: "dhcp_option_get_next options opt_ptr n = Inr (opt, opt_ptr', len, data)"
      and opt: "opt \<noteq> DHCP_OPTION_END"
    by auto
  show ?case
  proof (cases opt_ptr)
    case None
    with nxt opt have "dhcp_option_get_next options (Some 0) n
        = Inr (opt, opt_ptr', len, data)"
      by (auto simp: dhcp_option_get_next_None rbind_eq_Inr)
    from dhcp_option_get_next_progress [OF this opt] None show ?thesis by auto
  next
    case (Some p)
    with dhcp_option_get_next_progress [of options p n] nxt opt show ?thesis by auto
  qed
qed

declare scan_options.simps [simp del]

section \<open>Reading stays inside the message\<close>

lemma dhcp_option_get_next_defined:
  assumes "p < length options"
  shows "\<exists>r. dhcp_option_get_next options (Some p) n = Inr r"
  using assms
  by (auto simp: dhcp_option_get_next_def get_byte_def Let_def)

lemma scan_options_defined_from:
  "case q of None \<Rightarrow> options \<noteq> [] | Some p \<Rightarrow> p < length options \<Longrightarrow>
     \<exists>a. scan_options step options n q acc = Inr a"
proof (induction step options n q acc rule: scan_options.induct)
  case (1 step options n q acc)
  have "\<exists>r. dhcp_option_get_next options q n = Inr r"
    using "1.prems" dhcp_option_get_next_defined [of _ options n]
    by (cases q) (auto simp: dhcp_option_get_next_None length_greater_0_conv [symmetric]
        simp del: length_greater_0_conv dest!: meta_spec [of _ 0] split: prod.splits)
  then obtain opt q' len data where
    nxt: "dhcp_option_get_next options q n = Inr (opt, q', len, data)"
    by (metis prod_cases4)
  show ?case
  proof (cases "opt = DHCP_OPTION_END")
    case True
    with nxt show ?thesis by (subst scan_options.simps) simp
  next
    case False
    obtain p where "dhcp_option_get_next options (Some p) n = Inr (opt, q', len, data)"
      using nxt False
      by (cases q) (auto simp: dhcp_option_get_next_None rbind_eq_Inr)
    from dhcp_option_get_next_progress [OF this False]
    have "case q' of None \<Rightarrow> options \<noteq> [] | Some p \<Rightarrow> p < length options" by auto
    from "1.IH" [OF nxt refl refl refl False this] nxt False show ?thesis
      by (subst scan_options.simps) simp
  qed
qed

lemma scan_options_total: "options \<noteq> [] \<Longrightarrow> \<exists>a. scan_options step options n None acc = Inr a"
  by (intro scan_options_defined_from) simp

text \<open>
  The option loop ends and never reads outside the option field, for any bytes in it and any
  claimed length.
\<close>

theorem scan_options_defined:
  assumes "options \<noteq> []"
  shows "\<exists>a. scan_options step options n None acc = Inr a"
  using assms by (rule scan_options_total)

theorem scan_options_defined_witness:
  "\<exists>a. scan_options (\<lambda>a opt len data. Suc a) [53, 9, 1] 3 None 0 = Inr a"
  using scan_options_defined [of "[53, 9, 1]" "\<lambda>a opt len data. Suc a" 3 0] by simp

section \<open>Options written are the options read\<close>

definition encode_options :: "(byte \<times> byte list) list \<Rightarrow> byte list" where
  "encode_options kvs = concat (map (\<lambda>(c, d). c # of_nat (length d) # d) kvs)"

definition option_ok :: "byte \<times> byte list \<Rightarrow> bool" where
  "option_ok kv \<longleftrightarrow> fst kv \<noteq> DHCP_OPTION_PAD \<and> fst kv \<noteq> DHCP_OPTION_END
     \<and> 0 < length (snd kv) \<and> length (snd kv) \<le> 255"

lemma encode_options_simps [simp]:
  "encode_options [] = []"
  "encode_options ((c, d) # kvs) = c # of_nat (length d) # d @ encode_options kvs"
  by (simp_all add: encode_options_def)

lemma dhcp_option_add_one:
  assumes "0 < length d" and "length d \<le> 255" and "p + 2 + length d \<le> length options"
  shows "dhcp_option_add options (Some p) c 1 (length d) d
           = Inr (put_at options p (c # of_nat (length d) # d), p + 2 + length d)"
proof -
  let ?o1 = "options[p := c]"
  have "?o1[p + 1 := of_nat (length d)] = put_at options p [c, of_nat (length d)]"
    using assms
    by (simp add: put_at_single put_at_put_at [of p "[c]" "[of_nat (length d)]", simplified])
  then have "put_at (?o1[p + 1 := of_nat (length d)]) (p + 2) d
      = put_at options p (c # of_nat (length d) # d)"
    using assms put_at_put_at [of p "[c, of_nat (length d)]" d options] by simp
  moreover from assms have "p + 1 + length d \<le> length options - 1" "p \<le> length options - 1"
    by arith+
  ultimately show ?thesis
    using assms
    by (simp add: dhcp_option_add_def xassert_def Let_def)
qed

lemma dhcp_options_add_all:
  assumes "\<forall>kv\<in>set kvs. option_ok kv" and "p + length (encode_options kvs) \<le> length options"
  shows "dhcp_options_add options (Some p) kvs
           = Inr (put_at options p (encode_options kvs), Some (p + length (encode_options kvs)))"
  using assms
proof (induction kvs arbitrary: options p)
  case (Cons kv kvs)
  obtain c d where kv: "kv = (c, d)" by (cases kv)
  let ?e = "c # of_nat (length d) # d"
  from Cons.prems have ok: "0 < length d" "length d \<le> 255"
      and room: "p + 2 + length d + length (encode_options kvs) \<le> length options"
    by (auto simp: kv option_ok_def)
  have add: "dhcp_option_add options (Some p) c 1 (length d) d
      = Inr (put_at options p ?e, p + 2 + length d)"
    using room by (intro dhcp_option_add_one ok) simp
  have "dhcp_options_add (put_at options p ?e) (Some (p + 2 + length d)) kvs
      = Inr (put_at (put_at options p ?e) (p + 2 + length d) (encode_options kvs),
             Some (p + 2 + length d + length (encode_options kvs)))"
    using Cons.prems(1) room by (intro Cons.IH) auto
  moreover have "put_at (put_at options p ?e) (p + length ?e) (encode_options kvs)
      = put_at options p (?e @ encode_options kvs)"
    using room by (intro put_at_put_at) simp
  ultimately show ?case
    using add by (simp add: kv)
qed simp

text \<open>
  The reading loop on a field that holds the encoding of some options and the end option
  makes one step per option.
\<close>

lemma of_nat_byte_len: "k \<le> 255 \<Longrightarrow> unat (of_nat k :: byte) = k"
  by (simp add: unat_of_nat take_bit_nat_eq_self)

lemma scan_options_encoded:
  assumes "\<forall>kv\<in>set kvs. option_ok kv"
    and "options = pre @ encode_options kvs @ [DHCP_OPTION_END] @ post"
    and "length pre + length (encode_options kvs) < n"
  shows "scan_options step options n (Some (length pre)) acc
           = Inr (fold (\<lambda>(c, d) a. step a c (length d) (Some d)) kvs acc)"
  using assms
proof (induction kvs arbitrary: pre acc)
  case Nil
  then show ?case
    by (subst scan_options.simps)
      (simp add: dhcp_option_get_next_def get_byte_def nth_append Let_def)
next
  case (Cons kv kvs)
  obtain c d where kv: "kv = (c, d)" by (cases kv)
  let ?pre = "pre @ c # of_nat (length d) # d"
  from Cons.prems have c: "c \<noteq> DHCP_OPTION_PAD" "c \<noteq> DHCP_OPTION_END"
      and d: "length d \<le> 255"
      and opts: "options = pre @ c # of_nat (length d) # d @ encode_options kvs
                   @ [DHCP_OPTION_END] @ post"
      and n: "length pre + 2 + length d + length (encode_options kvs) < n"
    by (auto simp: kv option_ok_def)
  have "dhcp_option_get_next options (Some (length pre)) n
      = Inr (c, Some (length ?pre), length d, Some d)"
    using c n
    by (auto simp: opts dhcp_option_get_next_def get_byte_def nth_append Let_def of_nat_byte_len d)
  moreover have "scan_options step options n (Some (length ?pre)) (step acc c (length d) (Some d))
      = Inr (fold (\<lambda>(c, d) a. step a c (length d) (Some d)) kvs (step acc c (length d) (Some d)))"
    using Cons.prems(1) n by (intro Cons.IH) (auto simp: opts)
  ultimately show ?case
    using c by (subst scan_options.simps) (simp add: kv)
qed

lemma scan_options_None:
  assumes "options \<noteq> []"
  shows "scan_options step options n None acc = scan_options step options n (Some 0) acc"
proof -
  obtain r where r: "dhcp_option_get_next options (Some 0) n = Inr r"
    using dhcp_option_get_next_defined [of 0 options n] assms by auto
  show ?thesis
    by (subst (1 2) scan_options.simps) (cases r; simp add: dhcp_option_get_next_None r)
qed

text \<open>
  What the server writes (a list of options closed by the end option) is what the reading
  loop sees, in order, whatever the field held before.
\<close>

definition collect :: "(byte \<times> byte list) list \<Rightarrow> byte \<Rightarrow> nat \<Rightarrow> byte list option
    \<Rightarrow> (byte \<times> byte list) list" where
  "collect acc opt len data = acc @ [(opt, case data of None \<Rightarrow> [] | Some d \<Rightarrow> take len d)]"

lemma fold_collect: "fold (\<lambda>(c, d) a. collect a c (length d) (Some d)) kvs acc = acc @ kvs"
  by (induction kvs arbitrary: acc) (auto simp: collect_def)

lemma dhcp_options_read_back:
  assumes "\<forall>kv\<in>set kvs. option_ok kv"
    and "length (encode_options kvs) < length options"
  shows "\<exists>options' p options''. dhcp_options_add options (Some 0) kvs = Inr (options', Some p)
      \<and> p = length (encode_options kvs)
      \<and> dhcp_option_add options' (Some p) DHCP_OPTION_END 0 0 [] = Inr (options'', p + 1)
      \<and> length options'' = length options
      \<and> scan_options collect options'' (p + 1) None [] = Inr kvs"
proof -
  let ?e = "encode_options kvs"
  let ?o = "put_at options 0 ?e"
  let ?o2 = "?o[length ?e := DHCP_OPTION_END]"
  have o2: "?o2 = [] @ ?e @ [DHCP_OPTION_END] @ drop (Suc (length ?e)) options"
    using assms(2)
    using Cons_nth_drop_Suc [of "length ?e" options]
    by (simp add: put_at_def list_update_append) (metis list_update_code(2))
  have "dhcp_options_add options (Some 0) kvs = Inr (?o, Some (length ?e))"
    using dhcp_options_add_all [OF assms(1), of 0 options] assms(2) by simp
  moreover have "dhcp_option_add ?o (Some (length ?e)) DHCP_OPTION_END 0 0 []
      = Inr (?o2, length ?e + 1)"
    using assms(2) by (auto simp: dhcp_option_add_def xassert_def Let_def)
  moreover have "scan_options collect ?o2 (length ?e + 1) None [] = Inr kvs"
  proof -
    have ne: "?o2 \<noteq> []" by (subst o2) simp
    show ?thesis
      unfolding scan_options_None [OF ne]
      using scan_options_encoded [OF assms(1) o2, of "length ?e + 1" collect "[]"]
      by (simp add: fold_collect)
  qed
  ultimately show ?thesis using assms(2) by auto
qed

text \<open>
  C7. Any sequence of options with 1 to 255 bytes of data each and codes other than PAD and
  END that fits the field, written one after the other and closed by the end option, is read
  back by the option loop as the same sequence, whatever the field held before.
\<close>

theorem dhcp_options_roundtrip:
  assumes "\<forall>kv\<in>set kvs. option_ok kv"
    and "length (encode_options kvs) < length options"
  shows "\<exists>options' p options''. dhcp_options_add options (Some 0) kvs = Inr (options', Some p)
      \<and> dhcp_option_add options' (Some p) DHCP_OPTION_END 0 0 [] = Inr (options'', p + 1)
      \<and> length options'' = length options
      \<and> scan_options collect options'' (p + 1) None [] = Inr kvs"
  using dhcp_options_read_back [OF assms] by blast

theorem dhcp_options_roundtrip_witness:
  "\<exists>options' p options''.
      dhcp_options_add (replicate 308 7) (Some 0) [(53, [2]), (54, [10, 0, 0, 1])]
        = Inr (options', Some p)
      \<and> dhcp_option_add options' (Some p) DHCP_OPTION_END 0 0 [] = Inr (options'', p + 1)
      \<and> length options'' = length (replicate 308 (7 :: byte))
      \<and> scan_options collect options'' (p + 1) None []
          = Inr [(53, [2]), (54, [10, 0, 0, 1])]"
  by (rule dhcp_options_roundtrip) (simp_all add: option_ok_def dhcp_option_codes)

end
