(* ===== verification/Dhcp_Pool.thy ===== *)
theory Dhcp_Pool
  imports Prelude "HOL-Library.Multiset"
begin

text \<open>
  The address pool of the DHCP server (modules/sw_services/dhcpd/FreeRTOS/dhcpd.c): its
  entries, the FreeRTOS list that orders them by expiry, the lookups, the probing of an
  address, the choice of an address for a client (\<open>dhcpd_client_ip_address_lease\<close>), the
  release of expired leases and the creation of the pool.

  The kernel lists, the clock, ARP and ICMP are not in the repository: they are the fields
  of the record \<open>net_api\<close>, which act on a network state of any type. \<open>freertos_lists_ok\<close>
  states what the documentation of the lists promises.
\<close>

section \<open>State\<close>

definition DHCP_DISCOVER :: nat where "DHCP_DISCOVER = 1"
definition DHCP_OFFER :: nat where "DHCP_OFFER = 2"
definition DHCP_REQUEST :: nat where "DHCP_REQUEST = 3"
definition DHCP_DECLINE :: nat where "DHCP_DECLINE = 4"
definition DHCP_ACK :: nat where "DHCP_ACK = 5"
definition DHCP_NAK :: nat where "DHCP_NAK = 6"
definition DHCP_RELEASE :: nat where "DHCP_RELEASE = 7"
definition DHCP_INFORM :: nat where "DHCP_INFORM = 8"

definition DHCP_IP_STATE_AVAILABLE :: nat where "DHCP_IP_STATE_AVAILABLE = 0"
definition DHCP_IP_STATE_LEASED :: nat where "DHCP_IP_STATE_LEASED = 1"
definition DHCP_IP_STATE_OFFERED :: nat where "DHCP_IP_STATE_OFFERED = 2"
definition DHCP_IP_STATE_STATIC :: nat where "DHCP_IP_STATE_STATIC = 3"
definition DHCP_IP_STATE_UNAVAILABLE :: nat where "DHCP_IP_STATE_UNAVAILABLE = 4"

definition DHCPD_LEASE_TIME :: u32 where "DHCPD_LEASE_TIME = 600"
definition DHCPD_OFFER_EXPIRATION_TIME :: u32 where "DHCPD_OFFER_EXPIRATION_TIME = 10"
definition DHCPD_UNAVAILABLE_IP_PROBE_INTERVAL :: u32 where
  "DHCPD_UNAVAILABLE_IP_PROBE_INTERVAL = 300"
definition DHCPD_IP_PROBE_WAIT_TIME :: nat where "DHCPD_IP_PROBE_WAIT_TIME = 250"

definition INADDR_ANY :: u32 where "INADDR_ANY = 0"
definition INADDR_BROADCAST :: u32 where "INADDR_BROADCAST = 0xFFFFFFFF"

lemmas dhcp_msg_types =
  DHCP_DISCOVER_def DHCP_OFFER_def DHCP_REQUEST_def DHCP_DECLINE_def DHCP_ACK_def
  DHCP_NAK_def DHCP_RELEASE_def DHCP_INFORM_def

lemmas dhcp_ip_states =
  DHCP_IP_STATE_AVAILABLE_def DHCP_IP_STATE_LEASED_def DHCP_IP_STATE_OFFERED_def
  DHCP_IP_STATE_STATIC_def DHCP_IP_STATE_UNAVAILABLE_def

text \<open>\<open>dhcp_ip_info_t\<close>; a MAC address is a 48-bit word.\<close>

record dhcp_ip_info =
  ip_addr :: u32
  ip_state :: nat
  ip_mac :: "48 word"

text \<open>
  The file's static variables. \<open>dhcp_ip_infos\<close> is the array of entries; \<open>dhcp_ip_pool\<close> the
  list: its items, in order, as their value (the expiry time) and the index of the array
  element they belong to. \<open>arp_refreshed\<close> records the calls of vARPRefreshCacheEntry.
\<close>

record dhcpd =
  dhcpd_server_ip :: u32
  dhcpd_netmask :: u32
  dhcpd_gateway :: u32
  dhcpd_dns0 :: u32
  dhcpd_dns1 :: u32
  dhcpd_ip_pool_start :: u32
  dhcpd_ip_pool_end :: u32
  dhcp_ip_infos :: "dhcp_ip_info list"
  dhcp_ip_pool :: "(u32 \<times> nat) list"
  arp_refreshed :: "(48 word \<times> u32) list"

record 'w net_api =
  vListInsert :: "u32 \<times> nat \<Rightarrow> (u32 \<times> nat) list \<Rightarrow> (u32 \<times> nat) list"
  uxListRemove :: "nat \<Rightarrow> (u32 \<times> nat) list \<Rightarrow> (u32 \<times> nat) list"
  rtos_seconds :: "'w \<Rightarrow> u32"
  arp_cache_hit :: "u32 \<Rightarrow> 'w \<Rightarrow> bool \<times> 'w"
  arp_request :: "u32 \<Rightarrow> 'w \<Rightarrow> 'w"
  delay_10ms :: "'w \<Rightarrow> 'w"
  send_ping :: "u32 \<Rightarrow> 'w \<Rightarrow> u16 \<times> 'w"
  ping_replies :: "'w \<Rightarrow> u16 list \<times> 'w"

definition freertos_lists_ok :: "'w net_api \<Rightarrow> bool" where
  "freertos_lists_ok api \<longleftrightarrow>
     (\<forall>x xs. mset (vListInsert api x xs) = add_mset x (mset xs)) \<and>
     (\<forall>i xs. uxListRemove api i xs = filter (\<lambda>x. snd x \<noteq> i) xs)"

section \<open>Entries\<close>

definition client_at :: "dhcpd \<Rightarrow> nat \<Rightarrow> dhcp_ip_info" where
  "client_at st i = dhcp_ip_infos st ! i"

definition set_client :: "nat \<Rightarrow> (dhcp_ip_info \<Rightarrow> dhcp_ip_info) \<Rightarrow> dhcpd \<Rightarrow> dhcpd" where
  "set_client i f st =
     st\<lparr>dhcp_ip_infos := (dhcp_ip_infos st)[i := f (dhcp_ip_infos st ! i)]\<rparr>"

definition dhcp_client_update ::
  "'w net_api \<Rightarrow> 'w \<Rightarrow> nat \<Rightarrow> nat \<Rightarrow> u32 \<Rightarrow> dhcpd \<Rightarrow> dhcpd" where
  "dhcp_client_update api w i state expiration st =
     (let now = rtos_seconds api w;
          removed = uxListRemove api i (dhcp_ip_pool st);
          st1 = set_client i (\<lambda>c. c\<lparr>ip_state := state\<rparr>) st
      in st1\<lparr>dhcp_ip_pool := vListInsert api (now + expiration, i) removed\<rparr>)"

definition set_mac :: "nat \<Rightarrow> 48 word \<Rightarrow> dhcpd \<Rightarrow> dhcpd" where
  "set_mac i m = set_client i (\<lambda>c. c\<lparr>ip_mac := m\<rparr>)"

text \<open>
  The lookups walk the list from its head; every item's owner is an element of the array.
\<close>

definition pool_find :: "(dhcp_ip_info \<Rightarrow> bool) \<Rightarrow> dhcpd \<Rightarrow> nat option" where
  "pool_find P st =
     map_option snd
       (find (\<lambda>x. snd x < length (dhcp_ip_infos st) \<and> P (client_at st (snd x)))
         (dhcp_ip_pool st))"

definition dhcp_client_lookup_by_mac :: "48 word \<Rightarrow> dhcpd \<Rightarrow> nat option" where
  "dhcp_client_lookup_by_mac mac = pool_find (\<lambda>c. ip_mac c = mac)"

definition dhcp_client_lookup_by_ip :: "u32 \<Rightarrow> dhcpd \<Rightarrow> nat option" where
  "dhcp_client_lookup_by_ip ip = pool_find (\<lambda>c. ip_addr c = ip)"

definition dhcp_client_get_oldest_disconnected :: "dhcpd \<Rightarrow> nat option" where
  "dhcp_client_get_oldest_disconnected = pool_find (\<lambda>c. ip_state c = DHCP_IP_STATE_AVAILABLE)"

section \<open>Probing an address\<close>

text \<open>
  \<open>dhcpd_ip_address_in_use\<close>: an address without an ARP entry is probed with ARP requests,
  twice, looking for an entry every 10 ms; one with an entry is pinged, twice.
  \<open>ping_replies\<close> are the numbers of the replies that come before a wait for the next one
  times out; the waiting loop skips those of earlier pings.
\<close>

fun arp_wait :: "'w net_api \<Rightarrow> u32 \<Rightarrow> nat \<Rightarrow> 'w \<Rightarrow> bool \<times> 'w" where
  "arp_wait api ip 0 w = (False, w)"
| "arp_wait api ip (Suc j) w =
     (let (hit, w1) = arp_cache_hit api ip (delay_10ms api w)
      in if hit then (True, w1) else arp_wait api ip j w1)"

fun arp_probe :: "'w net_api \<Rightarrow> u32 \<Rightarrow> nat \<Rightarrow> 'w \<Rightarrow> bool \<times> 'w" where
  "arp_probe api ip 0 w = (False, w)"
| "arp_probe api ip (Suc tries) w =
     (let (in_use, w1) =
            arp_wait api ip (DHCPD_IP_PROBE_WAIT_TIME div 10) (arp_request api ip w)
      in if in_use then (True, w1) else arp_probe api ip tries w1)"

fun skip_old_replies :: "u16 \<Rightarrow> u16 list \<Rightarrow> bool" where
  "skip_old_replies ping_number_out [] = False"
| "skip_old_replies ping_number_out (ping_number_in # rs) =
     (if ping_number_out \<noteq> ping_number_in then skip_old_replies ping_number_out rs else True)"

fun ping_probe :: "'w net_api \<Rightarrow> u32 \<Rightarrow> nat \<Rightarrow> bool \<Rightarrow> 'w \<Rightarrow> bool \<times> 'w" where
  "ping_probe api ip 0 ret w = (False, w)"
| "ping_probe api ip (Suc tries) ret w =
     (let (ping_number_out, w1) = send_ping api ip w;
          (ret', w2) =
            (if ping_number_out \<noteq> 0
             then let (rs, w2) = ping_replies api w1 in (skip_old_replies ping_number_out rs, w2)
             else (ret, w1))
      in if ret' then (True, w2) else ping_probe api ip tries ret' w2)"

definition dhcpd_ip_address_in_use :: "'w net_api \<Rightarrow> u32 \<Rightarrow> 'w \<Rightarrow> bool \<times> 'w" where
  "dhcpd_ip_address_in_use api ip w =
     (let (hit, w1) = arp_cache_hit api ip w
      in if \<not> hit then arp_probe api ip 2 w1 else ping_probe api ip 2 False w1)"

section \<open>Leasing an address\<close>

text \<open>
  The loop that offers the next available address: an address found in use is marked
  unavailable and the next one is tried. It ends because the number of available entries
  goes down.
\<close>

definition available_count :: "dhcpd \<Rightarrow> nat" where
  "available_count st =
     length (filter (\<lambda>c. ip_state c = DHCP_IP_STATE_AVAILABLE) (dhcp_ip_infos st))"

lemma pool_find_SomeD:
  assumes "pool_find P st = Some i"
  shows "i < length (dhcp_ip_infos st) \<and> P (client_at st i) \<and>
    i \<in> set (map snd (dhcp_ip_pool st))"
proof -
  let ?Q = "\<lambda>x :: u32 \<times> nat. snd x < length (dhcp_ip_infos st) \<and> P (client_at st (snd x))"
  from assms obtain x where x: "find ?Q (dhcp_ip_pool st) = Some x" "snd x = i"
    by (auto simp: pool_find_def)
  from x(1) have "?Q x" "x \<in> set (dhcp_ip_pool st)"
    by (auto simp only: find_Some_iff in_set_conv_nth)
  with x(2) show ?thesis
    by auto
qed

lemmas pool_find_Some = pool_find_SomeD [THEN conjunct1]
  pool_find_SomeD [THEN conjunct2, THEN conjunct1]
  pool_find_SomeD [THEN conjunct2, THEN conjunct2]

lemma pool_find_None:
  "pool_find P st = None \<longleftrightarrow>
     (\<forall>i \<in> set (map snd (dhcp_ip_pool st)). i < length (dhcp_ip_infos st) \<longrightarrow>
        \<not> P (client_at st i))"
  by (auto simp: pool_find_def find_None_iff)

definition make_unavailable :: "'w net_api \<Rightarrow> 'w \<Rightarrow> nat \<Rightarrow> dhcpd \<Rightarrow> dhcpd" where
  "make_unavailable api w i st =
     dhcp_client_update api w i DHCP_IP_STATE_UNAVAILABLE DHCPD_UNAVAILABLE_IP_PROBE_INTERVAL
       (set_mac i 0 st)"

lemma infos_update [simp]:
  "dhcp_ip_infos (dhcp_client_update api w i s e st)
     = (dhcp_ip_infos st)[i := (dhcp_ip_infos st ! i)\<lparr>ip_state := s\<rparr>]"
  "dhcp_ip_infos (set_mac i m st) = (dhcp_ip_infos st)[i := (dhcp_ip_infos st ! i)\<lparr>ip_mac := m\<rparr>]"
  by (simp_all add: dhcp_client_update_def set_client_def set_mac_def Let_def)

lemma infos_make_unavailable:
  assumes "i < length (dhcp_ip_infos st)"
  shows "dhcp_ip_infos (make_unavailable api w i st) = (dhcp_ip_infos st)
     [i := (dhcp_ip_infos st ! i)\<lparr>ip_mac := 0, ip_state := DHCP_IP_STATE_UNAVAILABLE\<rparr>]"
  using assms by (simp add: make_unavailable_def)

lemma length_filter_update:
  assumes "i < length xs" and "P (xs ! i)" and "\<not> P y"
  shows "length (filter P (xs[i := y])) < length (filter P xs)"
proof -
  have "xs = take i xs @ xs ! i # drop (Suc i) xs"
    using assms(1) by (simp add: id_take_nth_drop)
  then have "filter P xs = filter P (take i xs) @ filter P (xs ! i # drop (Suc i) xs)"
    by (metis filter_append)
  then have "length (filter P xs)
      = length (filter P (take i xs)) + 1 + length (filter P (drop (Suc i) xs))"
    using assms(2) by simp
  moreover have "xs[i := y] = take i xs @ y # drop (Suc i) xs"
    using assms(1) by (simp add: upd_conv_take_nth_drop)
  ultimately show ?thesis
    using assms(3) by simp
qed

lemma available_count_decreases:
  assumes "dhcp_client_get_oldest_disconnected st = Some i"
  shows "available_count (make_unavailable api w i st) < available_count st"
  using pool_find_Some(1,2) [OF assms [unfolded dhcp_client_get_oldest_disconnected_def]]
  by (auto simp: available_count_def client_at_def infos_make_unavailable dhcp_ip_states
      intro!: length_filter_update)

function offer_next_available ::
  "'w net_api \<Rightarrow> 48 word \<Rightarrow> dhcpd \<Rightarrow> 'w \<Rightarrow> u32 \<times> dhcpd \<times> 'w" where
  "offer_next_available api mac st w =
     (case dhcp_client_get_oldest_disconnected st of
        Some i \<Rightarrow>
          (let (in_use, w1) = dhcpd_ip_address_in_use api (ip_addr (client_at st i)) w
           in if in_use then offer_next_available api mac (make_unavailable api w1 i st) w1
              else (ip_addr (client_at st i),
                    dhcp_client_update api w1 i DHCP_IP_STATE_OFFERED
                      DHCPD_OFFER_EXPIRATION_TIME (set_mac i mac st), w1))
      | None \<Rightarrow> (INADDR_ANY, st, w))"
  by pat_completeness auto
termination
  by (relation "measure (\<lambda>(api, mac, st, w). available_count st)")
    (auto intro: available_count_decreases)

declare offer_next_available.simps [simp del]

text \<open>
  The second half of \<open>dhcpd_client_ip_address_lease\<close>: no address has yet been assigned to
  the client's MAC address.
\<close>

definition lease_unassigned ::
  "'w net_api \<Rightarrow> 48 word \<Rightarrow> u32 \<Rightarrow> nat \<Rightarrow> dhcpd \<Rightarrow> 'w \<Rightarrow> u32 \<times> dhcpd \<times> 'w" where
  "lease_unassigned api mac requested_ip request_type st w =
     (let rest = (\<lambda>st w.
            if request_type = DHCP_DISCOVER then offer_next_available api mac st w
            else (INADDR_ANY, st, w))
      in if request_type = DHCP_DISCOVER \<or> request_type = DHCP_INFORM then
           (case (if requested_ip \<noteq> INADDR_ANY then dhcp_client_lookup_by_ip requested_ip st
                  else None) of
              None \<Rightarrow> rest st w
            | Some i \<Rightarrow>
                if ip_state (client_at st i) = DHCP_IP_STATE_AVAILABLE then
                  if request_type = DHCP_DISCOVER then
                    (let (in_use, w1) =
                           dhcpd_ip_address_in_use api (ip_addr (client_at st i)) w
                     in if in_use then rest (make_unavailable api w1 i st) w1
                        else (ip_addr (client_at st i),
                              dhcp_client_update api w1 i DHCP_IP_STATE_OFFERED
                                DHCPD_OFFER_EXPIRATION_TIME (set_mac i mac st), w1))
                  else (ip_addr (client_at st i),
                        dhcp_client_update api w i
                          (if request_type = DHCP_IP_STATE_STATIC then 1 else 0) 0
                          (set_mac i mac st), w)
                else rest st w)
         else (INADDR_ANY, st, w))"

definition dhcpd_client_ip_address_lease ::
  "'w net_api \<Rightarrow> 48 word \<Rightarrow> u32 \<Rightarrow> nat \<Rightarrow> dhcpd \<Rightarrow> 'w \<Rightarrow> u32 \<times> dhcpd \<times> 'w" where
  "dhcpd_client_ip_address_lease api mac requested_ip request_type st w =
     (case dhcp_client_lookup_by_mac mac st of
        None \<Rightarrow> lease_unassigned api mac requested_ip request_type st w
      | Some i \<Rightarrow>
          let client = client_at st i in
          if request_type = DHCP_REQUEST \<and> ip_addr client \<noteq> requested_ip then
            (INADDR_BROADCAST, st, w)
          else if request_type \<noteq> DHCP_INFORM then
            let expiration = (if request_type = DHCP_DISCOVER then DHCPD_OFFER_EXPIRATION_TIME
                              else DHCPD_LEASE_TIME);
                state = (if request_type = DHCP_DISCOVER then DHCP_IP_STATE_OFFERED
                         else DHCP_IP_STATE_LEASED);
                (in_use, w1) =
                  (if request_type = DHCP_DISCOVER \<and> ip_state client \<noteq> DHCP_IP_STATE_LEASED
                   then dhcpd_ip_address_in_use api (ip_addr client) w
                   else (False, w))
            in if in_use then
                 lease_unassigned api mac
                   (if requested_ip = ip_addr client then INADDR_ANY else requested_ip)
                   request_type (make_unavailable api w1 i st) w1
               else
                 let st1 = dhcp_client_update api w1 i state expiration st;
                     st2 = (if state = DHCP_IP_STATE_LEASED
                            then st1\<lparr>arp_refreshed := (ip_mac client, ip_addr client)
                                       # arp_refreshed st1\<rparr>
                            else st1)
                 in (ip_addr client, st2, w1)
          else if ip_addr client = requested_ip then
            (ip_addr client, dhcp_client_update api w i DHCP_IP_STATE_STATIC 0 st, w)
          else
            lease_unassigned api mac requested_ip request_type
              (dhcp_client_update api w i DHCP_IP_STATE_AVAILABLE 0 (set_mac i 0 st)) w)"

section \<open>The pool invariant\<close>

text \<open>
  The elements of the array that are in the list are the members of the pool. Their
  addresses are different and none is the zero or the broadcast address; no two of them
  belong to the same MAC address, zero standing for none.
\<close>

definition members :: "dhcpd \<Rightarrow> nat set" where
  "members st = set (map snd (dhcp_ip_pool st))"

definition mac_unique :: "dhcpd \<Rightarrow> bool" where
  "mac_unique st \<longleftrightarrow>
     (\<forall>i\<in>members st. \<forall>j\<in>members st.
        ip_mac (client_at st i) = ip_mac (client_at st j) \<and> ip_mac (client_at st i) \<noteq> 0
          \<longrightarrow> i = j)"

definition pool_ok :: "dhcpd \<Rightarrow> bool" where
  "pool_ok st \<longleftrightarrow>
     distinct (map snd (dhcp_ip_pool st)) \<and>
     (\<forall>i\<in>members st. i < length (dhcp_ip_infos st)) \<and>
     (\<forall>i\<in>members st. ip_addr (client_at st i) \<noteq> INADDR_ANY \<and>
        ip_addr (client_at st i) \<noteq> INADDR_BROADCAST) \<and>
     inj_on (\<lambda>i. ip_addr (client_at st i)) (members st) \<and>
     mac_unique st"

definition mac_free :: "48 word \<Rightarrow> dhcpd \<Rightarrow> bool" where
  "mac_free mac st \<longleftrightarrow> (mac \<noteq> 0 \<longrightarrow> (\<forall>i\<in>members st. ip_mac (client_at st i) \<noteq> mac))"

text \<open>
  Every change the server makes to the pool replaces one member, its address kept, and moves
  its list item.
\<close>

definition changed :: "nat \<Rightarrow> dhcp_ip_info \<Rightarrow> dhcpd \<Rightarrow> dhcpd \<Rightarrow> bool" where
  "changed i e st st' \<longleftrightarrow>
     i \<in> members st \<and> i < length (dhcp_ip_infos st) \<and>
     dhcp_ip_infos st' = (dhcp_ip_infos st)[i := e] \<and> ip_addr e = ip_addr (client_at st i) \<and>
     members st' = members st \<and>
     (distinct (map snd (dhcp_ip_pool st)) \<longrightarrow> distinct (map snd (dhcp_ip_pool st')))"

lemma client_at_changed:
  "changed i e st st' \<Longrightarrow> client_at st' k = (if k = i then e else client_at st k)"
  by (simp add: changed_def client_at_def)

lemma members_changed: "changed i e st st' \<Longrightarrow> members st' = members st"
  by (simp add: changed_def)

lemma items_updated:
  assumes "freertos_lists_ok api" and "i \<in> set (map snd xs)"
  shows "set (map snd (vListInsert api (v, i) (uxListRemove api i xs))) = set (map snd xs)"
    and "distinct (map snd xs) \<Longrightarrow>
      distinct (map snd (vListInsert api (v, i) (uxListRemove api i xs)))"
proof -
  have m: "mset (map snd (vListInsert api (v, i) (uxListRemove api i xs)))
      = mset (i # map snd (filter (\<lambda>x. snd x \<noteq> i) xs))"
    using assms(1) by (simp add: freertos_lists_ok_def)
  from mset_eq_setD [OF m] assms(2)
  show "set (map snd (vListInsert api (v, i) (uxListRemove api i xs))) = set (map snd xs)"
    by auto
  assume "distinct (map snd xs)"
  then have "distinct (i # map snd (filter (\<lambda>x. snd x \<noteq> i) xs))"
    by (auto simp: distinct_map_filter)
  then show "distinct (map snd (vListInsert api (v, i) (uxListRemove api i xs)))"
    using mset_eq_imp_distinct_iff [OF m] by simp
qed

lemma changed_update:
  assumes "freertos_lists_ok api" and "i \<in> members st" and "i < length (dhcp_ip_infos st)"
  shows "changed i ((client_at st i)\<lparr>ip_state := s\<rparr>) st (dhcp_client_update api w i s e st)"
  using items_updated [OF assms(1), of i "dhcp_ip_pool st"] assms
  by (simp add: changed_def members_def dhcp_client_update_def set_client_def client_at_def
      Let_def)

lemma changed_update_mac:
  assumes "freertos_lists_ok api" and "i \<in> members st" and "i < length (dhcp_ip_infos st)"
  shows "changed i ((client_at st i)\<lparr>ip_mac := m, ip_state := s\<rparr>) st
     (dhcp_client_update api w i s e (set_mac i m st))"
  using items_updated [OF assms(1), of i "dhcp_ip_pool st"] assms
  by (simp add: changed_def members_def dhcp_client_update_def set_client_def client_at_def
      set_mac_def Let_def)

lemma pool_ok_changed:
  assumes "pool_ok st" and "changed i e st st'"
    and "ip_mac e = ip_mac (client_at st i) \<or> ip_mac e = 0 \<or> mac_free (ip_mac e) st"
  shows "pool_ok st'"
proof -
  note c = assms(2) [unfolded changed_def]
  have ips: "ip_addr (client_at st' k) = ip_addr (client_at st k)" for k
    using c client_at_changed [OF assms(2)] by auto
  have uniq: "k = j \<or> ip_mac (client_at st k) = 0" if "k \<in> members st" "j \<in> members st"
      "ip_mac (client_at st k) = ip_mac (client_at st j)" for k j
    using assms(1) that unfolding pool_ok_def mac_unique_def by blast
  have other: "ip_mac e = 0" if "k \<in> members st" "k \<noteq> i" "ip_mac (client_at st k) = ip_mac e" for k
    using assms(3) c that uniq [of k i] by (auto simp: mac_free_def)
  have macs: "mac_unique st'"
    unfolding mac_unique_def members_changed [OF assms(2)]
  proof (intro ballI impI)
    fix k j
    assume k: "k \<in> members st" and j: "j \<in> members st"
      and m: "ip_mac (client_at st' k) = ip_mac (client_at st' j) \<and> ip_mac (client_at st' k) \<noteq> 0"
    show "k = j"
      using m other [OF k] other [OF j] uniq [OF k j]
      by (auto simp: client_at_changed [OF assms(2)] split: if_splits)
  qed
  show ?thesis
    using assms(1) c macs by (auto simp: pool_ok_def ips inj_on_def)
qed

lemma lookup_member:
  assumes "pool_find P st = Some i"
  shows "i \<in> members st" and "i < length (dhcp_ip_infos st)" and "P (client_at st i)"
  using pool_find_Some [OF assms] by (auto simp: members_def)

lemma lookup_by_mac_None:
  "pool_ok st \<Longrightarrow> dhcp_client_lookup_by_mac mac st = None \<Longrightarrow> mac_free mac st"
  by (auto simp: dhcp_client_lookup_by_mac_def pool_find_None mac_free_def pool_ok_def
      members_def)

text \<open>
  What a lease may do to the pool on behalf of a client: members and addresses stay, and an
  entry of another client is left alone unless it was available.
\<close>

definition lease_frame :: "48 word \<Rightarrow> dhcpd \<Rightarrow> dhcpd \<Rightarrow> bool" where
  "lease_frame mac st st' \<longleftrightarrow>
     members st' = members st \<and>
     (\<forall>k. ip_addr (client_at st' k) = ip_addr (client_at st k)) \<and>
     (\<forall>k. ip_mac (client_at st k) \<noteq> mac \<and> ip_state (client_at st k) \<noteq> DHCP_IP_STATE_AVAILABLE
        \<longrightarrow> client_at st' k = client_at st k)"

lemma lease_frame_refl: "lease_frame mac st st"
  by (simp add: lease_frame_def)

lemma lease_frame_trans:
  "lease_frame mac st st' \<Longrightarrow> lease_frame mac st' st'' \<Longrightarrow> lease_frame mac st st''"
  by (auto simp: lease_frame_def)

lemma lease_frame_changed:
  assumes "changed i e st st'"
    and "ip_mac (client_at st i) = mac \<or> ip_state (client_at st i) = DHCP_IP_STATE_AVAILABLE"
  shows "lease_frame mac st st'"
  using assms(2) assms(1) [unfolded changed_def] client_at_changed [OF assms(1)]
  by (auto simp: lease_frame_def)

text \<open>The address returned is that of a member that now belongs to the client.\<close>

definition assigned :: "48 word \<Rightarrow> nat \<Rightarrow> u32 \<Rightarrow> dhcpd \<Rightarrow> bool" where
  "assigned mac s ip st \<longleftrightarrow>
     (\<exists>i\<in>members st. client_at st i = \<lparr>ip_addr = ip, ip_state = s, ip_mac = mac\<rparr>)"

text \<open>What one step of the lease establishes, for the state it starts from.\<close>

definition lease_post ::
  "48 word \<Rightarrow> nat \<Rightarrow> dhcpd \<Rightarrow> u32 \<times> dhcpd \<times> 'w \<Rightarrow> bool" where
  "lease_post mac request_type st r \<longleftrightarrow>
     (case r of (ip, st', w') \<Rightarrow>
        pool_ok st' \<and> lease_frame mac st st' \<and>
        (ip = INADDR_ANY \<and>
           (request_type = DHCP_DISCOVER \<longrightarrow>
              (\<forall>i\<in>members st'. ip_state (client_at st' i) \<noteq> DHCP_IP_STATE_AVAILABLE))
         \<or> request_type = DHCP_DISCOVER \<and> assigned mac DHCP_IP_STATE_OFFERED ip st'
         \<or> request_type = DHCP_INFORM \<and>
             (assigned mac DHCP_IP_STATE_STATIC ip st'
              \<or> assigned mac DHCP_IP_STATE_AVAILABLE ip st')))"

lemma assigned_changed:
  "changed i e st st' \<Longrightarrow> assigned (ip_mac e) (ip_state e) (ip_addr (client_at st i)) st'"
  unfolding assigned_def
  by (rule bexI [of _ i]) (simp_all add: client_at_changed, simp_all add: changed_def)

lemma lease_post_frame:
  "lease_frame mac st st1 \<Longrightarrow> lease_post mac rt st1 r \<Longrightarrow> lease_post mac rt st r"
  by (auto simp: lease_post_def dest: lease_frame_trans)

lemma make_unavailable_ok:
  assumes "freertos_lists_ok api" and "pool_ok st" and "i \<in> members st"
    and "ip_mac (client_at st i) = mac \<or> ip_state (client_at st i) = DHCP_IP_STATE_AVAILABLE"
  shows "pool_ok (make_unavailable api w i st)"
    and "lease_frame mac st (make_unavailable api w i st)"
    and "mac_free m st \<Longrightarrow> mac_free m (make_unavailable api w i st)"
proof -
  have len: "i < length (dhcp_ip_infos st)"
    using assms(2,3) by (simp add: pool_ok_def)
  note c = changed_update_mac [OF assms(1,3) len,
      where m = 0 and s = DHCP_IP_STATE_UNAVAILABLE and w = w
        and e = DHCPD_UNAVAILABLE_IP_PROBE_INTERVAL, folded make_unavailable_def]
  show "pool_ok (make_unavailable api w i st)"
    by (rule pool_ok_changed [OF assms(2) c]) simp
  show "lease_frame mac st (make_unavailable api w i st)"
    by (rule lease_frame_changed [OF c assms(4)])
  show "mac_free m st \<Longrightarrow> mac_free m (make_unavailable api w i st)"
    by (auto simp: mac_free_def client_at_changed [OF c] members_changed [OF c])
qed

text \<open>Giving a member that was available, or already the client's, to the client.\<close>

lemma give_ok:
  assumes "freertos_lists_ok api" and "pool_ok st" and "i \<in> members st"
    and "mac_free mac st" and "ip_state (client_at st i) = DHCP_IP_STATE_AVAILABLE"
  shows "pool_ok (dhcp_client_update api w i s e (set_mac i mac st))"
    and "lease_frame mac st (dhcp_client_update api w i s e (set_mac i mac st))"
    and "assigned mac s (ip_addr (client_at st i))
      (dhcp_client_update api w i s e (set_mac i mac st))"
proof -
  have len: "i < length (dhcp_ip_infos st)"
    using assms(2,3) by (simp add: pool_ok_def)
  note c = changed_update_mac [OF assms(1,3) len, where m = mac and s = s and w = w and e = e]
  show "pool_ok (dhcp_client_update api w i s e (set_mac i mac st))"
    by (rule pool_ok_changed [OF assms(2) c]) (simp add: assms(4))
  show "lease_frame mac st (dhcp_client_update api w i s e (set_mac i mac st))"
    by (rule lease_frame_changed [OF c]) (simp add: assms(5))
  show "assigned mac s (ip_addr (client_at st i))
      (dhcp_client_update api w i s e (set_mac i mac st))"
    using assigned_changed [OF c] by simp
qed

lemma keep_ok:
  assumes "freertos_lists_ok api" and "pool_ok st" and "i \<in> members st"
    and "ip_mac (client_at st i) = mac"
  shows "pool_ok (dhcp_client_update api w i s e st)"
    and "lease_frame mac st (dhcp_client_update api w i s e st)"
    and "assigned mac s (ip_addr (client_at st i)) (dhcp_client_update api w i s e st)"
proof -
  have len: "i < length (dhcp_ip_infos st)"
    using assms(2,3) by (simp add: pool_ok_def)
  note c = changed_update [OF assms(1,3) len, where s = s and w = w and e = e]
  show "pool_ok (dhcp_client_update api w i s e st)"
    by (rule pool_ok_changed [OF assms(2) c]) simp
  show "lease_frame mac st (dhcp_client_update api w i s e st)"
    by (rule lease_frame_changed [OF c]) (simp add: assms(4))
  show "assigned mac s (ip_addr (client_at st i)) (dhcp_client_update api w i s e st)"
    using assigned_changed [OF c] assms(4) by simp
qed

text \<open>Taking a member away from the client that had it.\<close>

lemma drop_ok:
  assumes "freertos_lists_ok api" and "pool_ok st" and "i \<in> members st"
    and "ip_mac (client_at st i) = mac"
  shows "pool_ok (dhcp_client_update api w i s e (set_mac i 0 st))"
    and "lease_frame mac st (dhcp_client_update api w i s e (set_mac i 0 st))"
    and "mac_free mac (dhcp_client_update api w i s e (set_mac i 0 st))"
proof -
  have len: "i < length (dhcp_ip_infos st)"
    using assms(2,3) by (simp add: pool_ok_def)
  note c = changed_update_mac [OF assms(1,3) len, where m = 0 and s = s and w = w and e = e]
  show "pool_ok (dhcp_client_update api w i s e (set_mac i 0 st))"
    by (rule pool_ok_changed [OF assms(2) c]) simp
  show "lease_frame mac st (dhcp_client_update api w i s e (set_mac i 0 st))"
    by (rule lease_frame_changed [OF c]) (simp add: assms(4))
  show "mac_free mac (dhcp_client_update api w i s e (set_mac i 0 st))"
    unfolding mac_free_def members_changed [OF c] client_at_changed [OF c]
  proof (intro impI ballI)
    fix j
    assume "mac \<noteq> 0" and "j \<in> members st"
    with assms(2-4) show "ip_mac (if j = i then (client_at st i)\<lparr>ip_mac := 0, ip_state := s\<rparr>
        else client_at st j) \<noteq> mac"
      by (auto simp: pool_ok_def mac_unique_def)
  qed
qed

lemma offer_next_available_ok:
  assumes "freertos_lists_ok api" and "pool_ok st" and "mac_free mac st"
  shows "lease_post mac DHCP_DISCOVER st (offer_next_available api mac st w)"
  using assms
proof (induction api mac st w rule: offer_next_available.induct)
  case (1 api mac st w)
  show ?case
  proof (cases "dhcp_client_get_oldest_disconnected st")
    case None
    moreover from None "1.prems"(2)
    have "\<forall>i\<in>members st. ip_state (client_at st i) \<noteq> DHCP_IP_STATE_AVAILABLE"
      by (auto simp: dhcp_client_get_oldest_disconnected_def pool_find_None pool_ok_def
          members_def)
    ultimately show ?thesis
      using "1.prems" by (simp add: offer_next_available.simps lease_post_def lease_frame_refl)
  next
    case (Some i)
    note found = lookup_member [OF Some [unfolded dhcp_client_get_oldest_disconnected_def]]
    obtain in_use w1 where p: "dhcpd_ip_address_in_use api (ip_addr (client_at st i)) w
        = (in_use, w1)"
      by fastforce
    show ?thesis
    proof (cases in_use)
      case True
      have st1: "pool_ok (make_unavailable api w1 i st)"
          "lease_frame mac st (make_unavailable api w1 i st)"
          "mac_free mac (make_unavailable api w1 i st)"
        using make_unavailable_ok [OF "1.prems"(1,2) found(1)] found(3) "1.prems"(3) by auto
      have "lease_post mac DHCP_DISCOVER (make_unavailable api w1 i st)
          (offer_next_available api mac (make_unavailable api w1 i st) w1)"
        using "1.IH" [OF Some p [symmetric] refl] True "1.prems"(1) st1(1,3) by simp
      with st1(2) show ?thesis
        using Some p True
        by (subst offer_next_available.simps) (auto intro: lease_post_frame)
    next
      case False
      with Some p show ?thesis
        using give_ok [OF "1.prems"(1,2) found(1) "1.prems"(3) found(3)]
        by (subst offer_next_available.simps) (simp add: lease_post_def)
    qed
  qed
qed

lemma lease_unassigned_ok:
  assumes "freertos_lists_ok api" and "pool_ok st" and "mac_free mac st"
  shows "lease_post mac rt st (lease_unassigned api mac ip rt st w)"
proof -
  have silent: "rt \<noteq> DHCP_DISCOVER \<Longrightarrow> lease_post mac rt st (INADDR_ANY, st, w)" for w :: 'a
    using assms(2) by (simp add: lease_post_def lease_frame_refl)
  show ?thesis
  proof (cases "if ip \<noteq> INADDR_ANY then dhcp_client_lookup_by_ip ip st else None")
    case None
    then show ?thesis
      using silent offer_next_available_ok [OF assms] by (auto simp: lease_unassigned_def)
  next
    case (Some i)
    then have ip: "ip \<noteq> INADDR_ANY" and look: "dhcp_client_lookup_by_ip ip st = Some i"
      by (auto split: if_splits)
    note found = lookup_member [OF look [unfolded dhcp_client_lookup_by_ip_def]]
    obtain in_use w1 where p: "dhcpd_ip_address_in_use api (ip_addr (client_at st i)) w
        = (in_use, w1)"
      by fastforce
    show ?thesis
    proof (cases "ip_state (client_at st i) = DHCP_IP_STATE_AVAILABLE")
      case True
      note give = give_ok [OF assms(1,2) found(1) assms(3) True]
      note unav = make_unavailable_ok [OF assms(1,2) found(1) disjI2 [OF True]]
      have "lease_post mac DHCP_DISCOVER st
          (offer_next_available api mac (make_unavailable api w1 i st) w1)"
        using offer_next_available_ok [OF assms(1) unav(1) unav(3) [OF assms(3)]] unav(2)
        by (rule lease_post_frame [rotated])
      then show ?thesis
        using ip look p True give assms(2)
        by (auto simp: lease_unassigned_def lease_post_def dhcp_ip_states dhcp_msg_types
            lease_frame_refl)
    next
      case False
      then show ?thesis
        using ip look silent offer_next_available_ok [OF assms]
        by (auto simp: lease_unassigned_def)
    qed
  qed
qed

text \<open>
  The whole function. A client that is known may also be told that it asked for the wrong
  address (the broadcast address, the pool untouched) or get its lease.
\<close>

definition lease_result ::
  "48 word \<Rightarrow> nat \<Rightarrow> dhcpd \<Rightarrow> u32 \<times> dhcpd \<times> 'w \<Rightarrow> bool" where
  "lease_result mac request_type st r \<longleftrightarrow>
     lease_post mac request_type st r \<or>
     (case r of (ip, st', w') \<Rightarrow>
        pool_ok st' \<and> lease_frame mac st st' \<and>
        (request_type = DHCP_REQUEST \<and> ip = INADDR_BROADCAST \<and> st' = st \<or>
         request_type \<noteq> DHCP_DISCOVER \<and> request_type \<noteq> DHCP_INFORM \<and>
           assigned mac DHCP_IP_STATE_LEASED ip st'))"

lemma arp_refreshed_only [simp]:
  "members (st\<lparr>arp_refreshed := xs\<rparr>) = members st"
  "client_at (st\<lparr>arp_refreshed := xs\<rparr>) = client_at st"
  "pool_ok (st\<lparr>arp_refreshed := xs\<rparr>) = pool_ok st"
  "assigned mac s ip (st\<lparr>arp_refreshed := xs\<rparr>) = assigned mac s ip st"
  "lease_frame mac st0 (st\<lparr>arp_refreshed := xs\<rparr>) = lease_frame mac st0 st"
  by (simp_all add: members_def client_at_def [abs_def] pool_ok_def mac_unique_def assigned_def
      lease_frame_def)

lemma dhcpd_lease_ok:
  assumes "freertos_lists_ok api" and "pool_ok st"
  shows "lease_result mac rt st (dhcpd_client_ip_address_lease api mac ip rt st w)"
proof (cases "dhcp_client_lookup_by_mac mac st")
  case None
  then show ?thesis
    using lease_unassigned_ok [OF assms lookup_by_mac_None [OF assms(2) None]]
    by (simp add: dhcpd_client_ip_address_lease_def lease_result_def)
next
  case (Some i)
  note found = lookup_member [OF Some [unfolded dhcp_client_lookup_by_mac_def]]
  note keep = keep_ok [OF assms found(1) found(3)]
  note drop = drop_ok [OF assms found(1) found(3)]
  have again: "lease_post mac rt st (lease_unassigned api mac ip' rt
      (dhcp_client_update api w' i s e (set_mac i 0 st)) w'')" for ip' w' s e w''
    by (rule lease_post_frame [OF drop(2) lease_unassigned_ok [OF assms(1) drop(1) drop(3)]])
  obtain in_use w1 where p: "dhcpd_ip_address_in_use api (ip_addr (client_at st i)) w
      = (in_use, w1)"
    by fastforce
  consider "rt = DHCP_DISCOVER" | "rt = DHCP_INFORM" | "rt \<noteq> DHCP_DISCOVER" "rt \<noteq> DHCP_INFORM"
    by blast
  then show ?thesis
  proof cases
    case 1
    then show ?thesis
      using Some p keep again
      by (simp add: dhcpd_client_ip_address_lease_def lease_result_def lease_post_def
          make_unavailable_def Let_def dhcp_msg_types dhcp_ip_states)
  next
    case 2
    then show ?thesis
      using Some keep again keep(3) [of DHCP_IP_STATE_STATIC w 0]
      by (auto simp: dhcpd_client_ip_address_lease_def lease_result_def lease_post_def
          dhcp_msg_types Let_def)
  next
    case 3
    then show ?thesis
      using Some keep assms(2)
      by (simp add: dhcpd_client_ip_address_lease_def lease_result_def lease_post_def
          lease_frame_refl Let_def)
  qed
qed

text \<open>
  Choosing an address keeps the pool consistent, its members and their addresses.
\<close>

theorem dhcpd_lease_preserves_pool:
  assumes "freertos_lists_ok api" and "pool_ok st"
    and "dhcpd_client_ip_address_lease api mac ip rt st w = (r, st', w')"
  shows "pool_ok st' \<and> members st' = members st \<and>
    (\<forall>k. ip_addr (client_at st' k) = ip_addr (client_at st k))"
  using dhcpd_lease_ok [OF assms(1,2), of mac rt ip w] assms(3)
  by (auto simp: lease_result_def lease_post_def lease_frame_def)

text \<open>
  C2. Choosing an address for a client never touches an entry of the pool that belongs to
  another MAC address, unless that entry was available: no lease, offer or static assignment
  of another client is taken away, whatever the client asks for and whatever the network
  answers.
\<close>

theorem dhcpd_lease_respects_others:
  assumes "freertos_lists_ok api" and "pool_ok st"
    and "dhcpd_client_ip_address_lease api mac ip rt st w = (r, st', w')"
    and "ip_mac (client_at st k) \<noteq> mac"
    and "ip_state (client_at st k) \<noteq> DHCP_IP_STATE_AVAILABLE"
  shows "client_at st' k = client_at st k"
  using dhcpd_lease_ok [OF assms(1,2), of mac rt ip w] assms(3-5)
  by (auto simp: lease_result_def lease_post_def lease_frame_def)

text \<open>
  A DISCOVER ends with an address recorded as offered to the client, or with no address only
  when no entry of the pool is left available.
\<close>

theorem dhcpd_discover_outcome:
  assumes "freertos_lists_ok api" and "pool_ok st"
    and "dhcpd_client_ip_address_lease api mac ip DHCP_DISCOVER st w = (r, st', w')"
  shows "assigned mac DHCP_IP_STATE_OFFERED r st' \<or>
    r = INADDR_ANY \<and> (\<forall>i\<in>members st'. ip_state (client_at st' i) \<noteq> DHCP_IP_STATE_AVAILABLE)"
  using dhcpd_lease_ok [OF assms(1,2), of mac DHCP_DISCOVER ip w] assms(3)
  by (auto simp: lease_result_def lease_post_def dhcp_msg_types)

text \<open>
  A REQUEST has three outcomes: the requested address is the one recorded for the MAC
  address, and is returned and recorded as leased; another one is recorded, and the
  broadcast address is returned for a NAK with the pool unchanged; or the MAC address has no
  entry, and the server stays silent with the pool unchanged.
\<close>

theorem dhcpd_request_outcome:
  assumes "freertos_lists_ok api" and "pool_ok st"
    and "dhcpd_client_ip_address_lease api mac ip DHCP_REQUEST st w = (r, st', w')"
  shows "(\<exists>i\<in>members st. client_at st i = \<lparr>ip_addr = ip, ip_state = ip_state (client_at st i),
            ip_mac = mac\<rparr>)
         \<and> r = ip \<and> assigned mac DHCP_IP_STATE_LEASED ip st'
       \<or> (\<exists>i\<in>members st. ip_mac (client_at st i) = mac \<and> ip_addr (client_at st i) \<noteq> ip)
         \<and> r = INADDR_BROADCAST \<and> st' = st
       \<or> (\<forall>i\<in>members st. ip_mac (client_at st i) \<noteq> mac) \<and> r = INADDR_ANY \<and> st' = st"
proof (cases "dhcp_client_lookup_by_mac mac st")
  case None
  with assms(2) have "\<forall>i\<in>members st. ip_mac (client_at st i) \<noteq> mac"
    by (auto simp: dhcp_client_lookup_by_mac_def pool_find_None pool_ok_def members_def)
  with None assms(3) show ?thesis
    by (simp add: dhcpd_client_ip_address_lease_def lease_unassigned_def dhcp_msg_types)
next
  case (Some i)
  note found = lookup_member [OF Some [unfolded dhcp_client_lookup_by_mac_def]]
  show ?thesis
  proof (cases "ip_addr (client_at st i) = ip")
    case True
    with found have "\<exists>i\<in>members st. client_at st i
        = \<lparr>ip_addr = ip, ip_state = ip_state (client_at st i), ip_mac = mac\<rparr>"
      by (intro bexI [of _ i]) simp_all
    with True Some assms(3) keep_ok(3) [OF assms(1,2) found(1) found(3)] show ?thesis
      by (auto simp: dhcpd_client_ip_address_lease_def dhcp_msg_types dhcp_ip_states Let_def)
  next
    case False
    with Some assms(3) found show ?thesis
      by (auto simp: dhcpd_client_ip_address_lease_def dhcp_msg_types Let_def)
  qed
qed

text \<open>
  An INFORM for an available address of the pool assigns it to the client but compares the
  message type with the state \<open>DHCP_IP_STATE_STATIC\<close>: the entry stays available.
\<close>

text \<open>
  A client that informs the server that it uses an available address of the pool gets the
  entry, but the entry stays available, so the address can still be offered to another
  client.
\<close>

theorem dhcpd_inform_leaves_available:
  assumes "dhcp_client_lookup_by_mac mac st = None" and "ip \<noteq> INADDR_ANY"
    and "dhcp_client_lookup_by_ip ip st = Some i"
    and "ip_state (client_at st i) = DHCP_IP_STATE_AVAILABLE"
  shows "dhcpd_client_ip_address_lease api mac ip DHCP_INFORM st w
    = (ip_addr (client_at st i),
       dhcp_client_update api w i DHCP_IP_STATE_AVAILABLE 0 (set_mac i mac st), w)"
  using assms
  by (simp add: dhcpd_client_ip_address_lease_def lease_unassigned_def dhcp_msg_types
      dhcp_ip_states)

section \<open>A concrete pool\<close>

text \<open>
  For the witnesses: the list ordered by value as FreeRTOS keeps it, a network on which
  nothing answers, and a pool of two addresses, the second leased to the MAC address 7.
\<close>

definition quiet_api :: "unit net_api" where
  "quiet_api =
     \<lparr>vListInsert = (\<lambda>x xs. takeWhile (\<lambda>y. fst y \<le> fst x) xs @ x # dropWhile (\<lambda>y. fst y \<le> fst x) xs),
      uxListRemove = (\<lambda>i. filter (\<lambda>x. snd x \<noteq> i)), rtos_seconds = (\<lambda>w. 100),
      arp_cache_hit = (\<lambda>ip w. (False, w)), arp_request = (\<lambda>ip w. w), delay_10ms = (\<lambda>w. w),
      send_ping = (\<lambda>ip w. (1, w)), ping_replies = (\<lambda>w. ([], w))\<rparr>"

definition two_pool :: dhcpd where
  "two_pool =
     \<lparr>dhcpd_server_ip = 1, dhcpd_netmask = 255, dhcpd_gateway = 1, dhcpd_dns0 = 2, dhcpd_dns1 = 3,
      dhcpd_ip_pool_start = 10, dhcpd_ip_pool_end = 12,
      dhcp_ip_infos = [\<lparr>ip_addr = 10, ip_state = 0, ip_mac = 0\<rparr>,
                       \<lparr>ip_addr = 11, ip_state = 1, ip_mac = 7\<rparr>],
      dhcp_ip_pool = [(50, 0), (700, 1)], arp_refreshed = []\<rparr>"

lemma mset_take_dropWhile: "mset (takeWhile P xs) + mset (dropWhile P xs) = mset xs"
  by (metis mset_append takeWhile_dropWhile_id)

lemma quiet_api_ok: "freertos_lists_ok quiet_api"
  by (simp add: freertos_lists_ok_def quiet_api_def mset_take_dropWhile)

lemma two_pool_ok: "pool_ok two_pool"
  by (simp add: pool_ok_def mac_unique_def members_def two_pool_def client_at_def INADDR_ANY_def
      INADDR_BROADCAST_def)

lemma quiet_in_use: "dhcpd_ip_address_in_use quiet_api ip w = (False, w)"
proof -
  have "arp_wait quiet_api ip n w = (False, w)" for n
    by (induction n) (simp_all add: quiet_api_def)
  then have "arp_probe quiet_api ip n w = (False, w)" for n
    by (induction n) (simp_all add: quiet_api_def)
  then show ?thesis
    by (simp add: dhcpd_ip_address_in_use_def quiet_api_def)
qed

lemmas two_pool_eval =
  dhcpd_client_ip_address_lease_def lease_unassigned_def dhcp_client_lookup_by_mac_def
  dhcp_client_lookup_by_ip_def dhcp_client_get_oldest_disconnected_def pool_find_def
  offer_next_available.simps dhcp_client_update_def set_mac_def set_client_def client_at_def
  two_pool_def quiet_api_def INADDR_ANY_def INADDR_BROADCAST_def dhcp_msg_types dhcp_ip_states
  DHCPD_LEASE_TIME_def DHCPD_OFFER_EXPIRATION_TIME_def

lemma two_pool_discover:
  "dhcpd_client_ip_address_lease quiet_api 9 0 DHCP_DISCOVER two_pool ()
     = (10, two_pool\<lparr>dhcp_ip_infos := [\<lparr>ip_addr = 10, ip_state = 2, ip_mac = 9\<rparr>,
                                     \<lparr>ip_addr = 11, ip_state = 1, ip_mac = 7\<rparr>],
                     dhcp_ip_pool := [(110, 0), (700, 1)]\<rparr>, ())"
  using quiet_in_use [of 10 "()"] by (simp add: two_pool_eval)

theorem dhcpd_lease_preserves_pool_witness:
  "pool_ok (fst (snd (dhcpd_client_ip_address_lease quiet_api 9 0 DHCP_DISCOVER two_pool ())))"
  using dhcpd_lease_preserves_pool [OF quiet_api_ok two_pool_ok two_pool_discover]
  by (simp add: two_pool_discover)

theorem dhcpd_lease_respects_others_witness:
  "client_at (fst (snd (dhcpd_client_ip_address_lease quiet_api 9 0 DHCP_DISCOVER two_pool ()))) 1
     = \<lparr>ip_addr = 11, ip_state = 1, ip_mac = 7\<rparr>"
  using dhcpd_lease_respects_others [OF quiet_api_ok two_pool_ok two_pool_discover, of 1]
  by (simp add: two_pool_discover) (simp add: client_at_def two_pool_def dhcp_ip_states)

theorem dhcpd_discover_outcome_witness:
  "assigned 9 DHCP_IP_STATE_OFFERED 10
     (fst (snd (dhcpd_client_ip_address_lease quiet_api 9 0 DHCP_DISCOVER two_pool ())))"
  using dhcpd_discover_outcome [OF quiet_api_ok two_pool_ok two_pool_discover]
  by (simp add: two_pool_discover INADDR_ANY_def)

theorem dhcpd_request_outcome_witness:
  "\<exists>st'. dhcpd_client_ip_address_lease quiet_api 7 10 DHCP_REQUEST two_pool ()
     = (INADDR_BROADCAST, st', ()) \<and> st' = two_pool"
proof -
  have r: "dhcpd_client_ip_address_lease quiet_api 7 10 DHCP_REQUEST two_pool ()
      = (INADDR_BROADCAST, two_pool, ())"
    by (simp add: two_pool_eval)
  from dhcpd_request_outcome [OF quiet_api_ok two_pool_ok r] show ?thesis
    unfolding r by (simp add: INADDR_BROADCAST_def)
qed

theorem dhcpd_inform_leaves_available_witness:
  "ip_state (client_at
      (fst (snd (dhcpd_client_ip_address_lease quiet_api 9 10 DHCP_INFORM two_pool ()))) 0)
    = DHCP_IP_STATE_AVAILABLE"
  using dhcpd_inform_leaves_available [of 9 two_pool 10 0 quiet_api "()"]
  by (simp add: two_pool_eval)

end
