(* ===== verification/Dhcp_Upkeep.thy ===== *)
theory Dhcp_Upkeep
  imports Dhcp_Pool
begin

text \<open>
  The upkeep of the DHCP server's pool (modules/sw_services/dhcpd/FreeRTOS/dhcpd.c): the
  release of expired leases, the checks on the configured network and the creation of the
  pool from the configured range.
\<close>

section \<open>Expired leases\<close>

text \<open>
  The loop walks the list by its items, \<open>None\<close> being the end marker: its value is the
  largest one, its successor the head, and it has no owner. An address found still in use is
  moved to a new place in the list, from where the walk goes on. The number of turns is the
  length of the list, which no turn changes.
\<close>

fun list_next :: "(u32 \<times> nat) list \<Rightarrow> nat option \<Rightarrow> nat option" where
  "list_next xs None = (case xs of [] \<Rightarrow> None | x # ys \<Rightarrow> Some (snd x))"
| "list_next xs (Some i) =
     (case dropWhile (\<lambda>x. snd x \<noteq> i) xs of x # y # ys \<Rightarrow> Some (snd y) | _ \<Rightarrow> None)"

definition item_value :: "(u32 \<times> nat) list \<Rightarrow> nat option \<Rightarrow> u32" where
  "item_value xs item =
     (case item of
        None \<Rightarrow> 0xFFFFFFFF
      | Some i \<Rightarrow> (case find (\<lambda>x. snd x = i) xs of Some x \<Rightarrow> fst x | None \<Rightarrow> 0xFFFFFFFF))"

definition release_expired :: "'w net_api \<Rightarrow> nat \<Rightarrow> dhcpd \<Rightarrow> 'w \<Rightarrow> dhcpd \<times> 'w" where
  "release_expired api i st w =
     (let client = client_at st i in
      if ip_state client = DHCP_IP_STATE_LEASED \<or> ip_state client = DHCP_IP_STATE_OFFERED then
        (set_client i (\<lambda>c. c\<lparr>ip_state := DHCP_IP_STATE_AVAILABLE\<rparr>) st, w)
      else if ip_state client = DHCP_IP_STATE_UNAVAILABLE then
        (let (in_use, w1) = dhcpd_ip_address_in_use api (ip_addr client) w
         in if in_use then
              (dhcp_client_update api w1 i DHCP_IP_STATE_UNAVAILABLE
                 DHCPD_UNAVAILABLE_IP_PROBE_INTERVAL st, w1)
            else (set_client i (\<lambda>c. c\<lparr>ip_state := DHCP_IP_STATE_AVAILABLE\<rparr>) st, w1))
      else (st, w))"

fun release_loop ::
  "'w net_api \<Rightarrow> u32 \<Rightarrow> nat \<Rightarrow> nat option \<Rightarrow> dhcpd \<Rightarrow> 'w \<Rightarrow> (dhcpd \<times> 'w) res" where
  "release_loop api now 0 item st w = Inr (st, w)"
| "release_loop api now (Suc n) item st w =
     (if now \<ge> item_value (dhcp_ip_pool st) item then
        (case item of
           None \<Rightarrow> Inl Bad_access
         | Some i \<Rightarrow>
             (let (st1, w1) = release_expired api i st w
              in release_loop api now n (list_next (dhcp_ip_pool st1) item) st1 w1))
      else release_loop api now n (list_next (dhcp_ip_pool st) item) st w)"

definition dhcp_client_release_expired_leases ::
  "'w net_api \<Rightarrow> dhcpd \<Rightarrow> 'w \<Rightarrow> (dhcpd \<times> 'w) res" where
  "dhcp_client_release_expired_leases api st w =
     release_loop api (rtos_seconds api w) (length (dhcp_ip_pool st))
       (list_next (dhcp_ip_pool st) None) st w"

text \<open>What one turn may do to an entry.\<close>

definition expiry_frame :: "u32 \<Rightarrow> dhcpd \<Rightarrow> dhcpd \<Rightarrow> bool" where
  "expiry_frame now st st' \<longleftrightarrow>
     members st' = members st \<and>
     (\<forall>k. ip_addr (client_at st' k) = ip_addr (client_at st k) \<and>
          ip_mac (client_at st' k) = ip_mac (client_at st k)) \<and>
     (\<forall>k. client_at st' k = client_at st k \<or>
          ip_state (client_at st k) \<noteq> DHCP_IP_STATE_STATIC \<and>
          ip_state (client_at st k) \<noteq> DHCP_IP_STATE_AVAILABLE \<and>
          (ip_state (client_at st' k) = DHCP_IP_STATE_AVAILABLE \<or>
           ip_state (client_at st k) = DHCP_IP_STATE_UNAVAILABLE \<and>
           ip_state (client_at st' k) = DHCP_IP_STATE_UNAVAILABLE)) \<and>
     (\<forall>k v. (v, k) \<in> set (dhcp_ip_pool st) \<and> now < v \<longrightarrow>
        client_at st' k = client_at st k \<and> (v, k) \<in> set (dhcp_ip_pool st'))"

lemma expiry_frame_refl: "expiry_frame now st st"
  by (simp add: expiry_frame_def)

lemma expiry_frame_trans:
  assumes "expiry_frame now st st1" and "expiry_frame now st1 st2"
  shows "expiry_frame now st st2"
  unfolding expiry_frame_def
proof (intro conjI allI)
  fix k
  have "client_at st1 k = client_at st k \<or>
      ip_state (client_at st k) \<noteq> DHCP_IP_STATE_STATIC \<and>
      ip_state (client_at st k) \<noteq> DHCP_IP_STATE_AVAILABLE \<and>
      (ip_state (client_at st1 k) = DHCP_IP_STATE_AVAILABLE \<or>
       ip_state (client_at st k) = DHCP_IP_STATE_UNAVAILABLE \<and>
       ip_state (client_at st1 k) = DHCP_IP_STATE_UNAVAILABLE)"
    and "client_at st2 k = client_at st1 k \<or>
      ip_state (client_at st1 k) \<noteq> DHCP_IP_STATE_STATIC \<and>
      ip_state (client_at st1 k) \<noteq> DHCP_IP_STATE_AVAILABLE \<and>
      (ip_state (client_at st2 k) = DHCP_IP_STATE_AVAILABLE \<or>
       ip_state (client_at st1 k) = DHCP_IP_STATE_UNAVAILABLE \<and>
       ip_state (client_at st2 k) = DHCP_IP_STATE_UNAVAILABLE)"
    using assms unfolding expiry_frame_def by blast+
  then show "client_at st2 k = client_at st k \<or>
      ip_state (client_at st k) \<noteq> DHCP_IP_STATE_STATIC \<and>
      ip_state (client_at st k) \<noteq> DHCP_IP_STATE_AVAILABLE \<and>
      (ip_state (client_at st2 k) = DHCP_IP_STATE_AVAILABLE \<or>
       ip_state (client_at st k) = DHCP_IP_STATE_UNAVAILABLE \<and>
       ip_state (client_at st2 k) = DHCP_IP_STATE_UNAVAILABLE)"
    by (elim disjE conjE) simp_all
next
  fix k v
  show "(v, k) \<in> set (dhcp_ip_pool st) \<and> now < v \<longrightarrow>
    client_at st2 k = client_at st k \<and> (v, k) \<in> set (dhcp_ip_pool st2)"
    using assms unfolding expiry_frame_def by metis
qed (use assms in \<open>simp_all add: expiry_frame_def\<close>)

lemma item_value_member:
  assumes "distinct (map snd xs)" and "(v, i) \<in> set xs"
  shows "item_value xs (Some i) = v"
  using assms
proof (induction xs)
  case (Cons x xs)
  then show ?case
    by (cases x) (auto simp: item_value_def split: if_splits intro: rev_image_eqI)
qed simp

lemma item_value_not_member: "i \<notin> snd ` set xs \<Longrightarrow> item_value xs (Some i) = 0xFFFFFFFF"
proof -
  assume "i \<notin> snd ` set xs"
  then have "find (\<lambda>x. snd x = i) xs = None"
    by (force simp: find_None_iff)
  then show ?thesis
    by (simp add: item_value_def)
qed

lemma set_client_state_ok:
  assumes "pool_ok st" and "i \<in> members st"
  shows "changed i ((client_at st i)\<lparr>ip_state := s\<rparr>) st
    (set_client i (\<lambda>c. c\<lparr>ip_state := s\<rparr>) st)"
  using assms by (auto simp: changed_def set_client_def client_at_def members_def pool_ok_def)

lemma update_keeps_items:
  assumes "freertos_lists_ok api" and "(v, k) \<in> set (dhcp_ip_pool st)" and "k \<noteq> i"
  shows "(v, k) \<in> set (dhcp_ip_pool (dhcp_client_update api w i s e st))"
proof -
  have "mset (vListInsert api x (uxListRemove api i xs))
      = add_mset x (mset (filter (\<lambda>x. snd x \<noteq> i) xs))" for x xs
    using assms(1) unfolding freertos_lists_ok_def by metis
  from mset_eq_setD [OF trans [OF this mset.simps(2) [symmetric]]]
  have "set (vListInsert api x (uxListRemove api i xs))
      = set (x # filter (\<lambda>x. snd x \<noteq> i) xs)" for x xs
    by blast
  with assms(2,3) show ?thesis
    by (simp add: dhcp_client_update_def set_client_def Let_def)
qed

lemma release_expired_ok:
  assumes "freertos_lists_ok api" and "pool_ok st" and "i \<in> members st"
    and "now \<ge> item_value (dhcp_ip_pool st) (Some i)"
    and "release_expired api i st w = (st', w')"
  shows "pool_ok st' \<and> expiry_frame now st st'"
proof -
  have len: "i < length (dhcp_ip_infos st)"
    using assms(2,3) by (simp add: pool_ok_def)
  note avail = set_client_state_ok [OF assms(2,3), of DHCP_IP_STATE_AVAILABLE]
  note again = changed_update [OF assms(1,3) len, where s = DHCP_IP_STATE_UNAVAILABLE]
  have not_later: "\<not> now < v" if "(v, i) \<in> set (dhcp_ip_pool st)" for v
    using assms(2,4) item_value_member [OF _ that] by (simp add: pool_ok_def)
  have frame: "pool_ok st1 \<and> expiry_frame now st st1"
    if c: "changed i e st st1" and e: "e = (client_at st i)\<lparr>ip_state := s\<rparr>"
      and s: "s = DHCP_IP_STATE_AVAILABLE \<or>
        s = DHCP_IP_STATE_UNAVAILABLE \<and> ip_state (client_at st i) = DHCP_IP_STATE_UNAVAILABLE"
      and old: "ip_state (client_at st i) = DHCP_IP_STATE_LEASED
        \<or> ip_state (client_at st i) = DHCP_IP_STATE_OFFERED
        \<or> ip_state (client_at st i) = DHCP_IP_STATE_UNAVAILABLE"
      and items: "\<And>v k. (v, k) \<in> set (dhcp_ip_pool st) \<Longrightarrow> k \<noteq> i \<Longrightarrow>
        (v, k) \<in> set (dhcp_ip_pool st1)" for e st1 s
  proof
    show "pool_ok st1"
      by (rule pool_ok_changed [OF assms(2) c]) (simp add: e)
    show "expiry_frame now st st1"
      using s old not_later
      by (auto simp: expiry_frame_def client_at_changed [OF c] members_changed [OF c] e
          dhcp_ip_states intro: items)
  qed
  obtain in_use w1 where p: "dhcpd_ip_address_in_use api (ip_addr (client_at st i)) w
      = (in_use, w1)"
    by fastforce
  let ?leased = "ip_state (client_at st i) = DHCP_IP_STATE_LEASED
    \<or> ip_state (client_at st i) = DHCP_IP_STATE_OFFERED"
  consider "?leased" | "\<not> ?leased" "ip_state (client_at st i) = DHCP_IP_STATE_UNAVAILABLE"
    | "\<not> ?leased" "ip_state (client_at st i) \<noteq> DHCP_IP_STATE_UNAVAILABLE"
    by blast
  then show ?thesis
  proof cases
    case 1
    with assms(5) frame [OF avail refl] show ?thesis
      by (auto simp: release_expired_def set_client_def)
  next
    case 2
    with assms(5) p frame [OF avail refl] frame [OF again refl] show ?thesis
      by (auto simp: release_expired_def set_client_def update_keeps_items [OF assms(1)]
          split: if_splits)
  next
    case 3
    with assms(2,5) show ?thesis
      by (auto simp: release_expired_def expiry_frame_refl)
  qed
qed

lemma release_loop_ok:
  assumes "freertos_lists_ok api" and "pool_ok st" and "now < 0xFFFFFFFF"
    and "release_loop api now n item st w = Inr (st', w')"
  shows "pool_ok st' \<and> expiry_frame now st st'"
  using assms
proof (induction api now n item st w rule: release_loop.induct)
  case (1 api now item st w)
  then show ?case by (simp add: expiry_frame_refl)
next
  case (2 api now n item st w)
  show ?case
  proof (cases "now \<ge> item_value (dhcp_ip_pool st) item")
    case True
    with "2.prems" obtain i where i: "item = Some i"
      by (cases item) auto
    with True "2.prems"(3) have "item_value (dhcp_ip_pool st) (Some i) \<noteq> 0xFFFFFFFF"
      by auto
    then have mem: "i \<in> members st"
      using item_value_not_member [of i "dhcp_ip_pool st"] by (auto simp: members_def)
    obtain st1 w1 where r: "release_expired api i st w = (st1, w1)"
      by fastforce
    note one = release_expired_ok [OF "2.prems"(1,2) mem True [unfolded i] r]
    have "pool_ok st' \<and> expiry_frame now st1 st'"
      using "2.IH"(1) [OF True i r [symmetric] refl] "2.prems" one True i r by simp
    with one show ?thesis
      by (blast intro: expiry_frame_trans)
  next
    case False
    with "2.IH"(2) "2.prems" show ?thesis by simp
  qed
qed

text \<open>
  C9. The release of expired leases keeps the pool consistent, never changes an address or
  its MAC address, never touches a static entry and never an entry whose expiry time has not
  come.
\<close>

theorem dhcpd_expiry_safe:
  assumes "freertos_lists_ok api" and "pool_ok st" and "rtos_seconds api w < 0xFFFFFFFF"
    and "dhcp_client_release_expired_leases api st w = Inr (st', w')"
  shows "pool_ok st'
    \<and> ip_addr (client_at st' k) = ip_addr (client_at st k)
    \<and> ip_mac (client_at st' k) = ip_mac (client_at st k)
    \<and> (ip_state (client_at st k) = DHCP_IP_STATE_STATIC \<longrightarrow> client_at st' k = client_at st k)
    \<and> ((v, k) \<in> set (dhcp_ip_pool st) \<and> rtos_seconds api w < v
         \<longrightarrow> client_at st' k = client_at st k)"
  using release_loop_ok [OF assms(1-3) assms(4) [unfolded
      dhcp_client_release_expired_leases_def]]
  unfolding expiry_frame_def by blast

text \<open>
  When no address is unavailable the list does not move, and the walk visits every item.
\<close>

lemma list_next_append:
  assumes "distinct (map snd (ps @ (v, i) # qs))"
  shows "list_next (ps @ (v, i) # qs) (Some i)
    = (case qs of [] \<Rightarrow> None | q # qs' \<Rightarrow> Some (snd q))"
proof -
  have "dropWhile (\<lambda>x. snd x \<noteq> i) (ps @ (v, i) # qs) = (v, i) # qs"
    using assms by (induction ps) auto
  then show ?thesis
    by (simp split: list.split)
qed

definition none_unavailable :: "dhcpd \<Rightarrow> bool" where
  "none_unavailable st \<longleftrightarrow>
     (\<forall>i\<in>members st. ip_state (client_at st i) \<noteq> DHCP_IP_STATE_UNAVAILABLE)"

definition expired_state :: "u32 \<Rightarrow> u32 \<Rightarrow> dhcp_ip_info \<Rightarrow> dhcp_ip_info" where
  "expired_state now v c =
     (if v \<le> now \<and> (ip_state c = DHCP_IP_STATE_LEASED \<or> ip_state c = DHCP_IP_STATE_OFFERED)
      then c\<lparr>ip_state := DHCP_IP_STATE_AVAILABLE\<rparr> else c)"

lemma release_loop_complete:
  assumes "dhcp_ip_pool st = ps @ qs" and "distinct (map snd (ps @ qs))"
    and "\<forall>i\<in>members st. i < length (dhcp_ip_infos st)" and "none_unavailable st"
  shows "\<exists>st'. release_loop api now (length qs)
      (case qs of [] \<Rightarrow> None | q # qs' \<Rightarrow> Some (snd q)) st w = Inr (st', w)
    \<and> (\<forall>k. k \<notin> snd ` set qs \<longrightarrow> client_at st' k = client_at st k)
    \<and> (\<forall>(v, k)\<in>set qs. client_at st' k = expired_state now v (client_at st k))"
  using assms
proof (induction qs arbitrary: ps st)
  case Nil
  then show ?case by simp
next
  case (Cons q qs)
  obtain v i where q: "q = (v, i)" by fastforce
  have mem: "i \<in> members st"
    using Cons.prems(1) q by (simp add: members_def)
  with Cons.prems(3) have len: "i < length (dhcp_ip_infos st)" by simp
  have val: "item_value (dhcp_ip_pool st) (Some i) = v"
    using Cons.prems(1,2) q by (intro item_value_member) simp_all
  have nxt: "list_next (ps @ (v, i) # qs) (Some i)
      = (case qs of [] \<Rightarrow> None | q # qs' \<Rightarrow> Some (snd q))"
    using Cons.prems(2) q by (intro list_next_append) simp
  define st1 where
    "st1 = set_client i (\<lambda>c. expired_state now v c) st"
  have same: "set_client i (\<lambda>c. c) st = st"
    by (simp add: set_client_def)
  have step: "release_loop api now (Suc (length qs)) (Some i) st w
      = release_loop api now (length qs) (case qs of [] \<Rightarrow> None | q # qs' \<Rightarrow> Some (snd q)) st1 w"
  proof (cases "v \<le> now")
    case True
    moreover have "release_expired api i st w = (st1, w)"
      using Cons.prems(4) mem True same
      by (auto simp: release_expired_def st1_def expired_state_def none_unavailable_def
          client_at_def set_client_def)
    moreover have "dhcp_ip_pool st1 = ps @ (v, i) # qs"
      using Cons.prems(1) q by (simp add: st1_def set_client_def)
    ultimately show ?thesis
      using val nxt by simp
  next
    case False
    then have "st1 = st"
      by (simp add: st1_def expired_state_def same)
    with False val nxt Cons.prems(1) q show ?thesis by simp
  qed
  have at1: "client_at st1 k = (if k = i then expired_state now v (client_at st i)
      else client_at st k)" for k
    using len by (simp add: client_at_def st1_def set_client_def)
  have pool1: "dhcp_ip_pool st1 = (ps @ [q]) @ qs"
    using Cons.prems(1) by (simp add: st1_def set_client_def)
  have mem1: "members st1 = members st"
    using Cons.prems(1) by (simp add: members_def pool1)
  have "none_unavailable st1"
    using Cons.prems(4)
    by (auto simp: none_unavailable_def mem1 at1 expired_state_def dhcp_ip_states)
  moreover have "\<forall>i\<in>members st1. i < length (dhcp_ip_infos st1)"
    using Cons.prems(3) unfolding mem1 by (simp add: st1_def set_client_def)
  moreover have "distinct (map snd ((ps @ [q]) @ qs))"
    using Cons.prems(2) by simp
  ultimately obtain st' where st': "release_loop api now (length qs)
        (case qs of [] \<Rightarrow> None | q # qs' \<Rightarrow> Some (snd q)) st1 w = Inr (st', w)"
      "\<forall>k. k \<notin> snd ` set qs \<longrightarrow> client_at st' k = client_at st1 k"
      "\<forall>(v, k)\<in>set qs. client_at st' k = expired_state now v (client_at st1 k)"
    using Cons.IH [OF pool1] by blast
  have notin: "i \<notin> snd ` set qs"
    using Cons.prems(2) q by simp
  have rest: "k \<noteq> i" if "(v', k) \<in> set qs" for v' k
    using notin that by force
  have here: "client_at st' i = expired_state now v (client_at st i)"
    using st'(2) notin by (simp add: at1)
  have there: "client_at st' k = expired_state now v' (client_at st k)"
    if "(v', k) \<in> set qs" for v' k
    using st'(3) rest [OF that] that by (auto simp: at1)
  have other: "client_at st' k = client_at st k" if "k \<notin> snd ` set (q # qs)" for k
    using st'(2) that q by (simp add: at1)
  have "release_loop api now (length (q # qs)) (Some (snd q)) st w = Inr (st', w)"
    unfolding length_Cons q snd_conv step by (rule st'(1))
  with here there other show ?case
    by (intro exI [of _ st']) (auto simp: q)
qed

text \<open>
  When no address is marked unavailable, one check makes every expired lease and every
  expired offer available, and changes no other entry.
\<close>

theorem dhcpd_expiry_complete:
  assumes "pool_ok st" and "none_unavailable st"
  shows "\<exists>st'. dhcp_client_release_expired_leases api st w = Inr (st', w) \<and>
    (\<forall>(v, k)\<in>set (dhcp_ip_pool st).
       client_at st' k = expired_state (rtos_seconds api w) v (client_at st k))"
  using release_loop_complete [of st "[]" "dhcp_ip_pool st" api "rtos_seconds api w" w] assms
  by (auto simp: dhcp_client_release_expired_leases_def pool_ok_def)

text \<open>
  With an unavailable address that is still in use the walk goes on behind the address's new
  place, and misses the items in between.
\<close>

definition busy_api :: "unit net_api" where
  "busy_api = quiet_api\<lparr>rtos_seconds := \<lambda>w. 1000, arp_cache_hit := \<lambda>ip w. (True, w),
     send_ping := \<lambda>ip w. (1, w), ping_replies := \<lambda>w. ([1], w)\<rparr>"

definition stuck_pool :: dhcpd where
  "stuck_pool = two_pool\<lparr>dhcp_ip_infos := [\<lparr>ip_addr = 10, ip_state = 4, ip_mac = 0\<rparr>,
     \<lparr>ip_addr = 11, ip_state = 1, ip_mac = 7\<rparr>]\<rparr>"

lemma busy_in_use: "dhcpd_ip_address_in_use busy_api ip w = (True, w)"
proof -
  have "ping_probe busy_api ip (Suc n) False w = (True, w)" for n
    by (simp add: busy_api_def quiet_api_def)
  from this [of 1] show ?thesis
    by (simp add: dhcpd_ip_address_in_use_def) (simp add: busy_api_def numeral_2_eq_2)
qed

text \<open>
  On a concrete pool with an unavailable address that still answers, the expiry check leaves
  an expired lease leased: the walk goes on from the item it has just moved.
\<close>

theorem dhcpd_expiry_misses_expired_lease:
  "\<exists>st'. dhcp_client_release_expired_leases busy_api stuck_pool () = Inr (st', ()) \<and>
     (700, 1) \<in> set (dhcp_ip_pool st') \<and> rtos_seconds busy_api () = 1000 \<and>
     ip_state (client_at st' 1) = DHCP_IP_STATE_LEASED"
  using busy_in_use [of 10 "()"]
  by (simp add: dhcp_client_release_expired_leases_def busy_api_def stuck_pool_def two_pool_def
      quiet_api_def release_expired_def client_at_def dhcp_ip_states item_value_def
      dhcp_client_update_def set_client_def DHCPD_UNAVAILABLE_IP_PROBE_INTERVAL_def)

theorem dhcpd_expiry_safe_witness:
  "client_at (case dhcp_client_release_expired_leases quiet_api two_pool () of
      Inr (st', w') \<Rightarrow> st' | Inl e \<Rightarrow> two_pool) 1 = client_at two_pool 1"
proof -
  obtain st' where r: "dhcp_client_release_expired_leases quiet_api two_pool () = Inr (st', ())"
    by (simp add: dhcp_client_release_expired_leases_def two_pool_def
      quiet_api_def release_expired_def client_at_def dhcp_ip_states item_value_def
      set_client_def)
  have t: "rtos_seconds quiet_api () < 0xFFFFFFFF"
    by (simp add: quiet_api_def)
  from dhcpd_expiry_safe [OF quiet_api_ok two_pool_ok t r, of 1 700] show ?thesis
    unfolding r by (simp add: two_pool_def quiet_api_def)
qed

theorem dhcpd_expiry_complete_witness:
  "\<exists>st'. dhcp_client_release_expired_leases busy_api two_pool () = Inr (st', ()) \<and>
     ip_state (client_at st' 1) = DHCP_IP_STATE_AVAILABLE"
proof -
  have "none_unavailable two_pool"
    by (simp add: none_unavailable_def members_def two_pool_def client_at_def dhcp_ip_states)
  from dhcpd_expiry_complete [OF two_pool_ok this, of busy_api "()"] show ?thesis
    by (auto simp: two_pool_def client_at_def expired_state_def busy_api_def dhcp_ip_states)
qed

section \<open>The configured network\<close>

text \<open>\<open>htonl\<close> and \<open>ntohl\<close> reverse the bytes of a word on a little-endian machine.\<close>

definition htonl :: "u32 \<Rightarrow> u32" where
  "htonl x = bytes_word (rev (word_bytes 4 x))"

abbreviation ntohl :: "u32 \<Rightarrow> u32" where
  "ntohl \<equiv> htonl"

lemma htonl_htonl [simp]: "htonl (htonl x) = x"
proof -
  have "word_bytes 4 (bytes_word (rev (word_bytes 4 x)) :: u32) = rev (word_bytes 4 x)"
    using word_bytes_bytes [of "rev (word_bytes 4 x)", where 'a = 32] by simp
  then show ?thesis
    by (simp add: htonl_def)
qed

lemma htonl_inject [simp]: "htonl x = htonl y \<longleftrightarrow> x = y"
  by (metis htonl_htonl)

text \<open>
  The two loops of \<open>netmask_valid\<close>: the mask goes down from the top bit to zero. The first
  stops at the first zero of the argument, the second looks for a one from there on.
\<close>

lemma drop_bit_less: "m \<noteq> 0 \<Longrightarrow> unat (drop_bit (Suc 0) m) < unat m"
  for m :: u32
proof -
  assume "m \<noteq> 0"
  then have "0 < unat m" by (simp add: unat_gt_0)
  then show ?thesis by (simp add: drop_bit_eq_div unat_div)
qed

function first_zero :: "u32 \<Rightarrow> u32 \<Rightarrow> u32" where
  "first_zero nm msk =
     (if msk \<noteq> 0 then if nm AND msk = 0 then msk else first_zero nm (drop_bit 1 msk)
      else msk)"
  by pat_completeness auto
termination
  by (relation "measure (\<lambda>(nm, msk). unat msk)") (auto simp: drop_bit_less)

function no_one_below :: "u32 \<Rightarrow> u32 \<Rightarrow> bool" where
  "no_one_below nm msk =
     (if msk \<noteq> 0 then if nm AND msk \<noteq> 0 then False else no_one_below nm (drop_bit 1 msk)
      else True)"
  by pat_completeness auto
termination
  by (relation "measure (\<lambda>(nm, msk). unat msk)") (auto simp: drop_bit_less)

declare first_zero.simps [simp del] no_one_below.simps [simp del]

definition netmask_valid :: "u32 \<Rightarrow> bool" where
  "netmask_valid netmask =
     (let nm_hostorder = htonl netmask
      in no_one_below nm_hostorder (first_zero nm_hostorder (push_bit 31 1)))"

definition ip_netmask_compare :: "u32 \<Rightarrow> u32 \<Rightarrow> u32 \<Rightarrow> bool" where
  "ip_netmask_compare addr1 addr2 netmask \<longleftrightarrow> addr1 AND netmask = addr2 AND netmask"

lemma and_bit_mask_eq_0: "nm AND 2 ^ k = 0 \<longleftrightarrow> \<not> bit nm k" for nm :: u32
  by (simp add: bit_iff_and_push_bit_not_eq_0)

lemma exp_not_0: "k < 32 \<Longrightarrow> 2 ^ k \<noteq> (0 :: u32)"
  using and_bit_mask_eq_0 [of "2 ^ k" k] by (auto simp: bit_exp_iff)

lemma drop_bit_exp_Suc: "k < 31 \<Longrightarrow> drop_bit (Suc 0) (2 ^ Suc k) = (2 ^ k :: u32)"
  by (rule bit_word_eqI) (auto simp: bit_drop_bit_eq bit_exp_iff simp del: power_Suc)

lemma no_one_below_bits:
  "k < 32 \<Longrightarrow> no_one_below nm (2 ^ k) \<longleftrightarrow> (\<forall>j\<le>k. \<not> bit nm j)"
proof (induction k)
  case 0
  have "no_one_below nm 0" by (simp add: no_one_below.simps)
  moreover have "drop_bit (Suc 0) (1 :: u32) = 0" by simp
  ultimately show ?case
    using and_bit_mask_eq_0 [of nm 0] by (simp add: no_one_below.simps [of nm 1])
next
  case (Suc k)
  then show ?case
    using and_bit_mask_eq_0 [of nm "Suc k"] exp_not_0 [of "Suc k"]
    by (simp add: no_one_below.simps [of nm "2 ^ Suc k"] drop_bit_exp_Suc
        del: power_Suc) (auto simp: le_Suc_eq)
qed

lemma first_zero_bits:
  "k < 32 \<Longrightarrow> (\<forall>j\<le>k. bit nm j) \<and> first_zero nm (2 ^ k) = 0
     \<or> (\<exists>j\<le>k. \<not> bit nm j \<and> (\<forall>i. j < i \<and> i \<le> k \<longrightarrow> bit nm i) \<and>
            first_zero nm (2 ^ k) = 2 ^ j)"
proof (induction k)
  case 0
  have "first_zero nm 0 = 0" by (simp add: first_zero.simps)
  moreover have "drop_bit (Suc 0) (1 :: u32) = 0" by simp
  ultimately show ?case
    using and_bit_mask_eq_0 [of nm 0] by (simp add: first_zero.simps [of nm 1])
next
  case (Suc k)
  show ?case
  proof (cases "bit nm (Suc k)")
    case True
    then have step: "first_zero nm (2 ^ Suc k) = first_zero nm (2 ^ k)"
      using Suc.prems and_bit_mask_eq_0 [of nm "Suc k"] exp_not_0 [of "Suc k"]
      by (simp add: first_zero.simps [of nm "2 ^ Suc k"] drop_bit_exp_Suc del: power_Suc)
    from Suc.IH Suc.prems True show ?thesis
      unfolding step by (auto simp: le_Suc_eq simp del: power_Suc)
  next
    case False
    then have "first_zero nm (2 ^ Suc k) = 2 ^ Suc k"
      using Suc.prems and_bit_mask_eq_0 [of nm "Suc k"] exp_not_0 [of "Suc k"]
      by (simp add: first_zero.simps [of nm "2 ^ Suc k"] del: power_Suc)
    with False show ?thesis
      by (intro disjI2 exI [of _ "Suc k"]) (auto simp del: power_Suc)
  qed
qed

text \<open>
  netmask_valid accepts exactly the masks that are, in host order, a run of ones followed by
  a run of zeros.
\<close>

theorem netmask_valid_iff_prefix:
  "netmask_valid netmask \<longleftrightarrow>
     (\<exists>n\<le>32. \<forall>i<32. bit (ntohl netmask) i \<longleftrightarrow> n \<le> i)"
proof -
  let ?m = "ntohl netmask"
  from first_zero_bits [of 31 ?m] consider
      (all) "\<forall>j\<le>31. bit ?m j" "first_zero ?m (2 ^ 31) = 0"
    | (zero) j where "j \<le> 31" "\<not> bit ?m j" "\<forall>i. j < i \<and> i \<le> 31 \<longrightarrow> bit ?m i"
        "first_zero ?m (2 ^ 31) = 2 ^ j"
    by auto
  then show ?thesis
  proof cases
    case all
    then have "netmask_valid netmask"
      by (simp add: netmask_valid_def no_one_below.simps [of _ 0])
    moreover have "\<forall>i<32. bit ?m i \<longleftrightarrow> 0 \<le> i"
      using all(1) by auto
    ultimately show ?thesis
      by (metis zero_le)
  next
    case zero
    then have eq: "netmask_valid netmask \<longleftrightarrow> (\<forall>i\<le>j. \<not> bit ?m i)"
      by (simp add: netmask_valid_def no_one_below_bits)
    show ?thesis
    proof
      assume "netmask_valid netmask"
      with eq zero(1,3) have "\<forall>i<32. bit ?m i \<longleftrightarrow> Suc j \<le> i"
        by (auto simp: not_less_eq_eq)
      with zero(1) show "\<exists>n\<le>32. \<forall>i<32. bit ?m i \<longleftrightarrow> n \<le> i"
        by (intro exI [of _ "Suc j"]) simp
    next
      assume "\<exists>n\<le>32. \<forall>i<32. bit ?m i \<longleftrightarrow> n \<le> i"
      then obtain n where n: "\<forall>i<32. bit ?m i \<longleftrightarrow> n \<le> i" by blast
      from zero(1) have "j < 32" by simp
      with n zero(2) have "j < n" by (meson not_less)
      with n zero(1) show "netmask_valid netmask"
        unfolding eq by auto
    qed
  qed
qed

theorem netmask_valid_iff_prefix_witness: "netmask_valid (htonl 0xFF000000)"
proof -
  have "(0xFF000000 :: u32) = push_bit 24 (mask 8)"
    by (simp add: mask_eq_exp_minus_1)
  moreover have "bit (push_bit 24 (mask 8) :: u32) i \<longleftrightarrow> 24 \<le> i" if "i < 32" for i
    using that by (auto simp: bit_push_bit_iff bit_mask_iff)
  ultimately have "\<forall>i<32. bit (0xFF000000 :: u32) i \<longleftrightarrow> 24 \<le> i"
    by metis
  then show ?thesis
    using netmask_valid_iff_prefix [of "htonl 0xFF000000"] by (auto intro: exI [of _ 24])
qed

section \<open>Creation of the pool\<close>

text \<open>
  The loop of \<open>dhcpd_ip_address_pool_next_valid\<close>; \<open>Some (ip, pool, ipval)\<close> are the variables
  after it. The increment wraps, so the loop need not end when the pool ends at
  255.255.255.255.
\<close>

definition ip_skipped :: "dhcpd \<Rightarrow> u32 \<Rightarrow> bool" where
  "ip_skipped st ipval \<longleftrightarrow>
     (let octet4 = ipval AND 0xFF; ip = htonl ipval
      in octet4 = 0 \<or> octet4 = 0xFF \<or> ip = dhcpd_server_ip st \<or> ip = dhcpd_gateway st
         \<or> ip = dhcpd_dns0 st \<or> ip = dhcpd_dns1 st)"

partial_function (option) next_valid_loop ::
  "dhcpd \<Rightarrow> u32 \<Rightarrow> u32 \<Rightarrow> u32 \<Rightarrow> (u32 \<times> u32 \<times> u32) option" where
  "next_valid_loop st pool ip ipval =
     (if ipval \<le> ntohl (dhcpd_ip_pool_end st) then
        if ipval < ntohl (dhcpd_ip_pool_start st) then
          next_valid_loop st pool (htonl ipval) (ntohl (dhcpd_ip_pool_start st) - 1 + 1)
        else if ip_skipped st ipval then next_valid_loop st pool (htonl ipval) (ipval + 1)
        else Some (htonl ipval, htonl (ipval + 1), ipval)
      else Some (ip, pool, ipval))"

definition dhcpd_ip_address_pool_next_valid :: "dhcpd \<Rightarrow> u32 \<Rightarrow> (u32 \<times> u32) option" where
  "dhcpd_ip_address_pool_next_valid st pool =
     map_option (\<lambda>(ip, pool', ipval).
         (if ipval > ntohl (dhcpd_ip_pool_end st) then INADDR_ANY else ip, pool'))
       (next_valid_loop st pool pool (ntohl pool))"

definition pool_add :: "'w net_api \<Rightarrow> u32 \<Rightarrow> nat \<Rightarrow> u32 \<Rightarrow> dhcpd \<Rightarrow> dhcpd" where
  "pool_add api t i ip st =
     (set_client i (\<lambda>c. c\<lparr>ip_addr := ip\<rparr>) st)
       \<lparr>dhcp_ip_pool := vListInsert api (t, i) (dhcp_ip_pool st)\<rparr>"

text \<open>The turns of \<open>dhcpd_ip_pool_init\<close> from the \<open>i\<close>-th on, \<open>n\<close> of them being left.\<close>

fun pool_init_loop :: "'w net_api \<Rightarrow> 'w \<Rightarrow> nat \<Rightarrow> nat \<Rightarrow> u32 \<Rightarrow> dhcpd \<Rightarrow> dhcpd option" where
  "pool_init_loop api w i 0 pool st = Some st"
| "pool_init_loop api w i (Suc n) pool st =
     Option.bind (dhcpd_ip_address_pool_next_valid st pool) (\<lambda>(ip, pool').
       if ip = INADDR_ANY then Some st
       else pool_init_loop api w (Suc i) n pool'
         (pool_add api (rtos_seconds api w) i ip st))"

definition dhcpd_ip_pool_init :: "'w net_api \<Rightarrow> 'w \<Rightarrow> dhcpd \<Rightarrow> dhcpd option" where
  "dhcpd_ip_pool_init api w st =
     (let ip_pool_count = unat (ntohl (dhcpd_ip_pool_end st) - ntohl (dhcpd_ip_pool_start st))
      in pool_init_loop api w 0 ip_pool_count (dhcpd_ip_pool_start st)
           (st\<lparr>dhcp_ip_infos := replicate ip_pool_count \<lparr>ip_addr = 0, ip_state = 0, ip_mac = 0\<rparr>,
               dhcp_ip_pool := []\<rparr>))"

text \<open>The addresses, as numbers, that the pool may hold.\<close>

definition usable :: "dhcpd \<Rightarrow> u32 \<Rightarrow> bool" where
  "usable st v \<longleftrightarrow> ntohl (dhcpd_ip_pool_start st) \<le> v \<and> v \<le> ntohl (dhcpd_ip_pool_end st)
     \<and> \<not> ip_skipped st v"

lemma unat_Suc: "v < 0xFFFFFFFF \<Longrightarrow> unat (v + 1) = unat v + 1" for v :: u32
  by (simp add: unat_word_ariths word_less_nat_alt)

lemma next_valid_loop_ok:
  assumes "ntohl (dhcpd_ip_pool_end st) < 0xFFFFFFFF"
  shows "\<exists>ip' pool' v. next_valid_loop st pool ip ipval = Some (ip', pool', v) \<and> ipval \<le> v \<and>
    (ntohl (dhcpd_ip_pool_end st) < v
     \<or> usable st v \<and> ip' = htonl v \<and> pool' = htonl (v + 1))"
proof (induction "2 ^ 32 - unat ipval" arbitrary: ip ipval rule: less_induct)
  case less
  let ?last = "ntohl (dhcpd_ip_pool_end st)" and ?first = "ntohl (dhcpd_ip_pool_start st)"
  show ?case
  proof (cases "ipval \<le> ?last")
    case False
    then have "?last < ipval" by (simp add: not_le)
    moreover have "next_valid_loop st pool ip ipval = Some (ip, pool, ipval)"
      by (subst next_valid_loop.simps) (rule if_not_P [OF False])
    ultimately show ?thesis by blast
  next
    case inside: True
    have further: "\<exists>ip' pool' v. next_valid_loop st pool (htonl ipval) nv = Some (ip', pool', v)
        \<and> ipval \<le> v \<and> (?last < v \<or> usable st v \<and> ip' = htonl v \<and> pool' = htonl (v + 1))"
      if nv: "ipval < nv" for nv
    proof -
      have "2 ^ 32 - unat nv < 2 ^ 32 - unat ipval"
        using nv unsigned_less [of nv, where ?'a = nat] by (simp add: word_less_nat_alt)
      from less [OF this] nv show ?thesis
        by (meson less_imp_le order_trans)
    qed
    show ?thesis
    proof (cases "ipval < ?first")
      case True
      with inside further [of ?first] show ?thesis
        by (simp add: next_valid_loop.simps [of st pool ip ipval])
    next
      case False
      from inside assms have "ipval < 0xFFFFFFFF" by simp
      then have "ipval < ipval + 1"
        using unat_Suc [of ipval] by (simp add: word_less_nat_alt)
      with inside False further [of "ipval + 1"] show ?thesis
        by (cases "ip_skipped st ipval")
          (auto simp: next_valid_loop.simps [of st pool ip ipval] usable_def)
    qed
  qed
qed

lemma pool_next_valid_ok:
  assumes "ntohl (dhcpd_ip_pool_end st) < 0xFFFFFFFF"
  obtains (found) v where "ntohl pool \<le> v" "usable st v" "v < 0xFFFFFFFF"
      "dhcpd_ip_address_pool_next_valid st pool = Some (htonl v, htonl (v + 1))"
    | (none) pool' where "dhcpd_ip_address_pool_next_valid st pool = Some (INADDR_ANY, pool')"
proof -
  obtain ip' pool' v where l: "next_valid_loop st pool pool (ntohl pool) = Some (ip', pool', v)"
      "ntohl pool \<le> v"
      "ntohl (dhcpd_ip_pool_end st) < v \<or> usable st v \<and> ip' = htonl v \<and> pool' = htonl (v + 1)"
    using next_valid_loop_ok [OF assms] by blast
  show thesis
  proof (cases "ntohl (dhcpd_ip_pool_end st) < v")
    case True
    with l(1) show thesis
      by (intro none [of pool']) (simp add: dhcpd_ip_address_pool_next_valid_def)
  next
    case False
    with l assms show thesis
      by (intro found [of v]) (auto simp: dhcpd_ip_address_pool_next_valid_def)
  qed
qed

text \<open>
  While the pool grows: its members are the first \<open>i\<close> elements, all usable and below the
  cursor, all free.
\<close>

definition growing :: "nat \<Rightarrow> u32 \<Rightarrow> dhcpd \<Rightarrow> bool" where
  "growing i pool st \<longleftrightarrow>
     distinct (map snd (dhcp_ip_pool st)) \<and> members st = {..<i} \<and>
     i \<le> length (dhcp_ip_infos st) \<and>
     (\<forall>k<length (dhcp_ip_infos st).
        ip_mac (client_at st k) = 0 \<and> ip_state (client_at st k) = DHCP_IP_STATE_AVAILABLE) \<and>
     (\<forall>k<i. usable st (ntohl (ip_addr (client_at st k))) \<and>
        ntohl (ip_addr (client_at st k)) < ntohl pool) \<and>
     inj_on (\<lambda>k. ip_addr (client_at st k)) {..<i}"

definition same_config :: "dhcpd \<Rightarrow> dhcpd \<Rightarrow> bool" where
  "same_config st st' \<longleftrightarrow>
     dhcpd_server_ip st' = dhcpd_server_ip st \<and> dhcpd_gateway st' = dhcpd_gateway st \<and>
     dhcpd_dns0 st' = dhcpd_dns0 st \<and> dhcpd_dns1 st' = dhcpd_dns1 st \<and>
     dhcpd_ip_pool_start st' = dhcpd_ip_pool_start st \<and>
     dhcpd_ip_pool_end st' = dhcpd_ip_pool_end st"

lemma usable_same_config: "same_config st st' \<Longrightarrow> usable st' v = usable st v"
  by (simp add: same_config_def usable_def ip_skipped_def)

lemma same_config_trans: "same_config st st1 \<Longrightarrow> same_config st1 st2 \<Longrightarrow> same_config st st2"
  by (simp add: same_config_def)

lemma growing_step:
  fixes t :: u32
  assumes "freertos_lists_ok api" and "growing i pool st" and "i < length (dhcp_ip_infos st)"
    and "ntohl pool \<le> v" and "usable st v" and "v < 0xFFFFFFFF"
  defines "st' \<equiv> pool_add api t i (htonl v) st"
  shows "growing (Suc i) (htonl (v + 1)) st'" and "same_config st st'"
    and "length (dhcp_ip_infos st') = length (dhcp_ip_infos st)"
proof -
  note g = assms(2) [unfolded growing_def]
  show conf: "same_config st st'"
      and len: "length (dhcp_ip_infos st') = length (dhcp_ip_infos st)"
    by (simp_all add: st'_def pool_add_def same_config_def set_client_def)
  have m: "mset (map snd (dhcp_ip_pool st')) = mset (i # map snd (dhcp_ip_pool st))"
    using assms(1) by (simp add: st'_def pool_add_def freertos_lists_ok_def)
  have mem: "members st' = {..<Suc i}"
    using mset_eq_setD [OF m] g by (auto simp: members_def)
  have dist: "distinct (map snd (dhcp_ip_pool st'))"
    using mset_eq_imp_distinct_iff [OF m] g by (auto simp: members_def)
  have at': "client_at st' k
      = (if k = i then (client_at st i)\<lparr>ip_addr := htonl v\<rparr> else client_at st k)" for k
    using assms(3) by (simp add: st'_def pool_add_def client_at_def set_client_def)
  have below: "ntohl (ip_addr (client_at st k)) < v" if "k < i" for k
    using g that assms(4) by (meson less_le_trans)
  have up: "v < v + 1"
    using unat_Suc [OF assms(6)] by (simp add: word_less_nat_alt)
  have inj: "inj_on (\<lambda>k. ip_addr (client_at st' k)) {..<Suc i}"
  proof (rule inj_onI)
    fix k j
    assume k: "k \<in> {..<Suc i}" and j: "j \<in> {..<Suc i}"
      and eq: "ip_addr (client_at st' k) = ip_addr (client_at st' j)"
    have differ: "ip_addr (client_at st l) \<noteq> htonl v" if "l < i" for l
      using below [OF that] by auto
    have "inj_on (\<lambda>k. ip_addr (client_at st k)) {..<i}"
      using g by blast
    with k j eq differ differ [THEN not_sym] show "k = j"
      by (auto simp: at' inj_on_def less_Suc_eq split: if_splits)
  qed
  show "growing (Suc i) (htonl (v + 1)) st'"
    unfolding growing_def
    using g assms(3,5) mem dist len inj below up
    by (auto simp: at' usable_same_config [OF conf] less_Suc_eq intro: less_trans)
qed

lemma pool_init_loop_ok:
  assumes "freertos_lists_ok api" and "growing i pool st"
    and "i + n \<le> length (dhcp_ip_infos st)" and "ntohl (dhcpd_ip_pool_end st) < 0xFFFFFFFF"
  shows "\<exists>st' j pool'. pool_init_loop api w i n pool st = Some st' \<and> growing j pool' st' \<and>
    same_config st st' \<and> length (dhcp_ip_infos st') = length (dhcp_ip_infos st)"
  using assms
proof (induction n arbitrary: i pool st)
  case 0
  then show ?case
    by (auto simp: same_config_def)
next
  case (Suc n)
  from Suc.prems(4) show ?case
  proof (cases rule: pool_next_valid_ok [of st pool])
    case (none pool')
    with Suc.prems(2) show ?thesis
      by (auto simp: same_config_def)
  next
    case (found v)
    have "htonl v \<noteq> INADDR_ANY"
    proof
      assume "htonl v = INADDR_ANY"
      then have "v = htonl 0" by (metis htonl_htonl INADDR_ANY_def)
      then have "v = 0" by (simp add: htonl_def word_bytes_def upt_rec)
      with found(2) show False by (simp add: usable_def ip_skipped_def)
    qed
    moreover from Suc.prems(3) have "i < length (dhcp_ip_infos st)" by simp
    note step = growing_step [OF Suc.prems(1,2) this found(1-3), of "rtos_seconds api w"]
    have "ntohl (dhcpd_ip_pool_end (pool_add api (rtos_seconds api w) i (htonl v) st)) < 0xFFFFFFFF"
      using Suc.prems(4) by (simp add: pool_add_def set_client_def)
    from Suc.IH [OF Suc.prems(1) step(1) _ this] Suc.prems(3) step(3)
    obtain st' j pool' where "pool_init_loop api w (Suc i) n (htonl (v + 1))
          (pool_add api (rtos_seconds api w) i (htonl v) st) = Some st'"
        "growing j pool' st'"
        "same_config (pool_add api (rtos_seconds api w) i (htonl v) st) st'"
        "length (dhcp_ip_infos st') = length (dhcp_ip_infos st)"
      by (simp del: pool_init_loop.simps) blast
    with step(2) found(4) calculation show ?thesis
      by (auto intro: same_config_trans)
  qed
qed

lemma growing_pool_ok:
  assumes "growing i pool st"
  shows "pool_ok st"
proof -
  have z: "htonl 0 = 0"
    by (simp add: htonl_def word_bytes_def upt_rec)
  have o: "htonl 0xFFFFFFFF = 0xFFFFFFFF"
    by (simp add: htonl_def word_bytes_def upt_rec)
  have "ip_addr (client_at st k) \<noteq> INADDR_ANY \<and> ip_addr (client_at st k) \<noteq> INADDR_BROADCAST"
    if "k < i" for k
    using assms that z o
    by (auto simp: growing_def usable_def ip_skipped_def INADDR_ANY_def INADDR_BROADCAST_def)
  with assms show ?thesis
    by (auto simp: growing_def pool_ok_def mac_unique_def)
qed

lemma pool_init_creates:
  assumes "freertos_lists_ok api" and "ntohl (dhcpd_ip_pool_end st) < 0xFFFFFFFF"
  shows "\<exists>st'. dhcpd_ip_pool_init api w st = Some st' \<and> pool_ok st' \<and>
    (\<forall>i\<in>members st'. usable st (ntohl (ip_addr (client_at st' i))) \<and>
       ip_state (client_at st' i) = DHCP_IP_STATE_AVAILABLE \<and> ip_mac (client_at st' i) = 0)"
proof -
  let ?n = "unat (ntohl (dhcpd_ip_pool_end st) - ntohl (dhcpd_ip_pool_start st))"
  let ?st = "st\<lparr>dhcp_ip_infos := replicate ?n \<lparr>ip_addr = 0, ip_state = 0, ip_mac = 0\<rparr>,
               dhcp_ip_pool := []\<rparr>"
  have "growing 0 (dhcpd_ip_pool_start st) ?st"
    by (simp add: growing_def members_def client_at_def dhcp_ip_states)
  from pool_init_loop_ok [OF assms(1) this, of ?n w] assms(2)
  obtain st' j pool' where st': "dhcpd_ip_pool_init api w st = Some st'" "growing j pool' st'"
      "same_config ?st st'" "length (dhcp_ip_infos st') = ?n"
    by (auto simp: dhcpd_ip_pool_init_def Let_def)
  have "same_config st st'"
    using st'(3) by (simp add: same_config_def)
  from usable_same_config [OF this] st' growing_pool_ok [OF st'(2)] show ?thesis
    by (auto simp: growing_def)
qed

text \<open>
  Creating the pool ends when the range ends below 255.255.255.255, and gives a consistent
  pool of free addresses of the configured range, none of which is a network or broadcast
  address by its last octet, the server, the gateway or a name server.
\<close>

theorem dhcpd_ip_pool_init_ok:
  assumes "freertos_lists_ok api" and "ntohl (dhcpd_ip_pool_end st) < 0xFFFFFFFF"
  shows "\<exists>st'. dhcpd_ip_pool_init api w st = Some st' \<and> pool_ok st' \<and>
    (\<forall>i\<in>members st'. usable st (ntohl (ip_addr (client_at st' i))) \<and>
       ip_state (client_at st' i) = DHCP_IP_STATE_AVAILABLE \<and> ip_mac (client_at st' i) = 0)"
  using assms by (rule pool_init_creates)

text \<open>
  The number of turns is the distance of the two ends, not the number of addresses: a range
  of one address, which \<open>dhcpd_start\<close> accepts, gives an empty pool.
\<close>

lemma dhcpd_ip_pool_init_single:
  "dhcpd_ip_pool_start st = dhcpd_ip_pool_end st \<Longrightarrow>
     dhcpd_ip_pool_init api w st = Some (st\<lparr>dhcp_ip_infos := [], dhcp_ip_pool := []\<rparr>)"
  by (simp add: dhcpd_ip_pool_init_def)

theorem dhcpd_ip_pool_init_ok_witness:
  "\<exists>st'. dhcpd_ip_pool_init quiet_api ()
       (two_pool\<lparr>dhcpd_ip_pool_start := htonl 0x0A000002, dhcpd_ip_pool_end := htonl 0x0A00000A\<rparr>)
     = Some st' \<and> pool_ok st'"
  using dhcpd_ip_pool_init_ok [OF quiet_api_ok, of "two_pool\<lparr>dhcpd_ip_pool_start
      := htonl 0x0A000002, dhcpd_ip_pool_end := htonl 0x0A00000A\<rparr>" "()"]
  by auto

end
