(* ===== verification/Dhcp_Server.thy ===== *)
theory Dhcp_Server
  imports Dhcp_Options Dhcp_Upkeep
begin

text \<open>
  The message handling of the DHCP server (modules/sw_services/dhcpd/FreeRTOS/dhcpd.c):
  reading a request's options, finding out the state the client is in, the action on the
  pool and the reply, then the task's receive loop and its start.
\<close>

section \<open>Messages\<close>

text \<open>\<open>dhcp_message_t\<close> (\<open>boot_file\<close> is its field \<open>file\<close>); the fields are kept in network order, as the code keeps them.\<close>

record dhcp_message =
  op :: byte
  htype :: byte
  hlen :: byte
  hops :: byte
  xid :: u32
  secs :: u16
  flags :: u16
  ciaddr :: u32
  yiaddr :: u32
  siaddr :: u32
  giaddr :: u32
  chaddr :: "48 word"
  padding :: "byte list"
  sname :: "byte list"
  boot_file :: "byte list"
  magic_cookie :: u32
  options :: "byte list"

definition DHCP_MESSAGE_SIZE :: int where "DHCP_MESSAGE_SIZE = 548"
definition DHCP_REQUEST_MIN_LENGTH :: int where
  "DHCP_REQUEST_MIN_LENGTH = DHCP_MESSAGE_SIZE - int DHCP_OPTIONS_LENGTH + 3 + 1"
definition BOOTREQUEST :: byte where "BOOTREQUEST = 1"
definition BOOTREPLY :: byte where "BOOTREPLY = 2"
definition ipMAC_ADDRESS_LENGTH_BYTES :: byte where "ipMAC_ADDRESS_LENGTH_BYTES = 6"
definition DHCP_MAGIC_COOKIE :: u32 where "DHCP_MAGIC_COOKIE = bytes_word [99, 130, 83, 99]"

definition htons :: "u16 \<Rightarrow> u16" where
  "htons x = bytes_word (rev (word_bytes 2 x))"

text \<open>What the option loop of \<open>dhcpd_handle_op_request\<close> gathers.\<close>

record request_info =
  dhcp_msg_type :: nat
  ip_requested :: bool
  server_identified :: bool
  server_identifier :: u32
  requested_ip :: u32
  requested_params :: "byte list"

definition default_params :: "byte list" where
  "default_params =
     [DHCP_OPTION_SUBNET_MASK, DHCP_OPTION_ROUTER, DHCP_OPTION_DOMAIN_NAME_SERVER,
      DHCP_OPTION_INTERFACE_MTU, DHCP_OPTION_BROADCAST_ADDRESS,
      DHCP_OPTION_IP_ADDRESS_LEASE_TIME, DHCP_OPTION_RENEWAL_TIME_VALUE,
      DHCP_OPTION_REBINDING_TIME_VALUE]"

definition no_info :: request_info where
  "no_info = \<lparr>dhcp_msg_type = 0, ip_requested = False, server_identified = False,
     server_identifier = INADDR_ANY, requested_ip = INADDR_ANY,
     requested_params = default_params\<rparr>"

definition option_bytes :: "nat \<Rightarrow> byte list option \<Rightarrow> byte list" where
  "option_bytes n data = take n (case data of None \<Rightarrow> [] | Some d \<Rightarrow> d)"

definition option_step ::
  "request_info \<Rightarrow> byte \<Rightarrow> nat \<Rightarrow> byte list option \<Rightarrow> request_info" where
  "option_step r opt opt_len opt_data =
     (if opt = DHCP_OPTION_DHCP_MESSAGE_TYPE then
        (if opt_len = 1
         then r\<lparr>dhcp_msg_type := unat (bytes_word (option_bytes 1 opt_data) :: byte)\<rparr> else r)
      else if opt = DHCP_OPTION_REQUESTED_IP_ADDRESS then
        (if opt_len = 4
         then r\<lparr>ip_requested := True, requested_ip := bytes_word (option_bytes 4 opt_data)\<rparr>
         else r)
      else if opt = DHCP_OPTION_SERVER_IDENTIFIER then
        (if opt_len = 4
         then r\<lparr>server_identified := True,
                server_identifier := bytes_word (option_bytes 4 opt_data)\<rparr>
         else r)
      else if opt = DHCP_OPTION_PARAMETER_REQ_LIST then
        r\<lparr>requested_params := option_bytes opt_len opt_data\<rparr>
      else r)"

section \<open>The state of the client\<close>

datatype client_state =
    DHCP_CLIENT_STATE_NONE
  | DHCP_CLIENT_STATE_DISCOVER
  | DHCP_CLIENT_STATE_SELECTING
  | DHCP_CLIENT_STATE_INIT_REBOOT
  | DHCP_CLIENT_STATE_RENEWING
  | DHCP_CLIENT_STATE_REBINDING
  | DHCP_CLIENT_STATE_INFORMING
  | DHCP_CLIENT_STATE_RELEASING
  | DHCP_CLIENT_STATE_DECLINING
  | DHCP_CLIENT_STATE_PINGING

text \<open>
  The first switch of the handler: the state, the requested address, the entry looked up for
  a release or a decline, and the message (a decline clears \<open>ciaddr\<close>).
\<close>

definition classify_request ::
  "dhcpd \<Rightarrow> dhcp_message \<Rightarrow> request_info
     \<Rightarrow> client_state \<times> u32 \<times> nat option \<times> dhcp_message" where
  "classify_request st m r =
     (let ty = dhcp_msg_type r; ipr = ip_requested r; sid = server_identified r;
          req = requested_ip r
      in if ty = DHCP_DISCOVER then (DHCP_CLIENT_STATE_DISCOVER, req, None, m)
         else if ty = DHCP_REQUEST then
           (if ipr \<and> sid \<and> ciaddr m = 0 then
              if server_identifier r = dhcpd_server_ip st
              then (DHCP_CLIENT_STATE_SELECTING, req, None, m)
              else (DHCP_CLIENT_STATE_RELEASING, req, dhcp_client_lookup_by_mac (chaddr m) st, m)
            else if ipr \<and> \<not> sid \<and> ciaddr m = 0 then
              (DHCP_CLIENT_STATE_INIT_REBOOT, req, None, m)
            else if \<not> ipr \<and> \<not> sid \<and> ciaddr m \<noteq> 0 then
              (DHCP_CLIENT_STATE_RENEWING, ciaddr m, None, m)
            else if ipr \<and> \<not> sid \<and> ciaddr m \<noteq> 0 then
              (DHCP_CLIENT_STATE_PINGING, req, None, m)
            else (DHCP_CLIENT_STATE_NONE, req, None, m))
         else if ty = DHCP_INFORM then
           (if \<not> ipr \<and> \<not> sid \<and> ciaddr m \<noteq> 0
            then (DHCP_CLIENT_STATE_INFORMING, ciaddr m, None, m)
            else (DHCP_CLIENT_STATE_NONE, req, None, m))
         else if ty = DHCP_DECLINE then
           (if ipr \<and> sid
            then (DHCP_CLIENT_STATE_DECLINING, req, dhcp_client_lookup_by_ip req st,
                  m\<lparr>ciaddr := 0\<rparr>)
            else (DHCP_CLIENT_STATE_NONE, req, None, m))
         else if ty = DHCP_RELEASE then
           (if \<not> ipr \<and> sid \<and> ciaddr m \<noteq> 0
            then (DHCP_CLIENT_STATE_RELEASING, req, dhcp_client_lookup_by_ip (ciaddr m) st, m)
            else (DHCP_CLIENT_STATE_NONE, req, None, m))
         else (DHCP_CLIENT_STATE_NONE, req, None, m))"

definition release_or_decline ::
  "'w net_api \<Rightarrow> 'w \<Rightarrow> client_state \<Rightarrow> dhcp_message \<Rightarrow> nat option \<Rightarrow> dhcpd \<Rightarrow> dhcpd" where
  "release_or_decline api w state m dhcp_client st =
     (case dhcp_client of
        None \<Rightarrow> st
      | Some i \<Rightarrow>
          (let st1 = (if ciaddr m = 0 then set_mac i 0 st else st)
           in if state = DHCP_CLIENT_STATE_DECLINING
              then dhcp_client_update api w i DHCP_IP_STATE_UNAVAILABLE
                     DHCPD_UNAVAILABLE_IP_PROBE_INTERVAL st1
              else dhcp_client_update api w i DHCP_IP_STATE_AVAILABLE 0 st1))"

section \<open>Replies\<close>

text \<open>
  \<open>dhcpd_send_response\<close>: the destination address, the message, and how many bytes of its
  options are sent. \<open>mtu\<close> is the network stack's configured MTU.
\<close>

type_synonym response = "u32 \<times> dhcp_message \<times> nat"

definition dhcpd_send_response :: "dhcp_message \<Rightarrow> nat \<Rightarrow> response" where
  "dhcpd_send_response m options_length =
     (if ciaddr m \<noteq> 0 then ciaddr m else INADDR_BROADCAST, m, options_length)"

definition finish_options ::
  "byte list \<Rightarrow> (byte \<times> byte list) list \<Rightarrow> (byte list \<times> nat) res" where
  "finish_options opts kvs =
     rbind (dhcp_options_add opts None kvs) (\<lambda>(opts1, p).
       dhcp_option_add opts1 p DHCP_OPTION_END 0 0 [])"

definition ack_options ::
  "dhcpd \<Rightarrow> u16 \<Rightarrow> client_state \<Rightarrow> byte list \<Rightarrow> (byte \<times> byte list) list" where
  "ack_options st mtu state params =
     [(DHCP_OPTION_DHCP_MESSAGE_TYPE,
       [of_nat (if state = DHCP_CLIENT_STATE_DISCOVER then DHCP_OFFER else DHCP_ACK)]),
      (DHCP_OPTION_SERVER_IDENTIFIER, word_bytes 4 (dhcpd_server_ip st))]
     @ (if state \<noteq> DHCP_CLIENT_STATE_INFORMING
        then [(DHCP_OPTION_IP_ADDRESS_LEASE_TIME, word_bytes 4 (htonl DHCPD_LEASE_TIME))] else [])
     @ (if DHCP_OPTION_SUBNET_MASK \<in> set params
        then [(DHCP_OPTION_SUBNET_MASK, word_bytes 4 (dhcpd_netmask st))] else [])
     @ (if DHCP_OPTION_ROUTER \<in> set params
        then [(DHCP_OPTION_ROUTER, word_bytes 4 (dhcpd_gateway st))] else [])
     @ (if DHCP_OPTION_DOMAIN_NAME_SERVER \<in> set params
        then [(DHCP_OPTION_DOMAIN_NAME_SERVER,
               word_bytes 4 (dhcpd_dns0 st) @ word_bytes 4 (dhcpd_dns1 st))] else [])
     @ (if DHCP_OPTION_INTERFACE_MTU \<in> set params
        then [(DHCP_OPTION_INTERFACE_MTU, word_bytes 2 (htons mtu))] else [])
     @ (if DHCP_OPTION_BROADCAST_ADDRESS \<in> set params
        then [(DHCP_OPTION_BROADCAST_ADDRESS, word_bytes 4 INADDR_BROADCAST)] else [])
     @ (if DHCP_OPTION_RENEWAL_TIME_VALUE \<in> set params
        then [(DHCP_OPTION_RENEWAL_TIME_VALUE, word_bytes 4 (htonl 300))] else [])
     @ (if DHCP_OPTION_REBINDING_TIME_VALUE \<in> set params
        then [(DHCP_OPTION_REBINDING_TIME_VALUE, word_bytes 4 (htonl 525))] else [])"

definition nak_options :: "dhcpd \<Rightarrow> (byte \<times> byte list) list" where
  "nak_options st =
     [(DHCP_OPTION_DHCP_MESSAGE_TYPE, [of_nat DHCP_NAK]),
      (DHCP_OPTION_SERVER_IDENTIFIER, word_bytes 4 (dhcpd_server_ip st))]"

definition reply_header :: "dhcp_message \<Rightarrow> dhcp_message" where
  "reply_header m =
     m\<lparr>op := BOOTREPLY, htype := 1, hlen := ipMAC_ADDRESS_LENGTH_BYTES, hops := 0, secs := 0,
       siaddr := 0, sname := replicate 64 0, boot_file := replicate 128 0,
       magic_cookie := DHCP_MAGIC_COOKIE\<rparr>"

definition ack_message :: "client_state \<Rightarrow> dhcp_message \<Rightarrow> dhcp_message" where
  "ack_message state m =
     (let m1 = reply_header m
      in if state = DHCP_CLIENT_STATE_DISCOVER then m1\<lparr>ciaddr := 0\<rparr>
         else if state = DHCP_CLIENT_STATE_INFORMING then m1\<lparr>yiaddr := 0\<rparr> else m1)"

definition send_ack ::
  "dhcpd \<Rightarrow> u16 \<Rightarrow> client_state \<Rightarrow> byte list \<Rightarrow> dhcp_message \<Rightarrow> response res" where
  "send_ack st mtu state params m =
     (let m2 = ack_message state m
      in rbind (finish_options (options m2) (ack_options st mtu state params))
           (\<lambda>(opts, len). Inr (dhcpd_send_response (m2\<lparr>options := opts\<rparr>) len)))"

definition send_nak :: "dhcpd \<Rightarrow> dhcp_message \<Rightarrow> response res" where
  "send_nak st m =
     (let m2 = (reply_header m)\<lparr>ciaddr := 0, yiaddr := 0\<rparr>
      in rbind (finish_options (options m2) (nak_options st))
           (\<lambda>(opts, len). Inr (dhcpd_send_response (m2\<lparr>options := opts\<rparr>) len)))"

section \<open>The handler\<close>

definition reply_to_request ::
  "'w net_api \<Rightarrow> u16 \<Rightarrow> client_state \<Rightarrow> byte list \<Rightarrow> dhcp_message \<Rightarrow> dhcpd \<Rightarrow> 'w
     \<Rightarrow> (response option \<times> dhcpd \<times> 'w) res" where
  "reply_to_request api mtu state params m st w =
     (if yiaddr m \<noteq> INADDR_ANY \<and> yiaddr m \<noteq> INADDR_BROADCAST then
        rbind (send_ack st mtu state params m) (\<lambda>r. Inr (Some r, st, w))
      else if yiaddr m = INADDR_BROADCAST then
        (let st1 = (case dhcp_client_lookup_by_mac (chaddr m) st of
                      None \<Rightarrow> st
                    | Some i \<Rightarrow> dhcp_client_update api w i DHCP_IP_STATE_AVAILABLE 0 st)
         in rbind (send_nak st1 m) (\<lambda>r. Inr (Some r, st1, w)))
      else Inr (None, st, w))"

definition dhcpd_handle_op_request ::
  "'w net_api \<Rightarrow> u16 \<Rightarrow> dhcp_message \<Rightarrow> nat \<Rightarrow> dhcpd \<Rightarrow> 'w
     \<Rightarrow> (response option \<times> dhcpd \<times> 'w) res" where
  "dhcpd_handle_op_request api mtu m options_length st w =
     rbind (scan_options option_step (options m) options_length None no_info) (\<lambda>r.
     let (state, req, dhcp_client, m1) = classify_request st m r
     in case state of
          DHCP_CLIENT_STATE_DECLINING \<Rightarrow>
            Inr (None, release_or_decline api w state m1 dhcp_client st, w)
        | DHCP_CLIENT_STATE_RELEASING \<Rightarrow>
            Inr (None, release_or_decline api w state m1 dhcp_client st, w)
        | DHCP_CLIENT_STATE_NONE \<Rightarrow> Inr (None, st, w)
        | DHCP_CLIENT_STATE_PINGING \<Rightarrow>
            reply_to_request api mtu state (requested_params r) (m1\<lparr>yiaddr := req\<rparr>) st w
        | _ \<Rightarrow>
            (let (ip, st1, w1) =
                   dhcpd_client_ip_address_lease api (chaddr m1) req (dhcp_msg_type r) st w
             in reply_to_request api mtu state (requested_params r) (m1\<lparr>yiaddr := ip\<rparr>) st1 w1))"

section \<open>The options of a reply\<close>

lemma dhcp_options_add_None:
  "kvs \<noteq> [] \<Longrightarrow> dhcp_options_add opts None kvs = dhcp_options_add opts (Some 0) kvs"
  by (cases kvs) (auto simp: dhcp_option_add_def)

lemma finish_options_ok:
  assumes "kvs \<noteq> []" and "\<forall>kv\<in>set kvs. option_ok kv"
    and "length (encode_options kvs) < length opts"
  shows "\<exists>opts'. finish_options opts kvs = Inr (opts', length (encode_options kvs) + 1)
    \<and> scan_options collect opts' (length (encode_options kvs) + 1) None [] = Inr kvs"
  using dhcp_options_read_back [OF assms(2,3)]
  by (auto simp: finish_options_def dhcp_options_add_None [OF assms(1)])

lemma option_ok_append_if:
  "\<forall>kv\<in>set xs. option_ok kv \<Longrightarrow> option_ok kv' \<Longrightarrow>
     \<forall>kv\<in>set (xs @ (if b then [kv'] else [])). option_ok kv"
  by auto

lemma ack_options_ok: "\<forall>kv\<in>set (ack_options st mtu state params). option_ok kv"
  unfolding ack_options_def append_assoc [symmetric]
  by (intro option_ok_append_if) (simp_all add: option_ok_def dhcp_option_codes)

lemma nak_options_ok: "\<forall>kv\<in>set (nak_options st). option_ok kv"
  by (simp add: nak_options_def option_ok_def dhcp_option_codes)

lemma encode_options_append [simp]:
  "encode_options (xs @ ys) = encode_options xs @ encode_options ys"
  by (simp add: encode_options_def)

lemma length_encode_if [simp]:
  "length (encode_options (if b then [(c, d)] else [])) = (if b then 2 + length d else 0)"
  by simp

lemma ack_options_length: "length (encode_options (ack_options st mtu state params)) \<le> 59"
  by (simp add: ack_options_def del: if_split)

lemma nak_options_length: "length (encode_options (nak_options st)) = 9"
  by (simp add: nak_options_def)

text \<open>The facts about a reply that its receiver relies on.\<close>

definition reply_ok :: "dhcpd \<Rightarrow> dhcp_message \<Rightarrow> nat \<Rightarrow> response \<Rightarrow> bool" where
  "reply_ok st m t r \<longleftrightarrow>
     (case r of (dest, m', n) \<Rightarrow>
        op m' = BOOTREPLY \<and> xid m' = xid m \<and> chaddr m' = chaddr m \<and> n \<le> 60 \<and>
        dest = (if ciaddr m' \<noteq> 0 then ciaddr m' else INADDR_BROADCAST) \<and>
        (\<exists>kvs. scan_options collect (options m') n None []
          = Inr ((DHCP_OPTION_DHCP_MESSAGE_TYPE, [of_nat t])
             # (DHCP_OPTION_SERVER_IDENTIFIER, word_bytes 4 (dhcpd_server_ip st)) # kvs)))"

lemma ack_message_fields:
  "op (ack_message state m) = BOOTREPLY" "xid (ack_message state m) = xid m"
  "chaddr (ack_message state m) = chaddr m" "options (ack_message state m) = options m"
  "state \<noteq> DHCP_CLIENT_STATE_INFORMING \<Longrightarrow> yiaddr (ack_message state m) = yiaddr m"
  by (simp_all add: ack_message_def reply_header_def Let_def)

abbreviation ack_type :: "client_state \<Rightarrow> nat" where
  "ack_type state \<equiv> (if state = DHCP_CLIENT_STATE_DISCOVER then DHCP_OFFER else DHCP_ACK)"

lemma send_ack_ok:
  assumes "length (options m) = DHCP_OPTIONS_LENGTH"
  shows "\<exists>r. send_ack st mtu state params m = Inr r \<and> reply_ok st m (ack_type state) r \<and>
    (state \<noteq> DHCP_CLIENT_STATE_INFORMING \<longrightarrow> yiaddr (fst (snd r)) = yiaddr m)"
proof -
  let ?kvs = "ack_options st mtu state params"
  have ne: "?kvs \<noteq> []"
    by (simp add: ack_options_def)
  have "length (encode_options ?kvs) < length (options m)"
    using ack_options_length [of st mtu state params] assms by (simp add: DHCP_OPTIONS_LENGTH_def)
  from finish_options_ok [OF ne ack_options_ok this] obtain opts' where
    f: "finish_options (options m) ?kvs = Inr (opts', length (encode_options ?kvs) + 1)"
      "scan_options collect opts' (length (encode_options ?kvs) + 1) None [] = Inr ?kvs"
    by blast
  define r where "r = dhcpd_send_response ((ack_message state m)\<lparr>options := opts'\<rparr>)
    (length (encode_options ?kvs) + 1)"
  have "send_ack st mtu state params m = Inr r"
    by (simp add: send_ack_def ack_message_fields f(1) r_def Let_def)
  moreover have "reply_ok st m (ack_type state) r"
    using f(2) ack_options_length [of st mtu state params]
    unfolding reply_ok_def r_def dhcpd_send_response_def
    by (simp add: ack_message_fields) (simp add: ack_options_def)
  ultimately show ?thesis
    by (auto simp: r_def dhcpd_send_response_def ack_message_fields)
qed

lemma send_nak_ok:
  assumes "length (options m) = DHCP_OPTIONS_LENGTH"
  shows "\<exists>r. send_nak st m = Inr r \<and> reply_ok st m DHCP_NAK r \<and> yiaddr (fst (snd r)) = 0"
proof -
  have ne: "nak_options st \<noteq> []"
    by (simp add: nak_options_def)
  have "length (encode_options (nak_options st)) < length (options m)"
    using assms by (simp add: nak_options_length DHCP_OPTIONS_LENGTH_def)
  from finish_options_ok [OF ne nak_options_ok this] obtain opts' where
    "finish_options (options m) (nak_options st) = Inr (opts', 10)"
      "scan_options collect opts' 10 None [] = Inr (nak_options st)"
    by (auto simp: nak_options_length)
  then show ?thesis
    by (simp add: send_nak_def reply_ok_def reply_header_def dhcpd_send_response_def
        nak_options_def Let_def)
qed

section \<open>What a request does\<close>

lemma classify_request_options: "classify_request st m r = (state, req, c, m1) \<Longrightarrow>
    options m1 = options m \<and> chaddr m1 = chaddr m \<and> xid m1 = xid m"
  by (auto simp: classify_request_def Let_def split: if_splits)

lemma classify_request_client:
  assumes "classify_request st m r = (state, req, Some i, m1)" and "pool_ok st"
  shows "i \<in> members st"
  using assms lookup_member(1)
  by (fastforce simp: classify_request_def Let_def dhcp_client_lookup_by_mac_def
      dhcp_client_lookup_by_ip_def split: if_splits)

lemma classify_request_type:
  "classify_request st m r = (state, req, c, m1) \<Longrightarrow>
     (state = DHCP_CLIENT_STATE_DISCOVER \<longleftrightarrow> dhcp_msg_type r = DHCP_DISCOVER) \<and>
     (state \<in> {DHCP_CLIENT_STATE_SELECTING, DHCP_CLIENT_STATE_INIT_REBOOT,
        DHCP_CLIENT_STATE_RENEWING, DHCP_CLIENT_STATE_PINGING}
        \<longrightarrow> dhcp_msg_type r = DHCP_REQUEST) \<and>
     (state = DHCP_CLIENT_STATE_INFORMING \<longrightarrow> dhcp_msg_type r = DHCP_INFORM) \<and>
     state \<noteq> DHCP_CLIENT_STATE_REBINDING"
  by (auto simp: classify_request_def Let_def dhcp_msg_types split: if_splits)

lemma release_or_decline_ok:
  assumes "freertos_lists_ok api" and "pool_ok st"
    and "\<And>i. c = Some i \<Longrightarrow> i \<in> members st"
  shows "pool_ok (release_or_decline api w state m c st)"
proof (cases c)
  case None
  with assms(2) show ?thesis by (simp add: release_or_decline_def)
next
  case (Some i)
  with assms(3) have mem: "i \<in> members st" by simp
  with assms(2) have len: "i < length (dhcp_ip_infos st)" by (simp add: pool_ok_def)
  have "pool_ok (dhcp_client_update api w i s e (set_mac i 0 st))" for s e
    by (rule pool_ok_changed [OF assms(2) changed_update_mac [OF assms(1) mem len]]) simp
  moreover have "pool_ok (dhcp_client_update api w i s e st)" for s e
    by (rule pool_ok_changed [OF assms(2) changed_update [OF assms(1) mem len]]) simp
  ultimately show ?thesis
    by (simp add: release_or_decline_def Some Let_def)
qed

lemma reply_to_request_cases:
  assumes "length (options m) = DHCP_OPTIONS_LENGTH"
  obtains (ack) r where "yiaddr m \<noteq> INADDR_ANY" "yiaddr m \<noteq> INADDR_BROADCAST"
      "reply_to_request api mtu state params m st w = Inr (Some r, st, w)"
      "reply_ok st m (ack_type state) r"
      "state \<noteq> DHCP_CLIENT_STATE_INFORMING \<longrightarrow> yiaddr (fst (snd r)) = yiaddr m"
    | (nak) r st1 where "yiaddr m = INADDR_BROADCAST"
      "reply_to_request api mtu state params m st w = Inr (Some r, st1, w)"
      "reply_ok st1 m DHCP_NAK r" "yiaddr (fst (snd r)) = 0"
      "freertos_lists_ok api \<Longrightarrow> pool_ok st \<Longrightarrow> pool_ok st1"
    | (silent) "yiaddr m = INADDR_ANY"
      "reply_to_request api mtu state params m st w = Inr (None, st, w)"
proof -
  consider "yiaddr m = INADDR_ANY" | "yiaddr m = INADDR_BROADCAST"
    | "yiaddr m \<noteq> INADDR_ANY" "yiaddr m \<noteq> INADDR_BROADCAST"
    by blast
  then show thesis
  proof cases
    case 1
    then show thesis
      by (intro silent) (simp_all add: reply_to_request_def INADDR_ANY_def INADDR_BROADCAST_def)
  next
    case 2
    define st1 where "st1 = (case dhcp_client_lookup_by_mac (chaddr m) st of
        None \<Rightarrow> st | Some i \<Rightarrow> dhcp_client_update api w i DHCP_IP_STATE_AVAILABLE 0 st)"
    obtain r where "send_nak st1 m = Inr r" "reply_ok st1 m DHCP_NAK r"
      "yiaddr (fst (snd r)) = 0"
      using send_nak_ok [OF assms] by blast
    moreover have "pool_ok st1" if "freertos_lists_ok api" "pool_ok st"
      using that keep_ok(1) [OF that]
        lookup_member [of "\<lambda>c. ip_mac c = chaddr m" st, folded dhcp_client_lookup_by_mac_def]
      by (auto simp: st1_def split: option.split)
    ultimately show thesis
      using 2 by (intro nak [of r st1]) (simp_all add: reply_to_request_def st1_def Let_def)
  next
    case 3
    with send_ack_ok [OF assms, of st mtu state params] show thesis
      by (auto simp: reply_to_request_def intro!: ack)
  qed
qed

text \<open>The handler, case by case.\<close>

lemma dhcpd_handle_cases:
  assumes "length (options m) = DHCP_OPTIONS_LENGTH"
  obtains r state req c m1 where
    "scan_options option_step (options m) n None no_info = Inr r"
    "classify_request st m r = (state, req, c, m1)"
    "state \<in> {DHCP_CLIENT_STATE_DECLINING, DHCP_CLIENT_STATE_RELEASING} \<and>
       dhcpd_handle_op_request api mtu m n st w
         = Inr (None, release_or_decline api w state m1 c st, w)
     \<or> state = DHCP_CLIENT_STATE_NONE \<and>
       dhcpd_handle_op_request api mtu m n st w = Inr (None, st, w)
     \<or> state = DHCP_CLIENT_STATE_PINGING \<and>
       dhcpd_handle_op_request api mtu m n st w
         = reply_to_request api mtu state (requested_params r) (m1\<lparr>yiaddr := req\<rparr>) st w
     \<or> state \<in> {DHCP_CLIENT_STATE_DISCOVER, DHCP_CLIENT_STATE_SELECTING,
         DHCP_CLIENT_STATE_INIT_REBOOT, DHCP_CLIENT_STATE_RENEWING,
         DHCP_CLIENT_STATE_INFORMING} \<and>
       dhcpd_handle_op_request api mtu m n st w
         = (let (ip, st1, w1) =
                  dhcpd_client_ip_address_lease api (chaddr m1) req (dhcp_msg_type r) st w
            in reply_to_request api mtu state (requested_params r) (m1\<lparr>yiaddr := ip\<rparr>) st1 w1)"
proof -
  have "options m \<noteq> []"
    using assms by (auto simp: DHCP_OPTIONS_LENGTH_def)
  then obtain r where r: "scan_options option_step (options m) n None no_info = Inr r"
    using scan_options_total [of "options m" option_step n no_info] by auto
  obtain state req c m1 where cl: "classify_request st m r = (state, req, c, m1)"
    by (cases "classify_request st m r")
  from classify_request_type [OF cl] have "state \<noteq> DHCP_CLIENT_STATE_REBINDING" by simp
  then show thesis
    by (intro that [OF r cl], simp only: dhcpd_handle_op_request_def r cl rbind_Inr prod.case)
      (cases state; simp)
qed

lemma reply_ok_message:
  "xid m1 = xid m \<Longrightarrow> chaddr m1 = chaddr m \<Longrightarrow> reply_ok st m1 t r = reply_ok st m t r"
  by (simp add: reply_ok_def)

text \<open>
  C8. Handling a BOOTREQUEST never fails an assertion and never reads outside the message,
  for any 308 bytes of options, any options length and any state of the pool: the replies
  always fit the option field.
\<close>

theorem dhcpd_handler_total:
  assumes "length (options m) = DHCP_OPTIONS_LENGTH"
  shows "\<exists>response st' w'. dhcpd_handle_op_request api mtu m n st w = Inr (response, st', w')"
proof (rule dhcpd_handle_cases [OF assms, of n st api mtu w])
  fix r state req c m1
  assume cl: "classify_request st m r = (state, req, c, m1)"
    and h: "state \<in> {DHCP_CLIENT_STATE_DECLINING, DHCP_CLIENT_STATE_RELEASING} \<and>
       dhcpd_handle_op_request api mtu m n st w
         = Inr (None, release_or_decline api w state m1 c st, w)
     \<or> state = DHCP_CLIENT_STATE_NONE \<and>
       dhcpd_handle_op_request api mtu m n st w = Inr (None, st, w)
     \<or> state = DHCP_CLIENT_STATE_PINGING \<and>
       dhcpd_handle_op_request api mtu m n st w
         = reply_to_request api mtu state (requested_params r) (m1\<lparr>yiaddr := req\<rparr>) st w
     \<or> state \<in> {DHCP_CLIENT_STATE_DISCOVER, DHCP_CLIENT_STATE_SELECTING,
         DHCP_CLIENT_STATE_INIT_REBOOT, DHCP_CLIENT_STATE_RENEWING,
         DHCP_CLIENT_STATE_INFORMING} \<and>
       dhcpd_handle_op_request api mtu m n st w
         = (let (ip, st1, w1) =
                  dhcpd_client_ip_address_lease api (chaddr m1) req (dhcp_msg_type r) st w
            in reply_to_request api mtu state (requested_params r) (m1\<lparr>yiaddr := ip\<rparr>) st1 w1)"
  have "\<exists>x. reply_to_request api mtu state ps (m1\<lparr>yiaddr := ip\<rparr>) st1 w1 = Inr x"
    for ps ip st1 w1
  proof -
    have "length (options (m1\<lparr>yiaddr := ip\<rparr>)) = DHCP_OPTIONS_LENGTH"
      using assms classify_request_options [OF cl] by simp
    then show ?thesis
      by (cases rule: reply_to_request_cases [of _ api mtu state ps st1 w1]) auto
  qed
  with h show ?thesis
    by (auto split: prod.splits)
qed

text \<open>
  The rest of the handler's properties follow from one statement on a run of it: what it
  leaves of the pool and, when it replies, what the reply says and what it recorded.
\<close>

definition grants :: "client_state \<Rightarrow> bool" where
  "grants state \<longleftrightarrow> state \<in> {DHCP_CLIENT_STATE_DISCOVER, DHCP_CLIENT_STATE_SELECTING,
     DHCP_CLIENT_STATE_INIT_REBOOT, DHCP_CLIENT_STATE_RENEWING}"

definition reply_sound ::
  "client_state \<Rightarrow> dhcp_message \<Rightarrow> dhcpd \<Rightarrow> response \<Rightarrow> bool" where
  "reply_sound state m st' resp \<longleftrightarrow>
     (reply_ok st' m DHCP_NAK resp \<and> yiaddr (fst (snd resp)) = 0
      \<or> reply_ok st' m (ack_type state) resp \<and>
        (grants state \<longrightarrow>
           assigned (chaddr m)
             (if state = DHCP_CLIENT_STATE_DISCOVER then DHCP_IP_STATE_OFFERED
              else DHCP_IP_STATE_LEASED)
             (yiaddr (fst (snd resp))) st'))"

lemma lease_result_assigned:
  assumes "lease_result mac rt st (ip, st', w')" and "ip \<noteq> INADDR_ANY" and "ip \<noteq> INADDR_BROADCAST"
  shows "rt = DHCP_DISCOVER \<Longrightarrow> assigned mac DHCP_IP_STATE_OFFERED ip st'"
    and "rt = DHCP_REQUEST \<Longrightarrow> assigned mac DHCP_IP_STATE_LEASED ip st'"
  using assms by (auto simp: lease_result_def lease_post_def dhcp_msg_types)

lemma dhcpd_handle_sound:
  assumes "length (options m) = DHCP_OPTIONS_LENGTH" and "freertos_lists_ok api" and "pool_ok st"
    and "dhcpd_handle_op_request api mtu m n st w = Inr (resp, st', w')"
  shows "pool_ok st' \<and> (\<exists>r state req c m1.
    scan_options option_step (options m) n None no_info = Inr r \<and>
    classify_request st m r = (state, req, c, m1) \<and>
    (\<forall>rp. resp = Some rp \<longrightarrow> state \<notin> {DHCP_CLIENT_STATE_DECLINING,
        DHCP_CLIENT_STATE_RELEASING, DHCP_CLIENT_STATE_NONE} \<and> reply_sound state m st' rp))"
proof (rule dhcpd_handle_cases [OF assms(1), of n st api mtu w])
  fix r state req c m1
  assume r: "scan_options option_step (options m) n None no_info = Inr r"
    and cl: "classify_request st m r = (state, req, c, m1)"
    and h: "state \<in> {DHCP_CLIENT_STATE_DECLINING, DHCP_CLIENT_STATE_RELEASING} \<and>
       dhcpd_handle_op_request api mtu m n st w
         = Inr (None, release_or_decline api w state m1 c st, w)
     \<or> state = DHCP_CLIENT_STATE_NONE \<and>
       dhcpd_handle_op_request api mtu m n st w = Inr (None, st, w)
     \<or> state = DHCP_CLIENT_STATE_PINGING \<and>
       dhcpd_handle_op_request api mtu m n st w
         = reply_to_request api mtu state (requested_params r) (m1\<lparr>yiaddr := req\<rparr>) st w
     \<or> state \<in> {DHCP_CLIENT_STATE_DISCOVER, DHCP_CLIENT_STATE_SELECTING,
         DHCP_CLIENT_STATE_INIT_REBOOT, DHCP_CLIENT_STATE_RENEWING,
         DHCP_CLIENT_STATE_INFORMING} \<and>
       dhcpd_handle_op_request api mtu m n st w
         = (let (ip, st1, w1) =
                  dhcpd_client_ip_address_lease api (chaddr m1) req (dhcp_msg_type r) st w
            in reply_to_request api mtu state (requested_params r) (m1\<lparr>yiaddr := ip\<rparr>) st1 w1)"
  note same = classify_request_options [OF cl]
  have reply: "pool_ok st' \<and> (\<forall>rp. resp = Some rp \<longrightarrow> reply_sound state m st' rp)"
    if run: "reply_to_request api mtu state (requested_params r) (m1\<lparr>yiaddr := ip\<rparr>) st1 w1
        = Inr (resp, st', w')" and ok: "pool_ok st1"
      and as: "grants state \<Longrightarrow> ip \<noteq> INADDR_ANY \<Longrightarrow> ip \<noteq> INADDR_BROADCAST \<Longrightarrow>
        assigned (chaddr m) (if state = DHCP_CLIENT_STATE_DISCOVER then DHCP_IP_STATE_OFFERED
              else DHCP_IP_STATE_LEASED) ip st1" for ip st1 w1
  proof -
    have rok: "reply_ok s (m1\<lparr>yiaddr := i\<rparr>) t rp = reply_ok s m t rp" for s i t rp
      by (rule reply_ok_message) (simp_all add: same)
    have "length (options (m1\<lparr>yiaddr := ip\<rparr>)) = DHCP_OPTIONS_LENGTH"
      using assms(1) same by simp
    then show ?thesis
    proof (cases rule: reply_to_request_cases [of _ api mtu state "requested_params r" st1 w1])
      case (ack rp)
      have "state \<noteq> DHCP_CLIENT_STATE_INFORMING" if "grants state"
        using that by (auto simp: grants_def)
      with ack run ok as same show ?thesis
        by (auto simp: reply_sound_def rok)
    next
      case (nak rp st2)
      with run ok assms(2) same show ?thesis
        by (auto simp: reply_sound_def rok)
    next
      case silent
      with run ok show ?thesis by simp
    qed
  qed
  consider "state \<in> {DHCP_CLIENT_STATE_DECLINING, DHCP_CLIENT_STATE_RELEASING}"
    | "state = DHCP_CLIENT_STATE_NONE" | "state = DHCP_CLIENT_STATE_PINGING"
    | "state \<in> {DHCP_CLIENT_STATE_DISCOVER, DHCP_CLIENT_STATE_SELECTING,
         DHCP_CLIENT_STATE_INIT_REBOOT, DHCP_CLIENT_STATE_RENEWING,
         DHCP_CLIENT_STATE_INFORMING}"
    using h by blast
  then have "pool_ok st' \<and> (\<forall>rp. resp = Some rp \<longrightarrow> state \<notin> {DHCP_CLIENT_STATE_DECLINING,
        DHCP_CLIENT_STATE_RELEASING, DHCP_CLIENT_STATE_NONE} \<and> reply_sound state m st' rp)"
  proof cases
    case 1
    with h assms(4) have "st' = release_or_decline api w state m1 c st" "resp = None" by auto
    moreover have "pool_ok (release_or_decline api w state m1 c st)"
      using classify_request_client [of st m r state req _ m1] cl assms(3)
      by (intro release_or_decline_ok [OF assms(2,3)]) simp
    ultimately show ?thesis by simp
  next
    case 2
    with h assms(3,4) show ?thesis by auto
  next
    case 3
    with h assms(4) have "reply_to_request api mtu state (requested_params r)
        (m1\<lparr>yiaddr := req\<rparr>) st w = Inr (resp, st', w')" by auto
    from reply [OF this assms(3)] 3 show ?thesis
      by (auto simp: grants_def)
  next
    case 4
    obtain ip st1 w1 where l: "dhcpd_client_ip_address_lease api (chaddr m1) req
        (dhcp_msg_type r) st w = (ip, st1, w1)"
      by (metis prod_cases3)
    from dhcpd_lease_ok [OF assms(2,3), of "chaddr m1" "dhcp_msg_type r" req w] l
    have res: "lease_result (chaddr m) (dhcp_msg_type r) st (ip, st1, w1)"
      using same by simp
    then have "pool_ok st1" by (auto simp: lease_result_def lease_post_def)
    moreover from 4 h l assms(4) have "reply_to_request api mtu state (requested_params r)
        (m1\<lparr>yiaddr := ip\<rparr>) st1 w1 = Inr (resp, st', w')" by auto
    moreover have "assigned (chaddr m)
        (if state = DHCP_CLIENT_STATE_DISCOVER then DHCP_IP_STATE_OFFERED
         else DHCP_IP_STATE_LEASED) ip st1"
      if "grants state" "ip \<noteq> INADDR_ANY" "ip \<noteq> INADDR_BROADCAST"
      using lease_result_assigned [OF res that(2,3)] classify_request_type [OF cl] that(1)
      by (auto simp: grants_def)
    ultimately show ?thesis
      using reply 4 by auto
  qed
  with r cl show ?thesis by blast
qed

text \<open>
  Handling any request, releases and declines included, keeps the pool consistent.
\<close>

theorem dhcpd_handler_preserves_pool:
  assumes "length (options m) = DHCP_OPTIONS_LENGTH" and "freertos_lists_ok api" and "pool_ok st"
    and "dhcpd_handle_op_request api mtu m n st w = Inr (resp, st', w')"
  shows "pool_ok st'"
  using dhcpd_handle_sound [OF assms] by blast

text \<open>
  C4. A reply of the DHCP server is a BOOTREPLY for the same transaction and client whose
  options, read back by the option reader, start with the message type and the server
  identifier. It is a NAK without an address, or an OFFER for a DISCOVER and an ACK
  otherwise; and when the client is selecting, rebooting, renewing or discovering, the
  address in it is recorded in the pool as offered or leased to that client.
\<close>

theorem dhcpd_reply_sound:
  assumes "length (options m) = DHCP_OPTIONS_LENGTH" and "freertos_lists_ok api" and "pool_ok st"
    and "dhcpd_handle_op_request api mtu m n st w = Inr (Some (dest, m', len), st', w')"
  shows "\<exists>r state req c m1 t kvs.
    scan_options option_step (options m) n None no_info = Inr r \<and>
    classify_request st m r = (state, req, c, m1) \<and>
    scan_options collect (options m') len None []
      = Inr ((DHCP_OPTION_DHCP_MESSAGE_TYPE, [of_nat t])
             # (DHCP_OPTION_SERVER_IDENTIFIER, word_bytes 4 (dhcpd_server_ip st')) # kvs) \<and>
    op m' = BOOTREPLY \<and> xid m' = xid m \<and> chaddr m' = chaddr m \<and>
    (t = DHCP_NAK \<and> yiaddr m' = 0 \<or>
     t = (if dhcp_msg_type r = DHCP_DISCOVER then DHCP_OFFER else DHCP_ACK) \<and>
     (grants state \<longrightarrow> assigned (chaddr m)
        (if dhcp_msg_type r = DHCP_DISCOVER then DHCP_IP_STATE_OFFERED else DHCP_IP_STATE_LEASED)
        (yiaddr m') st'))"
proof -
  obtain r state req c m1 where
    r: "scan_options option_step (options m) n None no_info = Inr r" and
    cl: "classify_request st m r = (state, req, c, m1)" and
    snd: "reply_sound state m st' (dest, m', len)"
    using dhcpd_handle_sound [OF assms] by blast
  have ty: "state = DHCP_CLIENT_STATE_DISCOVER \<longleftrightarrow> dhcp_msg_type r = DHCP_DISCOVER"
    using classify_request_type [OF cl] by simp
  from snd obtain t where t: "reply_ok st' m t (dest, m', len)"
      "t = DHCP_NAK \<and> yiaddr m' = 0 \<or>
     t = (if dhcp_msg_type r = DHCP_DISCOVER then DHCP_OFFER else DHCP_ACK) \<and>
     (grants state \<longrightarrow> assigned (chaddr m)
        (if dhcp_msg_type r = DHCP_DISCOVER then DHCP_IP_STATE_OFFERED else DHCP_IP_STATE_LEASED)
        (yiaddr m') st')"
    unfolding reply_sound_def ty by (auto split: if_splits)
  from t(1) obtain kvs where "scan_options collect (options m') len None []
      = Inr ((DHCP_OPTION_DHCP_MESSAGE_TYPE, [of_nat t])
             # (DHCP_OPTION_SERVER_IDENTIFIER, word_bytes 4 (dhcpd_server_ip st')) # kvs)"
    by (auto simp: reply_ok_def)
  moreover from t(1) have "op m' = BOOTREPLY \<and> xid m' = xid m \<and> chaddr m' = chaddr m"
    by (simp add: reply_ok_def)
  ultimately show ?thesis
    using r cl t(2) by blast
qed

section \<open>The task\<close>

text \<open>
  One turn of \<open>dhcpd_listen\<close>: \<open>ret\<close> and \<open>m\<close> are what recvfrom returns and leaves in the
  buffer, \<open>now\<close> the tick count. Stopping frees the array of entries; walking the pool after
  that reads freed memory. The length is an \<open>int\<close> that is compared with a \<open>size_t\<close>, and so converted to
  one (\<open>size_of_int\<close>).
\<close>

record dhcpd_task =
  dhcpd_socket :: int
  last_timeout :: u32
  infos_freed :: bool
  task_pool :: dhcpd

definition pdFREERTOS_ERRNO_EINTR :: int where "pdFREERTOS_ERRNO_EINTR = 4"

definition size_of_int :: "int \<Rightarrow> int" where "size_of_int n = n mod 2 ^ 32"

definition listen_receive ::
  "'w net_api \<Rightarrow> u16 \<Rightarrow> int \<Rightarrow> dhcp_message \<Rightarrow> dhcpd_task \<Rightarrow> 'w
     \<Rightarrow> (response option \<times> dhcpd_task \<times> 'w) res" where
  "listen_receive api mtu ret m t w =
     (if ret = - pdFREERTOS_ERRNO_EINTR then
        Inr (None, t\<lparr>infos_freed := True, dhcpd_socket := -1\<rparr>, w)
      else if size_of_int ret \<ge> DHCP_REQUEST_MIN_LENGTH \<and> op m = BOOTREQUEST then
        rbind (dhcpd_handle_op_request api mtu m
                 (nat (size_of_int (ret - (DHCP_MESSAGE_SIZE - int DHCP_OPTIONS_LENGTH)))) (task_pool t) w)
          (\<lambda>(resp, st', w'). Inr (resp, t\<lparr>task_pool := st'\<rparr>, w'))
      else Inr (None, t, w))"

definition listen_expire ::
  "'w net_api \<Rightarrow> u32 \<Rightarrow> u32 \<Rightarrow> dhcpd_task \<Rightarrow> 'w \<Rightarrow> (dhcpd_task \<times> 'w) res" where
  "listen_expire api recv_timeout now t w =
     (if now \<ge> last_timeout t + recv_timeout then
        if infos_freed t \<and> dhcp_ip_pool (task_pool t) \<noteq> [] then Inl Bad_access
        else rbind (dhcp_client_release_expired_leases api (task_pool t) w)
               (\<lambda>(st', w'). Inr (t\<lparr>last_timeout := now, task_pool := st'\<rparr>, w'))
      else Inr (t, w))"

definition dhcpd_listen_turn ::
  "'w net_api \<Rightarrow> u16 \<Rightarrow> u32 \<Rightarrow> int \<Rightarrow> dhcp_message \<Rightarrow> u32 \<Rightarrow> dhcpd_task \<Rightarrow> 'w
     \<Rightarrow> (response option \<times> dhcpd_task \<times> 'w) res" where
  "dhcpd_listen_turn api mtu recv_timeout ret m now t w =
     rbind (listen_receive api mtu ret m t w) (\<lambda>(resp, t1, w1).
     rbind (listen_expire api recv_timeout now t1 w1) (\<lambda>(t2, w2). Inr (resp, t2, w2)))"

text \<open>
  The task's life: any number of received datagrams, each with the tick count at which it is
  dealt with, while the socket is open.
\<close>

inductive listen_run ::
  "'w net_api \<Rightarrow> u16 \<Rightarrow> u32 \<Rightarrow> dhcpd_task \<Rightarrow> 'w \<Rightarrow> response option list \<Rightarrow> dhcpd_task \<Rightarrow> 'w \<Rightarrow> bool"
  for api mtu recv_timeout where
  listen_start: "listen_run api mtu recv_timeout t w [] t w"
| listen_turn: "listen_run api mtu recv_timeout t w rs t1 w1 \<Longrightarrow> dhcpd_socket t1 \<noteq> -1 \<Longrightarrow>
    length (options m) = DHCP_OPTIONS_LENGTH \<Longrightarrow>
    dhcpd_listen_turn api mtu recv_timeout ret m now t1 w1 = Inr (resp, t2, w2) \<Longrightarrow>
    listen_run api mtu recv_timeout t w (rs @ [resp]) t2 w2"

lemma listen_turn_ok:
  assumes "freertos_lists_ok api" and "\<And>w. rtos_seconds api w < 0xFFFFFFFF"
    and "length (options m) = DHCP_OPTIONS_LENGTH" and "pool_ok (task_pool t)"
    and "dhcpd_listen_turn api mtu recv_timeout ret m now t w = Inr (resp, t', w')"
  shows "pool_ok (task_pool t')"
proof -
  from assms(5) obtain r1 t1 w1 where
    a: "listen_receive api mtu ret m t w = Inr (r1, t1, w1)" and
    b: "listen_expire api recv_timeout now t1 w1 = Inr (t', w')"
    by (auto simp: dhcpd_listen_turn_def rbind_eq_Inr split: prod.splits)
  have t1: "pool_ok (task_pool t1)"
    using a assms(4) dhcpd_handle_sound [OF assms(3,1,4)]
    by (auto simp: listen_receive_def rbind_eq_Inr split: if_splits)
  from b t1 show ?thesis
    using release_loop_ok [OF assms(1) t1 assms(2)]
    by (auto simp: listen_expire_def dhcp_client_release_expired_leases_def rbind_eq_Inr
        split: if_splits)
qed

text \<open>
  C5. Whatever datagrams the DHCP server task receives, also when recvfrom fails and what is
  in the buffer is taken for a message, and whenever its expiry check runs without reading
  the pool after it was freed, at times below 2^32 - 1 seconds, the pool stays consistent:
  every address is in it once, none is the zero or the broadcast address, the list has no
  duplicates and no MAC address owns two addresses.
\<close>

theorem dhcpd_pool_always_ok:
  assumes "listen_run api mtu recv_timeout t w rs t' w'" and "freertos_lists_ok api"
    and "\<And>w. rtos_seconds api w < 0xFFFFFFFF" and "pool_ok (task_pool t)"
  shows "pool_ok (task_pool t')"
  using assms by (induction rule: listen_run.induct) (auto intro: listen_turn_ok)

text \<open>
  A negative length is a large one as a \<open>size_t\<close>: when recvfrom times out or fails, a request that
  is still in the buffer is handled again.
\<close>

lemma failed_receive_handles_buffer:
  assumes "- (2 ^ 31) \<le> ret" "ret < 0" "ret \<noteq> - pdFREERTOS_ERRNO_EINTR" "op m = BOOTREQUEST"
  shows "\<exists>n. listen_receive api mtu ret m t w =
    rbind (dhcpd_handle_op_request api mtu m n (task_pool t) w) (\<lambda>(resp, st', w'). Inr (resp, t\<lparr>task_pool := st'\<rparr>, w'))"
proof -
  have "size_of_int ret = ret + 2 ^ 32"
    unfolding size_of_int_def using assms(1,2) mod_add_self2[of ret "2 ^ 32"] mod_pos_pos_trivial[of "ret + 2 ^ 32" "2 ^ 32"]
    by simp
  then have "size_of_int ret \<ge> DHCP_REQUEST_MIN_LENGTH"
    using assms(1) by (simp add: DHCP_REQUEST_MIN_LENGTH_def DHCP_MESSAGE_SIZE_def DHCP_OPTIONS_LENGTH_def)
  with assms(3,4) show ?thesis by (auto simp: listen_receive_def)
qed

text \<open>
  When the stop signal arrives a refresh interval or more after the last expiry check, the
  task's turn reads the array of entries it has just freed.
\<close>

theorem dhcpd_stop_reads_freed_pool:
  assumes "dhcp_ip_pool (task_pool t) \<noteq> []" and "now \<ge> last_timeout t + recv_timeout"
  shows "dhcpd_listen_turn api mtu recv_timeout (- pdFREERTOS_ERRNO_EINTR) m now t w
    = Inl Bad_access"
  using assms by (simp add: dhcpd_listen_turn_def listen_receive_def listen_expire_def)

section \<open>Starting the server\<close>

text \<open>
  The configured addresses, checked before the pool is made; \<open>sock\<close> and \<open>bind_ret\<close> are the
  results of socket and bind. \<open>None\<close> is a start that does not return.
\<close>

record dhcpd_config =
  DHPCD_SERVER_IP :: u32
  DHPCD_IP_POOL_START :: u32
  DHPCD_IP_POOL_END :: u32
  DHPCD_NETMASK :: u32
  DHPCD_GATEWAY :: u32
  DHPCD_PRIMARY_DNS :: u32
  DHPCD_SECONDARY_DNS :: u32

definition configure :: "dhcpd_config \<Rightarrow> dhcpd \<Rightarrow> dhcpd" where
  "configure cfg st =
     st\<lparr>dhcpd_server_ip := DHPCD_SERVER_IP cfg, dhcpd_ip_pool_start := DHPCD_IP_POOL_START cfg,
        dhcpd_ip_pool_end := DHPCD_IP_POOL_END cfg, dhcpd_netmask := DHPCD_NETMASK cfg,
        dhcpd_gateway := DHPCD_GATEWAY cfg, dhcpd_dns0 := DHPCD_PRIMARY_DNS cfg,
        dhcpd_dns1 := DHPCD_SECONDARY_DNS cfg\<rparr>"

definition dhcpd_start ::
  "'w net_api \<Rightarrow> 'w \<Rightarrow> dhcpd_config \<Rightarrow> int \<Rightarrow> int \<Rightarrow> dhcpd_task \<Rightarrow> dhcpd_task res option" where
  "dhcpd_start api w cfg sock bind_ret t =
     (if dhcpd_socket t = -1 then
        let st = configure cfg (task_pool t)
        in if netmask_valid (dhcpd_netmask st)
              \<and> ip_netmask_compare (dhcpd_gateway st) (dhcpd_ip_pool_start st) (dhcpd_netmask st)
              \<and> ip_netmask_compare (dhcpd_ip_pool_start st) (dhcpd_ip_pool_end st)
                  (dhcpd_netmask st)
              \<and> ntohl (dhcpd_ip_pool_start st) \<le> ntohl (dhcpd_ip_pool_end st)
           then map_option (\<lambda>st'.
                  xassert (sock \<noteq> -1)
                    (xassert (bind_ret = 0)
                      (Inr (t\<lparr>task_pool := st', dhcpd_socket := sock, infos_freed := False\<rparr>))))
                  (dhcpd_ip_pool_init api w st)
           else Some (Inl Assert_failed)
      else Some (Inr t))"

text \<open>
  A start of the stopped server that returns without a failed assertion leaves it with the
  socket it opened and a consistent pool of free addresses.
\<close>

theorem dhcpd_start_ok:
  assumes "freertos_lists_ok api" and "dhcpd_socket t = -1"
    and "ntohl (DHPCD_IP_POOL_END cfg) < 0xFFFFFFFF"
    and "dhcpd_start api w cfg sock bind_ret t = Some (Inr t')"
  shows "dhcpd_socket t' = sock \<and> sock \<noteq> -1 \<and> pool_ok (task_pool t') \<and>
    (\<forall>i\<in>members (task_pool t'). ip_state (client_at (task_pool t') i) = DHCP_IP_STATE_AVAILABLE)"
proof -
  let ?st = "configure cfg (task_pool t)"
  have "ntohl (dhcpd_ip_pool_end ?st) < 0xFFFFFFFF"
    using assms(3) by (simp add: configure_def)
  then obtain st' where st': "dhcpd_ip_pool_init api w ?st = Some st'" "pool_ok st'"
      "\<forall>i\<in>members st'. ip_state (client_at st' i) = DHCP_IP_STATE_AVAILABLE"
    using pool_init_creates [OF assms(1)] by blast
  with assms(2,4) show ?thesis
    by (auto simp: dhcpd_start_def Let_def xassert_eq_Inr split: if_splits)
qed

section \<open>Concrete requests\<close>

definition sample_message :: "(byte \<times> byte list) list \<Rightarrow> u32 \<Rightarrow> dhcp_message" where
  "sample_message kvs cia =
     \<lparr>op = 1, htype = 1, hlen = 6, hops = 0, xid = 77, secs = 0, flags = 0, ciaddr = cia,
      yiaddr = 0, siaddr = 0, giaddr = 0, chaddr = 9, padding = replicate 10 0,
      sname = replicate 64 0, boot_file = replicate 128 0, magic_cookie = DHCP_MAGIC_COOKIE,
      options = encode_options kvs @ [DHCP_OPTION_END]
        @ replicate (DHCP_OPTIONS_LENGTH - Suc (length (encode_options kvs))) 0\<rparr>"

definition discover_message :: dhcp_message where
  "discover_message = sample_message [(DHCP_OPTION_DHCP_MESSAGE_TYPE, [1])] 0"

definition release_message :: dhcp_message where
  "release_message = sample_message [(DHCP_OPTION_DHCP_MESSAGE_TYPE, [7]),
     (DHCP_OPTION_SERVER_IDENTIFIER, [1, 0, 0, 0])] 11"

lemma sample_message_length:
  "length (encode_options kvs) < DHCP_OPTIONS_LENGTH \<Longrightarrow>
     length (options (sample_message kvs c)) = DHCP_OPTIONS_LENGTH"
  by (simp add: sample_message_def)

lemma sample_messages_length:
  "length (options discover_message) = DHCP_OPTIONS_LENGTH"
  "length (options release_message) = DHCP_OPTIONS_LENGTH"
  unfolding discover_message_def release_message_def
  by (rule sample_message_length, simp add: DHCP_OPTIONS_LENGTH_def)+

lemma scan_sample_message:
  assumes "\<forall>kv\<in>set kvs. option_ok kv" and "length (encode_options kvs) < n"
  shows "scan_options option_step (options (sample_message kvs c)) n None no_info
    = Inr (fold (\<lambda>(c, d) a. option_step a c (length d) (Some d)) kvs no_info)"
proof -
  have ne: "options (sample_message kvs c) \<noteq> []"
    by (simp add: sample_message_def)
  show ?thesis
    unfolding scan_options_None [OF ne]
    using scan_options_encoded [OF assms(1), of "options (sample_message kvs c)" "[]"
        "replicate (DHCP_OPTIONS_LENGTH - Suc (length (encode_options kvs))) 0" n option_step no_info]
      assms(2)
    by (simp add: sample_message_def)
qed

lemma handle_discover:
  "\<exists>dest m' len. dhcpd_handle_op_request quiet_api 1500 discover_message 60 two_pool ()
     = Inr (Some (dest, m', len), fst (snd (dhcpd_client_ip_address_lease quiet_api 9 0
         DHCP_DISCOVER two_pool ())), ())"
proof -
  define r where "r = no_info\<lparr>dhcp_msg_type := DHCP_DISCOVER\<rparr>"
  have scan: "scan_options option_step (options discover_message) 60 None no_info = Inr r"
    unfolding discover_message_def r_def
    by (subst scan_sample_message)
      (simp_all add: option_ok_def dhcp_option_codes option_step_def option_bytes_def
        DHCP_DISCOVER_def)
  let ?m = "discover_message\<lparr>yiaddr := 10\<rparr>"
  let ?st = "two_pool\<lparr>dhcp_ip_infos := [\<lparr>ip_addr = 10, ip_state = 2, ip_mac = 9\<rparr>,
                                     \<lparr>ip_addr = 11, ip_state = 1, ip_mac = 7\<rparr>],
                     dhcp_ip_pool := [(110, 0), (700, 1)]\<rparr>"
  have "length (options ?m) = DHCP_OPTIONS_LENGTH"
    using sample_messages_length by simp
  from send_ack_ok [OF this] obtain rp where
    ack: "send_ack ?st 1500 DHCP_CLIENT_STATE_DISCOVER (requested_params r) ?m = Inr rp"
    by blast
  have reply: "reply_to_request quiet_api 1500 DHCP_CLIENT_STATE_DISCOVER (requested_params r)
      ?m ?st () = Inr (Some rp, ?st, ())"
    using ack by (simp add: reply_to_request_def INADDR_ANY_def INADDR_BROADCAST_def)
  have mac: "chaddr discover_message = 9"
    by (simp add: discover_message_def sample_message_def)
  have ty: "dhcp_msg_type r = DHCP_DISCOVER"
    by (simp add: r_def)
  have cl: "classify_request two_pool discover_message r
      = (DHCP_CLIENT_STATE_DISCOVER, 0, None, discover_message)"
    by (simp add: classify_request_def r_def no_info_def INADDR_ANY_def Let_def)
  have "dhcpd_handle_op_request quiet_api 1500 discover_message 60 two_pool ()
      = Inr (Some rp, ?st, ())"
    by (simp only: dhcpd_handle_op_request_def scan rbind_Inr cl prod.case client_state.case mac
        ty two_pool_discover Let_def reply)
  then show ?thesis
    by (cases rp) (simp only: two_pool_discover fst_conv snd_conv, blast)
qed

theorem dhcpd_handler_total_witness:
  "\<exists>response st' w'. dhcpd_handle_op_request quiet_api 1500 release_message 60 two_pool ()
     = Inr (response, st', w')"
  by (rule dhcpd_handler_total) (rule sample_messages_length)

theorem dhcpd_handler_preserves_pool_witness:
  "\<exists>resp st'. dhcpd_handle_op_request quiet_api 1500 discover_message 60 two_pool ()
     = Inr (resp, st', ()) \<and> pool_ok st'"
proof -
  obtain dest m' len st' where h: "dhcpd_handle_op_request quiet_api 1500 discover_message 60
      two_pool () = Inr (Some (dest, m', len), st', ())"
    using handle_discover by blast
  from dhcpd_handler_preserves_pool [OF sample_messages_length(1) quiet_api_ok two_pool_ok h] h
  show ?thesis by blast
qed

theorem dhcpd_reply_sound_witness:
  "\<exists>dest m' len st' t kvs. dhcpd_handle_op_request quiet_api 1500 discover_message 60 two_pool ()
     = Inr (Some (dest, m', len), st', ()) \<and> xid m' = 77 \<and>
     scan_options collect (options m') len None []
      = Inr ((DHCP_OPTION_DHCP_MESSAGE_TYPE, [of_nat t])
             # (DHCP_OPTION_SERVER_IDENTIFIER, word_bytes 4 (dhcpd_server_ip st')) # kvs)"
proof -
  obtain dest m' len st' where h: "dhcpd_handle_op_request quiet_api 1500 discover_message 60
      two_pool () = Inr (Some (dest, m', len), st', ())"
    using handle_discover by blast
  have x: "xid discover_message = 77"
    by (simp add: discover_message_def sample_message_def)
  from dhcpd_reply_sound [OF sample_messages_length(1) quiet_api_ok two_pool_ok h] h x
  show ?thesis by auto
qed

definition sample_task :: dhcpd_task where
  "sample_task = \<lparr>dhcpd_socket = 3, last_timeout = 0, infos_freed = False, task_pool = two_pool\<rparr>"

theorem dhcpd_pool_always_ok_witness:
  "\<exists>t'. listen_run quiet_api 1500 60000 sample_task () [None] t' () \<and> pool_ok (task_pool t')"
proof -
  have "dhcpd_listen_turn quiet_api 1500 60000 0 release_message 5 sample_task ()
      = Inr (None, sample_task, ())"
    by (simp add: dhcpd_listen_turn_def listen_receive_def listen_expire_def sample_task_def
        DHCP_REQUEST_MIN_LENGTH_def DHCP_MESSAGE_SIZE_def DHCP_OPTIONS_LENGTH_def size_of_int_def
        pdFREERTOS_ERRNO_EINTR_def)
  from listen_turn [OF listen_start _ sample_messages_length(2) this]
  have run: "listen_run quiet_api 1500 60000 sample_task () [None] sample_task ()"
    by (simp add: sample_task_def)
  moreover have "rtos_seconds quiet_api w < 0xFFFFFFFF" for w
    by (simp add: quiet_api_def)
  moreover have "pool_ok (task_pool sample_task)"
    using two_pool_ok by (simp add: sample_task_def)
  ultimately show ?thesis
    using dhcpd_pool_always_ok [OF run quiet_api_ok] by blast
qed

theorem dhcpd_stop_reads_freed_pool_witness:
  "dhcpd_listen_turn quiet_api 1500 60000 (- pdFREERTOS_ERRNO_EINTR) release_message 70000
     sample_task () = Inl Bad_access"
  by (rule dhcpd_stop_reads_freed_pool) (simp_all add: sample_task_def two_pool_def)

definition sample_config :: dhcpd_config where
  "sample_config = \<lparr>DHPCD_SERVER_IP = htonl 0x0A000001, DHPCD_IP_POOL_START = htonl 0x0A000000,
     DHPCD_IP_POOL_END = htonl 0x0A00000A, DHPCD_NETMASK = htonl 0xFF000000,
     DHPCD_GATEWAY = htonl 0x0A000001, DHPCD_PRIMARY_DNS = htonl 0x0A000005,
     DHPCD_SECONDARY_DNS = htonl 0x0A000006\<rparr>"

lemma sample_config_checked:
  "netmask_valid (DHPCD_NETMASK sample_config)"
  "ip_netmask_compare (DHPCD_GATEWAY sample_config) (DHPCD_IP_POOL_START sample_config)
     (DHPCD_NETMASK sample_config)"
  "ip_netmask_compare (DHPCD_IP_POOL_START sample_config) (DHPCD_IP_POOL_END sample_config)
     (DHPCD_NETMASK sample_config)"
  by (simp add: sample_config_def netmask_valid_def first_zero.simps no_one_below.simps,
      simp_all add: sample_config_def ip_netmask_compare_def htonl_def word_bytes_def upt_rec)

theorem dhcpd_start_ok_witness:
  "\<exists>t'. dhcpd_start quiet_api () sample_config 5 0 (sample_task\<lparr>dhcpd_socket := -1\<rparr>)
     = Some (Inr t') \<and> pool_ok (task_pool t')"
proof -
  let ?st = "configure sample_config two_pool"
  have e: "ntohl (DHPCD_IP_POOL_END sample_config) < 0xFFFFFFFF"
    by (simp add: sample_config_def)
  then have "ntohl (dhcpd_ip_pool_end ?st) < 0xFFFFFFFF"
    by (simp add: configure_def)
  from pool_init_creates [OF quiet_api_ok this, of "()"] obtain st' where
    "dhcpd_ip_pool_init quiet_api () ?st = Some st'" by blast
  moreover have "ntohl (DHPCD_IP_POOL_START sample_config) \<le> ntohl (DHPCD_IP_POOL_END sample_config)"
    by (simp add: sample_config_def)
  ultimately have "dhcpd_start quiet_api () sample_config 5 0 (sample_task\<lparr>dhcpd_socket := -1\<rparr>)
      = Some (Inr (sample_task\<lparr>task_pool := st', dhcpd_socket := 5, infos_freed := False\<rparr>))"
    using sample_config_checked by (simp add: dhcpd_start_def sample_task_def configure_def)
  moreover from dhcpd_start_ok [OF quiet_api_ok _ e this] have "pool_ok st'"
    by (simp add: sample_task_def)
  ultimately show ?thesis
    by (auto simp: sample_task_def)
qed

end
