(* ===== verification/Device_Control.thy ===== *)
theory Device_Control
  imports Prelude
begin

text \<open>
  The device control service (modules/sw_services/device_control/src): the resource table
  (resource_table.c), and the gateway that passes a host's commands to the servicers, on the
  same tile through queues or on another one through the intertile link (device_control.c).

  The servicers' callbacks are parameters. A queue is the number of the servicer it belongs
  to, a link is a word.
\<close>

type_synonym control_ret_t = u32

definition CONTROL_SUCCESS :: control_ret_t where "CONTROL_SUCCESS = 0"
definition CONTROL_REGISTRATION_FAILED :: control_ret_t where "CONTROL_REGISTRATION_FAILED = 1"
definition CONTROL_BAD_COMMAND :: control_ret_t where "CONTROL_BAD_COMMAND = 2"
definition CONTROL_DATA_LENGTH_ERROR :: control_ret_t where "CONTROL_DATA_LENGTH_ERROR = 3"
definition CONTROL_BAD_RESOURCE :: control_ret_t where "CONTROL_BAD_RESOURCE = 5"
definition CONTROL_ERROR :: control_ret_t where "CONTROL_ERROR = 8"

lemmas control_rets =
  CONTROL_SUCCESS_def CONTROL_REGISTRATION_FAILED_def CONTROL_BAD_COMMAND_def
  CONTROL_DATA_LENGTH_ERROR_def CONTROL_BAD_RESOURCE_def CONTROL_ERROR_def

definition CONTROL_VERSION :: byte where "CONTROL_VERSION = 0x10"
definition CONTROL_SPECIAL_RESID :: byte where "CONTROL_SPECIAL_RESID = 0"
definition IS_CONTROL_CMD_READ :: "byte \<Rightarrow> bool" where
  "IS_CONTROL_CMD_READ c \<longleftrightarrow> c AND 0x80 \<noteq> 0"
definition CONTROL_CMD_SET_READ :: "byte \<Rightarrow> byte" where "CONTROL_CMD_SET_READ c = c OR 0x80"
definition CONTROL_CMD_SET_WRITE :: "byte \<Rightarrow> byte" where
  "CONTROL_CMD_SET_WRITE c = c AND NOT 0x80"
definition CONTROL_GET_VERSION :: byte where "CONTROL_GET_VERSION = CONTROL_CMD_SET_READ 0"
definition CONTROL_GET_LAST_COMMAND_STATUS :: byte where
  "CONTROL_GET_LAST_COMMAND_STATUS = CONTROL_CMD_SET_READ 1"

datatype control_direction_t = CONTROL_HOST_TO_DEVICE | CONTROL_DEVICE_TO_HOST

section \<open>The resource table\<close>

definition RESOURCE_TABLE_SIZE :: nat where "RESOURCE_TABLE_SIZE = 256"
definition NO_SERVICER :: byte where "NO_SERVICER = 255"

type_synonym resource_table = "byte list"

definition resource_table_init :: resource_table where
  "resource_table_init = replicate RESOURCE_TABLE_SIZE NO_SERVICER"

fun add_resources :: "resource_table \<Rightarrow> byte list \<Rightarrow> byte \<Rightarrow> resource_table \<times> nat" where
  "add_resources table [] servicer = (table, 0)"
| "add_resources table (resid # rs) servicer =
     (if resid = CONTROL_SPECIAL_RESID then (table, 2)
      else if table ! unat resid \<noteq> NO_SERVICER then (table, 3)
      else add_resources (table[unat resid := servicer]) rs servicer)"

definition resource_table_add ::
  "resource_table \<Rightarrow> byte list \<Rightarrow> byte \<Rightarrow> resource_table \<times> nat" where
  "resource_table_add table resources servicer =
     (if servicer = NO_SERVICER then (table, 1) else add_resources table resources servicer)"

text \<open>The servicer and the return value.\<close>

definition resource_table_search :: "resource_table \<Rightarrow> byte \<Rightarrow> byte \<times> nat" where
  "resource_table_search table resid =
     (let servicer = table ! unat resid
      in (servicer,
          if resid = CONTROL_SPECIAL_RESID \<or> table ! unat resid \<noteq> NO_SERVICER then 0 else 1))"

section \<open>State\<close>

text \<open>
  \<open>device_control_t\<close>; the servicer table's entries are the link, or null for a servicer on
  this tile, and the queue.
\<close>

record device_control =
  resource_table :: "resource_table option"
  intertile_port :: byte
  host_intertile :: u32
  client_intertile :: "u32 list"
  servicer_count :: nat
  servicer_table :: "(u32 option \<times> nat) list"
  requested_payload_len :: nat
  requested_resid :: byte
  requested_cmd :: byte
  last_status :: byte

text \<open>
  A command to a servicer, and the servicers' callbacks, which work on a state shared by all
  of them. A read callback gets the buffer it fills and returns its contents.
\<close>

record cmd_to_servicer =
  c_queue :: nat
  c_payload_len :: nat
  c_resid :: byte
  c_cmd :: byte

definition sizeof_cmd_to_servicer :: nat where "sizeof_cmd_to_servicer = 20"

record 's servicer_cbs =
  read_cmd_cb :: "nat \<Rightarrow> byte \<Rightarrow> byte \<Rightarrow> byte list \<Rightarrow> 's \<Rightarrow> control_ret_t \<times> byte list \<times> 's"
  write_cmd_cb :: "nat \<Rightarrow> byte \<Rightarrow> byte \<Rightarrow> byte list \<Rightarrow> 's \<Rightarrow> control_ret_t \<times> 's"

text \<open>
  Documented behaviour of the callbacks: a read callback fills the whole buffer, whatever
  was in it.
\<close>

definition callbacks_ok :: "'s servicer_cbs \<Rightarrow> bool" where
  "callbacks_ok cbs \<longleftrightarrow>
     (\<forall>q r c buf buf' s ret out s'. length buf = length buf' \<longrightarrow>
        read_cmd_cb cbs q r c buf s = (ret, out, s') \<longrightarrow>
        length out = length buf \<and> read_cmd_cb cbs q r c buf' s = (ret, out, s'))"

section \<open>The servicer side\<close>

text \<open>
  The callback part of \<open>device_control_servicer_cmd_recv\<close>: the return value and the payload
  buffer afterwards.
\<close>

definition run_callback ::
  "'s servicer_cbs \<Rightarrow> cmd_to_servicer \<Rightarrow> byte list \<Rightarrow> 's \<Rightarrow> (control_ret_t \<times> byte list \<times> 's) res" where
  "run_callback cbs c payload s =
     rbind (read_mem payload (c_payload_len c)) (\<lambda>buf.
       if IS_CONTROL_CMD_READ (c_cmd c) then
         (let (ret, out, s') = read_cmd_cb cbs (c_queue c) (c_resid c) (c_cmd c) buf s
          in rbind (write_mem payload out) (\<lambda>payload'. Inr (ret, payload', s')))
       else
         (let (ret, s') = write_cmd_cb cbs (c_queue c) (c_resid c) (c_cmd c) buf s
          in Inr (ret, payload, s')))"

text \<open>
  The answer: through the gateway queue on the gateway's tile, where the payload is the
  gateway's own buffer, and over the link on another one.
\<close>

definition servicer_cmd_recv_local ::
  "'s servicer_cbs \<Rightarrow> cmd_to_servicer \<Rightarrow> byte list \<Rightarrow> 's \<Rightarrow> (control_ret_t \<times> byte list \<times> 's) res" where
  "servicer_cmd_recv_local = run_callback"

definition servicer_cmd_recv_remote ::
  "'s servicer_cbs \<Rightarrow> cmd_to_servicer \<Rightarrow> byte list \<Rightarrow> 's \<Rightarrow> (byte list \<times> 's) res" where
  "servicer_cmd_recv_remote cbs c payload s =
     rbind (run_callback cbs c payload s) (\<lambda>(ret, payload', s').
       if IS_CONTROL_CMD_READ (c_cmd c) then
         rbind (read_mem payload' (c_payload_len c)) (\<lambda>d. Inr (word_bytes 4 ret @ d, s'))
       else Inr (word_bytes 4 ret, s'))"

text \<open>
  The whole of \<open>device_control_servicer_cmd_recv\<close>: a command, or none within the timeout, and how the
  answer goes back.
\<close>

datatype servicer_answer = Gateway_queue control_ret_t "byte list" | Host_link "byte list"

definition device_control_servicer_cmd_recv ::
  "'s servicer_cbs \<Rightarrow> bool \<Rightarrow> (cmd_to_servicer \<times> byte list) option \<Rightarrow> 's
     \<Rightarrow> (control_ret_t \<times> servicer_answer option \<times> 's) res" where
  "device_control_servicer_cmd_recv cbs gateway_tile msg s =
     (case msg of
        None \<Rightarrow> Inr (CONTROL_ERROR, None, s)
      | Some (c, payload) \<Rightarrow>
          if gateway_tile then
            rbind (servicer_cmd_recv_local cbs c payload s) (\<lambda>(ret, p, s').
              Inr (CONTROL_SUCCESS, Some (Gateway_queue ret p), s'))
          else
            rbind (servicer_cmd_recv_remote cbs c payload s) (\<lambda>(xfer, s').
              Inr (CONTROL_SUCCESS, Some (Host_link xfer), s')))"

text \<open>
  \<open>device_control_client_thread\<close> on a message: the command and the bytes that follow it.
  \<open>heap\<close> gives the contents of a buffer allocated by malloc.
\<close>

definition client_thread_receive ::
  "(nat \<Rightarrow> byte list) \<Rightarrow> cmd_to_servicer \<Rightarrow> byte list \<Rightarrow> byte list res" where
  "client_thread_receive heap c data =
     (let msg_length = sizeof_cmd_to_servicer + length data
      in if IS_CONTROL_CMD_READ (c_cmd c) then
           xassert (msg_length = sizeof_cmd_to_servicer)
             (xassert (c_payload_len c > 0) (Inr (heap (c_payload_len c))))
         else
           xassert (msg_length \<ge> sizeof_cmd_to_servicer)
             (xassert (c_payload_len c = msg_length - sizeof_cmd_to_servicer) (Inr data)))"

section \<open>The gateway side\<close>

definition special_read_command ::
  "device_control \<Rightarrow> byte \<Rightarrow> byte list \<Rightarrow> nat \<Rightarrow> (control_ret_t \<times> byte list) res" where
  "special_read_command ctx cmd payload payload_len =
     (if cmd = CONTROL_GET_VERSION then
        if payload_len \<noteq> 1 then Inr (CONTROL_BAD_COMMAND, payload)
        else rbind (write_mem payload [CONTROL_VERSION]) (\<lambda>p. Inr (CONTROL_SUCCESS, p))
      else if cmd = CONTROL_GET_LAST_COMMAND_STATUS then
        if payload_len \<noteq> 1 then Inr (CONTROL_BAD_COMMAND, payload)
        else rbind (write_mem payload [last_status ctx]) (\<lambda>p. Inr (CONTROL_SUCCESS, p))
      else Inr (CONTROL_BAD_COMMAND, payload))"

definition off_tile_command ::
  "'s servicer_cbs \<Rightarrow> (nat \<Rightarrow> byte list) \<Rightarrow> cmd_to_servicer \<Rightarrow> byte list \<Rightarrow> 's
     \<Rightarrow> (control_ret_t \<times> byte list \<times> 's) res" where
  "off_tile_command cbs heap c payload s =
     rbind (if IS_CONTROL_CMD_READ (c_cmd c) then Inr []
            else read_mem payload (c_payload_len c)) (\<lambda>data.
     rbind (client_thread_receive heap c data) (\<lambda>remote_payload.
     rbind (servicer_cmd_recv_remote cbs c remote_payload s) (\<lambda>(xfer, s').
       if length xfer \<ge> 4 then
         (let ret = bytes_word (take 4 xfer)
          in if IS_CONTROL_CMD_READ (c_cmd c) then
               xassert (c_payload_len c = length xfer - 4)
                 (rbind (write_mem payload (drop 4 xfer)) (\<lambda>p. Inr (ret, p, s')))
             else xassert (length xfer = 4) (Inr (ret, payload, s')))
       else Inr (CONTROL_ERROR, payload, s'))))"

definition do_command ::
  "'s servicer_cbs \<Rightarrow> (nat \<Rightarrow> byte list) \<Rightarrow> device_control \<Rightarrow> byte \<Rightarrow> byte \<Rightarrow> byte \<Rightarrow> byte list
     \<Rightarrow> nat \<Rightarrow> 's \<Rightarrow> (control_ret_t \<times> byte list \<times> 's) res" where
  "do_command cbs heap ctx servicer resid cmd payload payload_len s =
     (if resid = CONTROL_SPECIAL_RESID then
        if IS_CONTROL_CMD_READ cmd then
          rbind (special_read_command ctx cmd payload payload_len) (\<lambda>(ret, p). Inr (ret, p, s))
        else Inr (CONTROL_BAD_COMMAND, payload, s)
      else if unat servicer < length (servicer_table ctx) then
        (let (intertile_ctx, queue) = servicer_table ctx ! unat servicer;
             c = \<lparr>c_queue = queue, c_payload_len = payload_len, c_resid = resid, c_cmd = cmd\<rparr>
         in case intertile_ctx of
              None \<Rightarrow> servicer_cmd_recv_local cbs c payload s
            | Some link \<Rightarrow> off_tile_command cbs heap c payload s)
      else Inl Bad_access)"

definition the_table :: "device_control \<Rightarrow> resource_table res" where
  "the_table ctx = (case resource_table ctx of None \<Rightarrow> Inl Bad_access | Some t \<Rightarrow> Inr t)"

text \<open>\<open>device_control_request\<close>.\<close>

definition device_control_request ::
  "device_control \<Rightarrow> byte \<Rightarrow> byte \<Rightarrow> nat \<Rightarrow> (control_ret_t \<times> device_control) res" where
  "device_control_request ctx resid cmd payload_len =
     (let ctx1 = ctx\<lparr>requested_resid := resid\<rparr>
      in rbind (the_table ctx1) (\<lambda>table.
         if snd (resource_table_search table resid) = 0
         then Inr (CONTROL_SUCCESS,
                   ctx1\<lparr>requested_cmd := cmd, requested_payload_len := payload_len\<rparr>)
         else Inr (CONTROL_BAD_COMMAND, ctx1)))"

text \<open>
  \<open>device_control_payload_transfer\<close>: the return value, the payload buffer, the state and the
  servicers' state. \<open>buf_size\<close> is only read.
\<close>

definition device_control_payload_transfer ::
  "'s servicer_cbs \<Rightarrow> (nat \<Rightarrow> byte list) \<Rightarrow> device_control \<Rightarrow> byte list \<Rightarrow> nat
     \<Rightarrow> control_direction_t \<Rightarrow> 's \<Rightarrow> (control_ret_t \<times> byte list \<times> device_control \<times> 's) res" where
  "device_control_payload_transfer cbs heap ctx payload_buf buf_size direction s =
     (let len = requested_payload_len ctx; resid = requested_resid ctx; cmd = requested_cmd ctx
      in rbind (the_table ctx) (\<lambda>table.
      let (servicer, found) = resource_table_search table resid
      in if found = 0 then
           if direction = CONTROL_HOST_TO_DEVICE then
             if \<not> IS_CONTROL_CMD_READ cmd then
               if len \<le> buf_size then
                 rbind (do_command cbs heap ctx servicer resid cmd payload_buf len s)
                   (\<lambda>(ret, p, s').
                     Inr (CONTROL_SUCCESS, p, ctx\<lparr>last_status := ucast ret\<rparr>, s'))
               else Inr (CONTROL_SUCCESS, payload_buf,
                         ctx\<lparr>last_status := ucast CONTROL_DATA_LENGTH_ERROR\<rparr>, s)
             else Inr (CONTROL_SUCCESS, payload_buf,
                       ctx\<lparr>last_status := ucast CONTROL_SUCCESS\<rparr>, s)
           else
             if \<not> IS_CONTROL_CMD_READ cmd then
               rbind (write_mem payload_buf [last_status ctx]) (\<lambda>p.
                 Inr (CONTROL_SUCCESS, p, ctx, s))
             else
               rbind (do_command cbs heap ctx servicer resid cmd payload_buf len s)
                 (\<lambda>(ret, p, s'). Inr (CONTROL_SUCCESS, p, ctx, s'))
         else
           (let ctx1 = ctx\<lparr>last_status := ucast CONTROL_BAD_RESOURCE\<rparr>
            in if direction = CONTROL_DEVICE_TO_HOST then
                 rbind (write_mem payload_buf [last_status ctx1]) (\<lambda>p.
                   Inr (CONTROL_SUCCESS, p, ctx1, s))
               else Inr (CONTROL_SUCCESS, payload_buf, ctx1, s))))"

text \<open>
  \<open>device_control_payload_transfer_bidir\<close>: the transmit buffer and its size afterwards, the
  state and the servicers' state.
\<close>

definition device_control_payload_transfer_bidir ::
  "'s servicer_cbs \<Rightarrow> (nat \<Rightarrow> byte list) \<Rightarrow> device_control \<Rightarrow> byte list \<Rightarrow> nat \<Rightarrow> byte list \<Rightarrow> nat
     \<Rightarrow> 's \<Rightarrow> (byte list \<times> nat \<times> device_control \<times> 's) res" where
  "device_control_payload_transfer_bidir cbs heap ctx rx_buf rx_size tx_buf tx_size s =
     (let len = requested_payload_len ctx; resid = requested_resid ctx; cmd = requested_cmd ctx
      in rbind (the_table ctx) (\<lambda>table.
      let (servicer, found) = resource_table_search table resid
      in if found = 0 then
           if \<not> IS_CONTROL_CMD_READ cmd then
             if len > rx_size then
               rbind (write_mem tx_buf [ucast CONTROL_DATA_LENGTH_ERROR]) (\<lambda>tx.
                 Inr (tx, tx_size, ctx\<lparr>last_status := ucast CONTROL_DATA_LENGTH_ERROR\<rparr>, s))
             else
               rbind (do_command cbs heap ctx servicer resid cmd rx_buf len s) (\<lambda>(ret, p, s').
               rbind (write_mem tx_buf [ucast ret]) (\<lambda>tx.
                 Inr (tx, tx_size, ctx\<lparr>last_status := ucast ret\<rparr>, s')))
           else
             rbind (do_command cbs heap ctx servicer resid cmd tx_buf len s) (\<lambda>(ret, tx, s').
               Inr (tx, len, ctx\<lparr>last_status := ucast ret\<rparr>, s'))
         else
           rbind (write_mem tx_buf [ucast CONTROL_BAD_RESOURCE]) (\<lambda>tx.
             Inr (tx, tx_size, ctx\<lparr>last_status := ucast CONTROL_BAD_RESOURCE\<rparr>, s))))"

section \<open>Initialisation and registration\<close>

text \<open>
  \<open>device_control_init\<close>; a client instance has only the first three fields, which come
  first in the union with the host's.
\<close>

definition zero_device_control :: device_control where
  "zero_device_control =
     \<lparr>resource_table = None, intertile_port = 0, host_intertile = 0,
      client_intertile = [0, 0, 0], servicer_count = 0, servicer_table = [],
      requested_payload_len = 0, requested_resid = 0, requested_cmd = 0, last_status = 0\<rparr>"

definition device_control_init ::
  "bool \<Rightarrow> nat \<Rightarrow> u32 list \<Rightarrow> (control_ret_t \<times> device_control) res" where
  "device_control_init host_mode servicers intertile_ctx =
     (if host_mode then
        xassert (length intertile_ctx \<le> 3)
          (Inr (CONTROL_SUCCESS,
                zero_device_control\<lparr>resource_table := Some resource_table_init,
                  servicer_count := servicers, client_intertile := intertile_ctx\<rparr>))
      else
        xassert (length intertile_ctx = 1)
          (Inr (CONTROL_SUCCESS, zero_device_control\<lparr>host_intertile := hd intertile_ctx\<rparr>)))"

text \<open>\<open>device_control_start\<close>; the thread of a client tile is created or not.\<close>

definition device_control_start :: "device_control \<Rightarrow> byte \<Rightarrow> bool \<Rightarrow> control_ret_t \<times> device_control" where
  "device_control_start ctx port thread_created =
     (let ctx1 = ctx\<lparr>intertile_port := port\<rparr>
      in case resource_table ctx1 of
           None \<Rightarrow> (if thread_created then CONTROL_SUCCESS else CONTROL_REGISTRATION_FAILED, ctx1)
         | Some t \<Rightarrow> (CONTROL_SUCCESS, ctx1))"

text \<open>
  Registration. \<open>device_control_servicer_register\<close> sends its queue and its resources to every
  instance; it is received from the gateway queue or a link.
\<close>

record servicer_init_data =
  init_queue :: nat
  init_resources :: "byte list"

definition servicer_register ::
  "device_control \<Rightarrow> servicer_init_data \<Rightarrow> u32 option \<Rightarrow> nat \<Rightarrow> device_control \<times> nat" where
  "servicer_register ctx init_cmd intertile_ctx servicer_index =
     (let ctx1 = ctx\<lparr>servicer_table :=
            (servicer_table ctx)[servicer_index := (intertile_ctx, init_queue init_cmd)]\<rparr>;
          (table, ret) = resource_table_add (case resource_table ctx1 of None \<Rightarrow> [] | Some t \<Rightarrow> t)
            (init_resources init_cmd) (of_nat servicer_index)
      in (ctx1\<lparr>resource_table := Some table\<rparr>, ret))"

text \<open>
  What \<open>device_control_servicer_register\<close> sends: to an instance on the servicer's tile that has the
  resource table through its queue, to one on a client tile over the link to the host, at its port.
\<close>

datatype register_dest = To_gateway_queue | To_host_link u32 byte

definition device_control_servicer_register ::
  "nat \<Rightarrow> device_control list \<Rightarrow> byte list \<Rightarrow> control_ret_t \<times> (register_dest \<times> servicer_init_data) list" where
  "device_control_servicer_register queue device_control_ctx resources =
     (CONTROL_SUCCESS,
      map (\<lambda>ctx. (case resource_table ctx of
                    Some _ \<Rightarrow> To_gateway_queue
                  | None \<Rightarrow> To_host_link (host_intertile ctx) (intertile_port ctx),
                  \<lparr>init_queue = queue, init_resources = resources\<rparr>)) device_control_ctx)"

text \<open>
  One turn of the loop of \<open>device_control_resources_register\<close>: what the gateway queue and
  each link give within a tick, if anything; the state is the instance, the count and the
  last return value. The turns that start before the timeout are a list.
\<close>

definition register_one ::
  "u32 option \<Rightarrow> servicer_init_data option \<Rightarrow> device_control \<times> nat \<times> nat
     \<Rightarrow> device_control \<times> nat \<times> nat" where
  "register_one link msg x =
     (case x of (ctx, registered_count, ret) \<Rightarrow>
        case msg of
          None \<Rightarrow> x
        | Some init_cmd \<Rightarrow>
            (let (ctx', ret') = servicer_register ctx init_cmd link registered_count
             in (ctx', if ret' = 0 then registered_count + 1 else registered_count, ret')))"

fun register_links ::
  "(u32 \<times> servicer_init_data option) list \<Rightarrow> device_control \<times> nat \<times> nat
     \<Rightarrow> device_control \<times> nat \<times> nat" where
  "register_links [] x = x"
| "register_links ((link, msg) # ms) (ctx, registered_count, ret) =
     (if registered_count < servicer_count ctx \<and> ret = 0
      then register_links ms (register_one (Some link) msg (ctx, registered_count, ret))
      else (ctx, registered_count, ret))"

fun register_loop ::
  "(servicer_init_data option \<times> servicer_init_data option list) list
     \<Rightarrow> device_control \<times> nat \<times> nat \<Rightarrow> device_control \<times> nat \<times> nat" where
  "register_loop [] x = x"
| "register_loop ((gateway, links) # turns) (ctx, registered_count, ret) =
     (if registered_count < servicer_count ctx \<and> ret = 0
      then register_loop turns
             (register_links (zip (client_intertile ctx) links)
               (register_one None gateway (ctx, registered_count, ret)))
      else (ctx, registered_count, ret))"

definition device_control_resources_register ::
  "(servicer_init_data option \<times> servicer_init_data option list) list \<Rightarrow> device_control
     \<Rightarrow> control_ret_t \<times> device_control" where
  "device_control_resources_register turns ctx =
     (let ctx1 = ctx\<lparr>servicer_table := replicate (servicer_count ctx) (None, 0)\<rparr>;
          (ctx2, registered_count, ret) = register_loop turns (ctx1, 0, 0)
      in (if registered_count = servicer_count ctx2 then CONTROL_SUCCESS
          else CONTROL_REGISTRATION_FAILED, ctx2))"

section \<open>The resource table\<close>

definition table_ok :: "resource_table \<Rightarrow> bool" where
  "table_ok t \<longleftrightarrow> length t = RESOURCE_TABLE_SIZE"

lemma unat_byte_in_table: "table_ok t \<Longrightarrow> unat (r :: byte) < length t"
  using unsigned_less [of r, where ?'a = nat] by (simp add: table_ok_def RESOURCE_TABLE_SIZE_def)

lemma add_resources_0:
  assumes "table_ok t" and "sv \<noteq> NO_SERVICER"
  shows "snd (add_resources t rs sv) = 0 \<longleftrightarrow>
      CONTROL_SPECIAL_RESID \<notin> set rs \<and> distinct rs \<and> (\<forall>r\<in>set rs. t ! unat r = NO_SERVICER)"
    and "table_ok (fst (add_resources t rs sv))"
    and "snd (add_resources t rs sv) = 0 \<Longrightarrow> fst (add_resources t rs sv) ! unat r
      = (if r \<in> set rs then sv else t ! unat r)"
  using assms
proof (induction rs arbitrary: t)
  case Nil
  { case 1 then show ?case by simp }
  { case 2 then show ?case by simp }
  { case 3 then show ?case by simp }
next
  case (Cons a rs)
  have ok: "table_ok t' \<Longrightarrow> table_ok (t'[i := v])" for t' i v
    by (simp add: table_ok_def)
  have at: "table_ok t' \<Longrightarrow> (t'[unat a := sv]) ! unat q = (if q = a then sv else t' ! unat q)" for t' q
    using unat_byte_in_table [of t' a] by (auto simp: nth_list_update word_unat_eq_iff)
  { case 1
    then show ?case
      using Cons.IH(1) [of "t[unat a := sv]"] ok [OF 1(1)] at [OF 1(1)] by auto }
  { case 2
    then show ?case
      using Cons.IH(2) [of "t[unat a := sv]"] ok [OF 2(1)] by auto }
  { case 3
    then show ?case
      using Cons.IH(3) [of "t[unat a := sv]"] ok [OF 3(2)] at [OF 3(2)] by auto }
qed

text \<open>
  Adding resources succeeds exactly when the servicer number and the resources are not the
  reserved ones and the resources are different and free; then a search finds the servicer
  for each of them and what it found before for every other resource.
\<close>

theorem resource_table_add_ok:
  assumes "table_ok t"
  shows "table_ok (fst (resource_table_add t rs sv)) \<and>
    (snd (resource_table_add t rs sv) = 0 \<longleftrightarrow>
       sv \<noteq> NO_SERVICER \<and> CONTROL_SPECIAL_RESID \<notin> set rs \<and> distinct rs \<and>
       (\<forall>r\<in>set rs. t ! unat r = NO_SERVICER)) \<and>
    (snd (resource_table_add t rs sv) = 0 \<longrightarrow>
       (\<forall>r. r \<noteq> CONTROL_SPECIAL_RESID \<longrightarrow>
          resource_table_search (fst (resource_table_add t rs sv)) r
            = (if r \<in> set rs then (sv, 0) else resource_table_search t r)))"
  using add_resources_0 [OF assms, of sv rs] assms
  by (auto simp: resource_table_add_def resource_table_search_def Let_def)

theorem resource_table_add_ok_witness:
  "table_ok resource_table_init \<and> snd (resource_table_add resource_table_init [1, 2] 0) = 0"
proof -
  have "table_ok resource_table_init"
    by (simp add: table_ok_def resource_table_init_def)
  moreover have "unat (1 :: byte) < 256" "unat (2 :: byte) < 256" by simp_all
  ultimately show ?thesis
    using resource_table_add_ok [of resource_table_init "[1, 2]" 0]
    by (simp add: NO_SERVICER_def CONTROL_SPECIAL_RESID_def resource_table_init_def
        RESOURCE_TABLE_SIZE_def)
qed

section \<open>Registration\<close>

text \<open>
  While servicers register: those registered so far, with the links they came from, have the
  first entries of the servicer table, and the resource table holds exactly their resources.
\<close>

type_synonym registration = "u32 option \<times> servicer_init_data"

definition registered :: "registration list \<Rightarrow> device_control \<Rightarrow> bool" where
  "registered regs ctx \<longleftrightarrow>
     length regs \<le> servicer_count ctx \<and> length (servicer_table ctx) = servicer_count ctx \<and>
     (\<forall>i<length regs. servicer_table ctx ! i = (fst (regs ! i), init_queue (snd (regs ! i)))) \<and>
     (\<exists>t. resource_table ctx = Some t \<and> table_ok t \<and>
        (\<forall>i<length regs. \<forall>r\<in>set (init_resources (snd (regs ! i))).
           r \<noteq> CONTROL_SPECIAL_RESID \<and> t ! unat r = of_nat i) \<and>
        (\<forall>r. t ! unat (r :: byte) = NO_SERVICER \<or>
           (\<exists>i<length regs. r \<in> set (init_resources (snd (regs ! i))))))"

definition register_inv ::
  "registration set \<Rightarrow> nat \<Rightarrow> u32 list \<Rightarrow> device_control \<times> nat \<times> nat \<Rightarrow> bool" where
  "register_inv msgs count links x \<longleftrightarrow>
     (case x of (ctx, n, ret) \<Rightarrow>
        servicer_count ctx = count \<and> client_intertile ctx = links \<and>
        (ret \<noteq> 0 \<longrightarrow> n < count) \<and>
        (ret = 0 \<longrightarrow> (\<exists>regs. length regs = n \<and> set regs \<subseteq> msgs \<and> registered regs ctx)))"

lemma of_nat_byte_not_reserved: "i < 255 \<Longrightarrow> (of_nat i :: byte) \<noteq> NO_SERVICER"
  by (auto simp: NO_SERVICER_def word_unat_eq_iff unat_of_nat take_bit_nat_eq_self)

lemma servicer_register_ok:
  assumes "registered regs ctx" and "length regs < servicer_count ctx"
    and "servicer_count ctx \<le> 255"
    and "servicer_register ctx m link (length regs) = (ctx', 0)"
  shows "registered (regs @ [(link, m)]) ctx'"
proof -
  from assms(1) obtain t where t: "resource_table ctx = Some t" "table_ok t"
      "\<forall>i<length regs. \<forall>r\<in>set (init_resources (snd (regs ! i))).
         r \<noteq> CONTROL_SPECIAL_RESID \<and> t ! unat r = of_nat i"
      "\<forall>r. t ! unat (r :: byte) = NO_SERVICER \<or>
         (\<exists>i<length regs. r \<in> set (init_resources (snd (regs ! i))))"
      and len: "length (servicer_table ctx) = servicer_count ctx"
      and tab: "\<forall>i<length regs. servicer_table ctx ! i
        = (fst (regs ! i), init_queue (snd (regs ! i)))"
    by (auto simp: registered_def)
  let ?sv = "of_nat (length regs) :: byte"
  have sv: "?sv \<noteq> NO_SERVICER"
    using assms(2,3) by (intro of_nat_byte_not_reserved) simp
  obtain t' where add: "add_resources t (init_resources m) ?sv = (t', 0)"
      and ctx': "ctx' = ctx\<lparr>servicer_table := (servicer_table ctx)
            [length regs := (link, init_queue m)], resource_table := Some t'\<rparr>"
    using assms(4) t(1) sv
    by (auto simp: servicer_register_def resource_table_add_def Let_def split: prod.splits)
  have new: "CONTROL_SPECIAL_RESID \<notin> set (init_resources m)"
      "\<forall>r\<in>set (init_resources m). t ! unat r = NO_SERVICER"
    using add_resources_0(1) [OF t(2) sv, of "init_resources m"] add by auto
  have t': "table_ok t'"
      "t' ! unat r = (if r \<in> set (init_resources m) then ?sv else t ! unat r)" for r :: byte
    using add_resources_0(2,3) [OF t(2) sv, of "init_resources m"] add by auto
  have old: "r \<notin> set (init_resources m)"
    if "i < length regs" "r \<in> set (init_resources (snd (regs ! i)))" for i r
  proof
    assume "r \<in> set (init_resources m)"
    with new(2) t(3) that have "(of_nat i :: byte) = NO_SERVICER" by metis
    with of_nat_byte_not_reserved [of i] that(1) assms(2,3) show False by simp
  qed
  have "t' ! unat r = NO_SERVICER \<or> (\<exists>i<length (regs @ [(link, m)]).
      r \<in> set (init_resources (snd ((regs @ [(link, m)]) ! i))))" for r :: byte
  proof (cases "r \<in> set (init_resources m)")
    case True
    then show ?thesis by (intro disjI2 exI [of _ "length regs"]) simp
  next
    case False
    with t(4) t'(2) [of r] show ?thesis
      by (metis length_append less_SucI nth_append length_append_singleton)
  qed
  moreover have "\<forall>i<length (regs @ [(link, m)]). \<forall>r\<in>set (init_resources (snd ((regs @ [(link, m)]) ! i))).
      r \<noteq> CONTROL_SPECIAL_RESID \<and> t' ! unat r = of_nat i"
    using t(3) new(1) old by (auto simp: t'(2) nth_append less_Suc_eq)
  moreover have "\<forall>i<length (regs @ [(link, m)]). servicer_table ctx' ! i
      = (fst ((regs @ [(link, m)]) ! i), init_queue (snd ((regs @ [(link, m)]) ! i)))"
    using tab assms(2) len by (auto simp: ctx' nth_append less_Suc_eq nth_list_update)
  ultimately show ?thesis
    using assms(2) len t'(1) by (simp add: registered_def ctx')
qed

lemma register_one_ok:
  assumes "register_inv msgs count links (ctx, n, 0)" and "n < count" and "count \<le> 255"
    and "\<And>m. msg = Some m \<Longrightarrow> (link, m) \<in> msgs"
  shows "register_inv msgs count links (register_one link msg (ctx, n, 0))"
proof (cases msg)
  case None
  with assms(1) show ?thesis by (simp add: register_one_def)
next
  case (Some m)
  obtain ctx' ret' where r: "servicer_register ctx m link n = (ctx', ret')" by fastforce
  have same: "servicer_count ctx' = servicer_count ctx" "client_intertile ctx' = client_intertile ctx"
    using r by (auto simp: servicer_register_def Let_def split: prod.splits)
  from assms(1) obtain regs where regs: "length regs = n" "set regs \<subseteq> msgs" "registered regs ctx"
    by (auto simp: register_inv_def)
  have "\<exists>regs'. length regs' = Suc n \<and> set regs' \<subseteq> msgs \<and> registered regs' ctx'" if "ret' = 0"
  proof -
    have "registered (regs @ [(link, m)]) ctx'"
      using servicer_register_ok [OF regs(3), of m link ctx'] r that regs(1) assms(1-3)
      by (simp add: register_inv_def)
    with regs(1,2) assms(4) [OF Some] show ?thesis
      by (intro exI [of _ "regs @ [(link, m)]"]) simp
  qed
  with r assms(1,2) same show ?thesis
    by (auto simp: register_one_def Some register_inv_def)
qed

lemma register_links_ok:
  assumes "register_inv msgs count links x" and "count \<le> 255"
    and "\<And>l m. (l, Some m) \<in> set ms \<Longrightarrow> (Some l, m) \<in> msgs"
  shows "register_inv msgs count links (register_links ms x)"
  using assms
proof (induction ms x rule: register_links.induct)
  case (2 link msg ms ctx n ret)
  show ?case
  proof (cases "n < servicer_count ctx \<and> ret = 0")
    case True
    with 2 have "register_inv msgs count links (register_one (Some link) msg (ctx, n, ret))"
      using register_one_ok [of msgs count links ctx n msg "Some link"]
      by (auto simp: register_inv_def)
    with 2 True show ?thesis by simp
  next
    case False
    with 2(2) show ?thesis by auto
  qed
qed simp

definition messages ::
  "u32 list \<Rightarrow> (servicer_init_data option \<times> servicer_init_data option list) list
     \<Rightarrow> registration set" where
  "messages links turns =
     (\<Union>(gw, ms)\<in>set turns. (case gw of None \<Rightarrow> {} | Some m \<Rightarrow> {(None, m)})
        \<union> {(Some l, m) | l m. (l, Some m) \<in> set (zip links ms)})"

lemma register_loop_ok:
  assumes "register_inv msgs count links x" and "count \<le> 255"
    and "messages links turns \<subseteq> msgs"
  shows "register_inv msgs count links (register_loop turns x)"
  using assms
proof (induction turns x rule: register_loop.induct)
  case (2 gw ms turns ctx n ret)
  have rest: "messages links turns \<subseteq> msgs"
    using 2(4) by (auto simp: messages_def)
  show ?case
  proof (cases "n < servicer_count ctx \<and> ret = 0")
    case True
    have links: "client_intertile ctx = links" "servicer_count ctx = count"
      using 2(2) by (simp_all add: register_inv_def)
    have one: "register_inv msgs count links (register_one None gw (ctx, n, ret))"
    proof -
      have "(None, m) \<in> msgs" if "gw = Some m" for m
        using 2(4) that by (auto simp: messages_def)
      then show ?thesis
        using register_one_ok [of msgs count links ctx n gw None] 2(2,3) True links by simp
    qed
    have "register_inv msgs count links (register_links (zip (client_intertile ctx) ms)
        (register_one None gw (ctx, n, ret)))"
      using 2(4) by (intro register_links_ok one 2(3)) (auto simp: messages_def links)
    with 2(1) [OF True] 2(3) rest True show ?thesis by simp
  next
    case False
    with 2(2) show ?thesis by auto
  qed
qed simp

text \<open>
  When registration succeeds, as many servicers as expected have registered, each with a
  message that was received; each has its own entry with its queue and link, every resource
  it asked for maps to it, the reserved resource is not registered, and every other resource
  is free.
\<close>

theorem device_control_registration_ok:
  assumes "resource_table ctx = Some resource_table_init" and "servicer_count ctx \<le> 255"
    and "device_control_resources_register turns ctx = (CONTROL_SUCCESS, ctx')"
  shows "\<exists>regs. length regs = servicer_count ctx \<and> set regs \<subseteq> messages (client_intertile ctx) turns
    \<and> registered regs ctx'"
proof -
  let ?ctx1 = "ctx\<lparr>servicer_table := replicate (servicer_count ctx) (None, 0)\<rparr>"
  let ?M = "messages (client_intertile ctx) turns"
  obtain ctx2 n ret where loop: "register_loop turns (?ctx1, 0, 0) = (ctx2, n, ret)"
    by (metis prod_cases3)
  have "unat r < RESOURCE_TABLE_SIZE" for r :: byte
    using unat_byte_in_table [of resource_table_init r]
    by (simp add: table_ok_def resource_table_init_def)
  then have "registered [] ?ctx1"
    using assms(1) by (simp add: registered_def table_ok_def resource_table_init_def)
  then have "register_inv ?M (servicer_count ctx) (client_intertile ctx) (?ctx1, 0, 0)"
    by (simp add: register_inv_def)
  from register_loop_ok [OF this assms(2) subset_refl] loop
  have inv: "register_inv ?M (servicer_count ctx) (client_intertile ctx) (ctx2, n, ret)" by simp
  have "n = servicer_count ctx2" "ctx' = ctx2"
    using assms(3) loop
    by (auto simp: device_control_resources_register_def Let_def control_rets split: if_splits)
  with inv show ?thesis
    by (auto simp: register_inv_def)
qed

section \<open>Commands\<close>

text \<open>A servicer that waits in vain has an error; one that gets a command succeeds whatever its callback says.\<close>

lemma servicer_cmd_recv_result:
  "device_control_servicer_cmd_recv cbs tile msg s = Inr (ret, answer, s') \<Longrightarrow>
     ret = (if msg = None then CONTROL_ERROR else CONTROL_SUCCESS) \<and> (answer = None \<longleftrightarrow> msg = None)"
  by (auto simp: device_control_servicer_cmd_recv_def rbind_eq_Inr split: option.splits if_splits)

text \<open>
  What a servicer registers with the instance of its own tile, and what the instance of another tile gets
  over its link, is its queue and its resources.
\<close>

lemma servicer_registers_everywhere:
  "fst (device_control_servicer_register q ctxs rs) = CONTROL_SUCCESS"
  "(dest, m) \<in> set (snd (device_control_servicer_register q ctxs rs)) \<Longrightarrow> init_queue m = q \<and> init_resources m = rs"
  "length (snd (device_control_servicer_register q ctxs rs)) = length ctxs"
  by (auto simp: device_control_servicer_register_def)

lemma off_tile_command_local:
  assumes "callbacks_ok cbs" and "\<And>n. length (heap n) = n" and "c_payload_len c \<le> length payload"
    and "IS_CONTROL_CMD_READ (c_cmd c) \<Longrightarrow> 0 < c_payload_len c"
  shows "off_tile_command cbs heap c payload s = servicer_cmd_recv_local cbs c payload s"
proof (cases "IS_CONTROL_CMD_READ (c_cmd c)")
  case True
  let ?n = "c_payload_len c"
  obtain ret out s' where r: "read_cmd_cb cbs (c_queue c) (c_resid c) (c_cmd c)
      (take ?n payload) s = (ret, out, s')"
    by (metis prod_cases3)
  with assms(1-3) have h: "length out = ?n" "read_cmd_cb cbs (c_queue c) (c_resid c) (c_cmd c)
      (heap ?n) s = (ret, out, s')"
    unfolding callbacks_ok_def by (metis length_take min.absorb2)+
  have "bytes_word (take 4 (word_bytes 4 ret @ out)) = ret"
    by simp
  with True assms r h show ?thesis
    by (simp add: off_tile_command_def client_thread_receive_def servicer_cmd_recv_remote_def
        servicer_cmd_recv_local_def run_callback_def)
next
  case False
  let ?n = "c_payload_len c"
  obtain ret s' where "write_cmd_cb cbs (c_queue c) (c_resid c) (c_cmd c) (take ?n payload) s
      = (ret, s')"
    by fastforce
  with False assms(3) show ?thesis
    by (simp add: off_tile_command_def client_thread_receive_def servicer_cmd_recv_remote_def
        servicer_cmd_recv_local_def run_callback_def)
qed

definition all_on_tile :: "device_control \<Rightarrow> device_control" where
  "all_on_tile ctx = ctx\<lparr>servicer_table := map (\<lambda>(l, q). (None, q)) (servicer_table ctx)\<rparr>"

text \<open>
  C10. A command to a servicer on another tile, sent through the intertile link and answered
  over it, returns the same status, the same payload and the same servicer state as the
  command to the servicer on the gateway's own tile, for every payload that fits its buffer
  and, for reads, is not empty.
\<close>

theorem do_command_location_transparent:
  assumes "callbacks_ok cbs" and "\<And>n. length (heap n) = n" and "payload_len \<le> length payload"
    and "IS_CONTROL_CMD_READ cmd \<Longrightarrow> 0 < payload_len"
  shows "do_command cbs heap ctx servicer resid cmd payload payload_len s
    = do_command cbs heap (all_on_tile ctx) servicer resid cmd payload payload_len s"
proof -
  have "off_tile_command cbs heap \<lparr>c_queue = q, c_payload_len = payload_len, c_resid = resid,
      c_cmd = cmd\<rparr> payload s
    = servicer_cmd_recv_local cbs \<lparr>c_queue = q, c_payload_len = payload_len, c_resid = resid,
      c_cmd = cmd\<rparr> payload s" for q
    using assms by (intro off_tile_command_local) simp_all
  then show ?thesis
    by (auto simp: do_command_def all_on_tile_def special_read_command_def Let_def
        split: prod.splits option.splits)
qed

lemma registered_search:
  assumes "registered regs ctx" and "i < length regs" and "servicer_count ctx \<le> 255"
    and "r \<in> set (init_resources (snd (regs ! i)))" and "resource_table ctx = Some t"
  shows "resource_table_search t r = (of_nat i, 0)" and "r \<noteq> CONTROL_SPECIAL_RESID"
    and "unat (of_nat i :: byte) = i" and "i < length (servicer_table ctx)"
    and "servicer_table ctx ! i = (fst (regs ! i), init_queue (snd (regs ! i)))"
proof -
  have i: "i < 255"
    using assms(1-3) by (simp add: registered_def)
  show "r \<noteq> CONTROL_SPECIAL_RESID" "i < length (servicer_table ctx)"
      "servicer_table ctx ! i = (fst (regs ! i), init_queue (snd (regs ! i)))"
    using assms by (auto simp: registered_def)
  show "unat (of_nat i :: byte) = i"
    using i by (simp add: unat_of_nat take_bit_nat_eq_self)
  have "t ! unat r = of_nat i"
    using assms by (auto simp: registered_def)
  then show "resource_table_search t r = (of_nat i, 0)"
    using of_nat_byte_not_reserved [OF i] by (simp add: resource_table_search_def)
qed

lemma special_is_found: "resource_table_search t CONTROL_SPECIAL_RESID
    = (t ! unat CONTROL_SPECIAL_RESID, 0)"
  by (simp add: resource_table_search_def Let_def)

text \<open>
  After registration, a write command for a resource runs the write callback of the servicer
  that registered the resource, on either tile, with the payload the host sent, and the
  status the servicer returns is what the host reads next with the last-command-status
  command.
\<close>

theorem device_control_write_and_status:
  assumes "registered regs ctx" and "i < length regs" and "servicer_count ctx \<le> 255"
    and "r \<in> set (init_resources (snd (regs ! i)))" and "\<not> IS_CONTROL_CMD_READ cmd"
    and "len \<le> length payload" and "len \<le> buf_size"
    and "callbacks_ok cbs" and "\<And>n. length (heap n) = n"
    and "write_cmd_cb cbs (init_queue (snd (regs ! i))) r cmd (take len payload) s = (ret, s')"
  shows "\<exists>ctx1 ctx2 ctx3.
    device_control_request ctx r cmd len = Inr (CONTROL_SUCCESS, ctx1) \<and>
    device_control_payload_transfer cbs heap ctx1 payload buf_size CONTROL_HOST_TO_DEVICE s
      = Inr (CONTROL_SUCCESS, payload, ctx2, s') \<and>
    device_control_request ctx2 CONTROL_SPECIAL_RESID CONTROL_GET_LAST_COMMAND_STATUS 1
      = Inr (CONTROL_SUCCESS, ctx3) \<and>
    device_control_payload_transfer cbs heap ctx3 [b] 1 CONTROL_DEVICE_TO_HOST s'
      = Inr (CONTROL_SUCCESS, [ucast ret], ctx3, s')"
proof -
  from assms(1) obtain t where t: "resource_table ctx = Some t"
    by (auto simp: registered_def)
  note found = registered_search [OF assms(1-4) t]
  let ?ctx1 = "ctx\<lparr>requested_resid := r, requested_cmd := cmd, requested_payload_len := len\<rparr>"
  let ?ctx2 = "?ctx1\<lparr>last_status := ucast ret\<rparr>"
  let ?ctx3 = "?ctx2\<lparr>requested_resid := CONTROL_SPECIAL_RESID,
      requested_cmd := CONTROL_GET_LAST_COMMAND_STATUS, requested_payload_len := 1\<rparr>"
  let ?c = "\<lparr>c_queue = init_queue (snd (regs ! i)), c_payload_len = len, c_resid = r, c_cmd = cmd\<rparr>"
  have off: "off_tile_command cbs heap ?c payload s = servicer_cmd_recv_local cbs ?c payload s"
    using assms(5,6,8,9) by (intro off_tile_command_local) simp_all
  have local: "servicer_cmd_recv_local cbs ?c payload s = Inr (ret, payload, s')"
    using assms(5,6,10) by (simp add: servicer_cmd_recv_local_def run_callback_def)
  have cmd: "do_command cbs heap ?ctx1 (of_nat i) r cmd payload len s = Inr (ret, payload, s')"
    using found off local by (simp add: do_command_def Let_def split: option.split)
  have req: "device_control_request ctx r cmd len = Inr (CONTROL_SUCCESS, ?ctx1)"
    using t found by (simp add: device_control_request_def the_table_def)
  have wr: "device_control_payload_transfer cbs heap ?ctx1 payload buf_size
      CONTROL_HOST_TO_DEVICE s = Inr (CONTROL_SUCCESS, payload, ?ctx2, s')"
    using t found cmd assms(5,7)
    by (simp add: device_control_payload_transfer_def the_table_def)
  have read: "IS_CONTROL_CMD_READ CONTROL_GET_LAST_COMMAND_STATUS"
      "CONTROL_GET_LAST_COMMAND_STATUS \<noteq> CONTROL_GET_VERSION"
    by (simp_all add: IS_CONTROL_CMD_READ_def CONTROL_GET_LAST_COMMAND_STATUS_def
        CONTROL_CMD_SET_READ_def CONTROL_GET_VERSION_def)
  have req2: "device_control_request ?ctx2 CONTROL_SPECIAL_RESID CONTROL_GET_LAST_COMMAND_STATUS 1
      = Inr (CONTROL_SUCCESS, ?ctx3)"
    using t special_is_found [of t] by (simp add: device_control_request_def the_table_def)
  have rd: "device_control_payload_transfer cbs heap ?ctx3 [b] 1 CONTROL_DEVICE_TO_HOST s'
      = Inr (CONTROL_SUCCESS, [ucast ret], ?ctx3, s')"
    using t read special_is_found [of t]
    by (simp add: device_control_payload_transfer_def the_table_def do_command_def
        special_read_command_def)
  from req wr req2 rd show ?thesis by blast
qed

text \<open>
  A read of zero bytes on another tile fails the client thread's assertion; on the gateway's
  tile it is answered. A read longer than the transport's buffer writes past its end,
  whatever \<open>buf_size\<close> says.
\<close>

text \<open>
  A read transfer for a servicer on the gateway's tile whose requested length exceeds the
  transport's buffer accesses memory past the end of the buffer, whatever the size passed in
  is.
\<close>

theorem device_control_read_overruns_buffer:
  assumes "registered regs ctx" and "i < length regs" and "servicer_count ctx \<le> 255"
    and "r \<in> set (init_resources (snd (regs ! i)))" and "IS_CONTROL_CMD_READ cmd"
    and "fst (regs ! i) = None" and "length payload < len"
    and "device_control_request ctx r cmd len = Inr (CONTROL_SUCCESS, ctx1)"
  shows "device_control_payload_transfer cbs heap ctx1 payload buf_size CONTROL_DEVICE_TO_HOST s
    = Inl Bad_access"
proof -
  from assms(1) obtain t where t: "resource_table ctx = Some t"
    by (auto simp: registered_def)
  note found = registered_search [OF assms(1-4) t]
  have "ctx1 = ctx\<lparr>requested_resid := r, requested_cmd := cmd, requested_payload_len := len\<rparr>"
    using assms(8) t found by (simp add: device_control_request_def the_table_def)
  with t found assms(5-7) show ?thesis
    by (simp add: device_control_payload_transfer_def the_table_def do_command_def
        servicer_cmd_recv_local_def run_callback_def read_mem_def)
qed

lemma off_tile_empty_read:
  "IS_CONTROL_CMD_READ (c_cmd c) \<Longrightarrow> c_payload_len c = 0 \<Longrightarrow>
     off_tile_command cbs heap c payload s = Inl Assert_failed"
  by (simp add: off_tile_command_def client_thread_receive_def)

section \<open>A concrete instance\<close>

text \<open>
  Two servicers, one on the gateway's tile and one behind link 5; writes store the payload,
  reads answer with zeros.
\<close>

definition store_cbs :: "byte list servicer_cbs" where
  "store_cbs =
     \<lparr>read_cmd_cb = (\<lambda>q r c buf s. (0, replicate (length buf) 0, s)),
      write_cmd_cb = (\<lambda>q r c buf s. (if c = 9 then 64 else 0, buf))\<rparr>"

definition demo_turns :: "(servicer_init_data option \<times> servicer_init_data option list) list" where
  "demo_turns =
     [(Some \<lparr>init_queue = 11, init_resources = [1, 2]\<rparr>, [None]),
      (None, [Some \<lparr>init_queue = 12, init_resources = [3]\<rparr>])]"

definition demo_ctx :: device_control where
  "demo_ctx = zero_device_control\<lparr>resource_table := Some resource_table_init,
     servicer_count := 2, client_intertile := [5]\<rparr>"

definition demo_regs :: "registration list" where
  "demo_regs = [(None, \<lparr>init_queue = 11, init_resources = [1, 2]\<rparr>),
     (Some 5, \<lparr>init_queue = 12, init_resources = [3]\<rparr>)]"

definition demo_registered :: device_control where
  "demo_registered = demo_ctx\<lparr>servicer_table := [(None, 11), (Some 5, 12)],
     resource_table := Some (resource_table_init[1 := 0, 2 := 0, 3 := 1])\<rparr>"

lemma store_cbs_ok: "callbacks_ok store_cbs"
  by (auto simp: callbacks_ok_def store_cbs_def)

lemma demo_register: "device_control_resources_register demo_turns demo_ctx
    = (CONTROL_SUCCESS, demo_registered)"
proof -
  have two: "replicate 2 x = [x, x]" for x :: "u32 option \<times> nat"
    by (simp add: numeral_2_eq_2)
  show ?thesis
    by (simp add: device_control_resources_register_def demo_turns_def demo_ctx_def two Let_def
        register_one_def servicer_register_def resource_table_add_def NO_SERVICER_def
        CONTROL_SPECIAL_RESID_def zero_device_control_def demo_registered_def
        resource_table_init_def RESOURCE_TABLE_SIZE_def)
qed

theorem device_control_registration_ok_witness:
  "\<exists>regs. length regs = 2 \<and> set regs \<subseteq> messages [5] demo_turns \<and> registered regs demo_registered"
  using device_control_registration_ok [OF _ _ demo_register]
  by (simp add: demo_ctx_def)

lemma demo_registered_ok: "registered demo_regs demo_registered"
proof -
  define t where "t = resource_table_init[1 := 0, 2 := 0, 3 := 1]"
  have at: "t ! unat r = (if r = 3 then 1 else if r = 2 \<or> r = 1 then 0 else NO_SERVICER)"
    for r :: byte
    using unat_byte_in_table [of resource_table_init r]
    by (auto simp: table_ok_def resource_table_init_def RESOURCE_TABLE_SIZE_def nth_list_update
        word_unat_eq_iff t_def)
  have "table_ok t"
    by (simp add: table_ok_def resource_table_init_def t_def)
  then show ?thesis
    unfolding registered_def demo_registered_def demo_ctx_def demo_regs_def t_def [symmetric]
    using at [of 1] at [of 2] at [of 3]
    by (simp add: All_less_Suc Ex_less_Suc CONTROL_SPECIAL_RESID_def at)
qed

theorem do_command_location_transparent_witness:
  "do_command store_cbs (\<lambda>n. replicate n 7) demo_registered 1 3 4 [8, 9] 2 []
    = Inr (0, [8, 9], [8, 9])"
  using do_command_location_transparent [of store_cbs "\<lambda>n. replicate n 7" 2 "[8, 9]" 4
      demo_registered 1 3 "[]"] store_cbs_ok
  by (simp add: demo_registered_def demo_ctx_def all_on_tile_def do_command_def
      CONTROL_SPECIAL_RESID_def servicer_cmd_recv_local_def run_callback_def store_cbs_def
      IS_CONTROL_CMD_READ_def)

theorem device_control_write_and_status_witness:
  "\<exists>ctx1 ctx2 ctx3.
    device_control_request demo_registered 3 9 2 = Inr (CONTROL_SUCCESS, ctx1) \<and>
    device_control_payload_transfer store_cbs (\<lambda>n. replicate n 7) ctx1 [8, 9] 2
      CONTROL_HOST_TO_DEVICE [] = Inr (CONTROL_SUCCESS, [8, 9], ctx2, [8, 9]) \<and>
    device_control_request ctx2 CONTROL_SPECIAL_RESID CONTROL_GET_LAST_COMMAND_STATUS 1
      = Inr (CONTROL_SUCCESS, ctx3) \<and>
    device_control_payload_transfer store_cbs (\<lambda>n. replicate n 7) ctx3 [0] 1
      CONTROL_DEVICE_TO_HOST [8, 9] = Inr (CONTROL_SUCCESS, [ucast (64 :: u32)], ctx3, [8, 9])"
  by (rule device_control_write_and_status [OF demo_registered_ok, of 1])
    (simp_all add: demo_regs_def demo_registered_def demo_ctx_def IS_CONTROL_CMD_READ_def
      store_cbs_ok, simp_all add: store_cbs_def)

theorem device_control_read_overruns_buffer_witness:
  "\<exists>ctx1. device_control_request demo_registered 1 0x81 2 = Inr (CONTROL_SUCCESS, ctx1) \<and>
    device_control_payload_transfer store_cbs (\<lambda>n. replicate n 7) ctx1 [8] 1
      CONTROL_DEVICE_TO_HOST [] = Inl Bad_access"
proof -
  have t: "resource_table demo_registered = Some (resource_table_init[1 := 0, 2 := 0, 3 := 1])"
    by (simp add: demo_registered_def)
  have "resource_table_search (resource_table_init[1 := 0, 2 := 0, 3 := 1]) 1 = (of_nat 0, 0)"
    by (rule registered_search [OF demo_registered_ok _ _ _ t])
      (simp_all add: demo_regs_def demo_registered_def demo_ctx_def)
  then obtain ctx1 where r: "device_control_request demo_registered 1 0x81 2
      = Inr (CONTROL_SUCCESS, ctx1)"
    by (simp add: device_control_request_def the_table_def t)
  have "device_control_payload_transfer store_cbs (\<lambda>n. replicate n 7) ctx1 [8] 1
      CONTROL_DEVICE_TO_HOST [] = Inl Bad_access"
    by (rule device_control_read_overruns_buffer [OF demo_registered_ok _ _ _ _ _ _ r, of 0])
      (simp_all add: demo_regs_def demo_registered_def demo_ctx_def IS_CONTROL_CMD_READ_def)
  with r show ?thesis by blast
qed

end
