(* ===== verification/Qspi_Flash.thy ===== *)
theory Qspi_Flash
  imports Prelude
begin

text \<open>
  The QSPI flash driver (modules/drivers/qspi_flash/src/rtos_qspi_flash.c): the chunked
  reads, page-wise writes and sector-wise erases, the operation thread that switches between
  the two flash libraries, and the locks.

  The flash libraries are not in the repository: they are the fields of the record
  \<open>flash_api\<close> over a device state of any type; \<open>nor_flash_ok\<close> states what they and a NOR
  flash chip promise. Addresses and sizes are numbers below 2^32; \<open>add32\<close> is the addition
  of unsigned ints.
\<close>

definition add32 :: "nat \<Rightarrow> nat \<Rightarrow> nat" where
  "add32 a b = (a + b) mod 2 ^ 32"

lemma add32_small [simp]: "a + b < 2 ^ 32 \<Longrightarrow> add32 a b = a + b"
  by (simp add: add32_def)

definition RTOS_QSPI_FLASH_READ_CHUNK_SIZE :: nat where
  "RTOS_QSPI_FLASH_READ_CHUNK_SIZE = 24 * 1024"

definition QSPI_ERASE_TYPE_SIZE_LOG2 :: nat where "QSPI_ERASE_TYPE_SIZE_LOG2 = 12"
definition ERASE_CHIP :: byte where "ERASE_CHIP = 0xC7"

datatype transfer_mode = transfer_raw | transfer_nibble_swap

record 'd flash_api =
  fl_int_read :: "nat \<Rightarrow> nat \<Rightarrow> 'd \<Rightarrow> byte list \<times> 'd"
  fl_int_write :: "nat \<Rightarrow> byte list \<Rightarrow> 'd \<Rightarrow> 'd"
  fl_int_sendSingleByteCommand :: "byte \<Rightarrow> 'd \<Rightarrow> 'd"
  fl_int_eraseSector :: "nat \<Rightarrow> 'd \<Rightarrow> 'd"
  fl_getBusyStatus :: "'d \<Rightarrow> bool \<times> 'd"
  fl_getPageSize :: nat
  writeEnableCommand :: byte
  writeDisableCommand :: byte
  fl_connectToDevice :: "'d \<Rightarrow> int \<times> 'd"
  fl_disconnect :: "'d \<Rightarrow> 'd"
  fast_read_setup :: "'d \<Rightarrow> 'd"
  fast_read_shutdown :: "'d \<Rightarrow> 'd"
  fast_read :: "transfer_mode \<Rightarrow> nat \<Rightarrow> nat \<Rightarrow> 'd \<Rightarrow> byte list \<times> 'd"

section \<open>Reads\<close>

text \<open>
  The loop that \<open>read_op\<close>, \<open>read_fast_op\<close> and the three low-level reads have in common, for
  the library call \<open>rd\<close>: \<open>pos\<close> is how far \<open>data\<close> has advanced in the caller's buffer. It
  need not end.
\<close>

partial_function (option) read_loop ::
  "(nat \<Rightarrow> nat \<Rightarrow> 'd \<Rightarrow> byte list \<times> 'd) \<Rightarrow> nat \<Rightarrow> byte list \<Rightarrow> nat \<Rightarrow> nat \<Rightarrow> nat \<Rightarrow> 'd
     \<Rightarrow> (byte list \<times> 'd) option" where
  "read_loop rd flash_size data pos address len d =
     (if len = 0 then Some (data, d)
      else
        let original_len = min len RTOS_QSPI_FLASH_READ_CHUNK_SIZE;
            address1 = (if address \<ge> flash_size then flash_size else address);
            past = add32 address1 original_len > flash_size;
            read_len = (if past then flash_size - address1 else original_len);
            data1 = (if past
                     then put_at data (pos + read_len) (replicate (original_len - read_len) 0xFF)
                     else data);
            (bytes, d1) = rd address1 read_len d
        in read_loop rd flash_size (put_at data1 pos bytes) (pos + read_len)
             (add32 address1 read_len) (len - read_len) d1)"

definition read_op ::
  "'d flash_api \<Rightarrow> nat \<Rightarrow> byte list \<Rightarrow> nat \<Rightarrow> nat \<Rightarrow> 'd \<Rightarrow> (byte list \<times> 'd) option" where
  "read_op api flash_size data address len d =
     read_loop (fl_int_read api) flash_size data 0 address len d"

definition read_fast_op ::
  "'d flash_api \<Rightarrow> transfer_mode \<Rightarrow> nat \<Rightarrow> byte list \<Rightarrow> nat \<Rightarrow> nat \<Rightarrow> 'd
     \<Rightarrow> (byte list \<times> 'd) option" where
  "read_fast_op api mode flash_size data address len d =
     read_loop (fast_read api mode) flash_size data 0 address len d"

section \<open>Writes\<close>

partial_function (option) while_busy :: "'d flash_api \<Rightarrow> 'd \<Rightarrow> 'd option" where
  "while_busy api d =
     (let (busy, d1) = fl_getBusyStatus api d in if busy then while_busy api d1 else Some d1)"

text \<open>One page program, and the loop of \<open>write_op\<close>; a page is at least one byte long.\<close>

definition program_page :: "'d flash_api \<Rightarrow> nat \<Rightarrow> byte list \<Rightarrow> 'd \<Rightarrow> 'd option" where
  "program_page api address bs d =
     map_option (fl_int_sendSingleByteCommand api (writeDisableCommand api))
       (while_busy api
         (fl_int_write api address bs
           (fl_int_sendSingleByteCommand api (writeEnableCommand api) d)))"

partial_function (option) write_loop ::
  "'d flash_api \<Rightarrow> nat \<Rightarrow> byte list \<Rightarrow> nat \<Rightarrow> nat \<Rightarrow> 'd \<Rightarrow> 'd option" where
  "write_loop api flash_size write_buf address_to_write bytes_left_to_write d =
     (if bytes_left_to_write = 0 then Some d
      else
        let max_bytes_to_write =
              fl_getPageSize api - (address_to_write AND (fl_getPageSize api - 1));
            bytes_to_write =
              (if bytes_left_to_write \<le> max_bytes_to_write then bytes_left_to_write
               else max_bytes_to_write)
        in if address_to_write \<ge> flash_size then Some d
           else Option.bind
             (program_page api address_to_write (take bytes_to_write write_buf) d)
             (write_loop api flash_size (drop bytes_to_write write_buf)
               (add32 address_to_write bytes_to_write) (bytes_left_to_write - bytes_to_write)))"

definition write_op :: "'d flash_api \<Rightarrow> nat \<Rightarrow> byte list \<Rightarrow> nat \<Rightarrow> nat \<Rightarrow> 'd \<Rightarrow> 'd option" where
  "write_op api flash_size data address len d = write_loop api flash_size data address len d"

section \<open>Erases\<close>

definition SECTORS_TO_BYTES :: "nat \<Rightarrow> nat \<Rightarrow> nat" where
  "SECTORS_TO_BYTES s ss_log2 = s * 2 ^ ss_log2 mod 2 ^ 32"

definition BYTE_TO_SECTOR_ADDRESS :: "nat \<Rightarrow> nat \<Rightarrow> nat" where
  "BYTE_TO_SECTOR_ADDRESS b ss_log2 = b div 2 ^ ss_log2"

definition erase_command :: "'d flash_api \<Rightarrow> ('d \<Rightarrow> 'd) \<Rightarrow> 'd \<Rightarrow> 'd option" where
  "erase_command api erase d =
     map_option (fl_int_sendSingleByteCommand api (writeDisableCommand api))
       (while_busy api
         (erase (fl_int_sendSingleByteCommand api (writeEnableCommand api) d)))"

text \<open>\<open>Some (Inl _)\<close> is the failed alignment assertion.\<close>

partial_function (option) erase_loop ::
  "'d flash_api \<Rightarrow> nat \<Rightarrow> nat \<Rightarrow> nat \<Rightarrow> 'd \<Rightarrow> 'd res option" where
  "erase_loop api flash_size address_to_erase bytes_left_to_erase d =
     (if bytes_left_to_erase = 0 then Some (Inr d)
      else if address_to_erase \<ge> flash_size then Some (Inr d)
      else if address_to_erase \<noteq> SECTORS_TO_BYTES
                (BYTE_TO_SECTOR_ADDRESS address_to_erase QSPI_ERASE_TYPE_SIZE_LOG2)
                QSPI_ERASE_TYPE_SIZE_LOG2
      then Some (Inl Assert_failed)
      else
        let erase_length = 2 ^ QSPI_ERASE_TYPE_SIZE_LOG2
        in Option.bind (erase_command api (fl_int_eraseSector api address_to_erase) d)
             (erase_loop api flash_size (add32 address_to_erase erase_length)
               (bytes_left_to_erase
                - (if erase_length < bytes_left_to_erase then erase_length
                   else bytes_left_to_erase))))"

definition erase_op :: "'d flash_api \<Rightarrow> nat \<Rightarrow> nat \<Rightarrow> nat \<Rightarrow> 'd \<Rightarrow> 'd res option" where
  "erase_op api flash_size address len d =
     (if address = 0 \<and> len \<ge> flash_size then
        map_option Inr (erase_command api (fl_int_sendSingleByteCommand api ERASE_CHIP) d)
      else
        let sector_address = BYTE_TO_SECTOR_ADDRESS address QSPI_ERASE_TYPE_SIZE_LOG2;
            start = SECTORS_TO_BYTES sector_address QSPI_ERASE_TYPE_SIZE_LOG2
        in if start \<noteq> address
           then erase_loop api flash_size start (add32 len (address - start)) d
           else erase_loop api flash_size address len d)"

section \<open>What a NOR flash promises\<close>

text \<open>
  A view of the device: its cells, the write enable latch, how many more times the chip
  will answer that it is busy, and whether the flash library is connected to it.
  Programming a page can only clear bits, and wants the write enable latch and an idle chip;
  erasing sets the bytes of a sector to 0xFF.
\<close>

record 'd nor_view =
  cells :: "'d \<Rightarrow> nat \<Rightarrow> byte"
  wel :: "'d \<Rightarrow> bool"
  pending :: "'d \<Rightarrow> nat"
  selected :: "'d \<Rightarrow> bool"

definition ready :: "'d nor_view \<Rightarrow> 'd \<Rightarrow> bool" where
  "ready v d \<longleftrightarrow> pending v d = 0 \<and> selected v d"

definition same_cells :: "'d nor_view \<Rightarrow> 'd \<Rightarrow> 'd \<Rightarrow> bool" where
  "same_cells v d d' \<longleftrightarrow> cells v d' = cells v d"

definition programmed :: "(nat \<Rightarrow> byte) \<Rightarrow> nat \<Rightarrow> byte list \<Rightarrow> nat \<Rightarrow> byte" where
  "programmed m a bs = (\<lambda>x. if a \<le> x \<and> x < a + length bs then m x AND bs ! (x - a) else m x)"

definition erased :: "(nat \<Rightarrow> byte) \<Rightarrow> nat \<Rightarrow> nat \<Rightarrow> nat \<Rightarrow> byte" where
  "erased m a b = (\<lambda>x. if a \<le> x \<and> x < b then 0xFF else m x)"

definition nor_flash_ok :: "'d flash_api \<Rightarrow> 'd nor_view \<Rightarrow> nat \<Rightarrow> bool" where
  "nor_flash_ok api v flash_size \<longleftrightarrow>
     (\<exists>k. fl_getPageSize api = 2 ^ k) \<and>
     ERASE_CHIP \<notin> {writeEnableCommand api, writeDisableCommand api} \<and>
     writeEnableCommand api \<noteq> writeDisableCommand api \<and>
     (\<forall>a n d. ready v d \<longrightarrow> a + n \<le> flash_size \<longrightarrow>
        fst (fl_int_read api a n d) = map (cells v d) [a..<a + n] \<and>
        same_cells v d (snd (fl_int_read api a n d)) \<and> ready v (snd (fl_int_read api a n d))) \<and>
     (\<forall>d. ready v d \<longrightarrow>
        (let d' = fl_int_sendSingleByteCommand api (writeEnableCommand api) d
         in same_cells v d d' \<and> wel v d' \<and> ready v d')) \<and>
     (\<forall>d. ready v d \<longrightarrow>
        (let d' = fl_int_sendSingleByteCommand api (writeDisableCommand api) d
         in same_cells v d d' \<and> \<not> wel v d' \<and> ready v d')) \<and>
     (\<forall>a bs d. ready v d \<longrightarrow> wel v d \<longrightarrow> a < flash_size \<longrightarrow>
        a mod fl_getPageSize api + length bs \<le> fl_getPageSize api \<longrightarrow>
        cells v (fl_int_write api a bs d) = programmed (cells v d) a bs \<and>
        selected v (fl_int_write api a bs d)) \<and>
     (\<forall>a d. ready v d \<longrightarrow> wel v d \<longrightarrow> a < flash_size \<longrightarrow>
        a mod 2 ^ QSPI_ERASE_TYPE_SIZE_LOG2 = 0 \<longrightarrow>
        cells v (fl_int_eraseSector api a d)
          = erased (cells v d) a (a + 2 ^ QSPI_ERASE_TYPE_SIZE_LOG2) \<and>
        selected v (fl_int_eraseSector api a d)) \<and>
     (\<forall>d. ready v d \<longrightarrow> wel v d \<longrightarrow>
        cells v (fl_int_sendSingleByteCommand api ERASE_CHIP d) = erased (cells v d) 0 flash_size \<and>
        selected v (fl_int_sendSingleByteCommand api ERASE_CHIP d)) \<and>
     (\<forall>d. selected v d \<longrightarrow>
        fst (fl_getBusyStatus api d) = (pending v d > 0) \<and>
        same_cells v d (snd (fl_getBusyStatus api d)) \<and>
        pending v (snd (fl_getBusyStatus api d)) = pending v d - 1 \<and>
        selected v (snd (fl_getBusyStatus api d)))"

text \<open>The promises one by one.\<close>

lemma nor_read:
  assumes "nor_flash_ok api v fs" and "ready v d" and "a + n \<le> fs"
  shows "fst (fl_int_read api a n d) = map (cells v d) [a..<a + n]"
    and "cells v (snd (fl_int_read api a n d)) = cells v d"
    and "ready v (snd (fl_int_read api a n d))"
  using assms by (simp_all add: nor_flash_ok_def same_cells_def)

lemma nor_wren:
  assumes "nor_flash_ok api v fs" and "ready v d"
  defines "d' \<equiv> fl_int_sendSingleByteCommand api (writeEnableCommand api) d"
  shows "cells v d' = cells v d" and "wel v d'" and "ready v d'"
  using assms by (simp_all add: nor_flash_ok_def same_cells_def Let_def)

lemma nor_wrdi:
  assumes "nor_flash_ok api v fs" and "ready v d"
  defines "d' \<equiv> fl_int_sendSingleByteCommand api (writeDisableCommand api) d"
  shows "cells v d' = cells v d" and "\<not> wel v d'" and "ready v d'"
  using assms by (simp_all add: nor_flash_ok_def same_cells_def Let_def)

lemma nor_write:
  assumes "nor_flash_ok api v fs" and "ready v d" and "wel v d" and "a < fs"
    and "a mod fl_getPageSize api + length bs \<le> fl_getPageSize api"
  shows "cells v (fl_int_write api a bs d) = programmed (cells v d) a bs"
    and "selected v (fl_int_write api a bs d)"
  using assms by (simp_all add: nor_flash_ok_def)

lemma nor_erase_sector:
  assumes "nor_flash_ok api v fs" and "ready v d" and "wel v d"
    and "a < fs" and "a mod 2 ^ QSPI_ERASE_TYPE_SIZE_LOG2 = 0"
  shows "cells v (fl_int_eraseSector api a d)
      = erased (cells v d) a (a + 2 ^ QSPI_ERASE_TYPE_SIZE_LOG2)
    \<and> selected v (fl_int_eraseSector api a d)"
  using assms by (simp add: nor_flash_ok_def)

lemma nor_erase_chip:
  assumes "nor_flash_ok api v fs" and "ready v d" and "wel v d"
  shows "cells v (fl_int_sendSingleByteCommand api ERASE_CHIP d) = erased (cells v d) 0 fs
    \<and> selected v (fl_int_sendSingleByteCommand api ERASE_CHIP d)"
  using assms by (simp add: nor_flash_ok_def)

lemma nor_busy:
  assumes "nor_flash_ok api v fs" and "selected v d"
  shows "fst (fl_getBusyStatus api d) \<longleftrightarrow> pending v d > 0"
    and "cells v (snd (fl_getBusyStatus api d)) = cells v d"
    and "pending v (snd (fl_getBusyStatus api d)) = pending v d - 1"
    and "selected v (snd (fl_getBusyStatus api d))"
  using assms by (simp_all add: nor_flash_ok_def same_cells_def)

lemma nor_page:
  assumes "nor_flash_ok api v fs"
  shows "a AND (fl_getPageSize api - 1) = a mod fl_getPageSize api" and "fl_getPageSize api > 0"
proof -
  from assms obtain k where k: "fl_getPageSize api = 2 ^ k"
    by (auto simp: nor_flash_ok_def)
  show "a AND (fl_getPageSize api - 1) = a mod fl_getPageSize api"
    unfolding k by (simp only: mask_eq_exp_minus_1 [symmetric] take_bit_eq_mask [symmetric]
        take_bit_eq_mod)
  show "fl_getPageSize api > 0"
    by (simp add: k)
qed

lemma while_busy_ok:
  assumes "nor_flash_ok api v fs" and "selected v d"
  shows "\<exists>d'. while_busy api d = Some d' \<and> cells v d' = cells v d \<and> ready v d'"
  using assms(2)
proof (induction "pending v d" arbitrary: d rule: less_induct)
  case less
  note b = nor_busy [OF assms(1) less.prems]
  show ?case
  proof (cases "pending v d > 0")
    case True
    with b less.hyps [of "snd (fl_getBusyStatus api d)"] show ?thesis
      by (subst while_busy.simps) (auto split: prod.split)
  next
    case False
    with b show ?thesis
      by (subst while_busy.simps) (auto split: prod.split simp: ready_def)
  qed
qed

section \<open>Reads return the contents\<close>

lemma read_loop_ok:
  assumes rd: "\<And>a n d. P d \<Longrightarrow> a + n \<le> fs \<Longrightarrow> fst (rd a n d) = map m [a..<a + n] \<and> P (snd (rd a n d))"
    and "fs < 2 ^ 32" and "P d" and "address + len \<le> fs" and "pos + len \<le> length data"
  shows "\<exists>d'. read_loop rd fs data pos address len d
    = Some (put_at data pos (map m [address..<address + len]), d') \<and> P d'"
  using assms(3-5)
proof (induction len arbitrary: data pos address d rule: less_induct)
  case (less len)
  show ?case
  proof (cases "len = 0")
    case True
    with less.prems show ?thesis
      by (subst read_loop.simps) simp
  next
    case False
    let ?n = "min len RTOS_QSPI_FLASH_READ_CHUNK_SIZE"
    have n: "0 < ?n" "?n \<le> len"
      using False by (simp_all add: RTOS_QSPI_FLASH_READ_CHUNK_SIZE_def)
    obtain bytes d1 where r: "rd address ?n d = (bytes, d1)" by fastforce
    have b: "bytes = map m [address..<address + ?n]" "P d1"
      using rd [of d address ?n] less.prems n r by auto
    have add: "add32 address ?n = address + ?n"
      using less.prems n assms(2) by simp
    have "\<exists>d'. read_loop rd fs (put_at data pos bytes) (pos + ?n) (address + ?n) (len - ?n) d1
      = Some (put_at (put_at data pos bytes) (pos + ?n)
          (map m [address + ?n..<address + ?n + (len - ?n)]), d') \<and> P d'"
      using less.prems n b by (intro less.IH) auto
    moreover have "put_at (put_at data pos bytes) (pos + length bytes)
          (map m [address + ?n..<address + ?n + (len - ?n)])
        = put_at data pos (bytes @ map m [address + ?n..<address + ?n + (len - ?n)])"
      using less.prems n b by (intro put_at_put_at) simp
    moreover have "bytes @ map m [address + ?n..<address + ?n + (len - ?n)]
        = map m [address..<address + len]"
      using n upt_add_eq_append [of address "address + ?n" "len - ?n"] b(1)
      by (simp flip: map_append)
    moreover have "length bytes = ?n" by (simp add: b)
    moreover have "\<not> fs \<le> address" "\<not> fs < address + ?n"
      using less.prems n False by auto
    ultimately show ?thesis
      using False r add by (subst read_loop.simps) (simp add: Let_def)
  qed
qed

text \<open>A read inside the flash returns its contents.\<close>

theorem qspi_read_op_ok:
  assumes "nor_flash_ok api v flash_size" and "ready v d" and "flash_size < 2 ^ 32"
    and "address + len \<le> flash_size" and "length data = len"
  shows "\<exists>d'. read_op api flash_size data address len d
      = Some (map (cells v d) [address..<address + len], d')
    \<and> cells v d' = cells v d \<and> ready v d'"
proof -
  let ?P = "\<lambda>d'. cells v d' = cells v d \<and> ready v d'"
  have "\<exists>d'. read_loop (fl_int_read api) flash_size data 0 address len d
    = Some (put_at data 0 (map (cells v d) [address..<address + len]), d') \<and> ?P d'"
    using nor_read [OF assms(1)] assms(2-5) by (intro read_loop_ok) auto
  then show ?thesis
    using assms(5) by (simp add: read_op_def put_at_def)
qed

text \<open>
  A read that reaches past the end of the flash never returns: the loop subtracts what it
  read from the flash, not what it delivered, so once the end is reached nothing more is
  subtracted.
\<close>

lemma read_loop_returns:
  assumes "fs + RTOS_QSPI_FLASH_READ_CHUNK_SIZE < 2 ^ 32"
    and "read_loop rd fs data pos address len d = Some r"
  shows "len = 0 \<or> address + len \<le> fs"
proof -
  let ?P = "\<lambda>rd fs data pos address len d r.
    fs + RTOS_QSPI_FLASH_READ_CHUNK_SIZE < 2 ^ 32 \<longrightarrow> len = 0 \<or> address + len \<le> fs"
  have "?P rd fs data pos address len d r"
  proof (rule read_loop.raw_induct [where P = ?P, OF _ assms(2)])
    fix f :: "(nat \<Rightarrow> nat \<Rightarrow> 'a \<Rightarrow> byte list \<times> 'a) \<Rightarrow> nat \<Rightarrow> byte list \<Rightarrow> nat \<Rightarrow> nat \<Rightarrow> nat \<Rightarrow> 'a
      \<Rightarrow> (byte list \<times> 'a) option"
    fix rd :: "nat \<Rightarrow> nat \<Rightarrow> 'a \<Rightarrow> byte list \<times> 'a"
      and fs :: nat and data :: "byte list" and pos address len :: nat and d :: 'a
      and r :: "byte list \<times> 'a"
    assume IH: "\<And>rd fs data pos address len d r. f rd fs data pos address len d = Some r \<Longrightarrow>
        ?P rd fs data pos address len d r"
    let ?o = "min len RTOS_QSPI_FLASH_READ_CHUNK_SIZE"
    let ?a = "if address \<ge> fs then fs else address"
    let ?past = "add32 ?a ?o > fs"
    let ?n = "if ?past then fs - ?a else ?o"
    assume "(if len = 0 then Some (data, d)
      else
        let original_len = min len RTOS_QSPI_FLASH_READ_CHUNK_SIZE;
            address1 = (if address \<ge> fs then fs else address);
            past = add32 address1 original_len > fs;
            read_len = (if past then fs - address1 else original_len);
            data1 = (if past
                     then put_at data (pos + read_len) (replicate (original_len - read_len) 0xFF)
                     else data);
            (bytes, d1) = rd address1 read_len d
        in f rd fs (put_at data1 pos bytes) (pos + read_len)
             (add32 address1 read_len) (len - read_len) d1) = Some r"
    then have "len = 0 \<or> (\<exists>data' pos' d'. f rd fs data' pos' (add32 ?a ?n) (len - ?n) d' = Some r)"
      by (auto simp: Let_def split: if_splits prod.splits)
    then have rest: "len = 0 \<or> ?P rd fs data pos (add32 ?a ?n) (len - ?n) d r"
      using IH by blast
    show "?P rd fs data pos address len d r"
    proof
      assume fs: "fs + RTOS_QSPI_FLASH_READ_CHUNK_SIZE < 2 ^ 32"
      have "?a + ?o < 2 ^ 32" "?a + ?n < 2 ^ 32"
        using fs by (auto simp: min_def)
      with rest fs show "len = 0 \<or> address + len \<le> fs"
        by (auto simp: min_def RTOS_QSPI_FLASH_READ_CHUNK_SIZE_def split: if_splits)
    qed
  qed
  with assms(1) show ?thesis by blast
qed

text \<open>
  A read of at least one byte that reaches past the end of the flash never returns, although
  the code means to deliver 0xFF for the bytes beyond the end.
\<close>

theorem qspi_read_past_end_never_returns:
  assumes "flash_size + RTOS_QSPI_FLASH_READ_CHUNK_SIZE < 2 ^ 32"
    and "0 < len" and "flash_size < address + len"
  shows "read_op api flash_size data address len d = None"
  using read_loop_returns [OF assms(1), of "fl_int_read api" data 0 address len d] assms(2,3)
  by (cases "read_op api flash_size data address len d") (auto simp: read_op_def)

section \<open>Writes and erases change what they should\<close>

lemma programmed_Nil [simp]: "programmed m a [] = m"
  by (auto simp: programmed_def fun_eq_iff)

lemma programmed_append:
  "programmed (programmed m a xs) (a + length xs) ys = programmed m a (xs @ ys)"
  by (auto simp: programmed_def nth_append fun_eq_iff)

lemma program_page_ok:
  assumes "nor_flash_ok api v fs" and "ready v d" and "a < fs"
    and "a mod fl_getPageSize api + length bs \<le> fl_getPageSize api"
  shows "\<exists>d'. program_page api a bs d = Some d' \<and> cells v d' = programmed (cells v d) a bs
    \<and> ready v d' \<and> \<not> wel v d'"
proof -
  let ?d1 = "fl_int_sendSingleByteCommand api (writeEnableCommand api) d"
  obtain d2 where d2: "while_busy api (fl_int_write api a bs ?d1) = Some d2"
      "cells v d2 = cells v (fl_int_write api a bs ?d1)" "ready v d2"
    using while_busy_ok [OF assms(1) nor_write(2) [OF assms(1) nor_wren(3,2) [OF assms(1,2)]
        assms(3,4)]] by blast
  have "cells v d2 = programmed (cells v d) a bs"
    using d2(2) nor_write(1) [OF assms(1) nor_wren(3,2) [OF assms(1,2)] assms(3,4)]
      nor_wren(1) [OF assms(1,2)] by simp
  with d2 nor_wrdi [OF assms(1) d2(3)] show ?thesis
    by (simp add: program_page_def)
qed

lemma write_loop_ok:
  assumes "nor_flash_ok api v fs" and "fs < 2 ^ 32" and "fl_getPageSize api dvd fs"
    and "ready v d" and "a + len < 2 ^ 32" and "length data = len"
  shows "\<exists>d'. write_loop api fs data a len d = Some d'
    \<and> cells v d' = programmed (cells v d) a (take (fs - a) data) \<and> ready v d'"
  using assms(4-6)
proof (induction len arbitrary: data a d rule: less_induct)
  case (less len)
  let ?p = "fl_getPageSize api"
  note page = nor_page [OF assms(1)]
  show ?case
  proof (cases "len = 0 \<or> fs \<le> a")
    case True
    with less.prems show ?thesis
      by (subst write_loop.simps) (auto simp: Let_def)
  next
    case False
    let ?room = "?p - a mod ?p"
    let ?n = "if len \<le> ?room then len else ?room"
    have room: "0 < ?room" "a mod ?p + ?room = ?p"
      using page(2) mod_less_divisor [of ?p a] by simp_all
    have n: "0 < ?n" "?n \<le> len"
      using False room by auto
    obtain q where q: "fs = ?p * q"
      using assms(3) by (auto elim: dvdE)
    have "a div ?p < q"
      using False q page(2) by (simp add: div_less_iff_less_mult mult.commute)
    then have "?p * (a div ?p + 1) \<le> fs"
      unfolding q by (intro mult_le_mono2) simp
    moreover have "a + ?room = ?p * (a div ?p) + (a mod ?p + ?room)"
      using mult_div_mod_eq [of ?p a] by linarith
    then have "a + ?room = ?p * (a div ?p + 1)"
      unfolding room(2) by simp
    ultimately have fits: "a + ?n \<le> fs"
      by auto
    have "a mod ?p + length (take ?n data) \<le> ?p"
      using room less.prems(3) by (auto simp: min_def)
    from program_page_ok [OF assms(1) less.prems(1) _ this] False obtain d1 where d1:
        "program_page api a (take ?n data) d = Some d1"
        "cells v d1 = programmed (cells v d) a (take ?n data)" "ready v d1"
      by auto
    have "\<exists>d'. write_loop api fs (drop ?n data) (a + ?n) (len - ?n) d1 = Some d'
        \<and> cells v d' = programmed (cells v d1) (a + ?n) (take (fs - (a + ?n)) (drop ?n data))
        \<and> ready v d'"
      using less.prems n d1(3) by (intro less.IH) auto
    moreover have "programmed (cells v d1) (a + ?n) (take (fs - (a + ?n)) (drop ?n data))
        = programmed (cells v d) a (take ?n data @ take (fs - (a + ?n)) (drop ?n data))"
      using programmed_append [of "cells v d" a "take ?n data"] n less.prems(3) d1(2)
      by (simp add: min_absorb2)
    moreover have "take ?n data @ take (fs - (a + ?n)) (drop ?n data) = take (fs - a) data"
    proof -
      have "fs - a = ?n + (fs - (a + ?n))" using fits by linarith
      then show ?thesis by (metis take_add)
    qed
    moreover have "add32 a ?n = a + ?n"
      using n less.prems(2) by simp
    ultimately show ?thesis
      using False d1(1) by (subst write_loop.simps) (simp add: Let_def page(1) [unfolded One_nat_def])
  qed
qed

text \<open>
  A write, split at the page boundaries, returns, ANDs each byte of the data into its cell
  up to the end of the flash and changes no other cell, on any NOR flash whose size is a
  multiple of its page size.
\<close>

theorem qspi_write_op_ok:
  assumes "nor_flash_ok api v flash_size" and "flash_size < 2 ^ 32"
    and "fl_getPageSize api dvd flash_size" and "ready v d"
    and "address + len < 2 ^ 32" and "length data = len"
  shows "\<exists>d'. write_op api flash_size data address len d = Some d' \<and> ready v d' \<and>
    (\<forall>x. cells v d' x = (if address \<le> x \<and> x < min (address + len) flash_size
                        then cells v d x AND data ! (x - address) else cells v d x))"
proof -
  from write_loop_ok [OF assms] obtain d' where d': "write_op api flash_size data address len d = Some d'"
      "cells v d' = programmed (cells v d) address (take (flash_size - address) data)"
      "ready v d'"
    by (auto simp: write_op_def)
  have "cells v d' x = (if address \<le> x \<and> x < min (address + len) flash_size
      then cells v d x AND data ! (x - address) else cells v d x)" for x
    using assms(6) by (auto simp: d'(2) programmed_def)
  with d' show ?thesis by blast
qed

lemma erased_empty [simp]: "b \<le> a \<Longrightarrow> erased m a b = m"
  by (auto simp: erased_def fun_eq_iff)

lemma erased_trans: "a \<le> b \<Longrightarrow> b \<le> c \<Longrightarrow> erased (erased m a b) b c = erased m a c"
  by (auto simp: erased_def fun_eq_iff)

lemma erase_command_ok:
  assumes "nor_flash_ok api v fs" and "ready v d"
    and "\<And>d. ready v d \<Longrightarrow> wel v d \<Longrightarrow> cells v (erase d) = erased (cells v d) a b
      \<and> selected v (erase d)"
  shows "\<exists>d'. erase_command api erase d = Some d' \<and> cells v d' = erased (cells v d) a b
    \<and> ready v d'"
proof -
  let ?d1 = "fl_int_sendSingleByteCommand api (writeEnableCommand api) d"
  note en = nor_wren [OF assms(1,2)]
  obtain d2 where d2: "while_busy api (erase ?d1) = Some d2"
      "cells v d2 = cells v (erase ?d1)" "ready v d2"
    using while_busy_ok [OF assms(1), of "erase ?d1"] assms(3) [OF en(3,2)] by blast
  have "cells v d2 = erased (cells v d) a b"
    using d2(2) assms(3) [OF en(3,2)] en(1) by simp
  with d2 nor_wrdi [OF assms(1) d2(3)] show ?thesis
    by (simp add: erase_command_def)
qed

definition sector_up :: "nat \<Rightarrow> nat" where
  "sector_up x = (x + 4095) div 4096 * 4096"

lemma sector_aligned: "a mod 4096 = 0 \<Longrightarrow> sector_up (a + n) = a + sector_up n"
proof -
  assume "a mod 4096 = 0"
  then obtain k where "a = 4096 * k" by (auto simp: mod_eq_0_iff_dvd elim: dvdE)
  then have "(a + n + 4095) div 4096 = k + (n + 4095) div 4096"
    using div_mult_self2 [of 4096 "n + 4095" k] by (simp add: ac_simps)
  with \<open>a = 4096 * k\<close> show ?thesis
    by (simp add: sector_up_def algebra_simps)
qed

lemma sector_up_0 [simp]: "sector_up 0 = 0"
  by (simp add: sector_up_def)

lemma sector_up_small: "0 < n \<Longrightarrow> n \<le> 4096 \<Longrightarrow> sector_up n = 4096"
proof -
  assume "0 < n" "n \<le> 4096"
  then have "(n + 4095) div 4096 = 1" by (intro div_nat_eqI) auto
  then show ?thesis by (simp add: sector_up_def)
qed

lemma sector_up_ge: "x \<le> sector_up x"
proof -
  have "(x + 4095) div 4096 * 4096 + (x + 4095) mod 4096 = x + 4095"
    by (rule div_mult_mod_eq)
  moreover have "(x + 4095) mod 4096 < 4096" by simp
  ultimately show ?thesis unfolding sector_up_def by linarith
qed

lemma erase_loop_ok:
  assumes "nor_flash_ok api v fs" and "fs < 2 ^ 32" and "4096 dvd fs"
    and "ready v d" and "a mod 4096 = 0" and "a + len < 2 ^ 32"
  shows "\<exists>d'. erase_loop api fs a len d = Some (Inr d')
    \<and> cells v d' = erased (cells v d) a (min fs (sector_up (a + len))) \<and> ready v d'"
  using assms(4-6)
proof (induction len arbitrary: a d rule: less_induct)
  case (less len)
  show ?case
  proof (cases "len = 0 \<or> fs \<le> a")
    case True
    have "sector_up a = a"
      using sector_aligned [OF less.prems(2), of 0] by simp
    with True less.prems show ?thesis
      by (subst erase_loop.simps) auto
  next
    case False
    have a32: "a < 2 ^ 32" using less.prems(3) by simp
    have al: "SECTORS_TO_BYTES (BYTE_TO_SECTOR_ADDRESS a 12) 12 = a"
      using less.prems(2) a32
      by (simp add: SECTORS_TO_BYTES_def BYTE_TO_SECTOR_ADDRESS_def mod_eq_0_iff_dvd)
    have room: "a + 4096 \<le> fs"
      using False assms(3) less.prems(2) by (auto simp: mod_eq_0_iff_dvd elim!: dvdE)
    obtain d1 where d1: "erase_command api (fl_int_eraseSector api a) d = Some d1"
        "cells v d1 = erased (cells v d) a (a + 4096)" "ready v d1"
      using erase_command_ok [OF assms(1) less.prems(1), of "fl_int_eraseSector api a" a "a + 4096"]
        nor_erase_sector [OF assms(1)] False less.prems(2)
      by (auto simp: QSPI_ERASE_TYPE_SIZE_LOG2_def)
    let ?n = "if 4096 < len then 4096 else len"
    show ?thesis
    proof (cases "4096 < len")
      case True
      have "\<exists>d'. erase_loop api fs (a + 4096) (len - 4096) d1 = Some (Inr d')
          \<and> cells v d' = erased (cells v d1) (a + 4096) (min fs (sector_up (a + 4096 + (len - 4096))))
          \<and> ready v d'"
        using less.prems d1(3) True by (intro less.IH) auto
      moreover have "a + 4096 \<le> min fs (sector_up (a + len))"
        using room True sector_up_ge [of "a + len"] by simp
      moreover have "add32 a 4096 = a + 4096"
        using room assms(2) less.prems(3) True by simp
      ultimately show ?thesis
        using False True d1(1,2) al
        by (subst erase_loop.simps) (simp add: QSPI_ERASE_TYPE_SIZE_LOG2_def Let_def erased_trans)
    next
      case small: False
      have "sector_up (a + len) = a + 4096"
        using False small sector_aligned [OF less.prems(2), of len] sector_up_small [of len]
        by simp
      with room have "min fs (sector_up (a + len)) = a + 4096" by simp
      moreover have "erase_loop api fs x 0 d1 = Some (Inr d1)" for x
        by (subst erase_loop.simps) simp
      ultimately show ?thesis
        using False small d1 al
        by (subst erase_loop.simps) (simp add: QSPI_ERASE_TYPE_SIZE_LOG2_def Let_def)
    qed
  qed
qed

lemma erase_op_cells:
  assumes "nor_flash_ok api v flash_size" and "flash_size < 2 ^ 32" and "4096 dvd flash_size"
    and "ready v d" and "address + len < 2 ^ 32"
  shows "\<exists>d'. erase_op api flash_size address len d = Some (Inr d') \<and> ready v d' \<and>
    cells v d' = erased (cells v d) (address div 4096 * 4096)
      (min flash_size (sector_up (address + len)))"
proof -
  let ?s = "address div 4096 * 4096"
  show ?thesis
  proof (cases "address = 0 \<and> flash_size \<le> len")
    case True
    have "flash_size \<le> sector_up len"
      using True sector_up_ge [of len] by simp
    with True erase_command_ok [OF assms(1,4), of "fl_int_sendSingleByteCommand api ERASE_CHIP" 0
        flash_size] nor_erase_chip [OF assms(1)] show ?thesis
      by (auto simp: erase_op_def min_absorb1)
  next
    case False
    have a32: "address < 2 ^ 32" using assms(5) by simp
    have start: "SECTORS_TO_BYTES (BYTE_TO_SECTOR_ADDRESS address 12) 12 = ?s"
      using a32 by (simp add: SECTORS_TO_BYTES_def BYTE_TO_SECTOR_ADDRESS_def)
    have le: "?s \<le> address" by simp
    have loop: "\<exists>d'. erase_loop api flash_size ?s (len + (address - ?s)) d = Some (Inr d')
      \<and> cells v d' = erased (cells v d) ?s (min flash_size (sector_up (?s + (len + (address - ?s)))))
      \<and> ready v d'"
      using assms(5) le by (intro erase_loop_ok [OF assms(1-4)]) simp_all
    have "?s + (len + (address - ?s)) = address + len"
      using le by linarith
    moreover have "add32 len (address - ?s) = len + (address - ?s)"
      using assms(5) by simp
    ultimately show ?thesis
      using False start loop
      by (cases "?s = address")
        (auto simp: erase_op_def QSPI_ERASE_TYPE_SIZE_LOG2_def Let_def add.commute)
  qed
qed

text \<open>
  An erase returns without a failed assertion, sets to 0xFF every byte of the sectors that
  the range touches, up to the end of the flash, and changes no other byte.
\<close>

theorem qspi_erase_op_ok:
  assumes "nor_flash_ok api v flash_size" and "flash_size < 2 ^ 32" and "4096 dvd flash_size"
    and "ready v d" and "address + len < 2 ^ 32"
  shows "\<exists>d'. erase_op api flash_size address len d = Some (Inr d') \<and> ready v d' \<and>
    (\<forall>x. cells v d' x =
       (if address div 4096 * 4096 \<le> x \<and> x < min flash_size ((address + len + 4095) div 4096 * 4096)
        then 0xFF else cells v d x))"
  using erase_op_cells [OF assms] by (auto simp: erased_def sector_up_def)

section \<open>The operation thread\<close>

datatype flash_op =
    FLASH_OP_NONE | FLASH_OP_READ | FLASH_OP_WRITE | FLASH_OP_ERASE
  | FLASH_OP_READ_FAST_RAW | FLASH_OP_READ_FAST_NIBBLE_SWAP | FLASH_OP_LL_SETUP

record qspi_flash_op_req =
  op :: flash_op
  op_data :: "byte list"
  op_address :: nat
  op_len :: nat

definition QSPI_FL_RETRY_ATTEMPT_CNT :: nat where "QSPI_FL_RETRY_ATTEMPT_CNT = 5"

text \<open>
  The retry loop, with \<open>n\<close> increments of the counter left; then the whole function.
\<close>

fun connect_retry :: "'d flash_api \<Rightarrow> nat \<Rightarrow> 'd \<Rightarrow> 'd res" where
  "connect_retry api n d =
     (let (r, d1) = fl_connectToDevice api d
      in if r = 0 then Inr d1
         else case n of 0 \<Rightarrow> Inl Assert_failed | Suc n' \<Rightarrow> connect_retry api n' d1)"

definition rtos_qspi_flash_fl_connect_with_retry :: "'d flash_api \<Rightarrow> 'd \<Rightarrow> 'd res" where
  "rtos_qspi_flash_fl_connect_with_retry api d =
     (let (r, d1) = fl_connectToDevice api d
      in if r = 0 then Inr d1 else connect_retry api QSPI_FL_RETRY_ATTEMPT_CNT d1)"

definition is_fast :: "flash_op \<Rightarrow> bool" where
  "is_fast x \<longleftrightarrow> x = FLASH_OP_READ_FAST_RAW \<or> x = FLASH_OP_READ_FAST_NIBBLE_SWAP"

definition is_slow :: "flash_op \<Rightarrow> bool" where
  "is_slow x \<longleftrightarrow> x = FLASH_OP_READ \<or> x = FLASH_OP_WRITE \<or> x = FLASH_OP_ERASE"

text \<open>The first switch of the thread: the change from the library of the last operation.\<close>

definition op_prepare :: "'d flash_api \<Rightarrow> flash_op \<Rightarrow> flash_op \<Rightarrow> 'd \<Rightarrow> 'd res" where
  "op_prepare api last_op new_op d =
     (case last_op of
        FLASH_OP_NONE \<Rightarrow>
          (if is_fast new_op then Inr (fast_read_setup api d)
           else rtos_qspi_flash_fl_connect_with_retry api d)
      | FLASH_OP_READ \<Rightarrow>
          Inr (if is_fast new_op then fast_read_setup api (fl_disconnect api d) else d)
      | FLASH_OP_WRITE \<Rightarrow>
          Inr (if is_fast new_op then fast_read_setup api (fl_disconnect api d) else d)
      | FLASH_OP_ERASE \<Rightarrow>
          Inr (if is_fast new_op then fast_read_setup api (fl_disconnect api d) else d)
      | FLASH_OP_READ_FAST_RAW \<Rightarrow>
          (if is_slow new_op
           then rtos_qspi_flash_fl_connect_with_retry api (fast_read_shutdown api d) else Inr d)
      | FLASH_OP_READ_FAST_NIBBLE_SWAP \<Rightarrow>
          (if is_slow new_op
           then rtos_qspi_flash_fl_connect_with_retry api (fast_read_shutdown api d) else Inr d)
      | FLASH_OP_LL_SETUP \<Rightarrow> Inr d)"

text \<open>The second switch: the requester's buffer and the device afterwards.\<close>

definition op_execute ::
  "'d flash_api \<Rightarrow> nat \<Rightarrow> qspi_flash_op_req \<Rightarrow> 'd \<Rightarrow> (byte list \<times> 'd) res option" where
  "op_execute api flash_size r d =
     (case op r of
        FLASH_OP_READ \<Rightarrow>
          map_option Inr (read_op api flash_size (op_data r) (op_address r) (op_len r) d)
      | FLASH_OP_WRITE \<Rightarrow>
          map_option (\<lambda>d'. Inr (op_data r, d'))
            (write_op api flash_size (op_data r) (op_address r) (op_len r) d)
      | FLASH_OP_ERASE \<Rightarrow>
          map_option (\<lambda>x. rbind x (\<lambda>d'. Inr (op_data r, d')))
            (erase_op api flash_size (op_address r) (op_len r) d)
      | FLASH_OP_READ_FAST_RAW \<Rightarrow>
          map_option Inr
            (read_fast_op api transfer_raw flash_size (op_data r) (op_address r) (op_len r) d)
      | FLASH_OP_READ_FAST_NIBBLE_SWAP \<Rightarrow>
          map_option Inr
            (read_fast_op api transfer_nibble_swap flash_size (op_data r) (op_address r)
               (op_len r) d)
      | _ \<Rightarrow> Some (Inr (op_data r, d)))"

text \<open>
  One turn of \<open>qspi_flash_op_thread\<close> on a request other than the low-level setup: the
  buffer, the new \<open>last_op\<close> and the device. Then the thread on a queue of requests.
\<close>

definition op_thread_turn ::
  "'d flash_api \<Rightarrow> nat \<Rightarrow> qspi_flash_op_req \<Rightarrow> flash_op \<Rightarrow> 'd
     \<Rightarrow> (byte list \<times> flash_op \<times> 'd) res option" where
  "op_thread_turn api flash_size r last_op d =
     (case op_prepare api last_op (op r) d of
        Inl e \<Rightarrow> Some (Inl e)
      | Inr d1 \<Rightarrow>
          map_option (\<lambda>x. rbind x (\<lambda>(data, d2). Inr (data, op r, d2)))
            (op_execute api flash_size r d1))"

fun op_thread_run ::
  "'d flash_api \<Rightarrow> nat \<Rightarrow> qspi_flash_op_req list \<Rightarrow> flash_op \<Rightarrow> 'd
     \<Rightarrow> (byte list list \<times> flash_op \<times> 'd) res option" where
  "op_thread_run api flash_size [] last_op d = Some (Inr ([], last_op, d))"
| "op_thread_run api flash_size (r # rs) last_op d =
     Option.bind (op_thread_turn api flash_size r last_op d) (\<lambda>x.
       case x of
         Inl e \<Rightarrow> Some (Inl e)
       | Inr (data, last_op', d') \<Rightarrow>
           map_option (\<lambda>y. rbind y (\<lambda>(outs, l, d''). Inr (data # outs, l, d'')))
             (op_thread_run api flash_size rs last_op' d'))"

text \<open>
  The library a device is in, and what the libraries promise: each call is made in its
  library's mode and keeps it, and a change of mode keeps the contents.
\<close>

datatype lib_mode = Idle | Connected | Fast

definition modes_ok ::
  "'d flash_api \<Rightarrow> 'd nor_view \<Rightarrow> ('d \<Rightarrow> lib_mode) \<Rightarrow> (transfer_mode \<Rightarrow> byte \<Rightarrow> byte) \<Rightarrow> nat \<Rightarrow> bool"
where
  "modes_ok api v mode decode flash_size \<longleftrightarrow>
     (\<forall>d. selected v d \<longleftrightarrow> mode d = Connected) \<and>
     (\<forall>d. mode d \<noteq> Fast \<longrightarrow> same_cells v d (snd (fl_connectToDevice api d)) \<and>
        pending v (snd (fl_connectToDevice api d)) = pending v d \<and>
        mode (snd (fl_connectToDevice api d))
          = (if fst (fl_connectToDevice api d) = 0 then Connected else Idle)) \<and>
     (\<forall>d. mode d = Connected \<longrightarrow> mode (fl_disconnect api d) = Idle \<and>
        same_cells v d (fl_disconnect api d) \<and> pending v (fl_disconnect api d) = pending v d) \<and>
     (\<forall>d. mode d = Idle \<longrightarrow> mode (fast_read_setup api d) = Fast \<and>
        same_cells v d (fast_read_setup api d) \<and> pending v (fast_read_setup api d) = pending v d) \<and>
     (\<forall>d. mode d = Fast \<longrightarrow> mode (fast_read_shutdown api d) = Idle \<and>
        same_cells v d (fast_read_shutdown api d) \<and>
        pending v (fast_read_shutdown api d) = pending v d) \<and>
     (\<forall>m a n d. mode d = Fast \<longrightarrow> pending v d = 0 \<longrightarrow> a + n \<le> flash_size \<longrightarrow>
        fst (fast_read api m a n d) = map (\<lambda>x. decode m (cells v d x)) [a..<a + n] \<and>
        same_cells v d (snd (fast_read api m a n d)) \<and>
        pending v (snd (fast_read api m a n d)) = 0 \<and> mode (snd (fast_read api m a n d)) = Fast)"

text \<open>
  The mode that goes with the last operation. \<open>rtos_qspi_flash_init\<close> leaves the device
  connected with no last operation, so the thread may connect a connected device once.
\<close>

definition mode_of :: "flash_op \<Rightarrow> lib_mode" where
  "mode_of x = (if is_slow x then Connected else if is_fast x then Fast else Idle)"

definition thread_inv :: "'d nor_view \<Rightarrow> ('d \<Rightarrow> lib_mode) \<Rightarrow> flash_op \<Rightarrow> 'd \<Rightarrow> bool" where
  "thread_inv v mode last_op d \<longleftrightarrow>
     last_op \<noteq> FLASH_OP_LL_SETUP \<and> pending v d = 0 \<and>
     (mode d = mode_of last_op \<or> last_op = FLASH_OP_NONE \<and> mode d = Connected)"

text \<open>That one time it must be for an operation of the same library.\<close>

definition first_ok :: "('d \<Rightarrow> lib_mode) \<Rightarrow> flash_op \<Rightarrow> 'd \<Rightarrow> flash_op \<Rightarrow> bool" where
  "first_ok mode last_op d x \<longleftrightarrow> is_slow x \<or> is_fast x \<and> mode d = mode_of last_op"

lemma modes_connect:
  assumes "modes_ok api v mode decode fs" and "mode d \<noteq> Fast"
  shows "cells v (snd (fl_connectToDevice api d)) = cells v d"
    and "pending v (snd (fl_connectToDevice api d)) = pending v d"
    and "mode (snd (fl_connectToDevice api d))
      = (if fst (fl_connectToDevice api d) = 0 then Connected else Idle)"
  using assms by (simp_all add: modes_ok_def same_cells_def)

lemma modes_disconnect:
  assumes "modes_ok api v mode decode fs" and "mode d = Connected"
  shows "cells v (fl_disconnect api d) = cells v d" and "pending v (fl_disconnect api d) = pending v d"
    and "mode (fl_disconnect api d) = Idle"
  using assms by (simp_all add: modes_ok_def same_cells_def)

lemma modes_fast_setup:
  assumes "modes_ok api v mode decode fs" and "mode d = Idle"
  shows "cells v (fast_read_setup api d) = cells v d"
    and "pending v (fast_read_setup api d) = pending v d" and "mode (fast_read_setup api d) = Fast"
  using assms by (simp_all add: modes_ok_def same_cells_def)

lemma modes_fast_shutdown:
  assumes "modes_ok api v mode decode fs" and "mode d = Fast"
  shows "cells v (fast_read_shutdown api d) = cells v d"
    and "pending v (fast_read_shutdown api d) = pending v d"
    and "mode (fast_read_shutdown api d) = Idle"
  using assms by (simp_all add: modes_ok_def same_cells_def)

lemma modes_fast_read:
  assumes "modes_ok api v mode decode fs" and "mode d = Fast" and "pending v d = 0"
    and "a + n \<le> fs"
  shows "fst (fast_read api m a n d) = map (\<lambda>x. decode m (cells v d x)) [a..<a + n]"
    and "cells v (snd (fast_read api m a n d)) = cells v d"
    and "pending v (snd (fast_read api m a n d)) = 0" and "mode (snd (fast_read api m a n d)) = Fast"
  using assms by (simp_all add: modes_ok_def same_cells_def)

lemma modes_selected: "modes_ok api v mode decode fs \<Longrightarrow> selected v d \<longleftrightarrow> mode d = Connected"
  by (simp add: modes_ok_def)

lemma connect_retry_ok:
  assumes m: "modes_ok api v mode decode fs" and "mode d \<noteq> Fast"
    and "connect_retry api n d = Inr d'"
  shows "mode d' = Connected \<and> cells v d' = cells v d \<and> pending v d' = pending v d"
  using assms(2,3)
proof (induction n arbitrary: d)
  case 0
  with modes_connect [OF m 0(1)] show ?case
    by (auto simp: case_prod_unfold Let_def split: if_splits)
next
  case (Suc n)
  with modes_connect [OF m Suc.prems(1)] show ?case
    by (fastforce simp: case_prod_unfold Let_def split: if_splits)
qed

lemma connect_with_retry_ok:
  assumes m: "modes_ok api v mode decode fs" and "mode d \<noteq> Fast"
    and "rtos_qspi_flash_fl_connect_with_retry api d = Inr d'"
  shows "mode d' = Connected \<and> cells v d' = cells v d \<and> pending v d' = pending v d"
  using assms(3) modes_connect [OF m assms(2)] 
    connect_retry_ok [OF m, of "snd (fl_connectToDevice api d)" QSPI_FL_RETRY_ATTEMPT_CNT d']
  by (auto simp: rtos_qspi_flash_fl_connect_with_retry_def case_prod_unfold Let_def
      simp del: connect_retry.simps split: if_splits)

definition connects :: "'d flash_api \<Rightarrow> ('d \<Rightarrow> lib_mode) \<Rightarrow> bool" where
  "connects api mode \<longleftrightarrow>
     (\<forall>d. mode d \<noteq> Fast \<longrightarrow> (\<exists>d'. rtos_qspi_flash_fl_connect_with_retry api d = Inr d'))"

lemma op_prepare_ok:
  assumes m: "modes_ok api v mode decode fs" and c: "connects api mode"
    and inv: "thread_inv v mode last_op d" and new: "first_ok mode last_op d x"
  shows "\<exists>d'. op_prepare api last_op x d = Inr d' \<and> mode d' = mode_of x \<and> cells v d' = cells v d
    \<and> pending v d' = 0"
proof -
  have connect: "\<exists>e. rtos_qspi_flash_fl_connect_with_retry api d1 = Inr e \<and> mode e = Connected
      \<and> cells v e = cells v d1 \<and> pending v e = pending v d1" if "mode d1 \<noteq> Fast" for d1
    using c connect_with_retry_ok [OF m that] that by (auto simp: connects_def)
  note defs = op_prepare_def mode_of_def is_slow_def is_fast_def first_ok_def
  have d: "pending v d = 0" "last_op \<noteq> FLASH_OP_LL_SETUP"
    using inv by (simp_all add: thread_inv_def)
  consider (early) "last_op = FLASH_OP_NONE" "mode d = Connected" | (slow) "is_slow last_op" "mode d = Connected"
    | (fast) "is_fast last_op" "mode d = Fast" | (idle) "last_op = FLASH_OP_NONE" "mode d = Idle"
    using inv by (cases last_op) (auto simp: thread_inv_def mode_of_def is_slow_def is_fast_def)
  then show ?thesis
  proof cases
    case early
    with new connect [of d] d(1) show ?thesis by (cases x) (auto simp: defs)
  next
    case slow
    with d new modes_disconnect [OF m, of d] modes_fast_setup [OF m, of "fl_disconnect api d"]
    show ?thesis by (cases last_op) (auto simp: defs)
  next
    case fast
    with d new modes_fast_shutdown [OF m, of d] connect [of "fast_read_shutdown api d"]
    show ?thesis by (cases last_op) (auto simp: defs)
  next
    case idle
    with d new connect [of d] modes_fast_setup [OF m, of d] show ?thesis by (auto simp: defs)
  qed
qed

text \<open>
  What the driver promises: the effect of a request on the contents of the flash, and what
  its buffer holds when it is done.
\<close>

definition flash_spec ::
  "(transfer_mode \<Rightarrow> byte \<Rightarrow> byte) \<Rightarrow> nat \<Rightarrow> qspi_flash_op_req \<Rightarrow> (nat \<Rightarrow> byte)
     \<Rightarrow> byte list \<times> (nat \<Rightarrow> byte)" where
  "flash_spec decode flash_size r m =
     (let a = op_address r; n = op_len r
      in case op r of
           FLASH_OP_READ \<Rightarrow> (map m [a..<a + n], m)
         | FLASH_OP_READ_FAST_RAW \<Rightarrow> (map (\<lambda>x. decode transfer_raw (m x)) [a..<a + n], m)
         | FLASH_OP_READ_FAST_NIBBLE_SWAP \<Rightarrow>
             (map (\<lambda>x. decode transfer_nibble_swap (m x)) [a..<a + n], m)
         | FLASH_OP_WRITE \<Rightarrow>
             (op_data r, \<lambda>x. if a \<le> x \<and> x < min (a + n) flash_size
                             then m x AND op_data r ! (x - a) else m x)
         | FLASH_OP_ERASE \<Rightarrow>
             (op_data r, \<lambda>x. if a div 4096 * 4096 \<le> x
                              \<and> x < min flash_size ((a + n + 4095) div 4096 * 4096)
                             then 0xFF else m x)
         | _ \<Rightarrow> (op_data r, m))"

fun flash_spec_run ::
  "(transfer_mode \<Rightarrow> byte \<Rightarrow> byte) \<Rightarrow> nat \<Rightarrow> qspi_flash_op_req list \<Rightarrow> (nat \<Rightarrow> byte)
     \<Rightarrow> byte list list \<times> (nat \<Rightarrow> byte)" where
  "flash_spec_run decode flash_size [] m = ([], m)"
| "flash_spec_run decode flash_size (r # rs) m =
     (let (out, m1) = flash_spec decode flash_size r m;
          (outs, m2) = flash_spec_run decode flash_size rs m1
      in (out # outs, m2))"

definition in_range :: "nat \<Rightarrow> qspi_flash_op_req \<Rightarrow> bool" where
  "in_range flash_size r \<longleftrightarrow>
     (case op r of
        FLASH_OP_WRITE \<Rightarrow> op_address r + op_len r < 2 ^ 32 \<and> length (op_data r) = op_len r
      | FLASH_OP_ERASE \<Rightarrow> op_address r + op_len r < 2 ^ 32
      | FLASH_OP_NONE \<Rightarrow> False
      | FLASH_OP_LL_SETUP \<Rightarrow> False
      | _ \<Rightarrow> op_address r + op_len r \<le> flash_size \<and> length (op_data r) = op_len r)"

lemma op_execute_slow_ok:
  assumes n: "nor_flash_ok api v fs" and "fs < 2 ^ 32" and "fl_getPageSize api dvd fs"
    and "4096 dvd fs" and "in_range fs r" and "is_slow (op r)" and "ready v d"
  shows "\<exists>d'. op_execute api fs r d = Some (Inr (fst (flash_spec decode fs r (cells v d)), d'))
    \<and> cells v d' = snd (flash_spec decode fs r (cells v d)) \<and> ready v d'"
proof -
  consider "op r = FLASH_OP_READ" | "op r = FLASH_OP_WRITE" | "op r = FLASH_OP_ERASE"
    using assms(6) by (auto simp: is_slow_def)
  then show ?thesis
  proof cases
    case 1
    with assms(5) read_loop_ok [of "\<lambda>e. cells v e = cells v d \<and> ready v e" fs "fl_int_read api"
        "cells v d" d "op_address r" "op_len r" 0 "op_data r"] nor_read [OF n] assms(2,7)
    show ?thesis
      by (auto simp: op_execute_def flash_spec_def Let_def in_range_def read_op_def put_at_def)
  next
    case 2
    with assms(5) write_loop_ok [OF n assms(2,3,7), of "op_address r" "op_len r" "op_data r"]
    obtain d' where "write_loop api fs (op_data r) (op_address r) (op_len r) d = Some d'"
      "cells v d' = programmed (cells v d) (op_address r) (take (fs - op_address r) (op_data r))"
      "ready v d'" "length (op_data r) = op_len r"
      by (auto simp: in_range_def)
    with 2 show ?thesis
      by (auto simp: op_execute_def flash_spec_def Let_def write_op_def programmed_def fun_eq_iff)
  next
    case 3
    with assms(5) erase_op_cells [OF n assms(2,4,7), of "op_address r" "op_len r"] show ?thesis
      by (auto simp: op_execute_def flash_spec_def Let_def in_range_def erased_def sector_up_def)
  qed
qed

lemma op_execute_fast_ok:
  assumes m: "modes_ok api v mode decode fs" and "fs < 2 ^ 32" and "in_range fs r"
    and "is_fast (op r)" and "mode d = Fast" and "pending v d = 0"
  shows "\<exists>d'. op_execute api fs r d = Some (Inr (fst (flash_spec decode fs r (cells v d)), d'))
    \<and> cells v d' = snd (flash_spec decode fs r (cells v d)) \<and> mode d' = Fast \<and> pending v d' = 0"
proof -
  have rng: "op_address r + op_len r \<le> fs" "length (op_data r) = op_len r"
    using assms(3,4) by (auto simp: in_range_def is_fast_def)
  have "\<exists>d'. read_loop (fast_read api t) fs (op_data r) 0 (op_address r) (op_len r) d
      = Some (put_at (op_data r) 0
          (map (\<lambda>x. decode t (cells v d x)) [op_address r..<op_address r + op_len r]), d')
      \<and> (cells v d' = cells v d \<and> mode d' = Fast \<and> pending v d' = 0)" for t
    using modes_fast_read [OF m] assms(2,5,6) rng by (intro read_loop_ok) auto
  with assms(4) rng show ?thesis
    by (fastforce simp: is_fast_def op_execute_def flash_spec_def Let_def read_fast_op_def put_at_def)
qed

lemma op_thread_turn_ok:
  assumes n: "nor_flash_ok api v fs" and m: "modes_ok api v mode decode fs"
    and c: "connects api mode" and fs: "fs < 2 ^ 32" "fl_getPageSize api dvd fs" "4096 dvd fs"
    and inv: "thread_inv v mode last_op d" and rng: "in_range fs r"
    and first: "first_ok mode last_op d (op r)"
  shows "\<exists>d'. op_thread_turn api fs r last_op d
      = Some (Inr (fst (flash_spec decode fs r (cells v d)), op r, d'))
    \<and> cells v d' = snd (flash_spec decode fs r (cells v d)) \<and> mode d' = mode_of (op r)
    \<and> thread_inv v mode (op r) d'"
proof -
  have kind: "is_slow (op r) \<or> is_fast (op r)" and ll: "op r \<noteq> FLASH_OP_LL_SETUP"
    using rng by (auto simp: in_range_def is_slow_def is_fast_def split: flash_op.splits)
  from op_prepare_ok [OF m c inv first] obtain d1 where d1: "op_prepare api last_op (op r) d = Inr d1"
      "mode d1 = mode_of (op r)" "cells v d1 = cells v d" "pending v d1 = 0"
    by blast
  show ?thesis
  proof (cases "is_slow (op r)")
    case True
    have "ready v d1"
      using d1 True by (simp add: ready_def modes_selected [OF m] mode_of_def)
    from op_execute_slow_ok [OF n fs rng True this, of decode] d1 True ll show ?thesis
      by (auto simp: op_thread_turn_def thread_inv_def ready_def modes_selected [OF m] mode_of_def)
  next
    case False
    with kind have f: "is_fast (op r)" by simp
    with False d1(2) have "mode d1 = Fast" by (simp add: mode_of_def)
    from op_execute_fast_ok [OF m fs(1) rng f this d1(4)] d1 f False ll show ?thesis
      by (auto simp: op_thread_turn_def thread_inv_def mode_of_def)
  qed
qed

lemma op_thread_run_ok:
  assumes n: "nor_flash_ok api v fs" and m: "modes_ok api v mode decode fs"
    and c: "connects api mode" and fs: "fs < 2 ^ 32" "fl_getPageSize api dvd fs" "4096 dvd fs"
    and inv: "thread_inv v mode last_op d" and rng: "list_all (in_range fs) rs"
    and first: "rs \<noteq> [] \<longrightarrow> first_ok mode last_op d (op (hd rs))"
  shows "\<exists>l d'. op_thread_run api fs rs last_op d
      = Some (Inr (fst (flash_spec_run decode fs rs (cells v d)), l, d'))
    \<and> cells v d' = snd (flash_spec_run decode fs rs (cells v d)) \<and> thread_inv v mode l d'"
  using inv rng first
proof (induction rs arbitrary: last_op d)
  case (Cons r rs)
  from Cons.prems op_thread_turn_ok [OF n m c fs Cons.prems(1), of r] obtain d1 where d1:
      "op_thread_turn api fs r last_op d
        = Some (Inr (fst (flash_spec decode fs r (cells v d)), op r, d1))"
      "cells v d1 = snd (flash_spec decode fs r (cells v d))" "thread_inv v mode (op r) d1"
      "mode d1 = mode_of (op r)"
    by auto
  have "rs \<noteq> [] \<longrightarrow> first_ok mode (op r) d1 (op (hd rs))"
    using Cons.prems(2) d1(4)
    by (cases rs) (auto simp: first_ok_def in_range_def is_slow_def is_fast_def split: flash_op.splits)
  from Cons.IH [OF d1(3) _ this] Cons.prems(2) d1 show ?case
    by (auto simp: case_prod_unfold Let_def)
qed simp

end
