(* ===== verification/Qspi_Driver.thy ===== *)
theory Qspi_Driver
  imports Qspi_Flash
begin

text \<open>
  The application side of the QSPI flash driver (modules/drivers/qspi_flash/src/rtos_qspi_flash.c):
  initialisation, the requests that the API functions queue for the operation thread, the lock
  and the low-level reads, and the hand-over of read data between the operation thread and the
  requesting tasks.
\<close>

section \<open>Initialisation\<close>

text \<open>
  What the two initialisations use of the flash libraries besides \<open>flash_api\<close>; the library
  works on a device specification, so \<open>api_of\<close> gives its functions for one. The ports and the
  clock block belong to the device.
\<close>

record ('s, 'd) flash_lib =
  api_of :: "'s \<Rightarrow> 'd flash_api"
  FL_QUADDEVICE_DEFAULT :: 's
  sectorEraseSize :: "'s \<Rightarrow> nat"
  fl_copySpec :: "'d \<Rightarrow> 's \<Rightarrow> int \<times> 's"
  fl_getFlashSize :: "'d \<Rightarrow> nat"
  fl_quadEnable :: "'d \<Rightarrow> int \<times> 'd"
  fast_init :: "transfer_mode \<Rightarrow> byte \<Rightarrow> 'd \<Rightarrow> 'd"
  fast_setup_resources :: "'d \<Rightarrow> 'd"
  fast_calibrate :: "u32 \<Rightarrow> 'd \<Rightarrow> int \<times> 'd"

datatype read_fn = qspi_flash_local_read_ptr | qspi_flash_local_read_fast_raw_ptr
  | qspi_flash_local_read_fast_ns_ptr

datatype read_mode_fn = qspi_flash_local_read_mode_ptr | qspi_flash_local_read_mode_fast_ptr

record 's qspi_ctx =
  qspi_spec :: 's
  flash_size :: nat
  calibration_valid :: bool
  last_op :: flash_op
  read :: read_fn
  read_mode :: read_mode_fn

text \<open>The part the two initialisations share: up to the call of \<open>fl_quadEnable\<close>.\<close>

definition init_common ::
  "('s, 'd) flash_lib \<Rightarrow> 's option \<Rightarrow> 'd \<Rightarrow> ('s \<times> nat \<times> 'd) res" where
  "init_common lib spec d =
     (let spec1 = (case spec of None \<Rightarrow> FL_QUADDEVICE_DEFAULT lib | Some s \<Rightarrow> s);
          (r1, d1) = fl_connectToDevice (api_of lib spec1) d
      in xassert (r1 = 0)
        (let (r2, spec2) = fl_copySpec lib d1 spec1
         in xassert (r2 = 0)
           (xassert (sectorEraseSize lib spec2 = 2 ^ QSPI_ERASE_TYPE_SIZE_LOG2)
             (let (r3, d2) = fl_quadEnable lib d1
              in xassert (r3 = 0) (Inr (spec2, fl_getFlashSize lib d1, d2))))))"

definition rtos_qspi_flash_init ::
  "('s, 'd) flash_lib \<Rightarrow> 's option \<Rightarrow> 'd \<Rightarrow> ('s qspi_ctx \<times> 'd) res" where
  "rtos_qspi_flash_init lib spec d =
     rbind (init_common lib spec d) (\<lambda>(spec2, n, d2).
       Inr (\<lparr>qspi_spec = spec2, flash_size = n, calibration_valid = False,
             last_op = FLASH_OP_NONE, read = qspi_flash_local_read_ptr,
             read_mode = qspi_flash_local_read_mode_ptr\<rparr>, d2))"

definition rtos_qspi_flash_fast_read_init ::
  "('s, 'd) flash_lib \<Rightarrow> 's option \<Rightarrow> transfer_mode \<Rightarrow> byte \<Rightarrow> u32 \<Rightarrow> 'd
     \<Rightarrow> ('s qspi_ctx \<times> 'd) res" where
  "rtos_qspi_flash_fast_read_init lib spec mode read_divide calibration_pattern_addr d =
     rbind (init_common lib spec d) (\<lambda>(spec2, n, d2).
       let api = api_of lib spec2;
           d3 = fast_setup_resources lib (fast_init lib mode read_divide (fl_disconnect api d2));
           (calibrate_res, d4) = fast_calibrate lib calibration_pattern_addr d3;
           valid = (calibrate_res = 0)
       in Inr (\<lparr>qspi_spec = spec2, flash_size = n, calibration_valid = valid,
                last_op = FLASH_OP_NONE,
                read = (if valid
                        then (case mode of
                                transfer_raw \<Rightarrow> qspi_flash_local_read_fast_raw_ptr
                              | transfer_nibble_swap \<Rightarrow> qspi_flash_local_read_fast_ns_ptr)
                        else qspi_flash_local_read_ptr),
                read_mode = (if valid then qspi_flash_local_read_mode_fast_ptr
                             else qspi_flash_local_read_mode_ptr)\<rparr>,
               fast_read_shutdown api d4))"

section \<open>The requests of the API functions\<close>

definition qspi_flash_local_read :: "byte list \<Rightarrow> nat \<Rightarrow> nat \<Rightarrow> qspi_flash_op_req" where
  "qspi_flash_local_read data address len =
     \<lparr>op = FLASH_OP_READ, op_data = data, op_address = address, op_len = len\<rparr>"

definition qspi_flash_local_read_mode ::
  "byte list \<Rightarrow> nat \<Rightarrow> nat \<Rightarrow> transfer_mode \<Rightarrow> qspi_flash_op_req" where
  "qspi_flash_local_read_mode data address len mode =
     \<lparr>op = FLASH_OP_READ, op_data = data, op_address = address, op_len = len\<rparr>"

definition qspi_flash_local_read_mode_fast ::
  "byte list \<Rightarrow> nat \<Rightarrow> nat \<Rightarrow> transfer_mode \<Rightarrow> qspi_flash_op_req" where
  "qspi_flash_local_read_mode_fast data address len mode =
     (let r = \<lparr>op = FLASH_OP_READ_FAST_RAW, op_data = data, op_address = address, op_len = len\<rparr>
      in if mode = transfer_nibble_swap then r\<lparr>op := FLASH_OP_READ_FAST_NIBBLE_SWAP\<rparr> else r)"

definition qspi_flash_local_read_fast_raw ::
  "byte list \<Rightarrow> nat \<Rightarrow> nat \<Rightarrow> qspi_flash_op_req" where
  "qspi_flash_local_read_fast_raw data address len =
     \<lparr>op = FLASH_OP_READ_FAST_RAW, op_data = data, op_address = address, op_len = len\<rparr>"

definition qspi_flash_local_read_fast_ns ::
  "byte list \<Rightarrow> nat \<Rightarrow> nat \<Rightarrow> qspi_flash_op_req" where
  "qspi_flash_local_read_fast_ns data address len =
     \<lparr>op = FLASH_OP_READ_FAST_NIBBLE_SWAP, op_data = data, op_address = address, op_len = len\<rparr>"

definition qspi_flash_local_write ::
  "byte list \<Rightarrow> nat \<Rightarrow> nat \<Rightarrow> qspi_flash_op_req res" where
  "qspi_flash_local_write data address len =
     rbind (read_mem data len) (\<lambda>copy.
       Inr \<lparr>op = FLASH_OP_WRITE, op_data = copy, op_address = address, op_len = len\<rparr>)"

definition qspi_flash_local_erase :: "nat \<Rightarrow> nat \<Rightarrow> qspi_flash_op_req" where
  "qspi_flash_local_erase address len =
     \<lparr>op = FLASH_OP_ERASE, op_data = [], op_address = address, op_len = len\<rparr>"

text \<open>A call of one of the API functions, through the pointers of the context.\<close>

datatype api_call =
    Read "byte list" nat nat
  | Read_mode "byte list" nat nat transfer_mode
  | Write "byte list" nat nat
  | Erase nat nat

fun call_request :: "'s qspi_ctx \<Rightarrow> api_call \<Rightarrow> qspi_flash_op_req res" where
  "call_request ctx (Read data address len) =
     Inr ((case read ctx of
             qspi_flash_local_read_ptr \<Rightarrow> qspi_flash_local_read
           | qspi_flash_local_read_fast_raw_ptr \<Rightarrow> qspi_flash_local_read_fast_raw
           | qspi_flash_local_read_fast_ns_ptr \<Rightarrow> qspi_flash_local_read_fast_ns) data address len)"
| "call_request ctx (Read_mode data address len mode) =
     Inr ((case read_mode ctx of
             qspi_flash_local_read_mode_ptr \<Rightarrow> qspi_flash_local_read_mode
           | qspi_flash_local_read_mode_fast_ptr \<Rightarrow> qspi_flash_local_read_mode_fast)
          data address len mode)"
| "call_request ctx (Write data address len) = qspi_flash_local_write data address len"
| "call_request ctx (Erase address len) = Inr (qspi_flash_local_erase address len)"

section \<open>From a start to the contents of the flash\<close>

definition undisturbed :: "'d nor_view \<Rightarrow> 'd \<Rightarrow> 'd \<Rightarrow> bool" where
  "undisturbed v d d' \<longleftrightarrow> cells v d' = cells v d \<and> pending v d' = pending v d"

text \<open>
  What is asked of the libraries: for a specification that fits the chip (\<open>good\<close>) they are a
  NOR flash of \<open>fs\<close> bytes, and none of the calls of the initialisation disturbs the contents.
\<close>

definition lib_ok ::
  "('s, 'd) flash_lib \<Rightarrow> ('s \<Rightarrow> bool) \<Rightarrow> 'd nor_view \<Rightarrow> ('d \<Rightarrow> lib_mode)
     \<Rightarrow> (transfer_mode \<Rightarrow> byte \<Rightarrow> byte) \<Rightarrow> nat \<Rightarrow> bool" where
  "lib_ok lib good v mode decode fs \<longleftrightarrow>
     (\<forall>s. good s \<longrightarrow> nor_flash_ok (api_of lib s) v fs \<and>
        modes_ok (api_of lib s) v mode decode fs \<and> connects (api_of lib s) mode \<and>
        fl_getPageSize (api_of lib s) dvd fs) \<and>
     fs < 2 ^ 32 \<and> 4096 dvd fs \<and>
     (\<forall>d s. good s \<longrightarrow> good (snd (fl_copySpec lib d s))) \<and>
     (\<forall>d. fl_getFlashSize lib d = fs) \<and>
     (\<forall>d. mode d = Connected \<longrightarrow> undisturbed v d (snd (fl_quadEnable lib d)) \<and>
        mode (snd (fl_quadEnable lib d)) = Connected) \<and>
     (\<forall>m n d. mode d = Idle \<longrightarrow> undisturbed v d (fast_init lib m n d) \<and>
        mode (fast_init lib m n d) = Idle) \<and>
     (\<forall>d. mode d = Idle \<longrightarrow> undisturbed v d (fast_setup_resources lib d) \<and>
        mode (fast_setup_resources lib d) = Fast) \<and>
     (\<forall>a d. mode d = Fast \<longrightarrow> undisturbed v d (snd (fast_calibrate lib a d)) \<and>
        mode (snd (fast_calibrate lib a d)) = Fast)"

lemma lib_good:
  assumes "lib_ok lib good v mode decode fs" and "good s"
  shows "nor_flash_ok (api_of lib s) v fs" and "modes_ok (api_of lib s) v mode decode fs"
    and "connects (api_of lib s) mode" and "fl_getPageSize (api_of lib s) dvd fs"
    and "good (snd (fl_copySpec lib d s))"
  using assms by (simp_all add: lib_ok_def)

lemma lib_size:
  assumes "lib_ok lib good v mode decode fs"
  shows "fs < 2 ^ 32" and "4096 dvd fs" and "fl_getFlashSize lib d = fs"
  using assms by (simp_all add: lib_ok_def)

lemma lib_quad:
  assumes "lib_ok lib good v mode decode fs" and "mode d = Connected"
  shows "undisturbed v d (snd (fl_quadEnable lib d))"
    and "mode (snd (fl_quadEnable lib d)) = Connected"
  using assms by (simp_all add: lib_ok_def)

lemma lib_fast_start:
  assumes "lib_ok lib good v mode decode fs" and "mode d = Idle"
  shows "undisturbed v d (snd (fast_calibrate lib a (fast_setup_resources lib (fast_init lib m n d))))"
    and "mode (snd (fast_calibrate lib a (fast_setup_resources lib (fast_init lib m n d)))) = Fast"
  using assms by (simp_all add: lib_ok_def undisturbed_def)

lemma init_common_ok:
  assumes l: "lib_ok lib good v mode decode fs"
    and s: "good (case spec of None \<Rightarrow> FL_QUADDEVICE_DEFAULT lib | Some s \<Rightarrow> s)"
    and d: "mode d = Idle" and i: "init_common lib spec d = Inr (spec2, n, d2)"
  shows "good spec2 \<and> n = fs \<and> mode d2 = Connected \<and> undisturbed v d d2"
proof -
  let ?s = "case spec of None \<Rightarrow> FL_QUADDEVICE_DEFAULT lib | Some s \<Rightarrow> s"
  let ?d1 = "snd (fl_connectToDevice (api_of lib ?s) d)"
  have i': "fst (fl_connectToDevice (api_of lib ?s) d) = 0" "spec2 = snd (fl_copySpec lib ?d1 ?s)"
    "n = fl_getFlashSize lib ?d1" "d2 = snd (fl_quadEnable lib ?d1)"
    using i by (auto simp: init_common_def Let_def case_prod_unfold xassert_eq_Inr)
  have c: "mode ?d1 = Connected" "undisturbed v d ?d1"
    using modes_connect [OF lib_good(2) [OF l s], of d] d i'(1) by (simp_all add: undisturbed_def)
  show ?thesis
    using i' c lib_good(5) [OF l s] lib_size(3) [OF l] lib_quad [OF l c(1)]
    by (simp add: undisturbed_def)
qed

text \<open>What a context and a device are after an initialisation.\<close>

definition ctx_ok ::
  "('s \<Rightarrow> bool) \<Rightarrow> ('d \<Rightarrow> lib_mode) \<Rightarrow> nat \<Rightarrow> transfer_mode \<Rightarrow> 's qspi_ctx \<Rightarrow> 'd \<Rightarrow> bool" where
  "ctx_ok good mode fs m ctx d \<longleftrightarrow>
     good (qspi_spec ctx) \<and> flash_size ctx = fs \<and> last_op ctx = FLASH_OP_NONE \<and>
     (if calibration_valid ctx
      then mode d = Idle \<and> read_mode ctx = qspi_flash_local_read_mode_fast_ptr \<and>
           read ctx = (case m of transfer_raw \<Rightarrow> qspi_flash_local_read_fast_raw_ptr
                               | transfer_nibble_swap \<Rightarrow> qspi_flash_local_read_fast_ns_ptr)
      else mode d \<noteq> Fast \<and> read ctx = qspi_flash_local_read_ptr \<and>
           read_mode ctx = qspi_flash_local_read_mode_ptr)"

lemma init_ctx_ok:
  assumes l: "lib_ok lib good v mode decode fs"
    and s: "good (case spec of None \<Rightarrow> FL_QUADDEVICE_DEFAULT lib | Some s \<Rightarrow> s)"
    and d: "mode d = Idle" and i: "rtos_qspi_flash_init lib spec d = Inr (ctx, d0)"
  shows "ctx_ok good mode fs m ctx d0 \<and> undisturbed v d d0"
  using i init_common_ok [OF l s d] by (auto simp: rtos_qspi_flash_init_def rbind_eq_Inr ctx_ok_def)

lemma fast_init_ctx_ok:
  assumes l: "lib_ok lib good v mode decode fs"
    and s: "good (case spec of None \<Rightarrow> FL_QUADDEVICE_DEFAULT lib | Some s \<Rightarrow> s)"
    and d: "mode d = Idle"
    and i: "rtos_qspi_flash_fast_read_init lib spec m clk_div addr d = Inr (ctx, d0)"
  shows "ctx_ok good mode fs m ctx d0 \<and> undisturbed v d d0"
proof -
  obtain spec2 n d2 where c: "init_common lib spec d = Inr (spec2, n, d2)"
    using i by (auto simp: rtos_qspi_flash_fast_read_init_def rbind_eq_Inr)
  from init_common_ok [OF l s d this] have o: "good spec2" "n = fs" "mode d2 = Connected"
      "undisturbed v d d2" by simp_all
  note m2 = lib_good(2) [OF l o(1)]
  from lib_fast_start [OF l modes_disconnect(3) [OF m2 o(3)]]
  have f: "undisturbed v d (snd (fast_calibrate lib addr (fast_setup_resources lib
        (fast_init lib m clk_div (fl_disconnect (api_of lib spec2) d2)))))"
      "mode (snd (fast_calibrate lib addr (fast_setup_resources lib
        (fast_init lib m clk_div (fl_disconnect (api_of lib spec2) d2))))) = Fast"
    using modes_disconnect(1,2) [OF m2 o(3)] o(4) by (simp_all add: undisturbed_def)
  show ?thesis
    using i c o(1,2) modes_fast_shutdown [OF m2 f(2)] f(1)
    by (auto simp: rtos_qspi_flash_fast_read_init_def Let_def case_prod_unfold ctx_ok_def
        undisturbed_def)
qed

text \<open>
  What the calls promise their callers: \<open>conv\<close> is what the read functions make of the
  bytes in the flash, and \<open>m\<close> the transfer mode the driver was initialised for.
\<close>

fun call_spec ::
  "(transfer_mode \<Rightarrow> byte \<Rightarrow> byte) \<Rightarrow> transfer_mode \<Rightarrow> nat \<Rightarrow> api_call \<Rightarrow> (nat \<Rightarrow> byte)
     \<Rightarrow> byte list \<times> (nat \<Rightarrow> byte)" where
  "call_spec conv m fs (Read data a n) c = (map (\<lambda>x. conv m (c x)) [a..<a + n], c)"
| "call_spec conv m fs (Read_mode data a n m') c = (map (\<lambda>x. conv m' (c x)) [a..<a + n], c)"
| "call_spec conv m fs (Write data a n) c =
     (take n data, \<lambda>x. if a \<le> x \<and> x < min (a + n) fs then c x AND data ! (x - a) else c x)"
| "call_spec conv m fs (Erase a n) c =
     ([], \<lambda>x. if a div 4096 * 4096 \<le> x \<and> x < min fs ((a + n + 4095) div 4096 * 4096)
              then 0xFF else c x)"

fun call_spec_run ::
  "(transfer_mode \<Rightarrow> byte \<Rightarrow> byte) \<Rightarrow> transfer_mode \<Rightarrow> nat \<Rightarrow> api_call list \<Rightarrow> (nat \<Rightarrow> byte)
     \<Rightarrow> byte list list \<times> (nat \<Rightarrow> byte)" where
  "call_spec_run conv m fs [] c = ([], c)"
| "call_spec_run conv m fs (x # xs) c =
     (let (out, c1) = call_spec conv m fs x c; (outs, c2) = call_spec_run conv m fs xs c1
      in (out # outs, c2))"

fun call_in_range :: "nat \<Rightarrow> api_call \<Rightarrow> bool" where
  "call_in_range fs (Read data a n) \<longleftrightarrow> a + n \<le> fs \<and> length data = n"
| "call_in_range fs (Read_mode data a n m) \<longleftrightarrow> a + n \<le> fs \<and> length data = n"
| "call_in_range fs (Write data a n) \<longleftrightarrow> a + n < 2 ^ 32 \<and> n \<le> length data"
| "call_in_range fs (Erase a n) \<longleftrightarrow> a + n < 2 ^ 32"

text \<open>The requests of a sequence of calls, as far as none of them fails.\<close>

fun call_requests :: "'s qspi_ctx \<Rightarrow> api_call list \<Rightarrow> qspi_flash_op_req list res" where
  "call_requests ctx [] = Inr []"
| "call_requests ctx (x # xs) =
     rbind (call_request ctx x) (\<lambda>r. rbind (call_requests ctx xs) (\<lambda>rs. Inr (r # rs)))"

definition read_conv ::
  "(transfer_mode \<Rightarrow> byte \<Rightarrow> byte) \<Rightarrow> 's qspi_ctx \<Rightarrow> transfer_mode \<Rightarrow> byte \<Rightarrow> byte" where
  "read_conv decode ctx = (if calibration_valid ctx then decode else (\<lambda>_ x. x))"

lemma call_request_ok:
  assumes "ctx_ok good mode fs m ctx d" and "call_in_range fs x"
  shows "\<exists>r. call_request ctx x = Inr r \<and> in_range fs r \<and>
    (\<forall>c. flash_spec decode fs r c = call_spec (read_conv decode ctx) m fs x c) \<and>
    first_ok mode FLASH_OP_NONE d (op r)"
proof (cases x)
  case (Read data a n)
  with assms show ?thesis
    by (cases m) (auto simp: ctx_ok_def in_range_def flash_spec_def Let_def read_conv_def first_ok_def
        is_slow_def is_fast_def mode_of_def qspi_flash_local_read_def
        qspi_flash_local_read_fast_raw_def qspi_flash_local_read_fast_ns_def split: if_splits)
next
  case (Read_mode data a n m')
  with assms show ?thesis
    by (cases m') (auto simp: ctx_ok_def in_range_def flash_spec_def Let_def read_conv_def first_ok_def
        is_slow_def is_fast_def mode_of_def qspi_flash_local_read_mode_def
        qspi_flash_local_read_mode_fast_def split: if_splits)
next
  case (Write data a n)
  with assms show ?thesis
    by (auto simp: in_range_def flash_spec_def Let_def first_ok_def is_slow_def
        qspi_flash_local_write_def fun_eq_iff)
next
  case (Erase a n)
  with assms show ?thesis
    by (auto simp: in_range_def flash_spec_def Let_def first_ok_def is_slow_def
        qspi_flash_local_erase_def)
qed

lemma call_requests_ok:
  assumes "ctx_ok good mode fs m ctx d" and "list_all (call_in_range fs) xs"
  shows "\<exists>rs. call_requests ctx xs = Inr rs \<and> list_all (in_range fs) rs \<and>
    (\<forall>c. flash_spec_run decode fs rs c = call_spec_run (read_conv decode ctx) m fs xs c) \<and>
    (rs \<noteq> [] \<longrightarrow> first_ok mode FLASH_OP_NONE d (op (hd rs)))"
  using assms(2)
proof (induction xs)
  case (Cons x xs)
  from Cons.prems Cons.IH obtain rs where rs: "call_requests ctx xs = Inr rs"
      "list_all (in_range fs) rs"
      "\<forall>c. flash_spec_run decode fs rs c = call_spec_run (read_conv decode ctx) m fs xs c"
    by auto
  obtain r where r: "call_request ctx x = Inr r" "in_range fs r"
      "\<forall>c. flash_spec decode fs r c = call_spec (read_conv decode ctx) m fs x c"
      "first_ok mode FLASH_OP_NONE d (op r)"
    using call_request_ok [OF assms(1), of x decode] Cons.prems by auto
  from r rs show ?case by simp
qed simp

text \<open>
  C11. From either initialisation, every sequence of API calls that stay inside the flash is
  executed by the operation thread to the end, returns the data and leaves the contents that
  the abstract memory gives: reads return the contents (decoded by the transfer mode when
  the fast library is calibrated), writes AND their bytes in, erases set whole sectors to
  0xFF, whatever mixture of the two flash libraries the calls need.
\<close>

theorem qspi_driver_is_a_memory:
  assumes l: "lib_ok lib good v mode decode fs"
    and s: "good (case spec of None \<Rightarrow> FL_QUADDEVICE_DEFAULT lib | Some s \<Rightarrow> s)"
    and d: "mode d = Idle" "pending v d = 0"
    and i: "rtos_qspi_flash_init lib spec d = Inr (ctx, d0)
      \<or> rtos_qspi_flash_fast_read_init lib spec m clk_div addr d = Inr (ctx, d0)"
    and x: "list_all (call_in_range fs) xs"
  shows "\<exists>rs k d'. call_requests ctx xs = Inr rs
    \<and> op_thread_run (api_of lib (qspi_spec ctx)) (flash_size ctx) rs (last_op ctx) d0
      = Some (Inr (fst (call_spec_run (read_conv decode ctx) m fs xs (cells v d)), k, d'))
    \<and> cells v d' = snd (call_spec_run (read_conv decode ctx) m fs xs (cells v d))"
proof -
  have c: "ctx_ok good mode fs m ctx d0" and u: "undisturbed v d d0"
    using i init_ctx_ok [OF l s d(1)] fast_init_ctx_ok [OF l s d(1)] by auto
  from call_requests_ok [OF c x, of decode] obtain rs where rs: "call_requests ctx xs = Inr rs"
      "list_all (in_range fs) rs"
      "\<forall>c. flash_spec_run decode fs rs c = call_spec_run (read_conv decode ctx) m fs xs c"
      "rs \<noteq> [] \<longrightarrow> first_ok mode FLASH_OP_NONE d0 (op (hd rs))"
    by auto
  have g: "good (qspi_spec ctx)" and k: "flash_size ctx = fs" "last_op ctx = FLASH_OP_NONE"
    using c by (simp_all add: ctx_ok_def)
  have "mode d0 \<noteq> Fast"
    using c by (auto simp: ctx_ok_def split: if_splits)
  then have "thread_inv v mode FLASH_OP_NONE d0"
    using u d(2) by (cases "mode d0") (auto simp: thread_inv_def undisturbed_def mode_of_def
        is_slow_def is_fast_def)
  from op_thread_run_ok [OF lib_good(1-3) [OF l g] lib_size(1) [OF l] lib_good(4) [OF l g]
      lib_size(2) [OF l] this rs(2,4)] rs(1,3) k u
  show ?thesis by (auto simp: undisturbed_def)
qed

end
