(* ===== verification/Qspi_Lock.thy ===== *)
theory Qspi_Lock
  imports Qspi_Flash
begin

text \<open>
  The concurrency of the QSPI flash driver (modules/drivers/qspi_flash/src/rtos_qspi_flash.c):
  the spinlock and the low-level reads, the recursive lock of the tasks, and the hand-over of
  read data through the one \<open>data_ready\<close> semaphore. The kernel's mutex, queue and semaphore
  are modelled as documented: a recursive mutex with an owner and a count, a queue of two
  requests, a semaphore that counts to one and wakes the waiting task of highest priority.
\<close>

section \<open>The spinlock and the low-level reads\<close>

definition spinlock_get :: "int \<Rightarrow> bool \<times> int" where
  "spinlock_get lock = (if lock = 0 then (True, 1) else (False, lock))"

definition spinlock_release :: "int \<Rightarrow> int" where
  "spinlock_release lock = 0"

text \<open>
  A low-level read without the masking of interrupts: the return value, the buffer, the
  spinlock and the device. \<open>None\<close> stands for a loop that does not end.
\<close>

definition read_ll ::
  "(nat \<Rightarrow> nat \<Rightarrow> 'd \<Rightarrow> byte list \<times> 'd) \<Rightarrow> nat \<Rightarrow> byte list \<Rightarrow> nat \<Rightarrow> nat \<Rightarrow> int \<Rightarrow> 'd
     \<Rightarrow> (int \<times> byte list \<times> int \<times> 'd) option" where
  "read_ll rd flash_size data address len lock d =
     (let (lock_acquired, lock1) = spinlock_get lock
      in if lock_acquired
         then map_option (\<lambda>(data', d'). (0, data', spinlock_release lock1, d'))
                (read_loop rd flash_size data 0 address len d)
         else Some (-1, data, lock1, d))"

definition rtos_qspi_flash_read_ll ::
  "'d flash_api \<Rightarrow> nat \<Rightarrow> byte list \<Rightarrow> nat \<Rightarrow> nat \<Rightarrow> int \<Rightarrow> 'd
     \<Rightarrow> (int \<times> byte list \<times> int \<times> 'd) option" where
  "rtos_qspi_flash_read_ll api = read_ll (fl_int_read api)"

text \<open>\<open>mode\<close> is the transfer mode the fast read context was left in.\<close>

definition rtos_qspi_flash_fast_read_ll ::
  "'d flash_api \<Rightarrow> transfer_mode \<Rightarrow> nat \<Rightarrow> byte list \<Rightarrow> nat \<Rightarrow> nat \<Rightarrow> int \<Rightarrow> 'd
     \<Rightarrow> (int \<times> byte list \<times> int \<times> 'd) option" where
  "rtos_qspi_flash_fast_read_ll api mode = read_ll (fast_read api mode)"

definition rtos_qspi_flash_fast_read_mode_ll ::
  "'d flash_api \<Rightarrow> nat \<Rightarrow> byte list \<Rightarrow> nat \<Rightarrow> nat \<Rightarrow> transfer_mode \<Rightarrow> int \<Rightarrow> 'd
     \<Rightarrow> (int \<times> byte list \<times> int \<times> 'd) option" where
  "rtos_qspi_flash_fast_read_mode_ll api flash_size data address len mode =
     read_ll (fast_read api mode) flash_size data address len"

lemma spinlock_busy [simp]: "lock \<noteq> 0 \<Longrightarrow> spinlock_get lock = (False, lock)"
  by (simp add: spinlock_get_def)

lemma spinlock_free [simp]: "spinlock_get 0 = (True, 1)"
  by (simp add: spinlock_get_def)

text \<open>A low-level read returns the contents of the flash when nobody holds the spinlock.\<close>

theorem qspi_read_ll_ok:
  assumes "nor_flash_ok api v flash_size" and "flash_size < 2 ^ 32" and "ready v d"
    and "address + len \<le> flash_size" and "length data = len"
  shows "\<exists>d'. rtos_qspi_flash_read_ll api flash_size data address len lock d
      = Some (if lock = 0 then (0, map (cells v d) [address..<address + len], 0, d')
              else (-1, data, lock, d))
    \<and> cells v d' = cells v d \<and> ready v d'"
proof -
  have "\<exists>d'. read_loop (fl_int_read api) flash_size data 0 address len d
      = Some (put_at data 0 (map (cells v d) [address..<address + len]), d')
      \<and> (cells v d' = cells v d \<and> ready v d')"
    using nor_read [OF assms(1)] assms(2-5) by (intro read_loop_ok) auto
  with assms(3,5) show ?thesis
    by (cases "lock = 0")
      (auto simp: rtos_qspi_flash_read_ll_def read_ll_def spinlock_release_def put_at_def)
qed

section \<open>The lock of the tasks\<close>

text \<open>
  Where a task is: about to take the spinlock or to increment it with the mutex taken, in
  \<open>request\<close> with the mutex taken, or about to give the mutex back; \<open>Run\<close> is everything else.
\<close>

datatype task_pc = Run | Spinning | Nesting | Requesting | Releasing

record lock_state =
  holder :: "nat option"
  taken :: nat
  spinlock :: int
  pc :: "nat \<Rightarrow> task_pc"
  ll_readers :: "nat set"

definition unlocked :: lock_state where
  "unlocked = \<lparr>holder = None, taken = 0, spinlock = 0, pc = (\<lambda>_. Run), ll_readers = {}\<rparr>"

definition mutex_get :: "nat \<Rightarrow> task_pc \<Rightarrow> lock_state \<Rightarrow> lock_state" where
  "mutex_get t p s = s\<lparr>holder := Some t, taken := taken s + 1, pc := (pc s)(t := p)\<rparr>"

definition mutex_put :: "nat \<Rightarrow> lock_state \<Rightarrow> lock_state" where
  "mutex_put t s =
     s\<lparr>holder := (if taken s = 1 then None else Some t), taken := taken s - 1,
       pc := (pc s)(t := Run)\<rparr>"

text \<open>
  The steps of \<open>qspi_flash_local_lock\<close>, \<open>qspi_flash_local_unlock\<close>, \<open>request\<close> and of the
  low-level reads, interleaved as they come. The increment and the decrement of the spinlock
  are single steps: nobody else writes it while its owner does.
\<close>

inductive lock_step :: "lock_state \<Rightarrow> lock_state \<Rightarrow> bool" where
  lock_first: "pc s t = Run \<Longrightarrow> holder s = None \<Longrightarrow> lock_step s (mutex_get t Spinning s)"
| lock_again: "pc s t = Run \<Longrightarrow> holder s = Some t \<Longrightarrow> lock_step s (mutex_get t Nesting s)"
| spin: "pc s t = Spinning \<Longrightarrow> spinlock_get (spinlock s) = (ok, l) \<Longrightarrow>
    lock_step s (s\<lparr>spinlock := l, pc := (pc s)(t := (if ok then Run else Spinning))\<rparr>)"
| nest: "pc s t = Nesting \<Longrightarrow>
    lock_step s (s\<lparr>spinlock := spinlock s + 1, pc := (pc s)(t := Run)\<rparr>)"
| unlock: "pc s t = Run \<Longrightarrow> holder s = Some t \<Longrightarrow>
    lock_step s (s\<lparr>spinlock := spinlock s - 1, pc := (pc s)(t := Releasing)\<rparr>)"
| unlock_not_owned: "pc s t = Run \<Longrightarrow> holder s \<noteq> Some t \<Longrightarrow> lock_step s s"
| unlock_mutex: "pc s t = Releasing \<Longrightarrow> lock_step s (mutex_put t s)"
| request_get: "pc s t = Run \<Longrightarrow> holder s \<in> {None, Some t} \<Longrightarrow>
    lock_step s (mutex_get t Requesting s)"
| request_put: "pc s t = Requesting \<Longrightarrow> lock_step s (mutex_put t s)"
| ll_begin: "r \<notin> ll_readers s \<Longrightarrow> spinlock_get (spinlock s) = (ok, l) \<Longrightarrow>
    lock_step s (s\<lparr>spinlock := l,
      ll_readers := (if ok then insert r (ll_readers s) else ll_readers s)\<rparr>)"
| ll_end: "r \<in> ll_readers s \<Longrightarrow>
    lock_step s (s\<lparr>spinlock := spinlock_release (spinlock s), ll_readers := ll_readers s - {r}\<rparr>)"

text \<open>How many locks the mutex's holder has that it has not begun to give back.\<close>

definition lock_depth :: "lock_state \<Rightarrow> nat" where
  "lock_depth s =
     (case holder s of None \<Rightarrow> 0 | Some t \<Rightarrow> if pc s t = Run then taken s else taken s - 1)"

definition holder_inv :: "lock_state \<Rightarrow> bool" where
  "holder_inv s \<longleftrightarrow>
     holder s = None \<and> taken s = 0 \<and> pc s = (\<lambda>_. Run) \<or>
     (\<exists>t p. holder s = Some t \<and> 0 < taken s \<and> pc s = (\<lambda>_. Run)(t := p) \<and>
            (p = Spinning \<longrightarrow> taken s = 1) \<and> (p = Nesting \<longrightarrow> 2 \<le> taken s))"

definition spin_inv :: "lock_state \<Rightarrow> bool" where
  "spin_inv s \<longleftrightarrow>
     (if ll_readers s = {} then spinlock s = int (lock_depth s)
      else spinlock s = 1 \<and> lock_depth s = 0 \<and> (\<exists>r. ll_readers s = {r}))"

definition lock_inv :: "lock_state \<Rightarrow> bool" where
  "lock_inv s \<longleftrightarrow> holder_inv s \<and> spin_inv s"

lemma lock_inv_cases:
  assumes "lock_inv s"
  obtains (free) "holder s = None" "taken s = 0" "pc s = (\<lambda>_. Run)" "spin_inv s"
  | (held) t p where "holder s = Some t" "0 < taken s" "pc s = (\<lambda>_. Run)(t := p)"
      "p = Spinning \<longrightarrow> taken s = 1" "p = Nesting \<longrightarrow> 2 \<le> taken s" "spin_inv s"
  using assms by (auto simp: lock_inv_def holder_inv_def)

lemmas lock_defs = holder_inv_def spin_inv_def lock_depth_def mutex_get_def mutex_put_def
  spinlock_get_def spinlock_release_def

lemma lock_inv_unlocked: "lock_inv unlocked"
  by (simp add: lock_inv_def unlocked_def lock_defs)

lemma lock_step_holder: "lock_step s s' \<Longrightarrow> lock_inv s \<Longrightarrow> holder_inv s'"
  by (erule lock_inv_cases; erule lock_step.cases)
    (auto simp: lock_defs fun_upd_idem_iff split: if_splits)

lemma lock_step_spin: "lock_step s s' \<Longrightarrow> lock_inv s \<Longrightarrow> spin_inv s'"
  by (erule lock_inv_cases; erule lock_step.cases)
    (auto simp: lock_defs split: if_splits)

lemma lock_step_inv: "lock_step s s' \<Longrightarrow> lock_inv s \<Longrightarrow> lock_inv s'"
  by (simp add: lock_inv_def [of s'] lock_step_holder lock_step_spin)

interpretation lock: state_machine unlocked lock_step lock_inv
  by unfold_locales (auto intro: lock_inv_unlocked lock_step_inv)

text \<open>
  C12. In every reachable state, a task that owns the lock runs while no low-level read is
  active and no other task is inside the lock operations, and the spinlock counts its
  recursion; at most one low-level read is active, and only when nobody owns the lock; and
  when nobody owns the lock and no low-level read is active, the next low-level read gets
  the spinlock.
\<close>

theorem qspi_lock_excludes:
  assumes "lock_step\<^sup>*\<^sup>* unlocked s"
  shows "(holder s = Some t \<and> pc s t = Run \<longrightarrow>
      ll_readers s = {} \<and> (\<forall>u. u \<noteq> t \<longrightarrow> pc s u = Run) \<and> spinlock s = int (taken s) \<and> 0 < taken s)
    \<and> (r \<in> ll_readers s \<longrightarrow> ll_readers s = {r} \<and> lock_depth s = 0)
    \<and> (ll_readers s = {} \<and> lock_depth s = 0 \<longrightarrow> fst (spinlock_get (spinlock s)))"
  using lock.reachable [OF assms]
  by (elim lock_inv_cases) (auto simp: lock_defs split: if_splits)

section \<open>The hand-over of read data\<close>

text \<open>
  The tasks that read: the requests in the queue, by task; \<open>data_ready\<close>; the tasks that wait
  for it; the tasks whose latest request the operation thread has executed and the tasks whose
  latest call has returned. \<open>locked\<close> says that every task takes the lock around its reads.
\<close>

record read_state =
  queue :: "nat list"
  data_ready :: nat
  waiting :: "nat set"
  served :: "nat set"
  returned :: "nat set"

definition no_reads :: read_state where
  "no_reads = \<lparr>queue = [], data_ready = 0, waiting = {}, served = {}, returned = {}\<rparr>"

inductive read_step :: "(nat \<Rightarrow> nat) \<Rightarrow> bool \<Rightarrow> read_state \<Rightarrow> read_state \<Rightarrow> bool"
  for prio :: "nat \<Rightarrow> nat" and locked :: bool where
  send: "t \<notin> waiting s \<Longrightarrow> length (queue s) < 2 \<Longrightarrow> (locked \<longrightarrow> waiting s = {}) \<Longrightarrow>
    read_step prio locked s
      (s\<lparr>queue := queue s @ [t], waiting := insert t (waiting s), served := served s - {t},
         returned := returned s - {t}\<rparr>)"
| execute: "queue s = t # q \<Longrightarrow>
    read_step prio locked s
      (s\<lparr>queue := q, served := insert t (served s), data_ready := min 1 (data_ready s + 1)\<rparr>)"
| wake: "t \<in> waiting s \<Longrightarrow> 0 < data_ready s \<Longrightarrow> (\<forall>u\<in>waiting s. prio u \<le> prio t) \<Longrightarrow>
    read_step prio locked s
      (s\<lparr>data_ready := data_ready s - 1, waiting := waiting s - {t},
         returned := insert t (returned s)\<rparr>)"

definition locked_inv :: "read_state \<Rightarrow> bool" where
  "locked_inv s \<longleftrightarrow>
     returned s \<subseteq> served s \<and> waiting s \<inter> returned s = {} \<and>
     (waiting s = {} \<and> queue s = [] \<and> data_ready s = 0 \<or>
      (\<exists>t. waiting s = {t} \<and> (queue s = [t] \<and> data_ready s = 0 \<or>
                               queue s = [] \<and> data_ready s = 1 \<and> t \<in> served s)))"

lemma locked_step_inv: "read_step prio True s s' \<Longrightarrow> locked_inv s \<Longrightarrow> locked_inv s'"
  by (induction rule: read_step.induct) (auto simp: locked_inv_def)

lemma locked_start: "locked_inv no_reads"
  by (simp add: locked_inv_def no_reads_def)

interpretation locked: state_machine no_reads "read_step prio True" locked_inv for prio
  by unfold_locales (auto intro: locked_start locked_step_inv)

text \<open>
  C13. When every task takes the lock around its reads, a read returns only after its
  request was executed, and no task waits for a signal that was lost.
\<close>

theorem qspi_locked_reads_get_their_data:
  assumes "(read_step prio True)\<^sup>*\<^sup>* no_reads s"
  shows "returned s \<subseteq> served s
    \<and> (waiting s \<noteq> {} \<longrightarrow> queue s \<noteq> [] \<or> (\<exists>t. waiting s = {t} \<and> 0 < data_ready s))"
  using locked.reachable [OF assms] by (auto simp: locked_inv_def)

text \<open>
  Two tasks that read without the lock: the task of higher priority is woken by the data of
  the other; and two executions in a row leave one of two tasks waiting for ever.
\<close>

lemma read_step_send:
  "t \<notin> waiting s \<Longrightarrow> length (queue s) < 2 \<Longrightarrow>
    s' = s\<lparr>queue := queue s @ [t], waiting := insert t (waiting s), served := served s - {t},
           returned := returned s - {t}\<rparr> \<Longrightarrow> read_step prio False s s'"
  by (auto intro: send)

text \<open>
  Two tasks that read without taking the lock: a read can return before its request was
  executed, woken by the data of the other task, and a task can be left waiting for ever.
\<close>

theorem qspi_unlocked_reads_mix_up:
  "(\<exists>s. (read_step id False)\<^sup>*\<^sup>* no_reads s \<and> 2 \<in> returned s \<and> 2 \<notin> served s)
   \<and> (\<exists>s. (read_step id False)\<^sup>*\<^sup>* no_reads s \<and> waiting s = {1} \<and> queue s = [] \<and> data_ready s = 0)"
proof -
  let ?s0 = "no_reads"
  let ?s1 = "\<lparr>queue = [1], data_ready = 0, waiting = {1}, served = {}, returned = {}\<rparr>"
  let ?s2 = "\<lparr>queue = [1, 2], data_ready = 0, waiting = {1, 2}, served = {}, returned = {}\<rparr>"
  let ?s3 = "\<lparr>queue = [2], data_ready = 1, waiting = {1, 2}, served = {1}, returned = {}\<rparr>"
  let ?s4 = "\<lparr>queue = [2], data_ready = 0, waiting = {1}, served = {1}, returned = {2}\<rparr>"
  let ?t4 = "\<lparr>queue = [], data_ready = 1, waiting = {1, 2}, served = {1, 2}, returned = {}\<rparr>"
  let ?t5 = "\<lparr>queue = [], data_ready = 0, waiting = {1}, served = {1, 2}, returned = {2}\<rparr>"
  have 1: "read_step id False ?s0 ?s1" "read_step id False ?s1 ?s2"
    using send [of 1 ?s0 False id] send [of 2 ?s1 False id]
    by (simp_all add: no_reads_def insert_commute)
  have 2: "read_step id False ?s2 ?s3" "read_step id False ?s3 ?t4"
    using execute [of ?s2 1 "[2]" id False] execute [of ?s3 2 "[]" id False]
    by (simp_all add: insert_commute)
  have 3: "read_step id False ?s3 ?s4" "read_step id False ?t4 ?t5"
    using wake [of 2 ?s3 id False] wake [of 2 ?t4 id False]
    by (simp_all add: insert_Diff_if)
  have s3: "(read_step id False)\<^sup>*\<^sup>* ?s0 ?s3"
    using 1 2(1) by (meson rtranclp.rtrancl_into_rtrancl rtranclp.rtrancl_refl)
  have "(read_step id False)\<^sup>*\<^sup>* ?s0 ?s4" "(read_step id False)\<^sup>*\<^sup>* ?s0 ?t5"
    using s3 2(2) 3 by (meson rtranclp.rtrancl_into_rtrancl)+
  then show ?thesis
    by (intro conjI exI [of _ ?s4] exI [of _ ?t5]) simp_all
qed

end
