(* ===== verification/Qspi_Chip.thy ===== *)
theory Qspi_Chip
  imports Qspi_Driver Qspi_Lock
begin

text \<open>
  A NOR flash chip of two sectors with the library calls on it. It satisfies what the QSPI
  flash theories assume of the chip and the libraries, and their theorems are instantiated on it.
\<close>

record chip =
  chip_mem :: "nat \<Rightarrow> byte"
  chip_wel :: bool
  chip_busy :: nat
  chip_mode :: lib_mode

definition chip_size :: nat where "chip_size = 8192"

definition chip_command :: "byte \<Rightarrow> chip \<Rightarrow> chip" where
  "chip_command c d =
     (if c = 0x06 then d\<lparr>chip_wel := True\<rparr>
      else if c = 0x04 then d\<lparr>chip_wel := False\<rparr>
      else if c = 0xC7 \<and> chip_wel d
      then d\<lparr>chip_mem := erased (chip_mem d) 0 chip_size, chip_busy := 3\<rparr>
      else d)"

definition chip_write :: "nat \<Rightarrow> byte list \<Rightarrow> chip \<Rightarrow> chip" where
  "chip_write a bs d =
     (if chip_wel d then d\<lparr>chip_mem := programmed (chip_mem d) a bs, chip_busy := 1\<rparr> else d)"

definition chip_erase :: "nat \<Rightarrow> chip \<Rightarrow> chip" where
  "chip_erase a d =
     (if chip_wel d then d\<lparr>chip_mem := erased (chip_mem d) a (a + 4096), chip_busy := 2\<rparr> else d)"

definition nibble_swapped :: "byte \<Rightarrow> byte" where
  "nibble_swapped b = push_bit 4 b OR drop_bit 4 b"

definition chip_decode :: "transfer_mode \<Rightarrow> byte \<Rightarrow> byte" where
  "chip_decode m = (case m of transfer_raw \<Rightarrow> id | transfer_nibble_swap \<Rightarrow> nibble_swapped)"

definition chip_api :: "chip flash_api" where
  "chip_api =
     \<lparr>fl_int_read = (\<lambda>a n d. (map (chip_mem d) [a..<a + n], d)),
      fl_int_write = chip_write,
      fl_int_sendSingleByteCommand = chip_command,
      fl_int_eraseSector = chip_erase,
      fl_getBusyStatus = (\<lambda>d. (chip_busy d > 0, d\<lparr>chip_busy := chip_busy d - 1\<rparr>)),
      fl_getPageSize = 256,
      writeEnableCommand = 0x06,
      writeDisableCommand = 0x04,
      fl_connectToDevice = (\<lambda>d. (0, d\<lparr>chip_mode := Connected\<rparr>)),
      fl_disconnect = (\<lambda>d. d\<lparr>chip_mode := Idle\<rparr>),
      fast_read_setup = (\<lambda>d. d\<lparr>chip_mode := Fast\<rparr>),
      fast_read_shutdown = (\<lambda>d. d\<lparr>chip_mode := Idle\<rparr>),
      fast_read = (\<lambda>m a n d. (map (\<lambda>x. chip_decode m (chip_mem d x)) [a..<a + n], d))\<rparr>"

definition chip_view :: "chip nor_view" where
  "chip_view =
     \<lparr>cells = chip_mem, wel = chip_wel, pending = chip_busy,
      selected = (\<lambda>d. chip_mode d = Connected)\<rparr>"

definition chip_lib :: "(unit, chip) flash_lib" where
  "chip_lib =
     \<lparr>api_of = (\<lambda>_. chip_api), FL_QUADDEVICE_DEFAULT = (), sectorEraseSize = (\<lambda>_. 4096),
      fl_copySpec = (\<lambda>_ s. (0, s)), fl_getFlashSize = (\<lambda>_. chip_size),
      fl_quadEnable = (\<lambda>d. (0, d)), fast_init = (\<lambda>_ _ d. d),
      fast_setup_resources = (\<lambda>d. d\<lparr>chip_mode := Fast\<rparr>), fast_calibrate = (\<lambda>_ d. (0, d))\<rparr>"

text \<open>All bytes programmed to 0x5A, and the flash library connected.\<close>

definition used_chip :: chip where
  "used_chip = \<lparr>chip_mem = (\<lambda>_. 0x5A), chip_wel = False, chip_busy = 0, chip_mode = Connected\<rparr>"

lemmas chip_defs = chip_command_def chip_write_def chip_erase_def chip_api_def chip_view_def
  ready_def same_cells_def ERASE_CHIP_def QSPI_ERASE_TYPE_SIZE_LOG2_def

lemma chip_nor_ok: "nor_flash_ok chip_api chip_view chip_size"
proof -
  have "\<exists>k. (256 :: nat) = 2 ^ k"
    by (intro exI [of _ 8]) simp
  then show ?thesis
    by (simp add: nor_flash_ok_def Let_def chip_defs)
qed

lemma chip_modes_ok: "modes_ok chip_api chip_view chip_mode chip_decode chip_size"
  by (simp add: modes_ok_def chip_defs)

lemma chip_connects: "connects chip_api chip_mode"
  by (simp add: connects_def rtos_qspi_flash_fl_connect_with_retry_def chip_api_def)

lemma chip_lib_ok: "lib_ok chip_lib (\<lambda>_. True) chip_view chip_mode chip_decode chip_size"
proof -
  have page: "fl_getPageSize chip_api dvd chip_size" and size: "4096 dvd chip_size"
    by (simp_all add: chip_api_def chip_size_def)
  show ?thesis
    unfolding lib_ok_def
    using chip_nor_ok chip_modes_ok chip_connects page size
    by (simp add: chip_lib_def undisturbed_def chip_view_def) (simp add: chip_size_def)
qed

section \<open>The theorems on the chip\<close>

theorem qspi_read_op_ok_witness:
  "\<exists>d'. read_op chip_api chip_size [0, 0, 0] 8189 3 used_chip
      = Some (map (cells chip_view used_chip) [8189..<8189 + 3], d')
    \<and> cells chip_view d' = cells chip_view used_chip \<and> ready chip_view d'"
  by (rule qspi_read_op_ok [OF chip_nor_ok])
    (simp_all add: used_chip_def chip_view_def ready_def chip_size_def)

theorem qspi_read_past_end_never_returns_witness:
  "read_op chip_api chip_size [0, 0, 0] 8190 3 used_chip = None"
  by (rule qspi_read_past_end_never_returns)
    (simp_all add: chip_size_def RTOS_QSPI_FLASH_READ_CHUNK_SIZE_def)

theorem qspi_write_op_ok_witness:
  "\<exists>d'. write_op chip_api chip_size [0x0F, 0xF0] 255 2 used_chip = Some d' \<and> ready chip_view d' \<and>
    (\<forall>x. cells chip_view d' x
      = (if 255 \<le> x \<and> x < min (255 + 2) chip_size
         then cells chip_view used_chip x AND [0x0F, 0xF0] ! (x - 255)
         else cells chip_view used_chip x))"
  by (rule qspi_write_op_ok [OF chip_nor_ok])
    (simp_all add: used_chip_def chip_view_def ready_def chip_size_def chip_api_def)

theorem qspi_erase_op_ok_witness:
  "\<exists>d'. erase_op chip_api chip_size 4097 10 used_chip = Some (Inr d') \<and> ready chip_view d' \<and>
    (\<forall>x. cells chip_view d' x
      = (if 4097 div 4096 * 4096 \<le> x \<and> x < min chip_size ((4097 + 10 + 4095) div 4096 * 4096)
         then 0xFF else cells chip_view used_chip x))"
  by (rule qspi_erase_op_ok [OF chip_nor_ok])
    (simp_all add: used_chip_def chip_view_def ready_def chip_size_def)

theorem qspi_read_ll_ok_witness:
  "\<exists>d'. rtos_qspi_flash_read_ll chip_api chip_size [0, 0] 16 2 0 used_chip
      = Some (if (0 :: int) = 0 then (0, map (cells chip_view used_chip) [16..<16 + 2], 0, d')
              else (-1, [0, 0], 0, used_chip))
    \<and> cells chip_view d' = cells chip_view used_chip \<and> ready chip_view d'"
  by (rule qspi_read_ll_ok [OF chip_nor_ok])
    (simp_all add: used_chip_def chip_view_def ready_def chip_size_def)

definition fresh_chip :: chip where
  "fresh_chip = used_chip\<lparr>chip_mode := Idle\<rparr>"

definition chip_ctx :: "unit qspi_ctx" where
  "chip_ctx =
     \<lparr>qspi_spec = (), flash_size = chip_size, calibration_valid = True, last_op = FLASH_OP_NONE,
      read = qspi_flash_local_read_fast_ns_ptr, read_mode = qspi_flash_local_read_mode_fast_ptr\<rparr>"

lemma chip_fast_init:
  "rtos_qspi_flash_fast_read_init chip_lib None transfer_nibble_swap 2 0 fresh_chip
    = Inr (chip_ctx, fresh_chip)"
  by (simp add: rtos_qspi_flash_fast_read_init_def init_common_def chip_lib_def chip_api_def
      fresh_chip_def used_chip_def chip_ctx_def Let_def QSPI_ERASE_TYPE_SIZE_LOG2_def)

theorem qspi_driver_is_a_memory_witness:
  "\<exists>rs k d'. call_requests chip_ctx [Write [0x50, 0x0A] 0 2, Read [0, 0] 0 2, Erase 1 1] = Inr rs
    \<and> op_thread_run (api_of chip_lib (qspi_spec chip_ctx)) (flash_size chip_ctx) rs
        (last_op chip_ctx) fresh_chip
      = Some (Inr (fst (call_spec_run (read_conv chip_decode chip_ctx) transfer_nibble_swap
          chip_size [Write [0x50, 0x0A] 0 2, Read [0, 0] 0 2, Erase 1 1]
          (cells chip_view fresh_chip)), k, d'))
    \<and> cells chip_view d' = snd (call_spec_run (read_conv chip_decode chip_ctx) transfer_nibble_swap
          chip_size [Write [0x50, 0x0A] 0 2, Read [0, 0] 0 2, Erase 1 1]
          (cells chip_view fresh_chip))"
  by (rule qspi_driver_is_a_memory [OF chip_lib_ok _ _ _ disjI2 [OF chip_fast_init]])
    (simp_all add: fresh_chip_def used_chip_def chip_view_def chip_size_def)

text \<open>Task 3 has taken the lock; task 5 reads with the lock held.\<close>

definition held :: lock_state where
  "held = \<lparr>holder = Some 3, taken = 1, spinlock = 1, pc = (\<lambda>_. Run), ll_readers = {}\<rparr>"

lemma held_reachable: "lock_step\<^sup>*\<^sup>* unlocked held"
proof -
  let ?s = "mutex_get 3 Spinning unlocked"
  have "lock_step unlocked ?s"
    by (rule lock_first) (simp_all add: unlocked_def)
  moreover have "lock_step ?s held"
    using spin [of ?s 3 True 1]
    by (simp add: held_def mutex_get_def unlocked_def fun_upd_def cong: if_cong)
  ultimately show ?thesis by (rule converse_rtranclp_into_rtranclp [OF _ r_into_rtranclp])
qed

theorem qspi_lock_excludes_witness:
  "ll_readers held = {} \<and> pc held 4 = Run \<and> spinlock held = int (taken held) \<and> 0 < taken held"
  using qspi_lock_excludes [OF held_reachable, of 3 0] by (simp add: held_def)

definition one_read :: read_state where
  "one_read = \<lparr>queue = [5], data_ready = 0, waiting = {5}, served = {}, returned = {}\<rparr>"

lemma one_read_reachable: "(read_step id True)\<^sup>*\<^sup>* no_reads one_read"
  using send [of 5 no_reads True id] by (simp add: no_reads_def one_read_def)

theorem qspi_locked_reads_get_their_data_witness:
  "waiting one_read = {5} \<and> returned one_read \<subseteq> served one_read
    \<and> 0 < length (queue one_read) + data_ready one_read"
  using qspi_locked_reads_get_their_data [OF one_read_reachable] by (simp add: one_read_def)

end
