(* ===== verification/Heapsort.thy ===== *)
theory Heapsort
  imports Prelude "HOL-Library.Multiset"
begin

text \<open>
  The in-place heapsort of modules/sw_services/wifi_manager/FreeRTOS/heapsort.h, for a
  comparison of elements that is a strict weak order where it is negative.
\<close>

definition left_child_index :: "nat \<Rightarrow> nat" where
  "left_child_index root = 2 * root + 1"

definition right_sibling_index :: "nat \<Rightarrow> nat" where
  "right_sibling_index left = left + 1"

definition swap :: "'a list \<Rightarrow> nat \<Rightarrow> nat \<Rightarrow> 'a list" where
  "swap xs a b = xs[a := xs ! b, b := xs ! a]"

definition pick_child :: "('a \<Rightarrow> 'a \<Rightarrow> int) \<Rightarrow> nat \<Rightarrow> nat \<Rightarrow> 'a list \<Rightarrow> nat" where
  "pick_child cmp root lst xs =
     (let child = left_child_index root
      in if right_sibling_index child \<le> lst
            \<and> cmp (xs ! child) (xs ! right_sibling_index child) < 0
         then right_sibling_index child else child)"

lemma pick_child_greater: "root < pick_child cmp root lst xs"
  by (simp add: pick_child_def left_child_index_def right_sibling_index_def Let_def)

lemma pick_child_le: "left_child_index root \<le> lst \<Longrightarrow> pick_child cmp root lst xs \<le> lst"
  by (simp add: pick_child_def Let_def)

function sift_down :: "('a \<Rightarrow> 'a \<Rightarrow> int) \<Rightarrow> nat \<Rightarrow> nat \<Rightarrow> 'a list \<Rightarrow> 'a list" where
  "sift_down cmp root lst xs =
     (if left_child_index root \<le> lst
      then let child = pick_child cmp root lst xs
           in if cmp (xs ! root) (xs ! child) < 0
              then sift_down cmp child lst (swap xs root child) else xs
      else xs)"
  by pat_completeness auto

termination
  by (relation "measure (\<lambda>(_, root, lst, _). lst - root)")
    (auto simp: Let_def intro!: diff_less_mono2 pick_child_greater
      intro: order.strict_trans2 [OF pick_child_greater pick_child_le])

declare sift_down.simps [simp del]

text \<open>\<open>n\<close> is \<open>_i + 1\<close>, the number of sifts still to do.\<close>

fun heapify :: "('a \<Rightarrow> 'a \<Rightarrow> int) \<Rightarrow> nat \<Rightarrow> nat \<Rightarrow> 'a list \<Rightarrow> 'a list" where
  "heapify cmp 0 lst xs = xs"
| "heapify cmp (Suc i) lst xs = heapify cmp i lst (sift_down cmp i lst xs)"

fun sort_loop :: "('a \<Rightarrow> 'a \<Rightarrow> int) \<Rightarrow> nat \<Rightarrow> 'a list \<Rightarrow> 'a list" where
  "sort_loop cmp 0 xs = xs"
| "sort_loop cmp (Suc lst) xs =
     sort_loop cmp lst (sift_down cmp 0 lst (swap xs (Suc lst) 0))"

text \<open>The first \<open>n\<close> elements are sorted; for \<open>n = 0\<close> neither loop runs.\<close>

definition heapsort :: "('a \<Rightarrow> 'a \<Rightarrow> int) \<Rightarrow> nat \<Rightarrow> 'a list \<Rightarrow> 'a list" where
  "heapsort cmp n xs =
     (let lst = n - 1 in sort_loop cmp lst (heapify cmp (n div 2) lst xs))"

section \<open>Permutations of a prefix\<close>

lemma length_swap [simp]: "length (swap xs a b) = length xs"
  by (simp add: swap_def)

lemma nth_swap:
  "a < length xs \<Longrightarrow> b < length xs \<Longrightarrow>
     swap xs a b ! k = (if k = b then xs ! a else if k = a then xs ! b else xs ! k)"
  by (auto simp: swap_def nth_list_update)

lemma mset_swap [simp]: "a < length xs \<Longrightarrow> b < length xs \<Longrightarrow> mset (swap xs a b) = mset xs"
  by (simp add: swap_def Multiset.mset_swap)

text \<open>\<open>ys\<close> is a permutation of \<open>xs\<close> that only moves elements at most at \<open>lst\<close>.\<close>

definition permutes_upto :: "nat \<Rightarrow> 'a list \<Rightarrow> 'a list \<Rightarrow> bool" where
  "permutes_upto lst xs ys \<longleftrightarrow>
     mset ys = mset xs \<and> drop (Suc lst) ys = drop (Suc lst) xs"

lemma permutes_refl [simp, intro]: "permutes_upto lst xs xs"
  by (simp add: permutes_upto_def)

lemma permutes_trans: "permutes_upto l xs ys \<Longrightarrow> permutes_upto l ys zs \<Longrightarrow> permutes_upto l xs zs"
  by (simp add: permutes_upto_def)

lemma permutes_length: "permutes_upto l xs ys \<Longrightarrow> length ys = length xs"
  using mset_eq_length by (auto simp: permutes_upto_def)

lemma permutes_mono: "permutes_upto l xs ys \<Longrightarrow> l \<le> m \<Longrightarrow> permutes_upto m xs ys"
proof -
  assume p: "permutes_upto l xs ys" and "l \<le> m"
  then obtain k where m: "m = l + k" by (auto simp: le_iff_add)
  have "drop k (drop (Suc l) ys) = drop k (drop (Suc l) xs)"
    using p by (simp add: permutes_upto_def del: drop_drop)
  then have "drop (Suc m) ys = drop (Suc m) xs" by (simp add: m add.commute)
  with p show ?thesis by (simp add: permutes_upto_def)
qed

lemma permutes_swap:
  assumes "a \<le> lst" and "b \<le> lst" and "lst < length xs"
  shows "permutes_upto lst xs (swap xs a b)"
  using assms by (auto simp: permutes_upto_def swap_def Multiset.mset_swap drop_update_cancel)

lemma permutes_nth: "permutes_upto l xs ys \<Longrightarrow> l < k \<Longrightarrow> k < length xs \<Longrightarrow> ys ! k = xs ! k"
proof -
  assume p: "permutes_upto l xs ys" and k: "l < k" "k < length xs"
  then have "drop (Suc l) ys ! (k - Suc l) = drop (Suc l) xs ! (k - Suc l)"
    by (simp add: permutes_upto_def)
  with p k show ?thesis using permutes_length [OF p] by (simp add: nth_drop)
qed

lemma permutes_prefix: "permutes_upto l xs ys \<Longrightarrow> set (take (Suc l) ys) = set (take (Suc l) xs)"
proof -
  assume p: "permutes_upto l xs ys"
  have split: "mset zs = mset (take (Suc l) zs) + mset (drop (Suc l) zs)" for zs :: "'a list"
    by (metis append_take_drop_id mset_append)
  have "mset (take (Suc l) ys) + mset (drop (Suc l) xs)
      = mset (take (Suc l) xs) + mset (drop (Suc l) xs)"
    using p split [of xs] split [of ys] unfolding permutes_upto_def by metis
  then have "mset (take (Suc l) ys) = mset (take (Suc l) xs)" by simp
  then show ?thesis by (metis set_mset_mset)
qed

lemma sift_down_permutes: "lst < length xs \<Longrightarrow> permutes_upto lst xs (sift_down cmp root lst xs)"
proof (induction cmp root lst xs rule: sift_down.induct)
  case (1 cmp root lst xs)
  show ?case
  proof (cases "left_child_index root \<le> lst
      \<and> cmp (xs ! root) (xs ! pick_child cmp root lst xs) < 0")
    case True
    let ?c = "pick_child cmp root lst xs"
    have c: "?c \<le> lst" "root \<le> lst"
      using pick_child_le [of root lst cmp xs] pick_child_greater [of root cmp lst xs] True by auto
    have "permutes_upto lst xs (swap xs root ?c)"
      using c "1.prems" by (intro permutes_swap) auto
    moreover have "permutes_upto lst (swap xs root ?c) (sift_down cmp ?c lst (swap xs root ?c))"
      using True "1.prems" by (intro "1.IH") auto
    ultimately have "permutes_upto lst xs (sift_down cmp ?c lst (swap xs root ?c))"
      by (rule permutes_trans)
    with True show ?thesis by (subst sift_down.simps) (simp add: Let_def)
  next
    case False
    then show ?thesis by (subst sift_down.simps) (auto simp: Let_def)
  qed
qed

lemma heapify_permutes: "lst < length xs \<Longrightarrow> permutes_upto lst xs (heapify cmp n lst xs)"
proof (induction n arbitrary: xs)
  case (Suc n)
  note s = sift_down_permutes [OF Suc.prems, of cmp n]
  have "permutes_upto lst (sift_down cmp n lst xs) (heapify cmp n lst (sift_down cmp n lst xs))"
    using Suc.prems permutes_length [OF s] by (intro Suc.IH) simp
  with permutes_trans [OF s] show ?case by simp
qed simp

lemma sort_loop_permutes: "lst < length xs \<Longrightarrow> permutes_upto lst xs (sort_loop cmp lst xs)"
proof (induction lst arbitrary: xs)
  case (Suc lst)
  let ?ys = "swap xs (Suc lst) 0" let ?zs = "sift_down cmp 0 lst ?ys"
  have 1: "permutes_upto (Suc lst) xs ?ys"
    using Suc.prems by (intro permutes_swap) auto
  have 2: "permutes_upto (Suc lst) ?ys ?zs"
    using Suc.prems by (intro permutes_mono [OF sift_down_permutes]) auto
  have "permutes_upto lst ?zs (sort_loop cmp lst ?zs)"
    using Suc.prems permutes_length [OF 1] permutes_length [OF 2] by (intro Suc.IH) auto
  then have "permutes_upto (Suc lst) ?zs (sort_loop cmp lst ?zs)"
    by (rule permutes_mono) simp
  with 1 2 show ?case by (auto intro: permutes_trans)
qed simp

lemma heapsort_permutes:
  assumes "n \<le> length xs"
  shows "mset (heapsort cmp n xs) = mset xs \<and> drop n (heapsort cmp n xs) = drop n xs"
proof (cases n)
  case (Suc l)
  let ?ys = "heapify cmp (n div 2) l xs"
  have 1: "permutes_upto l xs ?ys"
    using assms Suc by (intro heapify_permutes) auto
  have "permutes_upto l ?ys (sort_loop cmp l ?ys)"
    using assms Suc permutes_length [OF 1] by (intro sort_loop_permutes) auto
  from permutes_trans [OF 1 this] show ?thesis
    using Suc by (simp add: heapsort_def Let_def permutes_upto_def)
qed (simp add: heapsort_def)

section \<open>The heap\<close>

text \<open>
  \<open>cmp\<close> is negative on a strict weak order: \<open>le\<close>, its complement turned round, is total and
  transitive.
\<close>

locale strict_weak_order =
  fixes cmp :: "'a \<Rightarrow> 'a \<Rightarrow> int"
  assumes asym: "cmp x y < 0 \<Longrightarrow> \<not> cmp y x < 0"
    and negatively_trans: "cmp x z < 0 \<Longrightarrow> cmp x y < 0 \<or> cmp y z < 0"
begin

definition le :: "'a \<Rightarrow> 'a \<Rightarrow> bool" where
  "le x y \<longleftrightarrow> \<not> cmp y x < 0"

lemma le_refl [simp]: "le x x"
  using asym by (auto simp: le_def)

lemma le_trans: "le x y \<Longrightarrow> le y z \<Longrightarrow> le x z"
  using negatively_trans by (auto simp: le_def)

lemma lt_le: "cmp x y < 0 \<Longrightarrow> le x y"
  using asym by (auto simp: le_def)

definition child :: "nat \<Rightarrow> nat \<Rightarrow> bool" where
  "child p c \<longleftrightarrow> c = 2 * p + 1 \<or> c = 2 * p + 2"

lemma child_unique: "child p c \<Longrightarrow> child q c \<Longrightarrow> p = q"
  unfolding child_def by presburger

lemma child_less: "child p c \<Longrightarrow> p < c"
  by (auto simp: child_def)

definition heap :: "nat \<Rightarrow> nat \<Rightarrow> 'a list \<Rightarrow> bool" where
  "heap i l xs \<longleftrightarrow> (\<forall>p c. i \<le> p \<longrightarrow> child p c \<longrightarrow> c \<le> l \<longrightarrow> le (xs ! c) (xs ! p))"

text \<open>A heap but for the element at \<open>root\<close>, which may be too small for its place.\<close>

definition heap_but :: "nat \<Rightarrow> nat \<Rightarrow> nat \<Rightarrow> 'a list \<Rightarrow> bool" where
  "heap_but i root l xs \<longleftrightarrow>
     (\<forall>p c. i \<le> p \<longrightarrow> p \<noteq> root \<longrightarrow> child p c \<longrightarrow> c \<le> l \<longrightarrow> le (xs ! c) (xs ! p)) \<and>
     (\<forall>q c. i \<le> q \<longrightarrow> child q root \<longrightarrow> child root c \<longrightarrow> c \<le> l \<longrightarrow> le (xs ! c) (xs ! q))"

lemma heap_butD:
  "heap_but i root l xs \<Longrightarrow> i \<le> p \<Longrightarrow> p \<noteq> root \<Longrightarrow> child p c \<Longrightarrow> c \<le> l \<Longrightarrow> le (xs ! c) (xs ! p)"
  "heap_but i root l xs \<Longrightarrow> i \<le> p \<Longrightarrow> child p root \<Longrightarrow> child root c \<Longrightarrow> c \<le> l \<Longrightarrow> le (xs ! c) (xs ! p)"
  by (auto simp: heap_but_def)

lemma pick_child_child: "child root (pick_child cmp root l xs)"
  by (simp add: child_def pick_child_def left_child_index_def right_sibling_index_def Let_def)

lemma pick_child_max:
  "child root c \<Longrightarrow> c \<le> l \<Longrightarrow> le (xs ! c) (xs ! pick_child cmp root l xs)"
  using lt_le by (auto simp: child_def pick_child_def left_child_index_def right_sibling_index_def
      Let_def le_def [of "xs ! Suc (Suc (2 * root))"])

lemma heap_but_swap:
  assumes h: "heap_but i root l xs" and "i \<le> root" and "l < length xs"
    and c: "left_child_index root \<le> l" "cmp (xs ! root) (xs ! pick_child cmp root l xs) < 0"
  shows "heap_but i (pick_child cmp root l xs) l (swap xs root (pick_child cmp root l xs))"
proof -
  let ?k = "pick_child cmp root l xs" let ?ys = "swap xs root ?k"
  have k: "root < ?k" "?k \<le> l" "child root ?k"
    using pick_child_greater pick_child_le [OF c(1)] pick_child_child by auto
  have ys: "?ys ! m = (if m = ?k then xs ! root else if m = root then xs ! ?k else xs ! m)" for m
    using k assms(3) by (intro nth_swap) auto
  have "le (?ys ! m) (?ys ! p)" if "i \<le> p" "p \<noteq> ?k" "child p m" "m \<le> l" for p m
  proof (cases "p = root")
    case True
    with that k show ?thesis
      using pick_child_max [of root m l xs] lt_le [OF c(2)] child_less by (auto simp: ys)
  next
    case False
    then have "m \<noteq> ?k" using child_unique [OF that(3)] k(3) by auto
    with False that k show ?thesis
      using heap_butD(2) [OF h that(1) _ k(3,2)] heap_butD(1) [OF h that(1) False that(3,4)]
      by (auto simp: ys)
  qed
  moreover have "le (?ys ! m) (?ys ! q)" if "i \<le> q" "child q ?k" "child ?k m" "m \<le> l" for q m
  proof -
    have "q = root" using child_unique that(2) k(3) by blast
    with that k assms(2) show ?thesis
      using heap_butD(1) [OF h, of ?k m] child_less [OF that(3)] by (auto simp: ys)
  qed
  ultimately show ?thesis by (auto simp: heap_but_def)
qed

lemma heap_but_heap:
  assumes h: "heap_but i root l xs" and "i \<le> root"
    and c: "left_child_index root \<le> l \<longrightarrow> \<not> cmp (xs ! root) (xs ! pick_child cmp root l xs) < 0"
  shows "heap i l xs"
  unfolding heap_def
proof (intro allI impI)
  fix p c assume pc: "i \<le> p" "child p c" "c \<le> l"
  show "le (xs ! c) (xs ! p)"
  proof (cases "p = root")
    case True
    with pc have "left_child_index root \<le> l" by (auto simp: child_def left_child_index_def)
    with assms(3) have "le (xs ! pick_child cmp root l xs) (xs ! root)" by (simp add: le_def)
    with True pc pick_child_max [of root c l xs] show ?thesis by (auto intro: le_trans)
  next
    case False
    with pc show ?thesis using heap_butD(1) [OF h] by blast
  qed
qed

lemma sift_down_heap:
  "heap_but i root l xs \<Longrightarrow> i \<le> root \<Longrightarrow> l < length xs \<Longrightarrow> heap i l (sift_down cmp root l xs)"
proof (induction "l - root" arbitrary: root xs rule: less_induct)
  case less
  let ?k = "pick_child cmp root l xs"
  show ?case
  proof (cases "left_child_index root \<le> l \<and> cmp (xs ! root) (xs ! ?k) < 0")
    case True
    then have k: "root < ?k" "?k \<le> l"
      using pick_child_greater pick_child_le by auto
    with True less.prems have "heap i l (sift_down cmp ?k l (swap xs root ?k))"
      by (intro less.hyps heap_but_swap) auto
    with True show ?thesis by (subst sift_down.simps) (simp add: Let_def)
  next
    case False
    then have "heap i l xs"
      using heap_but_heap [OF less.prems(1,2)] by blast
    with False show ?thesis by (subst sift_down.simps) (auto simp: Let_def)
  qed
qed

lemma heapify_heap:
  "l < length xs \<Longrightarrow> heap n l xs \<Longrightarrow> heap 0 l (heapify cmp n l xs)"
proof (induction n arbitrary: xs)
  case (Suc n)
  have "heap_but n n l xs"
    using Suc.prems(2) child_less by (fastforce simp: heap_def heap_but_def)
  then have "heap n l (sift_down cmp n l xs)"
    using Suc.prems(1) by (intro sift_down_heap) auto
  with Suc permutes_length [OF sift_down_permutes [OF Suc.prems(1)]] show ?case by simp
qed simp

lemma heap_root_max: "heap 0 l xs \<Longrightarrow> k \<le> l \<Longrightarrow> le (xs ! k) (xs ! 0)"
proof (induction k rule: less_induct)
  case (less k)
  show ?case
  proof (cases "k = 0")
    case False
    then have c: "child ((k - 1) div 2) k" unfolding child_def by presburger
    with less.prems have "le (xs ! k) (xs ! ((k - 1) div 2))" by (auto simp: heap_def)
    moreover have "le (xs ! ((k - 1) div 2)) (xs ! 0)"
      using child_less [OF c] less.prems by (intro less.IH) auto
    ultimately show ?thesis by (rule le_trans)
  qed simp
qed

text \<open>
  The loop: the elements after \<open>l\<close> are sorted and none of the others is greater than one of them.
\<close>

definition sorted_from :: "nat \<Rightarrow> nat \<Rightarrow> 'a list \<Rightarrow> bool" where
  "sorted_from l n xs \<longleftrightarrow> (\<forall>i j. i < j \<longrightarrow> l < j \<longrightarrow> j < n \<longrightarrow> le (xs ! i) (xs ! j))"

lemma sort_loop_sorted:
  assumes "n \<le> length xs" and "l < n" and "heap 0 l xs" and "sorted_from l n xs"
  shows "sorted_from 0 n (sort_loop cmp l xs)"
  using assms
proof (induction l arbitrary: xs)
  case (Suc l)
  let ?ys = "swap xs (Suc l) 0" let ?zs = "sift_down cmp 0 l ?ys"
  have len: "length ?zs = length xs"
    using permutes_length [OF sift_down_permutes, of l ?ys] Suc.prems by simp
  have ys: "?ys ! m = (if m = 0 then xs ! Suc l else if m = Suc l then xs ! 0 else xs ! m)" for m
    using Suc.prems by (subst nth_swap) auto
  have "heap_but 0 0 l ?ys"
    using Suc.prems(3) child_less by (auto simp: heap_but_def heap_def ys child_def)
  then have heap: "heap 0 l ?zs"
    using Suc.prems by (intro sift_down_heap) auto
  have p: "permutes_upto l ?ys ?zs"
    using Suc.prems by (intro sift_down_permutes) auto
  have up: "?zs ! m = ?ys ! m" if "l < m" "m < n" for m
    using permutes_nth [OF p that(1)] that Suc.prems by simp
  have low: "\<exists>k\<le>Suc l. ?zs ! m = xs ! k" if "m \<le> l" for m
  proof -
    have "?zs ! m \<in> set (take (Suc l) ?zs)"
      using that len Suc.prems by (auto simp: in_set_conv_nth intro!: exI [of _ m])
    then have "?zs ! m \<in> set (take (Suc l) ?ys)"
      using permutes_prefix [OF p] by simp
    then obtain k where "k \<le> l" "?zs ! m = ?ys ! k"
      unfolding in_set_conv_nth by (metis length_take less_Suc_eq_le min_less_iff_conj nth_take)
    then show ?thesis by (cases "k = 0") (auto simp: ys intro: exI [of _ k])
  qed
  have "le (?zs ! i) (?zs ! j)" if ij: "i < j" "l < j" "j < n" for i j
  proof -
    obtain a where a: "?zs ! i = xs ! a" "a \<le> Suc l \<or> a = i"
    proof (cases "i \<le> l")
      case True with low [of i] that show thesis by auto
    next
      case False
      with up [of i] ij ys [of i] that show thesis by (cases "i = Suc l") auto
    qed
    show ?thesis
    proof (cases "j = Suc l")
      case True
      with ij a heap_root_max [OF Suc.prems(3), of a] up [of j] ys [of j] show ?thesis by auto
    next
      case False
      with ij a have "a < j" "Suc l < j" by auto
      with ij a Suc.prems(4) up [of j] ys [of j] show ?thesis by (auto simp: sorted_from_def)
    qed
  qed
  then have "sorted_from l n ?zs" by (simp add: sorted_from_def)
  with heap Suc len show ?case by simp
qed (simp add: sorted_from_def)

lemma heapsort_sorted:
  assumes "n \<le> length xs" and "i < j" and "j < n"
  shows "\<not> cmp (heapsort cmp n xs ! j) (heapsort cmp n xs ! i) < 0"
proof -
  obtain l where l: "n = Suc l" using assms(3) by (cases n) auto
  let ?ys = "heapify cmp (n div 2) l xs"
  have "heap (n div 2) l xs"
    by (auto simp: heap_def child_def l)
  then have "heap 0 l ?ys"
    using assms l by (intro heapify_heap) auto
  moreover have "length ?ys = length xs"
    using permutes_length [OF heapify_permutes, of l xs] assms(1) l by simp
  ultimately have "sorted_from 0 n (sort_loop cmp l ?ys)"
    using assms l by (intro sort_loop_sorted) (auto simp: sorted_from_def)
  with assms l show ?thesis
    by (simp add: heapsort_def Let_def sorted_from_def le_def)
qed

end

end
