(* ===== verification/Ap_Cache.thy ===== *)
theory Ap_Cache
  imports Heapsort "HOL-Library.Signed_Division"
begin

text \<open>
  The cache of access points of the Wi-Fi connection manager
  (modules/sw_services/wifi_manager/FreeRTOS/wifi_connection_mgr.c): ageing, update from scan
  results, and the order of connection attempts.

  A pointer into \<open>cached_aps\<close> is its index there; \<open>sorted_aps\<close> is the array of those pointers.
  A C string is the list of the bytes of its array.
\<close>

definition MAX_SCAN_COUNT :: nat where "MAX_SCAN_COUNT = 20"
definition CACHED_AP_COUNT :: nat where "CACHED_AP_COUNT = 2 * MAX_SCAN_COUNT"
definition AP_CACHE_ENTRY_MAX_AGE :: int where "AP_CACHE_ENTRY_MAX_AGE = 5"
definition RSSI_HISTORY_LENGTH :: nat where "RSSI_HISTORY_LENGTH = 16"
definition wificonfigMAX_SSID_LEN :: nat where "wificonfigMAX_SSID_LEN = 32"

record ap_info =
  age :: int
  associated_profile :: "nat option"
  rssi_hist :: "byte list"
  rssi :: int
  rrsi_index :: nat
  stable :: bool
  bssid :: "byte list"
  channel :: byte
  connect_failed :: int

record wifi_profile =
  cSSID :: "byte list"
  ucSSIDLength :: nat
  cPassword :: "byte list"
  ucPasswordLength :: nat
  xSecurity :: nat

record scan_list =
  ssid_scan_search_list :: "byte list list"
  saved_profiles :: "wifi_profile list"
  ap_cache_count :: nat
  cached_aps :: "ap_info list"
  sorted_aps :: "nat list"

record scan_result =
  res_ssid :: "byte list"
  ucBSSID :: "byte list"
  cRSSI :: byte
  cChannel :: byte

text \<open>\<open>strncmp\<close> on two arrays finds them equal when their strings agree up to \<open>n\<close> bytes.\<close>

definition c_string :: "nat \<Rightarrow> byte list \<Rightarrow> byte list" where
  "c_string n s = takeWhile (\<lambda>b. b \<noteq> 0) (take n s)"

definition set_ap :: "nat \<Rightarrow> (ap_info \<Rightarrow> ap_info) \<Rightarrow> scan_list \<Rightarrow> scan_list" where
  "set_ap p f s = s\<lparr>cached_aps := (cached_aps s)[p := f (cached_aps s ! p)]\<rparr>"

definition ap_at :: "scan_list \<Rightarrow> nat \<Rightarrow> ap_info" where
  "ap_at s i = cached_aps s ! (sorted_aps s ! i)"

definition ap_cmp :: "ap_info list \<Rightarrow> nat \<Rightarrow> nat \<Rightarrow> int" where
  "ap_cmp aps a b =
     (if age (aps ! a) = 0 then 1
      else if age (aps ! b) = 0 then -1
      else if rssi (aps ! a) > rssi (aps ! b) then -1 else 1)"

text \<open>\<open>None\<close> is the return value -1.\<close>

definition find_ap_in_cache :: "scan_list \<Rightarrow> scan_result \<Rightarrow> nat option" where
  "find_ap_in_cache s r =
     List.find (\<lambda>i. age (ap_at s i) > 0 \<and> ucBSSID r = bssid (ap_at s i)) [0..<ap_cache_count s]"

definition update_ap_rssi :: "byte \<Rightarrow> ap_info \<Rightarrow> ap_info" where
  "update_ap_rssi v ap =
     (let hist = (rssi_hist ap)[rrsi_index ap := v];
          i = rrsi_index ap + 1
      in ap\<lparr>rssi_hist := hist,
            rrsi_index := (if i = RSSI_HISTORY_LENGTH then 0 else i),
            stable := (if i = RSSI_HISTORY_LENGTH then True else stable ap),
            rssi := sum_list (map sint (take RSSI_HISTORY_LENGTH hist))
                    sdiv int RSSI_HISTORY_LENGTH\<rparr>)"

definition update_ap_in_cache :: "scan_result \<Rightarrow> nat \<Rightarrow> scan_list \<Rightarrow> scan_list" where
  "update_ap_in_cache r cache_index s =
     set_ap (sorted_aps s ! cache_index)
       (\<lambda>ap. update_ap_rssi (cRSSI r) (ap\<lparr>age := 1, channel := cChannel r\<rparr>)) s"

definition find_profile :: "wifi_profile list \<Rightarrow> byte list \<Rightarrow> nat option" where
  "find_profile ps ssid =
     List.find (\<lambda>i. c_string wificonfigMAX_SSID_LEN ssid
                  = c_string wificonfigMAX_SSID_LEN (cSSID (ps ! i))) [0..<length ps]"

definition add_ap_to_cache :: "scan_result \<Rightarrow> scan_list \<Rightarrow> scan_list" where
  "add_ap_to_cache r s =
     (case List.find (\<lambda>i. age (ap_at s i) = 0) [0..<CACHED_AP_COUNT] of
        None \<Rightarrow> s
      | Some i \<Rightarrow>
          set_ap (sorted_aps s ! i) (\<lambda>_.
            \<lparr>age = 1, associated_profile = find_profile (saved_profiles s) (res_ssid r),
             rssi_hist = replicate RSSI_HISTORY_LENGTH (cRSSI r), rssi = sint (cRSSI r),
             rrsi_index = 0, stable = False, bssid = ucBSSID r, channel = cChannel r,
             connect_failed = 0\<rparr>) s)"

definition add_result :: "scan_result \<Rightarrow> scan_list \<Rightarrow> scan_list" where
  "add_result r s =
     (case find_ap_in_cache s r of
        Some i \<Rightarrow> update_ap_in_cache r i s
      | None \<Rightarrow> add_ap_to_cache r s)"

text \<open>The ageing of the first entries, given by their pointers, with its assertion.\<close>

fun age_aps :: "nat list \<Rightarrow> scan_list \<Rightarrow> scan_list res" where
  "age_aps [] s = Inr s"
| "age_aps (p # ps) s =
     xassert (age (cached_aps s ! p) > 0)
       (age_aps ps
         (if age (cached_aps s ! p) > 0 then set_ap p (\<lambda>ap. ap\<lparr>age := age ap + 1\<rparr>) s else s))"

text \<open>The removal of old entries: the loop's index at the end and the list.\<close>

fun drop_old :: "nat list \<Rightarrow> nat \<Rightarrow> scan_list \<Rightarrow> nat \<times> scan_list" where
  "drop_old [] i s = (i, s)"
| "drop_old (p # ps) i s =
     (if age (cached_aps s ! p) > AP_CACHE_ENTRY_MAX_AGE
      then drop_old ps (i + 1) (set_ap p (\<lambda>ap. ap\<lparr>age := 0\<rparr>) s)
      else if age (cached_aps s ! p) = 0 then (i, s)
      else drop_old ps (i + 1) s)"

text \<open>
  \<open>results\<close> is the array after \<open>WIFI_Scan\<close>, \<open>None\<close> when it failed; a zero BSSID ends it.
\<close>

definition scanned :: "scan_result list \<Rightarrow> scan_result list" where
  "scanned results =
     takeWhile (\<lambda>r. ucBSSID r \<noteq> replicate 6 0) (take MAX_SCAN_COUNT results)"

definition scan_networks :: "scan_result list option \<Rightarrow> scan_list \<Rightarrow> (int \<times> scan_list) res" where
  "scan_networks results s =
     rbind (age_aps (take (ap_cache_count s) (sorted_aps s)) s) (\<lambda>s1.
       case results of
         None \<Rightarrow> Inr (-1, s1)
       | Some rs \<Rightarrow>
           let s2 = fold add_result (scanned rs) s1;
               (i, s3) = drop_old (sorted_aps s2) 0 s2;
               s4 = s3\<lparr>sorted_aps := heapsort (ap_cmp (cached_aps s3)) i (sorted_aps s3)\<rparr>
           in Inr (0, s4\<lparr>ap_cache_count :=
                length (takeWhile (\<lambda>p. age (cached_aps s4 ! p) > 0) (sorted_aps s4))\<rparr>))"

section \<open>The order of the entries\<close>

lemma ap_cmp_less:
  "ap_cmp aps a b < 0 \<longleftrightarrow>
     age (aps ! a) \<noteq> 0 \<and> (age (aps ! b) = 0 \<or> rssi (aps ! a) > rssi (aps ! b))"
  by (simp add: ap_cmp_def)

interpretation ap_order: strict_weak_order "ap_cmp aps" for aps
  by unfold_locales (auto simp: ap_cmp_less)

section \<open>The invariant of the cache\<close>

text \<open>
  \<open>sorted_aps\<close> is a permutation of the pointers, the entries in use are the first ones in it,
  and the signal history of every entry has its length and its index inside it.
\<close>

definition ptrs_ok :: "scan_list \<Rightarrow> bool" where
  "ptrs_ok s \<longleftrightarrow> length (cached_aps s) = CACHED_AP_COUNT \<and> distinct (sorted_aps s) \<and>
     set (sorted_aps s) = {..<CACHED_AP_COUNT}"

definition active_upto :: "nat \<Rightarrow> scan_list \<Rightarrow> bool" where
  "active_upto k s \<longleftrightarrow> k \<le> CACHED_AP_COUNT \<and>
     (\<forall>i<CACHED_AP_COUNT. 0 \<le> age (ap_at s i) \<and> (0 < age (ap_at s i) \<longleftrightarrow> i < k))"

definition hist_ok :: "ap_info \<Rightarrow> bool" where
  "hist_ok ap \<longleftrightarrow> length (rssi_hist ap) = RSSI_HISTORY_LENGTH \<and> rrsi_index ap < RSSI_HISTORY_LENGTH"

definition cache_ok :: "scan_list \<Rightarrow> bool" where
  "cache_ok s \<longleftrightarrow> ptrs_ok s \<and> active_upto (ap_cache_count s) s \<and> list_all hist_ok (cached_aps s)"

lemma ptrs_length: "ptrs_ok s \<Longrightarrow> length (sorted_aps s) = CACHED_AP_COUNT"
  using distinct_card [of "sorted_aps s"] by (simp add: ptrs_ok_def)

lemma ptrs_less: "ptrs_ok s \<Longrightarrow> i < CACHED_AP_COUNT \<Longrightarrow> sorted_aps s ! i < length (cached_aps s)"
  using ptrs_length [of s] nth_mem [of i "sorted_aps s"] by (auto simp: ptrs_ok_def)

lemma ptrs_nth_eq:
  "ptrs_ok s \<Longrightarrow> i < CACHED_AP_COUNT \<Longrightarrow> j < CACHED_AP_COUNT \<Longrightarrow>
     sorted_aps s ! i = sorted_aps s ! j \<longleftrightarrow> i = j"
  using ptrs_length [of s] by (auto simp: ptrs_ok_def nth_eq_iff_index_eq)

lemma set_ap_simps [simp]:
  "sorted_aps (set_ap p f s) = sorted_aps s" "ap_cache_count (set_ap p f s) = ap_cache_count s"
  "saved_profiles (set_ap p f s) = saved_profiles s"
  "length (cached_aps (set_ap p f s)) = length (cached_aps s)"
  by (simp_all add: set_ap_def)

lemma set_ap_other: "q \<noteq> p \<Longrightarrow> cached_aps (set_ap p f s) ! q = cached_aps s ! q"
  by (simp add: set_ap_def)

lemma ptrs_set_ap [simp]: "ptrs_ok (set_ap p f s) \<longleftrightarrow> ptrs_ok s"
  by (simp add: ptrs_ok_def)

lemma ap_at_set_ap:
  "ptrs_ok s \<Longrightarrow> i < CACHED_AP_COUNT \<Longrightarrow> j < CACHED_AP_COUNT \<Longrightarrow>
     ap_at (set_ap (sorted_aps s ! j) f s) i = (if i = j then f (ap_at s j) else ap_at s i)"
  using ptrs_less [of s i] ptrs_less [of s j] ptrs_nth_eq [of s i j]
  by (auto simp: ap_at_def set_ap_def nth_list_update)

lemma list_all_set_ap:
  "list_all P (cached_aps s) \<Longrightarrow> P (f (cached_aps s ! p)) \<Longrightarrow> list_all P (cached_aps (set_ap p f s))"
  unfolding list_all_iff set_ap_def by (auto dest: set_update_subset_insert [THEN subsetD])

section \<open>Ageing and removal\<close>

definition update_all :: "nat set \<Rightarrow> (ap_info \<Rightarrow> ap_info) \<Rightarrow> scan_list \<Rightarrow> scan_list" where
  "update_all A f s =
     s\<lparr>cached_aps := map (\<lambda>q. if q \<in> A then f (cached_aps s ! q) else cached_aps s ! q)
                       [0..<length (cached_aps s)]\<rparr>"

lemma update_all_empty [simp]: "update_all {} f s = s"
  by (simp add: update_all_def map_nth)

lemma update_all_simps [simp]:
  "sorted_aps (update_all A f s) = sorted_aps s"
  "ap_cache_count (update_all A f s) = ap_cache_count s"
  "length (cached_aps (update_all A f s)) = length (cached_aps s)"
  "q < length (cached_aps s) \<Longrightarrow>
     cached_aps (update_all A f s) ! q = (if q \<in> A then f (cached_aps s ! q) else cached_aps s ! q)"
  by (simp_all add: update_all_def)

lemma update_all_insert:
  "p \<notin> A \<Longrightarrow> p < length (cached_aps s) \<Longrightarrow>
     update_all A f (set_ap p f s) = update_all (insert p A) f s"
  by (auto simp: update_all_def set_ap_def nth_list_update intro!: map_cong)

lemma ptrs_update_all [simp]: "ptrs_ok (update_all A f s) \<longleftrightarrow> ptrs_ok s"
  by (simp add: ptrs_ok_def)

lemma ap_at_update_all:
  "ptrs_ok s \<Longrightarrow> i < CACHED_AP_COUNT \<Longrightarrow>
     ap_at (update_all A f s) i = (if sorted_aps s ! i \<in> A then f (ap_at s i) else ap_at s i)"
  using ptrs_less [of s i] by (simp add: ap_at_def)

lemma list_all_update_all:
  "list_all P (cached_aps s) \<Longrightarrow> (\<And>ap. P ap \<Longrightarrow> P (f ap)) \<Longrightarrow>
     list_all P (cached_aps (update_all A f s))"
  by (simp add: list_all_length)

definition older :: "ap_info \<Rightarrow> ap_info" where
  "older ap = ap\<lparr>age := age ap + 1\<rparr>"

lemma age_aps_eq:
  "distinct ps \<Longrightarrow> \<forall>p\<in>set ps. p < length (cached_aps s) \<and> age (cached_aps s ! p) > 0 \<Longrightarrow>
     age_aps ps s = Inr (update_all (set ps) older s)"
proof (induction ps arbitrary: s)
  case (Cons p ps)
  have "cached_aps (set_ap p older s) ! q = cached_aps s ! q" if "q \<in> set ps" for q
    using that Cons.prems(1) by (intro set_ap_other) auto
  with Cons.prems have "age_aps ps (set_ap p older s) = Inr (update_all (set ps) older (set_ap p older s))"
    by (intro Cons.IH) auto
  with Cons.prems show ?case
    by (simp add: update_all_insert flip: older_def)
qed simp

definition removed :: "ap_info \<Rightarrow> ap_info" where
  "removed ap = ap\<lparr>age := 0\<rparr>"

definition old_ptrs :: "nat list \<Rightarrow> scan_list \<Rightarrow> nat set" where
  "old_ptrs ps s =
     {p \<in> set (takeWhile (\<lambda>p. age (cached_aps s ! p) \<noteq> 0) ps).
        age (cached_aps s ! p) > AP_CACHE_ENTRY_MAX_AGE}"

lemma drop_old_eq:
  "distinct ps \<Longrightarrow> \<forall>p\<in>set ps. p < length (cached_aps s) \<Longrightarrow>
     drop_old ps i s = (i + length (takeWhile (\<lambda>p. age (cached_aps s ! p) \<noteq> 0) ps),
                        update_all (old_ptrs ps s) removed s)"
proof (induction ps arbitrary: i s)
  case (Cons p ps)
  show ?case
  proof (cases "age (cached_aps s ! p) > AP_CACHE_ENTRY_MAX_AGE")
    case True
    let ?s = "set_ap p removed s"
    have same: "cached_aps ?s ! q = cached_aps s ! q" if "q \<in> set ps" for q
      using that Cons.prems(1) by (intro set_ap_other) auto
    then have tw: "takeWhile (\<lambda>q. age (cached_aps ?s ! q) \<noteq> 0) ps
        = takeWhile (\<lambda>q. age (cached_aps s ! q) \<noteq> 0) ps"
      by (intro takeWhile_cong) auto
    then have "old_ptrs ps ?s = old_ptrs ps s"
      using same set_takeWhileD unfolding old_ptrs_def by fastforce
    moreover have "insert p (old_ptrs ps s) = old_ptrs (p # ps) s"
      using True by (auto simp: old_ptrs_def AP_CACHE_ENTRY_MAX_AGE_def)
    moreover have "p \<notin> old_ptrs ps s"
      using Cons.prems(1) by (auto simp: old_ptrs_def dest: set_takeWhileD)
    ultimately have "update_all (old_ptrs ps ?s) removed ?s = update_all (old_ptrs (p # ps) s) removed s"
      using Cons.prems(2) by (simp add: update_all_insert)
    moreover have "drop_old ps (i + 1) ?s
        = (i + 1 + length (takeWhile (\<lambda>q. age (cached_aps ?s ! q) \<noteq> 0) ps),
           update_all (old_ptrs ps ?s) removed ?s)"
      using Cons.prems by (intro Cons.IH) auto
    ultimately show ?thesis
      using True tw by (simp add: AP_CACHE_ENTRY_MAX_AGE_def removed_def [abs_def])
  next
    case False
    then have "old_ptrs (p # ps) s = (if age (cached_aps s ! p) = 0 then {} else old_ptrs ps s)"
      by (auto simp: old_ptrs_def)
    with False Cons show ?thesis by simp
  qed
qed (simp add: old_ptrs_def)

section \<open>A scan\<close>

text \<open>A scanned access point that the cache holds as seen by the last scan.\<close>

definition just_seen :: "scan_list \<Rightarrow> scan_result \<Rightarrow> bool" where
  "just_seen s r \<longleftrightarrow> (\<exists>i<CACHED_AP_COUNT. age (ap_at s i) = 1 \<and> bssid (ap_at s i) = ucBSSID r)"

definition scan_inv :: "scan_list \<Rightarrow> nat \<Rightarrow> scan_list \<Rightarrow> bool" where
  "scan_inv s0 k s \<longleftrightarrow> ptrs_ok s \<and> active_upto k s \<and> list_all hist_ok (cached_aps s) \<and>
     ap_cache_count s = ap_cache_count s0 \<and> ap_cache_count s \<le> k \<and>
     sorted_aps s = sorted_aps s0"

lemma update_ap_rssi_simps [simp]:
  "age (update_ap_rssi v ap) = age ap" "bssid (update_ap_rssi v ap) = bssid ap"
  by (simp_all add: update_ap_rssi_def Let_def)

lemma hist_ok_update: "hist_ok ap \<Longrightarrow> hist_ok (update_ap_rssi v ap)"
  by (auto simp: hist_ok_def update_ap_rssi_def Let_def)

lemma find_SomeD: "List.find P [0..<n] = Some i \<Longrightarrow> i < n \<and> P i \<and> (\<forall>j<i. \<not> P j)"
  by (auto simp: find_Some_iff nth_upt)

lemma update_result_inv:
  assumes "scan_inv s0 k s" and "find_ap_in_cache s r = Some i"
  shows "scan_inv s0 k (update_ap_in_cache r i s)" and "just_seen (update_ap_in_cache r i s) r"
    and "just_seen s q \<Longrightarrow> just_seen (update_ap_in_cache r i s) q"
proof -
  have i: "i < ap_cache_count s" "i < CACHED_AP_COUNT" "ucBSSID r = bssid (ap_at s i)"
    using find_SomeD [OF assms(2) [unfolded find_ap_in_cache_def]] assms(1)
    by (auto simp: scan_inv_def active_upto_def)
  have ptrs: "ptrs_ok s" using assms(1) by (simp add: scan_inv_def)
  let ?f = "\<lambda>ap. update_ap_rssi (cRSSI r) (ap\<lparr>age := 1, channel := cChannel r\<rparr>)"
  have at: "ap_at (update_ap_in_cache r i s) j = (if j = i then ?f (ap_at s i) else ap_at s j)"
    if "j < CACHED_AP_COUNT" for j
    unfolding update_ap_in_cache_def by (rule ap_at_set_ap [OF ptrs that i(2)])
  have "sorted_aps s ! i < length (cached_aps s)"
    by (rule ptrs_less [OF ptrs i(2)])
  with assms(1) have "hist_ok (cached_aps s ! (sorted_aps s ! i))"
    by (simp add: scan_inv_def list_all_length)
  then have "hist_ok (?f (cached_aps s ! (sorted_aps s ! i)))"
    by (intro hist_ok_update) (simp add: hist_ok_def)
  with assms(1) have "list_all hist_ok (cached_aps (update_ap_in_cache r i s))"
    unfolding update_ap_in_cache_def by (intro list_all_set_ap) (simp_all add: scan_inv_def)
  with assms(1) i at show "scan_inv s0 k (update_ap_in_cache r i s)"
    by (auto simp: scan_inv_def active_upto_def update_ap_in_cache_def)
  show "just_seen (update_ap_in_cache r i s) r"
    using at [OF i(2)] i by (auto simp: just_seen_def intro: exI [of _ i])
  show "just_seen s q \<Longrightarrow> just_seen (update_ap_in_cache r i s) q"
    using at by (fastforce simp: just_seen_def)
qed

lemma add_result_new_inv:
  assumes "scan_inv s0 k s"
  shows "\<exists>k'\<ge>k. k' \<le> Suc k \<and> scan_inv s0 k' (add_ap_to_cache r s)
    \<and> (k < CACHED_AP_COUNT \<longrightarrow> just_seen (add_ap_to_cache r s) r)
    \<and> (\<forall>q. just_seen s q \<longrightarrow> just_seen (add_ap_to_cache r s) q)"
proof (cases "List.find (\<lambda>i. age (ap_at s i) = 0) [0..<CACHED_AP_COUNT]")
  case None
  then have "\<forall>i<CACHED_AP_COUNT. age (ap_at s i) \<noteq> 0"
    by (auto simp: find_None_iff)
  with assms have "\<not> k < CACHED_AP_COUNT"
    by (auto simp: scan_inv_def active_upto_def)
  with assms have "k = CACHED_AP_COUNT" by (auto simp: scan_inv_def active_upto_def)
  with None assms show ?thesis by (auto simp: add_ap_to_cache_def)
next
  case (Some i)
  note i = find_SomeD [OF Some]
  have ptrs: "ptrs_ok s" and act: "active_upto k s"
    using assms by (simp_all add: scan_inv_def)
  have k: "i = k"
  proof (rule antisym)
    show "k \<le> i" using act i by (auto simp: active_upto_def)
    show "i \<le> k"
    proof (rule ccontr)
      assume "\<not> i \<le> k"
      with i have "age (ap_at s k) \<noteq> 0" "k < CACHED_AP_COUNT" by auto
      with act show False by (fastforce simp: active_upto_def)
    qed
  qed
  let ?n = "\<lparr>age = 1, associated_profile = find_profile (saved_profiles s) (res_ssid r),
    rssi_hist = replicate RSSI_HISTORY_LENGTH (cRSSI r), rssi = sint (cRSSI r), rrsi_index = 0,
    stable = False, bssid = ucBSSID r, channel = cChannel r, connect_failed = 0\<rparr>"
  have at: "ap_at (add_ap_to_cache r s) j = (if j = i then ?n else ap_at s j)"
    if "j < CACHED_AP_COUNT" for j
    unfolding add_ap_to_cache_def Some option.case
    using ap_at_set_ap [OF ptrs that, of i] i by simp
  have "hist_ok ?n" by (simp add: hist_ok_def RSSI_HISTORY_LENGTH_def)
  with assms have "list_all hist_ok (cached_aps (add_ap_to_cache r s))"
    unfolding add_ap_to_cache_def Some option.case
    by (intro list_all_set_ap) (simp_all add: scan_inv_def)
  with assms i at have "scan_inv s0 (Suc k) (add_ap_to_cache r s)"
    by (auto simp: scan_inv_def active_upto_def add_ap_to_cache_def Some k less_Suc_eq)
  moreover have "just_seen (add_ap_to_cache r s) r"
    using at i by (auto simp: just_seen_def intro: exI [of _ i])
  moreover have "just_seen (add_ap_to_cache r s) q" if "just_seen s q" for q
    using that at i by (fastforce simp: just_seen_def)
  ultimately show ?thesis by (intro exI [of _ "Suc k"]) simp
qed

lemma add_result_inv:
  assumes "scan_inv s0 k s"
  shows "\<exists>k'\<ge>k. k' \<le> Suc k \<and> scan_inv s0 k' (add_result r s)
    \<and> (k < CACHED_AP_COUNT \<longrightarrow> just_seen (add_result r s) r)
    \<and> (\<forall>q. just_seen s q \<longrightarrow> just_seen (add_result r s) q)"
  using add_result_new_inv [OF assms, of r] update_result_inv [OF assms, of r]
  by (cases "find_ap_in_cache s r") (auto simp: add_result_def)

lemma add_results_inv:
  "scan_inv s0 k s \<Longrightarrow> \<exists>k'\<ge>k. scan_inv s0 k' (fold add_result rs s)
    \<and> (k + length rs \<le> CACHED_AP_COUNT \<longrightarrow> list_all (just_seen (fold add_result rs s)) rs)
    \<and> (\<forall>q. just_seen s q \<longrightarrow> just_seen (fold add_result rs s) q)"
proof (induction rs arbitrary: s k)
  case (Cons r rs)
  from add_result_inv [OF Cons.prems, of r] obtain k1 where k1: "k \<le> k1" "k1 \<le> Suc k"
      "scan_inv s0 k1 (add_result r s)" "k < CACHED_AP_COUNT \<longrightarrow> just_seen (add_result r s) r"
      "\<forall>q. just_seen s q \<longrightarrow> just_seen (add_result r s) q"
    by blast
  from Cons.IH [OF k1(3)] obtain k2 where k2: "k1 \<le> k2"
      "scan_inv s0 k2 (fold add_result (r # rs) s)"
      "k1 + length rs \<le> CACHED_AP_COUNT
        \<longrightarrow> list_all (just_seen (fold add_result (r # rs) s)) rs"
      "\<forall>q. just_seen (add_result r s) q \<longrightarrow> just_seen (fold add_result (r # rs) s) q"
    by auto
  with k1 show ?case by (intro exI [of _ k2]) auto
qed auto

lemma ageing_ok:
  assumes "cache_ok s"
  defines "s1 \<equiv> update_all (set (take (ap_cache_count s) (sorted_aps s))) older s"
  shows "age_aps (take (ap_cache_count s) (sorted_aps s)) s = Inr s1"
    and "scan_inv s (ap_cache_count s) s1"
proof -
  let ?k = "ap_cache_count s" let ?ps = "take ?k (sorted_aps s)"
  have p: "ptrs_ok s" "active_upto ?k s" "list_all hist_ok (cached_aps s)"
    using assms(1) by (simp_all add: cache_ok_def)
  have mem: "q \<in> set ?ps \<longleftrightarrow> (\<exists>i<?k. q = sorted_aps s ! i)" for q
    using ptrs_length [OF p(1)] p(2) by (auto simp: in_set_conv_nth active_upto_def)
  have "\<forall>q\<in>set ?ps. q < length (cached_aps s) \<and> age (cached_aps s ! q) > 0"
    using p(2) ptrs_less [OF p(1)] by (auto simp: mem active_upto_def ap_at_def)
  moreover have "distinct ?ps"
    using p(1) by (simp add: ptrs_ok_def)
  ultimately show "age_aps ?ps s = Inr s1"
    unfolding s1_def by (intro age_aps_eq)
  have "sorted_aps s ! i \<in> set ?ps \<longleftrightarrow> i < ?k" if "i < CACHED_AP_COUNT" for i
    using that ptrs_nth_eq [OF p(1) that] p(2) unfolding mem active_upto_def
    by (auto dest: order.strict_trans2)
  then have at: "ap_at s1 i = (if i < ?k then older (ap_at s i) else ap_at s i)"
    if "i < CACHED_AP_COUNT" for i
    using that p(1) by (simp add: s1_def ap_at_update_all)
  have "list_all hist_ok (cached_aps s1)"
    unfolding s1_def using p(3) by (intro list_all_update_all) (simp_all add: hist_ok_def older_def)
  moreover have "active_upto ?k s1"
    using p(2) at by (auto simp: active_upto_def older_def)
  ultimately show "scan_inv s ?k s1"
    using p(1) by (simp add: scan_inv_def s1_def)
qed

lemma takeWhile_upto:
  assumes "\<forall>i<length xs. P (xs ! i) \<longleftrightarrow> i < k" and "k \<le> length xs"
  shows "takeWhile P xs = take k xs"
  using assms
  by (intro takeWhile_eq_take_P_nth) auto

lemma active_takeWhile:
  assumes "scan_inv s0 k s"
  shows "takeWhile (\<lambda>p. age (cached_aps s ! p) \<noteq> 0) (sorted_aps s) = take k (sorted_aps s)"
proof -
  have p: "ptrs_ok s" "active_upto k s" using assms by (simp_all add: scan_inv_def)
  then show ?thesis
    using ptrs_length [OF p(1)]
    by (intro takeWhile_upto) (force simp: active_upto_def ap_at_def)+
qed

lemma old_ptrs_iff:
  assumes "scan_inv s0 k s" and "q < CACHED_AP_COUNT"
  shows "q \<in> old_ptrs (sorted_aps s) s \<longleftrightarrow> age (cached_aps s ! q) > AP_CACHE_ENTRY_MAX_AGE"
proof -
  have p: "ptrs_ok s" "active_upto k s" using assms by (simp_all add: scan_inv_def)
  have "q \<in> set (sorted_aps s)" using p(1) assms(2) by (simp add: ptrs_ok_def)
  then obtain i where "i < CACHED_AP_COUNT" "sorted_aps s ! i = q"
    using ptrs_length [OF p(1)] by (auto simp: in_set_conv_nth)
  moreover have "i < k" if "age (cached_aps s ! q) > AP_CACHE_ENTRY_MAX_AGE"
    using that calculation p(2)
    by (auto simp: active_upto_def ap_at_def AP_CACHE_ENTRY_MAX_AGE_def)
  ultimately show ?thesis
    using ptrs_length [OF p(1)]
    by (auto simp: old_ptrs_def active_takeWhile [OF assms(1)] in_set_conv_nth)
qed

lemma dropping_ok:
  assumes "scan_inv s0 k s"
  shows "drop_old (sorted_aps s) 0 s = (k, update_all (old_ptrs (sorted_aps s) s) removed s)"
proof -
  have p: "ptrs_ok s" "active_upto k s" using assms by (simp_all add: scan_inv_def)
  from active_takeWhile [OF assms] show ?thesis
    using drop_old_eq [of "sorted_aps s" s 0] p ptrs_length [OF p(1)]
    by (auto simp: ptrs_ok_def active_upto_def)
qed

text \<open>After the removal, the sort and the new count.\<close>

lemma sorting_ok:
  assumes s: "ptrs_ok s" and h: "list_all hist_ok (cached_aps s)" and k: "k \<le> CACHED_AP_COUNT"
    and age: "\<forall>i<CACHED_AP_COUNT. 0 \<le> age (ap_at s i) \<and> (k \<le> i \<longrightarrow> age (ap_at s i) = 0)"
  defines "s4 \<equiv> s\<lparr>sorted_aps := heapsort (ap_cmp (cached_aps s)) k (sorted_aps s)\<rparr>"
  defines "s5 \<equiv> s4\<lparr>ap_cache_count :=
    length (takeWhile (\<lambda>p. age (cached_aps s4 ! p) > 0) (sorted_aps s4))\<rparr>"
  shows "cache_ok s5 \<and> (\<forall>i j. i < j \<and> j < ap_cache_count s5 \<longrightarrow> rssi (ap_at s5 j) \<le> rssi (ap_at s5 i))"
proof -
  let ?n = CACHED_AP_COUNT
  let ?xs = "sorted_aps s" let ?ys = "heapsort (ap_cmp (cached_aps s)) k ?xs"
  let ?P = "\<lambda>p. age (cached_aps s ! p) > 0"
  let ?c = "length (takeWhile ?P ?ys)"
  have len: "length ?xs = ?n" by (rule ptrs_length [OF s])
  have perm: "mset ?ys = mset ?xs" "drop k ?ys = drop k ?xs"
    using heapsort_permutes [of k ?xs "ap_cmp (cached_aps s)"] k len by simp_all
  have leny: "length ?ys = ?n" using mset_eq_length [OF perm(1)] len by simp
  have sety: "set ?ys = set ?xs" using perm(1) by (metis set_mset_mset)
  have disty: "distinct ?ys" using s perm(1) by (metis mset_eq_imp_distinct_iff ptrs_ok_def)
  have nonneg: "0 \<le> age (cached_aps s ! q)" if "q \<in> set ?xs" for q
    using that age len by (auto simp: in_set_conv_nth ap_at_def)
  have sorted: "\<not> ap_cmp (cached_aps s) (?ys ! j) (?ys ! i) < 0" if "i < j" "j < k" for i j
    using ap_order.heapsort_sorted [of k ?xs i j "cached_aps s"] that k len by simp
  have rest: "age (cached_aps s ! (?ys ! i)) = 0" if "k \<le> i" "i < ?n" for i
  proof -
    have "drop k ?ys ! (i - k) = drop k ?xs ! (i - k)" by (simp add: perm(2))
    with that len leny have "?ys ! i = ?xs ! i" by simp
    with that age show ?thesis by (simp add: ap_at_def)
  qed
  have inact: "\<not> ?P (?ys ! j)" if j: "?c \<le> j" "j < ?n" for j
  proof (cases "j = ?c \<or> k \<le> j")
    case True
    with j leny rest [of j] nth_length_takeWhile [of ?P ?ys] show ?thesis by auto
  next
    case False
    then have "?c < j" "?c < k" using j by auto
    with sorted [of ?c j] False have "\<not> ap_cmp (cached_aps s) (?ys ! j) (?ys ! ?c) < 0" by auto
    moreover have "\<not> ?P (?ys ! ?c)"
      using j leny nth_length_takeWhile [of ?P ?ys] \<open>?c < j\<close> by auto
    moreover have "?ys ! ?c \<in> set ?xs"
      unfolding sety [symmetric] using \<open>?c < j\<close> j leny by (intro nth_mem) simp
    ultimately show ?thesis
      using nonneg [of "?ys ! ?c"] by (auto simp: ap_cmp_less)
  qed
  have act: "?P (?ys ! i)" if "i < ?c" for i
    using that by (metis nth_mem set_takeWhileD takeWhile_nth)
  have cn: "?c \<le> ?n" using length_takeWhile_le [of ?P ?ys] leny by simp
  have ck: "?c \<le> k"
    using rest [of k] act [of k] cn k by (cases "k < ?c") auto
  have at: "ap_at s5 i = cached_aps s ! (?ys ! i)" "ap_cache_count s5 = ?c" for i
    by (simp_all add: s5_def s4_def ap_at_def)
  have "active_upto ?c s5"
    unfolding active_upto_def at
    using cn act inact nonneg leny by (auto simp flip: sety) (meson not_le_imp_less)
  moreover have "ptrs_ok s5"
    using s sety disty by (simp add: ptrs_ok_def s5_def s4_def)
  moreover have "list_all hist_ok (cached_aps s5)"
    using h by (simp add: s5_def s4_def)
  moreover have "rssi (ap_at s5 j) \<le> rssi (ap_at s5 i)" if "i < j" "j < ap_cache_count s5" for i j
    using that sorted [of i j] act [of j] act [of i] ck by (auto simp: at ap_cmp_less)
  ultimately show ?thesis
    unfolding cache_ok_def at(2) by blast
qed

lemma just_seen_kept:
  assumes s: "ptrs_ok s" and seen: "just_seen s r"
  defines "s3 \<equiv> update_all (old_ptrs (sorted_aps s) s) removed s"
  shows "\<exists>q<CACHED_AP_COUNT. age (cached_aps s3 ! q) = 1 \<and> bssid (cached_aps s3 ! q) = ucBSSID r"
proof -
  obtain i where i: "i < CACHED_AP_COUNT" "age (ap_at s i) = 1" "bssid (ap_at s i) = ucBSSID r"
    using seen by (auto simp: just_seen_def)
  let ?q = "sorted_aps s ! i"
  have "?q \<notin> old_ptrs (sorted_aps s) s"
    using i by (auto simp: old_ptrs_def ap_at_def AP_CACHE_ENTRY_MAX_AGE_def)
  moreover have "?q < length (cached_aps s)" by (rule ptrs_less [OF s i(1)])
  ultimately have "cached_aps s3 ! ?q = ap_at s i"
    by (simp add: s3_def ap_at_def)
  moreover have "?q < CACHED_AP_COUNT"
    using \<open>?q < length (cached_aps s)\<close> s by (simp add: ptrs_ok_def)
  ultimately show ?thesis using i by (intro exI [of _ ?q]) simp
qed

lemma cached_in_use:
  assumes "cache_ok s" and "q < CACHED_AP_COUNT" and "age (cached_aps s ! q) > 0"
  shows "\<exists>i<ap_cache_count s. ap_at s i = cached_aps s ! q"
proof -
  have s: "ptrs_ok s" "active_upto (ap_cache_count s) s" using assms(1) by (simp_all add: cache_ok_def)
  then have "q \<in> set (sorted_aps s)" using assms(2) by (simp add: ptrs_ok_def)
  then obtain i where "i < CACHED_AP_COUNT" "sorted_aps s ! i = q"
    using ptrs_length [OF s(1)] by (auto simp: in_set_conv_nth)
  with assms(3) s(2) show ?thesis
    by (auto simp: active_upto_def ap_at_def intro!: exI [of _ i])
qed

lemma scan_networks_result:
  assumes "cache_ok s"
  shows "\<exists>s'. scan_networks (Some rs) s = Inr (0, s') \<and> cache_ok s'
    \<and> (\<forall>i j. i < j \<and> j < ap_cache_count s' \<longrightarrow> rssi (ap_at s' j) \<le> rssi (ap_at s' i))
    \<and> (\<forall>i<ap_cache_count s'. age (ap_at s' i) \<le> AP_CACHE_ENTRY_MAX_AGE)
    \<and> (ap_cache_count s + length (scanned rs) \<le> CACHED_AP_COUNT \<longrightarrow>
         (\<forall>r\<in>set (scanned rs). \<exists>i<ap_cache_count s'.
           age (ap_at s' i) = 1 \<and> bssid (ap_at s' i) = ucBSSID r))"
proof -
  let ?s1 = "update_all (set (take (ap_cache_count s) (sorted_aps s))) older s"
  let ?s2 = "fold add_result (scanned rs) ?s1"
  note aged = ageing_ok [OF assms]
  from add_results_inv [OF aged(2), of "scanned rs"] obtain k where k: "ap_cache_count s \<le> k"
      "scan_inv s k ?s2" "ap_cache_count s + length (scanned rs) \<le> CACHED_AP_COUNT
        \<longrightarrow> list_all (just_seen ?s2) (scanned rs)"
    by blast
  let ?old = "old_ptrs (sorted_aps ?s2) ?s2" let ?s3 = "update_all ?old removed ?s2"
  have p2: "ptrs_ok ?s2" "active_upto k ?s2" "list_all hist_ok (cached_aps ?s2)"
    using k(2) by (simp_all add: scan_inv_def)
  have at3: "ap_at ?s3 i = (if sorted_aps ?s2 ! i \<in> ?old then removed (ap_at ?s2 i) else ap_at ?s2 i)"
    if "i < CACHED_AP_COUNT" for i
    by (rule ap_at_update_all [OF p2(1) that])
  have age3: "\<forall>i<CACHED_AP_COUNT. 0 \<le> age (ap_at ?s3 i) \<and> (k \<le> i \<longrightarrow> age (ap_at ?s3 i) = 0)"
  proof (intro allI impI)
    fix i assume "i < CACHED_AP_COUNT"
    with p2(2) at3 [of i] show "0 \<le> age (ap_at ?s3 i) \<and> (k \<le> i \<longrightarrow> age (ap_at ?s3 i) = 0)"
      by (auto simp: active_upto_def removed_def not_less [symmetric] order.antisym)
  qed
  have hist3: "list_all hist_ok (cached_aps ?s3)"
    using p2(3) by (rule list_all_update_all) (simp add: hist_ok_def removed_def)
  define s4 where "s4 = ?s3\<lparr>sorted_aps := heapsort (ap_cmp (cached_aps ?s3)) k (sorted_aps ?s3)\<rparr>"
  define s5 where "s5 = s4\<lparr>ap_cache_count :=
    length (takeWhile (\<lambda>p. age (cached_aps s4 ! p) > 0) (sorted_aps s4))\<rparr>"
  have ok: "cache_ok s5" "\<forall>i j. i < j \<and> j < ap_cache_count s5 \<longrightarrow> rssi (ap_at s5 j) \<le> rssi (ap_at s5 i)"
    using sorting_ok [OF _ hist3 _ age3] p2(1,2)
    unfolding s5_def s4_def by (auto simp: active_upto_def)
  have run: "scan_networks (Some rs) s = Inr (0, s5)"
    using aged(1) dropping_ok [OF k(2)] by (simp add: scan_networks_def Let_def s5_def s4_def)
  have cached5: "cached_aps s5 = cached_aps ?s3" by (simp add: s5_def s4_def)
  have old5: "age (cached_aps s5 ! q) \<le> AP_CACHE_ENTRY_MAX_AGE" if "q < CACHED_AP_COUNT" for q
    using that old_ptrs_iff [OF k(2) that] p2(1)
    by (auto simp: cached5 ptrs_ok_def removed_def AP_CACHE_ENTRY_MAX_AGE_def)
  have s5: "ptrs_ok s5" "ap_cache_count s5 \<le> CACHED_AP_COUNT"
    using ok(1) by (simp_all add: cache_ok_def active_upto_def)
  have "age (ap_at s5 i) \<le> AP_CACHE_ENTRY_MAX_AGE" if "i < ap_cache_count s5" for i
    using old5 [of "sorted_aps s5 ! i"] ptrs_less [OF s5(1), of i] s5 that
    by (simp add: ap_at_def ptrs_ok_def)
  moreover have "\<exists>i<ap_cache_count s5. age (ap_at s5 i) = 1 \<and> bssid (ap_at s5 i) = ucBSSID r"
    if "ap_cache_count s + length (scanned rs) \<le> CACHED_AP_COUNT" "r \<in> set (scanned rs)" for r
  proof -
    have "just_seen ?s2 r" using that k(3) by (auto simp: list_all_iff)
    from just_seen_kept [OF p2(1) this] obtain q where "q < CACHED_AP_COUNT"
        "age (cached_aps s5 ! q) = 1" "bssid (cached_aps s5 ! q) = ucBSSID r"
      by (auto simp: cached5)
    with cached_in_use [OF ok(1), of q] show ?thesis by force
  qed
  ultimately show ?thesis
    using run ok by (intro exI [of _ s5]) blast
qed

lemma scan_networks_returns:
  assumes "cache_ok s"
  shows "\<exists>ret s'. scan_networks results s = Inr (ret, s') \<and> cache_ok s'"
proof (cases results)
  case None
  from ageing_ok [OF assms] None show ?thesis
    by (auto simp: scan_networks_def scan_inv_def cache_ok_def)
next
  case (Some rs)
  from scan_networks_result [OF assms, of rs] Some show ?thesis by auto
qed

text \<open>
  C14. A scan never fails its assertion and keeps the cache of access points consistent: the
  entries in use come first. After a successful scan they are ordered by signal strength,
  none is older than the maximal age, and, when there is room, every access point found is
  among them, seen just now.
\<close>

theorem scan_networks_ok:
  assumes "cache_ok s"
  shows "\<exists>ret s'. scan_networks results s = Inr (ret, s') \<and> cache_ok s'
    \<and> (case results of
         None \<Rightarrow> ret = -1 \<and> ap_cache_count s' = ap_cache_count s
       | Some rs \<Rightarrow>
           ret = 0
           \<and> (\<forall>i j. i < j \<and> j < ap_cache_count s' \<longrightarrow> rssi (ap_at s' j) \<le> rssi (ap_at s' i))
           \<and> (\<forall>i<ap_cache_count s'. age (ap_at s' i) \<le> AP_CACHE_ENTRY_MAX_AGE)
           \<and> (ap_cache_count s + length (scanned rs) \<le> CACHED_AP_COUNT \<longrightarrow>
                (\<forall>r\<in>set (scanned rs). \<exists>i<ap_cache_count s'.
                  age (ap_at s' i) = 1 \<and> bssid (ap_at s' i) = ucBSSID r)))"
proof (cases results)
  case None
  from ageing_ok [OF assms] None show ?thesis
    by (auto simp: scan_networks_def scan_inv_def cache_ok_def)
next
  case (Some rs)
  from scan_networks_result [OF assms, of rs] Some show ?thesis by auto
qed

section \<open>Reset and connection attempts\<close>

text \<open>The saved profiles, read by index until there is none or the array is full.\<close>

fun get_profiles :: "(nat \<Rightarrow> wifi_profile option) \<Rightarrow> nat \<Rightarrow> nat \<Rightarrow> wifi_profile list" where
  "get_profiles WIFI_NetworkGet profile_count 0 = []"
| "get_profiles WIFI_NetworkGet profile_count (Suc room) =
     (case WIFI_NetworkGet profile_count of
        None \<Rightarrow> []
      | Some p \<Rightarrow> p # get_profiles WIFI_NetworkGet (profile_count + 1) room)"

definition blank_ap :: ap_info where
  "blank_ap =
     \<lparr>age = 0, associated_profile = None, rssi_hist = replicate RSSI_HISTORY_LENGTH 0, rssi = 0,
      rrsi_index = 0, stable = False, bssid = replicate 6 0, channel = 0, connect_failed = 0\<rparr>"

definition reset_scan_search_list_and_ap_cache :: "(nat \<Rightarrow> wifi_profile option) \<Rightarrow> scan_list" where
  "reset_scan_search_list_and_ap_cache WIFI_NetworkGet =
     (let ps = get_profiles WIFI_NetworkGet 0 MAX_SCAN_COUNT
      in \<lparr>ssid_scan_search_list = map (\<lambda>p. c_string wificonfigMAX_SSID_LEN (cSSID p)) ps,
          saved_profiles = ps, ap_cache_count = 0,
          cached_aps = replicate CACHED_AP_COUNT blank_ap, sorted_aps = [0..<CACHED_AP_COUNT]\<rparr>)"

lemma reset_ok: "cache_ok (reset_scan_search_list_and_ap_cache get)"
proof -
  have "ap_at (reset_scan_search_list_and_ap_cache get) i = blank_ap" if "i < CACHED_AP_COUNT" for i
    using that by (simp add: reset_scan_search_list_and_ap_cache_def ap_at_def Let_def)
  moreover have "hist_ok blank_ap"
    by (simp add: hist_ok_def blank_ap_def RSSI_HISTORY_LENGTH_def)
  ultimately show ?thesis
    by (auto simp: cache_ok_def ptrs_ok_def active_upto_def blank_ap_def list_all_iff
        reset_scan_search_list_and_ap_cache_def Let_def)
qed

text \<open>What \<open>WIFI_ConnectAP\<close> is given; it is called after \<open>WIFI_ConnectAPSetBSSID\<close>.\<close>

record net_params =
  pcSSID :: "byte list"
  paramSSIDLength :: nat
  pcPassword :: "byte list"
  paramPasswordLength :: nat
  paramSecurity :: nat
  paramChannel :: byte

definition MAX_CONNECTION_ATTEMPTS :: nat where "MAX_CONNECTION_ATTEMPTS = 3"
definition wificonfigMAX_PASSPHRASE_LEN :: nat where "wificonfigMAX_PASSPHRASE_LEN = 32"

definition network_params :: "wifi_profile \<Rightarrow> byte \<Rightarrow> net_params" where
  "network_params p chan =
     \<lparr>pcSSID = cSSID p,
      paramSSIDLength = (let tmp_len = length (c_string wificonfigMAX_SSID_LEN (cSSID p))
                         in if tmp_len < ucSSIDLength p then tmp_len else ucSSIDLength p),
      pcPassword = cPassword p,
      paramPasswordLength = (let tmp_len = length (c_string wificonfigMAX_PASSPHRASE_LEN (cPassword p))
                             in if tmp_len < ucPasswordLength p then tmp_len
                                else ucPasswordLength p),
      paramSecurity = xSecurity p, paramChannel = chan\<rparr>"

fun connect_attempts :: "('w \<Rightarrow> bool \<times> 'w) \<Rightarrow> nat \<Rightarrow> 'w \<Rightarrow> bool \<times> 'w" where
  "connect_attempts connect 0 w = (False, w)"
| "connect_attempts connect (Suc n) w =
     (let (connected, w1) = connect w
      in if connected then (True, w1) else connect_attempts connect n w1)"

type_synonym 'w connect_ap = "byte list \<Rightarrow> net_params \<Rightarrow> 'w \<Rightarrow> bool \<times> 'w"

text \<open>\<open>p\<close> is the entry's pointer; \<open>True\<close> is the return value 0.\<close>

definition connect_to_network ::
  "'w connect_ap \<Rightarrow> nat \<Rightarrow> scan_list \<Rightarrow> 'w \<Rightarrow> bool \<times> scan_list \<times> 'w" where
  "connect_to_network WIFI_ConnectAP p s w =
     (let ap = cached_aps s ! p
      in case associated_profile ap of
           None \<Rightarrow> (False, s, w)
         | Some i \<Rightarrow>
             if connect_failed ap < int MAX_CONNECTION_ATTEMPTS
             then
               (let params = network_params (saved_profiles s ! i) (channel ap);
                    (connected, w1) =
                      connect_attempts (WIFI_ConnectAP (bssid ap) params) MAX_CONNECTION_ATTEMPTS w
                in if connected
                   then (True, set_ap p (\<lambda>ap. ap\<lparr>connect_failed := 0\<rparr>) s, w1)
                   else if age ap = 1
                   then (False, set_ap p (\<lambda>ap. ap\<lparr>connect_failed := connect_failed ap + 1\<rparr>) s, w1)
                   else (False, set_ap p (\<lambda>ap. ap\<lparr>age := AP_CACHE_ENTRY_MAX_AGE\<rparr>) s, w1))
             else (False, s, w))"

text \<open>The loop over the entries in use, strongest signal first.\<close>

fun connect_first ::
  "'w connect_ap \<Rightarrow> nat list \<Rightarrow> scan_list \<Rightarrow> 'w \<Rightarrow> nat option \<times> scan_list \<times> 'w" where
  "connect_first WIFI_ConnectAP [] s w = (None, s, w)"
| "connect_first WIFI_ConnectAP (p # ps) s w =
     (let (ok, s1, w1) = connect_to_network WIFI_ConnectAP p s w
      in if ok then (Some p, s1, w1) else connect_first WIFI_ConnectAP ps s1 w1)"

definition perform_connection ::
  "'w connect_ap \<Rightarrow> scan_list \<Rightarrow> 'w \<Rightarrow> nat option \<times> scan_list \<times> 'w" where
  "perform_connection WIFI_ConnectAP s w =
     connect_first WIFI_ConnectAP (take (ap_cache_count s) (sorted_aps s)) s w"

text \<open>The search for a better access point than the connected one, at \<open>c\<close>.\<close>

fun better_ap :: "nat \<Rightarrow> nat list \<Rightarrow> scan_list \<Rightarrow> bool" where
  "better_ap c [] s = False"
| "better_ap c (p # ps) s =
     (let ap = cached_aps s ! p; connected_ap = cached_aps s ! c
      in if p \<noteq> c \<and> connect_failed ap < int MAX_CONNECTION_ATTEMPTS \<and> associated_profile ap \<noteq> None
            \<and> stable ap \<and> rssi ap > rssi connected_ap + 10
         then True
         else if rssi ap \<le> rssi connected_ap then False else better_ap c ps s)"

lemma connect_preserves:
  assumes "cache_ok s" and "j < ap_cache_count s"
    and "connect_to_network conn (sorted_aps s ! j) s w = (ok, s', w')"
  shows "cache_ok s' \<and> sorted_aps s' = sorted_aps s \<and> ap_cache_count s' = ap_cache_count s
    \<and> (ok \<longrightarrow> associated_profile (ap_at s' j) \<noteq> None \<and> connect_failed (ap_at s' j) = 0)"
proof -
  let ?p = "sorted_aps s ! j"
  have s: "ptrs_ok s" "active_upto (ap_cache_count s) s" "list_all hist_ok (cached_aps s)"
    using assms(1) by (simp_all add: cache_ok_def)
  have j: "j < CACHED_AP_COUNT" using s(2) assms(2) by (simp add: active_upto_def)
  have keep: "cache_ok (set_ap ?p f s)"
    if f: "\<And>ap. rssi_hist (f ap) = rssi_hist ap \<and> rrsi_index (f ap) = rrsi_index ap"
      "age (f (ap_at s j)) > 0" for f
  proof -
    have "hist_ok (cached_aps s ! ?p)"
      using s(3) ptrs_less [OF s(1) j] by (simp add: list_all_length)
    then have "list_all hist_ok (cached_aps (set_ap ?p f s))"
      using f(1) by (intro list_all_set_ap [OF s(3)]) (simp add: hist_ok_def)
    moreover have "active_upto (ap_cache_count s) (set_ap ?p f s)"
      using s(2) f(2) assms(2) by (auto simp: active_upto_def ap_at_set_ap [OF s(1) _ j])
    ultimately show ?thesis using s(1) by (simp add: cache_ok_def)
  qed
  have pos: "age (ap_at s j) > 0" using s(2) j assms(2) by (simp add: active_upto_def)
  show ?thesis
    using assms(1,3) pos keep [of "\<lambda>ap. ap\<lparr>connect_failed := 0\<rparr>"]
      keep [of "\<lambda>ap. ap\<lparr>connect_failed := connect_failed ap + 1\<rparr>"]
      keep [of "\<lambda>ap. ap\<lparr>age := AP_CACHE_ENTRY_MAX_AGE\<rparr>"]
      ap_at_set_ap [OF s(1) j j, of "\<lambda>ap. ap\<lparr>connect_failed := 0\<rparr>"]
    by (auto simp: connect_to_network_def Let_def AP_CACHE_ENTRY_MAX_AGE_def ap_at_def
        split: option.splits if_splits prod.splits)
qed

lemma connect_first_preserves:
  "cache_ok s \<Longrightarrow> \<forall>p\<in>set ps. \<exists>j<ap_cache_count s. p = sorted_aps s ! j \<Longrightarrow>
     connect_first conn ps s w = (r, s', w') \<Longrightarrow>
     cache_ok s' \<and> sorted_aps s' = sorted_aps s \<and> ap_cache_count s' = ap_cache_count s
     \<and> (\<forall>c. r = Some c \<longrightarrow> (\<exists>j<ap_cache_count s. c = sorted_aps s ! j) \<and>
            associated_profile (cached_aps s' ! c) \<noteq> None)"
proof (induction ps arbitrary: s w)
  case (Cons p ps)
  obtain j where j: "j < ap_cache_count s" "p = sorted_aps s ! j" using Cons.prems(2) by auto
  obtain ok s1 w1 where c: "connect_to_network conn p s w = (ok, s1, w1)" by (cases "connect_to_network conn p s w") auto
  note k = connect_preserves [OF Cons.prems(1) j(1) c [unfolded j(2)]]
  show ?case
  proof (cases ok)
    case True
    with Cons.prems(3) c k j show ?thesis by (auto simp: ap_at_def)
  next
    case False
    with Cons.prems(3) c have "connect_first conn ps s1 w1 = (r, s', w')" by simp
    from Cons.IH [OF _ _ this] k Cons.prems(2) show ?thesis by simp
  qed
qed simp

text \<open>
  An attempt to connect keeps the cache consistent, and the access point it connects to has a
  profile, whose name is reported.
\<close>

theorem perform_connection_ok:
  assumes "cache_ok s" and "perform_connection conn s w = (r, s', w')"
  shows "cache_ok s' \<and> ap_cache_count s' = ap_cache_count s
    \<and> (\<forall>c. r = Some c \<longrightarrow> associated_profile (cached_aps s' ! c) \<noteq> None)"
proof -
  have "\<forall>p\<in>set (take (ap_cache_count s) (sorted_aps s)). \<exists>j<ap_cache_count s. p = sorted_aps s ! j"
    by (fastforce simp: in_set_conv_nth)
  from connect_first_preserves [OF assms(1) this assms(2) [unfolded perform_connection_def]]
  show ?thesis by simp
qed

section \<open>An instance\<close>

definition no_profiles :: scan_list where
  "no_profiles = reset_scan_search_list_and_ap_cache (\<lambda>_. None)"

theorem scan_networks_ok_witness:
  "\<exists>s'. scan_networks
      (Some [\<lparr>res_ssid = [65], ucBSSID = [1, 2, 3, 4, 5, 6], cRSSI = 200, cChannel = 1\<rparr>])
      no_profiles = Inr (0, s') \<and> cache_ok s'"
  using scan_networks_ok [OF reset_ok, of "Some [\<lparr>res_ssid = [65], ucBSSID = [1, 2, 3, 4, 5, 6],
    cRSSI = 200, cChannel = 1\<rparr>]" "\<lambda>_. None"] unfolding no_profiles_def by auto

end
