(* ===== verification/Mrsw_Lock.thy ===== *)
theory Mrsw_Lock
  imports Prelude
begin

text \<open>
  The multiple-reader, single-writer locks of
  modules/sw_services/concurrency_support/src/mrsw_lock.c, reader preferred and writer
  preferred, as step relations over the tasks that use them.

  The kernel's objects are as documented: a mutex has an owner, a semaphore of maximal count 1
  is a number that a put sets to 1, a task that waits for an event bit and clears it goes on when
  the bit is set, and setting the bit lets every task go on that waits for it.
\<close>

datatype mrsw_type = MRSW_READER_PREFERRED | MRSW_WRITER_PREFERRED

section \<open>Reader preferred\<close>

text \<open>
  Where a task is. In \<open>mrsw_lock_reader_get\<close>: with \<open>lock_readers\<close> taken, waiting for
  \<open>lock_global\<close>, about to give \<open>lock_readers\<close> back; the same three in \<open>mrsw_lock_reader_put\<close>;
  and reading, writing or elsewhere between the calls.
\<close>

datatype rp_pc =
    RP_Idle | RP_Get_locked | RP_Get_global | RP_Get_done | RP_Reading
  | RP_Put_locked | RP_Put_global | RP_Put_done | RP_Writing

record read_pref_mrsw_lock =
  lock_global :: nat
  lock_readers :: "nat option"
  num_readers_active :: nat
  rp_pc :: "nat \<Rightarrow> rp_pc"
  rp_failed :: bool

definition rp_create :: read_pref_mrsw_lock where
  "rp_create =
     \<lparr>lock_global = 1, lock_readers = None, num_readers_active = 0, rp_pc = (\<lambda>_. RP_Idle),
      rp_failed = False\<rparr>"

definition rp_goto :: "nat \<Rightarrow> rp_pc \<Rightarrow> read_pref_mrsw_lock \<Rightarrow> read_pref_mrsw_lock" where
  "rp_goto t p s = s\<lparr>rp_pc := (rp_pc s)(t := p)\<rparr>"

text \<open>\<open>rp_failed\<close> is set by the failing assertion of \<open>mrsw_lock_reader_put\<close>.\<close>

inductive rp_step :: "read_pref_mrsw_lock \<Rightarrow> read_pref_mrsw_lock \<Rightarrow> bool" where
  get_mutex: "rp_pc s t = RP_Idle \<Longrightarrow> lock_readers s = None \<Longrightarrow>
    rp_step s (rp_goto t RP_Get_locked (s\<lparr>lock_readers := Some t\<rparr>))"
| get_timeout: "rp_pc s t = RP_Idle \<Longrightarrow> rp_step s s"
| get_count: "rp_pc s t = RP_Get_locked \<Longrightarrow>
    rp_step s (rp_goto t (if num_readers_active s + 1 = 1 then RP_Get_global else RP_Get_done)
      (s\<lparr>num_readers_active := num_readers_active s + 1\<rparr>))"
| get_global: "rp_pc s t = RP_Get_global \<Longrightarrow> 0 < lock_global s \<Longrightarrow>
    rp_step s (rp_goto t RP_Get_done (s\<lparr>lock_global := lock_global s - 1\<rparr>))"
| get_done: "rp_pc s t = RP_Get_done \<Longrightarrow>
    rp_step s (rp_goto t RP_Reading (s\<lparr>lock_readers := None\<rparr>))"
| put_mutex: "rp_pc s t = RP_Reading \<Longrightarrow> lock_readers s = None \<Longrightarrow>
    rp_step s (rp_goto t RP_Put_locked (s\<lparr>lock_readers := Some t\<rparr>))"
| put_count: "rp_pc s t = RP_Put_locked \<Longrightarrow> 1 \<le> num_readers_active s \<Longrightarrow>
    rp_step s (rp_goto t (if num_readers_active s - 1 = 0 then RP_Put_global else RP_Put_done)
      (s\<lparr>num_readers_active := num_readers_active s - 1\<rparr>))"
| put_assert: "rp_pc s t = RP_Put_locked \<Longrightarrow> num_readers_active s = 0 \<Longrightarrow>
    rp_step s (s\<lparr>rp_failed := True\<rparr>)"
| put_global: "rp_pc s t = RP_Put_global \<Longrightarrow>
    rp_step s (rp_goto t RP_Put_done (s\<lparr>lock_global := 1\<rparr>))"
| put_done: "rp_pc s t = RP_Put_done \<Longrightarrow>
    rp_step s (rp_goto t RP_Idle (s\<lparr>lock_readers := None\<rparr>))"
| write_get: "rp_pc s t = RP_Idle \<Longrightarrow> 0 < lock_global s \<Longrightarrow>
    rp_step s (rp_goto t RP_Writing (s\<lparr>lock_global := lock_global s - 1\<rparr>))"
| write_put: "rp_pc s t = RP_Writing \<Longrightarrow>
    rp_step s (rp_goto t RP_Idle (s\<lparr>lock_global := 1\<rparr>))"

definition counted :: "rp_pc \<Rightarrow> bool" where
  "counted p \<longleftrightarrow> p \<in> {RP_Get_global, RP_Get_done, RP_Reading, RP_Put_locked}"

definition in_mutex :: "rp_pc \<Rightarrow> bool" where
  "in_mutex p \<longleftrightarrow> p \<notin> {RP_Idle, RP_Reading, RP_Writing}"

lemma counted_simps [simp]:
  "counted RP_Get_global" "counted RP_Get_done" "counted RP_Reading" "counted RP_Put_locked"
  "\<not> counted RP_Idle" "\<not> counted RP_Get_locked" "\<not> counted RP_Put_global"
  "\<not> counted RP_Put_done" "\<not> counted RP_Writing"
  by (simp_all add: counted_def)

lemma in_mutex_simps [simp]:
  "in_mutex RP_Get_locked" "in_mutex RP_Get_global" "in_mutex RP_Get_done"
  "in_mutex RP_Put_locked" "in_mutex RP_Put_global" "in_mutex RP_Put_done"
  "\<not> in_mutex RP_Idle" "\<not> in_mutex RP_Reading" "\<not> in_mutex RP_Writing"
  by (simp_all add: in_mutex_def)

definition active :: "read_pref_mrsw_lock \<Rightarrow> nat set" where
  "active s = {t. counted (rp_pc s t)}"

definition writers :: "read_pref_mrsw_lock \<Rightarrow> nat set" where
  "writers s = {t. rp_pc s t = RP_Writing}"

text \<open>The readers own \<open>lock_global\<close> together: all but the first one that waits for it.\<close>

definition readers_own :: "read_pref_mrsw_lock \<Rightarrow> bool" where
  "readers_own s \<longleftrightarrow>
     (\<exists>t. counted (rp_pc s t)) \<and> (\<forall>t. rp_pc s t \<noteq> RP_Get_global) \<or> (\<exists>t. rp_pc s t = RP_Put_global)"

definition rp_counts :: "read_pref_mrsw_lock \<Rightarrow> bool" where
  "rp_counts s \<longleftrightarrow>
     (\<forall>t. in_mutex (rp_pc s t) \<longleftrightarrow> lock_readers s = Some t) \<and>
     finite (active s) \<and> num_readers_active s = card (active s) \<and>
     (\<forall>t. rp_pc s t = RP_Get_global \<longrightarrow> active s = {t}) \<and>
     (\<forall>t. rp_pc s t = RP_Put_global \<longrightarrow> active s = {}) \<and> \<not> rp_failed s"

definition rp_owned :: "read_pref_mrsw_lock \<Rightarrow> bool" where
  "rp_owned s \<longleftrightarrow>
     (if readers_own s then lock_global s = 0 \<and> writers s = {}
      else if writers s = {} then lock_global s = 1
      else lock_global s = 0 \<and> (\<exists>u. writers s = {u}))"

definition rp_inv :: "read_pref_mrsw_lock \<Rightarrow> bool" where
  "rp_inv s \<longleftrightarrow> rp_counts s \<and> rp_owned s"

lemma rp_goto_simps [simp]:
  "rp_pc (rp_goto t p s) u = (if u = t then p else rp_pc s u)"
  "lock_global (rp_goto t p s) = lock_global s" "lock_readers (rp_goto t p s) = lock_readers s"
  "num_readers_active (rp_goto t p s) = num_readers_active s" "rp_failed (rp_goto t p s) = rp_failed s"
  by (simp_all add: rp_goto_def)

lemma active_goto: "active (rp_goto t p s) = (if counted p then insert t (active s) else active s - {t})"
  by (auto simp: active_def)

lemma writers_goto:
  "writers (rp_goto t p s) = (if p = RP_Writing then insert t (writers s) else writers s - {t})"
  by (auto simp: writers_def)

lemma active_upd [simp]:
  "active (s\<lparr>lock_global := a\<rparr>) = active s" "active (s\<lparr>lock_readers := b\<rparr>) = active s"
  "active (s\<lparr>num_readers_active := c\<rparr>) = active s" "active (s\<lparr>rp_failed := d\<rparr>) = active s"
  by (simp_all add: active_def)

lemma writers_upd [simp]:
  "writers (s\<lparr>lock_global := a\<rparr>) = writers s" "writers (s\<lparr>lock_readers := b\<rparr>) = writers s"
  "writers (s\<lparr>num_readers_active := c\<rparr>) = writers s" "writers (s\<lparr>rp_failed := d\<rparr>) = writers s"
  by (simp_all add: writers_def)

lemma mem_active: "t \<in> active s \<longleftrightarrow> counted (rp_pc s t)"
  by (simp add: active_def)

lemma mem_writers: "t \<in> writers s \<longleftrightarrow> rp_pc s t = RP_Writing"
  by (simp add: writers_def)

lemma rp_inv_create: "rp_inv rp_create"
  by (simp add: rp_inv_def rp_counts_def rp_owned_def readers_own_def rp_create_def active_def
      writers_def counted_def in_mutex_def)

lemma rp_mutexD:
  "rp_counts s \<Longrightarrow> in_mutex (rp_pc s t) \<Longrightarrow> in_mutex (rp_pc s u) \<Longrightarrow> u = t"
  by (auto simp: rp_counts_def)

lemma rp_countsD:
  assumes "rp_counts s"
  shows "in_mutex (rp_pc s t) \<longleftrightarrow> lock_readers s = Some t" and "finite (active s)"
    and "num_readers_active s = card (active s)"
    and "rp_pc s t = RP_Get_global \<Longrightarrow> active s = {t}"
    and "rp_pc s t = RP_Put_global \<Longrightarrow> active s = {}" and "\<not> rp_failed s"
  using assms unfolding rp_counts_def by blast+

text \<open>A step that does not count keeps the counts when it treats the mutex right.\<close>

lemma rp_counts_goto:
  assumes s: "rp_counts s" and c: "counted p \<longleftrightarrow> counted (rp_pc s t)"
    and g: "p = RP_Get_global \<Longrightarrow> rp_pc s t = RP_Get_global"
    and h: "p = RP_Put_global \<Longrightarrow> rp_pc s t = RP_Put_global"
    and s': "active s' = active s" "rp_pc s' = rp_pc s" "num_readers_active s' = num_readers_active s"
      "rp_failed s' = rp_failed s"
    and m: "\<forall>u. (if u = t then in_mutex p else in_mutex (rp_pc s u)) \<longleftrightarrow> lock_readers s' = Some u"
  shows "rp_counts (rp_goto t p s')"
proof -
  have a: "active (rp_goto t p s') = active s"
    using c s'(1) mem_active [of t s] by (auto simp: active_goto)
  show ?thesis
    unfolding rp_counts_def a using rp_countsD [OF s] m g h s' by (auto split: if_splits)
qed

text \<open>A step of the mutex's owner that keeps the mutex.\<close>

lemma rp_counts_inside:
  assumes s: "rp_counts s" and m: "in_mutex (rp_pc s t)" "in_mutex p"
    and s': "rp_pc s' = rp_pc s" "lock_readers s' = lock_readers s" "rp_failed s' = rp_failed s"
    and A: "A = (if counted p then insert t (active s) else active s - {t})"
      "num_readers_active s' = card A" "p = RP_Get_global \<Longrightarrow> A = {t}"
      "p = RP_Put_global \<Longrightarrow> A = {}"
  shows "rp_counts (rp_goto t p s')"
proof -
  have act: "active (rp_goto t p s') = A"
    using s'(1) A(1) by (auto simp: active_def)
  have only: "u = t" if "in_mutex (rp_pc s u)" for u by (rule rp_mutexD [OF s m(1) that])
  have own: "lock_readers s = Some t" using rp_countsD(1) [OF s] m(1) by blast
  have pcs: "p' = p \<and> u = t" if "rp_pc (rp_goto t p s') u = p'" "in_mutex p'" for u p'
    using that only [of u] s'(1) by (auto split: if_splits)
  show ?thesis
    unfolding rp_counts_def act
  proof (intro conjI allI impI)
    show "in_mutex (rp_pc (rp_goto t p s') u) \<longleftrightarrow> lock_readers (rp_goto t p s') = Some u" for u
      using only [of u] m(2) s'(1,2) own by auto
    show "finite A" using A(1) rp_countsD(2) [OF s] by simp
    show "num_readers_active (rp_goto t p s') = card A" by (simp add: A(2))
    show "A = {u}" if "rp_pc (rp_goto t p s') u = RP_Get_global" for u
      using pcs [OF that] A(3) by (simp add: in_mutex_def)
    show "A = {}" if "rp_pc (rp_goto t p s') u = RP_Put_global" for u
      using pcs [OF that] A(4) by (simp add: in_mutex_def)
    show "\<not> rp_failed (rp_goto t p s')" using s'(3) rp_countsD(6) [OF s] by simp
  qed
qed

lemma rp_counts_step: "rp_step s s' \<Longrightarrow> rp_counts s \<Longrightarrow> rp_counts s'"
proof (induction rule: rp_step.induct)
  case (get_mutex s t)
  with rp_countsD(1) [OF get_mutex(3)] show ?case
    by (intro rp_counts_goto [OF get_mutex(3)]) simp_all
next
  case (get_count s t)
  note s = rp_countsD [OF get_count(2)]
  let ?p = "if num_readers_active s + 1 = 1 then RP_Get_global else RP_Get_done"
  have "t \<notin> active s" using get_count(1) by (simp add: mem_active)
  then have c: "num_readers_active s + 1 = card (insert t (active s))"
    using s(2,3) by simp
  have e: "insert t (active s) = {t}" if "?p = RP_Get_global"
    using that s(2,3) by (simp split: if_splits)
  have p: "counted ?p" "in_mutex ?p" "in_mutex (rp_pc s t)" "?p \<noteq> RP_Put_global"
    using get_count(1) by simp_all
  show ?case
  proof (rule rp_counts_inside [OF get_count(2) p(3,2)])
    show "insert t (active s) = (if counted ?p then insert t (active s) else active s - {t})"
      using p(1) by (simp only: if_True)
    show "num_readers_active (s\<lparr>num_readers_active := num_readers_active s + 1\<rparr>)
        = card (insert t (active s))"
      using c by simp
    show "insert t (active s) = {}" if "?p = RP_Put_global" using that p(4) by blast
    show "insert t (active s) = {t}" if "?p = RP_Get_global" by (rule e [OF that])
  qed simp_all
next
  case (get_global s t)
  with rp_countsD(1) [OF get_global(3), of t] rp_countsD(1) [OF get_global(3)] show ?case
    by (intro rp_counts_goto [OF get_global(3)]) simp_all
next
  case (get_done s t)
  with rp_countsD(1) [OF get_done(2), of t] rp_countsD(1) [OF get_done(2)] show ?case
    by (intro rp_counts_goto [OF get_done(2)]) simp_all
next
  case (put_mutex s t)
  with rp_countsD(1) [OF put_mutex(3)] show ?case
    by (intro rp_counts_goto [OF put_mutex(3)]) simp_all
next
  case (put_count s t)
  note s = rp_countsD [OF put_count(3)]
  let ?p = "if num_readers_active s - 1 = 0 then RP_Put_global else RP_Put_done"
  have "t \<in> active s" using put_count(1) by (simp add: mem_active)
  then have c: "num_readers_active s - 1 = card (active s - {t})"
    using s(3) by simp
  have e: "active s - {t} = {}" if "?p = RP_Put_global"
    using that c s(2) by (metis card_eq_0_iff finite_Diff rp_pc.distinct)
  have p: "\<not> counted ?p" "in_mutex ?p" "in_mutex (rp_pc s t)" "?p \<noteq> RP_Get_global"
    using put_count(1) by simp_all
  show ?case
  proof (rule rp_counts_inside [OF put_count(3) p(3,2)])
    show "active s - {t} = (if counted ?p then insert t (active s) else active s - {t})"
      using p(1) by (simp only: if_False)
    show "num_readers_active (s\<lparr>num_readers_active := num_readers_active s - 1\<rparr>)
        = card (active s - {t})"
      using c by simp
    show "active s - {t} = {t}" if "?p = RP_Get_global" using that p(4) by blast
    show "active s - {t} = {}" if "?p = RP_Put_global" by (rule e [OF that])
  qed simp_all
next
  case (put_assert s t)
  have "t \<in> active s" using put_assert(1) by (simp add: mem_active)
  with put_assert rp_countsD(2,3) [OF put_assert(3)] show ?case by auto
next
  case (put_global s t)
  with rp_countsD(1) [OF put_global(2), of t] rp_countsD(1) [OF put_global(2)] show ?case
    by (intro rp_counts_goto [OF put_global(2)]) simp_all
next
  case (put_done s t)
  with rp_countsD(1) [OF put_done(2), of t] rp_countsD(1) [OF put_done(2)] show ?case
    by (intro rp_counts_goto [OF put_done(2)]) simp_all
next
  case (write_get s t)
  with rp_countsD(1) [OF write_get(3), of t] rp_countsD(1) [OF write_get(3)] show ?case
    by (intro rp_counts_goto [OF write_get(3)]) simp_all
next
  case (write_put s t)
  with rp_countsD(1) [OF write_put(2), of t] rp_countsD(1) [OF write_put(2)] show ?case
    by (intro rp_counts_goto [OF write_put(2)]) simp_all
qed simp

text \<open>Who owns \<open>lock_global\<close>, in terms of the counted readers and the mutex's owner.\<close>

lemma readers_own_active:
  "readers_own s \<longleftrightarrow>
     active s \<noteq> {} \<and> (\<forall>t. rp_pc s t \<noteq> RP_Get_global) \<or> (\<exists>t. rp_pc s t = RP_Put_global)"
  by (auto simp: readers_own_def active_def)

lemma readers_own_inside:
  assumes "rp_counts s" and "in_mutex (rp_pc s t)"
  shows "readers_own s \<longleftrightarrow>
    active s \<noteq> {} \<and> rp_pc s t \<noteq> RP_Get_global \<or> rp_pc s t = RP_Put_global"
proof -
  have "u = t" if "rp_pc s u \<in> {RP_Get_global, RP_Put_global}" for u
    using rp_mutexD [OF assms, of u] that by auto
  then show ?thesis unfolding readers_own_active by auto
qed

lemma rp_owned_cong:
  assumes "rp_owned s" and "readers_own s' = readers_own s" and "writers s' = writers s"
    and "lock_global s' = lock_global s"
  shows "rp_owned s'"
  using assms by (simp add: rp_owned_def)

lemma readers_own_goto:
  assumes "counted p = counted (rp_pc s t)" and "p \<notin> {RP_Get_global, RP_Put_global}"
    and "rp_pc s t \<notin> {RP_Get_global, RP_Put_global}" and "rp_pc s' = rp_pc s"
  shows "readers_own (rp_goto t p s') = readers_own s"
proof -
  have "counted (rp_pc (rp_goto t p s') u) = counted (rp_pc s u)" for u
    using assms(1,4) by simp
  moreover have "rp_pc (rp_goto t p s') u = q \<longleftrightarrow> rp_pc s u = q"
    if "q \<in> {RP_Get_global, RP_Put_global}" for u q
    using assms(2-4) that by auto
  ultimately show ?thesis by (simp add: readers_own_def del: rp_goto_simps)
qed

text \<open>A step that is neither counted nor about \<open>lock_global\<close>.\<close>

lemma rp_owned_quiet:
  assumes "rp_owned s" and "counted p = counted (rp_pc s t)"
    and "p \<notin> {RP_Get_global, RP_Put_global, RP_Writing}"
    and "rp_pc s t \<notin> {RP_Get_global, RP_Put_global, RP_Writing}"
    and s': "rp_pc s' = rp_pc s" "lock_global s' = lock_global s"
  shows "rp_owned (rp_goto t p s')"
proof (rule rp_owned_cong [OF assms(1)])
  show "readers_own (rp_goto t p s') = readers_own s"
    using assms(2-5) by (intro readers_own_goto) simp_all
  show "writers (rp_goto t p s') = writers s"
    using assms(3,4) s' by (auto simp: writers_def)
qed (use s' in simp)

lemma rp_owned_step: "rp_step s s' \<Longrightarrow> rp_inv s \<Longrightarrow> rp_owned s'"
proof -
  assume st: "rp_step s s'" and inv: "rp_inv s"
  have c: "rp_counts s" and o: "rp_owned s" using inv by (simp_all add: rp_inv_def)
  have c': "rp_counts s'" using rp_counts_step [OF st c] .
  from st show ?thesis
  proof cases
    case (get_mutex t)
    then show ?thesis using rp_owned_quiet [OF o, of RP_Get_locked t] by simp
  next
    case get_timeout
    with o show ?thesis by simp
  next
    case (get_count t)
    let ?p = "if num_readers_active s + 1 = 1 then RP_Get_global else RP_Get_done"
    have m: "in_mutex (rp_pc s t)" "in_mutex (rp_pc s' t)" using get_count by simp_all
    have a: "active s' = insert t (active s)" using get_count(1) by (simp add: active_goto)
    have e: "num_readers_active s = 0 \<longleftrightarrow> active s = {}" using rp_countsD(2,3) [OF c] by simp
    show ?thesis
    proof (rule rp_owned_cong [OF o])
      show "readers_own s' = readers_own s"
        unfolding readers_own_inside [OF c m(1)] readers_own_inside [OF c' m(2)] a
        using get_count e by simp
      show "writers s' = writers s"
        using get_count by (auto simp: writers_goto mem_writers)
    qed (use get_count in simp)
  next
    case (get_global t)
    have m: "in_mutex (rp_pc s t)" "in_mutex (rp_pc s' t)" using get_global by simp_all
    have "\<not> readers_own s" "readers_own s'"
      unfolding readers_own_inside [OF c m(1)] readers_own_inside [OF c' m(2)]
      using get_global by (simp_all add: active_goto)
    with o get_global show ?thesis
      by (auto simp: rp_owned_def writers_goto split: if_splits)
  next
    case (get_done t)
    then show ?thesis using rp_owned_quiet [OF o, of RP_Reading t] by simp
  next
    case (put_mutex t)
    then show ?thesis using rp_owned_quiet [OF o, of RP_Put_locked t] by simp
  next
    case (put_count t)
    let ?p = "if num_readers_active s - 1 = 0 then RP_Put_global else RP_Put_done"
    have m: "in_mutex (rp_pc s t)" "in_mutex (rp_pc s' t)" using put_count by simp_all
    have t: "t \<in> active s" using put_count by (simp add: mem_active)
    have a: "active s' = active s - {t}" using put_count(1) by (simp add: active_goto)
    have "card (active s - {t}) = num_readers_active s - 1"
      using rp_countsD(3) [OF c] t by simp
    then have e: "num_readers_active s - 1 = 0 \<longleftrightarrow> active s - {t} = {}"
      using rp_countsD(2) [OF c] by (metis card_0_eq finite_Diff)
    show ?thesis
    proof (rule rp_owned_cong [OF o])
      show "readers_own s' = readers_own s"
        unfolding readers_own_inside [OF c m(1)] readers_own_inside [OF c' m(2)] a
        using put_count e t by auto
      show "writers s' = writers s"
        using put_count by (auto simp: writers_goto mem_writers)
    qed (use put_count in simp)
  next
    case (put_assert t)
    then show ?thesis
      by (intro rp_owned_cong [OF o]) (simp_all add: readers_own_def)
  next
    case (put_global t)
    have m: "in_mutex (rp_pc s t)" "in_mutex (rp_pc s' t)" using put_global by simp_all
    have "active s = {}" by (rule rp_countsD(5) [OF c put_global(2)])
    then have "readers_own s" "\<not> readers_own s'"
      unfolding readers_own_inside [OF c m(1)] readers_own_inside [OF c' m(2)]
      using put_global by (simp_all add: active_goto)
    with o put_global show ?thesis
      by (auto simp: rp_owned_def writers_goto split: if_splits)
  next
    case (put_done t)
    then show ?thesis using rp_owned_quiet [OF o, of RP_Idle t] by simp
  next
    case (write_get t)
    have "readers_own s' = readers_own s"
      unfolding write_get(1) using write_get(2) by (intro readers_own_goto) simp_all
    with o write_get show ?thesis
      by (auto simp: rp_owned_def writers_goto split: if_splits)
  next
    case (write_put t)
    have "readers_own s' = readers_own s"
      unfolding write_put(1) using write_put(2) by (intro readers_own_goto) simp_all
    moreover have "t \<in> writers s" using write_put by (simp add: mem_writers)
    ultimately show ?thesis
      using o write_put by (auto simp: rp_owned_def writers_goto split: if_splits)
  qed
qed

lemma rp_step_inv: "rp_step s s' \<Longrightarrow> rp_inv s \<Longrightarrow> rp_inv s'"
  using rp_counts_step rp_owned_step by (auto simp: rp_inv_def)

interpretation rp: state_machine rp_create rp_step rp_inv
  by unfold_locales (fact rp_inv_create, fact rp_step_inv)

text \<open>
  C15. However the tasks interleave, the reader-preferred lock never lets a task write while
  another reads or writes, its assertion on the number of readers never fails, and when
  every task is done the lock is as it was created.
\<close>

theorem mrsw_reader_preferred_exclusive:
  assumes "rp_step\<^sup>*\<^sup>* rp_create s"
  shows "\<not> (rp_pc s t = RP_Reading \<and> rp_pc s u = RP_Writing)
    \<and> (rp_pc s t = RP_Writing \<and> rp_pc s u = RP_Writing \<longrightarrow> t = u)
    \<and> \<not> rp_failed s
    \<and> ((\<forall>v. rp_pc s v = RP_Idle) \<longrightarrow>
         lock_global s = 1 \<and> lock_readers s = None \<and> num_readers_active s = 0)"
proof -
  have c: "rp_counts s" and o: "rp_owned s"
    using rp.reachable [OF assms] by (simp_all add: rp_inv_def)
  have "readers_own s" if "rp_pc s t = RP_Reading"
  proof -
    have "t \<in> active s" using that by (simp add: mem_active)
    moreover from this that have "rp_pc s v \<noteq> RP_Get_global" for v
      using rp_countsD(4) [OF c, of v] by auto
    ultimately show ?thesis by (auto simp: readers_own_active)
  qed
  then have "\<not> (rp_pc s t = RP_Reading \<and> rp_pc s u = RP_Writing)"
    using o mem_writers [of u s] by (auto simp: rp_owned_def)
  moreover have "t = u" if "rp_pc s t = RP_Writing" "rp_pc s u = RP_Writing"
  proof -
    have "t \<in> writers s" "u \<in> writers s" using that by (simp_all add: mem_writers)
    with o show ?thesis by (auto simp: rp_owned_def split: if_splits)
  qed
  moreover have "lock_global s = 1 \<and> lock_readers s = None \<and> num_readers_active s = 0"
    if "\<forall>v. rp_pc s v = RP_Idle"
  proof -
    have "active s = {}" "writers s = {}" using that by (simp_all add: active_def writers_def)
    moreover from this have "\<not> readers_own s" using that by (simp add: readers_own_active)
    ultimately show ?thesis
      using o rp_countsD(3) [OF c] rp_countsD(1) [OF c, of "the (lock_readers s)"] that
      by (cases "lock_readers s") (simp_all add: rp_owned_def)
  qed
  ultimately show ?thesis using rp_countsD(6) [OF c] by blast
qed

text \<open>Task 4 reads.\<close>

definition rp_one_reader :: read_pref_mrsw_lock where
  "rp_one_reader =
     \<lparr>lock_global = 0, lock_readers = None, num_readers_active = 1,
      rp_pc = (\<lambda>_. RP_Idle)(4 := RP_Reading), rp_failed = False\<rparr>"

lemma rp_one_reader_reachable: "rp_step\<^sup>*\<^sup>* rp_create rp_one_reader"
proof -
  let ?s1 = "rp_goto 4 RP_Get_locked (rp_create\<lparr>lock_readers := Some 4\<rparr>)"
  let ?s2 = "rp_goto 4 RP_Get_global (?s1\<lparr>num_readers_active := 1\<rparr>)"
  let ?s3 = "rp_goto 4 RP_Get_done (?s2\<lparr>lock_global := 0\<rparr>)"
  have "rp_step rp_create ?s1"
    by (rule get_mutex) (simp_all add: rp_create_def)
  moreover have "rp_step ?s1 ?s2"
    using get_count [of ?s1 4] by (simp add: rp_create_def)
  moreover have "rp_step ?s2 ?s3"
    using get_global [of ?s2 4] by (simp add: rp_create_def)
  moreover have "rp_step ?s3 rp_one_reader"
    using get_done [of ?s3 4] by (simp add: rp_create_def rp_goto_def rp_one_reader_def)
  ultimately show ?thesis
    by (meson rtranclp.rtrancl_into_rtrancl rtranclp.rtrancl_refl)
qed

theorem mrsw_reader_preferred_exclusive_witness:
  "rp_pc rp_one_reader 4 = RP_Reading \<and> rp_pc rp_one_reader 5 \<noteq> RP_Writing
    \<and> \<not> rp_failed rp_one_reader"
  using mrsw_reader_preferred_exclusive [OF rp_one_reader_reachable, of 4 5]
  by (simp add: rp_one_reader_def)

section \<open>Writer preferred\<close>

text \<open>
  Waiting for the event bit, or woken by it: a reader tries again, a writer goes on. The parts
  that run with \<open>lock_global\<close> taken are single steps.
\<close>

datatype wp_pc =
    WP_Idle | WP_Read_wait | WP_Read_retry | WP_Reading
  | WP_Write_wait | WP_Write_woken | WP_Writing

record write_pref_mrsw_lock =
  wp_cond :: bool
  wp_readers_active :: u32
  wp_writers_waiting :: u32
  wp_writer_active :: bool
  wp_pc :: "nat \<Rightarrow> wp_pc"

definition wp_create :: write_pref_mrsw_lock where
  "wp_create =
     \<lparr>wp_cond = False, wp_readers_active = 0, wp_writers_waiting = 0, wp_writer_active = False,
      wp_pc = (\<lambda>_. WP_Idle)\<rparr>"

definition wp_goto :: "nat \<Rightarrow> wp_pc \<Rightarrow> write_pref_mrsw_lock \<Rightarrow> write_pref_mrsw_lock" where
  "wp_goto t p s = s\<lparr>wp_pc := (wp_pc s)(t := p)\<rparr>"

definition wp_wake :: "wp_pc \<Rightarrow> wp_pc" where
  "wp_wake p = (if p = WP_Read_wait then WP_Read_retry
                else if p = WP_Write_wait then WP_Write_woken else p)"

text \<open>The event bit set: kept when nobody waits for it.\<close>

definition wp_set_bits :: "write_pref_mrsw_lock \<Rightarrow> write_pref_mrsw_lock" where
  "wp_set_bits s =
     s\<lparr>wp_cond := (\<forall>t. wp_pc s t \<notin> {WP_Read_wait, WP_Write_wait}), wp_pc := wp_wake \<circ> wp_pc s\<rparr>"

text \<open>
  The parts of \<open>mrsw_lock_reader_get\<close>: the test, and giving up after a timeout. The return
  value is \<open>RTOS_OSAL_SUCCESS\<close> after either, so the caller goes on to read.
\<close>

definition wp_reader_try :: "nat \<Rightarrow> write_pref_mrsw_lock \<Rightarrow> write_pref_mrsw_lock" where
  "wp_reader_try t s =
     (if \<not> wp_writer_active s \<and> wp_writers_waiting s = 0
      then wp_goto t WP_Reading (s\<lparr>wp_readers_active := wp_readers_active s + 1\<rparr>)
      else wp_goto t WP_Read_wait s)"

definition wp_reader_timeout :: "nat \<Rightarrow> write_pref_mrsw_lock \<Rightarrow> write_pref_mrsw_lock" where
  "wp_reader_timeout t s =
     wp_goto t WP_Reading (s\<lparr>wp_readers_active := wp_readers_active s - 1\<rparr>)"

definition wp_reader_put :: "nat \<Rightarrow> write_pref_mrsw_lock \<Rightarrow> write_pref_mrsw_lock" where
  "wp_reader_put t s =
     (let s1 = s\<lparr>wp_readers_active := wp_readers_active s - 1\<rparr>
      in wp_goto t WP_Idle (if wp_readers_active s1 = 0 then wp_set_bits s1 else s1))"

text \<open>The parts of \<open>mrsw_lock_writer_get\<close>; it too returns success after a timeout.\<close>

definition wp_writer_try :: "nat \<Rightarrow> write_pref_mrsw_lock \<Rightarrow> write_pref_mrsw_lock" where
  "wp_writer_try t s =
     (let s1 = s\<lparr>wp_writers_waiting := wp_writers_waiting s + 1\<rparr>
      in if wp_readers_active s1 > 0 \<or> wp_writer_active s1 then wp_goto t WP_Write_wait s1
         else wp_goto t WP_Writing
                (s1\<lparr>wp_writers_waiting := wp_writers_waiting s1 - 1, wp_writer_active := True\<rparr>))"

definition wp_writer_woken :: "nat \<Rightarrow> write_pref_mrsw_lock \<Rightarrow> write_pref_mrsw_lock" where
  "wp_writer_woken t s =
     wp_goto t WP_Writing
       (s\<lparr>wp_writers_waiting := wp_writers_waiting s - 1, wp_writer_active := True\<rparr>)"

definition wp_writer_timeout :: "nat \<Rightarrow> write_pref_mrsw_lock \<Rightarrow> write_pref_mrsw_lock" where
  "wp_writer_timeout t s =
     wp_goto t WP_Writing (s\<lparr>wp_writers_waiting := wp_writers_waiting s - 1\<rparr>)"

definition wp_writer_put :: "nat \<Rightarrow> write_pref_mrsw_lock \<Rightarrow> write_pref_mrsw_lock" where
  "wp_writer_put t s = wp_goto t WP_Idle (wp_set_bits (s\<lparr>wp_writer_active := False\<rparr>))"

text \<open>\<open>timeouts\<close> says whether a wait may time out.\<close>

inductive wp_step :: "bool \<Rightarrow> write_pref_mrsw_lock \<Rightarrow> write_pref_mrsw_lock \<Rightarrow> bool"
  for timeouts :: bool where
  read_try: "wp_pc s t \<in> {WP_Idle, WP_Read_retry} \<Longrightarrow> wp_step timeouts s (wp_reader_try t s)"
| read_pass: "wp_pc s t = WP_Read_wait \<Longrightarrow> wp_cond s \<Longrightarrow>
    wp_step timeouts s (wp_goto t WP_Read_retry (s\<lparr>wp_cond := False\<rparr>))"
| read_timeout: "wp_pc s t = WP_Read_wait \<Longrightarrow> timeouts \<Longrightarrow>
    wp_step timeouts s (wp_reader_timeout t s)"
| read_put: "wp_pc s t = WP_Reading \<Longrightarrow> wp_step timeouts s (wp_reader_put t s)"
| write_try: "wp_pc s t = WP_Idle \<Longrightarrow> wp_step timeouts s (wp_writer_try t s)"
| write_pass: "wp_pc s t = WP_Write_wait \<Longrightarrow> wp_cond s \<Longrightarrow>
    wp_step timeouts s (wp_goto t WP_Write_woken (s\<lparr>wp_cond := False\<rparr>))"
| write_woken: "wp_pc s t = WP_Write_woken \<Longrightarrow> wp_step timeouts s (wp_writer_woken t s)"
| write_timeout: "wp_pc s t = WP_Write_wait \<Longrightarrow> timeouts \<Longrightarrow>
    wp_step timeouts s (wp_writer_timeout t s)"
| write_done: "wp_pc s t = WP_Writing \<Longrightarrow> wp_step timeouts s (wp_writer_put t s)"

lemmas wp_defs = wp_create_def wp_goto_def wp_wake_def wp_set_bits_def wp_reader_try_def
  wp_reader_timeout_def wp_reader_put_def wp_writer_try_def wp_writer_woken_def
  wp_writer_timeout_def wp_writer_put_def

text \<open>The event bit of an earlier release lets a writer in among the readers.\<close>

lemma wp_reader_and_writer:
  "\<exists>s. (wp_step False)\<^sup>*\<^sup>* wp_create s \<and> wp_pc s 1 = WP_Reading \<and> wp_pc s 2 = WP_Writing"
proof -
  let ?s1 = "wp_writer_try 2 wp_create" let ?s2 = "wp_writer_put 2 ?s1"
  let ?s3 = "wp_reader_try 1 ?s2" let ?s4 = "wp_writer_try 2 ?s3"
  let ?s5 = "wp_goto 2 WP_Write_woken (?s4\<lparr>wp_cond := False\<rparr>)" let ?s6 = "wp_writer_woken 2 ?s5"
  have "wp_step False wp_create ?s1" by (rule write_try) (simp add: wp_defs)
  moreover have "wp_step False ?s1 ?s2" by (rule write_done) (simp add: wp_defs)
  moreover have "wp_step False ?s2 ?s3" by (rule read_try) (simp add: wp_defs Let_def)
  moreover have "wp_step False ?s3 ?s4" by (rule write_try) (simp add: wp_defs Let_def)
  moreover have "wp_step False ?s4 ?s5"
    by (rule write_pass) (simp_all add: wp_defs Let_def)
  moreover have "wp_step False ?s5 ?s6" by (rule write_woken) (simp add: wp_defs Let_def)
  ultimately have "(wp_step False)\<^sup>*\<^sup>* wp_create ?s6"
    by (meson rtranclp.rtrancl_into_rtrancl rtranclp.rtrancl_refl)
  moreover have "wp_pc ?s6 1 = WP_Reading" "wp_pc ?s6 2 = WP_Writing"
    by (simp_all add: wp_defs Let_def)
  ultimately show ?thesis by blast
qed

text \<open>One release wakes two writers.\<close>

lemma wp_two_writers:
  "\<exists>s. (wp_step False)\<^sup>*\<^sup>* wp_create s \<and> wp_pc s 1 = WP_Writing \<and> wp_pc s 2 = WP_Writing"
proof -
  let ?s1 = "wp_writer_try 3 wp_create" let ?s2 = "wp_writer_try 1 ?s1"
  let ?s3 = "wp_writer_try 2 ?s2" let ?s4 = "wp_writer_put 3 ?s3"
  let ?s5 = "wp_writer_woken 1 ?s4" let ?s6 = "wp_writer_woken 2 ?s5"
  have "wp_step False wp_create ?s1" by (rule write_try) (simp add: wp_defs)
  moreover have "wp_step False ?s1 ?s2" by (rule write_try) (simp add: wp_defs Let_def)
  moreover have "wp_step False ?s2 ?s3" by (rule write_try) (simp add: wp_defs Let_def)
  moreover have "wp_step False ?s3 ?s4" by (rule write_done) (simp add: wp_defs Let_def)
  moreover have "wp_step False ?s4 ?s5" by (rule write_woken) (simp add: wp_defs Let_def)
  moreover have "wp_step False ?s5 ?s6" by (rule write_woken) (simp add: wp_defs Let_def)
  ultimately have "(wp_step False)\<^sup>*\<^sup>* wp_create ?s6"
    by (meson rtranclp.rtrancl_into_rtrancl rtranclp.rtrancl_refl)
  moreover have "wp_pc ?s6 1 = WP_Writing" "wp_pc ?s6 2 = WP_Writing"
    by (simp_all add: wp_defs Let_def)
  ultimately show ?thesis by blast
qed

text \<open>A reader that gives up makes the count of readers wrap.\<close>

lemma wp_timeout_wraps:
  "\<exists>s. (wp_step True)\<^sup>*\<^sup>* wp_create s \<and> wp_pc s 1 = WP_Reading \<and> wp_pc s 2 = WP_Writing
     \<and> wp_readers_active s = - 1"
proof -
  let ?s1 = "wp_writer_try 2 wp_create" let ?s2 = "wp_reader_try 1 ?s1"
  let ?s3 = "wp_reader_timeout 1 ?s2"
  have "wp_step True wp_create ?s1" by (rule write_try) (simp add: wp_defs)
  moreover have "wp_step True ?s1 ?s2" by (rule read_try) (simp add: wp_defs Let_def)
  moreover have "wp_step True ?s2 ?s3" by (rule read_timeout) (simp_all add: wp_defs Let_def)
  ultimately have "(wp_step True)\<^sup>*\<^sup>* wp_create ?s3"
    by (meson rtranclp.rtrancl_into_rtrancl rtranclp.rtrancl_refl)
  moreover have "wp_pc ?s3 1 = WP_Reading" "wp_pc ?s3 2 = WP_Writing" "wp_readers_active ?s3 = - 1"
    by (simp_all add: wp_defs Let_def)
  ultimately show ?thesis by blast
qed

text \<open>
  C40. The writer-preferred lock lets a task write while another reads, and lets two tasks
  write at once, without any timeout; and a reader whose wait times out goes on to read
  beside a writer and makes the number of readers wrap.
\<close>

theorem mrsw_writer_preferred_not_exclusive:
  "(\<exists>s. (wp_step False)\<^sup>*\<^sup>* wp_create s \<and> wp_pc s 1 = WP_Reading \<and> wp_pc s 2 = WP_Writing)
   \<and> (\<exists>s. (wp_step False)\<^sup>*\<^sup>* wp_create s \<and> wp_pc s 1 = WP_Writing \<and> wp_pc s 2 = WP_Writing)
   \<and> (\<exists>s. (wp_step True)\<^sup>*\<^sup>* wp_create s \<and> wp_pc s 1 = WP_Reading \<and> wp_pc s 2 = WP_Writing
        \<and> wp_readers_active s = - 1)"
  using wp_reader_and_writer wp_two_writers wp_timeout_wraps by blast

end
