(* ===== verification/Sample_Ring.thy ===== *)
theory Sample_Ring
  imports Prelude "HOL-Library.Sublist"
begin

text \<open>
  The ring buffer of sample words that the I2S driver and the microphone array driver keep
  between an interrupt and the tasks (the structs \<open>recv_buffer\<close> and \<open>send_buffer\<close> of
  rtos_i2s.h and rtos_mic_array.h, and the copy loops of rtos_i2s.c and rtos_mic_array.c).

  The counters \<open>total_written\<close> and \<open>total_read\<close> are size_t and wrap at 2^32; so do the
  differences the code forms from them. The indices are set to 0 as soon as they reach
  \<open>buf_size\<close>, so they are natural numbers and \<open>buf_size - index\<close> cannot wrap.
  \<open>required_count\<close> is \<open>required_available_count\<close> of a receive buffer and
  \<open>required_free_count\<close> of a send buffer.
\<close>

type_synonym sample = "32 word"

record sample_buffer =
  samples :: "sample list"
  buf_size :: nat
  write_index :: nat
  read_index :: nat
  total_written :: u32
  total_read :: u32
  required_count :: u32

section \<open>Operations\<close>

definition words_available :: "sample_buffer \<Rightarrow> u32" where
  "words_available b = total_written b - total_read b"

definition words_free :: "sample_buffer \<Rightarrow> u32" where
  "words_free b = of_nat (buf_size b) - words_available b"

text \<open>
  memcpy into and out of the buffer at an index, with the index advanced and set back to 0
  at the end of the buffer.
\<close>

definition advance :: "sample_buffer \<Rightarrow> nat \<Rightarrow> nat \<Rightarrow> nat" where
  "advance b i k = (if buf_size b \<le> i + k then 0 else i + k)"

definition write_words :: "sample list \<Rightarrow> sample_buffer \<Rightarrow> sample_buffer res" where
  "write_words ws b =
     (if write_index b + length ws \<le> length (samples b)
      then Inr (b\<lparr>samples := put_at (samples b) (write_index b) ws,
                  write_index := advance b (write_index b) (length ws)\<rparr>)
      else Inl Bad_access)"

definition read_words :: "nat \<Rightarrow> sample_buffer \<Rightarrow> (sample list \<times> sample_buffer) res" where
  "read_words k b =
     (if read_index b + k \<le> length (samples b)
      then Inr (take k (drop (read_index b) (samples b)),
                b\<lparr>read_index := advance b (read_index b) k\<rparr>)
      else Inl Bad_access)"

text \<open>The copy loops, which cut the words at the end of the buffer.\<close>

definition write_chunk :: "nat \<Rightarrow> sample_buffer \<Rightarrow> nat" where
  "write_chunk n b = min n (buf_size b - write_index b)"

definition read_chunk :: "nat \<Rightarrow> sample_buffer \<Rightarrow> nat" where
  "read_chunk n b = min n (buf_size b - read_index b)"

partial_function (option) write_loop ::
  "nat \<Rightarrow> sample list \<Rightarrow> sample_buffer \<Rightarrow> sample_buffer res option" where
  "write_loop n src b =
     (if n = 0 then Some (Inr b)
      else if length src < write_chunk n b then Some (Inl Bad_access)
      else case write_words (take (write_chunk n b) src) b of
             Inl e \<Rightarrow> Some (Inl e)
           | Inr b' \<Rightarrow> write_loop (n - write_chunk n b) (drop (write_chunk n b) src) b')"

partial_function (option) read_loop ::
  "nat \<Rightarrow> sample list \<Rightarrow> sample_buffer \<Rightarrow> (sample list \<times> sample_buffer) res option" where
  "read_loop n dst b =
     (if n = 0 then Some (Inr (dst, b))
      else case read_words (read_chunk n b) b of
             Inl e \<Rightarrow> Some (Inl e)
           | Inr (ws, b') \<Rightarrow> read_loop (n - read_chunk n b) (dst @ ws) b')"

declare write_loop.simps [code] read_loop.simps [code]

text \<open>memset, buf_size and malloc: a buffer before its first word.\<close>

definition new_buffer :: "sample list \<Rightarrow> nat \<Rightarrow> sample_buffer" where
  "new_buffer fresh n =
     \<lparr>samples = take n fresh, buf_size = n, write_index = 0, read_index = 0,
      total_written = 0, total_read = 0, required_count = 0\<rparr>"

section \<open>The words a buffer holds\<close>

text \<open>
  \<open>ring b H r cr cw\<close>: \<open>H\<close> are all the words ever put into the buffer, the first \<open>r\<close> of them
  were taken out; \<open>cw\<close> and \<open>cr\<close> are the numbers of words that the counters admit to, which lag
  behind while a copy is in progress. Positions are absolute, the counters are their
  remainders.
\<close>

definition ring :: "sample_buffer \<Rightarrow> sample list \<Rightarrow> nat \<Rightarrow> nat \<Rightarrow> nat \<Rightarrow> bool" where
  "ring b H r cr cw \<longleftrightarrow>
     length (samples b) = buf_size b \<and> 0 < buf_size b \<and> buf_size b < 2 ^ 32 \<and>
     cr \<le> r \<and> r \<le> cw \<and> cw \<le> length H \<and> length H \<le> cr + buf_size b \<and>
     write_index b = length H mod buf_size b \<and> read_index b = r mod buf_size b \<and>
     total_written b = of_nat cw \<and> total_read b = of_nat cr \<and>
     (\<forall>i. cr \<le> i \<longrightarrow> i < length H \<longrightarrow> samples b ! (i mod buf_size b) = H ! i)"

lemma advance_mod:
  "i = r mod buf_size b \<Longrightarrow> k \<le> buf_size b - i \<Longrightarrow> 0 < buf_size b \<Longrightarrow>
     advance b i k = (r + k) mod buf_size b"
proof -
  assume i: "i = r mod buf_size b" and k: "k \<le> buf_size b - i" and m: "0 < buf_size b"
  have le: "i + k \<le> buf_size b" using k mod_less_divisor [OF m, of r] i by linarith
  have "(r + k) mod buf_size b = (i + k) mod buf_size b" by (simp add: i mod_simps)
  with le show ?thesis by (cases "i + k = buf_size b") (auto simp: advance_def)
qed

lemma ring_available:
  "ring b H r cr cw \<Longrightarrow> unat (words_available b) = cw - cr"
proof -
  assume "ring b H r cr cw"
  then have "cw - cr < 2 ^ 32" "words_available b = of_nat (cw - cr)"
    by (auto simp: ring_def words_available_def of_nat_diff)
  then show ?thesis by (simp add: unat_of_nat)
qed

lemma ring_free:
  assumes "ring b H r cr cw"
  shows "unat (words_free b) = buf_size b - (cw - cr)"
proof -
  from assms have "cw - cr \<le> buf_size b" "buf_size b < 2 ^ 32" "cr \<le> cw"
    by (auto simp: ring_def)
  moreover from assms have "words_free b = of_nat (buf_size b - (cw - cr))"
    using \<open>cw - cr \<le> buf_size b\<close> \<open>cr \<le> cw\<close>
    by (simp add: words_free_def words_available_def ring_def of_nat_diff)
  moreover have "buf_size b - (cw - cr) < 2 ^ 32" using \<open>buf_size b < 2 ^ 32\<close> by linarith
  ultimately show ?thesis by (simp only: unat_of_nat) simp
qed

text \<open>Two positions less than the size apart have different places.\<close>

lemma mod_neq:
  "i < j \<Longrightarrow> j < i + m \<Longrightarrow> i mod m \<noteq> j mod (m :: nat)"
proof
  assume ij: "i < j" "j < i + m" and "i mod m = j mod m"
  then have "m dvd j - i" by (metis mod_eq_dvd_iff_nat less_imp_le_nat)
  with ij show False using dvd_imp_le [of m "j - i"] by linarith
qed

lemma mod_add_place:
  "k < m - i mod m \<Longrightarrow> (i + k) mod m = i mod m + (k :: nat)"
proof -
  assume "k < m - i mod m"
  then have "(i mod m + k) mod m = i mod m + k" by simp
  then show ?thesis by (simp add: mod_simps)
qed

lemma ring_write_words:
  assumes "ring b H r cr cw" and "length ws \<le> buf_size b - write_index b"
    and "length H + length ws \<le> cr + buf_size b"
  shows "\<exists>b'. write_words ws b = Inr b' \<and> ring b' (H @ ws) r cr cw
     \<and> buf_size b' = buf_size b \<and> required_count b' = required_count b
     \<and> total_written b' = total_written b \<and> total_read b' = total_read b
     \<and> read_index b' = read_index b"
proof -
  let ?m = "buf_size b" and ?n = "length H"
  let ?s = "put_at (samples b) (write_index b) ws"
  have m: "0 < ?m" "length (samples b) = ?m" and wi: "write_index b = ?n mod ?m"
    and cr: "cr \<le> ?n"
    using assms(1) by (auto simp: ring_def)
  have fits: "write_index b + length ws \<le> length (samples b)"
    using assms(2) m wi mod_less_divisor [OF m(1), of ?n] by linarith
  have new: "?s ! ((?n + k) mod ?m) = ws ! k" if "k < length ws" for k
  proof -
    have "(?n + k) mod ?m = write_index b + k"
      using that assms(2) wi by (simp add: mod_add_place)
    then show ?thesis using that fits by (simp add: nth_put_at)
  qed
  have old: "?s ! (i mod ?m) = H ! i" if "cr \<le> i" "i < ?n" for i
  proof -
    have "i mod ?m \<noteq> write_index b + k" if "k < length ws" for k
    proof -
      have "(?n + k) mod ?m = write_index b + k"
        using that assms(2) wi by (simp add: mod_add_place)
      moreover have "i mod ?m \<noteq> (?n + k) mod ?m"
        using that \<open>cr \<le> i\<close> \<open>i < ?n\<close> assms(3) by (intro mod_neq) auto
      ultimately show ?thesis by simp
    qed
    from this [of "i mod ?m - write_index b"]
    have "\<not> (write_index b \<le> i mod ?m \<and> i mod ?m < write_index b + length ws)"
      by (auto simp: less_diff_conv2 add.commute)
    moreover have "samples b ! (i mod ?m) = H ! i"
      using that assms(1) by (simp add: ring_def)
    ultimately show ?thesis
      using fits m by (auto simp: nth_put_at)
  qed
  have "?s ! (i mod ?m) = (H @ ws) ! i" if "cr \<le> i" "i < length (H @ ws)" for i
    using old [of i] new [of "i - ?n"] that by (cases "i < ?n") (auto simp: nth_append)
  moreover have "advance b (write_index b) (length ws) = length (H @ ws) mod ?m"
    using assms(2) m wi by (simp add: advance_mod)
  ultimately show ?thesis
    using assms fits by (simp add: write_words_def ring_def)
qed

lemma ring_read_words:
  assumes "ring b H r cr cw" and "k \<le> buf_size b - read_index b" and "r + k \<le> cw"
  shows "\<exists>b'. read_words k b = Inr (take k (drop r H), b') \<and> ring b' H (r + k) cr cw
     \<and> b' = b\<lparr>read_index := read_index b'\<rparr>"
proof -
  let ?m = "buf_size b"
  have m: "0 < ?m" "length (samples b) = ?m" and ri: "read_index b = r mod ?m"
    and le: "cr \<le> r" "cw \<le> length H"
    using assms(1) by (auto simp: ring_def)
  have fits: "read_index b + k \<le> length (samples b)"
    using assms(2) m ri mod_less_divisor [OF m(1), of r] by linarith
  have "take k (drop (read_index b) (samples b)) = take k (drop r H)"
  proof (rule nth_equalityI)
    show "length (take k (drop (read_index b) (samples b))) = length (take k (drop r H))"
      using fits assms(3) le by simp
    fix i assume "i < length (take k (drop (read_index b) (samples b)))"
    then have i: "i < k" by simp
    then have "(r + i) mod ?m = read_index b + i"
      using assms(2) ri by (simp add: mod_add_place)
    moreover have "samples b ! ((r + i) mod ?m) = H ! (r + i)"
      using assms(1,3) i le by (simp add: ring_def)
    ultimately show "take k (drop (read_index b) (samples b)) ! i = take k (drop r H) ! i"
      using i fits le assms(3) by simp
  qed
  moreover have "advance b (read_index b) k = (r + k) mod ?m"
    using assms(2) m ri by (simp add: advance_mod)
  ultimately show ?thesis
    using assms fits by (simp add: read_words_def ring_def)
qed

section \<open>The copy loops\<close>

lemma ring_write_chunk:
  assumes "ring b H r cr cw"
  shows "write_chunk n b \<le> n" and "write_chunk n b \<le> buf_size b - write_index b"
    and "0 < n \<Longrightarrow> 0 < write_chunk n b"
  using assms by (auto simp: ring_def write_chunk_def)

lemma ring_read_chunk:
  assumes "ring b H r cr cw"
  shows "read_chunk n b \<le> n" and "read_chunk n b \<le> buf_size b - read_index b"
    and "0 < n \<Longrightarrow> 0 < read_chunk n b"
  using assms by (auto simp: ring_def read_chunk_def)

lemma ring_write_loop:
  assumes "ring b H r cr cw" and "n \<le> length src" and "length H + n \<le> cr + buf_size b"
  shows "\<exists>b'. write_loop n src b = Some (Inr b') \<and> ring b' (H @ take n src) r cr cw
     \<and> buf_size b' = buf_size b \<and> required_count b' = required_count b
     \<and> total_written b' = total_written b \<and> total_read b' = total_read b
     \<and> read_index b' = read_index b"
  using assms
proof (induction n arbitrary: b H src rule: less_induct)
  case (less n)
  show ?case
  proof (cases "n = 0")
    case True
    then show ?thesis using less.prems by (simp add: write_loop.simps)
  next
    case False
    let ?k = "write_chunk n b"
    note k = ring_write_chunk [OF less.prems(1), of n]
    have "0 < ?k" using k(3) False by simp
    obtain b1 where b1: "write_words (take ?k src) b = Inr b1"
      "ring b1 (H @ take ?k src) r cr cw" "buf_size b1 = buf_size b"
      "required_count b1 = required_count b" "total_written b1 = total_written b"
      "total_read b1 = total_read b" "read_index b1 = read_index b"
      using ring_write_words [OF less.prems(1), of "take ?k src"] k less.prems by fastforce
    have "\<exists>b'. write_loop (n - ?k) (drop ?k src) b1 = Some (Inr b')
      \<and> ring b' ((H @ take ?k src) @ take (n - ?k) (drop ?k src)) r cr cw
      \<and> buf_size b' = buf_size b1 \<and> required_count b' = required_count b1
      \<and> total_written b' = total_written b1 \<and> total_read b' = total_read b1
      \<and> read_index b' = read_index b1"
      using less.prems b1 k \<open>0 < ?k\<close> False by (intro less.IH) auto
    moreover have "take ?k src @ take (n - ?k) (drop ?k src) = take n src"
      using k(1) by (metis take_add le_add_diff_inverse)
    ultimately show ?thesis
      using False b1 less.prems k by (auto simp: write_loop.simps [of n])
  qed
qed

lemma ring_read_loop:
  assumes "ring b H r cr cw" and "r + n \<le> cw"
  shows "\<exists>b'. read_loop n dst b = Some (Inr (dst @ take n (drop r H), b'))
     \<and> ring b' H (r + n) cr cw \<and> b' = b\<lparr>read_index := read_index b'\<rparr>"
  using assms
proof (induction n arbitrary: b r dst rule: less_induct)
  case (less n)
  show ?case
  proof (cases "n = 0")
    case True
    then show ?thesis using less.prems by (simp add: read_loop.simps)
  next
    case False
    let ?k = "read_chunk n b"
    note k = ring_read_chunk [OF less.prems(1), of n]
    have "0 < ?k" using k(3) False by simp
    obtain b1 where b1: "read_words ?k b = Inr (take ?k (drop r H), b1)"
      "ring b1 H (r + ?k) cr cw" "b1 = b\<lparr>read_index := read_index b1\<rparr>"
      using ring_read_words [OF less.prems(1), of ?k] k less.prems by fastforce
    have "\<exists>b'. read_loop (n - ?k) (dst @ take ?k (drop r H)) b1
        = Some (Inr ((dst @ take ?k (drop r H)) @ take (n - ?k) (drop (r + ?k) H), b'))
      \<and> ring b' H (r + ?k + (n - ?k)) cr cw \<and> b' = b1\<lparr>read_index := read_index b'\<rparr>"
      using less.prems b1(2) k \<open>0 < ?k\<close> False by (intro less.IH) auto
    then obtain b' where b': "read_loop (n - ?k) (dst @ take ?k (drop r H)) b1
        = Some (Inr ((dst @ take ?k (drop r H)) @ take (n - ?k) (drop (r + ?k) H), b'))"
      "ring b' H (r + ?k + (n - ?k)) cr cw" "b' = b1\<lparr>read_index := read_index b'\<rparr>"
      by blast
    have "take ?k (drop r H) @ take (n - ?k) (drop (r + ?k) H) = take n (drop r H)"
      using k(1) by (metis take_add le_add_diff_inverse drop_drop add.commute)
    moreover have "b' = b\<lparr>read_index := read_index b'\<rparr>"
      using b'(3) b1(3) by (metis sample_buffer.surjective sample_buffer.update_convs(4))
    ultimately show ?thesis
      using False b1(1) b'(1,2) k by (auto simp: read_loop.simps [of n])
  qed
qed

text \<open>The counters move when a copy is complete.\<close>

lemma ring_commit_write:
  "ring b H r cr cw \<Longrightarrow> length H = cw + n \<Longrightarrow> d = of_nat n \<Longrightarrow>
     ring (b\<lparr>total_written := total_written b + d\<rparr>) H r cr (length H)"
  by (simp add: ring_def)

lemma ring_commit_read:
  "ring b H r cr cw \<Longrightarrow> r = cr + n \<Longrightarrow> d = of_nat n \<Longrightarrow>
     ring (b\<lparr>total_read := total_read b + d\<rparr>) H r r cw"
  by (simp add: ring_def)

lemma ring_required [simp]:
  "ring (b\<lparr>required_count := n\<rparr>) H r cr cw = ring b H r cr cw"
  by (simp add: ring_def)

lemma ring_new:
  "0 < n \<Longrightarrow> n < 2 ^ 32 \<Longrightarrow> n \<le> length fresh \<Longrightarrow> ring (new_buffer fresh n) [] 0 0 0"
  by (simp add: ring_def new_buffer_def)

section \<open>Pipes\<close>

text \<open>\<open>d\<close> are the words of \<open>H\<close> from position \<open>r\<close> on.\<close>

definition taken_at :: "sample list \<Rightarrow> nat \<Rightarrow> sample list \<Rightarrow> bool" where
  "taken_at H r d \<longleftrightarrow> r + length d \<le> length H \<and> d = take (length d) (drop r H)"

lemma taken_at_Nil [simp]: "taken_at H r [] \<longleftrightarrow> r \<le> length H"
  by (simp add: taken_at_def)

lemma taken_at_take: "r + n \<le> length H \<Longrightarrow> taken_at H r (take n (drop r H))"
  by (simp add: taken_at_def)

lemma taken_at_append:
  assumes "taken_at H r d" and "taken_at H (r + length d) e"
  shows "taken_at H r (d @ e)"
proof -
  have "take (length d + length e) (drop r H)
      = take (length d) (drop r H) @ take (length e) (drop (r + length d) H)"
    by (simp only: take_add drop_drop add.commute [of r])
  also have "\<dots> = d @ e" using assms unfolding taken_at_def by metis
  finally have "d @ e = take (length (d @ e)) (drop r H)" by (simp only: length_append)
  moreover have "r + length (d @ e) \<le> length H" using assms(2) by (simp add: taken_at_def)
  ultimately show ?thesis unfolding taken_at_def by blast
qed

lemma taken_at_more:
  assumes "taken_at H r d"
  shows "taken_at (H @ x) r d"
proof -
  have "take (length d) (drop r (H @ x)) = take (length d) (drop r H)"
    using assms by (simp add: taken_at_def)
  then show ?thesis using assms unfolding taken_at_def by (metis le_trans length_append le_add1)
qed

lemma taken_at_bound: "taken_at H r d \<Longrightarrow> r + length d \<le> length H"
  by (simp add: taken_at_def)

lemma taken_at_prefix: "taken_at H 0 d \<Longrightarrow> prefix d H"
  by (metis taken_at_def drop0 take_is_prefix)

text \<open>
  A driver as a pipe of samples: events that offer blocks of words to it and that return words
  taken out of it. \<open>inv s H r\<close> says that \<open>H\<close> are the words accepted and the first \<open>r\<close> of them
  were returned. Blocks are accepted whole or not at all.
\<close>

primrec pipe_run ::
  "('e \<Rightarrow> 's \<Rightarrow> (sample list \<times> 's) res option) \<Rightarrow> 'e list \<Rightarrow> 's \<Rightarrow> (sample list \<times> 's) res option"
  where
  "pipe_run step [] s = Some (Inr ([], s))"
| "pipe_run step (e # es) s =
     lbind (step e s) (\<lambda>(d, s1). lbind (pipe_run step es s1) (\<lambda>(d2, s2). Some (Inr (d @ d2, s2))))"

locale sample_pipe =
  fixes inv :: "'s \<Rightarrow> sample list \<Rightarrow> nat \<Rightarrow> bool"
    and step :: "'e \<Rightarrow> 's \<Rightarrow> (sample list \<times> 's) res option"
    and offers :: "'e \<Rightarrow> sample list list"
    and ok :: "'e \<Rightarrow> bool"
  assumes bound: "inv s H r \<Longrightarrow> r \<le> length H"
    and step: "inv s H r \<Longrightarrow> ok e \<Longrightarrow>
      \<exists>a d s'. subseq a (offers e) \<and> step e s = Some (Inr (d, s'))
        \<and> taken_at (H @ concat a) r d \<and> inv s' (H @ concat a) (r + length d)"
begin

lemma run:
  assumes "inv s H r" and "list_all ok es"
  shows "\<exists>a d s'. subseq a (concat (map offers es)) \<and> pipe_run step es s = Some (Inr (d, s'))
    \<and> taken_at (H @ concat a) r d \<and> inv s' (H @ concat a) (r + length d)"
  using assms
proof (induction es arbitrary: s H r)
  case Nil
  then show ?case
    using bound by (intro exI [of _ "[]"] exI [of _ s]) simp
next
  case (Cons e es)
  then obtain a d s1 where e: "subseq a (offers e)" "step e s = Some (Inr (d, s1))"
    "taken_at (H @ concat a) r d" "inv s1 (H @ concat a) (r + length d)"
    using step [of s H r e] by auto
  obtain a2 d2 s2 where es: "subseq a2 (concat (map offers es))"
    "pipe_run step es s1 = Some (Inr (d2, s2))"
    "taken_at ((H @ concat a) @ concat a2) (r + length d) d2"
    "inv s2 ((H @ concat a) @ concat a2) (r + length d + length d2)"
    using Cons.IH [OF e(4)] Cons.prems(2) by auto
  have "taken_at ((H @ concat a) @ concat a2) r (d @ d2)"
    using taken_at_append [OF taken_at_more [OF e(3)] es(3)] .
  moreover have "subseq (a @ a2) (concat (map offers (e # es)))"
    using e(1) es(1) by (simp add: list_emb_append_mono)
  moreover have "pipe_run step (e # es) s = Some (Inr (d @ d2, s2))"
    using e(2) es(2) by simp
  ultimately show ?case
    using es(4) by (intro exI [of _ "a @ a2"] exI [of _ "d @ d2"] exI [of _ s2]) (simp add: add.assoc)
qed

end

end
