(* ===== verification/Mic_Array.thy ===== *)
theory Mic_Array
  imports Sample_Ring "HOL-Library.Sublist"
begin

text \<open>
  The local half of the microphone array driver
  (modules/drivers/mic_array/src/rtos_mic_array.c): the interrupt that puts the decimator's
  frames into a ring buffer and the call that takes samples out of it, as functions and, as
  they run on different cores, as a step relation that interleaves their accesses.

  The number of microphones and the samples of a frame are configured when the driver is
  built, and the functions that receive a frame from the decimator belong to lib_mic_array:
  both are parameters.
\<close>

record mic_config =
  SAMPLES_PER_FRAME :: nat
  MIC_COUNT :: nat

record 'f mic_lib =
  ma_frame_rx :: "'f \<Rightarrow> nat \<Rightarrow> nat \<Rightarrow> sample list"
  ma_frame_rx_transpose :: "'f \<Rightarrow> nat \<Rightarrow> nat \<Rightarrow> sample list"

datatype rtos_mic_array_format =
  RTOS_MIC_ARRAY_CHANNEL_SAMPLE | RTOS_MIC_ARRAY_SAMPLE_CHANNEL | RTOS_MIC_ARRAY_FORMAT_COUNT

text \<open>\<open>recv_sem\<close> is a semaphore of maximal count 1.\<close>

record rtos_mic_array =
  format :: rtos_mic_array_format
  recv_sem :: bool
  recv_blocked :: bool
  recv_buffer :: sample_buffer
  isr_decoupling_buf :: "sample list"

abbreviation frame_words :: "mic_config \<Rightarrow> nat" where
  "frame_words cfg \<equiv> SAMPLES_PER_FRAME cfg * MIC_COUNT cfg"

section \<open>The interrupt\<close>

definition isr_signal :: "rtos_mic_array \<Rightarrow> rtos_mic_array" where
  "isr_signal ctx =
     (let b = recv_buffer ctx in
      if 0 < required_count b \<and> required_count b \<le> words_available b
      then ctx\<lparr>recv_buffer := b\<lparr>required_count := 0\<rparr>, recv_sem := True\<rparr>
      else ctx)"

definition isr_store ::
  "mic_config \<Rightarrow> u32 \<Rightarrow> sample list \<Rightarrow> rtos_mic_array \<Rightarrow> rtos_mic_array res option" where
  "isr_store cfg free block ctx =
     (let ctx1 = ctx\<lparr>isr_decoupling_buf := block\<rparr> in
      if frame_words cfg \<le> unat free
      then lbind (write_loop (frame_words cfg) (isr_decoupling_buf ctx1) (recv_buffer ctx1))
             (\<lambda>b. Some (Inr (isr_signal (ctx1\<lparr>recv_buffer :=
                b\<lparr>total_written := total_written b + of_nat (frame_words cfg)\<rparr>\<rparr>))))
      else Some (Inr (isr_signal ctx1)))"

definition rtos_mic_array_isr ::
  "mic_config \<Rightarrow> 'f mic_lib \<Rightarrow> 'f \<Rightarrow> rtos_mic_array \<Rightarrow> rtos_mic_array res option" where
  "rtos_mic_array_isr cfg lib f ctx =
     (let free = words_free (recv_buffer ctx) in
      case format ctx of
        RTOS_MIC_ARRAY_CHANNEL_SAMPLE \<Rightarrow>
          isr_store cfg free (ma_frame_rx lib f (SAMPLES_PER_FRAME cfg) (MIC_COUNT cfg)) ctx
      | RTOS_MIC_ARRAY_SAMPLE_CHANNEL \<Rightarrow>
          isr_store cfg free
            (ma_frame_rx_transpose lib f (MIC_COUNT cfg) (SAMPLES_PER_FRAME cfg)) ctx
      | _ \<Rightarrow> Some (Inl Assert_failed))"

section \<open>Receiving samples\<close>

definition rx_check :: "u32 \<Rightarrow> rtos_mic_array \<Rightarrow> rtos_mic_array" where
  "rx_check n ctx =
     (if \<not> recv_blocked ctx \<and> words_available (recv_buffer ctx) < n
      then ctx\<lparr>recv_buffer := (recv_buffer ctx)\<lparr>required_count := n\<rparr>, recv_blocked := True\<rparr>
      else ctx)"

text \<open>
  \<open>rtos_osal_semaphore_get\<close> with a timeout, during which the interrupts of \<open>arrivals\<close> come if
  the task has to wait for them.
\<close>

fun rx_wait ::
  "mic_config \<Rightarrow> 'f mic_lib \<Rightarrow> 'f list \<Rightarrow> rtos_mic_array \<Rightarrow> rtos_mic_array res option" where
  "rx_wait cfg lib arrivals ctx =
     (if recv_sem ctx then Some (Inr (ctx\<lparr>recv_sem := False, recv_blocked := False\<rparr>))
      else case arrivals of
             [] \<Rightarrow> Some (Inr ctx)
           | f # fs \<Rightarrow> lbind (rtos_mic_array_isr cfg lib f ctx) (rx_wait cfg lib fs))"

declare rx_wait.simps [simp del]

text \<open>The frames received, the words copied into the caller's buffer, and the driver.\<close>

definition mic_array_local_rx ::
  "mic_config \<Rightarrow> 'f mic_lib \<Rightarrow> u32 \<Rightarrow> 'f list \<Rightarrow> rtos_mic_array
     \<Rightarrow> (u32 \<times> sample list \<times> rtos_mic_array) res option" where
  "mic_array_local_rx cfg lib frame_count arrivals ctx =
     (let n = frame_count * of_nat (MIC_COUNT cfg) in
      if format ctx = RTOS_MIC_ARRAY_CHANNEL_SAMPLE \<and> unat frame_count \<noteq> SAMPLES_PER_FRAME cfg
      then Some (Inl Assert_failed)
      else if \<not> unat n \<le> buf_size (recv_buffer ctx) then Some (Inl Assert_failed)
      else
        let ctx1 = rx_check n ctx in
        lbind (if recv_blocked ctx1 then rx_wait cfg lib arrivals ctx1 else Some (Inr ctx1))
          (\<lambda>ctx2.
             if recv_blocked ctx2 then Some (Inr (0, [], ctx2))
             else lbind (read_loop (unat n) [] (recv_buffer ctx2)) (\<lambda>(ws, b).
               Some (Inr (frame_count, ws,
                 ctx2\<lparr>recv_buffer := b\<lparr>total_read := total_read b + n\<rparr>\<rparr>)))))"

definition rtos_mic_array_start ::
  "mic_config \<Rightarrow> sample list \<Rightarrow> u32 \<Rightarrow> rtos_mic_array \<Rightarrow> rtos_mic_array res" where
  "rtos_mic_array_start cfg fresh buffer_size ctx =
     xassert (SAMPLES_PER_FRAME cfg \<le> unat buffer_size)
       (Inr (ctx\<lparr>recv_buffer := new_buffer fresh (unat (buffer_size * of_nat (MIC_COUNT cfg))),
                 recv_sem := False\<rparr>))"

definition rtos_mic_array_init :: "rtos_mic_array_format \<Rightarrow> rtos_mic_array \<Rightarrow> rtos_mic_array res"
  where
  "rtos_mic_array_init fmt ctx =
     xassert (fmt \<noteq> RTOS_MIC_ARRAY_FORMAT_COUNT) (Inr (ctx\<lparr>format := fmt\<rparr>))"

section \<open>What a call and an interrupt do to the words\<close>

definition lib_ok :: "mic_config \<Rightarrow> 'f mic_lib \<Rightarrow> bool" where
  "lib_ok cfg lib \<longleftrightarrow> (\<forall>f. length (ma_frame_rx lib f (SAMPLES_PER_FRAME cfg) (MIC_COUNT cfg))
       = frame_words cfg
     \<and> length (ma_frame_rx_transpose lib f (MIC_COUNT cfg) (SAMPLES_PER_FRAME cfg))
       = frame_words cfg)"

definition frame_block ::
  "mic_config \<Rightarrow> 'f mic_lib \<Rightarrow> rtos_mic_array_format \<Rightarrow> 'f \<Rightarrow> sample list" where
  "frame_block cfg lib fmt f =
     (if fmt = RTOS_MIC_ARRAY_CHANNEL_SAMPLE
      then ma_frame_rx lib f (SAMPLES_PER_FRAME cfg) (MIC_COUNT cfg)
      else ma_frame_rx_transpose lib f (MIC_COUNT cfg) (SAMPLES_PER_FRAME cfg))"

text \<open>\<open>H\<close> are the words accepted so far, \<open>r\<close> the number of them taken out.\<close>

definition holds :: "rtos_mic_array \<Rightarrow> sample list \<Rightarrow> nat \<Rightarrow> bool" where
  "holds ctx H r \<longleftrightarrow> ring (recv_buffer ctx) H r r (length H)
     \<and> format ctx \<noteq> RTOS_MIC_ARRAY_FORMAT_COUNT"

lemma length_frame_block:
  "lib_ok cfg lib \<Longrightarrow> length (frame_block cfg lib fmt f) = frame_words cfg"
  by (simp add: lib_ok_def frame_block_def)

lemma isr_is_store:
  "holds ctx H r \<Longrightarrow> rtos_mic_array_isr cfg lib f ctx
     = isr_store cfg (words_free (recv_buffer ctx)) (frame_block cfg lib (format ctx) f) ctx"
  by (cases "format ctx") (auto simp: rtos_mic_array_isr_def frame_block_def holds_def)

lemma isr_signal_holds [simp]: "holds (isr_signal ctx) H r = holds ctx H r"
  by (simp add: isr_signal_def holds_def Let_def)

lemma isr_signal_simps [simp]:
  "format (isr_signal ctx) = format ctx" "recv_blocked (isr_signal ctx) = recv_blocked ctx"
  "buf_size (recv_buffer (isr_signal ctx)) = buf_size (recv_buffer ctx)"
  by (simp_all add: isr_signal_def Let_def)

text \<open>An interrupt takes the whole frame if there is room for it, and drops it otherwise.\<close>

lemma isr_stores:
  fixes f :: 'f
  assumes "holds ctx H r" and "lib_ok cfg lib"
  defines "H' \<equiv> (if length H - r + frame_words cfg \<le> buf_size (recv_buffer ctx)
                 then H @ frame_block cfg lib (format ctx) f else H)"
  shows "\<exists>ctx1. rtos_mic_array_isr cfg lib f ctx = Some (Inr (isr_signal ctx1)) \<and> holds ctx1 H' r
     \<and> format ctx1 = format ctx \<and> recv_blocked ctx1 = recv_blocked ctx
     \<and> recv_sem ctx1 = recv_sem ctx \<and> buf_size (recv_buffer ctx1) = buf_size (recv_buffer ctx)
     \<and> required_count (recv_buffer ctx1) = required_count (recv_buffer ctx)"
proof -
  let ?b = "recv_buffer ctx" and ?F = "frame_words cfg"
  let ?blk = "frame_block cfg lib (format ctx) f"
  have ring: "ring ?b H r r (length H)" and le: "r \<le> length H" "length H \<le> r + buf_size ?b"
    using assms(1) by (auto simp: holds_def ring_def)
  have free: "unat (words_free ?b) = buf_size ?b - (length H - r)"
    by (rule ring_free [OF ring])
  show ?thesis
  proof (cases "length H - r + ?F \<le> buf_size ?b")
    case True
    with free have fits: "?F \<le> unat (words_free ?b)" by simp
    have "length H + ?F \<le> r + buf_size ?b" using True le by linarith
    with ring_write_loop [OF ring, of ?F ?blk] length_frame_block [OF assms(2)]
    obtain b' where b': "write_loop ?F ?blk ?b = Some (Inr b')"
      "ring b' (H @ ?blk) r r (length H)" "buf_size b' = buf_size ?b"
      "required_count b' = required_count ?b" by fastforce
    have "ring (b'\<lparr>total_written := total_written b' + of_nat ?F\<rparr>) (H @ ?blk) r r
        (length (H @ ?blk))"
      using length_frame_block [OF assms(2)] by (intro ring_commit_write [OF b'(2)]) (simp_all del: of_nat_mult)
    then show ?thesis
      using assms(1) True fits b'
      by (auto simp: isr_is_store [OF assms(1)] isr_store_def holds_def H'_def
          intro!: exI [of _ "ctx\<lparr>isr_decoupling_buf := ?blk, recv_buffer :=
            b'\<lparr>total_written := total_written b' + of_nat ?F\<rparr>\<rparr>"])
  next
    case False
    with free have "\<not> ?F \<le> unat (words_free ?b)" using le by linarith
    with False assms(1) show ?thesis
      by (auto simp: isr_is_store [OF assms(1)] isr_store_def holds_def H'_def
          intro!: exI [of _ "ctx\<lparr>isr_decoupling_buf := ?blk\<rparr>"])
  qed
qed

text \<open>Between calls that did not time out nobody is waiting.\<close>

definition idle :: "rtos_mic_array \<Rightarrow> bool" where
  "idle ctx \<longleftrightarrow> \<not> recv_blocked ctx \<and> \<not> recv_sem ctx \<and> required_count (recv_buffer ctx) = 0"

definition waiting :: "u32 \<Rightarrow> rtos_mic_array \<Rightarrow> bool" where
  "waiting n ctx \<longleftrightarrow> recv_blocked ctx \<and> \<not> recv_sem ctx \<and> required_count (recv_buffer ctx) = n \<and> 0 < n"

lemma holds_available:
  "holds ctx H r \<Longrightarrow> unat (words_available (recv_buffer ctx)) = length H - r"
  unfolding holds_def by (rule ring_available) blast

text \<open>The signal comes with the frame that makes enough words available.\<close>

lemma isr_signal_waiting:
  assumes "holds ctx H r" and "waiting n ctx"
  shows "isr_signal ctx =
    (if unat n \<le> length H - r
     then ctx\<lparr>recv_buffer := (recv_buffer ctx)\<lparr>required_count := 0\<rparr>, recv_sem := True\<rparr>
     else ctx)"
  using assms(2) holds_available [OF assms(1)]
  by (auto simp: isr_signal_def waiting_def word_le_nat_alt)

lemma rx_wait_served:
  assumes "holds ctx H r" and "waiting n ctx" and "lib_ok cfg lib"
    and "length H - r < unat n" and "unat n + frame_words cfg \<le> buf_size (recv_buffer ctx) + 1"
    and "unat n \<le> length H - r + length arrivals * frame_words cfg"
  shows "\<exists>m ctx'. m \<le> length arrivals \<and> rx_wait cfg lib arrivals ctx = Some (Inr ctx')
    \<and> holds ctx' (H @ concat (map (frame_block cfg lib (format ctx)) (take m arrivals))) r
    \<and> unat n \<le> length H - r + m * frame_words cfg \<and> idle ctx' \<and> format ctx' = format ctx
    \<and> buf_size (recv_buffer ctx') = buf_size (recv_buffer ctx)"
  using assms
proof (induction arrivals arbitrary: ctx H)
  case Nil
  then show ?case by simp
next
  case (Cons f fs)
  let ?blk = "frame_block cfg lib (format ctx)" and ?F = "frame_words cfg"
  have r: "r \<le> length H" using Cons.prems(1) by (auto simp: holds_def ring_def)
  have room: "length H - r + ?F \<le> buf_size (recv_buffer ctx)" using Cons.prems(4,5) by linarith
  obtain ctx1 where ctx1: "rtos_mic_array_isr cfg lib f ctx = Some (Inr (isr_signal ctx1))"
    "holds ctx1 (H @ ?blk f) r" "format ctx1 = format ctx" "recv_blocked ctx1 = recv_blocked ctx"
    "recv_sem ctx1 = recv_sem ctx" "buf_size (recv_buffer ctx1) = buf_size (recv_buffer ctx)"
    "required_count (recv_buffer ctx1) = required_count (recv_buffer ctx)"
    using isr_stores [OF Cons.prems(1,3), of f] room by auto
  have wait1: "waiting n ctx1" using Cons.prems(2) ctx1 by (simp add: waiting_def)
  have sem: "\<not> recv_sem ctx" using Cons.prems(2) by (simp add: waiting_def)
  have len: "length (H @ ?blk f) - r = length H - r + ?F"
    using r by (simp add: length_frame_block [OF Cons.prems(3)])
  show ?case
  proof (cases "unat n \<le> length H - r + ?F")
    case True
    then have sig: "isr_signal ctx1
        = ctx1\<lparr>recv_buffer := (recv_buffer ctx1)\<lparr>required_count := 0\<rparr>, recv_sem := True\<rparr>"
      using isr_signal_waiting [OF ctx1(2) wait1] len by simp
    show ?thesis
      using True ctx1 sem
      by (intro exI [of _ 1] exI [of _ "(isr_signal ctx1)\<lparr>recv_sem := False, recv_blocked := False\<rparr>"])
        (simp add: rx_wait.simps [of _ _ "f # fs"] rx_wait.simps [of _ _ fs] sig holds_def idle_def)
  next
    case False
    then have sig: "isr_signal ctx1 = ctx1"
      using isr_signal_waiting [OF ctx1(2) wait1] len by simp
    have "\<exists>m ctx'. m \<le> length fs \<and> rx_wait cfg lib fs ctx1 = Some (Inr ctx')
      \<and> holds ctx' ((H @ ?blk f) @ concat (map (frame_block cfg lib (format ctx1)) (take m fs))) r
      \<and> unat n \<le> length (H @ ?blk f) - r + m * ?F \<and> idle ctx' \<and> format ctx' = format ctx1
      \<and> buf_size (recv_buffer ctx') = buf_size (recv_buffer ctx1)"
      using False Cons.prems ctx1(2,6) wait1 len by (intro Cons.IH) auto
    then obtain m ctx' where m: "m \<le> length fs" "rx_wait cfg lib fs ctx1 = Some (Inr ctx')"
      "holds ctx' ((H @ ?blk f) @ concat (map (frame_block cfg lib (format ctx1)) (take m fs))) r"
      "unat n \<le> length (H @ ?blk f) - r + m * ?F" "idle ctx'" "format ctx' = format ctx1"
      "buf_size (recv_buffer ctx') = buf_size (recv_buffer ctx1)"
      by blast
    then show ?thesis
      using ctx1(1,3,6) sem sig len
      by (intro exI [of _ "Suc m"] exI [of _ ctx']) (simp add: rx_wait.simps [of _ _ "f # fs"])
  qed
qed

lemma rx_takes:
  assumes "holds ctx H r" and "r + unat n \<le> length H"
  shows "\<exists>b. read_loop (unat n) [] (recv_buffer ctx) = Some (Inr (take (unat n) (drop r H), b))
    \<and> holds (ctx\<lparr>recv_buffer := b\<lparr>total_read := total_read b + n\<rparr>\<rparr>) H (r + unat n)
    \<and> required_count b = required_count (recv_buffer ctx)
    \<and> buf_size b = buf_size (recv_buffer ctx)"
proof -
  have "ring (recv_buffer ctx) H r r (length H)" using assms(1) by (simp add: holds_def)
  from ring_read_loop [OF this assms(2)]
  obtain b where b: "read_loop (unat n) [] (recv_buffer ctx) = Some (Inr ([] @ take (unat n) (drop r H), b))"
    "ring b H (r + unat n) r (length H)" "b = (recv_buffer ctx)\<lparr>read_index := read_index b\<rparr>"
    by blast
  have "ring (b\<lparr>total_read := total_read b + n\<rparr>) H (r + unat n) (r + unat n) (length H)"
    by (rule ring_commit_read [OF b(2) refl]) simp
  moreover have "required_count b = required_count (recv_buffer ctx)"
    "buf_size b = buf_size (recv_buffer ctx)"
    by (subst b(3), simp)+
  ultimately show ?thesis
    using b(1) assms(1) by (auto simp: holds_def)
qed

text \<open>
  A call for samples that finds enough of them, or for which enough frames arrive while it
  waits, returns all the frames asked for, in the order the microphones delivered them, and
  leaves the driver as if it had not waited: at most as many interrupts are needed as frames
  cover the missing words, provided the words asked for leave room for a frame.
\<close>

theorem mic_array_rx_served:
  assumes "holds ctx H r" and "idle ctx" and "lib_ok cfg lib"
    and "format ctx = RTOS_MIC_ARRAY_CHANNEL_SAMPLE \<longrightarrow> unat fc = SAMPLES_PER_FRAME cfg"
    and "n = fc * of_nat (MIC_COUNT cfg)" and "unat n \<le> buf_size (recv_buffer ctx)"
    and "unat n \<le> length H - r
      \<or> unat n + frame_words cfg \<le> buf_size (recv_buffer ctx) + 1
        \<and> unat n \<le> length H - r + length arrivals * frame_words cfg"
  shows "\<exists>m ctx' H'. m \<le> length arrivals
    \<and> H' = H @ concat (map (frame_block cfg lib (format ctx)) (take m arrivals))
    \<and> mic_array_local_rx cfg lib fc arrivals ctx = Some (Inr (fc, take (unat n) (drop r H'), ctx'))
    \<and> r + unat n \<le> length H' \<and> holds ctx' H' (r + unat n) \<and> idle ctx'"
proof -
  have r: "r \<le> length H" using assms(1) by (auto simp: holds_def ring_def)
  note av = holds_available [OF assms(1)]
  have enter: "mic_array_local_rx cfg lib fc arrivals ctx =
    lbind (if recv_blocked (rx_check n ctx) then rx_wait cfg lib arrivals (rx_check n ctx)
           else Some (Inr (rx_check n ctx)))
      (\<lambda>ctx2. if recv_blocked ctx2 then Some (Inr (0, [], ctx2))
        else lbind (read_loop (unat n) [] (recv_buffer ctx2)) (\<lambda>(ws, b). Some (Inr (fc, ws,
            ctx2\<lparr>recv_buffer := b\<lparr>total_read := total_read b + n\<rparr>\<rparr>))))"
    using assms(4,5,6) by (auto simp: mic_array_local_rx_def Let_def)
  show ?thesis
  proof (cases "unat n \<le> length H - r")
    case True
    then have "rx_check n ctx = ctx" using av by (simp add: rx_check_def word_less_nat_alt)
    moreover have "r + unat n \<le> length H" using True r by linarith
    ultimately show ?thesis
      using rx_takes [OF assms(1), of n] enter assms(2)
      by (intro exI [of _ 0]) (fastforce simp: idle_def)
  next
    case False
    define ctx1 where "ctx1 = ctx\<lparr>recv_buffer := (recv_buffer ctx)\<lparr>required_count := n\<rparr>,
      recv_blocked := True\<rparr>"
    have c1: "rx_check n ctx = ctx1"
      using False av assms(2) by (simp add: rx_check_def word_less_nat_alt ctx1_def idle_def)
    have h1: "holds ctx1 H r" "waiting n ctx1" "recv_blocked ctx1"
      "buf_size (recv_buffer ctx1) = buf_size (recv_buffer ctx)" "format ctx1 = format ctx"
      using assms(1,2) False
      by (auto simp: holds_def waiting_def ctx1_def idle_def word_less_nat_alt)
    have less: "length H - r < unat n" using False by simp
    obtain m ctx2 where m: "m \<le> length arrivals" "rx_wait cfg lib arrivals ctx1 = Some (Inr ctx2)"
      "holds ctx2 (H @ concat (map (frame_block cfg lib (format ctx)) (take m arrivals))) r"
      "unat n \<le> length H - r + m * frame_words cfg" "idle ctx2"
      using rx_wait_served [OF h1(1,2) assms(3) less, of arrivals] assms(7) False h1(4,5) by auto
    let ?H = "H @ concat (map (frame_block cfg lib (format ctx)) (take m arrivals))"
    have "length (concat (map (frame_block cfg lib (format ctx)) (take m arrivals)))
        = m * frame_words cfg"
      using m(1) by (simp add: length_concat length_frame_block [OF assms(3)] comp_def sum_list_triv)
    then have "r + unat n \<le> length ?H" using m(4) r by simp
    then show ?thesis
      using rx_takes [OF m(3), of n] enter c1 h1(3) m
      by (intro exI [of _ m]) (fastforce simp: idle_def)
  qed
qed

text \<open>A receiver that waits for words for which no frame leaves room.\<close>

lemma rx_wait_starved:
  assumes "holds ctx H r" and "waiting n ctx" and "lib_ok cfg lib"
    and "length H - r < unat n" and "buf_size (recv_buffer ctx) < length H - r + frame_words cfg"
  shows "\<exists>ctx'. rx_wait cfg lib arrivals ctx = Some (Inr ctx') \<and> recv_blocked ctx'"
  using assms
proof (induction arrivals arbitrary: ctx)
  case Nil
  then show ?case by (simp add: rx_wait.simps waiting_def)
next
  case (Cons f fs)
  obtain ctx1 where ctx1: "rtos_mic_array_isr cfg lib f ctx = Some (Inr (isr_signal ctx1))"
    "holds ctx1 H r" "recv_blocked ctx1 = recv_blocked ctx"
    "recv_sem ctx1 = recv_sem ctx" "buf_size (recv_buffer ctx1) = buf_size (recv_buffer ctx)"
    "required_count (recv_buffer ctx1) = required_count (recv_buffer ctx)"
    using isr_stores [OF Cons.prems(1,3), of f] Cons.prems(5) by auto
  have w: "waiting n ctx1" using Cons.prems(2) ctx1 by (simp add: waiting_def)
  have "isr_signal ctx1 = ctx1"
    using isr_signal_waiting [OF ctx1(2) w] Cons.prems(4) by simp
  moreover have "\<exists>ctx'. rx_wait cfg lib fs ctx1 = Some (Inr ctx') \<and> recv_blocked ctx'"
    using Cons.prems(4,5) ctx1(5) by (intro Cons.IH [OF ctx1(2) w Cons.prems(3)]) simp_all
  ultimately show ?case
    using ctx1(1) Cons.prems(2) by (simp add: rx_wait.simps [of _ _ "f # fs"] waiting_def)
qed

lemma rx_wait_starts_starved:
  assumes "holds ctx [] 0" and "waiting n ctx" and "lib_ok cfg lib"
    and "frame_words cfg < unat n" and "frame_words cfg \<le> buf_size (recv_buffer ctx)"
    and "buf_size (recv_buffer ctx) < frame_words cfg + frame_words cfg"
  shows "\<exists>ctx'. rx_wait cfg lib arrivals ctx = Some (Inr ctx') \<and> recv_blocked ctx'"
proof (cases arrivals)
  case Nil
  then show ?thesis using assms(2) by (simp add: rx_wait.simps waiting_def)
next
  case (Cons f fs)
  let ?blk = "frame_block cfg lib (format ctx) f"
  obtain ctx1 where ctx1: "rtos_mic_array_isr cfg lib f ctx = Some (Inr (isr_signal ctx1))"
    "holds ctx1 ?blk 0" "recv_blocked ctx1 = recv_blocked ctx"
    "recv_sem ctx1 = recv_sem ctx" "buf_size (recv_buffer ctx1) = buf_size (recv_buffer ctx)"
    "required_count (recv_buffer ctx1) = required_count (recv_buffer ctx)"
    using isr_stores [OF assms(1,3), of f] assms(5) by auto
  have w: "waiting n ctx1" using assms(2) ctx1 by (simp add: waiting_def)
  have len: "length ?blk = frame_words cfg" by (rule length_frame_block [OF assms(3)])
  then have "isr_signal ctx1 = ctx1"
    using isr_signal_waiting [OF ctx1(2) w] assms(4) by simp
  then show ?thesis
    using Cons ctx1(1,5) assms(2,4,6) len
      rx_wait_starved [OF ctx1(2) w assms(3), of fs]
    by (simp add: rx_wait.simps [of _ _ "f # fs"] waiting_def)
qed

lemma start_holds:
  assumes "rtos_mic_array_start cfg fresh buffer_size ctx = Inr ctx0"
    and "format ctx \<noteq> RTOS_MIC_ARRAY_FORMAT_COUNT" and "\<not> recv_blocked ctx"
    and "sz = unat (buffer_size * of_nat (MIC_COUNT cfg))" and "0 < sz"
    and "sz \<le> length fresh"
  shows "holds ctx0 [] 0" and "idle ctx0" and "buf_size (recv_buffer ctx0) = sz"
    and "format ctx0 = format ctx" and "SAMPLES_PER_FRAME cfg \<le> unat buffer_size"
proof -
  have "sz < 2 ^ 32" unfolding assms(4) by (rule order_less_le_trans [OF unsigned_less]) simp
  then show "holds ctx0 [] 0" "idle ctx0" "buf_size (recv_buffer ctx0) = sz"
    "format ctx0 = format ctx" "SAMPLES_PER_FRAME cfg \<le> unat buffer_size"
    using assms ring_new [OF assms(5) _ assms(6)]
    by (auto simp: rtos_mic_array_start_def res_simps holds_def idle_def new_buffer_def)
qed

section \<open>The interrupt and the call side by side\<close>

text \<open>
  The interrupt and the task are on different cores: each runs through its accesses to the
  buffer while the other runs through its own. \<open>mic_n\<close> are the words that the current call asks for,
  \<open>mic_armed\<close> those for which the driver waits, also after a call that timed out. With \<open>limited\<close> a call
  after one that timed out asks for no more words than that one.
  \<open>mic_taken\<close> are the frames there was room for, \<open>mic_stored\<close> the words copied into the buffer
  so far, \<open>mic_delivered\<close> the words returned to callers, \<open>mic_fault\<close> whether a copy went outside
  the buffer.
\<close>

datatype rx_pc =
  Rx_idle | Rx_check | Rx_arm | Rx_wait | Rx_copy nat "sample list"

datatype isr_pc =
  Isr_idle | Isr_copy "sample list" | Isr_signal

record mic_system =
  mic_buf :: sample_buffer
  mic_n :: nat
  mic_armed :: nat
  mic_sem :: bool
  mic_blocked :: bool
  mic_rx :: rx_pc
  mic_isr :: isr_pc
  mic_taken :: "sample list list"
  mic_stored :: "sample list"
  mic_delivered :: "sample list"
  mic_fault :: bool

definition mic_boot :: "sample list \<Rightarrow> nat \<Rightarrow> mic_system" where
  "mic_boot fresh sz =
     \<lparr>mic_buf = new_buffer fresh sz, mic_n = 0, mic_armed = 0, mic_sem = False, mic_blocked = False, mic_rx = Rx_idle,
      mic_isr = Isr_idle, mic_taken = [], mic_stored = [], mic_delivered = [], mic_fault = False\<rparr>"

text \<open>The chunk that a copy loop copies in one turn.\<close>

definition store_chunk :: "sample list \<Rightarrow> mic_system \<Rightarrow> mic_system" where
  "store_chunk ws s =
     (let k = write_chunk (length ws) (mic_buf s) in
      case write_words (take k ws) (mic_buf s) of
        Inl e \<Rightarrow> s\<lparr>mic_fault := True\<rparr>
      | Inr b \<Rightarrow> s\<lparr>mic_buf := b, mic_isr := Isr_copy (drop k ws),
                    mic_stored := mic_stored s @ take k ws\<rparr>)"

definition fetch_chunk :: "nat \<Rightarrow> sample list \<Rightarrow> mic_system \<Rightarrow> mic_system" where
  "fetch_chunk m got s =
     (let k = read_chunk m (mic_buf s) in
      case read_words k (mic_buf s) of
        Inl e \<Rightarrow> s\<lparr>mic_fault := True\<rparr>
      | Inr (ws, b) \<Rightarrow> s\<lparr>mic_buf := b, mic_rx := Rx_copy (m - k) (got @ ws)\<rparr>)"

definition signal_step :: "mic_system \<Rightarrow> mic_system" where
  "signal_step s =
     (let b = mic_buf s in
      if 0 < required_count b \<and> required_count b \<le> words_available b
      then s\<lparr>mic_buf := b\<lparr>required_count := 0\<rparr>, mic_sem := True, mic_isr := Isr_idle\<rparr>
      else s\<lparr>mic_isr := Isr_idle\<rparr>)"

inductive isr_step :: "nat \<Rightarrow> mic_system \<Rightarrow> mic_system \<Rightarrow> bool" for F where
  isr_frame: "mic_isr s = Isr_idle \<Longrightarrow> length block = F \<Longrightarrow> F \<le> unat (words_free (mic_buf s)) \<Longrightarrow>
    isr_step F s (s\<lparr>mic_isr := Isr_copy block, mic_taken := mic_taken s @ [block]\<rparr>)"
| isr_overrun: "mic_isr s = Isr_idle \<Longrightarrow> \<not> F \<le> unat (words_free (mic_buf s)) \<Longrightarrow>
    isr_step F s (s\<lparr>mic_isr := Isr_signal\<rparr>)"
| isr_chunk: "mic_isr s = Isr_copy ws \<Longrightarrow> ws \<noteq> [] \<Longrightarrow> isr_step F s (store_chunk ws s)"
| isr_stored: "mic_isr s = Isr_copy [] \<Longrightarrow>
    isr_step F s (s\<lparr>mic_buf := (mic_buf s)\<lparr>total_written := total_written (mic_buf s) + of_nat F\<rparr>,
                    mic_isr := Isr_signal\<rparr>)"
| isr_done: "mic_isr s = Isr_signal \<Longrightarrow> isr_step F s (signal_step s)"

inductive rx_step :: "bool \<Rightarrow> mic_system \<Rightarrow> mic_system \<Rightarrow> bool" for limited where
  rx_call: "mic_rx s = Rx_idle \<Longrightarrow> n \<le> buf_size (mic_buf s) \<Longrightarrow>
    \<not> (limited \<and> mic_blocked s \<and> mic_armed s < n) \<Longrightarrow>
    rx_step limited s (s\<lparr>mic_n := n, mic_rx := if mic_blocked s then Rx_wait else Rx_check\<rparr>)"
| rx_short: "mic_rx s = Rx_check \<Longrightarrow> of_nat (mic_n s) > words_available (mic_buf s) \<Longrightarrow>
    rx_step limited s (s\<lparr>mic_rx := Rx_arm\<rparr>)"
| rx_ready: "mic_rx s = Rx_check \<Longrightarrow> \<not> of_nat (mic_n s) > words_available (mic_buf s) \<Longrightarrow>
    rx_step limited s (s\<lparr>mic_rx := Rx_copy (mic_n s) []\<rparr>)"
| rx_armed: "mic_rx s = Rx_arm \<Longrightarrow>
    rx_step limited s (s\<lparr>mic_buf := (mic_buf s)\<lparr>required_count := of_nat (mic_n s)\<rparr>, mic_armed := mic_n s,
                         mic_blocked := True, mic_rx := Rx_wait\<rparr>)"
| rx_woken: "mic_rx s = Rx_wait \<Longrightarrow> mic_sem s \<Longrightarrow>
    rx_step limited s (s\<lparr>mic_sem := False, mic_blocked := False, mic_rx := Rx_copy (mic_n s) []\<rparr>)"
| rx_timeout: "mic_rx s = Rx_wait \<Longrightarrow> \<not> mic_sem s \<Longrightarrow> rx_step limited s (s\<lparr>mic_rx := Rx_idle\<rparr>)"
| rx_chunk: "mic_rx s = Rx_copy m got \<Longrightarrow> 0 < m \<Longrightarrow> rx_step limited s (fetch_chunk m got s)"
| rx_done: "mic_rx s = Rx_copy 0 got \<Longrightarrow>
    rx_step limited s
      (s\<lparr>mic_buf := (mic_buf s)\<lparr>total_read := total_read (mic_buf s) + of_nat (mic_n s)\<rparr>,
         mic_delivered := mic_delivered s @ got, mic_rx := Rx_idle\<rparr>)"

inductive mic_step :: "nat \<Rightarrow> bool \<Rightarrow> mic_system \<Rightarrow> mic_system \<Rightarrow> bool" for F limited where
  "isr_step F s s' \<Longrightarrow> mic_step F limited s s'"
| "rx_step limited s s' \<Longrightarrow> mic_step F limited s s'"

text \<open>
  The invariant. \<open>cw\<close> and \<open>cr\<close> are the absolute values of the two counters, \<open>r\<close> the number of
  words fetched. A receiver that is blocked is awaited by the interrupt, or the semaphore is
  there and so are its words.
\<close>

definition isr_ok :: "nat \<Rightarrow> mic_system \<Rightarrow> nat \<Rightarrow> nat \<Rightarrow> bool" where
  "isr_ok F s cr cw =
     (case mic_isr s of
        Isr_copy ws \<Rightarrow> length (mic_stored s) + length ws = cw + F
          \<and> cw + F \<le> cr + buf_size (mic_buf s) \<and> concat (mic_taken s) = mic_stored s @ ws
      | _ \<Rightarrow> cw = length (mic_stored s) \<and> concat (mic_taken s) = mic_stored s)"

definition rx_ok :: "mic_system \<Rightarrow> nat \<Rightarrow> nat \<Rightarrow> nat \<Rightarrow> bool" where
  "rx_ok s r cr cw \<longleftrightarrow> mic_n s \<le> buf_size (mic_buf s) \<and> (mic_rx s = Rx_arm \<longrightarrow> 0 < mic_n s) \<and>
     (case mic_rx s of
        Rx_copy m got \<Rightarrow> m \<le> mic_n s \<and> r + m = cr + mic_n s \<and> cr + mic_n s \<le> cw
          \<and> mic_delivered s @ got = take r (mic_stored s)
      | _ \<Rightarrow> r = cr \<and> mic_delivered s = take r (mic_stored s))"

definition wake_ok :: "mic_system \<Rightarrow> nat \<Rightarrow> nat \<Rightarrow> bool" where
  "wake_ok s cr cw \<longleftrightarrow>
     (if mic_blocked s
      then (mic_rx s = Rx_idle \<or> mic_rx s = Rx_wait \<and> mic_n s \<le> mic_armed s)
         \<and> 0 < mic_armed s \<and> mic_armed s \<le> buf_size (mic_buf s)
         \<and> (if mic_sem s then required_count (mic_buf s) = 0 \<and> cr + mic_armed s \<le> cw
            else required_count (mic_buf s) = of_nat (mic_armed s))
      else mic_rx s \<noteq> Rx_wait \<and> \<not> mic_sem s \<and> required_count (mic_buf s) = 0)"

definition mic_inv :: "nat \<Rightarrow> nat \<Rightarrow> mic_system \<Rightarrow> bool" where
  "mic_inv sz F s \<longleftrightarrow>
     \<not> mic_fault s \<and> buf_size (mic_buf s) = sz \<and>
     (\<exists>r cr cw. ring (mic_buf s) (mic_stored s) r cr cw \<and> isr_ok F s cr cw \<and> rx_ok s r cr cw
        \<and> wake_ok s cr cw)"

lemma mic_invI:
  "ring (mic_buf s) (mic_stored s) r cr cw \<Longrightarrow> isr_ok F s cr cw \<Longrightarrow> rx_ok s r cr cw \<Longrightarrow>
     wake_ok s cr cw \<Longrightarrow> \<not> mic_fault s \<Longrightarrow> buf_size (mic_buf s) = sz \<Longrightarrow> mic_inv sz F s"
  by (auto simp: mic_inv_def)

lemma rx_ok_stored_append:
  "rx_ok s r cr cw \<Longrightarrow> r \<le> length (mic_stored s) \<Longrightarrow> buf_size b = buf_size (mic_buf s) \<Longrightarrow>
     rx_ok (s\<lparr>mic_buf := b, mic_isr := p, mic_stored := mic_stored s @ ws\<rparr>) r cr cw"
  by (auto simp: rx_ok_def split: rx_pc.splits)

lemma isr_chunk_inv:
  assumes "mic_inv sz F s" and "mic_isr s = Isr_copy ws" and "ws \<noteq> []"
  shows "mic_inv sz F (store_chunk ws s)"
proof -
  from assms(1) obtain r cr cw where ring: "ring (mic_buf s) (mic_stored s) r cr cw"
    and ok: "isr_ok F s cr cw" "rx_ok s r cr cw" "wake_ok s cr cw"
    and s: "\<not> mic_fault s" "buf_size (mic_buf s) = sz"
    by (auto simp: mic_inv_def)
  let ?k = "write_chunk (length ws) (mic_buf s)"
  note k = ring_write_chunk [OF ring, of "length ws"]
  from ok(1) assms(2) have len: "length (mic_stored s) + length ws \<le> cr + buf_size (mic_buf s)"
    by (simp add: isr_ok_def)
  obtain b where b: "write_words (take ?k ws) (mic_buf s) = Inr b"
    "ring b (mic_stored s @ take ?k ws) r cr cw" "buf_size b = buf_size (mic_buf s)"
    "required_count b = required_count (mic_buf s)"
    using ring_write_words [OF ring, of "take ?k ws"] k len by auto
  have r: "r \<le> length (mic_stored s)" using ring by (simp add: ring_def)
  let ?s = "s\<lparr>mic_buf := b, mic_isr := Isr_copy (drop ?k ws),
      mic_stored := mic_stored s @ take ?k ws\<rparr>"
  have "store_chunk ws s = ?s" using b(1) by (simp add: store_chunk_def Let_def)
  moreover have "isr_ok F ?s cr cw" using ok(1) assms(2) b(3) k(1) by (simp add: isr_ok_def)
  moreover have "wake_ok ?s cr cw" using ok(3) b(3,4) by (simp add: wake_ok_def)
  ultimately show ?thesis
    using b s rx_ok_stored_append [OF ok(2) r b(3)] by (simp add: mic_invI [of _ r cr cw])
qed

lemma rx_chunk_inv:
  assumes "mic_inv sz F s" and "mic_rx s = Rx_copy m got" and "0 < m"
  shows "mic_inv sz F (fetch_chunk m got s)"
proof -
  from assms(1) obtain r cr cw where ring: "ring (mic_buf s) (mic_stored s) r cr cw"
    and ok: "isr_ok F s cr cw" "rx_ok s r cr cw" "wake_ok s cr cw"
    and s: "\<not> mic_fault s" "buf_size (mic_buf s) = sz"
    by (auto simp: mic_inv_def)
  let ?k = "read_chunk m (mic_buf s)"
  note k = ring_read_chunk [OF ring, of m]
  from ok(2) assms(2) have rx: "m \<le> mic_n s" "r + m = cr + mic_n s" "cr + mic_n s \<le> cw" "mic_n s \<le> buf_size (mic_buf s)"
    "mic_delivered s @ got = take r (mic_stored s)"
    by (simp_all add: rx_ok_def)
  have "r + ?k \<le> cw" using k rx by linarith
  with ring_read_words [OF ring k(2)]
  obtain b where b: "read_words ?k (mic_buf s) = Inr (take ?k (drop r (mic_stored s)), b)"
    "ring b (mic_stored s) (r + ?k) cr cw" "b = (mic_buf s)\<lparr>read_index := read_index b\<rparr>"
    by blast
  have same: "buf_size b = buf_size (mic_buf s)" "required_count b = required_count (mic_buf s)"
    by (subst b(3), simp)+
  let ?s = "s\<lparr>mic_buf := b, mic_rx := Rx_copy (m - ?k) (got @ take ?k (drop r (mic_stored s)))\<rparr>"
  have "fetch_chunk m got s = ?s" using b(1) by (simp add: fetch_chunk_def Let_def)
  moreover have "rx_ok ?s (r + ?k) cr cw"
    using rx k(1) same by (simp add: rx_ok_def take_add flip: append_assoc)
  moreover have "isr_ok F ?s cr cw"
    using ok(1) same by (simp add: isr_ok_def split: isr_pc.splits)
  moreover have "wake_ok ?s cr cw"
    using ok(3) same assms(2) by (simp add: wake_ok_def split: if_splits)
  ultimately show ?thesis
    using b(2) s same by (simp add: mic_invI [of _ "r + ?k" cr cw])
qed

lemma isr_signal_inv:
  assumes "mic_inv sz F s" and "mic_isr s = Isr_signal"
  shows "mic_inv sz F (signal_step s)"
proof -
  from assms(1) obtain r cr cw where ring: "ring (mic_buf s) (mic_stored s) r cr cw"
    and ok: "isr_ok F s cr cw" "rx_ok s r cr cw" "wake_ok s cr cw"
    and s: "\<not> mic_fault s" "buf_size (mic_buf s) = sz"
    by (auto simp: mic_inv_def)
  note av = ring_available [OF ring]
  have cr: "cr \<le> cw" "sz < 2 ^ 32" using ring s by (auto simp: ring_def)
  then have n: "unat (of_nat k :: u32) = k" if "k \<le> sz" for k using that by (simp add: unat_of_nat)
  have "wake_ok (signal_step s) cr cw"
    using ok(3) av n[of "mic_armed s"] cr(1) s(2)
    by (auto simp: signal_step_def wake_ok_def Let_def word_le_nat_alt split: if_splits)
  moreover have "isr_ok F (signal_step s) cr cw" "rx_ok (signal_step s) r cr cw"
    "ring (mic_buf (signal_step s)) (mic_stored (signal_step s)) r cr cw"
    "\<not> mic_fault (signal_step s)" "buf_size (mic_buf (signal_step s)) = sz"
    using ok(1,2) ring s assms(2)
    by (auto simp: signal_step_def isr_ok_def rx_ok_def Let_def split: rx_pc.splits)
  ultimately show ?thesis unfolding mic_inv_def by blast
qed

lemma isr_step_inv:
  assumes "isr_step F s s'" and "mic_inv sz F s"
  shows "mic_inv sz F s'"
proof -
  from assms(2) obtain r cr cw where ring: "ring (mic_buf s) (mic_stored s) r cr cw"
    and ok: "isr_ok F s cr cw" "rx_ok s r cr cw" "wake_ok s cr cw"
    and s: "\<not> mic_fault s" "buf_size (mic_buf s) = sz"
    by (auto simp: mic_inv_def)
  note free = ring_free [OF ring]
  have le: "cr \<le> cw" "length (mic_stored s) \<le> cr + sz" "cw \<le> length (mic_stored s)"
    using ring s by (auto simp: ring_def)
  from assms(1) show ?thesis
  proof cases
    case (isr_frame block)
    then have "cw = length (mic_stored s)" "concat (mic_taken s) = mic_stored s"
      "cw + F \<le> cr + sz"
      using ok(1) free s(2) le by (auto simp: isr_ok_def)
    then show ?thesis
      using isr_frame ring ok s
      by (intro mic_invI [of _ r cr cw]) (auto simp: isr_ok_def rx_ok_def wake_ok_def split: rx_pc.splits)
  next
    case isr_overrun
    then show ?thesis
      using ring ok s
      by (intro mic_invI [of _ r cr cw]) (auto simp: isr_ok_def rx_ok_def wake_ok_def split: rx_pc.splits)
  next
    case (isr_chunk ws)
    then show ?thesis using isr_chunk_inv [OF assms(2)] by simp
  next
    case isr_stored
    then have w: "length (mic_stored s) = cw + F" "concat (mic_taken s) = mic_stored s"
      using ok(1) by (auto simp: isr_ok_def)
    from ring_commit_write [OF ring w(1) refl]
    have "ring (mic_buf s'
        ) (mic_stored s') r cr (length (mic_stored s'))"
      using isr_stored(1) by simp
    then show ?thesis
      using isr_stored w ok(2,3) s
      by (intro mic_invI [of _ r cr "length (mic_stored s')"])
        (auto simp: isr_ok_def rx_ok_def wake_ok_def split: rx_pc.splits)
  next
    case isr_done
    then show ?thesis using isr_signal_inv [OF assms(2)] by simp
  qed
qed

lemma rx_step_inv:
  assumes "rx_step True s s'" and "mic_inv sz F s"
  shows "mic_inv sz F s'"
proof -
  from assms(2) obtain r cr cw where ring: "ring (mic_buf s) (mic_stored s) r cr cw"
    and ok: "isr_ok F s cr cw" "rx_ok s r cr cw" "wake_ok s cr cw"
    and s: "\<not> mic_fault s" "buf_size (mic_buf s) = sz"
    by (auto simp: mic_inv_def)
  have le: "cr \<le> cw" "sz < 2 ^ 32" using ring s by (auto simp: ring_def)
  then have n: "unat (of_nat (mic_n s) :: u32) = mic_n s" using ok(2) s(2) by (simp add: unat_of_nat rx_ok_def)
  note av = ring_available [OF ring]
  note defs = isr_ok_def rx_ok_def wake_ok_def
  from assms(1) show ?thesis
  proof cases
    case (rx_chunk m got)
    then show ?thesis using rx_chunk_inv [OF assms(2)] by simp
  next
    case rx_ready
    then have "cr + mic_n s \<le> cw" using av n le by (auto simp: word_less_nat_alt)
    then show ?thesis
      using rx_ready ring ok s
      by (intro mic_invI [of _ r cr cw]) (auto simp: defs split: isr_pc.splits if_splits)
  next
    case rx_short
    then have "0 < mic_n s" by (cases "mic_n s") auto
    then show ?thesis
      using rx_short ring ok s
      by (intro mic_invI [of _ r cr cw]) (auto simp: defs split: isr_pc.splits if_splits)
  next
    case (rx_done got)
    then have r: "r = cr + mic_n s" "mic_delivered s @ got = take r (mic_stored s)" "cr + mic_n s \<le> cw"
      "mic_n s \<le> buf_size (mic_buf s)"
      using ok(2) by (auto simp: rx_ok_def)
    from ring_commit_read [OF ring r(1) refl]
    have "ring (mic_buf s') (mic_stored s') r r cw" using rx_done(1) by simp
    then show ?thesis
      using rx_done r ok(1,3) s
      by (intro mic_invI [of _ r r cw]) (auto simp: defs split: isr_pc.splits if_splits)
  qed (use ring ok s in \<open>auto intro!: mic_invI [of _ r cr cw] simp: defs
         split: isr_pc.splits if_splits\<close>)
qed

interpretation mic_sys: state_machine "mic_boot fresh sz" "mic_step F True"
    "\<lambda>s. 0 < sz \<and> sz < 2 ^ 32 \<and> sz \<le> length fresh \<longrightarrow> mic_inv sz F s"
proof (unfold_locales, intro impI)
  assume "0 < sz \<and> sz < 2 ^ 32 \<and> sz \<le> length fresh"
  then have "ring (new_buffer fresh sz) [] 0 0 0" by (intro ring_new) auto
  then show "mic_inv sz F (mic_boot fresh sz)"
    by (intro mic_invI [of _ 0 0 0])
      (simp_all add: mic_boot_def isr_ok_def rx_ok_def wake_ok_def new_buffer_def)
next
  fix s s'
  assume "mic_step F True s s'"
    and "0 < sz \<and> sz < 2 ^ 32 \<and> sz \<le> length fresh \<longrightarrow> mic_inv sz F s"
  then show "0 < sz \<and> sz < 2 ^ 32 \<and> sz \<le> length fresh \<longrightarrow> mic_inv sz F s'"
    by cases (auto intro: isr_step_inv rx_step_inv)
qed

lemma mic_inv_prefix:
  assumes "mic_inv sz F s"
  shows "prefix (mic_delivered s) (concat (mic_taken s))"
proof -
  from assms obtain r cr cw where ok: "isr_ok F s cr cw" "rx_ok s r cr cw"
    by (auto simp: mic_inv_def)
  have "prefix (mic_stored s) (concat (mic_taken s))"
    using ok(1) by (auto simp: isr_ok_def split: isr_pc.splits)
  moreover have "prefix (mic_delivered s) (take r (mic_stored s))"
    using ok(2) by (auto simp: rx_ok_def prefix_def split: rx_pc.splits) metis
  ultimately show ?thesis
    by (meson prefix_order.trans take_is_prefix)
qed

text \<open>
  C16. However the interrupt and the task interleave, whatever each call asks for, also when
  calls time out and when the counters have wrapped, no copy leaves the buffer and the
  samples returned to the callers are a prefix of the frames the interrupt found room for,
  in order and without a gap, as long as a call after one that timed out does not ask for
  more than that one.
\<close>

theorem mic_array_samples_in_order:
  assumes "(mic_step F True)\<^sup>*\<^sup>* (mic_boot fresh sz) s"
    and "0 < sz" and "sz < 2 ^ 32" and "sz \<le> length fresh"
  shows "\<not> mic_fault s \<and> prefix (mic_delivered s) (concat (mic_taken s))"
proof -
  have inv: "mic_inv sz F s" using mic_sys.reachable [OF assms(1)] assms(2-4) by blast
  show ?thesis using mic_inv_prefix [OF inv] inv unfolding mic_inv_def by blast
qed

section \<open>Requests that are never served\<close>

lemma unat_times:
  assumes "unat a * k < 2 ^ 32"
  shows "unat (a * of_nat k :: u32) = unat a * k"
proof -
  have "a * of_nat k = (of_nat (unat a * k) :: u32)" by simp
  then have "unat (a * of_nat k) = unat (of_nat (unat a * k) :: u32)" by (rule arg_cong)
  then show ?thesis using assms by (simp only: unat_of_nat) simp
qed

text \<open>
  A request that the documentation allows, for no more frames than the buffer holds, is
  never served: when the buffer is shorter than two frames of the interrupt and the request
  longer than one, the first call after the start returns no frame, however many interrupts
  come while it waits.
\<close>

theorem mic_array_rx_starves:
  assumes "rtos_mic_array_start cfg fresh buffer_size ctx = Inr ctx0"
    and "format ctx = RTOS_MIC_ARRAY_SAMPLE_CHANNEL" and "\<not> recv_blocked ctx"
    and "lib_ok cfg lib" and "0 < MIC_COUNT cfg"
    and "unat buffer_size * MIC_COUNT cfg < 2 ^ 32"
    and "unat buffer_size * MIC_COUNT cfg \<le> length fresh"
    and "SAMPLES_PER_FRAME cfg < unat fc" and "unat fc \<le> unat buffer_size"
    and "unat buffer_size < 2 * SAMPLES_PER_FRAME cfg"
  shows "\<exists>ctx'. mic_array_local_rx cfg lib fc arrivals ctx0 = Some (Inr (0, [], ctx'))"
proof -
  let ?M = "MIC_COUNT cfg"
  define n where "n = fc * of_nat ?M"
  define sz where "sz = unat (buffer_size * of_nat ?M)"
  have le: "unat fc * ?M \<le> unat buffer_size * ?M"
    using assms(9) by simp
  have less: "frame_words cfg < unat fc * ?M"
    using assms(5,8) by simp
  have less2: "unat buffer_size * ?M < frame_words cfg + frame_words cfg"
    using assms(5,10) by (simp flip: add_mult_distrib add: mult_2 [symmetric] mult.assoc [symmetric])
  have n: "unat n = unat fc * ?M"
    unfolding n_def using assms(6) le by (intro unat_times) linarith
  have sz: "sz = unat buffer_size * ?M"
    unfolding sz_def using assms(6) by (rule unat_times)
  have "0 < sz" "sz \<le> length fresh"
    using assms(5,7,8,9) by (auto simp: sz)
  note st = start_holds [OF assms(1) _ assms(3) sz_def this]
  have fmt: "format ctx \<noteq> RTOS_MIC_ARRAY_FORMAT_COUNT" using assms(2) by simp
  note h = st(1,2) [OF fmt] and size0 = st(3) [OF fmt] and fmt0 = st(4) [OF fmt]
    and spf = st(5) [OF fmt]
  have frame: "frame_words cfg \<le> sz" unfolding sz using spf by simp
  define ctx1 where "ctx1 = ctx0\<lparr>recv_buffer := (recv_buffer ctx0)\<lparr>required_count := n\<rparr>,
      recv_blocked := True\<rparr>"
  have "0 < unat n" using less n by simp
  then have "words_available (recv_buffer ctx0) < n"
    using holds_available [OF h(1)] by (simp add: word_less_nat_alt)
  then have c1: "rx_check n ctx0 = ctx1"
    using h(2) by (simp add: rx_check_def ctx1_def idle_def)
  have h1: "holds ctx1 [] 0" "waiting n ctx1" "buf_size (recv_buffer ctx1) = sz"
    using h size0 \<open>0 < unat n\<close>
    by (auto simp: holds_def waiting_def idle_def ctx1_def word_less_nat_alt)
  have "\<exists>ctx'. rx_wait cfg lib arrivals ctx1 = Some (Inr ctx') \<and> recv_blocked ctx'"
    using n sz less less2 frame h1(3)
    by (intro rx_wait_starts_starved [OF h1(1,2) assms(4)]) simp_all
  then show ?thesis
    using assms(2) fmt0 size0 n sz le c1 ctx1_def
    by (auto simp: mic_array_local_rx_def Let_def simp flip: n_def)
qed

section \<open>A request after one that timed out\<close>

text \<open>One microphone and frames of one sample, each frame being its sample.\<close>

definition mono :: mic_config where
  "mono = \<lparr>SAMPLES_PER_FRAME = 1, MIC_COUNT = 1\<rparr>"

definition mono_lib :: "sample mic_lib" where
  "mono_lib = \<lparr>ma_frame_rx = (\<lambda>f n m. replicate (n * m) f),
               ma_frame_rx_transpose = (\<lambda>f m n. replicate (n * m) f)\<rparr>"

definition mono_ctx :: rtos_mic_array where
  "mono_ctx = \<lparr>format = RTOS_MIC_ARRAY_SAMPLE_CHANNEL, recv_sem = False, recv_blocked = False,
     recv_buffer = new_buffer [91, 92, 93, 94] 4, isr_decoupling_buf = [0]\<rparr>"

lemmas mono_defs = mono_def mono_lib_def mono_ctx_def new_buffer_def

lemmas rx_defs =
  mic_array_local_rx_def rtos_mic_array_isr_def isr_store_def isr_signal_def rx_check_def
  write_words_def read_words_def write_chunk_def read_chunk_def advance_def
  words_available_def words_free_def put_at_def Let_def

lemma lib_ok_mono: "lib_ok cfg mono_lib"
  by (simp add: lib_ok_def mono_lib_def)

text \<open>
  A call that timed out leaves the driver waiting for its own number of samples: when one
  sample has come since, the next call, for three, returns three frames of which two were
  never received, and the count of available words drops below zero.
\<close>

theorem mic_array_rx_after_timeout:
  "\<exists>ctx1 ctx2 ctx3.
     mic_array_local_rx mono mono_lib 1 [] mono_ctx = Some (Inr (0, [], ctx1))
     \<and> rtos_mic_array_isr mono mono_lib 7 ctx1 = Some (Inr ctx2)
     \<and> mic_array_local_rx mono mono_lib 3 [] ctx2 = Some (Inr (3, [7, 92, 93], ctx3))
     \<and> words_available (recv_buffer ctx3) = - 2"
  by (simp add: mono_defs rx_defs rx_wait.simps [of _ _ "[]"] write_loop.simps [of 0]
      write_loop.simps [of "Suc 0"] read_loop.simps [of 3] read_loop.simps [of 0])

text \<open>The number of words wraps: a call for 2^31 frames of two microphones copies nothing.\<close>

lemma mic_array_rx_count_wraps:
  assumes "MIC_COUNT cfg = 2" and "format ctx = RTOS_MIC_ARRAY_SAMPLE_CHANNEL"
    and "\<not> recv_blocked ctx"
  shows "mic_array_local_rx cfg lib 0x80000000 arrivals ctx
    = Some (Inr (0x80000000, [], ctx))"
proof -
  have "(0x80000000 :: u32) * of_nat 2 = 0" by code_simp
  then show ?thesis
    using assms
    by (simp only: mic_array_local_rx_def rx_check_def Let_def)
      (simp add: read_loop.simps [of 0])
qed

section \<open>Concrete runs\<close>

theorem mic_array_rx_served_witness:
  "\<exists>m ctx' H'. m \<le> length [7, 8, 9 :: sample]
     \<and> H' = [] @ concat (map (frame_block mono mono_lib (format mono_ctx)) (take m [7, 8, 9]))
     \<and> mic_array_local_rx mono mono_lib 2 [7, 8, 9] mono_ctx
         = Some (Inr (2, take (unat (2 :: u32)) (drop 0 H'), ctx'))
     \<and> 0 + unat (2 :: u32) \<le> length H' \<and> holds ctx' H' (0 + unat (2 :: u32)) \<and> idle ctx'"
proof (rule mic_array_rx_served)
  show "holds mono_ctx [] 0"
    using ring_new [of 4 "[91, 92, 93, 94]"] by (simp add: holds_def mono_ctx_def)
  show "lib_ok mono mono_lib" by (rule lib_ok_mono)
qed (simp_all add: idle_def mono_defs)

theorem mic_array_rx_starves_witness:
  "\<exists>ctx'. mic_array_local_rx \<lparr>SAMPLES_PER_FRAME = 256, MIC_COUNT = 2\<rparr> mono_lib 300
     (replicate 1000 5) (mono_ctx\<lparr>recv_buffer := new_buffer (replicate 800 0) 800\<rparr>)
     = Some (Inr (0, [], ctx'))"
  by (rule mic_array_rx_starves [of _ "replicate 800 0" 400 mono_ctx])
    (simp_all add: lib_ok_mono rtos_mic_array_start_def, simp_all add: mono_ctx_def)

theorem mic_array_samples_in_order_witness:
  "\<exists>s :: mic_system. mic_rx s = Rx_check \<and> mic_taken s = [[7]] \<and> \<not> mic_fault s
     \<and> prefix (mic_delivered s) (concat (mic_taken s))"
proof -
  let ?s0 = "mic_boot [91, 92, 93, 94] 4"
  let ?s1 = "?s0\<lparr>mic_isr := Isr_copy [7], mic_taken := mic_taken ?s0 @ [[7]]\<rparr>"
  let ?s2 = "?s1\<lparr>mic_n := 2, mic_rx := if mic_blocked ?s1 then Rx_wait else Rx_check\<rparr>"
  have "isr_step 1 ?s0 ?s1"
    by (rule isr_frame) (simp_all add: mic_boot_def new_buffer_def words_free_def words_available_def)
  moreover have "rx_step True ?s1 ?s2" by (rule rx_call) (simp_all add: mic_boot_def new_buffer_def)
  ultimately have "(mic_step 1 True)\<^sup>*\<^sup>* ?s0 ?s2"
    by (meson mic_step.intros converse_rtranclp_into_rtranclp rtranclp.rtrancl_refl)
  from mic_array_samples_in_order [OF this]
  have "\<not> mic_fault ?s2 \<and> prefix (mic_delivered ?s2) (concat (mic_taken ?s2))" by simp
  then show ?thesis by - (rule exI [of _ ?s2], simp add: mic_boot_def)
qed

end
