(* ===== verification/I2s.thy ===== *)
theory I2s
  imports Sample_Ring
begin

text \<open>
  The local half of the I2S driver (modules/drivers/i2s/src/rtos_i2s.c): the callbacks that
  lib_i2s makes on the I/O core for every audio frame, the interrupt they raise, and the
  calls that receive and transmit samples.
\<close>

text \<open>
  A filter is given the application's pointer, the frame or the number of its samples, and the
  samples or the number of spaces in the driver's buffer; it returns what it writes and the
  number of samples it reports. The application's own data is its own affair.
\<close>

type_synonym send_filter = "u32 \<Rightarrow> nat \<Rightarrow> sample list \<Rightarrow> sample list \<times> nat"
type_synonym receive_filter = "u32 \<Rightarrow> sample list \<Rightarrow> nat \<Rightarrow> sample list \<times> nat"

record rtos_i2s =
  num_out :: nat
  num_in :: nat
  send_filter_app_data :: u32
  send_filter_cb :: "send_filter option"
  receive_filter_app_data :: u32
  receive_filter_cb :: "receive_filter option"
  send_sem :: bool
  recv_sem :: bool
  send_blocked :: bool
  recv_blocked :: bool
  send_buffer :: sample_buffer
  recv_buffer :: sample_buffer
  isr_cmd :: byte

definition ISR_RESUME_SEND_BM :: byte where "ISR_RESUME_SEND_BM = 1"
definition ISR_RESUME_RECV_BM :: byte where "ISR_RESUME_RECV_BM = 2"

definition rtos_i2s_isr :: "byte \<Rightarrow> rtos_i2s \<Rightarrow> rtos_i2s" where
  "rtos_i2s_isr isr_action ctx =
     (let ctx1 = (if isr_action AND ISR_RESUME_SEND_BM \<noteq> 0 then ctx\<lparr>send_sem := True\<rparr> else ctx)
      in if isr_action AND ISR_RESUME_RECV_BM \<noteq> 0 then ctx1\<lparr>recv_sem := True\<rparr> else ctx1)"

text \<open>The byte sent to the interrupt's channel end, after which the pending bits are clear.\<close>

definition raise_isr :: "rtos_i2s \<Rightarrow> rtos_i2s" where
  "raise_isr ctx = (rtos_i2s_isr (isr_cmd ctx) ctx)\<lparr>isr_cmd := 0\<rparr>"

section \<open>The callbacks of the I/O core\<close>

definition poke :: "sample list \<Rightarrow> sample_buffer \<Rightarrow> sample_buffer res" where
  "poke ws b =
     (if write_index b + length ws \<le> length (samples b)
      then Inr (b\<lparr>samples := put_at (samples b) (write_index b) ws\<rparr>) else Inl Bad_access)"

text \<open>The buffer with the received frame in it, and \<open>buffer_words_written\<close>.\<close>

definition receive_store ::
  "sample list \<Rightarrow> rtos_i2s \<Rightarrow> (sample_buffer \<times> nat) res" where
  "receive_store frame ctx =
     (let b = recv_buffer ctx; free = words_free b in
      case receive_filter_cb ctx of
        None \<Rightarrow>
          if length frame \<le> unat free
          then rbind (poke frame b) (\<lambda>b'. Inr (b', length frame))
          else Inr (b, 0)
      | Some cb \<Rightarrow>
          let sample_spaces_free = min (unat free) (buf_size b - write_index b);
              (ws, k) = cb (send_filter_app_data ctx) frame sample_spaces_free
          in rbind (poke ws b) (\<lambda>b'. Inr (b', k)))"

definition recv_check :: "rtos_i2s \<Rightarrow> rtos_i2s" where
  "recv_check ctx =
     (let b = recv_buffer ctx in
      if 0 < required_count b \<and> required_count b \<le> words_available b
      then ctx\<lparr>recv_buffer := b\<lparr>required_count := 0\<rparr>, isr_cmd := isr_cmd ctx OR ISR_RESUME_RECV_BM\<rparr>
      else ctx)"

definition i2s_receive :: "sample list \<Rightarrow> rtos_i2s \<Rightarrow> rtos_i2s res" where
  "i2s_receive frame ctx =
     rbind (receive_store frame ctx) (\<lambda>(b, k).
       let b1 = (if 0 < k
                 then b\<lparr>write_index := advance b (write_index b) (length frame),
                        total_written := total_written b + of_nat (length frame)\<rparr>
                 else b);
           ctx1 = recv_check (ctx\<lparr>recv_buffer := b1\<rparr>)
       in Inr (if num_out ctx1 = 0 \<and> isr_cmd ctx1 \<noteq> 0 then raise_isr ctx1 else ctx1))"

text \<open>The words put on the wire, if any, and \<open>buffer_words_read\<close>.\<close>

definition send_fetch :: "nat \<Rightarrow> rtos_i2s \<Rightarrow> (sample list \<times> nat) res" where
  "send_fetch n ctx =
     (let b = send_buffer ctx; available = unat (words_available b) in
      case send_filter_cb ctx of
        None \<Rightarrow>
          if n \<le> available
          then if read_index b + n \<le> length (samples b)
               then Inr (take n (drop (read_index b) (samples b)), n) else Inl Bad_access
          else Inr ([], 0)
      | Some cb \<Rightarrow>
          let samples_available = min available (buf_size b - read_index b)
          in Inr (cb (send_filter_app_data ctx) n
                    (take samples_available (drop (read_index b) (samples b)))))"

definition send_check :: "rtos_i2s \<Rightarrow> rtos_i2s" where
  "send_check ctx =
     (let b = send_buffer ctx in
      if 0 < required_count b \<and> required_count b \<le> words_free b
      then ctx\<lparr>send_buffer := b\<lparr>required_count := 0\<rparr>, isr_cmd := isr_cmd ctx OR ISR_RESUME_SEND_BM\<rparr>
      else ctx)"

definition i2s_send :: "nat \<Rightarrow> rtos_i2s \<Rightarrow> (sample list \<times> rtos_i2s) res" where
  "i2s_send n ctx =
     rbind (send_fetch n ctx) (\<lambda>(frame, k).
       let b = send_buffer ctx;
           b1 = (if 0 < k
                 then b\<lparr>read_index := advance b (read_index b) k,
                        total_read := total_read b + of_nat k\<rparr>
                 else b);
           ctx1 = send_check (ctx\<lparr>send_buffer := b1\<rparr>)
       in Inr (frame, if isr_cmd ctx1 \<noteq> 0 then raise_isr ctx1 else ctx1))"

text \<open>What lib_i2s calls back while a task waits, and the words that go out.\<close>

datatype i2s_callback = Cb_receive "sample list" | Cb_send nat

definition i2s_call :: "i2s_callback \<Rightarrow> rtos_i2s \<Rightarrow> (sample list \<times> rtos_i2s) res" where
  "i2s_call cb ctx =
     (case cb of
        Cb_receive frame \<Rightarrow> rbind (i2s_receive frame ctx) (\<lambda>ctx'. Inr ([], ctx'))
      | Cb_send n \<Rightarrow> i2s_send n ctx)"

section \<open>The calls\<close>

text \<open>
  \<open>rtos_osal_semaphore_get\<close> with a timeout, during which the callbacks of \<open>cbs\<close> come if the task
  has to wait for them; the words they put on the wire are the first result.
\<close>

fun i2s_wait ::
  "(rtos_i2s \<Rightarrow> bool) \<Rightarrow> i2s_callback list \<Rightarrow> rtos_i2s \<Rightarrow> (sample list \<times> rtos_i2s) res" where
  "i2s_wait sem cbs ctx =
     (if sem ctx then Inr ([], ctx)
      else case cbs of
             [] \<Rightarrow> Inr ([], ctx)
           | cb # cbs' \<Rightarrow> rbind (i2s_call cb ctx) (\<lambda>(d, ctx1).
               rbind (i2s_wait sem cbs' ctx1) (\<lambda>(d', ctx2). Inr (d @ d', ctx2))))"

declare i2s_wait.simps [simp del]

definition recv_get :: "rtos_i2s \<Rightarrow> rtos_i2s" where
  "recv_get ctx = (if recv_sem ctx then ctx\<lparr>recv_sem := False, recv_blocked := False\<rparr> else ctx)"

definition send_get :: "rtos_i2s \<Rightarrow> rtos_i2s" where
  "send_get ctx = (if send_sem ctx then ctx\<lparr>send_sem := False, send_blocked := False\<rparr> else ctx)"

definition rx_arm :: "u32 \<Rightarrow> rtos_i2s \<Rightarrow> rtos_i2s" where
  "rx_arm n ctx =
     (if \<not> recv_blocked ctx \<and> words_available (recv_buffer ctx) < n
      then ctx\<lparr>recv_buffer := (recv_buffer ctx)\<lparr>required_count := n\<rparr>, recv_blocked := True\<rparr>
      else ctx)"

definition tx_arm :: "u32 \<Rightarrow> rtos_i2s \<Rightarrow> rtos_i2s" where
  "tx_arm n ctx =
     (if \<not> send_blocked ctx \<and> words_free (send_buffer ctx) < n
      then ctx\<lparr>send_buffer := (send_buffer ctx)\<lparr>required_count := n\<rparr>, send_blocked := True\<rparr>
      else ctx)"

text \<open>What a call does before it copies: look at the counters, and wait if it must.\<close>

definition rx_ready :: "u32 \<Rightarrow> i2s_callback list \<Rightarrow> rtos_i2s \<Rightarrow> (sample list \<times> rtos_i2s) res" where
  "rx_ready n cbs ctx =
     (let ctx1 = rx_arm n ctx in
      if recv_blocked ctx1
      then rbind (i2s_wait recv_sem cbs ctx1) (\<lambda>(d, c). Inr (d, recv_get c))
      else Inr ([], ctx1))"

definition tx_ready :: "u32 \<Rightarrow> i2s_callback list \<Rightarrow> rtos_i2s \<Rightarrow> (sample list \<times> rtos_i2s) res" where
  "tx_ready n cbs ctx =
     (let ctx1 = tx_arm n ctx in
      if send_blocked ctx1
      then rbind (i2s_wait send_sem cbs ctx1) (\<lambda>(d, c). Inr (d, send_get c))
      else Inr ([], ctx1))"

text \<open>
  The frames received, the words in the caller's buffer, what went out meanwhile, the driver.
\<close>

definition i2s_local_rx ::
  "u32 \<Rightarrow> i2s_callback list \<Rightarrow> rtos_i2s
     \<Rightarrow> (u32 \<times> sample list \<times> sample list \<times> rtos_i2s) res option" where
  "i2s_local_rx frame_count cbs ctx =
     (let n = frame_count * (2 * of_nat (num_in ctx)) in
      if \<not> unat n \<le> buf_size (recv_buffer ctx) then Some (Inl Assert_failed)
      else
        lbind (Some (rx_ready n cbs ctx))
          (\<lambda>(d, ctx2).
             if recv_blocked ctx2 then Some (Inr (0, [], d, ctx2))
             else lbind (read_loop (unat n) [] (recv_buffer ctx2)) (\<lambda>(ws, b).
               Some (Inr (frame_count, ws, d,
                 ctx2\<lparr>recv_buffer := b\<lparr>total_read := total_read b + n\<rparr>\<rparr>)))))"

definition i2s_local_tx ::
  "sample list \<Rightarrow> u32 \<Rightarrow> i2s_callback list \<Rightarrow> rtos_i2s
     \<Rightarrow> (u32 \<times> sample list \<times> rtos_i2s) res option" where
  "i2s_local_tx src frame_count cbs ctx =
     (let n = frame_count * (2 * of_nat (num_out ctx)) in
      if \<not> unat n \<le> buf_size (send_buffer ctx) then Some (Inl Assert_failed)
      else
        lbind (Some (tx_ready n cbs ctx))
          (\<lambda>(d, ctx2).
             if send_blocked ctx2 then Some (Inr (0, d, ctx2))
             else lbind (write_loop (unat n) src (send_buffer ctx2)) (\<lambda>b.
               Some (Inr (frame_count, d,
                 ctx2\<lparr>send_buffer := b\<lparr>total_written := total_written b + n\<rparr>\<rparr>)))))"

text \<open>A buffer without lines stays as memset left it.\<close>

definition no_buffer :: sample_buffer where
  "no_buffer = new_buffer [] 0"

definition rtos_i2s_start ::
  "sample list \<Rightarrow> sample list \<Rightarrow> u32 \<Rightarrow> u32 \<Rightarrow> rtos_i2s \<Rightarrow> rtos_i2s" where
  "rtos_i2s_start fresh_in fresh_out recv_buffer_size send_buffer_size ctx =
     (let ctx1 = ctx\<lparr>isr_cmd := 0, recv_buffer := no_buffer\<rparr>;
          ctx2 = (if 0 < num_in ctx1
                  then ctx1\<lparr>recv_buffer := new_buffer fresh_in
                              (unat (recv_buffer_size * (2 * of_nat (num_in ctx1)))),
                            recv_sem := False\<rparr>
                  else ctx1);
          ctx3 = ctx2\<lparr>send_buffer := no_buffer\<rparr>
      in if 0 < num_out ctx3
         then ctx3\<lparr>send_buffer := new_buffer fresh_out
                     (unat (send_buffer_size * (2 * of_nat (num_out ctx3)))),
                   send_sem := False\<rparr>
         else ctx3)"

text \<open>\<open>I2S_MAX_DATALINES\<close> belongs to lib_i2s.\<close>

definition rtos_i2s_init :: "nat \<Rightarrow> nat \<Rightarrow> nat \<Rightarrow> rtos_i2s \<Rightarrow> rtos_i2s res" where
  "rtos_i2s_init I2S_MAX_DATALINES n_out n_in ctx =
     xassert (n_out \<le> I2S_MAX_DATALINES) (xassert (n_in \<le> I2S_MAX_DATALINES)
       (Inr (ctx\<lparr>num_out := n_out, num_in := n_in\<rparr>)))"

definition rtos_i2s_send_filter_cb_set :: "send_filter option \<Rightarrow> u32 \<Rightarrow> rtos_i2s \<Rightarrow> rtos_i2s" where
  "rtos_i2s_send_filter_cb_set cb app_data ctx =
     ctx\<lparr>send_filter_app_data := app_data, send_filter_cb := cb\<rparr>"

definition rtos_i2s_receive_filter_cb_set ::
  "receive_filter option \<Rightarrow> u32 \<Rightarrow> rtos_i2s \<Rightarrow> rtos_i2s" where
  "rtos_i2s_receive_filter_cb_set cb app_data ctx =
     ctx\<lparr>receive_filter_app_data := app_data, receive_filter_cb := cb\<rparr>"

section \<open>Waiting and waking\<close>

text \<open>
  Both directions follow one protocol. A task that waits for \<open>n\<close> words (or spaces) has left that
  number in the buffer, until the I/O core takes it back and signals; the signal is a pending
  bit of \<open>isr_cmd\<close> and then the semaphore.
\<close>

definition wake :: "bool \<Rightarrow> bool \<Rightarrow> bool \<Rightarrow> u32 \<Rightarrow> nat \<Rightarrow> nat \<Rightarrow> bool" where
  "wake blocked sem pending req n there \<longleftrightarrow>
     \<not> (sem \<and> pending) \<and>
     (if blocked
      then 0 < n \<and> (if sem \<or> pending then req = 0 \<and> n \<le> there else req = of_nat n)
      else req = 0 \<and> \<not> sem \<and> \<not> pending)"

definition recv_pending :: "rtos_i2s \<Rightarrow> bool" where
  "recv_pending ctx \<longleftrightarrow> isr_cmd ctx AND ISR_RESUME_RECV_BM \<noteq> 0"

definition send_pending :: "rtos_i2s \<Rightarrow> bool" where
  "send_pending ctx \<longleftrightarrow> isr_cmd ctx AND ISR_RESUME_SEND_BM \<noteq> 0"

lemma isr_bits [simp]:
  "ISR_RESUME_RECV_BM \<noteq> 0" "ISR_RESUME_SEND_BM \<noteq> 0"
  "(c OR ISR_RESUME_RECV_BM) AND ISR_RESUME_SEND_BM = c AND ISR_RESUME_SEND_BM"
  "(c OR ISR_RESUME_SEND_BM) AND ISR_RESUME_RECV_BM = c AND ISR_RESUME_RECV_BM"
  by (simp_all add: ISR_RESUME_RECV_BM_def ISR_RESUME_SEND_BM_def bit.conj_disj_distrib2)

lemma raise_isr_simps [simp]:
  "recv_sem (raise_isr ctx) = (recv_sem ctx \<or> recv_pending ctx)"
  "send_sem (raise_isr ctx) = (send_sem ctx \<or> send_pending ctx)"
  "\<not> recv_pending (raise_isr ctx)" "\<not> send_pending (raise_isr ctx)"
  "recv_buffer (raise_isr ctx) = recv_buffer ctx" "send_buffer (raise_isr ctx) = send_buffer ctx"
  "recv_blocked (raise_isr ctx) = recv_blocked ctx"
  "send_blocked (raise_isr ctx) = send_blocked ctx"
  "num_in (raise_isr ctx) = num_in ctx" "num_out (raise_isr ctx) = num_out ctx"
  "send_filter_cb (raise_isr ctx) = send_filter_cb ctx"
  "receive_filter_cb (raise_isr ctx) = receive_filter_cb ctx"
  by (auto simp: raise_isr_def rtos_i2s_isr_def recv_pending_def send_pending_def Let_def)

text \<open>
  \<open>mi\<close> and \<open>mo\<close> are the words of a frame on the wire, \<open>ni\<close> and \<open>no\<close> those of a request.
\<close>

definition recv_ok :: "nat \<Rightarrow> nat \<Rightarrow> rtos_i2s \<Rightarrow> sample list \<Rightarrow> nat \<Rightarrow> bool" where
  "recv_ok mi ni ctx H r \<longleftrightarrow>
     ring (recv_buffer ctx) H r r (length H) \<and> 0 < mi \<and> mi dvd buf_size (recv_buffer ctx) \<and>
     mi dvd length H \<and> ni \<le> buf_size (recv_buffer ctx) \<and> receive_filter_cb ctx = None \<and>
     wake (recv_blocked ctx) (recv_sem ctx) (recv_pending ctx) (required_count (recv_buffer ctx)) ni
       (length H - r)"

definition send_ok :: "nat \<Rightarrow> nat \<Rightarrow> rtos_i2s \<Rightarrow> sample list \<Rightarrow> nat \<Rightarrow> bool" where
  "send_ok mo no ctx H r \<longleftrightarrow>
     ring (send_buffer ctx) H r r (length H) \<and> 0 < mo \<and> mo dvd buf_size (send_buffer ctx) \<and>
     mo dvd r \<and> no \<le> buf_size (send_buffer ctx) \<and> send_filter_cb ctx = None \<and>
     wake (send_blocked ctx) (send_sem ctx) (send_pending ctx) (required_count (send_buffer ctx)) no
       (buf_size (send_buffer ctx) - (length H - r))"

lemma raise_isr_ok:
  "recv_ok mi ni ctx H r \<Longrightarrow> recv_ok mi ni (raise_isr ctx) H r"
  "send_ok mo no ctx H r \<Longrightarrow> send_ok mo no (raise_isr ctx) H r"
  by (auto simp: recv_ok_def send_ok_def wake_def split: if_splits)

lemma wake_signal:
  assumes "wake blocked sem pending req n there" and "n < 2 ^ 32" and "unat w = there"
    and "0 < req" and "req \<le> w"
  shows "wake blocked sem True 0 n there"
  using assms by (auto simp: wake_def word_le_nat_alt unat_of_nat split: if_splits)

lemma wake_more:
  "wake blocked sem pending req n there \<Longrightarrow> there \<le> there' \<Longrightarrow>
     wake blocked sem pending req n there'"
  by (auto simp: wake_def split: if_splits)

lemma recv_check_ok:
  assumes "recv_ok mi ni ctx H r"
  shows "recv_ok mi ni (recv_check ctx) H r"
proof -
  have ring: "ring (recv_buffer ctx) H r r (length H)" and "ni \<le> buf_size (recv_buffer ctx)"
    using assms by (simp_all add: recv_ok_def)
  then have "ni < 2 ^ 32" by (simp add: ring_def)
  with wake_signal [OF _ this ring_available [OF ring]] assms show ?thesis
    by (auto simp: recv_check_def recv_ok_def recv_pending_def Let_def)
qed

lemma send_check_ok:
  assumes "send_ok mo no ctx H r"
  shows "send_ok mo no (send_check ctx) H r"
proof -
  have ring: "ring (send_buffer ctx) H r r (length H)" and "no \<le> buf_size (send_buffer ctx)"
    using assms by (simp_all add: send_ok_def)
  then have "no < 2 ^ 32" by (simp add: ring_def)
  with wake_signal [OF _ this ring_free [OF ring]] assms show ?thesis
    by (auto simp: send_check_def send_ok_def send_pending_def Let_def)
qed

lemma other_buffer [simp]:
  "send_ok mo no (ctx\<lparr>recv_buffer := b\<rparr>) H r = send_ok mo no ctx H r"
  "recv_ok mi ni (ctx\<lparr>send_buffer := b\<rparr>) H r = recv_ok mi ni ctx H r"
  "send_ok mo no (ctx\<lparr>recv_blocked := x\<rparr>) H r = send_ok mo no ctx H r"
  "recv_ok mi ni (ctx\<lparr>send_blocked := x\<rparr>) H r = recv_ok mi ni ctx H r"
  "send_ok mo no (ctx\<lparr>recv_sem := x\<rparr>) H r = send_ok mo no ctx H r"
  "recv_ok mi ni (ctx\<lparr>send_sem := x\<rparr>) H r = recv_ok mi ni ctx H r"
  by (simp_all add: send_ok_def recv_ok_def send_pending_def recv_pending_def)

lemma check_other [simp]:
  "send_ok mo no (recv_check ctx) H r = send_ok mo no ctx H r"
  "recv_ok mi ni (send_check ctx) H r = recv_ok mi ni ctx H r"
  "num_in (recv_check ctx) = num_in ctx" "num_out (recv_check ctx) = num_out ctx"
  "num_in (send_check ctx) = num_in ctx" "num_out (send_check ctx) = num_out ctx"
  by (simp_all add: recv_check_def send_check_def send_ok_def recv_ok_def send_pending_def
      recv_pending_def Let_def)

section \<open>The callbacks keep the buffers\<close>

lemma poke_advance:
  "rbind (poke ws b) (\<lambda>b'. Inr (b'\<lparr>write_index := advance b' (write_index b') (length ws)\<rparr>))
     = write_words ws b"
  by (simp add: poke_def write_words_def advance_def)

text \<open>A place that is a multiple of the frame length leaves room for a frame.\<close>

lemma dvd_room:
  assumes "m dvd k" and "m dvd sz" and "0 < sz"
  shows "m \<le> sz - k mod (sz :: nat)"
proof -
  have "m dvd sz - k mod sz" using assms(1,2) by (simp add: dvd_mod dvd_diff_nat)
  moreover have "0 < sz - k mod sz" using assms(3) by simp
  ultimately show ?thesis by (simp add: dvd_imp_le)
qed

lemma i2s_receive_ok:
  assumes "recv_ok mi ni ctx H r" and "length frame = mi"
  shows "\<exists>a ctx'. subseq a [frame] \<and> i2s_receive frame ctx = Inr ctx'
    \<and> recv_ok mi ni ctx' (H @ concat a) r \<and> num_in ctx' = num_in ctx \<and> num_out ctx' = num_out ctx
    \<and> (\<forall>H' r'. send_ok mo no ctx H' r' \<longrightarrow> send_ok mo no ctx' H' r')"
proof -
  let ?b = "recv_buffer ctx"
  have ring: "ring ?b H r r (length H)" and m: "0 < mi" "mi dvd buf_size ?b" "mi dvd length H"
    using assms(1) by (auto simp: recv_ok_def)
  have le: "r \<le> length H" "length H \<le> r + buf_size ?b" and sz: "0 < buf_size ?b"
    using ring by (auto simp: ring_def)
  note free = ring_free [OF ring]
  show ?thesis
  proof (cases "mi \<le> unat (words_free ?b)")
    case True
    then have "length H + length frame \<le> r + buf_size ?b"
      using free le assms(2) by linarith
    moreover have "length frame \<le> buf_size ?b - write_index ?b"
      using dvd_room [OF m(3,2) sz] ring assms(2) by (simp add: ring_def)
    ultimately obtain b1 where b1: "write_words frame ?b = Inr b1" "ring b1 (H @ frame) r r (length H)"
      "buf_size b1 = buf_size ?b" "required_count b1 = required_count ?b"
      using ring_write_words [OF ring] by blast
    then obtain b0 where b0: "poke frame ?b = Inr b0"
      "b1 = b0\<lparr>write_index := advance b0 (write_index b0) (length frame)\<rparr>"
      using poke_advance [of frame ?b] by (auto simp: res_simps)
    let ?b2 = "b1\<lparr>total_written := total_written b1 + of_nat mi\<rparr>"
    have "ring ?b2 (H @ frame) r r (length (H @ frame))"
      using assms(2) by (intro ring_commit_write [OF b1(2)]) simp_all
    then have "recv_ok mi ni (ctx\<lparr>recv_buffer := ?b2\<rparr>) (H @ frame) r"
      using assms b1(3,4) m
      by (auto simp: recv_ok_def recv_pending_def elim: wake_more)
    then have ok: "recv_ok mi ni (recv_check (ctx\<lparr>recv_buffer := ?b2\<rparr>)) (H @ frame) r"
      by (rule recv_check_ok)
    let ?c = "recv_check (ctx\<lparr>recv_buffer := ?b2\<rparr>)"
    have "i2s_receive frame ctx = Inr (if num_out ?c = 0 \<and> isr_cmd ?c \<noteq> 0 then raise_isr ?c else ?c)"
      using True assms b0 m(1)
      by (simp add: i2s_receive_def receive_store_def recv_ok_def Let_def)
    then show ?thesis
      using ok by (intro exI [of _ "[frame]"]) (auto intro: raise_isr_ok)
  next
    case False
    let ?c = "recv_check ctx"
    have "i2s_receive frame ctx = Inr (if num_out ?c = 0 \<and> isr_cmd ?c \<noteq> 0 then raise_isr ?c else ?c)"
      using False assms by (simp add: i2s_receive_def receive_store_def recv_ok_def Let_def)
    then show ?thesis
      using recv_check_ok [OF assms(1)] by (intro exI [of _ "[]"]) (auto intro: raise_isr_ok)
  qed
qed

lemma i2s_send_ok:
  assumes "send_ok mo no ctx H r"
  shows "\<exists>d ctx'. i2s_send mo ctx = Inr (d, ctx')
    \<and> taken_at H r d
    \<and> send_ok mo no ctx' H (r + length d) \<and> num_in ctx' = num_in ctx \<and> num_out ctx' = num_out ctx
    \<and> (\<forall>H' r'. recv_ok mi ni ctx H' r' \<longrightarrow> recv_ok mi ni ctx' H' r')"
proof -
  let ?b = "send_buffer ctx"
  have ring: "ring ?b H r r (length H)" and m: "0 < mo" "mo dvd buf_size ?b" "mo dvd r"
    using assms(1) by (auto simp: send_ok_def)
  have le: "r \<le> length H" and sz: "0 < buf_size ?b" and ri: "read_index ?b = r mod buf_size ?b"
    using ring by (auto simp: ring_def)
  note av = ring_available [OF ring]
  show ?thesis
  proof (cases "mo \<le> length H - r")
    case True
    then have "r + mo \<le> length H" using le by linarith
    moreover have "mo \<le> buf_size ?b - read_index ?b"
      using dvd_room [OF m(3,2) sz] ri by simp
    ultimately obtain b1 where b1: "read_words mo ?b = Inr (take mo (drop r H), b1)"
      "ring b1 H (r + mo) r (length H)" "b1 = ?b\<lparr>read_index := read_index b1\<rparr>"
      using ring_read_words [OF ring] by blast
    then have get: "read_index ?b + mo \<le> length (samples ?b)"
      "take mo (drop (read_index ?b) (samples ?b)) = take mo (drop r H)"
      "b1 = ?b\<lparr>read_index := advance ?b (read_index ?b) mo\<rparr>"
      by (auto simp: read_words_def split: if_splits)
    let ?b2 = "b1\<lparr>total_read := total_read b1 + of_nat mo\<rparr>"
    have "ring ?b2 H (r + mo) (r + mo) (length H)"
      by (rule ring_commit_read [OF b1(2) refl refl])
    then have "send_ok mo no (ctx\<lparr>send_buffer := ?b2\<rparr>) H (r + mo)"
      using assms m get(3) by (auto simp: send_ok_def send_pending_def elim: wake_more)
    then have ok: "send_ok mo no (send_check (ctx\<lparr>send_buffer := ?b2\<rparr>)) H (r + mo)"
      by (rule send_check_ok)
    let ?c = "send_check (ctx\<lparr>send_buffer := ?b2\<rparr>)"
    have "i2s_send mo ctx = Inr (take mo (drop r H), if isr_cmd ?c \<noteq> 0 then raise_isr ?c else ?c)"
      using True av assms get m(1)
      by (simp add: i2s_send_def send_fetch_def send_ok_def Let_def)
    moreover have "length (take mo (drop r H)) = mo" "taken_at H r (take mo (drop r H))"
      using \<open>r + mo \<le> length H\<close> taken_at_take by auto
    ultimately show ?thesis
      using ok by (intro exI [of _ "take mo (drop r H)"]) (auto simp del: length_take intro: raise_isr_ok)
  next
    case False
    let ?c = "send_check ctx"
    have "i2s_send mo ctx = Inr ([], if isr_cmd ?c \<noteq> 0 then raise_isr ?c else ?c)"
      using False av assms by (simp add: i2s_send_def send_fetch_def send_ok_def Let_def)
    then show ?thesis
      using send_check_ok [OF assms(1)] le by (auto intro: raise_isr_ok)
  qed
qed

section \<open>Both directions together\<close>

text \<open>A driver without input (output) lines has no receive (send) buffer to speak of.\<close>

definition i2s_ok ::
  "nat \<Rightarrow> nat \<Rightarrow> nat \<Rightarrow> nat \<Rightarrow> rtos_i2s \<Rightarrow> sample list \<Rightarrow> nat \<Rightarrow> sample list \<Rightarrow> nat \<Rightarrow> bool" where
  "i2s_ok mi ni mo no ctx Hi ri Ho ro \<longleftrightarrow>
     (0 < num_in ctx \<longrightarrow> recv_ok mi ni ctx Hi ri) \<and> (0 < num_out ctx \<longrightarrow> send_ok mo no ctx Ho ro)
     \<and> ri \<le> length Hi \<and> ro \<le> length Ho"

definition call_ok :: "nat \<Rightarrow> nat \<Rightarrow> nat \<Rightarrow> nat \<Rightarrow> i2s_callback \<Rightarrow> bool" where
  "call_ok mi mo lines_in lines_out cb =
     (case cb of Cb_receive frame \<Rightarrow> 0 < lines_in \<and> length frame = mi
               | Cb_send n \<Rightarrow> 0 < lines_out \<and> n = mo)"

fun frames_in :: "i2s_callback list \<Rightarrow> sample list list" where
  "frames_in [] = []"
| "frames_in (Cb_receive frame # cbs) = frame # frames_in cbs"
| "frames_in (Cb_send n # cbs) = frames_in cbs"

lemma i2s_call_ok:
  assumes "i2s_ok mi ni mo no ctx Hi ri Ho ro" and "call_ok mi mo (num_in ctx) (num_out ctx) cb"
  shows "\<exists>a d ctx'. subseq a (frames_in [cb]) \<and> i2s_call cb ctx = Inr (d, ctx')
    \<and> taken_at Ho ro d \<and> i2s_ok mi ni mo no ctx' (Hi @ concat a) ri Ho (ro + length d)
    \<and> num_in ctx' = num_in ctx \<and> num_out ctx' = num_out ctx"
proof (cases cb)
  case (Cb_receive frame)
  with assms have "recv_ok mi ni ctx Hi ri" "length frame = mi"
    by (auto simp: i2s_ok_def call_ok_def)
  from i2s_receive_ok [OF this, of mo no]
  obtain a ctx' where "subseq a [frame]" "i2s_receive frame ctx = Inr ctx'"
    "recv_ok mi ni ctx' (Hi @ concat a) ri" "num_in ctx' = num_in ctx" "num_out ctx' = num_out ctx"
    "\<forall>H' r'. send_ok mo no ctx H' r' \<longrightarrow> send_ok mo no ctx' H' r'"
    by blast
  with assms Cb_receive show ?thesis
    by (intro exI [of _ a] exI [of _ "[]"] exI [of _ ctx'])
      (auto simp: i2s_call_def i2s_ok_def)
next
  case (Cb_send n)
  with assms have "send_ok mo no ctx Ho ro" "n = mo"
    by (auto simp: i2s_ok_def call_ok_def)
  moreover from i2s_send_ok [OF this(1), of mi ni]
  obtain d ctx' where "i2s_send mo ctx = Inr (d, ctx')" "taken_at Ho ro d" "send_ok mo no ctx' Ho (ro + length d)"
    "num_in ctx' = num_in ctx" "num_out ctx' = num_out ctx"
    "\<forall>H' r'. recv_ok mi ni ctx H' r' \<longrightarrow> recv_ok mi ni ctx' H' r'"
    by blast
  ultimately show ?thesis
    using assms Cb_send
    by (intro exI [of _ "[]"] exI [of _ d] exI [of _ ctx'])
      (auto simp: i2s_call_def i2s_ok_def dest: taken_at_bound)
qed

lemma i2s_wait_ok:
  assumes "i2s_ok mi ni mo no ctx Hi ri Ho ro" and "list_all (call_ok mi mo (num_in ctx) (num_out ctx)) cbs"
  shows "\<exists>a d ctx'. subseq a (frames_in cbs) \<and> i2s_wait sem cbs ctx = Inr (d, ctx')
    \<and> taken_at Ho ro d \<and> i2s_ok mi ni mo no ctx' (Hi @ concat a) ri Ho (ro + length d)
    \<and> num_in ctx' = num_in ctx \<and> num_out ctx' = num_out ctx"
  using assms
proof (induction cbs arbitrary: ctx Hi ro)
  case Nil
  then show ?case
    by (intro exI [of _ "[]"] exI [of _ ctx]) (auto simp: i2s_wait.simps i2s_ok_def)
next
  case (Cons cb cbs)
  show ?case
  proof (cases "sem ctx")
    case True
    then show ?thesis
      using Cons.prems by (intro exI [of _ "[]"] exI [of _ ctx]) (auto simp: i2s_wait.simps i2s_ok_def)
  next
    case False
    from Cons.prems obtain a d ctx1 where 1: "subseq a (frames_in [cb])"
      "i2s_call cb ctx = Inr (d, ctx1)" "taken_at Ho ro d"
      "i2s_ok mi ni mo no ctx1 (Hi @ concat a) ri Ho (ro + length d)"
      "num_in ctx1 = num_in ctx" "num_out ctx1 = num_out ctx"
      using i2s_call_ok [of mi ni mo no ctx Hi ri Ho ro cb] by auto
    have "list_all (call_ok mi mo (num_in ctx1) (num_out ctx1)) cbs" using Cons.prems(2) 1(5,6) by simp
    from Cons.IH [OF 1(4) this] obtain a2 d2 ctx2 where 2: "subseq a2 (frames_in cbs)"
      "i2s_wait sem cbs ctx1 = Inr (d2, ctx2)" "taken_at Ho (ro + length d) d2"
      "i2s_ok mi ni mo no ctx2 ((Hi @ concat a) @ concat a2) ri Ho (ro + length d + length d2)"
      "num_in ctx2 = num_in ctx1" "num_out ctx2 = num_out ctx1"
      by blast
    have "frames_in (cb # cbs) = frames_in [cb] @ frames_in cbs"
      by (cases cb) simp_all
    then have "subseq (a @ a2) (frames_in (cb # cbs))"
      using 1(1) 2(1) by (simp add: list_emb_append_mono)
    moreover have "taken_at Ho ro (d @ d2)"
      using taken_at_append [OF 1(3) 2(3)] .
    moreover have "i2s_wait sem (cb # cbs) ctx = Inr (d @ d2, ctx2)"
      using False 1(2) 2(2) by (simp add: i2s_wait.simps [of _ "cb # cbs"])
    ultimately show ?thesis
      using 1(5,6) 2(4,5,6)
      by (intro exI [of _ "a @ a2"] exI [of _ "d @ d2"] exI [of _ ctx2]) (simp add: add.assoc)
  qed
qed


section \<open>The calls keep the buffers\<close>

lemma rx_arm_ok:
  assumes "recv_ok mi ni ctx H r" and "unat n = ni"
  shows "recv_ok mi ni (rx_arm n ctx) H r"
    and "\<not> recv_blocked (rx_arm n ctx) \<Longrightarrow> r + ni \<le> length H"
proof -
  have ring: "ring (recv_buffer ctx) H r r (length H)" using assms(1) by (simp add: recv_ok_def)
  have n: "n = of_nat ni" and r: "r \<le> length H"
    using assms(2) ring by (auto simp: ring_def)
  show "recv_ok mi ni (rx_arm n ctx) H r" "\<not> recv_blocked (rx_arm n ctx) \<Longrightarrow> r + ni \<le> length H"
    using assms ring_available [OF ring] n r
    by (auto simp: rx_arm_def recv_ok_def wake_def recv_pending_def word_less_nat_alt split: if_splits)
qed

lemma tx_arm_ok:
  assumes "send_ok mo no ctx H r" and "unat n = no"
  shows "send_ok mo no (tx_arm n ctx) H r"
    and "\<not> send_blocked (tx_arm n ctx) \<Longrightarrow> length H + no \<le> r + buf_size (send_buffer ctx)"
proof -
  have ring: "ring (send_buffer ctx) H r r (length H)" using assms(1) by (simp add: send_ok_def)
  have n: "n = of_nat no" and r: "r \<le> length H" "length H \<le> r + buf_size (send_buffer ctx)"
    using assms(2) ring by (auto simp: ring_def)
  show "send_ok mo no (tx_arm n ctx) H r"
    "\<not> send_blocked (tx_arm n ctx) \<Longrightarrow> length H + no \<le> r + buf_size (send_buffer ctx)"
    using assms ring_free [OF ring] n r
    by (auto simp: tx_arm_def send_ok_def wake_def send_pending_def word_less_nat_alt split: if_splits)
qed

lemma arm_simps [simp]:
  "num_in (rx_arm n ctx) = num_in ctx" "num_out (rx_arm n ctx) = num_out ctx"
  "num_in (tx_arm n ctx) = num_in ctx" "num_out (tx_arm n ctx) = num_out ctx"
  "send_ok mo no (rx_arm n ctx) H r = send_ok mo no ctx H r"
  "recv_ok mi ni (tx_arm n ctx) H r = recv_ok mi ni ctx H r"
  "buf_size (send_buffer (tx_arm n ctx)) = buf_size (send_buffer ctx)"
  by (simp_all add: rx_arm_def tx_arm_def)

lemma recv_get_ok:
  assumes "recv_ok mi ni ctx H r" and "recv_blocked ctx"
  shows "recv_ok mi ni (recv_get ctx) H r"
    and "\<not> recv_blocked (recv_get ctx) \<Longrightarrow> r + ni \<le> length H"
proof -
  have "r \<le> length H" using assms(1) by (auto simp: recv_ok_def ring_def)
  then show "recv_ok mi ni (recv_get ctx) H r"
    "\<not> recv_blocked (recv_get ctx) \<Longrightarrow> r + ni \<le> length H"
    using assms by (auto simp: recv_get_def recv_ok_def wake_def recv_pending_def split: if_splits)
qed

lemma send_get_ok:
  assumes "send_ok mo no ctx H r" and "send_blocked ctx"
  shows "send_ok mo no (send_get ctx) H r"
    and "\<not> send_blocked (send_get ctx) \<Longrightarrow> length H + no \<le> r + buf_size (send_buffer ctx)"
proof -
  have "r \<le> length H" "length H \<le> r + buf_size (send_buffer ctx)"
    using assms(1) by (auto simp: send_ok_def ring_def)
  then show "send_ok mo no (send_get ctx) H r"
    "\<not> send_blocked (send_get ctx) \<Longrightarrow> length H + no \<le> r + buf_size (send_buffer ctx)"
    using assms by (auto simp: send_get_def send_ok_def wake_def send_pending_def split: if_splits)
qed

lemma get_simps [simp]:
  "num_in (recv_get ctx) = num_in ctx" "num_out (recv_get ctx) = num_out ctx"
  "num_in (send_get ctx) = num_in ctx" "num_out (send_get ctx) = num_out ctx"
  "send_ok mo no (recv_get ctx) H r = send_ok mo no ctx H r"
  "recv_ok mi ni (send_get ctx) H r = recv_ok mi ni ctx H r"
  by (simp_all add: recv_get_def send_get_def)

text \<open>The callbacks do not change who is blocked.\<close>

lemma i2s_call_blocked:
  "i2s_call cb ctx = Inr (d, ctx') \<Longrightarrow>
     recv_blocked ctx' = recv_blocked ctx \<and> send_blocked ctx' = send_blocked ctx"
  by (auto simp: i2s_call_def i2s_receive_def i2s_send_def recv_check_def send_check_def
      res_simps Let_def split: i2s_callback.splits if_splits prod.splits)

lemma i2s_wait_blocked:
  "i2s_wait sem cbs ctx = Inr (d, ctx') \<Longrightarrow>
     recv_blocked ctx' = recv_blocked ctx \<and> send_blocked ctx' = send_blocked ctx"
proof (induction cbs arbitrary: ctx d)
  case (Cons cb cbs)
  then show ?case
    by (auto simp: i2s_wait.simps [of _ "cb # cbs"] res_simps dest: i2s_call_blocked split: if_splits)
qed (auto simp: i2s_wait.simps split: if_splits)

text \<open>Up to the copy: the task that goes on finds its words, or its spaces.\<close>

lemma rx_ready_ok:
  assumes "i2s_ok mi ni mo no ctx Hi ri Ho ro" and "list_all (call_ok mi mo (num_in ctx) (num_out ctx)) cbs"
    and "0 < num_in ctx" and "unat n = ni"
  shows "\<exists>a d ctx'. subseq a (frames_in cbs) \<and> rx_ready n cbs ctx = Inr (d, ctx')
    \<and> taken_at Ho ro d \<and> i2s_ok mi ni mo no ctx' (Hi @ concat a) ri Ho (ro + length d)
    \<and> num_in ctx' = num_in ctx \<and> num_out ctx' = num_out ctx
    \<and> (\<not> recv_blocked ctx' \<longrightarrow> ri + ni \<le> length (Hi @ concat a))"
proof -
  let ?c = "rx_arm n ctx"
  have recv: "recv_ok mi ni ctx Hi ri" using assms(1,3) by (simp add: i2s_ok_def)
  note arm = rx_arm_ok [OF recv assms(4)]
  have c: "i2s_ok mi ni mo no ?c Hi ri Ho ro"
    using assms(1) arm(1) by (simp add: i2s_ok_def)
  show ?thesis
  proof (cases "recv_blocked ?c")
    case True
    have "list_all (call_ok mi mo (num_in ?c) (num_out ?c)) cbs" using assms(2) by simp
    from i2s_wait_ok [OF c this, of recv_sem]
    obtain a d c2 where w: "subseq a (frames_in cbs)" "i2s_wait recv_sem cbs ?c = Inr (d, c2)"
      "taken_at Ho ro d" "i2s_ok mi ni mo no c2 (Hi @ concat a) ri Ho (ro + length d)"
      "num_in c2 = num_in ctx" "num_out c2 = num_out ctx"
      by auto
    have "recv_ok mi ni c2 (Hi @ concat a) ri" using w(4,5) assms(3) by (simp add: i2s_ok_def)
    note get = recv_get_ok [OF this]
    have "recv_blocked c2" using i2s_wait_blocked [OF w(2)] True by simp
    then show ?thesis
      using True w get
      by (intro exI [of _ a] exI [of _ d] exI [of _ "recv_get c2"])
        (auto simp: rx_ready_def i2s_ok_def)
  next
    case False
    then show ?thesis
      using c arm(2) by (intro exI [of _ "[]"] exI [of _ ?c]) (auto simp: rx_ready_def i2s_ok_def)
  qed
qed

lemma tx_ready_ok:
  assumes "i2s_ok mi ni mo no ctx Hi ri Ho ro" and "list_all (call_ok mi mo (num_in ctx) (num_out ctx)) cbs"
    and "0 < num_out ctx" and "unat n = no"
  shows "\<exists>a d ctx'. subseq a (frames_in cbs) \<and> tx_ready n cbs ctx = Inr (d, ctx')
    \<and> taken_at Ho ro d \<and> i2s_ok mi ni mo no ctx' (Hi @ concat a) ri Ho (ro + length d)
    \<and> num_in ctx' = num_in ctx \<and> num_out ctx' = num_out ctx
    \<and> (\<not> send_blocked ctx' \<longrightarrow> length Ho + no \<le> ro + length d + buf_size (send_buffer ctx'))"
proof -
  let ?c = "tx_arm n ctx"
  have send: "send_ok mo no ctx Ho ro" using assms(1,3) by (simp add: i2s_ok_def)
  note arm = tx_arm_ok [OF send assms(4)]
  have c: "i2s_ok mi ni mo no ?c Hi ri Ho ro"
    using assms(1) arm(1) by (simp add: i2s_ok_def)
  show ?thesis
  proof (cases "send_blocked ?c")
    case True
    have "list_all (call_ok mi mo (num_in ?c) (num_out ?c)) cbs" using assms(2) by simp
    from i2s_wait_ok [OF c this, of send_sem]
    obtain a d c2 where w: "subseq a (frames_in cbs)" "i2s_wait send_sem cbs ?c = Inr (d, c2)"
      "taken_at Ho ro d" "i2s_ok mi ni mo no c2 (Hi @ concat a) ri Ho (ro + length d)"
      "num_in c2 = num_in ctx" "num_out c2 = num_out ctx"
      by auto
    have "send_ok mo no c2 Ho (ro + length d)" using w(4,6) assms(3) by (simp add: i2s_ok_def)
    note get = send_get_ok [OF this]
    have "send_blocked c2" using i2s_wait_blocked [OF w(2)] True by simp
    moreover have "buf_size (send_buffer (send_get c2)) = buf_size (send_buffer c2)"
      by (simp add: send_get_def)
    ultimately show ?thesis
      using True w get
      by (intro exI [of _ a] exI [of _ d] exI [of _ "send_get c2"])
        (auto simp: tx_ready_def i2s_ok_def)
  next
    case False
    then show ?thesis
      using c arm(2) by (intro exI [of _ "[]"] exI [of _ ?c]) (auto simp: tx_ready_def i2s_ok_def)
  qed
qed

lemma i2s_local_rx_ok:
  assumes "i2s_ok mi ni mo no ctx Hi ri Ho ro" and "list_all (call_ok mi mo (num_in ctx) (num_out ctx)) cbs"
    and "0 < num_in ctx" and "unat (fc * (2 * of_nat (num_in ctx))) = ni"
  shows "\<exists>a ret ws d ctx'. subseq a (frames_in cbs)
    \<and> i2s_local_rx fc cbs ctx = Some (Inr (ret, ws, d, ctx'))
    \<and> (ret = fc \<and> length ws = ni \<or> ret = 0 \<and> ws = [])
    \<and> taken_at (Hi @ concat a) ri ws \<and> taken_at Ho ro d
    \<and> i2s_ok mi ni mo no ctx' (Hi @ concat a) (ri + length ws) Ho (ro + length d)
    \<and> num_in ctx' = num_in ctx \<and> num_out ctx' = num_out ctx"
proof -
  let ?n = "fc * (2 * of_nat (num_in ctx))"
  have recv: "recv_ok mi ni ctx Hi ri" using assms(1,3) by (simp add: i2s_ok_def)
  then have fits: "unat ?n \<le> buf_size (recv_buffer ctx)" using assms(4) by (simp add: recv_ok_def)
  from rx_ready_ok [OF assms]
  obtain a d c2 where r: "subseq a (frames_in cbs)" "rx_ready ?n cbs ctx = Inr (d, c2)"
    "taken_at Ho ro d" "i2s_ok mi ni mo no c2 (Hi @ concat a) ri Ho (ro + length d)"
    "num_in c2 = num_in ctx" "num_out c2 = num_out ctx"
    "\<not> recv_blocked c2 \<longrightarrow> ri + ni \<le> length (Hi @ concat a)"
    by blast
  let ?H = "Hi @ concat a"
  have recv2: "recv_ok mi ni c2 ?H ri" using r(4,5) assms(3) by (simp add: i2s_ok_def)
  show ?thesis
  proof (cases "recv_blocked c2")
    case True
    then have "i2s_local_rx fc cbs ctx = Some (Inr (0, [], d, c2))"
      using fits r(2) by (simp add: i2s_local_rx_def Let_def)
    then show ?thesis
      using r by (intro exI [of _ a] exI [of _ 0] exI [of _ "[]"] exI [of _ d] exI [of _ c2])
        (auto simp: i2s_ok_def)
  next
    case False
    then have room: "ri + ni \<le> length ?H" using r(7) by blast
    have "ring (recv_buffer c2) ?H ri ri (length ?H)" using recv2 by (simp add: recv_ok_def)
    from ring_read_loop [OF this room, of "[]"]
    obtain b where b: "read_loop ni [] (recv_buffer c2) = Some (Inr (take ni (drop ri ?H), b))"
      "ring b ?H (ri + ni) ri (length ?H)" "b = (recv_buffer c2)\<lparr>read_index := read_index b\<rparr>"
      by (simp only: append_Nil) blast
    let ?ws = "take ni (drop ri ?H)" and ?c = "c2\<lparr>recv_buffer := b\<lparr>total_read := total_read b + ?n\<rparr>\<rparr>"
    have len: "length ?ws = ni" using room by simp
    have "?n = of_nat ni" by (simp flip: assms(4))
    then have ring3: "ring (b\<lparr>total_read := total_read b + ?n\<rparr>) ?H (ri + ni) (ri + ni) (length ?H)"
      by (rule ring_commit_read [OF b(2) refl])
    have same: "buf_size b = buf_size (recv_buffer c2)"
      "required_count b = required_count (recv_buffer c2)"
      by (subst b(3), simp)+
    have "recv_ok mi ni ?c ?H (ri + ni)"
      using recv2 ring3 same False by (auto simp: recv_ok_def recv_pending_def wake_def)
    then have "i2s_ok mi ni mo no ?c ?H (ri + length ?ws) Ho (ro + length d)"
      using r(4) room len by (simp add: i2s_ok_def del: length_take)
    moreover have "i2s_local_rx fc cbs ctx = Some (Inr (fc, ?ws, d, ?c))"
      using fits r(2) b(1) False assms(4) by (simp add: i2s_local_rx_def Let_def)
    moreover have "num_in ?c = num_in ctx" "num_out ?c = num_out ctx" using r(5,6) by simp_all
    ultimately show ?thesis
      using r(1,3) taken_at_take [OF room] len by blast
  qed
qed

lemma i2s_local_tx_ok:
  assumes "i2s_ok mi ni mo no ctx Hi ri Ho ro" and "list_all (call_ok mi mo (num_in ctx) (num_out ctx)) cbs"
    and "0 < num_out ctx" and "unat (fc * (2 * of_nat (num_out ctx))) = no" and "length src = no"
  shows "\<exists>a x ret d ctx'. subseq a (frames_in cbs) \<and> subseq x [src]
    \<and> i2s_local_tx src fc cbs ctx = Some (Inr (ret, d, ctx'))
    \<and> (ret = fc \<and> x = [src] \<or> ret = 0 \<and> x = []) \<and> taken_at Ho ro d
    \<and> i2s_ok mi ni mo no ctx' (Hi @ concat a) ri (Ho @ concat x) (ro + length d)
    \<and> num_in ctx' = num_in ctx \<and> num_out ctx' = num_out ctx"
proof -
  let ?n = "fc * (2 * of_nat (num_out ctx))"
  have send: "send_ok mo no ctx Ho ro" using assms(1,3) by (simp add: i2s_ok_def)
  then have fits: "unat ?n \<le> buf_size (send_buffer ctx)" using assms(4) by (simp add: send_ok_def)
  from tx_ready_ok [OF assms(1-4)]
  obtain a d c2 where r: "subseq a (frames_in cbs)" "tx_ready ?n cbs ctx = Inr (d, c2)"
    "taken_at Ho ro d" "i2s_ok mi ni mo no c2 (Hi @ concat a) ri Ho (ro + length d)"
    "num_in c2 = num_in ctx" "num_out c2 = num_out ctx"
    "\<not> send_blocked c2 \<longrightarrow> length Ho + no \<le> ro + length d + buf_size (send_buffer c2)"
    by blast
  have send2: "send_ok mo no c2 Ho (ro + length d)" using r(4,6) assms(3) by (simp add: i2s_ok_def)
  show ?thesis
  proof (cases "send_blocked c2")
    case True
    then have "i2s_local_tx src fc cbs ctx = Some (Inr (0, d, c2))"
      using fits r(2) by (simp add: i2s_local_tx_def Let_def)
    then show ?thesis
      using r by (intro exI [of _ a] exI [of _ "[]"] exI [of _ 0] exI [of _ d] exI [of _ c2]) auto
  next
    case False
    have ring: "ring (send_buffer c2) Ho (ro + length d) (ro + length d) (length Ho)"
      using send2 by (simp add: send_ok_def)
    have room: "length Ho + no \<le> ro + length d + buf_size (send_buffer c2)" using False r(7) by blast
    from ring_write_loop [OF ring _ room, of src] assms(5)
    obtain b where b: "write_loop no src (send_buffer c2) = Some (Inr b)"
      "ring b (Ho @ src) (ro + length d) (ro + length d) (length Ho)"
      "buf_size b = buf_size (send_buffer c2)" "required_count b = required_count (send_buffer c2)"
      by auto
    let ?c = "c2\<lparr>send_buffer := b\<lparr>total_written := total_written b + ?n\<rparr>\<rparr>"
    have "?n = of_nat no" by (simp flip: assms(4))
    then have ring3: "ring (b\<lparr>total_written := total_written b + ?n\<rparr>) (Ho @ src)
        (ro + length d) (ro + length d) (length (Ho @ src))"
      using assms(5) by (intro ring_commit_write [OF b(2)]) simp_all
    then have "send_ok mo no ?c (Ho @ src) (ro + length d)"
      using send2 b(3,4) False by (auto simp: send_ok_def send_pending_def wake_def)
    then have "i2s_ok mi ni mo no ?c (Hi @ concat a) ri (Ho @ concat [src]) (ro + length d)"
      using r(4) by (simp add: i2s_ok_def)
    moreover have "i2s_local_tx src fc cbs ctx = Some (Inr (fc, d, ?c))"
      using fits r(2) b(1) False assms(4) by (simp add: i2s_local_tx_def Let_def)
    moreover have "num_in ?c = num_in ctx" "num_out ?c = num_out ctx" using r(5,6) by simp_all
    ultimately show ?thesis
      using r(1,3) by blast
  qed
qed

section \<open>Runs of the driver\<close>

datatype i2s_event =
    Ev_call i2s_callback
  | Ev_rx u32 "i2s_callback list"
  | Ev_tx "sample list" u32 "i2s_callback list"

text \<open>The words received by callers, the words on the wire, the driver.\<close>

definition i2s_event ::
  "i2s_event \<Rightarrow> rtos_i2s \<Rightarrow> (sample list \<times> sample list \<times> rtos_i2s) res option" where
  "i2s_event e ctx =
     (case e of
        Ev_call cb \<Rightarrow> Some (rbind (i2s_call cb ctx) (\<lambda>(d, c). Inr ([], d, c)))
      | Ev_rx fc cbs \<Rightarrow> lbind (i2s_local_rx fc cbs ctx) (\<lambda>(ret, ws, d, c). Some (Inr (ws, d, c)))
      | Ev_tx src fc cbs \<Rightarrow> lbind (i2s_local_tx src fc cbs ctx) (\<lambda>(ret, d, c). Some (Inr ([], d, c))))"

definition event_ok :: "nat \<Rightarrow> nat \<Rightarrow> nat \<Rightarrow> nat \<Rightarrow> nat \<Rightarrow> nat \<Rightarrow> i2s_event \<Rightarrow> bool" where
  "event_ok mi ni mo no lines_in lines_out e =
     (case e of
        Ev_call cb \<Rightarrow> call_ok mi mo lines_in lines_out cb
      | Ev_rx fc cbs \<Rightarrow> 0 < lines_in \<and> unat (fc * (2 * of_nat lines_in)) = ni
          \<and> list_all (call_ok mi mo lines_in lines_out) cbs
      | Ev_tx src fc cbs \<Rightarrow> 0 < lines_out \<and> unat (fc * (2 * of_nat lines_out)) = no
          \<and> length src = no \<and> list_all (call_ok mi mo lines_in lines_out) cbs)"

definition offers_in :: "i2s_event \<Rightarrow> sample list list" where
  "offers_in e = (case e of Ev_call cb \<Rightarrow> frames_in [cb] | Ev_rx fc cbs \<Rightarrow> frames_in cbs
                         | Ev_tx src fc cbs \<Rightarrow> frames_in cbs)"

definition offers_out :: "i2s_event \<Rightarrow> sample list list" where
  "offers_out e = (case e of Ev_tx src fc cbs \<Rightarrow> [src] | _ \<Rightarrow> [])"

lemma i2s_event_ok:
  assumes "i2s_ok mi ni mo no ctx Hi ri Ho ro"
    and "event_ok mi ni mo no (num_in ctx) (num_out ctx) e"
  shows "\<exists>a x ws d ctx'. subseq a (offers_in e) \<and> subseq x (offers_out e)
    \<and> i2s_event e ctx = Some (Inr (ws, d, ctx'))
    \<and> taken_at (Hi @ concat a) ri ws \<and> taken_at (Ho @ concat x) ro d
    \<and> i2s_ok mi ni mo no ctx' (Hi @ concat a) (ri + length ws) (Ho @ concat x) (ro + length d)
    \<and> num_in ctx' = num_in ctx \<and> num_out ctx' = num_out ctx"
proof (cases e)
  case (Ev_call cb)
  then obtain a d ctx' where "subseq a (frames_in [cb])" "i2s_call cb ctx = Inr (d, ctx')"
    "taken_at Ho ro d" "i2s_ok mi ni mo no ctx' (Hi @ concat a) ri Ho (ro + length d)"
    "num_in ctx' = num_in ctx" "num_out ctx' = num_out ctx"
    using i2s_call_ok [OF assms(1), of cb] assms(2) by (auto simp: event_ok_def)
  moreover have "ri \<le> length Hi" using assms(1) by (simp add: i2s_ok_def)
  ultimately show ?thesis
    using Ev_call by (intro exI [of _ a] exI [of _ "[]"] exI [of _ "[]"] exI [of _ d] exI [of _ ctx'])
      (simp add: i2s_event_def offers_in_def)
next
  case (Ev_rx fc cbs)
  then obtain a ret ws d ctx' where "subseq a (frames_in cbs)"
    "i2s_local_rx fc cbs ctx = Some (Inr (ret, ws, d, ctx'))"
    "taken_at (Hi @ concat a) ri ws" "taken_at Ho ro d"
    "i2s_ok mi ni mo no ctx' (Hi @ concat a) (ri + length ws) Ho (ro + length d)"
    "num_in ctx' = num_in ctx" "num_out ctx' = num_out ctx"
    using i2s_local_rx_ok [OF assms(1), of cbs fc] assms(2) by (auto simp: event_ok_def)
  with Ev_rx show ?thesis
    by (intro exI [of _ a] exI [of _ "[]"] exI [of _ ws] exI [of _ d] exI [of _ ctx'])
      (auto simp: i2s_event_def offers_in_def)
next
  case (Ev_tx src fc cbs)
  then have ev: "list_all (call_ok mi mo (num_in ctx) (num_out ctx)) cbs" "0 < num_out ctx"
    "unat (fc * (2 * of_nat (num_out ctx))) = no" "length src = no"
    using assms(2) by (auto simp: event_ok_def)
  from i2s_local_tx_ok [OF assms(1) ev]
  obtain a x ret d ctx' where "subseq a (frames_in cbs)" "subseq x [src]"
    "i2s_local_tx src fc cbs ctx = Some (Inr (ret, d, ctx'))" "taken_at Ho ro d"
    "i2s_ok mi ni mo no ctx' (Hi @ concat a) ri (Ho @ concat x) (ro + length d)"
    "num_in ctx' = num_in ctx" "num_out ctx' = num_out ctx"
    by blast
  with Ev_tx show ?thesis
    by (intro exI [of _ a] exI [of _ x] exI [of _ "[]"] exI [of _ d] exI [of _ ctx'])
      (auto simp: i2s_event_def offers_in_def offers_out_def i2s_ok_def taken_at_more)
qed

definition recv_step :: "i2s_event \<Rightarrow> rtos_i2s \<Rightarrow> (sample list \<times> rtos_i2s) res option" where
  "recv_step e ctx = lbind (i2s_event e ctx) (\<lambda>(ws, d, c). Some (Inr (ws, c)))"

definition wire_step :: "i2s_event \<Rightarrow> rtos_i2s \<Rightarrow> (sample list \<times> rtos_i2s) res option" where
  "wire_step e ctx = lbind (i2s_event e ctx) (\<lambda>(ws, d, c). Some (Inr (d, c)))"

interpretation recv_pipe: sample_pipe
    "\<lambda>s H r. \<exists>Ho ro. i2s_ok mi ni mo no s H r Ho ro \<and> num_in s = lines_in \<and> num_out s = lines_out"
    recv_step offers_in "event_ok mi ni mo no lines_in lines_out"
proof unfold_locales
  fix s H r
  assume "\<exists>Ho ro. i2s_ok mi ni mo no s H r Ho ro \<and> num_in s = lines_in \<and> num_out s = lines_out"
  then show "r \<le> length H" by (auto simp: i2s_ok_def)
next
  fix s H r e
  assume "\<exists>Ho ro. i2s_ok mi ni mo no s H r Ho ro \<and> num_in s = lines_in \<and> num_out s = lines_out"
    and ok: "event_ok mi ni mo no lines_in lines_out e"
  then obtain Ho ro where "i2s_ok mi ni mo no s H r Ho ro" "num_in s = lines_in" "num_out s = lines_out"
    by blast
  with ok i2s_event_ok [of mi ni mo no s H r Ho ro e]
  show "\<exists>a d s'. subseq a (offers_in e) \<and> recv_step e s = Some (Inr (d, s'))
    \<and> taken_at (H @ concat a) r d \<and> (\<exists>Ho ro. i2s_ok mi ni mo no s' (H @ concat a) (r + length d) Ho ro
    \<and> num_in s' = lines_in \<and> num_out s' = lines_out)"
    by (fastforce simp: recv_step_def)
qed

interpretation wire_pipe: sample_pipe
    "\<lambda>s H r. \<exists>Hi ri. i2s_ok mi ni mo no s Hi ri H r \<and> num_in s = lines_in \<and> num_out s = lines_out"
    wire_step offers_out "event_ok mi ni mo no lines_in lines_out"
proof unfold_locales
  fix s H r
  assume "\<exists>Hi ri. i2s_ok mi ni mo no s Hi ri H r \<and> num_in s = lines_in \<and> num_out s = lines_out"
  then show "r \<le> length H" by (auto simp: i2s_ok_def)
next
  fix s H r e
  assume "\<exists>Hi ri. i2s_ok mi ni mo no s Hi ri H r \<and> num_in s = lines_in \<and> num_out s = lines_out"
    and ok: "event_ok mi ni mo no lines_in lines_out e"
  then obtain Hi ri where "i2s_ok mi ni mo no s Hi ri H r" "num_in s = lines_in" "num_out s = lines_out"
    by blast
  with ok i2s_event_ok [of mi ni mo no s Hi ri H r e]
  show "\<exists>a d s'. subseq a (offers_out e) \<and> wire_step e s = Some (Inr (d, s'))
    \<and> taken_at (H @ concat a) r d \<and> (\<exists>Hi ri. i2s_ok mi ni mo no s' Hi ri (H @ concat a) (r + length d)
    \<and> num_in s' = lines_in \<and> num_out s' = lines_out)"
    by (fastforce simp: wire_step_def)
qed

text \<open>A start with room for whole frames on the wire and for the requests.\<close>

definition buffer_fits :: "nat \<Rightarrow> nat \<Rightarrow> nat \<Rightarrow> u32 \<Rightarrow> sample list \<Rightarrow> bool" where
  "buffer_fits m n lines frames fresh \<longleftrightarrow>
     (let sz = unat (frames * (2 * of_nat lines)) in
      0 < lines \<longrightarrow> 0 < m \<and> m dvd sz \<and> n \<le> sz \<and> 0 < sz \<and> sz \<le> length fresh)"

lemma i2s_start_ok:
  assumes "send_filter_cb ctx = None" and "receive_filter_cb ctx = None"
    and "\<not> send_blocked ctx" and "\<not> recv_blocked ctx"
    and "buffer_fits mi ni (num_in ctx) rbs fresh_in" and "buffer_fits mo no (num_out ctx) sbs fresh_out"
  shows "i2s_ok mi ni mo no (rtos_i2s_start fresh_in fresh_out rbs sbs ctx) [] 0 [] 0"
    and "num_in (rtos_i2s_start fresh_in fresh_out rbs sbs ctx) = num_in ctx"
    and "num_out (rtos_i2s_start fresh_in fresh_out rbs sbs ctx) = num_out ctx"
proof -
  have lt: "unat w < 2 ^ 32" for w :: u32 by (rule order_less_le_trans [OF unsigned_less]) simp
  show "i2s_ok mi ni mo no (rtos_i2s_start fresh_in fresh_out rbs sbs ctx) [] 0 [] 0"
    "num_in (rtos_i2s_start fresh_in fresh_out rbs sbs ctx) = num_in ctx"
    "num_out (rtos_i2s_start fresh_in fresh_out rbs sbs ctx) = num_out ctx"
    using assms ring_new [OF _ lt, of "rbs * (2 * of_nat (num_in ctx))" fresh_in]
      ring_new [OF _ lt, of "sbs * (2 * of_nat (num_out ctx))" fresh_out]
    by (auto simp: i2s_ok_def recv_ok_def send_ok_def rtos_i2s_start_def buffer_fits_def wake_def
        recv_pending_def send_pending_def new_buffer_def Let_def)
qed

section \<open>The properties\<close>

text \<open>
  In every run of the I2S driver from its start, callbacks of the I/O core, receives and
  transmissions in any order, with requests of one size in each direction that may time out,
  nothing fails and the samples that the receives return are, in order and without a gap,
  those of the frames from the wire, some of which may be dropped whole.
\<close>

theorem i2s_received_in_order:
  assumes "send_filter_cb ctx = None" and "receive_filter_cb ctx = None"
    and "\<not> send_blocked ctx" and "\<not> recv_blocked ctx"
    and "buffer_fits mi ni (num_in ctx) rbs fresh_in" and "buffer_fits mo no (num_out ctx) sbs fresh_out"
    and "list_all (event_ok mi ni mo no (num_in ctx) (num_out ctx)) es"
  shows "\<exists>A D ctx'. subseq A (concat (map offers_in es))
    \<and> pipe_run recv_step es (rtos_i2s_start fresh_in fresh_out rbs sbs ctx) = Some (Inr (D, ctx'))
    \<and> prefix D (concat A)"
proof -
  from i2s_start_ok [OF assms(1-6)] recv_pipe.run [OF _ assms(7)]
  show ?thesis using taken_at_prefix by (metis append_Nil)
qed

text \<open>
  In every such run of the I2S driver the samples put on the wire are, in order and without
  a gap, those of the transmissions, each of which was accepted whole or, when it timed out,
  not at all.
\<close>

theorem i2s_transmitted_in_order:
  assumes "send_filter_cb ctx = None" and "receive_filter_cb ctx = None"
    and "\<not> send_blocked ctx" and "\<not> recv_blocked ctx"
    and "buffer_fits mi ni (num_in ctx) rbs fresh_in" and "buffer_fits mo no (num_out ctx) sbs fresh_out"
    and "list_all (event_ok mi ni mo no (num_in ctx) (num_out ctx)) es"
  shows "\<exists>A D ctx'. subseq A (concat (map offers_out es))
    \<and> pipe_run wire_step es (rtos_i2s_start fresh_in fresh_out rbs sbs ctx) = Some (Inr (D, ctx'))
    \<and> prefix D (concat A)"
proof -
  from i2s_start_ok [OF assms(1-6)] wire_pipe.run [OF _ assms(7)]
  show ?thesis using taken_at_prefix by (metis append_Nil)
qed

section \<open>The receive filter\<close>

definition stereo :: rtos_i2s where
  "stereo = \<lparr>num_out = 1, num_in = 1, send_filter_app_data = 22, send_filter_cb = None,
     receive_filter_app_data = 11, receive_filter_cb = None, send_sem = False, recv_sem = False,
     send_blocked = False, recv_blocked = False, send_buffer = new_buffer [0, 0, 0, 0] 4,
     recv_buffer = new_buffer [91, 92, 93, 94] 4, isr_cmd = 0\<rparr>"

text \<open>
  A receive filter that reports one sample for a frame of two, and writes the pointer it is
  given: the pointer is the one registered for the send filter, and the driver counts two
  samples, so that the next receive returns a sample that was never written.
\<close>

theorem i2s_receive_filter_miscounted:
  "\<exists>ctx1 ctx2. i2s_receive [5, 6] (rtos_i2s_receive_filter_cb_set
        (Some (\<lambda>app_data frame spaces. ([app_data], 1))) 11 stereo) = Inr ctx1
     \<and> i2s_local_rx 1 [] ctx1 = Some (Inr (1, [22, 92], [], ctx2))"
  by (simp add: stereo_def rtos_i2s_receive_filter_cb_set_def i2s_receive_def receive_store_def
      poke_def new_buffer_def put_at_def advance_def recv_check_def words_free_def
      words_available_def i2s_local_rx_def rx_ready_def rx_arm_def read_words_def read_chunk_def
      read_loop.simps [of 2] read_loop.simps [of 0] Let_def)

section \<open>Concrete runs\<close>

definition stereo_run :: "i2s_event list" where
  "stereo_run = [Ev_call (Cb_receive [1, 2]), Ev_tx [5, 6] 1 [], Ev_rx 1 [Cb_send 2],
     Ev_call (Cb_send 2)]"

theorem i2s_received_in_order_witness:
  "\<exists>A D ctx'. subseq A (concat (map offers_in stereo_run))
    \<and> pipe_run recv_step stereo_run (rtos_i2s_start [0, 0, 0, 0] [0, 0, 0, 0] 2 2 stereo)
        = Some (Inr (D, ctx'))
    \<and> prefix D (concat A)"
  by (rule i2s_received_in_order [of _ 2 2 _ _ 2 2])
    (simp_all add: stereo_def stereo_run_def buffer_fits_def event_ok_def call_ok_def)

theorem i2s_transmitted_in_order_witness:
  "\<exists>A D ctx'. subseq A (concat (map offers_out stereo_run))
    \<and> pipe_run wire_step stereo_run (rtos_i2s_start [0, 0, 0, 0] [0, 0, 0, 0] 2 2 stereo)
        = Some (Inr (D, ctx'))
    \<and> prefix D (concat A)"
  by (rule i2s_transmitted_in_order [of _ 2 2 _ _ 2 2])
    (simp_all add: stereo_def stereo_run_def buffer_fits_def event_ok_def call_ok_def)

end
