(* ===== verification/Gpio.thy ===== *)
theory Gpio
  imports Driver_Rpc
begin

text \<open>
  The local half of the GPIO driver (modules/drivers/gpio/src/rtos_gpio.c and
  api/rtos_gpio.h): ports, the callbacks of the application and the interrupt that calls them.
\<close>

section \<open>Ports\<close>

datatype xs1_port =
    XS1_PORT_1A | XS1_PORT_1B | XS1_PORT_1C | XS1_PORT_1D | XS1_PORT_1E | XS1_PORT_1F
  | XS1_PORT_1G | XS1_PORT_1H | XS1_PORT_1I | XS1_PORT_1J | XS1_PORT_1K | XS1_PORT_1L
  | XS1_PORT_1M | XS1_PORT_1N | XS1_PORT_1O | XS1_PORT_1P | XS1_PORT_4A | XS1_PORT_4B
  | XS1_PORT_4C | XS1_PORT_4D | XS1_PORT_4E | XS1_PORT_4F | XS1_PORT_8A | XS1_PORT_8B
  | XS1_PORT_8C | XS1_PORT_8D | XS1_PORT_16A | XS1_PORT_16B | XS1_PORT_16C | XS1_PORT_16D
  | XS1_PORT_32A | XS1_PORT_32B
  | XS1_PORT_other nat

definition RTOS_GPIO_TOTAL_PORT_CNT :: nat where
  "RTOS_GPIO_TOTAL_PORT_CNT = 32"

definition gpio_port_lookup :: "xs1_port list" where
  "gpio_port_lookup =
     [XS1_PORT_1A, XS1_PORT_1B, XS1_PORT_1C, XS1_PORT_1D, XS1_PORT_1E, XS1_PORT_1F,
      XS1_PORT_1G, XS1_PORT_1H, XS1_PORT_1I, XS1_PORT_1J, XS1_PORT_1K, XS1_PORT_1L,
      XS1_PORT_1M, XS1_PORT_1N, XS1_PORT_1O, XS1_PORT_1P, XS1_PORT_4A, XS1_PORT_4B,
      XS1_PORT_4C, XS1_PORT_4D, XS1_PORT_4E, XS1_PORT_4F, XS1_PORT_8A, XS1_PORT_8B,
      XS1_PORT_8C, XS1_PORT_8D, XS1_PORT_16A, XS1_PORT_16B, XS1_PORT_16C, XS1_PORT_16D,
      XS1_PORT_32A, XS1_PORT_32B]"

text \<open>
  The enumeration \<open>rtos_gpio_port_id_t\<close> counts the ports from 0; \<open>rtos_gpio_port_none\<close> is -1.
\<close>

definition rtos_gpio_port :: "xs1_port \<Rightarrow> int" where
  "rtos_gpio_port p =
     (case p of
     XS1_PORT_1A \<Rightarrow> 0
   | XS1_PORT_1B \<Rightarrow> 1
   | XS1_PORT_1C \<Rightarrow> 2
   | XS1_PORT_1D \<Rightarrow> 3
   | XS1_PORT_1E \<Rightarrow> 4
   | XS1_PORT_1F \<Rightarrow> 5
   | XS1_PORT_1G \<Rightarrow> 6
   | XS1_PORT_1H \<Rightarrow> 7
   | XS1_PORT_1I \<Rightarrow> 8
   | XS1_PORT_1J \<Rightarrow> 9
   | XS1_PORT_1K \<Rightarrow> 10
   | XS1_PORT_1L \<Rightarrow> 11
   | XS1_PORT_1M \<Rightarrow> 12
   | XS1_PORT_1N \<Rightarrow> 13
   | XS1_PORT_1O \<Rightarrow> 14
   | XS1_PORT_1P \<Rightarrow> 15
   | XS1_PORT_4A \<Rightarrow> 16
   | XS1_PORT_4B \<Rightarrow> 17
   | XS1_PORT_4C \<Rightarrow> 18
   | XS1_PORT_4D \<Rightarrow> 19
   | XS1_PORT_4E \<Rightarrow> 20
   | XS1_PORT_4F \<Rightarrow> 21
   | XS1_PORT_8A \<Rightarrow> 22
   | XS1_PORT_8B \<Rightarrow> 23
   | XS1_PORT_8C \<Rightarrow> 24
   | XS1_PORT_8D \<Rightarrow> 25
   | XS1_PORT_16A \<Rightarrow> 26
   | XS1_PORT_16B \<Rightarrow> 27
   | XS1_PORT_16C \<Rightarrow> 28
   | XS1_PORT_16D \<Rightarrow> 29
   | XS1_PORT_32A \<Rightarrow> 30
   | XS1_PORT_32B \<Rightarrow> 31
   | XS1_PORT_other n \<Rightarrow> - 1)"

definition port_valid :: "int \<Rightarrow> bool" where
  "port_valid port_id \<longleftrightarrow> -1 < port_id \<and> port_id < int RTOS_GPIO_TOTAL_PORT_CNT"

abbreviation port_of :: "int \<Rightarrow> xs1_port" where
  "port_of port_id \<equiv> gpio_port_lookup ! nat port_id"

text \<open>
  The operations of lib_xcore on the ports of a tile, and whether a port's trigger is enabled.
\<close>

record 'w xcore_ports =
  port_enable :: "xs1_port \<Rightarrow> 'w \<Rightarrow> 'w"
  port_set_clock :: "xs1_port \<Rightarrow> 'w \<Rightarrow> 'w"
  port_in :: "xs1_port \<Rightarrow> 'w \<Rightarrow> u32 \<times> 'w"
  port_peek :: "xs1_port \<Rightarrow> 'w \<Rightarrow> u32"
  port_out :: "xs1_port \<Rightarrow> u32 \<Rightarrow> 'w \<Rightarrow> 'w"
  port_write_control_word :: "xs1_port \<Rightarrow> u32 \<Rightarrow> 'w \<Rightarrow> 'w"
  port_set_trigger_in_not_equal :: "xs1_port \<Rightarrow> u32 \<Rightarrow> 'w \<Rightarrow> 'w"
  port_set_trigger_value :: "xs1_port \<Rightarrow> u32 \<Rightarrow> 'w \<Rightarrow> 'w"
  triggerable_enable_trigger :: "xs1_port \<Rightarrow> 'w \<Rightarrow> 'w"
  triggerable_disable_trigger :: "xs1_port \<Rightarrow> 'w \<Rightarrow> 'w"
  triggerable_setup_interrupt_callback :: "xs1_port \<Rightarrow> 'w \<Rightarrow> 'w"
  trigger_enabled :: "'w \<Rightarrow> xs1_port \<Rightarrow> bool"

section \<open>The driver\<close>

definition INTERRUPT_DISABLED :: nat where "INTERRUPT_DISABLED = 0"
definition INTERRUPT_ENABLED :: nat where "INTERRUPT_ENABLED = 1"
definition INTERRUPT_DISABLE_PENDING :: nat where "INTERRUPT_DISABLE_PENDING = 2"

lemmas interrupt_defs =
  INTERRUPT_DISABLED_def INTERRUPT_ENABLED_def INTERRUPT_DISABLE_PENDING_def

text \<open>A callback is a function of the application, or the one that serves a remote client.\<close>

datatype gpio_cb = App_cb u32 | Rpc_host_isr

record rtos_gpio_isr_info =
  callback :: gpio_cb
  isr_app_data :: u32
  enabled :: nat

record 'w rtos_gpio =
  isr_info :: "rtos_gpio_isr_info option list"
  ports :: 'w

text \<open>A call of a callback: the function, its data, the port and the value.\<close>

type_synonym gpio_call = "gpio_cb \<times> u32 \<times> int \<times> u32"

definition isr_info_of :: "'w rtos_gpio \<Rightarrow> int \<Rightarrow> rtos_gpio_isr_info option" where
  "isr_info_of ctx port_id = isr_info ctx ! nat port_id"

definition set_isr_info :: "int \<Rightarrow> rtos_gpio_isr_info \<Rightarrow> 'w rtos_gpio \<Rightarrow> 'w rtos_gpio" where
  "set_isr_info port_id i ctx = ctx\<lparr>isr_info := (isr_info ctx)[nat port_id := Some i]\<rparr>"

text \<open>The interrupt of a port, whose argument is the port's \<open>isr_info\<close>.\<close>

definition rtos_gpio_isr ::
  "'w xcore_ports \<Rightarrow> int \<Rightarrow> 'w rtos_gpio \<Rightarrow> (gpio_call list \<times> 'w rtos_gpio) res" where
  "rtos_gpio_isr api port_id ctx =
     (case isr_info_of ctx port_id of
        None \<Rightarrow> Inl Bad_access
      | Some cb_arg \<Rightarrow>
          let p = port_of port_id;
              (v, w) = port_in api p (ports ctx);
              ctx1 = ctx\<lparr>ports := w\<rparr>
          in if enabled cb_arg = INTERRUPT_DISABLE_PENDING
             then Inr ([], set_isr_info port_id (cb_arg\<lparr>enabled := INTERRUPT_DISABLED\<rparr>)
                    (ctx1\<lparr>ports := triggerable_disable_trigger api p (ports ctx1)\<rparr>))
             else Inr ([(callback cb_arg, isr_app_data cb_arg, port_id, v)],
                    ctx1\<lparr>ports := port_set_trigger_value api p v (ports ctx1)\<rparr>))"

definition gpio_local_port_enable ::
  "'w xcore_ports \<Rightarrow> int \<Rightarrow> 'w rtos_gpio \<Rightarrow> 'w rtos_gpio res" where
  "gpio_local_port_enable api port_id ctx =
     xassert (port_valid port_id)
       (Inr (ctx\<lparr>ports := port_set_clock api (port_of port_id)
                          (port_enable api (port_of port_id) (ports ctx))\<rparr>))"

definition gpio_local_port_in ::
  "'w xcore_ports \<Rightarrow> int \<Rightarrow> 'w rtos_gpio \<Rightarrow> (u32 \<times> 'w rtos_gpio) res" where
  "gpio_local_port_in api port_id ctx =
     xassert (port_valid port_id) (Inr (port_peek api (port_of port_id) (ports ctx), ctx))"

definition gpio_local_port_out ::
  "'w xcore_ports \<Rightarrow> int \<Rightarrow> u32 \<Rightarrow> 'w rtos_gpio \<Rightarrow> 'w rtos_gpio res" where
  "gpio_local_port_out api port_id v ctx =
     xassert (port_valid port_id)
       (Inr (ctx\<lparr>ports := port_out api (port_of port_id) v (ports ctx)\<rparr>))"

definition gpio_local_port_write_control_word ::
  "'w xcore_ports \<Rightarrow> int \<Rightarrow> u32 \<Rightarrow> 'w rtos_gpio \<Rightarrow> 'w rtos_gpio res" where
  "gpio_local_port_write_control_word api port_id v ctx =
     xassert (port_valid port_id)
       (Inr (ctx\<lparr>ports := port_write_control_word api (port_of port_id) v (ports ctx)\<rparr>))"

definition gpio_local_isr_callback_set ::
  "'w xcore_ports \<Rightarrow> int \<Rightarrow> gpio_cb \<Rightarrow> u32 \<Rightarrow> 'w rtos_gpio \<Rightarrow> 'w rtos_gpio res" where
  "gpio_local_isr_callback_set api port_id cb app_data ctx =
     xassert (port_valid port_id)
       (case isr_info_of ctx port_id of
          None \<Rightarrow> Inr (set_isr_info port_id
              \<lparr>callback = cb, isr_app_data = app_data, enabled = INTERRUPT_DISABLED\<rparr>
              (ctx\<lparr>ports := triggerable_setup_interrupt_callback api (port_of port_id) (ports ctx)\<rparr>))
        | Some i \<Rightarrow> Inr (set_isr_info port_id (i\<lparr>callback := cb, isr_app_data := app_data\<rparr>) ctx))"

definition gpio_local_interrupt_enable ::
  "'w xcore_ports \<Rightarrow> int \<Rightarrow> 'w rtos_gpio \<Rightarrow> 'w rtos_gpio res" where
  "gpio_local_interrupt_enable api port_id ctx =
     xassert (port_valid port_id)
       (let p = port_of port_id in
        case isr_info_of ctx port_id of
          None \<Rightarrow> Inl Bad_access
        | Some i \<Rightarrow>
            let w = ports ctx;
                w1 = (if enabled i = INTERRUPT_DISABLED
                      then triggerable_enable_trigger api p
                             (port_set_trigger_in_not_equal api p (port_peek api p w) w)
                      else w)
            in Inr (set_isr_info port_id (i\<lparr>enabled := INTERRUPT_ENABLED\<rparr>) (ctx\<lparr>ports := w1\<rparr>)))"

definition gpio_local_interrupt_disable :: "int \<Rightarrow> 'w rtos_gpio \<Rightarrow> 'w rtos_gpio res" where
  "gpio_local_interrupt_disable port_id ctx =
     xassert (port_valid port_id)
       (case isr_info_of ctx port_id of
          None \<Rightarrow> Inr ctx
        | Some i \<Rightarrow>
            if enabled i \<noteq> INTERRUPT_DISABLED
            then Inr (set_isr_info port_id (i\<lparr>enabled := INTERRUPT_DISABLE_PENDING\<rparr>) ctx)
            else Inr ctx)"

definition rtos_gpio_init :: "'w rtos_gpio \<Rightarrow> 'w rtos_gpio" where
  "rtos_gpio_init ctx = ctx\<lparr>isr_info := replicate RTOS_GPIO_TOTAL_PORT_CNT None\<rparr>"

definition rtos_gpio_start :: "driver \<Rightarrow> (driver \<times> (rpc_addr \<times> int) list) res" where
  "rtos_gpio_start = driver_start"

section \<open>Port numbers\<close>

lemma length_gpio_port_lookup [simp]: "length gpio_port_lookup = 32"
  by (simp add: gpio_port_lookup_def)

lemma distinct_gpio_port_lookup [simp]: "distinct gpio_port_lookup"
  by (simp add: gpio_port_lookup_def)

lemma port_valid_nat: "port_valid port_id \<longleftrightarrow> 0 \<le> port_id \<and> nat port_id < 32"
  by (auto simp: port_valid_def RTOS_GPIO_TOTAL_PORT_CNT_def)

lemma port_of_eq [simp]:
  "port_valid i \<Longrightarrow> port_valid j \<Longrightarrow> port_of i = port_of j \<longleftrightarrow> i = j"
  by (auto simp: nth_eq_iff_index_eq port_valid_nat)

lemma map_rtos_gpio_port: "map rtos_gpio_port gpio_port_lookup = map int [0..<32]"
  by (simp add: gpio_port_lookup_def rtos_gpio_port_def upt_rec)

text \<open>
  The two tables of the GPIO driver agree: the port that the driver uses for a valid number
  is converted back to that number, and every other resource to rtos_gpio_port_none, which
  no function of the driver accepts.
\<close>

theorem gpio_port_roundtrip:
  "(port_valid port_id \<longrightarrow> rtos_gpio_port (port_of port_id) = port_id)
   \<and> (port_valid (rtos_gpio_port p) \<longrightarrow> port_of (rtos_gpio_port p) = p)
   \<and> (p \<notin> set gpio_port_lookup \<longrightarrow> \<not> port_valid (rtos_gpio_port p))"
proof -
  have fwd: "rtos_gpio_port (port_of i) = i" if "port_valid i" for i
  proof -
    have "map rtos_gpio_port gpio_port_lookup ! nat i = map int [0..<32] ! nat i"
      by (simp only: map_rtos_gpio_port)
    then show ?thesis using that by (simp add: port_valid_nat)
  qed
  have "port_of (rtos_gpio_port p) = p" if "port_valid (rtos_gpio_port p)"
    using that by (cases p) (simp_all add: rtos_gpio_port_def gpio_port_lookup_def port_valid_def)
  moreover have "\<not> port_valid (rtos_gpio_port p)" if "p \<notin> set gpio_port_lookup"
    using that by (cases p) (simp_all add: rtos_gpio_port_def gpio_port_lookup_def port_valid_def)
  ultimately show ?thesis using fwd by blast
qed

theorem gpio_port_roundtrip_witness:
  "rtos_gpio_port (port_of 22) = 22 \<and> port_of (rtos_gpio_port XS1_PORT_8A) = XS1_PORT_8A
   \<and> \<not> port_valid (rtos_gpio_port (XS1_PORT_other 5))"
proof -
  have v: "port_valid 22" "rtos_gpio_port XS1_PORT_8A = 22"
    by (simp_all add: port_valid_def RTOS_GPIO_TOTAL_PORT_CNT_def rtos_gpio_port_def)
  have n: "XS1_PORT_other 5 \<notin> set gpio_port_lookup"
    by (simp add: gpio_port_lookup_def)
  show ?thesis
    using gpio_port_roundtrip [of 22 XS1_PORT_8A] gpio_port_roundtrip [of 22 "XS1_PORT_other 5"] v n
    by simp
qed

section \<open>What the interrupts of a port promise\<close>

text \<open>
  The contract: every port has a callback, a switch (\<open>sp_on\<close>) and a trigger that is armed or not. A
  trigger calls the callback exactly when the switch is on, and disarms the port when it is off; the
  value the port had is not part of it. Enabling a port resets its trigger. If the port was armed its
  interrupt is lost for good (\<open>sp_dead\<close>): the switch goes on and off, but never arms it again.
\<close>

record gpio_spec =
  sp_cb :: "int \<Rightarrow> (gpio_cb \<times> u32) option"
  sp_on :: "int \<Rightarrow> bool"
  sp_armed :: "int \<Rightarrow> bool"
  sp_dead :: "int \<Rightarrow> bool"

datatype gpio_event =
    G_port_enable int | G_port_out int u32 | G_control int u32 | G_set int gpio_cb u32
  | G_enable int | G_disable int | G_trigger int

definition spec_step ::
  "gpio_event \<Rightarrow> gpio_spec \<Rightarrow> ((gpio_cb \<times> u32 \<times> int) list \<times> gpio_spec) res" where
  "spec_step e s =
     (case e of
        G_port_enable p \<Rightarrow> xassert (port_valid p)
          (Inr ([], s\<lparr>sp_armed := (sp_armed s)(p := False),
                      sp_dead := (sp_dead s)(p := sp_dead s p \<or> sp_armed s p)\<rparr>))
      | G_port_out p v \<Rightarrow> xassert (port_valid p) (Inr ([], s))
      | G_control p v \<Rightarrow> xassert (port_valid p) (Inr ([], s))
      | G_set p cb app \<Rightarrow> xassert (port_valid p) (Inr ([], s\<lparr>sp_cb := (sp_cb s)(p \<mapsto> (cb, app))\<rparr>))
      | G_enable p \<Rightarrow> xassert (port_valid p)
          (if sp_cb s p = None then Inl Bad_access
           else Inr ([], s\<lparr>sp_on := (sp_on s)(p := True), sp_armed := (sp_armed s)(p := \<not> sp_dead s p)\<rparr>))
      | G_disable p \<Rightarrow> xassert (port_valid p) (Inr ([], s\<lparr>sp_on := (sp_on s)(p := False)\<rparr>))
      | G_trigger p \<Rightarrow>
          Inr (if \<not> sp_armed s p then ([], s)
               else if sp_on s p then (case sp_cb s p of None \<Rightarrow> [] | Some (cb, app) \<Rightarrow> [(cb, app, p)], s)
               else ([], s\<lparr>sp_armed := (sp_armed s)(p := False)\<rparr>)))"

definition gpio_step ::
  "'w xcore_ports \<Rightarrow> gpio_event \<Rightarrow> 'w rtos_gpio \<Rightarrow> (gpio_call list \<times> 'w rtos_gpio) res" where
  "gpio_step api e ctx =
     (let quiet = (\<lambda>r. rbind r (\<lambda>c. Inr ([], c))) in
      case e of
        G_port_enable p \<Rightarrow> quiet (gpio_local_port_enable api p ctx)
      | G_port_out p v \<Rightarrow> quiet (gpio_local_port_out api p v ctx)
      | G_control p v \<Rightarrow> quiet (gpio_local_port_write_control_word api p v ctx)
      | G_set p cb app \<Rightarrow> quiet (gpio_local_isr_callback_set api p cb app ctx)
      | G_enable p \<Rightarrow> quiet (gpio_local_interrupt_enable api p ctx)
      | G_disable p \<Rightarrow> quiet (gpio_local_interrupt_disable p ctx)
      | G_trigger p \<Rightarrow>
          if port_valid p \<and> trigger_enabled api (ports ctx) (port_of p)
          then rtos_gpio_isr api p ctx else Inr ([], ctx))"

text \<open>
  What the driver relies on: a trigger is changed only by enabling and disabling it, and by enabling its
  port, which resets a port that is enabled to its default state.
\<close>

definition ports_ok :: "'w xcore_ports \<Rightarrow> bool" where
  "ports_ok api \<longleftrightarrow>
     (\<forall>p w. trigger_enabled api (triggerable_enable_trigger api p w)
        = (trigger_enabled api w)(p := True)
      \<and> trigger_enabled api (triggerable_disable_trigger api p w) = (trigger_enabled api w)(p := False)
      \<and> trigger_enabled api (port_enable api p w) = (trigger_enabled api w)(p := False)
      \<and> trigger_enabled api (port_set_clock api p w) = trigger_enabled api w
      \<and> trigger_enabled api (snd (port_in api p w)) = trigger_enabled api w
      \<and> trigger_enabled api (triggerable_setup_interrupt_callback api p w) = trigger_enabled api w
      \<and> (\<forall>v. trigger_enabled api (port_out api p v w) = trigger_enabled api w
         \<and> trigger_enabled api (port_write_control_word api p v w) = trigger_enabled api w
         \<and> trigger_enabled api (port_set_trigger_in_not_equal api p v w) = trigger_enabled api w
         \<and> trigger_enabled api (port_set_trigger_value api p v w) = trigger_enabled api w))"

definition gpio_abs :: "'w xcore_ports \<Rightarrow> 'w rtos_gpio \<Rightarrow> gpio_spec" where
  "gpio_abs api ctx =
     \<lparr>sp_cb = (\<lambda>p. if port_valid p
                  then map_option (\<lambda>i. (callback i, isr_app_data i)) (isr_info_of ctx p) else None),
      sp_on = (\<lambda>p. port_valid p \<and> (\<exists>i. isr_info_of ctx p = Some i \<and> enabled i = INTERRUPT_ENABLED)),
      sp_armed = (\<lambda>p. port_valid p \<and> trigger_enabled api (ports ctx) (port_of p)),
      sp_dead = (\<lambda>p. port_valid p \<and> \<not> trigger_enabled api (ports ctx) (port_of p) \<and>
        (\<exists>i. isr_info_of ctx p = Some i \<and> enabled i \<noteq> INTERRUPT_DISABLED))\<rparr>"

definition gpio_inv :: "'w xcore_ports \<Rightarrow> 'w rtos_gpio \<Rightarrow> bool" where
  "gpio_inv api ctx \<longleftrightarrow>
     length (isr_info ctx) = RTOS_GPIO_TOTAL_PORT_CNT \<and>
     (\<forall>p i. port_valid p \<longrightarrow> isr_info_of ctx p = Some i \<longrightarrow>
        enabled i \<in> {INTERRUPT_DISABLED, INTERRUPT_ENABLED, INTERRUPT_DISABLE_PENDING}) \<and>
     (\<forall>p. port_valid p \<longrightarrow> trigger_enabled api (ports ctx) (port_of p) \<longrightarrow>
        (\<exists>i. isr_info_of ctx p = Some i \<and> enabled i \<noteq> INTERRUPT_DISABLED))"

definition strip_call :: "gpio_call \<Rightarrow> gpio_cb \<times> u32 \<times> int" where
  "strip_call c = (case c of (cb, app, p, v) \<Rightarrow> (cb, app, p))"

lemma isr_info_of_ports [simp]: "isr_info_of (ctx\<lparr>ports := w\<rparr>) p = isr_info_of ctx p"
  by (simp add: isr_info_of_def)

lemma set_isr_info_simps [simp]:
  "ports (set_isr_info p i ctx) = ports ctx"
  "length (isr_info (set_isr_info p i ctx)) = length (isr_info ctx)"
  by (simp_all add: set_isr_info_def)

lemma isr_info_of_set:
  "port_valid p \<Longrightarrow> port_valid q \<Longrightarrow> length (isr_info ctx) = RTOS_GPIO_TOTAL_PORT_CNT \<Longrightarrow>
     isr_info_of (set_isr_info p i ctx) q = (if q = p then Some i else isr_info_of ctx q)"
  by (auto simp: isr_info_of_def set_isr_info_def port_valid_nat RTOS_GPIO_TOTAL_PORT_CNT_def
      nth_list_update)

lemma gpio_abs_quiet:
  "trigger_enabled api w = trigger_enabled api (ports ctx) \<Longrightarrow> gpio_abs api (ctx\<lparr>ports := w\<rparr>) = gpio_abs api ctx"
  by (simp add: gpio_abs_def cong: if_cong)

lemma gpio_abs_set:
  assumes "port_valid p" and "length (isr_info ctx) = RTOS_GPIO_TOTAL_PORT_CNT"
    and "trigger_enabled api w = (trigger_enabled api (ports ctx))(port_of p := t)"
  shows "gpio_abs api (set_isr_info p i (ctx\<lparr>ports := w\<rparr>)) =
    (gpio_abs api ctx)\<lparr>sp_cb := (sp_cb (gpio_abs api ctx))(p \<mapsto> (callback i, isr_app_data i)),
                   sp_on := (sp_on (gpio_abs api ctx))(p := enabled i = INTERRUPT_ENABLED),
                   sp_armed := (sp_armed (gpio_abs api ctx))(p := t),
                   sp_dead := (sp_dead (gpio_abs api ctx))(p := enabled i \<noteq> INTERRUPT_DISABLED \<and> \<not> t)\<rparr>"
  using assms by (auto simp: gpio_abs_def isr_info_of_set intro!: ext split: if_splits cong: if_cong)

lemma gpio_abs_reset:
  assumes "gpio_inv api ctx" and "port_valid p"
    and "trigger_enabled api w = (trigger_enabled api (ports ctx))(port_of p := False)"
  shows "gpio_abs api (ctx\<lparr>ports := w\<rparr>) =
    (gpio_abs api ctx)\<lparr>sp_armed := (sp_armed (gpio_abs api ctx))(p := False),
      sp_dead := (sp_dead (gpio_abs api ctx))(p := sp_dead (gpio_abs api ctx) p \<or> sp_armed (gpio_abs api ctx) p)\<rparr>"
  using assms unfolding gpio_inv_def
  by (auto simp: gpio_abs_def intro!: ext split: if_splits cong: if_cong)

lemma gpio_inv_quiet:
  "gpio_inv api ctx \<Longrightarrow> trigger_enabled api w = trigger_enabled api (ports ctx) \<Longrightarrow>
     gpio_inv api (ctx\<lparr>ports := w\<rparr>)"
  by (simp add: gpio_inv_def)

lemma gpio_inv_set:
  assumes "gpio_inv api ctx" and "port_valid p"
    and "enabled i \<in> {INTERRUPT_DISABLED, INTERRUPT_ENABLED, INTERRUPT_DISABLE_PENDING}"
    and "trigger_enabled api w = (trigger_enabled api (ports ctx))(port_of p := t)" and "t \<Longrightarrow> enabled i \<noteq> INTERRUPT_DISABLED"
  shows "gpio_inv api (set_isr_info p i (ctx\<lparr>ports := w\<rparr>))"
  using assms by (auto simp: gpio_inv_def isr_info_of_set split: if_splits)

lemma gpio_inv_reset:
  "gpio_inv api ctx \<Longrightarrow> port_valid p \<Longrightarrow>
     trigger_enabled api w = (trigger_enabled api (ports ctx))(port_of p := False) \<Longrightarrow> gpio_inv api (ctx\<lparr>ports := w\<rparr>)"
  by (auto simp: gpio_inv_def)

lemma upd_same: "f = f(x := y) \<longleftrightarrow> f x = y"
  by (metis fun_upd_idem_iff)

text \<open>Each operation is its step of the contract.\<close>

lemma gpio_api_simps:
  assumes "ports_ok api"
  shows "trigger_enabled api (triggerable_enable_trigger api p w) = (trigger_enabled api w)(p := True)"
    and "trigger_enabled api (triggerable_disable_trigger api p w) = (trigger_enabled api w)(p := False)"
    and "trigger_enabled api (port_enable api p w) = (trigger_enabled api w)(p := False)"
    and "trigger_enabled api (port_set_clock api p w) = trigger_enabled api w"
    and "port_in api p w = (v, w') \<Longrightarrow> trigger_enabled api w' = trigger_enabled api w"
    and "trigger_enabled api (triggerable_setup_interrupt_callback api p w) = trigger_enabled api w"
    and "trigger_enabled api (port_out api p v w) = trigger_enabled api w"
    and "trigger_enabled api (port_write_control_word api p v w) = trigger_enabled api w"
    and "trigger_enabled api (port_set_trigger_in_not_equal api p v w) = trigger_enabled api w"
    and "trigger_enabled api (port_set_trigger_value api p v w) = trigger_enabled api w"
  using assms unfolding ports_ok_def by (metis snd_conv)+

lemma gpio_abs_info:
  "port_valid p \<Longrightarrow> isr_info_of ctx p = Some i \<Longrightarrow>
     sp_cb (gpio_abs api ctx) p = Some (callback i, isr_app_data i)
     \<and> sp_on (gpio_abs api ctx) p = (enabled i = INTERRUPT_ENABLED)
     \<and> sp_armed (gpio_abs api ctx) p = trigger_enabled api (ports ctx) (port_of p)
     \<and> sp_dead (gpio_abs api ctx) p = (enabled i \<noteq> INTERRUPT_DISABLED \<and> \<not> trigger_enabled api (ports ctx) (port_of p))"
  "isr_info_of ctx p = None \<Longrightarrow> sp_cb (gpio_abs api ctx) p = None \<and> \<not> sp_on (gpio_abs api ctx) p
     \<and> \<not> sp_dead (gpio_abs api ctx) p"
  by (auto simp: gpio_abs_def)

lemma gpio_inv_length: "gpio_inv api ctx \<Longrightarrow> length (isr_info ctx) = RTOS_GPIO_TOTAL_PORT_CNT"
  by (simp add: gpio_inv_def)

lemma gpio_trigger_refines:
  assumes "ports_ok api" and "gpio_inv api ctx" and "port_valid p"
    and armed: "trigger_enabled api (ports ctx) (port_of p)"
  shows "\<exists>calls ctx'. rtos_gpio_isr api p ctx = Inr (calls, ctx') \<and> gpio_inv api ctx'
    \<and> spec_step (G_trigger p) (gpio_abs api ctx) = Inr (map strip_call calls, gpio_abs api ctx')"
proof -
  note len = gpio_inv_length[OF assms(2)]
  from assms(2-4) obtain i where i: "isr_info_of ctx p = Some i" "enabled i \<noteq> INTERRUPT_DISABLED"
    "enabled i \<in> {INTERRUPT_DISABLED, INTERRUPT_ENABLED, INTERRUPT_DISABLE_PENDING}"
    unfolding gpio_inv_def by metis
  obtain v w where v: "port_in api (port_of p) (ports ctx) = (v, w)" by fastforce
  note tw = gpio_api_simps(5) [OF assms(1) v] and info = gpio_abs_info(1) [OF assms(3) i(1), of api]
  show ?thesis
  proof (cases "enabled i = INTERRUPT_DISABLE_PENDING")
    case True
    let ?w = "triggerable_disable_trigger api (port_of p) w"
    let ?c = "set_isr_info p (i\<lparr>enabled := INTERRUPT_DISABLED\<rparr>) (ctx\<lparr>ports := ?w\<rparr>)"
    have off: "trigger_enabled api ?w = (trigger_enabled api (ports ctx))(port_of p := False)"
      using tw by (simp add: gpio_api_simps [OF assms(1)])
    have "rtos_gpio_isr api p ctx = Inr ([], ?c)"
      using True i(1) v by (simp add: rtos_gpio_isr_def)
    moreover have "gpio_inv api ?c"
      by (rule gpio_inv_set [OF assms(2,3) _ off]) simp_all
    moreover have "gpio_abs api ?c = (gpio_abs api ctx)\<lparr>sp_armed := (sp_armed (gpio_abs api ctx))(p := False)\<rparr>"
      unfolding gpio_abs_set[OF assms(3) len off] using info True armed by (simp add: interrupt_defs fun_upd_idem)
    ultimately show ?thesis
      using info True armed by (simp add: spec_step_def interrupt_defs)
  next
    case False
    then have on: "enabled i = INTERRUPT_ENABLED" using i by simp
    let ?w = "port_set_trigger_value api (port_of p) v w"
    have same: "trigger_enabled api ?w = trigger_enabled api (ports ctx)"
      using tw by (simp add: gpio_api_simps [OF assms(1)])
    have "rtos_gpio_isr api p ctx = Inr ([(callback i, isr_app_data i, p, v)], ctx\<lparr>ports := ?w\<rparr>)"
      using False i(1) v by (simp add: rtos_gpio_isr_def)
    then show ?thesis
      using info on armed gpio_inv_quiet [OF assms(2) same] gpio_abs_quiet [OF same]
      by (simp add: spec_step_def strip_call_def)
  qed
qed

lemma gpio_set_refines:
  assumes "ports_ok api" and "gpio_inv api ctx" and "port_valid p"
  shows "\<exists>ctx'. gpio_local_isr_callback_set api p cb app ctx = Inr ctx' \<and> gpio_inv api ctx'
    \<and> spec_step (G_set p cb app) (gpio_abs api ctx) = Inr ([], gpio_abs api ctx')"
proof (cases "isr_info_of ctx p")
  case None
  then have off: "\<not> trigger_enabled api (ports ctx) (port_of p)"
    using assms(2,3) by (auto simp: gpio_inv_def)
  let ?w = "triggerable_setup_interrupt_callback api (port_of p) (ports ctx)"
  let ?i = "\<lparr>callback = cb, isr_app_data = app, enabled = INTERRUPT_DISABLED\<rparr>"
  have same: "trigger_enabled api ?w = (trigger_enabled api (ports ctx))(port_of p := False)"
    using off by (simp add: gpio_api_simps [OF assms(1)] fun_upd_idem)
  have "\<not> sp_armed (gpio_abs api ctx) p" using off by (simp add: gpio_abs_def)
  then have "gpio_abs api (set_isr_info p ?i (ctx\<lparr>ports := ?w\<rparr>)) =
      (gpio_abs api ctx)\<lparr>sp_cb := (sp_cb (gpio_abs api ctx))(p \<mapsto> (cb, app))\<rparr>"
    unfolding gpio_abs_set[OF assms(3) gpio_inv_length[OF assms(2)] same]
    using gpio_abs_info(2) [OF None, of api] by (simp add: interrupt_defs fun_upd_idem)
  moreover have "gpio_inv api (set_isr_info p ?i (ctx\<lparr>ports := ?w\<rparr>))"
    by (rule gpio_inv_set [OF assms(2,3) _ same]) simp_all
  ultimately show ?thesis
    using None assms(3) by (simp add: gpio_local_isr_callback_set_def spec_step_def)
next
  case (Some i)
  let ?i = "i\<lparr>callback := cb, isr_app_data := app\<rparr>"
  have same: "trigger_enabled api (ports ctx) =
      (trigger_enabled api (ports ctx))(port_of p := trigger_enabled api (ports ctx) (port_of p))" by simp
  have "gpio_abs api (set_isr_info p ?i (ctx\<lparr>ports := ports ctx\<rparr>)) =
      (gpio_abs api ctx)\<lparr>sp_cb := (sp_cb (gpio_abs api ctx))(p \<mapsto> (cb, app))\<rparr>"
    unfolding gpio_abs_set[OF assms(3) gpio_inv_length[OF assms(2)] same]
    using gpio_abs_info(1) [OF assms(3) Some, of api] by (simp add: fun_upd_idem)
  moreover have "gpio_inv api (set_isr_info p ?i (ctx\<lparr>ports := ports ctx\<rparr>))"
    using assms(2,3) Some by (intro gpio_inv_set [OF assms(2,3) _ same]) (auto simp: gpio_inv_def)
  ultimately show ?thesis
    using Some assms(3) by (simp add: gpio_local_isr_callback_set_def spec_step_def)
qed

lemma gpio_enable_refines:
  assumes "ports_ok api" and "gpio_inv api ctx" and "port_valid p" and "isr_info_of ctx p = Some i"
  shows "\<exists>ctx'. gpio_local_interrupt_enable api p ctx = Inr ctx' \<and> gpio_inv api ctx'
    \<and> spec_step (G_enable p) (gpio_abs api ctx) = Inr ([], gpio_abs api ctx')"
proof -
  let ?p = "port_of p" and ?w = "ports ctx"
  let ?w1 = "if enabled i = INTERRUPT_DISABLED
      then triggerable_enable_trigger api ?p (port_set_trigger_in_not_equal api ?p (port_peek api ?p ?w) ?w)
      else ?w"
  let ?t = "\<not> sp_dead (gpio_abs api ctx) p"
  note info = gpio_abs_info(1) [OF assms(3,4), of api]
  have tr: "trigger_enabled api ?w1 = (trigger_enabled api ?w)(port_of p := ?t)"
    using info by (auto simp: gpio_api_simps [OF assms(1)] upd_same)
  have "gpio_inv api (set_isr_info p (i\<lparr>enabled := INTERRUPT_ENABLED\<rparr>) (ctx\<lparr>ports := ?w1\<rparr>))"
    by (rule gpio_inv_set [OF assms(2,3) _ tr]) (simp_all add: interrupt_defs)
  moreover have "gpio_abs api (set_isr_info p (i\<lparr>enabled := INTERRUPT_ENABLED\<rparr>) (ctx\<lparr>ports := ?w1\<rparr>)) =
      (gpio_abs api ctx)\<lparr>sp_on := (sp_on (gpio_abs api ctx))(p := True), sp_armed := (sp_armed (gpio_abs api ctx))(p := ?t)\<rparr>"
    unfolding gpio_abs_set[OF assms(3) gpio_inv_length[OF assms(2)] tr]
    using info by (simp add: interrupt_defs fun_upd_idem)
  ultimately show ?thesis
    using assms(3,4) info by (simp add: gpio_local_interrupt_enable_def spec_step_def Let_def)
qed

lemma gpio_disable_refines:
  assumes "gpio_inv api ctx" and "port_valid p"
  shows "\<exists>ctx'. gpio_local_interrupt_disable p ctx = Inr ctx' \<and> gpio_inv api ctx'
    \<and> spec_step (G_disable p) (gpio_abs api ctx) = Inr ([], gpio_abs api ctx')"
proof (cases "\<exists>i. isr_info_of ctx p = Some i \<and> enabled i \<noteq> INTERRUPT_DISABLED")
  case True
  then obtain i where i: "isr_info_of ctx p = Some i" "enabled i \<noteq> INTERRUPT_DISABLED" by blast
  let ?i = "i\<lparr>enabled := INTERRUPT_DISABLE_PENDING\<rparr>"
  have same: "trigger_enabled api (ports ctx) =
      (trigger_enabled api (ports ctx))(port_of p := trigger_enabled api (ports ctx) (port_of p))" by simp
  have "gpio_abs api (set_isr_info p ?i (ctx\<lparr>ports := ports ctx\<rparr>)) =
      (gpio_abs api ctx)\<lparr>sp_on := (sp_on (gpio_abs api ctx))(p := False)\<rparr>"
    unfolding gpio_abs_set[OF assms(2) gpio_inv_length[OF assms(1)] same]
    using gpio_abs_info(1) [OF assms(2) i(1), of api] i(2) by (simp add: fun_upd_idem interrupt_defs)
  moreover have "gpio_inv api (set_isr_info p ?i (ctx\<lparr>ports := ports ctx\<rparr>))"
    by (intro gpio_inv_set [OF assms _ same]) (simp_all add: interrupt_defs)
  ultimately show ?thesis
    using i assms(2) by (simp add: gpio_local_interrupt_disable_def spec_step_def)
next
  case False
  then have "gpio_local_interrupt_disable p ctx = Inr ctx"
    using assms(2) by (auto simp: gpio_local_interrupt_disable_def split: option.split)
  moreover have "\<not> sp_on (gpio_abs api ctx) p"
    using False by (auto simp: gpio_abs_def interrupt_defs)
  ultimately show ?thesis
    using assms by (simp add: spec_step_def fun_upd_idem)
qed

lemma gpio_step_refines:
  assumes "ports_ok api" and "gpio_inv api ctx"
  shows "spec_step e (gpio_abs api ctx)
      = rbind (gpio_step api e ctx) (\<lambda>(calls, ctx'). Inr (map strip_call calls, gpio_abs api ctx'))"
    and "gpio_step api e ctx = Inr (calls, ctx') \<Longrightarrow> gpio_inv api ctx'"
proof -
  have "spec_step e (gpio_abs api ctx)
      = rbind (gpio_step api e ctx) (\<lambda>(calls, ctx'). Inr (map strip_call calls, gpio_abs api ctx'))
    \<and> (gpio_step api e ctx = Inr (calls, ctx') \<longrightarrow> gpio_inv api ctx')"
  proof (cases e)
    case (G_port_enable p)
    then show ?thesis
      using gpio_inv_reset [OF assms(2), of p] gpio_abs_reset [OF assms(2), of p] gpio_api_simps [OF assms(1)]
      by (auto simp: spec_step_def gpio_step_def gpio_local_port_enable_def xassert_def)
  next
    case (G_port_out p v)
    then show ?thesis
      using gpio_inv_quiet [OF assms(2)] gpio_abs_quiet [of api _ ctx] gpio_api_simps [OF assms(1)]
      by (auto simp: spec_step_def gpio_step_def gpio_local_port_out_def xassert_def)
  next
    case (G_control p v)
    then show ?thesis
      using gpio_inv_quiet [OF assms(2)] gpio_abs_quiet [of api _ ctx] gpio_api_simps [OF assms(1)]
      by (auto simp: spec_step_def gpio_step_def gpio_local_port_write_control_word_def xassert_def)
  next
    case (G_set p cb app)
    show ?thesis
    proof (cases "port_valid p")
      case True
      with G_set gpio_set_refines [OF assms True, of cb app] show ?thesis
        by (auto simp: gpio_step_def)
    next
      case False
      with G_set show ?thesis by (simp add: gpio_step_def spec_step_def gpio_local_isr_callback_set_def)
    qed
  next
    case (G_enable p)
    show ?thesis
    proof (cases "port_valid p \<and> isr_info_of ctx p \<noteq> None")
      case True
      then obtain i where "port_valid p" "isr_info_of ctx p = Some i" by auto
      with G_enable gpio_enable_refines [OF assms] show ?thesis
        by (fastforce simp: gpio_step_def)
    next
      case False
      with G_enable show ?thesis
        by (auto simp: gpio_step_def spec_step_def gpio_local_interrupt_enable_def xassert_def
            gpio_abs_info(2))
    qed
  next
    case (G_disable p)
    show ?thesis
    proof (cases "port_valid p")
      case True
      with G_disable gpio_disable_refines [OF assms(2) True] show ?thesis
        by (auto simp: gpio_step_def)
    next
      case False
      with G_disable show ?thesis by (simp add: gpio_step_def spec_step_def gpio_local_interrupt_disable_def)
    qed
  next
    case (G_trigger p)
    show ?thesis
    proof (cases "port_valid p \<and> trigger_enabled api (ports ctx) (port_of p)")
      case True
      with G_trigger gpio_trigger_refines [OF assms] show ?thesis
        by (fastforce simp: gpio_step_def)
    next
      case False
      then have "\<not> sp_armed (gpio_abs api ctx) p" by (simp add: gpio_abs_def)
      with False G_trigger assms(2) show ?thesis
        by (auto simp: gpio_step_def spec_step_def)
    qed
  qed
  then show "spec_step e (gpio_abs api ctx)
      = rbind (gpio_step api e ctx) (\<lambda>(calls, ctx'). Inr (map strip_call calls, gpio_abs api ctx'))"
    "gpio_step api e ctx = Inr (calls, ctx') \<Longrightarrow> gpio_inv api ctx'"
    by blast+
qed

section \<open>Runs\<close>

primrec spec_run ::
  "gpio_event list \<Rightarrow> gpio_spec \<Rightarrow> ((gpio_cb \<times> u32 \<times> int) list \<times> gpio_spec) res" where
  "spec_run [] s = Inr ([], s)"
| "spec_run (e # es) s =
     rbind (spec_step e s) (\<lambda>(c, s1). rbind (spec_run es s1) (\<lambda>(c', s2). Inr (c @ c', s2)))"

primrec gpio_run ::
  "'w xcore_ports \<Rightarrow> gpio_event list \<Rightarrow> 'w rtos_gpio \<Rightarrow> (gpio_call list \<times> 'w rtos_gpio) res" where
  "gpio_run api [] ctx = Inr ([], ctx)"
| "gpio_run api (e # es) ctx =
     rbind (gpio_step api e ctx) (\<lambda>(c, ctx1).
       rbind (gpio_run api es ctx1) (\<lambda>(c', ctx2). Inr (c @ c', ctx2)))"

lemma gpio_run_refines:
  assumes "ports_ok api" and "gpio_inv api ctx"
  shows "spec_run es (gpio_abs api ctx)
    = rbind (gpio_run api es ctx) (\<lambda>(calls, ctx'). Inr (map strip_call calls, gpio_abs api ctx'))"
  using assms(2)
proof (induction es arbitrary: ctx)
  case Nil
  then show ?case by simp
next
  case (Cons e es)
  note step = gpio_step_refines [OF assms(1) Cons.prems]
  show ?case
  proof (cases "gpio_step api e ctx")
    case (Inl f)
    then show ?thesis using step(1) [of e] by simp
  next
    case (Inr r)
    then obtain calls ctx1 where r: "gpio_step api e ctx = Inr (calls, ctx1)" by (cases r) auto
    then show ?thesis
      using step(1) [of e] Cons.IH [OF step(2) [OF r]]
      by (cases "gpio_run api es ctx1") auto
  qed
qed

text \<open>Before the first call no port has a callback, and every switch is off.\<close>

definition spec_init :: gpio_spec where
  "spec_init = \<lparr>sp_cb = \<lambda>p. None, sp_on = \<lambda>p. False, sp_armed = \<lambda>p. False, sp_dead = \<lambda>p. False\<rparr>"

lemma gpio_init_inv:
  assumes "\<forall>p. \<not> trigger_enabled api (ports ctx) p"
  shows "gpio_inv api (rtos_gpio_init ctx)" and "gpio_abs api (rtos_gpio_init ctx) = spec_init"
proof -
  have none: "isr_info_of (rtos_gpio_init ctx) p = None" if "port_valid p" for p
    using that by (simp add: isr_info_of_def rtos_gpio_init_def port_valid_nat
        RTOS_GPIO_TOTAL_PORT_CNT_def)
  then show "gpio_inv api (rtos_gpio_init ctx)"
    using assms by (simp add: gpio_inv_def rtos_gpio_init_def)
  show "gpio_abs api (rtos_gpio_init ctx) = spec_init"
    using none assms by (auto simp: gpio_abs_def spec_init_def rtos_gpio_init_def intro!: ext cong: if_cong)
qed


text \<open>Enabling the interrupt of a port without a callback writes through a null pointer.\<close>

lemma gpio_enable_without_callback:
  "port_valid p \<Longrightarrow> isr_info_of ctx p = None \<Longrightarrow>
     gpio_local_interrupt_enable api p ctx = Inl Bad_access"
  by (simp add: gpio_local_interrupt_enable_def)

text \<open>A port that is enabled while its interrupt is armed is dead, whatever is done to it afterwards.\<close>

lemma spec_dead:
  assumes "spec_step e s = Inr (calls, s')" and "sp_dead s p" "\<not> sp_armed s p"
  shows "sp_dead s' p \<and> \<not> sp_armed s' p \<and> (\<forall>c \<in> set calls. snd (snd c) \<noteq> p)"
  using assms by (auto simp: spec_step_def xassert_def split: gpio_event.splits if_splits option.splits)

lemma port_enable_kills_interrupt:
  "sp_armed s p \<Longrightarrow> port_valid p \<Longrightarrow>
     \<exists>s'. spec_step (G_port_enable p) s = Inr ([], s') \<and> sp_dead s' p \<and> \<not> sp_armed s' p"
  by (simp add: spec_step_def)

section \<open>Concrete ports\<close>

text \<open>Ports whose pins hold 5, with the set of enabled triggers.\<close>

definition five_ports :: "(xs1_port \<Rightarrow> bool) xcore_ports" where
  "five_ports =
     \<lparr>port_enable = (\<lambda>p w. w(p := False)), port_set_clock = (\<lambda>p w. w), port_in = (\<lambda>p w. (5, w)),
      port_peek = (\<lambda>p w. 5), port_out = (\<lambda>p v w. w), port_write_control_word = (\<lambda>p v w. w),
      port_set_trigger_in_not_equal = (\<lambda>p v w. w), port_set_trigger_value = (\<lambda>p v w. w),
      triggerable_enable_trigger = (\<lambda>p w. w(p := True)),
      triggerable_disable_trigger = (\<lambda>p w. w(p := False)),
      triggerable_setup_interrupt_callback = (\<lambda>p w. w), trigger_enabled = (\<lambda>w. w)\<rparr>"

lemma five_ports_ok: "ports_ok five_ports"
  by (simp add: ports_ok_def five_ports_def)


end
