(* ===== verification/Gpio_Rpc.thy ===== *)
theory Gpio_Rpc
  imports Gpio Rpc_Args
begin

text \<open>
  The remote half of the GPIO driver (modules/drivers/gpio/src/rtos_gpio_rpc.c): the client's
  functions, the host's functions and dispatch thread, and the way of a port interrupt from the
  host to the client's callback. The mutex that serialises the calls of a client is not
  modelled.
\<close>

section \<open>Function codes and descriptors\<close>

definition fcode_port_enable :: u32 where "fcode_port_enable = 0"
definition fcode_port_in :: u32 where "fcode_port_in = 1"
definition fcode_port_out :: u32 where "fcode_port_out = 2"
definition fcode_port_write_control_word :: u32 where "fcode_port_write_control_word = 3"
definition fcode_isr_callback_set :: u32 where "fcode_isr_callback_set = 4"
definition fcode_interrupt_enable :: u32 where "fcode_interrupt_enable = 5"
definition fcode_interrupt_disable :: u32 where "fcode_interrupt_disable = 6"

lemmas gpio_fcodes =
  fcode_port_enable_def fcode_port_in_def fcode_port_out_def fcode_port_write_control_word_def
  fcode_isr_callback_set_def fcode_interrupt_enable_def fcode_interrupt_disable_def

definition port_descs :: "rpc_param_desc list" where
  "port_descs = [RPC_PARAM_TYPE 4, RPC_PARAM_TYPE 4]"

definition port_in_descs :: "rpc_param_desc list" where
  "port_in_descs = [RPC_PARAM_TYPE 4, RPC_PARAM_TYPE 4, RPC_PARAM_RETURN 4]"

definition port_value_descs :: "rpc_param_desc list" where
  "port_value_descs = [RPC_PARAM_TYPE 4, RPC_PARAM_TYPE 4, RPC_PARAM_TYPE 4]"

lemmas gpio_descs = port_descs_def port_in_descs_def port_value_descs_def

section \<open>The client\<close>

definition gpio_remote_port_enable ::
  "driver_rpc \<Rightarrow> (byte list \<Rightarrow> 's \<Rightarrow> (byte list \<times> 's) res) \<Rightarrow> u32 \<Rightarrow> 's \<Rightarrow> 's res" where
  "gpio_remote_port_enable rpc transact port_id s =
     rbind (remote_call rpc transact fcode_port_enable (port_descs @ [RPC_PARAM_LIST_END])
              [word_bytes 4 port_id] s) (\<lambda>(ap, s'). Inr s')"

definition gpio_remote_port_in ::
  "driver_rpc \<Rightarrow> (byte list \<Rightarrow> 's \<Rightarrow> (byte list \<times> 's) res) \<Rightarrow> u32 \<Rightarrow> 's \<Rightarrow> (u32 \<times> 's) res" where
  "gpio_remote_port_in rpc transact port_id s =
     rbind (remote_call rpc transact fcode_port_in (port_in_descs @ [RPC_PARAM_LIST_END])
              [word_bytes 4 port_id, unset 4] s) (\<lambda>(ap, s'). Inr (bytes_word (ap ! 2), s'))"

definition gpio_remote_port_out ::
  "driver_rpc \<Rightarrow> (byte list \<Rightarrow> 's \<Rightarrow> (byte list \<times> 's) res) \<Rightarrow> u32 \<Rightarrow> u32 \<Rightarrow> 's \<Rightarrow> 's res" where
  "gpio_remote_port_out rpc transact port_id v s =
     rbind (remote_call rpc transact fcode_port_out (port_value_descs @ [RPC_PARAM_LIST_END])
              [word_bytes 4 port_id, word_bytes 4 v] s) (\<lambda>(ap, s'). Inr s')"

definition gpio_remote_port_write_control_word ::
  "driver_rpc \<Rightarrow> (byte list \<Rightarrow> 's \<Rightarrow> (byte list \<times> 's) res) \<Rightarrow> u32 \<Rightarrow> u32 \<Rightarrow> 's \<Rightarrow> 's res" where
  "gpio_remote_port_write_control_word rpc transact port_id v s =
     rbind (remote_call rpc transact fcode_port_write_control_word
              (port_value_descs @ [RPC_PARAM_LIST_END])
              [word_bytes 4 port_id, word_bytes 4 v] s) (\<lambda>(ap, s'). Inr s')"

definition gpio_remote_interrupt_enable ::
  "driver_rpc \<Rightarrow> (byte list \<Rightarrow> 's \<Rightarrow> (byte list \<times> 's) res) \<Rightarrow> u32 \<Rightarrow> 's \<Rightarrow> 's res" where
  "gpio_remote_interrupt_enable rpc transact port_id s =
     rbind (remote_call rpc transact fcode_interrupt_enable (port_descs @ [RPC_PARAM_LIST_END])
              [word_bytes 4 port_id] s) (\<lambda>(ap, s'). Inr s')"

definition gpio_remote_interrupt_disable ::
  "driver_rpc \<Rightarrow> (byte list \<Rightarrow> 's \<Rightarrow> (byte list \<times> 's) res) \<Rightarrow> u32 \<Rightarrow> 's \<Rightarrow> 's res" where
  "gpio_remote_interrupt_disable rpc transact port_id s =
     rbind (remote_call rpc transact fcode_interrupt_disable (port_descs @ [RPC_PARAM_LIST_END])
              [word_bytes 4 port_id] s) (\<lambda>(ap, s'). Inr s')"

text \<open>
  The client keeps the application's callback and data of a port, and registers with the host
  the channel end that the host's interrupt is to send to.
\<close>

type_synonym gpio_client = "(gpio_cb \<times> u32) option list"

definition gpio_remote_isr_callback_set ::
  "driver_rpc \<Rightarrow> (byte list \<Rightarrow> 's \<Rightarrow> (byte list \<times> 's) res) \<Rightarrow> u32 \<Rightarrow> u32 \<Rightarrow> gpio_cb \<Rightarrow> u32
     \<Rightarrow> gpio_client \<Rightarrow> 's \<Rightarrow> (gpio_client \<times> 's) res" where
  "gpio_remote_isr_callback_set rpc transact host_rpc_interrupt_c port_id cb app_data client s =
     xassert (aport (host_address rpc) \<ge> 0)
       (if \<not> (0 \<le> sint port_id \<and> nat (sint port_id) < length client) then Inl Bad_access
        else let client' = client[nat (sint port_id) := Some (cb, app_data)] in
          rbind (remote_call rpc transact fcode_isr_callback_set
                   (port_value_descs @ [RPC_PARAM_LIST_END])
                   [word_bytes 4 port_id, word_bytes 4 host_rpc_interrupt_c] s)
            (\<lambda>(ap, s'). Inr (client', s')))"

text \<open>
  The host's callback sends the port, as a byte, and the value to the channel end it was
  registered with; the client's interrupt receives them and calls the client's callback.
\<close>

definition rtos_gpio_rpc_host_isr :: "u32 \<Rightarrow> int \<Rightarrow> u32 \<Rightarrow> u32 \<times> byte \<times> u32" where
  "rtos_gpio_rpc_host_isr app_data port_id v = (app_data, word_of_int port_id, v)"

definition rtos_gpio_rpc_client_isr :: "gpio_client \<Rightarrow> byte \<times> u32 \<Rightarrow> gpio_call res" where
  "rtos_gpio_rpc_client_isr client msg =
     (let port_id = unat (fst msg) in
      if length client \<le> port_id then Inl Bad_access
      else case client ! port_id of
             None \<Rightarrow> Inl Bad_access
           | Some (cb, app) \<Rightarrow> Inr (cb, app, int port_id, snd msg))"

section \<open>The host\<close>

type_synonym 'w gpio_hosts = "u32 \<Rightarrow> 'w rtos_gpio option"

definition port_arg :: "rpc_arg list \<Rightarrow> int" where
  "port_arg args = sint (arg_word args 1 :: u32)"

definition gpio_port_enable_body :: "'w xcore_ports \<Rightarrow> 'w gpio_hosts rpc_body" where
  "gpio_port_enable_body api = rpc_body 2 (\<lambda>args c.
     rbind (gpio_local_port_enable api (port_arg args) c) (\<lambda>c'.
       Inr ([rv (arg_word args 0 :: u32), rv (arg_word args 1 :: u32)], c')))"

definition gpio_port_in_body :: "'w xcore_ports \<Rightarrow> 'w gpio_hosts rpc_body" where
  "gpio_port_in_body api = rpc_body 3 (\<lambda>args c.
     rbind (gpio_local_port_in api (port_arg args) c) (\<lambda>(ret, c').
       Inr ([rv (arg_word args 0 :: u32), rv (arg_word args 1 :: u32), rv ret], c')))"

definition gpio_port_out_body :: "'w xcore_ports \<Rightarrow> 'w gpio_hosts rpc_body" where
  "gpio_port_out_body api = rpc_body 3 (\<lambda>args c.
     rbind (gpio_local_port_out api (port_arg args) (arg_word args 2) c) (\<lambda>c'.
       Inr ([rv (arg_word args 0 :: u32), rv (arg_word args 1 :: u32),
             rv (arg_word args 2 :: u32)], c')))"

definition gpio_port_write_control_word_body :: "'w xcore_ports \<Rightarrow> 'w gpio_hosts rpc_body" where
  "gpio_port_write_control_word_body api = rpc_body 3 (\<lambda>args c.
     rbind (gpio_local_port_write_control_word api (port_arg args) (arg_word args 2) c) (\<lambda>c'.
       Inr ([rv (arg_word args 0 :: u32), rv (arg_word args 1 :: u32),
             rv (arg_word args 2 :: u32)], c')))"

definition gpio_isr_callback_set_body :: "'w xcore_ports \<Rightarrow> 'w gpio_hosts rpc_body" where
  "gpio_isr_callback_set_body api = rpc_body 3 (\<lambda>args c.
     rbind (gpio_local_isr_callback_set api (port_arg args) Rpc_host_isr (arg_word args 2) c) (\<lambda>c'.
       Inr ([rv (arg_word args 0 :: u32), rv (arg_word args 1 :: u32),
             rv (arg_word args 2 :: u32)], c')))"

definition gpio_interrupt_enable_body :: "'w xcore_ports \<Rightarrow> 'w gpio_hosts rpc_body" where
  "gpio_interrupt_enable_body api = rpc_body 2 (\<lambda>args c.
     rbind (gpio_local_interrupt_enable api (port_arg args) c) (\<lambda>c'.
       Inr ([rv (arg_word args 0 :: u32), rv (arg_word args 1 :: u32)], c')))"

definition gpio_interrupt_disable_body :: "'w gpio_hosts rpc_body" where
  "gpio_interrupt_disable_body = rpc_body 2 (\<lambda>args c.
     rbind (gpio_local_interrupt_disable (port_arg args) c) (\<lambda>c'.
       Inr ([rv (arg_word args 0 :: u32), rv (arg_word args 1 :: u32)], c')))"

lemmas gpio_bodies =
  gpio_port_enable_body_def gpio_port_in_body_def gpio_port_out_body_def
  gpio_port_write_control_word_body_def gpio_isr_callback_set_body_def
  gpio_interrupt_enable_body_def gpio_interrupt_disable_body_def

definition gpio_rpc_thread ::
  "'w xcore_ports \<Rightarrow> byte list \<Rightarrow> 'w gpio_hosts \<Rightarrow> (byte list \<times> 'w gpio_hosts) res" where
  "gpio_rpc_thread api = rpc_dispatch
     [(fcode_port_enable, gpio_port_enable_body api), (fcode_port_in, gpio_port_in_body api),
      (fcode_port_out, gpio_port_out_body api),
      (fcode_port_write_control_word, gpio_port_write_control_word_body api),
      (fcode_isr_callback_set, gpio_isr_callback_set_body api),
      (fcode_interrupt_enable, gpio_interrupt_enable_body api),
      (fcode_interrupt_disable, gpio_interrupt_disable_body)]"

interpretation gpio_port_enable: rpc_service "gpio_rpc_thread api" fcode_port_enable port_descs
    "gpio_port_enable_body api" for api
  unfolding gpio_rpc_thread_def
  by (rule rpc_dispatch_service) (simp_all add: gpio_fcodes gpio_descs)

interpretation gpio_port_in: rpc_service "gpio_rpc_thread api" fcode_port_in port_in_descs
    "gpio_port_in_body api" for api
  unfolding gpio_rpc_thread_def
  by (rule rpc_dispatch_service) (simp_all add: gpio_fcodes gpio_descs)

interpretation gpio_port_out: rpc_service "gpio_rpc_thread api" fcode_port_out port_value_descs
    "gpio_port_out_body api" for api
  unfolding gpio_rpc_thread_def
  by (rule rpc_dispatch_service) (simp_all add: gpio_fcodes gpio_descs)

interpretation gpio_control: rpc_service "gpio_rpc_thread api" fcode_port_write_control_word
    port_value_descs "gpio_port_write_control_word_body api" for api
  unfolding gpio_rpc_thread_def
  by (rule rpc_dispatch_service) (simp_all add: gpio_fcodes gpio_descs)

interpretation gpio_set: rpc_service "gpio_rpc_thread api" fcode_isr_callback_set
    port_value_descs "gpio_isr_callback_set_body api" for api
  unfolding gpio_rpc_thread_def
  by (rule rpc_dispatch_service) (simp_all add: gpio_fcodes gpio_descs)

interpretation gpio_int_enable: rpc_service "gpio_rpc_thread api" fcode_interrupt_enable
    port_descs "gpio_interrupt_enable_body api" for api
  unfolding gpio_rpc_thread_def
  by (rule rpc_dispatch_service) (simp_all add: gpio_fcodes gpio_descs)

interpretation gpio_int_disable: rpc_service "gpio_rpc_thread api" fcode_interrupt_disable
    port_descs "gpio_interrupt_disable_body" for api
  unfolding gpio_rpc_thread_def
  by (rule rpc_dispatch_service) (simp_all add: gpio_fcodes gpio_descs)

section \<open>A remote call is the local call\<close>

lemmas remote_simps =
  rpc_body_def with_ctx_def arg_word_def port_arg_def rbind_assoc split_def res_simps

text \<open>
  Through the RPC client every operation of the GPIO driver is the local operation on the
  host: the same result, the same effect on the host's driver and ports, and the host's
  failure when the port number is invalid.
\<close>

theorem gpio_remote_is_local:
  assumes "aport (host_address rpc) \<ge> 0" and "hosts (host_ctx_ptr rpc) = Some c"
  shows "gpio_remote_port_enable rpc (gpio_rpc_thread api) pid hosts
      = rbind (gpio_local_port_enable api (sint pid) c) (\<lambda>c'. Inr (hosts(host_ctx_ptr rpc \<mapsto> c')))
    \<and> gpio_remote_port_in rpc (gpio_rpc_thread api) pid hosts
      = rbind (gpio_local_port_in api (sint pid) c) (\<lambda>(v, c'). Inr (v, hosts(host_ctx_ptr rpc \<mapsto> c')))
    \<and> gpio_remote_port_out rpc (gpio_rpc_thread api) pid v hosts
      = rbind (gpio_local_port_out api (sint pid) v c) (\<lambda>c'. Inr (hosts(host_ctx_ptr rpc \<mapsto> c')))
    \<and> gpio_remote_port_write_control_word rpc (gpio_rpc_thread api) pid v hosts
      = rbind (gpio_local_port_write_control_word api (sint pid) v c)
          (\<lambda>c'. Inr (hosts(host_ctx_ptr rpc \<mapsto> c')))
    \<and> gpio_remote_interrupt_enable rpc (gpio_rpc_thread api) pid hosts
      = rbind (gpio_local_interrupt_enable api (sint pid) c)
          (\<lambda>c'. Inr (hosts(host_ctx_ptr rpc \<mapsto> c')))
    \<and> gpio_remote_interrupt_disable rpc (gpio_rpc_thread api) pid hosts
      = rbind (gpio_local_interrupt_disable (sint pid) c)
          (\<lambda>c'. Inr (hosts(host_ctx_ptr rpc \<mapsto> c')))"
proof (intro conjI)
  let ?p = "host_ctx_ptr rpc"
  show "gpio_remote_port_enable rpc (gpio_rpc_thread api) pid hosts
      = rbind (gpio_local_port_enable api (sint pid) c) (\<lambda>c'. Inr (hosts(?p \<mapsto> c')))"
    unfolding gpio_remote_port_enable_def
    by (subst gpio_port_enable.remote_bind [OF assms(1)])
      (auto simp: gpio_descs gpio_bodies assms(2) remote_simps)
  show "gpio_remote_port_in rpc (gpio_rpc_thread api) pid hosts
      = rbind (gpio_local_port_in api (sint pid) c) (\<lambda>(v, c'). Inr (v, hosts(?p \<mapsto> c')))"
    unfolding gpio_remote_port_in_def
    by (subst gpio_port_in.remote_bind [OF assms(1)])
      (auto simp: gpio_descs gpio_bodies assms(2) remote_simps)
  show "gpio_remote_port_out rpc (gpio_rpc_thread api) pid v hosts
      = rbind (gpio_local_port_out api (sint pid) v c) (\<lambda>c'. Inr (hosts(?p \<mapsto> c')))"
    unfolding gpio_remote_port_out_def
    by (subst gpio_port_out.remote_bind [OF assms(1)])
      (auto simp: gpio_descs gpio_bodies assms(2) remote_simps)
  show "gpio_remote_port_write_control_word rpc (gpio_rpc_thread api) pid v hosts
      = rbind (gpio_local_port_write_control_word api (sint pid) v c)
          (\<lambda>c'. Inr (hosts(?p \<mapsto> c')))"
    unfolding gpio_remote_port_write_control_word_def
    by (subst gpio_control.remote_bind [OF assms(1)])
      (auto simp: gpio_descs gpio_bodies assms(2) remote_simps)
  show "gpio_remote_interrupt_enable rpc (gpio_rpc_thread api) pid hosts
      = rbind (gpio_local_interrupt_enable api (sint pid) c) (\<lambda>c'. Inr (hosts(?p \<mapsto> c')))"
    unfolding gpio_remote_interrupt_enable_def
    by (subst gpio_int_enable.remote_bind [OF assms(1)])
      (auto simp: gpio_descs gpio_bodies assms(2) remote_simps)
  show "gpio_remote_interrupt_disable rpc (gpio_rpc_thread api) pid hosts
      = rbind (gpio_local_interrupt_disable (sint pid) c) (\<lambda>c'. Inr (hosts(?p \<mapsto> c')))"
    unfolding gpio_remote_interrupt_disable_def
    by (subst gpio_int_disable.remote_bind [OF assms(1)])
      (auto simp: gpio_descs gpio_bodies assms(2) remote_simps)
qed

lemma gpio_remote_callback_set:
  assumes "aport (host_address rpc) \<ge> 0" and "hosts (host_ctx_ptr rpc) = Some c"
    and "0 \<le> sint pid" and "nat (sint pid) < length client"
  shows "gpio_remote_isr_callback_set rpc (gpio_rpc_thread api) chan pid cb app client hosts
      = rbind (gpio_local_isr_callback_set api (sint pid) Rpc_host_isr chan c)
          (\<lambda>c'. Inr (client[nat (sint pid) := Some (cb, app)], hosts(host_ctx_ptr rpc \<mapsto> c')))"
  using assms(1,3,4) unfolding gpio_remote_isr_callback_set_def
  by (subst gpio_set.remote_bind [OF assms(1)])
    (auto simp: gpio_descs gpio_bodies assms(2) remote_simps Let_def)

section \<open>From the host's port to the client's callback\<close>

lemma gpio_isr_calls:
  assumes "rtos_gpio_isr api p c = Inr (calls, c')" and "isr_info_of c p = Some i"
    and "(cb, app, q, v) \<in> set calls"
  shows "cb = callback i \<and> app = isr_app_data i \<and> q = p"
  using assms by (auto simp: rtos_gpio_isr_def Let_def split: prod.splits if_splits)

lemma port_byte:
  assumes "port_valid p"
  shows "unat (word_of_int p :: byte) = nat p"
proof -
  have "p mod 256 = p" using assms by (simp add: port_valid_def RTOS_GPIO_TOTAL_PORT_CNT_def)
  then show ?thesis by (simp add: unat_eq_nat_uint uint_word_of_int)
qed

lemma callback_set_info:
  assumes "gpio_inv api c" and "port_valid p"
    and "gpio_local_isr_callback_set api p cb app c = Inr c'"
  shows "\<exists>i. isr_info_of c' p = Some i \<and> callback i = cb \<and> isr_app_data i = app"
  using assms
  by (auto simp: gpio_local_isr_callback_set_def gpio_inv_def isr_info_of_set split: option.splits)

text \<open>
  A client that registers a callback for a valid port with the host gets the interrupts of
  that port: every callback the host's interrupt then makes for it is a message to the
  channel end the client named, and the client's interrupt turns the message into a call of
  the client's callback, with its data, the port and the value read on the host.
\<close>

theorem gpio_remote_interrupt_delivered:
  assumes "aport (host_address rpc) \<ge> 0" and "hosts (host_ctx_ptr rpc) = Some c"
    and "ports_ok api" and "gpio_inv api c" and "port_valid (sint pid)"
    and "length client = RTOS_GPIO_TOTAL_PORT_CNT"
  shows "\<exists>client' c'. gpio_remote_isr_callback_set rpc (gpio_rpc_thread api) chan pid cb app client hosts
      = Inr (client', hosts(host_ctx_ptr rpc \<mapsto> c')) \<and> gpio_inv api c'
    \<and> (\<forall>calls c'' f d q v. rtos_gpio_isr api (sint pid) c' = Inr (calls, c'') \<longrightarrow>
        (f, d, q, v) \<in> set calls \<longrightarrow>
        f = Rpc_host_isr \<and> fst (rtos_gpio_rpc_host_isr d q v) = chan
        \<and> rtos_gpio_rpc_client_isr client' (snd (rtos_gpio_rpc_host_isr d q v)) = Inr (cb, app, sint pid, v))"
proof -
  obtain c' where c': "gpio_local_isr_callback_set api (sint pid) Rpc_host_isr chan c = Inr c'"
    "gpio_inv api c'"
    using gpio_set_refines [OF assms(3-5)] by blast
  have range: "0 \<le> sint pid" "nat (sint pid) < length client"
    using assms(5,6) by (auto simp: port_valid_def)
  let ?client = "client[nat (sint pid) := Some (cb, app)]"
  have set: "gpio_remote_isr_callback_set rpc (gpio_rpc_thread api) chan pid cb app client hosts
      = Inr (?client, hosts(host_ctx_ptr rpc \<mapsto> c'))"
    using gpio_remote_callback_set [where rpc = rpc and hosts = hosts and c = c, OF assms(1,2) range] c'(1)
    by simp
  obtain i where i: "isr_info_of c' (sint pid) = Some i" "callback i = Rpc_host_isr"
    "isr_app_data i = chan"
    using callback_set_info [OF assms(4,5) c'(1)] by blast
  have client: "rtos_gpio_rpc_client_isr ?client (word_of_int (sint pid), v)
      = Inr (cb, app, sint pid, v)" for v
    using range port_byte [OF assms(5)] by (simp add: rtos_gpio_rpc_client_isr_def Let_def)
  have "f = Rpc_host_isr \<and> fst (rtos_gpio_rpc_host_isr d q v) = chan
      \<and> rtos_gpio_rpc_client_isr ?client (snd (rtos_gpio_rpc_host_isr d q v)) = Inr (cb, app, sint pid, v)"
    if "rtos_gpio_isr api (sint pid) c' = Inr (calls, c'')" "(f, d, q, v) \<in> set calls"
    for calls c'' f d q v
    using gpio_isr_calls [OF that(1) i(1) that(2)] i(2,3) client
    by (simp add: rtos_gpio_rpc_host_isr_def)
  then show ?thesis using set c'(2) by blast
qed

section \<open>Configuration\<close>

text \<open>The drivers' operations of \<open>Driver_Rpc\<close>, with the client's table of callbacks.\<close>

definition gpio_rpc_start :: "driver_rpc \<Rightarrow> (rpc_addr \<times> int) list res" where
  "gpio_rpc_start = rpc_start"

definition rtos_gpio_rpc_config :: "u32 \<Rightarrow> u32 \<Rightarrow> driver \<Rightarrow> driver res" where
  "rtos_gpio_rpc_config = driver_rpc_config"

definition rtos_gpio_rpc_client_init ::
  "u32 \<Rightarrow> u32 \<Rightarrow> driver_rpc \<Rightarrow> driver \<Rightarrow> driver \<times> gpio_client" where
  "rtos_gpio_rpc_client_init host_intertile host_word r d =
     (driver_rpc_init_client host_intertile host_word r d, replicate RTOS_GPIO_TOTAL_PORT_CNT None)"

definition rtos_gpio_rpc_host_init ::
  "u32 \<Rightarrow> u32 list \<Rightarrow> driver_rpc \<Rightarrow> driver \<Rightarrow> (driver \<times> (u32 \<times> u32) list) res" where
  "rtos_gpio_rpc_host_init = driver_rpc_init_host"

section \<open>Concrete runs\<close>

definition five_host :: "(xs1_port \<Rightarrow> bool) rtos_gpio" where
  "five_host = rtos_gpio_init \<lparr>isr_info = [], ports = \<lambda>p. False\<rparr>"

lemma five_host_inv: "gpio_inv five_ports five_host"
  unfolding five_host_def by (rule gpio_init_inv) (simp add: five_ports_def)

theorem gpio_remote_is_local_witness:
  "gpio_remote_port_in echo_rpc (gpio_rpc_thread five_ports) 31 [64 \<mapsto> five_host]
     = Inr (5, [64 \<mapsto> five_host])
   \<and> gpio_remote_port_in echo_rpc (gpio_rpc_thread five_ports) (- 1) [64 \<mapsto> five_host]
     = Inl Assert_failed"
  using gpio_remote_is_local [of echo_rpc "[64 \<mapsto> five_host]" five_host five_ports 31]
    gpio_remote_is_local [of echo_rpc "[64 \<mapsto> five_host]" five_host five_ports "- 1"]
  by (simp add: gpio_local_port_in_def port_valid_def RTOS_GPIO_TOTAL_PORT_CNT_def five_ports_def)

theorem gpio_remote_interrupt_delivered_witness:
  "\<exists>client' c'. gpio_remote_isr_callback_set echo_rpc (gpio_rpc_thread five_ports) 77 3 (App_cb 8) 1
      (replicate 32 None) [64 \<mapsto> five_host] = Inr (client', [64 \<mapsto> c'])"
  using gpio_remote_interrupt_delivered [of echo_rpc "[64 \<mapsto> five_host]" five_host five_ports 3
      "replicate 32 None" 77 "App_cb 8" 1] five_ports_ok five_host_inv
  by (force simp: port_valid_def RTOS_GPIO_TOTAL_PORT_CNT_def)

end
