(* ===== verification/Qspi_Rpc.thy ===== *)
theory Qspi_Rpc
  imports Qspi_Chip Rpc_Args
begin

text \<open>
  The remote half of the QSPI flash driver
  (modules/drivers/qspi_flash/src/rtos_qspi_flash_rpc.c). A remote read is cut into chunks, each
  of them a call; the host's functions call the local driver, which is a parameter with the
  contract \<open>flash_service\<close>, interpreted at the end on the driver of \<open>Qspi_Driver\<close>.
\<close>

section \<open>Function codes and descriptors\<close>

definition fcode_lock :: u32 where "fcode_lock = 0"
definition fcode_unlock :: u32 where "fcode_unlock = 1"
definition fcode_read :: u32 where "fcode_read = 2"
definition fcode_read_mode :: u32 where "fcode_read_mode = 3"
definition fcode_write :: u32 where "fcode_write = 4"
definition fcode_erase :: u32 where "fcode_erase = 5"

lemmas flash_fcodes =
  fcode_lock_def fcode_unlock_def fcode_read_def fcode_read_mode_def fcode_write_def fcode_erase_def

definition lock_descs :: "rpc_param_desc list" where
  "lock_descs = [RPC_PARAM_TYPE 4]"

definition read_descs :: "nat \<Rightarrow> rpc_param_desc list" where
  "read_descs n = [RPC_PARAM_TYPE 4, RPC_PARAM_OUT_BUFFER 1 n, RPC_PARAM_TYPE 4, RPC_PARAM_TYPE 4]"

definition read_mode_descs :: "nat \<Rightarrow> rpc_param_desc list" where
  "read_mode_descs n =
     [RPC_PARAM_TYPE 4, RPC_PARAM_OUT_BUFFER 1 n, RPC_PARAM_TYPE 4, RPC_PARAM_TYPE 4,
      RPC_PARAM_TYPE 4]"

definition write_descs :: "nat \<Rightarrow> rpc_param_desc list" where
  "write_descs n = [RPC_PARAM_TYPE 4, RPC_PARAM_IN_BUFFER 1 n, RPC_PARAM_TYPE 4, RPC_PARAM_TYPE 4]"

definition erase_descs :: "rpc_param_desc list" where
  "erase_descs = [RPC_PARAM_TYPE 4, RPC_PARAM_TYPE 4, RPC_PARAM_TYPE 4]"

lemmas flash_descs =
  lock_descs_def read_descs_def read_mode_descs_def write_descs_def erase_descs_def

text \<open>The values of \<open>qspi_fast_flash_read_transfer_mode_t\<close> belong to the flash library.\<close>

record mode_codes =
  mode_code :: "transfer_mode \<Rightarrow> u32"
  code_mode :: "u32 \<Rightarrow> transfer_mode"

section \<open>The client\<close>

text \<open>
  The loop of a read: the memory at \<open>data\<close> after it. \<open>call\<close> is the remote call for one chunk.
\<close>

function chunk_loop ::
  "(byte list \<Rightarrow> u32 \<Rightarrow> nat \<Rightarrow> 's \<Rightarrow> (byte list \<times> 's) res) \<Rightarrow> byte list \<Rightarrow> u32 \<Rightarrow> nat \<Rightarrow> 's
     \<Rightarrow> (byte list \<times> 's) res" where
  "chunk_loop call data address len s =
     (let read_len = min len RTOS_QSPI_FLASH_READ_CHUNK_SIZE in
      rbind (call data address read_len s) (\<lambda>(data', s1).
        if 0 < len - read_len
        then rbind (chunk_loop call (drop read_len data') (address + of_nat read_len)
                      (len - read_len) s1)
               (\<lambda>(rest, s2). Inr (take read_len data' @ rest, s2))
        else Inr (data', s1)))"
  by pat_completeness auto

termination
  by (relation "measure (\<lambda>(call, data, address, len, s). len)")
    (auto simp: RTOS_QSPI_FLASH_READ_CHUNK_SIZE_def)

declare chunk_loop.simps [simp del]

definition qspi_flash_remote_read ::
  "driver_rpc \<Rightarrow> (byte list \<Rightarrow> 's \<Rightarrow> (byte list \<times> 's) res) \<Rightarrow> byte list \<Rightarrow> u32 \<Rightarrow> nat \<Rightarrow> 's
     \<Rightarrow> (byte list \<times> 's) res" where
  "qspi_flash_remote_read rpc transact =
     chunk_loop (\<lambda>data address read_len s.
       rbind (remote_call rpc transact fcode_read (read_descs read_len @ [RPC_PARAM_LIST_END])
                [data, word_bytes 4 address, word_bytes 4 (of_nat read_len :: u32)] s)
         (\<lambda>(ap, s'). Inr (ap ! 1, s')))"

definition qspi_flash_remote_read_mode ::
  "mode_codes \<Rightarrow> driver_rpc \<Rightarrow> (byte list \<Rightarrow> 's \<Rightarrow> (byte list \<times> 's) res) \<Rightarrow> transfer_mode
     \<Rightarrow> byte list \<Rightarrow> u32 \<Rightarrow> nat \<Rightarrow> 's \<Rightarrow> (byte list \<times> 's) res" where
  "qspi_flash_remote_read_mode codes rpc transact mode =
     chunk_loop (\<lambda>data address read_len s.
       rbind (remote_call rpc transact fcode_read_mode
                (read_mode_descs read_len @ [RPC_PARAM_LIST_END])
                [data, word_bytes 4 address, word_bytes 4 (of_nat read_len :: u32),
                 word_bytes 4 (mode_code codes mode)] s)
         (\<lambda>(ap, s'). Inr (ap ! 1, s')))"

definition qspi_flash_remote_write ::
  "driver_rpc \<Rightarrow> (byte list \<Rightarrow> 's \<Rightarrow> (byte list \<times> 's) res) \<Rightarrow> byte list \<Rightarrow> u32 \<Rightarrow> nat \<Rightarrow> 's
     \<Rightarrow> 's res" where
  "qspi_flash_remote_write rpc transact data address len s =
     rbind (remote_call rpc transact fcode_write (write_descs len @ [RPC_PARAM_LIST_END])
              [data, word_bytes 4 address, word_bytes 4 (of_nat len :: u32)] s) (\<lambda>(ap, s'). Inr s')"

definition qspi_flash_remote_erase ::
  "driver_rpc \<Rightarrow> (byte list \<Rightarrow> 's \<Rightarrow> (byte list \<times> 's) res) \<Rightarrow> u32 \<Rightarrow> nat \<Rightarrow> 's \<Rightarrow> 's res" where
  "qspi_flash_remote_erase rpc transact address len s =
     rbind (remote_call rpc transact fcode_erase (erase_descs @ [RPC_PARAM_LIST_END])
              [word_bytes 4 address, word_bytes 4 (of_nat len :: u32)] s) (\<lambda>(ap, s'). Inr s')"

text \<open>
  The client's own recursive mutex is taken around a lock: \<open>depth\<close> is its recursion count.
\<close>

definition qspi_flash_remote_lock ::
  "driver_rpc \<Rightarrow> (byte list \<Rightarrow> 's \<Rightarrow> (byte list \<times> 's) res) \<Rightarrow> nat \<Rightarrow> 's \<Rightarrow> (nat \<times> 's) res" where
  "qspi_flash_remote_lock rpc transact depth s =
     rbind (remote_call rpc transact fcode_lock (lock_descs @ [RPC_PARAM_LIST_END]) [] s)
       (\<lambda>(ap, s'). Inr (depth + 1, s'))"

definition qspi_flash_remote_unlock ::
  "driver_rpc \<Rightarrow> (byte list \<Rightarrow> 's \<Rightarrow> (byte list \<times> 's) res) \<Rightarrow> nat \<Rightarrow> 's \<Rightarrow> (nat \<times> 's) res" where
  "qspi_flash_remote_unlock rpc transact depth s =
     rbind (remote_call rpc transact fcode_unlock (lock_descs @ [RPC_PARAM_LIST_END]) [] s)
       (\<lambda>(ap, s'). Inr (depth - 1, s'))"

section \<open>The host\<close>

text \<open>
  The local driver as the host's functions use it: a call and its data, and the lock.
  \<open>heap n\<close> is the content of a fresh block of \<open>n\<close> bytes.
\<close>

record 's flash_host =
  exec :: "api_call \<Rightarrow> 's \<Rightarrow> (byte list \<times> 's) res"
  host_lock :: "'s \<Rightarrow> 's res"
  host_unlock :: "'s \<Rightarrow> 's res"
  heap :: "nat \<Rightarrow> byte list"

abbreviation ctx_arg :: "rpc_arg list \<Rightarrow> u32" where
  "ctx_arg args \<equiv> arg_word args 0"

definition lock_body :: "'s flash_host \<Rightarrow> (u32 \<Rightarrow> 's option) rpc_body" where
  "lock_body h = rpc_body 1 (\<lambda>args c. rbind (host_lock h c) (\<lambda>c'. Inr ([rv (ctx_arg args)], c')))"

definition unlock_body :: "'s flash_host \<Rightarrow> (u32 \<Rightarrow> 's option) rpc_body" where
  "unlock_body h = rpc_body 1 (\<lambda>args c. rbind (host_unlock h c) (\<lambda>c'. Inr ([rv (ctx_arg args)], c')))"

definition read_body :: "'s flash_host \<Rightarrow> (u32 \<Rightarrow> 's option) rpc_body" where
  "read_body h = rpc_body 4 (\<lambda>args c.
     let address = arg_word args 2 :: u32; len = arg_word args 3 :: u32;
         data = (if 0 < len then heap h (unat len) else [])
     in rbind (exec h (Read data (unat address) (unat len)) c) (\<lambda>(data', c').
          Inr ([rv (ctx_arg args), Resp_ptr data', rv address, rv len], c')))"

definition read_mode_body :: "mode_codes \<Rightarrow> 's flash_host \<Rightarrow> (u32 \<Rightarrow> 's option) rpc_body" where
  "read_mode_body codes h = rpc_body 5 (\<lambda>args c.
     let address = arg_word args 2 :: u32; len = arg_word args 3 :: u32;
         mode = arg_word args 4 :: u32;
         data = (if 0 < len then heap h (unat len) else [])
     in rbind (exec h (Read_mode data (unat address) (unat len) (code_mode codes mode)) c)
          (\<lambda>(data', c').
            Inr ([rv (ctx_arg args), Resp_ptr data', rv address, rv len, rv mode], c')))"

definition write_body :: "'s flash_host \<Rightarrow> (u32 \<Rightarrow> 's option) rpc_body" where
  "write_body h = rpc_body 4 (\<lambda>args c.
     let data = arg_mem (args ! 1); address = arg_word args 2 :: u32; len = arg_word args 3 :: u32
     in rbind (exec h (Write data (unat address) (unat len)) c) (\<lambda>(out, c').
          Inr ([rv (ctx_arg args), Resp_ptr data, rv address, rv len], c')))"

definition erase_body :: "'s flash_host \<Rightarrow> (u32 \<Rightarrow> 's option) rpc_body" where
  "erase_body h = rpc_body 3 (\<lambda>args c.
     let address = arg_word args 1 :: u32; len = arg_word args 2 :: u32
     in rbind (exec h (Erase (unat address) (unat len)) c) (\<lambda>(out, c').
          Inr ([rv (ctx_arg args), rv address, rv len], c')))"

lemmas flash_bodies =
  lock_body_def unlock_body_def read_body_def read_mode_body_def write_body_def erase_body_def

definition qspi_flash_rpc_thread ::
  "mode_codes \<Rightarrow> 's flash_host \<Rightarrow> byte list \<Rightarrow> (u32 \<Rightarrow> 's option)
     \<Rightarrow> (byte list \<times> (u32 \<Rightarrow> 's option)) res" where
  "qspi_flash_rpc_thread codes h = rpc_dispatch
     [(fcode_lock, lock_body h), (fcode_unlock, unlock_body h), (fcode_read, read_body h),
      (fcode_read_mode, read_mode_body codes h), (fcode_write, write_body h),
      (fcode_erase, erase_body h)]"

interpretation flash_lock: rpc_service "qspi_flash_rpc_thread codes h" fcode_lock lock_descs
    "lock_body h" for codes h
  unfolding qspi_flash_rpc_thread_def
  by (rule rpc_dispatch_service) (simp_all add: flash_fcodes flash_descs)

interpretation flash_unlock: rpc_service "qspi_flash_rpc_thread codes h" fcode_unlock lock_descs
    "unlock_body h" for codes h
  unfolding qspi_flash_rpc_thread_def
  by (rule rpc_dispatch_service) (simp_all add: flash_fcodes flash_descs)

interpretation flash_read: rpc_service "qspi_flash_rpc_thread codes h" fcode_read "read_descs n"
    "read_body h" for codes h n
  unfolding qspi_flash_rpc_thread_def
  by (rule rpc_dispatch_service) (simp_all add: flash_fcodes flash_descs)

interpretation flash_read_mode: rpc_service "qspi_flash_rpc_thread codes h" fcode_read_mode
    "read_mode_descs n" "read_mode_body codes h" for codes h n
  unfolding qspi_flash_rpc_thread_def
  by (rule rpc_dispatch_service) (simp_all add: flash_fcodes flash_descs)

interpretation flash_write: rpc_service "qspi_flash_rpc_thread codes h" fcode_write "write_descs n"
    "write_body h" for codes h n
  unfolding qspi_flash_rpc_thread_def
  by (rule rpc_dispatch_service) (simp_all add: flash_fcodes flash_descs)

interpretation flash_erase: rpc_service "qspi_flash_rpc_thread codes h" fcode_erase erase_descs
    "erase_body h" for codes h
  unfolding qspi_flash_rpc_thread_def
  by (rule rpc_dispatch_service) (simp_all add: flash_fcodes flash_descs)

section \<open>The contract of the local driver\<close>

locale flash_service =
  fixes h :: "'s flash_host"
    and inv :: "'s \<Rightarrow> bool"
    and content :: "'s \<Rightarrow> nat \<Rightarrow> byte"
    and conv :: "transfer_mode \<Rightarrow> byte \<Rightarrow> byte"
    and m :: transfer_mode
    and fs :: nat
  assumes exec: "inv s \<Longrightarrow> call_in_range fs x \<Longrightarrow>
      \<exists>s'. exec h x s = Inr (fst (call_spec conv m fs x (content s)), s')
        \<and> inv s' \<and> content s' = snd (call_spec conv m fs x (content s))"
    and size: "inv s \<Longrightarrow> fs < 2 ^ 32"
    and fresh: "inv s \<Longrightarrow> length (heap h n) = n"
begin

text \<open>One chunk, and the loop.\<close>

lemma read_chunk:
  assumes "aport (host_address rpc) \<ge> 0" and "hosts (host_ctx_ptr rpc) = Some s" and "inv s"
    and "a + n \<le> fs" and "n \<le> length data" and "n < 2 ^ 24"
  shows "\<exists>s'. rbind (remote_call rpc (qspi_flash_rpc_thread codes h) fcode_read
        (read_descs n @ [RPC_PARAM_LIST_END])
        [data, word_bytes 4 (of_nat a :: u32), word_bytes 4 (of_nat n :: u32)] hosts)
      (\<lambda>(ap, s'). Inr (ap ! 1, s'))
    = Inr (map (\<lambda>x. conv m (content s x)) [a..<a + n] @ drop n data,
           hosts(host_ctx_ptr rpc \<mapsto> s')) \<and> inv s' \<and> content s' = content s"
proof -
  have fs: "fs < 2 ^ 32" using size [OF assms(3)] .
  let ?buf = "if 0 < n then heap h n else []"
  have u: "unat (of_nat a :: u32) = a" "unat (of_nat n :: u32) = n"
    using assms(4,6) fs by (simp_all add: unat_of_nat)
  have pos: "0 < (of_nat n :: u32) \<longleftrightarrow> 0 < n"
    using u(2) by (metis word_of_nat_eq_0_iff unat_eq_zero word_gt_0 neq0_conv)
  have "call_in_range fs (Read ?buf a n)"
    using assms(4) fresh [OF assms(3)] by simp
  from exec [OF assms(3) this]
  obtain s' where s': "exec h (Read ?buf a n) s
      = Inr (map (\<lambda>x. conv m (content s x)) [a..<a + n], s')" "inv s'" "content s' = content s"
    by auto
  have "rbind (remote_call rpc (qspi_flash_rpc_thread codes h) fcode_read
        (read_descs n @ [RPC_PARAM_LIST_END])
        [data, word_bytes 4 (of_nat a :: u32), word_bytes 4 (of_nat n :: u32)] hosts)
      (\<lambda>(ap, s'). Inr (ap ! 1, s'))
    = Inr (map (\<lambda>x. conv m (content s x)) [a..<a + n] @ drop n data, hosts(host_ctx_ptr rpc \<mapsto> s'))"
    using assms(2,5,6) s'(1) u pos
    by (subst flash_read.remote_bind [OF assms(1)])
      (auto simp: flash_descs flash_bodies rpc_body_def with_ctx_def arg_word_def res_simps Let_def)
  then show ?thesis using s' by blast
qed

lemma read_mode_chunk:
  assumes "aport (host_address rpc) \<ge> 0" and "hosts (host_ctx_ptr rpc) = Some s" and "inv s"
    and "a + n \<le> fs" and "n \<le> length data" and "n < 2 ^ 24"
    and "code_mode codes (mode_code codes mode) = mode"
  shows "\<exists>s'. rbind (remote_call rpc (qspi_flash_rpc_thread codes h) fcode_read_mode
        (read_mode_descs n @ [RPC_PARAM_LIST_END])
        [data, word_bytes 4 (of_nat a :: u32), word_bytes 4 (of_nat n :: u32),
         word_bytes 4 (mode_code codes mode)] hosts)
      (\<lambda>(ap, s'). Inr (ap ! 1, s'))
    = Inr (map (\<lambda>x. conv mode (content s x)) [a..<a + n] @ drop n data,
           hosts(host_ctx_ptr rpc \<mapsto> s')) \<and> inv s' \<and> content s' = content s"
proof -
  have fs: "fs < 2 ^ 32" using size [OF assms(3)] .
  let ?buf = "if 0 < n then heap h n else []"
  have u: "unat (of_nat a :: u32) = a" "unat (of_nat n :: u32) = n"
    using assms(4,6) fs by (simp_all add: unat_of_nat)
  have pos: "0 < (of_nat n :: u32) \<longleftrightarrow> 0 < n"
    using u(2) by (metis word_of_nat_eq_0_iff unat_eq_zero word_gt_0 neq0_conv)
  have "call_in_range fs (Read_mode ?buf a n mode)"
    using assms(4) fresh [OF assms(3)] by simp
  from exec [OF assms(3) this]
  obtain s' where s': "exec h (Read_mode ?buf a n mode) s
      = Inr (map (\<lambda>x. conv mode (content s x)) [a..<a + n], s')" "inv s'" "content s' = content s"
    by auto
  have "rbind (remote_call rpc (qspi_flash_rpc_thread codes h) fcode_read_mode
        (read_mode_descs n @ [RPC_PARAM_LIST_END])
        [data, word_bytes 4 (of_nat a :: u32), word_bytes 4 (of_nat n :: u32),
         word_bytes 4 (mode_code codes mode)] hosts)
      (\<lambda>(ap, s'). Inr (ap ! 1, s'))
    = Inr (map (\<lambda>x. conv mode (content s x)) [a..<a + n] @ drop n data, hosts(host_ctx_ptr rpc \<mapsto> s'))"
    using assms(2,5,6,7) s'(1) u pos
    by (subst flash_read_mode.remote_bind [OF assms(1)])
      (auto simp: flash_descs flash_bodies rpc_body_def with_ctx_def arg_word_def res_simps Let_def)
  then show ?thesis using s' by blast
qed

lemma chunks_ok:
  fixes call :: "byte list \<Rightarrow> u32 \<Rightarrow> nat \<Rightarrow> (u32 \<Rightarrow> 's option) \<Rightarrow> (byte list \<times> (u32 \<Rightarrow> 's option)) res"
  assumes call: "\<And>data a n hosts s. hosts p = Some s \<Longrightarrow> inv s \<Longrightarrow> a + n \<le> fs \<Longrightarrow> n \<le> length data \<Longrightarrow>
      n \<le> RTOS_QSPI_FLASH_READ_CHUNK_SIZE \<Longrightarrow>
      \<exists>s'. call data (of_nat a) n hosts = Inr (map (\<lambda>x. g (content s x)) [a..<a + n] @ drop n data,
          hosts(p \<mapsto> s')) \<and> inv s' \<and> content s' = content s"
    and "hosts p = Some s" and "inv s" and "a + n \<le> fs" and "n \<le> length data"
  shows "\<exists>s'. chunk_loop call data (of_nat a) n hosts
      = Inr (map (\<lambda>x. g (content s x)) [a..<a + n] @ drop n data, hosts(p \<mapsto> s'))
    \<and> inv s' \<and> content s' = content s"
  using assms(2-5)
proof (induction n arbitrary: data a hosts s rule: less_induct)
  case (less n)
  let ?k = "min n RTOS_QSPI_FLASH_READ_CHUNK_SIZE"
  have "a + ?k \<le> fs" "?k \<le> length data" "?k \<le> RTOS_QSPI_FLASH_READ_CHUNK_SIZE"
    using less.prems(3,4) by linarith+
  from call [where hosts = hosts and s = s and a = a and n = ?k and data = data,
      OF less.prems(1,2) this]
  obtain s1 where s1: "call data (of_nat a) ?k hosts
      = Inr (map (\<lambda>x. g (content s x)) [a..<a + ?k] @ drop ?k data, hosts(p \<mapsto> s1))"
    "inv s1" "content s1 = content s"
    by auto
  show ?case
  proof (cases "?k = n")
    case True
    then show ?thesis
      using s1 by (intro exI [of _ s1]) (simp add: chunk_loop.simps [of call data] Let_def fun_upd_def)
  next
    case False
    then have k: "?k < n" "0 < ?k" by (auto simp: RTOS_QSPI_FLASH_READ_CHUNK_SIZE_def)
    have "\<exists>s'. chunk_loop call (drop ?k data) (of_nat (a + ?k)) (n - ?k) (hosts(p \<mapsto> s1))
        = Inr (map (\<lambda>x. g (content s1 x)) [a + ?k..<a + ?k + (n - ?k)] @ drop (n - ?k) (drop ?k data),
            (hosts(p \<mapsto> s1))(p \<mapsto> s')) \<and> inv s' \<and> content s' = content s1"
      using k less.prems(3,4) s1(2) by (intro less.IH) auto
    then obtain s2 where s2: "chunk_loop call (drop ?k data) (of_nat a + of_nat ?k) (n - ?k) (hosts(p \<mapsto> s1))
        = Inr (map (\<lambda>x. g (content s x)) [a + ?k..<a + n] @ drop n data, hosts(p \<mapsto> s2))"
      "inv s2" "content s2 = content s"
      using k s1(3) by (auto simp: add.assoc)
    have "[a..<a + n] = [a..<a + ?k] @ [a + ?k..<a + n]"
      using k by (metis le_add1 le_iff_add less_imp_le_nat upt_add_eq_append add.assoc)
    then show ?thesis
      using k s1(1) s2 min_less_iff_disj [of n RTOS_QSPI_FLASH_READ_CHUNK_SIZE n]
      by (intro exI [of _ s2]) (simp add: chunk_loop.simps [of call data] Let_def fun_upd_def split: if_splits)
  qed
qed

lemma remote_read:
  assumes "aport (host_address rpc) \<ge> 0" and "hosts (host_ctx_ptr rpc) = Some s" and "inv s"
    and "a + n \<le> fs" and "n \<le> length data"
  shows "\<exists>s'. qspi_flash_remote_read rpc (qspi_flash_rpc_thread codes h) data (of_nat a) n hosts
      = Inr (map (\<lambda>x. conv m (content s x)) [a..<a + n] @ drop n data, hosts(host_ctx_ptr rpc \<mapsto> s'))
    \<and> inv s' \<and> content s' = content s"
  unfolding qspi_flash_remote_read_def
  by (rule chunks_ok [where g = "conv m"], rule read_chunk [OF assms(1)])
    (use assms(2-5) in \<open>simp_all add: RTOS_QSPI_FLASH_READ_CHUNK_SIZE_def\<close>)

lemma remote_read_mode:
  assumes "aport (host_address rpc) \<ge> 0" and "hosts (host_ctx_ptr rpc) = Some s" and "inv s"
    and "a + n \<le> fs" and "n \<le> length data" and "code_mode codes (mode_code codes mode) = mode"
  shows "\<exists>s'. qspi_flash_remote_read_mode codes rpc (qspi_flash_rpc_thread codes h) mode data
        (of_nat a) n hosts
      = Inr (map (\<lambda>x. conv mode (content s x)) [a..<a + n] @ drop n data, hosts(host_ctx_ptr rpc \<mapsto> s'))
    \<and> inv s' \<and> content s' = content s"
  unfolding qspi_flash_remote_read_mode_def
  by (rule chunks_ok [where g = "conv mode"], rule read_mode_chunk [OF assms(1)])
    (use assms(2-6) in \<open>simp_all add: RTOS_QSPI_FLASH_READ_CHUNK_SIZE_def\<close>)

lemma remote_write:
  assumes "aport (host_address rpc) \<ge> 0" and "hosts (host_ctx_ptr rpc) = Some s" and "inv s"
    and "a + n < 2 ^ 32" and "n \<le> length data" and "n < 2 ^ 24"
  shows "\<exists>s'. qspi_flash_remote_write rpc (qspi_flash_rpc_thread codes h) data (of_nat a) n hosts
      = Inr (hosts(host_ctx_ptr rpc \<mapsto> s'))
    \<and> inv s' \<and> content s' = snd (call_spec conv m fs (Write (take n data) a n) (content s))"
proof -
  have u: "unat (of_nat a :: u32) = a" "unat (of_nat n :: u32) = n"
    using assms(4) by (simp_all add: unat_of_nat)
  have "call_in_range fs (Write (take n data) a n)"
    using assms(4,5) by simp
  from exec [OF assms(3) this] obtain out s' where s': "exec h (Write (take n data) a n) s = Inr (out, s')"
    "inv s'" "content s' = snd (call_spec conv m fs (Write (take n data) a n) (content s))"
    by auto
  have "qspi_flash_remote_write rpc (qspi_flash_rpc_thread codes h) data (of_nat a) n hosts
      = Inr (hosts(host_ctx_ptr rpc \<mapsto> s'))"
    unfolding qspi_flash_remote_write_def using assms(2,5,6) s'(1) u
    by (subst flash_write.remote_bind [OF assms(1)])
      (auto simp: flash_descs flash_bodies rpc_body_def with_ctx_def arg_word_def res_simps Let_def)
  then show ?thesis using s' by blast
qed

lemma remote_erase:
  assumes "aport (host_address rpc) \<ge> 0" and "hosts (host_ctx_ptr rpc) = Some s" and "inv s"
    and "a + n < 2 ^ 32"
  shows "\<exists>s'. qspi_flash_remote_erase rpc (qspi_flash_rpc_thread codes h) (of_nat a) n hosts
      = Inr (hosts(host_ctx_ptr rpc \<mapsto> s'))
    \<and> inv s' \<and> content s' = snd (call_spec conv m fs (Erase a n) (content s))"
proof -
  have u: "unat (of_nat a :: u32) = a" "unat (of_nat n :: u32) = n"
    using assms(4) by (simp_all add: unat_of_nat)
  have "call_in_range fs (Erase a n)" using assms(4) by simp
  from exec [OF assms(3) this] obtain out s' where s': "exec h (Erase a n) s = Inr (out, s')"
    "inv s'" "content s' = snd (call_spec conv m fs (Erase a n) (content s))"
    by auto
  have "qspi_flash_remote_erase rpc (qspi_flash_rpc_thread codes h) (of_nat a) n hosts
      = Inr (hosts(host_ctx_ptr rpc \<mapsto> s'))"
    unfolding qspi_flash_remote_erase_def using assms(2) s'(1) u
    by (subst flash_erase.remote_bind [OF assms(1)])
      (auto simp: flash_descs flash_bodies rpc_body_def with_ctx_def arg_word_def res_simps Let_def)
  then show ?thesis using s' by blast
qed

end

section \<open>The model's own driver behind the host\<close>

text \<open>
  The local driver of a context: a call queues its request, the operation thread takes its turn.
  The state is the operation thread's last operation and the device.
\<close>

definition local_exec ::
  "('s, 'd) flash_lib \<Rightarrow> 's qspi_ctx \<Rightarrow> api_call \<Rightarrow> flash_op \<times> 'd \<Rightarrow> (byte list \<times> flash_op \<times> 'd) res" where
  "local_exec lib ctx x s =
     rbind (call_request ctx x) (\<lambda>r.
       returned_res (op_thread_turn (api_of lib (qspi_spec ctx)) (flash_size ctx) r (fst s) (snd s)))"

definition local_host ::
  "('s, 'd) flash_lib \<Rightarrow> 's qspi_ctx \<Rightarrow> (nat \<Rightarrow> byte list) \<Rightarrow> (flash_op \<times> 'd) flash_host" where
  "local_host lib ctx fresh =
     \<lparr>exec = local_exec lib ctx, host_lock = Inr, host_unlock = Inr, heap = fresh\<rparr>"

definition local_inv ::
  "('s, 'd) flash_lib \<Rightarrow> ('s \<Rightarrow> bool) \<Rightarrow> 'd nor_view \<Rightarrow> ('d \<Rightarrow> lib_mode)
     \<Rightarrow> (transfer_mode \<Rightarrow> byte \<Rightarrow> byte) \<Rightarrow> nat \<Rightarrow> transfer_mode \<Rightarrow> 's qspi_ctx \<Rightarrow> (nat \<Rightarrow> byte list)
     \<Rightarrow> flash_op \<times> 'd \<Rightarrow> bool" where
  "local_inv lib good v mode decode fs m ctx fresh s \<longleftrightarrow>
     lib_ok lib good v mode decode fs \<and> (\<forall>n. length (fresh n) = n) \<and>
     (\<exists>d0. ctx_ok good mode fs m ctx d0 \<and> (mode d0 = Idle \<longrightarrow> mode (snd s) = mode_of (fst s))) \<and>
     thread_inv v mode (fst s) (snd s)"

lemma local_exec_ok:
  assumes i: "local_inv lib good v mode decode fs m ctx fresh s" and x: "call_in_range fs x"
  shows "\<exists>s'. local_exec lib ctx x s
      = Inr (fst (call_spec (read_conv decode ctx) m fs x (cells v (snd s))), s')
    \<and> local_inv lib good v mode decode fs m ctx fresh s'
    \<and> cells v (snd s') = snd (call_spec (read_conv decode ctx) m fs x (cells v (snd s)))"
proof -
  from i obtain d0 where l: "lib_ok lib good v mode decode fs" and c: "ctx_ok good mode fs m ctx d0"
    and k: "mode d0 = Idle \<longrightarrow> mode (snd s) = mode_of (fst s)" and t: "thread_inv v mode (fst s) (snd s)"
    and n: "\<forall>n. length (fresh n) = n"
    by (auto simp: local_inv_def)
  have g: "good (qspi_spec ctx)" "flash_size ctx = fs" using c by (simp_all add: ctx_ok_def)
  from call_request_ok [OF c x, of decode] obtain r where r: "call_request ctx x = Inr r"
      "in_range fs r"
      "\<forall>c. flash_spec decode fs r c = call_spec (read_conv decode ctx) m fs x c"
      "first_ok mode FLASH_OP_NONE d0 (op r)" by auto
  have "first_ok mode (fst s) (snd s) (op r)"
    using r(4) k by (auto simp: first_ok_def mode_of_def is_slow_def is_fast_def)
  from op_thread_turn_ok [OF lib_good(1-3) [OF l g(1)] lib_size(1) [OF l] lib_good(4) [OF l g(1)]
      lib_size(2) [OF l] t r(2) this] obtain d' where
    "op_thread_turn (api_of lib (qspi_spec ctx)) fs r (fst s) (snd s)
      = Some (Inr (fst (flash_spec decode fs r (cells v (snd s))), op r, d'))"
    "cells v d' = snd (flash_spec decode fs r (cells v (snd s)))" "mode d' = mode_of (op r)"
    "thread_inv v mode (op r) d'" by auto
  then show ?thesis
    using r(1,3) g(2) l c n by (auto simp: local_exec_def local_inv_def)
qed

interpretation local_flash: flash_service "local_host lib ctx fresh"
    "local_inv lib good v mode decode fs m ctx fresh" "\<lambda>s. cells v (snd s)" "read_conv decode ctx" m fs
  for lib good v mode decode fs m ctx fresh
proof
  show "\<exists>s'. exec (local_host lib ctx fresh) x s
      = Inr (fst (call_spec (read_conv decode ctx) m fs x (cells v (snd s))), s')
    \<and> local_inv lib good v mode decode fs m ctx fresh s'
    \<and> cells v (snd s') = snd (call_spec (read_conv decode ctx) m fs x (cells v (snd s)))"
    if "local_inv lib good v mode decode fs m ctx fresh s" and "call_in_range fs x" for s x
    using local_exec_ok [OF that] by (simp add: local_host_def)
  show "fs < 2 ^ 32" if "local_inv lib good v mode decode fs m ctx fresh s" for s
    using that lib_size(1) by (auto simp: local_inv_def)
  show "length (heap (local_host lib ctx fresh) n) = n"
    if "local_inv lib good v mode decode fs m ctx fresh s" for s n
    using that by (auto simp: local_inv_def local_host_def)
qed

lemma local_inv_init:
  assumes l: "lib_ok lib good v mode decode fs"
    and s: "good (case spec of None \<Rightarrow> FL_QUADDEVICE_DEFAULT lib | Some s \<Rightarrow> s)"
    and d: "mode d = Idle" "pending v d = 0"
    and i: "rtos_qspi_flash_init lib spec d = Inr (ctx, d0)
      \<or> rtos_qspi_flash_fast_read_init lib spec m clk_div addr d = Inr (ctx, d0)"
    and n: "\<And>n. length (fresh n) = n"
  shows "local_inv lib good v mode decode fs m ctx fresh (last_op ctx, d0)" and "cells v d0 = cells v d"
proof -
  have c: "ctx_ok good mode fs m ctx d0" and u: "undisturbed v d d0"
    using i init_ctx_ok [OF l s d(1)] fast_init_ctx_ok [OF l s d(1)] by auto
  have "mode d0 \<noteq> Fast" and k: "last_op ctx = FLASH_OP_NONE"
    using c by (auto simp: ctx_ok_def split: if_splits)
  then have "thread_inv v mode FLASH_OP_NONE d0"
    using u d(2) by (cases "mode d0") (auto simp: thread_inv_def undisturbed_def mode_of_def
        is_slow_def is_fast_def)
  with l c k n show "local_inv lib good v mode decode fs m ctx fresh (last_op ctx, d0)"
    by (auto simp: local_inv_def mode_of_def is_slow_def is_fast_def)
  show "cells v d0 = cells v d" using u by (simp add: undisturbed_def)
qed

section \<open>The remote flash\<close>

text \<open>
  The API calls of a client, one after the other; the buffer of a write is only read.
\<close>

fun remote_exec ::
  "mode_codes \<Rightarrow> driver_rpc \<Rightarrow> (byte list \<Rightarrow> 's \<Rightarrow> (byte list \<times> 's) res) \<Rightarrow> api_call \<Rightarrow> 's
     \<Rightarrow> (byte list \<times> 's) res" where
  "remote_exec codes rpc transact (Read data a n) s =
     qspi_flash_remote_read rpc transact data (of_nat a) n s"
| "remote_exec codes rpc transact (Read_mode data a n mode) s =
     qspi_flash_remote_read_mode codes rpc transact mode data (of_nat a) n s"
| "remote_exec codes rpc transact (Write data a n) s =
     rbind (qspi_flash_remote_write rpc transact data (of_nat a) n s) (\<lambda>s'. Inr (take n data, s'))"
| "remote_exec codes rpc transact (Erase a n) s =
     rbind (qspi_flash_remote_erase rpc transact (of_nat a) n s) (\<lambda>s'. Inr ([], s'))"

fun remote_run ::
  "mode_codes \<Rightarrow> driver_rpc \<Rightarrow> (byte list \<Rightarrow> 's \<Rightarrow> (byte list \<times> 's) res) \<Rightarrow> api_call list \<Rightarrow> 's
     \<Rightarrow> (byte list list \<times> 's) res" where
  "remote_run codes rpc transact [] s = Inr ([], s)"
| "remote_run codes rpc transact (x # xs) s =
     rbind (remote_exec codes rpc transact x s) (\<lambda>(out, s1).
       rbind (remote_run codes rpc transact xs s1) (\<lambda>(outs, s2). Inr (out # outs, s2)))"

text \<open>The length of a write travels in the 24 bits of a descriptor.\<close>

fun remote_in_range :: "nat \<Rightarrow> api_call \<Rightarrow> bool" where
  "remote_in_range fs (Write data a n) \<longleftrightarrow> n < 2 ^ 24 \<and> call_in_range fs (Write data a n)"
| "remote_in_range fs x \<longleftrightarrow> call_in_range fs x"

context flash_service
begin

lemma remote_exec_ok:
  assumes "aport (host_address rpc) \<ge> 0" and "hosts (host_ctx_ptr rpc) = Some s" and "inv s"
    and "remote_in_range fs x" and "\<And>mode. code_mode codes (mode_code codes mode) = mode"
  shows "\<exists>s'. remote_exec codes rpc (qspi_flash_rpc_thread codes h) x hosts
      = Inr (fst (call_spec conv m fs x (content s)), hosts(host_ctx_ptr rpc \<mapsto> s'))
    \<and> inv s' \<and> content s' = snd (call_spec conv m fs x (content s))"
proof (cases x)
  case (Read data a n)
  then show ?thesis
    using remote_read [where rpc = rpc and hosts = hosts and s = s, OF assms(1-3), of a n data codes] assms(4) by simp
next
  case (Read_mode data a n mode)
  then show ?thesis
    using remote_read_mode [where rpc = rpc and hosts = hosts and s = s, OF assms(1-3), of a n data codes mode] assms(4,5) by simp
next
  case (Write data a n)
  have w: "call_spec conv m fs (Write (take n data) a n) = call_spec conv m fs (Write data a n)"
    by (auto simp: fun_eq_iff)
  show ?thesis
    using remote_write [where rpc = rpc and hosts = hosts and s = s, OF assms(1-3), of a n data codes] assms(4) w Write by auto
next
  case (Erase a n)
  then show ?thesis
    using remote_erase [where rpc = rpc and hosts = hosts and s = s, OF assms(1-3), of a n codes] assms(4) by auto
qed

lemma remote_run_ok:
  assumes "aport (host_address rpc) \<ge> 0" and "hosts (host_ctx_ptr rpc) = Some s" and "inv s"
    and "list_all (remote_in_range fs) xs" and "\<And>mode. code_mode codes (mode_code codes mode) = mode"
  shows "\<exists>s'. remote_run codes rpc (qspi_flash_rpc_thread codes h) xs hosts
      = Inr (fst (call_spec_run conv m fs xs (content s)), hosts(host_ctx_ptr rpc \<mapsto> s'))
    \<and> inv s' \<and> content s' = snd (call_spec_run conv m fs xs (content s))"
  using assms(2-4)
proof (induction xs arbitrary: hosts s)
  case Nil
  then show ?case by (intro exI [of _ s]) (simp add: fun_upd_idem)
next
  case (Cons x xs)
  from Cons.prems remote_exec_ok [where x = x and hosts = hosts and s = s and codes = codes, OF assms(1)]
    assms(5)
  obtain s1 where s1: "remote_exec codes rpc (qspi_flash_rpc_thread codes h) x hosts
      = Inr (fst (call_spec conv m fs x (content s)), hosts(host_ctx_ptr rpc \<mapsto> s1))" "inv s1"
    "content s1 = snd (call_spec conv m fs x (content s))"
    by auto
  from Cons.IH [where hosts = "hosts(host_ctx_ptr rpc \<mapsto> s1)" and s = s1] Cons.prems(3) s1(2)
  show ?case using s1(1,3) by (auto simp: case_prod_unfold Let_def fun_upd_def cong: if_cong)
qed

end

text \<open>
  C18. A client whose calls go through the RPC layer to a host that was initialised in
  either way sees the same memory as a task on the host: every sequence of remote reads,
  writes and erases runs to the end and gives the data and the contents of the abstract
  memory, a read of any length in chunks.
\<close>

theorem qspi_remote_is_a_memory:
  assumes p: "aport (host_address rpc) \<ge> 0" "hosts (host_ctx_ptr rpc) = Some (last_op ctx, d0)"
    and codes: "\<And>mode. code_mode codes (mode_code codes mode) = mode"
    and l: "lib_ok lib good v mode decode fs"
    and s: "good (case spec of None \<Rightarrow> FL_QUADDEVICE_DEFAULT lib | Some s \<Rightarrow> s)"
    and d: "mode d = Idle" "pending v d = 0"
    and i: "rtos_qspi_flash_init lib spec d = Inr (ctx, d0)
      \<or> rtos_qspi_flash_fast_read_init lib spec m clk_div addr d = Inr (ctx, d0)"
    and n: "\<And>n. length (fresh n) = n"
    and x: "list_all (remote_in_range fs) xs"
  shows "\<exists>k d'. remote_run codes rpc (qspi_flash_rpc_thread codes (local_host lib ctx fresh)) xs hosts
      = Inr (fst (call_spec_run (read_conv decode ctx) m fs xs (cells v d)),
             hosts(host_ctx_ptr rpc \<mapsto> (k, d')))
    \<and> cells v d' = snd (call_spec_run (read_conv decode ctx) m fs xs (cells v d))"
  using local_flash.remote_run_ok [where rpc = rpc and hosts = hosts, OF p local_inv_init(1) [OF l s d i n] x codes]
    local_inv_init(2) [OF l s d i n]
  by auto

section \<open>Configuration\<close>

text \<open>
  The words the host sends when it initialises, on every client's link, and the client's copy
  of what they carry. The client creates its mutex when it is configured.
\<close>

record remote_flash =
  flash_rpc :: driver
  r_flash_size :: u32
  r_pageSize :: u32
  r_numPages :: u32
  r_sectorEraseSize :: u32
  r_calibration_valid :: bool

definition rtos_qspi_flash_rpc_client_init ::
  "u32 \<Rightarrow> u32 list \<Rightarrow> driver_rpc \<Rightarrow> driver \<Rightarrow> remote_flash" where
  "rtos_qspi_flash_rpc_client_init host_intertile ws r d =
     \<lparr>flash_rpc = driver_rpc_init_client host_intertile (ws ! 0) r d, r_flash_size = ws ! 1,
      r_pageSize = ws ! 2, r_numPages = ws ! 3, r_sectorEraseSize = ws ! 4,
      r_calibration_valid = (ws ! 5 \<noteq> 0)\<rparr>"

definition rtos_qspi_flash_rpc_host_init ::
  "u32 \<Rightarrow> remote_flash \<Rightarrow> u32 list \<Rightarrow> driver_rpc \<Rightarrow> (remote_flash \<times> (u32 \<times> u32 list) list) res" where
  "rtos_qspi_flash_rpc_host_init own f client_intertile_ctx r =
     rbind (driver_rpc_init_host own client_intertile_ctx r (flash_rpc f)) (\<lambda>(d, out).
       Inr (f\<lparr>flash_rpc := d\<rparr>,
            map (\<lambda>(c, w). (c, [w, r_flash_size f, r_pageSize f, r_numPages f, r_sectorEraseSize f,
                               of_bool (r_calibration_valid f)])) out))"

definition qspi_flash_rpc_start :: "driver_rpc \<Rightarrow> (rpc_addr \<times> int) list res" where
  "qspi_flash_rpc_start = rpc_start"

definition rtos_qspi_flash_rpc_config :: "u32 \<Rightarrow> u32 \<Rightarrow> driver \<Rightarrow> driver res" where
  "rtos_qspi_flash_rpc_config = driver_rpc_config"

text \<open>The client has the host's geometry and calibration after the handshake.\<close>

lemma flash_handshake:
  assumes "rtos_qspi_flash_rpc_host_init own f cs r = Inr (f', out)" and "(c, ws) \<in> set out"
  shows "let g = rtos_qspi_flash_rpc_client_init host_intertile ws r' d in
    (r_flash_size g, r_pageSize g, r_numPages g, r_sectorEraseSize g, r_calibration_valid g)
    = (r_flash_size f, r_pageSize f, r_numPages f, r_sectorEraseSize f, r_calibration_valid f)"
  using assms
  by (auto simp: rtos_qspi_flash_rpc_host_init_def rtos_qspi_flash_rpc_client_init_def res_simps
      rbind_eq_Inr)

section \<open>On the chip\<close>

definition chip_codes :: mode_codes where
  "chip_codes =
     \<lparr>mode_code = (\<lambda>m. case m of transfer_raw \<Rightarrow> 0 | transfer_nibble_swap \<Rightarrow> 1),
      code_mode = (\<lambda>w. if w = 0 then transfer_raw else transfer_nibble_swap)\<rparr>"

lemma chip_codes [simp]: "code_mode chip_codes (mode_code chip_codes mode) = mode"
  by (cases mode) (simp_all add: chip_codes_def)

theorem qspi_remote_is_a_memory_witness:
  "\<exists>k d'. remote_run chip_codes echo_rpc
      (qspi_flash_rpc_thread chip_codes (local_host chip_lib chip_ctx unset))
      [Write [0x50, 0x0A] 0 2, Read [0, 0] 0 2, Erase 1 1]
      [64 \<mapsto> (FLASH_OP_NONE, fresh_chip)]
    = Inr (fst (call_spec_run (read_conv chip_decode chip_ctx) transfer_nibble_swap chip_size
          [Write [0x50, 0x0A] 0 2, Read [0, 0] 0 2, Erase 1 1] (cells chip_view fresh_chip)),
        [64 \<mapsto> (k, d')])"
  using qspi_remote_is_a_memory [where rpc = echo_rpc and hosts = "[64 \<mapsto> (FLASH_OP_NONE, fresh_chip)]"
      and ctx = chip_ctx and d0 = fresh_chip and codes = chip_codes and d = fresh_chip
      and xs = "[Write [0x50, 0x0A] 0 2, Read [0, 0] 0 2, Erase 1 1]" and fresh = unset,
      OF _ _ _ chip_lib_ok _ _ _ disjI2 [OF chip_fast_init]]
  by (auto simp: chip_ctx_def fresh_chip_def used_chip_def chip_view_def chip_size_def)

end
