(* ===== verification/Rpc_Words.thy ===== *)
theory Rpc_Words
  imports Rpc_Args
begin

text \<open>
  Remote calls that carry words only: \<open>k\<close> arguments after the context and \<open>n\<close> results. One lemma
  says that such a call is the host's function on the arguments of the client.
\<close>

definition word_descs :: "nat \<Rightarrow> nat \<Rightarrow> rpc_param_desc list" where
  "word_descs k n =
     RPC_PARAM_TYPE 4 # replicate k (RPC_PARAM_TYPE 4) @ replicate n (RPC_PARAM_RETURN 4)"

definition remote_words ::
  "driver_rpc \<Rightarrow> (byte list \<Rightarrow> 's \<Rightarrow> (byte list \<times> 's) res) \<Rightarrow> u32 \<Rightarrow> u32 list \<Rightarrow> nat \<Rightarrow> 's
     \<Rightarrow> (u32 list \<times> 's) res" where
  "remote_words rpc transact fc ws n s =
     rbind (remote_call rpc transact fc (word_descs (length ws) n @ [RPC_PARAM_LIST_END])
              (map (word_bytes 4) ws @ replicate n (unset 4)) s)
       (\<lambda>(ap, s'). Inr (map bytes_word (take n (drop (Suc (length ws)) ap)), s'))"

definition words_body ::
  "nat \<Rightarrow> nat \<Rightarrow> (u32 list \<Rightarrow> 'c \<Rightarrow> (u32 list \<times> 'c) res) \<Rightarrow> (u32 \<Rightarrow> 'c option) rpc_body" where
  "words_body k n f = rpc_body (Suc (k + n)) (\<lambda>args c.
     rbind (f (map (arg_word args) [1..<Suc k]) c) (\<lambda>(rs, c').
       Inr (map (\<lambda>i. rv (arg_word args i :: u32)) [0..<Suc k] @ map rv rs, c')))"

lemma length_word_descs [simp]: "length (word_descs k n) = Suc (k + n)"
  by (simp add: word_descs_def)

lemma list_all2_replicate:
  "list_all2 P (replicate k x) ys \<longleftrightarrow> length ys = k \<and> list_all (P x) ys"
proof (induction k arbitrary: ys)
  case (Suc k)
  then show ?case by (cases ys) auto
qed auto

lemma word_args_fit:
  "args_fit (word_descs (length ws) n) (word_bytes 4 (p :: u32) # map (word_bytes 4) (ws :: u32 list)
     @ replicate n (unset 4))"
  by (simp add: word_descs_def args_fit_def list_all2_append list_all2_replicate list_all_iff)

lemma word_received:
  "map2 received (word_descs (length ws) n) (word_bytes 4 p # map (word_bytes 4) (ws :: u32 list)
     @ replicate n (unset 4))
   = Arg_val (word_bytes 4 p) # map (\<lambda>w. Arg_val (word_bytes 4 w)) ws @ replicate n Arg_unset"
  by (rule nth_equalityI)
    (auto simp: word_descs_def nth_append nth_Cons' received_def)

lemma word_arguments:
  fixes ws :: "u32 list" and p :: u32 and n :: nat
  defines "args \<equiv> Arg_val (word_bytes 4 p) # map (\<lambda>w. Arg_val (word_bytes 4 w)) ws @ replicate n Arg_unset"
  shows "arg_word args 0 = p" and "map (arg_word args) [Suc 0..<Suc (length ws)] = ws"
    and "length args = Suc (length ws + n)"
proof -
  show "arg_word args 0 = p" by (simp add: args_def arg_word_def)
  have "arg_word args (Suc i) = ws ! i" if "i < length ws" for i
    using that by (simp add: args_def arg_word_def nth_append)
  then show "map (arg_word args) [Suc 0..<Suc (length ws)] = ws"
    by (intro nth_equalityI) (simp_all del: upt_Suc)
qed (simp add: args_def)

lemma word_resp_fit:
  "length rs = n \<Longrightarrow> resp_fit (word_descs k n) (map (\<lambda>i. rv (g i :: u32)) [0..<Suc k] @ map rv (rs :: u32 list))"
  by (auto simp: resp_fit_def word_descs_def list_all2_conv_all_nth nth_append nth_Cons'
      simp del: upt_Suc)

lemma word_returned:
  assumes "length rs = n"
  shows "map bytes_word (take n (drop (Suc (length ws))
      (map2 (\<lambda>(d, a) r. returned d a r) (zip (word_descs (length ws) n) (p # map (word_bytes 4) (ws :: u32 list)
     @ replicate n (unset 4))) (map (\<lambda>i. rv (g i :: u32)) [0..<Suc (length ws)] @ map rv rs))))
    = (rs :: u32 list)"
  using assms
  by (intro nth_equalityI)
    (auto simp: word_descs_def nth_append nth_Cons' simp del: upt_Suc)

lemma remote_words_ok:
  assumes "aport (host_address rpc) \<ge> 0" and "hosts (host_ctx_ptr rpc) = Some c"
    and "map_of table fc = Some (words_body k n f)" and k: "length ws = k" and "k + n < 100"
    and n: "\<And>rs c'. f ws c = Inr (rs, c') \<Longrightarrow> length rs = n"
  shows "remote_words rpc (rpc_dispatch_or e table) fc ws n hosts
    = rbind (f ws c) (\<lambda>(rs, c'). Inr (rs, hosts(host_ctx_ptr rpc \<mapsto> c')))"
proof -
  let ?ds = "word_descs (length ws) n"
  let ?ap = "map (word_bytes 4) ws @ replicate n (unset 4)"
  let ?body = "words_body k n f"
  let ?args = "Arg_val (word_bytes 4 (host_ctx_ptr rpc)) # map (\<lambda>w. Arg_val (word_bytes 4 w)) ws
    @ replicate n Arg_unset"
  let ?ws = "map (\<lambda>i. rv (arg_word ?args i :: u32)) [0..<Suc (length ws)]"
  have "list_all (\<lambda>d. is_input d \<or> is_output d) ?ds"
    by (auto simp: word_descs_def list_all_iff)
  then have service: "rpc_service (rpc_dispatch_or e table) fc ?ds ?body"
    using assms(3) k assms(5) by (intro rpc_dispatch_service) simp_all
  have body: "?body (map2 received ?ds (word_bytes 4 (host_ctx_ptr rpc) # ?ap)) hosts
      = rbind (f ws c) (\<lambda>(rs, c'). Inr (?ws @ map rv rs, hosts(host_ctx_ptr rpc \<mapsto> c')))"
    using assms(2) word_arguments [of "host_ctx_ptr rpc" ws n]
    unfolding word_received words_body_def rpc_body_def k [symmetric]
    by (simp add: with_ctx_def rbind_assoc case_prod_unfold del: upt_Suc)
  show ?thesis
  proof (cases "f ws c")
    case (Inl x)
    then show ?thesis
      using rpc_service.remote_fault [OF service assms(1) word_args_fit, of hosts x] body
      by (simp add: remote_words_def)
  next
    case (Inr r)
    moreover obtain rs c' where r: "r = (rs, c')" by fastforce
    ultimately have "f ws c = Inr (rs, c')" by simp
    then show ?thesis
      using rpc_service.remote [OF service assms(1) word_args_fit, of hosts "?ws @ map rv rs"
          "hosts(host_ctx_ptr rpc \<mapsto> c')"] body word_resp_fit [OF n [of rs c']] word_returned [OF n [of rs c']]
      by (simp add: remote_words_def del: upt_Suc)
  qed
qed

end
