(* ===== verification/Clock_Control.thy ===== *)
theory Clock_Control
  imports Rpc_Words Mrsw_Lock
begin

text \<open>
  The clock control driver (modules/drivers/clock_control/src/rtos_clock_control.c and
  rtos_clock_control_rpc.c): dividers, clocks, PLL and links of a tile, locally and from the
  other tile, and the lock between the two, which is the writer-preferred lock of \<open>Mrsw_Lock\<close>.
\<close>

section \<open>The local driver\<close>

text \<open>The operations of lib_xcore on the clocks and links of a tile.\<close>

record 'w clock_api =
  set_tile_processor_clk_div :: "u32 \<Rightarrow> 'w \<Rightarrow> 'w"
  enable_local_tile_processor_clock_divider :: "'w \<Rightarrow> 'w"
  set_local_node_ref_clk_div :: "u32 \<Rightarrow> 'w \<Rightarrow> 'w"
  set_local_tile_processor_clk_div :: "u32 \<Rightarrow> 'w \<Rightarrow> 'w"
  set_local_node_switch_clk_div :: "u32 \<Rightarrow> 'w \<Rightarrow> 'w"
  get_local_node_ref_clk_div :: "'w \<Rightarrow> u32"
  get_local_tile_processor_clk_div :: "'w \<Rightarrow> u32"
  get_local_node_switch_clk_div :: "'w \<Rightarrow> u32"
  get_local_core_clock :: "'w \<Rightarrow> u32"
  get_local_ref_clock :: "'w \<Rightarrow> u32"
  get_local_switch_clock :: "'w \<Rightarrow> u32"
  set_local_node_pll_ratio :: "u32 \<Rightarrow> u32 \<Rightarrow> u32 \<Rightarrow> 'w \<Rightarrow> 'w"
  get_local_node_pll_ratio :: "'w \<Rightarrow> u32 \<times> u32 \<times> u32"
  scale_links :: "u32 \<Rightarrow> u32 \<Rightarrow> u32 \<Rightarrow> u32 \<Rightarrow> 'w \<Rightarrow> 'w"
  reset_local_links :: "u32 \<Rightarrow> u32 \<Rightarrow> 'w \<Rightarrow> 'w"

text \<open>The recursive mutex is the number of times its owner has taken it.\<close>

record 'w rtos_clock_control =
  clocks :: 'w
  local_lock :: write_pref_mrsw_lock
  cc_mutex :: nat

definition mutex_get :: "'w rtos_clock_control \<Rightarrow> 'w rtos_clock_control" where
  "mutex_get ctx = ctx\<lparr>cc_mutex := cc_mutex ctx + 1\<rparr>"

definition mutex_put :: "'w rtos_clock_control \<Rightarrow> 'w rtos_clock_control" where
  "mutex_put ctx = ctx\<lparr>cc_mutex := cc_mutex ctx - 1\<rparr>"

definition on_clocks :: "('w \<Rightarrow> 'w) \<Rightarrow> 'w rtos_clock_control \<Rightarrow> 'w rtos_clock_control" where
  "on_clocks f ctx = ctx\<lparr>clocks := f (clocks ctx)\<rparr>"

definition clock_control_local_set_ref_clk_div ::
  "'w clock_api \<Rightarrow> u32 \<Rightarrow> 'w rtos_clock_control \<Rightarrow> 'w rtos_clock_control" where
  "clock_control_local_set_ref_clk_div api divider ctx =
     mutex_put (on_clocks (set_local_node_ref_clk_div api divider) (mutex_get ctx))"

definition clock_control_local_set_processor_clk_div ::
  "'w clock_api \<Rightarrow> u32 \<Rightarrow> 'w rtos_clock_control \<Rightarrow> 'w rtos_clock_control" where
  "clock_control_local_set_processor_clk_div api divider ctx =
     mutex_put (on_clocks (set_local_tile_processor_clk_div api divider) (mutex_get ctx))"

definition clock_control_local_set_switch_clk_div ::
  "'w clock_api \<Rightarrow> u32 \<Rightarrow> 'w rtos_clock_control \<Rightarrow> 'w rtos_clock_control" where
  "clock_control_local_set_switch_clk_div api divider ctx =
     mutex_put (on_clocks (set_local_node_switch_clk_div api divider) (mutex_get ctx))"

definition clock_control_local_set_node_pll_ratio ::
  "'w clock_api \<Rightarrow> u32 \<Rightarrow> u32 \<Rightarrow> u32 \<Rightarrow> 'w rtos_clock_control \<Rightarrow> 'w rtos_clock_control" where
  "clock_control_local_set_node_pll_ratio api pre_div mul post_div ctx =
     mutex_put (on_clocks (set_local_node_pll_ratio api pre_div mul post_div) (mutex_get ctx))"

definition clock_control_local_scale_links ::
  "'w clock_api \<Rightarrow> u32 \<Rightarrow> u32 \<Rightarrow> u32 \<Rightarrow> u32 \<Rightarrow> 'w rtos_clock_control \<Rightarrow> 'w rtos_clock_control" where
  "clock_control_local_scale_links api start_addr end_addr delay_intra delay_inter ctx =
     mutex_put (on_clocks (scale_links api start_addr end_addr delay_intra delay_inter) (mutex_get ctx))"

definition clock_control_local_reset_links ::
  "'w clock_api \<Rightarrow> u32 \<Rightarrow> u32 \<Rightarrow> 'w rtos_clock_control \<Rightarrow> 'w rtos_clock_control" where
  "clock_control_local_reset_links api start_addr end_addr ctx =
     mutex_put (on_clocks (reset_local_links api start_addr end_addr) (mutex_get ctx))"

definition clock_control_local_get_ref_clk_div :: "'w clock_api \<Rightarrow> 'w rtos_clock_control \<Rightarrow> u32" where
  "clock_control_local_get_ref_clk_div api ctx = get_local_node_ref_clk_div api (clocks ctx)"

definition clock_control_local_get_processor_clk_div :: "'w clock_api \<Rightarrow> 'w rtos_clock_control \<Rightarrow> u32" where
  "clock_control_local_get_processor_clk_div api ctx = get_local_tile_processor_clk_div api (clocks ctx)"

definition clock_control_local_get_switch_clk_div :: "'w clock_api \<Rightarrow> 'w rtos_clock_control \<Rightarrow> u32" where
  "clock_control_local_get_switch_clk_div api ctx = get_local_node_switch_clk_div api (clocks ctx)"

definition clock_control_local_get_processor_clock :: "'w clock_api \<Rightarrow> 'w rtos_clock_control \<Rightarrow> u32" where
  "clock_control_local_get_processor_clock api ctx = get_local_core_clock api (clocks ctx)"

definition clock_control_local_get_ref_clock :: "'w clock_api \<Rightarrow> 'w rtos_clock_control \<Rightarrow> u32" where
  "clock_control_local_get_ref_clock api ctx = get_local_ref_clock api (clocks ctx)"

definition clock_control_local_get_switch_clock :: "'w clock_api \<Rightarrow> 'w rtos_clock_control \<Rightarrow> u32" where
  "clock_control_local_get_switch_clock api ctx = get_local_switch_clock api (clocks ctx)"

definition clock_control_local_get_node_pll_ratio ::
  "'w clock_api \<Rightarrow> 'w rtos_clock_control \<Rightarrow> u32 \<times> u32 \<times> u32" where
  "clock_control_local_get_node_pll_ratio api ctx = get_local_node_pll_ratio api (clocks ctx)"

text \<open>
  Taking either side of the lock, by task \<open>t\<close> that runs alone: the call tries, and when it has
  to wait goes on only if the event bit is set already. Alone, a call that goes on waiting
  does not return.
\<close>

definition mrsw_lock_reader_get :: "nat \<Rightarrow> write_pref_mrsw_lock \<Rightarrow> write_pref_mrsw_lock res" where
  "mrsw_lock_reader_get t l =
     (let l1 = wp_reader_try t l
      in if wp_pc l1 t = WP_Reading then Inr l1
         else if wp_cond l1
         then let l2 = wp_reader_try t (wp_goto t WP_Read_retry (l1\<lparr>wp_cond := False\<rparr>))
              in if wp_pc l2 t = WP_Reading then Inr l2 else Inl Never_returns
         else Inl Never_returns)"

definition mrsw_lock_writer_get :: "nat \<Rightarrow> write_pref_mrsw_lock \<Rightarrow> write_pref_mrsw_lock res" where
  "mrsw_lock_writer_get t l =
     (let l1 = wp_writer_try t l
      in if wp_pc l1 t = WP_Writing then Inr l1
         else if wp_cond l1
         then Inr (wp_writer_woken t (wp_goto t WP_Write_woken (l1\<lparr>wp_cond := False\<rparr>)))
         else Inl Never_returns)"

definition clock_control_local_lock ::
  "nat \<Rightarrow> 'w rtos_clock_control \<Rightarrow> 'w rtos_clock_control res" where
  "clock_control_local_lock t ctx =
     rbind (mrsw_lock_reader_get t (local_lock ctx)) (\<lambda>l. Inr (ctx\<lparr>local_lock := l\<rparr>))"

definition clock_control_local_unlock ::
  "nat \<Rightarrow> 'w rtos_clock_control \<Rightarrow> 'w rtos_clock_control" where
  "clock_control_local_unlock t ctx = ctx\<lparr>local_lock := wp_reader_put t (local_lock ctx)\<rparr>"

definition rtos_clock_control_start ::
  "'w rtos_clock_control \<Rightarrow> driver \<Rightarrow> ('w rtos_clock_control \<times> driver \<times> (rpc_addr \<times> int) list) res"
  where
  "rtos_clock_control_start ctx d =
     rbind (driver_start d) (\<lambda>(d', threads). Inr (ctx\<lparr>local_lock := wp_create, cc_mutex := 0\<rparr>, d', threads))"

definition rtos_clock_control_init :: "'w clock_api \<Rightarrow> 'w rtos_clock_control \<Rightarrow> 'w rtos_clock_control" where
  "rtos_clock_control_init api =
     on_clocks (\<lambda>w. enable_local_tile_processor_clock_divider api (set_tile_processor_clk_div api 1 w))"

section \<open>The client\<close>

definition fcode_set_ref_clk_div :: u32 where "fcode_set_ref_clk_div = 0"
definition fcode_set_processor_clk_div :: u32 where "fcode_set_processor_clk_div = 1"
definition fcode_set_switch_clk_div :: u32 where "fcode_set_switch_clk_div = 2"
definition fcode_get_ref_clk_div :: u32 where "fcode_get_ref_clk_div = 3"
definition fcode_get_processor_clk_div :: u32 where "fcode_get_processor_clk_div = 4"
definition fcode_get_switch_clk_div :: u32 where "fcode_get_switch_clk_div = 5"
definition fcode_get_processor_clock :: u32 where "fcode_get_processor_clock = 6"
definition fcode_get_ref_clock :: u32 where "fcode_get_ref_clock = 7"
definition fcode_get_switch_clock :: u32 where "fcode_get_switch_clock = 8"
definition fcode_set_node_pll_ratio :: u32 where "fcode_set_node_pll_ratio = 9"
definition fcode_get_node_pll_ratio :: u32 where "fcode_get_node_pll_ratio = 10"
definition fcode_scale_links :: u32 where "fcode_scale_links = 11"
definition fcode_reset_links :: u32 where "fcode_reset_links = 12"
definition fcode_get_local_lock :: u32 where "fcode_get_local_lock = 13"
definition fcode_release_local_lock :: u32 where "fcode_release_local_lock = 14"

lemmas clock_fcodes =
  fcode_set_ref_clk_div_def
  fcode_set_processor_clk_div_def
  fcode_set_switch_clk_div_def
  fcode_get_ref_clk_div_def
  fcode_get_processor_clk_div_def
  fcode_get_switch_clk_div_def
  fcode_get_processor_clock_def
  fcode_get_ref_clock_def
  fcode_get_switch_clock_def
  fcode_set_node_pll_ratio_def
  fcode_get_node_pll_ratio_def
  fcode_scale_links_def
  fcode_reset_links_def
  fcode_get_local_lock_def
  fcode_release_local_lock_def

definition clock_control_remote_set_ref_clk_div ::
  "driver_rpc \<Rightarrow> (byte list \<Rightarrow> 's \<Rightarrow> (byte list \<times> 's) res) \<Rightarrow> u32 \<Rightarrow> 's \<Rightarrow> 's res" where
  "clock_control_remote_set_ref_clk_div rpc transact divider s =
     rbind (remote_words rpc transact fcode_set_ref_clk_div [divider] 0 s) (\<lambda>(_, s'). Inr s')"

definition clock_control_remote_set_processor_clk_div ::
  "driver_rpc \<Rightarrow> (byte list \<Rightarrow> 's \<Rightarrow> (byte list \<times> 's) res) \<Rightarrow> u32 \<Rightarrow> 's \<Rightarrow> 's res" where
  "clock_control_remote_set_processor_clk_div rpc transact divider s =
     rbind (remote_words rpc transact fcode_set_processor_clk_div [divider] 0 s) (\<lambda>(_, s'). Inr s')"

definition clock_control_remote_set_switch_clk_div ::
  "driver_rpc \<Rightarrow> (byte list \<Rightarrow> 's \<Rightarrow> (byte list \<times> 's) res) \<Rightarrow> u32 \<Rightarrow> 's \<Rightarrow> 's res" where
  "clock_control_remote_set_switch_clk_div rpc transact divider s =
     rbind (remote_words rpc transact fcode_set_switch_clk_div [divider] 0 s) (\<lambda>(_, s'). Inr s')"

definition clock_control_remote_set_node_pll_ratio ::
  "driver_rpc \<Rightarrow> (byte list \<Rightarrow> 's \<Rightarrow> (byte list \<times> 's) res) \<Rightarrow> u32 \<Rightarrow> u32 \<Rightarrow> u32 \<Rightarrow> 's \<Rightarrow> 's res" where
  "clock_control_remote_set_node_pll_ratio rpc transact pre_div mul post_div s =
     rbind (remote_words rpc transact fcode_set_node_pll_ratio [pre_div, mul, post_div] 0 s) (\<lambda>(_, s'). Inr s')"

definition clock_control_remote_scale_links ::
  "driver_rpc \<Rightarrow> (byte list \<Rightarrow> 's \<Rightarrow> (byte list \<times> 's) res) \<Rightarrow> u32 \<Rightarrow> u32 \<Rightarrow> u32 \<Rightarrow> u32 \<Rightarrow> 's \<Rightarrow> 's res" where
  "clock_control_remote_scale_links rpc transact start_addr end_addr delay_intra delay_inter s =
     rbind (remote_words rpc transact fcode_scale_links [start_addr, end_addr, delay_intra, delay_inter] 0 s) (\<lambda>(_, s'). Inr s')"

definition clock_control_remote_reset_links ::
  "driver_rpc \<Rightarrow> (byte list \<Rightarrow> 's \<Rightarrow> (byte list \<times> 's) res) \<Rightarrow> u32 \<Rightarrow> u32 \<Rightarrow> 's \<Rightarrow> 's res" where
  "clock_control_remote_reset_links rpc transact start_addr end_addr s =
     rbind (remote_words rpc transact fcode_reset_links [start_addr, end_addr] 0 s) (\<lambda>(_, s'). Inr s')"

definition clock_control_remote_get_ref_clk_div ::
  "driver_rpc \<Rightarrow> (byte list \<Rightarrow> 's \<Rightarrow> (byte list \<times> 's) res) \<Rightarrow> 's \<Rightarrow> (u32 \<times> 's) res" where
  "clock_control_remote_get_ref_clk_div rpc transact s =
     rbind (remote_words rpc transact fcode_get_ref_clk_div [] 1 s) (\<lambda>(rs, s'). Inr (rs ! 0, s'))"

definition clock_control_remote_get_processor_clk_div ::
  "driver_rpc \<Rightarrow> (byte list \<Rightarrow> 's \<Rightarrow> (byte list \<times> 's) res) \<Rightarrow> 's \<Rightarrow> (u32 \<times> 's) res" where
  "clock_control_remote_get_processor_clk_div rpc transact s =
     rbind (remote_words rpc transact fcode_get_processor_clk_div [] 1 s) (\<lambda>(rs, s'). Inr (rs ! 0, s'))"

definition clock_control_remote_get_switch_clk_div ::
  "driver_rpc \<Rightarrow> (byte list \<Rightarrow> 's \<Rightarrow> (byte list \<times> 's) res) \<Rightarrow> 's \<Rightarrow> (u32 \<times> 's) res" where
  "clock_control_remote_get_switch_clk_div rpc transact s =
     rbind (remote_words rpc transact fcode_get_switch_clk_div [] 1 s) (\<lambda>(rs, s'). Inr (rs ! 0, s'))"

definition clock_control_remote_get_processor_clock ::
  "driver_rpc \<Rightarrow> (byte list \<Rightarrow> 's \<Rightarrow> (byte list \<times> 's) res) \<Rightarrow> 's \<Rightarrow> (u32 \<times> 's) res" where
  "clock_control_remote_get_processor_clock rpc transact s =
     rbind (remote_words rpc transact fcode_get_processor_clock [] 1 s) (\<lambda>(rs, s'). Inr (rs ! 0, s'))"

definition clock_control_remote_get_ref_clock ::
  "driver_rpc \<Rightarrow> (byte list \<Rightarrow> 's \<Rightarrow> (byte list \<times> 's) res) \<Rightarrow> 's \<Rightarrow> (u32 \<times> 's) res" where
  "clock_control_remote_get_ref_clock rpc transact s =
     rbind (remote_words rpc transact fcode_get_ref_clock [] 1 s) (\<lambda>(rs, s'). Inr (rs ! 0, s'))"

definition clock_control_remote_get_switch_clock ::
  "driver_rpc \<Rightarrow> (byte list \<Rightarrow> 's \<Rightarrow> (byte list \<times> 's) res) \<Rightarrow> 's \<Rightarrow> (u32 \<times> 's) res" where
  "clock_control_remote_get_switch_clock rpc transact s =
     rbind (remote_words rpc transact fcode_get_switch_clock [] 1 s) (\<lambda>(rs, s'). Inr (rs ! 0, s'))"

definition clock_control_remote_get_node_pll_ratio ::
  "driver_rpc \<Rightarrow> (byte list \<Rightarrow> 's \<Rightarrow> (byte list \<times> 's) res) \<Rightarrow> 's \<Rightarrow> ((u32 \<times> u32 \<times> u32) \<times> 's) res" where
  "clock_control_remote_get_node_pll_ratio rpc transact s =
     rbind (remote_words rpc transact fcode_get_node_pll_ratio [] 3 s)
       (\<lambda>(rs, s'). Inr ((rs ! 0, rs ! 1, rs ! 2), s'))"

definition clock_control_remote_lock ::
  "driver_rpc \<Rightarrow> (byte list \<Rightarrow> 's \<Rightarrow> (byte list \<times> 's) res) \<Rightarrow> 's \<Rightarrow> 's res" where
  "clock_control_remote_lock rpc transact s =
     rbind (remote_words rpc transact fcode_get_local_lock [] 0 s) (\<lambda>(_, s'). Inr s')"

definition clock_control_remote_unlock ::
  "driver_rpc \<Rightarrow> (byte list \<Rightarrow> 's \<Rightarrow> (byte list \<times> 's) res) \<Rightarrow> 's \<Rightarrow> 's res" where
  "clock_control_remote_unlock rpc transact s =
     rbind (remote_words rpc transact fcode_release_local_lock [] 0 s) (\<lambda>(_, s'). Inr s')"

section \<open>The host\<close>

text \<open>The host's functions set the clocks without taking the mutex.\<close>

definition clock_control_set_ref_clk_div_rpc_host :: "'w clock_api \<Rightarrow> (u32 \<Rightarrow> 'w rtos_clock_control option) rpc_body" where
  "clock_control_set_ref_clk_div_rpc_host api = words_body 1 0 (\<lambda>ws ctx.
     Inr ([], on_clocks (set_local_node_ref_clk_div api (ws ! 0)) ctx))"

definition clock_control_set_processor_clk_div_rpc_host :: "'w clock_api \<Rightarrow> (u32 \<Rightarrow> 'w rtos_clock_control option) rpc_body" where
  "clock_control_set_processor_clk_div_rpc_host api = words_body 1 0 (\<lambda>ws ctx.
     Inr ([], on_clocks (set_local_tile_processor_clk_div api (ws ! 0)) ctx))"

definition clock_control_set_switch_clk_div_rpc_host :: "'w clock_api \<Rightarrow> (u32 \<Rightarrow> 'w rtos_clock_control option) rpc_body" where
  "clock_control_set_switch_clk_div_rpc_host api = words_body 1 0 (\<lambda>ws ctx.
     Inr ([], on_clocks (set_local_node_switch_clk_div api (ws ! 0)) ctx))"

definition clock_control_set_node_pll_ratio_rpc_host :: "'w clock_api \<Rightarrow> (u32 \<Rightarrow> 'w rtos_clock_control option) rpc_body" where
  "clock_control_set_node_pll_ratio_rpc_host api = words_body 3 0 (\<lambda>ws ctx.
     Inr ([], on_clocks (set_local_node_pll_ratio api (ws ! 0) (ws ! 1) (ws ! 2)) ctx))"

definition clock_control_scale_links_rpc_host :: "'w clock_api \<Rightarrow> (u32 \<Rightarrow> 'w rtos_clock_control option) rpc_body" where
  "clock_control_scale_links_rpc_host api = words_body 4 0 (\<lambda>ws ctx.
     Inr ([], on_clocks (scale_links api (ws ! 0) (ws ! 1) (ws ! 2) (ws ! 3)) ctx))"

definition clock_control_reset_links_rpc_host :: "'w clock_api \<Rightarrow> (u32 \<Rightarrow> 'w rtos_clock_control option) rpc_body" where
  "clock_control_reset_links_rpc_host api = words_body 2 0 (\<lambda>ws ctx.
     Inr ([], on_clocks (reset_local_links api (ws ! 0) (ws ! 1)) ctx))"

definition clock_control_get_ref_clk_div_rpc_host :: "'w clock_api \<Rightarrow> (u32 \<Rightarrow> 'w rtos_clock_control option) rpc_body" where
  "clock_control_get_ref_clk_div_rpc_host api = words_body 0 1 (\<lambda>ws ctx.
     Inr ([get_local_node_ref_clk_div api (clocks ctx)], ctx))"

definition clock_control_get_processor_clk_div_rpc_host :: "'w clock_api \<Rightarrow> (u32 \<Rightarrow> 'w rtos_clock_control option) rpc_body" where
  "clock_control_get_processor_clk_div_rpc_host api = words_body 0 1 (\<lambda>ws ctx.
     Inr ([get_local_tile_processor_clk_div api (clocks ctx)], ctx))"

definition clock_control_get_switch_clk_div_rpc_host :: "'w clock_api \<Rightarrow> (u32 \<Rightarrow> 'w rtos_clock_control option) rpc_body" where
  "clock_control_get_switch_clk_div_rpc_host api = words_body 0 1 (\<lambda>ws ctx.
     Inr ([get_local_node_switch_clk_div api (clocks ctx)], ctx))"

definition clock_control_get_processor_clk_rpc_host :: "'w clock_api \<Rightarrow> (u32 \<Rightarrow> 'w rtos_clock_control option) rpc_body" where
  "clock_control_get_processor_clk_rpc_host api = words_body 0 1 (\<lambda>ws ctx.
     Inr ([get_local_core_clock api (clocks ctx)], ctx))"

definition clock_control_get_ref_clk_rpc_host :: "'w clock_api \<Rightarrow> (u32 \<Rightarrow> 'w rtos_clock_control option) rpc_body" where
  "clock_control_get_ref_clk_rpc_host api = words_body 0 1 (\<lambda>ws ctx.
     Inr ([get_local_ref_clock api (clocks ctx)], ctx))"

definition clock_control_get_switch_clk_rpc_host :: "'w clock_api \<Rightarrow> (u32 \<Rightarrow> 'w rtos_clock_control option) rpc_body" where
  "clock_control_get_switch_clk_rpc_host api = words_body 0 1 (\<lambda>ws ctx.
     Inr ([get_local_switch_clock api (clocks ctx)], ctx))"

definition clock_control_get_node_pll_ratio_rpc_host :: "'w clock_api \<Rightarrow> (u32 \<Rightarrow> 'w rtos_clock_control option) rpc_body" where
  "clock_control_get_node_pll_ratio_rpc_host api = words_body 0 3 (\<lambda>ws ctx.
     let (pre_div, mul, post_div) = get_local_node_pll_ratio api (clocks ctx)
     in Inr ([pre_div, mul, post_div], ctx))"

text \<open>\<open>t\<close> is the dispatch thread of the client, which takes the writer's side of the lock.\<close>

definition clock_control_get_local_lock_rpc_host :: "nat \<Rightarrow> (u32 \<Rightarrow> 'w rtos_clock_control option) rpc_body" where
  "clock_control_get_local_lock_rpc_host t = words_body 0 0 (\<lambda>ws ctx.
     rbind (mrsw_lock_writer_get t (local_lock ctx)) (\<lambda>l. Inr ([], ctx\<lparr>local_lock := l\<rparr>)))"

definition clock_control_release_local_lock_rpc_host :: "nat \<Rightarrow> (u32 \<Rightarrow> 'w rtos_clock_control option) rpc_body" where
  "clock_control_release_local_lock_rpc_host t = words_body 0 0 (\<lambda>ws ctx.
     Inr ([], ctx\<lparr>local_lock := wp_writer_put t (local_lock ctx)\<rparr>))"

definition clock_table ::
  "'w clock_api \<Rightarrow> nat \<Rightarrow> (u32 \<times> (u32 \<Rightarrow> 'w rtos_clock_control option) rpc_body) list" where
  "clock_table api t =
     [(fcode_set_ref_clk_div, clock_control_set_ref_clk_div_rpc_host api),
      (fcode_set_processor_clk_div, clock_control_set_processor_clk_div_rpc_host api),
      (fcode_set_switch_clk_div, clock_control_set_switch_clk_div_rpc_host api),
      (fcode_get_ref_clk_div, clock_control_get_ref_clk_div_rpc_host api),
      (fcode_get_processor_clk_div, clock_control_get_processor_clk_div_rpc_host api),
      (fcode_get_switch_clk_div, clock_control_get_switch_clk_div_rpc_host api),
      (fcode_get_processor_clock, clock_control_get_processor_clk_rpc_host api),
      (fcode_get_ref_clock, clock_control_get_ref_clk_rpc_host api),
      (fcode_get_switch_clock, clock_control_get_switch_clk_rpc_host api),
      (fcode_set_node_pll_ratio, clock_control_set_node_pll_ratio_rpc_host api),
      (fcode_get_node_pll_ratio, clock_control_get_node_pll_ratio_rpc_host api),
      (fcode_scale_links, clock_control_scale_links_rpc_host api),
      (fcode_reset_links, clock_control_reset_links_rpc_host api),
      (fcode_get_local_lock, clock_control_get_local_lock_rpc_host t),
      (fcode_release_local_lock, clock_control_release_local_lock_rpc_host t)]"

definition clock_control_rpc_thread ::
  "'w clock_api \<Rightarrow> nat \<Rightarrow> byte list \<Rightarrow> (u32 \<Rightarrow> 'w rtos_clock_control option)
     \<Rightarrow> (byte list \<times> (u32 \<Rightarrow> 'w rtos_clock_control option)) res" where
  "clock_control_rpc_thread api t = rpc_dispatch_or Assert_failed (clock_table api t)"

lemmas clock_bodies =
  clock_control_set_ref_clk_div_rpc_host_def
  clock_control_set_processor_clk_div_rpc_host_def
  clock_control_set_switch_clk_div_rpc_host_def
  clock_control_get_ref_clk_div_rpc_host_def
  clock_control_get_processor_clk_div_rpc_host_def
  clock_control_get_switch_clk_div_rpc_host_def
  clock_control_get_processor_clk_rpc_host_def
  clock_control_get_ref_clk_rpc_host_def
  clock_control_get_switch_clk_rpc_host_def
  clock_control_set_node_pll_ratio_rpc_host_def
  clock_control_get_node_pll_ratio_rpc_host_def
  clock_control_scale_links_rpc_host_def
  clock_control_reset_links_rpc_host_def
  clock_control_get_local_lock_rpc_host_def
  clock_control_release_local_lock_rpc_host_def

section \<open>A remote call is the local call, but for the lock\<close>

text \<open>The operations, and what a task of the tile or of the other tile gets from them.\<close>

datatype clock_op =
    SetRefClkDiv u32
  | SetProcessorClkDiv u32
  | SetSwitchClkDiv u32
  | SetNodePllRatio u32 u32 u32
  | ScaleLinks u32 u32 u32 u32
  | ResetLinks u32 u32
  | GetRefClkDiv
  | GetProcessorClkDiv
  | GetSwitchClkDiv
  | GetProcessorClock
  | GetRefClock
  | GetSwitchClock
  | GetNodePllRatio
  | Lock
  | Unlock

fun clock_local ::
  "'w clock_api \<Rightarrow> nat \<Rightarrow> clock_op \<Rightarrow> 'w rtos_clock_control \<Rightarrow> (u32 list \<times> 'w rtos_clock_control) res"
  where
  "clock_local api t (SetRefClkDiv divider) ctx = Inr ([], clock_control_local_set_ref_clk_div api divider ctx)"
| "clock_local api t (SetProcessorClkDiv divider) ctx = Inr ([], clock_control_local_set_processor_clk_div api divider ctx)"
| "clock_local api t (SetSwitchClkDiv divider) ctx = Inr ([], clock_control_local_set_switch_clk_div api divider ctx)"
| "clock_local api t (SetNodePllRatio pre_div mul post_div) ctx = Inr ([], clock_control_local_set_node_pll_ratio api pre_div mul post_div ctx)"
| "clock_local api t (ScaleLinks start_addr end_addr delay_intra delay_inter) ctx = Inr ([], clock_control_local_scale_links api start_addr end_addr delay_intra delay_inter ctx)"
| "clock_local api t (ResetLinks start_addr end_addr) ctx = Inr ([], clock_control_local_reset_links api start_addr end_addr ctx)"
| "clock_local api t GetRefClkDiv ctx = Inr ([clock_control_local_get_ref_clk_div api ctx], ctx)"
| "clock_local api t GetProcessorClkDiv ctx = Inr ([clock_control_local_get_processor_clk_div api ctx], ctx)"
| "clock_local api t GetSwitchClkDiv ctx = Inr ([clock_control_local_get_switch_clk_div api ctx], ctx)"
| "clock_local api t GetProcessorClock ctx = Inr ([clock_control_local_get_processor_clock api ctx], ctx)"
| "clock_local api t GetRefClock ctx = Inr ([clock_control_local_get_ref_clock api ctx], ctx)"
| "clock_local api t GetSwitchClock ctx = Inr ([clock_control_local_get_switch_clock api ctx], ctx)"
| "clock_local api t GetNodePllRatio ctx =
     (let (a, b, c) = clock_control_local_get_node_pll_ratio api ctx in Inr ([a, b, c], ctx))"
| "clock_local api t Lock ctx = rbind (clock_control_local_lock t ctx) (\<lambda>ctx'. Inr ([], ctx'))"
| "clock_local api t Unlock ctx = Inr ([], clock_control_local_unlock t ctx)"

fun clock_remote ::
  "driver_rpc \<Rightarrow> (byte list \<Rightarrow> 's \<Rightarrow> (byte list \<times> 's) res) \<Rightarrow> clock_op \<Rightarrow> 's \<Rightarrow> (u32 list \<times> 's) res" where
  "clock_remote rpc tr (SetRefClkDiv divider) s =
     rbind (clock_control_remote_set_ref_clk_div rpc tr divider s) (\<lambda>s'. Inr ([], s'))"
| "clock_remote rpc tr (SetProcessorClkDiv divider) s =
     rbind (clock_control_remote_set_processor_clk_div rpc tr divider s) (\<lambda>s'. Inr ([], s'))"
| "clock_remote rpc tr (SetSwitchClkDiv divider) s =
     rbind (clock_control_remote_set_switch_clk_div rpc tr divider s) (\<lambda>s'. Inr ([], s'))"
| "clock_remote rpc tr (SetNodePllRatio pre_div mul post_div) s =
     rbind (clock_control_remote_set_node_pll_ratio rpc tr pre_div mul post_div s) (\<lambda>s'. Inr ([], s'))"
| "clock_remote rpc tr (ScaleLinks start_addr end_addr delay_intra delay_inter) s =
     rbind (clock_control_remote_scale_links rpc tr start_addr end_addr delay_intra delay_inter s) (\<lambda>s'. Inr ([], s'))"
| "clock_remote rpc tr (ResetLinks start_addr end_addr) s =
     rbind (clock_control_remote_reset_links rpc tr start_addr end_addr s) (\<lambda>s'. Inr ([], s'))"
| "clock_remote rpc tr GetRefClkDiv s =
     rbind (clock_control_remote_get_ref_clk_div rpc tr s) (\<lambda>(r, s'). Inr ([r], s'))"
| "clock_remote rpc tr GetProcessorClkDiv s =
     rbind (clock_control_remote_get_processor_clk_div rpc tr s) (\<lambda>(r, s'). Inr ([r], s'))"
| "clock_remote rpc tr GetSwitchClkDiv s =
     rbind (clock_control_remote_get_switch_clk_div rpc tr s) (\<lambda>(r, s'). Inr ([r], s'))"
| "clock_remote rpc tr GetProcessorClock s =
     rbind (clock_control_remote_get_processor_clock rpc tr s) (\<lambda>(r, s'). Inr ([r], s'))"
| "clock_remote rpc tr GetRefClock s =
     rbind (clock_control_remote_get_ref_clock rpc tr s) (\<lambda>(r, s'). Inr ([r], s'))"
| "clock_remote rpc tr GetSwitchClock s =
     rbind (clock_control_remote_get_switch_clock rpc tr s) (\<lambda>(r, s'). Inr ([r], s'))"
| "clock_remote rpc tr GetNodePllRatio s =
     rbind (clock_control_remote_get_node_pll_ratio rpc tr s) (\<lambda>((a, b, c), s'). Inr ([a, b, c], s'))"
| "clock_remote rpc tr Lock s = rbind (clock_control_remote_lock rpc tr s) (\<lambda>s'. Inr ([], s'))"
| "clock_remote rpc tr Unlock s = rbind (clock_control_remote_unlock rpc tr s) (\<lambda>s'. Inr ([], s'))"

text \<open>What the contract gives a client: the writer's side of the lock, else the local operation.\<close>

fun clock_client_spec ::
  "'w clock_api \<Rightarrow> nat \<Rightarrow> clock_op \<Rightarrow> 'w rtos_clock_control \<Rightarrow> (u32 list \<times> 'w rtos_clock_control) res"
  where
  "clock_client_spec api t Lock ctx =
     rbind (mrsw_lock_writer_get t (local_lock ctx)) (\<lambda>l. Inr ([], ctx\<lparr>local_lock := l\<rparr>))"
| "clock_client_spec api t Unlock ctx = Inr ([], ctx\<lparr>local_lock := wp_writer_put t (local_lock ctx)\<rparr>)"
| "clock_client_spec api t x ctx = clock_local api t x ctx"

lemma mutex_around [simp]: "mutex_put (on_clocks f (mutex_get ctx)) = on_clocks f ctx"
  by (simp add: mutex_put_def mutex_get_def on_clocks_def)

lemmas clock_local_defs =
  clock_control_local_set_ref_clk_div_def
  clock_control_local_set_processor_clk_div_def
  clock_control_local_set_switch_clk_div_def
  clock_control_local_set_node_pll_ratio_def
  clock_control_local_scale_links_def
  clock_control_local_reset_links_def
  clock_control_local_get_ref_clk_div_def
  clock_control_local_get_processor_clk_div_def
  clock_control_local_get_switch_clk_div_def
  clock_control_local_get_processor_clock_def
  clock_control_local_get_ref_clock_def
  clock_control_local_get_switch_clock_def
  clock_control_local_get_node_pll_ratio_def

lemmas clock_remote_defs =
  clock_control_remote_set_ref_clk_div_def
  clock_control_remote_set_processor_clk_div_def
  clock_control_remote_set_switch_clk_div_def
  clock_control_remote_set_node_pll_ratio_def
  clock_control_remote_scale_links_def
  clock_control_remote_reset_links_def
  clock_control_remote_get_ref_clk_div_def
  clock_control_remote_get_processor_clk_div_def
  clock_control_remote_get_switch_clk_div_def
  clock_control_remote_get_processor_clock_def
  clock_control_remote_get_ref_clock_def
  clock_control_remote_get_switch_clock_def
  clock_control_remote_get_node_pll_ratio_def
  clock_control_remote_lock_def
  clock_control_remote_unlock_def

lemma clock_table:
  "map_of (clock_table api t) fcode_set_ref_clk_div = Some (clock_control_set_ref_clk_div_rpc_host api)"
  "map_of (clock_table api t) fcode_set_processor_clk_div = Some (clock_control_set_processor_clk_div_rpc_host api)"
  "map_of (clock_table api t) fcode_set_switch_clk_div = Some (clock_control_set_switch_clk_div_rpc_host api)"
  "map_of (clock_table api t) fcode_get_ref_clk_div = Some (clock_control_get_ref_clk_div_rpc_host api)"
  "map_of (clock_table api t) fcode_get_processor_clk_div = Some (clock_control_get_processor_clk_div_rpc_host api)"
  "map_of (clock_table api t) fcode_get_switch_clk_div = Some (clock_control_get_switch_clk_div_rpc_host api)"
  "map_of (clock_table api t) fcode_get_processor_clock = Some (clock_control_get_processor_clk_rpc_host api)"
  "map_of (clock_table api t) fcode_get_ref_clock = Some (clock_control_get_ref_clk_rpc_host api)"
  "map_of (clock_table api t) fcode_get_switch_clock = Some (clock_control_get_switch_clk_rpc_host api)"
  "map_of (clock_table api t) fcode_set_node_pll_ratio = Some (clock_control_set_node_pll_ratio_rpc_host api)"
  "map_of (clock_table api t) fcode_get_node_pll_ratio = Some (clock_control_get_node_pll_ratio_rpc_host api)"
  "map_of (clock_table api t) fcode_scale_links = Some (clock_control_scale_links_rpc_host api)"
  "map_of (clock_table api t) fcode_reset_links = Some (clock_control_reset_links_rpc_host api)"
  "map_of (clock_table api t) fcode_get_local_lock = Some (clock_control_get_local_lock_rpc_host t)"
  "map_of (clock_table api t) fcode_release_local_lock = Some (clock_control_release_local_lock_rpc_host t)"
  by (simp_all add: clock_table_def clock_fcodes)

lemma clock_remote_spec:
  assumes "aport (host_address rpc) \<ge> 0" and "hosts (host_ctx_ptr rpc) = Some ctx"
  shows "clock_remote rpc (clock_control_rpc_thread api t) x hosts
    = rbind (clock_client_spec api t x ctx) (\<lambda>(rs, ctx'). Inr (rs, hosts(host_ctx_ptr rpc \<mapsto> ctx')))"
proof -
  note words = clock_table [of api t, unfolded clock_bodies,
      THEN remote_words_ok [where rpc = rpc and hosts = hosts and e = Assert_failed, OF assms]]
  show ?thesis
  proof (cases x)
    case GetNodePllRatio
    then show ?thesis
      by (simp add: clock_remote_defs clock_local_defs clock_control_rpc_thread_def)
        (subst words(11); auto simp: Let_def split_def)
  next
    case Lock
    then show ?thesis
      by (simp add: clock_remote_defs clock_control_rpc_thread_def)
        (subst words(14); auto simp: rbind_assoc split_def res_simps)
  qed (simp_all add: words [simplified] clock_remote_defs clock_local_defs
      clock_control_rpc_thread_def)
qed

text \<open>
  Through the RPC client every operation of the clock control driver is the host's: the same
  values, the same effect on the clocks, the PLL ratio and the links of the host, for each
  of the thirteen calls that reach the hardware, and the host's lock for the other two.
\<close>

theorem clock_remote_is_local:
  assumes "aport (host_address rpc) \<ge> 0" and "hosts (host_ctx_ptr rpc) = Some ctx"
  shows "clock_remote rpc (clock_control_rpc_thread api t) x hosts
    = rbind (if x = Lock
             then rbind (mrsw_lock_writer_get t (local_lock ctx)) (\<lambda>l. Inr ([], ctx\<lparr>local_lock := l\<rparr>))
             else if x = Unlock
             then Inr ([], ctx\<lparr>local_lock := wp_writer_put t (local_lock ctx)\<rparr>)
             else clock_local api t x ctx)
        (\<lambda>(rs, ctx'). Inr (rs, hosts(host_ctx_ptr rpc \<mapsto> ctx')))"
  by (cases x) (simp_all add: clock_remote_spec [where rpc = rpc and hosts = hosts, OF assms] del: clock_remote.simps)

section \<open>The lock between the tiles\<close>

text \<open>Calls of the client, and of tasks of the host's tile by their number.\<close>

fun clock_script ::
  "'w clock_api \<Rightarrow> driver_rpc \<Rightarrow> nat \<Rightarrow> (nat option \<times> clock_op) list
     \<Rightarrow> (u32 \<Rightarrow> 'w rtos_clock_control option) \<Rightarrow> (u32 \<Rightarrow> 'w rtos_clock_control option) res" where
  "clock_script api rpc t [] hosts = Inr hosts"
| "clock_script api rpc t ((None, x) # xs) hosts =
     rbind (clock_remote rpc (clock_control_rpc_thread api t) x hosts)
       (\<lambda>(_, hosts'). clock_script api rpc t xs hosts')"
| "clock_script api rpc t ((Some u, x) # xs) hosts =
     rbind (with_ctx (host_ctx_ptr rpc) (clock_local api u x) hosts)
       (\<lambda>(_, hosts'). clock_script api rpc t xs hosts')"

lemmas lock_defs = wp_defs mrsw_lock_reader_get_def mrsw_lock_writer_get_def
  clock_control_local_lock_def clock_control_local_unlock_def

text \<open>
  The local lock does not exclude: when a remote client has taken and given it back, another
  client's reader and the host's own writer hold it at the same time.
\<close>

theorem clock_lock_not_exclusive:
  assumes "aport (host_address rpc) \<ge> 0" and "hosts (host_ctx_ptr rpc) = Some ctx"
    and "local_lock ctx = wp_create" and "t \<noteq> u"
  shows "\<exists>hosts' ctx'. clock_script api rpc t
      [(None, Lock), (None, Unlock), (Some u, Lock), (None, Lock)] hosts = Inr hosts'
    \<and> hosts' (host_ctx_ptr rpc) = Some ctx'
    \<and> wp_pc (local_lock ctx') u = WP_Reading \<and> wp_pc (local_lock ctx') t = WP_Writing"
  using assms(2-4)
  by (simp add: clock_remote_spec [OF assms(1)] with_ctx_def lock_defs Let_def
      del: clock_remote.simps)

section \<open>Configuration\<close>

definition clock_control_rpc_start :: "driver_rpc \<Rightarrow> (rpc_addr \<times> int) list res" where
  "clock_control_rpc_start = rpc_start"

definition rtos_clock_control_rpc_config :: "u32 \<Rightarrow> u32 \<Rightarrow> driver \<Rightarrow> driver res" where
  "rtos_clock_control_rpc_config = driver_rpc_config"

definition rtos_clock_control_rpc_client_init :: "u32 \<Rightarrow> u32 \<Rightarrow> driver_rpc \<Rightarrow> driver \<Rightarrow> driver" where
  "rtos_clock_control_rpc_client_init = driver_rpc_init_client"

definition rtos_clock_control_rpc_host_init ::
  "u32 \<Rightarrow> u32 list \<Rightarrow> driver_rpc \<Rightarrow> driver \<Rightarrow> (driver \<times> (u32 \<times> u32) list) res" where
  "rtos_clock_control_rpc_host_init = driver_rpc_init_host"

section \<open>On a tile of plain dividers\<close>

text \<open>The divider of the processor, and the three of the PLL.\<close>

definition div_api :: "(u32 \<times> u32 \<times> u32 \<times> u32) clock_api" where
  "div_api =
     \<lparr>set_tile_processor_clk_div = (\<lambda>d (_, r). (d, r)),
      enable_local_tile_processor_clock_divider = id,
      set_local_node_ref_clk_div = (\<lambda>_. id),
      set_local_tile_processor_clk_div = (\<lambda>d (_, r). (d, r)),
      set_local_node_switch_clk_div = (\<lambda>_. id),
      get_local_node_ref_clk_div = (\<lambda>_. 1), get_local_tile_processor_clk_div = fst,
      get_local_node_switch_clk_div = (\<lambda>_. 1), get_local_core_clock = (\<lambda>_. 600),
      get_local_ref_clock = (\<lambda>_. 100), get_local_switch_clock = (\<lambda>_. 600),
      set_local_node_pll_ratio = (\<lambda>a b c (d, _). (d, a, b, c)),
      get_local_node_pll_ratio = snd, scale_links = (\<lambda>_ _ _ _. id), reset_local_links = (\<lambda>_ _. id)\<rparr>"

definition div_host :: "(u32 \<times> u32 \<times> u32 \<times> u32) rtos_clock_control" where
  "div_host = \<lparr>clocks = (1, 2, 100, 3), local_lock = wp_create, cc_mutex = 0\<rparr>"

theorem clock_remote_is_local_witness:
  "clock_remote echo_rpc (clock_control_rpc_thread div_api 7) (SetProcessorClkDiv 5) [64 \<mapsto> div_host]
     = Inr ([], [64 \<mapsto> div_host\<lparr>clocks := (5, 2, 100, 3)\<rparr>])
   \<and> clock_remote echo_rpc (clock_control_rpc_thread div_api 7) GetNodePllRatio [64 \<mapsto> div_host]
     = Inr ([2, 100, 3], [64 \<mapsto> div_host])"
  using clock_remote_is_local [of echo_rpc "[64 \<mapsto> div_host]" div_host div_api 7 "SetProcessorClkDiv 5"]
    clock_remote_is_local [of echo_rpc "[64 \<mapsto> div_host]" div_host div_api 7 GetNodePllRatio]
  by (simp add: clock_local_defs div_host_def div_api_def on_clocks_def mutex_get_def mutex_put_def
      del: clock_remote.simps)

theorem clock_lock_not_exclusive_witness:
  "\<exists>hosts' ctx'. clock_script div_api echo_rpc 7
      [(None, Lock), (None, Unlock), (Some 8, Lock), (None, Lock)] [64 \<mapsto> div_host] = Inr hosts'
    \<and> hosts' 64 = Some ctx'
    \<and> wp_pc (local_lock ctx') 8 = WP_Reading \<and> wp_pc (local_lock ctx') 7 = WP_Writing"
  using clock_lock_not_exclusive [of echo_rpc "[64 \<mapsto> div_host]" div_host 7 8 div_api]
  by (simp add: div_host_def del: clock_script.simps)

end
