(* ===== verification/Spi_Master.thy ===== *)
theory Spi_Master
  imports Driver_Rpc
begin

text \<open>
  The local half of the SPI master driver (modules/drivers/spi/src/rtos_spi_master.c): the
  requests of the API functions, the operation thread that executes them with lib_spi (the
  record \<open>spi_api\<close>), and their interleaving. Tasks and devices are numbers.
\<close>

section \<open>The operation thread\<close>

definition SPI_OP_START :: nat where "SPI_OP_START = 0"
definition SPI_OP_XFER :: nat where "SPI_OP_XFER = 1"
definition SPI_OP_DELAY :: nat where "SPI_OP_DELAY = 2"
definition SPI_OP_END :: nat where "SPI_OP_END = 3"

lemmas spi_op_defs = SPI_OP_START_def SPI_OP_XFER_def SPI_OP_DELAY_def SPI_OP_END_def

text \<open>
  A request. \<open>req_task\<close> is the task that sent it; \<open>data_in\<close> is whether it has a buffer for the
  received data, which is then that task's.
\<close>

record spi_xfer_req =
  req_task :: nat
  req_ctx :: nat
  op :: nat
  data_out :: "byte list option"
  data_in :: bool
  len :: nat
  priority :: nat

text \<open>lib_spi, with the bytes a transfer receives.\<close>

record 'b spi_api =
  spi_master_start_transaction :: "nat \<Rightarrow> 'b \<Rightarrow> 'b"
  spi_master_transfer :: "nat \<Rightarrow> byte list option \<Rightarrow> nat \<Rightarrow> 'b \<Rightarrow> byte list \<times> 'b"
  spi_master_delay_before_next_transfer :: "nat \<Rightarrow> nat \<Rightarrow> 'b \<Rightarrow> 'b"
  spi_master_end_transaction :: "nat \<Rightarrow> 'b \<Rightarrow> 'b"

text \<open>
  The operation thread: its priority, the core exclusion map it runs with, and the one it saved.
\<close>

record 'b spi_thread =
  bus :: 'b
  current_priority :: nat
  exclusion :: u32
  core_map :: u32

definition core_exclusion :: "nat \<Rightarrow> u32" where
  "core_exclusion core = NOT (push_bit core 1)"

text \<open>
  One turn of \<open>spi_xfer_thread\<close> on core \<open>core\<close>; the result is what was received into the request's
  buffer, for which the semaphore is put.
\<close>

definition spi_xfer_turn ::
  "'b spi_api \<Rightarrow> nat \<Rightarrow> nat \<Rightarrow> spi_xfer_req \<Rightarrow> 'b spi_thread \<Rightarrow> byte list option \<times> 'b spi_thread" where
  "spi_xfer_turn api op_task_priority core req th =
     (if op req = SPI_OP_START
      then let th1 = (if current_priority th \<noteq> priority req
                      then th\<lparr>current_priority := priority req\<rparr> else th);
               th2 = th1\<lparr>core_map := exclusion th1\<rparr>;
               th3 = th2\<lparr>exclusion := core_exclusion core\<rparr>
           in (None, th3\<lparr>bus := spi_master_start_transaction api (req_ctx req) (bus th3)\<rparr>)
      else if op req = SPI_OP_XFER
      then let (received, b) = spi_master_transfer api (req_ctx req) (data_out req) (len req) (bus th)
           in (if data_in req then Some received else None, th\<lparr>bus := b\<rparr>)
      else if op req = SPI_OP_DELAY
      then (None, th\<lparr>bus := spi_master_delay_before_next_transfer api (req_ctx req) (len req) (bus th)\<rparr>)
      else if op req = SPI_OP_END
      then let th1 = th\<lparr>bus := spi_master_end_transaction api (req_ctx req) (bus th)\<rparr>;
               th2 = th1\<lparr>exclusion := core_map th1\<rparr>
           in (None, if current_priority th2 \<noteq> op_task_priority
                     then th2\<lparr>current_priority := op_task_priority\<rparr> else th2)
      else (None, th))"

section \<open>The requests of the API functions\<close>

definition start_request :: "nat \<Rightarrow> nat \<Rightarrow> nat \<Rightarrow> spi_xfer_req" where
  "start_request t dev prio =
     \<lparr>req_task = t, req_ctx = dev, op = SPI_OP_START, data_out = None, data_in = False, len = 0,
      priority = prio\<rparr>"

text \<open>Without a buffer for received data the data to send is copied, else the call waits.\<close>

definition transfer_request ::
  "nat \<Rightarrow> nat \<Rightarrow> byte list option \<Rightarrow> bool \<Rightarrow> nat \<Rightarrow> spi_xfer_req res" where
  "transfer_request t dev out inp n =
     (let req = \<lparr>req_task = t, req_ctx = dev, op = SPI_OP_XFER, data_out = out, data_in = inp, len = n,
                 priority = 0\<rparr>
      in if inp then Inr req
         else rbind (read_mem (case out of None \<Rightarrow> [] | Some m \<Rightarrow> m) n) (\<lambda>copy.
                Inr (req\<lparr>data_out := Some copy\<rparr>)))"

definition delay_request :: "nat \<Rightarrow> nat \<Rightarrow> nat \<Rightarrow> spi_xfer_req" where
  "delay_request t dev delay_ticks =
     \<lparr>req_task = t, req_ctx = dev, op = SPI_OP_DELAY, data_out = None, data_in = False,
      len = delay_ticks, priority = 0\<rparr>"

definition end_request :: "nat \<Rightarrow> nat \<Rightarrow> spi_xfer_req" where
  "end_request t dev =
     \<lparr>req_task = t, req_ctx = dev, op = SPI_OP_END, data_out = None, data_in = False, len = 0,
      priority = 0\<rparr>"

lemmas request_defs = start_request_def transfer_request_def delay_request_def end_request_def

section \<open>Tasks and the operation thread\<close>

text \<open>
  Where a task is: outside the driver or between its calls, about to send a request, waiting
  for received data, or about to give the lock back. \<open>lock\<close> is the recursive mutex with its
  owner and count, the queue holds two requests, \<open>data_ready\<close> is the binary semaphore.
  \<open>buffer t\<close> is the buffer for received data of task \<open>t\<close>'s call, and \<open>executed\<close> what the thread
  has done, which the code does not keep.
\<close>

datatype spi_pc = Ready | Sending spi_xfer_req | Awaiting | Unlocking

record 'b spi_sys =
  lock :: "(nat \<times> nat) option"
  xfer_req_queue :: "spi_xfer_req list"
  data_ready :: bool
  op_thread :: "'b spi_thread"
  task_pc :: "nat \<Rightarrow> spi_pc"
  buffer :: "nat \<Rightarrow> byte list"
  executed :: "(spi_xfer_req \<times> byte list option) list"

definition rtos_spi_master_start :: "nat \<Rightarrow> u32 \<Rightarrow> 'b \<Rightarrow> 'b spi_sys" where
  "rtos_spi_master_start prio excl b =
     \<lparr>lock = None, xfer_req_queue = [], data_ready = False,
      op_thread = \<lparr>bus = b, current_priority = prio, exclusion = excl, core_map = 0\<rparr>,
      task_pc = (\<lambda>_. Ready), buffer = (\<lambda>_. []), executed = []\<rparr>"

definition goto :: "nat \<Rightarrow> spi_pc \<Rightarrow> 'b spi_sys \<Rightarrow> 'b spi_sys" where
  "goto t p s = s\<lparr>task_pc := (task_pc s)(t := p)\<rparr>"

definition mutex_taken :: "nat \<Rightarrow> (nat \<times> nat) option \<Rightarrow> (nat \<times> nat) option" where
  "mutex_taken t l = (case l of None \<Rightarrow> Some (t, 1) | Some (u, n) \<Rightarrow> Some (u, n + 1))"

definition mutex_given :: "(nat \<times> nat) option \<Rightarrow> (nat \<times> nat) option" where
  "mutex_given l = (case l of None \<Rightarrow> None | Some (u, n) \<Rightarrow> if n = 1 then None else Some (u, n - 1))"

definition after_send :: "spi_xfer_req \<Rightarrow> spi_pc" where
  "after_send r =
     (if op r = SPI_OP_XFER \<and> data_in r then Awaiting
      else if op r = SPI_OP_END then Unlocking else Ready)"

text \<open>The thread takes a request, executes it and, for received data, fills the buffer.\<close>

definition serve :: "'b spi_api \<Rightarrow> nat \<Rightarrow> nat \<Rightarrow> 'b spi_sys \<Rightarrow> 'b spi_sys" where
  "serve api prio core s =
     (case xfer_req_queue s of
        [] \<Rightarrow> s
      | r # rs \<Rightarrow>
          let (received, th) = spi_xfer_turn api prio core r (op_thread s);
              s1 = s\<lparr>xfer_req_queue := rs, op_thread := th, executed := executed s @ [(r, received)]\<rparr>
          in case received of
               None \<Rightarrow> s1
             | Some d \<Rightarrow> s1\<lparr>buffer := (buffer s1)(req_task r := d), data_ready := True\<rparr>)"

text \<open>
  The calls of a task that follow the rules of the API: a transfer, a delay and an end only in
  a transaction of its own.
\<close>

inductive spi_step :: "'b spi_api \<Rightarrow> nat \<Rightarrow> 'b spi_sys \<Rightarrow> 'b spi_sys \<Rightarrow> bool" for api prio where
  transaction_start: "task_pc s t = Ready \<Longrightarrow> lock s = None \<or> (\<exists>n. lock s = Some (t, n)) \<Longrightarrow>
    spi_step api prio s (goto t (Sending (start_request t dev p)) (s\<lparr>lock := mutex_taken t (lock s)\<rparr>))"
| transfer: "task_pc s t = Ready \<Longrightarrow> lock s = Some (t, n) \<Longrightarrow> transfer_request t dev out inp k = Inr r \<Longrightarrow>
    spi_step api prio s (goto t (Sending r) s)"
| delay: "task_pc s t = Ready \<Longrightarrow> lock s = Some (t, n) \<Longrightarrow>
    spi_step api prio s (goto t (Sending (delay_request t dev k)) s)"
| transaction_end: "task_pc s t = Ready \<Longrightarrow> lock s = Some (t, n) \<Longrightarrow>
    spi_step api prio s (goto t (Sending (end_request t dev)) s)"
| send: "task_pc s t = Sending r \<Longrightarrow> length (xfer_req_queue s) < 2 \<Longrightarrow>
    spi_step api prio s (goto t (after_send r) (s\<lparr>xfer_req_queue := xfer_req_queue s @ [r]\<rparr>))"
| wake: "task_pc s t = Awaiting \<Longrightarrow> data_ready s \<Longrightarrow>
    spi_step api prio s (goto t Ready (s\<lparr>data_ready := False\<rparr>))"
| unlock: "task_pc s t = Unlocking \<Longrightarrow>
    spi_step api prio s (goto t Ready (s\<lparr>lock := mutex_given (lock s)\<rparr>))"
| execute: "xfer_req_queue s \<noteq> [] \<Longrightarrow> spi_step api prio s (serve api prio core s)"

section \<open>Transactions on the bus\<close>

text \<open>
  The transaction that is open after some requests, with its depth, or \<open>None\<close> when a request of
  another task falls into it or a request falls outside every transaction.
\<close>

fun bracket :: "(nat \<times> nat) option \<Rightarrow> spi_xfer_req list \<Rightarrow> (nat \<times> nat) option option" where
  "bracket b [] = Some b"
| "bracket None (r # rs) =
     (if op r = SPI_OP_START then bracket (Some (req_task r, 1)) rs else None)"
| "bracket (Some (t, n)) (r # rs) =
     (if req_task r \<noteq> t then None
      else if op r = SPI_OP_START then bracket (Some (t, n + 1)) rs
      else if op r = SPI_OP_END then bracket (if n = 1 then None else Some (t, n - 1)) rs
      else bracket (Some (t, n)) rs)"

lemma bracket_append:
  "bracket b (xs @ ys) = (case bracket b xs of None \<Rightarrow> None | Some b' \<Rightarrow> bracket b' ys)"
  by (induction b xs rule: bracket.induct) auto

text \<open>
  The owner of the lock is ahead of what has been sent when it is about to send its start, and
  behind when it has sent its end.
\<close>

definition open_transaction :: "'b spi_sys \<Rightarrow> (nat \<times> nat) option" where
  "open_transaction s =
     (case lock s of
        None \<Rightarrow> None
      | Some (t, n) \<Rightarrow>
          if task_pc s t = Unlocking \<or> (\<exists>r. task_pc s t = Sending r \<and> op r = SPI_OP_START)
          then (if n = 1 then None else Some (t, n - 1)) else Some (t, n))"

abbreviation wants_data :: "spi_xfer_req \<Rightarrow> bool" where
  "wants_data r \<equiv> op r = SPI_OP_XFER \<and> data_in r"

text \<open>While a task waits, its request is the last one in the queue or the last one executed.\<close>

definition waits_ok :: "'b spi_sys \<Rightarrow> nat \<Rightarrow> bool" where
  "waits_ok s t \<longleftrightarrow>
     (\<exists>q r. xfer_req_queue s = q @ [r] \<and> wants_data r \<and> req_task r = t
        \<and> (\<forall>x\<in>set q. \<not> wants_data x) \<and> \<not> data_ready s) \<or>
     (\<exists>e r. xfer_req_queue s = [] \<and> data_ready s \<and> executed s = e @ [(r, Some (buffer s t))]
        \<and> wants_data r \<and> req_task r = t)"

definition spi_owned :: "'b spi_sys \<Rightarrow> bool" where
  "spi_owned s \<longleftrightarrow>
     (case lock s of None \<Rightarrow> (\<forall>t. task_pc s t = Ready)
      | Some (t, n) \<Rightarrow> 0 < n \<and> (\<forall>u. u \<noteq> t \<longrightarrow> task_pc s u = Ready)) \<and>
     (\<forall>t r. task_pc s t = Sending r \<longrightarrow> req_task r = t)"

definition spi_bracketed :: "'b spi_sys \<Rightarrow> bool" where
  "spi_bracketed s \<longleftrightarrow>
     bracket None (map fst (executed s) @ xfer_req_queue s) = Some (open_transaction s)"

definition spi_waits :: "'b spi_sys \<Rightarrow> bool" where
  "spi_waits s \<longleftrightarrow>
     (\<forall>t. task_pc s t = Awaiting \<longrightarrow> waits_ok s t) \<and>
     ((\<forall>t. task_pc s t \<noteq> Awaiting) \<longrightarrow>
        \<not> data_ready s \<and> (\<forall>r\<in>set (xfer_req_queue s). \<not> wants_data r))"

definition spi_inv :: "'b spi_sys \<Rightarrow> bool" where
  "spi_inv s \<longleftrightarrow>
     spi_owned s \<and> spi_bracketed s \<and> spi_waits s \<and> length (xfer_req_queue s) \<le> 2"

lemmas spi_inv_defs = spi_inv_def spi_owned_def spi_bracketed_def spi_waits_def

lemma goto_simps [simp]:
  "task_pc (goto t p s) = (task_pc s)(t := p)" "lock (goto t p s) = lock s"
  "xfer_req_queue (goto t p s) = xfer_req_queue s" "data_ready (goto t p s) = data_ready s"
  "executed (goto t p s) = executed s" "buffer (goto t p s) = buffer s"
  "op_thread (goto t p s) = op_thread s"
  by (simp_all add: goto_def)

lemma waits_ok_goto [simp]: "waits_ok (goto t p s) u = waits_ok s u"
  by (simp add: waits_ok_def)

lemma waits_ok_lock [simp]: "waits_ok (s\<lparr>lock := l\<rparr>) u = waits_ok s u"
  by (simp add: waits_ok_def)

lemma transfer_request_simps:
  assumes "transfer_request t dev out inp n = Inr r"
  shows "req_task r = t" and "op r = SPI_OP_XFER" and "data_in r = inp"
  using assms by (auto simp: transfer_request_def Let_def rbind_eq_Inr split: if_splits)

lemma spi_inv_start: "spi_inv (rtos_spi_master_start prio excl b)"
  by (simp add: spi_inv_defs rtos_spi_master_start_def open_transaction_def)

lemma spi_owner:
  assumes "spi_inv s" and "task_pc s t \<noteq> Ready"
  obtains n where "lock s = Some (t, n)" "0 < n" "\<And>u. u \<noteq> t \<Longrightarrow> task_pc s u = Ready"
proof (cases "lock s")
  case None
  with assms show ?thesis by (simp add: spi_inv_defs)
next
  case (Some a)
  obtain u n where a: "a = (u, n)" by fastforce
  with Some assms have "u = t" by (auto simp: spi_inv_defs)
  with Some a assms show ?thesis by (intro that [of n]) (auto simp: spi_inv_defs)
qed

lemma nobody_waits:
  assumes i: "spi_inv s" and "lock s = None \<or> (\<exists>n. lock s = Some (t, n))" and "task_pc s t \<noteq> Awaiting"
  shows "task_pc s u \<noteq> Awaiting" and "\<not> data_ready s" and "\<forall>r\<in>set (xfer_req_queue s). \<not> wants_data r"
proof -
  have w: "task_pc s u \<noteq> Awaiting" for u
  proof
    assume "task_pc s u = Awaiting"
    then obtain n where "lock s = Some (u, n)" by (auto intro: spi_owner [OF i, of u])
    with assms(2,3) \<open>task_pc s u = Awaiting\<close> show False by auto
  qed
  then show "task_pc s u \<noteq> Awaiting" "\<not> data_ready s" "\<forall>r\<in>set (xfer_req_queue s). \<not> wants_data r"
    using i by (auto simp: spi_inv_def spi_waits_def)
qed

text \<open>A task outside the driver goes on to send a request of its own.\<close>

lemma spi_inv_sending:
  assumes i: "spi_inv s" and "task_pc s t = Ready" and "lock s = Some (t, n)" and "req_task r = t"
    and "op r \<noteq> SPI_OP_START"
  shows "spi_inv (goto t (Sending r) s)"
proof -
  have "spi_waits (goto t (Sending r) s)"
    using nobody_waits [OF i, of t] assms(2,3) by (simp add: spi_waits_def)
  moreover have "spi_bracketed (goto t (Sending r) s)"
    using assms by (simp add: spi_inv_def spi_bracketed_def open_transaction_def)
  ultimately show ?thesis
    using assms by (simp add: spi_inv_def spi_owned_def)
qed

lemma spi_inv_starting:
  assumes i: "spi_inv s" and p: "task_pc s t = Ready"
    and l: "lock s = None \<or> (\<exists>n. lock s = Some (t, n))"
  shows "spi_inv (goto t (Sending (start_request t dev p)) (s\<lparr>lock := mutex_taken t (lock s)\<rparr>))"
    (is "spi_inv ?s")
proof -
  have "spi_waits ?s"
    using nobody_waits [OF i l] p by (simp add: spi_waits_def)
  moreover have "spi_bracketed ?s" "spi_owned ?s"
    using assms by (auto simp: spi_inv_def spi_bracketed_def spi_owned_def open_transaction_def
        mutex_taken_def start_request_def)
  ultimately show ?thesis using i by (simp add: spi_inv_def)
qed

lemma spi_inv_send:
  assumes i: "spi_inv s" and p: "task_pc s t = Sending r" and l: "length (xfer_req_queue s) < 2"
  shows "spi_inv (goto t (after_send r) (s\<lparr>xfer_req_queue := xfer_req_queue s @ [r]\<rparr>))"
proof -
  obtain n where lk: "lock s = Some (t, n)" "0 < n" and others: "\<And>u. u \<noteq> t \<Longrightarrow> task_pc s u = Ready"
    by (rule spi_owner [OF i, of t]) (use p in auto)
  have r: "req_task r = t" using i p by (auto simp: spi_inv_defs)
  have none: "\<And>u. task_pc s u \<noteq> Awaiting" using p others by (metis spi_pc.distinct)
  then have q: "\<not> data_ready s" "\<forall>x\<in>set (xfer_req_queue s). \<not> wants_data x"
    using i by (auto simp: spi_inv_def spi_waits_def)
  let ?s = "goto t (after_send r) (s\<lparr>xfer_req_queue := xfer_req_queue s @ [r]\<rparr>)"
  have "spi_owned ?s"
    using others lk by (simp add: spi_owned_def after_send_def)
  moreover have "spi_bracketed ?s"
    using i p lk r by (auto simp: spi_inv_def spi_bracketed_def bracket_append open_transaction_def
        after_send_def spi_op_defs split: option.splits if_splits)
  moreover have "spi_waits ?s"
  proof (cases "wants_data r")
    case True
    then have "waits_ok ?s t" using q r by (auto simp: waits_ok_def)
    then show ?thesis using True none by (auto simp: spi_waits_def after_send_def)
  next
    case False
    then have "task_pc ?s u \<noteq> Awaiting" for u using none by (auto simp: after_send_def)
    then show ?thesis using False q by (auto simp: spi_waits_def)
  qed
  ultimately show ?thesis using l by (simp add: spi_inv_def)
qed

lemma spi_inv_wake:
  assumes i: "spi_inv s" and p: "task_pc s t = Awaiting" and d: "data_ready s"
  shows "spi_inv (goto t Ready (s\<lparr>data_ready := False\<rparr>))"
proof -
  obtain n where lk: "lock s = Some (t, n)" "0 < n" and others: "\<And>u. u \<noteq> t \<Longrightarrow> task_pc s u = Ready"
    by (rule spi_owner [OF i, of t]) (use p in auto)
  have "xfer_req_queue s = []" using i p d by (auto simp: spi_inv_defs waits_ok_def)
  then show ?thesis
    using i p lk others by (auto simp: spi_inv_defs open_transaction_def)
qed

lemma spi_inv_unlock:
  assumes i: "spi_inv s" and p: "task_pc s t = Unlocking"
  shows "spi_inv (goto t Ready (s\<lparr>lock := mutex_given (lock s)\<rparr>))"
proof -
  obtain n where lk: "lock s = Some (t, n)" "0 < n" and others: "\<And>u. u \<noteq> t \<Longrightarrow> task_pc s u = Ready"
    by (rule spi_owner [OF i, of t]) (use p in auto)
  let ?s = "goto t Ready (s\<lparr>lock := mutex_given (lock s)\<rparr>)"
  have "spi_waits ?s"
    using nobody_waits [OF i, of t] lk p by (simp add: spi_waits_def)
  moreover have "spi_bracketed ?s" "spi_owned ?s"
    using i p lk others
    by (auto simp: spi_inv_def spi_bracketed_def spi_owned_def open_transaction_def mutex_given_def)
  ultimately show ?thesis using i by (simp add: spi_inv_def)
qed

lemma received_iff:
  "\<exists>th. spi_xfer_turn api prio core r th0 = (Some d, th) \<Longrightarrow> wants_data r"
  by (auto simp: spi_xfer_turn_def Let_def split: if_splits prod.splits)

lemma wants_data_received:
  assumes "wants_data r"
  obtains d th where "spi_xfer_turn api prio core r th0 = (Some d, th)"
proof -
  have "\<exists>d th. spi_xfer_turn api prio core r th0 = (Some d, th)"
    using assms by (simp add: spi_xfer_turn_def spi_op_defs split: prod.split)
  then show thesis using that by blast
qed

lemma owned_cong:
  assumes "task_pc s' = task_pc s" and "lock s' = lock s"
  shows "spi_owned s' = spi_owned s" and "open_transaction s' = open_transaction s"
  unfolding spi_owned_def open_transaction_def assms by (rule refl)+

lemma spi_inv_serve:
  assumes i: "spi_inv s" and q: "xfer_req_queue s = r # rs"
  shows "spi_inv (serve api prio core s)"
proof -
  obtain received th where turn: "spi_xfer_turn api prio core r (op_thread s) = (received, th)"
    by fastforce
  have s1: "serve api prio core s =
      (case received of
         None \<Rightarrow> s\<lparr>xfer_req_queue := rs, op_thread := th, executed := executed s @ [(r, received)]\<rparr>
       | Some d \<Rightarrow> s\<lparr>xfer_req_queue := rs, op_thread := th, executed := executed s @ [(r, received)],
           buffer := (buffer s)(req_task r := d), data_ready := True\<rparr>)"
    using q turn by (simp add: serve_def Let_def split: option.splits)
  show ?thesis
  proof (cases "wants_data r")
    case True
    obtain d where d: "received = Some d"
      using wants_data_received [OF True, of api prio core "op_thread s"] turn by auto
    obtain t where t: "task_pc s t = Awaiting" using i q True by (auto simp: spi_inv_defs)
    then have "waits_ok s t" using i by (auto simp: spi_inv_defs)
    then have rs: "rs = []" "req_task r = t"
      using q True by (auto simp: waits_ok_def Cons_eq_append_conv)
    obtain n where others: "\<And>u. u \<noteq> t \<Longrightarrow> task_pc s u = Ready"
      by (rule spi_owner [OF i, of t]) (use t in auto)
    have only: "u = t" if "task_pc s u = Awaiting" for u
      using others [of u] that by (cases "u = t") simp_all
    have e: "serve api prio core s = s\<lparr>xfer_req_queue := [], op_thread := th,
        executed := executed s @ [(r, Some d)], buffer := (buffer s)(t := d), data_ready := True\<rparr>"
      using s1 d rs by simp
    have w: "waits_ok (serve api prio core s) t"
      using True rs(2) unfolding e waits_ok_def by simp
    have pc: "task_pc (serve api prio core s) = task_pc s" by (simp add: e)
    have "waits_ok (serve api prio core s) u" if "task_pc s u = Awaiting" for u
      using only [OF that] w by simp
    then have "spi_waits (serve api prio core s)"
      unfolding spi_waits_def pc using t by blast
    then show ?thesis
      using i q rs(1) owned_cong [of "serve api prio core s" s]
      by (simp add: spi_inv_def spi_bracketed_def e)
  next
    case False
    then have d: "received = None"
      using received_iff turn by (cases received) blast+
    have "waits_ok (serve api prio core s) t" if "task_pc s t = Awaiting" for t
    proof -
      have "waits_ok s t" using i that by (simp add: spi_inv_def spi_waits_def)
      moreover have e: "serve api prio core s = s\<lparr>xfer_req_queue := rs, op_thread := th,
          executed := executed s @ [(r, None)]\<rparr>"
        using s1 d by simp
      ultimately show ?thesis
        using q False unfolding e waits_ok_def by (auto simp: Cons_eq_append_conv)
    qed
    moreover have "task_pc (serve api prio core s) = task_pc s" "data_ready (serve api prio core s) = data_ready s"
      "set (xfer_req_queue (serve api prio core s)) \<subseteq> set (xfer_req_queue s)"
      using s1 d q by auto
    ultimately have "spi_waits (serve api prio core s)"
      using i unfolding spi_inv_def spi_waits_def by auto
    then show ?thesis
      using i q d s1 owned_cong [of "serve api prio core s" s]
      by (simp add: spi_inv_def spi_bracketed_def)
  qed
qed

lemma spi_step_inv: "spi_step api prio s s' \<Longrightarrow> spi_inv s \<Longrightarrow> spi_inv s'"
proof (induction rule: spi_step.induct)
  case (transaction_start s t dev p)
  then show ?case by (simp add: spi_inv_starting)
next
  case (transfer s t n dev out inp k r)
  then show ?case
    using transfer_request_simps [OF transfer(3)] by (intro spi_inv_sending) (simp_all add: spi_op_defs)
next
  case (delay s t n dev k)
  then show ?case by (intro spi_inv_sending) (simp_all add: delay_request_def spi_op_defs)
next
  case (transaction_end s t n dev)
  then show ?case by (intro spi_inv_sending) (simp_all add: end_request_def spi_op_defs)
next
  case (send s t r)
  then show ?case by (simp add: spi_inv_send)
next
  case (wake s t)
  then show ?case by (simp add: spi_inv_wake)
next
  case (unlock s t)
  then show ?case by (simp add: spi_inv_unlock)
next
  case (execute s core)
  then show ?case by (cases "xfer_req_queue s") (simp_all add: spi_inv_serve)
qed

interpretation spi: state_machine "rtos_spi_master_start prio excl b" "spi_step api prio" spi_inv
  for prio excl b api
  by unfold_locales (fact spi_inv_start, fact spi_step_inv)

text \<open>What the requests do to the bus, whatever cores the thread runs on.\<close>

definition bus_op :: "'b spi_api \<Rightarrow> spi_xfer_req \<Rightarrow> 'b \<Rightarrow> byte list option \<times> 'b" where
  "bus_op api r b =
     (if op r = SPI_OP_START then (None, spi_master_start_transaction api (req_ctx r) b)
      else if op r = SPI_OP_XFER
      then let (received, b') = spi_master_transfer api (req_ctx r) (data_out r) (len r) b
           in (if data_in r then Some received else None, b')
      else if op r = SPI_OP_DELAY
      then (None, spi_master_delay_before_next_transfer api (req_ctx r) (len r) b)
      else if op r = SPI_OP_END then (None, spi_master_end_transaction api (req_ctx r) b)
      else (None, b))"

fun bus_run :: "'b spi_api \<Rightarrow> spi_xfer_req list \<Rightarrow> 'b \<Rightarrow> 'b" where
  "bus_run api [] b = b"
| "bus_run api (r # rs) b = bus_run api rs (snd (bus_op api r b))"

lemma bus_run_append: "bus_run api (xs @ ys) b = bus_run api ys (bus_run api xs b)"
  by (induction xs arbitrary: b) auto

lemma turn_bus:
  assumes "spi_xfer_turn api prio core r th = (ans, th')"
  shows "ans = fst (bus_op api r (bus th))" and "bus th' = snd (bus_op api r (bus th))"
  using assms by (auto simp: spi_xfer_turn_def bus_op_def Let_def spi_op_defs split: if_splits prod.splits)

text \<open>Every answer is what the bus gave for its request, after the requests before it.\<close>

definition bus_log :: "'b spi_api \<Rightarrow> 'b \<Rightarrow> 'b spi_sys \<Rightarrow> bool" where
  "bus_log api b s \<longleftrightarrow>
     bus (op_thread s) = bus_run api (map fst (executed s)) b \<and>
     (\<forall>e r a f. executed s = e @ (r, a) # f \<longrightarrow> a = fst (bus_op api r (bus_run api (map fst e) b)))"

lemma bus_log_serve:
  assumes "bus_log api b s"
  shows "bus_log api b (serve api prio core s)"
proof (cases "xfer_req_queue s")
  case Nil
  with assms show ?thesis by (simp add: serve_def)
next
  case (Cons r rs)
  obtain received th where turn: "spi_xfer_turn api prio core r (op_thread s) = (received, th)"
    by fastforce
  note b = turn_bus [OF turn]
  have e: "executed (serve api prio core s) = executed s @ [(r, received)]"
      "op_thread (serve api prio core s) = th"
    using Cons turn by (simp_all add: serve_def Let_def split: option.splits)
  show ?thesis
    using assms b unfolding bus_log_def e
    by (auto simp: bus_run_append append_eq_append_conv2 append_eq_Cons_conv Cons_eq_append_conv)
qed

lemma bus_log_step: "spi_step api prio s s' \<Longrightarrow> bus_log api b s \<Longrightarrow> bus_log api b s'"
proof (induction rule: spi_step.induct)
  case (execute s core)
  then show ?case by (simp add: bus_log_serve)
qed (simp_all add: bus_log_def)

interpretation bus_log: state_machine "rtos_spi_master_start prio excl b" "spi_step api prio"
    "bus_log api b" for prio excl b api
  by unfold_locales (simp add: bus_log_def rtos_spi_master_start_def, fact bus_log_step)

text \<open>
  C19. However the tasks and the operation thread interleave, what the thread does on the
  bus is a sequence of transactions, each made of the requests of one task; what a task
  finds in its buffer was received for its own request; and the queue never holds more than
  two requests.
\<close>

theorem spi_transactions_exclusive:
  assumes "(spi_step api prio)\<^sup>*\<^sup>* (rtos_spi_master_start prio excl b) s"
  shows "(\<exists>owner. bracket None (map fst (executed s)) = Some owner)
    \<and> bus (op_thread s) = bus_run api (map fst (executed s)) b
    \<and> length (xfer_req_queue s) \<le> 2
    \<and> (task_pc s t = Awaiting \<and> data_ready s \<longrightarrow>
        (\<exists>e r. executed s = e @ [(r, Some (buffer s t))] \<and> req_task r = t \<and> wants_data r
          \<and> buffer s t = fst (spi_master_transfer api (req_ctx r) (data_out r) (len r)
              (bus_run api (map fst e) b))))"
proof -
  have i: "spi_inv s" by (rule spi.reachable [OF assms])
  have l: "bus_log api b s" by (rule bus_log.reachable [OF assms])
  have "\<exists>owner. bracket None (map fst (executed s)) = Some owner"
    using i by (auto simp: spi_inv_def spi_bracketed_def bracket_append split: option.splits)
  moreover have "\<exists>e r. executed s = e @ [(r, Some (buffer s t))] \<and> req_task r = t \<and> wants_data r
      \<and> buffer s t = fst (spi_master_transfer api (req_ctx r) (data_out r) (len r)
          (bus_run api (map fst e) b))" if p: "task_pc s t = Awaiting" and d: "data_ready s"
  proof -
    have "waits_ok s t" using i p by (simp add: spi_inv_def spi_waits_def)
    then obtain e r where e: "executed s = e @ [(r, Some (buffer s t))]" "wants_data r" "req_task r = t"
      using d by (auto simp: waits_ok_def)
    then have "Some (buffer s t) = fst (bus_op api r (bus_run api (map fst e) b))"
      using l by (simp add: bus_log_def)
    with e show ?thesis
      by (intro exI [of _ e] exI [of _ r]) (simp add: bus_op_def spi_op_defs split: prod.splits)
  qed
  moreover have "length (xfer_req_queue s) \<le> 2" using i by (simp add: spi_inv_def)
  ultimately show ?thesis using l by (simp add: bus_log_def)
qed

section \<open>The thread's core and priority\<close>

fun thread_run ::
  "'b spi_api \<Rightarrow> nat \<Rightarrow> nat \<Rightarrow> spi_xfer_req list \<Rightarrow> 'b spi_thread \<Rightarrow> 'b spi_thread" where
  "thread_run api prio core [] th = th"
| "thread_run api prio core (r # rs) th =
     thread_run api prio core rs (snd (spi_xfer_turn api prio core r th))"

lemma thread_run_append:
  "thread_run api prio core (xs @ ys) th = thread_run api prio core ys (thread_run api prio core xs th)"
  by (induction xs arbitrary: th) auto

lemma thread_run_inside:
  assumes "\<forall>r\<in>set rs. op r \<in> {SPI_OP_XFER, SPI_OP_DELAY}"
  shows "exclusion (thread_run api prio core rs th) = exclusion th
    \<and> core_map (thread_run api prio core rs th) = core_map th
    \<and> current_priority (thread_run api prio core rs th) = current_priority th"
  using assms
  by (induction rs arbitrary: th) (auto simp: spi_xfer_turn_def spi_op_defs split: prod.splits)

text \<open>
  A transaction keeps the operation thread on its core, with the caller's priority, from the
  start to the end, and gives it back the cores it could run on and its own priority.
\<close>

theorem spi_transaction_pins_thread:
  assumes "\<forall>r\<in>set rs. op r \<in> {SPI_OP_XFER, SPI_OP_DELAY}"
    and "th1 = thread_run api prio core (start_request t dev p # rs) th"
    and "th2 = thread_run api prio core (start_request t dev p # rs @ [end_request t dev']) th"
  shows "exclusion th1 = core_exclusion core \<and> current_priority th1 = p
    \<and> exclusion th2 = exclusion th \<and> current_priority th2 = prio"
proof -
  let ?th = "snd (spi_xfer_turn api prio core (start_request t dev p) th)"
  have "exclusion ?th = core_exclusion core" "core_map ?th = exclusion th" "current_priority ?th = p"
    by (simp_all add: spi_xfer_turn_def start_request_def Let_def)
  with thread_run_inside [OF assms(1), of api prio core ?th] assms(2)
  have "exclusion th1 = core_exclusion core" "core_map th1 = exclusion th" "current_priority th1 = p"
    by simp_all
  moreover have "th2 = snd (spi_xfer_turn api prio core (end_request t dev') th1)"
    using assms(2,3) by (simp add: thread_run_append)
  ultimately show ?thesis
    by (simp add: spi_xfer_turn_def end_request_def spi_op_defs Let_def)
qed

text \<open>
  The mutex is recursive, but a transaction inside another saves the restricted map: when both
  have ended, the thread stays on the core of the transaction.
\<close>

lemma spi_nested_keeps_exclusion:
  "exclusion (thread_run api prio core
     [start_request t dev p, start_request t dev p, end_request t dev, end_request t dev] th)
   = core_exclusion core"
  by (simp add: spi_xfer_turn_def request_defs spi_op_defs Let_def)

section \<open>A run\<close>

text \<open>The bus counts its bytes, and receives the count.\<close>

definition count_api :: "nat spi_api" where
  "count_api =
     \<lparr>spi_master_start_transaction = (\<lambda>_ b. b),
      spi_master_transfer = (\<lambda>_ _ n b. (replicate n (of_nat b), b + n)),
      spi_master_delay_before_next_transfer = (\<lambda>_ _ b. b),
      spi_master_end_transaction = (\<lambda>_ b. b)\<rparr>"

definition spi_read :: "nat spi_sys" where
  "spi_read =
     (let s0 = rtos_spi_master_start 4 0 9;
          s1 = goto 3 (Sending (start_request 3 1 5)) (s0\<lparr>lock := mutex_taken 3 (lock s0)\<rparr>);
          s2 = goto 3 (after_send (start_request 3 1 5))
                 (s1\<lparr>xfer_req_queue := xfer_req_queue s1 @ [start_request 3 1 5]\<rparr>);
          r = \<lparr>req_task = 3, req_ctx = 1, op = SPI_OP_XFER, data_out = None, data_in = True, len = 2,
               priority = 0\<rparr>;
          s3 = goto 3 (Sending r) s2;
          s4 = goto 3 (after_send r) (s3\<lparr>xfer_req_queue := xfer_req_queue s3 @ [r]\<rparr>)
      in serve count_api 4 0 (serve count_api 4 0 s4))"

lemma spi_read_reachable: "(spi_step count_api 4)\<^sup>*\<^sup>* (rtos_spi_master_start 4 0 9) spi_read"
proof -
  let ?s0 = "rtos_spi_master_start 4 0 9 :: nat spi_sys"
  let ?s1 = "goto 3 (Sending (start_request 3 1 5)) (?s0\<lparr>lock := mutex_taken 3 (lock ?s0)\<rparr>)"
  let ?s2 = "goto 3 (after_send (start_request 3 1 5))
    (?s1\<lparr>xfer_req_queue := xfer_req_queue ?s1 @ [start_request 3 1 5]\<rparr>)"
  let ?r = "\<lparr>req_task = 3, req_ctx = 1, op = SPI_OP_XFER, data_out = None, data_in = True, len = 2,
    priority = 0\<rparr>"
  let ?s3 = "goto 3 (Sending ?r) ?s2"
  let ?s4 = "goto 3 (after_send ?r) (?s3\<lparr>xfer_req_queue := xfer_req_queue ?s3 @ [?r]\<rparr>)"
  let ?s5 = "serve count_api 4 0 ?s4"
  have "spi_step count_api 4 ?s0 ?s1"
    by (rule transaction_start) (simp_all add: rtos_spi_master_start_def)
  moreover have "spi_step count_api 4 ?s1 ?s2"
    by (rule send) (simp_all add: rtos_spi_master_start_def)
  moreover have "spi_step count_api 4 ?s2 ?s3"
    by (rule transfer [where n = 1 and dev = 1 and out = None and inp = True and k = 2])
      (simp_all add: rtos_spi_master_start_def mutex_taken_def after_send_def start_request_def
        spi_op_defs transfer_request_def)
  moreover have "spi_step count_api 4 ?s3 ?s4"
    by (rule send) (simp_all add: rtos_spi_master_start_def)
  moreover have "spi_step count_api 4 ?s4 ?s5"
    by (rule execute) simp
  moreover have "spi_step count_api 4 ?s5 spi_read"
  proof -
    have "xfer_req_queue ?s5 \<noteq> []"
      by (simp add: serve_def rtos_spi_master_start_def spi_xfer_turn_def start_request_def spi_op_defs)
    from execute [OF this, of count_api 4 0] show ?thesis
      unfolding spi_read_def Let_def .
  qed
  ultimately show ?thesis
    by (meson rtranclp.rtrancl_into_rtrancl rtranclp.rtrancl_refl)
qed

theorem spi_transactions_exclusive_witness:
  "\<exists>owner. bracket None (map fst (executed spi_read)) = Some owner"
  using spi_transactions_exclusive [OF spi_read_reachable] by blast

theorem spi_transaction_pins_thread_witness:
  "exclusion (thread_run count_api 4 2 [start_request 3 1 5, delay_request 3 1 7]
       \<lparr>bus = 9, current_priority = 4, exclusion = 0, core_map = 0\<rparr>) = core_exclusion 2
   \<and> exclusion (thread_run count_api 4 2 [start_request 3 1 5, delay_request 3 1 7, end_request 3 1]
       \<lparr>bus = 9, current_priority = 4, exclusion = 0, core_map = 0\<rparr>) = 0"
  using spi_transaction_pins_thread [OF _ refl refl, of "[delay_request 3 1 7]" count_api 4 2 3 1 5
      "\<lparr>bus = 9, current_priority = 4, exclusion = 0, core_map = 0\<rparr>" 1]
  by (simp add: delay_request_def)

end
