(* ===== verification/Spi_Rpc.thy ===== *)
theory Spi_Rpc
  imports Rpc_Args Spi_Master
begin

text \<open>
  The remote half of the SPI master driver (modules/drivers/spi/src/rtos_spi_master_rpc.c). A
  call names the host's device instance; \<open>devs\<close> gives the device at a pointer of the host. The
  host's local operations are a parameter with the contract \<open>spi_service\<close>, interpreted at the
  end on the driver of \<open>Spi_Master\<close>.
\<close>

section \<open>Function codes and descriptors\<close>

definition fcode_transaction_start :: u32 where "fcode_transaction_start = 0"
definition fcode_transfer :: u32 where "fcode_transfer = 1"
definition fcode_delay_before_next_transfer :: u32 where "fcode_delay_before_next_transfer = 2"
definition fcode_transaction_end :: u32 where "fcode_transaction_end = 3"

lemmas spi_fcodes =
  fcode_transaction_start_def fcode_transfer_def fcode_delay_before_next_transfer_def
  fcode_transaction_end_def

definition device_descs :: "rpc_param_desc list" where
  "device_descs = [RPC_PARAM_TYPE 4]"

definition spi_transfer_descs :: "nat \<Rightarrow> nat \<Rightarrow> rpc_param_desc list" where
  "spi_transfer_descs out_len in_len =
     [RPC_PARAM_TYPE 4, RPC_PARAM_IN_BUFFER 1 out_len, RPC_PARAM_OUT_BUFFER 1 in_len, RPC_PARAM_TYPE 4]"

definition spi_delay_descs :: "rpc_param_desc list" where
  "spi_delay_descs = [RPC_PARAM_TYPE 4, RPC_PARAM_TYPE 4]"

lemmas spi_descs = device_descs_def spi_transfer_descs_def spi_delay_descs_def

section \<open>The client\<close>

definition device_call ::
  "driver_rpc \<Rightarrow> (byte list \<Rightarrow> 's \<Rightarrow> (byte list \<times> 's) res) \<Rightarrow> u32 \<Rightarrow> rpc_param_desc list \<Rightarrow> u32
     \<Rightarrow> byte list list \<Rightarrow> 's \<Rightarrow> (byte list list \<times> 's) res" where
  "device_call rpc transact fc descs host_dev_ctx_ptr ap s =
     xassert (aport (host_address rpc) \<ge> 0)
       (rpc_client_call_generic transact fc descs (word_bytes 4 host_dev_ctx_ptr # ap) s)"

text \<open>
  The client's mutex is not recursive: it is held from the start to the end of a transaction,
  and the task that holds it never gets it a second time.
\<close>

definition spi_master_remote_transaction_start ::
  "driver_rpc \<Rightarrow> (byte list \<Rightarrow> 's \<Rightarrow> (byte list \<times> 's) res) \<Rightarrow> u32 \<Rightarrow> bool \<Rightarrow> 's \<Rightarrow> (bool \<times> 's) res" where
  "spi_master_remote_transaction_start rpc transact dev locked s =
     xassert (aport (host_address rpc) \<ge> 0)
       (if locked then Inl Never_returns
        else rbind (device_call rpc transact fcode_transaction_start
                      (device_descs @ [RPC_PARAM_LIST_END]) dev [] s)
               (\<lambda>(ap, s'). Inr (True, s')))"

definition spi_master_remote_transfer ::
  "driver_rpc \<Rightarrow> (byte list \<Rightarrow> 's \<Rightarrow> (byte list \<times> 's) res) \<Rightarrow> u32 \<Rightarrow> byte list option
     \<Rightarrow> byte list option \<Rightarrow> nat \<Rightarrow> 's \<Rightarrow> (byte list option \<times> 's) res" where
  "spi_master_remote_transfer rpc transact dev outb inb n s =
     rbind (device_call rpc transact fcode_transfer
              (spi_transfer_descs (if outb \<noteq> None then n else 0) (if inb \<noteq> None then n else 0)
                 @ [RPC_PARAM_LIST_END]) dev
              [case outb of None \<Rightarrow> [] | Some m \<Rightarrow> m, case inb of None \<Rightarrow> [] | Some m \<Rightarrow> m,
               word_bytes 4 (of_nat n :: u32)] s)
       (\<lambda>(ap, s'). Inr (map_option (\<lambda>_. ap ! 2) inb, s'))"

definition spi_master_remote_delay_before_next_transfer ::
  "driver_rpc \<Rightarrow> (byte list \<Rightarrow> 's \<Rightarrow> (byte list \<times> 's) res) \<Rightarrow> u32 \<Rightarrow> u32 \<Rightarrow> 's \<Rightarrow> 's res" where
  "spi_master_remote_delay_before_next_transfer rpc transact dev delay_ticks s =
     rbind (device_call rpc transact fcode_delay_before_next_transfer
              (spi_delay_descs @ [RPC_PARAM_LIST_END]) dev [word_bytes 4 delay_ticks] s)
       (\<lambda>(ap, s'). Inr s')"

definition spi_master_remote_transaction_end ::
  "driver_rpc \<Rightarrow> (byte list \<Rightarrow> 's \<Rightarrow> (byte list \<times> 's) res) \<Rightarrow> u32 \<Rightarrow> bool \<Rightarrow> 's \<Rightarrow> (bool \<times> 's) res" where
  "spi_master_remote_transaction_end rpc transact dev locked s =
     rbind (device_call rpc transact fcode_transaction_end (device_descs @ [RPC_PARAM_LIST_END]) dev [] s)
       (\<lambda>(ap, s'). Inr (False, s'))"

section \<open>The host\<close>

text \<open>The local operations as the host's functions call them, and a fresh block of the heap.\<close>

record 's spi_host =
  h_start :: "nat \<Rightarrow> 's \<Rightarrow> 's res"
  h_transfer :: "nat \<Rightarrow> byte list option \<Rightarrow> byte list option \<Rightarrow> nat \<Rightarrow> 's \<Rightarrow> (byte list \<times> 's) res"
  h_delay :: "nat \<Rightarrow> nat \<Rightarrow> 's \<Rightarrow> 's res"
  h_end :: "nat \<Rightarrow> 's \<Rightarrow> 's res"
  h_heap :: "nat \<Rightarrow> byte list"

definition device_body ::
  "nat \<Rightarrow> (u32 \<Rightarrow> nat option) \<Rightarrow> (nat \<Rightarrow> rpc_arg list \<Rightarrow> 's \<Rightarrow> (resp_arg list \<times> 's) res) \<Rightarrow> 's rpc_body" where
  "device_body n devs f args s =
     (if length args \<noteq> n then Inl Bad_vararg
      else case devs (arg_word args 0) of None \<Rightarrow> Inl Bad_access | Some d \<Rightarrow> f d args s)"

definition pointer_arg :: "rpc_arg \<Rightarrow> byte list option" where
  "pointer_arg a = (if a = Arg_null then None else Some (arg_mem a))"

definition spi_transaction_start_rpc_host :: "(u32 \<Rightarrow> nat option) \<Rightarrow> 's spi_host \<Rightarrow> 's rpc_body" where
  "spi_transaction_start_rpc_host devs h = device_body 1 devs (\<lambda>d args s.
     rbind (h_start h d s) (\<lambda>s'. Inr ([rv (arg_word args 0 :: u32)], s')))"

definition spi_transfer_rpc_host :: "(u32 \<Rightarrow> nat option) \<Rightarrow> 's spi_host \<Rightarrow> 's rpc_body" where
  "spi_transfer_rpc_host devs h = device_body 4 devs (\<lambda>d args s.
     let outb = pointer_arg (args ! 1); n = arg_word args 3 :: u32;
         inb = map_option (\<lambda>_. h_heap h (unat n)) (pointer_arg (args ! 2))
     in rbind (h_transfer h d outb inb (unat n) s) (\<lambda>(received_data, s').
          Inr ([rv (arg_word args 0 :: u32), Resp_ptr (arg_mem (args ! 1)), Resp_ptr received_data,
                rv n], s')))"

definition spi_delay_before_next_transfer_rpc_host ::
  "(u32 \<Rightarrow> nat option) \<Rightarrow> 's spi_host \<Rightarrow> 's rpc_body" where
  "spi_delay_before_next_transfer_rpc_host devs h = device_body 2 devs (\<lambda>d args s.
     let delay_ticks = arg_word args 1 :: u32
     in rbind (h_delay h d (unat delay_ticks) s) (\<lambda>s'.
          Inr ([rv (arg_word args 0 :: u32), rv delay_ticks], s')))"

definition spi_transaction_end_rpc_host :: "(u32 \<Rightarrow> nat option) \<Rightarrow> 's spi_host \<Rightarrow> 's rpc_body" where
  "spi_transaction_end_rpc_host devs h = device_body 1 devs (\<lambda>d args s.
     rbind (h_end h d s) (\<lambda>s'. Inr ([rv (arg_word args 0 :: u32)], s')))"

lemmas spi_bodies =
  spi_transaction_start_rpc_host_def spi_transfer_rpc_host_def
  spi_delay_before_next_transfer_rpc_host_def spi_transaction_end_rpc_host_def

definition spi_master_rpc_thread ::
  "(u32 \<Rightarrow> nat option) \<Rightarrow> 's spi_host \<Rightarrow> byte list \<Rightarrow> 's \<Rightarrow> (byte list \<times> 's) res" where
  "spi_master_rpc_thread devs h = rpc_dispatch
     [(fcode_transaction_start, spi_transaction_start_rpc_host devs h),
      (fcode_transfer, spi_transfer_rpc_host devs h),
      (fcode_delay_before_next_transfer, spi_delay_before_next_transfer_rpc_host devs h),
      (fcode_transaction_end, spi_transaction_end_rpc_host devs h)]"

interpretation spi_start: rpc_service "spi_master_rpc_thread devs h" fcode_transaction_start
    device_descs "spi_transaction_start_rpc_host devs h" for devs h
  unfolding spi_master_rpc_thread_def
  by (rule rpc_dispatch_service) (simp_all add: spi_fcodes spi_descs)

interpretation spi_transfer: rpc_service "spi_master_rpc_thread devs h" fcode_transfer
    "spi_transfer_descs out_len in_len" "spi_transfer_rpc_host devs h" for devs h out_len in_len
  unfolding spi_master_rpc_thread_def
  by (rule rpc_dispatch_service) (simp_all add: spi_fcodes spi_descs)

interpretation spi_delay: rpc_service "spi_master_rpc_thread devs h" fcode_delay_before_next_transfer
    spi_delay_descs "spi_delay_before_next_transfer_rpc_host devs h" for devs h
  unfolding spi_master_rpc_thread_def
  by (rule rpc_dispatch_service) (simp_all add: spi_fcodes spi_descs)

interpretation spi_end: rpc_service "spi_master_rpc_thread devs h" fcode_transaction_end
    device_descs "spi_transaction_end_rpc_host devs h" for devs h
  unfolding spi_master_rpc_thread_def
  by (rule rpc_dispatch_service) (simp_all add: spi_fcodes spi_descs)

section \<open>A remote call is the local call\<close>

text \<open>What is asked of the local driver: a transfer keeps the length of the buffer it fills.\<close>

locale spi_service =
  fixes h :: "'s spi_host"
  assumes transfer_length: "h_transfer h d out (Some m) n s = Inr (got, s') \<Longrightarrow> n \<le> length m
      \<Longrightarrow> length got = length m"
    and heap_length: "length (h_heap h n) = n"
begin

lemma remote_start:
  assumes "aport (host_address rpc) \<ge> 0" and "devs dev = Some d"
  shows "spi_master_remote_transaction_start rpc (spi_master_rpc_thread devs h) dev False s
    = rbind (h_start h d s) (\<lambda>s'. Inr (True, s'))"
  unfolding spi_master_remote_transaction_start_def device_call_def using assms
  by (simp, subst spi_start.call_bind)
    (auto simp: spi_descs spi_bodies device_body_def arg_word_def rbind_assoc split_def res_simps)

lemma remote_end:
  assumes "aport (host_address rpc) \<ge> 0" and "devs dev = Some d"
  shows "spi_master_remote_transaction_end rpc (spi_master_rpc_thread devs h) dev l s
    = rbind (h_end h d s) (\<lambda>s'. Inr (False, s'))"
  unfolding spi_master_remote_transaction_end_def device_call_def using assms
  by (simp, subst spi_end.call_bind)
    (auto simp: spi_descs spi_bodies device_body_def arg_word_def rbind_assoc split_def res_simps)

lemma remote_delay:
  assumes "aport (host_address rpc) \<ge> 0" and "devs dev = Some d"
  shows "spi_master_remote_delay_before_next_transfer rpc (spi_master_rpc_thread devs h) dev ticks s
    = h_delay h d (unat ticks) s"
  unfolding spi_master_remote_delay_before_next_transfer_def device_call_def using assms
  by (simp, subst spi_delay.call_bind; cases "h_delay h d (unat ticks) s")
    (auto simp: spi_descs spi_bodies device_body_def arg_word_def rbind_assoc split_def res_simps Let_def)

text \<open>The buffers that travel have the length of the call, at least one byte.\<close>

lemma remote_transfer:
  assumes "aport (host_address rpc) \<ge> 0" and "devs dev = Some d" and "0 < n" and "n < 2 ^ 24"
    and "\<And>m. outb = Some m \<Longrightarrow> n \<le> length m" and "\<And>m. inb = Some m \<Longrightarrow> n \<le> length m"
  shows "spi_master_remote_transfer rpc (spi_master_rpc_thread devs h) dev outb inb n s
    = rbind (h_transfer h d (map_option (take n) outb) (map_option (\<lambda>_. h_heap h n) inb) n s)
        (\<lambda>(got, s'). Inr (map_option (\<lambda>m. got @ drop n m) inb, s'))"
proof -
  have u: "unat (of_nat n :: u32) = n" using assms(4) by (simp add: unat_of_nat take_bit_nat_eq_self)
  have "of_nat n \<noteq> (0 :: 24 word)" using plength_of_nat [OF assms(4)] assms(3) by force
  then have p: "0 < (of_nat n :: 24 word)" by (simp add: word_greater_zero_iff)
  let ?out = "case outb of None \<Rightarrow> [] | Some m \<Rightarrow> m" and ?inp = "case inb of None \<Rightarrow> [] | Some m \<Rightarrow> m"
  let ?ds = "spi_transfer_descs (if outb \<noteq> None then n else 0) (if inb \<noteq> None then n else 0)"
  let ?args = "[word_bytes 4 dev, ?out, ?inp, word_bytes 4 (of_nat n :: u32)]"
  have fit: "args_fit ?ds ?args"
    using assms(4-6) by (auto simp: spi_transfer_descs_def)
  have rcv: "map2 received ?ds ?args = [Arg_val (word_bytes 4 dev),
      case outb of None \<Rightarrow> Arg_null | Some m \<Rightarrow> Arg_ptr (take n m),
      case inb of None \<Rightarrow> Arg_null | Some m \<Rightarrow> Arg_invalid, Arg_val (word_bytes 4 (of_nat n :: u32))]"
    using p assms(4) by (auto simp: spi_transfer_descs_def received_def rpc_param_defs split: option.splits)
  let ?h = "h_transfer h d (map_option (take n) outb) (map_option (\<lambda>_. h_heap h n) inb) n s"
  have body: "spi_transfer_rpc_host devs h (map2 received ?ds ?args) s
      = rbind ?h (\<lambda>(got, s'). Inr ([rv dev, Resp_ptr (case outb of None \<Rightarrow> [] | Some m \<Rightarrow> take n m),
          Resp_ptr got, rv (of_nat n :: u32)], s'))"
    unfolding rcv using assms(2) u
    by (simp add: spi_transfer_rpc_host_def device_body_def arg_word_def Let_def pointer_arg_def
        split: option.split)
  show ?thesis
  proof (cases ?h)
    case (Inl e)
    then show ?thesis
      using spi_transfer.client_fault [OF fit, of devs h s e] body assms(1)
      by (simp add: spi_master_remote_transfer_def device_call_def)
  next
    case (Inr r)
    obtain got s' where r: "r = (got, s')" by fastforce
    have "length got = n" if "inb = Some m" for m
      using transfer_length [of d "map_option (take n) outb" "h_heap h n" n s got s'] heap_length Inr r that
      by simp
    then have "resp_fit ?ds [rv dev, Resp_ptr (case outb of None \<Rightarrow> [] | Some m \<Rightarrow> take n m),
        Resp_ptr got, rv (of_nat n :: u32)]"
      using assms(4,5) by (auto simp: spi_transfer_descs_def resp_fit_def split: option.split)
    from spi_transfer.client_call [OF fit _ this, of devs h s s'] body Inr r assms(1) show ?thesis
      using assms(4) \<open>\<And>m. inb = Some m \<Longrightarrow> length got = n\<close>
      by (cases inb) (simp_all add: spi_master_remote_transfer_def device_call_def spi_transfer_descs_def)
  qed
qed

end

section \<open>The local driver behind the host\<close>

text \<open>
  The local operations made by the dispatch thread \<open>t\<close> while no other task uses the driver: the
  operation thread takes its turn at once. lib_spi stores at most the bytes asked for.
\<close>

definition alone_send ::
  "'b spi_api \<Rightarrow> nat \<Rightarrow> nat \<Rightarrow> nat \<Rightarrow> spi_xfer_req \<Rightarrow> 'b spi_sys \<Rightarrow> 'b spi_sys" where
  "alone_send api prio core t r s =
     serve api prio core (goto t (after_send r) (s\<lparr>xfer_req_queue := xfer_req_queue s @ [r]\<rparr>))"

definition spi_master_local_transaction_start ::
  "'b spi_api \<Rightarrow> nat \<Rightarrow> nat \<Rightarrow> nat \<Rightarrow> nat \<Rightarrow> nat \<Rightarrow> 'b spi_sys \<Rightarrow> 'b spi_sys res" where
  "spi_master_local_transaction_start api prio core t p d s =
     (if (case lock s of None \<Rightarrow> True | Some (u, n) \<Rightarrow> u = t)
      then Inr (alone_send api prio core t (start_request t d p) (s\<lparr>lock := mutex_taken t (lock s)\<rparr>))
      else Inl Never_returns)"

definition spi_master_local_transfer ::
  "'b spi_api \<Rightarrow> nat \<Rightarrow> nat \<Rightarrow> nat \<Rightarrow> nat \<Rightarrow> byte list option \<Rightarrow> byte list option \<Rightarrow> nat \<Rightarrow> 'b spi_sys
     \<Rightarrow> (byte list \<times> 'b spi_sys) res" where
  "spi_master_local_transfer api prio core t d outb inb n s =
     rbind (transfer_request t d outb (inb \<noteq> None) n) (\<lambda>r.
       let s1 = alone_send api prio core t r s in
       case inb of
         None \<Rightarrow> Inr ([], s1)
       | Some m \<Rightarrow> Inr (put_at m 0 (take n (buffer s1 t)), goto t Ready (s1\<lparr>data_ready := False\<rparr>)))"

definition spi_master_local_delay_before_next_transfer ::
  "'b spi_api \<Rightarrow> nat \<Rightarrow> nat \<Rightarrow> nat \<Rightarrow> nat \<Rightarrow> nat \<Rightarrow> 'b spi_sys \<Rightarrow> 'b spi_sys res" where
  "spi_master_local_delay_before_next_transfer api prio core t d k s =
     Inr (alone_send api prio core t (delay_request t d k) s)"

definition spi_master_local_transaction_end ::
  "'b spi_api \<Rightarrow> nat \<Rightarrow> nat \<Rightarrow> nat \<Rightarrow> nat \<Rightarrow> 'b spi_sys \<Rightarrow> 'b spi_sys res" where
  "spi_master_local_transaction_end api prio core t d s =
     (let s1 = alone_send api prio core t (end_request t d) s
      in Inr (goto t Ready (s1\<lparr>lock := mutex_given (lock s1)\<rparr>)))"

lemmas local_spi_defs =
  spi_master_local_transaction_start_def spi_master_local_transfer_def
  spi_master_local_delay_before_next_transfer_def spi_master_local_transaction_end_def

definition local_spi_host ::
  "'b spi_api \<Rightarrow> nat \<Rightarrow> nat \<Rightarrow> nat \<Rightarrow> nat \<Rightarrow> 'b spi_sys spi_host" where
  "local_spi_host api prio core t p =
     \<lparr>h_start = spi_master_local_transaction_start api prio core t p,
      h_transfer = spi_master_local_transfer api prio core t,
      h_delay = spi_master_local_delay_before_next_transfer api prio core t,
      h_end = spi_master_local_transaction_end api prio core t,
      h_heap = unset\<rparr>"

interpretation local_spi: spi_service "local_spi_host api prio core t p" for api prio core t p
  by unfold_locales
    (auto simp: local_spi_host_def spi_master_local_transfer_def rbind_eq_Inr put_at_def Let_def)

text \<open>Alone is one of the ways the tasks and the operation thread interleave.\<close>

lemma alone_send_steps:
  assumes "task_pc s t = Sending r" and "xfer_req_queue s = []"
  shows "(spi_step api prio)\<^sup>*\<^sup>* s (alone_send api prio core t r s)"
proof -
  let ?s = "goto t (after_send r) (s\<lparr>xfer_req_queue := xfer_req_queue s @ [r]\<rparr>)"
  have "spi_step api prio s ?s" by (rule send [OF assms(1)]) (simp add: assms(2))
  moreover have "spi_step api prio ?s (serve api prio core ?s)" by (rule execute) simp
  ultimately show ?thesis
    unfolding alone_send_def by (meson rtranclp.rtrancl_into_rtrancl rtranclp.rtrancl_refl)
qed

lemma alone_send_goto [simp]:
  "alone_send api prio core t r (goto t q s) = alone_send api prio core t r s"
  by (simp add: alone_send_def goto_def)

lemma local_start_steps:
  assumes "task_pc s t = Ready" and "xfer_req_queue s = []"
    and "spi_master_local_transaction_start api prio core t p d s = Inr s'"
  shows "(spi_step api prio)\<^sup>*\<^sup>* s s'"
proof -
  let ?r = "start_request t d p"
  let ?s = "goto t (Sending ?r) (s\<lparr>lock := mutex_taken t (lock s)\<rparr>)"
  have l: "lock s = None \<or> (\<exists>n. lock s = Some (t, n))"
    and s': "s' = alone_send api prio core t ?r ?s"
    using assms(3)
    by (auto simp: spi_master_local_transaction_start_def split: if_splits option.splits)
  have "spi_step api prio s ?s" by (rule transaction_start [OF assms(1) l])
  moreover have "(spi_step api prio)\<^sup>*\<^sup>* ?s s'"
    unfolding s' by (rule alone_send_steps) (simp_all add: assms(2))
  ultimately show ?thesis by (rule converse_rtranclp_into_rtranclp)
qed

text \<open>
  A transaction of an RPC client, with a transfer in both directions, is the same
  transaction made on the host by the dispatch thread: the client gets the bytes the bus
  returned, and the bus is left as the local calls leave it.
\<close>

theorem spi_remote_transaction:
  assumes p: "aport (host_address rpc) \<ge> 0" and d: "devs dev = Some d"
    and n: "0 < n" "n < 2 ^ 24" "n \<le> length outb" "n \<le> length inb"
    and start: "s0 = rtos_spi_master_start prio excl b"
    and api: "spi_master_transfer api d (Some (take n outb)) n (spi_master_start_transaction api d b) = (got, b')"
      "length got = n"
    and thread: "serve_host = spi_master_rpc_thread devs (local_spi_host api prio core t pr)"
  shows "\<exists>s'. rbind (spi_master_remote_transaction_start rpc serve_host dev False s0) (\<lambda>(l1, s1).
        rbind (spi_master_remote_transfer rpc serve_host dev (Some outb) (Some inb) n s1) (\<lambda>(r, s2).
        rbind (spi_master_remote_transaction_end rpc serve_host dev l1 s2) (\<lambda>(l3, s3). Inr (r, l3, s3))))
      = Inr (Some (got @ drop n inb), False, s')
    \<and> bus (op_thread s') = spi_master_end_transaction api d b' \<and> lock s' = None"
proof -
  have "\<And>m. Some outb = Some m \<Longrightarrow> n \<le> length m" "\<And>m. Some inb = Some m \<Longrightarrow> n \<le> length m"
    using n by auto
  note transfer = local_spi.remote_transfer [where devs = devs, OF p d n(1,2) this]
  show ?thesis
    unfolding thread
    using api start
    by (simp add: local_spi.remote_start [where devs = devs, OF p d] transfer
        local_spi.remote_end [where devs = devs, OF p d])
      (simp add: local_spi_host_def local_spi_defs rtos_spi_master_start_def alone_send_def serve_def
        spi_xfer_turn_def request_defs spi_op_defs after_send_def mutex_taken_def mutex_given_def
        Let_def put_at_def)
qed

section \<open>Configuration\<close>

text \<open>
  The words the host sends to client \<open>i\<close>: its context and, for each device, the pointer to a
  device instance. The index of the array is the client's, not the device's.
\<close>

definition spi_host_words :: "u32 \<Rightarrow> u32 list \<Rightarrow> nat \<Rightarrow> u32 list res" where
  "spi_host_words own spi_device_ctx i =
     (if spi_device_ctx = [] \<or> i < length spi_device_ctx
      then Inr (own # map (\<lambda>j. spi_device_ctx ! i) [0..<length spi_device_ctx]) else Inl Bad_access)"

fun spi_all_words :: "u32 \<Rightarrow> u32 list \<Rightarrow> nat \<Rightarrow> u32 list \<Rightarrow> (u32 \<times> u32 list) list res" where
  "spi_all_words own devs i [] = Inr []"
| "spi_all_words own devs i (c # cs) =
     rbind (spi_host_words own devs i) (\<lambda>ws.
       rbind (spi_all_words own devs (Suc i) cs) (\<lambda>rest. Inr ((c, ws) # rest)))"

definition rtos_spi_master_init :: "driver \<Rightarrow> driver" where
  "rtos_spi_master_init = driver_init"

definition rtos_spi_master_rpc_host_init ::
  "u32 \<Rightarrow> u32 list \<Rightarrow> u32 list \<Rightarrow> driver_rpc \<Rightarrow> driver \<Rightarrow> (driver \<times> (u32 \<times> u32 list) list) res" where
  "rtos_spi_master_rpc_host_init own spi_device_ctx client_intertile_ctx r d =
     rbind (driver_rpc_init_host own client_intertile_ctx r d) (\<lambda>(d', _).
       rbind (spi_all_words own spi_device_ctx 0 client_intertile_ctx) (\<lambda>out. Inr (d', out)))"

text \<open>The client's \<open>n\<close> device instances get the host's pointers in turn.\<close>

definition rtos_spi_master_rpc_client_init ::
  "u32 \<Rightarrow> u32 list \<Rightarrow> nat \<Rightarrow> driver_rpc \<Rightarrow> driver \<Rightarrow> driver \<times> u32 list" where
  "rtos_spi_master_rpc_client_init host_intertile ws n r d =
     (driver_rpc_init_client host_intertile (ws ! 0) r d, map (\<lambda>i. ws ! Suc i) [0..<n])"

definition rtos_spi_master_rpc_config :: "u32 \<Rightarrow> u32 \<Rightarrow> driver \<Rightarrow> driver res" where
  "rtos_spi_master_rpc_config = driver_rpc_config"

definition spi_master_rpc_start :: "driver_rpc \<Rightarrow> (rpc_addr \<times> int) list res" where
  "spi_master_rpc_start = rpc_start"

text \<open>
  The handshake of the SPI master gives a client the pointer of one device of the host for
  every device instance it has: the device with the number of the client.
\<close>

theorem spi_rpc_devices_mixed_up:
  assumes "i < length spi_device_ctx"
  shows "\<exists>ws. spi_host_words own spi_device_ctx i = Inr ws
    \<and> snd (rtos_spi_master_rpc_client_init it ws (length spi_device_ctx) r d)
      = replicate (length spi_device_ctx) (spi_device_ctx ! i)"
  using assms
  by (auto simp: spi_host_words_def rtos_spi_master_rpc_client_init_def map_replicate_const
      intro!: nth_equalityI)

theorem spi_rpc_devices_mixed_up_witness:
  "\<exists>ws. spi_host_words 64 [72, 80] 0 = Inr ws
    \<and> snd (rtos_spi_master_rpc_client_init 9 ws 2 blank_rpc blank_driver) = [72, 72]"
  using spi_rpc_devices_mixed_up [of 0 "[72, 80]" 64 9 blank_rpc blank_driver] by (simp add: numeral_2_eq_2)

lemma spi_rpc_more_clients_than_devices:
  "spi_device_ctx \<noteq> [] \<Longrightarrow> length spi_device_ctx \<le> i \<Longrightarrow>
     spi_host_words own spi_device_ctx i = Inl Bad_access"
  by (simp add: spi_host_words_def)

section \<open>A transaction on the counting bus\<close>

lemma replicate_2: "replicate 2 x = [x, x]"
  by (simp add: numeral_2_eq_2)

theorem spi_remote_transaction_witness:
  "\<exists>s' :: nat spi_sys. rbind (spi_master_remote_transaction_start echo_rpc
        (spi_master_rpc_thread [72 \<mapsto> 1] (local_spi_host count_api 4 0 3 5)) 72 False
        (rtos_spi_master_start 4 0 9)) (\<lambda>(l1, s1).
      rbind (spi_master_remote_transfer echo_rpc
        (spi_master_rpc_thread [72 \<mapsto> 1] (local_spi_host count_api 4 0 3 5)) 72
        (Some [1, 2]) (Some [0, 0, 0]) 2 s1) (\<lambda>(r, s2).
      rbind (spi_master_remote_transaction_end echo_rpc
        (spi_master_rpc_thread [72 \<mapsto> 1] (local_spi_host count_api 4 0 3 5)) 72 l1 s2)
        (\<lambda>(l3, s3). Inr (r, l3, s3)))) = Inr (Some ([9, 9] @ drop 2 [0, 0, 0]), False, s')
    \<and> bus (op_thread s') = spi_master_end_transaction count_api 1 11 \<and> lock s' = None"
  by (rule spi_remote_transaction [where excl = 0 and b = 9 and prio = 4, OF _ _ _ _ _ _ refl _ _ refl])
    (simp_all add: count_api_def replicate_2)

end
