(* ===== verification/Audio_Rpc.thy ===== *)
theory Audio_Rpc
  imports Rpc_Args Mic_Array I2s
begin

text \<open>
  The remote halves of the microphone array and I2S drivers
  (modules/drivers/mic_array/src/rtos_mic_array_rpc.c, modules/drivers/i2s/src/rtos_i2s_rpc.c):
  samples travel as little-endian words. What happens on the host's device while a call waits
  there is a function of the timeout the client gave.
\<close>

section \<open>Samples in memory\<close>

fun words_bytes :: "sample list \<Rightarrow> byte list" where
  "words_bytes [] = []"
| "words_bytes (w # ws) = word_bytes 4 w @ words_bytes ws"

fun bytes_words :: "nat \<Rightarrow> byte list \<Rightarrow> sample list" where
  "bytes_words 0 bs = []"
| "bytes_words (Suc n) bs = bytes_word (take 4 bs) # bytes_words n (drop 4 bs)"

lemma length_words_bytes [simp]: "length (words_bytes ws) = 4 * length ws"
  by (induction ws) auto

lemma length_bytes_words [simp]: "length (bytes_words n bs) = n"
  by (induction n arbitrary: bs) auto

lemma bytes_words_append:
  "length ws = n \<Longrightarrow> bytes_words n (words_bytes ws @ rest) = ws"
  by (induction ws arbitrary: n) auto

lemma unat_times_4:
  assumes "unat (w :: u32) = n" and "4 * n < 2 ^ 24"
  shows "unat (4 * w) = 4 * n"
  using assms by (simp add: unat_word_ariths)

section \<open>A call that fills a buffer of samples\<close>

text \<open>Its parameters: the context, the buffer, the number of frames, the timeout, the result.\<close>

definition rx_descs :: "nat \<Rightarrow> rpc_param_desc list" where
  "rx_descs n =
     [RPC_PARAM_TYPE 4, RPC_PARAM_OUT_BUFFER 4 n, RPC_PARAM_TYPE 4, RPC_PARAM_TYPE 4, RPC_PARAM_RETURN 4]"

definition tx_descs :: "nat \<Rightarrow> rpc_param_desc list" where
  "tx_descs n =
     [RPC_PARAM_TYPE 4, RPC_PARAM_IN_BUFFER 4 n, RPC_PARAM_TYPE 4, RPC_PARAM_TYPE 4, RPC_PARAM_RETURN 4]"

definition frame_args :: "byte list \<Rightarrow> u32 \<Rightarrow> u32 \<Rightarrow> byte list list" where
  "frame_args m frame_count timeout =
     [m, word_bytes 4 frame_count, word_bytes 4 timeout, unset 4]"

lemma rx_fit:
  "4 * n < 2 ^ 24 \<Longrightarrow> 4 * n \<le> length m \<Longrightarrow>
     args_fit (rx_descs n) (word_bytes 4 (p :: u32) # frame_args m fc timeout)"
  by (simp add: rx_descs_def frame_args_def)

lemma tx_fit:
  "4 * n < 2 ^ 24 \<Longrightarrow> 4 * n \<le> length m \<Longrightarrow>
     args_fit (tx_descs n) (word_bytes 4 (p :: u32) # frame_args m fc timeout)"
  by (simp add: tx_descs_def frame_args_def)

text \<open>What the host's function sees.\<close>

lemma rx_received:
  fixes p :: u32 and m :: "byte list" and fc timeout :: u32 and n :: nat
  defines "args \<equiv> map2 received (rx_descs n) (word_bytes 4 p # frame_args m fc timeout)"
  shows "length args = 5" "arg_word args 0 = p" "arg_word args 2 = fc" "arg_word args 3 = timeout"
  by (simp_all add: args_def rx_descs_def frame_args_def arg_word_def)

lemma tx_received:
  fixes p :: u32 and m :: "byte list" and fc timeout :: u32 and n :: nat
  defines "args \<equiv> map2 received (tx_descs n) (word_bytes 4 p # frame_args m fc timeout)"
  assumes "4 * n < 2 ^ 24"
  shows "length args = 5" "arg_word args 0 = p" "arg_word args 2 = fc" "arg_word args 3 = timeout"
    "arg_mem (args ! 1) = take (4 * n) m"
  using assms by (simp_all add: args_def tx_descs_def frame_args_def arg_word_def)

context rpc_service
begin

text \<open>The client's buffer and result after a call that the host answered.\<close>

lemma rx_call:
  assumes "ds = rx_descs n" and "4 * n < 2 ^ 24" and "4 * n \<le> length m" and "4 * n \<le> length buf"
    and "body (map2 received ds (word_bytes 4 (p :: u32) # frame_args m cnt timeout)) s
      = Inr ([rv p, Resp_ptr buf, rv cnt, rv timeout, rv (ret :: u32)], s')"
  shows "rpc_client_call_generic serve fc (ds @ [RPC_PARAM_LIST_END])
      (word_bytes 4 p # frame_args m cnt timeout) s
    = Inr ([word_bytes 4 p, take (4 * n) buf @ drop (4 * n) m, word_bytes 4 cnt, word_bytes 4 timeout,
            word_bytes 4 ret], s')"
proof -
  have "resp_fit ds [rv p, Resp_ptr buf, rv cnt, rv timeout, rv ret]"
    using assms(1,2,4) by (simp add: rx_descs_def)
  from client_call [OF rx_fit [OF assms(2,3), folded assms(1)] assms(5) this] show ?thesis
    using assms(1,2) by (simp add: rx_descs_def frame_args_def)
qed

lemma tx_call:
  assumes "ds = tx_descs n" and "4 * n < 2 ^ 24" and "4 * n \<le> length m"
    and "body (map2 received ds (word_bytes 4 (p :: u32) # frame_args m cnt timeout)) s
      = Inr ([rv p, Resp_ptr buf, rv cnt, rv timeout, rv (ret :: u32)], s')"
  shows "rpc_client_call_generic serve fc (ds @ [RPC_PARAM_LIST_END])
      (word_bytes 4 p # frame_args m cnt timeout) s
    = Inr ([word_bytes 4 p, m, word_bytes 4 cnt, word_bytes 4 timeout, word_bytes 4 ret], s')"
proof -
  have "resp_fit ds [rv p, Resp_ptr buf, rv cnt, rv timeout, rv ret]"
    using assms(1,2) by (simp add: tx_descs_def)
  from client_call [OF tx_fit [OF assms(2,3), folded assms(1)] assms(4) this] show ?thesis
    using assms(1,2) by (simp add: tx_descs_def frame_args_def)
qed

end

section \<open>The words of a receive\<close>

lemma read_loop_length:
  assumes "read_loop n dst b = Some (Inr (ws, b'))"
  shows "length ws = length dst + n"
proof -
  have "case y of Inl e \<Rightarrow> True | Inr (ws, b') \<Rightarrow> length ws = length dst + n"
    if "read_loop n dst b = Some y" for n dst b y
  proof (rule read_loop.raw_induct [OF _ that], goal_cases)
    case (1 f n dst b y)
    show ?case
    proof (cases "n = 0")
      case True
      with 1(2) show ?thesis by auto
    next
      case False
      show ?thesis
      proof (cases "read_words (read_chunk n b) b")
        case (Inl e)
        with False 1(2) show ?thesis by auto
      next
        case (Inr r)
        obtain us c where r: "r = (us, c)" by fastforce
        with Inr have "length us = read_chunk n b"
          by (auto simp: read_words_def split: if_splits)
        moreover have "f (n - read_chunk n b) (dst @ us) c = Some y"
          using False 1(2) Inr r by simp
        ultimately show ?thesis
          using 1(1) [of "n - read_chunk n b" "dst @ us" c y] by (auto simp: read_chunk_def split: sum.splits)
      qed
    qed
  qed
  from this [OF assms] show ?thesis by simp
qed

lemma mic_rx_words:
  assumes "mic_array_local_rx cfg lib frame_count arrivals ctx = Some (Inr (ret, ws, ctx'))"
  shows "length ws = (if ret = 0 then 0 else unat (frame_count * of_nat (MIC_COUNT cfg) :: u32))"
  using assms read_loop_length
  by (fastforce simp: mic_array_local_rx_def Let_def lbind_eq_Inr split: if_splits)

section \<open>The microphone array\<close>

definition mic_array_remote_rx ::
  "mic_config \<Rightarrow> driver_rpc \<Rightarrow> (byte list \<Rightarrow> 's \<Rightarrow> (byte list \<times> 's) res) \<Rightarrow> byte list \<Rightarrow> u32 \<Rightarrow> u32
     \<Rightarrow> 's \<Rightarrow> (u32 \<times> byte list \<times> 's) res" where
  "mic_array_remote_rx cfg rpc transact sample_buf frame_count timeout s =
     rbind (remote_call rpc transact 0
              (rx_descs (unat (frame_count * of_nat (MIC_COUNT cfg) :: u32)) @ [RPC_PARAM_LIST_END])
              (frame_args sample_buf frame_count timeout) s)
       (\<lambda>(ap, s'). Inr (bytes_word (ap ! 4), ap ! 1, s'))"

text \<open>The host's function allocates the buffer; \<open>memory k\<close> is the content of a block of \<open>k\<close> bytes.\<close>

definition mic_array_rx_rpc_host ::
  "mic_config \<Rightarrow> 'f mic_lib \<Rightarrow> (u32 \<Rightarrow> 'f list) \<Rightarrow> (nat \<Rightarrow> byte list)
     \<Rightarrow> (u32 \<Rightarrow> rtos_mic_array option) rpc_body" where
  "mic_array_rx_rpc_host cfg lib arrivals memory = rpc_body 5 (\<lambda>args ctx.
     let frame_count = arg_word args 2 :: u32; timeout = arg_word args 3 :: u32;
         sample_buf = memory (unat (4 * (frame_count * of_nat (MIC_COUNT cfg)) :: u32))
     in rbind (returned_res (mic_array_local_rx cfg lib frame_count (arrivals timeout) ctx))
          (\<lambda>(ret, ws, ctx').
            if length sample_buf < 4 * length ws then Inl Bad_access
            else Inr ([rv (arg_word args 0 :: u32), Resp_ptr (put_at sample_buf 0 (words_bytes ws)),
                       rv frame_count, rv timeout, rv ret], ctx')))"

text \<open>The thread serves every request as a receive, whatever its function code.\<close>

definition mic_array_rpc_thread ::
  "mic_config \<Rightarrow> 'f mic_lib \<Rightarrow> (u32 \<Rightarrow> 'f list) \<Rightarrow> (nat \<Rightarrow> byte list) \<Rightarrow> byte list
     \<Rightarrow> (u32 \<Rightarrow> rtos_mic_array option) \<Rightarrow> (byte list \<times> (u32 \<Rightarrow> rtos_mic_array option)) res" where
  "mic_array_rpc_thread cfg lib arrivals memory req s =
     rbind (rpc_request_parse req) (\<lambda>m. rpc_host (mic_array_rx_rpc_host cfg lib arrivals memory) m s)"

interpretation mic_rx: rpc_service "mic_array_rpc_thread cfg lib arrivals memory" 0 "rx_descs n"
    "mic_array_rx_rpc_host cfg lib arrivals memory" for cfg lib arrivals memory n
proof
  show ds: "descs_ok (rx_descs n)" by (rule descs_okI) (simp_all add: rx_descs_def)
  show "mic_array_rpc_thread cfg lib arrivals memory (req_msg 0 (rx_descs n) args) s =
      rbind (mic_array_rx_rpc_host cfg lib arrivals memory (map2 received (rx_descs n) args) s)
        (\<lambda>(rs, s'). rbind (rpc_response_marshall_va (parsed_req 0 (rx_descs n) args) rs)
          (\<lambda>(msg_length, resp). Inr (take msg_length resp, s')))"
    if "args_fit (rx_descs n) args" for args s
    using ds that
    by (simp add: mic_array_rpc_thread_def rpc_request_parse_req_msg rpc_host_parsed descs_ok_def)
qed

text \<open>
  A receive through the RPC client of the microphone array driver is the local receive on
  the host: the frames it reports, the samples in the client's buffer and the state of the
  host's driver are those of the local call with the same number of frames and the same timeout.
\<close>

theorem mic_array_remote_rx_is_local:
  assumes "aport (host_address rpc) \<ge> 0" and "hosts (host_ctx_ptr rpc) = Some ctx"
    and n: "unat (frame_count * of_nat (MIC_COUNT cfg) :: u32) = n" "4 * n < 2 ^ 24" "4 * n \<le> length buf"
    and mem: "\<And>k. length (memory k) = k"
    and rx: "mic_array_local_rx cfg lib frame_count (arrivals timeout) ctx = Some (Inr (ret, ws, ctx'))"
  shows "\<exists>buf'. mic_array_remote_rx cfg rpc (mic_array_rpc_thread cfg lib arrivals memory) buf
      frame_count timeout hosts = Inr (ret, buf', hosts(host_ctx_ptr rpc \<mapsto> ctx'))
    \<and> length buf' = length buf \<and> drop (4 * n) buf' = drop (4 * n) buf
    \<and> (ret \<noteq> 0 \<longrightarrow> bytes_words n buf' = ws)"
proof -
  note ws = mic_rx_words [OF rx, unfolded n(1)]
  have "unat (4 * (frame_count * of_nat (MIC_COUNT cfg)) :: u32) = 4 * n"
    by (rule unat_times_4 [OF n(1,2)])
  moreover have len: "length (put_at (memory (4 * n)) 0 (words_bytes ws)) = 4 * n"
    using mem ws by (cases "ret = 0") (simp_all add: put_at_def)
  ultimately have "mic_array_rx_rpc_host cfg lib arrivals memory
      (map2 received (rx_descs n) (word_bytes 4 (host_ctx_ptr rpc) # frame_args buf frame_count timeout)) hosts
    = Inr ([rv (host_ctx_ptr rpc), Resp_ptr (put_at (memory (4 * n)) 0 (words_bytes ws)),
        rv frame_count, rv timeout, rv ret], hosts(host_ctx_ptr rpc \<mapsto> ctx'))"
    using assms(2) rx mem ws rx_received [of n "host_ctx_ptr rpc" buf frame_count timeout]
    by (auto simp: mic_array_rx_rpc_host_def rpc_body_def with_ctx_def Let_def)
  from mic_rx.rx_call [OF refl n(2,3) _ this] len
  have "mic_array_remote_rx cfg rpc (mic_array_rpc_thread cfg lib arrivals memory) buf
      frame_count timeout hosts
    = Inr (ret, put_at (memory (4 * n)) 0 (words_bytes ws) @ drop (4 * n) buf,
        hosts(host_ctx_ptr rpc \<mapsto> ctx'))"
    using assms(1) n(1) by (simp add: mic_array_remote_rx_def)
  moreover have "bytes_words n (put_at (memory (4 * n)) 0 (words_bytes ws) @ drop (4 * n) buf) = ws"
    if "ret \<noteq> 0"
    using ws that bytes_words_append [of ws n] by (simp add: put_at_def)
  ultimately show ?thesis using len n(3) by simp
qed

section \<open>I2S\<close>

text \<open>
  The host's state is the driver and the samples it has put on the wire; \<open>cbs\<close> are the callbacks
  that lib_i2s makes during a call with a timeout. The client's mutex around a call is not
  modelled.
\<close>

type_synonym i2s_dev = "rtos_i2s \<times> sample list"

definition fcode_rx :: u32 where "fcode_rx = 0"
definition fcode_tx :: u32 where "fcode_tx = 1"

definition i2s_remote_rx ::
  "nat \<Rightarrow> driver_rpc \<Rightarrow> (byte list \<Rightarrow> 's \<Rightarrow> (byte list \<times> 's) res) \<Rightarrow> byte list \<Rightarrow> u32 \<Rightarrow> u32
     \<Rightarrow> 's \<Rightarrow> (u32 \<times> byte list \<times> 's) res" where
  "i2s_remote_rx n_in rpc transact i2s_sample_buf frame_count timeout s =
     rbind (rpc_client_call_generic transact fcode_rx
              (rx_descs (unat (frame_count * (2 * of_nat n_in) :: u32)) @ [RPC_PARAM_LIST_END])
              (word_bytes 4 (host_ctx_ptr rpc) # frame_args i2s_sample_buf frame_count timeout) s)
       (\<lambda>(ap, s'). Inr (bytes_word (ap ! 4), ap ! 1, s'))"

definition i2s_remote_tx ::
  "nat \<Rightarrow> driver_rpc \<Rightarrow> (byte list \<Rightarrow> 's \<Rightarrow> (byte list \<times> 's) res) \<Rightarrow> byte list \<Rightarrow> u32 \<Rightarrow> u32
     \<Rightarrow> 's \<Rightarrow> (u32 \<times> 's) res" where
  "i2s_remote_tx n_out rpc transact i2s_sample_buf frame_count timeout s =
     rbind (rpc_client_call_generic transact fcode_tx
              (tx_descs (unat (frame_count * (2 * of_nat n_out) :: u32)) @ [RPC_PARAM_LIST_END])
              (word_bytes 4 (host_ctx_ptr rpc) # frame_args i2s_sample_buf frame_count timeout) s)
       (\<lambda>(ap, s'). Inr (bytes_word (ap ! 4), s'))"

text \<open>The buffer for received samples has the size of the output lines.\<close>

definition i2s_rx_rpc_host ::
  "(u32 \<Rightarrow> i2s_callback list) \<Rightarrow> (nat \<Rightarrow> byte list) \<Rightarrow> (u32 \<Rightarrow> i2s_dev option) rpc_body" where
  "i2s_rx_rpc_host cbs memory = rpc_body 5 (\<lambda>args (ctx, wire).
     let frame_count = arg_word args 2 :: u32; timeout = arg_word args 3 :: u32;
         i2s_sample_buf = memory (unat (4 * (frame_count * (2 * of_nat (num_out ctx))) :: u32))
     in rbind (returned_res (i2s_local_rx frame_count (cbs timeout) ctx)) (\<lambda>(ret, ws, d, ctx').
          if length i2s_sample_buf < 4 * length ws then Inl Bad_access
          else Inr ([rv (arg_word args 0 :: u32), Resp_ptr (put_at i2s_sample_buf 0 (words_bytes ws)),
                     rv frame_count, rv timeout, rv ret], (ctx', wire @ d))))"

definition i2s_tx_rpc_host ::
  "(u32 \<Rightarrow> i2s_callback list) \<Rightarrow> (u32 \<Rightarrow> i2s_dev option) rpc_body" where
  "i2s_tx_rpc_host cbs = rpc_body 5 (\<lambda>args (ctx, wire).
     let frame_count = arg_word args 2 :: u32; timeout = arg_word args 3 :: u32;
         i2s_sample_buf = arg_mem (args ! 1)
     in rbind (returned_res (i2s_local_tx (bytes_words (length i2s_sample_buf div 4) i2s_sample_buf)
                 frame_count (cbs timeout) ctx)) (\<lambda>(ret, d, ctx').
          Inr ([rv (arg_word args 0 :: u32), Resp_ptr i2s_sample_buf, rv frame_count, rv timeout,
                rv ret], (ctx', wire @ d))))"

definition i2s_rpc_thread ::
  "(u32 \<Rightarrow> i2s_callback list) \<Rightarrow> (nat \<Rightarrow> byte list) \<Rightarrow> byte list \<Rightarrow> (u32 \<Rightarrow> i2s_dev option)
     \<Rightarrow> (byte list \<times> (u32 \<Rightarrow> i2s_dev option)) res" where
  "i2s_rpc_thread cbs memory = rpc_dispatch
     [(fcode_rx, i2s_rx_rpc_host cbs memory), (fcode_tx, i2s_tx_rpc_host cbs)]"

interpretation i2s_rx: rpc_service "i2s_rpc_thread cbs memory" fcode_rx "rx_descs n"
    "i2s_rx_rpc_host cbs memory" for cbs memory n
  unfolding i2s_rpc_thread_def
  by (rule rpc_dispatch_service) (simp_all add: fcode_rx_def fcode_tx_def rx_descs_def)

interpretation i2s_tx: rpc_service "i2s_rpc_thread cbs memory" fcode_tx "tx_descs n"
    "i2s_tx_rpc_host cbs" for cbs memory n
  unfolding i2s_rpc_thread_def
  by (rule rpc_dispatch_service) (simp_all add: fcode_rx_def fcode_tx_def tx_descs_def)

lemma i2s_rx_words:
  assumes "i2s_local_rx frame_count cbs ctx = Some (Inr (ret, ws, d, ctx'))"
  shows "length ws = (if ret = 0 then 0 else unat (frame_count * (2 * of_nat (num_in ctx)) :: u32))"
  using assms read_loop_length
  by (fastforce simp: i2s_local_rx_def Let_def lbind_eq_Inr split: if_splits)

text \<open>What a receive of the client ends with, on a host with \<open>b\<close> bytes in its buffer.\<close>

lemma i2s_remote_rx_eq:
  assumes "hosts (host_ctx_ptr rpc) = Some (ctx, wire)"
    and n: "unat (frame_count * (2 * of_nat (num_in ctx)) :: u32) = n" "4 * n < 2 ^ 24" "4 * n \<le> length buf"
    and k: "unat (frame_count * (2 * of_nat (num_out ctx)) :: u32) = k" "4 * k < 2 ^ 24"
    and mem: "\<And>k. length (memory k) = k"
    and rx: "i2s_local_rx frame_count (cbs timeout) ctx = Some (Inr (ret, ws, d, ctx'))"
  shows "i2s_rx_rpc_host cbs memory (map2 received (rx_descs n)
        (word_bytes 4 (host_ctx_ptr rpc) # frame_args buf frame_count timeout)) hosts
      = (if k < length ws then Inl Bad_access
         else Inr ([rv (host_ctx_ptr rpc), Resp_ptr (put_at (memory (4 * k)) 0 (words_bytes ws)),
           rv frame_count, rv timeout, rv ret], hosts(host_ctx_ptr rpc \<mapsto> (ctx', wire @ d))))"
  using assms(1) rx mem unat_times_4 [OF k] rx_received [of n "host_ctx_ptr rpc" buf frame_count timeout]
  by (auto simp: i2s_rx_rpc_host_def rpc_body_def with_ctx_def Let_def)

lemma bytes_words_take [simp]: "bytes_words n (take (4 * n) bs) = bytes_words n bs"
proof (induction n arbitrary: bs)
  case (Suc n)
  have "drop 4 (take (4 * Suc n) bs) = take (4 * n) (drop 4 bs)"
    by (simp add: drop_take)
  then show ?case using Suc by (simp add: min_def)
qed simp

text \<open>
  A receive and a transmission through the RPC client of the I2S driver are the local ones
  on the host, when it has as many output lines as input lines: the frames reported, the
  samples received, those put on the wire meanwhile and the state of the host's driver are
  the same.
\<close>

theorem i2s_remote_is_local:
  assumes "hosts (host_ctx_ptr rpc) = Some (ctx, wire)" and eq: "num_out ctx = num_in ctx"
    and n: "unat (frame_count * (2 * of_nat (num_in ctx)) :: u32) = n" "4 * n < 2 ^ 24" "4 * n \<le> length buf"
    and mem: "\<And>k. length (memory k) = k"
    and rx: "i2s_local_rx frame_count (cbs timeout) ctx = Some (Inr (ret, ws, d, ctx'))"
    and tx: "i2s_local_tx (bytes_words n buf) frame_count (cbs timeout) ctx
      = Some (Inr (ret2, d2, ctx2))"
  shows "(\<exists>buf'. i2s_remote_rx (num_in ctx) rpc (i2s_rpc_thread cbs memory) buf frame_count timeout hosts
        = Inr (ret, buf', hosts(host_ctx_ptr rpc \<mapsto> (ctx', wire @ d)))
      \<and> length buf' = length buf \<and> drop (4 * n) buf' = drop (4 * n) buf
      \<and> (ret \<noteq> 0 \<longrightarrow> bytes_words n buf' = ws))
    \<and> i2s_remote_tx (num_out ctx) rpc (i2s_rpc_thread cbs memory) buf frame_count timeout hosts
        = Inr (ret2, hosts(host_ctx_ptr rpc \<mapsto> (ctx2, wire @ d2)))"
proof (intro conjI)
  let ?m = "put_at (memory (4 * n)) 0 (words_bytes ws)"
  note ws = i2s_rx_words [OF rx, unfolded n(1)]
  have len: "length ?m = 4 * n" using mem ws by (cases "ret = 0") (simp_all add: put_at_def)
  have "i2s_rx_rpc_host cbs memory (map2 received (rx_descs n)
        (word_bytes 4 (host_ctx_ptr rpc) # frame_args buf frame_count timeout)) hosts
      = Inr ([rv (host_ctx_ptr rpc), Resp_ptr ?m, rv frame_count, rv timeout, rv ret],
          hosts(host_ctx_ptr rpc \<mapsto> (ctx', wire @ d)))"
    using ws i2s_remote_rx_eq [where cbs = cbs and memory = memory and timeout = timeout and hosts = hosts,
        OF assms(1) n n(1) [folded eq] n(2) mem rx]
    by (auto split: if_splits)
  from i2s_rx.rx_call [OF refl n(2,3) _ this] len
  have "i2s_remote_rx (num_in ctx) rpc (i2s_rpc_thread cbs memory) buf frame_count timeout hosts
    = Inr (ret, ?m @ drop (4 * n) buf, hosts(host_ctx_ptr rpc \<mapsto> (ctx', wire @ d)))"
    using n(1) by (simp add: i2s_remote_rx_def)
  moreover have "bytes_words n (?m @ drop (4 * n) buf) = ws" if "ret \<noteq> 0"
    using ws that bytes_words_append [of ws n] by (simp add: put_at_def)
  ultimately show "\<exists>buf'. i2s_remote_rx (num_in ctx) rpc (i2s_rpc_thread cbs memory) buf frame_count
        timeout hosts = Inr (ret, buf', hosts(host_ctx_ptr rpc \<mapsto> (ctx', wire @ d)))
      \<and> length buf' = length buf \<and> drop (4 * n) buf' = drop (4 * n) buf
      \<and> (ret \<noteq> 0 \<longrightarrow> bytes_words n buf' = ws)"
    using len n(3) by simp
  have "i2s_tx_rpc_host cbs (map2 received (tx_descs n)
        (word_bytes 4 (host_ctx_ptr rpc) # frame_args buf frame_count timeout)) hosts
      = Inr ([rv (host_ctx_ptr rpc), Resp_ptr (take (4 * n) buf), rv frame_count, rv timeout, rv ret2],
          hosts(host_ctx_ptr rpc \<mapsto> (ctx2, wire @ d2)))"
    using assms(1) n(3) tx tx_received [OF n(2), of "host_ctx_ptr rpc" buf frame_count timeout]
    by (simp add: i2s_tx_rpc_host_def rpc_body_def with_ctx_def Let_def min_def)
  from i2s_tx.tx_call [OF refl n(2,3) this]
  show "i2s_remote_tx (num_out ctx) rpc (i2s_rpc_thread cbs memory) buf frame_count timeout hosts
      = Inr (ret2, hosts(host_ctx_ptr rpc \<mapsto> (ctx2, wire @ d2)))"
    using n(1) eq by (simp add: i2s_remote_tx_def)
qed

text \<open>
  On a host with more input lines than output lines the buffer is too small for what a receive
  returns.
\<close>

lemma i2s_remote_rx_overruns:
  assumes "hosts (host_ctx_ptr rpc) = Some (ctx, wire)"
    and n: "unat (frame_count * (2 * of_nat (num_in ctx)) :: u32) = n" "4 * n < 2 ^ 24" "4 * n \<le> length buf"
    and k: "unat (frame_count * (2 * of_nat (num_out ctx)) :: u32) = k" "k < n"
    and mem: "\<And>k. length (memory k) = k"
    and rx: "i2s_local_rx frame_count (cbs timeout) ctx = Some (Inr (ret, ws, d, ctx'))" "ret \<noteq> 0"
  shows "i2s_remote_rx (num_in ctx) rpc (i2s_rpc_thread cbs memory) buf frame_count timeout hosts
    = Inl Bad_access"
proof -
  have k4: "4 * k < 2 ^ 24" using k(2) n(2) by linarith
  have "i2s_rx_rpc_host cbs memory (map2 received (rx_descs n)
        (word_bytes 4 (host_ctx_ptr rpc) # frame_args buf frame_count timeout)) hosts = Inl Bad_access"
    using i2s_rx_words [OF rx(1)] rx(2) n(1) k
      i2s_remote_rx_eq [where cbs = cbs and memory = memory and timeout = timeout and hosts = hosts,
        OF assms(1) n k(1) k4 mem rx(1)]
    by simp
  from i2s_rx.client_fault [OF rx_fit [OF n(2,3)] this] show ?thesis
    using n(1) by (simp add: i2s_remote_rx_def)
qed

section \<open>Configuration\<close>

definition mic_array_rpc_start :: "driver_rpc \<Rightarrow> (rpc_addr \<times> int) list res" where
  "mic_array_rpc_start = rpc_start"

definition rtos_mic_array_rpc_config :: "u32 \<Rightarrow> u32 \<Rightarrow> driver \<Rightarrow> driver res" where
  "rtos_mic_array_rpc_config = driver_rpc_config"

definition rtos_mic_array_rpc_client_init :: "u32 \<Rightarrow> u32 \<Rightarrow> driver_rpc \<Rightarrow> driver \<Rightarrow> driver" where
  "rtos_mic_array_rpc_client_init = driver_rpc_init_client"

definition rtos_mic_array_rpc_host_init ::
  "u32 \<Rightarrow> u32 list \<Rightarrow> driver_rpc \<Rightarrow> driver \<Rightarrow> (driver \<times> (u32 \<times> u32) list) res" where
  "rtos_mic_array_rpc_host_init = driver_rpc_init_host"

definition i2s_rpc_start :: "driver_rpc \<Rightarrow> (rpc_addr \<times> int) list res" where
  "i2s_rpc_start = rpc_start"

text \<open>The client's mutex, made when it is configured, is its second state.\<close>

definition rtos_i2s_rpc_config :: "u32 \<Rightarrow> u32 \<Rightarrow> driver \<times> bool \<Rightarrow> (driver \<times> bool) res" where
  "rtos_i2s_rpc_config intertile_port priority = (\<lambda>(d, mutex).
     case drv_rpc d of
       None \<Rightarrow> Inl Bad_access
     | Some r \<Rightarrow> rbind (driver_rpc_config intertile_port priority d) (\<lambda>d'.
         Inr (d', mutex \<or> remote_client_count r = 0)))"

text \<open>The three words a client takes from its link are its host's context and line counts.\<close>

definition rtos_i2s_rpc_client_init ::
  "u32 \<Rightarrow> u32 list \<Rightarrow> driver_rpc \<Rightarrow> driver \<Rightarrow> rtos_i2s \<Rightarrow> driver \<times> rtos_i2s" where
  "rtos_i2s_rpc_client_init host_intertile ws r d ctx =
     (driver_rpc_init_client host_intertile (ws ! 0) r d,
      ctx\<lparr>num_out := unat (ws ! 1), num_in := unat (ws ! 2)\<rparr>)"

definition rtos_i2s_rpc_host_init ::
  "bool \<Rightarrow> rtos_i2s \<Rightarrow> u32 \<Rightarrow> u32 list \<Rightarrow> driver_rpc \<Rightarrow> driver
     \<Rightarrow> (driver \<times> (u32 \<times> u32 list) list) res" where
  "rtos_i2s_rpc_host_init is_slave ctx own client_intertile_ctx r d =
     xassert (\<not> is_slave)
       (rbind (driver_rpc_init_host own client_intertile_ctx r d) (\<lambda>(d', out).
          Inr (d', map (\<lambda>(c, w). (c, [w, of_nat (num_out ctx), of_nat (num_in ctx)])) out)))"

text \<open>A client learns the number of lines its host has.\<close>

lemma rtos_i2s_rpc_handshake:
  assumes "rtos_i2s_rpc_host_init False ctx own cs r d = Inr (d', out)" and "(c, ws) \<in> set out"
    and "num_out ctx < 2 ^ 32" and "num_in ctx < 2 ^ 32"
  shows "num_out (snd (rtos_i2s_rpc_client_init it ws r' d'' ctx'')) = num_out ctx"
    and "num_in (snd (rtos_i2s_rpc_client_init it ws r' d'' ctx'')) = num_in ctx"
  using assms
  by (auto simp: rtos_i2s_rpc_host_init_def rtos_i2s_rpc_client_init_def rbind_eq_Inr unat_of_nat
      take_bit_nat_eq_self)

section \<open>One stereo line each way\<close>

definition wired :: rtos_i2s where
  "wired = stereo\<lparr>recv_buffer := \<lparr>samples = [7, 9], buf_size = 2, write_index = 0, read_index = 0,
       total_written = 2, total_read = 0, required_count = 0\<rparr>,
     send_buffer := new_buffer [0, 0] 2\<rparr>"

theorem i2s_remote_is_local_witness:
  "i2s_remote_tx 1 echo_rpc (i2s_rpc_thread (\<lambda>_. []) unset) (words_bytes [5, 6]) 1 10 [64 \<mapsto> (wired, [])]
    = Inr (1, [64 \<mapsto> (wired\<lparr>send_buffer := \<lparr>samples = [5, 6], buf_size = 2, write_index = 0,
        read_index = 0, total_written = 2, total_read = 0, required_count = 0\<rparr>\<rparr>, [])])"
proof -
  let ?h = "[64 \<mapsto> (wired, [])] :: u32 \<Rightarrow> i2s_dev option"
  let ?r = "wired\<lparr>recv_buffer := (recv_buffer wired)\<lparr>total_read := 2\<rparr>\<rparr>"
  let ?t = "wired\<lparr>send_buffer := \<lparr>samples = [5, 6], buf_size = 2, write_index = 0,
        read_index = 0, total_written = 2, total_read = 0, required_count = 0\<rparr>\<rparr>"
  have lines: "num_out wired = 1" "num_in wired = 1" by (simp_all add: wired_def stereo_def)
  have words: "bytes_words 2 (words_bytes [5, 6]) = [5, 6]"
    using bytes_words_append [of "[5, 6]" 2 "[]"] by (simp del: words_bytes.simps)
  note loops = Let_def lbind_def wired_def stereo_def new_buffer_def words_available_def words_free_def
    put_at_def write_words_def read_words_def write_chunk_def read_chunk_def advance_def
  have rx: "i2s_local_rx 1 [] wired = Some (Inr (1, [7, 9], [], ?r))"
    by (simp add: i2s_local_rx_def rx_ready_def rx_arm_def loops read_loop.simps [of 2]
        read_loop.simps [of 0])
  have tx: "i2s_local_tx [5, 6] 1 [] wired = Some (Inr (1, [], ?t))"
    by (simp add: i2s_local_tx_def tx_ready_def tx_arm_def loops write_loop.simps [of 2]
        write_loop.simps [of 0])
  from i2s_remote_is_local [of ?h echo_rpc wired "[]" 1 2 "words_bytes [5, 6]" unset "\<lambda>_. []" 10
      1 "[7, 9]" "[]" ?r 1 "[]" ?t] rx tx words lines
  show ?thesis by (simp del: words_bytes.simps)
qed

end
