(* ===== verification/Image_File.thy ===== *)
theory Image_File
  imports Prelude
begin

text \<open>
  The output file of the data partition image tool (tools/datapartition_mkimage): the stream
  with its position, and the loops that write to it, which retry until everything is written.
  \<open>room\<close> is the size the file can grow to before fwrite writes less than it is given.
\<close>

record out_file =
  content :: "byte list"
  fpos :: nat
  room :: nat

definition fwrite :: "byte list \<Rightarrow> out_file \<Rightarrow> nat \<times> out_file" where
  "fwrite bs f =
     (let k = min (length bs) (room f - fpos f)
      in (k, f\<lparr>content := put_at (content f) (fpos f) (take k bs), fpos := fpos f + k\<rparr>))"

definition fseek :: "nat \<Rightarrow> out_file \<Rightarrow> out_file" where
  "fseek n f = f\<lparr>fpos := n\<rparr>"

definition fseek_end :: "out_file \<Rightarrow> out_file" where
  "fseek_end f = f\<lparr>fpos := length (content f)\<rparr>"

section \<open>The loops\<close>

datatype error_code =
    ERROR_NONE
  | ERROR_ARG_MISSING
  | ERROR_ARG_UNKOWN
  | ERROR_ARG_ORDER
  | ERROR_ARG_SINGLE_INSTANCE
  | ERROR_ARG_VALUE_MISSING
  | ERROR_ARG_VALUE_PARSING_FAILURE
  | ERROR_ARG_VALUE_OUT_OF_RANGE
  | ERROR_FILE_SYSTEM
  | ERROR_OUT_OF_RESOURCES
  | ERROR_OVERLAPPING_INPUT_DATA

text \<open>The body of the loop of \<open>fill_data\<close>, whose buffer is \<open>alloc_size\<close> times the fill value.\<close>

partial_function (option) fill_loop :: "byte list \<Rightarrow> nat \<Rightarrow> out_file \<Rightarrow> out_file option" where
  "fill_loop fill_data_ptr num_bytes f =
     (if num_bytes = 0 then Some f
      else fill_loop fill_data_ptr
             (num_bytes - fst (fwrite (take num_bytes fill_data_ptr) f))
             (snd (fwrite (take num_bytes fill_data_ptr) f)))"

definition fill_data ::
  "(nat \<Rightarrow> bool) \<Rightarrow> u32 \<Rightarrow> byte \<Rightarrow> nat \<Rightarrow> out_file \<Rightarrow> (error_code \<times> out_file) option" where
  "fill_data malloc_ok block_size fill_value num_bytes f =
     (if num_bytes = 0 then Some (ERROR_NONE, f)
      else
        let alloc_size = (if unat block_size < num_bytes then unat block_size else num_bytes)
        in if \<not> malloc_ok alloc_size then Some (ERROR_OUT_OF_RESOURCES, f)
           else map_option (Pair ERROR_NONE)
                  (fill_loop (replicate alloc_size fill_value) num_bytes f))"

text \<open>The two loops of \<open>copy_data\<close>: one block, and block after block until the input ends.\<close>

partial_function (option) write_block :: "byte list \<Rightarrow> out_file \<Rightarrow> out_file option" where
  "write_block bs f =
     (if bs = [] then Some f
      else write_block (drop (fst (fwrite bs f)) bs) (snd (fwrite bs f)))"

partial_function (option) copy_loop :: "nat \<Rightarrow> byte list \<Rightarrow> out_file \<Rightarrow> out_file option" where
  "copy_loop alloc_size input f =
     (if take alloc_size input = [] then Some f
      else Option.bind (write_block (take alloc_size input) f)
             (copy_loop alloc_size (drop alloc_size input)))"

definition copy_data ::
  "(nat \<Rightarrow> bool) \<Rightarrow> u32 \<Rightarrow> byte list \<Rightarrow> out_file \<Rightarrow> (error_code \<times> out_file) option" where
  "copy_data malloc_ok block_size input f =
     (if \<not> malloc_ok (unat block_size) then Some (ERROR_OUT_OF_RESOURCES, f)
      else map_option (Pair ERROR_NONE) (copy_loop (unat block_size) input f))"

declare fill_loop.simps [code] write_block.simps [code] copy_loop.simps [code]

section \<open>What they write\<close>

text \<open>The file after \<open>bs\<close> has been written at its position.\<close>

definition written :: "byte list \<Rightarrow> out_file \<Rightarrow> out_file" where
  "written bs f = f\<lparr>content := put_at (content f) (fpos f) bs, fpos := fpos f + length bs\<rparr>"

definition file_ok :: "out_file \<Rightarrow> bool" where
  "file_ok f \<longleftrightarrow> fpos f \<le> length (content f)"

lemma length_put_at_grow:
  "i \<le> length xs \<Longrightarrow> length (put_at xs i ys) = max (length xs) (i + length ys)"
  by (simp add: put_at_def)

lemma put_at_append:
  "i \<le> length xs \<Longrightarrow> put_at (put_at xs i ys) (i + length ys) zs = put_at xs i (ys @ zs)"
  by (simp add: put_at_def min_def ac_simps)

lemma put_at_end [simp]: "put_at xs (length xs) ys = xs @ ys"
  by (simp add: put_at_def)

lemma written_simps [simp]:
  "fpos (written bs f) = fpos f + length bs" "room (written bs f) = room f"
  "content (written bs f) = put_at (content f) (fpos f) bs"
  "written [] f = f"
  by (simp_all add: written_def)

lemma written_ok [simp]: "file_ok f \<Longrightarrow> file_ok (written bs f)"
  by (auto simp: file_ok_def length_put_at_grow)

lemma written_written:
  "file_ok f \<Longrightarrow> written cs (written bs f) = written (bs @ cs) f"
  by (simp add: written_def file_ok_def put_at_append)

lemma fwrite_written:
  "fwrite bs f = (min (length bs) (room f - fpos f), written (take (room f - fpos f) bs) f)"
  by (simp add: fwrite_def written_def Let_def min.commute) (simp add: min_def)

lemma fwrite_all:
  "fpos f + length bs \<le> room f \<Longrightarrow> fwrite bs f = (length bs, written bs f)"
  by (simp add: fwrite_written)

lemma write_block_room:
  assumes "fpos f + length bs \<le> room f"
  shows "write_block bs f = Some (written bs f)"
  using assms by (subst write_block.simps) (simp add: fwrite_all write_block.simps [of "[]"])

lemma copy_loop_room:
  assumes "file_ok f" and "fpos f + length input \<le> room f" and "0 < n"
  shows "copy_loop n input f = Some (written input f)"
  using assms
proof (induction "length input" arbitrary: input f rule: less_induct)
  case less
  show ?case
  proof (cases "input = []")
    case True
    then show ?thesis by (simp add: copy_loop.simps)
  next
    case False
    let ?f = "written (take n input) f"
    have "copy_loop n (drop n input) ?f = Some (written (drop n input) ?f)"
      using less.prems False by (intro less.hyps) (auto simp: min_def)
    then show ?thesis
      using less.prems False
      by (subst copy_loop.simps) (simp add: write_block_room written_written)
  qed
qed

lemma fill_loop_room:
  assumes "file_ok f" and "fpos f + n \<le> room f" and "0 < k"
  shows "fill_loop (replicate k v) n f = Some (written (replicate n v) f)"
  using assms
proof (induction n arbitrary: f rule: less_induct)
  case (less n)
  show ?case
  proof (cases "n = 0")
    case True
    then show ?thesis by (simp add: fill_loop.simps)
  next
    case False
    let ?m = "min n k"
    let ?f = "written (replicate ?m v) f"
    have "fill_loop (replicate k v) (n - ?m) ?f = Some (written (replicate (n - ?m) v) ?f)"
      using less.prems False by (intro less.IH) auto
    then show ?thesis
      using less.prems False
      by (subst fill_loop.simps) (simp add: fwrite_all written_written flip: replicate_add)
  qed
qed

text \<open>On a medium that is full the loops go on for ever.\<close>

lemma write_block_full:
  assumes "fpos f \<le> room f" and "room f < fpos f + length bs"
  shows "write_block bs f = None"
proof -
  have "fpos f \<le> room f \<longrightarrow> fpos f + length bs \<le> room f" if "write_block bs f = Some r" for bs f r
  proof (rule write_block.raw_induct [OF _ that], goal_cases)
    case (1 g bs f r)
    show ?case
    proof (cases "bs = []")
      case False
      let ?k = "min (length bs) (room f - fpos f)"
      from 1(2) False have "g (drop ?k bs) (written (take (room f - fpos f) bs) f) = Some r"
        by (simp add: fwrite_written)
      from 1(1) [OF this] show ?thesis by (auto simp: min_def split: if_splits)
    qed simp
  qed
  with assms show ?thesis by (metis not_None_eq leD)
qed

end
