(* ===== verification/Image_Args.thy ===== *)
theory Image_Args
  imports Image_File
begin

text \<open>
  The command line of the data partition image tool: its options, the numbers they take, and the
  table of input files. A string is a list of characters without its terminator; \<open>long\<close> has 64
  bits. The messages that are printed are not part of the model.
\<close>

section \<open>Numbers\<close>

text \<open>
  \<open>sscanf\<close> with \<open>%ld\<close> and \<open>%lX\<close>: white space, a sign, in base 16 a prefix, and as many digits as
  there are, at least one; the rest of the string is not looked at. Values outside the range of
  the type are clipped, as \<open>strtol\<close> and \<open>strtoul\<close> do.
\<close>

definition is_space :: "char \<Rightarrow> bool" where
  "is_space c \<longleftrightarrow> of_char c \<in> {9 :: nat, 10, 11, 12, 13, 32}"

definition digit_value :: "char \<Rightarrow> nat" where
  "digit_value c =
     (let k = of_char c in
      if 48 \<le> k \<and> k \<le> 57 then k - 48
      else if 65 \<le> k \<and> k \<le> 70 then k - 55
      else if 97 \<le> k \<and> k \<le> 102 then k - 87
      else 16)"

definition scan_digits :: "nat \<Rightarrow> string \<Rightarrow> nat option" where
  "scan_digits base s =
     (case takeWhile (\<lambda>c. digit_value c < base) s of
        [] \<Rightarrow> None
      | ds \<Rightarrow> Some (foldl (\<lambda>n c. base * n + digit_value c) 0 ds))"

definition scan_sign :: "string \<Rightarrow> bool \<times> string" where
  "scan_sign s =
     (case s of [] \<Rightarrow> (False, s)
      | c # cs \<Rightarrow> if c = CHR ''-'' then (True, cs) else if c = CHR ''+'' then (False, cs) else (False, s))"

definition scan_prefix :: "string \<Rightarrow> string" where
  "scan_prefix s =
     (case s of c # x # cs \<Rightarrow> if c = CHR ''0'' \<and> (x = CHR ''x'' \<or> x = CHR ''X'') then cs else s | _ \<Rightarrow> s)"

definition sscanf_ld :: "string \<Rightarrow> int option" where
  "sscanf_ld s =
     (let (neg, ds) = scan_sign (dropWhile is_space s)
      in map_option (\<lambda>n. max (- (2 ^ 63)) (min (2 ^ 63 - 1) (if neg then - int n else int n)))
           (scan_digits 10 ds))"

definition sscanf_lX :: "string \<Rightarrow> int option" where
  "sscanf_lX s =
     (let (neg, ds) = scan_sign (dropWhile is_space s)
      in map_option (\<lambda>n. sint (if 2 ^ 64 \<le> n then - 1 else if neg then - of_nat n else of_nat n :: 64 word))
           (scan_digits 16 (scan_prefix ds)))"

definition parse_number :: "string \<Rightarrow> int option" where
  "parse_number str =
     (case (if take 2 str = ''0x'' then sscanf_lX (drop 2 str) else None) of
        Some number \<Rightarrow> Some number
      | None \<Rightarrow> sscanf_ld str)"

section \<open>Options\<close>

definition help_arg :: "string list" where "help_arg = [''-h'', ''--help'']"
definition version_arg :: "string list" where "version_arg = [''--version'']"
definition verbose_arg :: "string list" where "verbose_arg = [''-v'', ''--verbose'']"
definition input_file_arg :: "string list" where "input_file_arg = [''-i'', ''--in-file'']"
definition output_file_arg :: "string list" where "output_file_arg = [''-o'', ''--out-file'']"
definition seek_arg :: "string list" where "seek_arg = [''-s'', ''--seek'']"
definition block_size_arg :: "string list" where "block_size_arg = [''-b'', ''--block-size'']"
definition fill_byte_arg :: "string list" where "fill_byte_arg = [''-f'', ''--fill-byte'']"
definition truncate_arg :: "string list" where "truncate_arg = [''-t'', ''--truncate'']"

lemmas arg_defs = help_arg_def version_arg_def verbose_arg_def input_file_arg_def output_file_arg_def
  seek_arg_def block_size_arg_def fill_byte_arg_def truncate_arg_def

fun is_matching_arg :: "string \<Rightarrow> string list \<Rightarrow> bool" where
  "is_matching_arg arg [] = False"
| "is_matching_arg arg (opt # opts) = (if arg = opt then True else is_matching_arg arg opts)"

definition dashed :: "string \<Rightarrow> bool" where
  "dashed s = (case s of [] \<Rightarrow> False | c # _ \<Rightarrow> c = CHR ''-'')"

text \<open>The arguments after the current one; the value and what follows it.\<close>

definition next_arg_value :: "string list \<Rightarrow> (string \<times> string list) option" where
  "next_arg_value argv =
     (case argv of [] \<Rightarrow> None | a # rest \<Rightarrow> if dashed a then None else Some (a, rest))"

fun num_arg_values :: "string list \<Rightarrow> nat" where
  "num_arg_values [] = 0"
| "num_arg_values (a # rest) = (if dashed a then 0 else Suc (num_arg_values rest))"

section \<open>The state\<close>

datatype log_level = LOG_INF | LOG_WRN | LOG_ERR

record file_entry =
  filename :: string
  size :: int
  offset :: u32

text \<open>
  The table of input files is the number of entries allocated and the entries filled so far;
  an entry past the ones allocated is a bad access.
\<close>

record mkimage =
  log_level :: log_level
  show_help :: bool
  show_version :: bool
  output_filename :: "string option"
  stdin_seek_blocks :: u32
  block_size :: u32
  fill_value :: byte
  input_files :: "(nat \<times> file_entry list) option"
  truncate_out_file :: bool

definition mkimage_start :: mkimage where
  "mkimage_start =
     \<lparr>log_level = LOG_WRN, show_help = False, show_version = False, output_filename = None,
      stdin_seek_blocks = 0, block_size = 512, fill_value = 0xFF, input_files = None,
      truncate_out_file = False\<rparr>"

definition put_entry :: "file_entry \<Rightarrow> mkimage \<Rightarrow> mkimage res" where
  "put_entry e st =
     (case input_files st of
        None \<Rightarrow> Inl Bad_access
      | Some (n, es) \<Rightarrow>
          if length es < n then Inr (st\<lparr>input_files := Some (n, es @ [e])\<rparr>) else Inl Bad_access)"

section \<open>Reading the command line\<close>

text \<open>\<open>strrchr\<close>: the parts before and after the last delimiter.\<close>

definition split_last :: "char \<Rightarrow> string \<Rightarrow> (string \<times> string) option" where
  "split_last delim s =
     (if delim \<in> set s
      then Some (rev (tl (dropWhile (\<lambda>c. c \<noteq> delim) (rev s))), rev (takeWhile (\<lambda>c. c \<noteq> delim) (rev s)))
      else None)"

text \<open>The loop over the \<open>n\<close> values of \<open>--in-file\<close>.\<close>

fun in_file_values ::
  "nat \<Rightarrow> string list \<Rightarrow> mkimage \<Rightarrow> (error_code \<times> string list \<times> mkimage) res" where
  "in_file_values 0 argv st = Inr (ERROR_NONE, argv, st)"
| "in_file_values (Suc n) [] st = Inl Bad_access"
| "in_file_values (Suc n) (a # rest) st =
     (case split_last (CHR '':'') a of
        None \<Rightarrow> Inr (ERROR_ARG_VALUE_PARSING_FAILURE, rest, st)
      | Some (name, token) \<Rightarrow>
          (case parse_number token of
             None \<Rightarrow> Inr (ERROR_ARG_VALUE_PARSING_FAILURE, rest, st)
           | Some blocks \<Rightarrow>
               rbind (put_entry \<lparr>filename = name, size = 0,
                                offset = of_int blocks * block_size st\<rparr> st)
                 (in_file_values n rest)))"

text \<open>
  The loop of \<open>process_args\<close>; \<open>inp\<close> and \<open>outp\<close> are \<open>in_file_present\<close> and \<open>out_file_present\<close>.
  A table entry has 24 bytes.
\<close>

type_synonym args_state = "bool \<times> bool \<times> mkimage"

definition take_input_files ::
  "(nat \<Rightarrow> bool) \<Rightarrow> bool \<Rightarrow> string list \<Rightarrow> mkimage \<Rightarrow> (error_code \<times> string list \<times> mkimage) res" where
  "take_input_files malloc_ok piped rest st =
     (let n = num_arg_values rest;
          num_entries_allocated = (if piped then n + 1 else n)
      in if num_entries_allocated = 0 then Inr (ERROR_ARG_VALUE_MISSING, rest, st)
         else if \<not> malloc_ok (num_entries_allocated * 24) then Inr (ERROR_OUT_OF_RESOURCES, rest, st)
         else in_file_values n rest (st\<lparr>input_files := Some (num_entries_allocated, [])\<rparr>))"

text \<open>An option with a number in a range, and what it does with it.\<close>

definition take_number ::
  "int \<Rightarrow> int \<Rightarrow> (int \<Rightarrow> mkimage \<Rightarrow> mkimage) \<Rightarrow> string list \<Rightarrow> mkimage
     \<Rightarrow> error_code \<times> string list \<times> mkimage" where
  "take_number lo hi f rest st =
     (case next_arg_value rest of
        None \<Rightarrow> (ERROR_ARG_VALUE_MISSING, rest, st)
      | Some (a, rest') \<Rightarrow>
          (case parse_number a of
             None \<Rightarrow> (ERROR_ARG_VALUE_PARSING_FAILURE, rest', st)
           | Some tmp \<Rightarrow>
               if tmp < lo \<or> hi < tmp then (ERROR_ARG_VALUE_OUT_OF_RANGE, rest', st)
               else (ERROR_NONE, rest', f tmp st)))"

definition process_arg ::
  "(nat \<Rightarrow> bool) \<Rightarrow> bool \<Rightarrow> string \<Rightarrow> string list \<Rightarrow> args_state
     \<Rightarrow> (error_code \<times> string list \<times> args_state) res" where
  "process_arg malloc_ok piped a rest s =
     (case s of (inp, outp, st) \<Rightarrow>
        if is_matching_arg a verbose_arg
        then Inr (ERROR_NONE, rest, inp, outp, st\<lparr>log_level := LOG_INF\<rparr>)
        else if is_matching_arg a truncate_arg
        then Inr (ERROR_NONE, rest, inp, outp, st\<lparr>truncate_out_file := True\<rparr>)
        else if is_matching_arg a input_file_arg
        then if inp then Inr (ERROR_ARG_SINGLE_INSTANCE, rest, s)
             else rbind (take_input_files malloc_ok piped rest st) (\<lambda>(e, rest', st').
                    Inr (e, rest', True, outp, st'))
        else if is_matching_arg a output_file_arg
        then (case next_arg_value rest of
                None \<Rightarrow> Inr (ERROR_ARG_VALUE_MISSING, rest, s)
              | Some (v, rest') \<Rightarrow> Inr (ERROR_NONE, rest', inp, True, st\<lparr>output_filename := Some v\<rparr>))
        else if is_matching_arg a seek_arg
        then (case take_number 0 (2 ^ 32 - 1) (\<lambda>n. stdin_seek_blocks_update (\<lambda>_. of_int n)) rest st of
                (e, rest', st') \<Rightarrow> Inr (e, rest', inp, outp, st'))
        else if is_matching_arg a block_size_arg
        then if inp then Inr (ERROR_ARG_ORDER, rest, s)
             else (case take_number 1 (2 ^ 32 - 1) (\<lambda>n. block_size_update (\<lambda>_. of_int n)) rest st of
                     (e, rest', st') \<Rightarrow> Inr (e, rest', inp, outp, st'))
        else if is_matching_arg a fill_byte_arg
        then (case take_number 1 255 (\<lambda>n. fill_value_update (\<lambda>_. of_int n)) rest st of
                (e, rest', st') \<Rightarrow> Inr (e, rest', inp, outp, st'))
        else Inr (ERROR_ARG_UNKOWN, rest, s))"

text \<open>The end of \<open>process_args\<close>.\<close>

definition STDIN_FILENAME :: string where "STDIN_FILENAME = ''[STDIN]''"

definition add_stdin :: "(nat \<Rightarrow> bool) \<Rightarrow> mkimage \<Rightarrow> (error_code \<times> mkimage) res" where
  "add_stdin malloc_ok st =
     (let st1 = (if input_files st = None \<and> malloc_ok 24 then st\<lparr>input_files := Some (1, [])\<rparr> else st)
      in if input_files st1 = None then Inr (ERROR_OUT_OF_RESOURCES, st1)
         else rbind (put_entry \<lparr>filename = STDIN_FILENAME, size = 0,
                               offset = stdin_seek_blocks st1 * block_size st1\<rparr> st1)
                (\<lambda>st2. Inr (ERROR_NONE, st2)))"

definition args_done ::
  "(nat \<Rightarrow> bool) \<Rightarrow> bool \<Rightarrow> args_state \<Rightarrow> (error_code \<times> mkimage) res" where
  "args_done malloc_ok piped s =
     (case s of (inp, outp, st) \<Rightarrow>
        rbind (if piped then add_stdin malloc_ok st else Inr (ERROR_NONE, st)) (\<lambda>(e, st').
          if e \<noteq> ERROR_NONE then Inr (e, st')
          else if (piped \<or> inp) \<and> outp then Inr (ERROR_NONE, st')
          else Inr (ERROR_ARG_MISSING, st')))"

lemma in_file_values_rest:
  "in_file_values n argv st = Inr (e, rest, st') \<Longrightarrow> length rest \<le> length argv"
proof (induction n argv st arbitrary: e rest st' rule: in_file_values.induct)
  case (3 n a as st)
  then show ?case
    by (auto simp: rbind_eq_Inr split: option.splits prod.splits intro: le_SucI)
qed auto

lemma next_arg_value_rest: "next_arg_value argv = Some (a, rest) \<Longrightarrow> length rest < length argv"
  by (auto simp: next_arg_value_def split: list.splits if_splits)

lemma take_number_rest:
  "take_number lo hi f argv st = (e, rest, st') \<Longrightarrow> length rest \<le> length argv"
  by (auto simp: take_number_def dest: next_arg_value_rest split: option.splits prod.splits if_splits)

lemma take_input_files_rest:
  "take_input_files m piped argv st = Inr (e, rest, st') \<Longrightarrow> length rest \<le> length argv"
  by (auto simp: take_input_files_def Let_def dest: in_file_values_rest split: if_splits)

lemma process_arg_rest:
  "process_arg m piped a argv s = Inr (e, rest, s') \<Longrightarrow> length rest \<le> length argv"
  by (auto simp: process_arg_def rbind_eq_Inr simp del: is_matching_arg.simps
      dest: take_number_rest take_input_files_rest next_arg_value_rest
      split: prod.splits if_splits option.splits)

function process_args_loop ::
  "(nat \<Rightarrow> bool) \<Rightarrow> bool \<Rightarrow> string list \<Rightarrow> args_state \<Rightarrow> (error_code \<times> mkimage) res" where
  "process_args_loop malloc_ok piped [] s = args_done malloc_ok piped s"
| "process_args_loop malloc_ok piped (a # rest) s =
     (if is_matching_arg a help_arg
      then Inr (ERROR_NONE, (snd (snd s))\<lparr>show_help := True\<rparr>)
      else if is_matching_arg a version_arg
      then Inr (ERROR_NONE, (snd (snd s))\<lparr>show_version := True\<rparr>)
      else rbind (process_arg malloc_ok piped a rest s) (\<lambda>(e, rest', s').
             if e \<noteq> ERROR_NONE then Inr (e, snd (snd s')) else process_args_loop malloc_ok piped rest' s'))"
  by pat_completeness auto
termination
  by (relation "measure (\<lambda>(m, p, argv, s). length argv)") (auto dest: process_arg_rest)

declare process_args_loop.simps(2) [simp del]

text \<open>\<open>argv\<close> without the name of the program.\<close>

definition process_args :: "(nat \<Rightarrow> bool) \<Rightarrow> bool \<Rightarrow> string list \<Rightarrow> (error_code \<times> mkimage) res" where
  "process_args malloc_ok piped argv = process_args_loop malloc_ok piped argv (False, False, mkimage_start)"

section \<open>Numbers that are printed and read\<close>

fun dec :: "nat \<Rightarrow> string" where
  "dec n = (if n < 10 then [char_of (n + 48)] else dec (n div 10) @ [char_of (n mod 10 + 48)])"

declare dec.simps [simp del]

lemma digit_value_char [simp]: "k < 10 \<Longrightarrow> digit_value (char_of (k + 48)) = k"
  by (simp add: digit_value_def)

lemma dec_digits: "list_all (\<lambda>c. digit_value c < 10) (dec n)"
  by (induction n rule: dec.induct) (subst dec.simps, auto)

lemma dec_value: "foldl (\<lambda>m c. 10 * m + digit_value c) 0 (dec n) = n"
  by (induction n rule: dec.induct) (subst dec.simps, auto)

lemma dec_not_Nil: "dec n \<noteq> []"
  by (subst dec.simps) simp

lemma scan_digits_dec: "scan_digits 10 (dec n) = Some n"
proof -
  have "takeWhile (\<lambda>c. digit_value c < 10) (dec n) = dec n"
    using dec_digits [of n] by (simp add: takeWhile_eq_all_conv list_all_iff)
  then show ?thesis
    unfolding scan_digits_def using dec_value [of n] dec_not_Nil [of n] by (cases "dec n") auto
qed

lemma digit_char:
  assumes "digit_value c < 10"
  shows "\<not> is_space c" "c \<noteq> CHR ''-''" "c \<noteq> CHR ''+''" "c \<noteq> CHR ''x''" "c \<noteq> CHR '':''"
  using assms by (auto simp: digit_value_def is_space_def Let_def split: if_splits)

lemma dec_head:
  obtains c cs where "dec n = c # cs" "digit_value c < 10" "list_all (\<lambda>c. digit_value c < 10) cs"
  using dec_digits [of n] dec_not_Nil [of n] by (cases "dec n") auto

lemma sscanf_ld_dec:
  assumes "int n < 2 ^ 63"
  shows "sscanf_ld (dec n) = Some (int n)"
proof -
  obtain c cs where d: "dec n = c # cs" "digit_value c < 10" by (rule dec_head [of n])
  then have "dropWhile is_space (dec n) = dec n" "scan_sign (dec n) = (False, dec n)"
    using digit_char [OF d(2)] by (auto simp: scan_sign_def)
  with assms show ?thesis by (simp add: sscanf_ld_def scan_digits_dec)
qed

theorem parse_number_dec:
  assumes "int n < 2 ^ 63"
  shows "parse_number (dec n) = Some (int n)"
proof -
  have "take 2 (dec n) \<noteq> ''0x''"
  proof
    assume "take 2 (dec n) = ''0x''"
    then have "CHR ''x'' \<in> set (dec n)" by (metis in_set_takeD list.set_intros)
    then show False using dec_digits [of n] digit_char(4) by (auto simp: list_all_iff)
  qed
  then show ?thesis by (simp add: parse_number_def sscanf_ld_dec [OF assms])
qed

section \<open>What the options give\<close>

definition entry_of :: "u32 \<Rightarrow> string \<times> nat \<Rightarrow> file_entry" where
  "entry_of bs x = \<lparr>filename = fst x, size = 0, offset = of_nat (snd x) * bs\<rparr>"

definition in_file_value :: "string \<times> nat \<Rightarrow> string" where
  "in_file_value x = fst x @ CHR '':'' # dec (snd x)"

lemma split_last_value: "split_last (CHR '':'') (in_file_value x) = Some (fst x, dec (snd x))"
proof -
  have "\<forall>c\<in>set (rev (dec (snd x))). c \<noteq> CHR '':''"
    using dec_digits [of "snd x"] digit_char(5) by (auto simp: list_all_iff)
  then have "dropWhile (\<lambda>c. c \<noteq> CHR '':'') (rev (dec (snd x)) @ CHR '':'' # rev (fst x)) = CHR '':'' # rev (fst x)"
    "takeWhile (\<lambda>c. c \<noteq> CHR '':'') (rev (dec (snd x)) @ CHR '':'' # rev (fst x)) = rev (dec (snd x))"
    by (subst dropWhile_append2 takeWhile_append2; simp)+
  then show ?thesis
    by (simp add: split_last_def in_file_value_def)
qed

lemma in_file_values_read:
  assumes "\<forall>x\<in>set xs. int (snd x) < 2 ^ 63"
    and "input_files st = Some (n, es)" and "length es + length xs \<le> n"
  shows "in_file_values (length xs) (map in_file_value xs @ rest) st
    = Inr (ERROR_NONE, rest, st\<lparr>input_files := Some (n, es @ map (entry_of (block_size st)) xs)\<rparr>)"
  using assms
proof (induction xs arbitrary: es st)
  case (Cons x xs)
  let ?e = "entry_of (block_size st) x"
  let ?st = "st\<lparr>input_files := Some (n, es @ [?e])\<rparr>"
  have "put_entry ?e st = Inr ?st"
    using Cons.prems by (simp add: put_entry_def)
  moreover have "in_file_values (length xs) (map in_file_value xs @ rest) ?st
    = Inr (ERROR_NONE, rest, ?st\<lparr>input_files := Some (n, (es @ [?e]) @ map (entry_of (block_size ?st)) xs)\<rparr>)"
    using Cons.prems by (intro Cons.IH) auto
  ultimately show ?case
    using Cons.prems(1) by (simp add: split_last_value parse_number_dec entry_of_def)
qed simp

lemma num_arg_values_read:
  "\<forall>x\<in>set xs. \<not> dashed (fst x) \<Longrightarrow> num_arg_values (map in_file_value xs @ rest) = length xs + num_arg_values rest"
  by (induction xs) (auto simp: dashed_def in_file_value_def split: list.splits)

lemma dashed_dec [simp]: "\<not> dashed (dec n)"
  by (rule dec_head [of n]) (auto simp: dashed_def dest: digit_char(2))

text \<open>
  The loop keeps this: what was allocated for the table is what it needs, with an entry left for
  the standard input if that is piped, and block size and fill value are in their ranges.
\<close>

definition args_ok :: "bool \<Rightarrow> args_state \<Rightarrow> bool" where
  "args_ok piped s \<longleftrightarrow>
     (case s of (inp, outp, st) \<Rightarrow>
        (outp \<longleftrightarrow> output_filename st \<noteq> None) \<and> block_size st \<noteq> 0 \<and> fill_value st \<noteq> 0 \<and>
        \<not> show_help st \<and> \<not> show_version st \<and>
        (if inp then \<exists>n es. input_files st = Some (n, es) \<and> 0 < n \<and>
             n = length es + (if piped then 1 else 0)
         else input_files st = None))"

lemma in_file_values_ok:
  assumes "num_arg_values argv = k" and "input_files st = Some (n, es)" and "n = length es + k + extra"
  shows "\<exists>e rest st'. in_file_values k argv st = Inr (e, rest, st') \<and>
    (e = ERROR_NONE \<longrightarrow> (\<exists>es'. st' = st\<lparr>input_files := Some (n, es')\<rparr> \<and> n = length es' + extra))"
  using assms
proof (induction k arbitrary: argv st es)
  case 0
  then have "st = st\<lparr>input_files := Some (n, es)\<rparr>" by simp
  with 0 show ?case by (metis in_file_values.simps(1) add_0_right)
next
  case (Suc k)
  then obtain a rest where argv: "argv = a # rest" "num_arg_values rest = k"
    by (cases argv) (auto split: if_splits)
  show ?case
  proof (cases "split_last (CHR '':'') a")
    case None
    then show ?thesis by (simp add: argv)
  next
    case (Some v)
    obtain name token where v: "v = (name, token)" by fastforce
    show ?thesis
    proof (cases "parse_number token")
      case None
      with Some v show ?thesis by (simp add: argv)
    next
      case (Some blocks)
      let ?e = "\<lparr>filename = name, size = 0, offset = of_int blocks * block_size st\<rparr>"
      let ?st = "st\<lparr>input_files := Some (n, es @ [?e])\<rparr>"
      have "put_entry ?e st = Inr ?st" using Suc.prems by (simp add: put_entry_def)
      with Suc.IH [OF argv(2), of ?st "es @ [?e]"] Suc.prems Some \<open>split_last (CHR '':'') a = Some v\<close> v
      show ?thesis by (auto simp: argv)
    qed
  qed
qed

lemma of_int_u32_neq_0: "1 \<le> n \<Longrightarrow> n \<le> 2 ^ 32 - 1 \<Longrightarrow> (of_int n :: u32) \<noteq> 0"
  by (simp add: of_int_eq_0_iff word_of_int_eq_0_iff zdvd_not_zless del: of_int_eq_0_iff)

lemma of_int_byte_neq_0: "1 \<le> n \<Longrightarrow> n \<le> 255 \<Longrightarrow> (of_int n :: byte) \<noteq> 0"
  by (simp add: of_int_eq_0_iff word_of_int_eq_0_iff zdvd_not_zless del: of_int_eq_0_iff)

lemma take_number_ok:
  "take_number lo hi f argv st = (ERROR_NONE, rest, st') \<Longrightarrow> \<exists>n. lo \<le> n \<and> n \<le> hi \<and> st' = f n st"
  by (auto simp: take_number_def not_less split: option.splits prod.splits if_splits)

lemma take_input_files_ok:
  assumes "extra = (if piped then 1 else 0)"
  shows "\<exists>e rest st'. take_input_files m piped argv st = Inr (e, rest, st') \<and>
    (e = ERROR_NONE \<longrightarrow> (\<exists>n es. st' = st\<lparr>input_files := Some (n, es)\<rparr> \<and> 0 < n \<and> n = length es + extra))"
proof -
  let ?n = "num_arg_values argv + extra"
  let ?st = "st\<lparr>input_files := Some (?n, [])\<rparr>"
  have n: "(if piped then num_arg_values argv + 1 else num_arg_values argv) = ?n"
    using assms by simp
  have prem: "input_files ?st = Some (?n, [])" "?n = length ([] :: file_entry list) + num_arg_values argv + extra"
    by simp_all
  obtain e rest st' where v: "in_file_values (num_arg_values argv) argv ?st = Inr (e, rest, st')"
    and st': "e = ERROR_NONE \<longrightarrow> (\<exists>es'. st' = ?st\<lparr>input_files := Some (?n, es')\<rparr> \<and> ?n = length es' + extra)"
    using in_file_values_ok [OF refl prem] by blast
  show ?thesis
  proof (cases "?n = 0 \<or> \<not> m (?n * 24)")
    case True
    then show ?thesis unfolding take_input_files_def Let_def n by auto
  next
    case False
    then have "take_input_files m piped argv st = Inr (e, rest, st')"
      unfolding take_input_files_def Let_def n using v by auto
    with st' False show ?thesis by fastforce
  qed
qed

definition keeps :: "bool \<Rightarrow> (error_code \<times> string list \<times> args_state) res \<Rightarrow> bool" where
  "keeps piped r =
     (case r of Inl _ \<Rightarrow> False | Inr (e, _, s) \<Rightarrow> e = ERROR_NONE \<longrightarrow> args_ok piped s)"

lemma keeps_Inr [simp]: "keeps piped (Inr (e, rest, s)) \<longleftrightarrow> (e = ERROR_NONE \<longrightarrow> args_ok piped s)"
  by (simp add: keeps_def)

lemma keeps_if:
  "(c \<Longrightarrow> keeps piped a) \<Longrightarrow> (\<not> c \<Longrightarrow> keeps piped b) \<Longrightarrow> keeps piped (if c then a else b)"
  by simp

lemma keeps_number:
  "(\<And>n. lo \<le> n \<Longrightarrow> n \<le> hi \<Longrightarrow> args_ok piped (inp, outp, f n st)) \<Longrightarrow>
     keeps piped (case take_number lo hi f argv st of (e, rest', st') \<Rightarrow> Inr (e, rest', inp, outp, st'))"
  by (auto dest!: take_number_ok split: prod.split)

lemma keeps_input_files:
  assumes "args_ok piped (False, outp, st)"
  shows "keeps piped (rbind (take_input_files m piped argv st) (\<lambda>(e, rest', st').
    Inr (e, rest', True, outp, st')))"
proof -
  obtain e rest st' where t: "take_input_files m piped argv st = Inr (e, rest, st')"
    and e: "e = ERROR_NONE \<longrightarrow> (\<exists>n es. st' = st\<lparr>input_files := Some (n, es)\<rparr> \<and> 0 < n
      \<and> n = length es + (if piped then 1 else 0))"
    using take_input_files_ok [OF refl] by blast
  have "args_ok piped (True, outp, st')" if "e = ERROR_NONE"
    using e that assms by (auto simp: args_ok_def)
  with t show ?thesis by simp
qed

lemma process_arg_ok:
  assumes "args_ok piped s"
  shows "keeps piped (process_arg m piped a argv s)"
proof -
  obtain inp outp st where s: "s = (inp, outp, st)" by (cases s)
  note ok = assms [unfolded s]
  have "args_ok piped (inp, outp, st\<lparr>log_level := LOG_INF\<rparr>)"
    "args_ok piped (inp, outp, st\<lparr>truncate_out_file := True\<rparr>)"
    "\<And>v. args_ok piped (inp, True, st\<lparr>output_filename := Some v\<rparr>)"
    "\<And>n. args_ok piped (inp, outp, st\<lparr>stdin_seek_blocks := n\<rparr>)"
    "\<And>n. 1 \<le> n \<Longrightarrow> n \<le> 2 ^ 32 - 1 \<Longrightarrow> args_ok piped (inp, outp, st\<lparr>block_size := of_int n\<rparr>)"
    "\<And>n. 1 \<le> n \<Longrightarrow> n \<le> 255 \<Longrightarrow> args_ok piped (inp, outp, st\<lparr>fill_value := of_int n\<rparr>)"
    using ok of_int_u32_neq_0 of_int_byte_neq_0 by (simp_all add: args_ok_def)
  then show ?thesis
    unfolding process_arg_def s prod.case using ok
    by (intro keeps_if keeps_number) (auto simp: keeps_input_files split: option.split)
qed

definition ready :: "mkimage \<Rightarrow> bool" where
  "ready st \<longleftrightarrow> output_filename st \<noteq> None \<and> block_size st \<noteq> 0 \<and> fill_value st \<noteq> 0 \<and>
     (\<exists>es. input_files st = Some (length es, es) \<and> es \<noteq> [])"

lemma args_done_ok:
  assumes "args_ok piped s"
  shows "\<exists>e st. args_done m piped s = Inr (e, st) \<and> (e = ERROR_NONE \<longrightarrow> ready st)"
proof -
  obtain inp outp st where s: "s = (inp, outp, st)" by (cases s)
  show ?thesis
  proof (cases piped)
    case True
    show ?thesis
    proof (cases inp)
      case True
      then obtain n es where "input_files st = Some (n, es)" "n = length es + 1"
        using assms \<open>piped\<close> by (auto simp: args_ok_def s)
      with assms \<open>piped\<close> True show ?thesis
        by (auto simp: args_done_def s add_stdin_def put_entry_def args_ok_def ready_def)
    next
      case False
      with assms \<open>piped\<close> show ?thesis
        by (auto simp: args_done_def s add_stdin_def put_entry_def args_ok_def ready_def Let_def)
    qed
  next
    case False
    with assms show ?thesis by (auto simp: args_done_def s args_ok_def ready_def)
  qed
qed

lemma process_args_loop_ok:
  "args_ok piped s \<Longrightarrow> \<exists>e st. process_args_loop m piped argv s = Inr (e, st) \<and>
     (e = ERROR_NONE \<longrightarrow> show_help st \<or> show_version st \<or> ready st)"
proof (induction m piped argv s rule: process_args_loop.induct)
  case (1 m piped s)
  then show ?case using args_done_ok [OF 1] by fastforce
next
  case (2 m piped a argv s)
  obtain e rest s' where p: "process_arg m piped a argv s = Inr (e, rest, s')"
    and ok: "e = ERROR_NONE \<longrightarrow> args_ok piped s'"
    using process_arg_ok [OF 2(2), of m a argv] by (auto simp: keeps_def split: sum.splits)
  show ?case
  proof (cases "is_matching_arg a help_arg \<or> is_matching_arg a version_arg \<or> e \<noteq> ERROR_NONE")
    case True
    with p show ?thesis by (auto simp: process_args_loop.simps(2))
  next
    case False
    with 2(1) [OF _ _ p refl] ok p show ?thesis by (simp add: process_args_loop.simps(2))
  qed
qed

text \<open>
  Whatever the command line of the image tool is, reading it ends, never writes past the
  table it has allocated for the input files, and when it succeeds there is an output file
  and at least one input, the whole table is filled, and block size and fill value are not
  zero.
\<close>

theorem process_args_ready:
  "\<exists>e st. process_args m piped argv = Inr (e, st) \<and>
     (e = ERROR_NONE \<and> \<not> show_help st \<and> \<not> show_version st \<longrightarrow> ready st)"
proof -
  have "args_ok piped (False, False, mkimage_start)"
    by (simp add: args_ok_def mkimage_start_def)
  from process_args_loop_ok [OF this] show ?thesis by (fastforce simp: process_args_def)
qed

lemma command_line_read:
  assumes "0 < bs" and "bs < 2 ^ 32" and "xs \<noteq> []"
    and xs: "\<forall>x\<in>set xs. int (snd x) < 2 ^ 63" "\<forall>x\<in>set xs. \<not> dashed (fst x)"
    and "\<not> dashed out"
    and "es = map (entry_of (of_nat bs)) xs @
      (if piped then [\<lparr>filename = STDIN_FILENAME, size = 0, offset = 0\<rparr>] else [])"
    and m: "m (length es * 24)"
  shows "process_args m piped ([''-b'', dec bs, ''-i''] @ map in_file_value xs @ [''-o'', out])
    = Inr (ERROR_NONE, mkimage_start\<lparr>block_size := of_nat bs, output_filename := Some out,
        input_files := Some (length es, es)\<rparr>)"
proof -
  let ?s1 = "mkimage_start\<lparr>block_size := of_nat bs\<rparr>"
  let ?es = "map (entry_of (of_nat bs)) xs"
  let ?s2 = "?s1\<lparr>input_files := Some (length es, ?es)\<rparr>"
  let ?r2 = "[''-o'', out]" let ?r1 = "''-i'' # map in_file_value xs @ ?r2"
  have n: "length es = (if piped then length xs + 1 else length xs)" using assms(7) by simp
  have 1: "process_arg m piped ''-b'' (dec bs # ?r1) (False, False, mkimage_start)
    = Inr (ERROR_NONE, ?r1, False, False, ?s1)"
    using assms(1,2) by (simp add: process_arg_def arg_defs take_number_def next_arg_value_def parse_number_dec)
  have "in_file_values (length xs) (map in_file_value xs @ ?r2) (?s1\<lparr>input_files := Some (length es, [])\<rparr>)
    = Inr (ERROR_NONE, ?r2, ?s2)"
    using in_file_values_read [OF xs(1), of "?s1\<lparr>input_files := Some (length es, [])\<rparr>" "length es" "[]" ?r2] n
    by simp
  moreover have "num_arg_values (map in_file_value xs @ ?r2) = length xs"
    using num_arg_values_read [OF xs(2), of ?r2] by (simp add: dashed_def)
  ultimately have 2: "process_arg m piped ''-i'' (map in_file_value xs @ ?r2) (False, False, ?s1)
    = Inr (ERROR_NONE, ?r2, True, False, ?s2)"
    using assms(3) m n by (cases piped) (simp_all add: process_arg_def arg_defs take_input_files_def Let_def)
  have 3: "process_arg m piped ''-o'' [out] (True, False, ?s2)
    = Inr (ERROR_NONE, [], True, True, ?s2\<lparr>output_filename := Some out\<rparr>)"
    using assms(6) by (simp add: process_arg_def arg_defs next_arg_value_def)
  have 4: "args_done m piped (True, True, ?s2\<lparr>output_filename := Some out\<rparr>)
    = Inr (ERROR_NONE, mkimage_start\<lparr>block_size := of_nat bs, output_filename := Some out,
        input_files := Some (length es, es)\<rparr>)"
    using assms(7) by (cases piped) (simp_all add: args_done_def add_stdin_def put_entry_def mkimage_start_def)
  have "\<not> is_matching_arg a help_arg \<and> \<not> is_matching_arg a version_arg" if "a \<in> {''-b'', ''-i'', ''-o''}" for a
    using that by (auto simp: arg_defs)
  then show ?thesis
    by (simp add: process_args_def process_args_loop.simps(2) 1 2 3 4 del: is_matching_arg.simps)
qed

text \<open>
  C21. A command line with a block size, input files with their block numbers and an output
  file, the numbers written in decimal (the block size from 1 to below 2^32, the block
  numbers below 2^63), at least one input, no file name beginning with a dash and memory for
  the table, is read back: the table has the files in order, each with the offset of its
  block as a 32-bit number, followed by the standard input at offset 0 if that is not a
  terminal.
\<close>

theorem command_line_roundtrip:
  assumes "0 < bs" and "bs < 2 ^ 32" and "xs \<noteq> []"
    and xs: "\<forall>x\<in>set xs. int (snd x) < 2 ^ 63" "\<forall>x\<in>set xs. \<not> dashed (fst x)"
    and "\<not> dashed out"
    and "es = map (entry_of (of_nat bs)) xs @
      (if piped then [\<lparr>filename = STDIN_FILENAME, size = 0, offset = 0\<rparr>] else [])"
    and m: "m (length es * 24)"
  shows "process_args m piped ([''-b'', dec bs, ''-i''] @ map in_file_value xs @ [''-o'', out])
    = Inr (ERROR_NONE, mkimage_start\<lparr>block_size := of_nat bs, output_filename := Some out,
        input_files := Some (length es, es)\<rparr>)"
  using assms by (rule command_line_read)

theorem command_line_roundtrip_witness:
  "process_args (\<lambda>k. k \<le> 72) True ([''-b'', dec 512, ''-i''] @ map in_file_value [(''a'', 3), (''b:c'', 0)]
     @ [''-o'', ''img''])
   = Inr (ERROR_NONE, mkimage_start\<lparr>block_size := 512, output_filename := Some ''img'',
       input_files := Some (3, [\<lparr>filename = ''a'', size = 0, offset = 1536\<rparr>,
                                \<lparr>filename = ''b:c'', size = 0, offset = 0\<rparr>,
                                \<lparr>filename = STDIN_FILENAME, size = 0, offset = 0\<rparr>])\<rparr>)"
  using command_line_roundtrip [of 512 "[(''a'', 3), (''b:c'', 0)]" "''img''" _ True "\<lambda>k. k \<le> 72"]
  by (simp add: dashed_def entry_of_def)

theorem process_args_ready_witness:
  "\<exists>st. process_args (\<lambda>_. True) True [''-o'', ''x''] = Inr (ERROR_NONE, st) \<and> ready st"
proof -
  obtain e st where p: "process_args (\<lambda>_. True) True [''-o'', ''x''] = Inr (e, st)"
    and r: "e = ERROR_NONE \<and> \<not> show_help st \<and> \<not> show_version st \<longrightarrow> ready st"
    using process_args_ready by blast
  have "process_args (\<lambda>_. True) True [''-o'', ''x''] = Inr (ERROR_NONE, mkimage_start\<lparr>
      output_filename := Some ''x'', input_files := Some (1, [\<lparr>filename = ''[STDIN]'', size = 0, offset = 0\<rparr>])\<rparr>)"
    by code_simp
  with p r show ?thesis by (auto simp: mkimage_start_def)
qed

end
