(* ===== verification/Mkimage.thy ===== *)
theory Mkimage
  imports Image_Args "HOL-Library.Multiset"
begin

text \<open>
  The data partition image tool: the input files in the order of their offsets, the gaps that
  are filled, the data that is copied, and what the output file holds in the end. The world is
  the standard input, the files that can be opened, the output medium and what malloc can give.
  An input file is not the output file.
\<close>

record in_file =
  data :: "byte list"
  seekable :: bool

record world =
  stdin_piped :: bool
  stdin_file :: in_file
  open_in :: "string \<Rightarrow> in_file option"
  open_update :: "string \<Rightarrow> byte list option"
  can_create :: "string \<Rightarrow> bool"
  medium :: nat
  can_truncate :: bool
  malloc_ok :: "nat \<Rightarrow> bool"

section \<open>Sorting\<close>

text \<open>The size stays where it is.\<close>

definition swap_entry :: "nat \<Rightarrow> nat \<Rightarrow> file_entry list \<Rightarrow> file_entry list" where
  "swap_entry a b es =
     es[a := (es ! a)\<lparr>filename := filename (es ! b), offset := offset (es ! b)\<rparr>,
        b := (es ! b)\<lparr>filename := filename (es ! a), offset := offset (es ! a)\<rparr>]"

fun min_entry :: "file_entry list \<Rightarrow> nat list \<Rightarrow> nat \<Rightarrow> nat" where
  "min_entry es [] min_index = min_index"
| "min_entry es (j # js) min_index =
     min_entry es js (if offset (es ! j) < offset (es ! min_index) then j else min_index)"

fun sort_from :: "nat list \<Rightarrow> file_entry list \<Rightarrow> file_entry list" where
  "sort_from [] es = es"
| "sort_from (i # is) es =
     (let min_index = min_entry es [i + 1..<length es] i
      in sort_from is (if i \<noteq> min_index then swap_entry i min_index es else es))"

definition sort_offset_ascending :: "file_entry list \<Rightarrow> file_entry list" where
  "sort_offset_ascending es = sort_from [0..<length es] es"

section \<open>Placing the inputs\<close>

definition file_size :: "in_file \<Rightarrow> int" where
  "file_size f = (if seekable f then int (length (data f)) else - 1)"

definition update_file_entry_size :: "in_file \<Rightarrow> file_entry \<Rightarrow> file_entry" where
  "update_file_entry_size f e = e\<lparr>size := file_size f\<rparr>"

text \<open>
  The variables of \<open>main\<close> between two files: the output, \<open>exit_code\<close>, \<open>out_filesize\<close> and
  \<open>last_write_offset\<close>, and whether stdin is still open.
\<close>

record run =
  out :: out_file
  exit_code :: error_code
  out_filesize :: u32
  last_write_offset :: u32
  stdin_open :: bool

definition open_input :: "world \<Rightarrow> run \<Rightarrow> string \<Rightarrow> in_file option res" where
  "open_input w r name =
     (if name = STDIN_FILENAME
      then if stdin_open r then Inr (Some (stdin_file w)) else Inl Bad_access
      else Inr (open_in w name))"

definition close_input :: "string \<Rightarrow> run \<Rightarrow> run" where
  "close_input name r = (if name = STDIN_FILENAME then r\<lparr>stdin_open := False\<rparr> else r)"

text \<open>Moving to the offset of an entry, with a gap filled; \<open>None\<close> is the empty input that is skipped.\<close>

definition seek_entry ::
  "world \<Rightarrow> mkimage \<Rightarrow> bool \<Rightarrow> file_entry \<Rightarrow> in_file \<Rightarrow> run \<Rightarrow> run option option" where
  "seek_entry w st first e f r =
     (if offset e \<le> out_filesize r
      then if first \<or> last_write_offset r \<le> offset e
           then Some (Some (r\<lparr>out := fseek (unat (offset e)) (out r)\<rparr>))
           else if size e = 0 \<or> (size e < 0 \<and> data f = [])
           then Some None
           else Some (Some (r\<lparr>exit_code := ERROR_OVERLAPPING_INPUT_DATA\<rparr>))
      else map_option (\<lambda>(x, o'). Some (r\<lparr>exit_code := x, out := o'\<rparr>))
             (fill_data (malloc_ok w) (block_size st) (fill_value st)
                (unat (offset e - out_filesize r)) (out r)))"

definition copy_entry :: "world \<Rightarrow> mkimage \<Rightarrow> file_entry \<Rightarrow> in_file \<Rightarrow> run \<Rightarrow> run option" where
  "copy_entry w st e f r =
     (if size e \<noteq> 0 \<and> exit_code r = ERROR_NONE
      then map_option (\<lambda>(x, o'). r\<lparr>exit_code := x, out := o'\<rparr>)
             (copy_data (malloc_ok w) (block_size st) (data f) (out r))
      else Some r)"

definition note_end :: "run \<Rightarrow> run" where
  "note_end r =
     (let r1 = r\<lparr>last_write_offset := of_nat (fpos (out r)), out := fseek_end (out r)\<rparr>
      in r1\<lparr>out_filesize := of_nat (fpos (out r1))\<rparr>)"

text \<open>The loop over the files; the flag is whether this is the first one.\<close>

fun place_files :: "world \<Rightarrow> mkimage \<Rightarrow> bool \<Rightarrow> file_entry list \<Rightarrow> run \<Rightarrow> run res option" where
  "place_files w st first [] r = Some (Inr r)"
| "place_files w st first (e # es) r =
     lbind (Some (open_input w r (filename e))) (\<lambda>in_file.
       case in_file of
         None \<Rightarrow> Some (Inr (r\<lparr>exit_code := ERROR_FILE_SYSTEM\<rparr>))
       | Some f \<Rightarrow>
           let e' = update_file_entry_size f e in
           (case seek_entry w st first e' f r of
              None \<Rightarrow> None
            | Some None \<Rightarrow> place_files w st False es (close_input (filename e) r)
            | Some (Some r1) \<Rightarrow>
                (case copy_entry w st e' f r1 of
                   None \<Rightarrow> None
                 | Some r2 \<Rightarrow>
                     let r3 = note_end (close_input (filename e) r2) in
                     if exit_code r3 = ERROR_OUT_OF_RESOURCES \<or> exit_code r3 = ERROR_OVERLAPPING_INPUT_DATA
                     then Some (Inr r3)
                     else place_files w st False es r3)))"

text \<open>
  Truncation to the end of the last write. The result of \<open>main\<close> is its exit code and the content
  of the output file, if it was opened.
\<close>

definition finish_image :: "world \<Rightarrow> mkimage \<Rightarrow> run \<Rightarrow> error_code \<times> byte list option" where
  "finish_image w st r =
     (if truncate_out_file st \<and> exit_code r = ERROR_NONE
      then if can_truncate w
           then (exit_code r, Some (take (unat (last_write_offset r)) (content (out r))))
           else (ERROR_FILE_SYSTEM, Some (content (out r)))
      else (exit_code r, Some (content (out r))))"

definition open_output :: "world \<Rightarrow> string \<Rightarrow> byte list option" where
  "open_output w name =
     (case open_update w name of
        Some bs \<Rightarrow> Some bs
      | None \<Rightarrow> if can_create w name then Some [] else None)"

definition make_image :: "world \<Rightarrow> mkimage \<Rightarrow> (error_code \<times> byte list option) res option" where
  "make_image w st =
     (case (output_filename st, input_files st) of
        (Some name, Some (_, es)) \<Rightarrow>
          (case open_output w name of
             None \<Rightarrow> Some (Inr (ERROR_FILE_SYSTEM, None))
           | Some old \<Rightarrow>
               let f = fseek_end \<lparr>content = old, fpos = 0, room = medium w\<rparr> in
               lbind (place_files w st True (sort_offset_ascending es)
                        \<lparr>out = f, exit_code = ERROR_NONE, out_filesize = of_nat (fpos f),
                         last_write_offset = 0, stdin_open = True\<rparr>)
                 (\<lambda>r. Some (Inr (finish_image w st r))))
      | _ \<Rightarrow> Some (Inl Bad_access))"

definition main :: "world \<Rightarrow> string list \<Rightarrow> (error_code \<times> byte list option) res option" where
  "main w argv =
     lbind (Some (process_args (malloc_ok w) (stdin_piped w) argv)) (\<lambda>(exit_code, st).
       if show_version st \<or> show_help st \<or> exit_code \<noteq> ERROR_NONE then Some (Inr (exit_code, None))
       else make_image w st)"

section \<open>The sort\<close>

definition key :: "file_entry \<Rightarrow> string \<times> u32" where
  "key e = (filename e, offset e)"

lemma key_swap:
  assumes "a < length es" and "b < length es"
  shows "map key (swap_entry a b es) = (map key es)[a := key (es ! b), b := key (es ! a)]"
  using assms by (simp add: swap_entry_def map_update key_def)

lemma length_swap_entry [simp]: "length (swap_entry a b es) = length es"
  by (simp add: swap_entry_def)

lemma mset_swap_entry:
  assumes "a < length es" and "b < length es"
  shows "mset (map key (swap_entry a b es)) = mset (map key es)"
  using mset_swap [of b "map key es" a] assms by (simp add: key_swap del: mset_map)

lemma offset_swap:
  assumes "a < length es" and "b < length es" and "k < length es"
  shows "offset (swap_entry a b es ! k)
    = offset (es ! (if k = b then a else if k = a then b else k))"
  using assms by (simp add: swap_entry_def nth_list_update)

lemma min_entry_in: "min_entry es js m = m \<or> min_entry es js m \<in> set js"
  by (induction js arbitrary: m) (auto split: if_splits)

lemma min_entry_le:
  "k = m \<or> k \<in> set js \<Longrightarrow> offset (es ! min_entry es js m) \<le> offset (es ! k)"
proof (induction js arbitrary: m k)
  case (Cons j js)
  let ?m = "if offset (es ! j) < offset (es ! m) then j else m"
  have "offset (es ! min_entry es js ?m) \<le> offset (es ! ?m)"
    using Cons.IH [of ?m ?m] by simp
  moreover have "offset (es ! ?m) \<le> offset (es ! m)" "offset (es ! ?m) \<le> offset (es ! j)"
    by auto
  ultimately show ?case
    using Cons.IH [of k ?m] Cons.prems by (auto intro: order_trans)
qed simp

lemma sort_from_mset:
  "set is \<subseteq> {..<length es} \<Longrightarrow>
     mset (map key (sort_from is es)) = mset (map key es) \<and> length (sort_from is es) = length es"
proof (induction "is" es rule: sort_from.induct)
  case (2 i "is" es)
  let ?m = "min_entry es [i + 1..<length es] i"
  have m: "?m < length es" using min_entry_in [of es "[i + 1..<length es]" i] 2(2) by auto
  show ?case
  proof (cases "i = ?m")
    case True
    with 2 show ?thesis by simp
  next
    case False
    with 2 m show ?thesis by (simp add: mset_swap_entry del: mset_map)
  qed
qed simp

text \<open>Before index \<open>i\<close> the entries are in place.\<close>

definition placed :: "file_entry list \<Rightarrow> nat \<Rightarrow> bool" where
  "placed es i \<longleftrightarrow> (\<forall>a b. a < b \<longrightarrow> a < i \<longrightarrow> b < length es \<longrightarrow> offset (es ! a) \<le> offset (es ! b))"

lemma sort_step_placed:
  assumes "placed es i" and i: "i < length es"
  defines "m \<equiv> min_entry es [i + 1..<length es] i"
  shows "placed (if i \<noteq> m then swap_entry i m es else es) (Suc i)"
proof -
  have m: "i \<le> m" "m < length es"
    using min_entry_in [of es "[i + 1..<length es]" i] i by (auto simp: m_def)
  have le: "offset (es ! m) \<le> offset (es ! k)" if "i \<le> k" "k < length es" for k
    unfolding m_def by (rule min_entry_le) (use that in auto)
  let ?es = "if i \<noteq> m then swap_entry i m es else es"
  have "offset (?es ! a) \<le> offset (?es ! b)" if "a < b" "a < Suc i" "b < length es" for a b
  proof (cases "a < i")
    case True
    with assms(1) m that show ?thesis by (auto simp: offset_swap [OF i m(2)] placed_def)
  next
    case False
    then have "a = i" using that by simp
    with le [of b] le [of i] m that show ?thesis
      by (auto simp: offset_swap [OF i m(2)])
  qed
  then show ?thesis by (auto simp: placed_def)
qed

lemma sort_from_placed:
  "i \<le> length es \<Longrightarrow> placed es i \<Longrightarrow> placed (sort_from [i..<length es] es) (length es)"
proof (induction "length es - i" arbitrary: i es)
  case (Suc n)
  then have i: "i < length es" and up: "[i..<length es] = i # [Suc i..<length es]"
    by (auto simp: upt_conv_Cons)
  let ?m = "min_entry es [i + 1..<length es] i"
  let ?es = "if i \<noteq> ?m then swap_entry i ?m es else es"
  have "placed (sort_from [Suc i..<length ?es] ?es) (length ?es)"
    using Suc(2) i sort_step_placed [OF Suc(4) i] by (intro Suc.hyps(1)) auto
  then show ?case unfolding up by (simp add: Let_def split: if_splits)
qed auto

lemma sort_offset_ascending_ok:
  "mset (map key (sort_offset_ascending es)) = mset (map key es)"
  "sorted (map offset (sort_offset_ascending es))"
proof -
  have "set [0..<length es] \<subseteq> {..<length es}" by auto
  note m = sort_from_mset [OF this, folded sort_offset_ascending_def]
  then have l: "length (sort_offset_ascending es) = length es" ..
  show "mset (map key (sort_offset_ascending es)) = mset (map key es)" using m ..
  have "placed (sort_offset_ascending es) (length es)"
    using sort_from_placed [of 0 es] by (simp add: sort_offset_ascending_def placed_def)
  with l show "sorted (map offset (sort_offset_ascending es))"
    by (auto simp: sorted_iff_nth_mono_less placed_def)
qed

section \<open>The image\<close>

text \<open>
  An input is the byte it starts at and its bytes. In the image a byte is that of the input which
  covers it, or else that of the file as it was, or else the fill value.
\<close>

type_synonym input = "nat \<times> byte list"

definition covers :: "nat \<Rightarrow> input \<Rightarrow> bool" where
  "covers p i \<longleftrightarrow> fst i \<le> p \<and> p < fst i + length (snd i)"

definition image_end :: "input list \<Rightarrow> nat" where
  "image_end ins = fold (\<lambda>i. max (fst i + length (snd i))) ins 0"

definition image_byte :: "byte \<Rightarrow> byte list \<Rightarrow> input list \<Rightarrow> nat \<Rightarrow> byte" where
  "image_byte fill old ins p =
     (case find (covers p) ins of
        Some (off, bs) \<Rightarrow> bs ! (p - off)
      | None \<Rightarrow> if p < length old then old ! p else fill)"

definition image :: "byte \<Rightarrow> byte list \<Rightarrow> input list \<Rightarrow> byte list" where
  "image fill old ins = map (image_byte fill old ins) [0..<max (length old) (image_end ins)]"

text \<open>No two inputs have a byte at the same place.\<close>

definition apart :: "input \<Rightarrow> input \<Rightarrow> bool" where
  "apart a b \<longleftrightarrow> snd a = [] \<or> snd b = [] \<or> fst a + length (snd a) \<le> fst b \<or> fst b + length (snd b) \<le> fst a"

definition disjoint_inputs :: "input list \<Rightarrow> bool" where
  "disjoint_inputs ins \<longleftrightarrow> sorted_wrt apart ins"

lemma image_end_append: "image_end (ins @ [i]) = max (image_end ins) (fst i + length (snd i))"
  by (simp add: image_end_def max.commute)

lemma image_end_ge: "i \<in> set ins \<Longrightarrow> fst i + length (snd i) \<le> image_end ins"
  by (induction ins rule: rev_induct) (auto simp: image_end_append le_max_iff_disj)

lemma covers_end: "covers p i \<Longrightarrow> i \<in> set ins \<Longrightarrow> p < image_end ins"
  using image_end_ge [of i ins] by (simp add: covers_def)

lemma length_image [simp]: "length (image fill old ins) = max (length old) (image_end ins)"
  by (simp add: image_def)

lemma nth_image:
  "p < max (length old) (image_end ins) \<Longrightarrow> image fill old ins ! p = image_byte fill old ins p"
  by (simp add: image_def)

lemma find_append:
  "find P (xs @ ys) = (case find P xs of Some x \<Rightarrow> Some x | None \<Rightarrow> find P ys)"
  by (induction xs) auto

text \<open>One more input, at or after the end of all inputs so far: how the tool works.\<close>

definition overlay :: "byte \<Rightarrow> byte list \<Rightarrow> input \<Rightarrow> byte list" where
  "overlay fill old i =
     (if fst i \<le> length old then put_at old (fst i) (snd i)
      else old @ replicate (fst i - length old) fill @ snd i)"

lemma image_append:
  assumes "image_end ins \<le> fst i \<or> snd i = []"
  shows "image fill old (ins @ [i]) = overlay fill (image fill old ins) i"
proof (rule nth_equalityI)
  obtain off bs where i: "i = (off, bs)" by fastforce
  let ?n = "max (length old) (image_end ins)"
  show len: "length (image fill old (ins @ [i])) = length (overlay fill (image fill old ins) i)"
    by (auto simp: overlay_def image_end_append length_put_at_grow)
  fix p
  assume "p < length (image fill old (ins @ [i]))"
  then have p: "p < max ?n (off + length bs)" by (simp add: image_end_append i)
  have none: "find (covers p) ins = None" if "image_end ins \<le> p"
    using that covers_end [of p _ ins] by (fastforce simp: find_None_iff)
  show "image fill old (ins @ [i]) ! p = overlay fill (image fill old ins) i ! p"
  proof (cases "covers p i")
    case True
    then have c: "off \<le> p" "p < off + length bs" "find (covers p) ins = None"
      using assms none by (auto simp: covers_def i)
    have "image fill old (ins @ [i]) ! p = bs ! (p - off)"
      using c p by (simp add: nth_image image_end_append i image_byte_def find_append covers_def)
    moreover have "overlay fill (image fill old ins) i ! p = bs ! (p - off)"
    proof (cases "off \<le> ?n")
      case True
      moreover have "p - off < length bs" using c by linarith
      ultimately show ?thesis
        using c by (simp add: overlay_def i put_at_def nth_append min_absorb2)
    next
      case False
      moreover have "\<not> p < ?n" "\<not> p - ?n < off - ?n" "?n + (off - ?n) = off"
        using c False by linarith+
      ultimately show ?thesis by (simp add: overlay_def i nth_append)
    qed
    ultimately show ?thesis by simp
  next
    case False
    then have out: "p < off \<or> off + length bs \<le> p" by (auto simp: covers_def i)
    have l: "image fill old (ins @ [i]) ! p = image_byte fill old ins p"
      using p False by (simp add: nth_image image_end_append i image_byte_def find_append split: option.split)
    show ?thesis
    proof (cases "p < ?n")
      case True
      then show ?thesis
        unfolding l using out by (auto simp: overlay_def i put_at_def nth_append nth_image min_def)
    next
      case False
      then have "image_byte fill old ins p = fill" using none by (auto simp: image_byte_def less_max_iff_disj)
      with False l p out show ?thesis by (auto simp: overlay_def i nth_append)
    qed
  qed
qed

text \<open>The order of the inputs does not matter.\<close>

lemma sorted_wrt_mset:
  assumes "symp R"
  shows "sorted_wrt R xs \<longleftrightarrow> (\<forall>x\<in>#mset xs. \<forall>y\<in>#mset xs - {#x#}. R x y)"
proof (induction xs)
  case (Cons a xs)
  have "(\<forall>x\<in>#mset (a # xs). \<forall>y\<in>#mset (a # xs) - {#x#}. R x y)
      \<longleftrightarrow> (\<forall>y\<in>#mset xs. R a y) \<and> (\<forall>x\<in>#mset xs. \<forall>y\<in>#mset xs - {#x#}. R x y)"
  proof -
    have "mset (a # xs) - {#x#} = add_mset a (mset xs - {#x#})" if "x \<in># mset xs" for x
      using that by (simp add: add_mset_diff_bothsides)
    then show ?thesis
      using assms by (auto simp: symp_def)
  qed
  with Cons show ?case by simp
qed simp

lemma disjoint_inputs_mset: "mset xs = mset ys \<Longrightarrow> disjoint_inputs xs = disjoint_inputs ys"
proof -
  have "symp apart" by (auto simp: symp_def apart_def)
  then show "mset xs = mset ys \<Longrightarrow> disjoint_inputs xs = disjoint_inputs ys"
    by (simp add: disjoint_inputs_def sorted_wrt_mset)
qed

lemma apart_covers: "apart a b \<Longrightarrow> covers p a \<Longrightarrow> covers p b \<Longrightarrow> False"
  by (auto simp: apart_def covers_def)

lemma find_covers:
  assumes "disjoint_inputs ins" and "i \<in> set ins" and "covers p i"
  shows "find (covers p) ins = Some i"
  using assms
  by (induction ins) (auto simp: disjoint_inputs_def dest: apart_covers)

lemma image_mset:
  assumes "mset xs = mset ys" and d: "disjoint_inputs xs"
  shows "image fill old xs = image fill old ys" and "image_end xs = image_end ys"
proof -
  have set: "set xs = set ys" using assms(1) by (rule mset_eq_setD)
  have e: "image_end xs = image_end ys" if "set xs = set ys" for xs ys
  proof -
    have "image_end zs = Max (insert 0 ((\<lambda>i. fst i + length (snd i)) ` set zs))" for zs
      by (induction zs rule: rev_induct) (auto simp: image_end_append image_end_def max.commute Max_insert2 insert_commute simp flip: Max_insert)
    with that show ?thesis by simp
  qed
  from e [OF set] show "image_end xs = image_end ys" .
  have "find (covers p) xs = find (covers p) ys" for p
  proof (cases "\<exists>i\<in>set xs. covers p i")
    case True
    with set find_covers d disjoint_inputs_mset [OF assms(1)] show ?thesis by metis
  next
    case False
    with set show ?thesis by (metis find_None_iff)
  qed
  with e [OF set] show "image fill old xs = image fill old ys"
    by (simp add: image_def image_byte_def)
qed

section \<open>What the tool writes\<close>

definition input_of :: "world \<Rightarrow> string \<Rightarrow> in_file option" where
  "input_of w name = (if name = STDIN_FILENAME then Some (stdin_file w) else open_in w name)"

definition input :: "world \<Rightarrow> file_entry \<Rightarrow> input" where
  "input w e = (unat (offset e), data (the (input_of w (filename e))))"

text \<open>Between two files: the output so far, its position at its end, and the end of the last write.\<close>

definition at_image :: "run \<Rightarrow> byte list \<Rightarrow> nat \<Rightarrow> bool" where
  "at_image r img L \<longleftrightarrow>
     content (out r) = img \<and> fpos (out r) = length img \<and> exit_code r = ERROR_NONE \<and>
     out_filesize r = of_nat (length img) \<and> last_write_offset r = of_nat L \<and>
     L \<le> length img \<and> length img < 2 ^ 32 \<and> length img \<le> room (out r)"

lemma of_nat_le_u32:
  "n < 2 ^ 32 \<Longrightarrow> (w :: u32) \<le> of_nat n \<longleftrightarrow> unat w \<le> n"
  "n < 2 ^ 32 \<Longrightarrow> of_nat n \<le> (w :: u32) \<longleftrightarrow> n \<le> unat w"
  by (simp_all add: word_le_nat_alt unat_of_nat take_bit_nat_eq_self)

text \<open>An input at or after the end of the last write is put in its place.\<close>

lemma place_apart:
  fixes e :: file_entry and f :: in_file
  defines "off \<equiv> unat (offset e)" and "e' \<equiv> update_file_entry_size f e"
  assumes r: "at_image r img L" and b: "block_size st \<noteq> 0" and m: "\<And>k. malloc_ok w k"
    and fits: "off + length (data f) < 2 ^ 32" "off + length (data f) \<le> room (out r)"
    and L: "L \<le> off"
  shows "\<exists>r1 r2. seek_entry w st first e' f r = Some (Some r1) \<and> copy_entry w st e' f r1 = Some r2
    \<and> exit_code r2 = ERROR_NONE \<and> content (out r2) = overlay (fill_value st) img (off, data f)
    \<and> fpos (out r2) = off + length (data f) \<and> room (out r2) = room (out r)
    \<and> stdin_open r2 = stdin_open r"
proof -
  note r = r [unfolded at_image_def]
  have o: "offset e' = offset e" and bs: "0 < unat (block_size st)"
    using b by (simp_all add: e'_def update_file_entry_size_def unat_gt_0)
  have le: "offset e \<le> out_filesize r \<longleftrightarrow> off \<le> length img"
    using r by (simp add: off_def of_nat_le_u32)
  obtain o1 where s: "seek_entry w st first e' f r = Some (Some (r\<lparr>out := o1\<rparr>))"
    and o1: "file_ok o1" "fpos o1 = off" "room o1 = room (out r)"
      "content (written (data f) o1) = overlay (fill_value st) img (off, data f)"
  proof (cases "off \<le> length img")
    case True
    let ?o = "fseek off (out r)"
    have "seek_entry w st first e' f r = Some (Some (r\<lparr>out := ?o\<rparr>))"
      using True le o r L by (auto simp: seek_entry_def off_def of_nat_le_u32)
    then show thesis
      using True r by (intro that [of ?o]) (auto simp: fseek_def file_ok_def overlay_def)
  next
    case False
    let ?n = "off - length img"
    let ?o = "written (replicate ?n (fill_value st)) (out r)"
    have n: "unat (offset e - out_filesize r) = ?n"
      using False r le by (subst unat_sub) (auto simp: off_def unat_of_nat take_bit_nat_eq_self)
    have "fill_data (malloc_ok w) (block_size st) (fill_value st) ?n (out r) = Some (ERROR_NONE, ?o)"
      using False r m bs fits
      by (auto simp: fill_data_def fill_loop_room file_ok_def Let_def)
    then have "seek_entry w st first e' f r = Some (Some (r\<lparr>exit_code := ERROR_NONE, out := ?o\<rparr>))"
      using False le o n by (simp add: seek_entry_def)
    moreover have "r\<lparr>exit_code := ERROR_NONE, out := ?o\<rparr> = r\<lparr>out := ?o\<rparr>"
      using r by simp
    ultimately show thesis
      using False r put_at_end [of "content (out r) @ replicate ?n (fill_value st)" "data f"]
      by (intro that [of ?o]) (auto simp: file_ok_def overlay_def)
  qed
  let ?o2 = "written (data f) o1"
  have "copy_entry w st e' f (r\<lparr>out := o1\<rparr>) = Some (r\<lparr>out := ?o2\<rparr>)"
  proof (cases "data f = [] \<and> seekable f")
    case True
    then show ?thesis by (simp add: copy_entry_def e'_def update_file_entry_size_def file_size_def)
  next
    case False
    have "copy_data (malloc_ok w) (block_size st) (data f) o1 = Some (ERROR_NONE, ?o2)"
      using m bs o1 fits copy_loop_room [of o1 "data f" "unat (block_size st)"]
      by (simp add: copy_data_def)
    moreover have "r\<lparr>exit_code := ERROR_NONE, out := ?o2\<rparr> = r\<lparr>out := ?o2\<rparr>" using r by simp
    ultimately show ?thesis
      using False r by (auto simp: copy_entry_def e'_def update_file_entry_size_def file_size_def)
  qed
  with s o1 r show ?thesis by auto
qed

text \<open>An input before the end of the last write is skipped if it is empty, else it is an error.\<close>

lemma place_clash:
  fixes e :: file_entry and f :: in_file
  defines "e' \<equiv> update_file_entry_size f e"
  assumes r: "at_image r img L" and "first \<longrightarrow> L = 0" and L: "unat (offset e) < L"
  shows "seek_entry w st first e' f r
    = (if data f = [] then Some None else Some (Some (r\<lparr>exit_code := ERROR_OVERLAPPING_INPUT_DATA\<rparr>)))"
proof -
  have "offset e \<le> out_filesize r" "\<not> last_write_offset r \<le> offset e" "\<not> first"
    using r assms(3) L by (auto simp: at_image_def of_nat_le_u32)
  then show ?thesis
    by (auto simp: seek_entry_def e'_def update_file_entry_size_def file_size_def)
qed

lemma clash_iff:
  assumes "\<forall>i\<in>set ins. fst i \<le> off"
  shows "(\<forall>i\<in>set ins. apart i (off, bs)) \<longleftrightarrow> bs = [] \<or> image_end ins \<le> off"
proof
  assume a: "\<forall>i\<in>set ins. apart i (off, bs)"
  have "image_end ins \<le> off" if "bs \<noteq> []"
  proof -
    have "fst i + length (snd i) \<le> off" if "i \<in> set ins" for i
    proof -
      have "apart i (off, bs)" "fst i \<le> off" "0 < length bs" using a assms that \<open>bs \<noteq> []\<close> by auto
      then show ?thesis by (auto simp: apart_def)
    qed
    then show ?thesis by (induction ins rule: rev_induct) (auto simp: image_end_append image_end_def)
  qed
  then show "bs = [] \<or> image_end ins \<le> off" by blast
next
  assume "bs = [] \<or> image_end ins \<le> off"
  then show "\<forall>i\<in>set ins. apart i (off, bs)"
    using image_end_ge by (fastforce simp: apart_def)
qed

definition stdin_left :: "run \<Rightarrow> file_entry list \<Rightarrow> bool" where
  "stdin_left r es \<longleftrightarrow> length (filter (\<lambda>e. filename e = STDIN_FILENAME) es) \<le> (if stdin_open r then 1 else 0)"

lemma open_input_ok:
  assumes "stdin_left r (e # es)"
  shows "open_input w r (filename e) = Inr (input_of w (filename e))"
    and "stdin_open r' = stdin_open r \<Longrightarrow> stdin_left (close_input (filename e) r') es"
  using assms by (auto simp: stdin_left_def open_input_def input_of_def close_input_def split: if_splits)

lemma close_input_simps [simp]:
  "out (close_input n r) = out r" "exit_code (close_input n r) = exit_code r"
  "out_filesize (close_input n r) = out_filesize r"
  "last_write_offset (close_input n r) = last_write_offset r"
  "at_image (close_input n r) img L = at_image r img L"
  by (simp_all add: close_input_def at_image_def)

lemma stdin_left_note_end [simp]: "stdin_left (note_end r) es = stdin_left r es"
  by (simp add: stdin_left_def note_end_def Let_def)

lemma note_end_at_image:
  assumes "exit_code r = ERROR_NONE" and "content (out r) = img" and "fpos (out r) = L"
    and "L \<le> length img" "length img < 2 ^ 32" "length img \<le> room (out r)"
  shows "at_image (note_end r) img L" and "room (out (note_end r)) = room (out r)"
  using assms by (simp_all add: at_image_def note_end_def fseek_end_def Let_def)

lemma place_files_image:
  assumes "at_image r (image (fill_value st) old ins) (image_end ins)"
    and "first \<longrightarrow> ins = []" and "disjoint_inputs ins"
    and "\<forall>i\<in>set ins. \<forall>e\<in>set es. fst i \<le> unat (offset e)" and "sorted (map offset es)"
    and b: "block_size st \<noteq> 0" and m: "\<And>k. malloc_ok w k"
    and "\<forall>e\<in>set es. input_of w (filename e) \<noteq> None" and "stdin_left r es"
    and "\<forall>e\<in>set es. image_end [input w e] < 2 ^ 32 \<and> image_end [input w e] \<le> room (out r)"
  shows "\<exists>r'. place_files w st first es r = Some (Inr r')
    \<and> (if disjoint_inputs (ins @ map (input w) es)
       then at_image r' (image (fill_value st) old (ins @ map (input w) es))
              (image_end (ins @ map (input w) es))
       else exit_code r' = ERROR_OVERLAPPING_INPUT_DATA)"
  using assms(1-5,8-)
proof (induction es arbitrary: first r ins)
  case Nil
  then show ?case by simp
next
  case (Cons e es)
  let ?img = "image (fill_value st) old ins" and ?L = "image_end ins"
  let ?off = "unat (offset e)" and ?i = "input w e"
  obtain f where f: "input_of w (filename e) = Some f" using Cons.prems by auto
  then have i: "?i = (?off, data f)" by (simp add: input_def)
  let ?e = "update_file_entry_size f e"
  note op = open_input_ok [OF Cons.prems(7)]
  have fits: "?off + length (data f) < 2 ^ 32" "?off + length (data f) \<le> room (out r)"
    using Cons.prems(8) by (auto simp: i image_end_def)
  have apart: "disjoint_inputs (ins @ [?i]) \<longleftrightarrow> data f = [] \<or> ?L \<le> ?off"
    using clash_iff [of ins ?off "data f"] Cons.prems(3,4)
    by (auto simp: disjoint_inputs_def sorted_wrt_append i)
  have snoc: "ins @ map (input w) (e # es) = (ins @ [?i]) @ map (input w) es" by simp
  have rest: "\<forall>j\<in>set (ins @ [?i]). \<forall>x\<in>set es. fst j \<le> unat (offset x)"
    using Cons.prems(4,5) by (auto simp: i word_le_nat_alt)
  have prefix: "disjoint_inputs (ins @ [?i]) = False \<Longrightarrow> \<not> disjoint_inputs (ins @ map (input w) (e # es))"
    unfolding snoc by (auto simp: disjoint_inputs_def sorted_wrt_append)
  consider (place) "?L \<le> ?off" | (skip) "?off < ?L" "data f = []" | (clash) "?off < ?L" "data f \<noteq> []"
    by fastforce
  then show ?case
  proof cases
    case place
    then have img: "image (fill_value st) old (ins @ [?i]) = overlay (fill_value st) ?img (?off, data f)"
        "image_end (ins @ [?i]) = ?off + length (data f)"
      by (simp_all add: image_append i image_end_append)
    obtain r1 r2 where s: "seek_entry w st first ?e f r = Some (Some r1)" "copy_entry w st ?e f r1 = Some r2"
      and r2: "exit_code r2 = ERROR_NONE" "content (out r2) = overlay (fill_value st) ?img (?off, data f)"
        "fpos (out r2) = ?off + length (data f)" "room (out r2) = room (out r)" "stdin_open r2 = stdin_open r"
      using place_apart [OF Cons.prems(1) b m fits place] by blast
    let ?r = "note_end (close_input (filename e) r2)"
    have r3: "at_image ?r (image (fill_value st) old (ins @ [?i])) (image_end (ins @ [?i]))"
      "room (out ?r) = room (out r)"
    proof -
      let ?c = "close_input (filename e) r2"
      have c: "content (out ?c) = image (fill_value st) old (ins @ [?i])"
        "fpos (out ?c) = image_end (ins @ [?i])" "exit_code ?c = ERROR_NONE"
        using r2 img by simp_all
      have l: "length old < 2 ^ 32" "length old \<le> room (out r)"
        using Cons.prems(1) by (simp_all add: at_image_def)
      have "image_end (ins @ [?i]) \<le> length (image (fill_value st) old (ins @ [?i]))"
        "length (image (fill_value st) old (ins @ [?i])) < 2 ^ 32"
        "length (image (fill_value st) old (ins @ [?i])) \<le> room (out ?c)"
        unfolding length_image img(2) using l fits r2(4) by simp_all
      from note_end_at_image [OF c(3,1,2) this]
      show "at_image ?r (image (fill_value st) old (ins @ [?i])) (image_end (ins @ [?i]))"
        "room (out ?r) = room (out r)"
        using r2(4) by simp_all
    qed
    have "\<exists>r'. place_files w st False es ?r = Some (Inr r')
      \<and> (if disjoint_inputs ((ins @ [?i]) @ map (input w) es)
         then at_image r' (image (fill_value st) old ((ins @ [?i]) @ map (input w) es))
              (image_end ((ins @ [?i]) @ map (input w) es))
         else exit_code r' = ERROR_OVERLAPPING_INPUT_DATA)"
      using Cons.prems op(2) [OF r2(5)] apart place rest r3
      by (intro Cons.IH) auto
    moreover have "exit_code ?r = ERROR_NONE" using r3 by (simp add: at_image_def)
    ultimately show ?thesis
      unfolding snoc using op(1) f s by (simp add: Let_def)
  next
    case skip
    then have "image (fill_value st) old (ins @ [?i]) = ?img" "image_end (ins @ [?i]) = ?L"
      using Cons.prems(1) by (auto simp: image_append i image_end_append overlay_def at_image_def)
    moreover have "\<exists>r'. place_files w st False es (close_input (filename e) r) = Some (Inr r')
      \<and> (if disjoint_inputs ((ins @ [?i]) @ map (input w) es)
         then at_image r' (image (fill_value st) old ((ins @ [?i]) @ map (input w) es))
              (image_end ((ins @ [?i]) @ map (input w) es))
         else exit_code r' = ERROR_OVERLAPPING_INPUT_DATA)"
      using Cons.prems op(2) [OF refl] apart skip rest calculation
      by (intro Cons.IH) auto
    moreover have "seek_entry w st first ?e f r = Some None"
      using place_clash [OF Cons.prems(1) _ skip(1)] skip(2) Cons.prems(2) by (simp add: image_end_def)
    ultimately show ?thesis
      unfolding snoc using op(1) f by (simp add: Let_def)
  next
    case clash
    let ?r = "r\<lparr>exit_code := ERROR_OVERLAPPING_INPUT_DATA\<rparr>"
    have s: "seek_entry w st first ?e f r = Some (Some ?r)"
      using place_clash [OF Cons.prems(1) _ clash(1)] clash(2) Cons.prems(2) by (simp add: image_end_def)
    have c: "copy_entry w st ?e f ?r = Some ?r" by (simp add: copy_entry_def)
    have x: "exit_code (note_end (close_input (filename e) ?r)) = ERROR_OVERLAPPING_INPUT_DATA"
      by (simp add: note_end_def Let_def)
    have "place_files w st first (e # es) r = Some (Inr (note_end (close_input (filename e) ?r)))"
      using op(1) f s c x by (simp add: Let_def)
    with prefix apart clash x show ?thesis by auto
  qed
qed

lemma input_key: "key e = key e' \<Longrightarrow> input w e = input w e'"
  by (simp add: key_def input_def)

lemma mset_inputs: "mset (map (input w) (sort_offset_ascending es)) = mset (map (input w) es)"
proof -
  define g where "g = (\<lambda>(n, off :: u32). (unat off, data (the (input_of w n))))"
  have i: "input w = g \<circ> key" by (auto simp: g_def key_def input_def)
  have "mset (map (input w) xs) = image_mset g (mset (map key xs))" for xs
    unfolding i by (simp add: multiset.map_comp)
  then show ?thesis by (simp only: sort_offset_ascending_ok(1))
qed

lemma keys_sorted:
  "set (map key (sort_offset_ascending es)) = set (map key es)"
  "length (filter (\<lambda>e. filename e = s) (sort_offset_ascending es)) = length (filter (\<lambda>e. filename e = s) es)"
proof -
  note m = sort_offset_ascending_ok(1) [of es]
  show "set (map key (sort_offset_ascending es)) = set (map key es)"
    by (rule mset_eq_setD [OF m])
  have "length (filter (\<lambda>e. filename e = s) xs) = size_class.size (filter_mset (\<lambda>k. fst k = s) (mset (map key xs)))" for xs
    by (induction xs) (auto simp: key_def)
  then show "length (filter (\<lambda>e. filename e = s) (sort_offset_ascending es)) = length (filter (\<lambda>e. filename e = s) es)"
    by (simp only: m)
qed

text \<open>
  What is asked of the world for a set of inputs: they can be opened, the standard input is
  among them at most once, everything ends below 4 GiB and fits the medium, which can truncate.
\<close>

definition world_ok :: "world \<Rightarrow> byte list \<Rightarrow> file_entry list \<Rightarrow> bool" where
  "world_ok w old es \<longleftrightarrow>
     (\<forall>e\<in>set es. input_of w (filename e) \<noteq> None) \<and>
     length (filter (\<lambda>e. filename e = STDIN_FILENAME) es) \<le> 1 \<and>
     max (length old) (image_end (map (input w) es)) < 2 ^ 32 \<and>
     max (length old) (image_end (map (input w) es)) \<le> medium w \<and> can_truncate w"

lemma make_image_ok:
  assumes st: "output_filename st = Some name" "input_files st = Some (n, es)" "block_size st \<noteq> 0"
    and old: "open_output w name = Some old"
    and w: "world_ok w old es" and m: "\<And>k. malloc_ok w k"
  defines "ins \<equiv> map (input w) es"
  defines "img \<equiv> image (fill_value st) old ins"
  shows "if disjoint_inputs ins
    then make_image w st
      = Some (Inr (ERROR_NONE, Some (if truncate_out_file st then take (image_end ins) img else img)))
    else \<exists>c. make_image w st = Some (Inr (ERROR_OVERLAPPING_INPUT_DATA, Some c))"
proof -
  let ?es = "sort_offset_ascending es" and ?old = "image (fill_value st) old []"
  let ?f = "fseek_end \<lparr>content = old, fpos = 0, room = medium w\<rparr>"
  let ?r = "\<lparr>out = ?f, exit_code = ERROR_NONE, out_filesize = of_nat (fpos ?f), last_write_offset = 0,
    stdin_open = True\<rparr>"
  note w = w [unfolded world_ok_def]
  have o: "?old = old"
    by (rule nth_equalityI) (simp_all add: nth_image image_byte_def image_end_def)
  have keys: "\<exists>e\<in>set es. key e' = key e" if "e' \<in> set ?es" for e'
    using that keys_sorted(1) [of es] by (metis image_iff list.set_map)
  have ends: "image_end [input w e] \<le> image_end (map (input w) es)" if "e \<in> set es" for e
    using image_end_ge [of "input w e" "map (input w) es"] that by (simp add: image_end_def)
  have "\<exists>r'. place_files w st True ?es ?r = Some (Inr r')
    \<and> (if disjoint_inputs ([] @ map (input w) ?es)
       then at_image r' (image (fill_value st) old ([] @ map (input w) ?es)) (image_end ([] @ map (input w) ?es))
       else exit_code r' = ERROR_OVERLAPPING_INPUT_DATA)"
  proof (rule place_files_image [OF _ _ _ _ sort_offset_ascending_ok(2) st(3) m])
    show "at_image ?r ?old (image_end [])"
      using w unfolding o by (simp add: at_image_def fseek_end_def image_end_def)
    show "\<forall>e\<in>set ?es. input_of w (filename e) \<noteq> None"
      using keys w by (metis key_def prod.inject)
    show "stdin_left ?r ?es" using w by (simp add: stdin_left_def keys_sorted(2))
    show "\<forall>e\<in>set ?es. image_end [input w e] < 2 ^ 32 \<and> image_end [input w e] \<le> room (out ?r)"
    proof
      fix e'
      assume "e' \<in> set ?es"
      then obtain e where "e \<in> set es" "input w e' = input w e" using keys input_key by metis
      with ends [of e] w show "image_end [input w e'] < 2 ^ 32 \<and> image_end [input w e'] \<le> room (out ?r)"
        by (auto simp: fseek_end_def)
    qed
  qed (simp_all add: disjoint_inputs_def)
  then obtain r' where p: "place_files w st True ?es ?r = Some (Inr r')"
    and r': "if disjoint_inputs (map (input w) ?es)
       then at_image r' (image (fill_value st) old (map (input w) ?es)) (image_end (map (input w) ?es))
       else exit_code r' = ERROR_OVERLAPPING_INPUT_DATA"
    unfolding append_Nil by blast
  have d: "disjoint_inputs (map (input w) ?es) = disjoint_inputs ins"
    unfolding ins_def by (rule disjoint_inputs_mset [OF mset_inputs])
  have mk: "make_image w st = Some (Inr (finish_image w st r'))"
    using st old p by (simp add: make_image_def Let_def)
  show ?thesis
  proof (cases "disjoint_inputs ins")
    case True
    with image_mset [OF mset_inputs [of w es]] d
    have "image (fill_value st) old (map (input w) ?es) = img" "image_end (map (input w) ?es) = image_end ins"
      by (simp_all add: img_def ins_def)
    with r' True d have "at_image r' img (image_end ins)" by simp
    then have "exit_code r' = ERROR_NONE" "content (out r') = img" "unat (last_write_offset r') = image_end ins"
      by (auto simp: at_image_def unat_of_nat take_bit_nat_eq_self)
    with True w show ?thesis by (simp add: mk finish_image_def)
  next
    case False
    with r' d show ?thesis by (simp add: mk finish_image_def)
  qed
qed

text \<open>
  C20. The data partition image tool writes the image: when the command line is in order,
  the inputs and the output can be opened, the standard input is among them at most once,
  memory can be allocated, the medium has room and can truncate, and everything ends below 4
  GiB, it ends; when no two inputs have a byte at the same place, the output file has the
  bytes of every input at its offset, keeps its other bytes, has the fill value in the gaps
  after its old end, and with --truncate ends where the last input ends; when two inputs
  overlap, the exit code says so. (On a full medium it does not end.)
\<close>

theorem mkimage_writes_image:
  assumes args: "process_args (malloc_ok w) (stdin_piped w) argv = Inr (ERROR_NONE, st)"
    "\<not> show_help st" "\<not> show_version st"
    "output_filename st = Some name" "input_files st = Some (n, es)"
    and world: "open_output w name = Some old" "world_ok w old es" "\<And>k. malloc_ok w k"
  shows "if disjoint_inputs (map (input w) es)
    then main w argv = Some (Inr (ERROR_NONE, Some
      (if truncate_out_file st
       then take (image_end (map (input w) es)) (image (fill_value st) old (map (input w) es))
       else image (fill_value st) old (map (input w) es))))
    else \<exists>c. main w argv = Some (Inr (ERROR_OVERLAPPING_INPUT_DATA, Some c))"
proof -
  have "block_size st \<noteq> 0"
    using process_args_loop_ok [of "stdin_piped w" "(False, False, mkimage_start)" "malloc_ok w" argv] args
    by (auto simp: process_args_def args_ok_def mkimage_start_def ready_def)
  from make_image_ok [OF args(4,5) this world] args(1-3) show ?thesis
    by (simp add: main_def)
qed

section \<open>Two files in an image\<close>

definition desk :: world where
  "desk = \<lparr>stdin_piped = False, stdin_file = \<lparr>data = [], seekable = False\<rparr>,
     open_in = [''a'' \<mapsto> \<lparr>data = [1, 2], seekable = True\<rparr>, ''b'' \<mapsto> \<lparr>data = [3], seekable = True\<rparr>],
     open_update = Map.empty, can_create = (\<lambda>_. True), medium = 100, can_truncate = True,
     malloc_ok = (\<lambda>_. True)\<rparr>"

definition two_files :: "string list" where
  "two_files = [''-b'', ''4'', ''-i'', ''a:1'', ''b:0'', ''-o'', ''img'']"

lemma two_files_read:
  "process_args (\<lambda>_. True) False two_files = Inr (ERROR_NONE, mkimage_start\<lparr>block_size := 4,
     output_filename := Some ''img'', input_files := Some (2,
       [\<lparr>filename = ''a'', size = 0, offset = 4\<rparr>, \<lparr>filename = ''b'', size = 0, offset = 0\<rparr>])\<rparr>)"
  by code_simp

theorem mkimage_writes_image_witness:
  "main desk two_files = Some (Inr (ERROR_NONE, Some [3, 0xFF, 0xFF, 0xFF, 1, 2]))"
proof -
  let ?es = "[\<lparr>filename = ''a'', size = 0, offset = 4\<rparr>, \<lparr>filename = ''b'', size = 0, offset = 0\<rparr>]"
  let ?st = "mkimage_start\<lparr>block_size := 4, output_filename := Some ''img'', input_files := Some (2, ?es)\<rparr>"
  have a: "process_args (malloc_ok desk) (stdin_piped desk) two_files = Inr (ERROR_NONE, ?st)"
    using two_files_read by (simp add: desk_def)
  have i: "map (input desk) ?es = [(4, [1, 2]), (0, [3])]"
    by (simp add: input_def input_of_def desk_def STDIN_FILENAME_def)
  have w: "world_ok desk [] ?es"
    unfolding world_ok_def i
    by (simp add: input_of_def desk_def STDIN_FILENAME_def image_end_def)
  have "disjoint_inputs [(4, [1, 2]), (0, [3])]" by (simp add: disjoint_inputs_def apart_def)
  moreover have "image 0xFF [] [(4, [1, 2]), (0, [3])] = [3, 0xFF, 0xFF, 0xFF, 1, 2]"
    by (simp add: image_def image_end_def image_byte_def covers_def upt_conv_Cons)
  moreover have "open_output desk ''img'' = Some []" by (simp add: open_output_def desk_def)
  ultimately show ?thesis
    using mkimage_writes_image [OF a, of "''img''" 2 ?es "[]"] w
    unfolding i by (simp add: mkimage_start_def desk_def)
qed

text \<open>The offset of an input is its block times the block size modulo 4 GiB, without a check.\<close>

lemma mkimage_offset_wraps:
  "process_args (\<lambda>_. True) False ([''-b'', dec 512, ''-i''] @ map in_file_value [(''a'', 2 ^ 23 + 1)] @ [''-o'', ''img''])
   = Inr (ERROR_NONE, mkimage_start\<lparr>block_size := 512, output_filename := Some ''img'',
       input_files := Some (1, [\<lparr>filename = ''a'', size = 0, offset = 512\<rparr>])\<rparr>)"
  using command_line_read [of 512 "[(''a'', 2 ^ 23 + 1)]" "''img''" _ False "\<lambda>_. True"]
  by (simp add: dashed_def entry_of_def)

text \<open>A hexadecimal number without digits is read as zero.\<close>

lemma parse_number_hex_junk: "parse_number ''0xZZ'' = Some 0"
  by (simp add: parse_number_def sscanf_lX_def sscanf_ld_def scan_prefix_def scan_sign_def
      scan_digits_def is_space_def digit_value_def)

text \<open>On a full medium the copy never returns.\<close>

lemma copy_data_full:
  assumes "m (unat bs)" and "0 < unat bs" and "fpos f \<le> room f" and "room f < fpos f + min (unat bs) (length inp)"
  shows "copy_data m bs inp f = None"
proof -
  have "write_block (take (unat bs) inp) f = None"
    using assms by (intro write_block_full) (auto simp: min.commute)
  moreover have "take (unat bs) inp \<noteq> []" using assms by auto
  ultimately show ?thesis using assms(1) by (simp add: copy_data_def copy_loop.simps [of _ inp])
qed

end
