(* ===== verification/Intertile.thy ===== *)
theory Intertile
  imports Prelude "HOL-Library.Sublist"
begin

text \<open>
  One direction of a link between two tiles (modules/drivers/intertile/src/rtos_intertile.c): the
  tasks that send on ports under a mutex, the channel, the interrupt that reads the port of the
  next message and stops until a task has taken the message, and one receiving task per port.
  A channel carries bytes and words; a receiver that finds the other kind is a fault.
\<close>

datatype token = Tok_byte byte | Tok_word u32

text \<open>
  A sender: inside \<open>rtos_intertile_tx\<close> with a message and what is still to go out; inside
  \<open>rtos_intertile_tx_len\<close>; between its calls, with the port, the length and the data sent so far;
  inside \<open>rtos_intertile_tx_data\<close> with the data of this call.
\<close>

datatype tx_pc =
    Tx_idle
  | Tx_whole byte "byte list" "token list"
  | Tx_length byte nat "token list"
  | Tx_between byte nat "byte list"
  | Tx_piece byte nat "byte list" "byte list" "token list"

text \<open>
  A receiver: waiting for its event, for a whole message or for a length; about to read the
  length; reading a message; between its calls; reading a piece of \<open>k\<close> bytes.
\<close>

datatype rx_pc =
    Rx_idle
  | Rx_wait bool
  | Rx_word bool
  | Rx_whole nat "byte list"
  | Rx_between nat "byte list"
  | Rx_piece nat "byte list" nat "byte list"

text \<open>
  \<open>wire\<close> are all tokens that went into the channel, of which \<open>chan\<close> are not read yet; \<open>sent\<close> are the
  messages whose sending has ended, \<open>received\<close> those that were handed to a receiver; the code
  keeps neither. \<open>returned\<close> is what a receiver's last \<open>rtos_intertile_rx_len\<close> returned.
\<close>

record link =
  lock :: "nat option"
  tx_len :: nat
  tx_task :: "nat \<Rightarrow> tx_pc"
  chan :: "token list"
  wire :: "token list"
  trigger :: bool
  events :: "byte set"
  rx_len :: nat
  rx_task :: "byte \<Rightarrow> rx_pc"
  returned :: "byte \<Rightarrow> nat"
  sent :: "(byte \<times> byte list) list"
  received :: "(byte \<times> byte list) list"
  link_fault :: bool
  malloc_failed :: bool

definition link_start :: link where
  "link_start =
     \<lparr>lock = None, tx_len = 0, tx_task = (\<lambda>_. Tx_idle), chan = [], wire = [], trigger = True,
      events = {}, rx_len = 0, rx_task = (\<lambda>_. Rx_idle), returned = (\<lambda>_. 0), sent = [], received = [],
      link_fault = False, malloc_failed = False\<rparr>"

definition tx_to :: "nat \<Rightarrow> tx_pc \<Rightarrow> link \<Rightarrow> link" where
  "tx_to t p s = s\<lparr>tx_task := (tx_task s)(t := p)\<rparr>"

definition rx_to :: "byte \<Rightarrow> rx_pc \<Rightarrow> link \<Rightarrow> link" where
  "rx_to p q s = s\<lparr>rx_task := (rx_task s)(p := q)\<rparr>"

definition put_token :: "token \<Rightarrow> link \<Rightarrow> link" where
  "put_token k s = s\<lparr>chan := chan s @ [k], wire := wire s @ [k]\<rparr>"

definition header :: "byte \<Rightarrow> nat \<Rightarrow> token list" where
  "header port n = [Tok_byte port, Tok_word (of_nat n)]"

definition unlock :: "nat \<Rightarrow> byte \<Rightarrow> byte list \<Rightarrow> link \<Rightarrow> link" where
  "unlock t port m s = tx_to t Tx_idle (s\<lparr>lock := None, sent := sent s @ [(port, m)]\<rparr>)"

section \<open>Sending\<close>

definition tx_begin :: "nat \<Rightarrow> byte \<Rightarrow> byte list \<Rightarrow> link \<Rightarrow> link" where
  "tx_begin t port m s =
     tx_to t (Tx_whole port m (header port (length m) @ map Tok_byte m)) (s\<lparr>lock := Some t\<rparr>)"

definition tx_len_begin :: "nat \<Rightarrow> byte \<Rightarrow> nat \<Rightarrow> link \<Rightarrow> link" where
  "tx_len_begin t port n s =
     (let s1 = s\<lparr>lock := Some t\<rparr> in
      if tx_len s1 \<noteq> 0 then s1\<lparr>link_fault := True\<rparr>
      else tx_to t (Tx_length port n (header port n)) (s1\<lparr>tx_len := n\<rparr>))"

definition tx_data_begin :: "nat \<Rightarrow> byte \<Rightarrow> nat \<Rightarrow> byte list \<Rightarrow> byte list \<Rightarrow> link \<Rightarrow> link" where
  "tx_data_begin t port n d data s =
     (let piece = take (min (length data) (tx_len s)) data
      in tx_to t (Tx_piece port n d piece (map Tok_byte piece)) s)"

definition tx_data_end :: "nat \<Rightarrow> byte \<Rightarrow> nat \<Rightarrow> byte list \<Rightarrow> byte list \<Rightarrow> link \<Rightarrow> link" where
  "tx_data_end t port n d piece s =
     (let s1 = s\<lparr>tx_len := tx_len s - length piece\<rparr>
      in if tx_len s1 = 0 then unlock t port (d @ piece) s1
         else tx_to t (Tx_between port n (d @ piece)) s1)"

text \<open>A port is a bit of the event group, of which FreeRTOS has 24.\<close>

definition has_event :: "byte \<Rightarrow> bool" where
  "has_event port \<longleftrightarrow> unat port < 24"

inductive tx_step :: "link \<Rightarrow> link \<Rightarrow> bool" where
  tx_call: "tx_task s t = Tx_idle \<Longrightarrow> lock s = None \<Longrightarrow> has_event port \<Longrightarrow> length m < 2 ^ 32 \<Longrightarrow>
    tx_step s (tx_begin t port m s)"
| tx_len_call: "tx_task s t = Tx_idle \<Longrightarrow> lock s = None \<Longrightarrow> has_event port \<Longrightarrow> n < 2 ^ 32 \<Longrightarrow>
    tx_step s (tx_len_begin t port n s)"
| tx_data_call: "tx_task s t = Tx_between port n d \<Longrightarrow> tx_step s (tx_data_begin t port n d data s)"
| tx_whole_out: "tx_task s t = Tx_whole port m (k # ks) \<Longrightarrow>
    tx_step s (tx_to t (Tx_whole port m ks) (put_token k s))"
| tx_length_out: "tx_task s t = Tx_length port n (k # ks) \<Longrightarrow>
    tx_step s (tx_to t (Tx_length port n ks) (put_token k s))"
| tx_piece_out: "tx_task s t = Tx_piece port n d piece (k # ks) \<Longrightarrow>
    tx_step s (tx_to t (Tx_piece port n d piece ks) (put_token k s))"
| tx_return: "tx_task s t = Tx_whole port m [] \<Longrightarrow> tx_step s (unlock t port m s)"
| tx_len_return: "tx_task s t = Tx_length port n [] \<Longrightarrow> tx_step s (tx_to t (Tx_between port n []) s)"
| tx_data_return: "tx_task s t = Tx_piece port n d piece [] \<Longrightarrow>
    tx_step s (tx_data_end t port n d piece s)"

section \<open>Receiving\<close>

definition rtos_intertile_isr :: "link \<Rightarrow> link" where
  "rtos_intertile_isr s =
     (let s1 = s\<lparr>trigger := False\<rparr> in
      case chan s1 of
        [] \<Rightarrow> s
      | Tok_byte port # rest \<Rightarrow> s1\<lparr>chan := rest, events := insert port (events s1)\<rparr>
      | Tok_word _ # rest \<Rightarrow> s1\<lparr>link_fault := True\<rparr>)"

text \<open>
  \<open>rtos_intertile_rx\<close> asserts that it got memory for the message. There is taken to be memory for a
  message of at least one byte; for length 0 the allocator of FreeRTOS returns NULL whatever there is.
  The task does not go on from there.
\<close>

definition read_length :: "byte \<Rightarrow> bool \<Rightarrow> link \<Rightarrow> link" where
  "read_length port whole s =
     (case chan s of
        [] \<Rightarrow> s
      | Tok_byte _ # rest \<Rightarrow> s\<lparr>link_fault := True\<rparr>
      | Tok_word w # rest \<Rightarrow>
          let s1 = s\<lparr>chan := rest\<rparr> in
          if whole then if w = 0 then s\<lparr>malloc_failed := True\<rparr> else rx_to port (Rx_whole (unat w) []) s1
          else if rx_len s1 \<noteq> 0 then s1\<lparr>link_fault := True\<rparr>
          else rx_to port (Rx_between (unat w) [])
                 (s1\<lparr>rx_len := unat w, returned := (returned s1)(port := unat w)\<rparr>))"

definition read_byte :: "byte \<Rightarrow> (byte \<Rightarrow> rx_pc) \<Rightarrow> link \<Rightarrow> link" where
  "read_byte port next s =
     (case chan s of
        [] \<Rightarrow> s
      | Tok_word _ # rest \<Rightarrow> s\<lparr>link_fault := True\<rparr>
      | Tok_byte b # rest \<Rightarrow> rx_to port (next b) (s\<lparr>chan := rest\<rparr>))"

definition hand_over :: "byte \<Rightarrow> byte list \<Rightarrow> link \<Rightarrow> link" where
  "hand_over port m s =
     rx_to port Rx_idle (s\<lparr>trigger := True, received := received s @ [(port, m)]\<rparr>)"

definition rx_data_end :: "byte \<Rightarrow> nat \<Rightarrow> byte list \<Rightarrow> byte list \<Rightarrow> link \<Rightarrow> link" where
  "rx_data_end port n d piece s =
     (let s1 = s\<lparr>rx_len := rx_len s - length piece\<rparr>
      in if rx_len s1 = 0 then hand_over port (d @ piece) s1
         else rx_to port (Rx_between n (d @ piece)) s1)"

text \<open>A call that times out returns the length of no message, or what \<open>rx_len\<close> is.\<close>

definition rx_timeout :: "byte \<Rightarrow> bool \<Rightarrow> link \<Rightarrow> link" where
  "rx_timeout port whole s =
     rx_to port Rx_idle (if whole then s else s\<lparr>returned := (returned s)(port := rx_len s)\<rparr>)"

inductive rx_step :: "link \<Rightarrow> link \<Rightarrow> bool" where
  isr: "trigger s \<Longrightarrow> chan s \<noteq> [] \<Longrightarrow> rx_step s (rtos_intertile_isr s)"
| rx_call: "rx_task s port = Rx_idle \<Longrightarrow> rx_step s (rx_to port (Rx_wait whole) s)"
| rx_timed_out: "rx_task s port = Rx_wait whole \<Longrightarrow> rx_step s (rx_timeout port whole s)"
| rx_event: "rx_task s port = Rx_wait whole \<Longrightarrow> port \<in> events s \<Longrightarrow>
    rx_step s (rx_to port (Rx_word whole) (s\<lparr>events := events s - {port}\<rparr>))"
| rx_word: "rx_task s port = Rx_word whole \<Longrightarrow> chan s \<noteq> [] \<Longrightarrow> rx_step s (read_length port whole s)"
| rx_byte: "rx_task s port = Rx_whole n d \<Longrightarrow> length d < n \<Longrightarrow> chan s \<noteq> [] \<Longrightarrow>
    rx_step s (read_byte port (\<lambda>b. Rx_whole n (d @ [b])) s)"
| rx_return: "rx_task s port = Rx_whole n d \<Longrightarrow> length d = n \<Longrightarrow> rx_step s (hand_over port d s)"
| rx_data_call: "rx_task s port = Rx_between n d \<Longrightarrow>
    rx_step s (rx_to port (Rx_piece n d (min k (rx_len s)) []) s)"
| rx_data_byte: "rx_task s port = Rx_piece n d k e \<Longrightarrow> length e < k \<Longrightarrow> chan s \<noteq> [] \<Longrightarrow>
    rx_step s (read_byte port (\<lambda>b. Rx_piece n d k (e @ [b])) s)"
| rx_data_return: "rx_task s port = Rx_piece n d k e \<Longrightarrow> length e = k \<Longrightarrow>
    rx_step s (rx_data_end port n d e s)"

definition link_step :: "link \<Rightarrow> link \<Rightarrow> bool" where
  "link_step s s' \<longleftrightarrow> tx_step s s' \<or> rx_step s s'"

section \<open>The messages in a sequence of tokens\<close>

datatype reader = At_port | At_length byte | At_data byte nat "byte list"

type_synonym parsed = "(byte \<times> byte list) list \<times> reader"

definition target :: "(byte \<times> byte list) list \<Rightarrow> byte \<Rightarrow> nat \<Rightarrow> byte list \<Rightarrow> parsed" where
  "target ms port n d = (if length d = n then (ms @ [(port, d)], At_port) else (ms, At_data port n d))"

fun read_token :: "parsed option \<Rightarrow> token \<Rightarrow> parsed option" where
  "read_token (Some (ms, At_port)) (Tok_byte port) = Some (ms, At_length port)"
| "read_token (Some (ms, At_length port)) (Tok_word w) = Some (target ms port (unat w) [])"
| "read_token (Some (ms, At_data port n d)) (Tok_byte b) = Some (target ms port n (d @ [b]))"
| "read_token _ _ = None"

definition parse :: "token list \<Rightarrow> parsed option" where
  "parse ks = foldl read_token (Some ([], At_port)) ks"

lemma parse_Nil [simp]: "parse [] = Some ([], At_port)"
  by (simp add: parse_def)

lemma parse_snoc: "parse (ks @ [k]) = read_token (parse ks) k"
  by (simp add: parse_def)

lemma foldl_read_None [simp]: "foldl read_token None ks = None"
  by (induction ks) auto

lemma parse_append: "parse (ks @ ls) = foldl read_token (parse ks) ls"
  by (simp add: parse_def)

lemma parse_prefix:
  assumes "parse (ks @ ls) \<noteq> None"
  shows "parse ks \<noteq> None"
  using assms by (cases "parse ks") (simp_all add: parse_append)

lemma read_token_messages:
  "read_token (Some (ms, q)) k = Some (ms', q') \<Longrightarrow> prefix ms ms' \<and> length ms' \<le> Suc (length ms)"
  by (cases q; cases k) (auto simp: target_def split: if_splits)

lemma foldl_read_messages:
  "foldl read_token (Some (ms, q)) ks = Some (ms', q') \<Longrightarrow> prefix ms ms'"
proof (induction ks arbitrary: ms q)
  case (Cons k ks)
  show ?case
  proof (cases "read_token (Some (ms, q)) k")
    case None
    with Cons.prems show ?thesis by simp
  next
    case (Some r)
    obtain m1 q1 where r: "r = (m1, q1)" by (cases r)
    from Cons.IH[of m1 q1] Cons.prems Some r have "prefix m1 ms'" by simp
    moreover from read_token_messages Some r have "prefix ms m1" by blast
    ultimately show ?thesis by (rule prefix_order.trans[rotated])
  qed
qed simp

lemma parse_messages:
  assumes "parse ks = Some (ms, q)" and "parse (ks @ ls) = Some (ms', q')"
  shows "prefix ms ms'"
  using assms foldl_read_messages by (simp add: parse_append)

lemma parse_header:
  "parse ks = Some (ms, At_port) \<Longrightarrow> n < 2 ^ 32 \<Longrightarrow> parse (ks @ header port n) = Some (target ms port n [])"
  by (simp add: parse_append header_def unat_of_nat take_bit_nat_eq_self)

lemma read_bytes:
  "length d + length m \<le> n \<Longrightarrow> m \<noteq> [] \<Longrightarrow>
     foldl read_token (Some (ms, At_data port n d)) (map Tok_byte m) = Some (target ms port n (d @ m))"
proof (induction m arbitrary: d)
  case (Cons b m)
  show ?case
  proof (cases "m = []")
    case False
    with Cons.prems have "target ms port n (d @ [b]) = (ms, At_data port n (d @ [b]))"
      by (auto simp: target_def)
    with Cons False show ?thesis by simp
  qed simp
qed simp

lemma parse_bytes:
  assumes "parse ks = Some (target ms port n d)" and "length d + length m \<le> n"
  shows "parse (ks @ map Tok_byte m) = Some (target ms port n (d @ m))"
proof (cases "m = []")
  case False
  with assms(2) have "target ms port n d = (ms, At_data port n d)" by (auto simp: target_def)
  with assms False show ?thesis by (simp add: parse_append read_bytes)
qed (use assms in simp)

lemma parse_data:
  assumes "parse ks = Some (target ms port n d)" and "length d < n"
  shows "parse ks = Some (ms, At_data port n d)"
  using assms by (simp add: target_def)

section \<open>The link at every moment\<close>

text \<open>What the task that holds the mutex still puts into the channel, and the message it completes.\<close>

fun still_out :: "tx_pc \<Rightarrow> token list" where
  "still_out (Tx_whole port m ks) = ks"
| "still_out (Tx_length port n ks) = ks"
| "still_out (Tx_piece port n d e ks) = ks"
| "still_out _ = []"

fun under_way :: "tx_pc \<Rightarrow> (byte \<times> byte list) list" where
  "under_way (Tx_whole port m ks) = [(port, m)]"
| "under_way (Tx_length port n ks) = (if n = 0 then [(port, [])] else [])"
| "under_way (Tx_between port n d) = (if length d = n then [(port, d)] else [])"
| "under_way (Tx_piece port n d e ks) = (if length (d @ e) = n then [(port, d @ e)] else [])"
| "under_way Tx_idle = []"

fun tx_after :: "tx_pc \<Rightarrow> (byte \<times> byte list) list \<Rightarrow> parsed" where
  "tx_after (Tx_whole port m ks) ms = (ms @ [(port, m)], At_port)"
| "tx_after (Tx_length port n ks) ms = target ms port n []"
| "tx_after (Tx_between port n d) ms = target ms port n d"
| "tx_after (Tx_piece port n d e ks) ms = target ms port n (d @ e)"
| "tx_after Tx_idle ms = (ms, At_port)"

fun tx_left_ok :: "nat \<Rightarrow> tx_pc \<Rightarrow> bool" where
  "tx_left_ok l (Tx_length port n ks) \<longleftrightarrow> l = n"
| "tx_left_ok l (Tx_between port n d) \<longleftrightarrow> l + length d = n"
| "tx_left_ok l (Tx_piece port n d e ks) \<longleftrightarrow> l + length d = n \<and> length e \<le> l"
| "tx_left_ok l _ \<longleftrightarrow> l = 0"

definition tx_inv :: "link \<Rightarrow> tx_pc \<Rightarrow> bool" where
  "tx_inv s p \<longleftrightarrow> parse (wire s @ still_out p) = Some (tx_after p (sent s)) \<and> tx_left_ok (tx_len s) p"

definition holder :: "link \<Rightarrow> tx_pc" where
  "holder s = (case lock s of None \<Rightarrow> Tx_idle | Some t \<Rightarrow> tx_task s t)"

definition tx_good :: "link \<Rightarrow> bool" where
  "tx_good s \<longleftrightarrow> (\<forall>t. lock s \<noteq> Some t \<longrightarrow> tx_task s t = Tx_idle) \<and>
     (\<forall>t. lock s = Some t \<longrightarrow> tx_task s t \<noteq> Tx_idle) \<and> tx_inv s (holder s)"

fun rx_active :: "rx_pc \<Rightarrow> bool" where
  "rx_active Rx_idle = False"
| "rx_active (Rx_wait w) = False"
| "rx_active _ = True"

fun rx_inv :: "(byte \<times> byte list) list \<Rightarrow> nat \<Rightarrow> byte \<Rightarrow> rx_pc \<Rightarrow> parsed \<Rightarrow> bool" where
  "rx_inv ms l port (Rx_word w) r \<longleftrightarrow> r = (ms, At_length port) \<and> l = 0"
| "rx_inv ms l port (Rx_whole n d) r \<longleftrightarrow> r = target ms port n d \<and> length d \<le> n \<and> l = 0"
| "rx_inv ms l port (Rx_between n d) r \<longleftrightarrow> r = target ms port n d \<and> l + length d = n"
| "rx_inv ms l port (Rx_piece n d k e) r \<longleftrightarrow>
     r = target ms port n (d @ e) \<and> l + length d = n \<and> length e \<le> k \<and> k \<le> l"
| "rx_inv ms l port _ r \<longleftrightarrow> False"

definition rx_good :: "parsed \<Rightarrow> link \<Rightarrow> bool" where
  "rx_good r s \<longleftrightarrow>
     (if trigger s then events s = {} \<and> (\<forall>p. \<not> rx_active (rx_task s p)) \<and> r = (received s, At_port) \<and> rx_len s = 0
      else (\<exists>p. events s = {p} \<and> (\<forall>q. \<not> rx_active (rx_task s q)) \<and> r = (received s, At_length p) \<and> rx_len s = 0) \<or>
           (\<exists>p. events s = {} \<and> (\<forall>q. q \<noteq> p \<longrightarrow> \<not> rx_active (rx_task s q)) \<and>
                rx_inv (received s) (rx_len s) p (rx_task s p) r))"

definition link_good :: "link \<Rightarrow> bool" where
  "link_good s \<longleftrightarrow> \<not> link_fault s \<and> tx_good s \<and>
     (\<exists>c r. wire s = c @ chan s \<and> parse c = Some r \<and> rx_good r s)"

lemma link_start_good: "link_good link_start"
  by (simp add: link_good_def link_start_def tx_good_def tx_inv_def holder_def rx_good_def)

lemmas tx_defs = tx_begin_def tx_len_begin_def tx_data_begin_def tx_data_end_def tx_to_def put_token_def
  unlock_def Let_def

lemma tx_good_busy:
  assumes "tx_good s" and "tx_task s t \<noteq> Tx_idle"
  shows "lock s = Some t" and "holder s = tx_task s t"
proof -
  from assms show "lock s = Some t" by (auto simp: tx_good_def)
  then show "holder s = tx_task s t" by (simp add: holder_def)
qed

lemma tx_good_free:
  assumes "tx_good s" and "lock s = None"
  shows "parse (wire s) = Some (sent s, At_port)" and "tx_len s = 0"
  using assms by (auto simp: tx_good_def holder_def tx_inv_def)

lemma tx_good_to:
  assumes "tx_good s" and "lock s = Some t \<or> lock s = None" and "p \<noteq> Tx_idle" and "lock s' = Some t"
    and "tx_task s' = (tx_task s)(t := p)" and "tx_inv s' p"
  shows "tx_good s'"
  using assms by (auto simp: tx_good_def holder_def)

lemma tx_good_unlock:
  assumes "tx_good s" and "lock s = Some t" and "lock s' = None"
    and "tx_task s' = (tx_task s)(t := Tx_idle)" and "tx_inv s' Tx_idle"
  shows "tx_good s'"
  using assms by (auto simp: tx_good_def holder_def)

lemma target_full: "length d = n \<Longrightarrow> target ms port n d = (ms @ [(port, d)], At_port)"
  by (simp add: target_def)

lemma tx_call_good:
  assumes "tx_good s" and "lock s = None" and "length m < 2 ^ 32"
  shows "tx_good (tx_begin t port m s)"
proof (rule tx_good_to)
  have "parse (wire s @ header port (length m)) = Some (target (sent s) port (length m) [])"
    using tx_good_free(1)[OF assms(1,2)] assms(3) by (rule parse_header)
  from parse_bytes[OF this, of m]
  have "parse (wire s @ header port (length m) @ map Tok_byte m) = Some (sent s @ [(port, m)], At_port)"
    by (simp add: target_full)
  then show "tx_inv (tx_begin t port m s) (Tx_whole port m (header port (length m) @ map Tok_byte m))"
    using tx_good_free(2)[OF assms(1,2)] by (simp add: tx_inv_def tx_defs)
qed (use assms in \<open>simp_all add: tx_defs\<close>)

lemma tx_len_call_good:
  assumes "tx_good s" and "lock s = None" and "n < 2 ^ 32"
  shows "tx_good (tx_len_begin t port n s)"
proof (rule tx_good_to)
  show "tx_inv (tx_len_begin t port n s) (Tx_length port n (header port n))"
    using parse_header[OF tx_good_free(1)[OF assms(1,2)] assms(3)] tx_good_free(2)[OF assms(1,2)]
    by (simp add: tx_inv_def tx_defs)
qed (use assms tx_good_free(2)[OF assms(1,2)] in \<open>simp_all add: tx_defs\<close>)

lemma tx_data_call_good:
  assumes "tx_good s" and "tx_task s t = Tx_between port n d"
  shows "tx_good (tx_data_begin t port n d ds s)"
proof (rule tx_good_to)
  let ?e = "take (min (length ds) (tx_len s)) ds"
  have h: "lock s = Some t" "holder s = Tx_between port n d"
    using tx_good_busy[OF assms(1), of t] assms(2) by simp_all
  with assms(1) have i: "parse (wire s) = Some (target (sent s) port n d)" "tx_len s + length d = n"
    by (auto simp: tx_good_def tx_inv_def)
  then have "parse (wire s @ map Tok_byte ?e) = Some (target (sent s) port n (d @ ?e))"
    by (intro parse_bytes) auto
  with i show "tx_inv (tx_data_begin t port n d ds s) (Tx_piece port n d ?e (map Tok_byte ?e))"
    by (simp add: tx_inv_def tx_defs)
qed (use assms tx_good_busy[OF assms(1), of t] in \<open>simp_all add: tx_defs\<close>)

lemma tx_out_good:
  assumes "tx_good s" and "tx_task s t = p" and "still_out p = k # ks" and "still_out q = ks"
    and "tx_after q = tx_after p" and "\<And>l. tx_left_ok l q = tx_left_ok l p" and "q \<noteq> Tx_idle"
  shows "tx_good (tx_to t q (put_token k s))"
proof (rule tx_good_to)
  from assms(2,3) have "tx_task s t \<noteq> Tx_idle" by auto
  then have b: "lock s = Some t" "holder s = p"
    using tx_good_busy[OF assms(1), of t] assms(2) by simp_all
  with assms(1) have "tx_inv s p" by (auto simp: tx_good_def)
  with assms(3-6) show "tx_inv (tx_to t q (put_token k s)) q"
    by (simp add: tx_inv_def tx_defs)
  show "lock s = Some t \<or> lock s = None" "lock (tx_to t q (put_token k s)) = Some t"
    using b by (simp_all add: tx_defs)
qed (use assms in \<open>simp_all add: tx_defs\<close>)

lemma tx_return_good:
  assumes "tx_good s" and "tx_task s t = Tx_whole port m []"
  shows "tx_good (unlock t port m s)"
proof (rule tx_good_unlock)
  have b: "lock s = Some t" "holder s = Tx_whole port m []"
    using tx_good_busy[OF assms(1), of t] assms(2) by simp_all
  with assms(1) show "tx_inv (unlock t port m s) Tx_idle" "lock s = Some t"
    by (auto simp: tx_good_def tx_inv_def tx_defs)
qed (use assms in \<open>simp_all add: tx_defs\<close>)

lemma tx_len_return_good:
  assumes "tx_good s" and "tx_task s t = Tx_length port n []"
  shows "tx_good (tx_to t (Tx_between port n []) s)"
proof (rule tx_good_to)
  have b: "lock s = Some t" "holder s = Tx_length port n []"
    using tx_good_busy[OF assms(1), of t] assms(2) by simp_all
  with assms(1) show "tx_inv (tx_to t (Tx_between port n []) s) (Tx_between port n [])"
    by (auto simp: tx_good_def tx_inv_def tx_defs)
  show "lock s = Some t \<or> lock s = None" "lock (tx_to t (Tx_between port n []) s) = Some t"
    using b by (simp_all add: tx_defs)
qed (use assms in \<open>simp_all add: tx_defs\<close>)

lemma tx_data_return_good:
  assumes "tx_good s" and "tx_task s t = Tx_piece port n d e []"
  shows "tx_good (tx_data_end t port n d e s)"
proof -
  have b: "lock s = Some t" "holder s = Tx_piece port n d e []"
    using tx_good_busy[OF assms(1), of t] assms(2) by simp_all
  with assms(1) have i: "parse (wire s) = Some (target (sent s) port n (d @ e))"
    "tx_len s + length d = n" "length e \<le> tx_len s"
    by (auto simp: tx_good_def tx_inv_def)
  show ?thesis
  proof (cases "tx_len s = length e")
    case True
    with i have "parse (wire s) = Some (sent s @ [(port, d @ e)], At_port)"
      by (simp add: target_full)
    with True b show ?thesis
      by (intro tx_good_unlock[OF assms(1) b(1)]) (simp_all add: tx_inv_def tx_defs)
  next
    case False
    with i b show ?thesis
      by (intro tx_good_to[OF assms(1)]) (auto simp: tx_inv_def tx_defs)
  qed
qed

lemma tx_step_good:
  assumes "tx_step s s'" and "tx_good s" and "\<not> link_fault s"
  shows "tx_good s' \<and> \<not> link_fault s'"
  using assms
proof (induction rule: tx_step.induct)
  case (tx_len_call s t port n)
  from tx_len_call tx_good_free(2)[of s] have "\<not> link_fault (tx_len_begin t port n s)"
    by (simp add: tx_len_begin_def tx_to_def)
  with tx_len_call show ?case by (simp add: tx_len_call_good)
next
  case (tx_whole_out s t port m k ks)
  then show ?case
    by (intro conjI tx_out_good[where p = "Tx_whole port m (k # ks)" and k = k and ks = ks])
      (simp_all add: fun_eq_iff, simp add: put_token_def tx_to_def)
next
  case (tx_length_out s t port n k ks)
  then show ?case
    by (intro conjI tx_out_good[where p = "Tx_length port n (k # ks)" and k = k and ks = ks])
      (simp_all add: fun_eq_iff, simp add: put_token_def tx_to_def)
next
  case (tx_piece_out s t port n d piece k ks)
  then show ?case
    by (intro conjI tx_out_good[where p = "Tx_piece port n d piece (k # ks)" and k = k and ks = ks])
      (simp_all add: fun_eq_iff, simp add: put_token_def tx_to_def)
qed (simp_all add: tx_call_good tx_data_call_good tx_return_good tx_len_return_good tx_data_return_good,
  simp_all add: tx_defs)

lemma tx_step_frame:
  assumes "tx_step s s'"
  shows "\<exists>ks. wire s' = wire s @ ks \<and> chan s' = chan s @ ks" and "trigger s' = trigger s"
    and "events s' = events s" and "rx_task s' = rx_task s" and "rx_len s' = rx_len s"
    and "received s' = received s"
  using assms by (induction rule: tx_step.induct) (simp_all add: tx_defs)

lemma tx_step_link_good:
  assumes "tx_step s s'" and "link_good s"
  shows "link_good s'"
proof -
  from assms(2) obtain c r where c: "wire s = c @ chan s" "parse c = Some r" "rx_good r s"
    by (auto simp: link_good_def)
  from tx_step_frame(1)[OF assms(1)] obtain ks where "wire s' = wire s @ ks" "chan s' = chan s @ ks"
    by blast
  with c(1) have "wire s' = c @ chan s'" by simp
  moreover from c(3) have "rx_good r s'"
    unfolding rx_good_def tx_step_frame(2-6)[OF assms(1)] .
  moreover have "tx_good s' \<and> \<not> link_fault s'"
    using tx_step_good[OF assms(1)] assms(2) by (simp add: link_good_def)
  ultimately show ?thesis
    using c(2) unfolding link_good_def by blast
qed

lemmas rx_defs = rtos_intertile_isr_def read_length_def read_byte_def hand_over_def rx_data_end_def
  rx_timeout_def rx_to_def Let_def

lemma tx_good_cong:
  assumes "lock s' = lock s" and "tx_len s' = tx_len s" and "tx_task s' = tx_task s" and "wire s' = wire s"
    and "sent s' = sent s"
  shows "tx_good s' = tx_good s"
  using assms by (cases "lock s") (simp_all add: tx_good_def holder_def tx_inv_def)

lemma rx_step_frame:
  assumes "rx_step s s'"
  shows "tx_good s' = tx_good s" and "wire s' = wire s"
proof -
  have "lock s' = lock s \<and> tx_len s' = tx_len s \<and> tx_task s' = tx_task s \<and> wire s' = wire s \<and>
      sent s' = sent s"
    using assms by (induction rule: rx_step.induct) (auto simp: rx_defs split: list.splits token.splits)
  then show "tx_good s' = tx_good s" and "wire s' = wire s"
    using tx_good_cong[of s' s] by simp_all
qed

text \<open>The next token is one that the messages on the channel allow.\<close>

lemma next_token:
  assumes "tx_good s" and "wire s = c @ k # ls"
  shows "parse (c @ [k]) \<noteq> None"
proof (rule parse_prefix)
  from assms show "parse ((c @ [k]) @ ls @ still_out (holder s)) \<noteq> None"
    by (simp add: tx_good_def tx_inv_def)
qed

lemma rx_active_only:
  assumes "rx_good r s" and "rx_active (rx_task s p)"
  shows "\<not> trigger s" and "events s = {}" and "\<And>q. q \<noteq> p \<Longrightarrow> \<not> rx_active (rx_task s q)"
    and "rx_inv (received s) (rx_len s) p (rx_task s p) r"
proof -
  from assms show "\<not> trigger s" and "events s = {}"
    by (auto simp: rx_good_def split: if_splits)
  from assms obtain x where x: "\<forall>q. q \<noteq> x \<longrightarrow> \<not> rx_active (rx_task s q)"
    "rx_inv (received s) (rx_len s) x (rx_task s x) r"
    by (auto simp: rx_good_def split: if_splits)
  from x(1) assms(2) have "x = p" by (cases "p = x") simp_all
  with x show "\<And>q. q \<noteq> p \<Longrightarrow> \<not> rx_active (rx_task s q)"
    and "rx_inv (received s) (rx_len s) p (rx_task s p) r" by simp_all
qed

lemma rx_good_active:
  assumes "\<not> trigger s" and "events s = {}" and "\<And>q. q \<noteq> p \<Longrightarrow> \<not> rx_active (rx_task s q)"
    and "rx_inv (received s) (rx_len s) p (rx_task s p) r"
  shows "rx_good r s"
  using assms unfolding rx_good_def by auto

lemma rx_good_passive:
  assumes "rx_good r s" and "\<not> rx_active (rx_task s p)" and "\<not> rx_active q"
    and "rx_task s' = (rx_task s)(p := q)" and "trigger s' = trigger s" and "events s' = events s"
    and "received s' = received s" and "rx_len s' = rx_len s"
  shows "rx_good r s'"
proof -
  have "rx_active (rx_task s' x) = rx_active (rx_task s x)" for x
    using assms(2-4) by simp
  moreover have "rx_inv ms l x (rx_task s' x) r = rx_inv ms l x (rx_task s x) r" for ms l x
    using assms(2-4) by (cases "rx_task s p"; cases q) simp_all
  ultimately have "rx_good r s' = rx_good r s" unfolding rx_good_def using assms(5-) by simp
  with assms(1) show ?thesis by simp
qed

lemma isr_good:
  assumes "link_good s" and "trigger s" and "chan s \<noteq> []"
  shows "link_good (rtos_intertile_isr s)"
proof -
  obtain c r where c: "wire s = c @ chan s" "parse c = Some r" "rx_good r s" and t: "tx_good s"
    and f: "\<not> link_fault s"
    using assms(1) by (auto simp: link_good_def)
  obtain k ls where k: "chan s = k # ls" using assms(3) by (cases "chan s") auto
  from c(3) assms(2) have r: "r = (received s, At_port)" and e: "events s = {}" "rx_len s = 0"
    "\<And>q. \<not> rx_active (rx_task s q)" by (auto simp: rx_good_def)
  from next_token[OF t, of c k ls] c(1,2) k r obtain p where p: "k = Tok_byte p"
    "parse (c @ [k]) = Some (received s, At_length p)"
    by (cases k) (auto simp: parse_snoc)
  let ?s = "rtos_intertile_isr s"
  from k p have s: "?s = s\<lparr>trigger := False, chan := ls, events := insert p (events s)\<rparr>"
    by (simp add: rtos_intertile_isr_def)
  from e s have "rx_good (received s, At_length p) ?s" by (simp add: rx_good_def)
  moreover have "wire ?s = (c @ [k]) @ chan ?s" using c k s by simp
  moreover have "tx_good ?s"
    using t rx_step_frame(1)[OF rx_step.isr[OF assms(2,3)]] by simp
  ultimately show ?thesis using p f s by (auto simp: link_good_def)
qed

lemma read_good:
  assumes "link_good s" and "rx_task s p = q" and "rx_active q" and "chan s = k # ls"
    and "\<And>r. rx_inv (received s) (rx_len s) p q r \<Longrightarrow> read_token (Some r) k \<noteq> None \<Longrightarrow>
           \<exists>q' l v. s' = rx_to p q' (s\<lparr>chan := ls, rx_len := l, returned := v\<rparr>) \<and>
             rx_inv (received s) l p q' (the (read_token (Some r) k))"
  shows "link_good s'"
proof -
  obtain c r where c: "wire s = c @ chan s" "parse c = Some r" "rx_good r s" and t: "tx_good s"
    and f: "\<not> link_fault s"
    using assms(1) by (auto simp: link_good_def)
  note a = rx_active_only[OF c(3), of p] assms(2,3)
  from next_token[OF t, of c k ls] c(1,2) assms(4) have n: "read_token (Some r) k \<noteq> None"
    by (simp add: parse_snoc)
  with assms(5)[of r] a obtain q' l v where s: "s' = rx_to p q' (s\<lparr>chan := ls, rx_len := l, returned := v\<rparr>)"
    and i: "rx_inv (received s) l p q' (the (read_token (Some r) k))" by auto
  from s i a have "rx_good (the (read_token (Some r) k)) s'"
    by (intro rx_good_active[where p = p]) (auto simp: rx_to_def)
  moreover from s c(1) assms(4) have "wire s' = (c @ [k]) @ chan s'" by (simp add: rx_to_def)
  moreover from c(2) n have "parse (c @ [k]) = Some (the (read_token (Some r) k))"
    by (simp add: parse_snoc)
  moreover have "tx_good s' = tx_good s" by (rule tx_good_cong) (simp_all add: s rx_to_def)
  moreover from f s have "\<not> link_fault s'" by (simp add: rx_to_def)
  ultimately show ?thesis using t unfolding link_good_def by blast
qed

lemma link_good_tx_cong: "link_good s \<Longrightarrow> tx_good s" "link_good s \<Longrightarrow> \<not> link_fault s"
  by (simp_all add: link_good_def)

lemma link_good_parts:
  assumes "link_good s"
  obtains c r where "wire s = c @ chan s" and "parse c = Some r" and "rx_good r s"
  using assms by (auto simp: link_good_def)

lemma quiet_good:
  assumes "link_good s" and "wire s' = wire s" and "chan s' = chan s" and "tx_good s'" and "\<not> link_fault s'"
    and "\<And>r. rx_good r s \<Longrightarrow> rx_good r s'"
  shows "link_good s'"
  using assms unfolding link_good_def by metis

lemma malloc_failed_good:
  assumes "link_good s"
  shows "link_good (s\<lparr>malloc_failed := True\<rparr>)"
proof (rule quiet_good[OF assms])
  have "tx_good (s\<lparr>malloc_failed := True\<rparr>) = tx_good s" by (rule tx_good_cong) simp_all
  with assms show "tx_good (s\<lparr>malloc_failed := True\<rparr>)" by (simp add: link_good_def)
  have "rx_good r (s\<lparr>malloc_failed := True\<rparr>) = rx_good r s" for r
    by (simp add: rx_good_def)
  then show "rx_good r s \<Longrightarrow> rx_good r (s\<lparr>malloc_failed := True\<rparr>)" for r by simp
qed (use assms in \<open>simp_all add: link_good_def\<close>)

lemma read_length_good:
  assumes "link_good s" and "rx_task s p = Rx_word w" and "chan s \<noteq> []"
  shows "link_good (read_length p w s)"
proof -
  obtain k ls where k: "chan s = k # ls" using assms(3) by (cases "chan s") auto
  show ?thesis
  proof (cases "k = Tok_word 0 \<and> w")
    case True
    with malloc_failed_good[OF assms(1)] k show ?thesis by (simp add: read_length_def)
  next
    case nonempty: False
    show ?thesis
    proof (rule read_good[OF assms(1,2) _ k])
    fix r
    assume i: "rx_inv (received s) (rx_len s) p (Rx_word w) r" and n: "read_token (Some r) k \<noteq> None"
    then obtain x where x: "k = Tok_word x" by (cases k) auto
    show "\<exists>q' l v. read_length p w s = rx_to p q' (s\<lparr>chan := ls, rx_len := l, returned := v\<rparr>) \<and>
        rx_inv (received s) l p q' (the (read_token (Some r) k))"
    proof (cases w)
      case True
      with k x nonempty have "read_length p w s =
          rx_to p (Rx_whole (unat x) []) (s\<lparr>chan := ls, rx_len := rx_len s, returned := returned s\<rparr>)"
        by (simp add: read_length_def)
      moreover from i x have "rx_inv (received s) (rx_len s) p (Rx_whole (unat x) []) (the (read_token (Some r) k))"
        by simp
      ultimately show ?thesis by blast
    next
      case False
      with i k x show ?thesis
        by (intro exI[of _ "Rx_between (unat x) []"] exI[of _ "unat x"] exI[of _ "(returned s)(p := unat x)"])
          (simp add: read_length_def Let_def)
    qed
    qed simp
  qed
qed

lemma read_byte_good:
  assumes "link_good s" and "rx_task s p = q" and "rx_active q" and "chan s \<noteq> []"
    and "\<And>r b. rx_inv (received s) (rx_len s) p q r \<Longrightarrow>
           \<exists>n d. r = (received s, At_data p n d) \<and>
             rx_inv (received s) (rx_len s) p (next b) (target (received s) p n (d @ [b]))"
  shows "link_good (read_byte p next s)"
proof -
  obtain k ls where k: "chan s = k # ls" using assms(4) by (cases "chan s") auto
  show ?thesis
  proof (rule read_good[OF assms(1,2,3) k])
    fix r
    assume i: "rx_inv (received s) (rx_len s) p q r" and n: "read_token (Some r) k \<noteq> None"
    obtain n d where "r = (received s, At_data p n d)" using assms(5)[OF i] by blast
    with n obtain b where b: "k = Tok_byte b" by (cases k) auto
    with assms(5)[OF i, of b] k show "\<exists>q' l v. read_byte p next s =
        rx_to p q' (s\<lparr>chan := ls, rx_len := l, returned := v\<rparr>) \<and>
        rx_inv (received s) l p q' (the (read_token (Some r) k))"
      by (intro exI[of _ "next b"] exI[of _ "rx_len s"] exI[of _ "returned s"]) (auto simp: read_byte_def)
  qed
qed

lemma hand_over_good:
  assumes "link_good s" and "rx_active (rx_task s p)"
    and "\<And>r. rx_inv (received s) (rx_len s) p (rx_task s p) r \<Longrightarrow> r = (received s @ [(p, m)], At_port) \<and> l = 0"
  shows "link_good (hand_over p m (s\<lparr>rx_len := l\<rparr>))"
proof (rule quiet_good[OF assms(1)])
  have "tx_good (hand_over p m (s\<lparr>rx_len := l\<rparr>)) = tx_good s"
    by (rule tx_good_cong) (simp_all add: hand_over_def rx_to_def)
  with assms(1) show "tx_good (hand_over p m (s\<lparr>rx_len := l\<rparr>))" by (simp add: link_good_def)
  fix r
  assume r: "rx_good r s"
  note a = rx_active_only[OF r assms(2)]
  from assms(3)[OF a(4)] a(2,3) show "rx_good r (hand_over p m (s\<lparr>rx_len := l\<rparr>))"
    by (simp add: rx_good_def hand_over_def rx_to_def)
qed (use assms in \<open>simp_all add: hand_over_def rx_to_def link_good_def\<close>)

lemma rx_move_good:
  assumes "link_good s" and "rx_active (rx_task s p)"
    and "\<And>r. rx_inv (received s) (rx_len s) p (rx_task s p) r \<Longrightarrow> rx_inv (received s) l p q r"
  shows "link_good (rx_to p q (s\<lparr>rx_len := l\<rparr>))"
proof (rule quiet_good[OF assms(1)])
  have "tx_good (rx_to p q (s\<lparr>rx_len := l\<rparr>)) = tx_good s"
    by (rule tx_good_cong) (simp_all add: rx_to_def)
  with assms(1) show "tx_good (rx_to p q (s\<lparr>rx_len := l\<rparr>))" by (simp add: link_good_def)
  fix r
  assume r: "rx_good r s"
  note a = rx_active_only[OF r assms(2)]
  from assms(3)[OF a(4)] a(1-3) show "rx_good r (rx_to p q (s\<lparr>rx_len := l\<rparr>))"
    by (intro rx_good_active[where p = p]) (simp_all add: rx_to_def)
qed (use assms in \<open>simp_all add: rx_to_def link_good_def\<close>)

lemma rx_quiet_good:
  assumes "link_good s" and "\<not> rx_active (rx_task s p)" and "\<not> rx_active q"
  shows "link_good (rx_to p q (s\<lparr>returned := v\<rparr>))"
proof (rule quiet_good[OF assms(1)])
  have "tx_good (rx_to p q (s\<lparr>returned := v\<rparr>)) = tx_good s"
    by (rule tx_good_cong) (simp_all add: rx_to_def)
  with assms(1) show "tx_good (rx_to p q (s\<lparr>returned := v\<rparr>))" by (simp add: link_good_def)
  show "rx_good r s \<Longrightarrow> rx_good r (rx_to p q (s\<lparr>returned := v\<rparr>))" for r
    by (rule rx_good_passive[OF _ assms(2,3)]) (simp_all add: rx_to_def)
qed (use assms in \<open>simp_all add: rx_to_def link_good_def\<close>)

lemma rx_event_good:
  assumes "link_good s" and "rx_task s p = Rx_wait w" and "p \<in> events s"
  shows "link_good (rx_to p (Rx_word w) (s\<lparr>events := events s - {p}\<rparr>))" (is "link_good ?s")
proof (rule quiet_good[OF assms(1)])
  have "tx_good ?s = tx_good s" by (rule tx_good_cong) (simp_all add: rx_to_def)
  with assms(1) show "tx_good ?s" by (simp add: link_good_def)
  fix r
  assume r: "rx_good r s"
  with assms(3) have "\<not> trigger s" "events s = {p}" "\<forall>q. \<not> rx_active (rx_task s q)"
    "r = (received s, At_length p)" "rx_len s = 0"
    by (auto simp: rx_good_def split: if_splits)
  then show "rx_good r ?s"
    by (intro rx_good_active[where p = p]) (simp_all add: rx_to_def)
qed (use assms in \<open>simp_all add: rx_to_def link_good_def\<close>)

lemma rx_step_link_good:
  assumes "rx_step s s'" and "link_good s"
  shows "link_good s'"
  using assms
proof (induction rule: rx_step.induct)
  case (isr s)
  then show ?case by (simp add: isr_good)
next
  case (rx_call s p w)
  then show ?case using rx_quiet_good[of s p "Rx_wait w" "returned s"] by simp
next
  case (rx_timed_out s p w)
  then show ?case
    using rx_quiet_good[of s p Rx_idle "returned s"] rx_quiet_good[of s p Rx_idle "(returned s)(p := rx_len s)"]
    by (simp add: rx_timeout_def)
next
  case (rx_event s p w)
  then show ?case by (simp add: rx_event_good)
next
  case (rx_word s p w)
  then show ?case by (simp add: read_length_good)
next
  case (rx_byte s p n d)
  show ?case
  proof (rule read_byte_good[OF rx_byte(4,1) _ rx_byte(3)])
    fix r b
    assume "rx_inv (received s) (rx_len s) p (Rx_whole n d) r"
    with rx_byte(2) show "\<exists>n' d'. r = (received s, At_data p n' d') \<and>
        rx_inv (received s) (rx_len s) p (Rx_whole n (d @ [b])) (target (received s) p n' (d' @ [b]))"
      by (intro exI[of _ n] exI[of _ d]) (simp add: target_def)
  qed simp
next
  case (rx_return s p n d)
  then show ?case
    using hand_over_good[of s p d "rx_len s"] by (simp add: target_def)
next
  case (rx_data_call s p n d k)
  then show ?case
    using rx_move_good[of s p "rx_len s" "Rx_piece n d (min k (rx_len s)) []"] by simp
next
  case (rx_data_byte s p n d k e)
  show ?case
  proof (rule read_byte_good[OF rx_data_byte(4,1) _ rx_data_byte(3)])
    fix r b
    assume "rx_inv (received s) (rx_len s) p (Rx_piece n d k e) r"
    with rx_data_byte(2) show "\<exists>n' d'. r = (received s, At_data p n' d') \<and>
        rx_inv (received s) (rx_len s) p (Rx_piece n d k (e @ [b])) (target (received s) p n' (d' @ [b]))"
      by (intro exI[of _ n] exI[of _ "d @ e"]) (simp add: target_def)
  qed simp
next
  case (rx_data_return s p n d k e)
  obtain c r where "rx_good r s" by (rule link_good_parts[OF rx_data_return(3)])
  from rx_active_only(4)[OF this, of p] rx_data_return(1) have k: "k \<le> rx_len s" by simp
  show ?case
  proof (cases "rx_len s = k")
    case True
    with rx_data_return show ?thesis
      using hand_over_good[of s p "d @ e" "rx_len s - k"] by (simp add: rx_data_end_def target_def)
  next
    case False
    with k rx_data_return(2) have "rx_data_end p n d e s = rx_to p (Rx_between n (d @ e)) (s\<lparr>rx_len := rx_len s - k\<rparr>)"
      by (simp add: rx_data_end_def)
    moreover have "link_good (rx_to p (Rx_between n (d @ e)) (s\<lparr>rx_len := rx_len s - k\<rparr>))"
      by (rule rx_move_good[OF rx_data_return(3)]) (use rx_data_return(1,2) in simp_all)
    ultimately show ?thesis by simp
  qed
qed

lemma link_reachable_good:
  "link_step\<^sup>*\<^sup>* link_start s \<Longrightarrow> link_good s"
  by (induction rule: rtranclp_induct)
    (auto simp: link_start_good link_step_def tx_step_link_good rx_step_link_good)

definition in_channel :: "link \<Rightarrow> (byte \<times> byte list) list" where
  "in_channel s = under_way (holder s)"

lemma tx_after_under_way: "fst (tx_after p ms) = ms @ under_way p"
  by (cases p) (auto simp: target_def)

lemma rx_inv_received: "rx_inv ms l p q r \<Longrightarrow> prefix ms (fst r)"
  by (cases q) (auto simp: target_def)

lemma rx_good_received:
  assumes "rx_good r s"
  shows "prefix (received s) (fst r)"
proof (cases "trigger s")
  case True
  with assms show ?thesis by (simp add: rx_good_def)
next
  case False
  with assms show ?thesis
    unfolding rx_good_def by (auto dest: rx_inv_received)
qed

lemma link_good_order:
  assumes "link_good s"
  shows "prefix (received s) (sent s @ in_channel s)"
    and "chan s = [] \<Longrightarrow> trigger s \<Longrightarrow> lock s = None \<Longrightarrow> received s = sent s"
proof -
  obtain c r where c: "wire s = c @ chan s" "parse c = Some r" "rx_good r s"
    by (rule link_good_parts[OF assms])
  from assms have t: "parse (wire s @ still_out (holder s)) = Some (tx_after (holder s) (sent s))"
    by (simp add: link_good_def tx_good_def tx_inv_def)
  obtain q where q: "tx_after (holder s) (sent s) = (sent s @ in_channel s, q)"
    using tx_after_under_way[of "holder s" "sent s"] by (metis in_channel_def prod.collapse)
  have "parse c = Some (fst r, snd r)" using c(2) by simp
  moreover have "parse (c @ (chan s @ still_out (holder s))) = Some (sent s @ in_channel s, q)"
    using t c(1) q by simp
  ultimately have "prefix (fst r) (sent s @ in_channel s)" by (rule parse_messages)
  with rx_good_received[OF c(3)] show "prefix (received s) (sent s @ in_channel s)"
    by (rule prefix_order.trans)
  assume i: "chan s = []" "trigger s" "lock s = None"
  then have "r = (received s, At_port)" using c(3) by (simp add: rx_good_def)
  with i t c(1,2) show "received s = sent s" by (simp add: holder_def)
qed

text \<open>What goes out only grows, and so do the messages sent or on their way.\<close>

lemma tx_step_out:
  assumes "tx_step s s'" and "tx_good s"
  shows "\<exists>ls. wire s' @ still_out (holder s') = wire s @ still_out (holder s) @ ls"
  using assms
proof cases
  case (tx_call t port m)
  then show ?thesis by (simp add: holder_def tx_defs)
next
  case (tx_len_call t port n)
  then show ?thesis using tx_good_free(2)[OF assms(2)] by (simp add: holder_def tx_defs)
next
  case (tx_data_call t port n d ds)
  then show ?thesis using tx_good_busy[OF assms(2), of t] by (simp add: holder_def tx_defs)
next
  case (tx_whole_out t port m k ks)
  then show ?thesis using tx_good_busy[OF assms(2), of t] by (simp add: holder_def tx_defs)
next
  case (tx_length_out t port n k ks)
  then show ?thesis using tx_good_busy[OF assms(2), of t] by (simp add: holder_def tx_defs)
next
  case (tx_piece_out t port n d piece k ks)
  then show ?thesis using tx_good_busy[OF assms(2), of t] by (simp add: holder_def tx_defs)
next
  case (tx_return t port m)
  then show ?thesis using tx_good_busy[OF assms(2), of t] by (simp add: holder_def tx_defs)
next
  case (tx_len_return t port n)
  then show ?thesis using tx_good_busy[OF assms(2), of t] by (simp add: holder_def tx_defs)
next
  case (tx_data_return t port n d piece)
  then show ?thesis using tx_good_busy[OF assms(2), of t] by (simp add: holder_def tx_defs)
qed

lemma rx_step_out:
  assumes "rx_step s s'"
  shows "wire s' = wire s \<and> holder s' = holder s \<and> sent s' = sent s"
  using assms
  by cases (auto simp: holder_def rtos_intertile_isr_def read_length_def read_byte_def hand_over_def
      rx_data_end_def rx_timeout_def rx_to_def Let_def split: list.split token.split option.split)

lemma link_good_out:
  assumes "link_good s"
  obtains q where "parse (wire s @ still_out (holder s)) = Some (sent s @ in_channel s, q)"
proof -
  from assms have "parse (wire s @ still_out (holder s)) = Some (tx_after (holder s) (sent s))"
    by (simp add: link_good_def tx_good_def tx_inv_def)
  with that show thesis
    using tx_after_under_way[of "holder s" "sent s"] by (metis in_channel_def prod.collapse)
qed

lemma messages_grow:
  assumes "link_step s s'" and "link_good s" and "link_good s'"
  shows "prefix (sent s @ in_channel s) (sent s' @ in_channel s')"
proof (cases "rx_step s s'")
  case True
  from rx_step_out[OF this] show ?thesis by (simp add: in_channel_def)
next
  case False
  with assms(1) have "tx_step s s'" by (simp add: link_step_def)
  from tx_step_out[OF this link_good_tx_cong(1)[OF assms(2)]] obtain ls where
    ls: "wire s' @ still_out (holder s') = (wire s @ still_out (holder s)) @ ls" by auto
  obtain q q' where "parse (wire s @ still_out (holder s)) = Some (sent s @ in_channel s, q)"
    "parse (wire s' @ still_out (holder s')) = Some (sent s' @ in_channel s', q')"
    using link_good_out[OF assms(2)] link_good_out[OF assms(3)] by metis
  then show ?thesis unfolding ls by (rule parse_messages)
qed

text \<open>The allocation of a message fails for an empty one only.\<close>

definition empty_sent :: "link \<Rightarrow> bool" where
  "empty_sent s \<longleftrightarrow> [] \<in> snd ` set (sent s @ in_channel s)"

lemma empty_length_sent:
  assumes "link_good s" and "rx_task s p = Rx_word w" and "chan s = Tok_word 0 # ks"
  shows "empty_sent s"
proof -
  obtain c r where c: "wire s = c @ chan s" "parse c = Some r" "rx_good r s"
    by (rule link_good_parts[OF assms(1)])
  obtain q where q: "parse (wire s @ still_out (holder s)) = Some (sent s @ in_channel s, q)"
    by (rule link_good_out[OF assms(1)])
  have "r = (received s, At_length p)" using rx_active_only(4)[OF c(3), of p] assms(2) by simp
  then have "parse (c @ [Tok_word 0]) = Some (received s @ [(p, [])], At_port)"
    using c(2) by (simp add: parse_snoc target_def)
  moreover have "parse ((c @ [Tok_word 0]) @ ks @ still_out (holder s)) = Some (sent s @ in_channel s, q)"
    using q c(1) assms(3) by simp
  ultimately have "prefix (received s @ [(p, [])]) (sent s @ in_channel s)" by (rule parse_messages)
  then have "set (received s @ [(p, [])]) \<subseteq> set (sent s @ in_channel s)" by (rule set_mono_prefix)
  then have "(p, []) \<in> set (sent s @ in_channel s)" by simp
  then show ?thesis unfolding empty_sent_def by (metis image_eqI snd_conv)
qed

lemma malloc_failed_step:
  assumes "link_step s s'" and "link_good s" and "malloc_failed s' \<and> \<not> malloc_failed s"
  shows "empty_sent s"
proof -
  have "rx_step s s'"
    using assms(1,3) unfolding link_step_def
    by (auto elim!: tx_step.cases simp: tx_defs split: if_splits)
  then show ?thesis
  proof cases
    case (rx_word p w)
    with assms(3) obtain ks where "chan s = Tok_word 0 # ks"
      by (auto simp: read_length_def rx_to_def Let_def split: list.splits token.splits if_splits)
    with rx_word empty_length_sent[OF assms(2)] show ?thesis by blast
  qed (use assms(3) in \<open>auto simp: rtos_intertile_isr_def read_byte_def hand_over_def
      rx_data_end_def rx_timeout_def rx_to_def Let_def split: list.splits token.splits if_splits\<close>)
qed

lemma malloc_failed_empty:
  "link_step\<^sup>*\<^sup>* link_start s \<Longrightarrow> malloc_failed s \<Longrightarrow> empty_sent s"
proof (induction rule: rtranclp_induct)
  case base
  then show ?case by (simp add: link_start_def)
next
  case (step s s')
  note good = link_reachable_good[OF step(1)]
    link_reachable_good[OF rtranclp.rtrancl_into_rtrancl[OF step(1,2)]]
  have "empty_sent s" using step(3,4) malloc_failed_step[OF step(2) good(1)] by blast
  moreover have "set (sent s @ in_channel s) \<subseteq> set (sent s' @ in_channel s')"
    using messages_grow[OF step(2) good] by (rule set_mono_prefix)
  ultimately show ?case unfolding empty_sent_def by blast
qed


lemma link_tx:
  "link_step\<^sup>*\<^sup>* link_start s \<Longrightarrow> tx_step s s' \<Longrightarrow> link_step\<^sup>*\<^sup>* link_start s'"
  by (auto simp: link_step_def intro: rtranclp.rtrancl_into_rtrancl)

lemma link_rx:
  "link_step\<^sup>*\<^sup>* link_start s \<Longrightarrow> rx_step s s' \<Longrightarrow> link_step\<^sup>*\<^sup>* link_start s'"
  by (auto simp: link_step_def intro: rtranclp.rtrancl_into_rtrancl)

text \<open>
  A task takes the length of a message for port 0; another, for whose port nothing was ever sent,
  then calls \<open>rtos_intertile_rx_len\<close> on port 1 and is told that length when its time is up.
\<close>

definition length_out :: link where
  "length_out = tx_to 0 (Tx_length 0 5 []) (put_token (Tok_word 5)
     (tx_to 0 (Tx_length 0 5 [Tok_word 5]) (put_token (Tok_byte 0) (tx_len_begin 0 0 5 link_start))))"

definition length_taken :: link where
  "length_taken =
     (let s = rx_to 0 (Rx_wait False) (rtos_intertile_isr length_out)
      in read_length 0 False (rx_to 0 (Rx_word False) (s\<lparr>events := events s - {0}\<rparr>)))"

definition told_of_other :: link where
  "told_of_other = rx_timeout 1 False (rx_to 1 (Rx_wait False) length_taken)"

lemma length_out_reachable: "link_step\<^sup>*\<^sup>* link_start length_out"
proof -
  let ?a = "tx_len_begin 0 0 5 link_start"
  have a: "link_step\<^sup>*\<^sup>* link_start ?a"
    by (rule link_tx[OF rtranclp.rtrancl_refl tx_len_call]) (simp_all add: link_start_def has_event_def)
  let ?b = "tx_to 0 (Tx_length 0 5 [Tok_word 5]) (put_token (Tok_byte 0) ?a)"
  have b: "link_step\<^sup>*\<^sup>* link_start ?b"
    by (rule link_tx[OF a tx_length_out]) (simp add: tx_defs link_start_def header_def)
  show ?thesis
    unfolding length_out_def
    by (rule link_tx[OF b tx_length_out]) (simp add: tx_defs link_start_def header_def)
qed

lemmas length_run_defs = length_out_def length_taken_def tx_defs rx_defs link_start_def header_def

lemma length_taken_reachable: "link_step\<^sup>*\<^sup>* link_start length_taken"
proof -
  let ?a = "rtos_intertile_isr length_out" let ?b = "rx_to 0 (Rx_wait False) ?a"
  let ?c = "rx_to 0 (Rx_word False) (?b\<lparr>events := events ?b - {0}\<rparr>)"
  have a: "link_step\<^sup>*\<^sup>* link_start ?a"
    by (rule link_rx[OF length_out_reachable isr]) (simp_all add: length_run_defs)
  have b: "link_step\<^sup>*\<^sup>* link_start ?b"
    by (rule link_rx[OF a rx_call]) (simp add: length_run_defs)
  have c: "link_step\<^sup>*\<^sup>* link_start ?c"
    by (rule link_rx[OF b rx_event[where whole = False]]) (simp_all add: length_run_defs)
  have "link_step\<^sup>*\<^sup>* link_start (read_length 0 False ?c)"
    by (rule link_rx[OF c rx_word]) (simp_all add: length_run_defs)
  then show ?thesis by (simp add: length_taken_def Let_def)
qed

lemma rx_len_of_other_port:
  "link_step\<^sup>*\<^sup>* link_start told_of_other \<and> returned told_of_other 1 = 5 \<and> wire told_of_other = header 0 5"
proof -
  have a: "link_step\<^sup>*\<^sup>* link_start (rx_to 1 (Rx_wait False) length_taken)"
    by (rule link_rx[OF length_taken_reachable rx_call]) (simp add: length_run_defs)
  have "link_step\<^sup>*\<^sup>* link_start told_of_other"
    unfolding told_of_other_def by (rule link_rx[OF a rx_timed_out]) (simp add: rx_to_def)
  then show ?thesis by (simp add: told_of_other_def length_run_defs)
qed

lemma rx_empty_message_asserts:
  "chan s = Tok_word 0 # ks \<Longrightarrow> malloc_failed (read_length port True s)"
  by (simp add: read_length_def)


end
