(* ===== verification/Pipeline.thy ===== *)
theory Pipeline
  imports Prelude "HOL-Library.Sublist"
begin

text \<open>
  The generic pipeline (modules/sw_services/generic_pipeline/src/generic_pipeline.c): one task
  per stage, queues of two frame pointers between them. A frame is an address, the heap maps it
  to its content; the application's callbacks choose which frame comes in and what happens to one
  that comes out. \<open>fs i\<close> is what stage \<open>i\<close> does to the content, \<open>n\<close> the number of stages.
\<close>

text \<open>
  Where the loop of a stage is: before its input, before \<open>stage_function\<close> and before its output.
  \<open>inputs\<close> and \<open>outputs\<close> are the contents of the frames that came in and went out, which the
  code does not keep, and \<open>fault\<close> is set by an access to a frame that is not allocated.
\<close>

datatype stage_pc = Get | Process nat | Put nat

record 'd pipeline =
  heap :: "nat \<Rightarrow> 'd option"
  queues :: "nat \<Rightarrow> nat list"
  stage_pc :: "nat \<Rightarrow> stage_pc"
  inputs :: "'d list"
  outputs :: "'d list"
  fault :: bool

section \<open>The stages\<close>

definition pc_to :: "nat \<Rightarrow> stage_pc \<Rightarrow> 'd pipeline \<Rightarrow> 'd pipeline" where
  "pc_to i p s = s\<lparr>stage_pc := (stage_pc s)(i := p)\<rparr>"

definition set_queue :: "nat \<Rightarrow> nat list \<Rightarrow> 'd pipeline \<Rightarrow> 'd pipeline" where
  "set_queue i q s = s\<lparr>queues := (queues s)(i := q)\<rparr>"

definition stage_receive :: "nat \<Rightarrow> 'd pipeline \<Rightarrow> 'd pipeline" where
  "stage_receive i s =
     (case queues s (i - 1) of [] \<Rightarrow> s | a # q \<Rightarrow> pc_to i (Process a) (set_queue (i - 1) q s))"

definition stage_input :: "nat \<Rightarrow> 'd \<Rightarrow> 'd pipeline \<Rightarrow> 'd pipeline" where
  "stage_input a d s = pc_to 0 (Process a) (s\<lparr>heap := (heap s)(a \<mapsto> d), inputs := inputs s @ [d]\<rparr>)"

definition stage_process :: "('d \<Rightarrow> 'd) \<Rightarrow> nat \<Rightarrow> nat \<Rightarrow> 'd pipeline \<Rightarrow> 'd pipeline" where
  "stage_process f i a s =
     (case heap s a of
        None \<Rightarrow> s\<lparr>fault := True\<rparr>
      | Some d \<Rightarrow> pc_to i (Put a) (s\<lparr>heap := (heap s)(a \<mapsto> f d)\<rparr>))"

definition stage_send :: "nat \<Rightarrow> nat \<Rightarrow> 'd pipeline \<Rightarrow> 'd pipeline" where
  "stage_send i a s = pc_to i Get (set_queue i (queues s i @ [a]) s)"

text \<open>\<open>release\<close> is whether the output callback asks for the frame to be freed.\<close>

definition stage_output :: "nat \<Rightarrow> nat \<Rightarrow> bool \<Rightarrow> 'd pipeline \<Rightarrow> 'd pipeline" where
  "stage_output i a release s =
     (case heap s a of
        None \<Rightarrow> s\<lparr>fault := True\<rparr>
      | Some d \<Rightarrow>
          let s1 = s\<lparr>outputs := outputs s @ [d]\<rparr>
          in pc_to i Get (if release then s1\<lparr>heap := (heap s)(a := None)\<rparr> else s1))"

text \<open>One step of a stage; the queue of two blocks a sender that finds it full.\<close>

inductive stage_step :: "(nat \<Rightarrow> 'd \<Rightarrow> 'd) \<Rightarrow> nat \<Rightarrow> 'd pipeline \<Rightarrow> 'd pipeline \<Rightarrow> bool" for fs n where
  fetch: "0 < i \<Longrightarrow> i < n \<Longrightarrow> stage_pc s i = Get \<Longrightarrow> queues s (i - 1) \<noteq> [] \<Longrightarrow>
    stage_step fs n s (stage_receive i s)"
| process: "i < n \<Longrightarrow> stage_pc s i = Process a \<Longrightarrow> stage_step fs n s (stage_process (fs i) i a s)"
| send: "Suc i < n \<Longrightarrow> stage_pc s i = Put a \<Longrightarrow> length (queues s i) < 2 \<Longrightarrow>
    stage_step fs n s (stage_send i a s)"
| deliver: "Suc i = n \<Longrightarrow> stage_pc s i = Put a \<Longrightarrow> stage_step fs n s (stage_output i a release s)"

text \<open>
  The frames in the pipeline, oldest first, each with the number of stages it has been through
  and how far it has come.
\<close>

type_synonym flight = "nat \<times> nat \<times> nat"

definition held_frames :: "'d pipeline \<Rightarrow> nat \<Rightarrow> flight list" where
  "held_frames s i =
     (case stage_pc s i of
        Get \<Rightarrow> [] | Process a \<Rightarrow> [(a, i, 3 * i + 1)] | Put a \<Rightarrow> [(a, Suc i, 3 * i + 2)])"

definition queued_frames :: "'d pipeline \<Rightarrow> nat \<Rightarrow> flight list" where
  "queued_frames s i = (if i = 0 then [] else map (\<lambda>a. (a, i, 3 * i)) (queues s (i - 1)))"

primrec in_flight :: "'d pipeline \<Rightarrow> nat \<Rightarrow> flight list" where
  "in_flight s 0 = []"
| "in_flight s (Suc i) = held_frames s i @ queued_frames s i @ in_flight s i"

text \<open>The first stage asks the application, which gives a frame that is not in the pipeline.\<close>

inductive pipeline_step :: "(nat \<Rightarrow> 'd \<Rightarrow> 'd) \<Rightarrow> nat \<Rightarrow> 'd pipeline \<Rightarrow> 'd pipeline \<Rightarrow> bool" for fs n where
  stage: "stage_step fs n s s' \<Longrightarrow> pipeline_step fs n s s'"
| accept: "0 < n \<Longrightarrow> stage_pc s 0 = Get \<Longrightarrow> a \<notin> fst ` set (in_flight s n) \<Longrightarrow>
    pipeline_step fs n s (stage_input a d s)"

text \<open>The pipeline at its start and the names of its tasks.\<close>

definition pipeline_start :: "(nat \<Rightarrow> 'd option) \<Rightarrow> 'd pipeline" where
  "pipeline_start m =
     \<lparr>heap = m, queues = (\<lambda>_. []), stage_pc = (\<lambda>_. Get), inputs = [], outputs = [], fault = False\<rparr>"

definition generic_pipeline_init ::
  "nat \<Rightarrow> (nat \<Rightarrow> 'd option) \<Rightarrow> (string list \<times> 'd pipeline) res" where
  "generic_pipeline_init stage_count m =
     xassert (stage_count < 10)
       (Inr (map (\<lambda>i. ''stage'' @ [char_of (i + 48)]) [0..<stage_count], pipeline_start m))"

section \<open>How a step moves the frames\<close>

primrec staged :: "(nat \<Rightarrow> 'd \<Rightarrow> 'd) \<Rightarrow> nat \<Rightarrow> 'd \<Rightarrow> 'd" where
  "staged fs 0 d = d"
| "staged fs (Suc k) d = fs k (staged fs k d)"

lemma in_flight_cong:
  assumes "\<And>j. j < i \<Longrightarrow> held_frames s j = held_frames s' j"
    and "\<And>j. j < i \<Longrightarrow> queued_frames s j = queued_frames s' j"
  shows "in_flight s i = in_flight s' i"
  using assms by (induction i) auto

text \<open>The frames past stage \<open>i\<close>.\<close>

primrec beyond :: "'d pipeline \<Rightarrow> nat \<Rightarrow> nat \<Rightarrow> flight list" where
  "beyond s i 0 = []"
| "beyond s i (Suc m) = (if i < m then held_frames s m @ queued_frames s m @ beyond s i m else [])"

lemma in_flight_split:
  "i < n \<Longrightarrow> in_flight s n = beyond s i n @ held_frames s i @ queued_frames s i @ in_flight s i"
  by (induction n) (auto simp: less_Suc_eq)

lemma beyond_Suc:
  "Suc i < n \<Longrightarrow> beyond s i n = beyond s (Suc i) n @ held_frames s (Suc i) @ queued_frames s (Suc i)"
  by (induction n) (auto simp: less_Suc_eq)

lemma beyond_last [simp]: "beyond s i (Suc i) = []"
  by simp

lemma beyond_cong:
  assumes "\<And>j. i < j \<Longrightarrow> held_frames s j = held_frames s' j"
    and "\<And>j. i < j \<Longrightarrow> queued_frames s j = queued_frames s' j"
  shows "beyond s i n = beyond s' i n"
  using assms by (induction n) auto

lemma pc_to_simps [simp]:
  "heap (pc_to i p s) = heap s" "queues (pc_to i p s) = queues s" "inputs (pc_to i p s) = inputs s"
  "outputs (pc_to i p s) = outputs s" "fault (pc_to i p s) = fault s"
  "stage_pc (pc_to i p s) = (stage_pc s)(i := p)"
  "queued_frames (pc_to i p s) j = queued_frames s j"
  by (simp_all add: pc_to_def queued_frames_def)

lemma set_queue_simps [simp]:
  "heap (set_queue i q s) = heap s" "stage_pc (set_queue i q s) = stage_pc s"
  "inputs (set_queue i q s) = inputs s" "outputs (set_queue i q s) = outputs s"
  "fault (set_queue i q s) = fault s" "queues (set_queue i q s) = (queues s)(i := q)"
  "held_frames (set_queue i q s) j = held_frames s j"
  by (simp_all add: set_queue_def held_frames_def)

lemma held_pc_to [simp]: "j \<noteq> i \<Longrightarrow> held_frames (pc_to i p s) j = held_frames s j"
  by (simp add: held_frames_def)

text \<open>Changes of the heap and of what came in and went out do not move frames.\<close>

lemma in_flight_other [simp]:
  "in_flight (s\<lparr>heap := h\<rparr>) n = in_flight s n" "in_flight (s\<lparr>outputs := os\<rparr>) n = in_flight s n"
  "in_flight (s\<lparr>inputs := is\<rparr>) n = in_flight s n"
  by (rule in_flight_cong; simp add: held_frames_def queued_frames_def)+

lemma set_queue_queued [simp]:
  "queued_frames (set_queue k q s) j = (if j = Suc k then map (\<lambda>a. (a, j, 3 * j)) q else queued_frames s j)"
  by (auto simp: queued_frames_def)

lemma flight_pc_to [simp]:
  "i < n \<Longrightarrow> in_flight (pc_to i p s) n
     = beyond s i n @ held_frames (pc_to i p s) i @ queued_frames s i @ in_flight s i"
proof -
  assume "i < n"
  moreover have "beyond (pc_to i p s) i n = beyond s i n" "in_flight (pc_to i p s) i = in_flight s i"
    by (rule beyond_cong in_flight_cong; simp)+
  ultimately show ?thesis by (simp add: in_flight_split)
qed

lemma held_pc_to_same [simp]:
  "held_frames (pc_to i Get s) i = []"
  "held_frames (pc_to i (Process a) s) i = [(a, i, 3 * i + 1)]"
  "held_frames (pc_to i (Put a) s) i = [(a, Suc i, 3 * i + 2)]"
  by (simp_all add: held_frames_def)

text \<open>Every step moves one frame on, brings one in behind all others or takes the first one out.\<close>

lemma receive_moves:
  assumes "0 < i" and "i < n" and "stage_pc s i = Get" and "queues s (i - 1) = a # q"
  shows "in_flight s n = beyond s i n @ (a, i, 3 * i) # map (\<lambda>a. (a, i, 3 * i)) q @ in_flight s i"
    and "in_flight (stage_receive i s) n
      = beyond s i n @ (a, i, 3 * i + 1) # map (\<lambda>a. (a, i, 3 * i)) q @ in_flight s i"
proof -
  show "in_flight s n = beyond s i n @ (a, i, 3 * i) # map (\<lambda>a. (a, i, 3 * i)) q @ in_flight s i"
    using assms by (simp add: in_flight_split held_frames_def queued_frames_def)
  have "beyond (set_queue (i - 1) q s) i n = beyond s i n"
    "in_flight (set_queue (i - 1) q s) i = in_flight s i"
    using assms(1) by (auto intro!: beyond_cong in_flight_cong)
  with assms show "in_flight (stage_receive i s) n
      = beyond s i n @ (a, i, 3 * i + 1) # map (\<lambda>a. (a, i, 3 * i)) q @ in_flight s i"
    by (simp add: stage_receive_def)
qed

lemma send_moves:
  assumes "Suc i < n" and "stage_pc s i = Put a"
  defines "xs \<equiv> beyond s i n" and "ys \<equiv> queued_frames s i @ in_flight s i"
  shows "in_flight s n = xs @ (a, Suc i, 3 * i + 2) # ys"
    and "in_flight (stage_send i a s) n = xs @ (a, Suc i, 3 * i + 3) # ys"
proof -
  let ?s = "set_queue i (queues s i @ [a]) s"
  have "held_frames s i = [(a, Suc i, 3 * i + 2)]" using assms(2) by (simp add: held_frames_def)
  with assms(1) show "in_flight s n = xs @ (a, Suc i, 3 * i + 2) # ys"
    by (simp add: in_flight_split [of i n] xs_def ys_def)
  have "beyond ?s (Suc i) n = beyond s (Suc i) n" "in_flight ?s i = in_flight s i"
    by (rule beyond_cong in_flight_cong; simp)+
  with assms(1) show "in_flight (stage_send i a s) n = xs @ (a, Suc i, 3 * i + 3) # ys"
    by (simp add: stage_send_def xs_def ys_def beyond_Suc) (simp add: queued_frames_def)
qed

lemma process_moves:
  assumes "i < n" and "stage_pc s i = Process a"
  defines "xs \<equiv> beyond s i n" and "ys \<equiv> queued_frames s i @ in_flight s i"
  shows "in_flight s n = xs @ (a, i, 3 * i + 1) # ys"
    and "heap s a = Some d \<Longrightarrow> in_flight (stage_process f i a s) n = xs @ (a, Suc i, 3 * i + 2) # ys"
proof -
  have "held_frames s i = [(a, i, 3 * i + 1)]" using assms(2) by (simp add: held_frames_def)
  with assms(1) show "in_flight s n = xs @ (a, i, 3 * i + 1) # ys"
    by (simp add: in_flight_split [of i n] xs_def ys_def)
  have "beyond (s\<lparr>heap := h\<rparr>) i n = beyond s i n" "queued_frames (s\<lparr>heap := h\<rparr>) i = queued_frames s i" for h
    by (rule beyond_cong; simp add: held_frames_def queued_frames_def)
      (simp add: queued_frames_def)
  with assms(1) show "heap s a = Some d \<Longrightarrow> in_flight (stage_process f i a s) n = xs @ (a, Suc i, 3 * i + 2) # ys"
    by (simp add: stage_process_def xs_def ys_def)
qed

lemma output_moves:
  assumes "n = Suc i" and "stage_pc s i = Put a"
  defines "ys \<equiv> queued_frames s i @ in_flight s i"
  shows "in_flight s n = (a, n, 3 * i + 2) # ys"
    and "heap s a = Some d \<Longrightarrow> in_flight (stage_output i a release s) n = ys"
proof -
  show "in_flight s n = (a, n, 3 * i + 2) # ys"
    using assms by (simp add: held_frames_def)
  have "queued_frames (s\<lparr>outputs := os\<rparr>) i = queued_frames s i"
    "queued_frames (s\<lparr>outputs := os, heap := h\<rparr>) i = queued_frames s i" for h os
    by (simp_all add: queued_frames_def)
  with assms(1) show "heap s a = Some d \<Longrightarrow> in_flight (stage_output i a release s) n = ys"
    by (simp add: stage_output_def ys_def Let_def del: in_flight.simps)
qed

lemma input_moves:
  assumes "0 < n" and "stage_pc s 0 = Get"
  shows "in_flight (stage_input a d s) n = in_flight s n @ [(a, 0, 1)]"
proof -
  let ?s = "s\<lparr>heap := (heap s)(a \<mapsto> d), inputs := inputs s @ [d]\<rparr>"
  have "beyond ?s 0 n = beyond s 0 n"
    by (rule beyond_cong) (simp_all add: held_frames_def queued_frames_def)
  moreover have "queued_frames ?s 0 = []" "queued_frames s 0 = []" "held_frames s 0 = []"
    using assms(2) by (simp_all add: queued_frames_def held_frames_def)
  ultimately show ?thesis
    using assms(1) by (simp add: stage_input_def in_flight_split [of 0 n s])
qed

section \<open>The invariant\<close>

text \<open>\<open>flying\<close>: the frames hold these inputs, each as far as it has been through the stages.\<close>

definition flying :: "(nat \<Rightarrow> 'd \<Rightarrow> 'd) \<Rightarrow> (nat \<Rightarrow> 'd option) \<Rightarrow> flight list \<Rightarrow> 'd list \<Rightarrow> bool" where
  "flying fs h fl ds \<longleftrightarrow>
     distinct (map fst fl) \<and> list_all2 (\<lambda>(a, k, p) d. h a = Some (staged fs k d)) fl ds"

definition pipe_inv :: "(nat \<Rightarrow> 'd \<Rightarrow> 'd) \<Rightarrow> nat \<Rightarrow> 'd pipeline \<Rightarrow> bool" where
  "pipe_inv fs n s \<longleftrightarrow>
     \<not> fault s \<and> (\<forall>i. length (queues s i) \<le> 2) \<and>
     (\<exists>ds es. inputs s = ds @ es \<and> outputs s = map (staged fs n) ds \<and> flying fs (heap s) (in_flight s n) es)"

lemma contents_heap:
  "list_all2 (\<lambda>(a, k, p) d. h a = Some (staged fs k d)) fl ds \<Longrightarrow>
     (\<And>b. b \<in> fst ` set fl \<Longrightarrow> h' b = h b) \<Longrightarrow>
     list_all2 (\<lambda>(a, k, p) d. h' a = Some (staged fs k d)) fl ds"
  by (induction rule: list_all2_induct) auto

lemma flying_heap:
  "flying fs h fl ds \<Longrightarrow> (\<And>b. b \<in> fst ` set fl \<Longrightarrow> h' b = h b) \<Longrightarrow> flying fs h' fl ds"
  unfolding flying_def by (blast intro: contents_heap)

lemma flying_move:
  assumes "flying fs h (xs @ (a, k, p) # ys) ds"
    and "\<And>b. b \<noteq> a \<Longrightarrow> h' b = h b" and "\<And>d. h a = Some (staged fs k d) \<Longrightarrow> h' a = Some (staged fs k' d)"
  shows "flying fs h' (xs @ (a, k', p') # ys) ds"
proof -
  obtain ds1 d ds2 where ds: "ds = ds1 @ d # ds2"
    and l: "list_all2 (\<lambda>(a, k, p) d. h a = Some (staged fs k d)) xs ds1"
      "list_all2 (\<lambda>(a, k, p) d. h a = Some (staged fs k d)) ys ds2" "h a = Some (staged fs k d)"
    using assms(1) by (auto simp: flying_def list_all2_append1 list_all2_Cons1)
  have n: "distinct (map fst (xs @ (a, k, p) # ys))" using assms(1) by (simp add: flying_def)
  have "list_all2 (\<lambda>(a, k, p) d. h' a = Some (staged fs k d)) xs ds1"
    "list_all2 (\<lambda>(a, k, p) d. h' a = Some (staged fs k d)) ys ds2"
    using contents_heap [OF l(1), of h'] contents_heap [OF l(2), of h'] n assms(2) by force+
  with l n assms(3) show ?thesis
    by (auto simp: flying_def ds intro!: list_all2_appendI)
qed

lemma flying_first:
  assumes "flying fs h ((a, k, p) # ys) ds"
  obtains d ds' where "ds = d # ds'" "h a = Some (staged fs k d)" "flying fs h ys ds'" "a \<notin> fst ` set ys"
  using assms by (auto simp: flying_def list_all2_Cons1)

lemma flying_last:
  assumes "flying fs h fl ds" and "a \<notin> fst ` set fl"
  shows "flying fs (h(a \<mapsto> d)) (fl @ [(a, 0, p)]) (ds @ [d])"
proof -
  have "flying fs (h(a \<mapsto> d)) fl ds"
    by (rule flying_heap [OF assms(1)]) (use assms(2) in auto)
  with assms(2) show ?thesis by (simp add: flying_def list_all2_appendI)
qed

lemma pipe_inv_start: "pipe_inv fs n (pipeline_start m)"
proof -
  have "in_flight (pipeline_start m) k = []" for k
    by (induction k) (simp_all add: pipeline_start_def held_frames_def queued_frames_def)
  then show ?thesis by (simp add: pipe_inv_def flying_def) (simp add: pipeline_start_def)
qed

lemma pipe_inv_move:
  assumes i: "pipe_inv fs n s" and m: "in_flight s n = xs @ (a, k, p) # ys"
    and m': "in_flight s' n = xs @ (a, k', p') # ys"
    and "\<And>b. b \<noteq> a \<Longrightarrow> heap s' b = heap s b"
    and "\<And>d. heap s a = Some (staged fs k d) \<Longrightarrow> heap s' a = Some (staged fs k' d)"
    and "inputs s' = inputs s" "outputs s' = outputs s" "fault s' = fault s"
    and "\<forall>i. length (queues s' i) \<le> 2"
  shows "pipe_inv fs n s'"
proof -
  obtain ds es where e: "inputs s = ds @ es" "outputs s = map (staged fs n) ds"
    "flying fs (heap s) (in_flight s n) es" "\<not> fault s"
    using i by (auto simp: pipe_inv_def)
  from flying_move [OF e(3) [unfolded m], of "heap s'" k' p'] assms e
  show ?thesis by (auto simp: pipe_inv_def m')
qed

lemma stage_pc_in_flight:
  assumes "pipe_inv fs n s" and "in_flight s n = xs @ (a, k, p) # ys"
  obtains d where "heap s a = Some (staged fs k d)"
  using assms by (auto simp: pipe_inv_def flying_def list_all2_append1 list_all2_Cons1)

lemma stage_step_inv:
  assumes "stage_step fs n s s'" and i: "pipe_inv fs n s"
  shows "pipe_inv fs n s'"
  using assms(1)
proof cases
  case (fetch i)
  then obtain a q where q: "queues s (i - 1) = a # q" by (cases "queues s (i - 1)") auto
  note m = receive_moves [OF fetch(2-4) q]
  show ?thesis
    unfolding fetch(1)
    by (rule pipe_inv_move [OF i m]) (use i q in \<open>auto simp: stage_receive_def pipe_inv_def\<close>,
        metis Suc_leD length_Cons)
next
  case (process i a)
  note m = process_moves [OF process(2,3)]
  obtain d where d: "heap s a = Some (staged fs i d)" using stage_pc_in_flight [OF i m(1)] .
  show ?thesis
    unfolding process(1)
    by (rule pipe_inv_move [OF i m(1) m(2) [OF d]])
      (use d i in \<open>auto simp: stage_process_def pipe_inv_def\<close>)
next
  case (send i a)
  note m = send_moves [OF send(2,3)]
  show ?thesis
    unfolding send(1)
    by (rule pipe_inv_move [OF i m]) (use i send(4) in \<open>auto simp: stage_send_def pipe_inv_def\<close>)
next
  case (deliver i a release)
  note m = output_moves [OF deliver(2) [symmetric] deliver(3)]
  obtain ds es where e: "inputs s = ds @ es" "outputs s = map (staged fs n) ds"
    "flying fs (heap s) (in_flight s n) es" "\<not> fault s" "\<forall>i. length (queues s i) \<le> 2"
    using i by (auto simp: pipe_inv_def)
  obtain d es' where d: "es = d # es'" "heap s a = Some (staged fs n d)"
    and f: "flying fs (heap s) (queued_frames s i @ in_flight s i) es'"
      "a \<notin> fst ` set (queued_frames s i @ in_flight s i)"
    using flying_first [OF e(3) [unfolded m(1)]] by blast
  have "flying fs (heap s') (in_flight s' n) es'"
    unfolding deliver(1) m(2) [OF d(2)]
    by (rule flying_heap [OF f(1)]) (use f(2) d(2) in \<open>auto simp: stage_output_def Let_def\<close>)
  moreover have "inputs s' = (ds @ [d]) @ es'" "outputs s' = map (staged fs n) (ds @ [d])"
    "\<not> fault s'" "\<forall>i. length (queues s' i) \<le> 2"
    using e d by (auto simp: deliver(1) stage_output_def Let_def)
  ultimately show ?thesis unfolding pipe_inv_def by blast
qed

lemma pipeline_step_inv:
  assumes "pipeline_step fs n s s'" and i: "pipe_inv fs n s"
  shows "pipe_inv fs n s'"
  using assms(1)
proof cases
  case stage
  then show ?thesis using stage_step_inv i by blast
next
  case (accept a d)
  obtain ds es where "inputs s = ds @ es" "outputs s = map (staged fs n) ds"
    "flying fs (heap s) (in_flight s n) es" "\<not> fault s" "\<forall>i. length (queues s i) \<le> 2"
    using i by (auto simp: pipe_inv_def)
  with flying_last [OF _ accept(4), of fs "heap s" es d 1] input_moves [OF accept(2,3)]
  have "flying fs (heap s') (in_flight s' n) (es @ [d])" "inputs s' = ds @ (es @ [d])"
    "outputs s' = map (staged fs n) ds" "\<not> fault s'" "\<forall>i. length (queues s' i) \<le> 2"
    by (simp_all add: accept(1)) (simp_all add: stage_input_def)
  then show ?thesis unfolding pipe_inv_def by blast
qed

lemma pipeline_reachable_inv:
  "(pipeline_step fs n)\<^sup>*\<^sup>* (pipeline_start m) s \<Longrightarrow> pipe_inv fs n s"
  by (induction rule: rtranclp_induct) (auto intro: pipe_inv_start pipeline_step_inv)

section \<open>What the pipeline promises\<close>

lemma in_flight_bound:
  "\<forall>i. length (queues s i) \<le> 2 \<Longrightarrow> length (in_flight s n) \<le> 3 * n - 2"
proof -
  assume q: "\<forall>i. length (queues s i) \<le> 2"
  have "length (held_frames s i) \<le> 1" "length (queued_frames s i) \<le> (if i = 0 then 0 else 2)" for i
    using q by (auto simp: held_frames_def queued_frames_def split: stage_pc.split)
  then have "length (in_flight s (Suc i)) \<le> 3 * i + 1" for i
  proof (induction i)
    case (Suc i)
    have "length (in_flight s (Suc i)) \<le> 3 * i + 1" by (rule Suc.IH) (fact Suc.prems)+
    moreover have "length (held_frames s (Suc i)) \<le> 1" "length (queued_frames s (Suc i)) \<le> 2"
      using Suc.prems(1) Suc.prems(2) [of "Suc i"] by auto
    ultimately show ?case by simp
  qed (use q in \<open>simp add: held_frames_def queued_frames_def split: stage_pc.split\<close>)
  from this [of "n - 1"] show ?thesis by (cases n) auto
qed

text \<open>
  C23. However the stages of a pipeline are scheduled, no stage touches a frame that is not
  allocated, no frame is in two places, what comes out is what came in, in order and each
  through all stages, and at most 3 n - 2 frames are inside.
\<close>

theorem pipeline_in_order:
  assumes "(pipeline_step fs n)\<^sup>*\<^sup>* (pipeline_start m) s"
  shows "\<not> fault s \<and> distinct (map fst (in_flight s n))
    \<and> prefix (outputs s) (map (staged fs n) (inputs s))
    \<and> length (inputs s) = length (outputs s) + length (in_flight s n)
    \<and> length (in_flight s n) \<le> 3 * n - 2"
proof -
  obtain ds es where e: "inputs s = ds @ es" "outputs s = map (staged fs n) ds"
    "flying fs (heap s) (in_flight s n) es" "\<not> fault s" "\<forall>i. length (queues s i) \<le> 2"
    using pipeline_reachable_inv [OF assms] by (auto simp: pipe_inv_def)
  then have "length es = length (in_flight s n)"
    by (auto simp: flying_def dest: list_all2_lengthD)
  with e in_flight_bound [OF e(5), of n] show ?thesis by (simp add: flying_def)
qed

definition work :: "nat \<Rightarrow> 'd pipeline \<Rightarrow> nat" where
  "work n s = sum_list (map (\<lambda>(a, k, p). 3 * n - p) (in_flight s n))"

lemma stage_step_work:
  assumes "stage_step fs n s s'" and i: "pipe_inv fs n s"
  shows "work n s' < work n s" and "inputs s' = inputs s"
proof -
  have "work n s' < work n s \<and> inputs s' = inputs s"
    using assms(1)
  proof cases
    case (fetch i)
    then obtain a q where q: "queues s (i - 1) = a # q" by (cases "queues s (i - 1)") auto
    note m = receive_moves [OF fetch(2-4) q]
    from fetch(3) q show ?thesis
      unfolding work_def fetch(1) m by (simp add: stage_receive_def)
  next
    case (process i a)
    note m = process_moves [OF process(2,3)]
    obtain d where d: "heap s a = Some (staged fs i d)" using stage_pc_in_flight [OF i m(1)] .
    from process(2) show ?thesis
      unfolding work_def process(1) m(1) m(2) [OF d] by (simp add: stage_process_def d)
  next
    case (send i a)
    note m = send_moves [OF send(2,3)]
    from send(2) show ?thesis
      unfolding work_def send(1) m by (simp add: stage_send_def)
  next
    case (deliver i a release)
    note m = output_moves [OF deliver(2) [symmetric] deliver(3)]
    obtain d where d: "heap s a = Some (staged fs n d)"
      using stage_pc_in_flight [OF i, of "[]"] m(1) by (metis append_Nil)
    from deliver(2) show ?thesis
      unfolding work_def deliver(1) m(1) m(2) [OF d] by (auto simp: stage_output_def d Let_def)
  qed
  then show "work n s' < work n s" and "inputs s' = inputs s" by auto
qed

lemma held_or_queued:
  "in_flight s n \<noteq> [] \<Longrightarrow> \<exists>i<n. held_frames s i @ queued_frames s i \<noteq> []
     \<and> (\<forall>j. i < j \<longrightarrow> j < n \<longrightarrow> held_frames s j @ queued_frames s j = [])"
proof (induction n)
  case (Suc n)
  show ?case
  proof (cases "held_frames s n @ queued_frames s n = []")
    case True
    with Suc show ?thesis by (metis append_Nil append_eq_append_conv2 in_flight.simps(2) less_Suc_eq append_assoc)
  next
    case False
    then show ?thesis by (intro exI [of _ n]) auto
  qed
qed simp

lemma stage_can_step:
  assumes "in_flight s n \<noteq> []"
  shows "\<exists>s'. stage_step fs n s s'"
proof -
  obtain i where i: "i < n" "held_frames s i @ queued_frames s i \<noteq> []"
    and none: "\<forall>j. i < j \<longrightarrow> j < n \<longrightarrow> held_frames s j @ queued_frames s j = []"
    using held_or_queued [OF assms] by blast
  show ?thesis
  proof (cases "stage_pc s i")
    case Get
    with i have "0 < i" "queues s (i - 1) \<noteq> []"
      by (auto simp: held_frames_def queued_frames_def split: if_splits)
    with i Get show ?thesis by (blast intro: stage_step.fetch)
  next
    case (Process a)
    with i show ?thesis by (blast intro: stage_step.process)
  next
    case (Put a)
    show ?thesis
    proof (cases "Suc i < n")
      case True
      with none have "queues s i = []" by (auto simp: queued_frames_def)
      with True Put show ?thesis by (force intro: stage_step.send)
    next
      case False
      with i have "Suc i = n" by simp
      from stage_step.deliver [OF this Put] show ?thesis by blast
    qed
  qed
qed

text \<open>
  C24. A pipeline drains: once no more frames come in, the stages stop after a bounded
  number of steps however they are scheduled, and when they have stopped every frame has
  come out.
\<close>

theorem pipeline_drains:
  assumes "(pipeline_step fs n)\<^sup>*\<^sup>* (pipeline_start m) s"
  shows "(\<forall>j s'. (stage_step fs n ^^ j) s s' \<longrightarrow> j \<le> work n s)
    \<and> (\<forall>s'. (stage_step fs n)\<^sup>*\<^sup>* s s' \<and> (\<forall>s''. \<not> stage_step fs n s' s'') \<longrightarrow>
         inputs s' = inputs s \<and> outputs s' = map (staged fs n) (inputs s))"
proof (intro conjI allI impI)
  note i = pipeline_reachable_inv [OF assms]
  fix j s'
  assume "(stage_step fs n ^^ j) s s'"
  then have "pipe_inv fs n s' \<and> j + work n s' \<le> work n s"
  proof (induction j arbitrary: s')
    case (Suc j)
    then obtain s1 where "(stage_step fs n ^^ j) s s1" "stage_step fs n s1 s'" by auto
    with Suc.IH [of s1] stage_step_inv stage_step_work(1) show ?case by fastforce
  qed (use i in simp)
  then show "j \<le> work n s" by simp
next
  note i = pipeline_reachable_inv [OF assms]
  fix s'
  assume s': "(stage_step fs n)\<^sup>*\<^sup>* s s' \<and> (\<forall>s''. \<not> stage_step fs n s' s'')"
  then have "(stage_step fs n)\<^sup>*\<^sup>* s s'" by simp
  then have r: "pipe_inv fs n s' \<and> inputs s' = inputs s"
    by (induction rule: rtranclp_induct) (auto simp: i stage_step_inv stage_step_work(2))
  moreover have "in_flight s' n = []" using s' stage_can_step by blast
  ultimately show "inputs s' = inputs s" and "outputs s' = map (staged fs n) (inputs s)"
    by (auto simp: pipe_inv_def flying_def)
qed

section \<open>A pipeline of two stages\<close>

definition two_stages :: "nat \<Rightarrow> int \<Rightarrow> int" where
  "two_stages i d = (if i = 0 then d + 1 else 2 * d)"

lemma one_frame_reachable:
  "(pipeline_step two_stages 2)\<^sup>*\<^sup>* (pipeline_start Map.empty) (stage_input 7 5 (pipeline_start Map.empty))"
proof (rule r_into_rtranclp, rule pipeline_step.accept)
  show "7 \<notin> fst ` set (in_flight (pipeline_start Map.empty :: int pipeline) 2)"
    by (simp add: pipeline_start_def held_frames_def queued_frames_def numeral_2_eq_2)
qed (simp_all add: pipeline_start_def)

theorem pipeline_in_order_witness:
  "distinct (map fst (in_flight (stage_input 7 (5 :: int) (pipeline_start Map.empty)) 2))"
  using pipeline_in_order [OF one_frame_reachable] by simp

theorem pipeline_drains_witness:
  "outputs (stage_output 0 7 True (stage_process (two_stages 0) 0 7
     (stage_input 7 5 (pipeline_start Map.empty)))) = [6]"
proof -
  let ?s = "stage_input 7 5 (pipeline_start Map.empty) :: int pipeline"
  let ?s1 = "stage_process (two_stages 0) 0 7 ?s" let ?s2 = "stage_output 0 7 True ?s1"
  have r: "(pipeline_step two_stages 1)\<^sup>*\<^sup>* (pipeline_start Map.empty) ?s"
  proof (rule r_into_rtranclp, rule pipeline_step.accept)
    show "7 \<notin> fst ` set (in_flight (pipeline_start Map.empty :: int pipeline) 1)"
      by (simp add: pipeline_start_def held_frames_def queued_frames_def)
  qed (simp_all add: pipeline_start_def)
  have pc: "stage_pc ?s 0 = Process 7" "stage_pc ?s1 0 = Put 7" "stage_pc ?s2 0 = Get"
    by (simp_all add: stage_input_def stage_process_def stage_output_def two_stages_def Let_def)
  have "stage_step two_stages 1 ?s ?s1" by (rule stage_step.process) (simp_all add: pc)
  moreover have "stage_step two_stages 1 ?s1 ?s2" by (rule stage_step.deliver) (simp_all add: pc)
  ultimately have "(stage_step two_stages 1)\<^sup>*\<^sup>* ?s ?s2" by simp
  moreover have "\<not> stage_step two_stages 1 ?s2 s''" for s''
    using pc(3) by (auto elim: stage_step.cases)
  ultimately have "outputs ?s2 = map (staged two_stages 1) (inputs ?s)"
    using pipeline_drains [OF r] by blast
  then show ?thesis
    by (simp add: stage_input_def pipeline_start_def two_stages_def pc_to_def)
qed

end
