(* ===== verification/Uart.thy ===== *)
theory Uart
  imports Driver_Rpc "HOL-Library.Sublist"
begin

text \<open>
  The UART drivers (modules/drivers/uart/src/rtos_uart_tx.c, rtos_uart_rx.c). A transmitter is
  shared by tasks that write under a mutex. A receiver passes each byte from the thread that
  listens to the line through an interrupt, a fifo, a driver task and a stream buffer to the
  reader; fifo and stream buffer are bounded queues (of lib_uart and FreeRTOS), \<open>cap\<close> and \<open>room\<close>
  their sizes.
\<close>

section \<open>Transmitting\<close>

datatype uart_writer = No_write | Writing "byte list" "byte list"

record uart_tx =
  tx_lock :: "nat option"
  writer :: "nat \<Rightarrow> uart_writer"
  line :: "byte list"
  writes :: "(nat \<times> byte list) list"

text \<open>The loop of a write that nobody else can be in, which the RPC host runs.\<close>

primrec uart_tx_bytes :: "byte list \<Rightarrow> byte list \<Rightarrow> byte list" where
  "uart_tx_bytes [] out = out"
| "uart_tx_bytes (b # bs) out = uart_tx_bytes bs (out @ [b])"

definition uart_tx_local_write :: "byte list \<Rightarrow> nat \<Rightarrow> byte list \<Rightarrow> byte list res" where
  "uart_tx_local_write buff n out =
     (if length buff < n then Inl Bad_access else Inr (uart_tx_bytes (take n buff) out))"

definition rtos_uart_tx_start :: uart_tx where
  "rtos_uart_tx_start = \<lparr>tx_lock = None, writer = (\<lambda>_. No_write), line = [], writes = []\<rparr>"

definition write_begin :: "nat \<Rightarrow> byte list \<Rightarrow> uart_tx \<Rightarrow> uart_tx" where
  "write_begin t bs s = s\<lparr>tx_lock := Some t, writer := (writer s)(t := Writing [] bs)\<rparr>"

definition write_byte :: "nat \<Rightarrow> byte list \<Rightarrow> byte \<Rightarrow> byte list \<Rightarrow> uart_tx \<Rightarrow> uart_tx" where
  "write_byte t d b bs s = s\<lparr>line := line s @ [b], writer := (writer s)(t := Writing (d @ [b]) bs)\<rparr>"

definition write_end :: "nat \<Rightarrow> byte list \<Rightarrow> uart_tx \<Rightarrow> uart_tx" where
  "write_end t d s =
     s\<lparr>tx_lock := None, writer := (writer s)(t := No_write), writes := writes s @ [(t, d)]\<rparr>"

inductive uart_tx_step :: "uart_tx \<Rightarrow> uart_tx \<Rightarrow> bool" where
  tx_enter: "writer s t = No_write \<Longrightarrow> tx_lock s = None \<Longrightarrow> uart_tx_step s (write_begin t bs s)"
| tx_send: "writer s t = Writing d (b # bs) \<Longrightarrow> uart_tx_step s (write_byte t d b bs s)"
| tx_leave: "writer s t = Writing d [] \<Longrightarrow> uart_tx_step s (write_end t d s)"

definition under_way :: "uart_tx \<Rightarrow> byte list" where
  "under_way s =
     (case tx_lock s of
        None \<Rightarrow> []
      | Some t \<Rightarrow> (case writer s t of No_write \<Rightarrow> [] | Writing d bs \<Rightarrow> d))"

definition tx_inv :: "uart_tx \<Rightarrow> bool" where
  "tx_inv s \<longleftrightarrow> (\<forall>t. (tx_lock s = Some t) = (writer s t \<noteq> No_write)) \<and>
     line s = concat (map snd (writes s)) @ under_way s"

lemma uart_tx_bytes_eq: "uart_tx_bytes bs out = out @ bs"
  by (induction bs arbitrary: out) auto

lemma tx_inv_owner: "tx_inv s \<Longrightarrow> writer s t = Writing d bs \<Longrightarrow> tx_lock s = Some t"
  by (simp add: tx_inv_def)

lemma tx_inv_step:
  assumes "uart_tx_step s s'" and "tx_inv s"
  shows "tx_inv s'"
  using assms
proof (induction rule: uart_tx_step.induct)
  case (tx_enter s t bs)
  then have "under_way s = []" by (simp add: under_way_def)
  with tx_enter show ?case by (auto simp: tx_inv_def write_begin_def under_way_def)
next
  case (tx_send s t d b bs)
  with tx_inv_owner have "tx_lock s = Some t" by blast
  with tx_send show ?case by (auto simp: tx_inv_def write_byte_def under_way_def)
next
  case (tx_leave s t d)
  with tx_inv_owner have "tx_lock s = Some t" by blast
  with tx_leave show ?case by (auto simp: tx_inv_def write_end_def under_way_def)
qed

text \<open>
  The writes of tasks that share a UART transmitter never mix on the line.
\<close>

theorem uart_writes_whole:
  assumes "uart_tx_step\<^sup>*\<^sup>* rtos_uart_tx_start s"
  shows "\<exists>d. line s = concat (map snd (writes s)) @ d
    \<and> (tx_lock s = None \<longrightarrow> d = []) \<and> (\<forall>t. tx_lock s = Some t \<longrightarrow> (\<exists>bs. writer s t = Writing d bs))"
proof -
  have "tx_inv rtos_uart_tx_start"
    by (simp add: tx_inv_def rtos_uart_tx_start_def under_way_def)
  with assms have i: "tx_inv s"
    by (induction rule: rtranclp_induct) (auto intro: tx_inv_step)
  have "\<exists>bs. writer s t = Writing (under_way s) bs" if "tx_lock s = Some t" for t
    using i that by (cases "writer s t") (auto simp: tx_inv_def under_way_def)
  moreover have "tx_lock s = None \<longrightarrow> under_way s = []" by (simp add: under_way_def)
  ultimately show ?thesis using i by (auto simp: tx_inv_def intro!: exI [of _ "under_way s"])
qed

lemma uart_one_write:
  "uart_tx_step\<^sup>*\<^sup>* rtos_uart_tx_start (write_byte 0 [] 7 [8] (write_begin 0 [7, 8] rtos_uart_tx_start))"
proof -
  have "uart_tx_step rtos_uart_tx_start (write_begin 0 [7, 8] rtos_uart_tx_start)"
    by (rule uart_tx_step.tx_enter) (simp_all add: rtos_uart_tx_start_def)
  moreover have "uart_tx_step (write_begin 0 [7, 8] rtos_uart_tx_start)
      (write_byte 0 [] 7 [8] (write_begin 0 [7, 8] rtos_uart_tx_start))"
    by (rule uart_tx_step.tx_send) (simp add: write_begin_def)
  ultimately show ?thesis by (blast intro: rtranclp.rtrancl_into_rtrancl)
qed

theorem uart_writes_whole_witness:
  "\<exists>d. line (write_byte 0 [] 7 [8] (write_begin 0 [7, 8] rtos_uart_tx_start)) = d \<and> d = [7]"
  using uart_writes_whole [OF uart_one_write]
  by (simp add: write_byte_def write_begin_def rtos_uart_tx_start_def)

text \<open>
  The initialisation sets the write function and not the RPC configuration, on which the start
  branches; a driver in zeroed memory has none.
\<close>

definition rtos_uart_tx_init :: "driver \<Rightarrow> driver" where
  "rtos_uart_tx_init d = d\<lparr>drv_remote := False\<rparr>"

lemma uart_tx_init_keeps_rpc: "drv_rpc (rtos_uart_tx_init d) = drv_rpc d"
  by (simp add: rtos_uart_tx_init_def)

section \<open>Receiving\<close>

definition UR_OVERRUN_ERR_CB_FLAG :: byte where "UR_OVERRUN_ERR_CB_FLAG = push_bit 5 1"
definition RX_ERROR_FLAGS :: byte where
  "RX_ERROR_FLAGS = push_bit 2 1 OR push_bit 3 1 OR push_bit 4 1"
definition RTOS_UART_RX_BUF_LEN :: nat where "RTOS_UART_RX_BUF_LEN = 65"

text \<open>
  The driver task: blocked, taking bytes out of the fifo, with the bytes to send on, after sending
  them, after the error callback and before the callback for data.
\<close>

datatype uart_app_pc = Blocked | Draining "byte list" | Sending "byte list" | Reporting | Clearing | Completing

text \<open>
  \<open>on_line\<close> are the bytes the line gave, \<open>taken\<close> those that readers got and \<open>lost\<close> the number of
  bytes that were dropped; \<open>reported\<close> are the flags of the calls of the error callback and
  \<open>completed\<close> counts those of the data callback; the code keeps none of them. \<open>array_overrun\<close> is
  set by a write past the end of the task's array, after which the program may do anything: what the
  model says of states that have it is not meant.
\<close>

record uart_rx =
  fifo :: "byte list"
  notified :: nat
  cb_flags :: byte
  app_pc :: uart_app_pc
  app_byte_buffer :: "byte list"
  rx_error_cb :: bool
  rx_complete_cb :: bool
  on_line :: "byte list"
  taken :: "byte list"
  lost :: nat
  reported :: "byte list"
  completed :: nat
  array_overrun :: bool

definition rtos_uart_rx_isr :: "nat \<Rightarrow> byte \<Rightarrow> uart_rx \<Rightarrow> uart_rx" where
  "rtos_uart_rx_isr cap b s =
     (let s1 = s\<lparr>on_line := on_line s @ [b], notified := Suc (notified s)\<rparr>
      in if length (fifo s1) < cap then s1\<lparr>fifo := fifo s1 @ [b]\<rparr>
         else s1\<lparr>cb_flags := cb_flags s1 OR UR_OVERRUN_ERR_CB_FLAG, lost := Suc (lost s1)\<rparr>)"

definition uart_rx_error_callback :: "nat \<Rightarrow> uart_rx \<Rightarrow> uart_rx" where
  "uart_rx_error_callback callback_code s = s\<lparr>cb_flags := cb_flags s OR push_bit callback_code 1\<rparr>"

definition app_wake :: "uart_rx \<Rightarrow> uart_rx" where
  "app_wake s = s\<lparr>notified := 0, app_pc := Draining []\<rparr>"

definition app_pop :: "byte list \<Rightarrow> uart_rx \<Rightarrow> uart_rx" where
  "app_pop bs s =
     (case fifo s of
        [] \<Rightarrow> s\<lparr>app_pc := if bs = [] then Blocked else Sending bs\<rparr>
      | b # f \<Rightarrow>
          s\<lparr>fifo := f, app_pc := Draining (bs @ [b]),
            array_overrun := (array_overrun s \<or> RTOS_UART_RX_BUF_LEN \<le> length bs)\<rparr>)"

definition app_send :: "nat \<Rightarrow> byte list \<Rightarrow> uart_rx \<Rightarrow> uart_rx" where
  "app_send room bs s =
     (let sent = min (length bs) (room - length (app_byte_buffer s));
          s1 = s\<lparr>app_byte_buffer := app_byte_buffer s @ take sent bs, lost := lost s + (length bs - sent),
                app_pc := Reporting\<rparr>
      in if sent \<noteq> length bs then s1\<lparr>cb_flags := cb_flags s1 OR UR_OVERRUN_ERR_CB_FLAG\<rparr> else s1)"

definition app_report :: "uart_rx \<Rightarrow> uart_rx" where
  "app_report s =
     (if cb_flags s AND RX_ERROR_FLAGS \<noteq> 0 \<and> rx_error_cb s
      then s\<lparr>reported := reported s @ [cb_flags s AND RX_ERROR_FLAGS], app_pc := Clearing\<rparr>
      else s\<lparr>app_pc := Completing\<rparr>)"

definition app_clear :: "uart_rx \<Rightarrow> uart_rx" where
  "app_clear s = s\<lparr>cb_flags := 0, app_pc := Completing\<rparr>"

definition app_complete :: "uart_rx \<Rightarrow> uart_rx" where
  "app_complete s =
     (if rx_complete_cb s then s\<lparr>completed := Suc (completed s), app_pc := Blocked\<rparr>
      else s\<lparr>app_pc := Blocked\<rparr>)"

text \<open>A reader gets up to the number of bytes it asked for.\<close>

definition stream_receive :: "nat \<Rightarrow> uart_rx \<Rightarrow> uart_rx" where
  "stream_receive k s =
     s\<lparr>app_byte_buffer := drop k (app_byte_buffer s), taken := taken s @ take k (app_byte_buffer s)\<rparr>"

definition rtos_uart_rx_reset_buffer :: "uart_rx \<Rightarrow> uart_rx" where
  "rtos_uart_rx_reset_buffer s =
     s\<lparr>app_byte_buffer := [], lost := lost s + length (app_byte_buffer s)\<rparr>"

text \<open>The start ends with a call of the data callback.\<close>

definition rtos_uart_rx_start :: "bool \<Rightarrow> bool \<Rightarrow> uart_rx" where
  "rtos_uart_rx_start complete_cb error_cb =
     \<lparr>fifo = [], notified = 0, cb_flags = 0, app_pc = Blocked, app_byte_buffer = [], rx_error_cb = error_cb,
      rx_complete_cb = complete_cb, on_line = [], taken = [], lost = 0, reported = [],
      completed = (if complete_cb then 1 else 0), array_overrun = False\<rparr>"

inductive uart_rx_step :: "nat \<Rightarrow> nat \<Rightarrow> uart_rx \<Rightarrow> uart_rx \<Rightarrow> bool" for cap room where
  byte_in: "uart_rx_step cap room s (rtos_uart_rx_isr cap b s)"
| line_error: "2 \<le> c \<Longrightarrow> c \<le> 4 \<Longrightarrow> uart_rx_step cap room s (uart_rx_error_callback c s)"
| wake: "app_pc s = Blocked \<Longrightarrow> 0 < notified s \<Longrightarrow> uart_rx_step cap room s (app_wake s)"
| pop: "app_pc s = Draining bs \<Longrightarrow> uart_rx_step cap room s (app_pop bs s)"
| pass_on: "app_pc s = Sending bs \<Longrightarrow> uart_rx_step cap room s (app_send room bs s)"
| report: "app_pc s = Reporting \<Longrightarrow> uart_rx_step cap room s (app_report s)"
| clear: "app_pc s = Clearing \<Longrightarrow> uart_rx_step cap room s (app_clear s)"
| complete: "app_pc s = Completing \<Longrightarrow> uart_rx_step cap room s (app_complete s)"
| reader: "uart_rx_step cap room s (stream_receive k s)"
| reset: "uart_rx_step cap room s (rtos_uart_rx_reset_buffer s)"

text \<open>The bytes that are not lost, oldest first.\<close>

definition held_bytes :: "uart_rx \<Rightarrow> byte list" where
  "held_bytes s = (case app_pc s of Draining bs \<Rightarrow> bs | Sending bs \<Rightarrow> bs | _ \<Rightarrow> [])"

definition kept :: "uart_rx \<Rightarrow> byte list" where
  "kept s = taken s @ app_byte_buffer s @ held_bytes s @ fifo s"

lemmas uart_rx_defs = rtos_uart_rx_isr_def uart_rx_error_callback_def app_wake_def app_pop_def
  app_send_def app_report_def app_clear_def app_complete_def stream_receive_def
  rtos_uart_rx_reset_buffer_def Let_def

definition rx_inv :: "nat \<Rightarrow> nat \<Rightarrow> uart_rx \<Rightarrow> bool" where
  "rx_inv cap room s \<longleftrightarrow>
     subseq (kept s) (on_line s) \<and> length (on_line s) = length (kept s) + lost s \<and>
     length (fifo s) \<le> cap \<and> length (app_byte_buffer s) \<le> room \<and>
     (array_overrun s \<or> length (held_bytes s) \<le> RTOS_UART_RX_BUF_LEN) \<and> (\<forall>r \<in> set (reported s). r AND UR_OVERRUN_ERR_CB_FLAG = 0)"

lemma no_overrun_in_errors: "(w AND RX_ERROR_FLAGS) AND UR_OVERRUN_ERR_CB_FLAG = 0"
  by (simp add: RX_ERROR_FLAGS_def UR_OVERRUN_ERR_CB_FLAG_def and.assoc)

lemma subseq_append_cong:
  "subseq b b' \<Longrightarrow> subseq (a @ b @ c) (a @ b' @ c)"
  by (intro list_emb_append_mono) simp_all

lemma subseq_shrink:
  assumes "subseq (a @ b @ c) l" and "subseq b' b"
  shows "subseq (a @ b' @ c) l"
  by (rule subseq_order.trans [OF subseq_append_cong [OF assms(2)] assms(1)])

lemma rx_inv_same:
  assumes "rx_inv cap room s" and "kept s' = kept s" and "on_line s' = on_line s" and "lost s' = lost s"
    and "length (fifo s') \<le> length (fifo s)" and "length (app_byte_buffer s') \<le> length (app_byte_buffer s)"
    and "array_overrun s' \<or> length (held_bytes s') \<le> RTOS_UART_RX_BUF_LEN"
    and "\<And>r. r \<in> set (reported s') \<Longrightarrow> r \<in> set (reported s) \<or> r AND UR_OVERRUN_ERR_CB_FLAG = 0"
  shows "rx_inv cap room s'"
  using assms unfolding rx_inv_def by fastforce

lemma rx_inv_held: "rx_inv cap room s \<Longrightarrow> array_overrun s \<or> length (held_bytes s) \<le> RTOS_UART_RX_BUF_LEN"
  by (simp add: rx_inv_def)

lemma rx_inv_step:
  assumes "uart_rx_step cap room s s'" and "rx_inv cap room s"
  shows "rx_inv cap room s'"
  using assms
proof (induction rule: uart_rx_step.induct)
  case (byte_in s b)
  let ?s = "rtos_uart_rx_isr cap b s"
  have k: "kept ?s = kept s @ (if length (fifo s) < cap then [b] else [])" "held_bytes ?s = held_bytes s"
    by (simp_all add: kept_def held_bytes_def rtos_uart_rx_isr_def Let_def)
  have o: "on_line ?s = on_line s @ [b]" "app_byte_buffer ?s = app_byte_buffer s"
    "reported ?s = reported s" "lost ?s = lost s + (if length (fifo s) < cap then 0 else 1)"
    "fifo ?s = fifo s @ (if length (fifo s) < cap then [b] else [])" "array_overrun ?s = array_overrun s"
    by (simp_all add: rtos_uart_rx_isr_def Let_def)
  have "subseq (kept ?s) (on_line ?s)"
    unfolding k(1) o(1) by (rule list_emb_append_mono) (use byte_in in \<open>simp_all add: rx_inv_def\<close>)
  moreover have "length (on_line ?s) = length (kept ?s) + lost ?s"
    using byte_in unfolding k(1) o(1,4) by (simp add: rx_inv_def)
  moreover have "length (fifo ?s) \<le> cap"
    using byte_in unfolding o(5) by (simp add: rx_inv_def)
  ultimately show ?case
    using byte_in unfolding rx_inv_def k(2) o(2,3,6) by blast
next
  case (line_error c s)
  then show ?case
    using rx_inv_held [of cap room s] by - (rule rx_inv_same [of cap room s], auto simp: uart_rx_error_callback_def kept_def held_bytes_def)
next
  case (wake s)
  then show ?case
    by - (rule rx_inv_same [of cap room s], auto simp: app_wake_def kept_def held_bytes_def)
next
  case (pop s bs)
  then show ?case
    using rx_inv_held [of cap room s] by - (rule rx_inv_same [of cap room s], auto simp: app_pop_def kept_def held_bytes_def split: list.splits if_splits)
next
  case (pass_on s bs)
  let ?s = "app_send room bs s"
  let ?n = "min (length bs) (room - length (app_byte_buffer s))"
  have "subseq (take ?n bs) bs" by (rule prefix_imp_subseq) (rule take_is_prefix)
  moreover have "subseq ((taken s @ app_byte_buffer s) @ bs @ fifo s) (on_line s)"
    using pass_on by (simp add: rx_inv_def kept_def held_bytes_def)
  ultimately have "subseq ((taken s @ app_byte_buffer s) @ take ?n bs @ fifo s) (on_line s)"
    by (rule subseq_shrink [rotated])
  moreover have "kept ?s = (taken s @ app_byte_buffer s) @ take ?n bs @ fifo s" "on_line ?s = on_line s"
    "lost ?s = lost s + (length bs - ?n)" "fifo ?s = fifo s" "reported ?s = reported s"
    "app_byte_buffer ?s = app_byte_buffer s @ take ?n bs" "held_bytes ?s = []"
    by (simp_all add: app_send_def kept_def held_bytes_def Let_def)
  ultimately show ?case
    using pass_on by (auto simp: rx_inv_def kept_def held_bytes_def)
next
  case (report s)
  then show ?case
    by - (rule rx_inv_same [of cap room s], auto simp: app_report_def kept_def
      held_bytes_def no_overrun_in_errors split: if_splits)
next
  case (clear s)
  then show ?case
    by - (rule rx_inv_same [of cap room s], auto simp: app_clear_def kept_def held_bytes_def)
next
  case (complete s)
  then show ?case
    by - (rule rx_inv_same [of cap room s], auto simp: app_complete_def kept_def held_bytes_def split: if_splits)
next
  case (reader s k)
  have "take k (app_byte_buffer s) @ drop k (app_byte_buffer s) @ z = app_byte_buffer s @ z" for z
    by (metis append_assoc append_take_drop_id)
  then have "kept (stream_receive k s) = kept s" "held_bytes (stream_receive k s) = held_bytes s"
    by (simp_all add: stream_receive_def kept_def held_bytes_def)
  with reader rx_inv_held [of cap room s] show ?case
    by - (rule rx_inv_same [of cap room s], simp_all add: stream_receive_def)
next
  case (reset s)
  let ?s = "rtos_uart_rx_reset_buffer s"
  have k: "kept ?s = taken s @ [] @ held_bytes s @ fifo s" "held_bytes ?s = held_bytes s"
    by (simp_all add: rtos_uart_rx_reset_buffer_def kept_def held_bytes_def)
  have "subseq (kept ?s) (on_line s)"
    unfolding k by (rule subseq_shrink [of _ "app_byte_buffer s"]) (use reset in \<open>simp_all add: rx_inv_def kept_def\<close>)
  then show ?case
    using reset unfolding rx_inv_def k(2)
    by (simp add: rtos_uart_rx_reset_buffer_def kept_def held_bytes_def)
qed

text \<open>
  C25. Whatever the UART line gives and however the interrupt, the driver task and the
  readers interleave, as long as the task has not written past its array of 65 bytes,
  readers get bytes of the line in their order; every byte is with a reader, in the driver
  or one of the counted losses, and without losses the readers have an initial part of what
  the line gave.
\<close>

theorem uart_bytes_in_order:
  assumes "(uart_rx_step cap room)\<^sup>*\<^sup>* (rtos_uart_rx_start complete_cb error_cb) s"
    and "\<not> array_overrun s"
  shows "subseq (kept s) (on_line s) \<and> length (on_line s) = length (kept s) + lost s
    \<and> (lost s = 0 \<longrightarrow> prefix (taken s) (on_line s))
    \<and> length (fifo s) \<le> cap \<and> length (app_byte_buffer s) \<le> room
    \<and> length (held_bytes s) \<le> RTOS_UART_RX_BUF_LEN"
proof -
  have "rx_inv cap room (rtos_uart_rx_start complete_cb error_cb)"
    by (simp add: rx_inv_def rtos_uart_rx_start_def kept_def held_bytes_def)
  with assms(1) have i: "rx_inv cap room s"
    by (induction rule: rtranclp_induct) (auto intro: rx_inv_step)
  then have "kept s = on_line s" if "lost s = 0"
    using that by (simp add: rx_inv_def subseq_same_length)
  then have "prefix (taken s) (on_line s)" if "lost s = 0"
    using that by (metis kept_def prefixI)
  with i assms(2) show ?thesis by (simp add: rx_inv_def)
qed

text \<open>
  No loss is ever reported: the flags of the error callback leave the overrun out, although the
  driver sets it for every byte it drops.
\<close>

lemma uart_overrun_never_reported:
  assumes "(uart_rx_step cap room)\<^sup>*\<^sup>* (rtos_uart_rx_start complete_cb error_cb) s"
    and "r \<in> set (reported s)"
  shows "r AND UR_OVERRUN_ERR_CB_FLAG = 0"
proof -
  have "rx_inv cap room (rtos_uart_rx_start complete_cb error_cb)"
    by (simp add: rx_inv_def rtos_uart_rx_start_def kept_def held_bytes_def)
  with assms(1) have "rx_inv cap room s"
    by (induction rule: rtranclp_induct) (auto intro: rx_inv_step)
  with assms(2) show ?thesis by (simp add: rx_inv_def)
qed

text \<open>
  A line that gives a byte for every one that the task takes out of the fifo, while it does so,
  makes it write past its array.
\<close>

definition drained :: "byte list \<Rightarrow> uart_rx" where
  "drained bs = (rtos_uart_rx_start False False)
     \<lparr>app_pc := Draining bs, on_line := bs, notified := length bs - 1\<rparr>"

lemma drained_reachable:
  assumes "0 < cap" and "0 < n" and "n \<le> RTOS_UART_RX_BUF_LEN"
  shows "(uart_rx_step cap room)\<^sup>*\<^sup>* (rtos_uart_rx_start False False) (drained (replicate n b))"
  using assms(2,3)
proof (induction n)
  case (Suc n)
  have step: "(uart_rx_step cap room)\<^sup>*\<^sup>* s s''"
    if "uart_rx_step cap room s s'" "uart_rx_step cap room s' s''" for s s' s''
    using that by (blast intro: r_into_rtranclp rtranclp.rtrancl_into_rtrancl)
  show ?case
  proof (cases "n = 0")
    case True
    let ?s = "rtos_uart_rx_start False False"
    have a: "uart_rx_step cap room ?s (rtos_uart_rx_isr cap b ?s)" by (rule byte_in)
    let ?a = "rtos_uart_rx_isr cap b ?s"
    have w: "uart_rx_step cap room ?a (app_wake ?a)"
      by (rule wake) (simp_all add: rtos_uart_rx_isr_def rtos_uart_rx_start_def Let_def)
    have "uart_rx_step cap room (app_wake ?a) (app_pop [] (app_wake ?a))"
      by (rule pop) (simp add: app_wake_def)
    moreover have "app_pop [] (app_wake ?a) = drained [b]"
      using assms(1) by (simp add: app_pop_def app_wake_def rtos_uart_rx_isr_def rtos_uart_rx_start_def
          drained_def RTOS_UART_RX_BUF_LEN_def Let_def)
    ultimately show ?thesis
      using True step [OF a w] by (auto intro: rtranclp.rtrancl_into_rtrancl)
  next
    case False
    let ?d = "drained (replicate n b)" let ?a = "rtos_uart_rx_isr cap b ?d"
    have "uart_rx_step cap room ?d ?a" by (rule byte_in)
    moreover have "uart_rx_step cap room ?a (app_pop (replicate n b) ?a)"
      by (rule pop) (simp add: rtos_uart_rx_isr_def drained_def Let_def)
    moreover have "app_pop (replicate n b) ?a = drained (replicate (Suc n) b)"
      using assms(1) False Suc.prems
      by (simp add: app_pop_def rtos_uart_rx_isr_def drained_def rtos_uart_rx_start_def Let_def
          replicate_append_same [symmetric])
    ultimately show ?thesis
      using Suc False step [of ?d ?a] by (auto intro: rtranclp_trans)
  qed
qed simp

lemma uart_array_overrun:
  assumes "0 < cap"
  shows "\<exists>s. (uart_rx_step cap room)\<^sup>*\<^sup>* (rtos_uart_rx_start False False) s \<and> array_overrun s"
proof -
  let ?d = "drained (replicate RTOS_UART_RX_BUF_LEN 0)" let ?a = "rtos_uart_rx_isr cap 0 ?d"
  have "(uart_rx_step cap room)\<^sup>*\<^sup>* (rtos_uart_rx_start False False) ?d"
    using assms by (rule drained_reachable) (simp_all add: RTOS_UART_RX_BUF_LEN_def)
  moreover have "uart_rx_step cap room ?d ?a" by (rule byte_in)
  moreover have "uart_rx_step cap room ?a (app_pop (replicate RTOS_UART_RX_BUF_LEN 0) ?a)"
    by (rule pop) (simp add: rtos_uart_rx_isr_def drained_def Let_def)
  moreover have "array_overrun (app_pop (replicate RTOS_UART_RX_BUF_LEN 0) ?a)"
    using assms by (simp add: app_pop_def rtos_uart_rx_isr_def drained_def rtos_uart_rx_start_def Let_def)
  ultimately show ?thesis by (blast intro: rtranclp.rtrancl_into_rtrancl)
qed

section \<open>Reading\<close>

text \<open>
  The loop of a read: \<open>answers\<close> are the bytes of each receive on the stream buffer with the tick
  after it. None: the answers do not suffice.
\<close>

fun uart_read_loop :: "nat \<Rightarrow> u32 \<Rightarrow> u32 \<Rightarrow> (byte list \<times> u32) list \<Rightarrow> u32 \<Rightarrow> byte list \<Rightarrow> byte list option" where
  "uart_read_loop n timeout t_entry answers time_elapsed got =
     (if length got < n \<and> time_elapsed < timeout
      then case answers of
             [] \<Rightarrow> None
           | a # as \<Rightarrow> uart_read_loop n timeout t_entry as (snd a - t_entry) (got @ fst a)
      else Some got)"

declare uart_read_loop.simps [simp del]

definition rtos_uart_rx_read :: "nat \<Rightarrow> u32 \<Rightarrow> u32 \<Rightarrow> (byte list \<times> u32) list \<Rightarrow> byte list option" where
  "rtos_uart_rx_read n timeout t_entry answers = uart_read_loop n timeout t_entry answers 0 []"

text \<open>
  A receive gives no more bytes than asked for, and none only when the time it was given is over.
\<close>

primrec stream_answers :: "nat \<Rightarrow> u32 \<Rightarrow> u32 \<Rightarrow> nat \<Rightarrow> (byte list \<times> u32) list \<Rightarrow> bool" where
  "stream_answers n timeout t0 k [] \<longleftrightarrow> True"
| "stream_answers n timeout t0 k (a # as) \<longleftrightarrow>
     length (fst a) \<le> n - k \<and> (fst a \<noteq> [] \<or> timeout \<le> snd a - t0) \<and>
     stream_answers n timeout t0 (k + length (fst a)) as"

lemma uart_read_loop_returns:
  assumes "stream_answers n timeout t0 (length got) as" and "length got \<le> n" and "n \<le> length as + length got"
  shows "\<exists>r. uart_read_loop n timeout t0 as e got = Some (got @ r) \<and> length got + length r \<le> n
    \<and> prefix r (concat (map fst as))
    \<and> (length got + length r = n \<or> timeout \<le> e \<or> (\<exists>a \<in> set as. timeout \<le> snd a - t0))"
  using assms
proof (induction as arbitrary: got e)
  case Nil
  then show ?case by (intro exI [of _ "[]"]) (simp add: uart_read_loop.simps)
next
  case (Cons a as)
  show ?case
  proof (cases "length got < n \<and> e < timeout")
    case False
    with Cons.prems show ?thesis
      by (intro exI [of _ "[]"]) (auto simp: uart_read_loop.simps [of n timeout t0 "a # as"])
  next
    case True
    then have s: "uart_read_loop n timeout t0 (a # as) e got = uart_read_loop n timeout t0 as (snd a - t0) (got @ fst a)"
      by (simp add: uart_read_loop.simps [of n timeout t0 "a # as"])
    show ?thesis
    proof (cases "fst a = []")
      case True
      with Cons.prems(1) have "timeout \<le> snd a - t0" by simp
      then have "uart_read_loop n timeout t0 as (snd a - t0) got = Some got"
        by (simp add: uart_read_loop.simps [of n timeout t0 as] not_less [symmetric])
      with s True Cons.prems(2) \<open>timeout \<le> snd a - t0\<close> show ?thesis
        by (intro exI [of _ "[]"]) simp
    next
      case False
      then have "n \<le> length as + length (got @ fst a)"
        using Cons.prems(3) by (cases "fst a") auto
      moreover have "stream_answers n timeout t0 (length (got @ fst a)) as" "length (got @ fst a) \<le> n"
        using Cons.prems(1) True by auto
      ultimately obtain r where r: "uart_read_loop n timeout t0 as (snd a - t0) (got @ fst a) = Some ((got @ fst a) @ r)"
        "length (got @ fst a) + length r \<le> n" "prefix r (concat (map fst as))"
        "length (got @ fst a) + length r = n \<or> timeout \<le> snd a - t0 \<or> (\<exists>a \<in> set as. timeout \<le> snd a - t0)"
        using Cons.IH [of "got @ fst a" "snd a - t0"] by blast
      with s show ?thesis by (intro exI [of _ "fst a @ r"]) auto
    qed
  qed
qed

text \<open>
  A read of the UART receiver returns after at most as many receives as bytes were asked
  for, with no more bytes than that, which are those that came, in order, and with fewer
  only when its time is over.
\<close>

theorem uart_read_returns:
  assumes "stream_answers n timeout t_entry 0 answers" and "n \<le> length answers"
  shows "\<exists>r. rtos_uart_rx_read n timeout t_entry answers = Some r \<and> length r \<le> n
    \<and> prefix r (concat (map fst answers))
    \<and> (length r = n \<or> timeout = 0 \<or> (\<exists>a \<in> set answers. timeout \<le> snd a - t_entry))"
  using uart_read_loop_returns [of n timeout t_entry "[]" answers 0] assms
  by (simp add: rtos_uart_rx_read_def)

theorem uart_read_returns_witness:
  "\<exists>r. rtos_uart_rx_read 2 10 5 [([7], 6), ([], 15)] = Some r \<and> prefix r [7]"
proof -
  have "stream_answers 2 10 5 0 [([7], 6), ([], 15)]" by simp
  from uart_read_returns [OF this] show ?thesis by auto
qed

lemma uart_read_without_timeout_gets_nothing:
  "rtos_uart_rx_read n 0 t_entry answers = Some []"
  by (simp add: rtos_uart_rx_read_def uart_read_loop.simps)

theorem uart_bytes_in_order_witness:
  "length (on_line (drained [7])) = length (kept (drained [7])) + lost (drained [7])"
proof -
  have "\<not> array_overrun (drained [7])" by (simp add: drained_def rtos_uart_rx_start_def)
  moreover have "(uart_rx_step 1 16)\<^sup>*\<^sup>* (rtos_uart_rx_start False False) (drained [7])"
    using drained_reachable [of 1 1 16 7] by (simp add: RTOS_UART_RX_BUF_LEN_def)
  ultimately show ?thesis using uart_bytes_in_order by blast
qed

end
