(* ===== verification/Uart_Rpc.thy ===== *)
theory Uart_Rpc
  imports Rpc_Args Uart
begin

text \<open>
  The remote half of the UART transmitter (modules/drivers/uart/src/rtos_uart_tx_rpc.c) and its
  configuration. The host's state maps the address of a transmitter to the bytes on its line.
\<close>

definition fcode_write :: u32 where "fcode_write = 0"

definition uart_write_descs :: "nat \<Rightarrow> rpc_param_desc list" where
  "uart_write_descs n = [RPC_PARAM_TYPE 4, RPC_PARAM_IN_BUFFER 1 n, RPC_PARAM_TYPE 4]"

definition rtos_uart_tx_remote_write ::
  "driver_rpc \<Rightarrow> (byte list \<Rightarrow> 's \<Rightarrow> (byte list \<times> 's) res) \<Rightarrow> byte list \<Rightarrow> u32 \<Rightarrow> 's \<Rightarrow> 's res" where
  "rtos_uart_tx_remote_write rpc transact buf n s =
     rbind (remote_call rpc transact fcode_write (uart_write_descs (unat n) @ [RPC_PARAM_LIST_END])
              [buf, word_bytes 4 n] s) (\<lambda>(ap, s'). Inr s')"

definition uart_tx_write_rpc_host :: "(u32 \<Rightarrow> byte list option) rpc_body" where
  "uart_tx_write_rpc_host = rpc_body 3 (\<lambda>args out.
     let buf = arg_mem (args ! 1); n = arg_word args 2 :: u32
     in rbind (uart_tx_local_write buf (unat n) out) (\<lambda>out'.
          Inr ([rv (arg_word args 0 :: u32), Resp_ptr buf, rv n], out')))"

definition uart_tx_rpc_thread ::
  "byte list \<Rightarrow> (u32 \<Rightarrow> byte list option) \<Rightarrow> (byte list \<times> (u32 \<Rightarrow> byte list option)) res" where
  "uart_tx_rpc_thread = rpc_dispatch [(fcode_write, uart_tx_write_rpc_host)]"

interpretation uart_write: rpc_service uart_tx_rpc_thread fcode_write "uart_write_descs n"
    uart_tx_write_rpc_host for n
  unfolding uart_tx_rpc_thread_def
  by (rule rpc_dispatch_service) (simp_all add: uart_write_descs_def)

text \<open>
  A write through the RPC client puts the bytes on the host's line that the local write puts
  there; a client that is not configured yet fails the assertion on the port.
\<close>

lemma uart_remote_write_is_local:
  assumes "hosts (host_ctx_ptr rpc) = Some out" and "unat n < 2 ^ 24" and "unat n \<le> length buf"
  shows "rtos_uart_tx_remote_write rpc uart_tx_rpc_thread buf n hosts =
    (if aport (host_address rpc) < 0 then Inl Assert_failed
     else rbind (uart_tx_local_write buf (unat n) out) (\<lambda>out'. Inr (hosts(host_ctx_ptr rpc \<mapsto> out'))))"
proof (cases "aport (host_address rpc) < 0")
  case True
  then show ?thesis by (simp add: rtos_uart_tx_remote_write_def remote_call_def xassert_def)
next
  case False
  let ?p = "host_ctx_ptr rpc" let ?b = "take (unat n) buf"
  have "args_fit (uart_write_descs (unat n)) (word_bytes 4 ?p # [buf, word_bytes 4 n])"
    using assms(2,3) by (simp add: uart_write_descs_def)
  moreover have "uart_tx_write_rpc_host
      (map2 received (uart_write_descs (unat n)) (word_bytes 4 ?p # [buf, word_bytes 4 n])) hosts
    = Inr ([rv ?p, Resp_ptr ?b, rv n], hosts(?p \<mapsto> out @ ?b))"
    using assms by (simp add: uart_tx_write_rpc_host_def rpc_body_def with_ctx_def uart_write_descs_def
        arg_word_def uart_tx_local_write_def uart_tx_bytes_eq Let_def)
  moreover have "resp_fit (uart_write_descs (unat n)) [rv ?p, Resp_ptr ?b, rv n]"
    using assms(2,3) by (simp add: uart_write_descs_def)
  ultimately show ?thesis
    using uart_write.remote [of rpc] False assms(3)
    by (simp add: rtos_uart_tx_remote_write_def uart_tx_local_write_def uart_tx_bytes_eq)
qed

section \<open>Configuration\<close>

definition rtos_uart_tx_rpc_client_init :: "u32 \<Rightarrow> u32 \<Rightarrow> driver_rpc \<Rightarrow> driver \<Rightarrow> driver" where
  "rtos_uart_tx_rpc_client_init = driver_rpc_init_client"

definition rtos_uart_tx_rpc_host_init ::
  "u32 \<Rightarrow> u32 list \<Rightarrow> driver_rpc \<Rightarrow> driver \<Rightarrow> (driver \<times> (u32 \<times> u32) list) res" where
  "rtos_uart_tx_rpc_host_init = driver_rpc_init_host"

definition rtos_uart_tx_rpc_config :: "u32 \<Rightarrow> u32 \<Rightarrow> driver \<Rightarrow> driver res" where
  "rtos_uart_tx_rpc_config = driver_rpc_config"

definition uart_tx_rpc_start :: "driver_rpc \<Rightarrow> (rpc_addr \<times> int) list res" where
  "uart_tx_rpc_start = rpc_start"

text \<open>A client that was configured reaches its host.\<close>

lemma uart_client_configured:
  assumes "rpc_wf r" and "rtos_uart_tx_rpc_config port prio (rtos_uart_tx_rpc_client_init it w r d) = Inr d'"
    and "0 \<le> sint port" and "hosts w = Some out" and "unat n < 2 ^ 24" and "unat n \<le> length buf"
  shows "\<exists>rpc. drv_rpc d' = Some rpc \<and>
    rtos_uart_tx_remote_write rpc uart_tx_rpc_thread buf n hosts = Inr (hosts(w \<mapsto> out @ take (unat n) buf))"
  using assms
  by (auto simp: rtos_uart_tx_rpc_config_def rtos_uart_tx_rpc_client_init_def driver_rpc_config_def
      driver_rpc_init_client_def rpc_client_configured uart_remote_write_is_local uart_tx_local_write_def
      uart_tx_bytes_eq)

end
