(* ===== verification/Spi_Slave.thy ===== *)
theory Spi_Slave
  imports Prelude "HOL-Library.Sublist"
begin

text \<open>
  The SPI slave driver (modules/drivers/spi/src/rtos_spi_slave.c): the thread that serves the bus
  and calls back at the start and the end of a transaction, the interrupt it raises, the queue of
  finished transfers, the driver task and the application. Buffers are their addresses.
\<close>

record spi_item =
  item_out_buf :: u32
  item_bytes_written :: u32
  item_in_buf :: u32
  item_bytes_read :: u32

definition XFER_DONE_DEFAULT_BUF_CB_CODE :: byte where "XFER_DONE_DEFAULT_BUF_CB_CODE = 0"
definition XFER_DONE_USER_BUF_CB_CODE :: byte where "XFER_DONE_USER_BUF_CB_CODE = 1"
definition RTOS_SPI_SLAVE_XFER_DONE_QUEUE_SIZE :: nat where "RTOS_SPI_SLAVE_XFER_DONE_QUEUE_SIZE = 2"

text \<open>
  \<open>chan\<close> holds the codes sent to the interrupt, \<open>triggered\<close> says that it is enabled, \<open>active\<close> are the
  buffers of the transaction under way and \<open>notified\<close> the notifications of the driver task.
  The code does not keep the rest: the transfers that ended and have to be reported, those the
  application has been told of, the number of those lost, and the number of callbacks.
\<close>

record spi_slave =
  out_buf :: u32
  outbuf_len :: u32
  bytes_written :: u32
  in_buf :: u32
  inbuf_len :: u32
  bytes_read :: u32
  default_out_buf :: u32
  default_outbuf_len :: u32
  default_bytes_written :: u32
  default_in_buf :: u32
  default_inbuf_len :: u32
  default_bytes_read :: u32
  user_data_ready :: bool
  drop_default_buffers :: bool
  has_xfer_done :: bool
  chan :: "byte list"
  triggered :: bool
  xfer_done_queue :: "spi_item list"
  notified :: nat
  active :: "(u32 \<times> u32) option"
  finished :: "spi_item list"
  results :: "spi_item list"
  lost :: nat
  callbacks :: nat

section \<open>The operations\<close>

definition isr_item :: "byte \<Rightarrow> spi_slave \<Rightarrow> spi_item" where
  "isr_item isr_action s =
     (if isr_action = XFER_DONE_USER_BUF_CB_CODE
      then \<lparr>item_out_buf = out_buf s, item_bytes_written = bytes_written s,
            item_in_buf = in_buf s, item_bytes_read = bytes_read s\<rparr>
      else \<lparr>item_out_buf = default_out_buf s, item_bytes_written = default_bytes_written s,
            item_in_buf = default_in_buf s, item_bytes_read = default_bytes_read s\<rparr>)"

definition rtos_spi_slave_isr :: "spi_slave \<Rightarrow> spi_slave" where
  "rtos_spi_slave_isr s =
     (case chan s of
        [] \<Rightarrow> s
      | isr_action # rest \<Rightarrow>
          let s1 = s\<lparr>chan := rest\<rparr>; item = isr_item isr_action s1 in
          if length (xfer_done_queue s1) < RTOS_SPI_SLAVE_XFER_DONE_QUEUE_SIZE then
            let s2 = s1\<lparr>xfer_done_queue := xfer_done_queue s1 @ [item]\<rparr>
            in if has_xfer_done s2 then s2\<lparr>notified := Suc (notified s2)\<rparr> else s2
          else s1\<lparr>lost := Suc (lost s1)\<rparr>)"

text \<open>What the bus thread is given: the buffers and their lengths.\<close>

definition slave_transaction_started :: "spi_slave \<Rightarrow> (u32 \<times> u32 \<times> u32 \<times> u32) \<times> spi_slave" where
  "slave_transaction_started s =
     (if user_data_ready s
      then ((out_buf s, outbuf_len s, in_buf s, inbuf_len s), s\<lparr>user_data_ready := False\<rparr>)
      else ((default_out_buf s, default_outbuf_len s, default_in_buf s, default_inbuf_len s), s))"

definition slave_transaction_ended :: "u32 \<Rightarrow> u32 \<Rightarrow> u32 \<Rightarrow> u32 \<Rightarrow> spi_slave \<Rightarrow> spi_slave" where
  "slave_transaction_ended o_buf written i_buf got s =
     (if written = 0 then s
      else if o_buf = default_out_buf s \<and> i_buf = default_in_buf s then
        let s1 = s\<lparr>default_bytes_written := written, default_bytes_read := got\<rparr>
        in if drop_default_buffers s1 then s1
           else s1\<lparr>chan := chan s1 @ [XFER_DONE_DEFAULT_BUF_CB_CODE]\<rparr>
      else
        let s1 = s\<lparr>bytes_written := written, bytes_read := got\<rparr>
        in s1\<lparr>chan := chan s1 @ [XFER_DONE_USER_BUF_CB_CODE]\<rparr>)"

definition spi_slave_default_buf_xfer_ended_disable :: "spi_slave \<Rightarrow> spi_slave" where
  "spi_slave_default_buf_xfer_ended_disable s = s\<lparr>drop_default_buffers := True\<rparr>"

definition spi_slave_default_buf_xfer_ended_enable :: "spi_slave \<Rightarrow> spi_slave" where
  "spi_slave_default_buf_xfer_ended_enable s = s\<lparr>drop_default_buffers := False\<rparr>"

definition spi_slave_xfer_prepare :: "u32 \<Rightarrow> u32 \<Rightarrow> u32 \<Rightarrow> u32 \<Rightarrow> spi_slave \<Rightarrow> spi_slave" where
  "spi_slave_xfer_prepare rx_buf rx_buf_len tx_buf tx_buf_len s =
     s\<lparr>in_buf := rx_buf, inbuf_len := rx_buf_len, out_buf := tx_buf, outbuf_len := tx_buf_len,
       user_data_ready := True\<rparr>"

definition spi_slave_xfer_prepare_default_buffers ::
  "u32 \<Rightarrow> u32 \<Rightarrow> u32 \<Rightarrow> u32 \<Rightarrow> spi_slave \<Rightarrow> spi_slave" where
  "spi_slave_xfer_prepare_default_buffers rx_buf rx_buf_len tx_buf tx_buf_len s =
     s\<lparr>default_in_buf := rx_buf, default_inbuf_len := rx_buf_len, default_out_buf := tx_buf,
       default_outbuf_len := tx_buf_len\<rparr>"

text \<open>None: the time is up, -1 in the code.\<close>

definition spi_slave_xfer_complete :: "spi_slave \<Rightarrow> spi_item option \<times> spi_slave" where
  "spi_slave_xfer_complete s =
     (case xfer_done_queue s of
        [] \<Rightarrow> (None, s)
      | item # q \<Rightarrow> (Some item, s\<lparr>xfer_done_queue := q, results := results s @ [item]\<rparr>))"

definition spi_slave_app_thread :: "spi_slave \<Rightarrow> spi_slave" where
  "spi_slave_app_thread s =
     (let s1 = s\<lparr>notified := 0\<rparr>
      in if has_xfer_done s1 then s1\<lparr>callbacks := Suc (callbacks s1)\<rparr> else s1)"

text \<open>
  Initialised and started; the driver task enables the interrupt only where it calls the start
  callback.
\<close>

definition rtos_spi_slave_init :: spi_slave where
  "rtos_spi_slave_init =
     \<lparr>out_buf = 0, outbuf_len = 0, bytes_written = 0, in_buf = 0, inbuf_len = 0, bytes_read = 0,
      default_out_buf = 0, default_outbuf_len = 0, default_bytes_written = 0, default_in_buf = 0,
      default_inbuf_len = 0, default_bytes_read = 0, user_data_ready = False,
      drop_default_buffers = False, has_xfer_done = False, chan = [], triggered = False,
      xfer_done_queue = [], notified = 0, active = None, finished = [], results = [], lost = 0,
      callbacks = 0\<rparr>"

definition rtos_spi_slave_start :: "bool \<Rightarrow> bool \<Rightarrow> spi_slave" where
  "rtos_spi_slave_start start xfer_done =
     (let s = rtos_spi_slave_init\<lparr>has_xfer_done := xfer_done\<rparr>
      in if start then s\<lparr>triggered := True\<rparr> else s)"

section \<open>Transactions\<close>

definition transaction_begin :: "spi_slave \<Rightarrow> spi_slave" where
  "transaction_begin s =
     (let ((o_buf, o_len, i_buf, i_len), s1) = slave_transaction_started s
      in s1\<lparr>active := Some (o_buf, i_buf)\<rparr>)"

text \<open>The transfer that has to be reported when a transaction ends.\<close>

definition to_report :: "u32 \<Rightarrow> u32 \<Rightarrow> u32 \<Rightarrow> u32 \<Rightarrow> spi_slave \<Rightarrow> spi_item list" where
  "to_report o_buf written i_buf got s =
     (if written = 0 \<or> (o_buf = default_out_buf s \<and> i_buf = default_in_buf s \<and> drop_default_buffers s) then []
      else [\<lparr>item_out_buf = o_buf, item_bytes_written = written, item_in_buf = i_buf,
             item_bytes_read = got\<rparr>])"

definition transaction_end :: "u32 \<Rightarrow> u32 \<Rightarrow> u32 \<Rightarrow> u32 \<Rightarrow> spi_slave \<Rightarrow> spi_slave" where
  "transaction_end o_buf written i_buf got s =
     (slave_transaction_ended o_buf written i_buf got s)
       \<lparr>active := None, finished := finished s @ to_report o_buf written i_buf got s\<rparr>"

text \<open>
  The bus, the interrupt, the driver task and the application, in any order. In a \<open>timely\<close> run a
  transaction ends only after the interrupt of the last one was served, and the application gives
  new buffers for its own transfers and new default buffers only while no transaction with the old
  ones is under way or waits for its interrupt; the code enforces neither.
\<close>

definition uses_user :: "spi_slave \<Rightarrow> bool" where
  "uses_user s \<longleftrightarrow> XFER_DONE_USER_BUF_CB_CODE \<in> set (chan s) \<or>
     (\<exists>o_buf i_buf. active s = Some (o_buf, i_buf) \<and> \<not> (o_buf = default_out_buf s \<and> i_buf = default_in_buf s))"

definition uses_default :: "spi_slave \<Rightarrow> bool" where
  "uses_default s \<longleftrightarrow> XFER_DONE_DEFAULT_BUF_CB_CODE \<in> set (chan s) \<or>
     active s = Some (default_out_buf s, default_in_buf s)"

inductive spi_slave_step :: "bool \<Rightarrow> spi_slave \<Rightarrow> spi_slave \<Rightarrow> bool" for timely :: bool where
  begin_transaction: "active s = None \<Longrightarrow> spi_slave_step timely s (transaction_begin s)"
| end_transaction: "active s = Some (o_buf, i_buf) \<Longrightarrow> (timely \<Longrightarrow> chan s = []) \<Longrightarrow>
    spi_slave_step timely s (transaction_end o_buf written i_buf got s)"
| interrupt: "triggered s \<Longrightarrow> chan s \<noteq> [] \<Longrightarrow> spi_slave_step timely s (rtos_spi_slave_isr s)"
| app_task: "0 < notified s \<Longrightarrow> spi_slave_step timely s (spi_slave_app_thread s)"
| prepare: "(timely \<Longrightarrow> \<not> uses_user s) \<Longrightarrow> spi_slave_step timely s (spi_slave_xfer_prepare rx rx_len tx tx_len s)"
| prepare_default: "(timely \<Longrightarrow> \<not> uses_default s) \<Longrightarrow>
    spi_slave_step timely s (spi_slave_xfer_prepare_default_buffers rx rx_len tx tx_len s)"
| complete: "spi_slave_step timely s (snd (spi_slave_xfer_complete s))"
| disable: "spi_slave_step timely s (spi_slave_default_buf_xfer_ended_disable s)"
| enable: "spi_slave_step timely s (spi_slave_default_buf_xfer_ended_enable s)"

text \<open>The transfers of which the driver knows, oldest first; the transaction under way has buffers of either kind.\<close>

definition known :: "spi_slave \<Rightarrow> spi_item list" where
  "known s = results s @ xfer_done_queue s"

definition announced :: "spi_slave \<Rightarrow> spi_item list" where
  "announced s = map (\<lambda>c. isr_item c s) (chan s)"

definition slave_inv :: "spi_slave \<Rightarrow> bool" where
  "slave_inv s \<longleftrightarrow> length (chan s) \<le> 1 \<and> length (xfer_done_queue s) \<le> RTOS_SPI_SLAVE_XFER_DONE_QUEUE_SIZE \<and>
     set (chan s) \<subseteq> {XFER_DONE_DEFAULT_BUF_CB_CODE, XFER_DONE_USER_BUF_CB_CODE} \<and>
     (\<forall>o_buf i_buf. active s = Some (o_buf, i_buf) \<longrightarrow>
        (o_buf, i_buf) = (default_out_buf s, default_in_buf s) \<or> (o_buf, i_buf) = (out_buf s, in_buf s)) \<and>
     (\<exists>f. finished s = f @ announced s \<and> subseq (known s) f \<and> length f = length (known s) + lost s)"

lemma codes_differ [simp]:
  "XFER_DONE_DEFAULT_BUF_CB_CODE \<noteq> XFER_DONE_USER_BUF_CB_CODE"
  "XFER_DONE_USER_BUF_CB_CODE \<noteq> XFER_DONE_DEFAULT_BUF_CB_CODE"
  by (simp_all add: XFER_DONE_DEFAULT_BUF_CB_CODE_def XFER_DONE_USER_BUF_CB_CODE_def)

lemma isr_item_cong:
  assumes "isr_action = XFER_DONE_USER_BUF_CB_CODE \<Longrightarrow>
      out_buf s' = out_buf s \<and> bytes_written s' = bytes_written s \<and> in_buf s' = in_buf s \<and>
      bytes_read s' = bytes_read s"
    and "isr_action \<noteq> XFER_DONE_USER_BUF_CB_CODE \<Longrightarrow>
      default_out_buf s' = default_out_buf s \<and> default_bytes_written s' = default_bytes_written s \<and>
      default_in_buf s' = default_in_buf s \<and> default_bytes_read s' = default_bytes_read s"
  shows "isr_item isr_action s' = isr_item isr_action s"
  using assms by (simp add: isr_item_def)

lemma slave_inv_same:
  assumes "slave_inv s" and "chan s' = chan s" and "finished s' = finished s" and "lost s' = lost s"
    and "known s' = known s" and "length (xfer_done_queue s') \<le> length (xfer_done_queue s)"
    and "\<And>c. c \<in> set (chan s) \<Longrightarrow> isr_item c s' = isr_item c s"
    and "\<And>o_buf i_buf. active s' = Some (o_buf, i_buf) \<Longrightarrow>
      (o_buf, i_buf) = (default_out_buf s', default_in_buf s') \<or> (o_buf, i_buf) = (out_buf s', in_buf s')"
  shows "slave_inv s'"
proof -
  have "announced s' = announced s" using assms(2,7) by (simp add: announced_def)
  with assms show ?thesis unfolding slave_inv_def by auto
qed

lemma to_report_announced:
  assumes "(o_buf, i_buf) = (default_out_buf s, default_in_buf s) \<or> (o_buf, i_buf) = (out_buf s, in_buf s)"
    and "chan s = []"
  shows "announced (transaction_end o_buf written i_buf got s) = to_report o_buf written i_buf got s"
  using assms
  by (auto simp: transaction_end_def slave_transaction_ended_def announced_def to_report_def isr_item_def Let_def)

lemma transaction_end_inv:
  assumes "slave_inv s" and "active s = Some (o_buf, i_buf)" and "chan s = []"
  shows "slave_inv (transaction_end o_buf written i_buf got s)"
proof -
  let ?s = "transaction_end o_buf written i_buf got s"
  have b: "(o_buf, i_buf) = (default_out_buf s, default_in_buf s) \<or> (o_buf, i_buf) = (out_buf s, in_buf s)"
    using assms(1,2) by (simp add: slave_inv_def)
  have f: "finished ?s = finished s @ announced ?s"
    using to_report_announced [OF b assms(3)] by (simp add: transaction_end_def)
  have "known ?s = known s" "xfer_done_queue ?s = xfer_done_queue s" "lost ?s = lost s" "active ?s = None"
    "length (chan ?s) \<le> 1" "set (chan ?s) \<subseteq> {XFER_DONE_DEFAULT_BUF_CB_CODE, XFER_DONE_USER_BUF_CB_CODE}"
    using assms(3) by (simp_all add: transaction_end_def slave_transaction_ended_def known_def Let_def)
  moreover have "subseq (known s) (finished s) \<and> length (finished s) = length (known s) + lost s"
    using assms(1,3) by (simp add: slave_inv_def announced_def)
  ultimately show ?thesis
    using assms(1) f unfolding slave_inv_def by auto
qed

lemma isr_inv:
  assumes "slave_inv s" and "chan s \<noteq> []"
  shows "slave_inv (rtos_spi_slave_isr s)"
proof -
  obtain c where c: "chan s = [c]" using assms by (cases "chan s") (auto simp: slave_inv_def)
  let ?s = "rtos_spi_slave_isr s"
  let ?room = "length (xfer_done_queue s) < RTOS_SPI_SLAVE_XFER_DONE_QUEUE_SIZE"
  have i: "isr_item c (s\<lparr>chan := []\<rparr>) = isr_item c s" by (rule isr_item_cong) simp_all
  obtain f where f: "finished s = f @ [isr_item c s]" "subseq (known s) f" "length f = length (known s) + lost s"
    using assms(1) c by (auto simp: slave_inv_def announced_def)
  have k: "known ?s = known s @ (if ?room then [isr_item c s] else [])"
    and o: "finished ?s = finished s" "active ?s = active s" "chan ?s = []" "out_buf ?s = out_buf s"
      "in_buf ?s = in_buf s" "default_out_buf ?s = default_out_buf s" "default_in_buf ?s = default_in_buf s"
      "lost ?s = lost s + (if ?room then 0 else 1)"
      "length (xfer_done_queue ?s) \<le> RTOS_SPI_SLAVE_XFER_DONE_QUEUE_SIZE"
    using c assms(1) i by (simp_all add: rtos_spi_slave_isr_def known_def slave_inv_def Let_def)
  have "subseq (known ?s) (f @ [isr_item c s])"
    unfolding k by (rule list_emb_append_mono) (use f(2) in simp_all)
  moreover have "length (f @ [isr_item c s]) = length (known ?s) + lost ?s"
    unfolding k o using f(3) by simp
  moreover have "finished ?s = (f @ [isr_item c s]) @ announced ?s"
    using f(1) o by (simp add: announced_def)
  ultimately show ?thesis
    using assms(1) o unfolding slave_inv_def by auto
qed

lemma slave_inv_step:
  assumes "spi_slave_step True s s'" and "slave_inv s"
  shows "slave_inv s'"
  using assms
proof (induction rule: spi_slave_step.induct)
  case (begin_transaction s)
  then show ?case
    by - (rule slave_inv_same [of s], auto simp: transaction_begin_def slave_transaction_started_def known_def
        intro!: isr_item_cong split: if_splits)
next
  case (end_transaction s o_buf i_buf written got)
  then show ?case by (simp add: transaction_end_inv)
next
  case (interrupt s)
  then show ?case by (simp add: isr_inv)
next
  case (app_task s)
  then show ?case
    by - (rule slave_inv_same [of s], auto simp: spi_slave_app_thread_def known_def slave_inv_def Let_def
        intro!: isr_item_cong split: if_splits)
next
  case (prepare s rx rx_len tx tx_len)
  then show ?case
    by - (rule slave_inv_same [of s], auto simp: spi_slave_xfer_prepare_def known_def uses_user_def
        intro!: isr_item_cong)
next
  case (prepare_default s rx rx_len tx tx_len)
  then show ?case
    by - (rule slave_inv_same [of s], auto simp: spi_slave_xfer_prepare_default_buffers_def known_def
        uses_default_def slave_inv_def intro!: isr_item_cong)
next
  case (complete s)
  then show ?case
    by - (rule slave_inv_same [of s], auto simp: spi_slave_xfer_complete_def known_def slave_inv_def
        intro!: isr_item_cong split: list.splits)
next
  case (disable s)
  then show ?case
    by - (rule slave_inv_same [of s], auto simp: spi_slave_default_buf_xfer_ended_disable_def known_def
        slave_inv_def intro!: isr_item_cong)
next
  case (enable s)
  then show ?case
    by - (rule slave_inv_same [of s], auto simp: spi_slave_default_buf_xfer_ended_enable_def known_def
        slave_inv_def intro!: isr_item_cong)
qed

lemma slave_inv_start: "slave_inv (rtos_spi_slave_start start xfer_done)"
  by (simp add: slave_inv_def rtos_spi_slave_start_def rtos_spi_slave_init_def known_def announced_def Let_def)

text \<open>In any order no transfer is forgotten: it was told of, is queued or announced, or counted as lost.\<close>

definition slave_counts :: "spi_slave \<Rightarrow> bool" where
  "slave_counts s \<longleftrightarrow> length (xfer_done_queue s) \<le> RTOS_SPI_SLAVE_XFER_DONE_QUEUE_SIZE \<and>
     length (finished s) = length (results s) + length (xfer_done_queue s) + length (chan s) + lost s"

lemma slave_counts_step:
  assumes "spi_slave_step timely s s'" and "slave_counts s"
  shows "slave_counts s'"
  using assms
  by (induction rule: spi_slave_step.induct)
    (auto simp: slave_counts_def transaction_begin_def slave_transaction_started_def transaction_end_def
      slave_transaction_ended_def to_report_def rtos_spi_slave_isr_def spi_slave_app_thread_def
      spi_slave_xfer_prepare_def spi_slave_xfer_prepare_default_buffers_def spi_slave_xfer_complete_def
      spi_slave_default_buf_xfer_ended_disable_def spi_slave_default_buf_xfer_ended_enable_def Let_def
      split: list.splits)

lemma slave_counts_reachable:
  assumes "(spi_slave_step timely)\<^sup>*\<^sup>* (rtos_spi_slave_start start xfer_done) s"
  shows "slave_counts s"
proof -
  have "slave_counts (rtos_spi_slave_start start xfer_done)"
    by (simp add: slave_counts_def rtos_spi_slave_start_def rtos_spi_slave_init_def Let_def)
  with assms show ?thesis by (induction rule: rtranclp_induct) (auto intro: slave_counts_step)
qed

lemma slave_inv_reachable:
  assumes "(spi_slave_step True)\<^sup>*\<^sup>* (rtos_spi_slave_start start xfer_done) s"
  shows "slave_inv s"
  using assms by (induction rule: rtranclp_induct) (auto intro: slave_inv_step slave_inv_start)

lemma slave_inv_reports:
  assumes "slave_inv s"
  shows "subseq (known s) (finished s)" and "lost s = 0 \<Longrightarrow> prefix (results s) (finished s)"
proof -
  obtain f where f: "finished s = f @ announced s" "subseq (known s) f" "length f = length (known s) + lost s"
    using assms by (auto simp: slave_inv_def)
  have "subseq (known s @ []) (f @ announced s)"
    by (rule list_emb_append_mono) (use f(2) in simp_all)
  then show "subseq (known s) (finished s)" using f(1) by simp
  assume "lost s = 0"
  then have "known s = f" using f(2,3) by (simp add: subseq_same_length)
  then have "finished s = results s @ xfer_done_queue s @ announced s"
    using f(1) by (simp add: known_def)
  then show "prefix (results s) (finished s)" by (rule prefixI)
qed


section \<open>Two transfers\<close>

text \<open>The application gives buffers for one transfer; the bus makes two.\<close>

definition prepared :: spi_slave where
  "prepared = spi_slave_xfer_prepare 16 4 32 4
     (spi_slave_xfer_prepare_default_buffers 48 8 64 8 (rtos_spi_slave_start True True))"

definition one_transfer :: spi_slave where
  "one_transfer = rtos_spi_slave_isr (transaction_end 32 4 16 4 (transaction_begin prepared))"

lemma one_transfer_reachable: "(spi_slave_step True)\<^sup>*\<^sup>* (rtos_spi_slave_start True True) one_transfer"
proof -
  let ?s = "rtos_spi_slave_start True True"
  let ?a = "spi_slave_xfer_prepare_default_buffers 48 8 64 8 ?s"
  note defs = rtos_spi_slave_start_def rtos_spi_slave_init_def prepared_def spi_slave_xfer_prepare_def
    spi_slave_xfer_prepare_default_buffers_def Let_def uses_default_def uses_user_def transaction_begin_def
    slave_transaction_started_def transaction_end_def slave_transaction_ended_def
  have "spi_slave_step True ?s ?a" by (rule prepare_default) (simp add: defs)
  moreover have "spi_slave_step True ?a prepared" unfolding prepared_def by (rule prepare) (simp add: defs)
  moreover have "spi_slave_step True prepared (transaction_begin prepared)"
    by (rule begin_transaction) (simp add: defs)
  moreover have "spi_slave_step True (transaction_begin prepared) (transaction_end 32 4 16 4 (transaction_begin prepared))"
    by (rule end_transaction) (simp_all add: defs)
  moreover have "spi_slave_step True (transaction_end 32 4 16 4 (transaction_begin prepared)) one_transfer"
    unfolding one_transfer_def by (rule interrupt) (simp_all add: defs)
  ultimately show ?thesis by (meson rtranclp.rtrancl_refl rtranclp.rtrancl_into_rtrancl)
qed


text \<open>Buffers serve one transaction, although the header says that one call may serve all.\<close>

lemma spi_slave_buffers_used_once:
  "fst (slave_transaction_started prepared) = (32, 4, 16, 4)"
  "fst (slave_transaction_started one_transfer) = (64, 8, 48, 8)"
  by (simp_all add: one_transfer_def prepared_def rtos_spi_slave_start_def rtos_spi_slave_init_def
      spi_slave_xfer_prepare_def spi_slave_xfer_prepare_default_buffers_def Let_def transaction_begin_def
      slave_transaction_started_def transaction_end_def slave_transaction_ended_def rtos_spi_slave_isr_def
      RTOS_SPI_SLAVE_XFER_DONE_QUEUE_SIZE_def isr_item_def)

text \<open>An interrupt that is served after the next transaction has ended reports that one twice.\<close>

lemma spi_slave_late_interrupt:
  assumes "chan s = []" and "xfer_done_queue s = []" and "\<not> drop_default_buffers s" and "w \<noteq> 0" and "w' \<noteq> 0"
  shows "map item_bytes_written (xfer_done_queue (rtos_spi_slave_isr (rtos_spi_slave_isr
      (slave_transaction_ended (default_out_buf s) w' (default_in_buf s) g'
        (slave_transaction_ended (default_out_buf s) w (default_in_buf s) g s))))) = [w', w']"
  using assms by (simp add: slave_transaction_ended_def rtos_spi_slave_isr_def Let_def isr_item_def
      RTOS_SPI_SLAVE_XFER_DONE_QUEUE_SIZE_def)

text \<open>Two transfers can be announced by one callback: the task takes all notifications at once.\<close>

lemma spi_slave_one_callback_for_two:
  "has_xfer_done s \<Longrightarrow> notified s = 2 \<Longrightarrow>
     notified (spi_slave_app_thread s) = 0 \<and> callbacks (spi_slave_app_thread s) = Suc (callbacks s)"
  by (simp add: spi_slave_app_thread_def)

text \<open>
  Without a start callback, which the header says is optional, the interrupt is never enabled
  and no transfer is ever reported.
\<close>

lemma spi_slave_without_start_never_reports:
  assumes "(spi_slave_step timely)\<^sup>*\<^sup>* (rtos_spi_slave_start False xfer_done) s"
  shows "known s = []"
proof -
  from assms have "\<not> triggered s \<and> known s = []"
  proof (induction rule: rtranclp_induct)
    case base
    then show ?case
      by (simp add: rtos_spi_slave_start_def rtos_spi_slave_init_def known_def Let_def)
  next
    case (step s s')
    from step(2,3) show ?case
      by (induction rule: spi_slave_step.induct)
        (auto simp: transaction_begin_def slave_transaction_started_def transaction_end_def
          slave_transaction_ended_def spi_slave_app_thread_def spi_slave_xfer_prepare_def
          spi_slave_xfer_prepare_default_buffers_def spi_slave_xfer_complete_def
          spi_slave_default_buf_xfer_ended_disable_def spi_slave_default_buf_xfer_ended_enable_def
          known_def Let_def split: list.splits prod.splits)
  qed
  then show ?thesis by simp
qed

end
