(* ===== verification/I2c_Slave.thy ===== *)
theory I2c_Slave
  imports Prelude
begin

text \<open>
  The I2C slave driver (modules/drivers/i2c/src/rtos_i2c_slave.c): the callbacks that the bus thread
  (lib_i2c) makes for what the master does, the interrupt, and the driver task that calls the
  application. A callback of the bus thread waits for the task where the code reads the channel.
\<close>

definition RX_CB_CODE :: nat where "RX_CB_CODE = 0"
definition TX_START_CB_CODE :: nat where "TX_START_CB_CODE = 1"
definition TX_DONE_CB_CODE :: nat where "TX_DONE_CB_CODE = 2"
definition RTOS_I2C_SLAVE_BUF_LEN :: nat where "RTOS_I2C_SLAVE_BUF_LEN = 256"

text \<open>
  What the master asks for; where the bus thread is: in no callback, waiting for the task to end
  the callback of the last transfer or of this one, waiting for data to send; where the task is:
  waiting for events, with events to serve, after a callback; the bus between callbacks.
\<close>

datatype request = Read_req | Write_req | Stop_bit

datatype hil_pc = Hil_idle | Await_pending request | Await_complete request | Await_start

datatype app_pc = App_wait | App_flags "nat set" | App_clear nat "nat set"

datatype bus_mode = Bus_free | Bus_write | Bus_read

text \<open>
  What happens on the bus and what the application is called for: the trace, which the code does
  not keep.
\<close>

datatype i2c_event =
    Start_write
  | Sent byte
  | Data byte
  | Stop
  | Rx_called "byte list"
  | Tx_start_called "byte list"
  | Tx_done_called "byte list" nat

text \<open>
  \<open>tx_data\<close> is the content of the \<open>tx_data_len\<close> bytes to send, empty for a null pointer; \<open>to_app\<close> and
  \<open>to_hil\<close> are the channel in both directions.
\<close>

record i2c_slave =
  data_buf :: "byte list"
  rx_data_i :: nat
  tx_data :: "byte list"
  tx_data_i :: nat
  tx_data_sent :: nat
  waiting_for_complete_cb :: bool
  hil :: hil_pc
  mode :: bus_mode
  to_app :: "nat list"
  to_hil :: nat
  events :: "nat set"
  app :: app_pc
  trace :: "i2c_event list"

definition log_event :: "i2c_event \<Rightarrow> i2c_slave \<Rightarrow> i2c_slave" where
  "log_event e s = s\<lparr>trace := trace s @ [e]\<rparr>"

definition post :: "nat \<Rightarrow> i2c_slave \<Rightarrow> i2c_slave" where
  "post c s = s\<lparr>to_app := to_app s @ [c]\<rparr>"

section \<open>The callbacks of the bus thread\<close>

definition tx_state_clear :: "i2c_slave \<Rightarrow> i2c_slave" where
  "tx_state_clear s = s\<lparr>tx_data := [], tx_data_i := 0, tx_data_sent := 0\<rparr>"

definition rx_state_clear :: "i2c_slave \<Rightarrow> i2c_slave" where
  "rx_state_clear s = s\<lparr>rx_data_i := 0\<rparr>"

text \<open>After the check: the rest of \<open>i2c_ack_read_req\<close> up to its wait, of \<open>i2c_ack_write_req\<close> and of \<open>i2c_stop_bit\<close>.\<close>

fun request_rest :: "request \<Rightarrow> i2c_slave \<Rightarrow> i2c_slave" where
  "request_rest Read_req s = (post TX_START_CB_CODE (s\<lparr>tx_data := data_buf s\<rparr>))\<lparr>hil := Await_start\<rparr>"
| "request_rest Write_req s = log_event Start_write (s\<lparr>rx_data_i := 0, mode := Bus_write, hil := Hil_idle\<rparr>)"
| "request_rest Stop_bit s = s\<lparr>hil := Hil_idle\<rparr>"

text \<open>\<open>xfer_complete_check\<close> with the callback it is part of; only a stop does not wait.\<close>

definition completion :: "nat \<Rightarrow> request \<Rightarrow> i2c_slave \<Rightarrow> i2c_slave" where
  "completion code r s =
     (let s1 = post code s
      in if r = Stop_bit then s1\<lparr>waiting_for_complete_cb := True, hil := Hil_idle\<rparr>
         else s1\<lparr>hil := Await_complete r\<rparr>)"

definition check_rest :: "bool \<Rightarrow> request \<Rightarrow> i2c_slave \<Rightarrow> i2c_slave" where
  "check_rest has_tx_done r s0 =
     (let s = if r = Stop_bit then log_event Stop (s0\<lparr>mode := Bus_free\<rparr>) else s0 in
      if tx_data_sent s > 0 then
        if has_tx_done then completion TX_DONE_CB_CODE r s
        else request_rest r (tx_state_clear s)
      else if rx_data_i s > 0 then completion RX_CB_CODE r s
      else request_rest r s)"

definition xfer_complete_check :: "bool \<Rightarrow> request \<Rightarrow> i2c_slave \<Rightarrow> i2c_slave" where
  "xfer_complete_check has_tx_done r s =
     (if waiting_for_complete_cb s then s\<lparr>hil := Await_pending r\<rparr> else check_rest has_tx_done r s)"

definition start_rest :: "i2c_slave \<Rightarrow> i2c_slave" where
  "start_rest s = s\<lparr>tx_data_i := 0, tx_data_sent := 0, mode := Bus_read, hil := Hil_idle\<rparr>"

definition read_ack :: "i2c_slave \<Rightarrow> bool" where
  "read_ack s \<longleftrightarrow> tx_data s \<noteq> []"

definition i2c_master_req_data :: "i2c_slave \<Rightarrow> byte \<times> i2c_slave" where
  "i2c_master_req_data s =
     (if tx_data s \<noteq> [] then
        let tx_byte = tx_data s ! tx_data_i s;
            s1 = s\<lparr>tx_data_i := Suc (tx_data_i s)\<rparr>;
            s2 = if tx_data_i s1 = length (tx_data s1) then s1\<lparr>tx_data_i := 0\<rparr> else s1
        in (tx_byte, s2\<lparr>tx_data_sent := Suc (tx_data_sent s2)\<rparr>)
      else (0xFF, s))"

text \<open>\<open>check\<close> is what the application's callback for the byte makes of the answer, if it has one; True is ACK.\<close>

definition i2c_master_sent_data :: "(bool \<Rightarrow> bool) \<Rightarrow> byte \<Rightarrow> i2c_slave \<Rightarrow> bool \<times> i2c_slave" where
  "i2c_master_sent_data check d s =
     (let s1 = if rx_data_i s < RTOS_I2C_SLAVE_BUF_LEN
               then s\<lparr>data_buf := (data_buf s)[rx_data_i s := d], rx_data_i := Suc (rx_data_i s)\<rparr> else s
      in (check (rx_data_i s1 < RTOS_I2C_SLAVE_BUF_LEN), s1))"

section \<open>The interrupt and the driver task\<close>

definition rtos_i2c_slave_isr :: "i2c_slave \<Rightarrow> i2c_slave" where
  "rtos_i2c_slave_isr s =
     (case to_app s of [] \<Rightarrow> s | c # cs \<Rightarrow> s\<lparr>to_app := cs, events := insert c (events s)\<rparr>)"

definition app_take :: "i2c_slave \<Rightarrow> i2c_slave" where
  "app_take s = s\<lparr>events := {}, app := App_flags (events s)\<rparr>"

text \<open>The callback of the first flag that is set; \<open>reply\<close> is what the application gives to send.\<close>

definition app_call :: "byte list \<Rightarrow> nat set \<Rightarrow> i2c_slave \<Rightarrow> i2c_slave" where
  "app_call reply flags s =
     (if RX_CB_CODE \<in> flags then
        log_event (Rx_called (take (rx_data_i s) (data_buf s)))
          (s\<lparr>app := App_clear RX_CB_CODE (flags - {RX_CB_CODE})\<rparr>)
      else if TX_START_CB_CODE \<in> flags then
        log_event (Tx_start_called reply)
          (s\<lparr>tx_data := reply, app := App_clear TX_START_CB_CODE (flags - {TX_START_CB_CODE})\<rparr>)
      else if TX_DONE_CB_CODE \<in> flags then
        log_event (Tx_done_called (tx_data s) (tx_data_sent s))
          (s\<lparr>app := App_clear TX_DONE_CB_CODE (flags - {TX_DONE_CB_CODE})\<rparr>)
      else s\<lparr>app := App_wait\<rparr>)"

definition app_clear :: "nat \<Rightarrow> nat set \<Rightarrow> i2c_slave \<Rightarrow> i2c_slave" where
  "app_clear c flags s =
     (let s1 = if c = RX_CB_CODE then rx_state_clear s
               else if c = TX_DONE_CB_CODE then tx_state_clear s else s
      in s1\<lparr>to_hil := Suc (to_hil s1), app := App_flags flags\<rparr>)"

definition rtos_i2c_slave_start :: i2c_slave where
  "rtos_i2c_slave_start =
     \<lparr>data_buf = replicate RTOS_I2C_SLAVE_BUF_LEN 0, rx_data_i = 0, tx_data = [], tx_data_i = 0,
      tx_data_sent = 0, waiting_for_complete_cb = False, hil = Hil_idle, mode = Bus_free, to_app = [],
      to_hil = 0, events = {}, app = App_wait, trace = []\<rparr>"

text \<open>
  The bus thread asks for data and brings data only in a read and a write; a token ends the wait
  it is in.
\<close>

inductive i2c_slave_step :: "bool \<Rightarrow> i2c_slave \<Rightarrow> i2c_slave \<Rightarrow> bool" for has_tx_done where
  bus_request: "hil s = Hil_idle \<Longrightarrow> i2c_slave_step has_tx_done s (xfer_complete_check has_tx_done r s)"
| pending_ended: "hil s = Await_pending r \<Longrightarrow> 0 < to_hil s \<Longrightarrow>
    i2c_slave_step has_tx_done s
      (check_rest has_tx_done r (s\<lparr>to_hil := to_hil s - 1, waiting_for_complete_cb := False\<rparr>))"
| complete_ended: "hil s = Await_complete r \<Longrightarrow> 0 < to_hil s \<Longrightarrow>
    i2c_slave_step has_tx_done s (request_rest r (s\<lparr>to_hil := to_hil s - 1\<rparr>))"
| start_ended: "hil s = Await_start \<Longrightarrow> 0 < to_hil s \<Longrightarrow>
    i2c_slave_step has_tx_done s (start_rest (s\<lparr>to_hil := to_hil s - 1\<rparr>))"
| bus_data: "hil s = Hil_idle \<Longrightarrow> mode s = Bus_read \<Longrightarrow>
    i2c_slave_step has_tx_done s (log_event (Data (fst (i2c_master_req_data s))) (snd (i2c_master_req_data s)))"
| bus_sent: "hil s = Hil_idle \<Longrightarrow> mode s = Bus_write \<Longrightarrow>
    i2c_slave_step has_tx_done s (log_event (Sent d) (snd (i2c_master_sent_data check d s)))"
| interrupt: "to_app s \<noteq> [] \<Longrightarrow> i2c_slave_step has_tx_done s (rtos_i2c_slave_isr s)"
| task_take: "app s = App_wait \<Longrightarrow> events s \<noteq> {} \<Longrightarrow> i2c_slave_step has_tx_done s (app_take s)"
| task_call: "app s = App_flags flags \<Longrightarrow> i2c_slave_step has_tx_done s (app_call reply flags s)"
| task_clear: "app s = App_clear c flags \<Longrightarrow> i2c_slave_step has_tx_done s (app_clear c flags s)"

section \<open>What the application and the master see\<close>

text \<open>
  The transfer that is open: none, a write with its bytes, a read with the data to send and the
  number of bytes sent, one that has ended and of which the application is still to be told.
\<close>

datatype phase = Quiet | Writing "byte list" | Reading "byte list" nat | Owes i2c_event

fun owed :: "bool \<Rightarrow> phase \<Rightarrow> i2c_event option" where
  "owed has_tx_done Quiet = None"
| "owed has_tx_done (Writing ds) = (if ds = [] then None else Some (Rx_called (take RTOS_I2C_SLAVE_BUF_LEN ds)))"
| "owed has_tx_done (Reading bs n) = (if n = 0 \<or> \<not> has_tx_done then None else Some (Tx_done_called bs n))"
| "owed has_tx_done (Owes e) = Some e"

definition byte_at :: "byte list \<Rightarrow> nat \<Rightarrow> byte" where
  "byte_at bs n = (if bs = [] then 0xFF else bs ! (n mod length bs))"

text \<open>The events that may follow: the application is told of a transfer before the next one begins.\<close>

fun i2c_next :: "bool \<Rightarrow> phase \<Rightarrow> i2c_event \<Rightarrow> phase option" where
  "i2c_next dn (Writing ds) (Sent d) = Some (Writing (ds @ [d]))"
| "i2c_next dn (Reading bs n) (Data b) =
     (if b = byte_at bs n then Some (Reading bs (if bs = [] then n else Suc n)) else None)"
| "i2c_next dn ph Start_write = (if owed dn ph = None then Some (Writing []) else None)"
| "i2c_next dn ph (Tx_start_called bs) = (if owed dn ph = None then Some (Reading bs 0) else None)"
| "i2c_next dn (Owes e) Stop = None"
| "i2c_next dn ph Stop = Some (case owed dn ph of None \<Rightarrow> Quiet | Some e \<Rightarrow> Owes e)"
| "i2c_next dn ph (Rx_called bs) = (if owed dn ph = Some (Rx_called bs) then Some Quiet else None)"
| "i2c_next dn ph (Tx_done_called bs n) = (if owed dn ph = Some (Tx_done_called bs n) then Some Quiet else None)"
| "i2c_next dn ph _ = None"

definition i2c_legal :: "bool \<Rightarrow> i2c_event list \<Rightarrow> phase option" where
  "i2c_legal dn es = foldl (\<lambda>q e. Option.bind q (\<lambda>ph. i2c_next dn ph e)) (Some Quiet) es"

lemma i2c_legal_snoc: "i2c_legal dn (es @ [e]) = Option.bind (i2c_legal dn es) (\<lambda>ph. i2c_next dn ph e)"
  by (simp add: i2c_legal_def)

section \<open>The invariant\<close>

fun matches :: "phase \<Rightarrow> i2c_slave \<Rightarrow> bool" where
  "matches Quiet s \<longleftrightarrow> rx_data_i s = 0 \<and> tx_data_sent s = 0"
| "matches (Writing ds) s \<longleftrightarrow>
     rx_data_i s = min RTOS_I2C_SLAVE_BUF_LEN (length ds) \<and>
     take (rx_data_i s) (data_buf s) = take RTOS_I2C_SLAVE_BUF_LEN ds \<and> tx_data_sent s = 0"
| "matches (Reading bs n) s \<longleftrightarrow>
     rx_data_i s = 0 \<and> tx_data s = bs \<and> tx_data_sent s = n \<and>
     tx_data_i s = (if bs = [] then 0 else n mod length bs) \<and> (bs = [] \<longrightarrow> n = 0)"
| "matches (Owes (Rx_called bs)) s \<longleftrightarrow> take (rx_data_i s) (data_buf s) = bs \<and> tx_data_sent s = 0"
| "matches (Owes (Tx_done_called bs n)) s \<longleftrightarrow> rx_data_i s = 0 \<and> tx_data s = bs \<and> tx_data_sent s = n"
| "matches (Owes _) s \<longleftrightarrow> False"

definition resting :: "i2c_slave \<Rightarrow> bool" where
  "resting s \<longleftrightarrow> to_app s = [] \<and> events s = {} \<and> (app s = App_wait \<or> app s = App_flags {})"

text \<open>The code \<open>c\<close> is on its way to the task; its callback has returned; the token is on its way back.\<close>

definition outstanding :: "nat \<Rightarrow> i2c_slave \<Rightarrow> bool" where
  "outstanding c s \<longleftrightarrow> to_hil s = 0 \<and>
     (to_app s = [c] \<and> events s = {} \<and> (app s = App_wait \<or> app s = App_flags {}) \<or>
      to_app s = [] \<and> events s = {c} \<and> (app s = App_wait \<or> app s = App_flags {}) \<or>
      to_app s = [] \<and> events s = {} \<and> app s = App_flags {c})"

definition called :: "nat \<Rightarrow> i2c_slave \<Rightarrow> bool" where
  "called c s \<longleftrightarrow> to_hil s = 0 \<and> to_app s = [] \<and> events s = {} \<and> app s = App_clear c {}"

definition answered :: "i2c_slave \<Rightarrow> bool" where
  "answered s \<longleftrightarrow> to_hil s = 1 \<and> resting s"

definition at_rest :: "i2c_slave \<Rightarrow> bool" where
  "at_rest s \<longleftrightarrow> to_hil s = 0 \<and> resting s"

fun code_of :: "i2c_event \<Rightarrow> nat" where
  "code_of (Rx_called bs) = RX_CB_CODE"
| "code_of _ = TX_DONE_CB_CODE"

definition completing :: "bool \<Rightarrow> phase \<Rightarrow> i2c_slave \<Rightarrow> bool" where
  "completing dn ph s \<longleftrightarrow>
     (\<exists>e. owed dn ph = Some e \<and> outstanding (code_of e) s \<and> matches ph s) \<or>
     ph = Quiet \<and> called RX_CB_CODE s \<and> tx_data_sent s = 0 \<or>
     ph = Quiet \<and> called TX_DONE_CB_CODE s \<and> rx_data_i s = 0 \<or>
     ph = Quiet \<and> answered s \<and> rx_data_i s = 0 \<and> tx_data_sent s = 0"

definition starting :: "bool \<Rightarrow> phase \<Rightarrow> i2c_slave \<Rightarrow> bool" where
  "starting dn ph s \<longleftrightarrow> rx_data_i s = 0 \<and> tx_data_sent s = 0 \<and>
     (owed dn ph = None \<and> outstanding TX_START_CB_CODE s \<or>
      ph = Reading (tx_data s) 0 \<and> (called TX_START_CB_CODE s \<or> answered s))"

definition idle_ok :: "phase \<Rightarrow> i2c_slave \<Rightarrow> bool" where
  "idle_ok ph s \<longleftrightarrow> at_rest s \<and> matches ph s \<and> (\<forall>e. ph \<noteq> Owes e) \<and>
     (mode s = Bus_write \<longrightarrow> (\<exists>ds. ph = Writing ds)) \<and> (mode s = Bus_read \<longrightarrow> (\<exists>bs n. ph = Reading bs n))"

definition phase_ok :: "bool \<Rightarrow> phase \<Rightarrow> i2c_slave \<Rightarrow> bool" where
  "phase_ok dn ph s \<longleftrightarrow>
     (case hil s of
        Hil_idle \<Rightarrow> if waiting_for_complete_cb s then mode s = Bus_free \<and> completing dn ph s else idle_ok ph s
      | Await_pending r \<Rightarrow> waiting_for_complete_cb s \<and> completing dn ph s
      | Await_complete r \<Rightarrow> \<not> waiting_for_complete_cb s \<and> r \<noteq> Stop_bit \<and> completing dn ph s
      | Await_start \<Rightarrow> \<not> waiting_for_complete_cb s \<and> starting dn ph s)"

definition slave_good :: "bool \<Rightarrow> i2c_slave \<Rightarrow> bool" where
  "slave_good dn s \<longleftrightarrow> length (data_buf s) = RTOS_I2C_SLAVE_BUF_LEN \<and>
     (\<exists>ph. i2c_legal dn (trace s) = Some ph \<and> phase_ok dn ph s)"

lemma codes_distinct [simp]:
  "RX_CB_CODE \<noteq> TX_START_CB_CODE" "RX_CB_CODE \<noteq> TX_DONE_CB_CODE" "TX_START_CB_CODE \<noteq> RX_CB_CODE"
  "TX_START_CB_CODE \<noteq> TX_DONE_CB_CODE" "TX_DONE_CB_CODE \<noteq> RX_CB_CODE" "TX_DONE_CB_CODE \<noteq> TX_START_CB_CODE"
  by (simp_all add: RX_CB_CODE_def TX_START_CB_CODE_def TX_DONE_CB_CODE_def)

lemma buf_len_pos [simp]: "0 < RTOS_I2C_SLAVE_BUF_LEN" "RTOS_I2C_SLAVE_BUF_LEN \<noteq> 0"
  by (simp_all add: RTOS_I2C_SLAVE_BUF_LEN_def)

lemmas place_defs = resting_def outstanding_def called_def answered_def at_rest_def

lemma slave_good_start: "slave_good dn rtos_i2c_slave_start"
  by (simp add: slave_good_def rtos_i2c_slave_start_def i2c_legal_def phase_ok_def idle_ok_def place_defs)

text \<open>The rest of a request when the application has been told of everything.\<close>

lemma request_rest_good:
  assumes "i2c_legal dn (trace s) = Some ph" and "owed dn ph = None" and "\<forall>e. ph \<noteq> Owes e"
    and "length (data_buf s) = RTOS_I2C_SLAVE_BUF_LEN" and "at_rest s" and "\<not> waiting_for_complete_cb s"
    and "rx_data_i s = 0" and "tx_data_sent s = 0" and "r \<noteq> Stop_bit"
  shows "slave_good dn (request_rest r s)"
proof (cases r)
  case Read_req
  with assms show ?thesis
    by (auto simp: slave_good_def phase_ok_def starting_def place_defs post_def)
next
  case Write_req
  have "i2c_next dn ph Start_write = Some (Writing [])"
    using assms(2,3) by (cases ph) simp_all
  with Write_req assms show ?thesis
    by (auto simp: slave_good_def phase_ok_def idle_ok_def place_defs log_event_def i2c_legal_snoc)
qed (use assms(9) in simp)

lemma stop_next:
  assumes "\<forall>e. ph \<noteq> Owes e"
  shows "i2c_next dn ph Stop = Some (case owed dn ph of None \<Rightarrow> Quiet | Some e \<Rightarrow> Owes e)"
  using assms by (cases ph) simp_all

lemma matches_owed:
  assumes "matches ph s" and "\<forall>e. ph \<noteq> Owes e" and "length (data_buf s) = RTOS_I2C_SLAVE_BUF_LEN"
  shows "tx_data_sent s > 0 \<Longrightarrow> dn \<Longrightarrow> owed dn ph = Some (Tx_done_called (tx_data s) (tx_data_sent s))"
    and "tx_data_sent s > 0 \<Longrightarrow> \<not> dn \<Longrightarrow> owed dn ph = None"
    and "tx_data_sent s > 0 \<Longrightarrow> rx_data_i s = 0"
    and "tx_data_sent s = 0 \<Longrightarrow> rx_data_i s > 0 \<Longrightarrow>
      owed dn ph = Some (Rx_called (take (rx_data_i s) (data_buf s)))"
    and "tx_data_sent s = 0 \<Longrightarrow> rx_data_i s = 0 \<Longrightarrow> owed dn ph = None"
  using assms by (cases ph; auto split: if_splits)+

text \<open>A completion, waited for or not.\<close>

lemma completion_good:
  assumes "i2c_legal dn (trace s) = Some ph" and "owed dn ph = Some e" and "code_of e = c" and "matches ph s"
    and "length (data_buf s) = RTOS_I2C_SLAVE_BUF_LEN" and "at_rest s" and "\<not> waiting_for_complete_cb s"
    and "r = Stop_bit \<Longrightarrow> mode s = Bus_free"
  shows "slave_good dn (completion c r s)"
proof -
  let ?s = "completion c r s"
  have "matches ph ?s = matches ph s"
    by (induction ph s rule: matches.induct) (simp_all add: completion_def post_def Let_def)
  moreover have "outstanding c ?s" "to_hil ?s = 0"
    using assms(6) by (simp_all add: completion_def post_def place_defs Let_def)
  ultimately have "completing dn ph ?s"
    using assms(2-4) by (auto simp: completing_def)
  with assms show ?thesis
    by (auto simp: slave_good_def phase_ok_def completion_def post_def Let_def)
qed

lemma check_rest_good:
  assumes "i2c_legal dn (trace s) = Some ph" and "matches ph s" and "\<forall>e. ph \<noteq> Owes e"
    and "length (data_buf s) = RTOS_I2C_SLAVE_BUF_LEN" and "at_rest s" and "\<not> waiting_for_complete_cb s"
  shows "slave_good dn (check_rest dn r s)"
proof (cases "r = Stop_bit")
  case False
  note o = matches_owed [OF assms(2,3,4)]
  consider "tx_data_sent s > 0" "dn" | "tx_data_sent s > 0" "\<not> dn" | "tx_data_sent s = 0" "rx_data_i s > 0"
    | "tx_data_sent s = 0" "rx_data_i s = 0" by auto
  then show ?thesis
  proof cases
    case 1
    with completion_good [OF assms(1) o(1) _ assms(2,4,5,6), of "TX_DONE_CB_CODE" r] False
    show ?thesis by (simp add: check_rest_def Let_def)
  next
    case 2
    have "slave_good dn (request_rest r (tx_state_clear s))"
      by (rule request_rest_good [of _ _ ph])
        (use assms 2 o(2,3) False in \<open>simp_all add: tx_state_clear_def place_defs\<close>)
    with 2 False show ?thesis by (simp add: check_rest_def Let_def)
  next
    case 3
    with completion_good [OF assms(1) o(4) _ assms(2,4,5,6), of "RX_CB_CODE" r] False
    show ?thesis by (simp add: check_rest_def Let_def)
  next
    case 4
    have "slave_good dn (request_rest r s)"
      by (rule request_rest_good [of _ _ ph]) (use assms 4 o(5) False in simp_all)
    with 4 False show ?thesis by (simp add: check_rest_def Let_def)
  qed
next
  case True
  define s1 where "s1 = log_event Stop (s\<lparr>mode := Bus_free\<rparr>)"
  define q where "q = (case owed dn ph of None \<Rightarrow> Quiet | Some e \<Rightarrow> Owes e)"
  have q: "i2c_legal dn (trace s1) = Some q"
    using assms(1) stop_next [OF assms(3), of dn] by (simp add: s1_def q_def log_event_def i2c_legal_snoc)
  have s1: "tx_data_sent s1 = tx_data_sent s" "rx_data_i s1 = rx_data_i s" "data_buf s1 = data_buf s"
    "tx_data s1 = tx_data s" "mode s1 = Bus_free" "at_rest s1" "\<not> waiting_for_complete_cb s1"
    using assms(5,6) by (simp_all add: s1_def log_event_def place_defs)
  note o = matches_owed [OF assms(2,3,4)]
  have rest: "slave_good dn (request_rest Stop_bit s2)"
    if "trace s2 = trace s1" "data_buf s2 = data_buf s1" "at_rest s2" "\<not> waiting_for_complete_cb s2"
      "mode s2 = Bus_free" "q = Quiet" "rx_data_i s2 = 0" "tx_data_sent s2 = 0" for s2
    using that q s1 assms(4) by (auto simp: slave_good_def phase_ok_def idle_ok_def place_defs)
  consider "tx_data_sent s > 0" "dn" | "tx_data_sent s > 0" "\<not> dn" | "tx_data_sent s = 0" "rx_data_i s > 0"
    | "tx_data_sent s = 0" "rx_data_i s = 0" by auto
  then show ?thesis
  proof cases
    case 1
    from o(1) 1 have z: "q = Owes (Tx_done_called (tx_data s) (tx_data_sent s))" by (simp add: q_def)
    from o(3) 1(1) have "rx_data_i s = 0" by blast
    with z s1 assms(4) have "slave_good dn (completion TX_DONE_CB_CODE Stop_bit s1)"
      by - (rule completion_good [OF q, where e = "Tx_done_called (tx_data s) (tx_data_sent s)"], simp_all)
    with 1 True s1 show ?thesis by (simp add: check_rest_def Let_def flip: s1_def)
  next
    case 2
    with o(2) have z: "q = Quiet" by (simp add: q_def)
    from o(3) 2(1) have "rx_data_i s = 0" by blast
    with s1 have "slave_good dn (request_rest Stop_bit (tx_state_clear s1))"
      by - (rule rest, simp_all add: z tx_state_clear_def place_defs)
    with 2 True s1 show ?thesis by (simp add: check_rest_def Let_def flip: s1_def)
  next
    case 3
    from o(4) 3 have z: "q = Owes (Rx_called (take (rx_data_i s) (data_buf s)))" by (simp add: q_def)
    with 3 s1 assms(4) have "slave_good dn (completion RX_CB_CODE Stop_bit s1)"
      by - (rule completion_good [OF q, where e = "Rx_called (take (rx_data_i s) (data_buf s))"], simp_all)
    with 3 True s1 show ?thesis by (simp add: check_rest_def Let_def flip: s1_def)
  next
    case 4
    have "slave_good dn (request_rest Stop_bit s1)"
      by (rule rest) (use 4 s1 in \<open>simp_all add: q_def o(5)\<close>)
    with 4 True s1 show ?thesis by (simp add: check_rest_def Let_def flip: s1_def)
  qed
qed

text \<open>A token comes only after the application was told.\<close>

lemma completing_token:
  "completing dn ph s \<Longrightarrow> 0 < to_hil s \<Longrightarrow>
     ph = Quiet \<and> answered s \<and> rx_data_i s = 0 \<and> tx_data_sent s = 0"
  by (auto simp: completing_def outstanding_def called_def)

lemma starting_token:
  "starting dn ph s \<Longrightarrow> 0 < to_hil s \<Longrightarrow>
     ph = Reading (tx_data s) 0 \<and> answered s \<and> rx_data_i s = 0 \<and> tx_data_sent s = 0"
  by (auto simp: starting_def outstanding_def called_def)

lemma data_next:
  assumes "matches (Reading bs n) s"
  shows "fst (i2c_master_req_data s) = byte_at bs n"
    and "matches (Reading bs (if bs = [] then n else Suc n)) (snd (i2c_master_req_data s))"
proof -
  show "fst (i2c_master_req_data s) = byte_at bs n"
    using assms by (auto simp: i2c_master_req_data_def byte_at_def Let_def)
  show "matches (Reading bs (if bs = [] then n else Suc n)) (snd (i2c_master_req_data s))"
    using assms by (auto simp: i2c_master_req_data_def Let_def mod_Suc)
qed

lemma sent_next:
  assumes "matches (Writing ds) s" and "length (data_buf s) = RTOS_I2C_SLAVE_BUF_LEN"
  shows "matches (Writing (ds @ [d])) (snd (i2c_master_sent_data check d s))"
proof (cases "rx_data_i s < RTOS_I2C_SLAVE_BUF_LEN")
  case True
  with assms have l: "rx_data_i s = length ds" "length ds < RTOS_I2C_SLAVE_BUF_LEN"
    "take (length ds) (data_buf s) = ds"
    by auto
  then show ?thesis
    using assms by (simp add: i2c_master_sent_data_def Let_def take_Suc_conv_app_nth)
next
  case False
  with assms show ?thesis by (auto simp: i2c_master_sent_data_def)
qed

lemma matches_cong:
  assumes "data_buf s' = data_buf s" and "rx_data_i s' = rx_data_i s" and "tx_data s' = tx_data s"
    and "tx_data_i s' = tx_data_i s" and "tx_data_sent s' = tx_data_sent s"
  shows "matches ph s' = matches ph s"
  using assms by (induction ph s rule: matches.induct) simp_all

text \<open>Steps of the interrupt and the task that move a code along.\<close>

definition moves :: "i2c_slave \<Rightarrow> i2c_slave \<Rightarrow> bool" where
  "moves s s' \<longleftrightarrow>
     s' = s\<lparr>to_app := to_app s', events := events s', app := app s'\<rparr> \<and>
     (\<forall>c. outstanding c s \<longrightarrow> outstanding c s') \<and> (\<forall>c. called c s \<longrightarrow> called c s') \<and>
     (resting s \<longrightarrow> resting s')"

lemma moves_same:
  assumes "moves s s'"
  shows "data_buf s' = data_buf s" "rx_data_i s' = rx_data_i s" "tx_data s' = tx_data s"
    "tx_data_i s' = tx_data_i s" "tx_data_sent s' = tx_data_sent s" "trace s' = trace s" "hil s' = hil s"
    "mode s' = mode s" "waiting_for_complete_cb s' = waiting_for_complete_cb s" "to_hil s' = to_hil s"
proof -
  from assms have "s' = s\<lparr>to_app := to_app s', events := events s', app := app s'\<rparr>"
    by (simp add: moves_def)
  then show "data_buf s' = data_buf s" "rx_data_i s' = rx_data_i s" "tx_data s' = tx_data s"
    "tx_data_i s' = tx_data_i s" "tx_data_sent s' = tx_data_sent s" "trace s' = trace s" "hil s' = hil s"
    "mode s' = mode s" "waiting_for_complete_cb s' = waiting_for_complete_cb s" "to_hil s' = to_hil s"
    by (metis (no_types) i2c_slave.surjective i2c_slave.ext_inject i2c_slave.update_convs)+
qed

lemma moves_good:
  assumes "moves s s'" and "slave_good dn s"
  shows "slave_good dn s'"
proof -
  note e = moves_same [OF assms(1)]
  have m: "matches ph s' = matches ph s" for ph by (rule matches_cong) (simp_all add: e)
  have o: "outstanding c s \<Longrightarrow> outstanding c s'" "called c s \<Longrightarrow> called c s'" "answered s \<Longrightarrow> answered s'"
    "at_rest s \<Longrightarrow> at_rest s'" for c
    using assms(1) e(10) by (simp_all add: moves_def answered_def at_rest_def)
  have "completing dn ph s \<Longrightarrow> completing dn ph s'" "starting dn ph s \<Longrightarrow> starting dn ph s'"
    "idle_ok ph s \<Longrightarrow> idle_ok ph s'" for ph
    unfolding completing_def starting_def idle_ok_def m e using o by blast+
  then have "phase_ok dn ph s \<Longrightarrow> phase_ok dn ph s'" for ph
    unfolding phase_ok_def e by (auto split: hil_pc.splits)
  with assms(2) e show ?thesis unfolding slave_good_def by auto
qed

lemma isr_moves: "to_app s \<noteq> [] \<Longrightarrow> moves s (rtos_i2c_slave_isr s)"
  by (cases "to_app s") (auto simp: moves_def rtos_i2c_slave_isr_def place_defs)

lemma take_moves: "app s = App_wait \<Longrightarrow> events s \<noteq> {} \<Longrightarrow> moves s (app_take s)"
  by (auto simp: moves_def app_take_def place_defs)

lemma no_call_moves: "app s = App_flags {} \<Longrightarrow> moves s (app_call reply {} s)"
  by (auto simp: moves_def app_call_def place_defs)

text \<open>Flags that are served are those of one code that is on its way.\<close>

lemma flags_completing:
  assumes "completing dn ph s" and "app s = App_flags flags" and "flags \<noteq> {}"
  obtains e where "owed dn ph = Some e" "outstanding (code_of e) s" "flags = {code_of e}" "matches ph s"
  using assms by (auto simp: completing_def place_defs)

lemma flags_starting:
  assumes "starting dn ph s" and "app s = App_flags flags" and "flags \<noteq> {}"
  shows "owed dn ph = None \<and> flags = {TX_START_CB_CODE} \<and> outstanding TX_START_CB_CODE s"
  using assms by (auto simp: starting_def place_defs)

lemma owed_kinds:
  "owed dn ph = Some e \<Longrightarrow> matches ph s \<Longrightarrow> (\<exists>bs. e = Rx_called bs) \<or> (\<exists>bs n. e = Tx_done_called bs n)"
  by (cases ph; cases e) (auto split: if_splits)

lemma call_completing:
  assumes "completing dn ph s" and "app s = App_flags flags" and "flags \<noteq> {}"
    and "i2c_legal dn (trace s) = Some ph"
  shows "i2c_legal dn (trace (app_call reply flags s)) = Some Quiet"
    and "completing dn Quiet (app_call reply flags s)"
proof -
  obtain e where e: "owed dn ph = Some e" "outstanding (code_of e) s" "flags = {code_of e}" "matches ph s"
    by (rule flags_completing [OF assms(1-3)])
  from owed_kinds [OF e(1,4)] have "i2c_legal dn (trace (app_call reply flags s)) = Some Quiet \<and>
    completing dn Quiet (app_call reply flags s)"
  proof (elim disjE exE)
    fix bs
    assume x: "e = Rx_called bs"
    have "take (rx_data_i s) (data_buf s) = bs \<and> tx_data_sent s = 0"
      using e(1,4) x by (cases ph) (auto split: if_splits)
    moreover have "i2c_next dn ph (Rx_called bs) = Some Quiet"
      using e(1) x by (cases ph) (simp_all split: if_splits)
    ultimately show ?thesis
      using e(2,3) x assms(2,4)
      by (auto simp: app_call_def log_event_def i2c_legal_snoc completing_def place_defs)
  next
    fix bs n
    assume x: "e = Tx_done_called bs n"
    have "rx_data_i s = 0 \<and> tx_data s = bs \<and> tx_data_sent s = n"
      using e(1,4) x by (cases ph) (auto split: if_splits)
    moreover have "i2c_next dn ph (Tx_done_called bs n) = Some Quiet"
      using e(1) x by (cases ph) (simp_all split: if_splits)
    ultimately show ?thesis
      using e(2,3) x assms(2,4)
      by (auto simp: app_call_def log_event_def i2c_legal_snoc completing_def place_defs)
  qed
  then show "i2c_legal dn (trace (app_call reply flags s)) = Some Quiet"
    and "completing dn Quiet (app_call reply flags s)" by simp_all
qed

lemma call_starting:
  assumes "starting dn ph s" and "app s = App_flags flags" and "flags \<noteq> {}"
    and "i2c_legal dn (trace s) = Some ph"
  shows "i2c_legal dn (trace (app_call reply flags s)) = Some (Reading reply 0)"
    and "starting dn (Reading reply 0) (app_call reply flags s)"
proof -
  from flags_starting [OF assms(1-3)] have f: "owed dn ph = None" "flags = {TX_START_CB_CODE}"
    "outstanding TX_START_CB_CODE s" by simp_all
  have "i2c_next dn ph (Tx_start_called reply) = Some (Reading reply 0)"
    using f(1) by (cases ph) (simp_all split: if_splits)
  then show "i2c_legal dn (trace (app_call reply flags s)) = Some (Reading reply 0)"
    using f assms(4) by (simp add: app_call_def log_event_def i2c_legal_snoc)
  show "starting dn (Reading reply 0) (app_call reply flags s)"
    using f assms(1,2) by (auto simp: app_call_def log_event_def starting_def place_defs)
qed

lemma clear_completing:
  "completing dn ph s \<Longrightarrow> app s = App_clear c flags \<Longrightarrow> completing dn ph (app_clear c flags s)"
  by (auto simp: completing_def app_clear_def rx_state_clear_def tx_state_clear_def place_defs Let_def)

lemma clear_starting:
  "starting dn ph s \<Longrightarrow> app s = App_clear c flags \<Longrightarrow> starting dn ph (app_clear c flags s)"
  by (auto simp: starting_def app_clear_def place_defs Let_def)

lemma task_not_idle:
  "idle_ok ph s \<Longrightarrow> app s \<noteq> App_clear c flags" "idle_ok ph s \<Longrightarrow> app s = App_flags flags \<Longrightarrow> flags = {}"
  by (auto simp: idle_ok_def place_defs)

text \<open>Steps of the task that change what is completing or starting keep the rest.\<close>

lemma task_good:
  assumes "slave_good dn s" and "hil s' = hil s" and "waiting_for_complete_cb s' = waiting_for_complete_cb s"
    and "mode s' = mode s" and "data_buf s' = data_buf s" and "\<And>ph. \<not> idle_ok ph s"
    and "\<And>ph. i2c_legal dn (trace s) = Some ph \<Longrightarrow> completing dn ph s \<Longrightarrow>
           \<exists>ph'. i2c_legal dn (trace s') = Some ph' \<and> completing dn ph' s'"
    and "\<And>ph. i2c_legal dn (trace s) = Some ph \<Longrightarrow> starting dn ph s \<Longrightarrow>
           \<exists>ph'. i2c_legal dn (trace s') = Some ph' \<and> starting dn ph' s'"
  shows "slave_good dn s'"
proof -
  obtain ph where ph: "i2c_legal dn (trace s) = Some ph" "phase_ok dn ph s"
    "length (data_buf s) = RTOS_I2C_SLAVE_BUF_LEN"
    using assms(1) by (auto simp: slave_good_def)
  show ?thesis
  proof (cases "hil s = Await_start")
    case True
    with ph(2) assms(8) [OF ph(1)] obtain ph' where "i2c_legal dn (trace s') = Some ph'" "starting dn ph' s'"
      by (auto simp: phase_ok_def)
    with True ph assms(2-5) show ?thesis by (auto simp: slave_good_def phase_ok_def)
  next
    case False
    with ph(2) assms(6) have "completing dn ph s"
      by (auto simp: phase_ok_def split: hil_pc.splits if_splits)
    with assms(7) [OF ph(1)] obtain ph' where "i2c_legal dn (trace s') = Some ph'" "completing dn ph' s'"
      by blast
    with False ph assms(2-6) show ?thesis
      by (auto simp: slave_good_def phase_ok_def split: hil_pc.splits if_splits)
  qed
qed

lemma call_good:
  assumes "slave_good dn s" and "app s = App_flags flags"
  shows "slave_good dn (app_call reply flags s)"
proof (cases "flags = {}")
  case True
  with assms show ?thesis by (auto intro: moves_good no_call_moves)
next
  case False
  show ?thesis
  proof (rule task_good [OF assms(1)])
    show "\<And>ph. i2c_legal dn (trace s) = Some ph \<Longrightarrow> completing dn ph s \<Longrightarrow>
        \<exists>ph'. i2c_legal dn (trace (app_call reply flags s)) = Some ph' \<and> completing dn ph' (app_call reply flags s)"
      using call_completing [OF _ assms(2) False] by blast
    show "\<And>ph. i2c_legal dn (trace s) = Some ph \<Longrightarrow> starting dn ph s \<Longrightarrow>
        \<exists>ph'. i2c_legal dn (trace (app_call reply flags s)) = Some ph' \<and> starting dn ph' (app_call reply flags s)"
      using call_starting [OF _ assms(2) False] by blast
    show "\<not> idle_ok ph s" for ph using task_not_idle(2) [of ph s flags] assms(2) False by blast
  qed (simp_all add: app_call_def log_event_def)
qed

lemma clear_good:
  assumes "slave_good dn s" and "app s = App_clear c flags"
  shows "slave_good dn (app_clear c flags s)"
proof (rule task_good [OF assms(1)])
  have "trace (app_clear c flags s) = trace s"
    by (simp add: app_clear_def rx_state_clear_def tx_state_clear_def Let_def)
  then show "\<And>ph. i2c_legal dn (trace s) = Some ph \<Longrightarrow> completing dn ph s \<Longrightarrow>
      \<exists>ph'. i2c_legal dn (trace (app_clear c flags s)) = Some ph' \<and> completing dn ph' (app_clear c flags s)"
    "\<And>ph. i2c_legal dn (trace s) = Some ph \<Longrightarrow> starting dn ph s \<Longrightarrow>
      \<exists>ph'. i2c_legal dn (trace (app_clear c flags s)) = Some ph' \<and> starting dn ph' (app_clear c flags s)"
    using clear_completing [OF _ assms(2)] clear_starting [OF _ assms(2)] by auto
  show "\<not> idle_ok ph s" for ph using task_not_idle(1) [of ph s c flags] assms(2) by blast
qed (simp_all add: app_clear_def rx_state_clear_def tx_state_clear_def Let_def)

lemma sent_keeps:
  "length (data_buf (snd (i2c_master_sent_data check d s))) = length (data_buf s)"
  "at_rest (snd (i2c_master_sent_data check d s)) = at_rest s"
  "trace (snd (i2c_master_sent_data check d s)) = trace s"
  "hil (snd (i2c_master_sent_data check d s)) = hil s" "mode (snd (i2c_master_sent_data check d s)) = mode s"
  "waiting_for_complete_cb (snd (i2c_master_sent_data check d s)) = waiting_for_complete_cb s"
  by (simp_all add: i2c_master_sent_data_def place_defs Let_def)

lemma data_keeps:
  "data_buf (snd (i2c_master_req_data s)) = data_buf s"
  "at_rest (snd (i2c_master_req_data s)) = at_rest s"
  "trace (snd (i2c_master_req_data s)) = trace s"
  "hil (snd (i2c_master_req_data s)) = hil s" "mode (snd (i2c_master_req_data s)) = mode s"
  "waiting_for_complete_cb (snd (i2c_master_req_data s)) = waiting_for_complete_cb s"
  by (simp_all add: i2c_master_req_data_def place_defs Let_def)

lemma log_keeps:
  "matches ph (log_event e s) = matches ph s" "at_rest (log_event e s) = at_rest s"
  "hil (log_event e s) = hil s" "mode (log_event e s) = mode s" "trace (log_event e s) = trace s @ [e]"
  "data_buf (log_event e s) = data_buf s"
  "waiting_for_complete_cb (log_event e s) = waiting_for_complete_cb s"
  by (rule matches_cong, simp_all add: log_event_def place_defs)

lemma idle_phase:
  assumes "slave_good dn s" and "hil s = Hil_idle" and "mode s \<noteq> Bus_free"
  obtains ph where "i2c_legal dn (trace s) = Some ph" "idle_ok ph s" "\<not> waiting_for_complete_cb s"
    "length (data_buf s) = RTOS_I2C_SLAVE_BUF_LEN"
  using assms by (auto simp: slave_good_def phase_ok_def split: if_splits)

lemma bus_data_good:
  assumes "slave_good dn s" and "hil s = Hil_idle" and "mode s = Bus_read"
  shows "slave_good dn (log_event (Data (fst (i2c_master_req_data s))) (snd (i2c_master_req_data s)))"
proof -
  obtain ph where p: "i2c_legal dn (trace s) = Some ph" "idle_ok ph s" "\<not> waiting_for_complete_cb s"
    "length (data_buf s) = RTOS_I2C_SLAVE_BUF_LEN"
    by (rule idle_phase [OF assms(1,2)]) (simp add: assms(3))
  from p(2) assms(3) obtain bs n where ph: "ph = Reading bs n" "matches (Reading bs n) s" "at_rest s"
    by (auto simp: idle_ok_def)
  note d = data_next [OF ph(2)]
  let ?ph = "Reading bs (if bs = [] then n else Suc n)"
  have "i2c_next dn ph (Data (fst (i2c_master_req_data s))) = Some ?ph"
    using ph(1) d(1) by simp
  with p d(2) ph(3) assms(2,3) show ?thesis
    by (auto simp: slave_good_def phase_ok_def idle_ok_def log_keeps data_keeps i2c_legal_snoc
        simp del: matches.simps)
qed

lemma bus_sent_good:
  assumes "slave_good dn s" and "hil s = Hil_idle" and "mode s = Bus_write"
  shows "slave_good dn (log_event (Sent d) (snd (i2c_master_sent_data check d s)))"
proof -
  obtain ph where p: "i2c_legal dn (trace s) = Some ph" "idle_ok ph s" "\<not> waiting_for_complete_cb s"
    "length (data_buf s) = RTOS_I2C_SLAVE_BUF_LEN"
    by (rule idle_phase [OF assms(1,2)]) (simp add: assms(3))
  from p(2) assms(3) obtain ds where ph: "ph = Writing ds" "matches (Writing ds) s" "at_rest s"
    by (auto simp: idle_ok_def)
  with p sent_next [OF ph(2) p(4), of d check] assms(2,3) show ?thesis
    by (auto simp: slave_good_def phase_ok_def idle_ok_def log_keeps sent_keeps i2c_legal_snoc
        simp del: matches.simps)
qed

lemma slave_step_good:
  assumes "i2c_slave_step dn s s'" and "slave_good dn s"
  shows "slave_good dn s'"
  using assms
proof (induction rule: i2c_slave_step.induct)
  case (bus_request s r)
  obtain ph where ph: "i2c_legal dn (trace s) = Some ph" "phase_ok dn ph s"
    "length (data_buf s) = RTOS_I2C_SLAVE_BUF_LEN"
    using bus_request(2) by (auto simp: slave_good_def)
  show ?case
  proof (cases "waiting_for_complete_cb s")
    case True
    have "matches ph (s\<lparr>hil := Await_pending r\<rparr>) = matches ph s" by (rule matches_cong) simp_all
    then have "completing dn ph (s\<lparr>hil := Await_pending r\<rparr>) = completing dn ph s"
      by (simp add: completing_def place_defs)
    with True bus_request(1) ph show ?thesis
      by (simp add: slave_good_def phase_ok_def xfer_complete_check_def)
  next
    case False
    with bus_request(1) ph show ?thesis
      by (auto simp: xfer_complete_check_def phase_ok_def idle_ok_def intro: check_rest_good)
  qed
next
  case (pending_ended s r)
  obtain ph where ph: "i2c_legal dn (trace s) = Some ph" "phase_ok dn ph s"
    "length (data_buf s) = RTOS_I2C_SLAVE_BUF_LEN"
    using pending_ended(3) by (auto simp: slave_good_def)
  with pending_ended(1) have "completing dn ph s" by (simp add: phase_ok_def)
  from completing_token [OF this pending_ended(2)] ph show ?case
    by (intro check_rest_good [where ph = Quiet]) (simp_all add: place_defs)
next
  case (complete_ended s r)
  obtain ph where ph: "i2c_legal dn (trace s) = Some ph" "phase_ok dn ph s"
    "length (data_buf s) = RTOS_I2C_SLAVE_BUF_LEN"
    using complete_ended(3) by (auto simp: slave_good_def)
  with complete_ended(1) have c: "completing dn ph s" "r \<noteq> Stop_bit" "\<not> waiting_for_complete_cb s"
    by (simp_all add: phase_ok_def)
  from completing_token [OF c(1) complete_ended(2)] c ph show ?case
    by (intro request_rest_good [where ph = Quiet]) (simp_all add: place_defs)
next
  case (start_ended s)
  obtain ph where ph: "i2c_legal dn (trace s) = Some ph" "phase_ok dn ph s"
    "length (data_buf s) = RTOS_I2C_SLAVE_BUF_LEN"
    using start_ended(3) by (auto simp: slave_good_def)
  with start_ended(1) have c: "starting dn ph s" "\<not> waiting_for_complete_cb s"
    by (simp_all add: phase_ok_def)
  from starting_token [OF c(1) start_ended(2)] c ph show ?case
    by (auto simp: slave_good_def phase_ok_def idle_ok_def start_rest_def place_defs)
next
  case (bus_data s)
  then show ?case by (simp add: bus_data_good)
next
  case (bus_sent s d check)
  then show ?case by (simp add: bus_sent_good)
next
  case (interrupt s)
  then show ?case by (blast intro: moves_good isr_moves)
next
  case (task_take s)
  then show ?case by (blast intro: moves_good take_moves)
next
  case (task_call s flags reply)
  then show ?case by (simp add: call_good)
next
  case (task_clear s c flags)
  then show ?case by (simp add: clear_good)
qed

lemma rx_count_bounded:
  assumes "(i2c_slave_step dn)\<^sup>*\<^sup>* rtos_i2c_slave_start s"
  shows "rx_data_i s \<le> RTOS_I2C_SLAVE_BUF_LEN"
  using assms
proof (induction rule: rtranclp_induct)
  case base
  then show ?case by (simp add: rtos_i2c_slave_start_def)
next
  case (step s s')
  have rest: "rx_data_i (request_rest r s) \<le> rx_data_i s" for r s
    by (cases r) (simp_all add: post_def log_event_def)
  have check: "rx_data_i (check_rest dn r s) \<le> rx_data_i s" for r s
    using rest [of r "tx_state_clear s"] rest [of r s] rest [of r "log_event Stop (s\<lparr>mode := Bus_free\<rparr>)"]
      rest [of r "tx_state_clear (log_event Stop (s\<lparr>mode := Bus_free\<rparr>))"]
    by (auto simp: check_rest_def completion_def post_def log_event_def tx_state_clear_def Let_def)
  from step(2,3) show ?case
  proof (induction rule: i2c_slave_step.induct)
    case (bus_request s r)
    then show ?case using check [of r s] by (simp add: xfer_complete_check_def)
  next
    case (pending_ended s r)
    then show ?case using check [of r "s\<lparr>to_hil := to_hil s - 1, waiting_for_complete_cb := False\<rparr>"] by simp
  next
    case (complete_ended s r)
    then show ?case using rest [of r "s\<lparr>to_hil := to_hil s - 1\<rparr>"] by simp
  qed (auto simp: start_rest_def log_event_def i2c_master_req_data_def i2c_master_sent_data_def
      rtos_i2c_slave_isr_def app_take_def app_call_def app_clear_def rx_state_clear_def tx_state_clear_def
      Let_def split: list.splits)
qed

text \<open>
  C26. However the bus thread, the interrupt and the driver task interleave, the application
  of an I2C slave is called once for each write with the bytes the master sent, up to 256,
  for each read before its first byte, and after each read with the number of bytes sent,
  always before the next transfer begins; the master gets the bytes the application gave,
  cyclically; the receive buffer is never overrun.
\<close>

theorem i2c_slave_refines_transfers:
  assumes "(i2c_slave_step has_tx_done)\<^sup>*\<^sup>* rtos_i2c_slave_start s"
  shows "i2c_legal has_tx_done (trace s) \<noteq> None \<and> rx_data_i s \<le> RTOS_I2C_SLAVE_BUF_LEN"
proof -
  from assms have "slave_good has_tx_done s"
    by (induction rule: rtranclp_induct) (auto intro: slave_step_good slave_good_start)
  then show ?thesis using rx_count_bounded [OF assms] by (auto simp: slave_good_def)
qed

theorem i2c_slave_refines_transfers_witness:
  "trace (log_event (Sent 7) (snd (i2c_master_sent_data (\<lambda>a. a) 7
       (xfer_complete_check True Write_req rtos_i2c_slave_start)))) = [Start_write, Sent 7]
   \<and> i2c_legal True (trace (log_event (Sent 7) (snd (i2c_master_sent_data (\<lambda>a. a) 7
       (xfer_complete_check True Write_req rtos_i2c_slave_start))))) \<noteq> None"
proof -
  let ?a = "xfer_complete_check True Write_req rtos_i2c_slave_start"
  let ?b = "log_event (Sent 7) (snd (i2c_master_sent_data (\<lambda>a. a) 7 ?a))"
  note defs = xfer_complete_check_def check_rest_def rtos_i2c_slave_start_def log_event_def
  have "i2c_slave_step True rtos_i2c_slave_start ?a"
    by (rule bus_request) (simp add: rtos_i2c_slave_start_def)
  moreover have "i2c_slave_step True ?a ?b"
    by (rule bus_sent) (simp_all add: defs)
  ultimately have "(i2c_slave_step True)\<^sup>*\<^sup>* rtos_i2c_slave_start ?b"
    by (blast intro: rtranclp.rtrancl_into_rtrancl)
  moreover have "trace ?b = [Start_write, Sent 7]"
    by (simp add: defs i2c_master_sent_data_def)
  ultimately show ?thesis using i2c_slave_refines_transfers by blast
qed

text \<open>
  The callback for single bytes can turn the refusal of a byte that does not fit into an
  acknowledgement: the master goes on and the bytes are dropped.
\<close>

lemma i2c_byte_acknowledged_and_dropped:
  "rx_data_i s = RTOS_I2C_SLAVE_BUF_LEN \<Longrightarrow> i2c_master_sent_data (\<lambda>_. True) d s = (True, s)"
  by (simp add: i2c_master_sent_data_def Let_def)

end
