(* ===== verification/Rtos_Support.thy ===== *)
theory Rtos_Support
  imports Prelude
begin

text \<open>
  Support for the RTOS (modules/rtos_support/src): the time of day (rtos_time.c), the numbering of
  the cores (rtos_cores.c) and the recursive locks (rtos_locks.c, rtos_locks.h).
\<close>

section \<open>The time of day\<close>

record rtos_time =
  seconds :: "64 word"
  microseconds :: u32

text \<open>The current time counts microseconds with 12 fractional bits.\<close>

definition US_FRACTIONAL_BITS :: nat where "US_FRACTIONAL_BITS = 12"
definition ONE_SECOND_US :: u32 where "ONE_SECOND_US = push_bit US_FRACTIONAL_BITS 1000000"

definition rtos_time_increment :: "u32 \<Rightarrow> rtos_time \<Rightarrow> rtos_time" where
  "rtos_time_increment tick_period t =
     (let t1 = t\<lparr>microseconds := microseconds t + tick_period\<rparr>
      in if microseconds t1 \<ge> ONE_SECOND_US
         then t1\<lparr>microseconds := microseconds t1 - ONE_SECOND_US, seconds := seconds t1 + 1\<rparr>
         else t1)"

definition rtos_time_set :: "rtos_time \<Rightarrow> rtos_time" where
  "rtos_time_set new_time = new_time\<lparr>microseconds := push_bit US_FRACTIONAL_BITS (microseconds new_time)\<rparr>"

definition rtos_time_get :: "rtos_time \<Rightarrow> rtos_time" where
  "rtos_time_get t = t\<lparr>microseconds := drop_bit US_FRACTIONAL_BITS (microseconds t)\<rparr>"

definition RTOS_TICK_PERIOD :: "nat \<Rightarrow> u32" where
  "RTOS_TICK_PERIOD hz = of_nat (1000000 * 2 ^ 12 div hz)"

text \<open>The time as a number of fractions of a microsecond, and that it is one of a day's clock.\<close>

definition elapsed :: "rtos_time \<Rightarrow> nat" where
  "elapsed t = unat (seconds t) * 4096000000 + unat (microseconds t)"

definition time_ok :: "rtos_time \<Rightarrow> bool" where
  "time_ok t \<longleftrightarrow> microseconds t < ONE_SECOND_US"

lemma ONE_SECOND_US_unat [simp]: "unat ONE_SECOND_US = 4096000000"
  by (simp add: ONE_SECOND_US_def US_FRACTIONAL_BITS_def)

lemma tick_sum:
  assumes "time_ok t" and "tick_period \<le> 198967296"
  shows "unat (microseconds t + tick_period) = unat (microseconds t) + unat tick_period"
    and "unat (microseconds t) < 4096000000" and "unat tick_period \<le> 198967296"
proof -
  show a: "unat (microseconds t) < 4096000000"
    using assms(1) by (simp add: time_ok_def word_less_nat_alt)
  show b: "unat tick_period \<le> 198967296"
    using assms(2) by (simp add: word_le_nat_alt)
  from a b show "unat (microseconds t + tick_period) = unat (microseconds t) + unat tick_period"
    by (simp add: unat_word_ariths)
qed

text \<open>
  A tick of up to 198967296 / 4096 microseconds advances the time by exactly that much, and the
  microseconds stay below a million.
\<close>

lemma rtos_time_increment_exact:
  assumes "time_ok t" and "tick_period \<le> 198967296" and "unat (seconds t) < 2 ^ 64 - 1"
  shows "elapsed (rtos_time_increment tick_period t) = elapsed t + unat tick_period
    \<and> time_ok (rtos_time_increment tick_period t)"
proof (cases "microseconds t + tick_period \<ge> ONE_SECOND_US")
  case True
  then have "4096000000 \<le> unat (microseconds t) + unat tick_period"
    using tick_sum(1) [OF assms(1,2)] by (simp add: word_le_nat_alt)
  moreover have "unat (microseconds t + tick_period - ONE_SECOND_US)
      = unat (microseconds t) + unat tick_period - 4096000000"
    using True tick_sum(1) [OF assms(1,2)] by (simp add: unat_sub word_le_nat_alt)
  moreover have "unat (seconds t + 1) = Suc (unat (seconds t))"
    using assms(3) by (simp add: unat_word_ariths)
  ultimately show ?thesis
    using True tick_sum [OF assms(1,2)]
    by (simp add: rtos_time_increment_def elapsed_def time_ok_def word_less_nat_alt Let_def)
next
  case False
  then have "rtos_time_increment tick_period t = t\<lparr>microseconds := microseconds t + tick_period\<rparr>"
    by (simp add: rtos_time_increment_def Let_def)
  with False tick_sum [OF assms(1,2)] show ?thesis
    by (simp add: elapsed_def time_ok_def not_le)
qed

text \<open>
  After any number of ticks of up to 48.5 ms the clock shows exactly the time at its start
  and all the ticks.
\<close>

theorem rtos_time_exact:
  assumes "time_ok t" and "\<forall>k \<in> set ticks. k \<le> 198967296"
    and "elapsed t + sum_list (map unat ticks) < 4096000000 * (2 ^ 64 - 1)"
  shows "elapsed (fold rtos_time_increment ticks t) = elapsed t + sum_list (map unat ticks)
    \<and> time_ok (fold rtos_time_increment ticks t)"
  using assms
proof (induction ticks arbitrary: t)
  case (Cons k ks)
  have "unat (seconds t) * 4096000000 < 4096000000 * (2 ^ 64 - 1)"
    using Cons.prems(3) by (simp add: elapsed_def)
  then have "unat (seconds t) < 2 ^ 64 - 1" by simp
  with Cons.prems rtos_time_increment_exact [of t k]
  have "elapsed (rtos_time_increment k t) = elapsed t + unat k" "time_ok (rtos_time_increment k t)"
    by simp_all
  with Cons.prems Cons.IH [of "rtos_time_increment k t"] show ?case by simp
qed simp

theorem rtos_time_exact_witness:
  "elapsed (fold rtos_time_increment (replicate 3 125000) \<lparr>seconds = 0, microseconds = 4095900000\<rparr>)
    = 4096275000"
proof -
  have "time_ok \<lparr>seconds = 0, microseconds = 4095900000\<rparr>"
    by (simp add: time_ok_def word_less_nat_alt)
  from rtos_time_exact [OF this, of "replicate 3 125000"] show ?thesis
    by (simp add: elapsed_def word_le_nat_alt numeral_3_eq_3)
qed

text \<open>A tick longer than that, of 20 Hz or less, makes the sum wrap: time is lost.\<close>

lemma rtos_time_increment_wraps:
  "elapsed (rtos_time_increment (RTOS_TICK_PERIOD 20) \<lparr>seconds = 0, microseconds = 4095999999\<rparr>)
     < elapsed \<lparr>seconds = 0, microseconds = 4095999999\<rparr>"
  by (simp add: rtos_time_increment_def elapsed_def RTOS_TICK_PERIOD_def ONE_SECOND_US_def
      US_FRACTIONAL_BITS_def Let_def)

lemma rtos_time_set_get:
  assumes "microseconds t < 1000000"
  shows "rtos_time_get (rtos_time_set t) = t" and "time_ok (rtos_time_set t)"
proof -
  have u: "unat (microseconds t) < 1000000" using assms by (simp add: word_less_nat_alt)
  have p: "unat (push_bit 12 (microseconds t)) = unat (microseconds t) * 4096"
    using u by (simp add: push_bit_eq_mult unat_word_ariths)
  have "unat (drop_bit 12 (push_bit 12 (microseconds t))) = unat (microseconds t)"
    unfolding unat_drop_bit_eq p by (simp add: drop_bit_eq_div)
  then have "drop_bit 12 (push_bit 12 (microseconds t)) = microseconds t"
    by (simp add: word_unat_eq_iff)
  then show "rtos_time_get (rtos_time_set t) = t"
    by (simp add: rtos_time_get_def rtos_time_set_def US_FRACTIONAL_BITS_def)
  show "time_ok (rtos_time_set t)"
    using u p by (simp add: time_ok_def rtos_time_set_def US_FRACTIONAL_BITS_def word_less_nat_alt)
qed

section \<open>Cores\<close>

definition RTOS_MAX_CORE_COUNT :: nat where "RTOS_MAX_CORE_COUNT = 8"

text \<open>The RTOS number of each logical core, the logical core of each RTOS number, and how many there are.\<close>

record rtos_cores =
  rtos_core_map :: "nat list"
  rtos_core_map_reverse :: "nat list"
  rtos_core_init_count :: nat

definition rtos_cores_start :: rtos_cores where
  "rtos_cores_start = \<lparr>rtos_core_map = replicate RTOS_MAX_CORE_COUNT 0,
     rtos_core_map_reverse = replicate RTOS_MAX_CORE_COUNT 0, rtos_core_init_count = 0\<rparr>"

definition rtos_core_register :: "nat \<Rightarrow> rtos_cores \<Rightarrow> (nat \<times> rtos_cores) res" where
  "rtos_core_register logical s =
     (let n = rtos_core_init_count s in
      if logical < length (rtos_core_map s) \<and> n < length (rtos_core_map_reverse s) then
        Inr (n, s\<lparr>rtos_core_map := (rtos_core_map s)[logical := n],
                  rtos_core_map_reverse := (rtos_core_map_reverse s)[n := logical],
                  rtos_core_init_count := Suc n\<rparr>)
      else Inl Bad_access)"

definition rtos_core_id_get :: "nat \<Rightarrow> rtos_cores \<Rightarrow> nat" where
  "rtos_core_id_get logical s = rtos_core_map s ! logical"

definition rtos_logical_core_id_get :: "nat \<Rightarrow> rtos_cores \<Rightarrow> nat res" where
  "rtos_logical_core_id_get core_id s =
     xassert (core_id < rtos_core_init_count s) (Inr (rtos_core_map_reverse s ! core_id))"

definition rtos_core_count :: "rtos_cores \<Rightarrow> nat" where
  "rtos_core_count s = rtos_core_init_count s"

fun register_all :: "nat list \<Rightarrow> rtos_cores \<Rightarrow> rtos_cores res" where
  "register_all [] s = Inr s"
| "register_all (l # ls) s = rbind (rtos_core_register l s) (\<lambda>(n, s'). register_all ls s')"

definition cores_inv :: "nat list \<Rightarrow> rtos_cores \<Rightarrow> bool" where
  "cores_inv ls s \<longleftrightarrow> rtos_core_init_count s = length ls \<and>
     length (rtos_core_map s) = RTOS_MAX_CORE_COUNT \<and> length (rtos_core_map_reverse s) = RTOS_MAX_CORE_COUNT \<and>
     (\<forall>n < length ls. rtos_core_map_reverse s ! n = ls ! n \<and> rtos_core_map s ! (ls ! n) = n)"

lemma register_inv:
  assumes "cores_inv ls s" and "distinct (ls @ [l])" and "set (ls @ [l]) \<subseteq> {..<RTOS_MAX_CORE_COUNT}"
  shows "\<exists>s'. rtos_core_register l s = Inr (length ls, s') \<and> cores_inv (ls @ [l]) s'"
proof -
  have "length (ls @ [l]) \<le> RTOS_MAX_CORE_COUNT"
    using assms(2,3) card_mono [OF _ assms(3)] distinct_card [OF assms(2)] by simp
  then have n: "length ls < RTOS_MAX_CORE_COUNT" by simp
  moreover have "ls ! k \<noteq> l" "ls ! k < RTOS_MAX_CORE_COUNT" if "k < length ls" for k
    using assms(2,3) that nth_mem [OF that] by (auto simp: subset_iff)
  ultimately show ?thesis
    using assms(1,3) by (auto simp: rtos_core_register_def cores_inv_def Let_def nth_append nth_list_update
        less_Suc_eq)
qed

text \<open>
  The cores that register, each once, are numbered in the order they come; both directions of the
  numbering agree, and a number that was not given fails the assertion.
\<close>

lemma rtos_core_numbers:
  assumes "distinct ls" and "set ls \<subseteq> {..<RTOS_MAX_CORE_COUNT}"
  shows "\<exists>s. register_all ls rtos_cores_start = Inr s \<and> rtos_core_count s = length ls \<and>
    (\<forall>n. rtos_logical_core_id_get n s = (if n < length ls then Inr (ls ! n) else Inl Assert_failed)) \<and>
    (\<forall>n < length ls. rtos_core_id_get (ls ! n) s = n)"
proof -
  have "\<exists>s'. register_all ls s = Inr s' \<and> cores_inv (ks @ ls) s'"
    if "cores_inv ks s" "distinct (ks @ ls)" "set (ks @ ls) \<subseteq> {..<RTOS_MAX_CORE_COUNT}" for ks s
    using that
  proof (induction ls arbitrary: ks s)
    case (Cons l ls)
    have "distinct (ks @ [l])" "set (ks @ [l]) \<subseteq> {..<RTOS_MAX_CORE_COUNT}"
      using Cons.prems(2,3) by simp_all
    from register_inv [OF Cons.prems(1) this] obtain s1 where
      s1: "rtos_core_register l s = Inr (length ks, s1)" "cores_inv (ks @ [l]) s1" by blast
    have "distinct ((ks @ [l]) @ ls)" "set ((ks @ [l]) @ ls) \<subseteq> {..<RTOS_MAX_CORE_COUNT}"
      using Cons.prems(2,3) by simp_all
    from Cons.IH [OF s1(2) this] s1(1) show ?case by simp
  qed simp
  moreover have "cores_inv [] rtos_cores_start"
    by (simp add: cores_inv_def rtos_cores_start_def)
  ultimately obtain s where "register_all ls rtos_cores_start = Inr s" "cores_inv ls s"
    using assms by fastforce
  then show ?thesis
    by (auto simp: cores_inv_def rtos_core_count_def rtos_logical_core_id_get_def rtos_core_id_get_def xassert_def)
qed

section \<open>Locks\<close>

text \<open>
  A lock with the hardware lock it stands for, which a core that has it can take again; None for a
  lock before \<open>rtos_locks_initialize\<close>. \<open>owner\<close> and \<open>inside\<close> describe what the hardware and the cores do:
  how many acquisitions each core has to give back.
\<close>

record rtos_lock =
  allocated :: bool
  owner :: "nat option"
  counter :: int
  inside :: "nat \<Rightarrow> nat"

definition rtos_locks_initialize :: rtos_lock where
  "rtos_locks_initialize = \<lparr>allocated = True, owner = None, counter = 0, inside = (\<lambda>_. 0)\<rparr>"

definition rtos_lock_acquire :: "nat \<Rightarrow> rtos_lock \<Rightarrow> rtos_lock" where
  "rtos_lock_acquire core l =
     (if allocated l
      then l\<lparr>owner := Some core, counter := counter l + 1, inside := (inside l)(core := Suc (inside l core))\<rparr>
      else l)"

definition rtos_lock_release :: "nat \<Rightarrow> rtos_lock \<Rightarrow> rtos_lock" where
  "rtos_lock_release core l =
     (if allocated l then
        let l1 = l\<lparr>counter := counter l - 1, inside := (inside l)(core := inside l core - 1)\<rparr>
        in if counter l1 = 0 then l1\<lparr>owner := None\<rparr> else l1
      else l)"

text \<open>A core waits for a lock that another has, and gives back only what it has taken.\<close>

inductive lock_step :: "rtos_lock \<Rightarrow> rtos_lock \<Rightarrow> bool" where
  acquire: "owner l = None \<or> owner l = Some core \<Longrightarrow> lock_step l (rtos_lock_acquire core l)"
| release: "0 < inside l core \<Longrightarrow> lock_step l (rtos_lock_release core l)"

lemma rtos_lock_exclusive:
  assumes "lock_step\<^sup>*\<^sup>* rtos_locks_initialize l"
  shows "counter l = int (\<Sum>c \<leftarrow> (case owner l of None \<Rightarrow> [] | Some c \<Rightarrow> [c]). inside l c)
    \<and> (\<forall>c. 0 < inside l c \<longleftrightarrow> owner l = Some c) \<and> allocated l"
  using assms
proof (induction rule: rtranclp_induct)
  case base
  then show ?case by (simp add: rtos_locks_initialize_def)
next
  case (step l l')
  from step(2,3) show ?case
  proof (induction rule: lock_step.induct)
    case (acquire l core)
    then show ?case by (auto simp: rtos_lock_acquire_def split: option.splits)
  next
    case (release l core)
    then have "owner l = Some core" by blast
    with release show ?case
      by (auto simp: rtos_lock_release_def Let_def split: if_splits)
  qed
qed

end
