(* ===== verification/Rtos_Irq.thy ===== *)
theory Rtos_Irq
  imports Rtos_Support
begin

text \<open>
  Interrupts between cores and from peripherals (modules/rtos_support/src/rtos_irq.c): a pending
  word per core, set under a lock, with at most one token in the channel of a core however many
  sources are pending for it.
\<close>

definition MAX_ADDITIONAL_SOURCES :: nat where "MAX_ADDITIONAL_SOURCES = 8"
definition MAX_SOURCE_ID :: nat where "MAX_SOURCE_ID = RTOS_MAX_CORE_COUNT + MAX_ADDITIONAL_SOURCES - 1"
definition RTOS_CORE_SOURCE_MASK :: u32 where "RTOS_CORE_SOURCE_MASK = push_bit RTOS_MAX_CORE_COUNT 1 - 1"

text \<open>
  Where a core's interrupt handler is: not running, past the token, and serving what is left of its
  snapshot. \<open>served\<close> are the sources each core has served, the latest first: a source below 8 is a
  yield of another core, the others call the peripheral's handler. \<open>irq_fault\<close> is a failed
  assertion. The code keeps neither.
\<close>

datatype irq_pc = Irq_out | Irq_taken | Irq_serving u32

record irq_state =
  num_cores :: nat
  irq_pending :: "nat \<Rightarrow> u32"
  tokens :: "nat \<Rightarrow> nat"
  irq_pc :: "nat \<Rightarrow> irq_pc"
  peripheral_source_count :: nat
  served :: "nat \<Rightarrow> nat list"
  irq_fault :: bool

section \<open>The operations\<close>

definition source_bit :: "nat \<Rightarrow> u32" where
  "source_bit source_id = push_bit source_id 1"

definition rtos_irq :: "nat \<Rightarrow> nat \<Rightarrow> irq_state \<Rightarrow> irq_state" where
  "rtos_irq core_id source_id s =
     (if \<not> (core_id < num_cores s \<and> source_id < RTOS_MAX_CORE_COUNT + peripheral_source_count s)
      then s\<lparr>irq_fault := True\<rparr>
      else
        let pending = irq_pending s core_id;
            s1 = s\<lparr>irq_pending := (irq_pending s)(core_id := pending OR source_bit source_id)\<rparr>
        in if pending = 0 then
             if source_id < num_cores s1
                \<or> (RTOS_MAX_CORE_COUNT \<le> source_id
                   \<and> source_id < RTOS_MAX_CORE_COUNT + peripheral_source_count s1)
             then s1\<lparr>tokens := (tokens s1)(core_id := Suc (tokens s1 core_id))\<rparr>
             else s1\<lparr>irq_fault := True\<rparr>
           else s1)"

text \<open>The handler: the token, the snapshot with the yield, and one turn of the loop for each source.\<close>

definition handler_begin :: "nat \<Rightarrow> irq_state \<Rightarrow> irq_state" where
  "handler_begin core_id s =
     (if irq_pending s core_id = 0 then s\<lparr>irq_fault := True\<rparr>
      else s\<lparr>tokens := (tokens s)(core_id := tokens s core_id - 1), irq_pc := (irq_pc s)(core_id := Irq_taken)\<rparr>)"

definition core_sources :: "u32 \<Rightarrow> nat list" where
  "core_sources w = filter (bit w) [0..<RTOS_MAX_CORE_COUNT]"

definition handler_snapshot :: "nat \<Rightarrow> irq_state \<Rightarrow> irq_state" where
  "handler_snapshot core_id s =
     (let pending = irq_pending s core_id;
          s1 = s\<lparr>irq_pending := (irq_pending s)(core_id := 0)\<rparr>
      in if pending AND RTOS_CORE_SOURCE_MASK \<noteq> 0
         then s1\<lparr>served := (served s1)(core_id := core_sources pending @ served s1 core_id),
                 irq_pc := (irq_pc s1)(core_id := Irq_serving (pending AND NOT RTOS_CORE_SOURCE_MASK))\<rparr>
         else s1\<lparr>irq_pc := (irq_pc s1)(core_id := Irq_serving pending)\<rparr>)"

definition clz :: "u32 \<Rightarrow> nat" where
  "clz w = length (takeWhile (\<lambda>i. \<not> bit w i) (rev [0..<32]))"

definition handler_turn :: "nat \<Rightarrow> u32 \<Rightarrow> irq_state \<Rightarrow> irq_state" where
  "handler_turn core_id pending s =
     (if pending = 0 then s\<lparr>irq_pc := (irq_pc s)(core_id := Irq_out)\<rparr>
      else
        let source_id = 31 - clz pending in
        if RTOS_MAX_CORE_COUNT \<le> source_id \<and> source_id \<le> MAX_SOURCE_ID
        then s\<lparr>irq_pc := (irq_pc s)(core_id := Irq_serving (pending AND NOT (source_bit source_id))),
               served := (served s)(core_id := source_id # served s core_id)\<rparr>
        else s\<lparr>irq_fault := True\<rparr>)"

definition rtos_irq_register :: "irq_state \<Rightarrow> nat \<times> irq_state" where
  "rtos_irq_register s =
     (if \<not> peripheral_source_count s < MAX_ADDITIONAL_SOURCES then (0, s\<lparr>irq_fault := True\<rparr>)
      else (RTOS_MAX_CORE_COUNT + peripheral_source_count s,
            s\<lparr>peripheral_source_count := Suc (peripheral_source_count s)\<rparr>))"

definition irq_start :: "nat \<Rightarrow> irq_state" where
  "irq_start n =
     \<lparr>num_cores = n, irq_pending = (\<lambda>_. 0), tokens = (\<lambda>_. 0), irq_pc = (\<lambda>_. Irq_out),
      peripheral_source_count = 0, served = (\<lambda>_. []), irq_fault = False\<rparr>"

text \<open>The callers: RTOS cores name themselves as source, peripherals their registered number.\<close>

definition valid_source :: "irq_state \<Rightarrow> nat \<Rightarrow> bool" where
  "valid_source s source_id \<longleftrightarrow> source_id < num_cores s \<or>
     (RTOS_MAX_CORE_COUNT \<le> source_id \<and> source_id < RTOS_MAX_CORE_COUNT + peripheral_source_count s)"

inductive irq_step :: "irq_state \<Rightarrow> irq_state \<Rightarrow> bool" where
  raise: "core_id < num_cores s \<Longrightarrow> valid_source s source_id \<Longrightarrow> irq_step s (rtos_irq core_id source_id s)"
| register: "peripheral_source_count s < MAX_ADDITIONAL_SOURCES \<Longrightarrow> irq_step s (snd (rtos_irq_register s))"
| take_token: "irq_pc s core_id = Irq_out \<Longrightarrow> 0 < tokens s core_id \<Longrightarrow> irq_step s (handler_begin core_id s)"
| snapshot: "irq_pc s core_id = Irq_taken \<Longrightarrow> irq_step s (handler_snapshot core_id s)"
| turn: "irq_pc s core_id = Irq_serving pending \<Longrightarrow> irq_step s (handler_turn core_id pending s)"

section \<open>Words of sources\<close>

lemma bit_source_bit: "bit (source_bit k) i \<longleftrightarrow> i = k \<and> k < 32"
proof -
  have "bit (source_bit k) i \<longleftrightarrow> k \<le> i \<and> i < 32 \<and> bit (1 :: u32) (i - k)"
    unfolding source_bit_def by (subst bit_push_bit_iff) (auto dest: bit_imp_le_length)
  then show ?thesis by (auto simp: bit_1_iff)
qed

lemma bit_core_mask: "bit RTOS_CORE_SOURCE_MASK i \<longleftrightarrow> i < RTOS_MAX_CORE_COUNT"
proof -
  have m: "RTOS_CORE_SOURCE_MASK = mask RTOS_MAX_CORE_COUNT"
    by (simp add: RTOS_CORE_SOURCE_MASK_def mask_eq_decr_exp RTOS_MAX_CORE_COUNT_def)
  show ?thesis
    unfolding m bit_mask_iff by (auto simp: possible_bit_word RTOS_MAX_CORE_COUNT_def)
qed

lemma word_eq_0_bits: "(w :: u32) = 0 \<longleftrightarrow> (\<forall>i < 32. \<not> bit w i)"
  by (auto simp: bit_eq_iff)

text \<open>The highest bit.\<close>

lemma clz_highest:
  assumes "w \<noteq> 0"
  shows "bit w (31 - clz w)" and "\<And>i. bit w i \<Longrightarrow> i \<le> 31 - clz w"
proof -
  let ?xs = "rev [0..<32] :: nat list"
  from assms obtain k where k: "k < 32" "bit w k" by (auto simp: word_eq_0_bits)
  have c: "clz w < 32"
  proof (rule ccontr)
    assume "\<not> clz w < 32"
    then have "length ?xs \<le> length (takeWhile (\<lambda>i. \<not> bit w i) ?xs)" by (simp add: clz_def)
    then have "takeWhile (\<lambda>i. \<not> bit w i) ?xs = ?xs" by (metis takeWhile_eq_take take_all)
    with k show False by (auto simp: takeWhile_eq_all_conv)
  qed
  have n: "?xs ! j = 31 - j" if "j < 32" for j
    using that by (simp add: rev_nth)
  have "bit w (?xs ! clz w)"
    using nth_length_takeWhile [of "\<lambda>i. \<not> bit w i" ?xs] c by (simp add: clz_def)
  then show "bit w (31 - clz w)" using n [OF c] by simp
  fix i
  assume i: "bit w i"
  then have "i < 32" using bit_imp_le_length [OF i] by simp
  show "i \<le> 31 - clz w"
  proof (rule ccontr)
    assume "\<not> i \<le> 31 - clz w"
    with c \<open>i < 32\<close> have j: "31 - i < clz w" by simp
    then have "?xs ! (31 - i) \<in> set (takeWhile (\<lambda>i. \<not> bit w i) ?xs)"
      unfolding clz_def by (metis nth_mem takeWhile_nth)
    then have "\<not> bit w (?xs ! (31 - i))" by (rule set_takeWhileD [THEN conjunct2])
    with i n [of "31 - i"] \<open>i < 32\<close> show False by simp
  qed
qed

section \<open>No interrupt is lost\<close>

definition irq_inv :: "irq_state \<Rightarrow> bool" where
  "irq_inv s \<longleftrightarrow> \<not> irq_fault s \<and> num_cores s \<le> RTOS_MAX_CORE_COUNT \<and>
     peripheral_source_count s \<le> MAX_ADDITIONAL_SOURCES \<and>
     (\<forall>c. (\<forall>i. bit (irq_pending s c) i \<longrightarrow> valid_source s i) \<and>
        (irq_pc s c = Irq_taken \<longrightarrow> irq_pending s c \<noteq> 0) \<and>
        tokens s c = (if irq_pending s c \<noteq> 0 \<and> irq_pc s c \<noteq> Irq_taken then 1 else 0) \<and>
        (\<forall>w. irq_pc s c = Irq_serving w \<longrightarrow>
           (\<forall>i. bit w i \<longrightarrow> RTOS_MAX_CORE_COUNT \<le> i \<and> i \<le> MAX_SOURCE_ID)))"

lemma source_bit_nonzero: "k < 32 \<Longrightarrow> w OR source_bit k \<noteq> 0"
  by (auto simp: word_eq_0_bits bit_or_iff bit_source_bit)

lemma valid_source_small:
  "irq_inv s \<Longrightarrow> valid_source s k \<Longrightarrow> k \<le> MAX_SOURCE_ID \<and> k < 32"
  by (auto simp: irq_inv_def valid_source_def MAX_SOURCE_ID_def RTOS_MAX_CORE_COUNT_def MAX_ADDITIONAL_SOURCES_def)

lemma irq_inv_raise:
  assumes "irq_inv s" and "core_id < num_cores s" and "valid_source s src"
  shows "irq_inv (rtos_irq core_id src s)"
proof -
  have k: "src < 32" using valid_source_small [OF assms(1,3)] by simp
  have v: "src < RTOS_MAX_CORE_COUNT + peripheral_source_count s"
    using assms(1,3) by (auto simp: irq_inv_def valid_source_def)
  let ?p = "irq_pending s core_id"
  let ?s = "s\<lparr>irq_pending := (irq_pending s)(core_id := ?p OR source_bit src),
      tokens := if ?p = 0 then (tokens s)(core_id := Suc (tokens s core_id)) else tokens s\<rparr>"
  have e: "rtos_irq core_id src s = ?s"
    using assms(2,3) v by (auto simp: rtos_irq_def valid_source_def Let_def)
  have "valid_source ?s = valid_source s" by (simp add: valid_source_def fun_eq_iff)
  moreover have "?p OR source_bit src \<noteq> 0" using source_bit_nonzero [OF k] .
  ultimately show ?thesis
    unfolding e using assms(1,3) by (auto simp: irq_inv_def bit_or_iff bit_source_bit)
qed

lemma irq_inv_step:
  assumes "irq_step s s'" and "irq_inv s"
  shows "irq_inv s'"
  using assms
proof (induction rule: irq_step.induct)
  case (raise core_id s source_id)
  then show ?case by (simp add: irq_inv_raise)
next
  case (register s)
  then have e: "snd (rtos_irq_register s) = s\<lparr>peripheral_source_count := Suc (peripheral_source_count s)\<rparr>"
    by (simp add: rtos_irq_register_def)
  have "valid_source s i \<Longrightarrow> valid_source (s\<lparr>peripheral_source_count := Suc (peripheral_source_count s)\<rparr>) i" for i
    by (auto simp: valid_source_def)
  with register show ?case unfolding e irq_inv_def by simp
next
  case (take_token s core_id)
  then have "irq_pending s core_id \<noteq> 0" by (auto simp: irq_inv_def split: if_splits)
  with take_token show ?case by (auto simp: irq_inv_def handler_begin_def valid_source_def)
next
  case (snapshot s core_id)
  have w: "bit (irq_pending s core_id) i \<Longrightarrow> i \<le> MAX_SOURCE_ID" for i
  proof -
    assume "bit (irq_pending s core_id) i"
    with snapshot(2) have "valid_source s i" by (simp add: irq_inv_def)
    with valid_source_small [OF snapshot(2)] show "i \<le> MAX_SOURCE_ID" by blast
  qed
  moreover have "RTOS_MAX_CORE_COUNT \<le> i"
    if "irq_pending s core_id AND RTOS_CORE_SOURCE_MASK = 0" "bit (irq_pending s core_id) i" for i
  proof (rule ccontr)
    assume "\<not> RTOS_MAX_CORE_COUNT \<le> i"
    then have "bit (irq_pending s core_id AND RTOS_CORE_SOURCE_MASK) i"
      using that(2) by (simp add: bit_and_iff bit_core_mask)
    with that(1) show False by simp
  qed
  ultimately show ?case
    using snapshot
    by (auto simp: irq_inv_def handler_snapshot_def valid_source_def bit_and_iff bit_not_iff bit_core_mask
        not_less Let_def)
next
  case (turn s core_id pending)
  show ?case
  proof (cases "pending = 0")
    case True
    with turn show ?thesis by (auto simp: irq_inv_def handler_turn_def valid_source_def)
  next
    case False
    have "RTOS_MAX_CORE_COUNT \<le> 31 - clz pending" "31 - clz pending \<le> MAX_SOURCE_ID"
      using clz_highest(1) [OF False] turn by (auto simp: irq_inv_def)
    with False turn show ?thesis
      by (auto simp: irq_inv_def handler_turn_def valid_source_def Let_def bit_and_iff)
  qed
qed

lemma irq_inv_start: "n \<le> RTOS_MAX_CORE_COUNT \<Longrightarrow> irq_inv (irq_start n)"
  by (simp add: irq_inv_def irq_start_def)

lemma card_bits_less:
  assumes "w \<noteq> (0 :: u32)"
  shows "card {i. bit (w AND NOT (source_bit (31 - clz w))) i} < card {i. bit w i}"
proof (rule psubset_card_mono)
  have "{i. bit w i} \<subseteq> {..<32}" by (auto dest: bit_imp_le_length)
  then show "finite {i. bit w i}" by (rule finite_subset) simp
  show "{i. bit (w AND NOT (source_bit (31 - clz w))) i} \<subset> {i. bit w i}"
    using clz_highest(1) [OF assms] by (auto simp: bit_and_iff bit_not_iff bit_source_bit dest: bit_imp_le_length)
qed

text \<open>A core that serves a snapshot can serve all of it.\<close>

lemma serving_ends:
  assumes "irq_pc s c = Irq_serving w" and "\<forall>i. bit w i \<longrightarrow> RTOS_MAX_CORE_COUNT \<le> i \<and> i \<le> MAX_SOURCE_ID"
  shows "\<exists>s'. irq_step\<^sup>*\<^sup>* s s' \<and> irq_pc s' c = Irq_out \<and>
    (\<exists>xs. served s' c = xs @ served s c \<and> set xs = {i. bit w i})"
  using assms
proof (induction "card {i. bit w i}" arbitrary: w s rule: less_induct)
  case less
  have step: "irq_step s (handler_turn c w s)" by (rule irq_step.turn [OF less.prems(1)])
  show ?case
  proof (cases "w = 0")
    case True
    then have "irq_pc (handler_turn c w s) c = Irq_out" "served (handler_turn c w s) c = served s c"
      by (simp_all add: handler_turn_def)
    with step True show ?thesis by (intro exI [of _ "handler_turn c w s"]) auto
  next
    case False
    let ?k = "31 - clz w" let ?w = "w AND NOT (source_bit ?k)" let ?s = "handler_turn c w s"
    have h: "bit w ?k" using clz_highest(1) [OF False] .
    then have t: "irq_pc ?s c = Irq_serving ?w" "served ?s c = ?k # served s c"
      using False less.prems(2) by (auto simp: handler_turn_def Let_def)
    have "\<forall>i. bit ?w i \<longrightarrow> RTOS_MAX_CORE_COUNT \<le> i \<and> i \<le> MAX_SOURCE_ID"
      using less.prems(2) unfolding bit_and_iff by blast
    from less.hyps [OF card_bits_less [OF False] t(1) this]
    obtain s' xs where s': "irq_step\<^sup>*\<^sup>* ?s s'" "irq_pc s' c = Irq_out" "served s' c = xs @ served ?s c"
      "set xs = {i. bit ?w i}" by blast
    have bw: "bit ?w i \<longleftrightarrow> bit w i \<and> i \<noteq> ?k" for i
      using bit_imp_le_length [of w i] by (auto simp: bit_and_iff bit_not_iff bit_source_bit)
    have "set (xs @ [?k]) = {i. bit w i}"
      using s'(4) h unfolding bw by auto
    moreover have "served s' c = (xs @ [?k]) @ served s c" using s'(3) t(2) by simp
    moreover have "irq_step\<^sup>*\<^sup>* s s'" using step s'(1) by (rule converse_rtranclp_into_rtranclp)
    ultimately show ?thesis using s'(2) by blast
  qed
qed

lemma pending_served:
  assumes "irq_inv s" and "irq_pc s c = Irq_out" and "irq_pending s c \<noteq> 0"
  shows "\<exists>s'. irq_step\<^sup>*\<^sup>* s s' \<and> irq_pc s' c = Irq_out \<and>
    (\<exists>xs. served s' c = xs @ served s c \<and> set xs = {i. bit (irq_pending s c) i})"
proof -
  let ?p = "irq_pending s c"
  let ?a = "handler_begin c s" let ?b = "handler_snapshot c ?a"
  have "tokens s c = 1" using assms by (auto simp: irq_inv_def)
  then have a: "irq_step s ?a" using assms(2) by (intro irq_step.take_token) simp_all
  have pa: "irq_pc ?a c = Irq_taken" "irq_pending ?a = irq_pending s" "served ?a = served s"
    using assms(3) by (simp_all add: handler_begin_def)
  have b: "irq_step ?a ?b" by (rule irq_step.snapshot [OF pa(1)])
  have ib: "irq_inv ?b" using irq_inv_step [OF b] irq_inv_step [OF a assms(1)] by simp
  have core: "set (core_sources ?p) = {i. bit ?p i \<and> i < RTOS_MAX_CORE_COUNT}"
    by (auto simp: core_sources_def)
  obtain w ys where w: "irq_pc ?b c = Irq_serving w" "served ?b c = ys @ served s c"
    "{i. bit w i} \<union> set ys = {i. bit ?p i}"
  proof (cases "?p AND RTOS_CORE_SOURCE_MASK = 0")
    case True
    then show ?thesis using that [of ?p "[]"] pa by (simp add: handler_snapshot_def Let_def)
  next
    case False
    have "{i. bit (?p AND NOT RTOS_CORE_SOURCE_MASK) i} \<union> set (core_sources ?p) = {i. bit ?p i}"
      unfolding core by (auto simp: bit_and_iff bit_not_iff bit_core_mask dest: bit_imp_le_length)
    with False show ?thesis
      using that [of "?p AND NOT RTOS_CORE_SOURCE_MASK" "core_sources ?p"] pa
      by (simp add: handler_snapshot_def Let_def)
  qed
  have "\<forall>i. bit w i \<longrightarrow> RTOS_MAX_CORE_COUNT \<le> i \<and> i \<le> MAX_SOURCE_ID"
    using ib w(1) by (auto simp: irq_inv_def)
  from serving_ends [OF w(1) this] obtain s' xs where s': "irq_step\<^sup>*\<^sup>* ?b s'" "irq_pc s' c = Irq_out"
    "served s' c = xs @ served ?b c" "set xs = {i. bit w i}" by blast
  have "irq_step\<^sup>*\<^sup>* s s'"
    using a b s'(1) by (meson converse_rtranclp_into_rtranclp)
  moreover have "served s' c = (xs @ ys) @ served s c" "set (xs @ ys) = {i. bit ?p i}"
    using s'(3,4) w(2,3) by auto
  ultimately show ?thesis using s'(2) by blast
qed

text \<open>
  C28. Whatever cores and peripherals raise interrupts and however the handlers interleave,
  no assertion fails, a core never has more than one token in its channel and no interrupt
  is lost: a core with a pending source has a token or its handler is about to take the
  snapshot, and a core whose handler is not running can serve exactly the sources pending
  for it.
\<close>

theorem irq_never_lost:
  assumes "n \<le> RTOS_MAX_CORE_COUNT" and "irq_step\<^sup>*\<^sup>* (irq_start n) s"
  shows "\<not> irq_fault s \<and> tokens s c \<le> 1
    \<and> (irq_pending s c \<noteq> 0 \<longrightarrow> tokens s c = 1 \<or> irq_pc s c = Irq_taken)
    \<and> (irq_pc s c = Irq_out \<and> irq_pending s c \<noteq> 0 \<longrightarrow>
        (\<exists>s' xs. irq_step\<^sup>*\<^sup>* s s' \<and> irq_pc s' c = Irq_out \<and> served s' c = xs @ served s c
           \<and> set xs = {i. bit (irq_pending s c) i}))"
proof -
  from assms(2) have i: "irq_inv s"
    by (induction rule: rtranclp_induct) (auto intro: irq_inv_step irq_inv_start [OF assms(1)])
  with pending_served [OF i, of c] show ?thesis by (auto simp: irq_inv_def)
qed

theorem irq_never_lost_witness:
  "tokens (rtos_irq 1 0 (irq_start 2)) 1 = 1 \<and> \<not> irq_fault (rtos_irq 1 0 (irq_start 2))"
proof -
  have "irq_step (irq_start 2) (rtos_irq 1 0 (irq_start 2))"
    by (rule irq_step.raise) (simp_all add: irq_start_def valid_source_def)
  then have "irq_step\<^sup>*\<^sup>* (irq_start 2) (rtos_irq 1 0 (irq_start 2))" by blast
  from irq_never_lost [OF _ this, of 1] show ?thesis
    by (simp add: rtos_irq_def irq_start_def RTOS_MAX_CORE_COUNT_def)
qed

text \<open>
  A core number that no core has passes the first assertion; it fails the second only when the
  core has nothing pending, and is otherwise set as pending without a token of its own.
\<close>

lemma irq_from_missing_core:
  assumes "core_id < num_cores s" and "num_cores s \<le> k" and "k < RTOS_MAX_CORE_COUNT"
  shows "irq_fault (rtos_irq core_id k s) = (irq_fault s \<or> irq_pending s core_id = 0)"
  using assms by (auto simp: rtos_irq_def Let_def)

end
