(* ===== verification/Sntp.thy ===== *)
theory Sntp
  imports Rtos_Support
begin

text \<open>
  The SNTP client (modules/sw_services/sntpd/FreeRTOS/sntpd.c): the request, the answer and the loop
  of a session with one server. Numbers are sent with the highest byte first; \<open>junk\<close> is what the
  stack holds where the code leaves fields of the request unset.
\<close>

definition EPOCH :: u32 where "EPOCH = 2208988800"
definition SNTPD_RESET_AFTER_X_FAILURES :: nat where "SNTPD_RESET_AFTER_X_FAILURES = 10"
definition SNTPD_STRATUM_KISS_OF_DEATH :: byte where "SNTPD_STRATUM_KISS_OF_DEATH = 0"
definition SNTPD_FLAGS :: byte where "SNTPD_FLAGS = 0xC0 OR 0x20 OR 0x03"

text \<open>A number in network order and back.\<close>

definition htonl_bytes :: "u32 \<Rightarrow> byte list" where
  "htonl_bytes w = rev (word_bytes 4 w)"

definition ntohl_bytes :: "byte list \<Rightarrow> u32" where
  "ntohl_bytes bs = bytes_word (rev bs)"

text \<open>The fields that the client reads or writes, at their offsets in the packet of 48 bytes.\<close>

record sntp_packet =
  flags :: byte
  stratum :: byte
  reference_seconds :: u32
  receive_seconds :: u32
  receive_fraction :: u32
  transmit_seconds :: u32

definition read_packet :: "byte list \<Rightarrow> sntp_packet" where
  "read_packet bs =
     \<lparr>flags = bs ! 0, stratum = bs ! 1, reference_seconds = ntohl_bytes (take 4 (drop 16 bs)),
      receive_seconds = ntohl_bytes (take 4 (drop 32 bs)), receive_fraction = ntohl_bytes (take 4 (drop 36 bs)),
      transmit_seconds = ntohl_bytes (take 4 (drop 40 bs))\<rparr>"

definition sntp_request :: "byte list \<Rightarrow> rtos_time \<Rightarrow> byte list" where
  "sntp_request junk cur =
     (let now = htonl_bytes (ucast (seconds cur) + EPOCH); zero = htonl_bytes 0 in
      [SNTPD_FLAGS, junk ! 0] @ [0, 0] @ replicate 8 0 @ take 4 (drop 1 junk)
      @ now @ zero
      @ take 8 (drop 5 junk)
      @ take 8 (drop 13 junk)
      @ now @ zero)"

text \<open>
  The state of the task: the address it sends to, the failures so far, whether the time was ever
  set, and the clock.
\<close>

record sntpd =
  ntp_addr :: u32
  failed_attempts :: nat
  time_synced :: bool
  clock :: rtos_time

definition is_time_synced :: "sntpd \<Rightarrow> bool" where
  "is_time_synced s = time_synced s"

text \<open>
  A datagram or None when the time is up. The length is compared with the size of a pointer, 4.
  Reading past the end of the datagram is a fault.
\<close>

definition UINT_MAX :: u32 where "UINT_MAX = 0xFFFFFFFF"

definition sntp_answer :: "byte list \<Rightarrow> sntpd \<Rightarrow> sntpd res" where
  "sntp_answer bs s =
     (if length bs < 4 then Inr (s\<lparr>failed_attempts := Suc (failed_attempts s)\<rparr>)
      else if length bs < 40 then Inl Bad_access
      else
        let p = read_packet bs;
            now = \<lparr>seconds = ucast (receive_seconds p - EPOCH), microseconds = receive_fraction p div UINT_MAX\<rparr>;
            s1 = s\<lparr>clock := rtos_time_set now, time_synced := True\<rparr>
        in Inr (if stratum p = SNTPD_STRATUM_KISS_OF_DEATH
                then s1\<lparr>failed_attempts := SNTPD_RESET_AFTER_X_FAILURES\<rparr> else s1))"

definition sntp_receive :: "(byte list \<times> u32) option \<Rightarrow> sntpd \<Rightarrow> sntpd res" where
  "sntp_receive datagram s =
     (case datagram of
        None \<Rightarrow> Inr (s\<lparr>failed_attempts := Suc (failed_attempts s)\<rparr>)
      | Some (bs, sender) \<Rightarrow> sntp_answer bs (s\<lparr>ntp_addr := sender\<rparr>))"

text \<open>
  A session: requests are sent until the socket is closed after too many failures. The result is
  the state, the datagrams that are left and the requests with their addresses; None: still waiting.
  The clock also runs while the session waits; \<open>ticks\<close> are those before each request.
\<close>

fun sntp_session ::
  "byte list \<Rightarrow> (u32 list \<times> (byte list \<times> u32) option) list \<Rightarrow> sntpd
     \<Rightarrow> ((byte list \<times> u32) list \<times> sntpd \<times> bool) res" where
  "sntp_session junk [] s = Inr ([], s, False)"
| "sntp_session junk ((ticks, datagram) # rest) s =
     (let s1 = s\<lparr>clock := fold rtos_time_increment ticks (clock s)\<rparr>;
          req = (sntp_request junk (rtos_time_get (clock s1)), ntp_addr s1)
      in rbind (sntp_receive datagram s1) (\<lambda>s2.
           if failed_attempts s2 \<ge> SNTPD_RESET_AFTER_X_FAILURES
           then Inr ([req], s2\<lparr>failed_attempts := 0\<rparr>, True)
           else rbind (sntp_session junk rest s2) (\<lambda>(reqs, s3, ended). Inr (req # reqs, s3, ended))))"

section \<open>The request\<close>

lemma length_htonl [simp]: "length (htonl_bytes w) = 4"
  by (simp add: htonl_bytes_def)

lemma ntohl_htonl [simp]: "ntohl_bytes (htonl_bytes w) = w"
  by (simp add: ntohl_bytes_def htonl_bytes_def)

text \<open>
  A request is 48 bytes that a server reads as a client's, with the time of the clock in NTP
  seconds.
\<close>

lemma sntp_request_read:
  assumes "length junk = 21"
  shows "length (sntp_request junk cur) = 48"
    and "flags (read_packet (sntp_request junk cur)) = 0xE3"
    and "transmit_seconds (read_packet (sntp_request junk cur)) = ucast (seconds cur) + EPOCH"
    and "reference_seconds (read_packet (sntp_request junk cur)) = ucast (seconds cur) + EPOCH"
  using assms by (simp_all add: sntp_request_def read_packet_def SNTPD_FLAGS_def Let_def)

section \<open>Answers\<close>

text \<open>An answer of at least 40 bytes sets the clock to the time at which the server got the request.\<close>

lemma sntp_answer_sets_time:
  assumes "40 \<le> length bs"
  shows "\<exists>s'. sntp_answer bs s = Inr s' \<and> is_time_synced s' \<and>
    seconds (clock s') = ucast (receive_seconds (read_packet bs) - EPOCH) \<and>
    microseconds (rtos_time_get (clock s')) = (if receive_fraction (read_packet bs) = UINT_MAX then 1 else 0) \<and>
    ntp_addr s' = ntp_addr s"
proof -
  have d: "receive_fraction (read_packet bs) div UINT_MAX = (if receive_fraction (read_packet bs) = UINT_MAX then 1 else 0)"
  proof (cases "receive_fraction (read_packet bs) = UINT_MAX")
    case False
    have "receive_fraction (read_packet bs) \<le> UINT_MAX"
      using unsigned_less [where w = "receive_fraction (read_packet bs)" and 'a = nat] by (simp add: UINT_MAX_def word_le_nat_alt)
    with False have "receive_fraction (read_packet bs) < UINT_MAX" by simp
    with False show ?thesis by (simp add: div_word_less)
  qed (simp add: UINT_MAX_def)
  have "rtos_time_get (rtos_time_set \<lparr>seconds = t, microseconds = if b then 1 else 0\<rparr>)
    = \<lparr>seconds = t, microseconds = if b then 1 else 0\<rparr>" for t b
    by (rule rtos_time_set_get) simp
  with assms show ?thesis
    unfolding sntp_answer_def Let_def d by (simp add: is_time_synced_def rtos_time_set_def rtos_time_get_def)
qed

text \<open>What a datagram does to the number of failures: it only grows.\<close>

definition is_failure :: "(byte list \<times> u32) option \<Rightarrow> bool" where
  "is_failure datagram \<longleftrightarrow> (case datagram of None \<Rightarrow> True | Some (bs, sender) \<Rightarrow> length bs < 4)"

definition is_kiss :: "(byte list \<times> u32) option \<Rightarrow> bool" where
  "is_kiss datagram \<longleftrightarrow>
     (case datagram of None \<Rightarrow> False | Some (bs, sender) \<Rightarrow> 40 \<le> length bs \<and> bs ! 1 = SNTPD_STRATUM_KISS_OF_DEATH)"

lemma sntp_receive_failures:
  assumes "sntp_receive datagram s = Inr s'"
  shows "failed_attempts s' = (if is_failure datagram then Suc (failed_attempts s)
      else if is_kiss datagram then SNTPD_RESET_AFTER_X_FAILURES else failed_attempts s)"
  using assms
  by (auto simp: sntp_receive_def sntp_answer_def is_failure_def is_kiss_def read_packet_def Let_def
      split: option.splits if_splits)

lemma sntp_receive_ok:
  assumes "\<And>bs sender. datagram = Some (bs, sender) \<Longrightarrow> length bs < 4 \<or> 40 \<le> length bs"
  shows "\<exists>s'. sntp_receive datagram s = Inr s'"
  using assms by (cases datagram) (auto simp: sntp_receive_def sntp_answer_def Let_def)

text \<open>
  C29. As long as no datagram of 4 to 39 bytes arrives (such a datagram is read past its
  end), a session of the SNTP client with one server ends, its socket closed, as soon as as
  many requests have failed as the limit says, counted over the whole session, or a server
  has asked to be left alone; its requests are client packets of 48 bytes, the first to the
  server.
\<close>

theorem sntp_session_ends:
  assumes "length junk = 21" and "failed_attempts s < SNTPD_RESET_AFTER_X_FAILURES"
    and "\<forall>(ticks, d) \<in> set turns. \<forall>bs sender. d = Some (bs, sender) \<longrightarrow> length bs < 4 \<or> 40 \<le> length bs"
    and "SNTPD_RESET_AFTER_X_FAILURES \<le> failed_attempts s + length (filter (\<lambda>t. is_failure (snd t)) turns)
      \<or> (\<exists>t \<in> set turns. is_kiss (snd t))"
  shows "\<exists>reqs s'. sntp_session junk turns s = Inr (reqs, s', True) \<and> failed_attempts s' = 0 \<and>
    length reqs \<le> length turns \<and> reqs \<noteq> [] \<and> snd (hd reqs) = ntp_addr s \<and>
    (\<forall>(m, to) \<in> set reqs. length m = 48 \<and> flags (read_packet m) = 0xE3)"
  using assms(2-)
proof (induction turns arbitrary: s)
  case (Cons t turns)
  obtain ticks d where t: "t = (ticks, d)" by (cases t)
  let ?s1 = "s\<lparr>clock := fold rtos_time_increment ticks (clock s)\<rparr>"
  have d: "\<And>bs sender. d = Some (bs, sender) \<Longrightarrow> length bs < 4 \<or> 40 \<le> length bs"
    using Cons.prems(2) t by auto
  have "\<exists>s2. sntp_receive d ?s1 = Inr s2" by (rule sntp_receive_ok) (rule d)
  then obtain s2 where s2: "sntp_receive d ?s1 = Inr s2" ..
  note f = sntp_receive_failures [OF s2]
  note req = sntp_request_read(1,2) [OF assms(1)]
  show ?case
  proof (cases "failed_attempts s2 \<ge> SNTPD_RESET_AFTER_X_FAILURES")
    case True
    with s2 t req show ?thesis by (simp add: Let_def)
  next
    case False
    then have "\<not> is_kiss d" using f by (auto simp: is_failure_def is_kiss_def split: option.splits if_splits)
    then have "SNTPD_RESET_AFTER_X_FAILURES \<le> failed_attempts s2 + length (filter (\<lambda>t. is_failure (snd t)) turns)
        \<or> (\<exists>t \<in> set turns. is_kiss (snd t))"
      using Cons.prems(3) f t by (auto split: if_splits)
    then obtain reqs s' where "sntp_session junk turns s2 = Inr (reqs, s', True)" "failed_attempts s' = 0"
      "length reqs \<le> length turns" "\<forall>(m, to) \<in> set reqs. length m = 48 \<and> flags (read_packet m) = 0xE3"
      using Cons.IH [of s2] Cons.prems(2) False by auto
    moreover from this s2 t False have "sntp_session junk (t # turns) s =
        Inr ((sntp_request junk (rtos_time_get (clock ?s1)), ntp_addr ?s1) # reqs, s', True)"
      by (simp add: Let_def)
    ultimately show ?thesis using req by simp
  qed
qed (simp add: SNTPD_RESET_AFTER_X_FAILURES_def)

definition sntp_stopped :: sntpd where
  "sntp_stopped = \<lparr>ntp_addr = 7, failed_attempts = 9, time_synced = False,
     clock = \<lparr>seconds = 0, microseconds = 0\<rparr>\<rparr>"

theorem sntp_session_ends_witness:
  "\<exists>reqs s'. sntp_session (replicate 21 0) [([], None)] sntp_stopped = Inr (reqs, s', True) \<and> failed_attempts s' = 0"
proof -
  have "\<exists>reqs s'. sntp_session (replicate 21 0) [([], None)] sntp_stopped = Inr (reqs, s', True) \<and>
      failed_attempts s' = 0 \<and> length reqs \<le> length [([] :: u32 list, None :: (byte list \<times> u32) option)] \<and> reqs \<noteq> [] \<and>
      snd (hd reqs) = ntp_addr sntp_stopped \<and> (\<forall>(m, to) \<in> set reqs. length m = 48 \<and> flags (read_packet m) = 0xE3)"
    by (rule sntp_session_ends) (simp_all add: sntp_stopped_def SNTPD_RESET_AFTER_X_FAILURES_def is_failure_def)
  then show ?thesis by blast
qed

section \<open>What the code does not do\<close>

text \<open>A datagram of 4 bytes is taken for an answer and read past its end.\<close>

lemma sntp_short_answer: "4 \<le> length bs \<Longrightarrow> length bs < 40 \<Longrightarrow> sntp_answer bs s = Inl Bad_access"
  by (simp add: sntp_answer_def)

text \<open>The clock is set from the packet with which a server asks to be left alone.\<close>

lemma sntp_kiss_sets_time:
  assumes "40 \<le> length bs" and "bs ! 1 = SNTPD_STRATUM_KISS_OF_DEATH" and "receive_seconds (read_packet bs) = 0"
  shows "\<exists>s'. sntp_answer bs s = Inr s' \<and> seconds (clock s') = ucast (- EPOCH) \<and> is_time_synced s'"
  using sntp_answer_sets_time [OF assms(1), of s] assms(3) by auto

text \<open>An answer after failures does not clear them.\<close>

lemma sntp_success_keeps_failures:
  "sntp_receive d s = Inr s' \<Longrightarrow> \<not> is_failure d \<Longrightarrow> \<not> is_kiss d \<Longrightarrow> failed_attempts s' = failed_attempts s"
  by (simp add: sntp_receive_failures)

text \<open>A datagram from anybody sets the clock, and the next request goes to its sender.\<close>

lemma sntp_answer_from_anybody:
  assumes "40 \<le> length bs"
  shows "\<exists>s'. sntp_receive (Some (bs, sender)) s = Inr s' \<and> ntp_addr s' = sender \<and> is_time_synced s'"
  using sntp_answer_sets_time [OF assms, of "s\<lparr>ntp_addr := sender\<rparr>"] by (auto simp: sntp_receive_def)

end
