(* ===== verification/Disk.thy ===== *)
theory Disk
  imports Qspi_Rpc
begin

text \<open>
  The disk layer of FatFs on the QSPI flash (modules/sw_services/fatfs/FreeRTOS/diskio.c): one drive
  of 4096-byte sectors from an address of the flash on. The flash is the interface of the QSPI
  driver's local calls; \<open>start\<close> is QSPI_FLASH_FILESYSTEM_START_ADDRESS, 0x100000 unless the
  application defines another. The status bits and results are those of diskio.h.
\<close>

definition QSPI_FLASH_SECTOR_SIZE :: nat where "QSPI_FLASH_SECTOR_SIZE = 4096"
definition FF_VOLUMES :: nat where "FF_VOLUMES = 1"

definition STA_NOINIT :: byte where "STA_NOINIT = 0x01"
definition STA_PROTECT :: byte where "STA_PROTECT = 0x04"

datatype dresult = RES_OK | RES_ERROR | RES_WRPRT | RES_NOTRDY | RES_PARERR

text \<open>The commands of \<open>disk_ioctl\<close>, and what it writes to the caller's buffer.\<close>

datatype ioctl = CTRL_SYNC | GET_SECTOR_COUNT | GET_SECTOR_SIZE | GET_BLOCK_SIZE | CTRL_TRIM | Other_ioctl

type_synonym drives = "byte list"

definition drives_start :: drives where
  "drives_start = replicate FF_VOLUMES STA_NOINIT"

section \<open>The operations\<close>

definition disk_status :: "byte \<Rightarrow> drives \<Rightarrow> byte" where
  "disk_status pdrv drive_status = (if unat pdrv < FF_VOLUMES then drive_status ! unat pdrv else STA_NOINIT)"

definition disk_initialize :: "byte \<Rightarrow> drives \<Rightarrow> byte \<times> drives" where
  "disk_initialize pdrv drive_status =
     (if pdrv = 0 then
        let st = drive_status ! 0;
            st' = (if st AND STA_NOINIT = STA_NOINIT then st AND NOT STA_NOINIT else st)
        in (st', drive_status[0 := st'])
      else (STA_NOINIT, drive_status))"

text \<open>Addresses and lengths are 32-bit numbers.\<close>

definition sector_addr :: "nat \<Rightarrow> u32 \<Rightarrow> nat" where
  "sector_addr start sector = unat (of_nat start + sector * of_nat QSPI_FLASH_SECTOR_SIZE :: u32)"

definition sector_bytes :: "u32 \<Rightarrow> nat" where
  "sector_bytes count = unat (count * of_nat QSPI_FLASH_SECTOR_SIZE :: u32)"

definition not_protected :: "byte \<Rightarrow> bool" where
  "not_protected st \<longleftrightarrow> st AND NOT STA_PROTECT = 0"

definition disk_read ::
  "'s flash_host \<Rightarrow> nat \<Rightarrow> byte \<Rightarrow> byte list \<Rightarrow> u32 \<Rightarrow> u32 \<Rightarrow> drives \<Rightarrow> 's \<Rightarrow> (dresult \<times> byte list \<times> 's) res" where
  "disk_read h start pdrv buff sector count drive_status s =
     (if pdrv = 0 then
        let st = drive_status ! 0 in
        if not_protected st then
          let n = sector_bytes count in
          if length buff < n then Inl Bad_access
          else rbind (exec h (Read (take n buff) (sector_addr start sector) n) s) (\<lambda>(out, s').
                 Inr (RES_OK, out @ drop n buff, s'))
        else if st AND STA_NOINIT \<noteq> 0 then Inr (RES_NOTRDY, buff, s)
        else Inr (RES_ERROR, buff, s)
      else Inr (RES_PARERR, buff, s))"

definition disk_write ::
  "'s flash_host \<Rightarrow> nat \<Rightarrow> byte \<Rightarrow> byte list \<Rightarrow> u32 \<Rightarrow> u32 \<Rightarrow> drives \<Rightarrow> 's \<Rightarrow> (dresult \<times> 's) res" where
  "disk_write h start pdrv buff sector count drive_status s =
     (if pdrv = 0 then
        let st = drive_status ! 0 in
        if st = 0 then
          rbind (host_lock h s) (\<lambda>s1.
          rbind (exec h (Erase (sector_addr start sector) (sector_bytes count)) s1) (\<lambda>(_, s2).
          rbind (exec h (Write buff (sector_addr start sector) (sector_bytes count)) s2) (\<lambda>(_, s3).
          rbind (host_unlock h s3) (\<lambda>s4. Inr (RES_OK, s4)))))
        else if st AND STA_NOINIT \<noteq> 0 then Inr (RES_NOTRDY, s)
        else if st AND STA_PROTECT \<noteq> 0 then Inr (RES_WRPRT, s)
        else Inr (RES_ERROR, s)
      else Inr (RES_PARERR, s))"

text \<open>The result of a command of a drive that is ready is RES_OK whatever the inner switch gave.\<close>

definition disk_ioctl :: "nat \<Rightarrow> byte \<Rightarrow> ioctl \<Rightarrow> drives \<Rightarrow> dresult \<times> nat option" where
  "disk_ioctl bytes pdrv cmd drive_status =
     (if pdrv = 0 then
        let st = drive_status ! 0 in
        if not_protected st then
          (RES_OK,
           case cmd of
             GET_SECTOR_COUNT \<Rightarrow> Some (bytes div QSPI_FLASH_SECTOR_SIZE)
           | GET_SECTOR_SIZE \<Rightarrow> Some QSPI_FLASH_SECTOR_SIZE
           | GET_BLOCK_SIZE \<Rightarrow> Some 1
           | _ \<Rightarrow> None)
        else if st AND STA_NOINIT \<noteq> 0 then (RES_NOTRDY, None)
        else (RES_ERROR, None)
      else (RES_PARERR, None))"

section \<open>A disk of sectors\<close>

text \<open>Requests, and what they do to a memory of bytes in which the disk begins at \<open>start\<close>.\<close>

datatype disk_req = Disk_read "byte list" u32 u32 | Disk_write "byte list" u32 u32

fun disk_exec ::
  "'s flash_host \<Rightarrow> nat \<Rightarrow> drives \<Rightarrow> disk_req \<Rightarrow> 's \<Rightarrow> (dresult \<times> byte list \<times> 's) res" where
  "disk_exec h start ds (Disk_read buff sector count) s = disk_read h start 0 buff sector count ds s"
| "disk_exec h start ds (Disk_write buff sector count) s =
     rbind (disk_write h start 0 buff sector count ds s) (\<lambda>(r, s'). Inr (r, buff, s'))"

fun disk_run ::
  "'s flash_host \<Rightarrow> nat \<Rightarrow> drives \<Rightarrow> disk_req list \<Rightarrow> 's \<Rightarrow> ((dresult \<times> byte list) list \<times> 's) res" where
  "disk_run h start ds [] s = Inr ([], s)"
| "disk_run h start ds (q # qs) s =
     rbind (disk_exec h start ds q s) (\<lambda>(r, buff, s1).
       rbind (disk_run h start ds qs s1) (\<lambda>(out, s2). Inr ((r, buff) # out, s2)))"

definition sectors :: "nat \<Rightarrow> (nat \<Rightarrow> byte) \<Rightarrow> nat \<Rightarrow> nat \<Rightarrow> byte list" where
  "sectors start c k n = map c [start + 4096 * k..<start + 4096 * (k + n)]"

fun disk_spec :: "nat \<Rightarrow> disk_req \<Rightarrow> (nat \<Rightarrow> byte) \<Rightarrow> byte list \<times> (nat \<Rightarrow> byte)" where
  "disk_spec start (Disk_read buff k n) c =
     (sectors start c (unat k) (unat n) @ drop (4096 * unat n) buff, c)"
| "disk_spec start (Disk_write buff k n) c =
     (buff, \<lambda>x. let a = start + 4096 * unat k in
              if a \<le> x \<and> x < a + 4096 * unat n then buff ! (x - a) else c x)"

fun disk_spec_run :: "nat \<Rightarrow> disk_req list \<Rightarrow> (nat \<Rightarrow> byte) \<Rightarrow> byte list list \<times> (nat \<Rightarrow> byte)" where
  "disk_spec_run start [] c = ([], c)"
| "disk_spec_run start (q # qs) c =
     (let (out, c1) = disk_spec start q c; (outs, c2) = disk_spec_run start qs c1 in (out # outs, c2))"

text \<open>A request inside the flash, with a buffer for its sectors.\<close>

fun disk_in_range :: "nat \<Rightarrow> nat \<Rightarrow> disk_req \<Rightarrow> bool" where
  "disk_in_range start fs (Disk_read buff k n) \<longleftrightarrow>
     start + 4096 * (unat k + unat n) \<le> fs \<and> 4096 * unat n \<le> length buff"
| "disk_in_range start fs (Disk_write buff k n) \<longleftrightarrow>
     start + 4096 * (unat k + unat n) \<le> fs \<and> 4096 * unat n \<le> length buff"

lemma sector_addr_eq:
  assumes "start + 4096 * (unat k + unat n) < 2 ^ 32"
  shows "sector_addr start k = start + 4096 * unat k" and "sector_bytes n = 4096 * unat n"
proof -
  have "unat (k * 4096) = 4096 * unat k" "unat (n * 4096) = 4096 * unat n"
    using assms by (simp_all add: unat_word_ariths)
  then show "sector_addr start k = start + 4096 * unat k" and "sector_bytes n = 4096 * unat n"
    using assms
    by (simp_all add: sector_addr_def sector_bytes_def QSPI_FLASH_SECTOR_SIZE_def unat_word_ariths
        unat_of_nat take_bit_nat_eq_self)
qed

text \<open>
  The contract of the flash: that of the QSPI driver's local calls, whose lock does not touch the
  contents and whose reads give the bytes as they are stored.
\<close>

locale flash_disk = flash_service h inv content conv m fs
  for h :: "'s flash_host" and inv :: "'s \<Rightarrow> bool" and content :: "'s \<Rightarrow> nat \<Rightarrow> byte"
    and conv :: "transfer_mode \<Rightarrow> byte \<Rightarrow> byte" and m :: transfer_mode and fs :: nat +
  assumes lock: "inv s \<Longrightarrow> \<exists>s'. host_lock h s = Inr s' \<and> inv s' \<and> content s' = content s"
    and unlock: "inv s \<Longrightarrow> \<exists>s'. host_unlock h s = Inr s' \<and> inv s' \<and> content s' = content s"
    and plain: "inv s \<Longrightarrow> conv m b = b"
begin

text \<open>A read of bytes, and the replacement of whole sectors.\<close>

lemma read_plain:
  assumes "inv s" and "a + n \<le> fs" and "length buff = n"
  shows "\<exists>s'. exec h (Read buff a n) s = Inr (map (content s) [a..<a + n], s') \<and> inv s' \<and> content s' = content s"
  using exec [OF assms(1), of "Read buff a n"] assms(2,3) plain [OF assms(1)] by auto

lemma erase_write:
  assumes "inv s" and "4096 dvd a" and "4096 dvd n" and fs: "a + n \<le> fs" "n \<le> length buff"
  shows "\<exists>out s1 out' s2. exec h (Erase a n) s = Inr (out, s1) \<and> exec h (Write buff a n) s1 = Inr (out', s2)
    \<and> inv s2 \<and> content s2 = (\<lambda>x. if a \<le> x \<and> x < a + n then buff ! (x - a) else content s x)"
proof -
  have d: "a div 4096 * 4096 = a" "(a + n + 4095) div 4096 * 4096 = a + n"
  proof -
    obtain j k where e: "a = 4096 * j" "n = 4096 * k" using assms(2,3) by (elim dvdE)
    show "a div 4096 * 4096 = a" unfolding e(1) by simp
    have "(4096 * (j + k) + 4095) div 4096 = j + k" by simp
    then show "(a + n + 4095) div 4096 * 4096 = a + n" unfolding e by (simp add: distrib_left)
  qed
  have "fs < 2 ^ 32" using size [OF assms(1)] .
  then have e: "call_in_range fs (Erase a n)" "call_in_range fs (Write buff a n)" using fs by simp_all
  from exec [OF assms(1) e(1)] obtain s1 out where s1: "exec h (Erase a n) s = Inr (out, s1)" "inv s1"
    "content s1 = (\<lambda>x. if a \<le> x \<and> x < a + n then 0xFF else content s x)"
    using d fs(1) by (auto simp: fun_eq_iff)
  from exec [OF s1(2) e(2)] obtain s2 out' where s2: "exec h (Write buff a n) s1 = Inr (out', s2)" "inv s2"
    "content s2 = (\<lambda>x. if a \<le> x \<and> x < a + n then content s1 x AND buff ! (x - a) else content s1 x)"
    using fs(1) by (auto simp: fun_eq_iff)
  have m: "(0xFF :: byte) AND b = b" for b
  proof -
    have "(0xFF :: byte) = - 1" by simp
    then show ?thesis by (simp only: and.left_neutral)
  qed
  have "content s2 = (\<lambda>x. if a \<le> x \<and> x < a + n then buff ! (x - a) else content s x)"
    unfolding s2(3) s1(3) by (auto simp: fun_eq_iff m)
  with s1(1) s2(1,2) show ?thesis by blast
qed

lemma read_ok:
  assumes "inv s" and "disk_in_range start fs (Disk_read buff k n)" and "not_protected (ds ! 0)"
  shows "\<exists>s'. disk_read h start 0 buff k n ds s = Inr (RES_OK, fst (disk_spec start (Disk_read buff k n) (content s)), s')
    \<and> inv s' \<and> content s' = content s"
proof -
  have a: "sector_addr start k = start + 4096 * unat k" "sector_bytes n = 4096 * unat n"
    using assms(2) size [OF assms(1)] sector_addr_eq [of start k n] by simp_all
  from read_plain [OF assms(1), of "start + 4096 * unat k" "4096 * unat n" "take (4096 * unat n) buff"]
    assms(2) obtain s' where "exec h (Read (take (4096 * unat n) buff) (start + 4096 * unat k) (4096 * unat n)) s
      = Inr (map (content s) [start + 4096 * unat k..<start + 4096 * unat k + 4096 * unat n], s')"
      "inv s'" "content s' = content s" by (auto simp: distrib_left)
  then show ?thesis using a assms(2,3) by (simp add: disk_read_def sectors_def Let_def add.assoc distrib_left)
qed

lemma write_ok:
  assumes "inv s" and "disk_in_range start fs (Disk_write buff k n)" and "ds ! 0 = 0" and "4096 dvd start"
  shows "\<exists>s'. disk_write h start 0 buff k n ds s = Inr (RES_OK, s')
    \<and> inv s' \<and> content s' = snd (disk_spec start (Disk_write buff k n) (content s))"
proof -
  let ?a = "start + 4096 * unat k" let ?n = "4096 * unat n"
  have a: "sector_addr start k = ?a" "sector_bytes n = ?n"
    using assms(2) size [OF assms(1)] sector_addr_eq [of start k n] by simp_all
  obtain s1 where s1: "host_lock h s = Inr s1" "inv s1" "content s1 = content s"
    using lock [OF assms(1)] by blast
  have "4096 dvd ?a" "?a + ?n \<le> fs" "?n \<le> length buff" using assms(2,4) by (simp_all add: distrib_left)
  from erase_write [OF s1(2) this(1) _ this(2,3)] obtain out s2 out' s3 where s3:
    "exec h (Erase ?a ?n) s1 = Inr (out, s2)" "exec h (Write buff ?a ?n) s2 = Inr (out', s3)" "inv s3"
    "content s3 = (\<lambda>x. if ?a \<le> x \<and> x < ?a + ?n then buff ! (x - ?a) else content s1 x)" by auto
  from unlock [OF s3(3)] obtain s4 where "host_unlock h s3 = Inr s4" "inv s4" "content s4 = content s3"
    by blast
  with s1 s3(1-3) s3(4) [unfolded s1(3)] a assms(3) show ?thesis by (simp add: disk_write_def Let_def)
qed

text \<open>Any sequence of requests.\<close>

lemma run_ok:
  assumes "inv s" and "list_all (disk_in_range start fs) qs" and "ds ! 0 = 0" and "4096 dvd start"
  shows "\<exists>s'. disk_run h start ds qs s = Inr (map (Pair RES_OK) (fst (disk_spec_run start qs (content s))), s')
    \<and> inv s' \<and> content s' = snd (disk_spec_run start qs (content s))"
  using assms(1,2)
proof (induction qs arbitrary: s)
  case (Cons q qs)
  have "\<exists>s1. disk_exec h start ds q s = Inr (RES_OK, fst (disk_spec start q (content s)), s1)
    \<and> inv s1 \<and> content s1 = snd (disk_spec start q (content s))"
  proof (cases q)
    case (Disk_read buff k n)
    have "not_protected (ds ! 0)" using assms(3) by (simp add: not_protected_def)
    from read_ok [OF Cons.prems(1) _ this, of start buff k n] Cons.prems(2) Disk_read show ?thesis by auto
  next
    case (Disk_write buff k n)
    from write_ok [OF Cons.prems(1) _ assms(3,4), of buff k n] Cons.prems(2) Disk_write show ?thesis by auto
  qed
  then obtain s1 where s1: "disk_exec h start ds q s = Inr (RES_OK, fst (disk_spec start q (content s)), s1)"
    "inv s1" "content s1 = snd (disk_spec start q (content s))" by blast
  from Cons.IH [OF s1(2)] Cons.prems(2) s1(1,3) show ?case by (auto simp: case_prod_unfold Let_def)
qed simp

end

definition plain_flash ::
  "('s, 'd) flash_lib \<Rightarrow> ('s \<Rightarrow> bool) \<Rightarrow> 'd nor_view \<Rightarrow> ('d \<Rightarrow> lib_mode)
     \<Rightarrow> (transfer_mode \<Rightarrow> byte \<Rightarrow> byte) \<Rightarrow> nat \<Rightarrow> transfer_mode \<Rightarrow> 's qspi_ctx \<Rightarrow> (nat \<Rightarrow> byte list)
     \<Rightarrow> flash_op \<times> 'd \<Rightarrow> bool" where
  "plain_flash lib good v mode decode fs m ctx fresh s \<longleftrightarrow>
     local_inv lib good v mode decode fs m ctx fresh s \<and> (\<forall>b. read_conv decode ctx m b = b)"

interpretation fat_flash: flash_disk "local_host lib ctx fresh"
    "plain_flash lib good v mode decode fs m ctx fresh" "\<lambda>s. cells v (snd s)" "read_conv decode ctx" m fs
  for lib good v mode decode fs m ctx fresh
proof
  show "\<exists>s'. exec (local_host lib ctx fresh) x s
      = Inr (fst (call_spec (read_conv decode ctx) m fs x (cells v (snd s))), s')
    \<and> plain_flash lib good v mode decode fs m ctx fresh s'
    \<and> cells v (snd s') = snd (call_spec (read_conv decode ctx) m fs x (cells v (snd s)))"
    if "plain_flash lib good v mode decode fs m ctx fresh s" and "call_in_range fs x" for s x
    using that local_exec_ok [where lib = lib and good = good and v = v and mode = mode and decode = decode
        and m = m and ctx = ctx and fresh = fresh and s = s, OF _ that(2)]
    by (auto simp: local_host_def plain_flash_def)
qed (auto simp: plain_flash_def local_flash.size local_flash.fresh local_host_def dest: local_flash.size,
  auto simp: local_inv_def)

text \<open>
  C30. The drive of FatFs on a flash that the driver initialised, for a transfer mode in
  which reads leave the bytes as they are (not fast reads that swap nibbles), beginning with
  a sector of the flash, is a disk: once it is initialised every sequence of reads and
  writes inside the flash, with buffers as long as their sectors, succeeds, a read gives the
  sectors as last written, a write leaves exactly its data in its sectors, and nothing else
  in the flash changes.
\<close>

theorem fatfs_drive_is_a_disk:
  assumes l: "lib_ok lib good v mode decode fs"
    and s: "good (case spec of None \<Rightarrow> FL_QUADDEVICE_DEFAULT lib | Some s \<Rightarrow> s)"
    and d: "mode d = Idle" "pending v d = 0"
    and i: "rtos_qspi_flash_init lib spec d = Inr (ctx, d0)
      \<or> rtos_qspi_flash_fast_read_init lib spec m clk_div addr d = Inr (ctx, d0)"
    and n: "\<And>n. length (fresh n) = n" and plain: "\<And>b. read_conv decode ctx m b = b"
    and start: "4096 dvd start" and x: "list_all (disk_in_range start fs) qs"
  shows "\<exists>s'. disk_run (local_host lib ctx fresh) start (snd (disk_initialize 0 drives_start)) qs (last_op ctx, d0)
      = Inr (map (Pair RES_OK) (fst (disk_spec_run start qs (cells v d))), s')
    \<and> cells v (snd s') = snd (disk_spec_run start qs (cells v d))"
proof -
  have "plain_flash lib good v mode decode fs m ctx fresh (last_op ctx, d0)"
    using local_inv_init(1) [OF l s d i n] plain by (simp add: plain_flash_def)
  moreover have "snd (disk_initialize 0 drives_start) ! 0 = 0"
    by (simp add: disk_initialize_def drives_start_def FF_VOLUMES_def STA_NOINIT_def)
  ultimately show ?thesis
    using fat_flash.run_ok [OF _ x _ start] local_inv_init(2) [OF l s d i n] by fastforce
qed

text \<open>A drive that is not initialised, protected or unknown is refused, and the flash not touched.\<close>

lemma disk_refused:
  "disk_read h start 0 buff k n drives_start s = Inr (RES_NOTRDY, buff, s)"
  "disk_write h start 0 buff k n drives_start s = Inr (RES_NOTRDY, s)"
  "pdrv \<noteq> 0 \<Longrightarrow> disk_read h start pdrv buff k n ds s = Inr (RES_PARERR, buff, s)"
  "pdrv \<noteq> 0 \<Longrightarrow> disk_write h start pdrv buff k n ds s = Inr (RES_PARERR, s)"
  "ds ! 0 = STA_PROTECT \<Longrightarrow> disk_write h start 0 buff k n ds s = Inr (RES_WRPRT, s)"
  by (simp_all add: disk_read_def disk_write_def drives_start_def FF_VOLUMES_def STA_NOINIT_def STA_PROTECT_def
      not_protected_def)

text \<open>
  The number of sectors that \<open>disk_ioctl\<close> gives is that of the whole flash: a disk that begins at
  \<open>start\<close> does not have the last of them, and the result of a command it does not know is RES_OK.
\<close>

lemma disk_ioctl_counts_whole_flash:
  assumes "4096 \<le> start" and "4096 dvd fs" and "disk_ioctl fs 0 GET_SECTOR_COUNT [0] = (RES_OK, Some n)" and "0 < n"
    and "unat k = n - 1"
  shows "\<not> disk_in_range start fs (Disk_read buff k 1)"
  using assms by (auto simp: disk_ioctl_def not_protected_def QSPI_FLASH_SECTOR_SIZE_def)

lemma disk_ioctl_unknown: "disk_ioctl fs 0 Other_ioctl [0] = (RES_OK, None)"
  by (simp add: disk_ioctl_def not_protected_def)

definition chip_slow_ctx :: "unit qspi_ctx" where
  "chip_slow_ctx =
     \<lparr>qspi_spec = (), flash_size = chip_size, calibration_valid = False, last_op = FLASH_OP_NONE,
      read = qspi_flash_local_read_ptr, read_mode = qspi_flash_local_read_mode_ptr\<rparr>"

lemma chip_init: "rtos_qspi_flash_init chip_lib None fresh_chip = Inr (chip_slow_ctx, used_chip)"
  by (simp add: rtos_qspi_flash_init_def init_common_def chip_lib_def chip_api_def
      fresh_chip_def used_chip_def chip_slow_ctx_def Let_def QSPI_ERASE_TYPE_SIZE_LOG2_def)

theorem fatfs_drive_is_a_disk_witness:
  "\<exists>s'. disk_run (local_host chip_lib chip_slow_ctx unset) 4096 (snd (disk_initialize 0 drives_start))
      [Disk_write (replicate 4096 7) 0 1, Disk_read (replicate 4096 0) 0 1] (last_op chip_slow_ctx, used_chip)
    = Inr (map (Pair RES_OK) (fst (disk_spec_run 4096
        [Disk_write (replicate 4096 7) 0 1, Disk_read (replicate 4096 0) 0 1] (cells chip_view fresh_chip))), s')
    \<and> cells chip_view (snd s') = snd (disk_spec_run 4096
        [Disk_write (replicate 4096 7) 0 1, Disk_read (replicate 4096 0) 0 1] (cells chip_view fresh_chip))"
  by (rule fatfs_drive_is_a_disk [where m = transfer_raw, OF chip_lib_ok _ _ _ disjI1 [OF chip_init]])
    (simp_all add: fresh_chip_def used_chip_def chip_view_def chip_size_def read_conv_def chip_slow_ctx_def)

end
