(* ===== verification/Msc_Disk.thy ===== *)
theory Msc_Disk
  imports Disk
begin

text \<open>
  The disks of USB mass storage (modules/sw_services/usb/msc): the table of disks with the callbacks
  of TinyUSB on it (msc_disk_manager.c), and the two kinds of disk, in the QSPI flash
  (msc_flashdisk.c) and in memory (msc_ramdisk.c). MSC_MAX_DISKS is the length of the table. The
  function pointers other than \<open>init\<close> are called without a test, so they are functions here; what a
  disk's \<open>args\<close> point to is a value, and \<open>'s\<close> is the state the functions of the disks work on.
\<close>

record 'a disk_data =
  starting_addr :: u32
  block_count :: u32
  block_size :: u16
  vid :: "byte list"
  pid :: "byte list"
  rev_str :: "byte list"
  have_been_init :: bool
  disk_mutex :: bool
  disk_args :: 'a

record ('a, 's) disk_fns =
  init_fn :: "('a disk_data \<Rightarrow> 's \<Rightarrow> (bool \<times> 's) res) option"
  ready_fn :: "'a disk_data \<Rightarrow> 's \<Rightarrow> (bool \<times> 's) res"
  start_stop_fn :: "'a disk_data \<Rightarrow> byte \<Rightarrow> bool \<Rightarrow> bool \<Rightarrow> 's \<Rightarrow> (bool \<times> 's) res"
  read_fn :: "'a disk_data \<Rightarrow> byte list \<Rightarrow> u32 \<Rightarrow> u32 \<Rightarrow> u32 \<Rightarrow> 's \<Rightarrow> (32 word \<times> byte list \<times> 's) res"
  write_fn :: "'a disk_data \<Rightarrow> byte list \<Rightarrow> u32 \<Rightarrow> u32 \<Rightarrow> u32 \<Rightarrow> 's \<Rightarrow> (32 word \<times> 's) res"
  scsi_fn :: "'a disk_data \<Rightarrow> byte \<Rightarrow> byte list \<Rightarrow> byte list \<Rightarrow> u16 \<Rightarrow> 's \<Rightarrow> (32 word \<times> byte list \<times> 's) res"

type_synonym ('a, 's) disk_desc = "'a disk_data \<times> ('a, 's) disk_fns"
type_synonym ('a, 's) msc = "('a, 's) disk_desc list \<times> 's"

section \<open>The table\<close>

text \<open>A pointer's string is the list of its characters before the terminating zero.\<close>

definition add_disk ::
  "u32 \<Rightarrow> u32 \<Rightarrow> u32 \<Rightarrow> u16 \<Rightarrow> byte list \<Rightarrow> byte list \<Rightarrow> byte list \<Rightarrow> ('a, 's) disk_fns \<Rightarrow> 'a \<Rightarrow> ('a, 's) msc
     \<Rightarrow> (bool \<times> ('a, 's) msc) res" where
  "add_disk lun addr blocks bytes v p r fns args m =
     (case m of (disks, s) \<Rightarrow>
       if unat lun < length disks then
         if length v > 8 \<or> length p > 16 \<or> length r > 4 then Inr (False, m)
         else let d = (fst (disks ! unat lun))\<lparr>starting_addr := addr, block_count := blocks, block_size := bytes,
                        vid := v, pid := p, rev_str := r, disk_mutex := False, disk_args := args\<rparr> in
              rbind (case init_fn fns of None \<Rightarrow> Inr (True, s) | Some f \<Rightarrow> f d s) (\<lambda>(retval, s').
                Inr (retval, disks[unat lun := (d\<lparr>have_been_init := True\<rparr>, fns)], s'))
       else Inl Assert_failed)"

text \<open>
  What the callbacks share: the number of the disk and its initialisation are asserted, and the
  disk's function is called with its mutex held. The mutex is not recursive.
\<close>

definition disk_lock :: "nat \<Rightarrow> ('a, 's) disk_desc list \<Rightarrow> ('a, 's) disk_desc list res" where
  "disk_lock i disks =
     (case disks ! i of (d, fns) \<Rightarrow>
       if disk_mutex d then Inl Never_returns else Inr (disks[i := (d\<lparr>disk_mutex := True\<rparr>, fns)]))"

definition disk_unlock :: "nat \<Rightarrow> ('a, 's) disk_desc list \<Rightarrow> ('a, 's) disk_desc list" where
  "disk_unlock i disks = (case disks ! i of (d, fns) \<Rightarrow> disks[i := (d\<lparr>disk_mutex := False\<rparr>, fns)])"

definition with_disk ::
  "byte \<Rightarrow> ('a disk_data \<Rightarrow> ('a, 's) disk_fns \<Rightarrow> 's \<Rightarrow> ('r \<times> 's) res) \<Rightarrow> ('a, 's) msc \<Rightarrow> ('r \<times> ('a, 's) msc) res" where
  "with_disk lun f m =
     (case m of (disks, s) \<Rightarrow>
       if unat lun < length disks then
         if have_been_init (fst (disks ! unat lun)) then
           rbind (disk_lock (unat lun) disks) (\<lambda>disks'.
           rbind (f (fst (disks' ! unat lun)) (snd (disks' ! unat lun)) s) (\<lambda>(r, s').
             Inr (r, disk_unlock (unat lun) disks', s')))
         else Inl Assert_failed
       else Inl Assert_failed)"

definition tud_msc_get_maxlun_cb :: "('a, 's) msc \<Rightarrow> byte" where
  "tud_msc_get_maxlun_cb m = of_nat (length (fst m))"

text \<open>Here neither the number nor the initialisation is asserted. The buffers are those of the caller.\<close>

definition tud_msc_inquiry_cb ::
  "byte \<Rightarrow> byte list \<Rightarrow> byte list \<Rightarrow> byte list \<Rightarrow> ('a, 's) msc
     \<Rightarrow> ((byte list \<times> byte list \<times> byte list) \<times> ('a, 's) msc) res" where
  "tud_msc_inquiry_cb lun vendor_id product_id product_rev m =
     (if unat lun < length (fst m) then
        if have_been_init (fst (fst m ! unat lun)) then
          with_disk lun (\<lambda>d _ s.
            rbind (write_mem vendor_id (vid d)) (\<lambda>vendor_id'.
            rbind (write_mem product_id (pid d)) (\<lambda>product_id'.
            rbind (write_mem product_rev (rev_str d)) (\<lambda>product_rev'.
              Inr ((vendor_id', product_id', product_rev'), s))))) m
        else Inr ((vendor_id, product_id, product_rev), m)
      else rbind (write_mem vendor_id (replicate 8 0)) (\<lambda>vendor_id'.
           rbind (write_mem product_id (replicate 16 0)) (\<lambda>product_id'.
           rbind (write_mem product_rev (replicate 12 0)) (\<lambda>product_rev'.
             Inr ((vendor_id', product_id', product_rev'), m)))))"

definition tud_msc_test_unit_ready_cb :: "byte \<Rightarrow> ('a, 's) msc \<Rightarrow> (bool \<times> ('a, 's) msc) res" where
  "tud_msc_test_unit_ready_cb lun = with_disk lun (\<lambda>d fns. ready_fn fns d)"

definition tud_msc_capacity_cb :: "byte \<Rightarrow> ('a, 's) msc \<Rightarrow> ((u32 \<times> u16) \<times> ('a, 's) msc) res" where
  "tud_msc_capacity_cb lun = with_disk lun (\<lambda>d fns s. Inr ((block_count d, block_size d), s))"

definition tud_msc_start_stop_cb :: "byte \<Rightarrow> byte \<Rightarrow> bool \<Rightarrow> bool \<Rightarrow> ('a, 's) msc \<Rightarrow> (bool \<times> ('a, 's) msc) res" where
  "tud_msc_start_stop_cb lun power_condition start load_eject =
     with_disk lun (\<lambda>d fns. start_stop_fn fns d power_condition start load_eject)"

definition tud_msc_read10_cb ::
  "byte \<Rightarrow> u32 \<Rightarrow> u32 \<Rightarrow> byte list \<Rightarrow> u32 \<Rightarrow> ('a, 's) msc \<Rightarrow> ((32 word \<times> byte list) \<times> ('a, 's) msc) res" where
  "tud_msc_read10_cb lun lba offset buffer bufsize =
     with_disk lun (\<lambda>d fns s. rbind (read_fn fns d buffer lba offset bufsize s) (\<lambda>(r, b, s'). Inr ((r, b), s')))"

definition tud_msc_write10_cb ::
  "byte \<Rightarrow> u32 \<Rightarrow> u32 \<Rightarrow> byte list \<Rightarrow> u32 \<Rightarrow> ('a, 's) msc \<Rightarrow> (32 word \<times> ('a, 's) msc) res" where
  "tud_msc_write10_cb lun lba offset buffer bufsize =
     with_disk lun (\<lambda>d fns. write_fn fns d buffer lba offset bufsize)"

definition tud_msc_scsi_cb ::
  "byte \<Rightarrow> byte list \<Rightarrow> byte list \<Rightarrow> u16 \<Rightarrow> ('a, 's) msc \<Rightarrow> ((32 word \<times> byte list) \<times> ('a, 's) msc) res" where
  "tud_msc_scsi_cb lun scsi_cmd buffer bufsize =
     with_disk lun (\<lambda>d fns s. rbind (scsi_fn fns d lun buffer scsi_cmd bufsize s) (\<lambda>(r, b, s'). Inr ((r, b), s')))"

section \<open>The disk in the flash\<close>

text \<open>
  \<open>args\<close> is the flash driver. Addresses are 32-bit numbers. The SCSI commands, which TinyUSB numbers
  as SCSI does, differ in the sense that TinyUSB is given, \<open>set_sense\<close>.
\<close>

definition block_addr :: "'a disk_data \<Rightarrow> u32 \<Rightarrow> u32" where
  "block_addr d lba = starting_addr d + lba * ucast (block_size d)"

definition qspi_flash_disk_init :: "'s flash_host disk_data \<Rightarrow> 's \<Rightarrow> (bool \<times> 's) res" where
  "qspi_flash_disk_init d s = Inr (True, s)"

definition qspi_flash_disk_ready :: "'s flash_host disk_data \<Rightarrow> 's \<Rightarrow> (bool \<times> 's) res" where
  "qspi_flash_disk_ready d s = Inr (True, s)"

definition qspi_flash_disk_start_stop ::
  "'s flash_host disk_data \<Rightarrow> byte \<Rightarrow> bool \<Rightarrow> bool \<Rightarrow> 's \<Rightarrow> (bool \<times> 's) res" where
  "qspi_flash_disk_start_stop d power_condition start load_eject s = Inr (True, s)"

definition qspi_flash_disk_read ::
  "'s flash_host disk_data \<Rightarrow> byte list \<Rightarrow> u32 \<Rightarrow> u32 \<Rightarrow> u32 \<Rightarrow> 's \<Rightarrow> (32 word \<times> byte list \<times> 's) res" where
  "qspi_flash_disk_read d buffer lba offset bufsize s =
     (let n = unat bufsize in
      if length buffer < n then Inl Bad_access
      else rbind (exec (disk_args d) (Read (take n buffer) (unat (block_addr d lba + offset)) n) s) (\<lambda>(out, s').
             Inr (bufsize, out @ drop n buffer, s')))"

definition qspi_flash_disk_write ::
  "'s flash_host disk_data \<Rightarrow> byte list \<Rightarrow> u32 \<Rightarrow> u32 \<Rightarrow> u32 \<Rightarrow> 's \<Rightarrow> (32 word \<times> 's) res" where
  "qspi_flash_disk_write d buffer lba offset bufsize s =
     (let h = disk_args d; addr = unat (block_addr d lba); tmp_buf = heap h QSPI_FLASH_SECTOR_SIZE in
      xassert (unat bufsize \<le> QSPI_FLASH_SECTOR_SIZE)
        (rbind (host_lock h s) (\<lambda>s1.
         rbind (exec h (Read tmp_buf addr QSPI_FLASH_SECTOR_SIZE) s1) (\<lambda>(tmp, s2).
         if length buffer < unat bufsize \<or> length tmp < unat offset + unat bufsize then Inl Bad_access
         else let tmp' = put_at tmp (unat offset) (take (unat bufsize) buffer) in
         rbind (exec h (Erase addr QSPI_FLASH_SECTOR_SIZE) s2) (\<lambda>(_, s3).
         rbind (exec h (Write tmp' addr QSPI_FLASH_SECTOR_SIZE) s3) (\<lambda>(_, s4).
         rbind (host_unlock h s4) (\<lambda>s5. Inr (bufsize, s5))))))))"

definition SCSI_CMD_PREVENT_ALLOW_MEDIUM_REMOVAL :: byte where "SCSI_CMD_PREVENT_ALLOW_MEDIUM_REMOVAL = 0x1E"
definition SCSI_CMD_START_STOP_UNIT :: byte where "SCSI_CMD_START_STOP_UNIT = 0x1B"
definition SCSI_SENSE_ILLEGAL_REQUEST :: byte where "SCSI_SENSE_ILLEGAL_REQUEST = 0x05"

definition qspi_flash_disk_scsi_command ::
  "(byte \<Rightarrow> byte \<Rightarrow> byte \<Rightarrow> byte \<Rightarrow> 's \<Rightarrow> 's) \<Rightarrow> 's flash_host disk_data \<Rightarrow> byte \<Rightarrow> byte list \<Rightarrow> byte list \<Rightarrow> u16 \<Rightarrow> 's
     \<Rightarrow> (32 word \<times> byte list \<times> 's) res" where
  "qspi_flash_disk_scsi_command set_sense d lun buffer scsi_cmd bufsize s =
     (if scsi_cmd = [] then Inl Bad_access
      else if scsi_cmd ! 0 = SCSI_CMD_PREVENT_ALLOW_MEDIUM_REMOVAL \<or> scsi_cmd ! 0 = SCSI_CMD_START_STOP_UNIT
      then Inr (ucast (0 :: u16), buffer, s)
      else Inr (ucast (- 1 :: u16), buffer, set_sense lun SCSI_SENSE_ILLEGAL_REQUEST 0x20 0x00 s))"

section \<open>The disk in memory\<close>

text \<open>The memory is a map of the addresses that exist.\<close>

type_synonym memory = "u32 \<Rightarrow> byte option"

definition ram_disk_init :: "'a disk_data \<Rightarrow> memory \<Rightarrow> (bool \<times> memory) res" where
  "ram_disk_init d s = Inr (True, s)"

definition ram_disk_ready :: "'a disk_data \<Rightarrow> memory \<Rightarrow> (bool \<times> memory) res" where
  "ram_disk_ready d s = Inr (True, s)"

definition ram_disk_start_stop ::
  "'a disk_data \<Rightarrow> byte \<Rightarrow> bool \<Rightarrow> bool \<Rightarrow> memory \<Rightarrow> (bool \<times> memory) res" where
  "ram_disk_start_stop d power_condition start load_eject s = Inr (True, s)"

definition ram_disk_read ::
  "'a disk_data \<Rightarrow> byte list \<Rightarrow> u32 \<Rightarrow> u32 \<Rightarrow> u32 \<Rightarrow> memory \<Rightarrow> (32 word \<times> byte list \<times> memory) res" where
  "ram_disk_read d buffer lba offset bufsize s =
     (let addr = block_addr d lba + offset; bs = map (\<lambda>i. s (addr + of_nat i)) [0..<unat bufsize] in
      if length buffer < unat bufsize \<or> None \<in> set bs then Inl Bad_access
      else Inr (bufsize, map the bs @ drop (unat bufsize) buffer, s))"

fun store_bytes :: "u32 \<Rightarrow> byte list \<Rightarrow> memory \<Rightarrow> memory res" where
  "store_bytes a [] s = Inr s"
| "store_bytes a (b # bs) s = (if s a = None then Inl Bad_access else store_bytes (a + 1) bs (s(a \<mapsto> b)))"

definition ram_disk_write ::
  "'a disk_data \<Rightarrow> byte list \<Rightarrow> u32 \<Rightarrow> u32 \<Rightarrow> u32 \<Rightarrow> memory \<Rightarrow> (32 word \<times> memory) res" where
  "ram_disk_write d buffer lba offset bufsize s =
     (if length buffer < unat bufsize then Inl Bad_access
      else rbind (store_bytes (block_addr d lba + offset) (take (unat bufsize) buffer) s) (\<lambda>s'. Inr (bufsize, s')))"

definition ram_disk_scsi_command ::
  "(byte \<Rightarrow> byte \<Rightarrow> byte \<Rightarrow> byte \<Rightarrow> memory \<Rightarrow> memory) \<Rightarrow> 'a disk_data \<Rightarrow> byte \<Rightarrow> byte list \<Rightarrow> byte list \<Rightarrow> u16 \<Rightarrow> memory
     \<Rightarrow> (32 word \<times> byte list \<times> memory) res" where
  "ram_disk_scsi_command set_sense d lun buffer scsi_cmd bufsize s =
     (if scsi_cmd = [] then Inl Bad_access
      else if scsi_cmd ! 0 = SCSI_CMD_PREVENT_ALLOW_MEDIUM_REMOVAL \<or> scsi_cmd ! 0 = SCSI_CMD_START_STOP_UNIT
      then Inr (ucast (0 :: u16), buffer, s)
      else Inr (ucast (- 1 :: u16), buffer, set_sense lun SCSI_SENSE_ILLEGAL_REQUEST 0x20 0x00 s))"

section \<open>Independent disks of bytes\<close>

text \<open>
  What the host asks for in data transfers, with the buffer of TinyUSB; and the disks as the host
  sees them, one list of bytes for each number.
\<close>

datatype msc_req = Read10 byte u32 u32 "byte list" u32 | Write10 byte u32 u32 "byte list" u32

fun msc_exec :: "msc_req \<Rightarrow> ('a, 's) msc \<Rightarrow> ((32 word \<times> byte list) \<times> ('a, 's) msc) res" where
  "msc_exec (Read10 lun lba offset buf n) m = tud_msc_read10_cb lun lba offset buf n m"
| "msc_exec (Write10 lun lba offset buf n) m =
     rbind (tud_msc_write10_cb lun lba offset buf n m) (\<lambda>(r, m'). Inr ((r, buf), m'))"

fun msc_run :: "msc_req list \<Rightarrow> ('a, 's) msc \<Rightarrow> ((32 word \<times> byte list) list \<times> ('a, 's) msc) res" where
  "msc_run [] m = Inr ([], m)"
| "msc_run (q # qs) m =
     rbind (msc_exec q m) (\<lambda>(r, m1). rbind (msc_run qs m1) (\<lambda>(rs, m2). Inr (r # rs, m2)))"

definition disk_pos :: "'a disk_data \<Rightarrow> u32 \<Rightarrow> u32 \<Rightarrow> nat" where
  "disk_pos d lba offset = unat lba * unat (block_size d) + unat offset"

definition disk_size :: "'a disk_data \<Rightarrow> nat" where
  "disk_size d = unat (block_count d) * unat (block_size d)"

fun luns_exec :: "('a, 's) disk_desc list \<Rightarrow> msc_req \<Rightarrow> byte list list \<Rightarrow> (32 word \<times> byte list) \<times> byte list list" where
  "luns_exec ds (Read10 lun lba offset buf n) ls =
     ((n, take (unat n) (drop (disk_pos (fst (ds ! unat lun)) lba offset) (ls ! unat lun)) @ drop (unat n) buf), ls)"
| "luns_exec ds (Write10 lun lba offset buf n) ls =
     ((n, buf), ls[unat lun :=
        put_at (ls ! unat lun) (disk_pos (fst (ds ! unat lun)) lba offset) (take (unat n) buf)])"

fun luns_run :: "('a, 's) disk_desc list \<Rightarrow> msc_req list \<Rightarrow> byte list list \<Rightarrow> (32 word \<times> byte list) list \<times> byte list list" where
  "luns_run ds [] ls = ([], ls)"
| "luns_run ds (q # qs) ls =
     (let (r, ls1) = luns_exec ds q ls; (rs, ls2) = luns_run ds qs ls1 in (r # rs, ls2))"

text \<open>
  Each disk is a range of a medium of bytes. A request names a disk of the table and stays inside
  it; \<open>whole\<close> is what a kind of disk needs of a write besides.
\<close>

definition disk_bytes :: "(nat \<Rightarrow> byte) \<Rightarrow> 'a disk_data \<Rightarrow> byte list" where
  "disk_bytes c d = map c [unat (starting_addr d)..<unat (starting_addr d) + disk_size d]"

definition overwrite :: "nat \<Rightarrow> byte list \<Rightarrow> (nat \<Rightarrow> byte) \<Rightarrow> nat \<Rightarrow> byte" where
  "overwrite a bs c x = (if a \<le> x \<and> x < a + length bs then bs ! (x - a) else c x)"

definition in_disk :: "'a disk_data \<Rightarrow> u32 \<Rightarrow> u32 \<Rightarrow> byte list \<Rightarrow> u32 \<Rightarrow> bool" where
  "in_disk d lba offset buf n \<longleftrightarrow> disk_pos d lba offset + unat n \<le> disk_size d \<and> unat n \<le> length buf"

fun msc_in_range :: "(u32 \<Rightarrow> u32 \<Rightarrow> bool) \<Rightarrow> ('a, 's) disk_desc list \<Rightarrow> msc_req \<Rightarrow> bool" where
  "msc_in_range whole ds (Read10 lun lba offset buf n) \<longleftrightarrow>
     unat lun < length ds \<and> in_disk (fst (ds ! unat lun)) lba offset buf n"
| "msc_in_range whole ds (Write10 lun lba offset buf n) \<longleftrightarrow>
     unat lun < length ds \<and> in_disk (fst (ds ! unat lun)) lba offset buf n \<and> whole offset n"

definition apart :: "'a disk_data \<Rightarrow> 'a disk_data \<Rightarrow> bool" where
  "apart d d' \<longleftrightarrow> unat (starting_addr d) + disk_size d \<le> unat (starting_addr d')
     \<or> unat (starting_addr d') + disk_size d' \<le> unat (starting_addr d)"

definition msc_table_ok :: "(('a, 's) disk_desc \<Rightarrow> bool) \<Rightarrow> ('a, 's) disk_desc list \<Rightarrow> bool" where
  "msc_table_ok ok ds \<longleftrightarrow>
     (\<forall>p \<in> set ds. ok p \<and> have_been_init (fst p) \<and> \<not> disk_mutex (fst p)) \<and>
     (\<forall>i < length ds. \<forall>j < length ds. i \<noteq> j \<longrightarrow> apart (fst (ds ! i)) (fst (ds ! j)))"

lemma disk_bytes_read:
  assumes "in_disk d lba offset buf n"
  shows "take (unat n) (drop (disk_pos d lba offset) (disk_bytes c d))
    = map c [unat (starting_addr d) + disk_pos d lba offset..<unat (starting_addr d) + disk_pos d lba offset + unat n]"
  using assms by (simp add: disk_bytes_def in_disk_def drop_map take_map)

lemma disk_bytes_overwrite:
  assumes "p + length bs \<le> disk_size d"
  shows "disk_bytes (overwrite (unat (starting_addr d) + p) bs c) d = put_at (disk_bytes c d) p bs"
  using assms
  by (intro nth_equalityI) (auto simp: disk_bytes_def overwrite_def nth_put_at)

lemma disk_bytes_apart:
  assumes "apart d d'" and "p + length bs \<le> disk_size d"
  shows "disk_bytes (overwrite (unat (starting_addr d) + p) bs c) d' = disk_bytes c d'"
  using assms by (auto simp: disk_bytes_def overwrite_def apart_def)

lemma sector_overwrite:
  assumes "k + length bs \<le> n"
  shows "(if a \<le> x \<and> x < a + n then put_at (map c [a..<a + n]) k bs ! (x - a) else c x) = overwrite (a + k) bs c x"
proof (cases "a \<le> x \<and> x < a + n")
  case True
  then obtain j where "x = a + j" "j < n" by (metis le_iff_add nat_add_left_cancel_less)
  with assms show ?thesis by (auto simp: overwrite_def nth_put_at)
next
  case False
  with assms show ?thesis by (auto simp: overwrite_def)
qed

lemma map_overwrite:
  assumes "msc_table_ok ok ds" and "i < length ds" and "p + length bs \<le> disk_size (fst (ds ! i))"
  shows "map (\<lambda>q. disk_bytes (overwrite (unat (starting_addr (fst (ds ! i))) + p) bs c) (fst q)) ds
    = (map (\<lambda>q. disk_bytes c (fst q)) ds)[i := put_at (disk_bytes c (fst (ds ! i))) p bs]"
proof (rule nth_equalityI)
  fix j assume "j < length (map (\<lambda>q. disk_bytes (overwrite (unat (starting_addr (fst (ds ! i))) + p) bs c) (fst q)) ds)"
  then have j: "j < length ds" by simp
  show "map (\<lambda>q. disk_bytes (overwrite (unat (starting_addr (fst (ds ! i))) + p) bs c) (fst q)) ds ! j
    = (map (\<lambda>q. disk_bytes c (fst q)) ds)[i := put_at (disk_bytes c (fst (ds ! i))) p bs] ! j"
  proof (cases "j = i")
    case True
    with j assms(3) show ?thesis by (simp add: disk_bytes_overwrite)
  next
    case False
    with j assms have "apart (fst (ds ! i)) (fst (ds ! j))" by (auto simp: msc_table_ok_def)
    with False j assms(3) show ?thesis by (simp add: disk_bytes_apart)
  qed
qed simp

text \<open>The contract of a kind of disk: its read and write functions on the medium.\<close>

locale msc_disks =
  fixes ok :: "('a, 's) disk_desc \<Rightarrow> bool" and inv :: "'s \<Rightarrow> bool" and content :: "'s \<Rightarrow> nat \<Rightarrow> byte"
    and whole :: "u32 \<Rightarrow> u32 \<Rightarrow> bool"
  assumes disk_read: "inv s \<Longrightarrow> ok (d, f) \<Longrightarrow> in_disk d lba offset buf n \<Longrightarrow>
      \<exists>s'. read_fn f d buf lba offset n s = Inr (n, map (content s) [unat (starting_addr d) + disk_pos d lba offset..<
            unat (starting_addr d) + disk_pos d lba offset + unat n] @ drop (unat n) buf, s')
        \<and> inv s' \<and> content s' = content s"
    and disk_write: "inv s \<Longrightarrow> ok (d, f) \<Longrightarrow> in_disk d lba offset buf n \<Longrightarrow> whole offset n \<Longrightarrow>
      \<exists>s'. write_fn f d buf lba offset n s = Inr (n, s') \<and> inv s'
        \<and> content s' = overwrite (unat (starting_addr d) + disk_pos d lba offset) (take (unat n) buf) (content s)"
    and mutex: "ok (d\<lparr>disk_mutex := b\<rparr>, f) \<longleftrightarrow> ok (d, f)"
begin

lemma with_disk_ok:
  assumes "msc_table_ok ok ds" and "unat lun < length ds" and "ds ! unat lun = (d, f)"
  shows "with_disk lun g (ds, s) = rbind (g (d\<lparr>disk_mutex := True\<rparr>) f s) (\<lambda>(r, s'). Inr (r, ds, s'))"
    and "ok (d\<lparr>disk_mutex := True\<rparr>, f)"
proof -
  have "(d, f) \<in> set ds" using assms(2,3) by (metis nth_mem)
  with assms(1) have o: "ok (d, f)" "have_been_init d" "\<not> disk_mutex d" by (auto simp: msc_table_ok_def)
  then have "d\<lparr>disk_mutex := False\<rparr> = d" by simp
  then have "ds[unat lun := (d\<lparr>disk_mutex := False\<rparr>, f)] = ds" using assms(3) by (metis list_update_id)
  with assms(2,3) o show "with_disk lun g (ds, s) = rbind (g (d\<lparr>disk_mutex := True\<rparr>) f s) (\<lambda>(r, s'). Inr (r, ds, s'))"
    by (simp add: with_disk_def disk_lock_def disk_unlock_def)
  show "ok (d\<lparr>disk_mutex := True\<rparr>, f)" using o(1) by (simp add: mutex)
qed

lemma exec_ok:
  assumes i: "inv s" and t: "msc_table_ok ok ds" and q: "msc_in_range whole ds q"
  shows "\<exists>s'. msc_exec q (ds, s) = Inr (fst (luns_exec ds q (map (\<lambda>p. disk_bytes (content s) (fst p)) ds)), (ds, s'))
    \<and> inv s'
    \<and> map (\<lambda>p. disk_bytes (content s') (fst p)) ds = snd (luns_exec ds q (map (\<lambda>p. disk_bytes (content s) (fst p)) ds))"
proof -
  have m: "disk_pos (d\<lparr>disk_mutex := b\<rparr>) = disk_pos d" "disk_size (d\<lparr>disk_mutex := b\<rparr>) = disk_size d"
    for d :: "'a disk_data" and b by (simp_all add: disk_pos_def disk_size_def fun_eq_iff)
  show ?thesis
  proof (cases q)
    case (Read10 lun lba offset buf n)
    obtain d f where df: "ds ! unat lun = (d, f)" by force
    have r: "in_disk d lba offset buf n" "unat lun < length ds" using q Read10 df by auto
    note w = with_disk_ok [OF t r(2) df]
    show ?thesis
      using disk_read [OF i w(2), of lba offset buf n] Read10 r df
      by (auto simp: w(1) tud_msc_read10_cb_def in_disk_def m disk_bytes_read)
  next
    case (Write10 lun lba offset buf n)
    obtain d f where df: "ds ! unat lun = (d, f)" by force
    have r: "in_disk d lba offset buf n" "unat lun < length ds" "whole offset n" using q Write10 df by auto
    note w = with_disk_ok [OF t r(2) df]
    have "map (\<lambda>p. disk_bytes (overwrite (unat (starting_addr d) + disk_pos d lba offset) (take (unat n) buf)
        (content s)) (fst p)) ds
      = (map (\<lambda>p. disk_bytes (content s) (fst p)) ds)[unat lun :=
          put_at (disk_bytes (content s) d) (disk_pos d lba offset) (take (unat n) buf)]"
      using map_overwrite [OF t r(2), of "disk_pos d lba offset" "take (unat n) buf" "content s"] df r(1)
      by (simp add: in_disk_def min_def)
    moreover obtain s' where "write_fn f (d\<lparr>disk_mutex := True\<rparr>) buf lba offset n s = Inr (n, s')" "inv s'"
      "content s' = overwrite (unat (starting_addr d) + disk_pos d lba offset) (take (unat n) buf) (content s)"
      using disk_write [OF i w(2), of lba offset buf n] r by (auto simp: in_disk_def m)
    ultimately show ?thesis
      using Write10 r df by (simp add: w(1) tud_msc_write10_cb_def)
  qed
qed

lemma run_ok:
  assumes "inv s" and "msc_table_ok ok ds" and "list_all (msc_in_range whole ds) qs"
  shows "\<exists>s'. msc_run qs (ds, s) = Inr (fst (luns_run ds qs (map (\<lambda>p. disk_bytes (content s) (fst p)) ds)), (ds, s'))
    \<and> inv s'
    \<and> map (\<lambda>p. disk_bytes (content s') (fst p)) ds = snd (luns_run ds qs (map (\<lambda>p. disk_bytes (content s) (fst p)) ds))"
  using assms(1,3)
proof (induction qs arbitrary: s)
  case (Cons q qs)
  obtain s1 where s1: "msc_exec q (ds, s) = Inr (fst (luns_exec ds q (map (\<lambda>p. disk_bytes (content s) (fst p)) ds)), (ds, s1))"
    "inv s1" "map (\<lambda>p. disk_bytes (content s1) (fst p)) ds = snd (luns_exec ds q (map (\<lambda>p. disk_bytes (content s) (fst p)) ds))"
    using exec_ok [OF Cons.prems(1) assms(2), of q] Cons.prems(2) by auto
  from Cons.IH [OF s1(2)] Cons.prems(2) s1(1,3) show ?case by (auto simp: case_prod_unfold Let_def)
qed simp

end

lemma block_addr_eq:
  assumes "unat (starting_addr d) + disk_pos d lba offset < 2 ^ 32"
  shows "unat (block_addr d lba) = unat (starting_addr d) + unat lba * unat (block_size d)"
    and "unat (block_addr d lba + offset) = unat (starting_addr d) + disk_pos d lba offset"
proof -
  have "unat (ucast (block_size d) :: u32) = unat (block_size d)"
    using unsigned_less [of "block_size d", where ?'a = nat] by (simp add: unsigned_ucast_eq take_bit_nat_eq_self)
  then have "unat (lba * ucast (block_size d) :: u32) = unat lba * unat (block_size d)"
    using assms by (simp add: disk_pos_def unat_word_ariths)
  then show b: "unat (block_addr d lba) = unat (starting_addr d) + unat lba * unat (block_size d)"
    using assms by (simp add: block_addr_def disk_pos_def unat_word_ariths)
  then show "unat (block_addr d lba + offset) = unat (starting_addr d) + disk_pos d lba offset"
    using assms by (simp add: disk_pos_def unat_word_ariths)
qed

section \<open>Disks in the flash\<close>

text \<open>
  A write takes a whole block of a sector out of the flash, so blocks are sectors and a write stays in
  one. TinyUSB hands over at most one of its buffers, which is to be no longer than a block.
\<close>

definition flash_desc_ok :: "'s flash_host \<Rightarrow> nat \<Rightarrow> ('s flash_host, 's) disk_desc \<Rightarrow> bool" where
  "flash_desc_ok h fs p \<longleftrightarrow>
     read_fn (snd p) = qspi_flash_disk_read \<and> write_fn (snd p) = qspi_flash_disk_write \<and>
     disk_args (fst p) = h \<and> block_size (fst p) = 4096 \<and> 4096 dvd unat (starting_addr (fst p)) \<and>
     unat (starting_addr (fst p)) + disk_size (fst p) \<le> fs"

definition flash_whole :: "u32 \<Rightarrow> u32 \<Rightarrow> bool" where
  "flash_whole offset n \<longleftrightarrow> 0 < n \<and> unat offset + unat n \<le> 4096"

context flash_disk
begin

lemma flash_read:
  assumes "inv s" and "flash_desc_ok h fs (d, f)" and "in_disk d lba offset buf n"
  shows "\<exists>s'. read_fn f d buf lba offset n s = Inr (n, map (content s) [unat (starting_addr d) + disk_pos d lba offset..<
            unat (starting_addr d) + disk_pos d lba offset + unat n] @ drop (unat n) buf, s')
        \<and> inv s' \<and> content s' = content s"
proof -
  have f: "unat (starting_addr d) + disk_pos d lba offset + unat n \<le> fs" and b: "unat n \<le> length buf"
    using assms(2,3) by (auto simp: flash_desc_ok_def in_disk_def)
  then have "unat (starting_addr d) + disk_pos d lba offset < 2 ^ 32" using size [OF assms(1)] by simp
  note a = block_addr_eq(2) [OF this]
  show ?thesis
    using read_plain [OF assms(1) f, of "take (unat n) buf"] b assms(2)
    by (auto simp: flash_desc_ok_def qspi_flash_disk_read_def a Let_def)
qed

lemma flash_write:
  assumes "inv s" and "flash_desc_ok h fs (d, f)" and "in_disk d lba offset buf n" and "flash_whole offset n"
  shows "\<exists>s'. write_fn f d buf lba offset n s = Inr (n, s') \<and> inv s'
    \<and> content s' = overwrite (unat (starting_addr d) + disk_pos d lba offset) (take (unat n) buf) (content s)"
proof -
  let ?a = "unat (starting_addr d) + 4096 * unat lba"
  have p: "disk_pos d lba offset = 4096 * unat lba + unat offset" "disk_size d = 4096 * unat (block_count d)"
    using assms(2) by (simp_all add: flash_desc_ok_def disk_pos_def disk_size_def)
  have o: "0 < unat n" "unat offset + unat n \<le> 4096" "unat n \<le> length buf"
    using assms(3,4) by (simp_all add: flash_whole_def in_disk_def word_less_nat_alt)
  have lba: "unat lba < unat (block_count d)" using assms(3) p o by (simp add: in_disk_def)
  then have f: "?a + 4096 \<le> fs" using assms(2) p by (simp add: flash_desc_ok_def)
  have "unat (starting_addr d) + disk_pos d lba offset < 2 ^ 32"
    using f o size [OF assms(1)] p by simp
  from block_addr_eq(1) [OF this] assms(2) have a: "unat (block_addr d lba) = ?a" by (simp add: flash_desc_ok_def)
  obtain s1 where s1: "host_lock h s = Inr s1" "inv s1" "content s1 = content s"
    using lock [OF assms(1)] by blast
  obtain s2 where s2: "exec h (Read (heap h 4096) ?a 4096) s1 = Inr (map (content s1) [?a..<?a + 4096], s2)"
    "inv s2" "content s2 = content s1"
    using read_plain [OF s1(2) f fresh [OF s1(2)]] by blast
  let ?t = "put_at (map (content s1) [?a..<?a + 4096]) (unat offset) (take (unat n) buf)"
  have t: "length ?t = 4096" using o by (simp add: min_def)
  have "4096 dvd ?a" using assms(2) by (simp add: flash_desc_ok_def)
  from erase_write [OF s2(2) this _ f, of ?t] t obtain out s3 out' s4 where s4: "exec h (Erase ?a 4096) s2 = Inr (out, s3)"
    "exec h (Write ?t ?a 4096) s3 = Inr (out', s4)" "inv s4"
    "content s4 = (\<lambda>x. if ?a \<le> x \<and> x < ?a + 4096 then ?t ! (x - ?a) else content s2 x)" by auto
  obtain s5 where s5: "host_unlock h s4 = Inr s5" "inv s5" "content s5 = content s4"
    using unlock [OF s4(3)] by blast
  have "content s4 = overwrite (unat (starting_addr d) + disk_pos d lba offset) (take (unat n) buf) (content s)"
  proof
    fix x
    have "content s1 = content s" "content s2 = content s" using s1(3) s2(3) by simp_all
    then show "content s4 x = overwrite (unat (starting_addr d) + disk_pos d lba offset) (take (unat n) buf) (content s) x"
      unfolding s4(4) using sector_overwrite [of "unat offset" "take (unat n) buf" 4096 ?a x "content s"] o p
      by (simp only: add.assoc length_take min_absorb2)
  qed
  with s1(1) s2(1) s4(1,2) s5 o assms(2) show ?thesis
    by (simp add: flash_desc_ok_def qspi_flash_disk_write_def QSPI_FLASH_SECTOR_SIZE_def a Let_def)
qed

end

sublocale flash_disk \<subseteq> msc: msc_disks "flash_desc_ok h fs" inv content flash_whole
proof
  show "flash_desc_ok h fs (d\<lparr>disk_mutex := b\<rparr>, f) = flash_desc_ok h fs (d, f)" for d b f
    by (simp add: flash_desc_ok_def disk_size_def)
qed (rule flash_read flash_write; assumption)+

text \<open>
  C31. The disks of USB mass storage in the flash are independent disks of bytes:
  initialised, with blocks of a sector, beginning with sectors, in ranges of the flash that
  do not overlap, and the flash read in a mode that leaves the bytes as they are, any
  sequence of transfers to any of them that stay inside their disk, with buffers long
  enough, and of which a write has at least one byte and stays inside one block, succeeds, a
  read gives the bytes last written to its disk, and a write changes just its bytes of its
  disk.
\<close>

theorem msc_flash_disks_are_disks:
  assumes l: "lib_ok lib good v mode decode fs"
    and s: "good (case spec of None \<Rightarrow> FL_QUADDEVICE_DEFAULT lib | Some s \<Rightarrow> s)"
    and d: "mode d = Idle" "pending v d = 0"
    and i: "rtos_qspi_flash_init lib spec d = Inr (ctx, d0)
      \<or> rtos_qspi_flash_fast_read_init lib spec m clk_div addr d = Inr (ctx, d0)"
    and n: "\<And>n. length (fresh n) = n" and plain: "\<And>b. read_conv decode ctx m b = b"
    and t: "msc_table_ok (flash_desc_ok (local_host lib ctx fresh) fs) ds"
    and q: "list_all (msc_in_range flash_whole ds) qs"
  shows "\<exists>s'. msc_run qs (ds, last_op ctx, d0)
      = Inr (fst (luns_run ds qs (map (\<lambda>p. disk_bytes (cells v d) (fst p)) ds)), (ds, s'))
    \<and> map (\<lambda>p. disk_bytes (cells v (snd s')) (fst p)) ds
      = snd (luns_run ds qs (map (\<lambda>p. disk_bytes (cells v d) (fst p)) ds))"
proof -
  have "plain_flash lib good v mode decode fs m ctx fresh (last_op ctx, d0)"
    using local_inv_init(1) [OF l s d i n] plain by (simp add: plain_flash_def)
  from fat_flash.msc.run_ok [OF this t q] local_inv_init(2) [OF l s d i n] show ?thesis by auto
qed

definition sector_disk :: "u32 \<Rightarrow> (flash_op \<times> chip) flash_host disk_data" where
  "sector_disk a =
     \<lparr>starting_addr = a, block_count = 1, block_size = 4096, vid = [0x58], pid = [0x59], rev_str = [0x31],
      have_been_init = True, disk_mutex = False, disk_args = local_host chip_lib chip_slow_ctx unset\<rparr>"

definition sector_fns :: "('s flash_host, 's) disk_fns" where
  "sector_fns =
     \<lparr>init_fn = Some qspi_flash_disk_init, ready_fn = qspi_flash_disk_ready, start_stop_fn = qspi_flash_disk_start_stop,
      read_fn = qspi_flash_disk_read, write_fn = qspi_flash_disk_write,
      scsi_fn = qspi_flash_disk_scsi_command (\<lambda>_ _ _ _ s. s)\<rparr>"

definition two_disks :: "((flash_op \<times> chip) flash_host, flash_op \<times> chip) disk_desc list" where
  "two_disks = [(sector_disk 0, sector_fns), (sector_disk 4096, sector_fns)]"

theorem msc_flash_disks_are_disks_witness:
  "\<exists>s'. msc_run [Write10 0 0 5 [1, 2, 3] 3, Read10 1 0 5 [0, 0, 0] 3] (two_disks, last_op chip_slow_ctx, used_chip)
    = Inr (fst (luns_run two_disks [Write10 0 0 5 [1, 2, 3] 3, Read10 1 0 5 [0, 0, 0] 3]
         (map (\<lambda>p. disk_bytes (cells chip_view fresh_chip) (fst p)) two_disks)), (two_disks, s'))
    \<and> map (\<lambda>p. disk_bytes (cells chip_view (snd s')) (fst p)) two_disks
      = snd (luns_run two_disks [Write10 0 0 5 [1, 2, 3] 3, Read10 1 0 5 [0, 0, 0] 3]
         (map (\<lambda>p. disk_bytes (cells chip_view fresh_chip) (fst p)) two_disks))"
proof (rule msc_flash_disks_are_disks [where m = transfer_raw and fresh = unset, OF chip_lib_ok _ _ _ disjI1 [OF chip_init]])
  show "msc_table_ok (flash_desc_ok (local_host chip_lib chip_slow_ctx unset) chip_size) two_disks"
    by (simp add: two_disks_def msc_table_ok_def flash_desc_ok_def sector_disk_def sector_fns_def disk_size_def
        chip_size_def apart_def All_less_Suc)
  show "list_all (msc_in_range flash_whole two_disks) [Write10 0 0 5 [1, 2, 3] 3, Read10 1 0 5 [0, 0, 0] 3]"
    by (simp add: two_disks_def in_disk_def disk_pos_def disk_size_def sector_disk_def flash_whole_def)
qed (simp_all add: fresh_chip_def used_chip_def chip_view_def read_conv_def chip_slow_ctx_def)

text \<open>
  A disk whose blocks are not whole sectors loses data: a write to a block that does not begin a
  sector erases the block before it in its sector. A write past the sector buffer is one outside
  an object.
\<close>

context flash_disk
begin

lemma part_of_sector:
  assumes i: "inv s" and d: "disk_args d = h" and a: "unat (block_addr d lba) + 4096 \<le> fs" and u: "\<not> 4096 dvd unat (block_addr d lba)"
    and n: "unat n \<le> length buf" "unat offset + unat n \<le> 4096"
  shows "\<exists>s'. qspi_flash_disk_write d buf lba offset n s = Inr (n, s')
    \<and> content s' (unat (block_addr d lba) div 4096 * 4096) = 0xFF"
proof -
  let ?a = "unat (block_addr d lba)" let ?b = "?a div 4096 * 4096"
  have b: "?b \<le> ?a" "?b \<noteq> ?a" "?b < fs" "fs < 2 ^ 32"
    using u a size [OF i] div_times_less_eq_dividend [of ?a 4096] by (auto simp: dvd_eq_mod_eq_0 minus_mod_eq_div_mult [symmetric])
  obtain s1 where s1: "host_lock h s = Inr s1" "inv s1" using lock [OF i] by blast
  obtain s2 where s2: "exec h (Read (heap h 4096) ?a 4096) s1 = Inr (map (content s1) [?a..<?a + 4096], s2)" "inv s2"
    using read_plain [OF s1(2) a fresh [OF s1(2)]] by blast
  let ?t = "put_at (map (content s1) [?a..<?a + 4096]) (unat offset) (take (unat n) buf)"
  have t: "length ?t = 4096" using n by (simp add: min_def)
  have r: "call_in_range fs (Erase ?a 4096)" "call_in_range fs (Write ?t ?a 4096)" using t a b(4) by simp_all
  have "?b < (?a + 4096 + 4095) div 4096 * 4096" by simp
  with b(1,3) have "snd (call_spec conv m fs (Erase ?a 4096) (content s2)) ?b = 0xFF" by simp
  with exec [OF s2(2) r(1)] obtain out s3 where s3: "exec h (Erase ?a 4096) s2 = Inr (out, s3)" "inv s3"
    "content s3 ?b = 0xFF" by force
  have "snd (call_spec conv m fs (Write ?t ?a 4096) (content s3)) ?b = 0xFF"
  proof -
    have "\<not> ?a \<le> ?b" using b(1,2) by (metis le_antisym)
    then show ?thesis using s3(3) by simp
  qed
  with exec [OF s3(2) r(2)] obtain out' s4 where s4: "exec h (Write ?t ?a 4096) s3 = Inr (out', s4)" "inv s4"
    "content s4 ?b = 0xFF" by force
  obtain s5 where "host_unlock h s4 = Inr s5" "content s5 = content s4" using unlock [OF s4(2)] by blast
  with s1(1) s2(1) s3(1) s4(1,3) n d show ?thesis
    by (auto simp: qspi_flash_disk_write_def QSPI_FLASH_SECTOR_SIZE_def Let_def)
qed

end

lemma msc_part_of_sector_lost:
  assumes "plain_flash lib good v mode decode fs m ctx fresh s" and "disk_args d = local_host lib ctx fresh"
    and "unat (block_addr d lba) + 4096 \<le> fs" and "\<not> 4096 dvd unat (block_addr d lba)"
    and "unat n \<le> length buf" "unat offset + unat n \<le> 4096"
  shows "\<exists>s'. qspi_flash_disk_write d buf lba offset n s = Inr (n, s')
    \<and> cells v (snd s') (unat (block_addr d lba) div 4096 * 4096) = 0xFF"
  using fat_flash.part_of_sector [OF assms] .

section \<open>Disks in memory\<close>

text \<open>All addresses of the disk exist; \<open>valid\<close> are the addresses of the memory.\<close>

definition ram_desc_ok :: "u32 set \<Rightarrow> ('a, memory) disk_desc \<Rightarrow> bool" where
  "ram_desc_ok valid p \<longleftrightarrow>
     read_fn (snd p) = ram_disk_read \<and> write_fn (snd p) = ram_disk_write \<and>
     unat (starting_addr (fst p)) + disk_size (fst p) \<le> 2 ^ 32 \<and>
     (\<forall>i < disk_size (fst p). of_nat (unat (starting_addr (fst p)) + i) \<in> valid)"

definition memory_bytes :: "memory \<Rightarrow> nat \<Rightarrow> byte" where
  "memory_bytes s x = (if x < 2 ^ 32 then the (s (of_nat x)) else 0)"

lemma store_bytes_ok:
  assumes "k + length bs \<le> 2 ^ 32" and "\<forall>i < length bs. s (of_nat (k + i)) \<noteq> None"
  shows "store_bytes (of_nat k) bs s
    = Inr (\<lambda>x. if k \<le> unat x \<and> unat x < k + length bs then Some (bs ! (unat x - k)) else s x)"
  using assms
proof (induction bs arbitrary: k s)
  case (Cons b bs)
  have k: "k < 2 ^ 32" using Cons.prems(1) by simp
  have e: "x = of_nat k \<longleftrightarrow> unat x = k" for x :: u32
    using k by (auto simp: unat_of_nat take_bit_nat_eq_self)
  have "s (of_nat k) \<noteq> None" using Cons.prems(2) by force
  moreover have "store_bytes (of_nat (Suc k)) bs (s(of_nat k \<mapsto> b))
      = Inr (\<lambda>x. if Suc k \<le> unat x \<and> unat x < Suc k + length bs then Some (bs ! (unat x - Suc k)) else (s(of_nat k \<mapsto> b)) x)"
  proof (rule Cons.IH)
    show "\<forall>i < length bs. (s(of_nat k \<mapsto> b)) (of_nat (Suc k + i)) \<noteq> None"
    proof (intro allI impI)
      fix i assume "i < length bs"
      with Cons.prems(2) have "s (of_nat (k + Suc i)) \<noteq> None" by (metis Suc_less_eq length_Cons)
      then show "(s(of_nat k \<mapsto> b)) (of_nat (Suc k + i)) \<noteq> None" by (simp add: ac_simps)
    qed
  qed (use Cons.prems in simp)
  moreover have "(\<lambda>x :: u32. if Suc k \<le> unat x \<and> unat x < Suc k + length bs then Some (bs ! (unat x - Suc k)) else (s(of_nat k \<mapsto> b)) x)
      = (\<lambda>x. if k \<le> unat x \<and> unat x < k + length (b # bs) then Some ((b # bs) ! (unat x - k)) else s x)"
    by (auto simp: fun_eq_iff fun_upd_def e nth_Cons')
  ultimately show ?case by (simp add: add.commute)
next
  case Nil
  have "s = (\<lambda>x. if k \<le> unat x \<and> unat x < k then Some ([] ! (unat x - k)) else s x)"
    by (simp add: fun_eq_iff) linarith
  then show ?case by simp
qed

lemma ram_addresses:
  assumes "dom s = valid" and "ram_desc_ok valid (d, f)" and "in_disk d lba offset buf n"
  shows "block_addr d lba + offset + of_nat i = of_nat (unat (starting_addr d) + disk_pos d lba offset + i)"
    and "unat (starting_addr d) + disk_pos d lba offset + unat n \<le> 2 ^ 32"
    and "i < unat n \<Longrightarrow> s (of_nat (unat (starting_addr d) + disk_pos d lba offset + i)) \<noteq> None"
proof -
  show "block_addr d lba + offset + of_nat i = of_nat (unat (starting_addr d) + disk_pos d lba offset + i)"
    by (simp add: block_addr_def disk_pos_def add.assoc)
  show "unat (starting_addr d) + disk_pos d lba offset + unat n \<le> 2 ^ 32"
    using assms(2,3) by (simp add: ram_desc_ok_def in_disk_def)
  assume "i < unat n"
  then have "disk_pos d lba offset + i < disk_size d" using assms(3) by (simp add: in_disk_def)
  then have "of_nat (unat (starting_addr d) + (disk_pos d lba offset + i)) \<in> dom s"
    using assms(1,2) by (auto simp: ram_desc_ok_def)
  then show "s (of_nat (unat (starting_addr d) + disk_pos d lba offset + i)) \<noteq> None"
    by (simp only: add.assoc domIff not_False_eq_True)
qed

interpretation ram_msc: msc_disks "ram_desc_ok valid" "\<lambda>s. dom s = valid" memory_bytes "\<lambda>_ _. True" for valid
proof
  fix s :: memory and d :: "'b disk_data" and f lba offset buf n
  assume i: "dom s = valid" and o: "ram_desc_ok valid (d, f)" and r: "in_disk d lba offset buf n"
  note a = ram_addresses [OF i o r]
  let ?p = "unat (starting_addr d) + disk_pos d lba offset"
  have m: "map (\<lambda>i. the (s (of_nat (?p + i)))) [0..<unat n] = map (memory_bytes s) [?p..<?p + unat n]"
    using a(2) by (intro nth_equalityI) (auto simp: memory_bytes_def)
  have v: "None \<notin> (\<lambda>i. s (of_nat (?p + i))) ` {..<unat n}" using a(3) by force
  show "\<exists>s'. read_fn f d buf lba offset n s
      = Inr (n, map (memory_bytes s) [?p..<?p + unat n] @ drop (unat n) buf, s')
    \<and> dom s' = valid \<and> memory_bytes s' = memory_bytes s"
    using i o r m v by (auto simp: ram_desc_ok_def ram_disk_read_def a(1) Let_def in_disk_def comp_def atLeast0LessThan
        simp del: of_nat_add)
  have b: "block_addr d lba + offset = of_nat ?p" using a(1) [of 0] by simp
  let ?bs = "take (unat n) buf"
  have l: "length ?bs = unat n" using r by (simp add: in_disk_def)
  obtain s' where s': "store_bytes (of_nat ?p) ?bs s = Inr s'"
    "s' = (\<lambda>x. if ?p \<le> unat x \<and> unat x < ?p + length ?bs then Some (?bs ! (unat x - ?p)) else s x)"
    using store_bytes_ok [of ?p ?bs s] a(2,3) l by auto
  have "dom s' = valid"
  proof -
    have "s x \<noteq> None" if "?p \<le> unat x" "unat x < ?p + unat n" for x
      using a(3) [of "unat x - ?p"] that by simp
    then show ?thesis unfolding i [symmetric] s'(2) l by (auto simp: dom_def split: if_splits)
  qed
  moreover have "memory_bytes s' = overwrite ?p ?bs (memory_bytes s)"
    using a(2) l by (auto simp: fun_eq_iff memory_bytes_def overwrite_def s'(2) unat_of_nat take_bit_nat_eq_self)
  ultimately show "\<exists>s'. write_fn f d buf lba offset n s = Inr (n, s') \<and> dom s' = valid
    \<and> memory_bytes s' = overwrite ?p ?bs (memory_bytes s)"
    using o r s'(1) by (auto simp: ram_desc_ok_def ram_disk_write_def b in_disk_def)
qed (simp add: ram_desc_ok_def disk_size_def)

text \<open>The disks of USB mass storage in memory are independent disks of bytes, with blocks of any size.\<close>

lemma msc_ram_disks_are_disks:
  assumes "msc_table_ok (ram_desc_ok (dom s)) ds" and "list_all (msc_in_range (\<lambda>_ _. True) ds) qs"
  shows "\<exists>s'. msc_run qs (ds, s) = Inr (fst (luns_run ds qs (map (\<lambda>p. disk_bytes (memory_bytes s) (fst p)) ds)), (ds, s'))
    \<and> dom s' = dom s
    \<and> map (\<lambda>p. disk_bytes (memory_bytes s') (fst p)) ds
      = snd (luns_run ds qs (map (\<lambda>p. disk_bytes (memory_bytes s) (fst p)) ds))"
  by (rule ram_msc.run_ok [OF refl assms])

section \<open>Other callbacks\<close>

text \<open>The callbacks on a disk that is not in the table or not initialised fail an assertion.\<close>

lemma msc_no_such_disk:
  assumes "length (fst m) \<le> unat lun \<or> \<not> have_been_init (fst (fst m ! unat lun))"
  shows "with_disk lun f m = Inl Assert_failed"
  using assms by (auto simp: with_disk_def split: prod.splits)

text \<open>Except that the inquiry for a disk not in the table writes 12 bytes to the revision's 4.\<close>

lemma msc_inquiry_of_no_disk:
  assumes "length (fst m) \<le> unat lun" and "length v = 8" and "length p = 16" and "length r = 4"
  shows "tud_msc_inquiry_cb lun v p r m = Inl Bad_access"
  using assms by (simp add: tud_msc_inquiry_cb_def write_mem_def)

text \<open>A disk whose own initialisation fails counts as initialised.\<close>

lemma msc_failed_disk_is_added:
  assumes "unat lun < length disks" and "length v \<le> 8" and "length p \<le> 16" and "length r \<le> 4"
    and "init_fn fns = Some (\<lambda>_ s. Inr (False, s))"
  shows "\<exists>d. add_disk lun addr blocks bytes v p r fns args (disks, s) = Inr (False, disks[unat lun := (d, fns)], s)
    \<and> have_been_init d"
  using assms by (simp add: add_disk_def Let_def) (rule exI, rule conjI, rule refl, simp)

text \<open>The answer to a command that is not supported is a length of 65535, and not negative.\<close>

lemma msc_unsupported_command:
  assumes "c \<noteq> SCSI_CMD_PREVENT_ALLOW_MEDIUM_REMOVAL" and "c \<noteq> SCSI_CMD_START_STOP_UNIT"
  shows "qspi_flash_disk_scsi_command sense d lun buf (c # cs) n s
      = Inr (0xFFFF, buf, sense lun SCSI_SENSE_ILLEGAL_REQUEST 0x20 0x00 s)"
    and "ram_disk_scsi_command sense' d' lun buf (c # cs) n s'
      = Inr (0xFFFF, buf, sense' lun SCSI_SENSE_ILLEGAL_REQUEST 0x20 0x00 s')"
proof -
  have "(- 1 :: u16) = 0xFFFF" by simp
  then have "ucast (- 1 :: u16) = (0xFFFF :: u32)" by (simp only:) simp
  with assms show "qspi_flash_disk_scsi_command sense d lun buf (c # cs) n s
      = Inr (0xFFFF, buf, sense lun SCSI_SENSE_ILLEGAL_REQUEST 0x20 0x00 s)"
    and "ram_disk_scsi_command sense' d' lun buf (c # cs) n s'
      = Inr (0xFFFF, buf, sense' lun SCSI_SENSE_ILLEGAL_REQUEST 0x20 0x00 s')"
    by (simp_all add: qspi_flash_disk_scsi_command_def ram_disk_scsi_command_def)
qed

end
