(* ===== verification/Dfu_Image.thy ===== *)
theory Dfu_Image
  imports Prelude
begin

text \<open>
  The images of a device firmware upgrade (modules/drivers/dfu): where the factory image is, and
  where an upgrade image is or can go. The flash library, which finds the images, is a parameter; its
  sectors are numbered from 0 and given by their first addresses.
\<close>

record boot_image =
  startAddress :: u32
  image_bytes :: u32
  image_version :: u32
  is_factory :: u32

record 'd image_lib =
  fl_connectToDevice :: "'d \<Rightarrow> int \<times> 'd"
  fl_getDataPartitionBase :: "'d \<Rightarrow> u32 \<times> 'd"
  fl_getFactoryImage :: "boot_image \<Rightarrow> 'd \<Rightarrow> int \<times> boot_image \<times> 'd"
  fl_getNextBootImage :: "boot_image \<Rightarrow> 'd \<Rightarrow> int \<times> boot_image \<times> 'd"
  fl_getNumSectors :: "'d \<Rightarrow> nat"
  fl_getSectorAddress :: "nat \<Rightarrow> 'd \<Rightarrow> u32"
  fl_disconnect :: "'d \<Rightarrow> 'd"

record dfu_image =
  factory_image_ctx :: boot_image
  upgrade_image_ctx :: boot_image
  data_partition_base_addr :: u32

section \<open>The accessors\<close>

definition rtos_dfu_image_get_data_partition_addr :: "dfu_image \<Rightarrow> u32" where
  "rtos_dfu_image_get_data_partition_addr ctx = data_partition_base_addr ctx"

definition rtos_dfu_image_get_factory_addr :: "dfu_image \<Rightarrow> u32" where
  "rtos_dfu_image_get_factory_addr ctx = startAddress (factory_image_ctx ctx)"

definition rtos_dfu_image_get_factory_size :: "dfu_image \<Rightarrow> u32" where
  "rtos_dfu_image_get_factory_size ctx = image_bytes (factory_image_ctx ctx)"

definition rtos_dfu_image_get_factory_version :: "dfu_image \<Rightarrow> u32" where
  "rtos_dfu_image_get_factory_version ctx = image_version (factory_image_ctx ctx)"

definition rtos_dfu_image_get_upgrade_addr :: "dfu_image \<Rightarrow> u32" where
  "rtos_dfu_image_get_upgrade_addr ctx = startAddress (upgrade_image_ctx ctx)"

definition rtos_dfu_image_get_upgrade_size :: "dfu_image \<Rightarrow> u32" where
  "rtos_dfu_image_get_upgrade_size ctx = image_bytes (upgrade_image_ctx ctx)"

definition rtos_dfu_image_get_upgrade_version :: "dfu_image \<Rightarrow> u32" where
  "rtos_dfu_image_get_upgrade_version ctx = image_version (upgrade_image_ctx ctx)"

section \<open>Initialisation\<close>

definition no_image :: boot_image where
  "no_image = \<lparr>startAddress = 0, image_bytes = 0, image_version = 0, is_factory = 0\<rparr>"

definition no_images :: dfu_image where
  "no_images = \<lparr>factory_image_ctx = no_image, upgrade_image_ctx = no_image, data_partition_base_addr = 0\<rparr>"

text \<open>The loop over the sectors, from \<open>sector\<close> on.\<close>

function next_sector :: "(nat \<Rightarrow> u32) \<Rightarrow> nat \<Rightarrow> nat \<Rightarrow> u32 \<Rightarrow> u32" where
  "next_sector address numSectors sector last_addr =
     (if sector < numSectors then
        if address sector > last_addr then address sector
        else next_sector address numSectors (sector + 1) last_addr
      else last_addr)"
  by pat_completeness auto
termination by (relation "measure (\<lambda>(_, n, k, _). n - k)") auto

declare next_sector.simps [simp del]

definition upgrade_slot :: "(nat \<Rightarrow> u32) \<Rightarrow> nat \<Rightarrow> boot_image \<Rightarrow> u32 \<Rightarrow> u32" where
  "upgrade_slot address numSectors factory data_base =
     (let last_addr = next_sector address numSectors 0 (startAddress factory + image_bytes factory) in
      if last_addr < data_base then last_addr else 0)"

definition rtos_dfu_image_init :: "'d image_lib \<Rightarrow> 'd \<Rightarrow> (dfu_image \<times> 'd) res" where
  "rtos_dfu_image_init lib d =
     (let ctx = no_images; (r, d1) = fl_connectToDevice lib d in
      xassert (r = 0)
        (let (base, d2) = fl_getDataPartitionBase lib d1;
             ctx1 = ctx\<lparr>data_partition_base_addr := base\<rparr>;
             (found, factory, d3) = fl_getFactoryImage lib (factory_image_ctx ctx1) d2;
             ctx2 = ctx1\<lparr>factory_image_ctx := factory\<rparr> in
         if found = 0 then
           let (more, tmp_img, d4) = fl_getNextBootImage lib factory d3 in
           if more = 0 then Inr (ctx2\<lparr>upgrade_image_ctx := tmp_img\<rparr>, fl_disconnect lib d4)
           else Inr (ctx2\<lparr>upgrade_image_ctx := (upgrade_image_ctx ctx2)\<lparr>startAddress :=
                    upgrade_slot (\<lambda>k. fl_getSectorAddress lib k d4) (fl_getNumSectors lib d4) factory base\<rparr>\<rparr>,
                  fl_disconnect lib d4)
         else Inr (ctx2, fl_disconnect lib d3)))"

section \<open>The place of an upgrade\<close>

lemma next_sector_find:
  "next_sector address n k e = (case find (\<lambda>a. e < a) (map address [k..<n]) of None \<Rightarrow> e | Some a \<Rightarrow> a)"
proof (induction address n k e rule: next_sector.induct)
  case (1 address n k e)
  then show ?case by (subst next_sector.simps) (simp add: upt_conv_Cons)
qed

lemma next_sector_past:
  fixes address :: "nat \<Rightarrow> u32"
  assumes "\<And>i j. i < j \<Longrightarrow> j < n \<Longrightarrow> address i < address j"
  shows "(\<forall>j < n. address j \<le> e) \<and> next_sector address n 0 e = e
    \<or> (\<exists>j < n. next_sector address n 0 e = address j \<and> e < address j \<and> (\<forall>i < n. e < address i \<longrightarrow> address j \<le> address i))"
proof (cases "find (\<lambda>a. e < a) (map address [0..<n])")
  case None
  then have "next_sector address n 0 e = e" by (simp add: next_sector_find)
  moreover have "\<forall>j < n. address j \<le> e" using None by (auto simp: find_None_iff not_less)
  ultimately show ?thesis by blast
next
  case (Some a)
  then obtain j where j: "j < n" "e < address j" "a = address j" "\<forall>i < j. \<not> e < address i"
    by (auto simp: find_Some_iff)
  have "address j \<le> address i" if "i < n" "e < address i" for i
    using j(4) assms [of j i] that by (cases i j rule: linorder_cases) auto
  moreover have "next_sector address n 0 e = address j" using Some j(3) by (simp add: next_sector_find)
  ultimately show ?thesis using j(1,2) by blast
qed


text \<open>
  A factory image that ends with a sector is followed by a sector that is not used, although the
  sector at or after the end is looked for; and where no sector begins past the end, the
  end itself, which need not begin a sector, is taken if it is below the data partition.
\<close>

lemma dfu_skips_sector: "upgrade_slot (\<lambda>k. of_nat (4096 * k)) 4 (no_image\<lparr>image_bytes := 4096\<rparr>) 0x4000 = 8192"
  by (simp add: upgrade_slot_def no_image_def next_sector.simps)

lemma dfu_place_in_last_sector: "upgrade_slot (\<lambda>k. of_nat (4096 * k)) 2 (no_image\<lparr>image_bytes := 5000\<rparr>) 0x4000 = 5000"
  by (simp add: upgrade_slot_def no_image_def next_sector.simps)

text \<open>A flash of four sectors with a factory image of 5000 bytes and a data partition in the last one.\<close>

definition small_lib :: "unit image_lib" where
  "small_lib =
     \<lparr>fl_connectToDevice = (\<lambda>d. (0, d)), fl_getDataPartitionBase = (\<lambda>d. (0x3000, d)),
      fl_getFactoryImage = (\<lambda>x d. (0, no_image\<lparr>image_bytes := 5000\<rparr>, d)),
      fl_getNextBootImage = (\<lambda>x d. (1, x, d)), fl_getNumSectors = (\<lambda>_. 4),
      fl_getSectorAddress = (\<lambda>k _. of_nat (4096 * k)), fl_disconnect = id\<rparr>"


end
