(* ===== verification/Control_Transport.thy ===== *)
theory Control_Transport
  imports Device_Control I2c_Slave
begin

text \<open>
  The transports of device control on the device (modules/sw_services/device_control/transport): the
  callbacks of the I2C slave driver, of the SPI slave driver and of TinyUSB, which pass what a host sends
  to the device control service.
\<close>

definition CONTROL_MALFORMED_PACKET :: control_ret_t where "CONTROL_MALFORMED_PACKET = 6"
definition CONTROL_COMMAND_IGNORED_IN_DEVICE :: control_ret_t where "CONTROL_COMMAND_IGNORED_IN_DEVICE = 7"

section \<open>I2C\<close>

definition device_control_i2c_start_cb ::
  "(servicer_init_data option \<times> servicer_init_data option list) list \<Rightarrow> device_control \<Rightarrow> device_control res" where
  "device_control_i2c_start_cb turns ctx =
     (let (dc_ret, ctx') = device_control_resources_register turns ctx
      in xassert (dc_ret = CONTROL_SUCCESS) (Inr ctx'))"

text \<open>The bytes a host has written, and the buffer that the driver answers a read from.\<close>

definition device_control_i2c_rx_cb ::
  "'s servicer_cbs \<Rightarrow> (nat \<Rightarrow> byte list) \<Rightarrow> device_control \<Rightarrow> byte list \<Rightarrow> 's
     \<Rightarrow> (byte list \<times> device_control \<times> 's) res" where
  "device_control_i2c_rx_cb cbs mem ctx data s =
     (if length data \<ge> 3 then
        rbind (device_control_request ctx (data ! 0) (data ! 1) (unat (data ! 2))) (\<lambda>(_, ctx1).
        rbind (device_control_payload_transfer cbs mem ctx1 (drop 3 data) (length data - 3) CONTROL_HOST_TO_DEVICE s)
          (\<lambda>(_, p, ctx2, s'). Inr (take 3 data @ p, ctx2, s')))
      else Inr (data, ctx\<lparr>last_status := ucast CONTROL_MALFORMED_PACKET\<rparr>, s))"

definition device_control_i2c_tx_start_cb ::
  "'s servicer_cbs \<Rightarrow> (nat \<Rightarrow> byte list) \<Rightarrow> device_control \<Rightarrow> byte list \<Rightarrow> 's
     \<Rightarrow> (nat \<times> byte list \<times> device_control \<times> 's) res" where
  "device_control_i2c_tx_start_cb cbs mem ctx data s =
     rbind (device_control_payload_transfer cbs mem ctx data RTOS_I2C_SLAVE_BUF_LEN CONTROL_DEVICE_TO_HOST s)
       (\<lambda>(_, data', ctx', s'). Inr (RTOS_I2C_SLAVE_BUF_LEN, data', ctx', s'))"

section \<open>SPI\<close>

text \<open>
  The four buffers of the transport, by their names; a pointer of the driver is the name of the
  buffer that it points to. The start callback says what it prepares the driver for.
\<close>

definition SPI_XFER_RX_SIZE :: nat where "SPI_XFER_RX_SIZE = 256"
definition SPI_XFER_TX_SIZE :: nat where "SPI_XFER_TX_SIZE = 256"

datatype spi_buf = Spi_xfer_rx | Spi_xfer_tx | Spi_xfer_rx_default | Spi_xfer_tx_default

type_synonym spi_bufs = "spi_buf \<Rightarrow> byte list"

definition spi_bufs_start :: spi_bufs where
  "spi_bufs_start b =
     replicate (if b \<in> {Spi_xfer_rx, Spi_xfer_rx_default} then SPI_XFER_RX_SIZE else SPI_XFER_TX_SIZE) 0"

definition device_control_spi_start_cb ::
  "(servicer_init_data option \<times> servicer_init_data option list) list \<Rightarrow> device_control \<Rightarrow> spi_bufs
     \<Rightarrow> ((spi_buf \<times> spi_buf) list \<times> device_control \<times> spi_bufs) res" where
  "device_control_spi_start_cb turns ctx bufs =
     (let bufs' = bufs(Spi_xfer_tx_default := (bufs Spi_xfer_tx_default)[0 := ucast CONTROL_COMMAND_IGNORED_IN_DEVICE]);
          (dc_ret, ctx') = device_control_resources_register turns ctx
      in xassert (dc_ret = CONTROL_SUCCESS)
           (Inr ([(Spi_xfer_rx_default, Spi_xfer_tx_default), (Spi_xfer_rx, Spi_xfer_tx)], ctx', bufs')))"

text \<open>
  The arguments are what the driver says of the transfer that is complete; the last result is whether
  the driver is prepared for another one.
\<close>

definition device_control_spi_xfer_done_cb ::
  "'s servicer_cbs \<Rightarrow> (nat \<Rightarrow> byte list) \<Rightarrow> device_control \<Rightarrow> spi_bufs \<Rightarrow> spi_buf \<Rightarrow> nat \<Rightarrow> spi_buf \<Rightarrow> nat \<Rightarrow> 's
     \<Rightarrow> (device_control \<times> spi_bufs \<times> 's \<times> bool) res" where
  "device_control_spi_xfer_done_cb cbs mem ctx bufs rx_buf rx_len tx_buf tx_len s =
     (if rx_buf = Spi_xfer_tx_default then Inr (ctx, bufs, s, False)
      else
        let bufs1 = (if rx_len < 3
                     then bufs(tx_buf := (bufs tx_buf)[0 := ucast CONTROL_MALFORMED_PACKET]) else bufs);
            rx = bufs1 rx_buf in
        if rx ! 0 = 0 \<and> rx ! 1 = 0 \<and> rx ! 2 = 0 then Inr (ctx, bufs1, s, True)
        else if rx_len \<ge> 3 then
          rbind (device_control_request ctx (rx ! 0) (rx ! 1) (unat (rx ! 2))) (\<lambda>(_, ctx1).
          rbind (device_control_payload_transfer_bidir cbs mem ctx1 (drop 3 rx) (rx_len - 3) (bufs1 tx_buf) tx_len s)
            (\<lambda>(tx, _, ctx2, s'). Inr (ctx2, bufs1(tx_buf := tx), s', True)))
        else Inr (ctx, bufs1, s, True))"

section \<open>USB\<close>

text \<open>
  The interface of TinyUSB that the transport uses: the stages of a control transfer, the fields of a
  request that are read, and the requests of vendor type to the device. CFG_TUD_ENDPOINT0_SIZE is the
  length of the data buffer.
\<close>

datatype usb_stage = CONTROL_STAGE_SETUP | CONTROL_STAGE_DATA | CONTROL_STAGE_ACK

record usb_request =
  bmRequestType :: byte
  wValue :: u16
  wIndex :: u16
  wLength :: u16

definition REQ_OUT :: byte where "REQ_OUT = 0x40"
definition REQ_IN :: byte where "REQ_IN = 0xC0"

definition device_control_usb_init :: "device_control option \<Rightarrow> device_control option \<Rightarrow> device_control option" where
  "device_control_usb_init get_ctrl_ctx_cb ctx =
     (case get_ctrl_ctx_cb of Some c \<Rightarrow> Some c | None \<Rightarrow> ctx)"

text \<open>The length of the descriptor that was used, 0 for none; a descriptor of an interface has 9 bytes.\<close>

definition device_control_usb_open ::
  "(servicer_init_data option \<times> servicer_init_data option list) list \<Rightarrow> byte \<Rightarrow> byte \<Rightarrow> u16
     \<Rightarrow> device_control option \<Rightarrow> u16 \<times> device_control option" where
  "device_control_usb_open turns bInterfaceClass bNumEndpoints max_len ctx =
     (if bInterfaceClass \<noteq> 0xFF then (0, ctx)
      else if bNumEndpoints \<noteq> 0 then (0, ctx)
      else case ctx of
             None \<Rightarrow> (0, ctx)
           | Some c \<Rightarrow>
               let drv_len = 9 in
               if max_len < drv_len then (0, ctx)
               else let (dc_ret, c') = device_control_resources_register turns c in
                    if dc_ret \<noteq> CONTROL_SUCCESS then (0, Some c') else (drv_len, Some c'))"

text \<open>
  What the callback returns: false, true, or what \<open>tud_control_xfer\<close> returns that it calls with its data
  buffer and a length.
\<close>

datatype usb_answer = Usb_false | Usb_true | Usb_control_xfer nat

definition device_control_usb_xfer ::
  "'s servicer_cbs \<Rightarrow> (nat \<Rightarrow> byte list) \<Rightarrow> usb_stage \<Rightarrow> usb_request \<Rightarrow> device_control \<Rightarrow> byte list \<Rightarrow> 's
     \<Rightarrow> (usb_answer \<times> device_control \<times> byte list \<times> 's) res" where
  "device_control_usb_xfer cbs mem stage req ctx request_data s =
     rbind (if stage = CONTROL_STAGE_SETUP
            then device_control_request ctx (ucast (wIndex req)) (ucast (wValue req)) (unat (wLength req))
            else Inr (CONTROL_SUCCESS, ctx)) (\<lambda>(ret, ctx1).
       if ret \<noteq> CONTROL_SUCCESS then Inr (Usb_false, ctx1, request_data, s)
       else if bmRequestType req = REQ_OUT then
         if stage = CONTROL_STAGE_SETUP then Inr (Usb_control_xfer (unat (wLength req)), ctx1, request_data, s)
         else if stage = CONTROL_STAGE_DATA then
           rbind (device_control_payload_transfer cbs mem ctx1 request_data (unat (wLength req))
               CONTROL_HOST_TO_DEVICE s) (\<lambda>(ret, data, ctx2, s').
             Inr (if ret = CONTROL_SUCCESS then Usb_true else Usb_false, ctx2, data, s'))
         else Inr (Usb_true, ctx1, request_data, s)
       else if bmRequestType req = REQ_IN then
         if stage = CONTROL_STAGE_SETUP then
           rbind (device_control_payload_transfer cbs mem ctx1 request_data (length request_data)
               CONTROL_DEVICE_TO_HOST s) (\<lambda>(ret, data, ctx2, s').
             Inr (if ret = CONTROL_SUCCESS then Usb_control_xfer (length request_data) else Usb_false,
                  ctx2, data, s'))
         else Inr (Usb_true, ctx1, request_data, s)
       else Inr (Usb_false, ctx1, request_data, s))"

section \<open>Commands for a registered resource\<close>

text \<open>Servicer \<open>i\<close> of those registered has resource \<open>r\<close>.\<close>

definition serves ::
  "'s servicer_cbs \<Rightarrow> (nat \<Rightarrow> byte list) \<Rightarrow> registration list \<Rightarrow> nat \<Rightarrow> byte \<Rightarrow> device_control \<Rightarrow> bool" where
  "serves cbs mem regs i r ctx \<longleftrightarrow>
     registered regs ctx \<and> i < length regs \<and> servicer_count ctx \<le> 255 \<and>
     r \<in> set (init_resources (snd (regs ! i))) \<and> callbacks_ok cbs \<and> (\<forall>n. length (mem n) = n)"

abbreviation requested :: "byte \<Rightarrow> byte \<Rightarrow> nat \<Rightarrow> device_control \<Rightarrow> device_control" where
  "requested r cmd n ctx \<equiv> ctx\<lparr>requested_resid := r, requested_cmd := cmd, requested_payload_len := n\<rparr>"

lemma serves_update [simp]:
  "serves cbs mem regs i r (ctx\<lparr>requested_resid := r'\<rparr>) = serves cbs mem regs i r ctx"
  "serves cbs mem regs i r (ctx\<lparr>requested_cmd := c\<rparr>) = serves cbs mem regs i r ctx"
  "serves cbs mem regs i r (ctx\<lparr>requested_payload_len := n\<rparr>) = serves cbs mem regs i r ctx"
  "serves cbs mem regs i r (ctx\<lparr>last_status := b\<rparr>) = serves cbs mem regs i r ctx"
  by (simp_all add: serves_def registered_def)

lemma serves_found:
  assumes "serves cbs mem regs i r ctx"
  obtains t where "the_table ctx = Inr t" "resource_table ctx = Some t" "resource_table_search t r = (of_nat i, 0)"
    "r \<noteq> CONTROL_SPECIAL_RESID" "unat (of_nat i :: byte) = i" "i < length (servicer_table ctx)"
    "servicer_table ctx ! i = (fst (regs ! i), init_queue (snd (regs ! i)))"
proof -
  from assms obtain t where t: "resource_table ctx = Some t" by (auto simp: serves_def registered_def)
  have a: "registered regs ctx" "i < length regs" "servicer_count ctx \<le> 255"
    "r \<in> set (init_resources (snd (regs ! i)))" using assms by (simp_all add: serves_def)
  show thesis by (rule that [OF _ t registered_search [OF a t]]) (simp add: the_table_def t)
qed

lemma serves_request:
  assumes "serves cbs mem regs i r ctx"
  shows "device_control_request ctx r cmd n = Inr (CONTROL_SUCCESS, requested r cmd n ctx)"
  using assms by (rule serves_found) (simp add: device_control_request_def the_table_def)

lemma serves_write:
  assumes "serves cbs mem regs i r ctx" and "\<not> IS_CONTROL_CMD_READ cmd" and "n \<le> length payload"
    and "write_cmd_cb cbs (init_queue (snd (regs ! i))) r cmd (take n payload) s = (ret, s')"
  shows "do_command cbs mem ctx (of_nat i) r cmd payload n s = Inr (ret, payload, s')"
proof -
  let ?c = "\<lparr>c_queue = init_queue (snd (regs ! i)), c_payload_len = n, c_resid = r, c_cmd = cmd\<rparr>"
  have "off_tile_command cbs mem ?c payload s = servicer_cmd_recv_local cbs ?c payload s"
    using assms by (intro off_tile_command_local) (simp_all add: serves_def)
  moreover have "servicer_cmd_recv_local cbs ?c payload s = Inr (ret, payload, s')"
    using assms by (simp add: servicer_cmd_recv_local_def run_callback_def)
  ultimately show ?thesis using assms(1)
    by (elim serves_found) (simp add: do_command_def Let_def split: option.split)
qed

lemma serves_read:
  assumes "serves cbs mem regs i r ctx" and "IS_CONTROL_CMD_READ cmd" and "n \<le> length payload" and "0 < n"
    and "read_cmd_cb cbs (init_queue (snd (regs ! i))) r cmd (take n payload) s = (ret, out, s')"
  shows "do_command cbs mem ctx (of_nat i) r cmd payload n s = Inr (ret, out @ drop n payload, s')" and "length out = n"
proof -
  let ?c = "\<lparr>c_queue = init_queue (snd (regs ! i)), c_payload_len = n, c_resid = r, c_cmd = cmd\<rparr>"
  show l: "length out = n" using assms unfolding serves_def callbacks_ok_def by (metis length_take min.absorb2)
  have "off_tile_command cbs mem ?c payload s = servicer_cmd_recv_local cbs ?c payload s"
    using assms by (intro off_tile_command_local) (simp_all add: serves_def)
  moreover have "servicer_cmd_recv_local cbs ?c payload s = Inr (ret, out @ drop n payload, s')"
    using assms l by (simp add: servicer_cmd_recv_local_def run_callback_def)
  ultimately show "do_command cbs mem ctx (of_nat i) r cmd payload n s = Inr (ret, out @ drop n payload, s')"
    using assms(1) by (elim serves_found) (simp add: do_command_def Let_def split: option.split)
qed

text \<open>The transfers after a request.\<close>

lemma serves_transfer_write:
  assumes "serves cbs mem regs i r ctx" and "\<not> IS_CONTROL_CMD_READ cmd" and "n \<le> length payload" and "n \<le> m"
    and "write_cmd_cb cbs (init_queue (snd (regs ! i))) r cmd (take n payload) s = (ret, s')"
  shows "device_control_payload_transfer cbs mem (requested r cmd n ctx) payload m CONTROL_HOST_TO_DEVICE s
    = Inr (CONTROL_SUCCESS, payload, (requested r cmd n ctx)\<lparr>last_status := ucast ret\<rparr>, s')"
proof -
  have w: "do_command cbs mem (requested r cmd n ctx) (of_nat i) r cmd payload n s = Inr (ret, payload, s')"
    by (rule serves_write) (use assms in simp_all)
  from assms(1) show ?thesis
    by (rule serves_found) (use assms(2,4) w in \<open>simp add: device_control_payload_transfer_def the_table_def\<close>)
qed

lemma serves_transfer_status:
  assumes "serves cbs mem regs i r ctx" and "\<not> IS_CONTROL_CMD_READ cmd" and "payload \<noteq> []"
  shows "device_control_payload_transfer cbs mem (requested r cmd n ctx) payload m CONTROL_DEVICE_TO_HOST s
    = Inr (CONTROL_SUCCESS, payload[0 := last_status ctx], requested r cmd n ctx, s)"
  using assms(1)
  by (rule serves_found) (use assms(2,3) in \<open>cases payload;
    simp add: device_control_payload_transfer_def the_table_def\<close>)

lemma serves_transfer_read_request:
  assumes "serves cbs mem regs i r ctx" and "IS_CONTROL_CMD_READ cmd"
  shows "device_control_payload_transfer cbs mem (requested r cmd n ctx) payload m CONTROL_HOST_TO_DEVICE s
    = Inr (CONTROL_SUCCESS, payload, (requested r cmd n ctx)\<lparr>last_status := ucast CONTROL_SUCCESS\<rparr>, s)"
  using assms(1)
  by (rule serves_found) (use assms(2) in \<open>simp add: device_control_payload_transfer_def the_table_def\<close>)

lemma serves_transfer_read:
  assumes "serves cbs mem regs i r ctx" and "IS_CONTROL_CMD_READ cmd" and "n \<le> length payload" and "0 < n"
    and "read_cmd_cb cbs (init_queue (snd (regs ! i))) r cmd (take n payload) s = (ret, out, s')"
  shows "device_control_payload_transfer cbs mem (requested r cmd n ctx) payload m CONTROL_DEVICE_TO_HOST s
    = Inr (CONTROL_SUCCESS, out @ drop n payload, requested r cmd n ctx, s')"
proof -
  have w: "do_command cbs mem (requested r cmd n ctx) (of_nat i) r cmd payload n s = Inr (ret, out @ drop n payload, s')"
    by (rule serves_read) (use assms in simp_all)
  from assms(1) show ?thesis
    by (rule serves_found) (use assms(2,4) w in \<open>simp add: device_control_payload_transfer_def the_table_def\<close>)
qed

text \<open>Both directions at once.\<close>

lemma serves_bidir_write:
  assumes "serves cbs mem regs i r ctx" and "\<not> IS_CONTROL_CMD_READ cmd" and "n \<le> length rx" and "n \<le> m" and "tx \<noteq> []"
    and "write_cmd_cb cbs (init_queue (snd (regs ! i))) r cmd (take n rx) s = (ret, s')"
  shows "device_control_payload_transfer_bidir cbs mem (requested r cmd n ctx) rx m tx k s
    = Inr (tx[0 := ucast ret], k, (requested r cmd n ctx)\<lparr>last_status := ucast ret\<rparr>, s')"
proof -
  have w: "do_command cbs mem (requested r cmd n ctx) (of_nat i) r cmd rx n s = Inr (ret, rx, s')"
    by (rule serves_write) (use assms in simp_all)
  from assms(1) show ?thesis
    by (rule serves_found) (use assms(2,4,5) w in \<open>cases tx;
      simp add: device_control_payload_transfer_bidir_def the_table_def\<close>)
qed

lemma serves_bidir_read:
  assumes "serves cbs mem regs i r ctx" and "IS_CONTROL_CMD_READ cmd" and "n \<le> length tx" and "0 < n"
    and "read_cmd_cb cbs (init_queue (snd (regs ! i))) r cmd (take n tx) s = (ret, out, s')"
  shows "device_control_payload_transfer_bidir cbs mem (requested r cmd n ctx) rx m tx k s
    = Inr (out @ drop n tx, n, (requested r cmd n ctx)\<lparr>last_status := ucast ret\<rparr>, s')"
proof -
  have w: "do_command cbs mem (requested r cmd n ctx) (of_nat i) r cmd tx n s = Inr (ret, out @ drop n tx, s')"
    by (rule serves_read) (use assms in simp_all)
  from assms(1) show ?thesis
    by (rule serves_found) (use assms(2,4) w in \<open>simp add: device_control_payload_transfer_bidir_def the_table_def\<close>)
qed

end
