(* ===== verification/Control_Host.thy ===== *)
theory Control_Host
  imports Control_Transport
begin

text \<open>
  The host side of device control (modules/sw_services/device_control/host): how commands are put into
  transfers (control_host_support.h), over I2C and SPI of a Raspberry Pi (device_access_i2c_rpi.c,
  device_access_spi_rpi.c) and over USB (device_access_usb.c). The bus, that is the I2C device of the
  kernel, the SPI functions of bcm2835 and libusb, is a parameter. LOW_LEVEL_TESTING is off.
\<close>

section \<open>Transfers\<close>

definition I2C_TRANSACTION_MAX_BYTES :: nat where "I2C_TRANSACTION_MAX_BYTES = 256"
definition SPI_TRANSACTION_MAX_BYTES :: nat where "SPI_TRANSACTION_MAX_BYTES = 256"
definition USB_TRANSACTION_MAX_BYTES :: nat where "USB_TRANSACTION_MAX_BYTES = 64"

text \<open>The buffer and the length of the transfer. A payload is copied byte by byte.\<close>

fun store_payload :: "byte list \<Rightarrow> nat \<Rightarrow> byte list \<Rightarrow> nat \<Rightarrow> byte list res" where
  "store_payload buf k payload 0 = Inr buf"
| "store_payload buf k [] (Suc n) = Inl Bad_access"
| "store_payload buf k (b # payload) (Suc n) =
     (if k < length buf then store_payload (buf[k := b]) (Suc k) payload n else Inl Bad_access)"

definition control_build_i2c_data ::
  "byte list \<Rightarrow> byte \<Rightarrow> byte \<Rightarrow> byte list \<Rightarrow> nat \<Rightarrow> (byte list \<times> nat) res" where
  "control_build_i2c_data data resid cmd payload payload_len =
     rbind (store_payload data 0 [resid, cmd, of_nat payload_len] 3) (\<lambda>data1.
       if IS_CONTROL_CMD_READ cmd then Inr (data1, 3)
       else rbind (store_payload data1 3 payload payload_len) (\<lambda>data2. Inr (data2, 3 + payload_len)))"

definition control_build_spi_data ::
  "byte list \<Rightarrow> byte \<Rightarrow> byte \<Rightarrow> byte list \<Rightarrow> nat \<Rightarrow> (byte list \<times> nat) res" where
  "control_build_spi_data data resid cmd payload payload_len =
     rbind (store_payload data 0 [resid, cmd, of_nat payload_len, 0, 0, 0, 0, 0] 8) (\<lambda>data1.
       if IS_CONTROL_CMD_READ cmd then Inr (data1, 8)
       else rbind (store_payload data1 3 payload payload_len) (\<lambda>data2. Inr (data2, 3 + payload_len)))"

text \<open>The index, the value and the length of a control transfer.\<close>

definition control_usb_fill_header :: "byte \<Rightarrow> byte \<Rightarrow> nat \<Rightarrow> (u16 \<times> u16 \<times> u16) res" where
  "control_usb_fill_header resid cmd payload_len =
     xassert (payload_len < 2 ^ 16) (Inr (ucast resid, ucast cmd, of_nat payload_len))"

section \<open>I2C\<close>

text \<open>
  The calls on the open device, with their results; the transfer of both messages at once for
  a read, whose second is answered. The address that the device is opened with is chosen before.
\<close>

record 'w i2c_bus =
  i2c_open :: "'w \<Rightarrow> int \<times> 'w"
  i2c_set_slave :: "byte \<Rightarrow> 'w \<Rightarrow> int \<times> 'w"
  i2c_write :: "byte list \<Rightarrow> 'w \<Rightarrow> (int \<times> 'w) res"
  i2c_read :: "nat \<Rightarrow> 'w \<Rightarrow> (int \<times> byte list \<times> 'w) res"
  i2c_rdwr :: "byte list \<Rightarrow> nat \<Rightarrow> 'w \<Rightarrow> (int \<times> byte list \<times> 'w) res"

definition control_init_i2c :: "'w i2c_bus \<Rightarrow> byte \<Rightarrow> 'w \<Rightarrow> (control_ret_t \<times> 'w) res" where
  "control_init_i2c bus i2c_slave_address w =
     (let (fd, w1) = i2c_open bus w in
      if fd < 0 then Inr (CONTROL_ERROR, w1)
      else let (r, w2) = i2c_set_slave bus i2c_slave_address w1 in
           if r < 0 then Inr (CONTROL_ERROR, w2)
           else rbind (control_build_i2c_data (replicate 3 0) 0 0 [] 0) (\<lambda>(data, _).
                rbind (i2c_write bus data w2) (\<lambda>(_, w3). Inr (CONTROL_SUCCESS, w3))))"

definition i2c_write_command ::
  "'w i2c_bus \<Rightarrow> byte \<Rightarrow> byte \<Rightarrow> byte list \<Rightarrow> nat \<Rightarrow> 'w \<Rightarrow> (control_ret_t \<times> 'w) res" where
  "i2c_write_command bus resid cmd payload payload_len w =
     rbind (control_build_i2c_data (replicate (I2C_TRANSACTION_MAX_BYTES + 3) 0) resid cmd payload payload_len)
       (\<lambda>(buffer_to_send, len).
     rbind (i2c_write bus (take len buffer_to_send) w) (\<lambda>(numbytes, w1).
       if numbytes < 0 then Inr (CONTROL_ERROR, w1)
       else rbind (i2c_read bus 1 w1) (\<lambda>(numbytes', command_status, w2).
              if numbytes' < 0 then Inr (CONTROL_ERROR, w2)
              else Inr (ucast (command_status ! 0), w2))))"

text \<open>The result and the payload.\<close>

definition i2c_read_command ::
  "'w i2c_bus \<Rightarrow> byte \<Rightarrow> byte \<Rightarrow> byte list \<Rightarrow> nat \<Rightarrow> 'w \<Rightarrow> (control_ret_t \<times> byte list \<times> 'w) res" where
  "i2c_read_command bus resid cmd payload payload_len w =
     rbind (control_build_i2c_data (replicate I2C_TRANSACTION_MAX_BYTES 0) resid cmd payload payload_len)
       (\<lambda>(read_hdr, len).
       if len \<noteq> 3 then Inr (CONTROL_ERROR, payload, w)
       else if length payload < unat (of_nat payload_len :: u16) then Inl Bad_access
       else rbind (i2c_rdwr bus (take len read_hdr) (unat (of_nat payload_len :: u16)) w) (\<lambda>(errno, bs, w1).
              if errno < 0 then Inr (CONTROL_ERROR, payload, w1)
              else Inr (CONTROL_SUCCESS, bs @ drop (length bs) payload, w1)))"

section \<open>SPI\<close>

text \<open>
  A transfer sends bytes and receives as many in their place. The number of bytes of the
  commands' second transfer is that of the payload: the one computed for it is not used. The
  loops that repeat a transfer may not end.
\<close>

type_synonym 'w spi_bus = "byte list \<Rightarrow> 'w \<Rightarrow> (byte list \<times> 'w) res"

definition bcm2835_spi_transfern :: "'w spi_bus \<Rightarrow> byte list \<Rightarrow> nat \<Rightarrow> 'w \<Rightarrow> (byte list \<times> 'w) res" where
  "bcm2835_spi_transfern bus data n w =
     (if length data < n then Inl Bad_access
      else rbind (bus (take n data) w) (\<lambda>(bs, w'). Inr (bs @ drop n data, w')))"

partial_function (option) transfer_loop ::
  "(byte list \<Rightarrow> (byte list \<times> nat) res) \<Rightarrow> 'w spi_bus \<Rightarrow> byte list \<Rightarrow> 'w \<Rightarrow> (byte list \<times> 'w) res option" where
  "transfer_loop fill bus data w =
     (case rbind (fill data) (\<lambda>(data', n). bcm2835_spi_transfern bus data' n w) of
        Inl e \<Rightarrow> Some (Inl e)
      | Inr x \<Rightarrow> if fst x ! 0 = ucast CONTROL_COMMAND_IGNORED_IN_DEVICE then transfer_loop fill bus (fst x) (snd x)
                else Some (Inr x))"

definition spi_command ::
  "'w spi_bus \<Rightarrow> byte \<Rightarrow> byte \<Rightarrow> byte list \<Rightarrow> nat \<Rightarrow> 'w \<Rightarrow> (byte list \<times> 'w) res option" where
  "spi_command bus resid cmd payload payload_len w =
     lbind (transfer_loop (\<lambda>data. control_build_spi_data data resid cmd payload payload_len) bus
              (replicate SPI_TRANSACTION_MAX_BYTES 0) w) (\<lambda>(data, w1).
       transfer_loop (\<lambda>_. Inr (replicate SPI_TRANSACTION_MAX_BYTES 0, payload_len)) bus data w1)"

definition spi_write_command ::
  "'w spi_bus \<Rightarrow> byte \<Rightarrow> byte \<Rightarrow> byte list \<Rightarrow> nat \<Rightarrow> 'w \<Rightarrow> (control_ret_t \<times> 'w) res option" where
  "spi_write_command bus resid cmd payload payload_len w =
     lbind (spi_command bus resid cmd payload payload_len w) (\<lambda>(data, w'). Some (Inr (ucast (data ! 0), w')))"

definition spi_read_command ::
  "'w spi_bus \<Rightarrow> byte \<Rightarrow> byte \<Rightarrow> byte list \<Rightarrow> nat \<Rightarrow> 'w \<Rightarrow> (control_ret_t \<times> byte list \<times> 'w) res option" where
  "spi_read_command bus resid cmd payload payload_len w =
     lbind (spi_command bus resid cmd payload payload_len w) (\<lambda>(data, w').
     lbind (Some (rbind (read_mem data payload_len) (write_mem payload))) (\<lambda>payload'.
       Some (Inr (CONTROL_SUCCESS, payload', w'))))"

section \<open>USB\<close>

text \<open>A control transfer: its direction, value, index and data or length; the number of bytes or an error.\<close>

record 'w usb_bus =
  usb_out :: "u16 \<Rightarrow> u16 \<Rightarrow> byte list \<Rightarrow> u16 \<Rightarrow> 'w \<Rightarrow> (int \<times> 'w) res"
  usb_in :: "u16 \<Rightarrow> u16 \<Rightarrow> u16 \<Rightarrow> 'w \<Rightarrow> (int \<times> byte list \<times> 'w) res"

definition payload_len_exceeds_control_packet_size :: "nat \<Rightarrow> bool" where
  "payload_len_exceeds_control_packet_size payload_len \<longleftrightarrow> payload_len > USB_TRANSACTION_MAX_BYTES"

definition control_query_version :: "'w usb_bus \<Rightarrow> 'w \<Rightarrow> (control_ret_t \<times> byte option \<times> 'w) res" where
  "control_query_version bus w =
     rbind (control_usb_fill_header CONTROL_SPECIAL_RESID CONTROL_GET_VERSION 1) (\<lambda>(windex, wvalue, wlength).
     rbind (usb_in bus wvalue windex wlength w) (\<lambda>(ret, request_data, w1).
       if ret \<noteq> 1 then Inr (CONTROL_ERROR, None, w1)
       else Inr (CONTROL_SUCCESS, Some (request_data ! 0), w1)))"

definition usb_write_command ::
  "'w usb_bus \<Rightarrow> byte \<Rightarrow> byte \<Rightarrow> byte list \<Rightarrow> nat \<Rightarrow> 'w \<Rightarrow> (control_ret_t \<times> 'w) res" where
  "usb_write_command bus resid cmd payload payload_len w =
     (if payload_len_exceeds_control_packet_size payload_len then Inr (CONTROL_DATA_LENGTH_ERROR, w)
      else
        rbind (control_usb_fill_header resid (CONTROL_CMD_SET_WRITE cmd) payload_len) (\<lambda>(windex, wvalue, wlength).
        rbind (usb_out bus wvalue windex payload wlength w) (\<lambda>(ret, w1).
          if ret \<noteq> int payload_len then Inr (CONTROL_ERROR, w1)
          else rbind (control_usb_fill_header resid (CONTROL_CMD_SET_WRITE cmd) 1) (\<lambda>(windex, wvalue, wlength).
               rbind (usb_in bus wvalue windex wlength w1) (\<lambda>(ret', status, w2).
                 if ret' \<noteq> 1 then Inr (CONTROL_ERROR, w2) else Inr (ucast (status ! 0), w2))))))"

definition usb_read_command ::
  "'w usb_bus \<Rightarrow> byte \<Rightarrow> byte \<Rightarrow> byte list \<Rightarrow> nat \<Rightarrow> 'w \<Rightarrow> (control_ret_t \<times> byte list \<times> 'w) res" where
  "usb_read_command bus resid cmd payload payload_len w =
     (if payload_len_exceeds_control_packet_size payload_len then Inr (CONTROL_DATA_LENGTH_ERROR, payload, w)
      else
        rbind (control_usb_fill_header resid (CONTROL_CMD_SET_READ cmd) payload_len) (\<lambda>(windex, wvalue, wlength).
        rbind (usb_in bus wvalue windex wlength w) (\<lambda>(ret, bs, w1).
          if ret \<noteq> int payload_len then Inr (CONTROL_ERROR, payload, w1)
          else rbind (write_mem payload bs) (\<lambda>payload'. Inr (CONTROL_SUCCESS, payload', w1)))))"

section \<open>Opening a device\<close>

text \<open>
  The settings that the SPI functions are given, if they can be initialised, with the delay between
  transfers.
\<close>

record spi_settings =
  msb_first :: bool
  spi_data_mode :: nat
  spi_clock_divider :: nat
  chip_select :: nat
  chip_select_low :: bool
  intertransaction_delay :: int

definition control_init_spi_pi ::
  "bool \<Rightarrow> bool \<Rightarrow> nat \<Rightarrow> nat \<Rightarrow> int \<Rightarrow> control_ret_t \<times> spi_settings option" where
  "control_init_spi_pi bcm2835_init bcm2835_spi_begin spi_mode clock_divider delay_ns =
     (if \<not> bcm2835_init \<or> \<not> bcm2835_spi_begin then (CONTROL_ERROR, None)
      else (CONTROL_SUCCESS,
            Some \<lparr>msb_first = True, spi_data_mode = spi_mode, spi_clock_divider = clock_divider, chip_select = 0,
                  chip_select_low = True, intertransaction_delay = delay_ns\<rparr>))"

text \<open>
  The devices are given by their vendor and product; \<open>libusb_open\<close> says whether one can be opened. The results are
  the status, the handle, as the number of the device, and whether libusb's list of devices is freed.
\<close>

fun find_device :: "(u16 \<times> u16) list \<Rightarrow> int \<Rightarrow> int \<Rightarrow> nat \<Rightarrow> nat option" where
  "find_device [] vendor_id product_id i = None"
| "find_device ((v, p) # ds) vendor_id product_id i =
     (if uint v = vendor_id \<and> uint p = product_id then Some i else find_device ds vendor_id product_id (i + 1))"

definition control_init_usb ::
  "int \<Rightarrow> (u16 \<times> u16) list \<Rightarrow> (nat \<Rightarrow> int) \<Rightarrow> int \<Rightarrow> int \<Rightarrow> control_ret_t \<times> nat option \<times> bool" where
  "control_init_usb libusb_init devs libusb_open vendor_id product_id =
     (if libusb_init < 0 then (CONTROL_ERROR, None, False)
      else case find_device devs vendor_id product_id 0 of
             None \<Rightarrow> (CONTROL_ERROR, None, False)
           | Some dev \<Rightarrow>
               if libusb_open dev < 0 then (CONTROL_ERROR, None, False)
               else (CONTROL_SUCCESS, Some dev, True))"

text \<open>The device opened is the first one with the vendor and product that are asked for.\<close>

lemma find_device_first:
  "find_device ds v p i = Some k \<Longrightarrow> i \<le> k \<and> k < i + length ds \<and> uint (fst (ds ! (k - i))) = v \<and> uint (snd (ds ! (k - i))) = p
     \<and> (\<forall>j < k - i. \<not> (uint (fst (ds ! j)) = v \<and> uint (snd (ds ! j)) = p))"
proof (induction ds v p i rule: find_device.induct)
  case (2 v p ds vendor_id product_id i)
  show ?case
  proof (cases "uint v = vendor_id \<and> uint p = product_id")
    case True
    with 2(2) show ?thesis by simp
  next
    case False
    with 2 have h: "i + 1 \<le> k" "k < i + 1 + length ds" "uint (fst (ds ! (k - (i + 1)))) = vendor_id"
      "uint (snd (ds ! (k - (i + 1)))) = product_id"
      "\<forall>j < k - (i + 1). \<not> (uint (fst (ds ! j)) = vendor_id \<and> uint (snd (ds ! j)) = product_id)" by auto
    then have k: "k - i = Suc (k - (i + 1))" by simp
    from h False show ?thesis unfolding k by (auto simp: less_Suc_eq_0_disj)
  qed
qed simp

lemma control_init_usb_opens:
  assumes "control_init_usb r devs op v p = (CONTROL_SUCCESS, Some k, freed)"
  shows "k < length devs \<and> uint (fst (devs ! k)) = v \<and> uint (snd (devs ! k)) = p \<and> 0 \<le> op k \<and> freed"
  using assms find_device_first [of devs v p 0]
  by (auto simp: control_init_usb_def CONTROL_SUCCESS_def CONTROL_ERROR_def split: if_splits option.splits)

text \<open>The list of devices is only freed where a device is opened.\<close>

lemma control_init_usb_keeps_list:
  "fst (control_init_usb r devs op v p) = CONTROL_ERROR \<Longrightarrow> \<not> snd (snd (control_init_usb r devs op v p))"
  by (auto simp: control_init_usb_def CONTROL_SUCCESS_def CONTROL_ERROR_def split: if_splits option.splits)

section \<open>A host and a device\<close>

text \<open>
  The buses that connect a host with a device, as the drivers of the device see the transfers. An I2C
  transfer is one of the driver's: it keeps the first bytes of a write that its buffer holds, and gives
  a read the bytes of its buffer, and then zeros.
\<close>

type_synonym 's device = "device_control \<times> byte list \<times> 's"

definition i2c_device_write ::
  "'s servicer_cbs \<Rightarrow> (nat \<Rightarrow> byte list) \<Rightarrow> byte list \<Rightarrow> 's device \<Rightarrow> (int \<times> 's device) res" where
  "i2c_device_write cbs mem bs w =
     (case w of (ctx, buf, s) \<Rightarrow>
        let data = take RTOS_I2C_SLAVE_BUF_LEN bs in
        rbind (device_control_i2c_rx_cb cbs mem ctx data s) (\<lambda>(data', ctx', s').
          Inr (int (length data), ctx', data' @ drop (length data') buf, s')))"

definition i2c_device_read ::
  "'s servicer_cbs \<Rightarrow> (nat \<Rightarrow> byte list) \<Rightarrow> nat \<Rightarrow> 's device \<Rightarrow> (int \<times> byte list \<times> 's device) res" where
  "i2c_device_read cbs mem n w =
     (case w of (ctx, buf, s) \<Rightarrow>
        rbind (device_control_i2c_tx_start_cb cbs mem ctx buf s) (\<lambda>(len, buf', ctx', s').
          Inr (int n, take n (take len buf' @ replicate n 0), ctx', buf', s')))"

definition i2c_device_bus :: "'s servicer_cbs \<Rightarrow> (nat \<Rightarrow> byte list) \<Rightarrow> 's device i2c_bus" where
  "i2c_device_bus cbs mem =
     \<lparr>i2c_open = (\<lambda>w. (3, w)), i2c_set_slave = (\<lambda>_ w. (0, w)),
      i2c_write = i2c_device_write cbs mem, i2c_read = i2c_device_read cbs mem,
      i2c_rdwr = (\<lambda>bs n w. rbind (i2c_device_write cbs mem bs w) (\<lambda>(_, w1). i2c_device_read cbs mem n w1))\<rparr>"

text \<open>
  TinyUSB calls the transport at the stages of a control transfer, with a data stage only for data. What the
  transport answers to the setup stage is a length of its buffer for the data stage, or that the request
  stalls, an error of the host.
\<close>

definition USB_STALL :: int where "USB_STALL = - 9"

definition usb_device_out ::
  "'s servicer_cbs \<Rightarrow> (nat \<Rightarrow> byte list) \<Rightarrow> u16 \<Rightarrow> u16 \<Rightarrow> byte list \<Rightarrow> u16 \<Rightarrow> 's device \<Rightarrow> (int \<times> 's device) res" where
  "usb_device_out cbs mem value index payload len w =
     (case w of (ctx, buf, s) \<Rightarrow>
        let req = \<lparr>bmRequestType = REQ_OUT, wValue = value, wIndex = index, wLength = len\<rparr> in
        rbind (device_control_usb_xfer cbs mem CONTROL_STAGE_SETUP req ctx buf s) (\<lambda>(answer, ctx1, buf1, s1).
          case answer of
            Usb_false \<Rightarrow> Inr (USB_STALL, ctx1, buf1, s1)
          | Usb_true \<Rightarrow> Inr (0, ctx1, buf1, s1)
          | Usb_control_xfer m \<Rightarrow>
              let k = min m (unat len) in
              if k = 0 then Inr (0, ctx1, buf1, s1)
              else if length payload < k \<or> length buf1 < k then Inl Bad_access
              else rbind (device_control_usb_xfer cbs mem CONTROL_STAGE_DATA req ctx1 (take k payload @ drop k buf1) s1)
                     (\<lambda>(answer, ctx2, buf2, s2).
                   Inr (if answer = Usb_false then USB_STALL else int k, ctx2, buf2, s2))))"

definition usb_device_in ::
  "'s servicer_cbs \<Rightarrow> (nat \<Rightarrow> byte list) \<Rightarrow> u16 \<Rightarrow> u16 \<Rightarrow> u16 \<Rightarrow> 's device \<Rightarrow> (int \<times> byte list \<times> 's device) res" where
  "usb_device_in cbs mem value index len w =
     (case w of (ctx, buf, s) \<Rightarrow>
        let req = \<lparr>bmRequestType = REQ_IN, wValue = value, wIndex = index, wLength = len\<rparr> in
        rbind (device_control_usb_xfer cbs mem CONTROL_STAGE_SETUP req ctx buf s) (\<lambda>(answer, ctx1, buf1, s1).
          case answer of
            Usb_false \<Rightarrow> Inr (USB_STALL, [], ctx1, buf1, s1)
          | Usb_true \<Rightarrow> Inr (0, [], ctx1, buf1, s1)
          | Usb_control_xfer m \<Rightarrow>
              let k = min m (unat len) in
              if length buf1 < k then Inl Bad_access
              else Inr (int k, take k buf1, ctx1, buf1, s1)))"

definition usb_device_bus :: "'s servicer_cbs \<Rightarrow> (nat \<Rightarrow> byte list) \<Rightarrow> 's device usb_bus" where
  "usb_device_bus cbs mem = \<lparr>usb_out = usb_device_out cbs mem, usb_in = usb_device_in cbs mem\<rparr>"

text \<open>
  The SPI slave driver exchanges the bytes of a transfer with the buffers it is prepared with and calls
  back, or, when the transport has not prepared it again, with the default ones, without a call. The
  list says which of the transfers to come find it unprepared.
\<close>

type_synonym 's spi_device = "(device_control \<times> spi_bufs \<times> 's) \<times> bool list"

definition spi_accept ::
  "'s servicer_cbs \<Rightarrow> (nat \<Rightarrow> byte list) \<Rightarrow> byte list \<Rightarrow> device_control \<times> spi_bufs \<times> 's
     \<Rightarrow> (byte list \<times> device_control \<times> spi_bufs \<times> 's) res" where
  "spi_accept cbs mem bs x =
     (case x of (ctx, bufs, s) \<Rightarrow>
        let n = length bs; bufs1 = bufs(Spi_xfer_rx := bs @ drop n (bufs Spi_xfer_rx)) in
        if SPI_XFER_RX_SIZE < n then Inl Bad_access
        else rbind (device_control_spi_xfer_done_cb cbs mem ctx bufs1 Spi_xfer_rx n Spi_xfer_tx n s)
               (\<lambda>(ctx', bufs', s', prepared). Inr (take n (bufs Spi_xfer_tx), ctx', bufs', s')))"

definition spi_device_bus :: "'s servicer_cbs \<Rightarrow> (nat \<Rightarrow> byte list) \<Rightarrow> 's spi_device spi_bus" where
  "spi_device_bus cbs mem bs w =
     (case w of (x, busy) \<Rightarrow>
        if busy \<noteq> [] \<and> hd busy then Inr (take (length bs) (fst (snd x) Spi_xfer_tx_default), x, tl busy)
        else rbind (spi_accept cbs mem bs x) (\<lambda>(reply, x'). Inr (reply, x', tl busy)))"

lemma store_payload_ok:
  "n \<le> length payload \<Longrightarrow> k + n \<le> length buf \<Longrightarrow>
     store_payload buf k payload n = Inr (put_at buf k (take n payload))"
proof (induction buf k payload n rule: store_payload.induct)
  case (3 buf k b payload n)
  then have "store_payload buf k (b # payload) (Suc n) = Inr (put_at (buf[k := b]) (Suc k) (take n payload))"
    by simp
  moreover have "put_at (buf[k := b]) (Suc k) (take n payload) = put_at buf k (take (Suc n) (b # payload))"
    using 3 put_at_put_at [of k "[b]" "take n payload" buf] by (simp add: put_at_single min_def)
  ultimately show ?case by simp
qed simp_all

lemma store_payload_overruns: "n \<le> length payload \<Longrightarrow> k \<le> length buf \<Longrightarrow> length buf < k + n \<Longrightarrow> store_payload buf k payload n = Inl Bad_access"
  by (induction buf k payload n rule: store_payload.induct) auto

lemma build_i2c_write:
  assumes "\<not> IS_CONTROL_CMD_READ cmd" and "n \<le> length payload" and "3 + n \<le> length buf"
  shows "\<exists>b. control_build_i2c_data buf r cmd payload n = Inr (b, 3 + n) \<and> length b = length buf
    \<and> take (3 + n) b = [r, cmd, of_nat n] @ take n payload"
proof -
  let ?h = "put_at buf 0 [r, cmd, of_nat n]"
  have "put_at ?h (0 + length [r, cmd, of_nat n]) (take n payload) = put_at buf 0 ([r, cmd, of_nat n] @ take n payload)"
    by (rule put_at_put_at) (use assms(2,3) in \<open>simp add: min_def\<close>)
  moreover have "0 + length [r, cmd, of_nat n :: byte] = 3" by simp
  ultimately have "put_at ?h 3 (take n payload) = [r, cmd, of_nat n] @ take n payload @ drop (3 + n) buf"
    using assms(2) by (simp only:) (simp add: put_at_def min_def numeral_3_eq_3)
  then show ?thesis
    using assms store_payload_ok [of 3 "[r, cmd, of_nat n]" 0 buf] store_payload_ok [of n payload 3 ?h]
    by (simp add: control_build_i2c_data_def numeral_3_eq_3)
qed

lemma build_i2c_read:
  assumes "IS_CONTROL_CMD_READ cmd" and "3 \<le> length buf"
  shows "\<exists>b. control_build_i2c_data buf r cmd payload n = Inr (b, 3) \<and> length b = length buf
    \<and> take 3 b = [r, cmd, of_nat n]"
  using assms store_payload_ok [of 3 "[r, cmd, of_nat n]" 0 buf]
  by (simp add: control_build_i2c_data_def put_at_def)

lemma build_spi_write:
  assumes "\<not> IS_CONTROL_CMD_READ cmd" and "n \<le> length payload" and "3 + n \<le> length buf" and "8 \<le> length buf"
  shows "\<exists>b. control_build_spi_data buf r cmd payload n = Inr (b, 3 + n) \<and> length b = length buf
    \<and> take (3 + n) b = [r, cmd, of_nat n] @ take n payload"
proof -
  let ?h = "put_at buf 0 [r, cmd, of_nat n, 0, 0, 0, 0, 0]"
  have h: "store_payload buf 0 [r, cmd, of_nat n, 0, 0, 0, 0, 0] 8 = Inr ?h"
    using store_payload_ok [of 8 "[r, cmd, of_nat n, 0, 0, 0, 0, 0]" 0 buf] assms(4) by simp
  have l: "length ?h = length buf" using assms(4) by simp
  have "store_payload ?h 3 payload n = Inr (put_at ?h 3 (take n payload))"
    using assms l by (intro store_payload_ok) simp_all
  moreover have "take (3 + n) (put_at ?h 3 (take n payload)) = [r, cmd, of_nat n] @ take n payload"
    using assms by (simp add: put_at_def min_def numeral_3_eq_3)
  moreover have "length (put_at ?h 3 (take n payload)) = length buf"
    using assms l by (subst length_put_at) (simp_all add: min_def)
  ultimately show ?thesis using assms(1) h by (simp add: control_build_spi_data_def)
qed

lemma build_spi_read:
  assumes "IS_CONTROL_CMD_READ cmd" and "8 \<le> length buf"
  shows "\<exists>b. control_build_spi_data buf r cmd payload n = Inr (b, 8) \<and> length b = length buf
    \<and> take 8 b = [r, cmd, of_nat n, 0, 0, 0, 0, 0]"
  using assms store_payload_ok [of 8 "[r, cmd, of_nat n, 0, 0, 0, 0, 0]" 0 buf]
  by (simp add: control_build_spi_data_def put_at_def)

section \<open>A host's commands\<close>

text \<open>
  What a host asks of servicer \<open>i\<close>, which has resource \<open>r\<close>; and what it amounts to: a call of the
  servicer's function, its status in a byte.
\<close>

datatype host_cmd = Host_write nat byte byte "byte list" nat | Host_read nat byte byte "byte list" nat

type_synonym 'w host_link =
  "(byte \<Rightarrow> byte \<Rightarrow> byte list \<Rightarrow> nat \<Rightarrow> 'w \<Rightarrow> (control_ret_t \<times> 'w) res)
   \<times> (byte \<Rightarrow> byte \<Rightarrow> byte list \<Rightarrow> nat \<Rightarrow> 'w \<Rightarrow> (control_ret_t \<times> byte list \<times> 'w) res)"

fun host_exec :: "'w host_link \<Rightarrow> host_cmd \<Rightarrow> 'w \<Rightarrow> ((control_ret_t \<times> byte list) \<times> 'w) res" where
  "host_exec l (Host_write i r cmd payload n) w = rbind (fst l r cmd payload n w) (\<lambda>(ret, w'). Inr ((ret, payload), w'))"
| "host_exec l (Host_read i r cmd payload n) w = rbind (snd l r cmd payload n w) (\<lambda>(ret, p, w'). Inr ((ret, p), w'))"

fun host_run :: "'w host_link \<Rightarrow> host_cmd list \<Rightarrow> 'w \<Rightarrow> ((control_ret_t \<times> byte list) list \<times> 'w) res" where
  "host_run l [] w = Inr ([], w)"
| "host_run l (q # qs) w = rbind (host_exec l q w) (\<lambda>(r, w1). rbind (host_run l qs w1) (\<lambda>(rs, w2). Inr (r # rs, w2)))"

definition status_byte :: "control_ret_t \<Rightarrow> control_ret_t" where
  "status_byte ret = ucast (ucast ret :: byte)"

fun servicer_exec ::
  "'s servicer_cbs \<Rightarrow> registration list \<Rightarrow> host_cmd \<Rightarrow> 's \<Rightarrow> (control_ret_t \<times> byte list) \<times> 's" where
  "servicer_exec cbs regs (Host_write i r cmd payload n) s =
     (let (ret, s') = write_cmd_cb cbs (init_queue (snd (regs ! i))) r cmd (take n payload) s
      in ((status_byte ret, payload), s'))"
| "servicer_exec cbs regs (Host_read i r cmd payload n) s =
     (let (ret, out, s') = read_cmd_cb cbs (init_queue (snd (regs ! i))) r cmd (replicate n 0) s
      in ((CONTROL_SUCCESS, out @ drop n payload), s'))"

fun servicer_run ::
  "'s servicer_cbs \<Rightarrow> registration list \<Rightarrow> host_cmd list \<Rightarrow> 's \<Rightarrow> (control_ret_t \<times> byte list) list \<times> 's" where
  "servicer_run cbs regs [] s = ([], s)"
| "servicer_run cbs regs (q # qs) s =
     (let (r, s1) = servicer_exec cbs regs q s; (rs, s2) = servicer_run cbs regs qs s1 in (r # rs, s2))"

text \<open>Commands for a registered resource, with at least one byte and at most so many.\<close>

fun host_cmd_ok :: "nat \<Rightarrow> registration list \<Rightarrow> host_cmd \<Rightarrow> bool" where
  "host_cmd_ok most regs (Host_write i r cmd payload n) \<longleftrightarrow>
     i < length regs \<and> r \<in> set (init_resources (snd (regs ! i))) \<and> \<not> IS_CONTROL_CMD_READ cmd \<and>
     0 < n \<and> n \<le> length payload \<and> n \<le> most"
| "host_cmd_ok most regs (Host_read i r cmd payload n) \<longleftrightarrow>
     i < length regs \<and> r \<in> set (init_resources (snd (regs ! i))) \<and> IS_CONTROL_CMD_READ cmd \<and>
     0 < n \<and> n \<le> length payload \<and> n \<le> most"

text \<open>The contract of a link: a command is the servicer's call.\<close>

locale control_link =
  fixes cbs :: "'s servicer_cbs" and regs :: "registration list" and l :: "'w host_link"
    and inv :: "'w \<Rightarrow> bool" and servicers :: "'w \<Rightarrow> 's" and most :: nat
  assumes cmd: "inv w \<Longrightarrow> host_cmd_ok most regs q \<Longrightarrow>
      \<exists>w'. host_exec l q w = Inr (fst (servicer_exec cbs regs q (servicers w)), w') \<and> inv w'
        \<and> servicers w' = snd (servicer_exec cbs regs q (servicers w))"
begin

lemma run_ok:
  assumes "inv w" and "list_all (host_cmd_ok most regs) qs"
  shows "\<exists>w'. host_run l qs w = Inr (fst (servicer_run cbs regs qs (servicers w)), w') \<and> inv w'
    \<and> servicers w' = snd (servicer_run cbs regs qs (servicers w))"
  using assms
proof (induction qs arbitrary: w)
  case (Cons q qs)
  obtain w1 where w1: "host_exec l q w = Inr (fst (servicer_exec cbs regs q (servicers w)), w1)" "inv w1"
    "servicers w1 = snd (servicer_exec cbs regs q (servicers w))"
    using cmd [OF Cons.prems(1), of q] Cons.prems(2) by auto
  from Cons.IH [OF w1(2)] Cons.prems(2) w1(1,3) show ?case by (auto simp: case_prod_unfold Let_def)
qed simp

end

definition control_ok :: "'s servicer_cbs \<Rightarrow> (nat \<Rightarrow> byte list) \<Rightarrow> registration list \<Rightarrow> device_control \<Rightarrow> bool" where
  "control_ok cbs mem regs ctx \<longleftrightarrow>
     registered regs ctx \<and> servicer_count ctx \<le> 255 \<and> callbacks_ok cbs \<and> (\<forall>n. length (mem n) = n)"

lemma control_ok_serves:
  "control_ok cbs mem regs ctx \<Longrightarrow> i < length regs \<Longrightarrow> r \<in> set (init_resources (snd (regs ! i))) \<Longrightarrow>
     serves cbs mem regs i r ctx"
  by (simp add: control_ok_def serves_def)

lemma control_ok_update [simp]:
  "control_ok cbs mem regs (ctx\<lparr>requested_resid := r'\<rparr>) = control_ok cbs mem regs ctx"
  "control_ok cbs mem regs (ctx\<lparr>requested_cmd := c\<rparr>) = control_ok cbs mem regs ctx"
  "control_ok cbs mem regs (ctx\<lparr>requested_payload_len := n\<rparr>) = control_ok cbs mem regs ctx"
  "control_ok cbs mem regs (ctx\<lparr>last_status := b\<rparr>) = control_ok cbs mem regs ctx"
  by (simp_all add: control_ok_def registered_def)

text \<open>What a read callback gives does not depend on its buffer.\<close>

lemma read_any_buffer:
  assumes "control_ok cbs mem regs ctx" and "n \<le> length buf"
    and "read_cmd_cb cbs q r cmd (replicate n 0) s = (ret, out, s')"
  shows "read_cmd_cb cbs q r cmd (take n buf) s = (ret, out, s')" and "length out = n"
proof -
  have "\<forall>buf'. length (replicate n (0 :: byte)) = length buf' \<longrightarrow>
      length out = length (replicate n (0 :: byte)) \<and> read_cmd_cb cbs q r cmd buf' s = (ret, out, s')"
    using assms(1,3) unfolding control_ok_def callbacks_ok_def by blast
  from spec [OF this, of "take n buf"] assms(2)
  show "read_cmd_cb cbs q r cmd (take n buf) s = (ret, out, s')" "length out = n" by simp_all
qed

lemma unat_of_nat_byte: "n \<le> 255 \<Longrightarrow> unat (of_nat n :: byte) = n"
  by (simp add: unat_of_nat take_bit_nat_eq_self)

section \<open>Over I2C\<close>

definition i2c_link :: "'s servicer_cbs \<Rightarrow> (nat \<Rightarrow> byte list) \<Rightarrow> 's device host_link" where
  "i2c_link cbs mem = (i2c_write_command (i2c_device_bus cbs mem), i2c_read_command (i2c_device_bus cbs mem))"

definition i2c_inv ::
  "'s servicer_cbs \<Rightarrow> (nat \<Rightarrow> byte list) \<Rightarrow> registration list \<Rightarrow> 's device \<Rightarrow> bool" where
  "i2c_inv cbs mem regs w \<longleftrightarrow> control_ok cbs mem regs (fst w) \<and> length (fst (snd w)) = RTOS_I2C_SLAVE_BUF_LEN"

lemma i2c_write_ok:
  assumes c: "control_ok cbs mem regs ctx" and b: "length buf = RTOS_I2C_SLAVE_BUF_LEN"
    and q: "host_cmd_ok 253 regs (Host_write i r cmd payload n)"
    and w: "write_cmd_cb cbs (init_queue (snd (regs ! i))) r cmd (take n payload) s = (ret, s')"
  shows "\<exists>ctx' buf'. i2c_write_command (i2c_device_bus cbs mem) r cmd payload n (ctx, buf, s)
    = Inr (status_byte ret, ctx', buf', s') \<and> i2c_inv cbs mem regs (ctx', buf', s')"
proof -
  have sv: "serves cbs mem regs i r ctx" using control_ok_serves [OF c] q by simp
  have n: "n \<le> 253" "n \<le> length payload" "\<not> IS_CONTROL_CMD_READ cmd" using q by simp_all
  let ?d = "[r, cmd, of_nat n] @ take n payload"
  obtain x where x: "control_build_i2c_data (replicate (I2C_TRANSACTION_MAX_BYTES + 3) 0) r cmd payload n = Inr (x, 3 + n)"
    "take (3 + n) x = ?d"
    using build_i2c_write [OF n(3,2), of "replicate (I2C_TRANSACTION_MAX_BYTES + 3) 0" r] n(1)
    by (auto simp: I2C_TRANSACTION_MAX_BYTES_def)
  have u: "unat (of_nat n :: byte) = n" using n(1) by (simp add: unat_of_nat_byte)
  let ?c = "(requested r cmd n ctx)\<lparr>last_status := ucast ret\<rparr>"
  have tw: "device_control_payload_transfer cbs mem (requested r cmd n ctx) (take n payload) n CONTROL_HOST_TO_DEVICE s
      = Inr (CONTROL_SUCCESS, take n payload, ?c, s')"
    by (rule serves_transfer_write [OF sv n(3)]) (use n(2) w in simp_all)
  have ln: "length (take n payload) = n" using n(2) by simp
  have rx: "device_control_i2c_rx_cb cbs mem ctx ?d s = Inr (?d, ?c, s')"
    using serves_request [OF sv, of cmd n] u tw ln by (simp add: device_control_i2c_rx_cb_def del: length_take take_all_iff)
  have cc: "?c = requested r cmd n (ctx\<lparr>last_status := ucast ret\<rparr>)" by simp
  have tx: "device_control_payload_transfer cbs mem ?c p m CONTROL_DEVICE_TO_HOST s'
      = Inr (CONTROL_SUCCESS, p[0 := ucast ret], ?c, s')" if "p \<noteq> []" for p m
    using serves_transfer_status [of cbs mem regs i r "ctx\<lparr>last_status := ucast ret\<rparr>" cmd p n m s'] sv n(3) that
    unfolding cc by simp
  let ?b = "?d @ drop (length ?d) buf"
  have l: "length ?d = 3 + n" "take 256 ?d = ?d" using n by simp_all
  have dw: "i2c_device_write cbs mem ?d (ctx, buf, s) = Inr (int (3 + n), ?c, ?b, s')"
    unfolding i2c_device_write_def RTOS_I2C_SLAVE_BUF_LEN_def prod.case Let_def l(2) rx using l(1) by simp
  have lb: "length ?b = 256" using l b n by (simp add: RTOS_I2C_SLAVE_BUF_LEN_def)
  have "i2c_device_read cbs mem 1 (?c, ?b, s') = Inr (1, [ucast ret], ?c, ?b[0 := ucast ret], s')"
    using tx [of ?b] lb by (simp add: i2c_device_read_def device_control_i2c_tx_start_cb_def RTOS_I2C_SLAVE_BUF_LEN_def)
  moreover have "i2c_inv cbs mem regs (?c, ?b[0 := ucast ret], s')"
    using c lb by (simp add: i2c_inv_def RTOS_I2C_SLAVE_BUF_LEN_def)
  moreover have "i2c_write_command (i2c_device_bus cbs mem) r cmd payload n (ctx, buf, s)
      = rbind (i2c_device_read cbs mem 1 (?c, ?b, s')) (\<lambda>(numbytes', command_status, w2).
          if numbytes' < 0 then Inr (CONTROL_ERROR, w2) else Inr (ucast (command_status ! 0), w2))"
    unfolding i2c_write_command_def x(1) rbind_Inr prod.case x(2) i2c_device_bus_def i2c_bus.simps dw by simp
  ultimately show ?thesis by (auto simp: status_byte_def)
qed

lemma i2c_read_ok:
  assumes c: "control_ok cbs mem regs ctx" and b: "length buf = RTOS_I2C_SLAVE_BUF_LEN"
    and q: "host_cmd_ok 255 regs (Host_read i r cmd payload n)"
    and w: "read_cmd_cb cbs (init_queue (snd (regs ! i))) r cmd (replicate n 0) s = (ret, out, s')"
  shows "\<exists>ctx' buf'. i2c_read_command (i2c_device_bus cbs mem) r cmd payload n (ctx, buf, s)
    = Inr (CONTROL_SUCCESS, out @ drop n payload, ctx', buf', s') \<and> i2c_inv cbs mem regs (ctx', buf', s')"
proof -
  have sv: "serves cbs mem regs i r ctx" using control_ok_serves [OF c] q by simp
  have n: "n \<le> 255" "n \<le> length payload" "IS_CONTROL_CMD_READ cmd" "0 < n" using q by simp_all
  obtain x where x: "control_build_i2c_data (replicate I2C_TRANSACTION_MAX_BYTES 0) r cmd payload n = Inr (x, 3)"
    "take 3 x = [r, cmd, of_nat n]"
    using build_i2c_read [OF n(3), of "replicate I2C_TRANSACTION_MAX_BYTES 0" r payload n]
    by (auto simp: I2C_TRANSACTION_MAX_BYTES_def)
  have u: "unat (of_nat n :: byte) = n" "unat (of_nat n :: u16) = n"
    using n(1) by (simp_all add: unat_of_nat take_bit_nat_eq_self)
  let ?c = "(requested r cmd n ctx)\<lparr>last_status := ucast CONTROL_SUCCESS\<rparr>"
  have rx: "device_control_i2c_rx_cb cbs mem ctx [r, cmd, of_nat n] s = Inr ([r, cmd, of_nat n], ?c, s)"
    using serves_request [OF sv, of cmd n] u serves_transfer_read_request [OF sv n(3), of n "[]" 0 s]
    by (simp add: device_control_i2c_rx_cb_def)
  let ?b = "[r, cmd, of_nat n] @ drop 3 buf"
  have l: "length ?b = 256" "RTOS_I2C_SLAVE_BUF_LEN = 256" using b by (simp_all add: RTOS_I2C_SLAVE_BUF_LEN_def)
  have nb: "n \<le> length ?b" using l n(1) by simp
  note rd = read_any_buffer [OF c nb w]
  have cc: "?c = requested r cmd n (ctx\<lparr>last_status := ucast CONTROL_SUCCESS\<rparr>)" by simp
  have tx: "device_control_payload_transfer cbs mem ?c ?b 256 CONTROL_DEVICE_TO_HOST s
      = Inr (CONTROL_SUCCESS, out @ drop n ?b, ?c, s')"
    unfolding cc using serves_transfer_read [of cbs mem regs i r "ctx\<lparr>last_status := ucast CONTROL_SUCCESS\<rparr>" cmd n ?b s ret out s' 256]
      sv n(3,4) nb rd(1) by simp
  have dw: "i2c_device_write cbs mem [r, cmd, of_nat n] (ctx, buf, s) = Inr (3, ?c, ?b, s)"
    using rx by (simp add: i2c_device_write_def RTOS_I2C_SLAVE_BUF_LEN_def numeral_3_eq_3)
  have "length (out @ drop n ?b) = 256" using rd(2) n(1) l by simp
  then have dr: "i2c_device_read cbs mem n (?c, ?b, s) = Inr (int n, out, ?c, out @ drop n ?b, s')"
    using tx rd(2) by (simp add: i2c_device_read_def device_control_i2c_tx_start_cb_def RTOS_I2C_SLAVE_BUF_LEN_def)
  have "i2c_inv cbs mem regs (?c, out @ drop n ?b, s')"
    using c rd(2) n(1) l by (simp add: i2c_inv_def)
  with x dw dr n(2) u(2) rd(2) show ?thesis
    by (simp add: i2c_read_command_def i2c_device_bus_def)
qed

interpretation i2c_control: control_link cbs regs "i2c_link cbs mem" "i2c_inv cbs mem regs" "\<lambda>w. snd (snd w)" 253
  for cbs mem regs
proof
  fix w q
  assume w: "i2c_inv cbs mem regs w" and q: "host_cmd_ok 253 regs q"
  obtain ctx buf s where s: "w = (ctx, buf, s)" by (metis prod.exhaust)
  have c: "control_ok cbs mem regs ctx" "length buf = RTOS_I2C_SLAVE_BUF_LEN" using w s by (simp_all add: i2c_inv_def)
  show "\<exists>w'. host_exec (i2c_link cbs mem) q w = Inr (fst (servicer_exec cbs regs q (snd (snd w))), w')
    \<and> i2c_inv cbs mem regs w' \<and> snd (snd w') = snd (servicer_exec cbs regs q (snd (snd w)))"
  proof (cases q)
    case (Host_write i r cmd payload n)
    obtain ret s' where "write_cmd_cb cbs (init_queue (snd (regs ! i))) r cmd (take n payload) s = (ret, s')" by force
    with i2c_write_ok [OF c, of i r cmd payload n s ret s'] q Host_write s show ?thesis
      by (auto simp: i2c_link_def)
  next
    case (Host_read i r cmd payload n)
    obtain ret out s' where "read_cmd_cb cbs (init_queue (snd (regs ! i))) r cmd (replicate n 0) s = (ret, out, s')"
      by (metis prod.exhaust)
    with i2c_read_ok [OF c, of i r cmd payload n s ret out s'] q Host_read s show ?thesis
      by (auto simp: i2c_link_def)
  qed
qed

section \<open>Over USB\<close>

definition usb_link :: "'s servicer_cbs \<Rightarrow> (nat \<Rightarrow> byte list) \<Rightarrow> 's device host_link" where
  "usb_link cbs mem = (usb_write_command (usb_device_bus cbs mem), usb_read_command (usb_device_bus cbs mem))"

definition usb_inv ::
  "'s servicer_cbs \<Rightarrow> (nat \<Rightarrow> byte list) \<Rightarrow> registration list \<Rightarrow> 's device \<Rightarrow> bool" where
  "usb_inv cbs mem regs w \<longleftrightarrow> control_ok cbs mem regs (fst w) \<and> length (fst (snd w)) = USB_TRANSACTION_MAX_BYTES"

lemma bit_read_flag: "bit (0x80 :: byte) k \<longleftrightarrow> k = 7"
  using bit_push_bit_iff [of 7 "1 :: byte" k] by (auto simp: bit_simps possible_bit_word push_bit_of_1)

lemma IS_CONTROL_CMD_READ_bit: "IS_CONTROL_CMD_READ cmd \<longleftrightarrow> bit cmd 7"
proof (cases "bit cmd 7")
  case True
  then have "bit (cmd AND 0x80) 7" by (simp only: bit_and_iff bit_read_flag simp_thms)
  then have "cmd AND 0x80 \<noteq> 0" by (metis bit_0_eq bot_apply bot_bool_def)
  with True show ?thesis by (simp add: IS_CONTROL_CMD_READ_def)
next
  case False
  then have "cmd AND 0x80 = 0"
    by (intro bit_word_eqI) (simp only: bit_and_iff bit_read_flag bit_0_eq bot_apply bot_bool_def, blast)
  with False show ?thesis by (simp add: IS_CONTROL_CMD_READ_def)
qed

lemma cmd_kind:
  "\<not> IS_CONTROL_CMD_READ cmd \<Longrightarrow> CONTROL_CMD_SET_WRITE cmd = cmd"
  "IS_CONTROL_CMD_READ cmd \<Longrightarrow> CONTROL_CMD_SET_READ cmd = cmd"
  unfolding IS_CONTROL_CMD_READ_bit CONTROL_CMD_SET_WRITE_def CONTROL_CMD_SET_READ_def
  by (rule bit_word_eqI, simp only: bit_and_iff bit_or_iff bit_not_iff bit_read_flag possible_bit_word, blast)+

lemma ucast_byte: "ucast (ucast (b :: byte) :: u16) = b"
  by (rule bit_word_eqI) (simp add: bit_simps)

lemma usb_write_ok:
  assumes c: "control_ok cbs mem regs ctx" and b: "length buf = USB_TRANSACTION_MAX_BYTES"
    and q: "host_cmd_ok USB_TRANSACTION_MAX_BYTES regs (Host_write i r cmd payload n)"
    and w: "write_cmd_cb cbs (init_queue (snd (regs ! i))) r cmd (take n payload) s = (ret, s')"
  shows "\<exists>ctx' buf'. usb_write_command (usb_device_bus cbs mem) r cmd payload n (ctx, buf, s)
    = Inr (status_byte ret, ctx', buf', s') \<and> usb_inv cbs mem regs (ctx', buf', s')"
proof -
  have sv: "serves cbs mem regs i r ctx" using control_ok_serves [OF c] q by simp
  have n: "n \<le> 64" "n \<le> length payload" "\<not> IS_CONTROL_CMD_READ cmd" "0 < n"
    using q by (simp_all add: USB_TRANSACTION_MAX_BYTES_def)
  have u: "unat (of_nat n :: u16) = n" using n(1) by (simp add: unat_of_nat take_bit_nat_eq_self)
  let ?b = "take n payload @ drop n buf"
  let ?c = "requested r cmd n (ctx\<lparr>last_status := ucast ret\<rparr>)"
  let ?c' = "requested r cmd 1 (ctx\<lparr>last_status := ucast ret\<rparr>)"
  have lb: "length ?b = 64" "take n ?b = take n payload" using b n by (simp_all add: USB_TRANSACTION_MAX_BYTES_def)
  have tw: "device_control_payload_transfer cbs mem (requested r cmd n ctx) ?b n CONTROL_HOST_TO_DEVICE s
      = Inr (CONTROL_SUCCESS, ?b, ?c, s')"
  proof -
    have "write_cmd_cb cbs (init_queue (snd (regs ! i))) r cmd (take n ?b) s = (ret, s')" by (simp only: lb(2) w)
    from serves_transfer_write [OF sv n(3) _ order_refl this] lb(1) n(1) show ?thesis by simp
  qed
  have o: "usb_device_out cbs mem (ucast cmd) (ucast r) payload (of_nat n) (ctx, buf, s) = Inr (int n, ?c, ?b, s')"
    using serves_request [OF sv, of cmd n] tw n(1,2,4) b u
    by (simp add: usb_device_out_def device_control_usb_xfer_def ucast_byte Let_def USB_TRANSACTION_MAX_BYTES_def)
  have sv': "serves cbs mem regs i r ?c" using sv by simp
  have ts: "device_control_payload_transfer cbs mem ?c' ?b 64 CONTROL_DEVICE_TO_HOST s'
      = Inr (CONTROL_SUCCESS, ?b[0 := ucast ret], ?c', s')"
    using serves_transfer_status [of cbs mem regs i r "ctx\<lparr>last_status := ucast ret\<rparr>" cmd ?b 1 64 s'] sv n(3) lb(1)
    by fastforce
  have req: "device_control_request ?c r cmd 1 = Inr (CONTROL_SUCCESS, ?c')"
    using serves_request [OF sv', of cmd 1] by simp
  have "?b[0 := ucast ret] = ucast ret # drop 1 ?b" using lb(1) by (cases ?b) simp_all
  then have i: "usb_device_in cbs mem (ucast cmd) (ucast r) 1 (?c, ?b, s') = Inr (1, [ucast ret], ?c', ?b[0 := ucast ret], s')"
    using req ts lb(1)
    by (simp add: usb_device_in_def device_control_usb_xfer_def ucast_byte Let_def REQ_IN_def REQ_OUT_def)
  have "usb_inv cbs mem regs (?c', ?b[0 := ucast ret], s')"
    using c lb(1) by (simp add: usb_inv_def USB_TRANSACTION_MAX_BYTES_def)
  with o i n(1) cmd_kind(1) [OF n(3)] show ?thesis
    by (simp add: usb_write_command_def usb_device_bus_def payload_len_exceeds_control_packet_size_def
        control_usb_fill_header_def status_byte_def USB_TRANSACTION_MAX_BYTES_def)
qed

lemma usb_read_ok:
  assumes c: "control_ok cbs mem regs ctx" and b: "length buf = USB_TRANSACTION_MAX_BYTES"
    and q: "host_cmd_ok USB_TRANSACTION_MAX_BYTES regs (Host_read i r cmd payload n)"
    and w: "read_cmd_cb cbs (init_queue (snd (regs ! i))) r cmd (replicate n 0) s = (ret, out, s')"
  shows "\<exists>ctx' buf'. usb_read_command (usb_device_bus cbs mem) r cmd payload n (ctx, buf, s)
    = Inr (CONTROL_SUCCESS, out @ drop n payload, ctx', buf', s') \<and> usb_inv cbs mem regs (ctx', buf', s')"
proof -
  have sv: "serves cbs mem regs i r ctx" using control_ok_serves [OF c] q by simp
  have n: "n \<le> 64" "n \<le> length payload" "IS_CONTROL_CMD_READ cmd" "0 < n" and b: "length buf = 64"
    using q b by (simp_all add: USB_TRANSACTION_MAX_BYTES_def)
  have u: "unat (of_nat n :: u16) = n" using n(1) by (simp add: unat_of_nat take_bit_nat_eq_self)
  have nb: "n \<le> length buf" using b n(1) by simp
  note rd = read_any_buffer [OF c nb w]
  note tr = serves_transfer_read [OF sv n(3) nb n(4) rd(1), of 64]
  have l: "length (out @ drop n buf) = 64" "take n (out @ drop n buf) = out" using rd(2) nb b by simp_all
  have "usb_device_in cbs mem (ucast cmd) (ucast r) (of_nat n) (ctx, buf, s)
      = Inr (int n, out, requested r cmd n ctx, out @ drop n buf, s')"
    using serves_request [OF sv, of cmd n] tr n(1) b u l
    by (simp add: usb_device_in_def device_control_usb_xfer_def ucast_byte Let_def REQ_IN_def REQ_OUT_def)
  moreover have "usb_inv cbs mem regs (requested r cmd n ctx, out @ drop n buf, s')"
    using c l(1) by (simp add: usb_inv_def USB_TRANSACTION_MAX_BYTES_def)
  ultimately show ?thesis
    using n(1,2) rd(2) cmd_kind(2) [OF n(3)]
    by (simp add: usb_read_command_def usb_device_bus_def payload_len_exceeds_control_packet_size_def
        control_usb_fill_header_def USB_TRANSACTION_MAX_BYTES_def)
qed

interpretation usb_control: control_link cbs regs "usb_link cbs mem" "usb_inv cbs mem regs" "\<lambda>w. snd (snd w)"
    USB_TRANSACTION_MAX_BYTES
  for cbs mem regs
proof
  fix w q
  assume w: "usb_inv cbs mem regs w" and q: "host_cmd_ok USB_TRANSACTION_MAX_BYTES regs q"
  obtain ctx buf s where s: "w = (ctx, buf, s)" by (metis prod.exhaust)
  have c: "control_ok cbs mem regs ctx" "length buf = USB_TRANSACTION_MAX_BYTES" using w s by (simp_all add: usb_inv_def)
  show "\<exists>w'. host_exec (usb_link cbs mem) q w = Inr (fst (servicer_exec cbs regs q (snd (snd w))), w')
    \<and> usb_inv cbs mem regs w' \<and> snd (snd w') = snd (servicer_exec cbs regs q (snd (snd w)))"
  proof (cases q)
    case (Host_write i r cmd payload n)
    obtain ret s' where "write_cmd_cb cbs (init_queue (snd (regs ! i))) r cmd (take n payload) s = (ret, s')" by force
    with usb_write_ok [OF c, of i r cmd payload n s ret s'] q Host_write s show ?thesis
      by (auto simp: usb_link_def)
  next
    case (Host_read i r cmd payload n)
    obtain ret out s' where "read_cmd_cb cbs (init_queue (snd (regs ! i))) r cmd (replicate n 0) s = (ret, out, s')"
      by (metis prod.exhaust)
    with usb_read_ok [OF c, of i r cmd payload n s ret out s'] q Host_read s show ?thesis
      by (auto simp: usb_link_def)
  qed
qed

section \<open>Over SPI\<close>

text \<open>
  A first byte of 7 tells the host that the device was not ready, so the servicers must not
  give it, as a status or as the first byte of what is read.
\<close>

abbreviation ignored :: byte where "ignored \<equiv> ucast CONTROL_COMMAND_IGNORED_IN_DEVICE"

definition never_ignored :: "'s servicer_cbs \<Rightarrow> bool" where
  "never_ignored cbs \<longleftrightarrow>
     (\<forall>q r c buf s. ucast (fst (write_cmd_cb cbs q r c buf s)) \<noteq> ignored) \<and>
     (\<forall>q r c buf s. buf \<noteq> [] \<longrightarrow> fst (snd (read_cmd_cb cbs q r c buf s)) ! 0 \<noteq> ignored)"

definition spi_bufs_ok :: "spi_bufs \<Rightarrow> bool" where
  "spi_bufs_ok bufs \<longleftrightarrow>
     length (bufs Spi_xfer_rx) = SPI_XFER_RX_SIZE \<and> length (bufs Spi_xfer_tx) = SPI_XFER_TX_SIZE \<and>
     length (bufs Spi_xfer_tx_default) = SPI_XFER_TX_SIZE \<and>
     bufs Spi_xfer_tx ! 0 \<noteq> ignored \<and> bufs Spi_xfer_tx_default ! 0 = ignored"

lemma spi_bufs_ok_start:
  "spi_bufs_ok (spi_bufs_start(Spi_xfer_tx_default :=
     (spi_bufs_start Spi_xfer_tx_default)[0 := ucast CONTROL_COMMAND_IGNORED_IN_DEVICE]))"
  by (simp add: spi_bufs_ok_def spi_bufs_start_def SPI_XFER_RX_SIZE_def SPI_XFER_TX_SIZE_def
      CONTROL_COMMAND_IGNORED_IN_DEVICE_def)

lemma transfer_loop_ok:
  assumes a: "spi_accept cbs mem msg (ctx, bufs, s) = Inr (reply, x')" and b: "spi_bufs_ok bufs"
    and r: "length reply = length msg" "reply ! 0 \<noteq> ignored" and m: "0 < length msg" "length msg \<le> 256"
    and f: "\<And>data. length data = 256 \<Longrightarrow>
      \<exists>d. fill data = Inr (d, length msg) \<and> length d = 256 \<and> take (length msg) d = msg"
    and d: "length data = 256"
  shows "\<exists>data' busy'. transfer_loop fill (spi_device_bus cbs mem) data ((ctx, bufs, s), busy)
      = Some (Inr (data', x', busy')) \<and> take (length msg) data' = reply \<and> length data' = 256"
  using d
proof (induction busy arbitrary: data)
  case Nil
  obtain d where "fill data = Inr (d, length msg)" "length d = 256" "take (length msg) d = msg"
    using f [OF Nil] by blast
  with a r m show ?case
    by (subst transfer_loop.simps) (simp add: bcm2835_spi_transfern_def spi_device_bus_def nth_append)
next
  case (Cons y ys)
  obtain d where d: "fill data = Inr (d, length msg)" "length d = 256" "take (length msg) d = msg"
    using f [OF Cons.prems] by blast
  show ?case
  proof (cases y)
    case False
    with d a r m show ?thesis
      by (subst transfer_loop.simps) (simp add: bcm2835_spi_transfern_def spi_device_bus_def nth_append)
  next
    case True
    let ?d = "take (length msg) (bufs Spi_xfer_tx_default) @ drop (length msg) d"
    have "length ?d = 256" "?d ! 0 = ignored"
      using b d(2) m by (simp_all add: spi_bufs_ok_def SPI_XFER_TX_SIZE_def nth_append)
    moreover have "bcm2835_spi_transfern (spi_device_bus cbs mem) d (length msg) ((ctx, bufs, s), y # ys)
        = Inr (?d, (ctx, bufs, s), ys)"
      using d(2,3) m True by (simp add: bcm2835_spi_transfern_def spi_device_bus_def)
    ultimately show ?thesis
      using Cons.IH [of ?d] d(1) by (subst transfer_loop.simps) simp
  qed
qed

lemma spi_accept_write:
  assumes c: "control_ok cbs mem regs ctx" and b: "spi_bufs_ok bufs" and v: "never_ignored cbs"
    and q: "host_cmd_ok 253 regs (Host_write i r cmd payload n)"
    and w: "write_cmd_cb cbs (init_queue (snd (regs ! i))) r cmd (take n payload) s = (ret, s')"
  shows "\<exists>ctx' bufs'. spi_accept cbs mem ([r, cmd, of_nat n] @ take n payload) (ctx, bufs, s)
      = Inr (take (3 + n) (bufs Spi_xfer_tx), ctx', bufs', s')
    \<and> control_ok cbs mem regs ctx' \<and> spi_bufs_ok bufs' \<and> bufs' Spi_xfer_tx ! 0 = ucast ret"
proof -
  have sv: "serves cbs mem regs i r ctx" using control_ok_serves [OF c] q by simp
  then have r: "r \<noteq> 0" by (rule serves_found) (simp add: CONTROL_SPECIAL_RESID_def)
  have n: "n \<le> 253" "n \<le> length payload" "\<not> IS_CONTROL_CMD_READ cmd" "0 < n" using q by simp_all
  have u: "unat (of_nat n :: byte) = n" using n(1) by (simp add: unat_of_nat_byte)
  have l: "length (bufs Spi_xfer_rx) = 256" "length (bufs Spi_xfer_tx) = 256" "length (bufs Spi_xfer_tx_default) = 256"
    "bufs Spi_xfer_tx_default ! 0 = ignored"
    using b by (simp_all add: spi_bufs_ok_def SPI_XFER_RX_SIZE_def SPI_XFER_TX_SIZE_def)
  let ?p = "take n payload @ drop (3 + n) (bufs Spi_xfer_rx)"
  let ?bufs = "bufs(Spi_xfer_rx := [r, cmd, of_nat n] @ ?p, Spi_xfer_tx := (bufs Spi_xfer_tx)[0 := ucast ret])"
  have lp: "length ?p = 253" "take n ?p = take n payload" using n(1,2) l(1) by simp_all
  have "write_cmd_cb cbs (init_queue (snd (regs ! i))) r cmd (take n ?p) s = (ret, s')" by (simp only: lp(2) w)
  moreover have "bufs Spi_xfer_tx \<noteq> []" using l(2) by force
  ultimately have t: "device_control_payload_transfer_bidir cbs mem (requested r cmd n ctx) ?p n (bufs Spi_xfer_tx) (3 + n) s
      = Inr ((bufs Spi_xfer_tx)[0 := ucast ret], 3 + n, (requested r cmd n ctx)\<lparr>last_status := ucast ret\<rparr>, s')"
    using serves_bidir_write [OF sv n(3), of n ?p n "bufs Spi_xfer_tx" s ret s' "3 + n"] n(1) lp(1) by simp
  have lm: "length ([r, cmd, of_nat n] @ take n payload) = 3 + n" using n(2) by simp
  have "spi_accept cbs mem ([r, cmd, of_nat n] @ take n payload) (ctx, bufs, s)
      = Inr (take (3 + n) (bufs Spi_xfer_tx), (requested r cmd n ctx)\<lparr>last_status := ucast ret\<rparr>, ?bufs, s')"
    using n(1) r u t serves_request [OF sv, of cmd n]
    unfolding spi_accept_def prod.case Let_def lm device_control_spi_xfer_done_cb_def
    by (simp add: SPI_XFER_RX_SIZE_def numeral_3_eq_3)
  moreover have "ucast ret \<noteq> ignored" using v w unfolding never_ignored_def by (metis fst_conv)
  then have "spi_bufs_ok ?bufs" using l lp(1) by (simp add: spi_bufs_ok_def SPI_XFER_RX_SIZE_def SPI_XFER_TX_SIZE_def)
  moreover have "?bufs Spi_xfer_tx ! 0 = ucast ret" using l(2) by simp
  ultimately show ?thesis using c by (metis control_ok_update)
qed

lemma spi_accept_read:
  assumes c: "control_ok cbs mem regs ctx" and b: "spi_bufs_ok bufs" and v: "never_ignored cbs"
    and q: "host_cmd_ok 253 regs (Host_read i r cmd payload n)"
    and w: "read_cmd_cb cbs (init_queue (snd (regs ! i))) r cmd (replicate n 0) s = (ret, out, s')"
  shows "\<exists>ctx' bufs'. spi_accept cbs mem [r, cmd, of_nat n, 0, 0, 0, 0, 0] (ctx, bufs, s)
      = Inr (take 8 (bufs Spi_xfer_tx), ctx', bufs', s')
    \<and> control_ok cbs mem regs ctx' \<and> spi_bufs_ok bufs' \<and> take n (bufs' Spi_xfer_tx) = out"
proof -
  have sv: "serves cbs mem regs i r ctx" using control_ok_serves [OF c] q by simp
  then have r: "r \<noteq> 0" by (rule serves_found) (simp add: CONTROL_SPECIAL_RESID_def)
  have n: "n \<le> 253" "n \<le> length payload" "IS_CONTROL_CMD_READ cmd" "0 < n" using q by simp_all
  have u: "unat (of_nat n :: byte) = n" using n(1) by (simp add: unat_of_nat_byte)
  have l: "length (bufs Spi_xfer_rx) = 256" "length (bufs Spi_xfer_tx) = 256" "length (bufs Spi_xfer_tx_default) = 256"
    "bufs Spi_xfer_tx_default ! 0 = ignored"
    using b by (simp_all add: spi_bufs_ok_def SPI_XFER_RX_SIZE_def SPI_XFER_TX_SIZE_def)
  have nl: "n \<le> length (bufs Spi_xfer_tx)" using l(2) n(1) by simp
  note rd = read_any_buffer [OF c nl w]
  let ?p = "[0, 0, 0, 0, 0] @ drop 8 (bufs Spi_xfer_rx)"
  let ?tx = "out @ drop n (bufs Spi_xfer_tx)"
  let ?bufs = "bufs(Spi_xfer_rx := [r, cmd, of_nat n] @ ?p, Spi_xfer_tx := ?tx)"
  have t: "device_control_payload_transfer_bidir cbs mem (requested r cmd n ctx) ?p 5 (bufs Spi_xfer_tx) 8 s
      = Inr (?tx, n, (requested r cmd n ctx)\<lparr>last_status := ucast ret\<rparr>, s')"
    by (rule serves_bidir_read [OF sv n(3) nl n(4) rd(1)])
  have lm: "length [r, cmd, of_nat n, 0, 0, 0, 0, 0] = 8" by simp
  have "spi_accept cbs mem [r, cmd, of_nat n, 0, 0, 0, 0, 0] (ctx, bufs, s)
      = Inr (take 8 (bufs Spi_xfer_tx), (requested r cmd n ctx)\<lparr>last_status := ucast ret\<rparr>, ?bufs, s')"
    using r u t serves_request [OF sv, of cmd n]
    unfolding spi_accept_def prod.case Let_def lm device_control_spi_xfer_done_cb_def
    by (simp add: SPI_XFER_RX_SIZE_def numeral_3_eq_3)
  moreover have "out ! 0 \<noteq> ignored"
    using v w n(4) unfolding never_ignored_def
    by (metis fst_conv snd_conv length_greater_0_conv length_replicate)
  then have "spi_bufs_ok ?bufs"
    using l rd(2) n(1,4) by (simp add: spi_bufs_ok_def SPI_XFER_RX_SIZE_def SPI_XFER_TX_SIZE_def nth_append)
  moreover have "take n (?bufs Spi_xfer_tx) = out" using rd(2) by simp
  ultimately show ?thesis using c by (metis control_ok_update)
qed

text \<open>The second transfer is zeros; if it is shorter than a header the device notes that.\<close>

lemma spi_accept_zeros:
  assumes b: "spi_bufs_ok bufs" and n: "0 < n" "n \<le> 253"
  shows "\<exists>bufs'. spi_accept cbs mem (replicate n 0) (ctx, bufs, s) = Inr (take n (bufs Spi_xfer_tx), ctx, bufs', s)
    \<and> spi_bufs_ok bufs'"
proof -
  let ?bufs = "bufs(Spi_xfer_rx := replicate n 0 @ drop n (bufs Spi_xfer_rx))"
  let ?bufs1 = "if n < 3 then ?bufs(Spi_xfer_tx := (bufs Spi_xfer_tx)[0 := ucast CONTROL_MALFORMED_PACKET]) else ?bufs"
  have z: "?bufs1 Spi_xfer_rx ! 0 = 0 \<and> ?bufs1 Spi_xfer_rx ! 1 = 0 \<and> ?bufs1 Spi_xfer_rx ! 2 = 0" if "3 \<le> n"
    using that by (simp add: nth_append)
  have "spi_accept cbs mem (replicate n 0) (ctx, bufs, s) = Inr (take n (bufs Spi_xfer_tx), ctx, ?bufs1, s)"
    using z n(2) unfolding spi_accept_def device_control_spi_xfer_done_cb_def prod.case Let_def
    by (cases "n < 3") (simp_all add: SPI_XFER_RX_SIZE_def)
  moreover have "(ucast CONTROL_MALFORMED_PACKET :: byte) \<noteq> ignored"
    by (simp add: CONTROL_MALFORMED_PACKET_def CONTROL_COMMAND_IGNORED_IN_DEVICE_def)
  then have "spi_bufs_ok ?bufs1"
    using b n by (auto simp: spi_bufs_ok_def SPI_XFER_RX_SIZE_def SPI_XFER_TX_SIZE_def)
  ultimately show ?thesis by blast
qed

definition spi_link :: "'s servicer_cbs \<Rightarrow> (nat \<Rightarrow> byte list) \<Rightarrow> 's spi_device host_link" where
  "spi_link cbs mem =
     (\<lambda>r cmd payload n w. returned_res (spi_write_command (spi_device_bus cbs mem) r cmd payload n w),
      \<lambda>r cmd payload n w. returned_res (spi_read_command (spi_device_bus cbs mem) r cmd payload n w))"

definition spi_inv ::
  "'s servicer_cbs \<Rightarrow> (nat \<Rightarrow> byte list) \<Rightarrow> registration list \<Rightarrow> 's spi_device \<Rightarrow> bool" where
  "spi_inv cbs mem regs w \<longleftrightarrow>
     control_ok cbs mem regs (fst (fst w)) \<and> spi_bufs_ok (fst (snd (fst w))) \<and> never_ignored cbs"

text \<open>Both transfers of a command, of which the device took the first.\<close>

lemma spi_command_ok:
  assumes a: "spi_accept cbs mem msg (ctx, bufs, s) = Inr (take (length msg) (bufs Spi_xfer_tx), ctx', bufs', s')"
    and b: "spi_bufs_ok bufs" "spi_bufs_ok bufs'" and m: "0 < length msg" "length msg \<le> 256" and n: "0 < n" "n \<le> 253"
    and f: "\<And>data. length data = 256 \<Longrightarrow> \<exists>d. control_build_spi_data data r cmd payload n = Inr (d, length msg)
      \<and> length d = 256 \<and> take (length msg) d = msg"
  shows "\<exists>data bufs'' busy'. spi_command (spi_device_bus cbs mem) r cmd payload n ((ctx, bufs, s), busy)
      = Some (Inr (data, (ctx', bufs'', s'), busy'))
    \<and> spi_bufs_ok bufs'' \<and> take n data = take n (bufs' Spi_xfer_tx) \<and> length data = 256"
proof -
  have tx: "length (take (length msg) (bufs Spi_xfer_tx)) = length msg" "take (length msg) (bufs Spi_xfer_tx) ! 0 \<noteq> ignored"
    using b(1) m by (simp_all add: spi_bufs_ok_def SPI_XFER_TX_SIZE_def)
  have tx': "length (take n (bufs' Spi_xfer_tx)) = n" "take n (bufs' Spi_xfer_tx) ! 0 \<noteq> ignored"
    using b(2) n by (simp_all add: spi_bufs_ok_def SPI_XFER_TX_SIZE_def)
  obtain data1 busy1 where 1: "transfer_loop (\<lambda>data. control_build_spi_data data r cmd payload n) (spi_device_bus cbs mem)
      (replicate SPI_TRANSACTION_MAX_BYTES 0) ((ctx, bufs, s), busy) = Some (Inr (data1, (ctx', bufs', s'), busy1))"
    "length data1 = 256"
    using transfer_loop_ok [where data = "replicate SPI_TRANSACTION_MAX_BYTES 0" and busy = busy
        and fill = "\<lambda>data. control_build_spi_data data r cmd payload n", OF a b(1) tx m f]
    by (auto simp: SPI_TRANSACTION_MAX_BYTES_def)
  obtain bufs'' where z: "spi_accept cbs mem (replicate n 0) (ctx', bufs', s') = Inr (take n (bufs' Spi_xfer_tx), ctx', bufs'', s')"
    "spi_bufs_ok bufs''" using spi_accept_zeros [where cbs = cbs and mem = mem and ctx = ctx' and s = s', OF b(2) n] by blast
  have "\<exists>d. (Inr (replicate SPI_TRANSACTION_MAX_BYTES 0, n) :: (byte list \<times> nat) res) = Inr (d, length (replicate n (0 :: byte)))
      \<and> length d = 256 \<and> take (length (replicate n (0 :: byte))) d = replicate n 0"
    using n(2) by (simp add: SPI_TRANSACTION_MAX_BYTES_def)
  then obtain data2 busy2 where "transfer_loop (\<lambda>_. Inr (replicate SPI_TRANSACTION_MAX_BYTES 0, n)) (spi_device_bus cbs mem)
      data1 ((ctx', bufs', s'), busy1) = Some (Inr (data2, (ctx', bufs'', s'), busy2))"
    "take n data2 = take n (bufs' Spi_xfer_tx)" "length data2 = 256"
    using transfer_loop_ok [where data = data1 and busy = busy1
        and fill = "\<lambda>_. Inr (replicate SPI_TRANSACTION_MAX_BYTES 0, n)", OF z(1) b(2)] tx' n 1(2)
    by auto
  with 1 z(2) show ?thesis by (simp add: spi_command_def)
qed

lemma spi_write_ok:
  assumes i: "spi_inv cbs mem regs ((ctx, bufs, s), busy)"
    and q: "host_cmd_ok 253 regs (Host_write i r cmd payload n)"
    and w: "write_cmd_cb cbs (init_queue (snd (regs ! i))) r cmd (take n payload) s = (ret, s')"
  shows "\<exists>ctx' bufs' busy'. spi_write_command (spi_device_bus cbs mem) r cmd payload n ((ctx, bufs, s), busy)
    = Some (Inr (status_byte ret, (ctx', bufs', s'), busy')) \<and> spi_inv cbs mem regs ((ctx', bufs', s'), busy')"
proof -
  have c: "control_ok cbs mem regs ctx" "spi_bufs_ok bufs" "never_ignored cbs" using i by (simp_all add: spi_inv_def)
  have n: "n \<le> 253" "n \<le> length payload" "\<not> IS_CONTROL_CMD_READ cmd" "0 < n" using q by simp_all
  let ?m = "[r, cmd, of_nat n] @ take n payload"
  have lm: "length ?m = 3 + n" using n(2) by simp
  obtain ctx' bufs' where a: "spi_accept cbs mem ?m (ctx, bufs, s) = Inr (take (length ?m) (bufs Spi_xfer_tx), ctx', bufs', s')"
    "control_ok cbs mem regs ctx'" "spi_bufs_ok bufs'" "bufs' Spi_xfer_tx ! 0 = ucast ret"
    using spi_accept_write [OF c q w] unfolding lm by blast
  have "\<exists>d. control_build_spi_data data r cmd payload n = Inr (d, length ?m) \<and> length d = 256 \<and> take (length ?m) d = ?m"
    if "length data = 256" for data
    using build_spi_write [OF n(3,2), of data r] that n(1) unfolding lm by auto
  from spi_command_ok [where busy = busy, OF a(1) c(2) a(3) _ _ n(4,1) this] lm n(1) obtain data bufs'' busy' where
    d: "spi_command (spi_device_bus cbs mem) r cmd payload n ((ctx, bufs, s), busy) = Some (Inr (data, (ctx', bufs'', s'), busy'))"
    "spi_bufs_ok bufs''" "take n data = take n (bufs' Spi_xfer_tx)" by auto
  have "data ! 0 = ucast ret" using d(3) a(4) n(4) by (metis nth_take)
  with d(1,2) a(2) c(3) show ?thesis by (simp add: spi_write_command_def spi_inv_def status_byte_def)
qed

lemma spi_read_ok:
  assumes i: "spi_inv cbs mem regs ((ctx, bufs, s), busy)"
    and q: "host_cmd_ok 253 regs (Host_read i r cmd payload n)"
    and w: "read_cmd_cb cbs (init_queue (snd (regs ! i))) r cmd (replicate n 0) s = (ret, out, s')"
  shows "\<exists>ctx' bufs' busy'. spi_read_command (spi_device_bus cbs mem) r cmd payload n ((ctx, bufs, s), busy)
    = Some (Inr (CONTROL_SUCCESS, out @ drop n payload, (ctx', bufs', s'), busy'))
    \<and> spi_inv cbs mem regs ((ctx', bufs', s'), busy')"
proof -
  have c: "control_ok cbs mem regs ctx" "spi_bufs_ok bufs" "never_ignored cbs" using i by (simp_all add: spi_inv_def)
  have n: "n \<le> 253" "n \<le> length payload" "IS_CONTROL_CMD_READ cmd" "0 < n" using q by simp_all
  let ?m = "[r, cmd, of_nat n, 0, 0, 0, 0, 0]"
  have lm: "length ?m = 8" by simp
  obtain ctx' bufs' where a: "spi_accept cbs mem ?m (ctx, bufs, s) = Inr (take (length ?m) (bufs Spi_xfer_tx), ctx', bufs', s')"
    "control_ok cbs mem regs ctx'" "spi_bufs_ok bufs'" "take n (bufs' Spi_xfer_tx) = out"
    using spi_accept_read [OF c q w] unfolding lm by blast
  have "\<exists>d. control_build_spi_data data r cmd payload n = Inr (d, length ?m) \<and> length d = 256 \<and> take (length ?m) d = ?m"
    if "length data = 256" for data
    using build_spi_read [OF n(3), of data r payload n] that unfolding lm by auto
  from spi_command_ok [where busy = busy, OF a(1) c(2) a(3) _ _ n(4,1) this] obtain data bufs'' busy' where
    d: "spi_command (spi_device_bus cbs mem) r cmd payload n ((ctx, bufs, s), busy) = Some (Inr (data, (ctx', bufs'', s'), busy'))"
    "spi_bufs_ok bufs''" "take n data = out" "length data = 256" using a(4) by auto
  have "length out = n" using d(3,4) n(1) by auto
  with d a(2) c(3) n(1,2) show ?thesis by (simp add: spi_read_command_def spi_inv_def)
qed

interpretation spi_control: control_link cbs regs "spi_link cbs mem" "spi_inv cbs mem regs" "\<lambda>w. snd (snd (fst w))" 253
  for cbs mem regs
proof
  fix w q
  assume w: "spi_inv cbs mem regs w" and q: "host_cmd_ok 253 regs q"
  obtain ctx bufs s busy where s: "w = ((ctx, bufs, s), busy)" by (metis prod.exhaust)
  show "\<exists>w'. host_exec (spi_link cbs mem) q w = Inr (fst (servicer_exec cbs regs q (snd (snd (fst w)))), w')
    \<and> spi_inv cbs mem regs w' \<and> snd (snd (fst w')) = snd (servicer_exec cbs regs q (snd (snd (fst w))))"
  proof (cases q)
    case (Host_write i r cmd payload n)
    obtain ret s' where "write_cmd_cb cbs (init_queue (snd (regs ! i))) r cmd (take n payload) s = (ret, s')" by force
    with spi_write_ok [of cbs mem regs ctx bufs s busy i r cmd payload n ret s'] w q Host_write s show ?thesis
      by (auto simp: spi_link_def)
  next
    case (Host_read i r cmd payload n)
    obtain ret out s' where "read_cmd_cb cbs (init_queue (snd (regs ! i))) r cmd (replicate n 0) s = (ret, out, s')"
      by (metis prod.exhaust)
    with spi_read_ok [of cbs mem regs ctx bufs s busy i r cmd payload n ret out s'] w q Host_read s show ?thesis
      by (auto simp: spi_link_def)
  qed
qed

section \<open>A host's commands are calls of the servicers\<close>

text \<open>
  C33. Whatever commands a host sends over I2C, USB or SPI for registered resources, with
  payloads that are not empty and that the transport can hold, each is one call of its
  servicer's function with the payload sent, on either tile, in order; the host gets the
  status of a write and the data of a read. Over SPI this is so however often the device is
  not ready, if the servicers do not use the byte for that.
\<close>

theorem host_commands_reach_servicers:
  assumes c: "control_ok cbs mem regs ctx"
    and i2c: "length i2c_buf = RTOS_I2C_SLAVE_BUF_LEN" "list_all (host_cmd_ok 253 regs) qi"
    and usb: "length usb_buf = USB_TRANSACTION_MAX_BYTES" "list_all (host_cmd_ok USB_TRANSACTION_MAX_BYTES regs) qu"
    and spi: "spi_bufs_ok bufs" "never_ignored cbs" "list_all (host_cmd_ok 253 regs) qs"
  shows "(\<exists>ctx' buf'. host_run (i2c_link cbs mem) qi (ctx, i2c_buf, s)
      = Inr (fst (servicer_run cbs regs qi s), ctx', buf', snd (servicer_run cbs regs qi s)))
    \<and> (\<exists>ctx' buf'. host_run (usb_link cbs mem) qu (ctx, usb_buf, s)
      = Inr (fst (servicer_run cbs regs qu s), ctx', buf', snd (servicer_run cbs regs qu s)))
    \<and> (\<exists>ctx' bufs' busy'. host_run (spi_link cbs mem) qs ((ctx, bufs, s), busy)
      = Inr (fst (servicer_run cbs regs qs s), (ctx', bufs', snd (servicer_run cbs regs qs s)), busy'))"
proof -
  have "i2c_inv cbs mem regs (ctx, i2c_buf, s)" "usb_inv cbs mem regs (ctx, usb_buf, s)"
    "spi_inv cbs mem regs ((ctx, bufs, s), busy)"
    using c i2c(1) usb(1) spi(1,2) by (simp_all add: i2c_inv_def usb_inv_def spi_inv_def)
  from i2c_control.run_ok [OF this(1) i2c(2)] usb_control.run_ok [OF this(2) usb(2)]
    spi_control.run_ok [OF this(3) spi(3)]
  show ?thesis by auto
qed

text \<open>
  Without the bounds. A write of 256 bytes over I2C reaches the servicer as an empty one, and the host gets its status; a
  longer one, and one of more than 253 bytes over SPI, is written past the host's buffer.
\<close>

lemma i2c_long_write_is_empty:
  assumes c: "control_ok cbs mem regs ctx" and b: "length buf = RTOS_I2C_SLAVE_BUF_LEN"
    and q: "i < length regs" "r \<in> set (init_resources (snd (regs ! i)))" "\<not> IS_CONTROL_CMD_READ cmd" "length payload = 256"
    and w: "write_cmd_cb cbs (init_queue (snd (regs ! i))) r cmd [] s = (ret, s')"
  shows "\<exists>ctx' buf'. i2c_write_command (i2c_device_bus cbs mem) r cmd payload 256 (ctx, buf, s)
    = Inr (status_byte ret, ctx', buf', s')"
proof -
  have sv: "serves cbs mem regs i r ctx" using control_ok_serves [OF c q(1,2)] .
  obtain x where x: "control_build_i2c_data (replicate (I2C_TRANSACTION_MAX_BYTES + 3) 0) r cmd payload 256 = Inr (x, 259)"
    "take 259 x = [r, cmd, 0] @ payload"
    using build_i2c_write [OF q(3), of 256 payload "replicate (I2C_TRANSACTION_MAX_BYTES + 3) 0" r] q(4)
    by (auto simp: I2C_TRANSACTION_MAX_BYTES_def)
  let ?p = "take 253 payload" let ?c = "requested r cmd 0 (ctx\<lparr>last_status := ucast ret\<rparr>)"
  have tw: "device_control_payload_transfer cbs mem (requested r cmd 0 ctx) ?p 253 CONTROL_HOST_TO_DEVICE s
      = Inr (CONTROL_SUCCESS, ?p, ?c, s')"
    using serves_transfer_write [OF sv q(3), of 0 ?p 253 s ret s'] w by simp
  have "take 256 ([r, cmd, 0] @ payload) = [r, cmd, 0] @ ?p" by simp
  moreover have rx: "device_control_i2c_rx_cb cbs mem ctx ([r, cmd, 0] @ ?p) s = Inr ([r, cmd, 0] @ ?p, ?c, s')"
    using serves_request [OF sv, of cmd 0] tw q(4) by (simp add: device_control_i2c_rx_cb_def)
  ultimately have dw: "i2c_device_write cbs mem ([r, cmd, 0] @ payload) (ctx, buf, s)
      = Inr (256, ?c, ([r, cmd, 0] @ ?p) @ drop (length ([r, cmd, 0] @ ?p)) buf, s')"
    unfolding i2c_device_write_def prod.case Let_def RTOS_I2C_SLAVE_BUF_LEN_def using q(4) by simp
  let ?b = "([r, cmd, 0] @ ?p) @ drop (length ([r, cmd, 0] @ ?p)) buf"
  have lb: "?b \<noteq> []" by simp
  have "device_control_payload_transfer cbs mem ?c ?b 256 CONTROL_DEVICE_TO_HOST s'
      = Inr (CONTROL_SUCCESS, ?b[0 := ucast ret], ?c, s')"
    using serves_transfer_status [of cbs mem regs i r "ctx\<lparr>last_status := ucast ret\<rparr>" cmd ?b 0 256 s'] sv q(3) lb by simp
  then have "i2c_device_read cbs mem 1 (?c, ?b, s') = Inr (1, [ucast ret], ?c, ?b[0 := ucast ret], s')"
    by (simp add: i2c_device_read_def device_control_i2c_tx_start_cb_def RTOS_I2C_SLAVE_BUF_LEN_def)
  then show ?thesis
    unfolding i2c_write_command_def x(1) rbind_Inr prod.case x(2) i2c_device_bus_def i2c_bus.simps dw
    by (simp add: status_byte_def)
qed

lemma host_buffer_overruns:
  assumes "\<not> IS_CONTROL_CMD_READ cmd" and "n \<le> length payload"
  shows "256 < n \<Longrightarrow> i2c_write_command bus r cmd payload n w = Inl Bad_access"
    and "253 < n \<Longrightarrow> control_build_spi_data (replicate SPI_TRANSACTION_MAX_BYTES 0) r cmd payload n = Inl Bad_access"
proof -
  have s: "store_payload (replicate 259 0) 0 [r, cmd, of_nat n] 3 = Inr (put_at (replicate 259 0) 0 [r, cmd, of_nat n])"
    using store_payload_ok [of 3 "[r, cmd, of_nat n]" 0 "replicate 259 0"] by simp
  have "length (put_at (replicate 259 0) 0 [r, cmd, of_nat n :: byte]) = 259" by (subst length_put_at) simp_all
  then show "i2c_write_command bus r cmd payload n w = Inl Bad_access" if "256 < n"
    using store_payload_overruns [where k = 3 and buf = "put_at (replicate 259 0) 0 [r, cmd, of_nat n]", OF assms(2)] that assms(1) s
    by (simp add: i2c_write_command_def control_build_i2c_data_def I2C_TRANSACTION_MAX_BYTES_def)
  let ?h = "[r, cmd, of_nat n, 0, 0, 0, 0, 0]"
  have s: "store_payload (replicate 256 0) 0 ?h 8 = Inr (put_at (replicate 256 0) 0 ?h)"
    using store_payload_ok [of 8 ?h 0 "replicate 256 0"] by simp
  have "length (put_at (replicate 256 0) 0 ?h) = 256" by (subst length_put_at) simp_all
  then show "control_build_spi_data (replicate SPI_TRANSACTION_MAX_BYTES 0) r cmd payload n = Inl Bad_access" if "253 < n"
    using store_payload_overruns [where k = 3 and buf = "put_at (replicate 256 0) 0 ?h", OF assms(2)] that assms(1) s
    by (simp add: control_build_spi_data_def SPI_TRANSACTION_MAX_BYTES_def)
qed

text \<open>
  An empty write over USB has no data stage, so it never reaches the servicer, and the host gets the status of the
  command before it.
\<close>

lemma usb_empty_write_is_lost:
  assumes c: "control_ok cbs mem regs ctx" and b: "length buf = USB_TRANSACTION_MAX_BYTES"
    and q: "i < length regs" "r \<in> set (init_resources (snd (regs ! i)))" "\<not> IS_CONTROL_CMD_READ cmd"
  shows "\<exists>ctx' buf'. usb_write_command (usb_device_bus cbs mem) r cmd payload 0 (ctx, buf, s)
    = Inr (ucast (last_status ctx), ctx', buf', s)"
proof -
  have sv: "serves cbs mem regs i r ctx" using control_ok_serves [OF c q(1,2)] .
  have lb: "length buf = 64" using b by (simp add: USB_TRANSACTION_MAX_BYTES_def)
  have "usb_device_out cbs mem (ucast cmd) (ucast r) payload 0 (ctx, buf, s) = Inr (0, requested r cmd 0 ctx, buf, s)"
    using serves_request [OF sv, of cmd 0]
    by (simp add: usb_device_out_def device_control_usb_xfer_def ucast_byte Let_def)
  moreover have "device_control_payload_transfer cbs mem (requested r cmd 1 ctx) buf 64 CONTROL_DEVICE_TO_HOST s
      = Inr (CONTROL_SUCCESS, buf[0 := last_status ctx], requested r cmd 1 ctx, s)"
    using serves_transfer_status [OF sv q(3), of buf 1 64 s] lb by fastforce
  moreover have "device_control_request (requested r cmd 0 ctx) r cmd 1 = Inr (CONTROL_SUCCESS, requested r cmd 1 ctx)"
    using serves_request [of cbs mem regs i r "requested r cmd 0 ctx" cmd 1] sv by simp
  moreover have "buf[0 := last_status ctx] = last_status ctx # drop 1 buf" using lb by (cases buf) simp_all
  ultimately show ?thesis
    using lb cmd_kind(1) [OF q(3)]
    by (simp add: usb_write_command_def usb_device_bus_def payload_len_exceeds_control_packet_size_def
        control_usb_fill_header_def USB_TRANSACTION_MAX_BYTES_def usb_device_in_def device_control_usb_xfer_def
        ucast_byte REQ_IN_def REQ_OUT_def)
qed

text \<open>The device does not look at the length of a write: more than its buffer holds is written past it.\<close>

lemma usb_long_write_overruns:
  assumes c: "control_ok cbs mem regs ctx" and b: "length buf < unat len" "unat len \<le> length payload"
    and q: "i < length regs" "r \<in> set (init_resources (snd (regs ! i)))"
  shows "usb_device_out cbs mem (ucast (cmd :: byte)) (ucast r) payload len (ctx, buf, s) = Inl Bad_access"
  using serves_request [OF control_ok_serves [OF c q], of cmd "unat len"] b
  by (simp add: usb_device_out_def device_control_usb_xfer_def ucast_byte Let_def)

text \<open>
  Over SPI the status of an empty write is not fetched, since the transfer for it has the length of the
  payload: the host gets success whatever the servicer gave.
\<close>

lemma spi_empty_write_succeeds:
  assumes a: "spi_accept cbs mem [r, cmd, 0] (ctx, bufs, s) = Inr (reply, ctx', bufs', s')"
    and k: "\<not> IS_CONTROL_CMD_READ cmd" "length reply = 3" "reply ! 0 \<noteq> ignored"
    and z: "spi_accept cbs mem [] (ctx', bufs', s') = Inr ([], x)"
  shows "spi_write_command (spi_device_bus cbs mem) r cmd payload 0 ((ctx, bufs, s), [])
    = Some (Inr (CONTROL_SUCCESS, x, []))"
proof -
  obtain b where b: "control_build_spi_data (replicate SPI_TRANSACTION_MAX_BYTES 0) r cmd payload 0 = Inr (b, 3)"
    "length b = 256" "take 3 b = [r, cmd, 0]"
    using build_spi_write [OF k(1), of 0 payload "replicate SPI_TRANSACTION_MAX_BYTES 0" r]
    by (auto simp: SPI_TRANSACTION_MAX_BYTES_def)
  have "transfer_loop (\<lambda>data. control_build_spi_data data r cmd payload 0) (spi_device_bus cbs mem)
      (replicate SPI_TRANSACTION_MAX_BYTES 0) ((ctx, bufs, s), []) = Some (Inr (reply @ drop 3 b, (ctx', bufs', s'), []))"
    using b a k(2,3)
    by (subst transfer_loop.simps) (simp add: bcm2835_spi_transfern_def spi_device_bus_def nth_append)
  moreover have "transfer_loop (\<lambda>_. Inr (replicate SPI_TRANSACTION_MAX_BYTES 0, 0)) (spi_device_bus cbs mem)
      data ((ctx', bufs', s'), []) = Some (Inr (replicate SPI_TRANSACTION_MAX_BYTES 0, x, []))" for data
    using z by (subst transfer_loop.simps) (simp add: bcm2835_spi_transfern_def spi_device_bus_def
        SPI_TRANSACTION_MAX_BYTES_def CONTROL_COMMAND_IGNORED_IN_DEVICE_def)
  ultimately show ?thesis
    by (simp add: spi_write_command_def spi_command_def SPI_TRANSACTION_MAX_BYTES_def CONTROL_SUCCESS_def)
qed

text \<open>A status of 7, or data that begins with 7, is taken for a device that is not ready, for ever.\<close>

lemma transfer_loop_never:
  assumes step: "\<And>data w. w \<in> S \<Longrightarrow> \<exists>d w'. rbind (fill data) (\<lambda>(data', n). bcm2835_spi_transfern bus data' n w) = Inr (d, w')
      \<and> d ! 0 = ignored \<and> w' \<in> S"
    and w: "w \<in> S"
  shows "transfer_loop fill bus data w = None"
proof (rule ccontr)
  assume "transfer_loop fill bus data w \<noteq> None"
  then obtain r where r: "transfer_loop fill bus data w = Some r" by blast
  have "fill = fill \<and> bus = bus \<longrightarrow> w \<notin> S"
  proof (rule transfer_loop.raw_induct [where P = "\<lambda>f b data w r. f = fill \<and> b = bus \<longrightarrow> w \<notin> S", OF _ r])
    fix g f b data w r
    assume IH: "\<And>f b data w r. g f b data w = Some r \<Longrightarrow> f = fill \<and> b = bus \<longrightarrow> w \<notin> S"
      and eq: "(case rbind (f data) (\<lambda>(data', n). bcm2835_spi_transfern b data' n w) of
          Inl e \<Rightarrow> Some (Inl e)
        | Inr x \<Rightarrow> if fst x ! 0 = ignored then g f b (fst x) (snd x) else Some (Inr x)) = Some r"
    show "f = fill \<and> b = bus \<longrightarrow> w \<notin> S"
    proof (intro impI notI)
      assume e: "f = fill \<and> b = bus" and w: "w \<in> S"
      from step [OF w, of data] obtain d w' where
        d: "rbind (fill data) (\<lambda>(data', n). bcm2835_spi_transfern bus data' n w) = Inr (d, w')" "d ! 0 = ignored" "w' \<in> S"
        by blast
      have "g f b d w' = Some r" using eq d(1,2) e by simp
      from IH [OF this] e d(3) show False by blast
    qed
  qed
  with w show False by blast
qed

lemma spi_status_7_never_returns:
  assumes n: "3 \<le> n" "n \<le> 253" and b: "length (bufs Spi_xfer_tx) = 256" "bufs Spi_xfer_tx ! 0 = ignored"
    and f: "transfer_loop (\<lambda>data. control_build_spi_data data r cmd payload n) (spi_device_bus cbs mem)
      (replicate SPI_TRANSACTION_MAX_BYTES 0) w = Some (Inr (data, (ctx, bufs, s), []))"
  shows "spi_write_command (spi_device_bus cbs mem) r cmd payload n w = None"
proof -
  let ?S = "{((ctx, bufs, s), [] :: bool list) | bufs. length (bufs Spi_xfer_tx) = 256 \<and> bufs Spi_xfer_tx ! 0 = ignored}"
  have "transfer_loop (\<lambda>_. Inr (replicate SPI_TRANSACTION_MAX_BYTES 0, n)) (spi_device_bus cbs mem) data ((ctx, bufs, s), []) = None"
  proof (rule transfer_loop_never [where S = ?S])
    fix data w assume "w \<in> ?S"
    then obtain bufs where w: "w = ((ctx, bufs, s), [])" "length (bufs Spi_xfer_tx) = 256" "bufs Spi_xfer_tx ! 0 = ignored" by blast
    let ?bufs = "bufs(Spi_xfer_rx := replicate n 0 @ drop n (bufs Spi_xfer_rx))"
    have "spi_accept cbs mem (replicate n 0) (ctx, bufs, s) = Inr (take n (bufs Spi_xfer_tx), ctx, ?bufs, s)"
      using n unfolding spi_accept_def device_control_spi_xfer_done_cb_def prod.case Let_def
      by (simp add: SPI_XFER_RX_SIZE_def nth_append)
    then have "rbind (Inr (replicate SPI_TRANSACTION_MAX_BYTES 0, n)) (\<lambda>(data', n). bcm2835_spi_transfern (spi_device_bus cbs mem) data' n w)
      = Inr (take n (bufs Spi_xfer_tx) @ replicate (256 - n) 0, (ctx, ?bufs, s), [])"
      using n w(1) by (simp add: bcm2835_spi_transfern_def spi_device_bus_def SPI_TRANSACTION_MAX_BYTES_def)
    moreover have "(take n (bufs Spi_xfer_tx) @ replicate (256 - n) 0) ! 0 = ignored"
      using n w(2,3) by (simp add: nth_append)
    moreover have "((ctx, ?bufs, s), []) \<in> ?S" using w(2,3) by auto
    ultimately show "\<exists>d w'. rbind (Inr (replicate SPI_TRANSACTION_MAX_BYTES 0, n))
        (\<lambda>(data', n). bcm2835_spi_transfern (spi_device_bus cbs mem) data' n w) = Inr (d, w') \<and> d ! 0 = ignored \<and> w' \<in> ?S"
      by blast
  qed (use b in blast)
  with f show ?thesis by (simp add: spi_write_command_def spi_command_def)
qed

text \<open>
  The transport compares the receive buffer of a transfer with the default transmit buffer, so a transfer that it is
  told of is never taken for one with the default buffers.
\<close>

lemma spi_default_transfer_is_a_command:
  assumes "control_ok cbs mem regs ctx" and "i < length regs" "r \<in> set (init_resources (snd (regs ! i)))"
    and "\<not> IS_CONTROL_CMD_READ cmd" and "bufs Spi_xfer_rx_default = [r, cmd, of_nat n] @ p"
    and "n \<le> 253" "n \<le> length p" "bufs Spi_xfer_tx_default \<noteq> []"
    and "write_cmd_cb cbs (init_queue (snd (regs ! i))) r cmd (take n p) s = (ret, s')"
  shows "\<exists>ctx' bufs'. device_control_spi_xfer_done_cb cbs mem ctx bufs Spi_xfer_rx_default (3 + n) Spi_xfer_tx_default (3 + n) s
    = Inr (ctx', bufs', s', True)"
proof -
  have sv: "serves cbs mem regs i r ctx" using control_ok_serves [OF assms(1-3)] .
  then have "r \<noteq> 0" by (rule serves_found) (simp add: CONTROL_SPECIAL_RESID_def)
  moreover have "unat (of_nat n :: byte) = n" using assms(6) by (simp add: unat_of_nat_byte)
  ultimately show ?thesis
    using serves_request [OF sv, of cmd n] serves_bidir_write [OF sv assms(4,7) order_refl assms(8,9), of "3 + n"] assms(5)
    by (simp add: device_control_spi_xfer_done_cb_def numeral_3_eq_3)
qed

section \<open>A concrete instance\<close>

definition zero_mem :: "nat \<Rightarrow> byte list" where "zero_mem n = replicate n 0"

definition demo_bufs :: spi_bufs where
  "demo_bufs = spi_bufs_start(Spi_xfer_tx_default :=
     (spi_bufs_start Spi_xfer_tx_default)[0 := ucast CONTROL_COMMAND_IGNORED_IN_DEVICE])"

definition demo_cmds :: "host_cmd list" where
  "demo_cmds = [Host_write 0 1 9 [5, 6] 2, Host_read 1 3 0x81 [1, 2, 3] 2]"

theorem host_commands_reach_servicers_witness:
  "(\<exists>ctx' buf'. host_run (i2c_link store_cbs zero_mem) demo_cmds (demo_registered, replicate RTOS_I2C_SLAVE_BUF_LEN 0, [])
      = Inr (fst (servicer_run store_cbs demo_regs demo_cmds []), ctx', buf', snd (servicer_run store_cbs demo_regs demo_cmds [])))
    \<and> (\<exists>ctx' buf'. host_run (usb_link store_cbs zero_mem) demo_cmds (demo_registered, replicate USB_TRANSACTION_MAX_BYTES 0, [])
      = Inr (fst (servicer_run store_cbs demo_regs demo_cmds []), ctx', buf', snd (servicer_run store_cbs demo_regs demo_cmds [])))
    \<and> (\<exists>ctx' bufs' busy'. host_run (spi_link store_cbs zero_mem) demo_cmds ((demo_registered, demo_bufs, []), [True, False, True])
      = Inr (fst (servicer_run store_cbs demo_regs demo_cmds []), (ctx', bufs', snd (servicer_run store_cbs demo_regs demo_cmds [])), busy'))"
proof (rule host_commands_reach_servicers)
  show "control_ok store_cbs zero_mem demo_regs demo_registered"
    using demo_registered_ok store_cbs_ok
    by (simp add: control_ok_def zero_mem_def demo_registered_def demo_ctx_def)
  have c: "\<not> IS_CONTROL_CMD_READ 9" "IS_CONTROL_CMD_READ 0x81" by (simp_all add: IS_CONTROL_CMD_READ_def)
  show "list_all (host_cmd_ok 253 demo_regs) demo_cmds" "list_all (host_cmd_ok USB_TRANSACTION_MAX_BYTES demo_regs) demo_cmds"
    "list_all (host_cmd_ok 253 demo_regs) demo_cmds"
    by (simp_all add: demo_cmds_def demo_regs_def c USB_TRANSACTION_MAX_BYTES_def)
  show "never_ignored store_cbs"
    by (auto simp: never_ignored_def store_cbs_def CONTROL_COMMAND_IGNORED_IN_DEVICE_def)
  show "spi_bufs_ok demo_bufs" using spi_bufs_ok_start by (simp add: demo_bufs_def)
qed simp_all

end
