(* ===== verification/Osal.thy ===== *)
theory Osal
  imports Prelude
begin

text \<open>
  The OS abstraction layer over FreeRTOS (modules/osal): what its calls make of the kernel's, in
  tasks and in interrupts. The kernel is a parameter, with its documented behaviour as hypotheses
  over the objects it keeps. A handle is a number and 0 is NULL; the names of objects, which only a
  debugger reads, are left out.
\<close>

datatype rtos_osal_status_t = RTOS_OSAL_SUCCESS | RTOS_OSAL_ERROR | RTOS_OSAL_TIMEOUT

text \<open>
  What the OSAL calls of the kernel. The number after the state's handle in the calls on mutexes is
  the calling task; a bool is pdPASS, an option the item that a call copies out where it gives pdPASS.
\<close>

record 'k kernel =
  xEventGroupCreate :: "'k \<Rightarrow> nat \<times> 'k"
  xEventGroupSetBits :: "nat \<Rightarrow> u32 \<Rightarrow> 'k \<Rightarrow> u32 \<times> 'k"
  xEventGroupSetBitsFromISR :: "nat \<Rightarrow> u32 \<Rightarrow> 'k \<Rightarrow> bool \<times> 'k"
  xEventGroupClearBits :: "nat \<Rightarrow> u32 \<Rightarrow> 'k \<Rightarrow> u32 \<times> 'k"
  xEventGroupClearBitsFromISR :: "nat \<Rightarrow> u32 \<Rightarrow> 'k \<Rightarrow> bool \<times> 'k"
  xEventGroupGetBitsFromISR :: "nat \<Rightarrow> 'k \<Rightarrow> u32"
  xEventGroupWaitBits :: "nat \<Rightarrow> u32 \<Rightarrow> bool \<Rightarrow> bool \<Rightarrow> nat \<Rightarrow> 'k \<Rightarrow> u32 \<times> 'k"
  xQueueCreate :: "nat \<Rightarrow> nat \<Rightarrow> 'k \<Rightarrow> nat \<times> 'k"
  xQueueSend :: "nat \<Rightarrow> byte list \<Rightarrow> nat \<Rightarrow> 'k \<Rightarrow> bool \<times> 'k"
  xQueueSendFromISR :: "nat \<Rightarrow> byte list \<Rightarrow> 'k \<Rightarrow> bool \<times> 'k"
  xQueueReceive :: "nat \<Rightarrow> nat \<Rightarrow> 'k \<Rightarrow> byte list option \<times> 'k"
  xQueueReceiveFromISR :: "nat \<Rightarrow> 'k \<Rightarrow> byte list option \<times> 'k"
  xSemaphoreCreateCounting :: "nat \<Rightarrow> nat \<Rightarrow> 'k \<Rightarrow> nat \<times> 'k"
  xSemaphoreCreateMutex :: "'k \<Rightarrow> nat \<times> 'k"
  xSemaphoreCreateRecursiveMutex :: "'k \<Rightarrow> nat \<times> 'k"
  xSemaphoreGive :: "nat \<Rightarrow> nat \<Rightarrow> 'k \<Rightarrow> bool \<times> 'k"
  xSemaphoreGiveFromISR :: "nat \<Rightarrow> 'k \<Rightarrow> bool \<times> 'k"
  xSemaphoreGiveRecursive :: "nat \<Rightarrow> nat \<Rightarrow> 'k \<Rightarrow> bool \<times> 'k"
  xSemaphoreTake :: "nat \<Rightarrow> nat \<Rightarrow> nat \<Rightarrow> 'k \<Rightarrow> bool \<times> 'k"
  xSemaphoreTakeFromISR :: "nat \<Rightarrow> 'k \<Rightarrow> bool \<times> 'k"
  xSemaphoreTakeRecursive :: "nat \<Rightarrow> nat \<Rightarrow> nat \<Rightarrow> 'k \<Rightarrow> bool \<times> 'k"
  timer_task :: "'k \<Rightarrow> 'k"

section \<open>Event groups\<close>

definition RTOS_OSAL_PORT_CLEAR :: u32 where "RTOS_OSAL_PORT_CLEAR = 1"
definition RTOS_OSAL_PORT_AND :: u32 where "RTOS_OSAL_PORT_AND = 2"
definition RTOS_OSAL_OR_CLEAR :: u32 where "RTOS_OSAL_OR_CLEAR = 0 OR RTOS_OSAL_PORT_CLEAR"
definition RTOS_OSAL_AND_CLEAR :: u32 where
  "RTOS_OSAL_AND_CLEAR = RTOS_OSAL_PORT_AND OR RTOS_OSAL_PORT_CLEAR"

definition created :: "nat \<Rightarrow> rtos_osal_status_t" where
  "created h = (if h \<noteq> 0 then RTOS_OSAL_SUCCESS else RTOS_OSAL_ERROR)"

definition rtos_osal_event_group_create :: "'k kernel \<Rightarrow> 'k \<Rightarrow> rtos_osal_status_t \<times> nat \<times> 'k" where
  "rtos_osal_event_group_create kern k =
     (let (h, k1) = xEventGroupCreate kern k in (created h, h, k1))"

definition rtos_osal_event_group_set_bits ::
    "'k kernel \<Rightarrow> bool \<Rightarrow> nat \<Rightarrow> u32 \<Rightarrow> 'k \<Rightarrow> rtos_osal_status_t \<times> 'k" where
  "rtos_osal_event_group_set_bits kern isr g flags_to_set k =
     (let (status, k1) =
            (if isr then xEventGroupSetBitsFromISR kern g flags_to_set k
             else (True, snd (xEventGroupSetBits kern g flags_to_set k)))
      in (if \<not> status then RTOS_OSAL_ERROR else RTOS_OSAL_SUCCESS, k1))"

definition rtos_osal_event_group_clear_bits ::
    "'k kernel \<Rightarrow> bool \<Rightarrow> nat \<Rightarrow> u32 \<Rightarrow> 'k \<Rightarrow> rtos_osal_status_t \<times> 'k" where
  "rtos_osal_event_group_clear_bits kern isr g flags_to_clear k =
     (let (status, k1) =
            (if isr then xEventGroupClearBitsFromISR kern g flags_to_clear k
             else (True, snd (xEventGroupClearBits kern g flags_to_clear k)))
      in (if \<not> status then RTOS_OSAL_ERROR else RTOS_OSAL_SUCCESS, k1))"

text \<open>The status at the end of the function, for the flags found among those asked for.\<close>

definition flags_status :: "u32 \<Rightarrow> bool \<Rightarrow> u32 \<Rightarrow> rtos_osal_status_t" where
  "flags_status requested_flags and_all actual_flags =
     (if requested_flags = 0 then RTOS_OSAL_SUCCESS
      else if and_all \<and> actual_flags = requested_flags then RTOS_OSAL_SUCCESS
      else if \<not> and_all \<and> actual_flags \<noteq> 0 then RTOS_OSAL_SUCCESS
      else RTOS_OSAL_TIMEOUT)"

text \<open>The option is what is written to \<open>actual_flags_ptr\<close>, if anything is.\<close>

definition rtos_osal_event_group_get_bits ::
    "'k kernel \<Rightarrow> bool \<Rightarrow> nat \<Rightarrow> u32 \<Rightarrow> u32 \<Rightarrow> nat \<Rightarrow> 'k \<Rightarrow> (rtos_osal_status_t \<times> u32 option) \<times> 'k" where
  "rtos_osal_event_group_get_bits kern isr g requested_flags get_option timeout k =
     (let clear = (get_option AND RTOS_OSAL_PORT_CLEAR) \<noteq> 0;
          and_all = (get_option AND RTOS_OSAL_PORT_AND) \<noteq> 0
      in if isr then
           (if timeout = 0 then
              (let bits = xEventGroupGetBitsFromISR kern g k;
                   actual = bits AND requested_flags
               in if clear \<and> actual \<noteq> 0 \<and> (\<not> and_all \<or> actual = requested_flags) then
                    (let (ok, k1) = xEventGroupClearBitsFromISR kern g actual k
                     in if \<not> ok then ((RTOS_OSAL_ERROR, Some bits), k1)
                        else ((flags_status requested_flags and_all actual, Some bits), k1))
                  else ((flags_status requested_flags and_all actual, Some bits), k))
            else ((RTOS_OSAL_ERROR, None), k))
         else
           (let (bits, k1) = xEventGroupWaitBits kern g requested_flags clear and_all timeout k
            in ((flags_status requested_flags and_all (bits AND requested_flags), Some bits), k1)))"

section \<open>Queues\<close>

definition rtos_osal_queue_create ::
    "'k kernel \<Rightarrow> nat \<Rightarrow> nat \<Rightarrow> 'k \<Rightarrow> rtos_osal_status_t \<times> nat \<times> 'k" where
  "rtos_osal_queue_create kern queue_length item_size k =
     (let (h, k1) = xQueueCreate kern queue_length item_size k in (created h, h, k1))"

definition rtos_osal_queue_send ::
    "'k kernel \<Rightarrow> bool \<Rightarrow> nat \<Rightarrow> byte list \<Rightarrow> nat \<Rightarrow> 'k \<Rightarrow> rtos_osal_status_t \<times> 'k" where
  "rtos_osal_queue_send kern isr q item timeout k =
     (let (status, k1) =
            (if isr then
               (if timeout = 0 then xQueueSendFromISR kern q item k else (False, k))
             else xQueueSend kern q item timeout k)
      in (if \<not> status then RTOS_OSAL_TIMEOUT else RTOS_OSAL_SUCCESS, k1))"

definition rtos_osal_queue_receive ::
    "'k kernel \<Rightarrow> bool \<Rightarrow> nat \<Rightarrow> nat \<Rightarrow> 'k \<Rightarrow> (rtos_osal_status_t \<times> byte list option) \<times> 'k" where
  "rtos_osal_queue_receive kern isr q timeout k =
     (let (item, k1) =
            (if isr then
               (if timeout = 0 then xQueueReceiveFromISR kern q k else (None, k))
             else xQueueReceive kern q timeout k)
      in ((if item = None then RTOS_OSAL_TIMEOUT else RTOS_OSAL_SUCCESS, item), k1))"

section \<open>Semaphores and mutexes\<close>

definition rtos_osal_semaphore_create ::
    "'k kernel \<Rightarrow> nat \<Rightarrow> nat \<Rightarrow> 'k \<Rightarrow> rtos_osal_status_t \<times> nat \<times> 'k" where
  "rtos_osal_semaphore_create kern max_count initial_count k =
     (let (h, k1) = xSemaphoreCreateCounting kern max_count initial_count k in (created h, h, k1))"

definition rtos_osal_semaphore_put ::
    "'k kernel \<Rightarrow> bool \<Rightarrow> nat \<Rightarrow> nat \<Rightarrow> 'k \<Rightarrow> rtos_osal_status_t \<times> 'k" where
  "rtos_osal_semaphore_put kern isr me h k =
     (let (status, k1) =
            (if isr then xSemaphoreGiveFromISR kern h k else xSemaphoreGive kern h me k)
      in (if \<not> status then RTOS_OSAL_ERROR else RTOS_OSAL_SUCCESS, k1))"

definition rtos_osal_semaphore_get ::
    "'k kernel \<Rightarrow> bool \<Rightarrow> nat \<Rightarrow> nat \<Rightarrow> nat \<Rightarrow> 'k \<Rightarrow> rtos_osal_status_t \<times> 'k" where
  "rtos_osal_semaphore_get kern isr me h timeout k =
     (let (status, k1) =
            (if isr then
               (if timeout = 0 then xSemaphoreTakeFromISR kern h k else (False, k))
             else xSemaphoreTake kern h me timeout k)
      in (if \<not> status then RTOS_OSAL_TIMEOUT else RTOS_OSAL_SUCCESS, k1))"

record rtos_osal_mutex =
  mutex_handle :: nat
  recursive :: bool

definition rtos_osal_mutex_create ::
    "'k kernel \<Rightarrow> bool \<Rightarrow> 'k \<Rightarrow> rtos_osal_status_t \<times> rtos_osal_mutex \<times> 'k" where
  "rtos_osal_mutex_create kern r k =
     (let (h, k1) = (if r then xSemaphoreCreateRecursiveMutex kern k else xSemaphoreCreateMutex kern k)
      in (created h, \<lparr>mutex_handle = h, recursive = r\<rparr>, k1))"

definition rtos_osal_mutex_put ::
    "'k kernel \<Rightarrow> nat \<Rightarrow> rtos_osal_mutex \<Rightarrow> 'k \<Rightarrow> rtos_osal_status_t \<times> 'k" where
  "rtos_osal_mutex_put kern me m k =
     (let (status, k1) =
            (if recursive m then xSemaphoreGiveRecursive kern (mutex_handle m) me k
             else xSemaphoreGive kern (mutex_handle m) me k)
      in (if \<not> status then RTOS_OSAL_ERROR else RTOS_OSAL_SUCCESS, k1))"

definition rtos_osal_mutex_get ::
    "'k kernel \<Rightarrow> nat \<Rightarrow> rtos_osal_mutex \<Rightarrow> nat \<Rightarrow> 'k \<Rightarrow> rtos_osal_status_t \<times> 'k" where
  "rtos_osal_mutex_get kern me m timeout k =
     (let (status, k1) =
            (if recursive m then xSemaphoreTakeRecursive kern (mutex_handle m) me timeout k
             else xSemaphoreTake kern (mutex_handle m) me timeout k)
      in (if \<not> status then RTOS_OSAL_TIMEOUT else RTOS_OSAL_SUCCESS, k1))"

section \<open>Threads\<close>

text \<open>
  The thread calls, over the part of the kernel they use. A thread argument is \<open>None\<close> for NULL, which
  means the calling thread, NULL to the kernel too.
\<close>

record 'k thread_kernel =
  xTaskCreate :: "nat \<Rightarrow> nat \<Rightarrow> 'k \<Rightarrow> bool \<times> nat \<times> 'k"
  vTaskCoreAffinitySet :: "nat \<Rightarrow> u32 \<Rightarrow> 'k \<Rightarrow> 'k"
  vTaskCoreAffinityGet :: "nat \<Rightarrow> 'k \<Rightarrow> u32"
  vTaskPreemptionDisable :: "nat \<Rightarrow> 'k \<Rightarrow> 'k"
  vTaskPreemptionEnable :: "nat \<Rightarrow> 'k \<Rightarrow> 'k"
  vTaskPrioritySet :: "nat \<Rightarrow> nat \<Rightarrow> 'k \<Rightarrow> 'k"
  uxTaskPriorityGet :: "nat \<Rightarrow> 'k \<Rightarrow> nat"
  vTaskDelete :: "nat \<Rightarrow> 'k \<Rightarrow> 'k"

definition thread_handle :: "nat option \<Rightarrow> nat" where
  "thread_handle thread = (case thread of Some h \<Rightarrow> h | None \<Rightarrow> 0)"

definition rtos_osal_thread_create ::
    "'k thread_kernel \<Rightarrow> nat \<Rightarrow> nat \<Rightarrow> 'k \<Rightarrow> rtos_osal_status_t \<times> nat \<times> 'k" where
  "rtos_osal_thread_create kern stack_word_size priority k =
     (let (ok, h, k1) = xTaskCreate kern stack_word_size priority k
      in (if ok then RTOS_OSAL_SUCCESS else RTOS_OSAL_TIMEOUT, h, k1))"

definition rtos_osal_thread_core_exclusion_set ::
    "'k thread_kernel \<Rightarrow> nat option \<Rightarrow> u32 \<Rightarrow> 'k \<Rightarrow> rtos_osal_status_t \<times> 'k" where
  "rtos_osal_thread_core_exclusion_set kern thread core_map k =
     (RTOS_OSAL_SUCCESS, vTaskCoreAffinitySet kern (thread_handle thread) (NOT core_map) k)"

definition rtos_osal_thread_core_exclusion_get ::
    "'k thread_kernel \<Rightarrow> nat option \<Rightarrow> 'k \<Rightarrow> rtos_osal_status_t \<times> u32" where
  "rtos_osal_thread_core_exclusion_get kern thread k =
     (RTOS_OSAL_SUCCESS, NOT (vTaskCoreAffinityGet kern (thread_handle thread) k))"

definition rtos_osal_thread_preemption_disable ::
    "'k thread_kernel \<Rightarrow> nat option \<Rightarrow> 'k \<Rightarrow> rtos_osal_status_t \<times> 'k" where
  "rtos_osal_thread_preemption_disable kern thread k =
     (RTOS_OSAL_SUCCESS, vTaskPreemptionDisable kern (thread_handle thread) k)"

definition rtos_osal_thread_preemption_enable ::
    "'k thread_kernel \<Rightarrow> nat option \<Rightarrow> 'k \<Rightarrow> rtos_osal_status_t \<times> 'k" where
  "rtos_osal_thread_preemption_enable kern thread k =
     (RTOS_OSAL_SUCCESS, vTaskPreemptionEnable kern (thread_handle thread) k)"

definition rtos_osal_thread_priority_set ::
    "'k thread_kernel \<Rightarrow> nat option \<Rightarrow> nat \<Rightarrow> 'k \<Rightarrow> rtos_osal_status_t \<times> 'k" where
  "rtos_osal_thread_priority_set kern thread priority k =
     (RTOS_OSAL_SUCCESS, vTaskPrioritySet kern (thread_handle thread) priority k)"

definition rtos_osal_thread_priority_get ::
    "'k thread_kernel \<Rightarrow> nat option \<Rightarrow> 'k \<Rightarrow> rtos_osal_status_t \<times> nat" where
  "rtos_osal_thread_priority_get kern thread k =
     (RTOS_OSAL_SUCCESS, uxTaskPriorityGet kern (thread_handle thread) k)"

definition rtos_osal_thread_delete ::
    "'k thread_kernel \<Rightarrow> nat option \<Rightarrow> 'k \<Rightarrow> rtos_osal_status_t \<times> 'k" where
  "rtos_osal_thread_delete kern thread k = (RTOS_OSAL_SUCCESS, vTaskDelete kern (thread_handle thread) k)"

lemma core_exclusion_get_set:
  assumes "\<And>t m k. vTaskCoreAffinityGet kern t (vTaskCoreAffinitySet kern t m k) = m"
  shows "rtos_osal_thread_core_exclusion_get kern t (snd (rtos_osal_thread_core_exclusion_set kern t m k)) =
    (RTOS_OSAL_SUCCESS, m)"
  by (simp add: rtos_osal_thread_core_exclusion_get_def rtos_osal_thread_core_exclusion_set_def assms)

text \<open>A thread for which there is no memory is reported as a timeout.\<close>

lemma thread_create_reports_timeout:
  assumes "xTaskCreate kern n prio k = (False, h, k')"
  shows "fst (rtos_osal_thread_create kern n prio k) = RTOS_OSAL_TIMEOUT"
  by (simp add: rtos_osal_thread_create_def assms)

section \<open>The kernel's objects\<close>

text \<open>
  What the kernel keeps: the bits of event groups, whether a task waits for bits of a group, and the
  commands of interrupts that the timer task has yet to carry out (at most \<open>command_room\<close>); the items of
  queues; counting semaphores and mutexes.
\<close>

datatype sema =
    Counting nat nat
  | Mutex "nat option"
  | Recursive_mutex "(nat \<times> nat) option"

datatype command = Set_cmd nat u32 | Clear_cmd nat u32

record objects =
  bits :: "nat \<Rightarrow> u32"
  awaited :: "nat \<Rightarrow> bool"
  commands :: "command list"
  command_room :: nat
  items :: "nat \<Rightarrow> byte list list"
  room :: "nat \<Rightarrow> nat"
  sema :: "nat \<Rightarrow> sema"

definition put_bits :: "nat \<Rightarrow> u32 \<Rightarrow> objects \<Rightarrow> objects" where
  "put_bits g b a = a\<lparr>bits := (bits a)(g := b)\<rparr>"

definition do_command :: "command \<Rightarrow> objects \<Rightarrow> objects" where
  "do_command c a =
     (case c of Set_cmd g b \<Rightarrow> put_bits g (bits a g OR b) a
      | Clear_cmd g b \<Rightarrow> put_bits g (bits a g AND NOT b) a)"

definition next_command :: "objects \<Rightarrow> objects" where
  "next_command a =
     (case commands a of [] \<Rightarrow> a | c # cs \<Rightarrow> do_command c (a\<lparr>commands := cs\<rparr>))"

definition post_command :: "command \<Rightarrow> objects \<Rightarrow> bool \<times> objects" where
  "post_command c a =
     (if length (commands a) < command_room a then (True, a\<lparr>commands := commands a @ [c]\<rparr>) else (False, a))"

text \<open>
  The kernel keeps the upper 8 bits of a group for itself: only the other 24 may be set, cleared or waited
  for. Bits that are set while a task waits may be cleared for that task at once.
\<close>

definition usable :: "u32 \<Rightarrow> bool" where
  "usable b \<longleftrightarrow> b AND 0xFF000000 = 0"

definition may_do :: "command \<Rightarrow> objects \<Rightarrow> bool" where
  "may_do c a = (case c of Set_cmd g b \<Rightarrow> usable b \<and> \<not> awaited a g | Clear_cmd g b \<Rightarrow> usable b)"

definition may_do_next :: "objects \<Rightarrow> bool" where
  "may_do_next a = (case commands a of [] \<Rightarrow> True | c # cs \<Rightarrow> may_do c a)"

definition wanted :: "u32 \<Rightarrow> bool \<Rightarrow> u32 \<Rightarrow> bool" where
  "wanted req and_all b = (if and_all then b AND req = req else b AND req \<noteq> 0)"

definition put_item :: "nat \<Rightarrow> byte list \<Rightarrow> objects \<Rightarrow> objects" where
  "put_item q x a = a\<lparr>items := (items a)(q := items a q @ [x])\<rparr>"

definition drop_item :: "nat \<Rightarrow> objects \<Rightarrow> objects" where
  "drop_item q a = a\<lparr>items := (items a)(q := tl (items a q))\<rparr>"

definition put_sema :: "nat \<Rightarrow> sema \<Rightarrow> objects \<Rightarrow> objects" where
  "put_sema h v a = a\<lparr>sema := (sema a)(h := v)\<rparr>"

text \<open>
  \<open>give\<close> and \<open>take_sema\<close> are what becomes of a semaphore or mutex: \<open>None\<close> where the kernel promises nothing
  (a mutex given by a task that has not got it), \<open>Some None\<close> for a call that changes nothing.
\<close>

definition give :: "nat option \<Rightarrow> sema \<Rightarrow> sema option option" where
  "give t s =
     (case s of Counting m n \<Rightarrow> Some (if n < m then Some (Counting m (n + 1)) else None)
      | Mutex o' \<Rightarrow> if t \<noteq> None \<and> o' = t then Some (Some (Mutex None)) else None
      | Recursive_mutex _ \<Rightarrow> None)"

definition take_sema :: "nat option \<Rightarrow> sema \<Rightarrow> sema option option" where
  "take_sema t s =
     (case s of Counting m n \<Rightarrow> Some (if 0 < n then Some (Counting m (n - 1)) else None)
      | Mutex o' \<Rightarrow> if t = None then None else Some (if o' = None then Some (Mutex t) else None)
      | Recursive_mutex _ \<Rightarrow> None)"

definition give_recursive :: "nat \<Rightarrow> sema \<Rightarrow> sema option option" where
  "give_recursive t s =
     (case s of Recursive_mutex (Some (u, n)) \<Rightarrow>
          Some (if u = t then Some (Recursive_mutex (if n \<le> 1 then None else Some (t, n - 1))) else None)
      | Recursive_mutex None \<Rightarrow> Some None
      | _ \<Rightarrow> None)"

definition take_recursive :: "nat \<Rightarrow> sema \<Rightarrow> sema option option" where
  "take_recursive t s =
     (case s of Recursive_mutex None \<Rightarrow> Some (Some (Recursive_mutex (Some (t, 1))))
      | Recursive_mutex (Some (u, n)) \<Rightarrow> Some (if u = t then Some (Recursive_mutex (Some (t, n + 1))) else None)
      | _ \<Rightarrow> None)"

text \<open>The kernel's documented behaviour, for the calls that need not wait.\<close>

definition events_ok :: "'k kernel \<Rightarrow> ('k \<Rightarrow> objects) \<Rightarrow> bool" where
  "events_ok kern view \<longleftrightarrow>
     (\<forall>g b k. may_do (Set_cmd g b) (view k) \<longrightarrow>
        view (snd (xEventGroupSetBits kern g b k)) = do_command (Set_cmd g b) (view k)) \<and>
     (\<forall>g b k. may_do (Clear_cmd g b) (view k) \<longrightarrow>
        view (snd (xEventGroupClearBits kern g b k)) = do_command (Clear_cmd g b) (view k)) \<and>
     (\<forall>g b k. usable b \<longrightarrow>
        map_prod id view (xEventGroupSetBitsFromISR kern g b k) = post_command (Set_cmd g b) (view k)) \<and>
     (\<forall>g b k. usable b \<longrightarrow>
        map_prod id view (xEventGroupClearBitsFromISR kern g b k) = post_command (Clear_cmd g b) (view k)) \<and>
     (\<forall>g k. xEventGroupGetBitsFromISR kern g k = bits (view k) g) \<and>
     (\<forall>g req clear all' timeout k. req \<noteq> 0 \<and> usable req \<and> wanted req all' (bits (view k) g) \<longrightarrow>
        map_prod id view (xEventGroupWaitBits kern g req clear all' timeout k) =
          (bits (view k) g, if clear then put_bits g (bits (view k) g AND NOT req) (view k) else view k)) \<and>
     (\<forall>g req clear all' k. req \<noteq> 0 \<and> usable req \<and> \<not> wanted req all' (bits (view k) g) \<longrightarrow>
        map_prod id view (xEventGroupWaitBits kern g req clear all' 0 k) = (bits (view k) g, view k)) \<and>
     (\<forall>k. may_do_next (view k) \<longrightarrow> view (timer_task kern k) = next_command (view k))"

definition queues_ok :: "'k kernel \<Rightarrow> ('k \<Rightarrow> objects) \<Rightarrow> bool" where
  "queues_ok kern view \<longleftrightarrow>
     (\<forall>q x timeout k. length (items (view k) q) < room (view k) q \<longrightarrow>
        map_prod id view (xQueueSend kern q x timeout k) = (True, put_item q x (view k))) \<and>
     (\<forall>q x k. \<not> length (items (view k) q) < room (view k) q \<longrightarrow>
        map_prod id view (xQueueSend kern q x 0 k) = (False, view k)) \<and>
     (\<forall>q x k. map_prod id view (xQueueSendFromISR kern q x k) =
        (if length (items (view k) q) < room (view k) q then (True, put_item q x (view k)) else (False, view k))) \<and>
     (\<forall>q timeout k. items (view k) q \<noteq> [] \<longrightarrow>
        map_prod id view (xQueueReceive kern q timeout k) = (Some (hd (items (view k) q)), drop_item q (view k))) \<and>
     (\<forall>q k. items (view k) q = [] \<longrightarrow>
        map_prod id view (xQueueReceive kern q 0 k) = (None, view k)) \<and>
     (\<forall>q k. map_prod id view (xQueueReceiveFromISR kern q k) =
        (if items (view k) q \<noteq> [] then (Some (hd (items (view k) q)), drop_item q (view k)) else (None, view k)))"

text \<open>\<open>sema_call f c\<close>: the call \<open>c\<close> on \<open>h\<close> does what \<open>f\<close> says; one that fails does so only if it may not wait.\<close>

definition sema_call ::
    "('k \<Rightarrow> objects) \<Rightarrow> nat \<Rightarrow> bool \<Rightarrow> (sema \<Rightarrow> sema option option) \<Rightarrow> ('k \<Rightarrow> bool \<times> 'k) \<Rightarrow> bool" where
  "sema_call view h may_fail f c \<longleftrightarrow>
     (\<forall>k. case f (sema (view k) h) of
        None \<Rightarrow> True
      | Some None \<Rightarrow> may_fail \<longrightarrow> map_prod id view (c k) = (False, view k)
      | Some (Some v) \<Rightarrow> map_prod id view (c k) = (True, put_sema h v (view k)))"

definition semas_ok :: "'k kernel \<Rightarrow> ('k \<Rightarrow> objects) \<Rightarrow> bool" where
  "semas_ok kern view \<longleftrightarrow>
     (\<forall>h t. sema_call view h True (give (Some t)) (xSemaphoreGive kern h t)) \<and>
     (\<forall>h. sema_call view h True (give None) (xSemaphoreGiveFromISR kern h)) \<and>
     (\<forall>h t. sema_call view h True (give_recursive t) (xSemaphoreGiveRecursive kern h t)) \<and>
     (\<forall>h t timeout. sema_call view h (timeout = 0) (take_sema (Some t)) (xSemaphoreTake kern h t timeout)) \<and>
     (\<forall>h. sema_call view h True (take_sema None) (xSemaphoreTakeFromISR kern h)) \<and>
     (\<forall>h t timeout. sema_call view h (timeout = 0) (take_recursive t)
        (xSemaphoreTakeRecursive kern h t timeout))"

definition kernel_ok :: "'k kernel \<Rightarrow> ('k \<Rightarrow> objects) \<Rightarrow> bool" where
  "kernel_ok kern view \<longleftrightarrow> events_ok kern view \<and> queues_ok kern view \<and> semas_ok kern view"

section \<open>The objects of the OSAL\<close>

text \<open>
  A history of calls on existing objects; the bool of a call says that it is made in an interrupt. A
  mutex has the kind it was created with. \<open>Timer_task\<close> is the kernel's task that carries out the next
  command of an interrupt.
\<close>

datatype op =
    Set_bits bool nat u32
  | Clear_bits bool nat u32
  | Get_bits bool nat u32 u32 nat
  | Send bool nat "byte list" nat
  | Receive bool nat nat
  | Sema_put bool nat nat
  | Sema_get bool nat nat nat
  | Mutex_put nat rtos_osal_mutex
  | Mutex_get nat rtos_osal_mutex nat
  | Timer_task

datatype outcome =
    Status rtos_osal_status_t
  | Bits rtos_osal_status_t "u32 option"
  | Item rtos_osal_status_t "byte list option"

fun osal_call :: "'k kernel \<Rightarrow> op \<Rightarrow> 'k \<Rightarrow> outcome \<times> 'k" where
  "osal_call kern (Set_bits isr g b) k = map_prod Status id (rtos_osal_event_group_set_bits kern isr g b k)"
| "osal_call kern (Clear_bits isr g b) k = map_prod Status id (rtos_osal_event_group_clear_bits kern isr g b k)"
| "osal_call kern (Get_bits isr g req opt timeout) k =
     map_prod (\<lambda>(st, b). Bits st b) id (rtos_osal_event_group_get_bits kern isr g req opt timeout k)"
| "osal_call kern (Send isr q x timeout) k = map_prod Status id (rtos_osal_queue_send kern isr q x timeout k)"
| "osal_call kern (Receive isr q timeout) k =
     map_prod (\<lambda>(st, x). Item st x) id (rtos_osal_queue_receive kern isr q timeout k)"
| "osal_call kern (Sema_put isr t h) k = map_prod Status id (rtos_osal_semaphore_put kern isr t h k)"
| "osal_call kern (Sema_get isr t h timeout) k =
     map_prod Status id (rtos_osal_semaphore_get kern isr t h timeout k)"
| "osal_call kern (Mutex_put t m) k = map_prod Status id (rtos_osal_mutex_put kern t m k)"
| "osal_call kern (Mutex_get t m timeout) k = map_prod Status id (rtos_osal_mutex_get kern t m timeout k)"
| "osal_call kern Timer_task k = (Status RTOS_OSAL_SUCCESS, timer_task kern k)"

fun osal_calls :: "'k kernel \<Rightarrow> op list \<Rightarrow> 'k \<Rightarrow> outcome list \<times> 'k" where
  "osal_calls kern [] k = ([], k)"
| "osal_calls kern (c # cs) k =
     (let (r, k1) = osal_call kern c k; (rs, k2) = osal_calls kern cs k1 in (r # rs, k2))"

text \<open>
  What the calls are to do. \<open>None\<close> is a call that has to wait, or one the kernel promises nothing for. In
  an interrupt no call may wait, and one that is told to wait fails at once.
\<close>

definition spec_status :: "bool \<Rightarrow> rtos_osal_status_t" where
  "spec_status ok = (if ok then RTOS_OSAL_SUCCESS else RTOS_OSAL_ERROR)"

definition spec_sema ::
    "nat \<Rightarrow> bool \<Rightarrow> rtos_osal_status_t \<Rightarrow> sema option option \<Rightarrow> objects \<Rightarrow> (outcome \<times> objects) option" where
  "spec_sema h may_fail failed r a =
     (case r of None \<Rightarrow> None
      | Some None \<Rightarrow> if may_fail then Some (Status failed, a) else None
      | Some (Some v) \<Rightarrow> Some (Status RTOS_OSAL_SUCCESS, put_sema h v a))"

definition spec_get_bits :: "bool \<Rightarrow> nat \<Rightarrow> u32 \<Rightarrow> u32 \<Rightarrow> nat \<Rightarrow> objects \<Rightarrow> (outcome \<times> objects) option" where
  "spec_get_bits isr g req opt timeout a =
     (let b = bits a g; found = wanted req (opt AND RTOS_OSAL_PORT_AND \<noteq> 0) b;
          clear = (opt AND RTOS_OSAL_PORT_CLEAR \<noteq> 0)
      in if req = 0 \<or> \<not> usable req then None
         else if isr \<and> timeout \<noteq> 0 then Some (Bits RTOS_OSAL_ERROR None, a)
         else if found \<and> clear \<and> isr then
           (let (ok, a1) = post_command (Clear_cmd g (b AND req)) a in Some (Bits (spec_status ok) (Some b), a1))
         else if found then
           Some (Bits RTOS_OSAL_SUCCESS (Some b), if clear then put_bits g (b AND NOT req) a else a)
         else if timeout = 0 then Some (Bits RTOS_OSAL_TIMEOUT (Some b), a)
         else None)"

fun spec_call :: "op \<Rightarrow> objects \<Rightarrow> (outcome \<times> objects) option" where
  "spec_call (Set_bits isr g b) a =
     (if isr \<and> usable b then Some (map_prod (Status \<circ> spec_status) id (post_command (Set_cmd g b) a))
      else if \<not> isr \<and> may_do (Set_cmd g b) a then Some (Status RTOS_OSAL_SUCCESS, put_bits g (bits a g OR b) a)
      else None)"
| "spec_call (Clear_bits isr g b) a =
     (if isr \<and> usable b then Some (map_prod (Status \<circ> spec_status) id (post_command (Clear_cmd g b) a))
      else if \<not> isr \<and> may_do (Clear_cmd g b) a then
        Some (Status RTOS_OSAL_SUCCESS, put_bits g (bits a g AND NOT b) a)
      else None)"
| "spec_call (Get_bits isr g req opt timeout) a = spec_get_bits isr g req opt timeout a"
| "spec_call (Send isr q x timeout) a =
     (if length (items a q) < room a q \<and> \<not> (isr \<and> timeout \<noteq> 0) then
        Some (Status RTOS_OSAL_SUCCESS, put_item q x a)
      else if isr \<or> timeout = 0 then Some (Status RTOS_OSAL_TIMEOUT, a) else None)"
| "spec_call (Receive isr q timeout) a =
     (if items a q \<noteq> [] \<and> \<not> (isr \<and> timeout \<noteq> 0) then
        Some (Item RTOS_OSAL_SUCCESS (Some (hd (items a q))), drop_item q a)
      else if isr \<or> timeout = 0 then Some (Item RTOS_OSAL_TIMEOUT None, a) else None)"
| "spec_call (Sema_put isr t h) a =
     spec_sema h True RTOS_OSAL_ERROR (give (if isr then None else Some t) (sema a h)) a"
| "spec_call (Sema_get isr t h timeout) a =
     (if isr \<and> timeout \<noteq> 0 then Some (Status RTOS_OSAL_TIMEOUT, a)
      else spec_sema h (timeout = 0) RTOS_OSAL_TIMEOUT (take_sema (if isr then None else Some t) (sema a h)) a)"
| "spec_call (Mutex_put t m) a =
     spec_sema (mutex_handle m) True RTOS_OSAL_ERROR
       (if recursive m then give_recursive t (sema a (mutex_handle m)) else give (Some t) (sema a (mutex_handle m))) a"
| "spec_call (Mutex_get t m timeout) a =
     spec_sema (mutex_handle m) (timeout = 0) RTOS_OSAL_TIMEOUT
       (if recursive m then take_recursive t (sema a (mutex_handle m))
        else take_sema (Some t) (sema a (mutex_handle m))) a"
| "spec_call Timer_task a = (if may_do_next a then Some (Status RTOS_OSAL_SUCCESS, next_command a) else None)"

fun spec_calls :: "op list \<Rightarrow> objects \<Rightarrow> (outcome list \<times> objects) option" where
  "spec_calls [] a = Some ([], a)"
| "spec_calls (c # cs) a =
     (case spec_call c a of None \<Rightarrow> None
      | Some (r, a1) \<Rightarrow> map_option (\<lambda>(rs, a2). (r # rs, a2)) (spec_calls cs a1))"

lemma map_prod_eq_Pair: "map_prod id f p = (x, y) \<longleftrightarrow> fst p = x \<and> f (snd p) = y"
  by (cases p) simp

lemma flags_status_wanted:
  "req \<noteq> 0 \<Longrightarrow> flags_status req all' (b AND req) =
     (if wanted req all' b then RTOS_OSAL_SUCCESS else RTOS_OSAL_TIMEOUT)"
  by (simp add: flags_status_def wanted_def)

lemma wanted_nonzero: "req \<noteq> 0 \<Longrightarrow> wanted req all' b \<Longrightarrow> b AND req \<noteq> 0"
  by (auto simp: wanted_def split: if_splits)

lemma wanted_cond:
  "req \<noteq> 0 \<Longrightarrow> (b AND req \<noteq> 0 \<and> (\<not> all' \<or> b AND req = req)) = wanted req all' b"
  by (auto simp: wanted_def)

lemma events_okD:
  assumes "events_ok kern view"
  shows "may_do (Set_cmd g b) (view k) \<Longrightarrow>
       view (snd (xEventGroupSetBits kern g b k)) = put_bits g (bits (view k) g OR b) (view k)"
    "may_do (Clear_cmd g b) (view k) \<Longrightarrow>
       view (snd (xEventGroupClearBits kern g b k)) = put_bits g (bits (view k) g AND NOT b) (view k)"
    "usable b \<Longrightarrow> xEventGroupSetBitsFromISR kern g b k = (v, k1) \<Longrightarrow>
       post_command (Set_cmd g b) (view k) = (v, view k1)"
    "usable b \<Longrightarrow> xEventGroupClearBitsFromISR kern g b k = (v, k1) \<Longrightarrow>
       post_command (Clear_cmd g b) (view k) = (v, view k1)"
    "xEventGroupGetBitsFromISR kern g k = bits (view k) g"
    "req \<noteq> 0 \<Longrightarrow> usable req \<Longrightarrow> wanted req all' (bits (view k) g) \<Longrightarrow>
       xEventGroupWaitBits kern g req clear all' timeout k = (w, k1) \<Longrightarrow>
       w = bits (view k) g \<and>
       view k1 = (if clear then put_bits g (bits (view k) g AND NOT req) (view k) else view k)"
    "req \<noteq> 0 \<Longrightarrow> usable req \<Longrightarrow> \<not> wanted req all' (bits (view k) g) \<Longrightarrow>
       xEventGroupWaitBits kern g req clear all' 0 k = (w, k1) \<Longrightarrow> w = bits (view k) g \<and> view k1 = view k"
    "may_do_next (view k) \<Longrightarrow> view (timer_task kern k) = next_command (view k)"
proof -
  note e = assms[unfolded events_ok_def]
  note e1 = e[THEN conjunct1, rule_format] and e = e[THEN conjunct2]
  note e2 = e[THEN conjunct1, rule_format] and e = e[THEN conjunct2]
  note e3 = e[THEN conjunct1, rule_format] and e = e[THEN conjunct2]
  note e4 = e[THEN conjunct1, rule_format] and e = e[THEN conjunct2]
  note e5 = e[THEN conjunct1, rule_format] and e = e[THEN conjunct2]
  note e6 = e[THEN conjunct1, rule_format, OF conjI, OF _ conjI] and e = e[THEN conjunct2]
  note e7 = e[THEN conjunct1, rule_format, OF conjI, OF _ conjI] and e8 = e[THEN conjunct2, rule_format]
  show "may_do (Set_cmd g b) (view k) \<Longrightarrow>
      view (snd (xEventGroupSetBits kern g b k)) = put_bits g (bits (view k) g OR b) (view k)"
    using e1[of g b k] by (simp add: do_command_def)
  show "may_do (Clear_cmd g b) (view k) \<Longrightarrow>
      view (snd (xEventGroupClearBits kern g b k)) = put_bits g (bits (view k) g AND NOT b) (view k)"
    using e2[of g b k] by (simp add: do_command_def)
  show "xEventGroupGetBitsFromISR kern g k = bits (view k) g" by (rule e5)
  show "may_do_next (view k) \<Longrightarrow> view (timer_task kern k) = next_command (view k)" by (rule e8)
  show "usable b \<Longrightarrow> xEventGroupSetBitsFromISR kern g b k = (v, k1) \<Longrightarrow>
      post_command (Set_cmd g b) (view k) = (v, view k1)"
    using e3[of b g k] by simp
  show "usable b \<Longrightarrow> xEventGroupClearBitsFromISR kern g b k = (v, k1) \<Longrightarrow>
      post_command (Clear_cmd g b) (view k) = (v, view k1)"
    using e4[of b g k] by simp
  show "req \<noteq> 0 \<Longrightarrow> usable req \<Longrightarrow> wanted req all' (bits (view k) g) \<Longrightarrow>
      xEventGroupWaitBits kern g req clear all' timeout k = (w, k1) \<Longrightarrow>
      w = bits (view k) g \<and>
      view k1 = (if clear then put_bits g (bits (view k) g AND NOT req) (view k) else view k)"
    using e6[of req all' k g clear timeout] by simp
  show "req \<noteq> 0 \<Longrightarrow> usable req \<Longrightarrow> \<not> wanted req all' (bits (view k) g) \<Longrightarrow>
      xEventGroupWaitBits kern g req clear all' 0 k = (w, k1) \<Longrightarrow> w = bits (view k) g \<and> view k1 = view k"
    using e7[of req all' k g clear] by simp
qed

lemma usable_AND: "usable req \<Longrightarrow> usable (b AND req)"
  by (simp add: usable_def and.assoc)

lemma queues_okD:
  assumes "queues_ok kern view"
  shows "length (items (view k) q) < room (view k) q \<Longrightarrow> xQueueSend kern q x timeout k = (v, k1) \<Longrightarrow>
       v \<and> view k1 = put_item q x (view k)"
    "\<not> length (items (view k) q) < room (view k) q \<Longrightarrow> xQueueSend kern q x 0 k = (v, k1) \<Longrightarrow>
       \<not> v \<and> view k1 = view k"
    "xQueueSendFromISR kern q x k = (v, k1) \<Longrightarrow>
       (v, view k1) = (if length (items (view k) q) < room (view k) q then (True, put_item q x (view k)) else (False, view k))"
    "items (view k) q \<noteq> [] \<Longrightarrow> xQueueReceive kern q timeout k = (y, k1) \<Longrightarrow>
       y = Some (hd (items (view k) q)) \<and> view k1 = drop_item q (view k)"
    "items (view k) q = [] \<Longrightarrow> xQueueReceive kern q 0 k = (y, k1) \<Longrightarrow> y = None \<and> view k1 = view k"
    "xQueueReceiveFromISR kern q k = (y, k1) \<Longrightarrow>
       (y, view k1) = (if items (view k) q \<noteq> [] then (Some (hd (items (view k) q)), drop_item q (view k)) else (None, view k))"
proof -
  note e = assms[unfolded queues_ok_def]
  note e1 = e[THEN conjunct1, rule_format] and e = e[THEN conjunct2]
  note e2 = e[THEN conjunct1, rule_format] and e = e[THEN conjunct2]
  note e3 = e[THEN conjunct1, rule_format] and e = e[THEN conjunct2]
  note e4 = e[THEN conjunct1, rule_format] and e = e[THEN conjunct2]
  note e5 = e[THEN conjunct1, rule_format] and e6 = e[THEN conjunct2, rule_format]
  show "length (items (view k) q) < room (view k) q \<Longrightarrow> xQueueSend kern q x timeout k = (v, k1) \<Longrightarrow>
       v \<and> view k1 = put_item q x (view k)"
    using e1[of k q x timeout] by simp
  show "\<not> length (items (view k) q) < room (view k) q \<Longrightarrow> xQueueSend kern q x 0 k = (v, k1) \<Longrightarrow>
       \<not> v \<and> view k1 = view k"
    using e2[of k q x] by simp
  show "xQueueSendFromISR kern q x k = (v, k1) \<Longrightarrow>
       (v, view k1) = (if length (items (view k) q) < room (view k) q then (True, put_item q x (view k)) else (False, view k))"
    using e3[of q x k] by simp
  show "items (view k) q \<noteq> [] \<Longrightarrow> xQueueReceive kern q timeout k = (y, k1) \<Longrightarrow>
       y = Some (hd (items (view k) q)) \<and> view k1 = drop_item q (view k)"
    using e4[of k q timeout] by simp
  show "items (view k) q = [] \<Longrightarrow> xQueueReceive kern q 0 k = (y, k1) \<Longrightarrow> y = None \<and> view k1 = view k"
    using e5[of k q] by simp
  show "xQueueReceiveFromISR kern q k = (y, k1) \<Longrightarrow>
       (y, view k1) = (if items (view k) q \<noteq> [] then (Some (hd (items (view k) q)), drop_item q (view k)) else (None, view k))"
    using e6[of q k] by simp
qed

lemma simulates_get_bits:
  assumes ok: "events_ok kern view" and sp: "spec_get_bits isr g req opt timeout (view k) = Some (r, a')"
  shows "map_prod id view (osal_call kern (Get_bits isr g req opt timeout) k) = (r, a')"
proof -
  define all' where "all' = (opt AND RTOS_OSAL_PORT_AND \<noteq> 0)"
  define clear where "clear = (opt AND RTOS_OSAL_PORT_CLEAR \<noteq> 0)"
  define b where "b = bits (view k) g"
  have req: "req \<noteq> 0" and us: "usable req" using sp unfolding spec_get_bits_def Let_def
    by (auto simp del: not_None_eq split: if_split_asm)
  show ?thesis
  proof (cases isr)
    case True
    obtain cl k1 where c: "xEventGroupClearBitsFromISR kern g (b AND req) k = (cl, k1)" by fastforce
    have post: "post_command (Clear_cmd g (b AND req)) (view k) = (cl, view k1)"
      and bits: "xEventGroupGetBitsFromISR kern g k = b"
      using events_okD(4)[OF ok usable_AND[OF us] c] events_okD(5)[OF ok] by (simp_all add: b_def)
    show ?thesis
    proof (cases "wanted req all' b")
      case w: True
      then have "b AND req \<noteq> 0" "all' \<Longrightarrow> b AND req = req" using wanted_nonzero[OF req] by (auto simp: wanted_def)
      with True req sp c post bits w show ?thesis
        by (auto simp: rtos_osal_event_group_get_bits_def spec_get_bits_def Let_def flags_status_wanted
            all'_def[symmetric] clear_def[symmetric] b_def[symmetric] spec_status_def split: if_splits)
    next
      case w: False
      then have "\<not> (b AND req \<noteq> 0 \<and> (\<not> all' \<or> b AND req = req))" using wanted_cond[OF req] by blast
      with True req sp bits w show ?thesis
        by (auto simp: rtos_osal_event_group_get_bits_def spec_get_bits_def Let_def flags_status_wanted
            all'_def[symmetric] clear_def[symmetric] b_def[symmetric] split: if_splits)
    qed
  next
    case False
    obtain v k1 where w: "xEventGroupWaitBits kern g req clear all' timeout k = (v, k1)" by fastforce
    have found: "wanted req all' b \<Longrightarrow>
        v = b \<and> view k1 = (if clear then put_bits g (b AND NOT req) (view k) else view k)"
      and none: "\<not> wanted req all' b \<Longrightarrow> timeout = 0 \<Longrightarrow> v = b \<and> view k1 = view k"
      using events_okD(6)[OF ok req us _ w] events_okD(7)[OF ok req us] w by (auto simp: b_def)
    show ?thesis
    proof (cases "wanted req all' b")
      case True
      with found[OF True] \<open>\<not> isr\<close> req sp w show ?thesis
        by (auto simp: rtos_osal_event_group_get_bits_def spec_get_bits_def Let_def flags_status_wanted
            all'_def[symmetric] clear_def[symmetric] b_def[symmetric] split: if_splits)
    next
      case no: False
      with \<open>\<not> isr\<close> req sp have "timeout = 0"
        by (auto simp: spec_get_bits_def Let_def all'_def[symmetric] b_def[symmetric] split: if_splits)
      with none[OF no] no \<open>\<not> isr\<close> req sp w show ?thesis
        by (auto simp: rtos_osal_event_group_get_bits_def spec_get_bits_def Let_def flags_status_wanted
            all'_def[symmetric] clear_def[symmetric] b_def[symmetric] split: if_splits)
    qed
  qed
qed

lemma simulates_sema:
  assumes "sema_call view h may_fail f c" and "spec_sema h may_fail failed (f (sema (view k) h)) (view k) = Some (r, a')"
  shows "map_prod (\<lambda>ok. Status (if \<not> ok then failed else RTOS_OSAL_SUCCESS)) view (c k) = (r, a')"
  using assms(1)[unfolded sema_call_def, rule_format, of k] assms(2)
  by (cases "c k") (auto simp: spec_sema_def split: option.splits if_splits)

lemma map_prod_split:
  "map_prod Status f (case p of (s, k1) \<Rightarrow> (g s, k1)) = map_prod (\<lambda>s. Status (g s)) f p"
  by (cases p) simp

lemma simulates_call:
  assumes ok: "kernel_ok kern view" and sp: "spec_call c (view k) = Some (r, a')"
  shows "map_prod id view (osal_call kern c k) = (r, a')"
proof -
  have ev: "events_ok kern view" and qs: "queues_ok kern view" and sm: "semas_ok kern view"
    using ok by (auto simp: kernel_ok_def)
  show ?thesis
  proof (cases c)
    case (Set_bits isr g b)
    obtain v k1 where c: "xEventGroupSetBitsFromISR kern g b k = (v, k1)" by fastforce
    show ?thesis
      using Set_bits sp c events_okD(1)[OF ev] events_okD(3)[OF ev _ c]
      by (cases isr) (auto simp: rtos_osal_event_group_set_bits_def spec_status_def split: if_splits)
  next
    case (Clear_bits isr g b)
    obtain v k1 where c: "xEventGroupClearBitsFromISR kern g b k = (v, k1)" by fastforce
    show ?thesis
      using Clear_bits sp c events_okD(2)[OF ev] events_okD(4)[OF ev _ c]
      by (cases isr) (auto simp: rtos_osal_event_group_clear_bits_def spec_status_def split: if_splits)
  next
    case (Get_bits isr g req opt timeout)
    with simulates_get_bits[OF ev] sp show ?thesis by simp
  next
    case (Send isr q x timeout)
    obtain v k1 where c: "xQueueSend kern q x timeout k = (v, k1)" by fastforce
    obtain v' k2 where i: "xQueueSendFromISR kern q x k = (v', k2)" by fastforce
    show ?thesis
      using Send sp c i queues_okD(1)[OF qs _ c] queues_okD(2)[OF qs, of k q x v k1] queues_okD(3)[OF qs i]
      by (cases isr; cases "length (items (view k) q) < room (view k) q"; cases "timeout = 0")
        (auto simp: rtos_osal_queue_send_def)
  next
    case (Receive isr q timeout)
    obtain v k1 where c: "xQueueReceive kern q timeout k = (v, k1)" by fastforce
    obtain v' k2 where i: "xQueueReceiveFromISR kern q k = (v', k2)" by fastforce
    show ?thesis
      using Receive sp c i queues_okD(4)[OF qs _ c] queues_okD(5)[OF qs, of k q v k1] queues_okD(6)[OF qs i]
      by (cases isr; cases "items (view k) q = []"; cases "timeout = 0")
        (auto simp: rtos_osal_queue_receive_def)
  next
    case (Sema_put isr t h)
    have "sema_call view h True (give (if isr then None else Some t))
        (if isr then xSemaphoreGiveFromISR kern h else xSemaphoreGive kern h t)"
      using sm by (simp add: semas_ok_def)
    from simulates_sema[OF this, of RTOS_OSAL_ERROR k r a'] Sema_put sp show ?thesis
      by (cases isr) (simp_all add: rtos_osal_semaphore_put_def map_prod_split prod.map_comp comp_def)
  next
    case (Sema_get isr t h timeout)
    show ?thesis
    proof (cases "isr \<and> timeout \<noteq> 0")
      case True
      with Sema_get sp show ?thesis by (auto simp: rtos_osal_semaphore_get_def)
    next
      case False
      then have "sema_call view h (timeout = 0) (take_sema (if isr then None else Some t))
          (if isr then xSemaphoreTakeFromISR kern h else xSemaphoreTake kern h t timeout)"
        using sm by (auto simp: semas_ok_def)
      from simulates_sema[OF this, of RTOS_OSAL_TIMEOUT k r a'] Sema_get sp False show ?thesis
        by (cases isr) (simp_all add: rtos_osal_semaphore_get_def map_prod_split prod.map_comp comp_def)
    qed
  next
    case (Mutex_put t m)
    have "sema_call view (mutex_handle m) True (if recursive m then give_recursive t else give (Some t))
        (if recursive m then xSemaphoreGiveRecursive kern (mutex_handle m) t
         else xSemaphoreGive kern (mutex_handle m) t)"
      using sm by (simp add: semas_ok_def)
    from simulates_sema[OF this, of RTOS_OSAL_ERROR k r a'] Mutex_put sp show ?thesis
      by (cases "recursive m") (simp_all add: rtos_osal_mutex_put_def map_prod_split prod.map_comp comp_def)
  next
    case (Mutex_get t m timeout)
    have "sema_call view (mutex_handle m) (timeout = 0) (if recursive m then take_recursive t else take_sema (Some t))
        (if recursive m then xSemaphoreTakeRecursive kern (mutex_handle m) t timeout
         else xSemaphoreTake kern (mutex_handle m) t timeout)"
      using sm by (simp add: semas_ok_def)
    from simulates_sema[OF this, of RTOS_OSAL_TIMEOUT k r a'] Mutex_get sp show ?thesis
      by (cases "recursive m") (simp_all add: rtos_osal_mutex_get_def map_prod_split prod.map_comp comp_def)
  next
    case Timer_task
    with events_okD(8)[OF ev] sp show ?thesis by (auto split: if_splits)
  qed
qed

lemma simulates_calls:
  assumes "kernel_ok kern view" and "spec_calls cs (view k) = Some (rs, a')"
  shows "map_prod id view (osal_calls kern cs k) = (rs, a')"
  using assms(2)
proof (induction cs arbitrary: k rs)
  case Nil
  then show ?case by simp
next
  case (Cons c cs)
  obtain r a1 where s: "spec_call c (view k) = Some (r, a1)"
    and rest: "map_option (\<lambda>(rs, a2). (r # rs, a2)) (spec_calls cs a1) = Some (rs, a')"
    using Cons.prems by (auto split: option.splits)
  obtain r' k1 where c: "osal_call kern c k = (r', k1)" by fastforce
  with simulates_call[OF assms(1) s] have "r' = r" and a1: "view k1 = a1" by auto
  from rest a1 obtain rs' where "spec_calls cs (view k1) = Some (rs', a')" "rs = r # rs'" by auto
  with Cons.IH[of k1 rs'] c \<open>r' = r\<close> show ?case
    by (cases "osal_calls kern cs k1") simp
qed

text \<open>The items that were put on a queue, and those that were taken off it.\<close>

definition put_by :: "nat \<Rightarrow> op \<Rightarrow> outcome \<Rightarrow> byte list list" where
  "put_by q c r =
     (case c of Send isr q' x timeout \<Rightarrow> if q' = q \<and> r = Status RTOS_OSAL_SUCCESS then [x] else [] | _ \<Rightarrow> [])"

definition taken_by :: "nat \<Rightarrow> op \<Rightarrow> outcome \<Rightarrow> byte list list" where
  "taken_by q c r =
     (case (c, r) of (Receive isr q' timeout, Item st (Some x)) \<Rightarrow> if q' = q then [x] else [] | _ \<Rightarrow> [])"

fun accepted :: "nat \<Rightarrow> op list \<Rightarrow> outcome list \<Rightarrow> byte list list" where
  "accepted q (c # cs) (r # rs) = put_by q c r @ accepted q cs rs"
| "accepted q cs rs = []"

fun received :: "nat \<Rightarrow> op list \<Rightarrow> outcome list \<Rightarrow> byte list list" where
  "received q (c # cs) (r # rs) = taken_by q c r @ received q cs rs"
| "received q cs rs = []"

lemma post_command_items [simp]: "post_command c a = (ok, a1) \<Longrightarrow> items a1 = items a"
  by (auto simp: post_command_def split: if_splits)

lemma other_items [simp]:
  "items (put_bits g b a) = items a" "items (put_sema h v a) = items a" "items (next_command a) = items a"
  by (auto simp: put_bits_def put_sema_def next_command_def do_command_def split: list.split command.split)

lemma spec_sema_items [simp]: "spec_sema h f e v a = Some (r, a1) \<Longrightarrow> items a1 = items a"
  by (auto simp: spec_sema_def split: option.splits if_splits)

lemma spec_get_bits_items [simp]: "spec_get_bits isr g req opt timeout a = Some (r, a1) \<Longrightarrow> items a1 = items a"
  by (auto simp: spec_get_bits_def Let_def split: if_splits prod.splits)

lemma spec_fifo1:
  assumes "spec_call c a = Some (r, a1)"
  shows "taken_by q c r @ items a1 q = items a q @ put_by q c r"
  supply put_by_def [simp] taken_by_def [simp]
proof (cases c)
  case (Receive isr q' timeout)
  with assms show ?thesis
    by (cases "items a q'") (auto simp: drop_item_def split: if_splits)
next
  case (Send isr q' x timeout)
  with assms show ?thesis by (auto simp: put_item_def split: if_splits)
next
  case (Sema_get isr t h timeout)
  with assms show ?thesis by (auto split: if_splits)
next
  case (Mutex_get t m timeout)
  with assms show ?thesis by auto
next
  case (Set_bits isr g b)
  with assms show ?thesis by (cases "post_command (Set_cmd g b) a") (auto split: if_splits)
next
  case (Clear_bits isr g b)
  with assms show ?thesis by (cases "post_command (Clear_cmd g b) a") (auto split: if_splits)
next
  case Timer_task
  with assms show ?thesis by (auto split: if_splits)
qed (use assms in auto)

lemma spec_fifo:
  "spec_calls cs a = Some (rs, a') \<Longrightarrow>
     received q cs rs @ items a' q = items a q @ accepted q cs rs"
proof (induction cs arbitrary: a rs)
  case Nil
  then show ?case by simp
next
  case (Cons c cs)
  then obtain r a1 rs' where 1: "spec_call c a = Some (r, a1)" and 2: "spec_calls cs a1 = Some (rs', a')"
    and rs: "rs = r # rs'"
    by (auto split: option.splits)
  from spec_fifo1[OF 1, of q] Cons.IH[OF 2] show ?case
    unfolding rs accepted.simps received.simps by (metis append.assoc)
qed

text \<open>
  C34. On a kernel that does what is documented, any history of OSAL calls from tasks and
  interrupts that need not wait, that use only the lower 24 bits of an event group and set
  no bits of a group for which another task waits, returns the status and data that bounded
  queues, counting semaphores, mutexes with an owner and event groups would, and an
  interrupt that asks to wait fails and changes nothing; what is taken from a queue is what
  was put on it, in order.
\<close>

theorem osal_objects:
  assumes "kernel_ok kern view" and "spec_calls cs (view k) = Some (rs, a')"
  shows "\<exists>k'. osal_calls kern cs k = (rs, k') \<and> view k' = a' \<and>
    (\<forall>q. received q cs rs @ items (view k') q = items (view k) q @ accepted q cs rs)"
  using simulates_calls[OF assms] spec_fifo[OF assms(2)]
  by (cases "osal_calls kern cs k") auto

text \<open>A kernel that keeps its objects as they are documented.\<close>

definition kernel_sema :: "(sema \<Rightarrow> sema option option) \<Rightarrow> nat \<Rightarrow> objects \<Rightarrow> bool \<times> objects" where
  "kernel_sema f h a =
     (case f (sema a h) of Some (Some v) \<Rightarrow> (True, put_sema h v a) | _ \<Rightarrow> (False, a))"

definition kernel_send :: "nat \<Rightarrow> byte list \<Rightarrow> objects \<Rightarrow> bool \<times> objects" where
  "kernel_send q x a = (if length (items a q) < room a q then (True, put_item q x a) else (False, a))"

definition kernel_receive :: "nat \<Rightarrow> objects \<Rightarrow> byte list option \<times> objects" where
  "kernel_receive q a =
     (if items a q \<noteq> [] then (Some (hd (items a q)), drop_item q a) else (None, a))"

definition kernel_wait :: "nat \<Rightarrow> u32 \<Rightarrow> bool \<Rightarrow> bool \<Rightarrow> objects \<Rightarrow> u32 \<times> objects" where
  "kernel_wait g req clear and_all a =
     (bits a g, if wanted req and_all (bits a g) \<and> clear then put_bits g (bits a g AND NOT req) a else a)"

definition documented_kernel :: "objects kernel" where
  "documented_kernel =
     \<lparr>xEventGroupCreate = (\<lambda>a. (1, put_bits 1 0 a)),
      xEventGroupSetBits = (\<lambda>g b a. (bits a g OR b, put_bits g (bits a g OR b) a)),
      xEventGroupSetBitsFromISR = (\<lambda>g b. post_command (Set_cmd g b)),
      xEventGroupClearBits = (\<lambda>g b a. (bits a g, put_bits g (bits a g AND NOT b) a)),
      xEventGroupClearBitsFromISR = (\<lambda>g b. post_command (Clear_cmd g b)),
      xEventGroupGetBitsFromISR = (\<lambda>g a. bits a g),
      xEventGroupWaitBits = (\<lambda>g req clear and_all _. kernel_wait g req clear and_all),
      xQueueCreate = (\<lambda>n _ a. (1, a\<lparr>items := (items a)(1 := []), room := (room a)(1 := n)\<rparr>)),
      xQueueSend = (\<lambda>q x _. kernel_send q x), xQueueSendFromISR = kernel_send,
      xQueueReceive = (\<lambda>q _. kernel_receive q), xQueueReceiveFromISR = kernel_receive,
      xSemaphoreCreateCounting = (\<lambda>m n a. (1, put_sema 1 (Counting m n) a)),
      xSemaphoreCreateMutex = (\<lambda>a. (1, put_sema 1 (Mutex None) a)),
      xSemaphoreCreateRecursiveMutex = (\<lambda>a. (1, put_sema 1 (Recursive_mutex None) a)),
      xSemaphoreGive = (\<lambda>h t. kernel_sema (give (Some t)) h),
      xSemaphoreGiveFromISR = kernel_sema (give None),
      xSemaphoreGiveRecursive = (\<lambda>h t. kernel_sema (give_recursive t) h),
      xSemaphoreTake = (\<lambda>h t _. kernel_sema (take_sema (Some t)) h),
      xSemaphoreTakeFromISR = kernel_sema (take_sema None),
      xSemaphoreTakeRecursive = (\<lambda>h t _. kernel_sema (take_recursive t) h),
      timer_task = next_command\<rparr>"

lemma documented_kernel_ok: "kernel_ok documented_kernel id"
proof -
  have sema: "sema_call id h b f (kernel_sema f h)" for h b f
    by (auto simp: sema_call_def kernel_sema_def map_prod.id split: option.split)
  have "events_ok documented_kernel id"
    by (simp add: events_ok_def documented_kernel_def kernel_wait_def map_prod.id do_command_def)
  moreover have "queues_ok documented_kernel id"
    by (simp add: queues_ok_def documented_kernel_def kernel_send_def kernel_receive_def map_prod.id)
  moreover have "semas_ok documented_kernel id"
    by (simp add: semas_ok_def documented_kernel_def sema)
  ultimately show ?thesis by (simp add: kernel_ok_def)
qed

definition sample_objects :: objects where
  "sample_objects =
     \<lparr>bits = (\<lambda>_. 0), awaited = (\<lambda>_. False), commands = [], command_room = 4, items = (\<lambda>_. []), room = (\<lambda>_. 1),
      sema = (\<lambda>_. Mutex None)\<rparr>"

definition sample_ops :: "op list" where
  "sample_ops =
     [Send True 1 [7] 0, Send False 1 [8] 0, Send True 1 [8] 5, Receive False 1 9, Receive True 1 0,
      Set_bits True 2 5, Get_bits False 2 4 RTOS_OSAL_OR_CLEAR 0, Timer_task, Get_bits False 2 4 RTOS_OSAL_OR_CLEAR 0,
      Mutex_get 3 \<lparr>mutex_handle = 4, recursive = False\<rparr> 9, Mutex_get 6 \<lparr>mutex_handle = 4, recursive = False\<rparr> 0]"

definition sample_outcomes :: "outcome list" where
  "sample_outcomes =
     [Status RTOS_OSAL_SUCCESS, Status RTOS_OSAL_TIMEOUT, Status RTOS_OSAL_TIMEOUT, Item RTOS_OSAL_SUCCESS (Some [7]),
      Item RTOS_OSAL_TIMEOUT None, Status RTOS_OSAL_SUCCESS, Bits RTOS_OSAL_TIMEOUT (Some 0),
      Status RTOS_OSAL_SUCCESS, Bits RTOS_OSAL_SUCCESS (Some 5), Status RTOS_OSAL_SUCCESS, Status RTOS_OSAL_TIMEOUT]"

lemmas port_options = RTOS_OSAL_OR_CLEAR_def RTOS_OSAL_AND_CLEAR_def RTOS_OSAL_PORT_CLEAR_def RTOS_OSAL_PORT_AND_def

lemma sample_spec:
  "map_option fst (spec_calls sample_ops sample_objects) = Some sample_outcomes"
  by code_simp

theorem osal_objects_witness:
  "\<exists>k'. osal_calls documented_kernel sample_ops sample_objects = (sample_outcomes, k')"
proof -
  obtain a' where "spec_calls sample_ops (id sample_objects) = Some (sample_outcomes, a')"
    using sample_spec by auto
  from osal_objects[OF documented_kernel_ok this] show ?thesis by auto
qed

text \<open>
  In an interrupt the bits that were got are cleared by the timer task later. Once it has run, the get
  was the same as in a task, but until then the same bits are got again.
\<close>

lemma isr_get_then_timer_task:
  assumes empty: "commands a = []" "0 < command_room a" and req: "req \<noteq> 0"
    and get: "spec_get_bits True g req opt 0 a = Some (r, a1)"
  shows "spec_get_bits False g req opt 0 a = Some (r, next_command a1)"
proof -
  let ?b = "bits a g" and ?found = "wanted req (opt AND RTOS_OSAL_PORT_AND \<noteq> 0) (bits a g)"
  let ?clear = "opt AND RTOS_OSAL_PORT_CLEAR \<noteq> 0"
  have us: "usable req" using get unfolding spec_get_bits_def Let_def
    by (auto split: if_split_asm)
  have post: "post_command (Clear_cmd g b) a = (True, a\<lparr>commands := [Clear_cmd g b]\<rparr>)" for b
    using empty by (simp add: post_command_def)
  have isr: "spec_get_bits True g req opt 0 a =
      Some (if ?found then (Bits RTOS_OSAL_SUCCESS (Some ?b), if ?clear then a\<lparr>commands := [Clear_cmd g (?b AND req)]\<rparr> else a)
        else (Bits RTOS_OSAL_TIMEOUT (Some ?b), a))"
    using req us by (simp add: spec_get_bits_def Let_def post spec_status_def)
  have task: "spec_get_bits False g req opt 0 a =
      Some (if ?found then (Bits RTOS_OSAL_SUCCESS (Some ?b), if ?clear then put_bits g (?b AND NOT req) a else a)
        else (Bits RTOS_OSAL_TIMEOUT (Some ?b), a))"
    using req us by (simp add: spec_get_bits_def Let_def)
  have "?b AND NOT (?b AND req) = ?b AND NOT req"
    by (simp add: bit_eq_iff bit_simps) blast
  then have "next_command (a\<lparr>commands := [Clear_cmd g (?b AND req)]\<rparr>) = put_bits g (?b AND NOT req) a"
    using empty by (simp add: next_command_def do_command_def put_bits_def)
  moreover have "next_command a = a" using empty by (simp add: next_command_def)
  ultimately show ?thesis using get unfolding isr task by (auto split: if_split_asm)
qed

lemma isr_gets_bits_twice:
  "map_option fst (spec_calls [Get_bits True 2 1 RTOS_OSAL_OR_CLEAR 0, Get_bits True 2 1 RTOS_OSAL_OR_CLEAR 0]
       (put_bits 2 1 sample_objects)) =
     Some [Bits RTOS_OSAL_SUCCESS (Some 1), Bits RTOS_OSAL_SUCCESS (Some 1)]"
  "map_option fst (spec_calls [Get_bits False 2 1 RTOS_OSAL_OR_CLEAR 0, Get_bits False 2 1 RTOS_OSAL_OR_CLEAR 0]
       (put_bits 2 1 sample_objects)) =
     Some [Bits RTOS_OSAL_SUCCESS (Some 1), Bits RTOS_OSAL_TIMEOUT (Some 0)]"
  by code_simp+

end
