(* ===== verification/Swmem.thy ===== *)
theory Swmem
  imports Osal
begin

text \<open>
  Software memory (modules/drivers/swmem): lines of the cache that miss are filled, and dirty lines
  that leave it are written, by functions of the application, in the interrupt of the cache or in a
  thread (rtos_swmem.c). The hardware is what it asks for: a slot to fill, or a line to evict. The
  interrupts run on one core, the thread on others, with OSAL's event group between them, which an
  interrupt sets through the kernel's timer task.
\<close>

definition RTOS_SWMEM_READ_FLAG :: u32 where "RTOS_SWMEM_READ_FLAG = 1"
definition RTOS_SWMEM_WRITE_FLAG :: u32 where "RTOS_SWMEM_WRITE_FLAG = 2"
definition SWMEM_ADDRESS_UNINITIALISED :: u32 where "SWMEM_ADDRESS_UNINITIALISED = 0xffffffff"

text \<open>The application's functions, weak symbols that may be missing; \<open>'m\<close> is its memory.\<close>

record 'm handlers =
  rtos_swmem_read_request_isr :: "(u32 \<Rightarrow> u32 list \<Rightarrow> 'm \<Rightarrow> bool \<times> u32 list \<times> 'm) option"
  rtos_swmem_write_request_isr :: "(u32 \<Rightarrow> u32 \<Rightarrow> u32 list \<Rightarrow> 'm \<Rightarrow> bool \<times> 'm) option"
  rtos_swmem_read_request :: "(u32 \<Rightarrow> u32 list \<Rightarrow> 'm \<Rightarrow> u32 list \<times> 'm) option"
  rtos_swmem_write_request :: "(u32 \<Rightarrow> u32 \<Rightarrow> u32 list \<Rightarrow> 'm \<Rightarrow> 'm) option"

text \<open>
  Where the thread is, with the flags it got: at the call that waits for flags, at the request, before
  and after each of the calls that follow it.
\<close>

datatype sw_pc =
    T_Wait | T_Read u32 | T_Exclude u32 | T_Populate u32 | T_Include u32 | T_Enable_fill u32
  | T_Write u32 | T_Enable_evict u32

text \<open>
  \<open>fill_wanted\<close> and \<open>evict_wanted\<close> are what the hardware waits for, \<open>in_core\<close> is where the slot was
  read. \<open>asked\<close>, \<open>answers\<close>, \<open>filled\<close>, \<open>evict_asked\<close> and \<open>written\<close> record the history: the slots asked for,
  what the application gave for an offset, what was put into which slot and whether on the core
  where it was read, the lines to evict, and what the application was given to write.
\<close>

record 'm swmem =
  started :: bool
  thread_up :: bool
  swmem_address :: u32
  fill_res :: bool
  evict_res :: bool
  swmem_core_exclude_map :: u32
  fill_buf :: "u32 list"
  fill_slot :: u32
  evict_buf :: "u32 list"
  evict_slot :: u32
  dirty_mask :: u32
  flags :: u32
  posted :: "u32 list"
  fill_trigger :: bool
  evict_trigger :: bool
  in_core :: nat
  sw_pc :: sw_pc
  thread_core :: nat
  thread_excluded :: u32
  app :: 'm
  sw_failed :: bool
  fill_wanted :: "u32 list"
  evict_wanted :: "(u32 \<times> u32 \<times> u32 list) list"
  asked :: "u32 list"
  answers :: "(u32 \<times> u32 list) list"
  filled :: "(u32 \<times> u32 list \<times> bool) list"
  evict_asked :: "(u32 \<times> u32 \<times> u32 list) list"
  written :: "(u32 \<times> u32 \<times> u32 list) list"

section \<open>Start\<close>

definition rtos_swmem_init :: "u32 \<Rightarrow> 'm swmem \<Rightarrow> 'm swmem" where
  "rtos_swmem_init init_flags s =
     s\<lparr>swmem_address := (if swmem_address s = SWMEM_ADDRESS_UNINITIALISED then 0 else swmem_address s),
       fill_res := (fill_res s \<or> init_flags AND RTOS_SWMEM_READ_FLAG \<noteq> 0),
       evict_res := (evict_res s \<or> init_flags AND RTOS_SWMEM_WRITE_FLAG \<noteq> 0)\<rparr>"

definition rtos_swmem_start :: "'m handlers \<Rightarrow> 'm swmem \<Rightarrow> 'm swmem" where
  "rtos_swmem_start h s =
     (if \<not> started s then
        s\<lparr>thread_up := (thread_up s \<or> rtos_swmem_read_request h \<noteq> None \<or> rtos_swmem_write_request h \<noteq> None),
          fill_trigger := (fill_trigger s \<or> fill_res s),
          evict_trigger := (evict_trigger s \<or> evict_res s),
          started := True\<rparr>
      else s)"

definition rtos_swmem_offset_get :: "'m swmem \<Rightarrow> u32" where
  "rtos_swmem_offset_get s = swmem_address s"

section \<open>Interrupts\<close>

text \<open>\<open>base\<close> is XS1_SWMEM_BASE.\<close>

definition offset :: "u32 \<Rightarrow> 'm swmem \<Rightarrow> u32 \<Rightarrow> u32" where
  "offset base s slot = slot - base + swmem_address s"

definition swmem_fill_in_address :: "nat \<Rightarrow> 'm swmem \<Rightarrow> 'm swmem" where
  "swmem_fill_in_address core s =
     s\<lparr>fill_slot := hd (fill_wanted s), in_core := core, fill_wanted := tl (fill_wanted s)\<rparr>"

definition swmem_fill_populate_from_buffer :: "nat \<Rightarrow> 'm swmem \<Rightarrow> 'm swmem" where
  "swmem_fill_populate_from_buffer core s =
     s\<lparr>filled := filled s @ [(fill_slot s, fill_buf s, core = in_core s)]\<rparr>"

text \<open>The event bits of an interrupt are posted to the timer task, or not if it has no room (\<open>fits\<close>).\<close>

definition post_flag :: "bool \<Rightarrow> u32 \<Rightarrow> 'm swmem \<Rightarrow> 'm swmem" where
  "post_flag fits b s = (if fits then s\<lparr>posted := posted s @ [b]\<rparr> else s)"

definition answer_isr :: "'m handlers \<Rightarrow> u32 \<Rightarrow> 'm swmem \<Rightarrow> bool \<times> 'm swmem" where
  "answer_isr h base s =
     (case rtos_swmem_read_request_isr h of
        None \<Rightarrow> (False, s)
      | Some f \<Rightarrow>
          (let (handled, buf, m) = f (offset base s (fill_slot s)) (fill_buf s) (app s);
               s1 = s\<lparr>fill_buf := buf, app := m\<rparr>
           in (handled, if handled then s1\<lparr>answers := answers s1 @ [(offset base s (fill_slot s), buf)]\<rparr> else s1)))"

definition all_but :: "nat \<Rightarrow> u32" where
  "all_but core = NOT (push_bit core 1)"

definition sw_mem_fill_isr :: "'m handlers \<Rightarrow> u32 \<Rightarrow> nat \<Rightarrow> bool \<Rightarrow> 'm swmem \<Rightarrow> 'm swmem res" where
  "sw_mem_fill_isr h base core fits s =
     (let (handled, s1) = answer_isr h base (swmem_fill_in_address core s);
          s2 = (if handled then swmem_fill_populate_from_buffer core s1 else s1);
          by_thread = (\<not> handled \<and> rtos_swmem_read_request h \<noteq> None);
          s3 = (if by_thread then
                  post_flag fits RTOS_SWMEM_READ_FLAG
                    (s2\<lparr>swmem_core_exclude_map := all_but core, fill_trigger := False\<rparr>)
                else s2)
      in xassert (handled \<or> by_thread) (Inr s3))"

definition swmem_evict_to_buffer :: "'m swmem \<Rightarrow> 'm swmem" where
  "swmem_evict_to_buffer s =
     (let (slot, mask, data) = hd (evict_wanted s)
      in s\<lparr>evict_slot := slot, dirty_mask := mask, evict_buf := data, evict_wanted := tl (evict_wanted s)\<rparr>)"

definition record_write :: "u32 \<Rightarrow> 'm swmem \<Rightarrow> 'm swmem" where
  "record_write base s =
     s\<lparr>written := written s @ [(offset base s (evict_slot s), dirty_mask s, evict_buf s)]\<rparr>"

definition write_isr :: "'m handlers \<Rightarrow> u32 \<Rightarrow> 'm swmem \<Rightarrow> bool \<times> 'm swmem" where
  "write_isr h base s =
     (case rtos_swmem_write_request_isr h of
        None \<Rightarrow> (False, s)
      | Some f \<Rightarrow>
          (let (handled, m) = f (offset base s (evict_slot s)) (dirty_mask s) (evict_buf s) (app s);
               s1 = s\<lparr>app := m\<rparr>
           in (handled, if handled then record_write base s1 else s1)))"

definition sw_mem_evict_isr :: "'m handlers \<Rightarrow> u32 \<Rightarrow> bool \<Rightarrow> 'm swmem \<Rightarrow> 'm swmem res" where
  "sw_mem_evict_isr h base fits s =
     (let (handled, s1) = write_isr h base (swmem_evict_to_buffer s);
          by_thread = (\<not> handled \<and> rtos_swmem_write_request h \<noteq> None);
          s2 = (if by_thread then post_flag fits RTOS_SWMEM_WRITE_FLAG (s1\<lparr>evict_trigger := False\<rparr>) else s1)
      in xassert (handled \<or> by_thread) (Inr s2))"

section \<open>The thread\<close>

text \<open>
  One step of \<open>rtos_swmem_thread\<close>; \<open>None\<close> where it waits, for a flag, or for the scheduler to move it to a
  core that it may run on.
\<close>

definition core_allowed :: "u32 \<Rightarrow> nat \<Rightarrow> bool" where
  "core_allowed excluded core \<longleftrightarrow> core < 32 \<and> \<not> bit excluded core"

definition rtos_swmem_thread :: "'m handlers \<Rightarrow> u32 \<Rightarrow> 'm swmem \<Rightarrow> 'm swmem option" where
  "rtos_swmem_thread h base s =
     (case sw_pc s of
        T_Wait \<Rightarrow>
          (if wanted (RTOS_SWMEM_READ_FLAG OR RTOS_SWMEM_WRITE_FLAG) False (flags s) then
             Some (s\<lparr>flags := flags s AND NOT (RTOS_SWMEM_READ_FLAG OR RTOS_SWMEM_WRITE_FLAG),
                     sw_pc := T_Read (flags s)\<rparr>)
           else None)
      | T_Read f \<Rightarrow>
          (if f AND RTOS_SWMEM_READ_FLAG \<noteq> 0 then
             (case rtos_swmem_read_request h of
                None \<Rightarrow> None
              | Some g \<Rightarrow>
                  (let (buf, m) = g (offset base s (fill_slot s)) (fill_buf s) (app s)
                   in Some (s\<lparr>fill_buf := buf, app := m, sw_pc := T_Exclude f,
                              answers := answers s @ [(offset base s (fill_slot s), buf)]\<rparr>)))
           else Some (s\<lparr>sw_pc := T_Write f\<rparr>))
      | T_Exclude f \<Rightarrow> Some (s\<lparr>thread_excluded := swmem_core_exclude_map s, sw_pc := T_Populate f\<rparr>)
      | T_Populate f \<Rightarrow>
          (if core_allowed (thread_excluded s) (thread_core s) then
             Some ((swmem_fill_populate_from_buffer (thread_core s) s)\<lparr>sw_pc := T_Include f\<rparr>)
           else None)
      | T_Include f \<Rightarrow> Some (s\<lparr>thread_excluded := 0, sw_pc := T_Enable_fill f\<rparr>)
      | T_Enable_fill f \<Rightarrow> Some (s\<lparr>fill_trigger := True, sw_pc := T_Write f\<rparr>)
      | T_Write f \<Rightarrow>
          (if f AND RTOS_SWMEM_WRITE_FLAG \<noteq> 0 then
             (case rtos_swmem_write_request h of
                None \<Rightarrow> None
              | Some g \<Rightarrow>
                  Some ((record_write base s)
                    \<lparr>app := g (offset base s (evict_slot s)) (dirty_mask s) (evict_buf s) (app s),
                     sw_pc := T_Enable_evict f\<rparr>))
           else Some (s\<lparr>sw_pc := T_Wait\<rparr>))
      | T_Enable_evict f \<Rightarrow> Some (s\<lparr>evict_trigger := True, sw_pc := T_Wait\<rparr>))"

text \<open>
  The steps of the system: the hardware asks, an interrupt is taken on some core where its trigger is on,
  the timer task sets posted flags, the thread steps, the scheduler moves it. With \<open>lossy\<close> the timer task
  may have no room for the flags of an interrupt.
\<close>

inductive sw_step :: "'m handlers \<Rightarrow> u32 \<Rightarrow> bool \<Rightarrow> 'm swmem \<Rightarrow> 'm swmem \<Rightarrow> bool" for h base lossy where
  fill_asked: "sw_step h base lossy s (s\<lparr>fill_wanted := fill_wanted s @ [slot], asked := asked s @ [slot]\<rparr>)"
| evict_asked: "sw_step h base lossy s
    (s\<lparr>evict_wanted := evict_wanted s @ [line], evict_asked := evict_asked s @ [line]\<rparr>)"
| fill_irq: "fill_trigger s \<Longrightarrow> fill_wanted s \<noteq> [] \<Longrightarrow> core < 32 \<Longrightarrow> fits \<or> lossy \<Longrightarrow>
    sw_mem_fill_isr h base core fits s = Inr s' \<Longrightarrow> sw_step h base lossy s s'"
| fill_assert: "fill_trigger s \<Longrightarrow> fill_wanted s \<noteq> [] \<Longrightarrow> core < 32 \<Longrightarrow>
    sw_mem_fill_isr h base core fits s = Inl e \<Longrightarrow> sw_step h base lossy s (s\<lparr>sw_failed := True\<rparr>)"
| evict_irq: "evict_trigger s \<Longrightarrow> evict_wanted s \<noteq> [] \<Longrightarrow> fits \<or> lossy \<Longrightarrow>
    sw_mem_evict_isr h base fits s = Inr s' \<Longrightarrow> sw_step h base lossy s s'"
| evict_assert: "evict_trigger s \<Longrightarrow> evict_wanted s \<noteq> [] \<Longrightarrow>
    sw_mem_evict_isr h base fits s = Inl e \<Longrightarrow> sw_step h base lossy s (s\<lparr>sw_failed := True\<rparr>)"
| timer: "posted s = b # bs \<Longrightarrow> sw_step h base lossy s (s\<lparr>flags := flags s OR b, posted := bs\<rparr>)"
| thread: "thread_up s \<Longrightarrow> rtos_swmem_thread h base s = Some s' \<Longrightarrow> sw_step h base lossy s s'"
| migrate: "core_allowed (thread_excluded s) core \<Longrightarrow> sw_step h base lossy s (s\<lparr>thread_core := core\<rparr>)"

text \<open>The memory of a program before its start; \<open>address\<close> may have been set by the bootloader.\<close>

definition sw_loaded :: "u32 \<Rightarrow> 'm \<Rightarrow> 'm swmem" where
  "sw_loaded address m =
     \<lparr>started = False, thread_up = False, swmem_address = address, fill_res = False, evict_res = False,
      swmem_core_exclude_map = 0, fill_buf = [], fill_slot = 0, evict_buf = [], evict_slot = 0, dirty_mask = 0,
      flags = 0, posted = [], fill_trigger = False, evict_trigger = False, in_core = 0, sw_pc = T_Wait,
      thread_core = 0, thread_excluded = 0, app = m, sw_failed = False, fill_wanted = [], evict_wanted = [],
      asked = [], answers = [], filled = [], evict_asked = [], written = []\<rparr>"

definition sw_boot :: "'m handlers \<Rightarrow> u32 \<Rightarrow> u32 \<Rightarrow> 'm \<Rightarrow> 'm swmem" where
  "sw_boot h init_flags address m = rtos_swmem_start h (rtos_swmem_init init_flags (sw_loaded address m))"

section \<open>The flags\<close>

definition rd :: "u32 \<Rightarrow> bool" where "rd f \<longleftrightarrow> f AND RTOS_SWMEM_READ_FLAG \<noteq> 0"
definition wr :: "u32 \<Rightarrow> bool" where "wr f \<longleftrightarrow> f AND RTOS_SWMEM_WRITE_FLAG \<noteq> 0"

lemma rd_bit: "rd f \<longleftrightarrow> bit f 0"
  using and_exp_eq_0_iff_not_bit[of f 0] by (simp add: rd_def RTOS_SWMEM_READ_FLAG_def)

lemma wr_bit: "wr f \<longleftrightarrow> bit f 1"
  using and_exp_eq_0_iff_not_bit[of f 1] by (simp add: wr_def RTOS_SWMEM_WRITE_FLAG_def)

lemma flag_bits: "bit RTOS_SWMEM_READ_FLAG n \<longleftrightarrow> n = 0" "bit RTOS_SWMEM_WRITE_FLAG n \<longleftrightarrow> n = 1"
  using bit_exp_iff[where ?'a=u32, of 1 n]
  by (auto simp: RTOS_SWMEM_READ_FLAG_def RTOS_SWMEM_WRITE_FLAG_def bit_1_iff)

lemma rd_wr_simps [simp]:
  "rd (f OR RTOS_SWMEM_READ_FLAG)" "rd (f OR RTOS_SWMEM_WRITE_FLAG) \<longleftrightarrow> rd f"
  "wr (f OR RTOS_SWMEM_WRITE_FLAG)" "wr (f OR RTOS_SWMEM_READ_FLAG) \<longleftrightarrow> wr f"
  "\<not> rd (f AND NOT (RTOS_SWMEM_READ_FLAG OR RTOS_SWMEM_WRITE_FLAG))"
  "\<not> wr (f AND NOT (RTOS_SWMEM_READ_FLAG OR RTOS_SWMEM_WRITE_FLAG))"
  "\<not> rd (f AND NOT RTOS_SWMEM_READ_FLAG AND NOT RTOS_SWMEM_WRITE_FLAG)"
  "\<not> wr (f AND NOT RTOS_SWMEM_READ_FLAG AND NOT RTOS_SWMEM_WRITE_FLAG)"
  "\<not> rd 0" "\<not> wr 0"
  by (auto simp: rd_bit wr_bit bit_simps flag_bits)

lemma flags_differ [simp]: "RTOS_SWMEM_READ_FLAG \<noteq> RTOS_SWMEM_WRITE_FLAG" "RTOS_SWMEM_WRITE_FLAG \<noteq> RTOS_SWMEM_READ_FLAG"
  by (simp_all add: RTOS_SWMEM_READ_FLAG_def RTOS_SWMEM_WRITE_FLAG_def)

lemma wanted_flags:
  "wanted (RTOS_SWMEM_READ_FLAG OR RTOS_SWMEM_WRITE_FLAG) False f \<longleftrightarrow> rd f \<or> wr f"
proof -
  have "f AND (RTOS_SWMEM_READ_FLAG OR RTOS_SWMEM_WRITE_FLAG) =
      (f AND RTOS_SWMEM_READ_FLAG) OR (f AND RTOS_SWMEM_WRITE_FLAG)"
    by (rule bit.conj_disj_distrib)
  then show ?thesis by (simp add: wanted_def rd_def wr_def or_eq_0_iff)
qed

section \<open>Fills\<close>

text \<open>Whether the thread has taken a fill or an eviction.\<close>

fun got_fill :: "sw_pc \<Rightarrow> bool" where
  "got_fill T_Wait = False"
| "got_fill (T_Write f) = False"
| "got_fill (T_Enable_evict f) = False"
| "got_fill (T_Read f) = rd f"
| "got_fill (T_Exclude f) = True"
| "got_fill (T_Populate f) = True"
| "got_fill (T_Include f) = True"
| "got_fill (T_Enable_fill f) = True"

fun answered :: "sw_pc \<Rightarrow> bool" where
  "answered (T_Exclude f) = True"
| "answered (T_Populate f) = True"
| "answered _ = False"

fun populated :: "sw_pc \<Rightarrow> bool" where
  "populated (T_Include f) = True"
| "populated (T_Enable_fill f) = True"
| "populated _ = False"

definition fill_tokens :: "'m swmem \<Rightarrow> nat" where
  "fill_tokens s = count_list (posted s) RTOS_SWMEM_READ_FLAG + of_bool (rd (flags s)) + of_bool (got_fill (sw_pc s))"

definition busy :: "'m swmem \<Rightarrow> nat" where
  "busy s = of_bool (fill_res s \<and> \<not> fill_trigger s)"

definition open_fill :: "'m swmem \<Rightarrow> u32 list" where
  "open_fill s = (if fill_res s \<and> \<not> fill_trigger s \<and> \<not> populated (sw_pc s) then [fill_slot s] else [])"

definition fill_protocol :: "'m handlers \<Rightarrow> bool \<Rightarrow> 'm swmem \<Rightarrow> bool" where
  "fill_protocol h lossy s \<longleftrightarrow>
     set (posted s) \<subseteq> {RTOS_SWMEM_READ_FLAG, RTOS_SWMEM_WRITE_FLAG} \<and>
     fill_tokens s \<le> busy s \<and> (lossy \<or> fill_tokens s = busy s) \<and> (fill_trigger s \<longrightarrow> fill_res s) \<and>
     (0 < fill_tokens s \<longrightarrow> rtos_swmem_read_request h \<noteq> None \<and> in_core s < 32 \<and>
        swmem_core_exclude_map s = all_but (in_core s)) \<and>
     (\<forall>f. sw_pc s = T_Populate f \<longrightarrow> thread_excluded s = swmem_core_exclude_map s)"

definition fill_history :: "u32 \<Rightarrow> 'm swmem \<Rightarrow> bool" where
  "fill_history base s \<longleftrightarrow>
     asked s = map fst (filled s) @ open_fill s @ fill_wanted s \<and>
     answers s = map (\<lambda>(slot, d, _). (offset base s slot, d)) (filled s) @
       (if answered (sw_pc s) then [(offset base s (fill_slot s), fill_buf s)] else []) \<and>
     (\<forall>x \<in> set (filled s). snd (snd x))"

definition fill_inv :: "'m handlers \<Rightarrow> u32 \<Rightarrow> bool \<Rightarrow> 'm swmem \<Rightarrow> bool" where
  "fill_inv h base lossy s \<longleftrightarrow> fill_protocol h lossy s \<and> fill_history base s"

lemma core_allowed_only:
  "core_allowed (all_but c) core \<Longrightarrow> core = c"
  by (auto simp: all_but_def core_allowed_def bit_simps)

lemma core_allowed_itself: "c < 32 \<Longrightarrow> core_allowed (all_but c) c"
  by (auto simp: all_but_def core_allowed_def bit_simps)

lemmas protocol_defs = fill_protocol_def fill_tokens_def busy_def
lemmas history_defs = fill_history_def open_fill_def offset_def

lemma fill_busy: "fill_protocol h lossy s \<Longrightarrow> 0 < fill_tokens s \<Longrightarrow> fill_res s \<and> \<not> fill_trigger s"
  by (cases "fill_res s"; cases "fill_trigger s") (simp_all add: fill_protocol_def busy_def)

lemma got_fill_busy: "fill_protocol h lossy s \<Longrightarrow> got_fill (sw_pc s) \<Longrightarrow> fill_res s \<and> \<not> fill_trigger s"
  by (erule fill_busy) (simp add: fill_tokens_def)

lemma fill_protocol_same:
  assumes "fill_protocol h lossy s" and "posted s' = posted s" "fill_tokens s' = fill_tokens s"
    "fill_res s' = fill_res s" "fill_trigger s' = fill_trigger s" "in_core s' = in_core s"
    "swmem_core_exclude_map s' = swmem_core_exclude_map s"
    "\<And>f. sw_pc s' = T_Populate f \<Longrightarrow> thread_excluded s' = swmem_core_exclude_map s"
  shows "fill_protocol h lossy s'"
  using assms by (simp add: fill_protocol_def busy_def)

lemma fill_protocol_thread:
  assumes inv: "fill_protocol h lossy s" and step: "rtos_swmem_thread h base s = Some s'"
  shows "fill_protocol h lossy s'"
proof (cases "sw_pc s")
  case T_Wait
  with step have s': "s' = s\<lparr>flags := flags s AND NOT (RTOS_SWMEM_READ_FLAG OR RTOS_SWMEM_WRITE_FLAG),
      sw_pc := T_Read (flags s)\<rparr>"
    by (simp add: rtos_swmem_thread_def split: if_split_asm)
  show ?thesis by (rule fill_protocol_same[OF inv]) (simp_all add: s' T_Wait fill_tokens_def)
next
  case (T_Read f)
  show ?thesis
  proof (cases "rd f")
    case True
    with T_Read step obtain buf m a where
      s': "s' = s\<lparr>fill_buf := buf, app := m, sw_pc := T_Exclude f, answers := a\<rparr>"
      by (auto simp: rtos_swmem_thread_def rd_def[symmetric] split: option.splits prod.splits)
    show ?thesis by (rule fill_protocol_same[OF inv]) (simp_all add: s' T_Read True fill_tokens_def)
  next
    case False
    with T_Read step have s': "s' = s\<lparr>sw_pc := T_Write f\<rparr>" by (simp add: rtos_swmem_thread_def rd_def)
    show ?thesis by (rule fill_protocol_same[OF inv]) (simp_all add: s' T_Read False fill_tokens_def)
  qed
next
  case (T_Exclude f)
  with step have s': "s' = s\<lparr>thread_excluded := swmem_core_exclude_map s, sw_pc := T_Populate f\<rparr>"
    by (simp add: rtos_swmem_thread_def)
  show ?thesis by (rule fill_protocol_same[OF inv]) (simp_all add: s' T_Exclude fill_tokens_def)
next
  case (T_Populate f)
  with step have s': "s' = (swmem_fill_populate_from_buffer (thread_core s) s)\<lparr>sw_pc := T_Include f\<rparr>"
    by (simp add: rtos_swmem_thread_def split: if_split_asm)
  show ?thesis
    by (rule fill_protocol_same[OF inv]) (simp_all add: s' T_Populate fill_tokens_def swmem_fill_populate_from_buffer_def)
next
  case (T_Include f)
  with step have s': "s' = s\<lparr>thread_excluded := 0, sw_pc := T_Enable_fill f\<rparr>" by (simp add: rtos_swmem_thread_def)
  show ?thesis by (rule fill_protocol_same[OF inv]) (simp_all add: s' T_Include fill_tokens_def)
next
  case (T_Enable_fill f)
  have "fill_tokens s = 1" "fill_res s" "\<not> fill_trigger s"
    using T_Enable_fill got_fill_busy[OF inv] inv by (auto simp: protocol_defs)
  with T_Enable_fill step inv show ?thesis by (auto simp: protocol_defs rtos_swmem_thread_def)
next
  case (T_Write f)
  with step obtain m where "s' = (record_write base s)\<lparr>app := m, sw_pc := T_Enable_evict f\<rparr> \<or> s' = s\<lparr>sw_pc := T_Wait\<rparr>"
    by (auto simp: rtos_swmem_thread_def split: option.splits if_splits)
  then show ?thesis
    by (intro fill_protocol_same[OF inv]) (auto simp: T_Write fill_tokens_def record_write_def)
next
  case (T_Enable_evict f)
  with step have s': "s' = s\<lparr>evict_trigger := True, sw_pc := T_Wait\<rparr>" by (simp add: rtos_swmem_thread_def)
  show ?thesis by (rule fill_protocol_same[OF inv]) (simp_all add: s' T_Enable_evict fill_tokens_def)
qed

lemma fill_history_thread:
  assumes "fill_protocol h lossy s" "fill_history base s" and "rtos_swmem_thread h base s = Some s'"
  shows "fill_history base s'"
proof (cases "sw_pc s")
  case (T_Read f)
  show ?thesis
  proof (cases "rd f")
    case True
    with T_Read assms got_fill_busy[OF assms(1)] show ?thesis
      by (auto simp: history_defs rtos_swmem_thread_def rd_def[symmetric] split: option.splits prod.splits)
  next
    case False
    with T_Read assms show ?thesis by (auto simp: history_defs rtos_swmem_thread_def rd_def[symmetric])
  qed
next
  case (T_Populate f)
  have "thread_excluded s = all_but (in_core s)"
    using assms(1) T_Populate by (auto simp: fill_protocol_def fill_tokens_def)
  with T_Populate assms(3) have "thread_core s = in_core s"
    and s': "s' = (swmem_fill_populate_from_buffer (thread_core s) s)\<lparr>sw_pc := T_Include f\<rparr>"
    by (auto simp: rtos_swmem_thread_def dest: core_allowed_only split: if_splits)
  with T_Populate assms(2) got_fill_busy[OF assms(1)] show ?thesis
    by (simp add: history_defs s' swmem_fill_populate_from_buffer_def)
next
  case (T_Write f)
  with assms(2,3) show ?thesis
    by (cases "wr f") (auto simp: history_defs rtos_swmem_thread_def wr_def[symmetric] record_write_def split: option.splits)
next
  case (T_Enable_fill f)
  with assms got_fill_busy[OF assms(1)] show ?thesis by (auto simp: history_defs rtos_swmem_thread_def)
qed (use assms(2,3) in \<open>auto simp: history_defs rtos_swmem_thread_def split: if_splits\<close>)

lemma fill_idle:
  assumes "fill_protocol h lossy s" "fill_trigger s"
  shows "RTOS_SWMEM_READ_FLAG \<notin> set (posted s)" "\<not> rd (flags s)" "\<not> got_fill (sw_pc s)"
    "\<not> answered (sw_pc s)" "\<not> populated (sw_pc s)" "sw_pc s \<noteq> T_Populate f"
proof -
  from assms have "fill_tokens s = 0" by (auto simp: fill_protocol_def busy_def)
  then show "RTOS_SWMEM_READ_FLAG \<notin> set (posted s)" "\<not> rd (flags s)" and pc: "\<not> got_fill (sw_pc s)"
    by (auto simp: fill_tokens_def count_list_0_iff)
  from pc show "\<not> answered (sw_pc s)" "\<not> populated (sw_pc s)" "sw_pc s \<noteq> T_Populate f"
    by (cases "sw_pc s"; simp)+
qed

text \<open>What the interrupt does: the application answers, and the slot is filled, or the thread is told.\<close>

lemma fill_isr_cases:
  assumes "sw_mem_fill_isr h base core fits s = Inr s'" and "fill_wanted s = slot # rest"
  obtains (answers) buf m where
    "s' = s\<lparr>fill_slot := slot, in_core := core, fill_wanted := rest, fill_buf := buf, app := m,
       answers := answers s @ [(offset base s slot, buf)], filled := filled s @ [(slot, buf, True)]\<rparr>"
  | (hands) buf m where "rtos_swmem_read_request h \<noteq> None"
    "s' = post_flag fits RTOS_SWMEM_READ_FLAG (s\<lparr>fill_slot := slot, in_core := core, fill_wanted := rest, fill_buf := buf,
       app := m, swmem_core_exclude_map := all_but core, fill_trigger := False\<rparr>)"
proof (cases "rtos_swmem_read_request_isr h")
  case None
  with assms hands[where buf="fill_buf s" and m="app s"] show thesis
    by (simp add: sw_mem_fill_isr_def answer_isr_def swmem_fill_in_address_def xassert_def Let_def split: if_splits)
next
  case (Some f)
  obtain b buf m where f: "f (offset base s slot) (fill_buf s) (app s) = (b, buf, m)" by (metis prod_cases3)
  have o: "offset base (s\<lparr>fill_slot := slot, in_core := core, fill_wanted := rest\<rparr>) slot = offset base s slot"
    by (simp add: offset_def)
  from assms Some f o answers[where buf=buf and m=m] hands[where buf=buf and m=m] show thesis
    by (cases b) (simp_all add: sw_mem_fill_isr_def answer_isr_def swmem_fill_in_address_def
        swmem_fill_populate_from_buffer_def xassert_def offset_def Let_def split: if_splits)
qed

lemma fill_inv_fill_irq:
  assumes inv: "fill_inv h base lossy s" and "fill_trigger s" "fill_wanted s \<noteq> []" "core < 32" "fits \<or> lossy"
    and isr: "sw_mem_fill_isr h base core fits s = Inr s'"
  shows "fill_inv h base lossy s'"
proof -
  have p: "fill_protocol h lossy s" and hist: "fill_history base s" using inv by (auto simp: fill_inv_def)
  obtain slot rest where w: "fill_wanted s = slot # rest" using assms(3) by (cases "fill_wanted s") auto
  note idle = fill_idle[OF p assms(2)]
  from isr w show ?thesis
  proof (cases rule: fill_isr_cases)
    case (answers buf m)
    with answers p hist idle assms(2) w show ?thesis
      by (simp add: fill_inv_def protocol_defs history_defs)
  next
    case (hands buf m)
    have "fill_protocol h lossy s'"
      using hands p idle assms(2,4,5)
      by (cases fits) (auto simp: protocol_defs post_flag_def count_list_0_iff)
    moreover have "fill_history base s'"
      using hands hist idle assms(2) p w
      by (cases fits) (auto simp: protocol_defs history_defs post_flag_def)
    ultimately show ?thesis by (simp add: fill_inv_def)
  qed
qed

lemma fill_inv_same:
  assumes "fill_inv h base lossy s"
    and "set (posted s') \<subseteq> insert RTOS_SWMEM_WRITE_FLAG (set (posted s))" "fill_tokens s' = fill_tokens s"
    "fill_res s' = fill_res s" "fill_trigger s' = fill_trigger s" "in_core s' = in_core s"
    "swmem_core_exclude_map s' = swmem_core_exclude_map s" "sw_pc s' = sw_pc s" "thread_excluded s' = thread_excluded s"
    "asked s' = asked s" "filled s' = filled s" "fill_wanted s' = fill_wanted s" "answers s' = answers s"
    "fill_slot s' = fill_slot s" "fill_buf s' = fill_buf s" "swmem_address s' = swmem_address s"
  shows "fill_inv h base lossy s'"
  using assms by (auto simp: fill_inv_def fill_protocol_def busy_def history_defs)

text \<open>The interrupt of an eviction: the application writes the line, or the thread is told.\<close>

lemma evict_isr_cases:
  assumes "sw_mem_evict_isr h base fits s = Inr s'" and "evict_wanted s = (slot, dirty, data) # rest"
  obtains (writes) m where
    "s' = s\<lparr>evict_slot := slot, dirty_mask := dirty, evict_buf := data, evict_wanted := rest, app := m,
       written := written s @ [(offset base s slot, dirty, data)]\<rparr>"
  | (hands) m where "rtos_swmem_write_request h \<noteq> None"
    "s' = post_flag fits RTOS_SWMEM_WRITE_FLAG (s\<lparr>evict_slot := slot, dirty_mask := dirty, evict_buf := data,
       evict_wanted := rest, app := m, evict_trigger := False\<rparr>)"
proof (cases "rtos_swmem_write_request_isr h")
  case None
  with assms hands[where m="app s"] show thesis
    by (simp add: sw_mem_evict_isr_def write_isr_def swmem_evict_to_buffer_def xassert_def Let_def split: if_splits)
next
  case (Some f)
  obtain b m where f: "f (offset base s slot) dirty data (app s) = (b, m)" by fastforce
  from assms Some f writes[where m=m] hands[where m=m] show thesis
    by (cases b) (simp_all add: sw_mem_evict_isr_def write_isr_def swmem_evict_to_buffer_def record_write_def
        xassert_def offset_def Let_def split: if_splits)
qed

lemma fill_inv_evict_irq:
  assumes inv: "fill_inv h base lossy s" and "evict_wanted s \<noteq> []" and isr: "sw_mem_evict_isr h base fits s = Inr s'"
  shows "fill_inv h base lossy s'"
proof -
  obtain slot dirty data rest where w: "evict_wanted s = (slot, dirty, data) # rest"
    using assms(2) by (cases "evict_wanted s") auto
  from isr w show ?thesis
  proof (cases rule: evict_isr_cases)
    case (writes m)
    then show ?thesis by (intro fill_inv_same[OF inv]) (simp_all add: fill_tokens_def subset_insertI)
  next
    case (hands m)
    then show ?thesis
      by (cases fits; intro fill_inv_same[OF inv]) (auto simp: fill_tokens_def post_flag_def)
  qed
qed

lemma fill_inv_timer:
  assumes "fill_inv h base lossy s" "posted s = b # bs"
  shows "fill_inv h base lossy (s\<lparr>flags := flags s OR b, posted := bs\<rparr>)"
proof -
  have p: "fill_protocol h lossy s" and hist: "fill_history base s" using assms(1) by (auto simp: fill_inv_def)
  have "b = RTOS_SWMEM_READ_FLAG \<or> b = RTOS_SWMEM_WRITE_FLAG" using p assms(2) by (auto simp: fill_protocol_def)
  moreover have "fill_tokens s \<le> 1"
    using p by (cases "fill_res s"; cases "fill_trigger s") (simp_all add: fill_protocol_def busy_def)
  ultimately have "fill_tokens (s\<lparr>flags := flags s OR b, posted := bs\<rparr>) = fill_tokens s"
    using assms(2) by (auto simp: fill_tokens_def)
  with p hist assms(2) show ?thesis
    by (simp add: fill_inv_def fill_protocol_def busy_def history_defs)
qed

lemma fill_inv_step:
  assumes "sw_step h base lossy s s'" and "fill_inv h base lossy s"
  shows "fill_inv h base lossy s'"
  using assms
proof cases
  case (fill_irq core fits)
  with fill_inv_fill_irq[OF assms(2)] show ?thesis by auto
next
  case (evict_irq fits)
  with fill_inv_evict_irq[OF assms(2)] show ?thesis by auto
next
  case (timer b bs)
  with fill_inv_timer[OF assms(2)] show ?thesis by auto
next
  case thread
  with assms(2) show ?thesis by (auto simp: fill_inv_def intro: fill_protocol_thread fill_history_thread)
qed (use assms(2) in \<open>auto simp: fill_inv_def protocol_defs history_defs\<close>)

section \<open>Evictions\<close>

fun got_evict :: "sw_pc \<Rightarrow> bool" where
  "got_evict T_Wait = False"
| "got_evict (T_Enable_evict f) = True"
| "got_evict (T_Read f) = wr f"
| "got_evict (T_Exclude f) = wr f"
| "got_evict (T_Populate f) = wr f"
| "got_evict (T_Include f) = wr f"
| "got_evict (T_Enable_fill f) = wr f"
| "got_evict (T_Write f) = wr f"

fun stored :: "sw_pc \<Rightarrow> bool" where
  "stored (T_Enable_evict f) = True"
| "stored _ = False"

definition evict_tokens :: "'m swmem \<Rightarrow> nat" where
  "evict_tokens s =
     count_list (posted s) RTOS_SWMEM_WRITE_FLAG + of_bool (wr (flags s)) + of_bool (got_evict (sw_pc s))"

definition evict_busy :: "'m swmem \<Rightarrow> nat" where
  "evict_busy s = of_bool (evict_res s \<and> \<not> evict_trigger s)"

definition at_offset :: "u32 \<Rightarrow> 'm swmem \<Rightarrow> u32 \<times> u32 \<times> u32 list \<Rightarrow> u32 \<times> u32 \<times> u32 list" where
  "at_offset base s = (\<lambda>(slot, dirty, data). (offset base s slot, dirty, data))"

definition open_evict :: "u32 \<Rightarrow> 'm swmem \<Rightarrow> (u32 \<times> u32 \<times> u32 list) list" where
  "open_evict base s =
     (if evict_res s \<and> \<not> evict_trigger s \<and> \<not> stored (sw_pc s)
      then [(offset base s (evict_slot s), dirty_mask s, evict_buf s)] else [])"

definition evict_protocol :: "'m handlers \<Rightarrow> bool \<Rightarrow> 'm swmem \<Rightarrow> bool" where
  "evict_protocol h lossy s \<longleftrightarrow>
     set (posted s) \<subseteq> {RTOS_SWMEM_READ_FLAG, RTOS_SWMEM_WRITE_FLAG} \<and>
     evict_tokens s \<le> evict_busy s \<and> (lossy \<or> evict_tokens s = evict_busy s) \<and> (evict_trigger s \<longrightarrow> evict_res s) \<and>
     (0 < evict_tokens s \<longrightarrow> rtos_swmem_write_request h \<noteq> None)"

definition evict_history :: "u32 \<Rightarrow> 'm swmem \<Rightarrow> bool" where
  "evict_history base s \<longleftrightarrow>
     map (at_offset base s) (evict_asked s) =
       written s @ open_evict base s @ map (at_offset base s) (evict_wanted s)"

definition evict_inv :: "'m handlers \<Rightarrow> u32 \<Rightarrow> bool \<Rightarrow> 'm swmem \<Rightarrow> bool" where
  "evict_inv h base lossy s \<longleftrightarrow> evict_protocol h lossy s \<and> evict_history base s"

lemmas evict_defs = evict_history_def open_evict_def at_offset_def offset_def

lemma evict_inv_same:
  assumes "evict_inv h base lossy s"
    and "set (posted s') \<subseteq> insert RTOS_SWMEM_READ_FLAG (set (posted s))" "evict_tokens s' = evict_tokens s"
    "evict_res s' = evict_res s" "evict_trigger s' = evict_trigger s" "evict_asked s' = evict_asked s"
    "written s' = written s" "evict_wanted s' = evict_wanted s" "evict_slot s' = evict_slot s"
    "dirty_mask s' = dirty_mask s" "evict_buf s' = evict_buf s" "swmem_address s' = swmem_address s"
    "stored (sw_pc s') = stored (sw_pc s)"
  shows "evict_inv h base lossy s'"
  using assms by (auto simp: evict_inv_def evict_protocol_def evict_busy_def evict_defs)

lemma evict_busy_tokens: "evict_protocol h lossy s \<Longrightarrow> 0 < evict_tokens s \<Longrightarrow> evict_res s \<and> \<not> evict_trigger s"
  by (cases "evict_res s"; cases "evict_trigger s") (simp_all add: evict_protocol_def evict_busy_def)

lemma evict_inv_thread:
  assumes inv: "evict_inv h base lossy s" and step: "rtos_swmem_thread h base s = Some s'"
  shows "evict_inv h base lossy s'"
proof (cases "sw_pc s")
  case T_Wait
  with step have s': "s' = s\<lparr>flags := flags s AND NOT (RTOS_SWMEM_READ_FLAG OR RTOS_SWMEM_WRITE_FLAG),
      sw_pc := T_Read (flags s)\<rparr>"
    by (simp add: rtos_swmem_thread_def split: if_split_asm)
  show ?thesis by (rule evict_inv_same[OF inv]) (auto simp: s' T_Wait evict_tokens_def)
next
  case (T_Read f)
  show ?thesis
  proof (cases "rd f")
    case True
    with T_Read step obtain buf m a where
      s': "s' = s\<lparr>fill_buf := buf, app := m, sw_pc := T_Exclude f, answers := a\<rparr>"
      by (auto simp: rtos_swmem_thread_def rd_def[symmetric] split: option.splits prod.splits)
    show ?thesis by (rule evict_inv_same[OF inv]) (auto simp: s' T_Read evict_tokens_def)
  next
    case False
    with T_Read step have s': "s' = s\<lparr>sw_pc := T_Write f\<rparr>" by (simp add: rtos_swmem_thread_def rd_def)
    show ?thesis by (rule evict_inv_same[OF inv]) (auto simp: s' T_Read evict_tokens_def)
  qed
next
  case (T_Exclude f)
  with step have s': "s' = s\<lparr>thread_excluded := swmem_core_exclude_map s, sw_pc := T_Populate f\<rparr>"
    by (simp add: rtos_swmem_thread_def)
  show ?thesis by (rule evict_inv_same[OF inv]) (auto simp: s' T_Exclude evict_tokens_def)
next
  case (T_Populate f)
  with step have s': "s' = (swmem_fill_populate_from_buffer (thread_core s) s)\<lparr>sw_pc := T_Include f\<rparr>"
    by (simp add: rtos_swmem_thread_def split: if_split_asm)
  show ?thesis
    by (rule evict_inv_same[OF inv]) (auto simp: s' T_Populate evict_tokens_def swmem_fill_populate_from_buffer_def)
next
  case (T_Include f)
  with step have s': "s' = s\<lparr>thread_excluded := 0, sw_pc := T_Enable_fill f\<rparr>" by (simp add: rtos_swmem_thread_def)
  show ?thesis by (rule evict_inv_same[OF inv]) (auto simp: s' T_Include evict_tokens_def)
next
  case (T_Enable_fill f)
  with step have s': "s' = s\<lparr>fill_trigger := True, sw_pc := T_Write f\<rparr>" by (simp add: rtos_swmem_thread_def)
  show ?thesis by (rule evict_inv_same[OF inv]) (auto simp: s' T_Enable_fill evict_tokens_def)
next
  case (T_Write f)
  show ?thesis
  proof (cases "wr f")
    case True
    with T_Write step obtain m where s': "s' = (record_write base s)\<lparr>app := m, sw_pc := T_Enable_evict f\<rparr>"
      by (auto simp: rtos_swmem_thread_def wr_def[symmetric] split: option.splits)
    have "evict_tokens s' = evict_tokens s" "0 < evict_tokens s"
      by (simp_all add: s' T_Write True evict_tokens_def record_write_def)
    with evict_busy_tokens[of h lossy s] inv T_Write show ?thesis
      by (simp add: s' evict_inv_def evict_protocol_def evict_busy_def evict_defs record_write_def)
  next
    case False
    with T_Write step have s': "s' = s\<lparr>sw_pc := T_Wait\<rparr>" by (simp add: rtos_swmem_thread_def wr_def)
    show ?thesis by (rule evict_inv_same[OF inv]) (auto simp: s' T_Write False evict_tokens_def)
  qed
next
  case (T_Enable_evict f)
  with step have s': "s' = s\<lparr>evict_trigger := True, sw_pc := T_Wait\<rparr>" by (simp add: rtos_swmem_thread_def)
  have "0 < evict_tokens s" by (simp add: T_Enable_evict evict_tokens_def)
  with evict_busy_tokens[of h lossy s] inv have b: "evict_res s" "\<not> evict_trigger s" by (auto simp: evict_inv_def)
  with inv T_Enable_evict have "evict_tokens s = 1" by (auto simp: evict_inv_def evict_protocol_def evict_busy_def evict_tokens_def)
  then have "evict_tokens s' = 0" by (simp add: s' T_Enable_evict evict_tokens_def)
  with inv T_Enable_evict b show ?thesis
    by (simp add: s' evict_inv_def evict_protocol_def evict_busy_def evict_defs)
qed

lemma evict_inv_evict_irq:
  assumes inv: "evict_inv h base lossy s" and on: "evict_trigger s" and "evict_wanted s \<noteq> []" "fits \<or> lossy"
    and isr: "sw_mem_evict_isr h base fits s = Inr s'"
  shows "evict_inv h base lossy s'"
proof -
  obtain slot dirty data rest where w: "evict_wanted s = (slot, dirty, data) # rest"
    using assms(3) by (cases "evict_wanted s") auto
  have res: "evict_res s" and none: "evict_tokens s = 0"
    using inv on by (auto simp: evict_inv_def evict_protocol_def evict_busy_def)
  then have pc: "\<not> stored (sw_pc s)" by (cases "sw_pc s") (auto simp: evict_tokens_def)
  from isr w show ?thesis
  proof (cases rule: evict_isr_cases)
    case (writes m)
    with inv on res none pc w show ?thesis
      by (simp add: evict_inv_def evict_protocol_def evict_busy_def evict_tokens_def evict_defs)
  next
    case (hands m)
    have "evict_tokens s' = (if fits then 1 else 0)"
      using hands none by (simp add: post_flag_def evict_tokens_def)
    with hands inv on res pc w assms(4) show ?thesis
      by (cases fits) (auto simp: post_flag_def evict_inv_def evict_protocol_def evict_busy_def evict_defs)
  qed
qed

lemma evict_inv_fill_irq:
  assumes inv: "evict_inv h base lossy s" and "fill_wanted s \<noteq> []" and isr: "sw_mem_fill_isr h base core fits s = Inr s'"
  shows "evict_inv h base lossy s'"
proof -
  obtain slot rest where w: "fill_wanted s = slot # rest" using assms(2) by (cases "fill_wanted s") auto
  from isr w show ?thesis
  proof (cases rule: fill_isr_cases)
    case (answers buf m)
    then show ?thesis by (intro evict_inv_same[OF inv]) (simp_all add: evict_tokens_def subset_insertI)
  next
    case (hands buf m)
    then show ?thesis by (cases fits; intro evict_inv_same[OF inv]) (auto simp: evict_tokens_def post_flag_def)
  qed
qed

lemma evict_inv_timer:
  assumes inv: "evict_inv h base lossy s" and b: "posted s = b # bs"
  shows "evict_inv h base lossy (s\<lparr>flags := flags s OR b, posted := bs\<rparr>)"
proof -
  have p: "evict_protocol h lossy s" using inv by (simp add: evict_inv_def)
  have "b = RTOS_SWMEM_READ_FLAG \<or> b = RTOS_SWMEM_WRITE_FLAG" using p b by (auto simp: evict_protocol_def)
  moreover have "evict_tokens s \<le> 1"
    using p by (cases "evict_res s"; cases "evict_trigger s") (simp_all add: evict_protocol_def evict_busy_def)
  ultimately have "evict_tokens (s\<lparr>flags := flags s OR b, posted := bs\<rparr>) = evict_tokens s"
    using b by (auto simp: evict_tokens_def)
  then show ?thesis by (intro evict_inv_same[OF inv]) (auto simp: b)
qed

lemma evict_inv_step:
  assumes "sw_step h base lossy s s'" and "evict_inv h base lossy s"
  shows "evict_inv h base lossy s'"
  using assms
proof cases
  case (fill_irq core fits)
  with evict_inv_fill_irq[OF assms(2)] show ?thesis by auto
next
  case (evict_irq fits)
  with evict_inv_evict_irq[OF assms(2)] show ?thesis by auto
next
  case (timer b bs)
  with evict_inv_timer[OF assms(2)] show ?thesis by auto
next
  case thread
  with evict_inv_thread[OF assms(2)] show ?thesis by auto
qed (use assms(2) in \<open>auto simp: evict_inv_def evict_protocol_def evict_busy_def evict_tokens_def evict_defs\<close>)

section \<open>What was configured\<close>

definition sw_config :: "'m handlers \<Rightarrow> u32 \<Rightarrow> u32 \<Rightarrow> 'm swmem \<Rightarrow> bool" where
  "sw_config h init_flags address s \<longleftrightarrow>
     fill_res s = rd init_flags \<and> evict_res s = wr init_flags \<and>
     swmem_address s = (if address = SWMEM_ADDRESS_UNINITIALISED then 0 else address) \<and>
     (rtos_swmem_read_request h \<noteq> None \<or> rtos_swmem_write_request h \<noteq> None \<longrightarrow> thread_up s) \<and>
     (sw_pc s \<noteq> T_Wait \<longrightarrow> thread_up s)"

lemma post_flag_simps [simp]:
  "fill_res (post_flag b f s) = fill_res s" "evict_res (post_flag b f s) = evict_res s"
  "swmem_address (post_flag b f s) = swmem_address s" "thread_up (post_flag b f s) = thread_up s"
  "sw_pc (post_flag b f s) = sw_pc s" "asked (post_flag b f s) = asked s" "evict_asked (post_flag b f s) = evict_asked s"
  "fill_wanted (post_flag b f s) = fill_wanted s" "evict_wanted (post_flag b f s) = evict_wanted s"
  "flags (post_flag b f s) = flags s" "sw_failed (post_flag b f s) = sw_failed s" "filled (post_flag b f s) = filled s"
  by (simp_all add: post_flag_def)

lemma fill_isr_config:
  assumes "sw_mem_fill_isr h base core fits s = Inr s'" "fill_wanted s \<noteq> []"
  shows "fill_res s' = fill_res s \<and> evict_res s' = evict_res s \<and> swmem_address s' = swmem_address s \<and>
    thread_up s' = thread_up s \<and> sw_pc s' = sw_pc s \<and> sw_failed s' = sw_failed s \<and> asked s' = asked s \<and>
    evict_asked s' = evict_asked s \<and> fill_wanted s' = tl (fill_wanted s) \<and> evict_wanted s' = evict_wanted s \<and>
    flags s' = flags s \<and> length (posted s') \<le> Suc (length (posted s))"
proof -
  obtain slot rest where w: "fill_wanted s = slot # rest" using assms(2) by (cases "fill_wanted s") auto
  from assms(1) w show ?thesis by (cases rule: fill_isr_cases) (auto simp: w post_flag_def)
qed

lemma evict_isr_config:
  assumes "sw_mem_evict_isr h base fits s = Inr s'" "evict_wanted s \<noteq> []"
  shows "fill_res s' = fill_res s \<and> evict_res s' = evict_res s \<and> swmem_address s' = swmem_address s \<and>
    thread_up s' = thread_up s \<and> sw_pc s' = sw_pc s \<and> sw_failed s' = sw_failed s \<and> asked s' = asked s \<and>
    evict_asked s' = evict_asked s \<and> fill_wanted s' = fill_wanted s \<and> evict_wanted s' = tl (evict_wanted s) \<and>
    flags s' = flags s \<and> length (posted s') \<le> Suc (length (posted s))"
proof -
  obtain slot dirty data rest where w: "evict_wanted s = (slot, dirty, data) # rest"
    using assms(2) by (cases "evict_wanted s") auto
  from assms(1) w show ?thesis by (cases rule: evict_isr_cases) (auto simp: w post_flag_def)
qed

lemma thread_config:
  assumes "rtos_swmem_thread h base s = Some s'"
  shows "fill_res s' = fill_res s \<and> evict_res s' = evict_res s \<and> swmem_address s' = swmem_address s \<and>
    thread_up s' = thread_up s \<and> sw_failed s' = sw_failed s \<and> asked s' = asked s \<and>
    evict_asked s' = evict_asked s \<and> fill_wanted s' = fill_wanted s \<and> evict_wanted s' = evict_wanted s \<and>
    posted s' = posted s"
  using assms
  by (cases "sw_pc s")
    (auto simp: rtos_swmem_thread_def swmem_fill_populate_from_buffer_def record_write_def
      split: if_splits option.splits prod.splits)

lemma sw_config_step:
  assumes "sw_step h base lossy s s'" and "sw_config h init_flags address s"
  shows "sw_config h init_flags address s'"
  using assms
proof cases
  case (fill_irq core fits)
  with fill_isr_config[of h base core fits s s'] assms(2) show ?thesis by (simp add: sw_config_def)
next
  case (evict_irq fits)
  with evict_isr_config[of h base fits s s'] assms(2) show ?thesis by (simp add: sw_config_def)
next
  case thread
  with thread_config[of h base s s'] assms(2) show ?thesis by (simp add: sw_config_def)
qed (use assms(2) in \<open>simp_all add: sw_config_def\<close>)

definition isr_answers :: "(u32 \<Rightarrow> u32 list \<Rightarrow> 'm \<Rightarrow> bool \<times> u32 list \<times> 'm) option \<Rightarrow> bool" where
  "isr_answers r = (case r of None \<Rightarrow> False | Some f \<Rightarrow> \<forall>off buf m. fst (f off buf m))"

definition isr_writes :: "(u32 \<Rightarrow> u32 \<Rightarrow> u32 list \<Rightarrow> 'm \<Rightarrow> bool \<times> 'm) option \<Rightarrow> bool" where
  "isr_writes r = (case r of None \<Rightarrow> False | Some f \<Rightarrow> \<forall>off dirty buf m. fst (f off dirty buf m))"

text \<open>The application has a function for whatever its functions in the interrupt do not handle.\<close>

definition reads_provided :: "'m handlers \<Rightarrow> bool" where
  "reads_provided h \<longleftrightarrow> rtos_swmem_read_request h \<noteq> None \<or> isr_answers (rtos_swmem_read_request_isr h)"

definition writes_provided :: "'m handlers \<Rightarrow> bool" where
  "writes_provided h \<longleftrightarrow> rtos_swmem_write_request h \<noteq> None \<or> isr_writes (rtos_swmem_write_request_isr h)"

definition provided :: "'m handlers \<Rightarrow> bool" where
  "provided h \<longleftrightarrow> reads_provided h \<and> writes_provided h"

lemma fill_isr_handles: "reads_provided h \<Longrightarrow> \<exists>s'. sw_mem_fill_isr h base core fits s = Inr s'"
  by (cases "rtos_swmem_read_request h"; cases "rtos_swmem_read_request_isr h")
    ((auto simp: reads_provided_def isr_answers_def sw_mem_fill_isr_def answer_isr_def xassert_def Let_def split: prod.splits)?; metis fst_conv)+

lemma evict_isr_handles: "writes_provided h \<Longrightarrow> \<exists>s'. sw_mem_evict_isr h base fits s = Inr s'"
  by (cases "rtos_swmem_write_request h"; cases "rtos_swmem_write_request_isr h")
    ((auto simp: writes_provided_def isr_writes_def sw_mem_evict_isr_def write_isr_def xassert_def Let_def split: prod.splits)?; metis fst_conv)+

lemma sw_failed_step:
  assumes "sw_step h base lossy s s'" and "fill_trigger s \<Longrightarrow> reads_provided h"
    and "evict_trigger s \<Longrightarrow> writes_provided h" "\<not> sw_failed s"
  shows "\<not> sw_failed s'"
  using assms
proof cases
  case (fill_irq core fits)
  with fill_isr_config[of h base core fits s s'] assms(4) show ?thesis by simp
next
  case (evict_irq fits)
  with evict_isr_config[of h base fits s s'] assms(4) show ?thesis by simp
next
  case (fill_assert core fits e)
  with fill_isr_handles[OF assms(2)[OF fill_assert(2)]] show ?thesis by (metis Inr_not_Inl)
next
  case (evict_assert fits e)
  with evict_isr_handles[OF assms(3)[OF evict_assert(2)]] show ?thesis by (metis Inr_not_Inl)
next
  case thread
  with thread_config[of h base s s'] assms(4) show ?thesis by simp
qed (use assms(4) in auto)

definition sw_inv :: "'m handlers \<Rightarrow> u32 \<Rightarrow> bool \<Rightarrow> u32 \<Rightarrow> u32 \<Rightarrow> 'm swmem \<Rightarrow> bool" where
  "sw_inv h base lossy init_flags address s \<longleftrightarrow>
     fill_inv h base lossy s \<and> evict_inv h base lossy s \<and> sw_config h init_flags address s \<and>
     ((rd init_flags \<longrightarrow> reads_provided h) \<and> (wr init_flags \<longrightarrow> writes_provided h) \<longrightarrow> \<not> sw_failed s)"

lemma sw_inv_step:
  assumes "sw_inv h base lossy init_flags address s" and "sw_step h base lossy s s'"
  shows "sw_inv h base lossy init_flags address s'"
proof -
  have "fill_trigger s \<longrightarrow> rd init_flags" "evict_trigger s \<longrightarrow> wr init_flags"
    using assms(1) by (auto simp: sw_inv_def fill_inv_def evict_inv_def fill_protocol_def evict_protocol_def sw_config_def)
  with assms sw_failed_step[OF assms(2)] show ?thesis
    unfolding sw_inv_def by (blast intro: fill_inv_step evict_inv_step sw_config_step)
qed

lemma sw_inv_boot: "sw_inv h base lossy init_flags address (sw_boot h init_flags address m)"
  by (auto simp: sw_inv_def fill_inv_def protocol_defs history_defs evict_inv_def evict_protocol_def evict_busy_def
      evict_tokens_def evict_defs sw_config_def sw_boot_def rtos_swmem_start_def rtos_swmem_init_def sw_loaded_def
      rd_def wr_def)

interpretation swmem: state_machine "sw_boot h init_flags address m" "sw_step h base lossy"
    "sw_inv h base lossy init_flags address" for h init_flags address m base lossy
  by (unfold_locales, rule sw_inv_boot)
    (auto intro: sw_inv_step)

text \<open>
  C35. However the requests of the cache, the interrupts, the thread and the scheduler
  interleave, each slot is filled once, in order, with what the application gave for its
  offset, and on the core on which it was read; each evicted line is written once with its
  dirty mask and data, in order; no assertion fails if the application provides for what its
  interrupt functions refuse.
\<close>

theorem swmem_serves_requests:
  assumes "(sw_step h base lossy)\<^sup>*\<^sup>* (sw_boot h init_flags address m) s"
  shows "(\<exists>now. length now \<le> 1 \<and> asked s = map fst (filled s) @ now @ fill_wanted s) \<and>
    (\<exists>now. length now \<le> 1 \<and>
       answers s = map (\<lambda>(slot, d, _). (offset base s slot, d)) (filled s) @ now) \<and>
    (\<forall>x \<in> set (filled s). snd (snd x)) \<and>
    (\<exists>now. length now \<le> 1 \<and>
       map (at_offset base s) (evict_asked s) = written s @ now @ map (at_offset base s) (evict_wanted s)) \<and>
    (provided h \<longrightarrow> \<not> sw_failed s)"
proof -
  from swmem.reachable[OF assms] have inv: "fill_history base s" "evict_history base s" "provided h \<longrightarrow> \<not> sw_failed s"
    by (auto simp: sw_inv_def fill_inv_def evict_inv_def provided_def)
  have "length (open_fill s) \<le> 1" "length (open_evict base s) \<le> 1"
    by (simp_all add: open_fill_def open_evict_def)
  with inv show ?thesis
    unfolding fill_history_def evict_history_def
    by (intro conjI exI[of _ "open_fill s"] exI[of _ "open_evict base s"]
        exI[of _ "if answered (sw_pc s) then [(offset base s (fill_slot s), fill_buf s)] else []"]) simp_all
qed

definition sample_handlers :: "nat handlers" where
  "sample_handlers =
     \<lparr>rtos_swmem_read_request_isr = Some (\<lambda>off buf m. (off < 100, [off], m)), rtos_swmem_write_request_isr = None,
      rtos_swmem_read_request = Some (\<lambda>off buf m. ([off + 1], m)),
      rtos_swmem_write_request = Some (\<lambda>off dirty buf m. m + 1)\<rparr>"

definition sample_boot :: "nat swmem" where
  "sample_boot = sw_boot sample_handlers 3 SWMEM_ADDRESS_UNINITIALISED 0"

definition sample_asked :: "nat swmem" where
  "sample_asked = sample_boot\<lparr>fill_wanted := [0x40000040], asked := [0x40000040]\<rparr>"

lemma sample_boot_simps [simp]:
  "fill_wanted sample_boot = []" "asked sample_boot = []" "fill_trigger sample_boot" "filled sample_boot = []"
  "answers sample_boot = []" "swmem_address sample_boot = 0"
  by (simp_all add: sample_boot_def sw_boot_def rtos_swmem_start_def rtos_swmem_init_def sw_loaded_def
      RTOS_SWMEM_READ_FLAG_def)

lemma sample_asked_step: "sw_step sample_handlers 0x40000000 lossy sample_boot sample_asked"
  using sw_step.fill_asked[where h=sample_handlers and base="0x40000000" and lossy=lossy and s=sample_boot and slot="0x40000040"]
  by (simp add: sample_asked_def)

theorem swmem_serves_requests_witness:
  "\<exists>s. (sw_step sample_handlers 0x40000000 True)\<^sup>*\<^sup>* sample_boot s \<and> filled s = [(0x40000040, [0x40], True)] \<and>
    (\<exists>now. length now \<le> 1 \<and> asked s = map fst (filled s) @ now @ fill_wanted s) \<and> \<not> sw_failed s"
proof -
  obtain s where isr: "sw_mem_fill_isr sample_handlers 0x40000000 5 False sample_asked = Inr s"
    and s: "filled s = [(0x40000040, [0x40], True)]"
    by (simp add: sw_mem_fill_isr_def answer_isr_def sample_handlers_def sample_asked_def swmem_fill_in_address_def
        swmem_fill_populate_from_buffer_def offset_def)
  have "sw_step sample_handlers 0x40000000 True sample_asked s"
    by (rule sw_step.fill_irq[OF _ _ _ _ isr]) (simp_all add: sample_asked_def)
  with sample_asked_step have steps: "(sw_step sample_handlers 0x40000000 True)\<^sup>*\<^sup>* sample_boot s"
    by (meson rtranclp.rtrancl_into_rtrancl rtranclp.rtrancl_refl)
  have "provided sample_handlers" by (simp add: provided_def reads_provided_def writes_provided_def sample_handlers_def)
  with swmem_serves_requests[OF steps[unfolded sample_boot_def]] steps s show ?thesis by blast
qed

section \<open>Progress\<close>

fun pc_rank :: "sw_pc \<Rightarrow> nat" where
  "pc_rank (T_Read f) = 8"
| "pc_rank (T_Exclude f) = 7"
| "pc_rank (T_Populate f) = 6"
| "pc_rank (T_Include f) = 5"
| "pc_rank (T_Enable_fill f) = 4"
| "pc_rank (T_Write f) = 3"
| "pc_rank (T_Enable_evict f) = 2"
| "pc_rank T_Wait = 0"

text \<open>What is asked for of the kinds that were initialised.\<close>

definition outstanding :: "'m swmem \<Rightarrow> nat" where
  "outstanding s = (if fill_res s then length (fill_wanted s) else 0) +
     (if evict_res s then length (evict_wanted s) else 0)"

definition to_do :: "'m swmem \<Rightarrow> nat" where
  "to_do s = 11 * outstanding s + 10 * length (posted s) +
     9 * of_bool (rd (flags s) \<or> wr (flags s)) + pc_rank (sw_pc s)"

lemma thread_goes_on:
  assumes inv: "sw_inv h base lossy init_flags address s" and pc: "sw_pc s \<noteq> T_Wait"
  shows "\<exists>s'. (sw_step h base lossy)\<^sup>*\<^sup>* s s' \<and> to_do s' < to_do s \<and> asked s' = asked s \<and> evict_asked s' = evict_asked s"
proof -
  have p: "fill_protocol h lossy s" "evict_protocol h lossy s" and up: "thread_up s"
    using inv pc by (auto simp: sw_inv_def fill_inv_def evict_inv_def sw_config_def)
  have rd: "got_fill (sw_pc s) \<Longrightarrow> \<exists>g. rtos_swmem_read_request h = Some g"
    using p(1) by (auto simp: fill_protocol_def fill_tokens_def)
  have wr: "got_evict (sw_pc s) \<Longrightarrow> \<exists>g. rtos_swmem_write_request h = Some g"
    using p(2) by (auto simp: evict_protocol_def evict_tokens_def)
  have less: "to_do s' < to_do t" if "rtos_swmem_thread h base t = Some s'" "sw_pc t \<noteq> T_Wait" for t s'
  proof -
    have "outstanding s' = outstanding t" using thread_config[OF that(1)] by (simp add: outstanding_def)
    with that show ?thesis
      by (cases "sw_pc t")
        (auto simp: rtos_swmem_thread_def to_do_def swmem_fill_populate_from_buffer_def record_write_def
          split: if_split_asm option.split_asm prod.split_asm)
  qed
  have go: "\<exists>s'. (sw_step h base lossy)\<^sup>*\<^sup>* s s' \<and> to_do s' < to_do s \<and> asked s' = asked s \<and> evict_asked s' = evict_asked s"
    if st: "rtos_swmem_thread h base s = Some s'" for s'
    using sw_step.thread[OF up st] less[OF st pc] thread_config[OF st] by blast
  show ?thesis
  proof (cases "\<exists>f. sw_pc s = T_Populate f")
    case True
    then obtain f where f: "sw_pc s = T_Populate f" by blast
    let ?t = "s\<lparr>thread_core := in_core s\<rparr>"
    have c: "core_allowed (thread_excluded s) (in_core s)"
      using p(1) f by (auto simp: fill_protocol_def fill_tokens_def core_allowed_itself)
    then obtain s' where st: "rtos_swmem_thread h base ?t = Some s'" by (simp add: f rtos_swmem_thread_def)
    have "sw_step h base lossy s ?t" "sw_step h base lossy ?t s'"
      using sw_step.migrate[OF c] sw_step.thread[OF _ st] up by simp_all
    moreover have "to_do ?t = to_do s" by (simp add: to_do_def outstanding_def)
    with less[OF st] f have "to_do s' < to_do s" by simp
    moreover have "asked s' = asked s" "evict_asked s' = evict_asked s" using thread_config[OF st] by simp_all
    ultimately show ?thesis by (meson rtranclp.rtrancl_into_rtrancl rtranclp.rtrancl_refl)
  next
    case False
    then have "\<exists>s'. rtos_swmem_thread h base s = Some s'"
      using pc rd wr
      by (cases "sw_pc s") (auto simp: rtos_swmem_thread_def rd_def wr_def split: prod.split)
    with go show ?thesis by blast
  qed
qed

lemma to_do_progress:
  assumes inv: "sw_inv h base False init_flags address s"
    and h: "rd init_flags \<Longrightarrow> reads_provided h" "wr init_flags \<Longrightarrow> writes_provided h" and busy: "0 < to_do s"
  shows "\<exists>s'. (sw_step h base False)\<^sup>*\<^sup>* s s' \<and> to_do s' < to_do s \<and> asked s' = asked s \<and> evict_asked s' = evict_asked s"
proof (cases "sw_pc s = T_Wait")
  case False
  with thread_goes_on[OF inv] show ?thesis by blast
next
  case pc: True
  have p: "fill_protocol h False s" "evict_protocol h False s" and c: "sw_config h init_flags address s"
    using inv by (auto simp: sw_inv_def fill_inv_def evict_inv_def)
  then have res: "fill_res s = rd init_flags" "evict_res s = wr init_flags" by (simp_all add: sw_config_def)
  have one: ?thesis if st: "sw_step h base False s s'" and "to_do s' < to_do s" "asked s' = asked s" "evict_asked s' = evict_asked s"
    for s' using r_into_rtranclp[of "sw_step h base False", OF st] that by blast
  show ?thesis
  proof (cases "rd (flags s) \<or> wr (flags s)")
    case True
    let ?s' = "s\<lparr>flags := flags s AND NOT (RTOS_SWMEM_READ_FLAG OR RTOS_SWMEM_WRITE_FLAG), sw_pc := T_Read (flags s)\<rparr>"
    have st: "rtos_swmem_thread h base s = Some ?s'" using True by (simp add: rtos_swmem_thread_def pc wanted_flags)
    have "rtos_swmem_read_request h \<noteq> None \<or> rtos_swmem_write_request h \<noteq> None"
      using p True by (auto simp: fill_protocol_def fill_tokens_def evict_protocol_def evict_tokens_def)
    then have up: "thread_up s" using c by (simp add: sw_config_def)
    show ?thesis using True pc by (intro one[OF sw_step.thread[OF up st]]) (simp_all add: to_do_def outstanding_def)
  next
    case noflag: False
    show ?thesis
    proof (cases "posted s")
      case (Cons b bs)
      show ?thesis by (rule one[OF sw_step.timer[OF Cons]]) (simp_all add: to_do_def outstanding_def Cons)
    next
      case Nil
      with pc noflag have "fill_tokens s = 0" "evict_tokens s = 0" by (simp_all add: fill_tokens_def evict_tokens_def)
      with p have on: "fill_res s \<Longrightarrow> fill_trigger s" "evict_res s \<Longrightarrow> evict_trigger s"
        by (auto simp: fill_protocol_def evict_protocol_def busy_def evict_busy_def)
      show ?thesis
      proof (cases "fill_res s \<and> fill_wanted s \<noteq> []")
        case True
        then have w: "fill_wanted s \<noteq> []" by simp
        obtain s' where isr: "sw_mem_fill_isr h base 0 True s = Inr s'"
          using fill_isr_handles[OF h(1)] True res by blast
        obtain n where n: "length (fill_wanted s) = Suc n" using w by (cases "fill_wanted s") auto
        from True n fill_isr_config[OF isr w] show ?thesis
          by (intro one[OF sw_step.fill_irq[OF on(1) w _ _ isr]]) (simp_all add: to_do_def outstanding_def Nil n)
      next
        case False
        with busy pc noflag Nil have e: "evict_res s" and w: "evict_wanted s \<noteq> []"
          by (auto simp: to_do_def outstanding_def split: if_splits)
        obtain s' where isr: "sw_mem_evict_isr h base True s = Inr s'"
          using evict_isr_handles[OF h(2)] e res by blast
        obtain n where n: "length (evict_wanted s) = Suc n" using w by (cases "evict_wanted s") auto
        from e n evict_isr_config[OF isr w] show ?thesis
          by (intro one[OF sw_step.evict_irq[OF on(2)[OF e] w _ isr]]) (simp_all add: to_do_def outstanding_def Nil n)
      qed
    qed
  qed
qed

lemma sw_inv_steps:
  assumes "(sw_step h base lossy)\<^sup>*\<^sup>* s s'" "sw_inv h base lossy init_flags address s"
  shows "sw_inv h base lossy init_flags address s'"
  using assms by induction (auto intro: swmem.step)

text \<open>
  C36. Initialised for reads, for writes or for both, with a function of the application for
  whatever its functions in the interrupt do not handle of these, and as long as flags set
  in interrupts are not lost: from whatever is reached no assertion has failed and the
  system can go on until every slot asked for is filled, if it was initialised for reads,
  and every evicted line is written, if it was initialised for writes.
\<close>

theorem swmem_serves_all:
  assumes "(sw_step h base False)\<^sup>*\<^sup>* (sw_boot h init_flags address m) s"
    and "init_flags AND RTOS_SWMEM_READ_FLAG \<noteq> 0 \<Longrightarrow> reads_provided h"
    and "init_flags AND RTOS_SWMEM_WRITE_FLAG \<noteq> 0 \<Longrightarrow> writes_provided h"
  shows "\<exists>s'. (sw_step h base False)\<^sup>*\<^sup>* s s' \<and> \<not> sw_failed s' \<and> asked s' = asked s \<and> evict_asked s' = evict_asked s \<and>
    (init_flags AND RTOS_SWMEM_READ_FLAG \<noteq> 0 \<longrightarrow> map fst (filled s') = asked s) \<and>
    (init_flags AND RTOS_SWMEM_WRITE_FLAG \<noteq> 0 \<longrightarrow> written s' = map (at_offset base s') (evict_asked s))"
proof -
  have h: "rd init_flags \<Longrightarrow> reads_provided h" "wr init_flags \<Longrightarrow> writes_provided h"
    using assms(2,3) by (simp_all add: rd_def wr_def)
  from swmem.reachable[OF assms(1)] show ?thesis
  proof (induction "to_do s" arbitrary: s rule: less_induct)
    case less
    show ?case
    proof (cases "0 < to_do s")
      case True
      from to_do_progress[OF less.prems h True] obtain t where
        t: "(sw_step h base False)\<^sup>*\<^sup>* s t" "to_do t < to_do s" "asked t = asked s" "evict_asked t = evict_asked s"
        by blast
      from less.hyps[OF t(2) sw_inv_steps[OF t(1) less.prems]] t show ?thesis
        by (metis rtranclp_trans)
    next
      case False
      then have idle: "fill_res s \<Longrightarrow> fill_wanted s = []" "evict_res s \<Longrightarrow> evict_wanted s = []" "posted s = []"
          "\<not> rd (flags s)" "\<not> wr (flags s)" "pc_rank (sw_pc s) = 0"
        by (auto simp: to_do_def outstanding_def split: if_splits)
      then have pc: "sw_pc s = T_Wait" by (cases "sw_pc s") auto
      have "fill_tokens s = 0" "evict_tokens s = 0"
        using idle pc by (simp_all add: fill_tokens_def evict_tokens_def)
      with less.prems have "open_fill s = []" "open_evict base s = []" and ok: "\<not> sw_failed s"
        and res: "fill_res s = rd init_flags" "evict_res s = wr init_flags"
        using h by (auto simp: sw_inv_def fill_inv_def evict_inv_def fill_protocol_def evict_protocol_def busy_def
            evict_busy_def open_fill_def open_evict_def sw_config_def)
      with less.prems idle have "rd init_flags \<longrightarrow> asked s = map fst (filled s)"
        "wr init_flags \<longrightarrow> map (at_offset base s) (evict_asked s) = written s"
        by (auto simp: sw_inv_def fill_inv_def evict_inv_def fill_history_def evict_history_def)
      with ok show ?thesis unfolding rd_def wr_def by (metis rtranclp.rtrancl_refl)
    qed
  qed
qed

theorem swmem_serves_all_witness:
  "\<exists>s'. (sw_step sample_handlers 0x40000000 False)\<^sup>*\<^sup>* sample_asked s' \<and> map fst (filled s') = [0x40000040]"
proof -
  have "(sw_step sample_handlers 0x40000000 False)\<^sup>*\<^sup>* sample_boot sample_asked"
    by (rule r_into_rtranclp[of "sw_step sample_handlers 0x40000000 False", OF sample_asked_step])
  then have "(sw_step sample_handlers 0x40000000 False)\<^sup>*\<^sup>*
      (sw_boot sample_handlers 3 SWMEM_ADDRESS_UNINITIALISED 0) sample_asked"
    by (simp add: sample_boot_def)
  from swmem_serves_all[OF this] show ?thesis
    by (auto simp: reads_provided_def writes_provided_def sample_handlers_def RTOS_SWMEM_READ_FLAG_def sample_asked_def)
qed

text \<open>
  The interrupt does not look at what setting the flag returns. Where the timer task had no room for it,
  the trigger stays off and no slot is ever filled again.
\<close>

lemma lost_flag_blocks:
  assumes "(sw_step h base True)\<^sup>*\<^sup>* s s'" "fill_inv h base True s"
    and "fill_res s" "\<not> fill_trigger s" "fill_tokens s = 0"
  shows "filled s' = filled s \<and> \<not> fill_trigger s'"
proof -
  have "fill_inv h base True s' \<and> fill_res s' \<and> \<not> fill_trigger s' \<and> fill_tokens s' = 0 \<and> filled s' = filled s"
    using assms
  proof (induction rule: rtranclp_induct)
    case base
    then show ?case by simp
  next
    case (step y z)
    then have y: "fill_inv h base True y" "fill_res y" "\<not> fill_trigger y" "fill_tokens y = 0" "filled y = filled s"
      by auto
    from y(4) have pc: "\<not> got_fill (sw_pc y)" and flag: "\<not> rd (flags y)" by (auto simp: fill_tokens_def)
    have z: "fill_inv h base True z" by (rule fill_inv_step[OF step.hyps(2) y(1)])
    from step.hyps(2) have "fill_res z = fill_res y \<and> \<not> fill_trigger z \<and> filled z = filled y \<and> fill_tokens z = 0"
    proof cases
      case (evict_irq fits)
      then obtain slot dirty data rest where w: "evict_wanted y = (slot, dirty, data) # rest"
        by (cases "evict_wanted y") auto
      from evict_irq(4) w show ?thesis
        using y(3,4) by (cases rule: evict_isr_cases) (auto simp: post_flag_def fill_tokens_def)
    next
      case (timer b bs)
      then have "b = RTOS_SWMEM_WRITE_FLAG"
        using y(1,4) by (auto simp: fill_inv_def fill_protocol_def fill_tokens_def)
      with timer y(3,4) show ?thesis by (auto simp: fill_tokens_def)
    next
      case thread
      with y(3,4) pc flag show ?thesis
        by (cases "sw_pc y")
          (auto simp: rtos_swmem_thread_def fill_tokens_def record_write_def rd_def[symmetric]
            split: if_split_asm option.split_asm)
    qed (use y in \<open>auto simp: fill_tokens_def\<close>)
    with z y show ?case by simp
  qed
  then show ?thesis by simp
qed

section \<open>The level 2 cache\<close>

text \<open>
  rtos_l2_cache.c: a thread waits for a byte on a channel, sets lib_l2_cache up and enters its thread
  function, on a core of \<open>io_core_mask\<close> and without preemption. Functions and buffers are their addresses;
  the log holds the calls of the library.
\<close>

datatype l2_call = Setup nat nat nat nat | Thread_fn nat

record rtos_l2_cache =
  c_start :: nat
  c_thread :: nat
  l2_cache_setup :: nat
  l2_cache_thread :: nat
  cache_buffer :: nat
  read_func :: nat
  hil_excluded :: u32
  hil_preemption_disabled :: bool
  start_bytes :: "byte list"

definition rtos_l2_cache_init :: "nat \<times> nat \<Rightarrow> nat \<Rightarrow> nat \<Rightarrow> nat \<Rightarrow> u32 \<Rightarrow> nat \<Rightarrow> rtos_l2_cache res" where
  "rtos_l2_cache_init c_tmp setup_fn thread_fn read_fn io_core_mask buffer =
     xassert (fst c_tmp \<noteq> 0)
       (Inr \<lparr>c_start = fst c_tmp, c_thread = snd c_tmp, l2_cache_setup = setup_fn, l2_cache_thread = thread_fn,
          cache_buffer = buffer, read_func = read_fn, hil_excluded = NOT io_core_mask,
          hil_preemption_disabled = True, start_bytes = []\<rparr>)"

definition rtos_l2_cache_start :: "rtos_l2_cache \<Rightarrow> rtos_l2_cache" where
  "rtos_l2_cache_start ctx = ctx\<lparr>start_bytes := start_bytes ctx @ [0]\<rparr>"

text \<open>\<open>None\<close> while the thread waits for the byte or for a core.\<close>

definition rtos_l2_cache_thread :: "nat \<Rightarrow> nat \<Rightarrow> nat \<Rightarrow> rtos_l2_cache \<Rightarrow> (l2_call list \<times> rtos_l2_cache) option" where
  "rtos_l2_cache_thread line_count line_size core ctx =
     (if core_allowed (hil_excluded ctx) core \<and> start_bytes ctx \<noteq> [] then
        Some ([Setup line_count line_size (cache_buffer ctx) (read_func ctx), Thread_fn (l2_cache_thread ctx)],
              ctx\<lparr>start_bytes := tl (start_bytes ctx)\<rparr>)
      else None)"

lemma l2_cache_enters_once_started:
  assumes "rtos_l2_cache_init c setup_fn thread_fn read_fn io_core_mask buffer = Inr ctx"
  shows "rtos_l2_cache_thread n sz core ctx = None"
    "core < 32 \<Longrightarrow> bit io_core_mask core \<Longrightarrow>
       map_option fst (rtos_l2_cache_thread n sz core (rtos_l2_cache_start ctx)) =
         Some [Setup n sz buffer read_fn, Thread_fn thread_fn]"
    "\<not> bit io_core_mask core \<Longrightarrow> rtos_l2_cache_thread n sz core (rtos_l2_cache_start ctx) = None"
  using assms
  by (auto simp: rtos_l2_cache_init_def rtos_l2_cache_thread_def rtos_l2_cache_start_def core_allowed_def
      bit_simps xassert_eq_Inr)

end
