(* ===== verification/Wifi_Manager.thy ===== *)
theory Wifi_Manager
  imports Ap_Cache
begin

text \<open>
  The task of the Wi-Fi connection manager
  (modules/sw_services/wifi_manager/FreeRTOS/wifi_connection_mgr.c): its start, a turn of its loop, and
  the functions that others call. The functions of the Wi-Fi driver, of the network and of the
  application are the record \<open>wifi_env\<close> over a world \<open>'w\<close>; a bool is eWiFiSuccess. Delays between
  attempts belong to the world, USE_DHCPD is on.
\<close>

definition POOR_CONNECTION_RSSI_THRESHOLD :: int where "POOR_CONNECTION_RSSI_THRESHOLD = -70"
definition MAX_SCAN_ATTEMPTS :: nat where "MAX_SCAN_ATTEMPTS = 3"
definition MAX_CONNECTION_ATTEMPTS_BEFORE_CALLBACK :: nat where "MAX_CONNECTION_ATTEMPTS_BEFORE_CALLBACK = 5"
definition NOTIFY_NETWORK_DOWN_BM :: u32 where "NOTIFY_NETWORK_DOWN_BM = 1"
definition NOTIFY_WIFI_RESET_BM :: u32 where "NOTIFY_WIFI_RESET_BM = 2"
definition NOTIFY_WIFI_PROFILES_UPDATED_BM :: u32 where "NOTIFY_WIFI_PROFILES_UPDATED_BM = 4"
definition WIFI_CONN_MGR_MODE_STATION :: int where "WIFI_CONN_MGR_MODE_STATION = 0"
definition WIFI_CONN_MGR_MODE_SOFT_AP :: int where "WIFI_CONN_MGR_MODE_SOFT_AP = 1"

definition eWiFiSecurityOpen :: nat where "eWiFiSecurityOpen = 0"
definition eWiFiSecurityWPA2 :: nat where "eWiFiSecurityWPA2 = 3"

datatype mgr_event =
    WIFI_CONN_MGR_EVENT_STARTUP
  | WIFI_CONN_MGR_EVENT_CONNECT_FAILED
  | WIFI_CONN_MGR_EVENT_CONNECTED
  | WIFI_CONN_MGR_EVENT_DISCONNECTED
  | WIFI_CONN_MGR_EVENT_SOFT_AP_STARTED
  | WIFI_CONN_MGR_EVENT_SOFT_AP_STOPPED

text \<open>
  \<open>event_cb\<close> gets the two temporary arrays as strings and returns its mode and what it leaves in them;
  \<open>notify_wait\<close> the bits of a notification, if one comes in time.
\<close>

record 'w wifi_env =
  WIFI_On :: "'w \<Rightarrow> bool \<times> 'w"
  WIFI_Reset :: "'w \<Rightarrow> bool \<times> 'w"
  WIFI_Scan :: "'w \<Rightarrow> scan_result list option \<times> 'w"
  WIFI_ConnectAP :: "'w connect_ap"
  WIFI_Disconnect :: "'w \<Rightarrow> bool \<times> 'w"
  WIFI_StopAP :: "'w \<Rightarrow> bool \<times> 'w"
  WIFI_ConfigureAP :: "net_params \<Rightarrow> 'w \<Rightarrow> 'w"
  WIFI_StartAP :: "'w \<Rightarrow> bool \<times> 'w"
  WIFI_IsConnected :: "'w \<Rightarrow> bool"
  WIFI_NetworkGet :: "'w \<Rightarrow> nat \<Rightarrow> wifi_profile option"
  sl_wfx_get_signal_strength :: "'w \<Rightarrow> u32 option"
  xIPIsNetworkTaskReady :: "'w \<Rightarrow> bool \<times> 'w"
  event_cb :: "mgr_event \<Rightarrow> byte list \<Rightarrow> byte list \<Rightarrow> 'w \<Rightarrow> (int \<times> byte list \<times> byte list) \<times> 'w"
  notify_wait :: "'w \<Rightarrow> u32 option \<times> 'w"
  dhcpd_start :: "'w \<Rightarrow> 'w"
  dhcpd_stop :: "'w \<Rightarrow> 'w"
  notify :: "u32 \<Rightarrow> 'w \<Rightarrow> 'w"

text \<open>The loops that call a function until it succeeds.\<close>

partial_function (option) retry :: "('w \<Rightarrow> bool \<times> 'w) \<Rightarrow> 'w \<Rightarrow> 'w option" where
  "retry f w = (let (ok, w1) = f w in if ok then Some w1 else retry f w1)"

text \<open>
  The task's variables: \<open>connected_ap\<close> is the index of the entry in the cache it points to, the arrays of
  the soft access point are C strings.
\<close>

record mgr =
  scan_list :: scan_list
  connected_ap :: "nat option"
  failed_connection_attempts :: nat
  mode :: int
  soft_ap_ssid :: "byte list"
  soft_ap_password :: "byte list"

section \<open>Events\<close>

text \<open>
  \<open>event_callback\<close> with \<open>ssid_out\<close> or NULL, and whether \<open>ssid_in\<close> and \<open>password_in\<close> are given, which are always
  the arrays of the soft access point.
\<close>

definition event_callback ::
    "'w wifi_env \<Rightarrow> mgr_event \<Rightarrow> byte list option \<Rightarrow> bool \<Rightarrow> mgr \<Rightarrow> 'w \<Rightarrow> int \<times> mgr \<times> 'w" where
  "event_callback env ev ssid_out given s w =
     (let tmp_ssid = (case ssid_out of None \<Rightarrow> [] | Some x \<Rightarrow> c_string wificonfigMAX_SSID_LEN x);
          ((m, ssid, password), w1) = event_cb env ev tmp_ssid [] w
      in (m, (if m = WIFI_CONN_MGR_MODE_SOFT_AP \<and> given then
                s\<lparr>soft_ap_ssid := c_string wificonfigMAX_SSID_LEN ssid,
                  soft_ap_password := c_string wificonfigMAX_PASSPHRASE_LEN password\<rparr>
              else s), w1))"

text \<open>
  The name of the network of an entry: that of its profile. \<open>cSSID\<close> is the first member of a profile, so its
  address is NULL where the entry has none.
\<close>

definition ssid_of :: "nat option \<Rightarrow> scan_list \<Rightarrow> byte list option" where
  "ssid_of ap s =
     (case ap of None \<Rightarrow> None
      | Some p \<Rightarrow> map_option (\<lambda>i. cSSID (saved_profiles s ! i)) (associated_profile (cached_aps s ! p)))"

section \<open>A turn as a station\<close>

text \<open>At most \<open>n\<close> scans, until one succeeds.\<close>

fun scan_attempts :: "'w wifi_env \<Rightarrow> nat \<Rightarrow> scan_list \<Rightarrow> 'w \<Rightarrow> (scan_list \<times> 'w) res" where
  "scan_attempts env 0 s w = Inr (s, w)"
| "scan_attempts env (Suc n) s w =
     (let (results, w1) = WIFI_Scan env w
      in rbind (scan_networks results s) (\<lambda>(ret, s1).
           if ret = 0 then Inr (s1, w1) else scan_attempts env n s1 w1))"

definition poor_signal :: "mgr \<Rightarrow> bool" where
  "poor_signal s =
     (case connected_ap s of None \<Rightarrow> False
      | Some c \<Rightarrow> stable (cached_aps (scan_list s) ! c) \<and>
                  rssi (cached_aps (scan_list s) ! c) < POOR_CONNECTION_RSSI_THRESHOLD)"

definition try_connection :: "'w wifi_env \<Rightarrow> mgr \<Rightarrow> 'w \<Rightarrow> mgr \<times> 'w" where
  "try_connection env s w =
     (let (r, l, w1) = perform_connection (WIFI_ConnectAP env) (scan_list s) w;
          s1 = s\<lparr>scan_list := l, connected_ap := r\<rparr>
      in if r = None then
           (let attempts = failed_connection_attempts s1 + 1
            in if attempts = MAX_CONNECTION_ATTEMPTS_BEFORE_CALLBACK \<or> saved_profiles l = [] then
                 (let (m, s2, w2) =
                        event_callback env WIFI_CONN_MGR_EVENT_CONNECT_FAILED None True
                          (s1\<lparr>failed_connection_attempts := 0\<rparr>) w1
                  in (s2\<lparr>mode := m\<rparr>, w2))
               else (s1\<lparr>failed_connection_attempts := attempts\<rparr>, w1))
         else
           (let (m, s2, w2) =
                  event_callback env WIFI_CONN_MGR_EVENT_CONNECTED (ssid_of r l) False
                    (s1\<lparr>failed_connection_attempts := 0\<rparr>) w1
            in (s2, w2)))"

definition update_signal :: "'w wifi_env \<Rightarrow> mgr \<Rightarrow> 'w \<Rightarrow> mgr" where
  "update_signal env s w =
     (case (sl_wfx_get_signal_strength env w, connected_ap s) of
        (Some rcpi, Some c) \<Rightarrow>
          s\<lparr>scan_list := set_ap c (update_ap_rssi (word_of_int ((sint rcpi - 220) sdiv 2))) (scan_list s)\<rparr>
      | _ \<Rightarrow> s)"

text \<open>The bool is \<open>initiate_disconnect\<close>.\<close>

definition station_turn :: "'w wifi_env \<Rightarrow> mgr \<Rightarrow> 'w \<Rightarrow> (bool \<times> mgr \<times> 'w) res" where
  "station_turn env s w =
     (let unconnected = (connected_ap s = None); poor = poor_signal s
      in rbind
           (if (unconnected \<or> poor) \<and> saved_profiles (scan_list s) \<noteq> []
            then scan_attempts env MAX_SCAN_ATTEMPTS (scan_list s) w else Inr (scan_list s, w))
           (\<lambda>(l, w1).
              let better = (poor \<and> better_ap (the (connected_ap s)) (take (ap_cache_count l) (sorted_aps l)) l);
                  s1 = (if better then s\<lparr>scan_list := l, connected_ap := None\<rparr> else s\<lparr>scan_list := l\<rparr>)
              in if unconnected \<or> better then
                   (let (s2, w2) = try_connection env s1 w1 in Inr (better, s2, w2))
                 else Inr (better, update_signal env s1 w1, w1)))"

section \<open>A turn as an access point\<close>

definition soft_ap_params :: "mgr \<Rightarrow> net_params" where
  "soft_ap_params s =
     (let n = length (c_string wificonfigMAX_PASSPHRASE_LEN (soft_ap_password s))
      in \<lparr>pcSSID = soft_ap_ssid s,
          paramSSIDLength = length (c_string wificonfigMAX_SSID_LEN (soft_ap_ssid s)),
          pcPassword = soft_ap_password s, paramPasswordLength = n,
          paramSecurity = (if n > 0 then eWiFiSecurityWPA2 else eWiFiSecurityOpen), paramChannel = 6\<rparr>)"

definition soft_ap_turn :: "'w wifi_env \<Rightarrow> mgr \<Rightarrow> 'w \<Rightarrow> (mgr \<times> 'w) option" where
  "soft_ap_turn env s w =
     (if \<not> WIFI_IsConnected env w then
        (case retry (WIFI_StartAP env) (WIFI_ConfigureAP env (soft_ap_params s) w) of
           None \<Rightarrow> None
         | Some w1 \<Rightarrow>
             (let (m, s1, w2) =
                    event_callback env WIFI_CONN_MGR_EVENT_SOFT_AP_STARTED (Some (soft_ap_ssid s)) False s
                      (dhcpd_start env w1)
              in Some (s1, w2)))
      else Some (s, w))"

section \<open>Notifications\<close>

definition network_down :: "'w wifi_env \<Rightarrow> bool \<Rightarrow> mgr \<Rightarrow> 'w \<Rightarrow> mgr \<times> 'w" where
  "network_down env initiate_disconnect s w =
     (if mode s = WIFI_CONN_MGR_MODE_STATION then
        if WIFI_IsConnected env w then (s, w)
        else if initiate_disconnect then (s\<lparr>connected_ap := None\<rparr>, w)
        else (let (m, s1, w1) =
                event_callback env WIFI_CONN_MGR_EVENT_DISCONNECTED (ssid_of (connected_ap s) (scan_list s)) True s w
              in (s1\<lparr>mode := m, connected_ap := None\<rparr>, w1))
      else if mode s = WIFI_CONN_MGR_MODE_SOFT_AP then
        if \<not> WIFI_IsConnected env w then
          (let (m, s1, w1) =
             event_callback env WIFI_CONN_MGR_EVENT_SOFT_AP_STOPPED (Some (soft_ap_ssid s)) True s w
           in if m \<noteq> WIFI_CONN_MGR_MODE_SOFT_AP then (s1\<lparr>mode := m, connected_ap := None\<rparr>, dhcpd_stop env w1)
              else (s1\<lparr>mode := m\<rparr>, w1))
        else (s, w)
      else (s, w))"

definition reload_profiles :: "'w wifi_env \<Rightarrow> mgr \<Rightarrow> 'w \<Rightarrow> mgr" where
  "reload_profiles env s w = s\<lparr>scan_list := reset_scan_search_list_and_ap_cache (WIFI_NetworkGet env w)\<rparr>"

definition notified :: "'w wifi_env \<Rightarrow> u32 \<Rightarrow> bool \<Rightarrow> mgr \<Rightarrow> 'w \<Rightarrow> (mgr \<times> 'w) option" where
  "notified env bits initiate_disconnect s w =
     (if bits AND NOTIFY_WIFI_RESET_BM \<noteq> 0 then
        map_option (\<lambda>w1. (s\<lparr>connected_ap := None\<rparr>, w1)) (retry (WIFI_Reset env) w)
      else
        (let s1 = (if bits AND NOTIFY_WIFI_PROFILES_UPDATED_BM \<noteq> 0 then reload_profiles env s w else s)
         in Some (if bits AND NOTIFY_NETWORK_DOWN_BM \<noteq> 0 then network_down env initiate_disconnect s1 w
                  else (s1, w))))"

section \<open>The task\<close>

definition conn_mgr_turn :: "'w wifi_env \<Rightarrow> mgr \<Rightarrow> 'w \<Rightarrow> (mgr \<times> 'w) res option" where
  "conn_mgr_turn env s w =
     lbind (Some (if mode s = WIFI_CONN_MGR_MODE_STATION then station_turn env s w else Inr (False, s, w)))
       (\<lambda>(initiate_disconnect, s1, w1).
          case (if mode s1 = WIFI_CONN_MGR_MODE_SOFT_AP then soft_ap_turn env s1 w1 else Some (s1, w1)) of
            None \<Rightarrow> None
          | Some (s2, w2) \<Rightarrow>
              (let (bits, w3) = notify_wait env w2
               in case bits of
                    None \<Rightarrow> Some (Inr (s2, w3))
                  | Some b \<Rightarrow> map_option Inr (notified env b initiate_disconnect s2 w3)))"

text \<open>What comes before the loop; \<open>junk\<close> is what the variables without a value hold.\<close>

definition conn_mgr_startup :: "'w wifi_env \<Rightarrow> byte list \<times> byte list \<Rightarrow> 'w \<Rightarrow> (mgr \<times> 'w) option" where
  "conn_mgr_startup env junk w =
     (case retry (WIFI_On env) w of
        None \<Rightarrow> None
      | Some w1 \<Rightarrow>
          (let s = \<lparr>scan_list = reset_scan_search_list_and_ap_cache (WIFI_NetworkGet env w1),
                    connected_ap = None, failed_connection_attempts = 0, mode = WIFI_CONN_MGR_MODE_STATION,
                    soft_ap_ssid = fst junk, soft_ap_password = snd junk\<rparr>
           in case retry (xIPIsNetworkTaskReady env) w1 of
                None \<Rightarrow> None
              | Some w2 \<Rightarrow>
                  (let (m, s1, w3) = event_callback env WIFI_CONN_MGR_EVENT_STARTUP None True s w2
                   in Some (s1\<lparr>mode := m\<rparr>, w3))))"

fun conn_mgr_turns :: "'w wifi_env \<Rightarrow> nat \<Rightarrow> mgr \<Rightarrow> 'w \<Rightarrow> (mgr \<times> 'w) res option" where
  "conn_mgr_turns env 0 s w = Some (Inr (s, w))"
| "conn_mgr_turns env (Suc n) s w = lbind (conn_mgr_turn env s w) (\<lambda>(s1, w1). conn_mgr_turns env n s1 w1)"

definition wifi_conn_mgr :: "'w wifi_env \<Rightarrow> byte list \<times> byte list \<Rightarrow> nat \<Rightarrow> 'w \<Rightarrow> (mgr \<times> 'w) res option" where
  "wifi_conn_mgr env junk n w =
     (case conn_mgr_startup env junk w of None \<Rightarrow> None | Some (s, w1) \<Rightarrow> conn_mgr_turns env n s w1)"

section \<open>Calls from other tasks\<close>

text \<open>At most three attempts; \<open>n\<close> is how many are left. The bool is the return value 0.\<close>

fun stop_attempts :: "('w \<Rightarrow> bool \<times> 'w) \<Rightarrow> nat \<Rightarrow> 'w \<Rightarrow> bool \<times> 'w" where
  "stop_attempts f 0 w = (False, w)"
| "stop_attempts f (Suc n) w = (let (ok, w1) = f w in if ok then (True, w1) else stop_attempts f n w1)"

text \<open>\<open>running\<close>: the task exists and can be notified.\<close>

definition wifi_conn_mgr_reload_profiles :: "'w wifi_env \<Rightarrow> bool \<Rightarrow> 'w \<Rightarrow> 'w" where
  "wifi_conn_mgr_reload_profiles env running w =
     (if running then notify env NOTIFY_WIFI_PROFILES_UPDATED_BM w else w)"

definition wifi_conn_mgr_disconnect_from_ap :: "'w wifi_env \<Rightarrow> bool \<Rightarrow> bool \<Rightarrow> 'w \<Rightarrow> bool \<times> 'w" where
  "wifi_conn_mgr_disconnect_from_ap env running wifi_profiles_updated w =
     stop_attempts (WIFI_Disconnect env) 3
       (if wifi_profiles_updated then wifi_conn_mgr_reload_profiles env running w else w)"

definition wifi_conn_mgr_stop_soft_ap :: "'w wifi_env \<Rightarrow> bool \<Rightarrow> bool \<Rightarrow> 'w \<Rightarrow> bool \<times> 'w" where
  "wifi_conn_mgr_stop_soft_ap env running wifi_profiles_updated w =
     stop_attempts (WIFI_StopAP env) 3
       (if wifi_profiles_updated then wifi_conn_mgr_reload_profiles env running w else w)"

definition wifi_conn_mgr_network_event :: "'w wifi_env \<Rightarrow> bool \<Rightarrow> bool \<Rightarrow> 'w \<Rightarrow> 'w" where
  "wifi_conn_mgr_network_event env running down w =
     (if down \<and> running then notify env NOTIFY_NETWORK_DOWN_BM w else w)"

definition sl_wfx_reset_request_callback :: "'w wifi_env \<Rightarrow> bool \<Rightarrow> 'w \<Rightarrow> 'w" where
  "sl_wfx_reset_request_callback env running w =
     (if running then notify env NOTIFY_WIFI_RESET_BM w else w)"

section \<open>The loops end\<close>

lemma retry_ends:
  "fst (f (((snd \<circ> f) ^^ n) w)) \<Longrightarrow> \<exists>w'. retry f w = Some w'"
proof (induction n arbitrary: w)
  case 0
  then show ?case by (cases "f w") (subst retry.simps, simp)
next
  case (Suc n)
  have "((snd \<circ> f) ^^ Suc n) w = ((snd \<circ> f) ^^ n) (snd (f w))" by (subst funpow_Suc_right) simp
  with Suc.prems have "fst (f (((snd \<circ> f) ^^ n) (snd (f w))))" by (simp only:)
  from Suc.IH[OF this] show ?case by (cases "f w") (subst retry.simps, auto)
qed

lemma stop_attempts_bound:
  "fst (stop_attempts f n w) \<longleftrightarrow> (\<exists>i<n. fst (f (((snd \<circ> f) ^^ i) w)))"
proof (induction n arbitrary: w)
  case (Suc n)
  have "(\<exists>i<Suc n. fst (f (((snd \<circ> f) ^^ i) w))) \<longleftrightarrow>
      fst (f w) \<or> (\<exists>i<n. fst (f (((snd \<circ> f) ^^ i) (snd (f w)))))"
    by (subst Ex_less_Suc2) (simp add: funpow_swap1)
  with Suc[of "snd (f w)"] show ?case by (cases "f w") (auto simp: comp_def)
qed simp

section \<open>The task's variables\<close>

definition c_str :: "nat \<Rightarrow> byte list \<Rightarrow> bool" where
  "c_str n x \<longleftrightarrow> length x \<le> n \<and> 0 \<notin> set x"

text \<open>
  The cache is consistent, \<open>connected_ap\<close> points into it, the failed attempts are below their bound, and as an
  access point the task has two strings that fit their arrays.
\<close>

definition mgr_ok :: "mgr \<Rightarrow> bool" where
  "mgr_ok s \<longleftrightarrow>
     cache_ok (scan_list s) \<and> (\<forall>c. connected_ap s = Some c \<longrightarrow> c < CACHED_AP_COUNT) \<and>
     failed_connection_attempts s < MAX_CONNECTION_ATTEMPTS_BEFORE_CALLBACK \<and>
     (mode s = WIFI_CONN_MGR_MODE_SOFT_AP \<longrightarrow>
        c_str wificonfigMAX_SSID_LEN (soft_ap_ssid s) \<and> c_str wificonfigMAX_PASSPHRASE_LEN (soft_ap_password s))"

lemma c_str_c_string [simp]: "c_str n (c_string n x)"
proof -
  have "length (c_string n x) \<le> n"
    unfolding c_string_def by (rule order_trans[OF length_takeWhile_le]) simp
  then show ?thesis by (auto simp: c_str_def c_string_def dest: set_takeWhileD)
qed

lemma event_callback_mode:
  assumes "event_callback env ev out True s w = (m, s1, w1)" and "mgr_ok (s\<lparr>mode := 0\<rparr>)"
  shows "mgr_ok (s1\<lparr>mode := m\<rparr>)" "scan_list s1 = scan_list s" "connected_ap s1 = connected_ap s"
  using assms
  by (auto simp: event_callback_def mgr_ok_def WIFI_CONN_MGR_MODE_SOFT_AP_def Let_def split: prod.splits if_splits)

lemma event_callback_report:
  "event_callback env ev out False s w = (m, s1, w1) \<Longrightarrow> s1 = s"
  by (auto simp: event_callback_def Let_def split: prod.splits)

lemma mgr_ok_mode: "mgr_ok s \<Longrightarrow> mgr_ok (s\<lparr>mode := 0\<rparr>)"
  by (simp add: mgr_ok_def WIFI_CONN_MGR_MODE_SOFT_AP_def)

lemma cache_ok_update:
  assumes "cache_ok l" "c < CACHED_AP_COUNT"
  shows "cache_ok (set_ap c (update_ap_rssi v) l)"
proof -
  have ok: "ptrs_ok l" "active_upto (ap_cache_count l) l" "list_all hist_ok (cached_aps l)"
    using assms(1) by (simp_all add: cache_ok_def)
  have "hist_ok (update_ap_rssi v (cached_aps l ! c))"
    using ok(1,3) assms(2) by (intro hist_ok_update) (simp add: list_all_length ptrs_ok_def)
  then have "list_all hist_ok (cached_aps (set_ap c (update_ap_rssi v) l))"
    by (intro list_all_set_ap[OF ok(3)])
  moreover have "age (cached_aps (set_ap c (update_ap_rssi v) l) ! p) = age (cached_aps l ! p)" for p
    by (cases "p = c"; cases "c < length (cached_aps l)") (auto simp: set_ap_def list_update_beyond)
  then have "active_upto (ap_cache_count l) (set_ap c (update_ap_rssi v) l)"
    using ok(2) by (simp add: active_upto_def ap_at_def)
  ultimately show ?thesis using ok(1) by (simp add: cache_ok_def)
qed

lemma scan_attempts_ok:
  "cache_ok l \<Longrightarrow> \<exists>l' w'. scan_attempts env n l w = Inr (l', w') \<and> cache_ok l'"
proof (induction n arbitrary: l w)
  case (Suc n)
  obtain results w1 where s: "WIFI_Scan env w = (results, w1)" by fastforce
  from scan_networks_returns[OF Suc.prems, of results] obtain ret l1 where
    "scan_networks results l = Inr (ret, l1)" "cache_ok l1" by blast
  with Suc.IH[of l1 w1] s show ?case by auto
qed simp

lemma connected_pointer:
  assumes "cache_ok l" "perform_connection conn l w = (Some c, l', w')"
  shows "c < CACHED_AP_COUNT"
proof -
  have "\<forall>p\<in>set (take (ap_cache_count l) (sorted_aps l)). \<exists>j<ap_cache_count l. p = sorted_aps l ! j"
    by (fastforce simp: in_set_conv_nth)
  from connect_first_preserves[OF assms(1) this assms(2)[unfolded perform_connection_def]]
  obtain j where "j < ap_cache_count l" "c = sorted_aps l ! j" by blast
  with assms(1) ptrs_less[of l j] show ?thesis
    by (auto simp: cache_ok_def active_upto_def ptrs_ok_def)
qed

lemma try_connection_ok:
  assumes ok: "mgr_ok s" and st: "mode s = WIFI_CONN_MGR_MODE_STATION" and "try_connection env s w = (s', w')"
  shows "mgr_ok s'"
proof -
  obtain r l w1 where p: "perform_connection (WIFI_ConnectAP env) (scan_list s) w = (r, l, w1)" by (metis prod_cases3)
  have l: "cache_ok l" and r: "\<And>c. r = Some c \<Longrightarrow> c < CACHED_AP_COUNT"
    using perform_connection_ok[OF _ p] connected_pointer[of "scan_list s" "WIFI_ConnectAP env" w _ l w1] p ok
    by (auto simp: mgr_ok_def)
  define t where "t = s\<lparr>scan_list := l, connected_ap := r, failed_connection_attempts := 0\<rparr>"
  have t: "mgr_ok t" and m: "mode t = WIFI_CONN_MGR_MODE_STATION"
    using ok l r st by (auto simp: mgr_ok_def t_def MAX_CONNECTION_ATTEMPTS_BEFORE_CALLBACK_def)
  show ?thesis
  proof (cases r)
    case (Some c)
    with assms(3) p t show ?thesis
      by (auto simp: try_connection_def t_def dest: event_callback_report split: prod.splits)
  next
    case None
    show ?thesis
    proof (cases "failed_connection_attempts s + 1 = MAX_CONNECTION_ATTEMPTS_BEFORE_CALLBACK \<or> saved_profiles l = []")
      case True
      obtain m s2 w2 where e: "event_callback env WIFI_CONN_MGR_EVENT_CONNECT_FAILED None True t w1 = (m, s2, w2)"
        by (metis prod_cases3)
      from True None assms(3) p e have "s' = s2\<lparr>mode := m\<rparr>"
        by (auto simp: try_connection_def t_def)
      with event_callback_mode(1)[OF e mgr_ok_mode[OF t]] show ?thesis by simp
    next
      case False
      with None assms(3) p have s': "s' = t\<lparr>failed_connection_attempts := failed_connection_attempts s + 1\<rparr>"
        by (auto simp: try_connection_def t_def)
      have "failed_connection_attempts s + 1 < MAX_CONNECTION_ATTEMPTS_BEFORE_CALLBACK"
        using False ok by (auto simp: mgr_ok_def)
      with t show ?thesis by (simp add: s' mgr_ok_def)
    qed
  qed
qed

lemma station_turn_ok:
  assumes ok: "mgr_ok s" and st: "mode s = WIFI_CONN_MGR_MODE_STATION"
  shows "\<exists>b s' w'. station_turn env s w = Inr (b, s', w') \<and> mgr_ok s'"
proof -
  have "\<exists>l w1. (if (connected_ap s = None \<or> poor_signal s) \<and> saved_profiles (scan_list s) \<noteq> []
       then scan_attempts env MAX_SCAN_ATTEMPTS (scan_list s) w else Inr (scan_list s, w)) = Inr (l, w1) \<and> cache_ok l"
    using scan_attempts_ok[of "scan_list s"] ok by (auto simp: mgr_ok_def)
  then obtain l w1 where l: "(if (connected_ap s = None \<or> poor_signal s) \<and> saved_profiles (scan_list s) \<noteq> []
       then scan_attempts env MAX_SCAN_ATTEMPTS (scan_list s) w else Inr (scan_list s, w)) = Inr (l, w1)" "cache_ok l"
    by blast
  define better where
    "better = (poor_signal s \<and> better_ap (the (connected_ap s)) (take (ap_cache_count l) (sorted_aps l)) l)"
  define s1 where "s1 = (if better then s\<lparr>scan_list := l, connected_ap := None\<rparr> else s\<lparr>scan_list := l\<rparr>)"
  have s1: "mgr_ok s1" "mode s1 = WIFI_CONN_MGR_MODE_STATION"
    using ok l(2) st by (auto simp: s1_def mgr_ok_def)
  have u: "mgr_ok (update_signal env s1 w1)"
    using s1 cache_ok_update by (auto simp: update_signal_def mgr_ok_def split: option.split)
  obtain s2 w2 where t: "try_connection env s1 w1 = (s2, w2)" by fastforce
  have "station_turn env s w =
      (if connected_ap s = None \<or> better then Inr (better, s2, w2) else Inr (better, update_signal env s1 w1, w1))"
    unfolding station_turn_def Let_def l(1) rbind_Inr prod.case better_def[symmetric] s1_def[symmetric] t by simp
  with u try_connection_ok[OF s1 t] show ?thesis by auto
qed

lemma network_down_ok:
  assumes "mgr_ok s" "network_down env b s w = (s', w')"
  shows "mgr_ok s'"
proof -
  obtain m s1 w1 where d: "event_callback env WIFI_CONN_MGR_EVENT_DISCONNECTED
      (ssid_of (connected_ap s) (scan_list s)) True s w = (m, s1, w1)" by (metis prod_cases3)
  obtain m' s1' w1' where e: "event_callback env WIFI_CONN_MGR_EVENT_SOFT_AP_STOPPED
      (Some (soft_ap_ssid s)) True s w = (m', s1', w1')" by (metis prod_cases3)
  have "mgr_ok (s1\<lparr>mode := m\<rparr>)" "mgr_ok (s1'\<lparr>mode := m'\<rparr>)"
    using event_callback_mode(1)[OF d mgr_ok_mode[OF assms(1)]] event_callback_mode(1)[OF e mgr_ok_mode[OF assms(1)]]
    by simp_all
  moreover have "mgr_ok (t\<lparr>connected_ap := None\<rparr>)" if "mgr_ok t" for t
    using that by (simp add: mgr_ok_def)
  ultimately show ?thesis
    using assms d e by (fastforce simp: network_down_def split: if_splits)
qed

text \<open>The functions of the driver and the network that are called until they succeed do so in the end.\<close>

definition retries_end :: "'w wifi_env \<Rightarrow> bool" where
  "retries_end env \<longleftrightarrow>
     (\<forall>w. retry (WIFI_On env) w \<noteq> None \<and> retry (xIPIsNetworkTaskReady env) w \<noteq> None \<and>
          retry (WIFI_StartAP env) w \<noteq> None \<and> retry (WIFI_Reset env) w \<noteq> None)"

lemma conn_mgr_turn_ok:
  assumes ok: "mgr_ok s" and env: "retries_end env"
  shows "\<exists>s' w'. conn_mgr_turn env s w = Some (Inr (s', w')) \<and> mgr_ok s'"
proof -
  have "\<exists>b s1 w1. (if mode s = WIFI_CONN_MGR_MODE_STATION then station_turn env s w else Inr (False, s, w)) =
      Inr (b, s1, w1) \<and> mgr_ok s1"
  proof (cases "mode s = WIFI_CONN_MGR_MODE_STATION")
    case True
    with station_turn_ok[OF ok True, of env w] show ?thesis by auto
  next
    case False
    with ok show ?thesis by (intro exI[of _ False]) simp
  qed
  then obtain b s1 w1 where 1: "(if mode s = WIFI_CONN_MGR_MODE_STATION then station_turn env s w else Inr (False, s, w)) =
      Inr (b, s1, w1)" "mgr_ok s1" by blast
  have "\<exists>s2 w2. (if mode s1 = WIFI_CONN_MGR_MODE_SOFT_AP then soft_ap_turn env s1 w1 else Some (s1, w1)) = Some (s2, w2) \<and>
      mgr_ok s2"
  proof (cases "mode s1 = WIFI_CONN_MGR_MODE_SOFT_AP \<and> \<not> WIFI_IsConnected env w1")
    case True
    obtain w2 where r: "retry (WIFI_StartAP env) (WIFI_ConfigureAP env (soft_ap_params s1) w1) = Some w2"
      using env unfolding retries_end_def by (metis not_None_eq)
    obtain m t w3 where e: "event_callback env WIFI_CONN_MGR_EVENT_SOFT_AP_STARTED (Some (soft_ap_ssid s1)) False s1
        (dhcpd_start env w2) = (m, t, w3)" by (metis prod_cases3)
    with event_callback_report[OF e] True r 1(2) show ?thesis by (simp add: soft_ap_turn_def)
  next
    case False
    with 1(2) show ?thesis by (auto simp: soft_ap_turn_def)
  qed
  then obtain s2 w2 where 2: "(if mode s1 = WIFI_CONN_MGR_MODE_SOFT_AP then soft_ap_turn env s1 w1 else Some (s1, w1)) =
      Some (s2, w2)" "mgr_ok s2" by blast
  obtain bits w3 where n: "notify_wait env w2 = (bits, w3)" by fastforce
  have "\<exists>s' w'. notified env v b s2 w3 = Some (s', w') \<and> mgr_ok s'" for v
  proof (cases "v AND NOTIFY_WIFI_RESET_BM \<noteq> 0")
    case True
    obtain w4 where "retry (WIFI_Reset env) w3 = Some w4" using env unfolding retries_end_def by (metis not_None_eq)
    with True 2(2) show ?thesis by (simp add: notified_def mgr_ok_def)
  next
    case False
    define t where "t = (if v AND NOTIFY_WIFI_PROFILES_UPDATED_BM \<noteq> 0 then reload_profiles env s2 w3 else s2)"
    have t: "mgr_ok t" using 2(2) reset_ok by (auto simp: t_def mgr_ok_def reload_profiles_def)
    obtain u w4 where "network_down env b t w3 = (u, w4)" by fastforce
    with False t network_down_ok[OF t this] show ?thesis by (simp add: notified_def t_def[symmetric] Let_def)
  qed
  with 1 2 n show ?thesis
    by (cases bits) (fastforce simp: conn_mgr_turn_def)+
qed

lemma conn_mgr_turns_ok:
  "mgr_ok s \<Longrightarrow> retries_end env \<Longrightarrow> \<exists>s' w'. conn_mgr_turns env n s w = Some (Inr (s', w')) \<and> mgr_ok s'"
proof (induction n arbitrary: s w)
  case (Suc n)
  from conn_mgr_turn_ok[OF Suc.prems] obtain s1 w1 where "conn_mgr_turn env s w = Some (Inr (s1, w1))" "mgr_ok s1"
    by blast
  with Suc.IH[of s1 w1] Suc.prems(2) show ?case by simp
qed simp

text \<open>
  C37. Whatever the application, the network and other tasks do, the variables of the
  manager's task stay well formed over any number of turns: the cache is consistent,
  connected_ap points into it, the failed attempts are below their bound, and as an access
  point the task has a name and a password that fit their arrays; no assertion fails, and
  the turns end if the driver's functions that are retried succeed in the end.
\<close>

theorem wifi_manager_well_formed:
  assumes "retries_end env"
  shows "\<exists>s w'. wifi_conn_mgr env junk n w = Some (Inr (s, w')) \<and> mgr_ok s"
proof -
  obtain w1 w2 where r: "retry (WIFI_On env) w = Some w1" "retry (xIPIsNetworkTaskReady env) w1 = Some w2"
    using assms unfolding retries_end_def by (metis not_None_eq)
  define s where "s = \<lparr>scan_list = reset_scan_search_list_and_ap_cache (WIFI_NetworkGet env w1),
      connected_ap = None, failed_connection_attempts = 0, mode = WIFI_CONN_MGR_MODE_STATION,
      soft_ap_ssid = fst junk, soft_ap_password = snd junk\<rparr>"
  have ok: "mgr_ok s"
    by (simp add: s_def mgr_ok_def reset_ok MAX_CONNECTION_ATTEMPTS_BEFORE_CALLBACK_def
        WIFI_CONN_MGR_MODE_SOFT_AP_def WIFI_CONN_MGR_MODE_STATION_def)
  obtain m s1 w3 where e: "event_callback env WIFI_CONN_MGR_EVENT_STARTUP None True s w2 = (m, s1, w3)"
    by (metis prod_cases3)
  have "conn_mgr_startup env junk w = Some (s1\<lparr>mode := m\<rparr>, w3)"
    using r e by (simp add: conn_mgr_startup_def s_def Let_def)
  with conn_mgr_turns_ok[OF event_callback_mode(1)[OF e mgr_ok_mode[OF ok]] assms, of n w3] show ?thesis
    by (auto simp: wifi_conn_mgr_def)
qed

text \<open>A world that counts: everything succeeds, there is one profile and one access point, with a weak signal.\<close>

definition sample_env :: "nat wifi_env" where
  "sample_env =
     \<lparr>WIFI_On = (\<lambda>w. (2 < w, w + 1)), WIFI_Reset = (\<lambda>w. (True, w)),
      WIFI_Scan = (\<lambda>w. (Some [\<lparr>res_ssid = [65], ucBSSID = [1, 2, 3, 4, 5, 6], cRSSI = 156, cChannel = 1\<rparr>], w)),
      WIFI_ConnectAP = (\<lambda>_ _ w. (True, w)), WIFI_Disconnect = (\<lambda>w. (True, w)), WIFI_StopAP = (\<lambda>w. (True, w)),
      WIFI_ConfigureAP = (\<lambda>_ w. w), WIFI_StartAP = (\<lambda>w. (True, w)), WIFI_IsConnected = (\<lambda>w. False),
      WIFI_NetworkGet = (\<lambda>_ i. if i = 0 then
         Some \<lparr>cSSID = [65], ucSSIDLength = 1, cPassword = [66], ucPasswordLength = 1, xSecurity = 3\<rparr> else None),
      sl_wfx_get_signal_strength = (\<lambda>_. Some 10), xIPIsNetworkTaskReady = (\<lambda>w. (True, w)),
      event_cb = (\<lambda>_ _ _ w. ((1, replicate 40 65, []), w)), notify_wait = (\<lambda>w. (Some 7, w)),
      dhcpd_start = id, dhcpd_stop = id, notify = (\<lambda>_ w. w)\<rparr>"

lemma sample_retries: "retries_end sample_env"
proof -
  have 1: "retry (\<lambda>w. (True, w)) w \<noteq> None" for w :: nat
    by (subst retry.simps) simp
  have "((snd \<circ> (\<lambda>w. (2 < w, w + 1))) ^^ n) w = w + n" for n w :: nat
    by (induction n) simp_all
  then have "retry (\<lambda>w. (2 < w, w + 1)) w \<noteq> None" for w :: nat
    using retry_ends[of "\<lambda>w. (2 < w, w + 1)" 3 w] by auto
  with 1 show ?thesis by (simp add: retries_end_def sample_env_def)
qed

theorem wifi_manager_well_formed_witness:
  "\<exists>s w'. wifi_conn_mgr sample_env ([0], [0]) 3 0 = Some (Inr (s, w')) \<and> cache_ok (scan_list s)"
  using wifi_manager_well_formed[OF sample_retries, of "([0], [0])" 3 0] by (auto simp: mgr_ok_def)

section \<open>What gets lost\<close>

text \<open>A reset takes all bits of the notification but looks at its own only: an update of the profiles is lost.\<close>

lemma reset_drops_profiles_update:
  assumes "notified env (NOTIFY_WIFI_RESET_BM OR NOTIFY_WIFI_PROFILES_UPDATED_BM) b s w = Some (s', w')"
  shows "scan_list s' = scan_list s"
proof -
  have "(NOTIFY_WIFI_RESET_BM OR NOTIFY_WIFI_PROFILES_UPDATED_BM) AND NOTIFY_WIFI_RESET_BM \<noteq> 0"
    by (simp add: NOTIFY_WIFI_RESET_BM_def NOTIFY_WIFI_PROFILES_UPDATED_BM_def)
  with assms show ?thesis by (auto simp: notified_def)
qed

text \<open>
  An update of the profiles clears the cache under \<open>connected_ap\<close>: the disconnection it comes with is reported
  through a NULL profile, and the entry is soon that of another access point.
\<close>

lemma reload_clears_connected:
  assumes "connected_ap s = Some c" "c < CACHED_AP_COUNT"
  shows "ssid_of (connected_ap s) (scan_list (reload_profiles env s w)) = None"
  using assms by (simp add: ssid_of_def reload_profiles_def reset_scan_search_list_and_ap_cache_def Let_def blank_ap_def)

lemma reload_reuses_connected:
  "bssid (cached_aps (add_result r (scan_list (reload_profiles env s w))) ! 0) = ucBSSID r"
proof -
  let ?l = "scan_list (reload_profiles env s w)"
  have l: "ap_cache_count ?l = 0" "\<And>i. i < CACHED_AP_COUNT \<Longrightarrow> ap_at ?l i = blank_ap" "sorted_aps ?l ! 0 = 0"
    "0 < length (cached_aps ?l)" "0 < CACHED_AP_COUNT"
    by (simp_all add: reload_profiles_def reset_scan_search_list_and_ap_cache_def Let_def ap_at_def
        CACHED_AP_COUNT_def MAX_SCAN_COUNT_def)
  obtain i where f: "List.find (\<lambda>i. age (ap_at ?l i) = 0) [0..<CACHED_AP_COUNT] = Some i" and "i = 0"
  proof (cases "List.find (\<lambda>i. age (ap_at ?l i) = 0) [0..<CACHED_AP_COUNT]")
    case None
    then show ?thesis using l(2,5) by (auto simp: find_None_iff blank_ap_def)
  next
    case (Some i)
    then have "\<forall>j<i. age (ap_at ?l j) \<noteq> 0" "i < CACHED_AP_COUNT" using find_SomeD by blast+
    then have "i = 0" using l(2,5) by (metis blank_ap_def ap_info.select_convs(1) not_gr_zero)
    with Some that show ?thesis by simp
  qed
  have "find_ap_in_cache ?l r = None" using l(1) by (simp add: find_ap_in_cache_def)
  with f \<open>i = 0\<close> l(3,4) show ?thesis by (simp add: add_result_def add_ap_to_cache_def set_ap_def)
qed

text \<open>While the access point cannot be started, the task does not look at a notification that asks for a reset.\<close>

lemma soft_ap_stuck:
  assumes "\<And>w. WIFI_StartAP env w = (False, w)" "\<not> WIFI_IsConnected env w" "mode s = WIFI_CONN_MGR_MODE_SOFT_AP"
  shows "conn_mgr_turn env s w = None"
proof -
  have "(\<forall>w. \<not> fst (f w)) \<longrightarrow> False" if "retry f w' = Some v" for f :: "'a \<Rightarrow> bool \<times> 'a" and w' v
    using that
  proof (rule retry.raw_induct[rotated], goal_cases)
    case (1 g f w v)
    then show ?case by (cases "f w") (auto split: if_splits intro: exI[of _ w])
  qed
  then have "retry (WIFI_StartAP env) w' = None" for w'
    using assms(1) by (metis fst_conv not_None_eq)
  moreover have "mode s \<noteq> WIFI_CONN_MGR_MODE_STATION"
    using assms(3) by (simp add: WIFI_CONN_MGR_MODE_SOFT_AP_def WIFI_CONN_MGR_MODE_STATION_def)
  ultimately show ?thesis using assms(2,3) by (simp add: conn_mgr_turn_def soft_ap_turn_def)
qed

end
