(* ===== verification/Dhcp_Life.thy ===== *)
theory Dhcp_Life
  imports Prelude
begin

text \<open>
  The life of the DHCP server (modules/sw_services/dhcpd/FreeRTOS/dhcpd.c): \<open>dhcpd_start\<close>, \<open>dhcpd_stop\<close> and the
  loop of \<open>dhcpd_listen\<close> as a step relation over the tasks that call and the tasks that serve, and the
  replies to pings. What a turn of the loop does with a message is in \<open>Dhcp_Server\<close>; here it is an access
  to the pool. The sockets are FreeRTOS+TCP's: a task that waits on one is woken by a signal, and not when
  it is closed.
\<close>

section \<open>Replies to pings\<close>

text \<open>
  \<open>ping_reply_queue\<close> has one place, which \<open>xQueueOverwrite\<close> fills; pdFAIL is 0.
\<close>

record pings =
  ping_queue_made :: bool
  ping_reply_queue :: "u16 option"
  ping_number_out :: u16

definition dhcpd_ping_reply_received :: "u16 \<Rightarrow> pings \<Rightarrow> pings" where
  "dhcpd_ping_reply_received ping_number_in s =
     (if ping_queue_made s \<and> ping_number_out s \<noteq> 0 \<and> ping_number_in = ping_number_out s
      then s\<lparr>ping_reply_queue := Some ping_number_in\<rparr> else s)"

lemma ping_reply_kept:
  "ping_queue_made s \<Longrightarrow> ping_number_out s = n \<Longrightarrow> n \<noteq> 0 \<Longrightarrow>
     ping_reply_queue (fold dhcpd_ping_reply_received (ns @ n # ms) s) = Some n"
proof -
  assume a: "ping_queue_made s" "ping_number_out s = n" "n \<noteq> 0"
  have *: "ping_queue_made (fold dhcpd_ping_reply_received xs t) = ping_queue_made t \<and>
      ping_number_out (fold dhcpd_ping_reply_received xs t) = ping_number_out t" for xs t
    by (induction xs arbitrary: t) (auto simp: dhcpd_ping_reply_received_def)
  have keep: "ping_reply_queue t = Some n \<Longrightarrow> ping_number_out t = n \<Longrightarrow>
      ping_reply_queue (fold dhcpd_ping_reply_received xs t) = Some n" for xs t
    by (induction xs arbitrary: t) (auto simp: dhcpd_ping_reply_received_def)
  let ?t = "fold dhcpd_ping_reply_received ns s"
  have "dhcpd_ping_reply_received n ?t = ?t\<lparr>ping_reply_queue := Some n\<rparr>"
    using a *[of ns s] by (simp add: dhcpd_ping_reply_received_def)
  moreover have "ping_number_out ?t = n" using a *[of ns s] by simp
  ultimately show ?thesis using keep[of "?t\<lparr>ping_reply_queue := Some n\<rparr>" ms] by simp
qed

text \<open>
  The number of a ping is stored when \<open>FreeRTOS_SendPingRequest\<close> has returned: a reply that comes before is
  taken for one to an earlier ping and dropped.
\<close>

lemma early_ping_reply_dropped:
  "ping_number_out s \<noteq> n \<Longrightarrow>
     ping_reply_queue ((dhcpd_ping_reply_received n s)\<lparr>ping_number_out := n\<rparr>) = ping_reply_queue s"
  by (auto simp: dhcpd_ping_reply_received_def)

section \<open>Start and stop\<close>

text \<open>
  A server task: created, at the loop's condition, in recvfrom, back from it (with EINTR or not), with the
  lock, and after its message. A caller: between calls, in \<open>dhcpd_start\<close> with the lock and before it is given
  back, in \<open>dhcpd_stop\<close> before the signal, before the lock is taken, and with it.
\<close>

datatype server_pc =
    S_none | S_boot | S_loop | S_receive | S_received bool | S_locked bool | S_release | S_gone

datatype caller_pc = C_idle | C_start | C_release | C_stop_signal | C_stop_lock | C_stop_check

datatype holder = Server nat | Caller nat

text \<open>
  \<open>pool_fault\<close>: a message was handled, or the pool freed, when there was no pool; \<open>freed_pool_read\<close>: the
  expiry check read the pool when there was none. \<open>stopped_when_due\<close> records that a turn closed the socket
  when the check was due.
\<close>

record life =
  socket_open :: bool
  signalled :: bool
  pool :: bool
  dhcpd_lock :: "holder option"
  server :: "nat \<Rightarrow> server_pc"
  caller :: "nat \<Rightarrow> caller_pc"
  next_server :: nat
  pool_fault :: bool
  freed_pool_read :: bool
  stopped_when_due :: bool
  bad_signal :: bool

definition server_to :: "nat \<Rightarrow> server_pc \<Rightarrow> life \<Rightarrow> life" where
  "server_to t p s = s\<lparr>server := (server s)(t := p)\<rparr>"

definition caller_to :: "nat \<Rightarrow> caller_pc \<Rightarrow> life \<Rightarrow> life" where
  "caller_to c p s = s\<lparr>caller := (caller s)(c := p)\<rparr>"

definition alive :: "server_pc \<Rightarrow> bool" where
  "alive p \<longleftrightarrow> p \<noteq> S_none \<and> p \<noteq> S_gone"

text \<open>
  The turn of a server that has the lock: it closes the socket and frees the pool, or uses the pool. Then,
  in either case, it looks for expired leases in the pool if a refresh interval has passed (\<open>due\<close>).
\<close>

definition take_message :: "bool \<Rightarrow> life \<Rightarrow> life" where
  "take_message eintr s =
     (if eintr then s\<lparr>socket_open := False, pool := False, pool_fault := (pool_fault s \<or> \<not> pool s)\<rparr>
      else s\<lparr>pool_fault := (pool_fault s \<or> \<not> pool s)\<rparr>)"

definition check_expired :: "bool \<Rightarrow> life \<Rightarrow> life" where
  "check_expired due s = (if due then s\<lparr>freed_pool_read := (freed_pool_read s \<or> \<not> pool s)\<rparr> else s)"

definition listen_turn :: "nat \<Rightarrow> bool \<Rightarrow> bool \<Rightarrow> life \<Rightarrow> life" where
  "listen_turn t eintr due s =
     server_to t S_release
       ((check_expired due (take_message eintr s))\<lparr>stopped_when_due := (stopped_when_due s \<or> eintr \<and> due)\<rparr>)"

text \<open>The body of \<open>dhcpd_start\<close> under the lock.\<close>

definition start_body :: "nat \<Rightarrow> life \<Rightarrow> life" where
  "start_body c s =
     caller_to c C_release
       (if \<not> socket_open s then
          server_to (next_server s) S_boot
            (s\<lparr>pool := True, socket_open := True, signalled := False, next_server := next_server s + 1\<rparr>)
        else s)"

text \<open>
  With \<open>waits\<close>, \<open>dhcpd_start\<close> is called only when the server task of an earlier start has ended. The assertion
  of a new server that the socket is open is a \<open>pool_fault\<close> too.
\<close>

inductive life_step :: "bool \<Rightarrow> life \<Rightarrow> life \<Rightarrow> bool" for waits where
  start_lock: "caller s c = C_idle \<Longrightarrow> dhcpd_lock s = None \<Longrightarrow>
    life_step waits s (caller_to c C_start (s\<lparr>dhcpd_lock := Some (Caller c)\<rparr>))"
| start: "caller s c = C_start \<Longrightarrow> waits \<Longrightarrow> \<not> socket_open s \<Longrightarrow> \<forall>t. \<not> alive (server s t) \<Longrightarrow>
    life_step waits s (start_body c s)"
| start_any: "caller s c = C_start \<Longrightarrow> \<not> waits \<or> socket_open s \<Longrightarrow> life_step waits s (start_body c s)"
| start_release: "caller s c = C_release \<Longrightarrow>
    life_step waits s (caller_to c C_idle (s\<lparr>dhcpd_lock := None\<rparr>))"
| stop: "caller s c = C_idle \<Longrightarrow> socket_open s \<Longrightarrow> life_step waits s (caller_to c C_stop_signal s)"
| stop_signal: "caller s c = C_stop_signal \<Longrightarrow>
    life_step waits s (caller_to c C_stop_lock
      (if socket_open s then s\<lparr>signalled := True\<rparr> else s\<lparr>bad_signal := True\<rparr>))"
| stop_lock: "caller s c = C_stop_lock \<Longrightarrow> dhcpd_lock s = None \<Longrightarrow>
    life_step waits s (caller_to c C_stop_check (s\<lparr>dhcpd_lock := Some (Caller c)\<rparr>))"
| stop_check: "caller s c = C_stop_check \<Longrightarrow>
    life_step waits s (caller_to c (if socket_open s then C_stop_lock else C_idle) (s\<lparr>dhcpd_lock := None\<rparr>))"
| boot: "server s t = S_boot \<Longrightarrow>
    life_step waits s (server_to t S_loop (s\<lparr>pool_fault := (pool_fault s \<or> \<not> socket_open s)\<rparr>))"
| loop: "server s t = S_loop \<Longrightarrow> life_step waits s (server_to t (if socket_open s then S_receive else S_gone) s)"
| message: "server s t = S_receive \<Longrightarrow> socket_open s \<Longrightarrow> life_step waits s (server_to t (S_received False) s)"
| interrupted: "server s t = S_receive \<Longrightarrow> socket_open s \<Longrightarrow> signalled s \<Longrightarrow>
    life_step waits s (server_to t (S_received True) (s\<lparr>signalled := False\<rparr>))"
| server_lock: "server s t = S_received e \<Longrightarrow> dhcpd_lock s = None \<Longrightarrow>
    life_step waits s (server_to t (S_locked e) (s\<lparr>dhcpd_lock := Some (Server t)\<rparr>))"
| turn: "server s t = S_locked e \<Longrightarrow> life_step waits s (listen_turn t e due s)"
| release: "server s t = S_release \<Longrightarrow> life_step waits s (server_to t S_loop (s\<lparr>dhcpd_lock := None\<rparr>))"

definition life_boot :: life where
  "life_boot =
     \<lparr>socket_open = False, signalled = False, pool = False, dhcpd_lock = None, server = (\<lambda>_. S_none),
      caller = (\<lambda>_. C_idle), next_server = 0, pool_fault = False,
      freed_pool_read = False, stopped_when_due = False, bad_signal = False\<rparr>"

section \<open>One server\<close>

definition locks_server :: "server_pc \<Rightarrow> bool" where
  "locks_server p \<longleftrightarrow> (\<exists>e. p = S_locked e) \<or> p = S_release"

definition locks_caller :: "caller_pc \<Rightarrow> bool" where
  "locks_caller p \<longleftrightarrow> p = C_start \<or> p = C_release \<or> p = C_stop_check"

text \<open>A server that has not yet seen that the socket is closed is one that closed it.\<close>

definition serves :: "server_pc \<Rightarrow> bool" where
  "serves p \<longleftrightarrow> alive p \<and> p \<noteq> S_release \<and> p \<noteq> S_loop"

definition life_inv :: "life \<Rightarrow> bool" where
  "life_inv s \<longleftrightarrow>
     (\<forall>t u. alive (server s t) \<and> alive (server s u) \<longrightarrow> t = u) \<and>
     (\<forall>t. next_server s \<le> t \<longrightarrow> server s t = S_none) \<and>
     (\<forall>t. serves (server s t) \<longrightarrow> socket_open s) \<and> (pool s \<longleftrightarrow> socket_open s) \<and>
     (\<forall>t. locks_server (server s t) \<longleftrightarrow> dhcpd_lock s = Some (Server t)) \<and>
     (\<forall>c. locks_caller (caller s c) \<longleftrightarrow> dhcpd_lock s = Some (Caller c)) \<and>
     (socket_open s \<longrightarrow> (\<exists>t. alive (server s t))) \<and> \<not> pool_fault s \<and>
     (freed_pool_read s \<longleftrightarrow> stopped_when_due s)"

lemmas pc_defs = alive_def serves_def locks_server_def locks_caller_def

lemma life_inv_boot: "life_inv life_boot"
  by (simp add: life_inv_def life_boot_def pc_defs)

lemma server_simps [simp]:
  "server (server_to t p s) u = (if u = t then p else server s u)" "caller (server_to t p s) = caller s"
  "socket_open (server_to t p s) = socket_open s" "pool (server_to t p s) = pool s"
  "dhcpd_lock (server_to t p s) = dhcpd_lock s" "next_server (server_to t p s) = next_server s"
  "pool_fault (server_to t p s) = pool_fault s" "freed_pool_read (server_to t p s) = freed_pool_read s"
  "stopped_when_due (server_to t p s) = stopped_when_due s"
  by (simp_all add: server_to_def)

lemma caller_simps [simp]:
  "caller (caller_to c q s) d = (if d = c then q else caller s d)" "server (caller_to c q s) = server s"
  "socket_open (caller_to c q s) = socket_open s" "pool (caller_to c q s) = pool s"
  "dhcpd_lock (caller_to c q s) = dhcpd_lock s" "next_server (caller_to c q s) = next_server s"
  "pool_fault (caller_to c q s) = pool_fault s" "freed_pool_read (caller_to c q s) = freed_pool_read s"
  "stopped_when_due (caller_to c q s) = stopped_when_due s"
  by (simp_all add: caller_to_def)

lemma life_invD:
  assumes "life_inv s"
  shows "serves (server s t) \<Longrightarrow> socket_open s" "pool s = socket_open s" "\<not> pool_fault s"
    "freed_pool_read s = stopped_when_due s"
  using assms by (auto simp: life_inv_def)

text \<open>A step of the server, which is the only one, and what it has to see to.\<close>

lemma server_moves:
  assumes inv: "life_inv s" and t: "alive (server s t)"
    and same: "server s1 = server s" "caller s1 = caller s" "next_server s1 = next_server s"
    and q: "serves q \<Longrightarrow> socket_open s1" "pool s1 = socket_open s1" "\<not> pool_fault s1" "socket_open s1 \<Longrightarrow> alive q"
      "q \<noteq> S_none" "freed_pool_read s1 = stopped_when_due s1"
    and lock: "locks_server q = locks_server (server s t) \<and> dhcpd_lock s1 = dhcpd_lock s \<or>
      locks_server q \<and> \<not> locks_server (server s t) \<and> dhcpd_lock s = None \<and> dhcpd_lock s1 = Some (Server t) \<or>
      \<not> locks_server q \<and> locks_server (server s t) \<and> dhcpd_lock s1 = None"
  shows "life_inv (server_to t q s1)"
proof -
  have only: "u = t" if "alive (server s u)" for u using inv t that unfolding life_inv_def by blast
  have "locks_server (server s u) \<Longrightarrow> alive (server s u)" "serves (server s u) \<Longrightarrow> alive (server s u)" for u
    by (auto simp: pc_defs)
  with only have other: "\<not> locks_server (server s u)" "\<not> serves (server s u)" if "u \<noteq> t" for u using that by blast+
  have l: "locks_server (server s u) \<longleftrightarrow> dhcpd_lock s = Some (Server u)"
    "locks_caller (caller s c) \<longleftrightarrow> dhcpd_lock s = Some (Caller c)" for u c
    using inv unfolding life_inv_def by blast+
  have "t < next_server s" using inv t unfolding life_inv_def alive_def by (meson leI)
  moreover have "\<forall>v. next_server s \<le> v \<longrightarrow> server s v = S_none" using inv unfolding life_inv_def by blast
  moreover have "locks_server (if u = t then q else server s u) \<longleftrightarrow> dhcpd_lock s1 = Some (Server u)" for u
    using lock l(1)[of u] l(1)[of t] other(1)[of u] by auto
  moreover have "locks_caller (caller s c) \<longleftrightarrow> dhcpd_lock s1 = Some (Caller c)" for c
    using lock l(2)[of c] l(1)[of t] by auto
  ultimately show ?thesis
    unfolding life_inv_def server_simps same using only other(2) q by auto
qed

lemma caller_moves:
  assumes inv: "life_inv s"
    and same: "server s1 = server s" "caller s1 = caller s" "next_server s1 = next_server s"
      "socket_open s1 = socket_open s" "pool s1 = pool s" "pool_fault s1 = pool_fault s"
      "freed_pool_read s1 = freed_pool_read s" "stopped_when_due s1 = stopped_when_due s"
    and lock: "locks_caller q = locks_caller (caller s c) \<and> dhcpd_lock s1 = dhcpd_lock s \<or>
      locks_caller q \<and> \<not> locks_caller (caller s c) \<and> dhcpd_lock s = None \<and> dhcpd_lock s1 = Some (Caller c) \<or>
      \<not> locks_caller q \<and> locks_caller (caller s c) \<and> dhcpd_lock s1 = None"
  shows "life_inv (caller_to c q s1)"
proof -
  have l: "locks_server (server s u) \<longleftrightarrow> dhcpd_lock s = Some (Server u)"
    "locks_caller (caller s d) \<longleftrightarrow> dhcpd_lock s = Some (Caller d)" for u d
    using inv unfolding life_inv_def by blast+
  have "locks_server (server s u) \<longleftrightarrow> dhcpd_lock s1 = Some (Server u)" for u
    using lock l(1)[of u] l(2)[of c] by auto
  moreover have "locks_caller (if d = c then q else caller s d) \<longleftrightarrow> dhcpd_lock s1 = Some (Caller d)" for d
    using lock l(2)[of d] l(2)[of c] by auto
  ultimately show ?thesis using inv unfolding life_inv_def caller_simps same by blast
qed

lemma life_inv_start:
  assumes inv: "life_inv s" and c: "caller s c = C_start" and none: "socket_open s \<or> (\<forall>t. \<not> alive (server s t))"
  shows "life_inv (start_body c s)"
proof (cases "socket_open s")
  case True
  with inv c show ?thesis by (simp add: start_body_def) (rule caller_moves[OF inv], simp_all add: c locks_caller_def)
next
  case False
  let ?s = "server_to (next_server s) S_boot
      (s\<lparr>pool := True, socket_open := True, signalled := False, next_server := next_server s + 1\<rparr>)"
  have dead: "\<not> alive (server s t)" for t using none False by blast
  have idle: "\<not> serves (server s t)" "\<not> locks_server (server s t)" for t
    using dead[of t] by (cases "server s t"; simp add: pc_defs)+
  have old: "\<forall>t. next_server s \<le> t \<longrightarrow> server s t = S_none" "\<not> pool_fault s" "freed_pool_read s = stopped_when_due s"
    and lock: "\<forall>c. locks_caller (caller s c) \<longleftrightarrow> dhcpd_lock s = Some (Caller c)"
    using inv unfolding life_inv_def by blast+
  have "locks_caller (caller s c)" using c by (simp add: locks_caller_def)
  then have "dhcpd_lock s = Some (Caller c)" using lock by blast
  moreover have new: "server ?s t = (if t = next_server s then S_boot else server s t)" for t by simp
  moreover have "alive S_boot" "\<not> locks_server S_boot" by (simp_all add: pc_defs)
  ultimately have "life_inv ?s"
    unfolding life_inv_def new using dead idle old lock by simp
  then have "life_inv (caller_to c C_release ?s)"
    by (rule caller_moves) (simp_all add: c locks_caller_def)
  with False show ?thesis by (simp add: start_body_def)
qed

lemma life_inv_step:
  assumes "life_step True s s'" "life_inv s"
  shows "life_inv s'"
  using assms
proof cases
  case (start_lock c)
  then show ?thesis using caller_moves[OF assms(2)] by (simp add: locks_caller_def)
next
  case (start c)
  then show ?thesis using life_inv_start[OF assms(2)] by simp
next
  case (start_any c)
  then show ?thesis using life_inv_start[OF assms(2)] by simp
next
  case (start_release c)
  then show ?thesis using caller_moves[OF assms(2)] by (simp add: locks_caller_def)
next
  case (stop c)
  then show ?thesis using caller_moves[OF assms(2)] by (simp add: locks_caller_def)
next
  case (stop_signal c)
  then show ?thesis using caller_moves[OF assms(2)] by (simp add: locks_caller_def)
next
  case (stop_lock c)
  then show ?thesis using caller_moves[OF assms(2)] by (simp add: locks_caller_def)
next
  case (stop_check c)
  then show ?thesis using caller_moves[OF assms(2)] by (simp add: locks_caller_def)
next
  case (boot t)
  with life_invD(1)[OF assms(2), of t] life_invD(2,3,4)[OF assms(2)] server_moves[OF assms(2), of t] show ?thesis by (simp add: pc_defs)
next
  case (loop t)
  show ?thesis
  proof (cases "socket_open s")
    case True
    with loop life_invD[OF assms(2)] show ?thesis by (simp add: server_moves[OF assms(2)] pc_defs)
  next
    case False
    have "life_inv (server_to t S_gone s)"
      by (rule server_moves[OF assms(2)]) (use False loop life_invD(2,3,4)[OF assms(2)] in \<open>simp_all add: pc_defs\<close>)
    with loop False show ?thesis by simp
  qed
next
  case (message t)
  with life_invD(1)[OF assms(2), of t] life_invD(2,3,4)[OF assms(2)] server_moves[OF assms(2), of t] show ?thesis by (simp add: pc_defs)
next
  case (interrupted t)
  with life_invD(1)[OF assms(2), of t] life_invD(2,3,4)[OF assms(2)] server_moves[OF assms(2), of t] show ?thesis by (simp add: pc_defs)
next
  case (server_lock t e)
  with life_invD(1)[OF assms(2), of t] life_invD(2,3,4)[OF assms(2)] server_moves[OF assms(2), of t] show ?thesis by (simp add: pc_defs)
next
  case (turn t e due)
  have open': "socket_open s" by (rule life_invD(1)[OF assms(2), of t]) (simp add: turn pc_defs)
  have "life_inv (listen_turn t e due s)"
    unfolding listen_turn_def take_message_def check_expired_def
    by (cases e; cases due; simp; rule server_moves[OF assms(2)])
      (use open' turn life_invD(2,3,4)[OF assms(2)] in \<open>auto simp: pc_defs\<close>)
  with turn show ?thesis by simp
next
  case (release t)
  have "life_inv (server_to t S_loop (s\<lparr>dhcpd_lock := None\<rparr>))"
    by (rule server_moves[OF assms(2)]) (use release life_invD(2,3,4)[OF assms(2)] in \<open>auto simp: pc_defs\<close>)
  with release show ?thesis by simp
qed

interpretation life: state_machine life_boot "life_step True" life_inv
  by unfold_locales (auto intro: life_inv_boot life_inv_step)


section \<open>Two servers\<close>

text \<open>
  The first server has closed its socket and given the lock back when
  a second start opens a new one; it then finds a socket open and goes on beside the second server.
\<close>

lemma life_steps:
  "(life_step waits)\<^sup>*\<^sup>* a s \<Longrightarrow> life_step waits s s' \<Longrightarrow> (life_step waits)\<^sup>*\<^sup>* a s'"
  by (rule rtranclp.rtrancl_into_rtrancl)

lemma called_start:
  assumes "(life_step False)\<^sup>*\<^sup>* a s" "caller s c = C_idle" "dhcpd_lock s = None" "\<not> socket_open s"
  shows "\<exists>s'. (life_step False)\<^sup>*\<^sup>* a s' \<and> caller s' c = C_idle \<and> dhcpd_lock s' = None \<and> socket_open s' \<and>
    \<not> signalled s' \<and> server s' = (server s)(next_server s := S_boot) \<and> next_server s' = next_server s + 1"
proof -
  let ?s1 = "caller_to c C_start (s\<lparr>dhcpd_lock := Some (Caller c)\<rparr>)"
  let ?s2 = "start_body c ?s1"
  let ?s3 = "caller_to c C_idle (?s2\<lparr>dhcpd_lock := None\<rparr>)"
  have "life_step False s ?s1" by (rule life_step.start_lock[OF assms(2,3)])
  moreover have "life_step False ?s1 ?s2" by (rule life_step.start_any) simp_all
  moreover have "life_step False ?s2 ?s3" by (rule life_step.start_release) (simp add: start_body_def)
  ultimately have "(life_step False)\<^sup>*\<^sup>* a ?s3" using assms(1) by (meson life_steps)
  then show ?thesis
    using assms(4) by (intro exI[of _ ?s3]) (simp add: start_body_def server_to_def caller_to_def)
qed

lemma called_stop:
  assumes "(life_step False)\<^sup>*\<^sup>* a s" "caller s c = C_idle" "socket_open s" "dhcpd_lock s = None"
    and "server s t = S_boot"
  shows "\<exists>s'. (life_step False)\<^sup>*\<^sup>* a s' \<and> caller s' c = C_idle \<and> dhcpd_lock s' = None \<and> \<not> socket_open s' \<and>
    server s' = (server s)(t := S_loop) \<and> next_server s' = next_server s"
proof -
  let ?s1 = "server_to t S_loop (s\<lparr>pool_fault := (pool_fault s \<or> \<not> socket_open s)\<rparr>)"
  let ?s2 = "server_to t (if socket_open ?s1 then S_receive else S_gone) ?s1"
  let ?s3 = "caller_to c C_stop_signal ?s2"
  let ?s4 = "caller_to c C_stop_lock (if socket_open ?s3 then ?s3\<lparr>signalled := True\<rparr> else ?s3\<lparr>bad_signal := True\<rparr>)"
  let ?s5 = "server_to t (S_received True) (?s4\<lparr>signalled := False\<rparr>)"
  let ?s6 = "server_to t (S_locked True) (?s5\<lparr>dhcpd_lock := Some (Server t)\<rparr>)"
  let ?s7 = "listen_turn t True False ?s6"
  let ?s8 = "server_to t S_loop (?s7\<lparr>dhcpd_lock := None\<rparr>)"
  let ?s9 = "caller_to c C_stop_check (?s8\<lparr>dhcpd_lock := Some (Caller c)\<rparr>)"
  let ?s10 = "caller_to c (if socket_open ?s9 then C_stop_lock else C_idle) (?s9\<lparr>dhcpd_lock := None\<rparr>)"
  have "life_step False s ?s1" by (rule life_step.boot[OF assms(5)])
  moreover have "life_step False ?s1 ?s2" by (rule life_step.loop) simp
  moreover have "life_step False ?s2 ?s3" by (rule life_step.stop) (simp_all add: assms)
  moreover have "life_step False ?s3 ?s4" by (rule life_step.stop_signal) simp
  moreover have "life_step False ?s4 ?s5" by (rule life_step.interrupted) (simp_all add: assms caller_to_def)
  moreover have "life_step False ?s5 ?s6" by (rule life_step.server_lock) (simp_all add: assms)
  moreover have "life_step False ?s6 ?s7" by (rule life_step.turn) simp
  moreover have "life_step False ?s7 ?s8" by (rule life_step.release) (simp add: listen_turn_def take_message_def check_expired_def)
  moreover have "life_step False ?s8 ?s9" by (rule life_step.stop_lock) (simp_all add: listen_turn_def take_message_def check_expired_def assms)
  moreover have "life_step False ?s9 ?s10" by (rule life_step.stop_check) simp
  ultimately have "(life_step False)\<^sup>*\<^sup>* a ?s10" using assms(1) by (meson life_steps)
  then show ?thesis
    by (intro exI[of _ ?s10]) (simp add: listen_turn_def take_message_def check_expired_def server_to_def caller_to_def assms)
qed

lemma restart_makes_two_servers:
  "\<exists>s. (life_step False)\<^sup>*\<^sup>* life_boot s \<and> server s 0 = S_receive \<and> server s 1 = S_receive"
proof -
  have "(life_step False)\<^sup>*\<^sup>* life_boot life_boot" by simp
  from called_start[OF this, of 7] obtain a where
    a: "(life_step False)\<^sup>*\<^sup>* life_boot a" "caller a 7 = C_idle" "dhcpd_lock a = None" "socket_open a" "server a 0 = S_boot"
      "next_server a = 1"
    by (auto simp: life_boot_def)
  from called_stop[OF a(1,2,4,3,5)] a obtain b where
    b: "(life_step False)\<^sup>*\<^sup>* life_boot b" "caller b 7 = C_idle" "dhcpd_lock b = None" "\<not> socket_open b" "server b 0 = S_loop"
      "next_server b = 1"
    by auto
  from called_start[OF b(1-4)] b obtain d where
    d: "(life_step False)\<^sup>*\<^sup>* life_boot d" "socket_open d" "server d 0 = S_loop" "server d 1 = S_boot"
    by (auto simp del: One_nat_def)
  let ?e = "server_to 0 (if socket_open d then S_receive else S_gone) d"
  let ?f = "server_to 1 S_loop (?e\<lparr>pool_fault := (pool_fault ?e \<or> \<not> socket_open ?e)\<rparr>)"
  let ?g = "server_to 1 (if socket_open ?f then S_receive else S_gone) ?f"
  have "life_step False d ?e" by (rule life_step.loop[OF d(3)])
  moreover have "life_step False ?e ?f" by (rule life_step.boot) (simp add: d del: One_nat_def)
  moreover have "life_step False ?f ?g" by (rule life_step.loop) simp
  ultimately have "(life_step False)\<^sup>*\<^sup>* life_boot ?g" using d(1) by (meson life_steps)
  then show ?thesis using d by (intro exI[of _ ?g]) (simp del: One_nat_def)
qed

text \<open>
  The test of \<open>dhcpd_stop\<close> for the socket is made without the lock: of two tasks that stop the server the second
  can signal a socket that is closed.
\<close>

lemma stop_tests_without_lock:
  assumes "caller s c = C_idle" "socket_open s"
  shows "life_step w s (caller_to c C_stop_signal s)"
    "\<not> socket_open t \<Longrightarrow> caller t c = C_stop_signal \<Longrightarrow> \<exists>t'. life_step w t t' \<and> bad_signal t'"
proof -
  show "life_step w s (caller_to c C_stop_signal s)" using assms by (rule life_step.stop)
  show "\<exists>t'. life_step w t t' \<and> bad_signal t'" if "\<not> socket_open t" "caller t c = C_stop_signal"
    using life_step.stop_signal[OF that(2), of w] that(1) by (auto simp: caller_to_def)
qed


end
