(* ===== verification/Qspi_Ll.thy ===== *)
theory Qspi_Ll
  imports Qspi_Driver Qspi_Lock
begin

text \<open>
  The start of the QSPI flash driver, and the hand-over of the device to low-level fast reads
  (\<open>rtos_qspi_flash_fast_read_setup_ll\<close> and \<open>rtos_qspi_flash_fast_read_shutdown_ll\<close> of
  modules/drivers/qspi_flash/src/rtos_qspi_flash.c): the operation thread is asked through its queue to
  step back, and resumed afterwards. vTaskResume has no effect on a task that is not suspended.
\<close>

section \<open>The device\<close>

definition ll_setup_device :: "'d flash_api \<Rightarrow> 'd \<Rightarrow> 'd" where
  "ll_setup_device api d = fast_read_setup api d"

definition ll_shutdown_device :: "'d flash_api \<Rightarrow> 'd \<Rightarrow> flash_op \<times> 'd" where
  "ll_shutdown_device api d = (FLASH_OP_NONE, fast_read_shutdown api d)"

text \<open>After low-level reads the device is as the operation thread expects it with no last operation.\<close>

lemma ll_reads_leave_idle:
  assumes m: "modes_ok api v mode decode fs" and "mode d = Idle"
  shows "mode (snd (ll_shutdown_device api (ll_setup_device api d))) = Idle \<and>
    same_cells v d (snd (ll_shutdown_device api (ll_setup_device api d)))"
proof -
  have 1: "mode (fast_read_setup api d) = Fast" "same_cells v d (fast_read_setup api d)"
    using m assms(2) by (simp_all add: modes_ok_def)
  with m have "mode (fast_read_shutdown api (fast_read_setup api d)) = Idle"
    "same_cells v (fast_read_setup api d) (fast_read_shutdown api (fast_read_setup api d))"
    by (simp_all add: modes_ok_def)
  with 1 show ?thesis by (simp add: ll_shutdown_device_def ll_setup_device_def same_cells_def)
qed

text \<open>After an operation of the flash library the thread disconnects it first, the low-level setup does not.\<close>

lemma ll_setup_keeps_connection:
  "op_prepare api FLASH_OP_READ FLASH_OP_READ_FAST_RAW d = Inr (fast_read_setup api (fl_disconnect api d))"
  "ll_setup_device api d = fast_read_setup api d"
  by (simp_all add: op_prepare_def is_fast_def ll_setup_device_def)

section \<open>The hand-over\<close>

text \<open>
  The operation thread: waiting for a request, executing one, after it has cleared the flag, suspended. A
  task that reads at low level: elsewhere, about to send, waiting for the flag, using the device; every task
  may call the setup, and all share the flag. The queue holds whether a request is the setup. In a run that is
  \<open>alone\<close> a task starts a setup only while no other is between its setup and its shutdown; nothing in
  the code enforces it.
\<close>

datatype op_pc = Op_wait | Op_execute | Op_flagged | Op_suspended
datatype ll_pc = Ll_idle | Ll_send | Ll_wait | Ll_using

record ll_state =
  op_queue :: "bool list"
  ll_req_flag :: bool
  op_pc :: op_pc
  ll_pc :: "nat \<Rightarrow> ll_pc"

text \<open>What \<open>rtos_qspi_flash_start\<close> creates: the mutex, the queue of two requests, the semaphore and the thread.\<close>

definition ll_started :: ll_state where
  "ll_started = \<lparr>op_queue = [], ll_req_flag = False, op_pc = Op_wait, ll_pc = \<lambda>_. Ll_idle\<rparr>"

definition rtos_qspi_flash_start :: "lock_state \<times> read_state \<times> ll_state" where
  "rtos_qspi_flash_start = (unlocked, no_reads, ll_started)"

definition rtos_qspi_flash_op_core_affinity_set :: "u32 \<Rightarrow> u32" where
  "rtos_qspi_flash_op_core_affinity_set op_core_mask = NOT op_core_mask"

inductive ll_step :: "bool \<Rightarrow> ll_state \<Rightarrow> ll_state \<Rightarrow> bool" for alone :: bool where
  request: "length (op_queue s) < 2 \<Longrightarrow> ll_step alone s (s\<lparr>op_queue := op_queue s @ [False]\<rparr>)"
| ask: "ll_pc s u = Ll_idle \<Longrightarrow> (alone \<Longrightarrow> \<forall>v. ll_pc s v = Ll_idle) \<Longrightarrow>
    ll_step alone s (s\<lparr>ll_req_flag := True, ll_pc := (ll_pc s)(u := Ll_send)\<rparr>)"
| setup_send: "ll_pc s u = Ll_send \<Longrightarrow> length (op_queue s) < 2 \<Longrightarrow>
    ll_step alone s (s\<lparr>op_queue := op_queue s @ [True], ll_pc := (ll_pc s)(u := Ll_wait)\<rparr>)"
| setup_done: "ll_pc s u = Ll_wait \<Longrightarrow> \<not> ll_req_flag s \<Longrightarrow>
    ll_step alone s (s\<lparr>ll_pc := (ll_pc s)(u := Ll_using)\<rparr>)"
| shutdown: "ll_pc s u = Ll_using \<Longrightarrow>
    ll_step alone s (s\<lparr>ll_pc := (ll_pc s)(u := Ll_idle),
      op_pc := (if op_pc s = Op_suspended then Op_wait else op_pc s)\<rparr>)"
| receive: "op_pc s = Op_wait \<Longrightarrow> op_queue s = False # q \<Longrightarrow>
    ll_step alone s (s\<lparr>op_queue := q, op_pc := Op_execute\<rparr>)"
| executed: "op_pc s = Op_execute \<Longrightarrow> ll_step alone s (s\<lparr>op_pc := Op_wait\<rparr>)"
| receive_setup: "op_pc s = Op_wait \<Longrightarrow> op_queue s = True # q \<Longrightarrow>
    ll_step alone s (s\<lparr>op_queue := q, ll_req_flag := False, op_pc := Op_flagged\<rparr>)"
| suspend: "op_pc s = Op_flagged \<Longrightarrow> ll_step alone s (s\<lparr>op_pc := Op_suspended\<rparr>)"

definition stepped_back :: "op_pc \<Rightarrow> bool" where
  "stepped_back p \<longleftrightarrow> p = Op_flagged \<or> p = Op_suspended"

definition asked :: "ll_state \<Rightarrow> bool" where
  "asked s \<longleftrightarrow> ll_req_flag s \<and> (\<exists>u. ll_pc s u = Ll_wait)"

definition ll_inv :: "ll_state \<Rightarrow> bool" where
  "ll_inv s \<longleftrightarrow>
     (\<forall>u v. ll_pc s u \<noteq> Ll_idle \<longrightarrow> ll_pc s v \<noteq> Ll_idle \<longrightarrow> u = v) \<and>
     count_list (op_queue s) True = of_bool (asked s) \<and>
     (\<forall>u. ll_pc s u = Ll_wait \<and> \<not> ll_req_flag s \<or> ll_pc s u = Ll_using \<longrightarrow> stepped_back (op_pc s)) \<and>
     (\<forall>u. ll_pc s u = Ll_send \<longrightarrow> ll_req_flag s)"

lemma ll_inv_one_user:
  assumes "ll_inv s" and "ll_pc s u \<noteq> Ll_idle"
  shows "(\<exists>v. ll_pc s v = p) \<longleftrightarrow> ll_pc s u = p \<or> p = Ll_idle \<and> (\<exists>v. v \<noteq> u)"
    and "v \<noteq> u \<Longrightarrow> ll_pc s v = Ll_idle"
  using assms unfolding ll_inv_def by metis+

lemma ll_inv_step:
  assumes "ll_step True s s'" "ll_inv s"
  shows "ll_inv s'"
  using assms
proof cases
  case (ask u)
  then show ?thesis using assms(2) by (simp add: ll_inv_def asked_def)
next
  case (setup_send u)
  then have "\<And>v. v \<noteq> u \<Longrightarrow> ll_pc s v = Ll_idle" using ll_inv_one_user(2) [OF assms(2), of u] by simp
  then have "\<not> (\<exists>v. ll_pc s v = Ll_wait)" using setup_send(2) by (metis ll_pc.distinct)
  with setup_send show ?thesis using assms(2) by (auto simp: ll_inv_def asked_def)
next
  case (setup_done u)
  then have "\<And>v. v \<noteq> u \<Longrightarrow> ll_pc s v = Ll_idle" using ll_inv_one_user(2) [OF assms(2), of u] by simp
  with setup_done show ?thesis using assms(2) by (auto simp: ll_inv_def asked_def)
next
  case (shutdown u)
  then have "\<And>v. v \<noteq> u \<Longrightarrow> ll_pc s v = Ll_idle" using ll_inv_one_user(2) [OF assms(2), of u] by simp
  then have pcs: "\<And>v. ((ll_pc s)(u := Ll_idle)) v = Ll_idle" by simp
  moreover have "\<not> asked s" using pcs shutdown(2) by (metis asked_def fun_upd_apply ll_pc.distinct)
  ultimately show ?thesis using assms(2) shutdown(1) by (simp add: ll_inv_def asked_def)
next
  case (receive_setup q)
  then have c: "Suc (count_list q True) = of_bool (asked s)"
    using assms(2) by (simp add: ll_inv_def)
  then obtain u where u: "ll_pc s u = Ll_wait" and q: "count_list q True = 0"
    by (auto simp: asked_def of_bool_def split: if_splits)
  then have "\<And>v. v \<noteq> u \<Longrightarrow> ll_pc s v = Ll_idle" using ll_inv_one_user(2) [OF assms(2), of u] by simp
  moreover from this u have "\<not> (\<exists>v. ll_pc s v = Ll_send)" by (metis ll_pc.distinct)
  ultimately show ?thesis using receive_setup u q assms(2) by (auto simp: ll_inv_def asked_def stepped_back_def)
qed (use assms(2) in \<open>auto simp: ll_inv_def asked_def stepped_back_def\<close>)

lemma ll_inv_started: "ll_inv ll_started"
  by (simp add: ll_inv_def ll_started_def asked_def)

interpretation ll: state_machine ll_started "ll_step True" ll_inv
  by unfold_locales (auto intro: ll_inv_step ll_inv_started)

text \<open>
  C39. As long as one task at a time is between its setup and its shutdown for low-level
  reads, the operation thread has stepped back and executes no request while a task uses the
  device for them, from the end of the setup to the shutdown.
\<close>

theorem qspi_ll_excludes:
  assumes "(ll_step True)\<^sup>*\<^sup>* (snd (snd rtos_qspi_flash_start)) s" and "ll_pc s u = Ll_using"
  shows "op_pc s = Op_flagged \<or> op_pc s = Op_suspended"
  using ll.reachable[OF assms(1)[unfolded rtos_qspi_flash_start_def snd_conv]] assms(2)
  by (auto simp: ll_inv_def stepped_back_def)

text \<open>
  The thread clears the flag before it suspends itself. A shutdown that comes in between resumes a thread that
  is not suspended, and the thread then sleeps for ever, with all requests and the next setup.
\<close>

definition ll_lost :: ll_state where
  "ll_lost = \<lparr>op_queue = [], ll_req_flag = False, op_pc = Op_suspended, ll_pc = \<lambda>_. Ll_idle\<rparr>"

definition ll_used :: ll_state where
  "ll_used = \<lparr>op_queue = [], ll_req_flag = False, op_pc = Op_flagged, ll_pc = (\<lambda>_. Ll_idle)(0 := Ll_using)\<rparr>"

lemma ll_used_reached: "(ll_step alone)\<^sup>*\<^sup>* ll_started ll_used"
proof -
  let ?s1 = "ll_started\<lparr>ll_req_flag := True, ll_pc := (ll_pc ll_started)(0 := Ll_send)\<rparr>"
  let ?s2 = "?s1\<lparr>op_queue := op_queue ?s1 @ [True], ll_pc := (ll_pc ?s1)(0 := Ll_wait)\<rparr>"
  let ?s3 = "?s2\<lparr>op_queue := [], ll_req_flag := False, op_pc := Op_flagged\<rparr>"
  have "ll_step alone ll_started ?s1" by (rule ll_step.ask) (simp_all add: ll_started_def)
  moreover have "ll_step alone ?s1 ?s2" by (rule ll_step.setup_send) (simp_all add: ll_started_def)
  moreover have "ll_step alone ?s2 ?s3" by (rule ll_step.receive_setup) (simp_all add: ll_started_def)
  moreover have "ll_step alone ?s3 ll_used"
    using ll_step.setup_done[of ?s3 0 alone] by (simp add: ll_started_def ll_used_def)
  ultimately show ?thesis by (meson rtranclp.rtrancl_into_rtrancl rtranclp.rtrancl_refl)
qed

lemma resume_lost: "(ll_step alone)\<^sup>*\<^sup>* ll_started ll_lost"
proof -
  let ?s = "ll_used\<lparr>ll_pc := \<lambda>_. Ll_idle\<rparr>"
  have "ll_step alone ll_used ?s" using ll_step.shutdown[of ll_used 0 alone] by (simp add: ll_used_def fun_upd_idem)
  moreover have "ll_step alone ?s ll_lost" using ll_step.suspend[of ?s alone] by (simp add: ll_used_def ll_lost_def)
  ultimately show ?thesis using ll_used_reached by (meson rtranclp.rtrancl_into_rtrancl)
qed

lemma lost_for_ever:
  assumes "(ll_step True)\<^sup>*\<^sup>* ll_lost s"
  shows "op_pc s = Op_suspended \<and> ll_pc s u \<noteq> Ll_using"
proof -
  have "op_pc s = Op_suspended \<and> (\<forall>u. ll_pc s u \<noteq> Ll_using \<and> (ll_pc s u = Ll_wait \<or> ll_pc s u = Ll_send \<longrightarrow> ll_req_flag s))"
    using assms
  proof (induction rule: rtranclp_induct)
    case base
    then show ?case by (simp add: ll_lost_def)
  next
    case (step y z)
    from step.hyps(2) step.IH show ?case by cases auto
  qed
  then show ?thesis by simp
qed

theorem qspi_ll_excludes_witness:
  "(ll_step True)\<^sup>*\<^sup>* ll_started ll_used \<and> ll_pc ll_used 0 = Ll_using \<and> (op_pc ll_used = Op_flagged \<or> op_pc ll_used = Op_suspended)"
proof -
  have "(ll_step True)\<^sup>*\<^sup>* (snd (snd rtos_qspi_flash_start)) ll_used"
    using ll_used_reached by (simp add: rtos_qspi_flash_start_def)
  from qspi_ll_excludes[OF this, of 0] ll_used_reached show ?thesis by (simp add: ll_used_def)
qed

text \<open>
  The flag is one for all tasks. A second task that asks while the first one waits finds it cleared for the
  first one, passes on that handshake, and uses the device while the thread executes a request.
\<close>

definition ll_shared :: ll_state where
  "ll_shared = \<lparr>op_queue = [True], ll_req_flag = False, op_pc = Op_execute,
     ll_pc = (\<lambda>_. Ll_idle)(0 := Ll_idle, 1 := Ll_using)\<rparr>"

lemma second_setup_passes: "(ll_step False)\<^sup>*\<^sup>* ll_started ll_shared"
proof -
  let ?s = "\<lambda>q f p u v. \<lparr>op_queue = q, ll_req_flag = f, op_pc = p, ll_pc = (\<lambda>_. Ll_idle)(0 := u, 1 := v)\<rparr>"
  have i: "ll_started = ?s [] False Op_wait Ll_idle Ll_idle" by (simp add: ll_started_def fun_eq_iff)
  have 1: "ll_step False ll_started (?s [] True Op_wait Ll_send Ll_idle)"
    using ll_step.ask[of ll_started 0 False] by (simp add: i fun_upd_twist)
  have 2: "ll_step False (?s [] True Op_wait Ll_send Ll_idle) (?s [True] True Op_wait Ll_wait Ll_idle)"
    using ll_step.setup_send[of "?s [] True Op_wait Ll_send Ll_idle" 0 False] by (simp add: fun_upd_twist)
  have 3: "ll_step False (?s [True] True Op_wait Ll_wait Ll_idle) (?s [True] True Op_wait Ll_wait Ll_send)"
    using ll_step.ask[of "?s [True] True Op_wait Ll_wait Ll_idle" 1 False] by (simp add: fun_upd_twist)
  have 4: "ll_step False (?s [True] True Op_wait Ll_wait Ll_send) (?s [] False Op_flagged Ll_wait Ll_send)"
    using ll_step.receive_setup[of "?s [True] True Op_wait Ll_wait Ll_send" "[]" False] by simp
  have 5: "ll_step False (?s [] False Op_flagged Ll_wait Ll_send) (?s [] False Op_suspended Ll_wait Ll_send)"
    using ll_step.suspend[of "?s [] False Op_flagged Ll_wait Ll_send" False] by simp
  have 6: "ll_step False (?s [] False Op_suspended Ll_wait Ll_send) (?s [False] False Op_suspended Ll_wait Ll_send)"
    using ll_step.request[of "?s [] False Op_suspended Ll_wait Ll_send" False] by simp
  have 7: "ll_step False (?s [False] False Op_suspended Ll_wait Ll_send)
      (?s [False, True] False Op_suspended Ll_wait Ll_wait)"
    using ll_step.setup_send[of "?s [False] False Op_suspended Ll_wait Ll_send" 1 False] by (simp add: fun_upd_twist)
  have 8: "ll_step False (?s [False, True] False Op_suspended Ll_wait Ll_wait)
      (?s [False, True] False Op_suspended Ll_using Ll_wait)"
    using ll_step.setup_done[of "?s [False, True] False Op_suspended Ll_wait Ll_wait" 0 False]
    by (simp add: fun_upd_twist)
  have 9: "ll_step False (?s [False, True] False Op_suspended Ll_using Ll_wait)
      (?s [False, True] False Op_suspended Ll_using Ll_using)"
    using ll_step.setup_done[of "?s [False, True] False Op_suspended Ll_using Ll_wait" 1 False]
    by (simp add: fun_upd_twist)
  have 10: "ll_step False (?s [False, True] False Op_suspended Ll_using Ll_using)
      (?s [False, True] False Op_wait Ll_idle Ll_using)"
    using ll_step.shutdown[of "?s [False, True] False Op_suspended Ll_using Ll_using" 0 False]
    by (simp add: fun_upd_twist)
  have 11: "ll_step False (?s [False, True] False Op_wait Ll_idle Ll_using) ll_shared"
    using ll_step.receive[of "?s [False, True] False Op_wait Ll_idle Ll_using" "[True]" False]
    by (simp add: ll_shared_def)
  show ?thesis
    by (rule rtranclp.rtrancl_into_rtrancl[where r = "ll_step False", OF _ 11], rule rtranclp.rtrancl_into_rtrancl[where r = "ll_step False", OF _ 10],
        rule rtranclp.rtrancl_into_rtrancl[where r = "ll_step False", OF _ 9], rule rtranclp.rtrancl_into_rtrancl[where r = "ll_step False", OF _ 8],
        rule rtranclp.rtrancl_into_rtrancl[where r = "ll_step False", OF _ 7], rule rtranclp.rtrancl_into_rtrancl[where r = "ll_step False", OF _ 6],
        rule rtranclp.rtrancl_into_rtrancl[where r = "ll_step False", OF _ 5], rule rtranclp.rtrancl_into_rtrancl[where r = "ll_step False", OF _ 4],
        rule rtranclp.rtrancl_into_rtrancl[where r = "ll_step False", OF _ 3], rule rtranclp.rtrancl_into_rtrancl[where r = "ll_step False", OF _ 2],
        rule r_into_rtranclp[where r = "ll_step False", OF 1])
qed

end
