(* ===== verification/Spec2Isabelle.thy ===== *)
theory Spec2Isabelle
  imports I2c_Master Dhcp_Server Device_Control Qspi_Chip Ap_Cache Mrsw_Lock Mic_Array I2s Gpio_Rpc Qspi_Rpc
    Clock_Control Spi_Rpc Audio_Rpc Mkimage Intertile Pipeline Uart_Rpc Spi_Slave I2c_Slave Rtos_Irq Sntp Msc_Disk Dfu_Image Control_Host Swmem Wifi_Manager Dhcp_Life Qspi_Ll
begin

text \<open>
  A verification library for fwk_rtos, the XMOS RTOS framework.

  The framework runs FreeRTOS on the two tiles of an xcore.ai chip. A driver runs on the tile
  that owns its device: an interrupt or a thread on a core of its own moves the data, tasks use it
  through a local API, and the other tile reaches it by remote procedure calls over an intertile
  link. Software services run as tasks above the drivers. The library models the parts that carry
  logic of the framework's own; paths below are under src/modules unless they start with tools.

  Foundations
  Prelude: machine words, faults (a failed xassert, an access outside an object) as the left
    values of \<open>'a res\<close>, byte buffers with memcpy, little-endian words in memory, and the locale
    \<open>state_machine\<close> for step relations with an invariant.
  Rtos\_Support: rtos\_support (rtos\_time.c, rtos\_cores.c, rtos\_locks.c). The time of day, the
    numbering of the cores, the recursive locks.
  Rtos\_Irq: rtos\_irq.c. The pending words of the cores as a step relation with an invariant; no
    interrupt is lost.
  Mrsw\_Lock: sw\_services/concurrency\_support. Multiple-reader locks, reader and writer preferred,
    as step relations over the tasks; readers and writers exclude each other.
  Intertile: drivers/intertile. Senders, channel, interrupt and receivers of one direction of a
    link as a step relation; each port receives what was sent to it, in order.

  Remote calls
  Rtos\_Rpc: drivers/rpc (rtos\_rpc.c, rtos\_rpc.h). Parameter descriptors as the records of
    their bit fields, messages as byte lists; marshalling, parsing and unmarshalling of requests
    and responses, and the generic client call. The round-trip lemmas say that the host receives
    the inputs of the client and the client the outputs of the host; the locale \<open>rpc_service\<close> is
    what a host promises its clients, and its lemma \<open>client_call\<close> is the only thing a driver uses.
  Driver\_Rpc: rtos\_driver\_rpc.h and the initialisation, configuration and start that the drivers
    repeat. Its lemmas relate the port and the priority a driver was configured with to the
    threads it starts and to the calls it makes.
  Rpc\_Args, Rpc\_Words: what the remote halves of several drivers share. A dispatch thread is an
    interpretation of \<open>rpc_service\<close> for each of its function codes.

  Drivers
  I2c\_Master: drivers/i2c (rtos\_i2c\_master.c, rtos\_i2c\_master\_rpc.c). The local operations
    over lib\_i2c (the record \<open>i2c_api\<close>) and the remote ones, which refine them.
  I2c\_Slave: rtos\_i2c\_slave.c. The callbacks of the bus thread, the interrupt and the driver task.
  Spi\_Master, Spi\_Rpc: drivers/spi. The requests and the operation thread as an interpretation of
    \<open>state_machine\<close>: what the bus carries is what the tasks asked for, transactions do not mix.
    The remote half over any device that meets the locale \<open>spi_service\<close>, interpreted on the local
    driver.
  Spi\_Slave: rtos\_spi\_slave.c. Bus thread, interrupt, queue and driver task as a step relation.
  Gpio, Gpio\_Rpc: drivers/gpio. Ports, callbacks and interrupts, and the way of an interrupt to
    the callback of a client on the other tile.
  Uart, Uart\_Rpc: drivers/uart. Transmission under a mutex, reception through two bounded queues.
  Sample\_Ring, Mic\_Array, I2s, Audio\_Rpc: drivers/mic\_array, drivers/i2s. The ring of samples between
    an interrupt and the tasks, with the locale \<open>sample_pipe\<close> for a writer and a reader that agree on
    it; the drivers as functions and as an interleaving of both sides; the remote halves.
  Qspi\_Flash, Qspi\_Driver, Qspi\_Lock, Qspi\_Chip: drivers/qspi\_flash (rtos\_qspi\_flash.c).
    The chunked reads, page programs and sector erases over the flash libraries (the record
    \<open>flash_api\<close>), the operation thread and its refinement to an abstract memory; initialisation
    and the API; the lock as a step relation with its invariant, and the hand-over of read data;
    a concrete chip on which every assumption about the libraries holds.
  Qspi\_Rpc: rtos\_qspi\_flash\_rpc.c. The remote half; the locale \<open>flash_service\<close> is what a client of
    the flash relies on, and the local driver is its instance.
  Clock\_Control: drivers/clock\_control. Dividers, clocks, PLL and links, local and remote, and its lock.
  Dfu\_Image: drivers/dfu. Where the factory and the upgrade images are and can go.

  Services
  Dhcp\_Options, Dhcp\_Pool, Dhcp\_Upkeep, Dhcp\_Server: sw\_services/dhcpd (dhcpd.c, dhcpd.h).
    The option field; the address pool, an array of entries and the list that sorts them by
    expiry, with its invariant and the choice of an address; the expiry walk and the creation of
    the pool; the requests, the replies and the turns of the task. The network stack is the
    record \<open>net_api\<close>.
  Device\_Control, Control\_Transport, Control\_Host: sw\_services/device\_control. The resource table,
    registration of the servicers, commands on and off the gateway's tile; the callbacks of the
    I2C, SPI and USB transports; the host side. The locale \<open>control_link\<close>, interpreted on each of the
    three, says that a host's commands reach the servicers whatever their tile.
  Heapsort, Ap\_Cache: sw\_services/wifi\_manager. The heapsort over the locale \<open>strict_weak_order\<close>, and
    the cache of access points whose comparison is the instance.
  Sntp: sw\_services/sntpd. Request, answer, and the loop of a session.
  Pipeline: sw\_services/generic\_pipeline. The stages as a step relation; frames come out in order.
  Disk, Msc\_Disk: sw\_services/fatfs (diskio.c) and sw\_services/usb/msc. Disks in the flash (the locale
    \<open>flash_disk\<close> over \<open>flash_service\<close>, interpreted on the local driver) and in memory, both instances of
    \<open>msc_disks\<close>, what USB mass storage relies on.
  Osal: osal. The OS abstraction layer over the kernel (the record \<open>kernel\<close>), for tasks and interrupts,
    refined to queues, semaphores, mutexes and event groups.
  Swmem: drivers/swmem, drivers/l2\_cache. Fills and evictions between the interrupts and the thread as a
    step relation over \<open>state_machine\<close>, and their progress.
  Wifi\_Manager: the task of sw\_services/wifi\_manager above that cache: its start, a turn of its loop, and the
    calls of other tasks; what its variables hold stays well formed.
  Dhcp\_Life: the start and the stop of the DHCP server beside its task, and the replies to pings, as a step
    relation with the locale \<open>state_machine\<close>.
  Qspi\_Ll: the hand-over of the QSPI device to the low-level reads of any task, as a step relation.

  Tools
  Image\_Args, Image\_File, Mkimage: tools/datapartition\_mkimage. Command line, output stream, and the
    image: each input at its offset, the fill value elsewhere.

  Numbers and memory. Words have their C width; sizes and addresses that the code keeps in
  unsigned ints are natural numbers with the wrap-around written out where it can happen; an int sum
  that leaves its range is the fault \<open>Int_overflow\<close>. A
  pointer argument is the byte list it points to, and an access outside it is \<open>Inl Bad_access\<close>.
  Pointers and ints are four bytes, little-endian, as on xcore. Allocation is assumed to succeed
  except where the code tests it, and what a fresh block contains is a parameter.

  Loops and waiting. Loops bounded by their data are structural recursions. Loops that may not end
  (the flash driver's, the creation of the pool, the writes of the image tool, the transfers of the
  SPI host) are \<open>partial_function\<close>s with \<open>None\<close> for a loop that never ends, and the theorems state that
  they end. The expiry walk follows the kernel's list and is given the length of the list as its
  number of steps, which is the bound of the code's loop. A call that waits for ever is
  \<open>Never_returns\<close> where a function is modelled, and a step that is not enabled in a step relation;
  there progress is a theorem of its own.

  Assumptions. What the code expects of a library or of the kernel is a hypothesis on the record or
  function that stands for it (\<open>nor_flash_ok\<close>, \<open>modes_ok\<close>, \<open>lib_ok\<close> for the flash), with an instance that
  satisfies it. Of the kernel: a mutex has an owner, a queue is first in, first out, an event group has
  24 bits to use, and one that a task waits for stays set until one took it. Of an application: fewer
  than 24 ports of a link are used and each by one receiver; the disks in the flash have blocks of 4096
  bytes, in a flash that is read as it was written. Where a property holds only for an order of events
  that the code does not enforce, the step relation has a parameter that says whether the order is
  kept, the relation itself allows every order, and a lemma shows what goes wrong otherwise: a task
  that asks the microphones for more after a timeout, the master of an SPI slave that ends a transaction
  before the interrupt of the last one, two tasks at once in low-level reads of the flash, a start of
  the DHCP server before the last one has ended.

  Not modelled: the FreeRTOS kernel, lwIP or FreeRTOS+TCP, FatFs, TinyUSB, mbedTLS, coreMQTT and the
  xcore libraries (not in the repository); libusb, argtable3 and tinydir (copies of other projects);
  interrupt masks, task priorities and stack sizes; diagnostic output and trace, which writes in the
  format of another program; the ports of the WF200 driver, MQTT and TLS, which pass calls on to
  vendor code; board support, which only sets registers up.
\<close>

end
